(* ===== verification/IOC_Prelude.thy ===== *)
theory IOC_Prelude
  imports Main "HOL-Library.Word"
begin

text \<open>
  Shared vocabulary of the development: machine integers, results of fallible
  operations, byte buffers and the proof collections the component theories use.

  \<^item> \<open>size_t\<close> is \<^typ>\<open>nat\<close> below \<open>W64 = 2 ^ 64\<close>; the additions and subtractions of
    the code are \<open>add64\<close> and \<open>sub64\<close>, with the wrap-around written out.
  \<^item> A failing \<open>assume\<close>, \<open>assert\<close> or an undefined memory access is a value
    \<open>Inl e\<close> of the result type \<open>'a result\<close>; \<open>bindE\<close> sequences results.
  \<^item> A byte buffer is a \<open>byte list\<close>; \<open>slice\<close> reads a window of it and \<open>patch\<close> is
    what \<open>memcpy\<close> leaves in the destination.
\<close>

section \<open>Proof collections\<close>

named_theorems size_simps "unsigned 64 bit arithmetic without wrap-around"
named_theorems buffer_simps "reading and overwriting windows of a byte list"
named_theorems wire_simps "effect of the serializer on a message buffer"

section \<open>Unsigned 64 bit arithmetic\<close>

type_synonym size_t = nat
type_synonym byte = "8 word"

definition W64 :: nat where
  "W64 = 2 ^ 64"

definition add64 :: "size_t \<Rightarrow> size_t \<Rightarrow> size_t" where
  "add64 a b = (a + b) mod W64"

definition sub64 :: "size_t \<Rightarrow> size_t \<Rightarrow> size_t" where
  "sub64 a b = (if b \<le> a then a - b else a + W64 - b)"

definition mul64 :: "size_t \<Rightarrow> size_t \<Rightarrow> size_t" where
  "mul64 a b = (a * b) mod W64"

lemma W64_pos [simp]: "0 < W64"
  by (simp add: W64_def)

lemma add64_small [simp, size_simps]: "a + b < W64 \<Longrightarrow> add64 a b = a + b"
  by (simp add: add64_def)

lemma add64_less [simp]: "add64 a b < W64"
  by (simp add: add64_def)

lemma sub64_le [simp, size_simps]: "b \<le> a \<Longrightarrow> sub64 a b = a - b"
  by (simp add: sub64_def)

lemma mul64_small [size_simps]: "a * b < W64 \<Longrightarrow> mul64 a b = a * b"
  by (simp add: mul64_def)

section \<open>Results\<close>

text \<open>
  The ways an operation of the program stops the process: a failed \<open>assume\<close> or
  \<open>IOC_FATAL\<close> (prints and aborts), a failed \<open>assert\<close> (debug build), or an access
  the language gives no meaning to.  A call of \<open>exit\<close> is \<open>Exited\<close>, a loop that never
  ends is \<open>Diverges\<close>.
\<close>

datatype ioc_error =
    AssumeFailed string
  | AssertFailed string
  | NullDereference
  | OutOfBounds
  | UseAfterFree
  | UninitialisedRead
  | DivisionByZero
  | Diverges
  | Exited string

type_synonym 'a result = "ioc_error + 'a"

definition bindE :: "'a result \<Rightarrow> ('a \<Rightarrow> 'b result) \<Rightarrow> 'b result" where
  "bindE m f = (case m of Inl e \<Rightarrow> Inl e | Inr x \<Rightarrow> f x)"

definition assumeE :: "bool \<Rightarrow> string \<Rightarrow> unit result" where
  "assumeE c msg = (if c then Inr () else Inl (AssumeFailed msg))"

definition assertE :: "bool \<Rightarrow> string \<Rightarrow> unit result" where
  "assertE c msg = (if c then Inr () else Inl (AssertFailed msg))"

lemma bindE_Inl [simp]: "bindE (Inl e) f = Inl e"
  by (simp add: bindE_def)

lemma bindE_Inr [simp]: "bindE (Inr x) f = f x"
  by (simp add: bindE_def)

lemma bindE_eq_Inr: "bindE m f = Inr y \<longleftrightarrow> (\<exists>x. m = Inr x \<and> f x = Inr y)"
  by (cases m) auto

lemma bindE_eq_Inl: "bindE m f = Inl e \<longleftrightarrow> m = Inl e \<or> (\<exists>x. m = Inr x \<and> f x = Inl e)"
  by (cases m) auto

lemma bindE_InrE [elim]:
  assumes "bindE m f = Inr y"
  obtains x where "m = Inr x" "f x = Inr y"
  using assms by (auto simp: bindE_eq_Inr)

lemma bindE_cong [fundef_cong]:
  assumes "m = m'" and "\<And>x. m' = Inr x \<Longrightarrow> f x = g x"
  shows "bindE m f = bindE m' g"
  using assms by (cases m') auto

lemma assumeE_eq_Inr [simp]: "assumeE c msg = Inr u \<longleftrightarrow> c"
  by (simp add: assumeE_def)

lemma assertE_eq_Inr [simp]: "assertE c msg = Inr u \<longleftrightarrow> c"
  by (simp add: assertE_def)

lemma assumeE_True [simp]: "c \<Longrightarrow> assumeE c msg = Inr ()"
  by (simp add: assumeE_def)

lemma assertE_True [simp]: "c \<Longrightarrow> assertE c msg = Inr ()"
  by (simp add: assertE_def)

lemma assumeE_False [simp]: "\<not> c \<Longrightarrow> assumeE c msg = Inl (AssumeFailed msg)"
  by (simp add: assumeE_def)

lemma assertE_False [simp]: "\<not> c \<Longrightarrow> assertE c msg = Inl (AssertFailed msg)"
  by (simp add: assertE_def)

section \<open>Byte buffers\<close>

definition slice :: "nat \<Rightarrow> nat \<Rightarrow> 'a list \<Rightarrow> 'a list" where
  "slice off n xs = take n (drop off xs)"

definition patch :: "nat \<Rightarrow> 'a list \<Rightarrow> 'a list \<Rightarrow> 'a list" where
  "patch off ys xs = take off xs @ ys @ drop (off + length ys) xs"

lemma length_slice [simp, buffer_simps]: "off + n \<le> length xs \<Longrightarrow> length (slice off n xs) = n"
  by (simp add: slice_def)

lemma length_patch [simp, buffer_simps]:
  "off + length ys \<le> length xs \<Longrightarrow> length (patch off ys xs) = length xs"
  by (simp add: patch_def)

lemma nth_slice [simp, buffer_simps]:
  "off + n \<le> length xs \<Longrightarrow> i < n \<Longrightarrow> slice off n xs ! i = xs ! (off + i)"
  by (simp add: slice_def)

lemma nth_patch [buffer_simps]:
  assumes "off + length ys \<le> length xs" "i < length xs"
  shows "patch off ys xs ! i =
    (if off \<le> i \<and> i < off + length ys then ys ! (i - off) else xs ! i)"
  using assms by (auto simp: patch_def nth_append min_def)

lemma slice_patch_same [simp, buffer_simps]:
  "off + length ys \<le> length xs \<Longrightarrow> n = length ys \<Longrightarrow> slice off n (patch off ys xs) = ys"
  by (simp add: slice_def patch_def)

lemma slice_0 [simp]: "slice off 0 xs = []"
  by (simp add: slice_def)

lemma slice_full [simp]: "n = length xs \<Longrightarrow> slice 0 n xs = xs"
  by (simp add: slice_def)

lemma patch_full: "length ys = length xs \<Longrightarrow> patch 0 ys xs = ys"
  by (simp add: patch_def)

lemma patch_Nil [simp]: "patch off [] xs = xs"
  by (simp add: patch_def)

lemma slice_append_slice:
  "off + n + k \<le> length xs \<Longrightarrow> slice off n xs @ slice (off + n) k xs = slice off (n + k) xs"
  by (simp add: slice_def take_add) (simp add: add.commute)

end
