(* ===== verification/Consistency_Tracker.thy ===== *)
theory Consistency_Tracker
  imports IOC_Prelude
begin

text \<open>
  \<open>ConsistencyTracker\<close> (src/server/core/ConsistencyTracker.hpp and .cpp): the ranges the
  clients of one object have mapped, with exclusive write access.  Each public method
  holds the mutex for its whole body, so one method call is one step.

  The invariant \<open>tracker_inv\<close> says that two registered ranges that collide are both
  read ranges; \<open>tracker_step\<close> are the calls the server makes, and the invariant holds in
  every reachable tracker.
\<close>

section \<open>State\<close>

datatype ConsistencyAccessMode = CONSIST_ACCESS_MODE_READ | CONSIST_ACCESS_MODE_WRITE

record ConsistencyRange =
  cr_tcpClientId :: nat
  cr_id :: int
  cr_offset :: size_t
  cr_size :: size_t
  cr_accessMode :: ConsistencyAccessMode

record ConsistencyTracker =
  ct_ranges :: "ConsistencyRange list"
  ct_nextId :: int

section \<open>Operations\<close>

definition ConsistencyTracker_init :: ConsistencyTracker where
  "ConsistencyTracker_init = \<lparr>ct_ranges = [], ct_nextId = 1\<rparr>"

definition range_overlap :: "size_t \<Rightarrow> size_t \<Rightarrow> size_t \<Rightarrow> size_t \<Rightarrow> bool" where
  "range_overlap offset1 size1 offset2 size2 =
     (if offset1 \<ge> offset2 \<and> offset1 < add64 offset2 size2 then True
      else if offset2 \<ge> offset1 \<and> offset2 < add64 offset1 size1 then True
      else False)"

text \<open>The loop of \<open>hasCollision\<close> over the range list, returning at the first collision.\<close>

fun hasCollision_loop ::
  "ConsistencyRange list \<Rightarrow> size_t \<Rightarrow> size_t \<Rightarrow> ConsistencyAccessMode \<Rightarrow> bool" where
  "hasCollision_loop [] off sz mode = False"
| "hasCollision_loop (it # its) off sz mode =
     (if range_overlap off sz (cr_offset it) (cr_size it) \<and>
         (mode \<noteq> cr_accessMode it \<or> cr_accessMode it = CONSIST_ACCESS_MODE_WRITE)
      then True else hasCollision_loop its off sz mode)"

definition hasCollision ::
  "ConsistencyTracker \<Rightarrow> size_t \<Rightarrow> size_t \<Rightarrow> ConsistencyAccessMode \<Rightarrow> bool" where
  "hasCollision t off sz mode = hasCollision_loop (ct_ranges t) off sz mode"

text \<open>\<open>int32_t nextId++\<close>: two's complement successor.\<close>

definition succ_i32 :: "int \<Rightarrow> int" where
  "succ_i32 x = (if x = 2147483647 then - 2147483648 else x + 1)"

definition registerRange ::
  "nat \<Rightarrow> size_t \<Rightarrow> size_t \<Rightarrow> ConsistencyAccessMode \<Rightarrow> ConsistencyTracker \<Rightarrow>
   int \<times> ConsistencyTracker" where
  "registerRange client off sz mode t =
     (if hasCollision t off sz mode then (-1, t)
      else
        let range = \<lparr>cr_tcpClientId = client, cr_id = ct_nextId t, cr_offset = off,
                     cr_size = sz, cr_accessMode = mode\<rparr>
        in (cr_id range,
            t\<lparr>ct_ranges := ct_ranges t @ [range], ct_nextId := succ_i32 (ct_nextId t)\<rparr>))"

definition range_matches ::
  "nat \<Rightarrow> int \<Rightarrow> size_t \<Rightarrow> size_t \<Rightarrow> ConsistencyAccessMode \<Rightarrow> ConsistencyRange \<Rightarrow> bool" where
  "range_matches client rid off sz mode it \<longleftrightarrow>
     cr_tcpClientId it = client \<and> cr_offset it = off \<and> cr_size it = sz \<and>
     cr_accessMode it = mode \<and> cr_id it = rid"

text \<open>The search loop of \<open>unregisterRange\<close>: erase the first match and stop.\<close>

fun unregister_loop ::
  "(ConsistencyRange \<Rightarrow> bool) \<Rightarrow> ConsistencyRange list \<Rightarrow> bool \<times> ConsistencyRange list" where
  "unregister_loop p [] = (False, [])"
| "unregister_loop p (it # its) =
     (if p it then (True, its)
      else let (found, its') = unregister_loop p its in (found, it # its'))"

definition unregisterRange ::
  "nat \<Rightarrow> int \<Rightarrow> size_t \<Rightarrow> size_t \<Rightarrow> ConsistencyAccessMode \<Rightarrow> ConsistencyTracker \<Rightarrow>
   bool \<times> ConsistencyTracker" where
  "unregisterRange client rid off sz mode t =
     (let (found, rs) = unregister_loop (range_matches client rid off sz mode) (ct_ranges t)
      in (found, t\<lparr>ct_ranges := rs\<rparr>))"

text \<open>The erase loop of \<open>clientDisconnect\<close>.\<close>

fun disconnect_loop :: "nat \<Rightarrow> ConsistencyRange list \<Rightarrow> ConsistencyRange list" where
  "disconnect_loop client [] = []"
| "disconnect_loop client (it # its) =
     (if cr_tcpClientId it = client then disconnect_loop client its
      else it # disconnect_loop client its)"

definition clientDisconnect :: "nat \<Rightarrow> ConsistencyTracker \<Rightarrow> ConsistencyTracker" where
  "clientDisconnect client t = t\<lparr>ct_ranges := disconnect_loop client (ct_ranges t)\<rparr>"

section \<open>What the loops compute\<close>

abbreviation conflicting :: "ConsistencyAccessMode \<Rightarrow> ConsistencyAccessMode \<Rightarrow> bool" where
  "conflicting m n \<equiv> m \<noteq> n \<or> n = CONSIST_ACCESS_MODE_WRITE"

lemma hasCollision_loop_iff:
  "hasCollision_loop rs off sz mode \<longleftrightarrow>
     (\<exists>r \<in> set rs. range_overlap off sz (cr_offset r) (cr_size r) \<and>
                   conflicting mode (cr_accessMode r))"
  by (induction rs) auto

lemma unregister_loop_found: "fst (unregister_loop p rs) \<longleftrightarrow> (\<exists>r \<in> set rs. p r)"
  by (induction rs) (auto split: prod.splits)

lemma unregister_loop_remove:
  "snd (unregister_loop p rs) = takeWhile (\<lambda>r. \<not> p r) rs @ drop 1 (dropWhile (\<lambda>r. \<not> p r) rs)"
  by (induction rs) (auto split: prod.splits)

lemma unregister_loop_subset: "set (snd (unregister_loop p rs)) \<subseteq> set rs"
  by (induction rs) (auto split: prod.splits)

lemma disconnect_loop_filter:
  "disconnect_loop client rs = filter (\<lambda>r. cr_tcpClientId r \<noteq> client) rs"
  by (induction rs) auto

lemma range_overlap_iff:
  assumes "o1 + s1 < W64" "o2 + s2 < W64"
  shows "range_overlap o1 s1 o2 s2 \<longleftrightarrow>
    (o2 \<le> o1 \<and> o1 < o2 + s2) \<or> (o1 \<le> o2 \<and> o2 < o1 + s1)"
  using assms by (auto simp: range_overlap_def)

text \<open>Two ranges that do not wrap overlap when they share a byte.\<close>

lemma range_overlap_shared_byte:
  assumes "o1 + s1 < W64" "o2 + s2 < W64" "o1 \<le> i" "i < o1 + s1" "o2 \<le> i" "i < o2 + s2"
  shows "range_overlap o1 s1 o2 s2"
  using assms by (auto simp: range_overlap_iff)

lemma range_overlap_sym: "range_overlap o1 s1 o2 s2 = range_overlap o2 s2 o1 s1"
  by (auto simp: range_overlap_def)

section \<open>Invariant\<close>

definition ranges_compatible :: "ConsistencyRange \<Rightarrow> ConsistencyRange \<Rightarrow> bool" where
  "ranges_compatible r s \<longleftrightarrow>
     \<not> range_overlap (cr_offset r) (cr_size r) (cr_offset s) (cr_size s) \<or>
     cr_accessMode r = CONSIST_ACCESS_MODE_READ \<and> cr_accessMode s = CONSIST_ACCESS_MODE_READ"

definition tracker_inv :: "ConsistencyTracker \<Rightarrow> bool" where
  "tracker_inv t \<longleftrightarrow> sorted_wrt ranges_compatible (ct_ranges t)"

lemma tracker_inv_init: "tracker_inv ConsistencyTracker_init"
  by (simp add: tracker_inv_def ConsistencyTracker_init_def)

lemma compatible_no_collision:
  assumes "\<not> hasCollision t off sz mode" "r \<in> set (ct_ranges t)"
    "cr_offset s = off" "cr_size s = sz" "cr_accessMode s = mode"
  shows "ranges_compatible r s"
proof -
  have "range_overlap off sz (cr_offset r) (cr_size r) \<Longrightarrow> \<not> conflicting mode (cr_accessMode r)"
    using assms(1,2) by (auto simp: hasCollision_def hasCollision_loop_iff)
  with assms(3-5) show ?thesis
    by (cases mode; cases "cr_accessMode r")
      (auto simp: ranges_compatible_def range_overlap_sym [of "cr_offset r"])
qed

lemma registerRange_inv: "tracker_inv t \<Longrightarrow> tracker_inv (snd (registerRange c off sz m t))"
  using compatible_no_collision [of t off sz m]
  by (simp add: registerRange_def tracker_inv_def sorted_wrt_append Let_def)

lemma sorted_wrt_unregister_loop:
  "sorted_wrt P rs \<Longrightarrow> sorted_wrt P (snd (unregister_loop p rs))"
proof (induction rs)
  case (Cons r rs)
  then show ?case
    using unregister_loop_subset [of p rs] by (auto split: prod.splits)
qed simp

lemma unregisterRange_inv: "tracker_inv t \<Longrightarrow> tracker_inv (snd (unregisterRange c i off sz m t))"
  using sorted_wrt_unregister_loop [of ranges_compatible "ct_ranges t"]
  by (simp add: unregisterRange_def tracker_inv_def split: prod.splits) (metis snd_conv)

lemma clientDisconnect_inv: "tracker_inv t \<Longrightarrow> tracker_inv (clientDisconnect c t)"
  by (simp add: clientDisconnect_def tracker_inv_def disconnect_loop_filter sorted_wrt_filter)

lemma unregister_loop_snoc:
  "\<forall>r \<in> set rs. \<not> p r \<Longrightarrow> p x \<Longrightarrow> unregister_loop p (rs @ [x]) = (True, rs)"
  by (induction rs) auto

section \<open>Interface of a range registry\<close>

text \<open>
  What the range hooks and the container rely on: a registration that collides is refused
  and changes nothing, a granted one is appended under the next identifier, an
  un-registration erases the first exact match, a disconnection erases the ranges of that
  client and no other.
\<close>

locale range_registry =
  fixes reg :: "nat \<Rightarrow> size_t \<Rightarrow> size_t \<Rightarrow> ConsistencyAccessMode \<Rightarrow> 't \<Rightarrow> int \<times> 't"
    and unreg :: "nat \<Rightarrow> int \<Rightarrow> size_t \<Rightarrow> size_t \<Rightarrow> ConsistencyAccessMode \<Rightarrow> 't \<Rightarrow> bool \<times> 't"
    and disc :: "nat \<Rightarrow> 't \<Rightarrow> 't"
    and ranges :: "'t \<Rightarrow> ConsistencyRange list"
    and fresh_id :: "'t \<Rightarrow> int"
  assumes reg_refused: "hasCollision_loop (ranges t) off sz m \<Longrightarrow> reg c off sz m t = (-1, t)"
    and reg_granted: "\<not> hasCollision_loop (ranges t) off sz m \<Longrightarrow>
      fst (reg c off sz m t) = fresh_id t \<and>
      ranges (snd (reg c off sz m t)) =
        ranges t @ [\<lparr>cr_tcpClientId = c, cr_id = fresh_id t, cr_offset = off, cr_size = sz,
                     cr_accessMode = m\<rparr>]"
    and unreg_ranges: "ranges (snd (unreg c i off sz m t)) =
        snd (unregister_loop (range_matches c i off sz m) (ranges t))"
    and unreg_found: "fst (unreg c i off sz m t) =
        fst (unregister_loop (range_matches c i off sz m) (ranges t))"
    and disc_ranges: "ranges (disc c t) = disconnect_loop c (ranges t)"
begin

text \<open>Registering and un-registering with the returned identifier is the identity.\<close>

lemma reg_unreg:
  assumes "\<not> hasCollision_loop (ranges t) off sz m"
    and "\<forall>r \<in> set (ranges t). cr_id r \<noteq> fresh_id t"
    and "reg c off sz m t = (i, t')"
  shows "fst (unreg c i off sz m t') \<and> ranges (snd (unreg c i off sz m t')) = ranges t"
  using reg_granted [OF assms(1), of c] assms(2,3)
    unregister_loop_snoc [of "ranges t" "range_matches c i off sz m"]
  by (auto simp: unreg_ranges unreg_found range_matches_def)

text \<open>Once the clients in the way are gone, the registration is granted.\<close>

lemma reg_after_disc:
  assumes "\<And>r. r \<in> set (ranges t) \<Longrightarrow>
      range_overlap off sz (cr_offset r) (cr_size r) \<Longrightarrow>
      conflicting m (cr_accessMode r) \<Longrightarrow> cr_tcpClientId r = d"
  shows "fst (reg c off sz m (disc d t)) = fresh_id (disc d t)"
proof -
  have "\<not> hasCollision_loop (ranges (disc d t)) off sz m"
    using assms by (auto simp: disc_ranges disconnect_loop_filter hasCollision_loop_iff)
  then show ?thesis using reg_granted by blast
qed

end

interpretation tracker: range_registry registerRange unregisterRange clientDisconnect ct_ranges ct_nextId
  by unfold_locales
    (auto simp: registerRange_def unregisterRange_def clientDisconnect_def hasCollision_def Let_def
      split: prod.splits)

section \<open>Reachable trackers\<close>

text \<open>
  The calls the server makes: the register hook, the un-register hook and the
  disconnection of a TCP client, in any order and with any arguments.  The first argument
  counts the registrations.
\<close>

inductive tracker_reachable :: "nat \<Rightarrow> ConsistencyTracker \<Rightarrow> bool" where
  start: "tracker_reachable 0 ConsistencyTracker_init"
| register: "tracker_reachable n t \<Longrightarrow>
    tracker_reachable (Suc n) (snd (registerRange c off sz m t))"
| unregister: "tracker_reachable n t \<Longrightarrow>
    tracker_reachable n (snd (unregisterRange c i off sz m t))"
| disconnect: "tracker_reachable n t \<Longrightarrow> tracker_reachable n (clientDisconnect c t)"

lemma reachable_tracker_inv: "tracker_reachable n t \<Longrightarrow> tracker_inv t"
  by (induction rule: tracker_reachable.induct)
    (simp_all add: tracker_inv_init registerRange_inv unregisterRange_inv clientDisconnect_inv)

definition tracker_ids :: "ConsistencyTracker \<Rightarrow> bool" where
  "tracker_ids t \<longleftrightarrow> distinct (map cr_id (ct_ranges t)) \<and>
     (\<forall>r \<in> set (ct_ranges t). 0 < cr_id r \<and> cr_id r < ct_nextId t) \<and> 0 < ct_nextId t"

lemma unregister_loop_distinct:
  "distinct (map f rs) \<Longrightarrow> distinct (map f (snd (unregister_loop p rs)))"
proof (induction rs)
  case (Cons r rs)
  then show ?case
    using unregister_loop_subset [of p rs] by (auto split: prod.splits)
qed simp

lemma unregister_tracker_ids:
  assumes "tracker_ids t"
  shows "tracker_ids (snd (unregisterRange c i off sz m t))"
  using assms unregister_loop_distinct [of cr_id "ct_ranges t"]
    unregister_loop_subset [of "range_matches c i off sz m" "ct_ranges t"]
  by (auto simp: tracker_ids_def tracker.unreg_ranges unregisterRange_def split: prod.splits)
    (metis snd_conv)

lemma reachable_nextId: "tracker_reachable n t \<Longrightarrow> n \<le> 2147483646 \<Longrightarrow> ct_nextId t \<le> int n + 1"
  by (induction rule: tracker_reachable.induct)
    (auto simp: ConsistencyTracker_init_def registerRange_def unregisterRange_def
      clientDisconnect_def succ_i32_def Let_def split: prod.splits)

lemma register_tracker_ids:
  assumes "tracker_ids t" "ct_nextId t < 2147483647"
  shows "tracker_ids (snd (registerRange c off sz m t))"
  using assms by (auto simp: tracker_ids_def registerRange_def succ_i32_def Let_def)

lemma reachable_tracker_ids: "tracker_reachable n t \<Longrightarrow> n \<le> 2147483646 \<Longrightarrow> tracker_ids t"
proof (induction rule: tracker_reachable.induct)
  case start
  then show ?case by (simp add: tracker_ids_def ConsistencyTracker_init_def)
next
  case (register n t c off sz m)
  then have "ct_nextId t \<le> int n + 1" using reachable_nextId by simp
  with register show ?case using register_tracker_ids by simp
next
  case (unregister n t c i off sz m)
  then show ?case using unregister_tracker_ids by simp
next
  case (disconnect n t c)
  then show ?case
    by (auto simp: tracker_ids_def clientDisconnect_def disconnect_loop_filter distinct_map
        inj_on_def)
qed

section \<open>Properties\<close>

text \<open>
  C14. Exclusive write access: in every tracker the server can reach, if two distinct
  registered ranges (that do not wrap around the address space) contain a common byte,
  both were registered for reading.
\<close>

theorem write_ranges_exclusive:
  assumes "tracker_reachable n t"
    and "i < length (ct_ranges t)" "j < length (ct_ranges t)" "i \<noteq> j"
    and "r = ct_ranges t ! i" "s = ct_ranges t ! j"
    and "cr_offset r + cr_size r < W64" "cr_offset s + cr_size s < W64"
    and "cr_offset r \<le> b" "b < cr_offset r + cr_size r"
    and "cr_offset s \<le> b" "b < cr_offset s + cr_size s"
  shows "cr_accessMode r = CONSIST_ACCESS_MODE_READ \<and> cr_accessMode s = CONSIST_ACCESS_MODE_READ"
proof -
  have "ranges_compatible r s \<or> ranges_compatible s r"
    using reachable_tracker_inv [OF assms(1)] assms(2-6)
    by (auto simp: tracker_inv_def sorted_wrt_iff_nth_less neq_iff)
  then show ?thesis
    using range_overlap_shared_byte [OF assms(7-12)] range_overlap_sym
    by (auto simp: ranges_compatible_def)
qed

theorem write_ranges_exclusive_witness:
  "let t = snd (registerRange 1 0 10 CONSIST_ACCESS_MODE_READ
              (snd (registerRange 2 5 10 CONSIST_ACCESS_MODE_READ ConsistencyTracker_init)))
   in cr_accessMode (ct_ranges t ! 0) = CONSIST_ACCESS_MODE_READ \<and>
      cr_accessMode (ct_ranges t ! 1) = CONSIST_ACCESS_MODE_READ"
proof -
  let ?t = "snd (registerRange 1 0 10 CONSIST_ACCESS_MODE_READ
              (snd (registerRange 2 5 10 CONSIST_ACCESS_MODE_READ ConsistencyTracker_init)))"
  have "tracker_reachable (Suc (Suc 0)) ?t"
    by (intro tracker_reachable.register tracker_reachable.start)
  moreover have "ct_ranges ?t = [\<lparr>cr_tcpClientId = 2, cr_id = 1, cr_offset = 5, cr_size = 10,
      cr_accessMode = CONSIST_ACCESS_MODE_READ\<rparr>, \<lparr>cr_tcpClientId = 1, cr_id = 2, cr_offset = 0,
      cr_size = 10, cr_accessMode = CONSIST_ACCESS_MODE_READ\<rparr>]"
    by (simp add: registerRange_def hasCollision_def ConsistencyTracker_init_def succ_i32_def)
  ultimately show ?thesis
    unfolding Let_def
    by (intro write_ranges_exclusive [where i = 0 and j = 1 and b = 7]) (auto simp: W64_def)
qed

text \<open>
  Registration, on every branch: a request is refused with \<open>-1\<close> and leaves the tracker
  unchanged exactly when a registered range overlaps it and one of the two is a write
  range; otherwise the range is appended with the next identifier, which is positive and
  held by no other range as long as fewer than \<open>2 ^ 31 - 1\<close> registrations were made.
\<close>

theorem registerRange_spec:
  assumes "tracker_reachable n t" "n \<le> 2147483646"
  shows "registerRange c off sz m t =
     (if \<exists>r \<in> set (ct_ranges t). range_overlap off sz (cr_offset r) (cr_size r) \<and>
             (m = CONSIST_ACCESS_MODE_WRITE \<or> cr_accessMode r = CONSIST_ACCESS_MODE_WRITE)
      then (-1, t)
      else (ct_nextId t,
        \<lparr>ct_ranges = ct_ranges t @ [\<lparr>cr_tcpClientId = c, cr_id = ct_nextId t, cr_offset = off,
            cr_size = sz, cr_accessMode = m\<rparr>], ct_nextId = succ_i32 (ct_nextId t)\<rparr>))
   \<and> 0 < ct_nextId t \<and> ct_nextId t \<notin> cr_id ` set (ct_ranges t)"
proof -
  have "conflicting m k \<longleftrightarrow> m = CONSIST_ACCESS_MODE_WRITE \<or> k = CONSIST_ACCESS_MODE_WRITE" for k
    by (cases m; cases k) auto
  then show ?thesis
    using reachable_tracker_ids [OF assms]
    by (auto simp: registerRange_def hasCollision_def hasCollision_loop_iff tracker_ids_def)
qed

theorem registerRange_spec_witness:
  "tracker_reachable 0 ConsistencyTracker_init \<and>
   registerRange 7 0 16 CONSIST_ACCESS_MODE_WRITE ConsistencyTracker_init =
     (1, \<lparr>ct_ranges = [\<lparr>cr_tcpClientId = 7, cr_id = 1, cr_offset = 0, cr_size = 16,
        cr_accessMode = CONSIST_ACCESS_MODE_WRITE\<rparr>], ct_nextId = 2\<rparr>)"
  using registerRange_spec [OF tracker_reachable.start, of 7 0 16 CONSIST_ACCESS_MODE_WRITE]
    tracker_reachable.start
  by (simp add: ConsistencyTracker_init_def succ_i32_def)

text \<open>
  Round trip of the mapping protocol: a granted registration followed by an
  un-registration with the returned identifier and the same arguments succeeds and
  restores the list of ranges; the same un-registration repeated is refused.
\<close>

theorem register_unregister_roundtrip:
  assumes "tracker_reachable n t" "n \<le> 2147483646"
    and "registerRange c off sz m t = (i, t')" "i \<noteq> -1"
  shows "fst (unregisterRange c i off sz m t') \<and>
    ct_ranges (snd (unregisterRange c i off sz m t')) = ct_ranges t \<and>
    \<not> fst (unregisterRange c i off sz m (snd (unregisterRange c i off sz m t')))"
proof -
  note ids = reachable_tracker_ids [OF assms(1,2)]
  have nc: "\<not> hasCollision_loop (ct_ranges t) off sz m"
    using tracker.reg_refused assms(3,4) by auto
  have fresh: "\<forall>r \<in> set (ct_ranges t). cr_id r \<noteq> ct_nextId t"
    using ids by (auto simp: tracker_ids_def)
  have "i = ct_nextId t" using tracker.reg_granted [OF nc, of c] assms(3) by simp
  then show ?thesis
    using tracker.reg_unreg [OF nc fresh assms(3)] fresh
    by (auto simp: tracker.unreg_found unregister_loop_found range_matches_def)
qed

theorem register_unregister_roundtrip_witness:
  "fst (unregisterRange 3 1 0 8 CONSIST_ACCESS_MODE_WRITE
      (snd (registerRange 3 0 8 CONSIST_ACCESS_MODE_WRITE ConsistencyTracker_init)))"
proof -
  have "registerRange 3 0 8 CONSIST_ACCESS_MODE_WRITE ConsistencyTracker_init =
      (1, snd (registerRange 3 0 8 CONSIST_ACCESS_MODE_WRITE ConsistencyTracker_init))"
    by (simp add: registerRange_def hasCollision_def ConsistencyTracker_init_def)
  from register_unregister_roundtrip [OF tracker_reachable.start _ this] show ?thesis by simp
qed

text \<open>
  A disconnected client holds nothing: after \<open>clientDisconnect\<close> the tracker keeps the
  ranges of the other clients in their order and none of that client, and a registration
  that only the disconnected client stood in the way of is granted.
\<close>

theorem clientDisconnect_releases:
  assumes "\<And>r. r \<in> set (ct_ranges t) \<Longrightarrow>
      range_overlap off sz (cr_offset r) (cr_size r) \<Longrightarrow>
      m = CONSIST_ACCESS_MODE_WRITE \<or> cr_accessMode r = CONSIST_ACCESS_MODE_WRITE \<Longrightarrow>
      cr_tcpClientId r = d"
  shows "ct_ranges (clientDisconnect d t) = filter (\<lambda>r. cr_tcpClientId r \<noteq> d) (ct_ranges t) \<and>
    fst (registerRange c off sz m (clientDisconnect d t)) = ct_nextId t"
proof -
  have "conflicting m k \<Longrightarrow> m = CONSIST_ACCESS_MODE_WRITE \<or> k = CONSIST_ACCESS_MODE_WRITE" for k
    by (cases m; cases k) auto
  then have "fst (registerRange c off sz m (clientDisconnect d t)) = ct_nextId (clientDisconnect d t)"
    using assms by (intro tracker.reg_after_disc) blast
  then show ?thesis by (simp add: clientDisconnect_def disconnect_loop_filter)
qed

theorem clientDisconnect_releases_witness:
  "fst (registerRange 2 0 8 CONSIST_ACCESS_MODE_WRITE (clientDisconnect 1
     (snd (registerRange 1 4 8 CONSIST_ACCESS_MODE_WRITE ConsistencyTracker_init)))) = 2"
proof -
  let ?t = "snd (registerRange 1 4 8 CONSIST_ACCESS_MODE_WRITE ConsistencyTracker_init)"
  have t: "ct_ranges ?t = [\<lparr>cr_tcpClientId = 1, cr_id = 1, cr_offset = 4, cr_size = 8,
      cr_accessMode = CONSIST_ACCESS_MODE_WRITE\<rparr>]" "ct_nextId ?t = 2"
    by (simp_all add: registerRange_def hasCollision_def ConsistencyTracker_init_def succ_i32_def)
  have "fst (registerRange 2 0 8 CONSIST_ACCESS_MODE_WRITE (clientDisconnect 1 ?t)) = ct_nextId ?t"
    using clientDisconnect_releases [of ?t 0 8 CONSIST_ACCESS_MODE_WRITE 1 2] t(1) by simp
  then show ?thesis using t(2) by simp
qed

end
