(* ===== verification/Std_Map.thy ===== *)
theory Std_Map
  imports IOC_Prelude
begin

text \<open>
  \<open>std::map\<close> as the program uses it: an association list in strictly ascending key order.
  Iterators are suffixes of the list, so \<open>lower_bound\<close> returns the suffix that starts at the
  first key not below its argument.  The locale \<open>ordered_map\<close> is the interface the
  components rely on; it is interpreted on this representation.
\<close>

type_synonym ('k, 'v) std_map = "('k \<times> 'v) list"

definition sm_ok :: "('k::linorder, 'v) std_map \<Rightarrow> bool" where
  "sm_ok m \<longleftrightarrow> sorted_wrt (<) (map fst m)"

abbreviation sm_find :: "('k, 'v) std_map \<Rightarrow> 'k \<Rightarrow> 'v option" where
  "sm_find m k \<equiv> map_of m k"

text \<open>\<open>m[k] = v\<close>\<close>

fun sm_set :: "'k::linorder \<Rightarrow> 'v \<Rightarrow> ('k, 'v) std_map \<Rightarrow> ('k, 'v) std_map" where
  "sm_set k v [] = [(k, v)]"
| "sm_set k v ((k', v') # m) =
     (if k < k' then (k, v) # (k', v') # m
      else if k = k' then (k, v) # m
      else (k', v') # sm_set k v m)"

definition sm_erase :: "'k \<Rightarrow> ('k, 'v) std_map \<Rightarrow> ('k, 'v) std_map" where
  "sm_erase k m = filter (\<lambda>(k', _). k' \<noteq> k) m"

definition sm_lower_bound :: "'k::linorder \<Rightarrow> ('k, 'v) std_map \<Rightarrow> ('k, 'v) std_map" where
  "sm_lower_bound k m = dropWhile (\<lambda>(k', _). k' < k) m"

definition sm_map_values :: "('v \<Rightarrow> 'w) \<Rightarrow> ('k, 'v) std_map \<Rightarrow> ('k, 'w) std_map" where
  "sm_map_values f m = map (\<lambda>(k, v). (k, f v)) m"

section \<open>Lemmas\<close>

lemma sm_ok_Nil [simp]: "sm_ok []"
  by (simp add: sm_ok_def)

lemma sm_ok_Cons [simp]:
  "sm_ok ((k, v) # m) \<longleftrightarrow> (\<forall>(k', v') \<in> set m. k < k') \<and> sm_ok m"
  by (auto simp: sm_ok_def)

lemma sm_ok_distinct: "sm_ok m \<Longrightarrow> distinct (map fst m)"
  by (simp add: sm_ok_def strict_sorted_iff)

lemma sm_find_in: "sm_ok m \<Longrightarrow> (k, v) \<in> set m \<longleftrightarrow> sm_find m k = Some v"
  using sm_ok_distinct by (metis map_of_SomeD map_of_is_SomeI)

lemma sm_find_set [simp]: "sm_find (sm_set k v m) = (sm_find m)(k \<mapsto> v)"
  by (induction m) auto

lemma set_sm_set_subset: "set (sm_set k v m) \<subseteq> insert (k, v) (set m)"
  by (induction m) (auto split: if_splits)

lemma sm_ok_set: "sm_ok m \<Longrightarrow> sm_ok (sm_set k v m)"
proof (induction m)
  case (Cons e m)
  obtain k' v' where e: "e = (k', v')" by force
  with Cons have "sm_ok (sm_set k v m)" by simp
  moreover have "k' < k \<Longrightarrow> \<forall>(k'', v'') \<in> set (sm_set k v m). k' < k''"
    using Cons.prems e set_sm_set_subset [of k v m] by fastforce
  moreover have "k < k' \<Longrightarrow> \<forall>(k'', v'') \<in> set m. k < k''"
    using Cons.prems e by fastforce
  ultimately show ?case
    using Cons.prems e by auto
qed simp

lemma set_sm_set:
  assumes "sm_ok m"
  shows "set (sm_set k v m) = insert (k, v) {(k', v') \<in> set m. k' \<noteq> k}"
proof -
  have "(k', v') \<in> set (sm_set k v m) \<longleftrightarrow> (k', v') \<in> insert (k, v) {(k', v') \<in> set m. k' \<noteq> k}" for k' v'
    using assms by (auto simp: sm_find_in sm_ok_set)
  then show ?thesis by auto
qed

lemma sm_find_erase [simp]: "sm_find (sm_erase k m) = (sm_find m)(k := None)"
  by (induction m) (auto simp: sm_erase_def)

lemma set_sm_erase [simp]: "set (sm_erase k m) = {(k', v') \<in> set m. k' \<noteq> k}"
  by (auto simp: sm_erase_def)

lemma sm_ok_erase: "sm_ok m \<Longrightarrow> sm_ok (sm_erase k m)"
  by (induction m) (auto simp: sm_erase_def)

lemma sm_ok_map_values [simp]: "sm_ok (sm_map_values f m) = sm_ok m"
  by (simp add: sm_ok_def sm_map_values_def comp_def case_prod_unfold)

lemma sm_find_map_values [simp]: "sm_find (sm_map_values f m) k = map_option f (sm_find m k)"
  by (induction m) (auto simp: sm_map_values_def)

lemma sm_ok_append: "sm_ok (xs @ ys) \<longleftrightarrow>
    sm_ok xs \<and> sm_ok ys \<and> (\<forall>x \<in> set xs. \<forall>y \<in> set ys. fst x < fst y)"
  by (auto simp: sm_ok_def sorted_wrt_append)

lemma set_lower_bound:
  "sm_ok m \<Longrightarrow> set (sm_lower_bound k m) = {(k', v') \<in> set m. k \<le> k'}"
proof (induction m)
  case (Cons e m)
  obtain a b where e: "e = (a, b)" by force
  show ?case
  proof (cases "a < k")
    case True
    with Cons e show ?thesis by (auto simp: sm_lower_bound_def)
  next
    case False
    then have "\<forall>(k', v') \<in> set m. k \<le> k'" using Cons.prems e by fastforce
    with False e show ?thesis by (auto simp: sm_lower_bound_def)
  qed
qed (simp add: sm_lower_bound_def)

lemma sm_ok_lower_bound: "sm_ok m \<Longrightarrow> sm_ok (sm_lower_bound k m)"
  by (induction m) (auto simp: sm_lower_bound_def)

lemma lower_bound_split:
  "sm_ok m \<Longrightarrow> \<exists>pre. m = pre @ sm_lower_bound k m \<and> (\<forall>(k', _) \<in> set pre. k' < k)"
  by (rule exI [of _ "takeWhile (\<lambda>(k', _). k' < k) m"])
    (auto simp: sm_lower_bound_def dest: set_takeWhileD)

lemma lower_bound_head:
  assumes "sm_ok m" "sm_lower_bound k m = (k0, v0) # rest"
  shows "sm_find m k0 = Some v0" "k \<le> k0"
    "\<And>k' v'. sm_find m k' = Some v' \<Longrightarrow> k \<le> k' \<Longrightarrow> k0 \<le> k'"
proof -
  have set: "set ((k0, v0) # rest) = {(k', v') \<in> set m. k \<le> k'}"
    using set_lower_bound [OF assms(1), of k] assms(2) by simp
  then show "sm_find m k0 = Some v0" "k \<le> k0"
    using assms(1) by (auto simp: sm_find_in [symmetric])
  fix k' v'
  assume "sm_find m k' = Some v'" "k \<le> k'"
  then have "(k', v') \<in> set ((k0, v0) # rest)"
    using set assms(1) by (auto simp: sm_find_in)
  moreover have "sm_ok ((k0, v0) # rest)"
    using sm_ok_lower_bound [OF assms(1), of k] assms(2) by simp
  ultimately show "k0 \<le> k'" by fastforce
qed

lemma lower_bound_Nil:
  assumes "sm_ok m" "sm_lower_bound k m = []" "sm_find m k' = Some v'"
  shows "k' < k"
  using set_lower_bound [OF assms(1), of k] assms sm_find_in [OF assms(1)] by fastforce

section \<open>Interface\<close>

locale ordered_map =
  fixes empty :: 'm
    and find :: "'m \<Rightarrow> 'k::linorder \<Rightarrow> 'v option"
    and set_at :: "'k \<Rightarrow> 'v \<Rightarrow> 'm \<Rightarrow> 'm"
    and erase :: "'k \<Rightarrow> 'm \<Rightarrow> 'm"
    and ceiling :: "'k \<Rightarrow> 'm \<Rightarrow> ('k \<times> 'v) option"
    and ok :: "'m \<Rightarrow> bool"
  assumes ok_empty: "ok empty" and find_empty: "find empty k = None"
    and ok_set: "ok m \<Longrightarrow> ok (set_at k v m)"
    and find_set: "ok m \<Longrightarrow> find (set_at k v m) = (find m)(k \<mapsto> v)"
    and ok_erase: "ok m \<Longrightarrow> ok (erase k m)"
    and find_erase: "ok m \<Longrightarrow> find (erase k m) = (find m)(k := None)"
    and ceiling_Some: "ok m \<Longrightarrow> ceiling k m = Some (k0, v0) \<Longrightarrow>
      find m k0 = Some v0 \<and> k \<le> k0 \<and> (\<forall>k' v'. find m k' = Some v' \<longrightarrow> k \<le> k' \<longrightarrow> k0 \<le> k')"
    and ceiling_None: "ok m \<Longrightarrow> ceiling k m = None \<Longrightarrow> find m k' = Some v' \<Longrightarrow> k' < k"
begin

text \<open>
  The end-address index: when every value is an interval stored under its last point and
  the intervals are disjoint, the first key not below a point belongs to the one interval
  that can contain the point.
\<close>

lemma ceiling_unique_cover:
  assumes "ok m" and "find m k' = Some v'" "lo v' \<le> k" "k \<le> k'"
    and "\<And>a u b w. find m a = Some u \<Longrightarrow> find m b = Some w \<Longrightarrow> a < b \<Longrightarrow> a < lo w"
  shows "ceiling k m = Some (k', v')"
proof (cases "ceiling k m")
  case None
  with ceiling_None [OF assms(1)] assms(2,4) show ?thesis by (meson leD)
next
  case (Some e)
  obtain k0 v0 where e: "e = (k0, v0)" by force
  with Some have c: "find m k0 = Some v0" "k \<le> k0" "k0 \<le> k'"
    using ceiling_Some [OF assms(1), of k k0 v0] assms(2,4) by auto
  then have "k0 = k'"
    using assms(5) [OF c(1) assms(2)] assms(3) by force
  with Some e c(1) assms(2) show ?thesis by simp
qed

end

definition sm_ceiling :: "'k::linorder \<Rightarrow> ('k, 'v) std_map \<Rightarrow> ('k \<times> 'v) option" where
  "sm_ceiling k m = (case sm_lower_bound k m of [] \<Rightarrow> None | e # _ \<Rightarrow> Some e)"

interpretation stdmap: ordered_map "[]" map_of sm_set sm_erase sm_ceiling sm_ok
proof unfold_locales
  fix k k0 v0 and m :: "('a \<times> 'b) list"
  assume "sm_ok m" "sm_ceiling k m = Some (k0, v0)"
  then show "sm_find m k0 = Some v0 \<and> k \<le> k0 \<and>
      (\<forall>k' v'. sm_find m k' = Some v' \<longrightarrow> k \<le> k' \<longrightarrow> k0 \<le> k')"
    using lower_bound_head [of m k k0 v0] by (auto simp: sm_ceiling_def split: list.splits)
next
  fix k k' v' and m :: "('a \<times> 'b) list"
  assume "sm_ok m" "sm_ceiling k m = None" "sm_find m k' = Some v'"
  then show "k' < k"
    using lower_bound_Nil [of m k k' v'] by (auto simp: sm_ceiling_def split: list.splits)
qed (simp_all add: sm_ok_set sm_ok_erase)

end
