(* ===== verification/Heap.thy ===== *)
theory Heap
  imports IOC_Prelude
begin

text \<open>
  The memory of the server process: a store of separately allocated blocks.  A pointer is
  \<open>NULL\<close> or an offset into a block; pointers are ordered first by block, as disjoint
  allocations are.  An access outside a live block is an error, so a buffer overrun of the
  program is visible as a result.  \<open>hp_junk\<close> is the unspecified content of fresh memory
  and \<open>hp_fail\<close> the allocation requests the system refuses; theorems hold for all of them.
\<close>

section \<open>Pointers\<close>

datatype ptr = NULL | Ptr (ptr_block: nat) (ptr_off: nat)

instantiation ptr :: linorder
begin

definition less_eq_ptr :: "ptr \<Rightarrow> ptr \<Rightarrow> bool" where
  "less_eq_ptr p q = (case p of NULL \<Rightarrow> True
     | Ptr b i \<Rightarrow> (case q of NULL \<Rightarrow> False | Ptr c j \<Rightarrow> b < c \<or> b = c \<and> i \<le> j))"

definition less_ptr :: "ptr \<Rightarrow> ptr \<Rightarrow> bool" where
  "less_ptr p q \<longleftrightarrow> p \<le> q \<and> \<not> q \<le> (p :: ptr)"

instance
  by standard (auto simp: less_eq_ptr_def less_ptr_def split: ptr.splits)

end

lemma ptr_le_simps [simp]:
  "NULL \<le> p" "\<not> Ptr b i \<le> NULL" "Ptr b i \<le> Ptr c j \<longleftrightarrow> b < c \<or> b = c \<and> i \<le> j"
  by (auto simp: less_eq_ptr_def)

lemma ptr_less_simps [simp]:
  "\<not> p < NULL" "NULL < Ptr b i" "Ptr b i < Ptr c j \<longleftrightarrow> b < c \<or> b = c \<and> i < j"
  by (auto simp: less_ptr_def less_eq_ptr_def split: ptr.splits)

fun ptr_add :: "ptr \<Rightarrow> nat \<Rightarrow> ptr" where
  "ptr_add NULL n = NULL"
| "ptr_add (Ptr b i) n = Ptr b (i + n)"

section \<open>Blocks\<close>

record heap =
  hp_blocks :: "nat \<Rightarrow> byte list option"
  hp_next :: nat
  hp_junk :: "nat \<Rightarrow> nat \<Rightarrow> byte"
  hp_fail :: "nat \<Rightarrow> bool"

definition heap_ok :: "heap \<Rightarrow> bool" where
  "heap_ok h \<longleftrightarrow> (\<forall>b. hp_blocks h b \<noteq> None \<longrightarrow> b < hp_next h)"

text \<open>A fresh block with given content, or \<open>NULL\<close>.\<close>

definition sys_alloc :: "byte list \<Rightarrow> heap \<Rightarrow> ptr \<times> heap" where
  "sys_alloc content h =
     (if hp_fail h (hp_next h) then (NULL, h)
      else (Ptr (hp_next h) 0,
            h\<lparr>hp_blocks := (hp_blocks h)(hp_next h \<mapsto> content), hp_next := Suc (hp_next h)\<rparr>))"

definition malloc :: "size_t \<Rightarrow> heap \<Rightarrow> ptr \<times> heap" where
  "malloc n h = sys_alloc (map (hp_junk h (hp_next h)) [0..<n]) h"

text \<open>A new window of a file that was just truncated to its size: zero bytes.\<close>

definition mmap_file :: "size_t \<Rightarrow> heap \<Rightarrow> ptr \<times> heap" where
  "mmap_file n h = sys_alloc (replicate n 0) h"

fun free_block :: "ptr \<Rightarrow> heap \<Rightarrow> heap result" where
  "free_block NULL h = Inl NullDereference"
| "free_block (Ptr b i) h =
     (if hp_blocks h b = None \<or> i \<noteq> 0 then Inl UseAfterFree
      else Inr (h\<lparr>hp_blocks := (hp_blocks h)(b := None)\<rparr>))"

fun read_mem :: "ptr \<Rightarrow> size_t \<Rightarrow> heap \<Rightarrow> byte list result" where
  "read_mem NULL n h = Inl NullDereference"
| "read_mem (Ptr b i) n h =
     (case hp_blocks h b of None \<Rightarrow> Inl UseAfterFree
      | Some xs \<Rightarrow> if i + n \<le> length xs then Inr (slice i n xs) else Inl OutOfBounds)"

fun write_mem :: "ptr \<Rightarrow> byte list \<Rightarrow> heap \<Rightarrow> heap result" where
  "write_mem NULL ys h = Inl NullDereference"
| "write_mem (Ptr b i) ys h =
     (case hp_blocks h b of None \<Rightarrow> Inl UseAfterFree
      | Some xs \<Rightarrow> if i + length ys \<le> length xs
                   then Inr (h\<lparr>hp_blocks := (hp_blocks h)(b \<mapsto> patch i ys xs)\<rparr>)
                   else Inl OutOfBounds)"

definition memcpy :: "ptr \<Rightarrow> ptr \<Rightarrow> size_t \<Rightarrow> heap \<Rightarrow> heap result" where
  "memcpy dest src n h = bindE (read_mem src n h) (\<lambda>bs. write_mem dest bs h)"

section \<open>Lemmas\<close>

lemma sys_alloc_cases:
  assumes "sys_alloc xs h = (p, h')" "p \<noteq> NULL"
  shows "p = Ptr (hp_next h) 0" "hp_blocks h' = (hp_blocks h)(hp_next h \<mapsto> xs)"
    "hp_next h' = Suc (hp_next h)" "hp_junk h' = hp_junk h" "hp_fail h' = hp_fail h"
  using assms by (auto simp: sys_alloc_def split: if_splits)

lemma sys_alloc_ok: "heap_ok h \<Longrightarrow> heap_ok (snd (sys_alloc xs h))"
  by (auto simp: heap_ok_def sys_alloc_def less_Suc_eq)

lemma write_mem_Inr:
  assumes "write_mem p ys h = Inr h'"
  obtains b i xs where "p = Ptr b i" "hp_blocks h b = Some xs" "i + length ys \<le> length xs"
    "h' = h\<lparr>hp_blocks := (hp_blocks h)(b \<mapsto> patch i ys xs)\<rparr>"
  using assms by (cases p) (auto split: option.splits if_splits)

lemma read_mem_Inr:
  assumes "read_mem p n h = Inr bs"
  obtains b i xs where "p = Ptr b i" "hp_blocks h b = Some xs" "i + n \<le> length xs"
    "bs = slice i n xs"
  using assms by (cases p) (auto split: option.splits if_splits)

lemma heap_ok_write: "heap_ok h \<Longrightarrow> write_mem p ys h = Inr h' \<Longrightarrow> heap_ok h'"
  by (auto simp: heap_ok_def elim!: write_mem_Inr split: if_splits)

lemma heap_ok_free: "heap_ok h \<Longrightarrow> free_block p h = Inr h' \<Longrightarrow> heap_ok h'"
  by (cases p) (auto simp: heap_ok_def split: if_splits)

end
