(* ===== verification/Libfabric_Domain.thy ===== *)
theory Libfabric_Domain
  imports Std_Map Heap
begin

text \<open>
  \<open>LibfabricDomain\<close> (src/base/network/LibfabricDomain.hpp and .cpp): the registry of memory
  regions usable for RDMA, indexed by their last byte, and the pool of pre-registered
  message buffers.  The libfabric calls themselves (\<open>fi_mr_reg\<close>, \<open>fi_mr_key\<close>) and the machine
  address of a pointer are the argument \<open>fabric_ops\<close>.  Opening the fabric is in theory \<open>Network_Setup\<close>.
\<close>

section \<open>State\<close>

text \<open>
  \<open>fi_mr_reg\<close>: status of a registration with the given access flags (remote read, remote
  write), persistent memory flag and requested key; \<open>fi_mr_key\<close>: key of a registered
  handle; \<open>addr_of\<close>: the cast of a pointer to an integer.
\<close>

record fabric_ops =
  fi_mr_reg :: "bool \<times> bool \<Rightarrow> bool \<Rightarrow> nat \<Rightarrow> int"
  fi_mr_key :: "nat \<Rightarrow> nat"
  addr_of :: "ptr \<Rightarrow> nat"

record MemoryRegion =
  mr_ptr :: ptr
  mr_size :: size_t
  mr_mr :: nat

record Iov =
  iov_addr :: nat
  iov_key :: nat

record LibfabricDomain =
  ld_segments :: "(ptr, MemoryRegion) std_map"
  ld_virtMrMode :: bool
  ld_msgBufferSize :: size_t
  ld_msgBuffers :: "ptr list"
  ld_cnt :: nat

section \<open>Operations\<close>

definition LibfabricDomain_init :: "bool \<Rightarrow> LibfabricDomain" where
  "LibfabricDomain_init tcp_provider =
     \<lparr>ld_segments = [], ld_virtMrMode = \<not> tcp_provider, ld_msgBufferSize = 1024 * 1024,
      ld_msgBuffers = [], ld_cnt = 0\<rparr>"

definition region_covers :: "MemoryRegion \<Rightarrow> ptr \<Rightarrow> bool" where
  "region_covers r p \<longleftrightarrow> mr_ptr r \<le> p \<and> p < ptr_add (mr_ptr r) (mr_size r)"

definition getMR :: "ptr \<Rightarrow> size_t \<Rightarrow> LibfabricDomain \<Rightarrow> MemoryRegion option result" where
  "getMR p n d =
     bindE (assertE (p \<noteq> NULL) ''ptr != NULL'') (\<lambda>_.
     bindE (assertE (0 < n) ''size > 0'') (\<lambda>_.
     Inr (case sm_lower_bound p (ld_segments d) of
            [] \<Rightarrow> None
          | (_, r) # _ \<Rightarrow> if region_covers r p then Some r else None)))"

definition getFidMR :: "ptr \<Rightarrow> size_t \<Rightarrow> LibfabricDomain \<Rightarrow> nat option result" where
  "getFidMR p n d =
     bindE (assertE (p \<noteq> NULL) ''ptr != NULL'') (\<lambda>_.
     bindE (assertE (0 < n) ''size > 0'') (\<lambda>_.
     bindE (getMR p n d) (\<lambda>region.
     Inr (case region of None \<Rightarrow> None | Some r \<Rightarrow> Some (mr_mr r)))))"

text \<open>
  The counter that numbers the regions is a static variable of the function, shared by the domains of a process; here each
  domain has its own, and it is not bounded by the width of an \<open>int\<close>.
\<close>

definition registerSegment ::
  "fabric_ops \<Rightarrow> ptr \<Rightarrow> size_t \<Rightarrow> bool \<Rightarrow> bool \<Rightarrow> bool \<Rightarrow> LibfabricDomain \<Rightarrow> (Iov \<times> LibfabricDomain) result" where
  "registerSegment fi p n rd wr pmem d =
     bindE (assertE (p \<noteq> NULL) ''ptr != nullptr'') (\<lambda>_.
     bindE (assertE (0 < n) ''size > 0'') (\<lambda>_.
     bindE (getMR p n d) (\<lambda>old.
     bindE (assertE (old = None) ''getMR(ptr, size) == nullptr'') (\<lambda>_.
     bindE (assumeE (fi_mr_reg fi (rd, wr) pmem (ld_cnt d) = 0) ''fi_mr_reg'') (\<lambda>_.
     let region = \<lparr>mr_ptr = p, mr_size = n, mr_mr = ld_cnt d\<rparr>;
         iov = \<lparr>iov_addr = (if ld_virtMrMode d then addr_of fi p else 0),
                iov_key = fi_mr_key fi (mr_mr region)\<rparr>
     in Inr (iov, d\<lparr>ld_segments := sm_set (ptr_add p (n - 1)) region (ld_segments d),
                    ld_cnt := Suc (ld_cnt d)\<rparr>))))))"

definition unregisterSegment :: "ptr \<Rightarrow> size_t \<Rightarrow> LibfabricDomain \<Rightarrow> LibfabricDomain result" where
  "unregisterSegment p n d =
     bindE (assertE (p \<noteq> NULL) ''ptr != NULL'') (\<lambda>_.
     case sm_lower_bound p (ld_segments d) of
       [] \<Rightarrow> Inl (AssumeFailed ''Fail to find segment to unregister'')
     | (k, r) # _ \<Rightarrow>
         bindE (assumeE (region_covers r p) ''Fail to find segment to unregister, one found does not match'')
         (\<lambda>_. Inr (d\<lparr>ld_segments := sm_erase k (ld_segments d)\<rparr>)))"

definition setMsgBufferSize :: "size_t \<Rightarrow> LibfabricDomain \<Rightarrow> LibfabricDomain result" where
  "setMsgBufferSize n d =
     bindE (assumeE (ld_msgBuffers d = []) ''Try to change the message buffer size'') (\<lambda>_.
     Inr (d\<lparr>ld_msgBufferSize := n\<rparr>))"

text \<open>
  \<open>getMsgBuffer\<close> takes the last buffer of the pool, or allocates and registers a new one;
  the result of \<open>malloc\<close> is checked by the assertion of \<open>registerSegment\<close> only.
\<close>

definition getMsgBuffer ::
  "fabric_ops \<Rightarrow> LibfabricDomain \<Rightarrow> heap \<Rightarrow> (ptr \<times> LibfabricDomain \<times> heap) result" where
  "getMsgBuffer fi d h =
     (if ld_msgBuffers d = [] then
        bindE (assumeE (ld_msgBufferSize d \<noteq> 0) ''You need to configure message buffer size'') (\<lambda>_.
        let (res, h') = malloc (ld_msgBufferSize d) h
        in bindE (registerSegment fi res (ld_msgBufferSize d) True False False d) (\<lambda>(_, d'). Inr (res, d', h')))
      else Inr (last (ld_msgBuffers d), d\<lparr>ld_msgBuffers := butlast (ld_msgBuffers d)\<rparr>, h))"

definition retMsgBuffer :: "ptr \<Rightarrow> LibfabricDomain \<Rightarrow> LibfabricDomain result" where
  "retMsgBuffer p d =
     bindE (assumeE (p \<noteq> NULL) ''Fail to return NULL buffer !'') (\<lambda>_.
     Inr (d\<lparr>ld_msgBuffers := ld_msgBuffers d @ [p]\<rparr>))"

definition getMsgBufferSize :: "LibfabricDomain \<Rightarrow> size_t" where
  "getMsgBufferSize d = ld_msgBufferSize d"

text \<open>The destructor un-registers and frees the buffers of the pool; the handles of the fabric are closed by libfabric.\<close>

fun release_buffers :: "ptr list \<Rightarrow> size_t \<Rightarrow> LibfabricDomain \<Rightarrow> heap \<Rightarrow> (LibfabricDomain \<times> heap) result" where
  "release_buffers [] n d h = Inr (d, h)"
| "release_buffers (it # its) n d h =
     bindE (unregisterSegment it n d) (\<lambda>d.
     bindE (free_block it h) (\<lambda>h. release_buffers its n d h))"

definition LibfabricDomain_destroy :: "LibfabricDomain \<Rightarrow> heap \<Rightarrow> (LibfabricDomain \<times> heap) result" where
  "LibfabricDomain_destroy d h =
     bindE (release_buffers (ld_msgBuffers d) (ld_msgBufferSize d) d h) (\<lambda>(d, h). Inr (d\<lparr>ld_msgBuffers := []\<rparr>, h))"

section \<open>Invariant of the region index\<close>

definition region_ok :: "ptr \<Rightarrow> MemoryRegion \<Rightarrow> bool" where
  "region_ok k r \<longleftrightarrow> mr_ptr r \<noteq> NULL \<and> 0 < mr_size r \<and> k = ptr_add (mr_ptr r) (mr_size r - 1)"

definition domain_ok :: "LibfabricDomain \<Rightarrow> bool" where
  "domain_ok d \<longleftrightarrow> sm_ok (ld_segments d) \<and>
     (\<forall>(k, r) \<in> set (ld_segments d). region_ok k r) \<and>
     (\<forall>(k, r) \<in> set (ld_segments d). \<forall>(k', r') \<in> set (ld_segments d). k < k' \<longrightarrow> k < mr_ptr r')"

definition regions :: "LibfabricDomain \<Rightarrow> MemoryRegion set" where
  "regions d = snd ` set (ld_segments d)"

lemma region_covers_iff: "region_ok k r \<Longrightarrow> region_covers r p \<longleftrightarrow> mr_ptr r \<le> p \<and> p \<le> k"
  by (cases p; cases "mr_ptr r") (auto simp: region_ok_def region_covers_def)

lemma domain_ok_init: "domain_ok (LibfabricDomain_init tcp)"
  by (simp add: domain_ok_def LibfabricDomain_init_def)

lemma getMR_ceiling:
  assumes "p \<noteq> NULL" "0 < n"
  shows "getMR p n d = Inr (case sm_ceiling p (ld_segments d) of None \<Rightarrow> None
     | Some (_, r) \<Rightarrow> if region_covers r p then Some r else None)"
  using assms by (auto simp: getMR_def sm_ceiling_def split: list.splits)

lemma domain_find:
  assumes "domain_ok d"
  shows "sm_ok (ld_segments d)"
    and "sm_find (ld_segments d) k = Some r \<Longrightarrow> region_ok k r"
    and "sm_find (ld_segments d) k = Some r \<Longrightarrow> sm_find (ld_segments d) k' = Some r' \<Longrightarrow>
      k < k' \<Longrightarrow> k < mr_ptr r'"
  using assms by (fastforce simp: domain_ok_def dest: map_of_SomeD)+

lemma ceiling_covering:
  assumes "domain_ok d" "(k, r) \<in> set (ld_segments d)" "region_covers r p"
  shows "sm_ceiling p (ld_segments d) = Some (k, r)"
proof -
  note ok = domain_find [OF assms(1)]
  have f: "sm_find (ld_segments d) k = Some r" using assms(2) ok(1) by (simp add: sm_find_in)
  then have "mr_ptr r \<le> p" "p \<le> k" using region_covers_iff [OF ok(2)] assms(3) by auto
  then show ?thesis
    using stdmap.ceiling_unique_cover [OF ok(1) f, of mr_ptr p] ok(3) by blast
qed

lemma getMR_Some_iff:
  assumes "domain_ok d" "p \<noteq> NULL" "0 < n"
  shows "getMR p n d = Inr (Some r) \<longleftrightarrow> r \<in> regions d \<and> region_covers r p"
proof
  assume "getMR p n d = Inr (Some r)"
  then obtain k where "sm_ceiling p (ld_segments d) = Some (k, r)" "region_covers r p"
    using assms by (auto simp: getMR_ceiling split: option.splits if_splits)
  then show "r \<in> regions d \<and> region_covers r p"
    using stdmap.ceiling_Some [OF domain_find(1) [OF assms(1)]] sm_find_in [OF domain_find(1) [OF assms(1)]]
    by (force simp: regions_def)
next
  assume "r \<in> regions d \<and> region_covers r p"
  then show "getMR p n d = Inr (Some r)"
    using ceiling_covering [OF assms(1)] assms by (auto simp: getMR_ceiling regions_def)
qed

text \<open>A region that touches no registered one.\<close>

definition region_fresh :: "ptr \<Rightarrow> size_t \<Rightarrow> LibfabricDomain \<Rightarrow> bool" where
  "region_fresh p n d \<longleftrightarrow> (\<forall>(k, r) \<in> set (ld_segments d). k < p \<or> ptr_add p (n - 1) < mr_ptr r)"

lemma registerSegment_Inr:
  assumes "registerSegment fi p n rd wr pmem d = Inr (iov, d')"
  shows "p \<noteq> NULL" "0 < n" "getMR p n d = Inr None"
    "d' = d\<lparr>ld_segments := sm_set (ptr_add p (n - 1)) \<lparr>mr_ptr = p, mr_size = n, mr_mr = ld_cnt d\<rparr>
              (ld_segments d), ld_cnt := Suc (ld_cnt d)\<rparr>"
    "iov_addr iov = (if ld_virtMrMode d then addr_of fi p else 0)"
    "iov_key iov = fi_mr_key fi (ld_cnt d)"
  using assms by (auto simp: registerSegment_def bindE_eq_Inr Let_def)

lemma ptr_add_mono: "p \<noteq> NULL \<Longrightarrow> p \<le> ptr_add p n"
  by (cases p) auto

lemma registerSegment_regions:
  assumes "domain_ok d" "registerSegment fi p n rd wr pmem d = Inr (iov, d')" "region_fresh p n d"
  shows "set (ld_segments d') =
    insert (ptr_add p (n - 1), \<lparr>mr_ptr = p, mr_size = n, mr_mr = ld_cnt d\<rparr>) (set (ld_segments d))"
proof -
  note r = registerSegment_Inr [OF assms(2)]
  have "k \<noteq> ptr_add p (n - 1)" if "(k, r) \<in> set (ld_segments d)" for k r
  proof -
    have "region_ok k r" "k < p \<or> ptr_add p (n - 1) < mr_ptr r"
      using assms(1,3) that by (auto simp: domain_ok_def region_fresh_def)
    then show ?thesis
      using ptr_add_mono [OF r(1), of "n - 1"] ptr_add_mono [of "mr_ptr r" "mr_size r - 1"]
      by (auto simp: region_ok_def)
  qed
  then show ?thesis
    using assms(1) r(4) by (auto simp: domain_ok_def set_sm_set)
qed

lemma registerSegment_domain_ok:
  assumes "domain_ok d" "registerSegment fi p n rd wr pmem d = Inr (iov, d')" "region_fresh p n d"
  shows "domain_ok d'"
proof -
  note r = registerSegment_Inr [OF assms(2)] and s = registerSegment_regions [OF assms]
  let ?k = "ptr_add p (n - 1)"
  have "sm_ok (ld_segments d')"
    using assms(1) r(4) by (simp add: domain_ok_def sm_ok_set)
  moreover have "region_ok ?k \<lparr>mr_ptr = p, mr_size = n, mr_mr = ld_cnt d\<rparr>"
    using r by (simp add: region_ok_def)
  moreover have "k < p" if "(k, q) \<in> set (ld_segments d)" "k < ?k" for k q
  proof -
    have "region_ok k q" "k < p \<or> ?k < mr_ptr q"
      using assms(1,3) that by (auto simp: domain_ok_def region_fresh_def)
    then show ?thesis using ptr_add_mono [of "mr_ptr q" "mr_size q - 1"] that(2)
      by (auto simp: region_ok_def)
  qed
  moreover have "?k < mr_ptr q" if "(k, q) \<in> set (ld_segments d)" "?k < k" for k q
    using assms(3) that ptr_add_mono [OF r(1), of "n - 1"] by (fastforce simp: region_fresh_def)
  ultimately show ?thesis
    using assms(1) unfolding domain_ok_def s by auto
qed

lemma unregisterSegment_Inr:
  assumes "unregisterSegment p n d = Inr d'"
  obtains k r where "sm_ceiling p (ld_segments d) = Some (k, r)" "region_covers r p" "p \<noteq> NULL"
    "d' = d\<lparr>ld_segments := sm_erase k (ld_segments d)\<rparr>"
  using assms by (auto simp: unregisterSegment_def sm_ceiling_def bindE_eq_Inr split: list.splits)

lemma unregisterSegment_domain_ok:
  assumes "domain_ok d" "unregisterSegment p n d = Inr d'"
  shows "domain_ok d'"
  using assms by (elim unregisterSegment_Inr) (fastforce simp: domain_ok_def sm_ok_erase)

lemma unregisterSegment_covering:
  assumes "domain_ok d" "(k, r) \<in> set (ld_segments d)" "region_covers r p"
  shows "unregisterSegment p n d = Inr (d\<lparr>ld_segments := sm_erase k (ld_segments d)\<rparr>)"
proof -
  have "p \<noteq> NULL"
    using assms by (cases "mr_ptr r") (auto simp: region_covers_def domain_ok_def region_ok_def)
  then show ?thesis
    using ceiling_covering [OF assms] assms(3)
    by (auto simp: unregisterSegment_def sm_ceiling_def split: list.splits)
qed

section \<open>Properties\<close>

text \<open>
  The region lookup through the end-address index is exact: on a well-formed domain
  \<open>getMR\<close> returns a region exactly when that region is registered and contains the
  pointer, and returns no region exactly when none contains it.
\<close>

theorem getMR_exact:
  assumes "domain_ok d" "p \<noteq> NULL" "0 < n"
  shows "(getMR p n d = Inr (Some r) \<longleftrightarrow> r \<in> regions d \<and> region_covers r p) \<and>
    (getMR p n d = Inr None \<longleftrightarrow> (\<forall>r \<in> regions d. \<not> region_covers r p))"
proof
  show s: "getMR p n d = Inr (Some r) \<longleftrightarrow> r \<in> regions d \<and> region_covers r p"
    by (rule getMR_Some_iff [OF assms])
  have "\<exists>x. getMR p n d = Inr x" using assms by (simp add: getMR_def)
  then show "getMR p n d = Inr None \<longleftrightarrow> (\<forall>r \<in> regions d. \<not> region_covers r p)"
    using getMR_Some_iff [OF assms] by (metis not_None_eq sum.inject(2))
qed

definition example_domain :: LibfabricDomain where
  "example_domain = (LibfabricDomain_init False)\<lparr>ld_segments :=
     [(Ptr 1 4095, \<lparr>mr_ptr = Ptr 1 0, mr_size = 4096, mr_mr = 0\<rparr>),
      (Ptr 2 99, \<lparr>mr_ptr = Ptr 2 0, mr_size = 100, mr_mr = 1\<rparr>)], ld_cnt := 2\<rparr>"

lemma example_domain_ok: "domain_ok example_domain"
  by (simp add: domain_ok_def example_domain_def LibfabricDomain_init_def region_ok_def)

theorem getMR_exact_witness:
  "getMR (Ptr 2 50) 10 example_domain =
     Inr (Some \<lparr>mr_ptr = Ptr 2 0, mr_size = 100, mr_mr = 1\<rparr>) \<and>
   getMR (Ptr 2 100) 10 example_domain = Inr None"
  using getMR_exact [OF example_domain_ok, of "Ptr 2 50" 10 "\<lparr>mr_ptr = Ptr 2 0, mr_size = 100, mr_mr = 1\<rparr>"]
    getMR_exact [OF example_domain_ok, of "Ptr 2 100" 10]
  by (simp add: regions_def example_domain_def region_covers_def)

text \<open>
  C39: registration life cycle: registering memory that touches no registered region keeps
  the index well-formed, makes exactly the new region findable from any pointer into it
  without losing another, and un-registering through any such pointer removes that region
  only.
\<close>

theorem register_unregister_segment:
  assumes "domain_ok d" "region_fresh p n d" "registerSegment fi p n rd wr pmem d = Inr (iov, d')"
    and "region_covers \<lparr>mr_ptr = p, mr_size = n, mr_mr = ld_cnt d\<rparr> q" "0 < k"
  shows "domain_ok d' \<and> regions d' = insert \<lparr>mr_ptr = p, mr_size = n, mr_mr = ld_cnt d\<rparr> (regions d) \<and>
    getMR q k d' = Inr (Some \<lparr>mr_ptr = p, mr_size = n, mr_mr = ld_cnt d\<rparr>) \<and>
    (\<exists>d''. unregisterSegment q n d' = Inr d'' \<and> domain_ok d'' \<and> regions d'' = regions d)"
proof -
  let ?e = "ptr_add p (n - 1)" and ?r = "\<lparr>mr_ptr = p, mr_size = n, mr_mr = ld_cnt d\<rparr>"
  note ok = registerSegment_domain_ok [OF assms(1,3,2)]
    and s = registerSegment_regions [OF assms(1,3,2)]
  have q: "q \<noteq> NULL"
    using assms(4) registerSegment_Inr(1) [OF assms(3)] by (cases p) (auto simp: region_covers_def)
  have regs: "regions d' = insert ?r (regions d)" by (simp add: regions_def s)
  then have get: "getMR q k d' = Inr (Some ?r)"
    using getMR_Some_iff [OF ok q assms(5)] assms(4) by simp
  have "(?e, ?r) \<in> set (ld_segments d')" by (simp add: s)
  note un = unregisterSegment_covering [OF ok this assms(4), of n]
  have "?e \<notin> fst ` set (ld_segments d)"
  proof
    assume "?e \<in> fst ` set (ld_segments d)"
    then obtain r where e: "(?e, r) \<in> set (ld_segments d)" by auto
    then have "region_ok ?e r" "?e < p \<or> ?e < mr_ptr r"
      using assms(1,2) by (auto simp: domain_ok_def region_fresh_def)
    then show False
      using ptr_add_mono [OF registerSegment_Inr(1) [OF assms(3)], of "n - 1"]
        ptr_add_mono [of "mr_ptr r" "mr_size r - 1"] by (auto simp: region_ok_def)
  qed
  then have "regions (d'\<lparr>ld_segments := sm_erase ?e (ld_segments d')\<rparr>) = regions d"
    by (force simp: regions_def s)
  with ok regs get un unregisterSegment_domain_ok [OF ok un] show ?thesis by auto
qed

theorem register_unregister_segment_witness:
  "\<exists>iov d'. registerSegment \<lparr>fi_mr_reg = \<lambda>_ _ _. 0, fi_mr_key = id, addr_of = \<lambda>_. 0\<rparr> (Ptr 3 0) 64
      True True False example_domain = Inr (iov, d') \<and>
    getMR (Ptr 3 10) 5 d' = Inr (Some \<lparr>mr_ptr = Ptr 3 0, mr_size = 64, mr_mr = 2\<rparr>)"
proof -
  let ?fi = "\<lparr>fi_mr_reg = \<lambda>_ _ _. 0, fi_mr_key = id, addr_of = \<lambda>_. 0\<rparr>"
  have fresh: "region_fresh (Ptr 3 0) 64 example_domain"
    by (simp add: region_fresh_def example_domain_def)
  have cnt: "ld_cnt example_domain = 2" by (simp add: example_domain_def)
  have "getMR (Ptr 3 0) 64 example_domain = Inr None"
    by (simp add: getMR_def example_domain_def sm_lower_bound_def)
  then obtain iov d' where r: "registerSegment ?fi (Ptr 3 0) 64 True True False example_domain = Inr (iov, d')"
    by (simp add: registerSegment_def)
  from register_unregister_segment [OF example_domain_ok fresh r, of "Ptr 3 10" 5] r cnt
  show ?thesis by (auto simp: region_covers_def)
qed

end
