(* ===== verification/Memory_Backends.thy ===== *)
theory Memory_Backends
  imports Libfabric_Domain
begin

text \<open>
  The memory backends (src/server/core/MemoryBackend.hpp, src/server/backends/): the
  allocators that provide the buffers of the object segments.  A backend is a value of
  \<open>memory_backend\<close>, one constructor per class; a \<open>MemoryBackendCache\<close> owns the backend below
  it and a \<open>MemoryBackendBalance\<close> owns a vector of them, so the virtual calls \<open>allocate\<close> and
  \<open>deallocate\<close> are recursive functions over that value.  They thread the process memory and
  the libfabric domain in which the buffers are registered.

  \<open>backend_ok\<close> is the well-formedness invariant; \<open>allocate_spec\<close> and \<open>deallocate_spec\<close> state
  what the object layer relies on: a buffer handed out was not in use, has the requested
  size, and no other block changes.
\<close>

section \<open>State\<close>

record mem =
  mem_heap :: heap
  mem_domain :: LibfabricDomain

text \<open>\<open>MemoryBackendNvdimm\<close>: the open file, its size and how much of it is handed out.\<close>

record nvdimm =
  nv_fileFD :: nat
  nv_fileSize :: size_t
  nv_chunks :: size_t
  nv_fileOffset :: size_t

record nvdimm_grow =
  ng_fileSize :: size_t
  ng_chunks :: size_t

text \<open>The boolean of a leaf backend says that its \<open>lfDomain\<close> pointer is not \<open>NULL\<close>.\<close>

datatype memory_backend =
    MemoryBackendMalloc bool
  | MemoryBackendNvdimm bool nvdimm
  | MemoryBackendNvdimmGrow bool nvdimm_grow
  | MemoryBackendCache memory_backend "(size_t, ptr list) std_map" "(ptr, size_t) std_map"
  | MemoryBackendBalance "memory_backend list" "size_t list" "(ptr, nat) std_map"

section \<open>Leaf backends\<close>

definition register_if ::
  "fabric_ops \<Rightarrow> bool \<Rightarrow> ptr \<Rightarrow> size_t \<Rightarrow> bool \<Rightarrow> LibfabricDomain \<Rightarrow> LibfabricDomain result" where
  "register_if fi lf p n pmem d =
     (if lf then bindE (registerSegment fi p n True True pmem d) (\<lambda>(_, d'). Inr d') else Inr d)"

definition unregister_if ::
  "bool \<Rightarrow> ptr \<Rightarrow> size_t \<Rightarrow> LibfabricDomain \<Rightarrow> LibfabricDomain result" where
  "unregister_if lf p n d = (if lf then unregisterSegment p n d else Inr d)"

definition malloc_allocate ::
  "fabric_ops \<Rightarrow> size_t \<Rightarrow> bool \<Rightarrow> mem \<Rightarrow> (ptr \<times> mem) result" where
  "malloc_allocate fi n lf m =
     bindE (assertE (0 < n) ''size > 0'') (\<lambda>_.
     let (p, h) = malloc n (mem_heap m) in
     bindE (assumeE (p \<noteq> NULL) ''Fail to allocate memory, might get out of memory !'') (\<lambda>_.
     bindE (register_if fi lf p n False (mem_domain m)) (\<lambda>d.
     Inr (p, \<lparr>mem_heap = h, mem_domain = d\<rparr>))))"

definition malloc_deallocate :: "ptr \<Rightarrow> size_t \<Rightarrow> bool \<Rightarrow> mem \<Rightarrow> mem result" where
  "malloc_deallocate p n lf m =
     bindE (assertE (p \<noteq> NULL) ''addr != NULL'') (\<lambda>_.
     bindE (assertE (0 < n) ''size > 0'') (\<lambda>_.
     bindE (unregister_if lf p n (mem_domain m)) (\<lambda>d.
     bindE (free_block p (mem_heap m)) (\<lambda>h.
     Inr \<lparr>mem_heap = h, mem_domain = d\<rparr>))))"

definition IOC_INITIAL_FACTOR :: nat where
  "IOC_INITIAL_FACTOR = 8"

definition IOC_INCREASE_LIMIT :: nat where
  "IOC_INCREASE_LIMIT = 32 * 1024 * 1024 * 1024"

text \<open>The size of the next file: eight chunks first, then twice the last one up to the limit,
  rounded up so that the requested chunk size divides it.\<close>

definition nvdimm_next_size :: "size_t \<Rightarrow> size_t \<Rightarrow> size_t" where
  "nvdimm_next_size fileSize n =
     (if fileSize = 0 then mul64 n IOC_INITIAL_FACTOR
      else
        let nextSize = mul64 fileSize 2;
            nextSize = (if nextSize > IOC_INCREASE_LIMIT then IOC_INCREASE_LIMIT else nextSize)
        in if nextSize mod n \<noteq> 0 then add64 nextSize (sub64 n (nextSize mod n)) else nextSize)"

text \<open>Opening a file: \<open>mkstemp\<close>, \<open>unlink\<close> and \<open>ftruncate\<close> abort the process when they fail; one answer of the
  system, that of the next mapping, stands for the three of them.\<close>

definition openNewFile :: "size_t \<Rightarrow> nvdimm \<Rightarrow> heap \<Rightarrow> nvdimm result" where
  "openNewFile n nv h =
     bindE (assumeE (\<not> hp_fail h (hp_next h)) ''Fail to create and open the nvdimm file'') (\<lambda>_.
     Inr (nv\<lparr>nv_fileFD := Suc (nv_fileFD nv), nv_fileSize := nvdimm_next_size (nv_fileSize nv) n,
             nv_fileOffset := 0\<rparr>))"

definition nvdimm_reserve :: "size_t \<Rightarrow> nvdimm \<Rightarrow> heap \<Rightarrow> (size_t \<times> nvdimm) result" where
  "nvdimm_reserve n nv h =
     bindE (if add64 (nv_fileOffset nv) n > nv_fileSize nv then openNewFile n nv h else Inr nv) (\<lambda>nv.
     let off = nv_fileOffset nv;
         nv' = nv\<lparr>nv_fileOffset := add64 off n\<rparr>
     in bindE (assertE (nv_fileOffset nv' \<le> nv_fileSize nv') ''fileOffset <= fileSize'') (\<lambda>_.
     Inr (off, nv')))"

definition nvdimm_allocate ::
  "fabric_ops \<Rightarrow> size_t \<Rightarrow> bool \<Rightarrow> nvdimm \<Rightarrow> mem \<Rightarrow> (ptr \<times> nvdimm \<times> mem) result" where
  "nvdimm_allocate fi n lf nv m =
     bindE (assertE (0 < n) ''size > 0'') (\<lambda>_.
     bindE (assertE (n mod 4096 = 0) ''size % 4096 == 0'') (\<lambda>_.
     bindE (nvdimm_reserve n nv (mem_heap m)) (\<lambda>(off, nv').
     let (p, h) = mmap_file n (mem_heap m) in
     bindE (assumeE (p \<noteq> NULL) ''Failed to memory map the nvdimm file new range'') (\<lambda>_.
     bindE (register_if fi lf p n True (mem_domain m)) (\<lambda>d.
     Inr (p, nv'\<lparr>nv_chunks := add64 (nv_chunks nv') 1\<rparr>, \<lparr>mem_heap = h, mem_domain = d\<rparr>))))))"

definition nvdimm_deallocate ::
  "ptr \<Rightarrow> size_t \<Rightarrow> bool \<Rightarrow> nvdimm \<Rightarrow> mem \<Rightarrow> (nvdimm \<times> mem) result" where
  "nvdimm_deallocate p n lf nv m =
     bindE (assertE (p \<noteq> NULL) ''addr != NULL'') (\<lambda>_.
     bindE (assertE (0 < n) ''size > 0'') (\<lambda>_.
     bindE (assertE (n mod 4096 = 0) ''size % 4096 == 0'') (\<lambda>_.
     bindE (assertE (0 < nv_chunks nv) ''chunks > 0'') (\<lambda>_.
     bindE (unregister_if lf p n (mem_domain m)) (\<lambda>d.
     bindE (free_block p (mem_heap m)) (\<lambda>h.
     Inr (nv\<lparr>nv_chunks := nv_chunks nv - 1\<rparr>, \<lparr>mem_heap = h, mem_domain = d\<rparr>)))))))"

definition nvdimm_grow_allocate ::
  "fabric_ops \<Rightarrow> size_t \<Rightarrow> bool \<Rightarrow> nvdimm_grow \<Rightarrow> mem \<Rightarrow> (ptr \<times> nvdimm_grow \<times> mem) result" where
  "nvdimm_grow_allocate fi n lf ng m =
     bindE (assertE (0 < n) ''size > 0'') (\<lambda>_.
     bindE (assertE (n mod 4096 = 0) ''size % 4096 == 0'') (\<lambda>_.
     let ng' = ng\<lparr>ng_fileSize := add64 (ng_fileSize ng) n\<rparr>;
         (p, h) = mmap_file n (mem_heap m) in
     bindE (assumeE (p \<noteq> NULL) ''Failed to memory map the nvdimm file new range'') (\<lambda>_.
     bindE (register_if fi lf p n True (mem_domain m)) (\<lambda>d.
     Inr (p, ng'\<lparr>ng_chunks := add64 (ng_chunks ng') 1\<rparr>, \<lparr>mem_heap = h, mem_domain = d\<rparr>)))))"

definition nvdimm_grow_deallocate ::
  "ptr \<Rightarrow> size_t \<Rightarrow> bool \<Rightarrow> nvdimm_grow \<Rightarrow> mem \<Rightarrow> (nvdimm_grow \<times> mem) result" where
  "nvdimm_grow_deallocate p n lf ng m =
     bindE (assertE (p \<noteq> NULL) ''addr != NULL'') (\<lambda>_.
     bindE (assertE (0 < n) ''size > 0'') (\<lambda>_.
     bindE (assertE (n mod 4096 = 0) ''size % 4096 == 0'') (\<lambda>_.
     bindE (assertE (0 < ng_chunks ng) ''chunks > 0'') (\<lambda>_.
     bindE (unregister_if lf p n (mem_domain m)) (\<lambda>d.
     bindE (free_block p (mem_heap m)) (\<lambda>h.
     Inr (ng\<lparr>ng_chunks := ng_chunks ng - 1\<rparr>, \<lparr>mem_heap = h, mem_domain = d\<rparr>)))))))"

section \<open>Cache and balance\<close>

text \<open>\<open>freeLists[size]\<close> creates an empty list for a new size class.\<close>

definition freeList_of :: "(size_t, ptr list) std_map \<Rightarrow> size_t \<Rightarrow> ptr list" where
  "freeList_of fl n = (case sm_find fl n of None \<Rightarrow> [] | Some ps \<Rightarrow> ps)"

definition isLocalMemory :: "ptr \<Rightarrow> size_t \<Rightarrow> (ptr, size_t) std_map \<Rightarrow> bool result" where
  "isLocalMemory p n rt =
     bindE (assertE (p \<noteq> NULL) ''ptr != NULL'') (\<lambda>_.
     bindE (assertE (0 < n) ''size > 0'') (\<lambda>_.
     bindE (assertE (n mod 4096 = 0) ''size % 4096 == 0'') (\<lambda>_.
     case sm_find rt p of
       None \<Rightarrow> Inr False
     | Some sz \<Rightarrow> bindE (assertE (sz = n) ''it->second == size'') (\<lambda>_. Inr True))))"

text \<open>The search for the least loaded backend.\<close>

fun balance_min_loop :: "size_t list \<Rightarrow> nat \<Rightarrow> nat \<Rightarrow> size_t \<Rightarrow> nat" where
  "balance_min_loop [] i ident mn = ident"
| "balance_min_loop (x # xs) i ident mn =
     (if x < mn then balance_min_loop xs (Suc i) i x else balance_min_loop xs (Suc i) ident mn)"

fun balance_select :: "size_t list \<Rightarrow> nat" where
  "balance_select [] = 0"
| "balance_select (x # xs) = balance_min_loop xs 1 0 x"

definition registerBackend :: "memory_backend \<Rightarrow> memory_backend \<Rightarrow> memory_backend" where
  "registerBackend sub b = (case b of
     MemoryBackendBalance bs mems own \<Rightarrow> MemoryBackendBalance (bs @ [sub]) (mems @ [0]) own
   | _ \<Rightarrow> b)"

definition getMem :: "nat \<Rightarrow> size_t list \<Rightarrow> size_t result" where
  "getMem ident mems =
     bindE (assertE (ident < length mems) ''id < this->backendMem.size()'') (\<lambda>_. Inr (mems ! ident))"

function (sequential) allocate ::
  "fabric_ops \<Rightarrow> size_t \<Rightarrow> memory_backend \<Rightarrow> mem \<Rightarrow> (ptr \<times> memory_backend \<times> mem) result" where
  "allocate fi n (MemoryBackendMalloc lf) m =
     bindE (malloc_allocate fi n lf m) (\<lambda>(p, m'). Inr (p, MemoryBackendMalloc lf, m'))"
| "allocate fi n (MemoryBackendNvdimm lf nv) m =
     bindE (nvdimm_allocate fi n lf nv m) (\<lambda>(p, nv', m'). Inr (p, MemoryBackendNvdimm lf nv', m'))"
| "allocate fi n (MemoryBackendNvdimmGrow lf ng) m =
     bindE (nvdimm_grow_allocate fi n lf ng m) (\<lambda>(p, ng', m'). Inr (p, MemoryBackendNvdimmGrow lf ng', m'))"
| "allocate fi n (MemoryBackendCache sub fl rt) m =
     bindE (assertE (0 < n) ''size > 0'') (\<lambda>_.
     case freeList_of fl n of
       [] \<Rightarrow> bindE (allocate fi n sub m) (\<lambda>(p, sub', m').
               Inr (p, MemoryBackendCache sub' (sm_set n [] fl) (sm_set p n rt), m'))
     | p # ps \<Rightarrow> Inr (p, MemoryBackendCache sub (sm_set n ps fl) rt, m))"
| "allocate fi n (MemoryBackendBalance bs mems own) m =
     (let ident = balance_select mems in
      if ident < length bs then
        bindE (allocate fi n (bs ! ident) m) (\<lambda>(p, sub', m').
        Inr (p, MemoryBackendBalance (bs[ident := sub'])
                  (mems[ident := add64 (mems ! ident) n]) (sm_set p ident own), m'))
      else Inl (AssertFailed ''this->backends.size() > 0''))"
  by pat_completeness auto
termination
  by (relation "measure (\<lambda>(fi, n, b, m). size b)")
    (auto simp: less_Suc_eq_le intro!: size_list_estimation')

function (sequential) deallocate ::
  "ptr \<Rightarrow> size_t \<Rightarrow> memory_backend \<Rightarrow> mem \<Rightarrow> (memory_backend \<times> mem) result" where
  "deallocate p n (MemoryBackendMalloc lf) m =
     bindE (malloc_deallocate p n lf m) (\<lambda>m'. Inr (MemoryBackendMalloc lf, m'))"
| "deallocate p n (MemoryBackendNvdimm lf nv) m =
     bindE (nvdimm_deallocate p n lf nv m) (\<lambda>(nv', m'). Inr (MemoryBackendNvdimm lf nv', m'))"
| "deallocate p n (MemoryBackendNvdimmGrow lf ng) m =
     bindE (nvdimm_grow_deallocate p n lf ng m) (\<lambda>(ng', m'). Inr (MemoryBackendNvdimmGrow lf ng', m'))"
| "deallocate p n (MemoryBackendCache sub fl rt) m =
     bindE (assertE (p \<noteq> NULL) ''addr != NULL'') (\<lambda>_.
     bindE (assertE (0 < n) ''size > 0'') (\<lambda>_.
     bindE (isLocalMemory p n rt) (\<lambda>local.
     bindE (assertE local ''isLocalMemory(addr, size)'') (\<lambda>_.
     Inr (MemoryBackendCache sub (sm_set n (p # freeList_of fl n) fl) rt, m)))))"
| "deallocate p n (MemoryBackendBalance bs mems own) m =
     bindE (assertE (p \<noteq> NULL) ''addr != NULL'') (\<lambda>_.
     bindE (assertE (0 < n) ''size > 0'') (\<lambda>_.
     case sm_find own p of
       None \<Rightarrow> Inl (AssumeFailed ''Fail to bound backend of the given memory'')
     | Some ident \<Rightarrow>
         if ident < length bs then
           bindE (deallocate p n (bs ! ident) m) (\<lambda>(sub', m').
           bindE (assertE (mems ! ident \<ge> n) ''this->backendMem[id] >= size'') (\<lambda>_.
           Inr (MemoryBackendBalance (bs[ident := sub'])
                  (mems[ident := sub64 (mems ! ident) n]) (sm_erase p own), m')))
         else Inl OutOfBounds))"
  by pat_completeness auto
termination
  by (relation "measure (\<lambda>(p, n, b, m). size b)")
    (auto simp: less_Suc_eq_le intro!: size_list_estimation')

section \<open>Invariant\<close>

definition hp_len :: "heap \<Rightarrow> nat \<Rightarrow> nat option" where
  "hp_len h b = map_option length (hp_blocks h b)"

text \<open>The pointers waiting in the free lists, and all the pointers the caches track.\<close>

definition fl_ptrs :: "(size_t, ptr list) std_map \<Rightarrow> ptr set" where
  "fl_ptrs fl = (\<Union>ps \<in> snd ` set fl. set ps)"

fun free_ptrs :: "memory_backend \<Rightarrow> ptr set" where
  "free_ptrs (MemoryBackendCache sub fl rt) = free_ptrs sub \<union> fl_ptrs fl"
| "free_ptrs (MemoryBackendBalance bs mems own) = (\<Union>b \<in> set bs. free_ptrs b)"
| "free_ptrs _ = {}"

fun tracked :: "memory_backend \<Rightarrow> ptr set" where
  "tracked (MemoryBackendCache sub fl rt) = tracked sub \<union> fst ` set rt"
| "tracked (MemoryBackendBalance bs mems own) = (\<Union>b \<in> set bs. tracked b)"
| "tracked _ = {}"

fun backend_ok :: "(nat \<Rightarrow> nat option) \<Rightarrow> memory_backend \<Rightarrow> bool" where
  "backend_ok L (MemoryBackendCache sub fl rt) \<longleftrightarrow>
     backend_ok L sub \<and> sm_ok fl \<and> sm_ok rt \<and>
     (\<forall>p n. (p, n) \<in> set rt \<longrightarrow> p \<notin> free_ptrs sub \<and> (\<exists>b. p = Ptr b 0 \<and> L b = Some n)) \<and>
     (\<forall>n ps. (n, ps) \<in> set fl \<longrightarrow> distinct ps \<and> (\<forall>p \<in> set ps. (p, n) \<in> set rt))"
| "backend_ok L (MemoryBackendBalance bs mems own) \<longleftrightarrow>
     length mems = length bs \<and> sm_ok own \<and> (\<forall>b \<in> set bs. backend_ok L b) \<and>
     (\<forall>i < length bs. \<forall>j < length bs. i \<noteq> j \<longrightarrow> tracked (bs ! i) \<inter> tracked (bs ! j) = {}) \<and>
     (\<forall>p i. (p, i) \<in> set own \<longrightarrow> i < length bs \<and> (\<forall>j < length bs. j \<noteq> i \<longrightarrow> p \<notin> tracked (bs ! j)))"
| "backend_ok L _ \<longleftrightarrow> True"

text \<open>Invariants of a cache and of a balance, fact by fact.\<close>

lemma cache_okD:
  assumes "backend_ok L (MemoryBackendCache sub fl rt)"
  shows "backend_ok L sub" "sm_ok fl" "sm_ok rt"
    and "(p, n) \<in> set rt \<Longrightarrow> p \<notin> free_ptrs sub"
    and "(p, n) \<in> set rt \<Longrightarrow> \<exists>b. p = Ptr b 0 \<and> L b = Some n"
    and "(n, ps) \<in> set fl \<Longrightarrow> distinct ps"
    and "(n, ps) \<in> set fl \<Longrightarrow> p \<in> set ps \<Longrightarrow> (p, n) \<in> set rt"
  using assms by auto

lemma cache_okI:
  assumes "backend_ok L sub" "sm_ok fl" "sm_ok rt"
    and "\<And>p n. (p, n) \<in> set rt \<Longrightarrow> p \<notin> free_ptrs sub"
    and "\<And>p n. (p, n) \<in> set rt \<Longrightarrow> \<exists>b. p = Ptr b 0 \<and> L b = Some n"
    and "\<And>n ps. (n, ps) \<in> set fl \<Longrightarrow> distinct ps"
    and "\<And>n ps p. (n, ps) \<in> set fl \<Longrightarrow> p \<in> set ps \<Longrightarrow> (p, n) \<in> set rt"
  shows "backend_ok L (MemoryBackendCache sub fl rt)"
  using assms by auto

lemma balance_okD:
  assumes "backend_ok L (MemoryBackendBalance bs mems own)"
  shows "length mems = length bs" "sm_ok own"
    and "i < length bs \<Longrightarrow> backend_ok L (bs ! i)"
    and "i < length bs \<Longrightarrow> j < length bs \<Longrightarrow> i \<noteq> j \<Longrightarrow> tracked (bs ! i) \<inter> tracked (bs ! j) = {}"
    and "(p, i) \<in> set own \<Longrightarrow> i < length bs"
    and "(p, i) \<in> set own \<Longrightarrow> j < length bs \<Longrightarrow> j \<noteq> i \<Longrightarrow> p \<notin> tracked (bs ! j)"
  using assms by auto

lemma balance_okI:
  assumes "length mems = length bs" "sm_ok own"
    and "\<And>i. i < length bs \<Longrightarrow> backend_ok L (bs ! i)"
    and "\<And>i j. i < length bs \<Longrightarrow> j < length bs \<Longrightarrow> i \<noteq> j \<Longrightarrow> tracked (bs ! i) \<inter> tracked (bs ! j) = {}"
    and "\<And>p i. (p, i) \<in> set own \<Longrightarrow> i < length bs"
    and "\<And>p i j. (p, i) \<in> set own \<Longrightarrow> j < length bs \<Longrightarrow> j \<noteq> i \<Longrightarrow> p \<notin> tracked (bs ! j)"
  shows "backend_ok L (MemoryBackendBalance bs mems own)"
  using assms by (auto simp: set_conv_nth)

lemma in_fl_ptrs: "p \<in> fl_ptrs fl \<longleftrightarrow> (\<exists>n ps. (n, ps) \<in> set fl \<and> p \<in> set ps)"
  by (force simp: fl_ptrs_def)

lemma free_ptrs_tracked: "backend_ok L b \<Longrightarrow> free_ptrs b \<subseteq> tracked b"
proof (induction b)
  case (MemoryBackendCache sub fl rt)
  note ok = cache_okD [OF MemoryBackendCache.prems]
  have "p \<in> fst ` set rt" if "p \<in> fl_ptrs fl" for p
    using that ok(7) unfolding in_fl_ptrs by force
  with MemoryBackendCache.IH [OF ok(1)] show ?case by auto
next
  case (MemoryBackendBalance bs mems own)
  then show ?case by fastforce
qed simp_all

lemma tracked_live:
  "backend_ok L b \<Longrightarrow> p \<in> tracked b \<Longrightarrow> \<exists>k n. p = Ptr k 0 \<and> L k = Some n"
proof (induction b)
  case (MemoryBackendCache sub fl rt)
  then show ?case by fastforce
next
  case (MemoryBackendBalance bs mems own)
  then show ?case by fastforce
qed simp_all

lemma backend_ok_frame:
  "backend_ok L b \<Longrightarrow> (\<And>k. Ptr k 0 \<in> tracked b \<Longrightarrow> L' k = L k) \<Longrightarrow> backend_ok L' b"
proof (induction b)
  case (MemoryBackendCache sub fl rt)
  have "\<exists>k. p = Ptr k 0 \<and> L' k = Some n" if "(p, n) \<in> set rt" for p n
  proof -
    from cache_okD(5) [OF MemoryBackendCache.prems(1) that]
    obtain k where k: "p = Ptr k 0" "L k = Some n" by auto
    moreover have "Ptr k 0 \<in> fst ` set rt" using that k(1) by force
    ultimately show ?thesis using MemoryBackendCache.prems(2) [of k] by auto
  qed
  moreover have "backend_ok L' sub"
    using MemoryBackendCache by auto
  ultimately show ?case using MemoryBackendCache.prems(1) by auto
next
  case (MemoryBackendBalance bs mems own)
  then have "\<forall>b \<in> set bs. backend_ok L' b" by auto
  with MemoryBackendBalance.prems(1) show ?case by simp
qed simp_all

lemma balance_min_loop_bound:
  "ident < length xs0 \<Longrightarrow> i + length xs = length xs0 \<Longrightarrow> balance_min_loop xs i ident mn < length xs0"
  by (induction xs i ident mn rule: balance_min_loop.induct) auto

lemma balance_select_bound: "mems \<noteq> [] \<Longrightarrow> balance_select mems < length mems"
  using balance_min_loop_bound [of 0 mems 1 "tl mems" "hd mems"] by (cases mems) auto

text \<open>What an allocation may change, in terms of the blocks before and after.\<close>

definition alloc_effect ::
  "size_t \<Rightarrow> memory_backend \<Rightarrow> heap \<Rightarrow> ptr \<Rightarrow> memory_backend \<Rightarrow> heap \<Rightarrow> bool" where
  "alloc_effect n b h p b' h' \<longleftrightarrow>
     0 < n \<and> (\<exists>k. p = Ptr k 0 \<and> (hp_blocks h k = None \<or> p \<in> free_ptrs b) \<and>
        hp_len h' k = Some n \<and> (\<forall>c. c \<noteq> k \<longrightarrow> hp_blocks h' c = hp_blocks h c)) \<and>
     free_ptrs b' = free_ptrs b - {p} \<and> tracked b \<subseteq> tracked b' \<and> tracked b' \<subseteq> insert p (tracked b) \<and>
     backend_ok (hp_len h') b' \<and> heap_ok h'"

lemma sys_alloc_effect:
  assumes "sys_alloc xs h = (p, h')" "p \<noteq> NULL" "heap_ok h" "0 < length xs"
    and "free_ptrs b = {}" "tracked b = {}" "free_ptrs b' = {}" "tracked b' = {}"
    and "backend_ok (hp_len h') b'"
  shows "alloc_effect (length xs) b h p b' h'"
proof -
  note c = sys_alloc_cases [OF assms(1,2)]
  have "heap_ok h'" using sys_alloc_ok [OF assms(3), of xs] assms(1) by simp
  moreover have "hp_blocks h (hp_next h) = None"
    using assms(3) by (auto simp: heap_ok_def)
  ultimately show ?thesis using assms c by (simp add: alloc_effect_def hp_len_def)
qed

lemma malloc_effect:
  assumes "malloc n h = (p, h')" "p \<noteq> NULL" "heap_ok h" "0 < n"
    and "free_ptrs b = {}" "tracked b = {}" "free_ptrs b' = {}" "tracked b' = {}"
    and "backend_ok (hp_len h') b'"
  shows "alloc_effect n b h p b' h'"
  using sys_alloc_effect [OF assms(1) [unfolded malloc_def]] assms by simp

lemma mmap_effect:
  assumes "mmap_file n h = (p, h')" "p \<noteq> NULL" "heap_ok h" "0 < n"
    and "free_ptrs b = {}" "tracked b = {}" "free_ptrs b' = {}" "tracked b' = {}"
    and "backend_ok (hp_len h') b'"
  shows "alloc_effect n b h p b' h'"
  using sys_alloc_effect [OF assms(1) [unfolded mmap_file_def]] assms by simp

lemma malloc_allocate_effect:
  assumes "malloc_allocate fi n lf m = Inr (p, m')" "heap_ok (mem_heap m)"
  shows "alloc_effect n (MemoryBackendMalloc lf) (mem_heap m) p (MemoryBackendMalloc lf) (mem_heap m')"
proof -
  obtain q h where a: "malloc n (mem_heap m) = (q, h)" by force
  with assms(1) have "q = p" "q \<noteq> NULL" "mem_heap m' = h" "0 < n"
    by (auto simp: malloc_allocate_def bindE_eq_Inr)
  with a assms(2) show ?thesis by (auto intro: malloc_effect)
qed

lemma nvdimm_allocate_effect:
  assumes "nvdimm_allocate fi n lf nv m = Inr (p, nv', m')" "heap_ok (mem_heap m)"
  shows "alloc_effect n (MemoryBackendNvdimm lf nv) (mem_heap m) p (MemoryBackendNvdimm lf nv') (mem_heap m')"
proof -
  obtain q h where a: "mmap_file n (mem_heap m) = (q, h)" by force
  with assms(1) have "q = p" "q \<noteq> NULL" "mem_heap m' = h" "0 < n"
    by (auto simp: nvdimm_allocate_def bindE_eq_Inr)
  with a assms(2) show ?thesis by (auto intro: mmap_effect)
qed

lemma nvdimm_grow_allocate_effect:
  assumes "nvdimm_grow_allocate fi n lf ng m = Inr (p, ng', m')" "heap_ok (mem_heap m)"
  shows "alloc_effect n (MemoryBackendNvdimmGrow lf ng) (mem_heap m) p
    (MemoryBackendNvdimmGrow lf ng') (mem_heap m')"
proof -
  obtain q h where a: "mmap_file n (mem_heap m) = (q, h)" by force
  with assms(1) have "q = p" "q \<noteq> NULL" "mem_heap m' = h" "0 < n"
    by (auto simp: nvdimm_grow_allocate_def bindE_eq_Inr Let_def)
  with a assms(2) show ?thesis by (auto intro: mmap_effect)
qed

lemma freeList_of_mem:
  "sm_ok fl \<Longrightarrow> freeList_of fl n = ps \<Longrightarrow> ps \<noteq> [] \<Longrightarrow> (n, ps) \<in> set fl"
  by (auto simp: freeList_of_def sm_find_in split: option.splits)

lemma cache_hit_ptr:
  assumes "backend_ok L (MemoryBackendCache sub fl rt)" "freeList_of fl n = p # ps"
  shows "(n, p # ps) \<in> set fl" "(p, n) \<in> set rt" "p \<notin> free_ptrs sub" "p \<notin> set ps"
    and "(k, qs) \<in> set fl \<Longrightarrow> k \<noteq> n \<Longrightarrow> p \<notin> set qs"
proof -
  note ok = cache_okD [OF assms(1)]
  show fl: "(n, p # ps) \<in> set fl" using freeList_of_mem [OF ok(2) assms(2)] by simp
  show rt: "(p, n) \<in> set rt" using ok(7) [OF fl] by simp
  then show "p \<notin> free_ptrs sub" by (rule ok(4))
  show "p \<notin> set ps" using ok(6) [OF fl] by simp
  show "(k, qs) \<in> set fl \<Longrightarrow> k \<noteq> n \<Longrightarrow> p \<notin> set qs"
    using ok(3,7) rt by (auto simp: sm_find_in)
qed

lemma cache_hit_effect:
  assumes "backend_ok (hp_len h) (MemoryBackendCache sub fl rt)" "heap_ok h"
    and "freeList_of fl n = p # ps" "0 < n"
  shows "alloc_effect n (MemoryBackendCache sub fl rt) h p
    (MemoryBackendCache sub (sm_set n ps fl) rt) h"
proof -
  note ok = cache_okD [OF assms(1)] and hit = cache_hit_ptr [OF assms(1,3)]
  have set': "set (sm_set n ps fl) = insert (n, ps) {(k, qs) \<in> set fl. k \<noteq> n}"
    by (rule set_sm_set [OF ok(2)])
  have n_unique: "qs = p # ps" if "(n, qs) \<in> set fl" for qs
    using that hit(1) ok(2) by (simp add: sm_find_in)
  have "q \<in> fl_ptrs (sm_set n ps fl) \<longleftrightarrow> q \<in> fl_ptrs fl \<and> q \<noteq> p" for q
  proof
    assume "q \<in> fl_ptrs (sm_set n ps fl)"
    then obtain k qs where "(k, qs) = (n, ps) \<or> (k, qs) \<in> set fl \<and> k \<noteq> n" "q \<in> set qs"
      unfolding in_fl_ptrs set' by auto
    with hit show "q \<in> fl_ptrs fl \<and> q \<noteq> p"
      unfolding in_fl_ptrs by (metis Pair_inject list.set_intros(2))
  next
    assume "q \<in> fl_ptrs fl \<and> q \<noteq> p"
    then obtain k qs where k: "(k, qs) \<in> set fl" "q \<in> set qs" "q \<noteq> p" unfolding in_fl_ptrs by auto
    show "q \<in> fl_ptrs (sm_set n ps fl)"
      using k n_unique [of qs] unfolding in_fl_ptrs set' by (cases "k = n") auto
  qed
  then have "free_ptrs (MemoryBackendCache sub (sm_set n ps fl) rt) =
      free_ptrs (MemoryBackendCache sub fl rt) - {p}"
    using hit(3) by auto
  moreover have "backend_ok (hp_len h) (MemoryBackendCache sub (sm_set n ps fl) rt)"
    using ok hit(1) ok(6) [OF hit(1)] by (intro cache_okI) (auto simp: set' sm_ok_set)
  moreover have "p \<in> free_ptrs (MemoryBackendCache sub fl rt)"
    using hit(1) unfolding free_ptrs.simps Un_iff in_fl_ptrs by (metis list.set_intros(1))
  moreover obtain k where "p = Ptr k 0" "hp_len h k = Some n" using ok(5) [OF hit(2)] by auto
  ultimately show ?thesis
    using assms(2,4) unfolding alloc_effect_def by auto
qed

lemma cache_miss_effect:
  assumes ok: "backend_ok (hp_len h) (MemoryBackendCache sub fl rt)"
    and eff: "alloc_effect n sub h p sub' h'" and empty: "freeList_of fl n = []"
  shows "alloc_effect n (MemoryBackendCache sub fl rt) h p
    (MemoryBackendCache sub' (sm_set n [] fl) (sm_set p n rt)) h'"
proof -
  note okD = cache_okD [OF ok]
  obtain k where k: "p = Ptr k 0" "hp_blocks h k = None \<or> p \<in> free_ptrs sub"
    "hp_len h' k = Some n" "\<And>c. c \<noteq> k \<Longrightarrow> hp_blocks h' c = hp_blocks h c"
    using eff by (auto simp: alloc_effect_def)
  have new: "(p, s) \<notin> set rt" for s
    using okD(4) [of p s] okD(5) [of p s] k(1,2) by (auto simp: hp_len_def)
  have set_rt: "set (sm_set p n rt) = insert (p, n) (set rt)"
    using okD(3) new by (auto simp: set_sm_set)
  have set_fl: "set (sm_set n [] fl) = insert (n, []) {(k, qs) \<in> set fl. k \<noteq> n}"
    by (rule set_sm_set [OF okD(2)])
  have n_empty: "qs = []" if "(n, qs) \<in> set fl" for qs
    using that empty okD(2) by (auto simp: freeList_of_def sm_find_in split: option.splits)
  have "q \<in> fl_ptrs (sm_set n [] fl) \<longleftrightarrow> q \<in> fl_ptrs fl" for q
  proof
    assume "q \<in> fl_ptrs (sm_set n [] fl)"
    then show "q \<in> fl_ptrs fl" unfolding in_fl_ptrs set_fl by auto
  next
    assume "q \<in> fl_ptrs fl"
    then obtain c qs where c: "(c, qs) \<in> set fl" "q \<in> set qs" unfolding in_fl_ptrs by auto
    then have "c \<noteq> n" using n_empty [of qs] by auto
    with c show "q \<in> fl_ptrs (sm_set n [] fl)" unfolding in_fl_ptrs set_fl by auto
  qed
  moreover have "p \<notin> fl_ptrs fl"
    using okD(7) new unfolding in_fl_ptrs by blast
  ultimately have "q \<in> fl_ptrs (sm_set n [] fl) \<longleftrightarrow> q \<in> fl_ptrs fl - {p}" for q by auto
  then have free: "free_ptrs (MemoryBackendCache sub' (sm_set n [] fl) (sm_set p n rt)) =
      free_ptrs (MemoryBackendCache sub fl rt) - {p}"
    using eff by (auto simp: alloc_effect_def)
  have "\<exists>c. q = Ptr c 0 \<and> hp_len h' c = Some s" if "(q, s) \<in> set rt" for q s
  proof -
    from okD(5) [OF that] obtain c where c: "q = Ptr c 0" "hp_len h c = Some s" by auto
    then have "c \<noteq> k" using new that k(1) by auto
    with c k(4) show ?thesis by (simp add: hp_len_def)
  qed
  then have "backend_ok (hp_len h') (MemoryBackendCache sub' (sm_set n [] fl) (sm_set p n rt))"
    using eff okD k(1,3) set_rt [unfolded k(1)]
    by (intro cache_okI) (auto simp: alloc_effect_def set_fl sm_ok_set)
  with free show ?thesis
    using eff k set_rt unfolding alloc_effect_def by auto
qed

lemma UN_list_update:
  assumes "i < length bs"
  shows "(\<Union>b \<in> set (bs[i := x]). f b) = f x \<union> (\<Union>j \<in> {..<length bs} - {i}. f (bs ! j))"
proof -
  have "(\<Union>b \<in> set (bs[i := x]). f b) = (\<Union>j < length bs. f (bs[i := x] ! j))"
    by (auto simp: set_conv_nth nth_list_update split: if_splits)
  also have "\<dots> = f x \<union> (\<Union>j \<in> {..<length bs} - {i}. f (bs ! j))"
    using assms by (auto simp: nth_list_update split: if_splits)
  finally show ?thesis .
qed

lemma UN_list_split:
  "i < length bs \<Longrightarrow> (\<Union>b \<in> set bs. f b) = f (bs ! i) \<union> (\<Union>j \<in> {..<length bs} - {i}. f (bs ! j))"
  using UN_list_update [of i bs f "bs ! i"] by simp

lemma balance_effect:
  assumes ok: "backend_ok (hp_len h) (MemoryBackendBalance bs mems own)" and i: "i < length bs"
    and eff: "alloc_effect n (bs ! i) h p sub' h'"
  shows "alloc_effect n (MemoryBackendBalance bs mems own) h p
    (MemoryBackendBalance (bs[i := sub']) (mems[i := x]) (sm_set p i own)) h'"
proof -
  note okD = balance_okD [OF ok]
  obtain k where k: "p = Ptr k 0" "hp_blocks h k = None \<or> p \<in> free_ptrs (bs ! i)"
    "hp_len h' k = Some n" "\<And>c. c \<noteq> k \<Longrightarrow> hp_blocks h' c = hp_blocks h c"
    using eff by (auto simp: alloc_effect_def)
  have other: "p \<notin> tracked (bs ! j)" if "j < length bs" "j \<noteq> i" for j
  proof
    assume p: "p \<in> tracked (bs ! j)"
    then have "hp_blocks h k \<noteq> None"
      using tracked_live [OF okD(3) [OF that(1)]] k(1) by (force simp: hp_len_def)
    then have "p \<in> tracked (bs ! i)"
      using k(2) free_ptrs_tracked [OF okD(3) [OF i]] by auto
    with p okD(4) [OF i that(1)] that(2) show False by auto
  qed
  have okj: "backend_ok (hp_len h') (bs ! j)" if "j < length bs" "j \<noteq> i" for j
  proof (rule backend_ok_frame [OF okD(3) [OF that(1)]])
    fix c
    assume "Ptr c 0 \<in> tracked (bs ! j)"
    then have "c \<noteq> k" using other [OF that] k(1) by auto
    then show "hp_len h' c = hp_len h c" using k(4) by (simp add: hp_len_def)
  qed
  have tr: "tracked sub' \<subseteq> insert p (tracked (bs ! i))" "backend_ok (hp_len h') sub'"
    using eff by (simp_all add: alloc_effect_def)
  have set_own: "set (sm_set p i own) = insert (p, i) {(q, c) \<in> set own. q \<noteq> p}"
    by (rule set_sm_set [OF okD(2)])
  have ok': "backend_ok (hp_len h')
      (MemoryBackendBalance (bs[i := sub']) (mems[i := x]) (sm_set p i own))"
  proof (rule balance_okI)
    show "tracked (bs[i := sub'] ! a) \<inter> tracked (bs[i := sub'] ! b) = {}"
      if "a < length (bs[i := sub'])" "b < length (bs[i := sub'])" "a \<noteq> b" for a b
    proof -
      have "tracked (bs ! a) \<inter> tracked (bs ! b) = {}" using okD(4) that by simp
      then show ?thesis
        using that tr(1) other [of a] other [of b] i
        by (cases "a = i"; cases "b = i") (auto simp: nth_list_update)
    qed
    show "q \<notin> tracked (bs[i := sub'] ! j)"
      if "(q, c) \<in> set (sm_set p i own)" "j < length (bs[i := sub'])" "j \<noteq> c" for q c j
      using that other [of j] okD(6) [of q c j] tr(1) unfolding set_own
      by (cases "j = i") (auto simp: nth_list_update)
  qed (use okD i okj tr(2) set_own in \<open>auto simp: nth_list_update sm_ok_set\<close>)
  have "p \<notin> free_ptrs (bs ! j)" if "j < length bs" "j \<noteq> i" for j
    using other [OF that] free_ptrs_tracked [OF okD(3) [OF that(1)]] by auto
  then have "free_ptrs (MemoryBackendBalance (bs[i := sub']) (mems[i := x]) (sm_set p i own)) =
      free_ptrs (MemoryBackendBalance bs mems own) - {p}"
    using eff i by (auto simp: UN_list_update UN_list_split [of i bs] alloc_effect_def)
  moreover have "tracked (MemoryBackendBalance bs mems own) \<subseteq>
      tracked (MemoryBackendBalance (bs[i := sub']) (mems[i := x]) (sm_set p i own))"
    "tracked (MemoryBackendBalance (bs[i := sub']) (mems[i := x]) (sm_set p i own)) \<subseteq>
      insert p (tracked (MemoryBackendBalance bs mems own))"
    using eff i by (auto simp: UN_list_update UN_list_split [of i bs] alloc_effect_def)
  moreover have "p \<in> free_ptrs (bs ! i) \<Longrightarrow> p \<in> free_ptrs (MemoryBackendBalance bs mems own)"
    using i by auto
  ultimately show ?thesis
    using eff ok' k unfolding alloc_effect_def by blast
qed

lemma allocate_spec:
  assumes "allocate fi n b m = Inr (p, b', m')"
    and "backend_ok (hp_len (mem_heap m)) b" "heap_ok (mem_heap m)"
  shows "alloc_effect n b (mem_heap m) p b' (mem_heap m')"
  using assms
proof (induction fi n b m arbitrary: p b' m' rule: allocate.induct)
  case (1 fi n lf m)
  then show ?case using malloc_allocate_effect by (auto simp: bindE_eq_Inr)
next
  case (2 fi n lf nv m)
  then show ?case using nvdimm_allocate_effect by (auto simp: bindE_eq_Inr)
next
  case (3 fi n lf ng m)
  then show ?case using nvdimm_grow_allocate_effect by (auto simp: bindE_eq_Inr)
next
  case (4 fi n sub fl rt m)
  then show ?case
  proof (cases "freeList_of fl n")
    case Nil
    with "4.prems"(1) obtain sub' where a: "allocate fi n sub m = Inr (p, sub', m')"
      "b' = MemoryBackendCache sub' (sm_set n [] fl) (sm_set p n rt)" "0 < n"
      by (auto simp: bindE_eq_Inr)
    have "alloc_effect n sub (mem_heap m) p sub' (mem_heap m')"
      using "4.IH" [OF _ Nil a(1)] "4.prems" a(3) by simp
    with cache_miss_effect [OF "4.prems"(2) _ Nil] a(2) show ?thesis by simp
  next
    case (Cons q qs)
    with "4.prems" cache_hit_effect [OF "4.prems"(2,3) Cons] show ?thesis
      by (auto simp: bindE_eq_Inr simp del: backend_ok.simps)
  qed
next
  case (5 fi n bs mems own m)
  let ?i = "balance_select mems"
  from "5.prems"(1) obtain sub' where a: "?i < length bs"
    "allocate fi n (bs ! ?i) m = Inr (p, sub', m')"
    "b' = MemoryBackendBalance (bs[?i := sub']) (mems[?i := add64 (mems ! ?i) n]) (sm_set p ?i own)"
    by (auto simp: bindE_eq_Inr Let_def split: if_splits)
  have "alloc_effect n (bs ! ?i) (mem_heap m) p sub' (mem_heap m')"
    using "5.IH" [OF refl a(1,2)] "5.prems" a(1) by simp
  with balance_effect [OF "5.prems"(2) a(1)] a(3) show ?case by simp
qed

text \<open>What a de-allocation may change.\<close>

definition dealloc_effect ::
  "memory_backend \<Rightarrow> heap \<Rightarrow> ptr \<Rightarrow> memory_backend \<Rightarrow> heap \<Rightarrow> bool" where
  "dealloc_effect b h p b' h' \<longleftrightarrow>
     (\<exists>k. p = Ptr k 0 \<and> (\<forall>c. c \<noteq> k \<longrightarrow> hp_blocks h' c = hp_blocks h c)) \<and>
     free_ptrs b' \<subseteq> insert p (free_ptrs b) \<and> tracked b' = tracked b \<and>
     backend_ok (hp_len h') b' \<and> heap_ok h'"

lemma free_block_effect:
  assumes "free_block p h = Inr h'" "heap_ok h"
    and "free_ptrs b' = {}" "tracked b = {}" "tracked b' = {}" "backend_ok (hp_len h') b'"
  shows "dealloc_effect b h p b' h'"
  using assms by (cases p) (auto simp: dealloc_effect_def heap_ok_def split: if_splits)

lemma isLocalMemory_True:
  "isLocalMemory p n rt = Inr True \<Longrightarrow> sm_ok rt \<Longrightarrow> (p, n) \<in> set rt"
  by (auto simp: isLocalMemory_def bindE_eq_Inr sm_find_in split: option.splits)

lemma cache_dealloc_effect:
  assumes ok: "backend_ok (hp_len h) (MemoryBackendCache sub fl rt)" and "heap_ok h"
    and "(p, n) \<in> set rt" "p \<notin> free_ptrs (MemoryBackendCache sub fl rt)"
  shows "dealloc_effect (MemoryBackendCache sub fl rt) h p
    (MemoryBackendCache sub (sm_set n (p # freeList_of fl n) fl) rt) h"
proof -
  note okD = cache_okD [OF ok]
  have set': "set (sm_set n (p # freeList_of fl n) fl) =
      insert (n, p # freeList_of fl n) {(k, qs) \<in> set fl. k \<noteq> n}"
    by (rule set_sm_set [OF okD(2)])
  have old: "distinct (freeList_of fl n)" "q \<in> set (freeList_of fl n) \<Longrightarrow> q \<in> fl_ptrs fl \<and> (q, n) \<in> set rt" for q
    using freeList_of_mem [OF okD(2) refl, of n] okD(6,7) unfolding in_fl_ptrs
    by (cases "freeList_of fl n = []"; fastforce)+
  have p: "p \<notin> set (freeList_of fl n)" using old(2) [of p] assms(4) by auto
  have "backend_ok (hp_len h) (MemoryBackendCache sub (sm_set n (p # freeList_of fl n) fl) rt)"
    using okD old p assms(3) by (intro cache_okI) (auto simp: set' sm_ok_set)
  moreover have "fl_ptrs (sm_set n (p # freeList_of fl n) fl) \<subseteq> insert p (fl_ptrs fl)"
  proof
    fix q
    assume "q \<in> fl_ptrs (sm_set n (p # freeList_of fl n) fl)"
    then consider "q = p" | "q \<in> set (freeList_of fl n)" | k qs where "(k, qs) \<in> set fl" "q \<in> set qs"
      unfolding in_fl_ptrs set' by auto
    then show "q \<in> insert p (fl_ptrs fl)"
      by cases (use old(2) in_fl_ptrs in auto)
  qed
  moreover obtain k where "p = Ptr k 0" using okD(5) [OF assms(3)] by auto
  ultimately show ?thesis using assms(2) unfolding dealloc_effect_def by auto
qed

lemma balance_dealloc_effect:
  assumes ok: "backend_ok (hp_len h) (MemoryBackendBalance bs mems own)"
    and own: "(p, i) \<in> set own" and eff: "dealloc_effect (bs ! i) h p sub' h'"
  shows "dealloc_effect (MemoryBackendBalance bs mems own) h p
    (MemoryBackendBalance (bs[i := sub']) (mems[i := x]) (sm_erase p own)) h'"
proof -
  note okD = balance_okD [OF ok]
  have i: "i < length bs" by (rule okD(5) [OF own])
  obtain k where k: "p = Ptr k 0" "\<And>c. c \<noteq> k \<Longrightarrow> hp_blocks h' c = hp_blocks h c"
    using eff by (auto simp: dealloc_effect_def)
  have okj: "backend_ok (hp_len h') (bs ! j)" if "j < length bs" "j \<noteq> i" for j
  proof (rule backend_ok_frame [OF okD(3) [OF that(1)]])
    fix c
    assume "Ptr c 0 \<in> tracked (bs ! j)"
    then have "c \<noteq> k" using okD(6) [OF own that] k(1) by auto
    then show "hp_len h' c = hp_len h c" using k(2) by (simp add: hp_len_def)
  qed
  have tr: "tracked (bs[i := sub'] ! j) = tracked (bs ! j)" if "j < length bs" for j
    using eff that by (cases "j = i") (auto simp: dealloc_effect_def)
  have "backend_ok (hp_len h') (bs[i := sub'] ! j)" if "j < length bs" for j
    using eff okj that by (cases "j = i") (auto simp: dealloc_effect_def)
  then have "backend_ok (hp_len h') (MemoryBackendBalance (bs[i := sub']) (mems[i := x]) (sm_erase p own))"
    using okD(1,2,4,5,6) tr
    by (intro balance_okI) (auto simp: dealloc_effect_def nth_list_update sm_ok_erase)
  moreover have "tracked (MemoryBackendBalance (bs[i := sub']) (mems[i := x]) (sm_erase p own)) =
      tracked (MemoryBackendBalance bs mems own)"
    "free_ptrs (MemoryBackendBalance (bs[i := sub']) (mems[i := x]) (sm_erase p own)) \<subseteq>
      insert p (free_ptrs (MemoryBackendBalance bs mems own))"
    using eff i by (auto simp: UN_list_update UN_list_split [of i bs] dealloc_effect_def)
  ultimately show ?thesis
    using eff k unfolding dealloc_effect_def by blast
qed

lemma deallocate_spec:
  assumes "deallocate p n b m = Inr (b', m')" "p \<notin> free_ptrs b"
    and "backend_ok (hp_len (mem_heap m)) b" "heap_ok (mem_heap m)"
  shows "dealloc_effect b (mem_heap m) p b' (mem_heap m')"
  using assms
proof (induction p n b m arbitrary: b' m' rule: deallocate.induct)
  case (1 p n lf m)
  then show ?case by (auto simp: malloc_deallocate_def bindE_eq_Inr intro!: free_block_effect)
next
  case (2 p n lf nv m)
  then show ?case by (auto simp: nvdimm_deallocate_def bindE_eq_Inr intro!: free_block_effect)
next
  case (3 p n lf ng m)
  then show ?case by (auto simp: nvdimm_grow_deallocate_def bindE_eq_Inr intro!: free_block_effect)
next
  case (4 p n sub fl rt m)
  then have "(p, n) \<in> set rt" "m' = m"
    "b' = MemoryBackendCache sub (sm_set n (p # freeList_of fl n) fl) rt"
    using isLocalMemory_True [of p n rt] cache_okD(3) [OF "4.prems"(3)]
    by (auto simp: bindE_eq_Inr)
  with cache_dealloc_effect [OF "4.prems"(3,4) _ "4.prems"(2)] show ?case by simp
next
  case (5 p n bs mems own m)
  then obtain i sub' where i: "sm_find own p = Some i" "i < length bs"
    "deallocate p n (bs ! i) m = Inr (sub', m')"
    "b' = MemoryBackendBalance (bs[i := sub']) (mems[i := sub64 (mems ! i) n]) (sm_erase p own)"
    "p \<noteq> NULL" "0 < n"
    by (auto simp: bindE_eq_Inr split: option.splits if_splits)
  have "(p, i) \<in> set own" using i(1) by (rule map_of_SomeD)
  moreover have "dealloc_effect (bs ! i) (mem_heap m) p sub' (mem_heap m')"
    using "5.IH" [OF _ _ i(1,2,3)] i "5.prems"(2,4) balance_okD(3) [OF "5.prems"(3) i(2)] by auto
  ultimately show ?case
    using balance_dealloc_effect [OF "5.prems"(3)] i(4) by blast
qed

section \<open>Message buffers\<close>

text \<open>The backends register and unregister their memory; the pool of message buffers is untouched.\<close>

definition same_pool :: "LibfabricDomain \<Rightarrow> LibfabricDomain \<Rightarrow> bool" where
  "same_pool d d' \<longleftrightarrow> ld_msgBuffers d' = ld_msgBuffers d \<and> ld_msgBufferSize d' = ld_msgBufferSize d"

lemma same_pool_refl [simp]: "same_pool d d"
  by (simp add: same_pool_def)

lemma register_pool:
  "register_if fi lf p n pmem d = Inr d' \<Longrightarrow> same_pool d d'"
  "unregister_if lf p n d = Inr d' \<Longrightarrow> same_pool d d'"
  by (auto simp: same_pool_def register_if_def unregister_if_def registerSegment_def unregisterSegment_def Let_def
      elim!: bindE_InrE split: if_splits list.splits)

lemma allocate_same_pool:
  "allocate fi n b m = Inr (p, b', m') \<Longrightarrow> same_pool (mem_domain m) (mem_domain m')"
proof (induction fi n b m arbitrary: p b' m' rule: allocate.induct)
  case (4 fi n sub fl rt m)
  then show ?case by (cases "freeList_of fl n") (auto elim!: bindE_InrE)
next
  case (5 fi n bs mems own m)
  then show ?case by (auto elim!: bindE_InrE simp: Let_def split: if_splits)
qed (auto elim!: bindE_InrE register_pool
    simp: malloc_allocate_def nvdimm_allocate_def nvdimm_grow_allocate_def Let_def split: prod.splits)

lemma deallocate_same_pool:
  "deallocate p n b m = Inr (b', m') \<Longrightarrow> same_pool (mem_domain m) (mem_domain m')"
proof (induction p n b m arbitrary: b' m' rule: deallocate.induct)
  case (5 p n bs mems own m)
  then show ?case by (auto elim!: bindE_InrE split: option.splits if_splits)
qed (auto elim!: bindE_InrE register_pool
    simp: malloc_deallocate_def nvdimm_deallocate_def nvdimm_grow_deallocate_def)

lemmas allocate_pool = allocate_same_pool [unfolded same_pool_def]
lemmas deallocate_pool = deallocate_same_pool [unfolded same_pool_def]

section \<open>Interface of a memory allocator\<close>

text \<open>
  What the object layer relies on.  \<open>pool\<close> are the buffers an allocator keeps for reuse;
  blocks in use are live and outside the pool.
\<close>

locale memory_allocator =
  fixes alloc :: "size_t \<Rightarrow> 'b \<Rightarrow> mem \<Rightarrow> (ptr \<times> 'b \<times> mem) result"
    and dealloc :: "ptr \<Rightarrow> size_t \<Rightarrow> 'b \<Rightarrow> mem \<Rightarrow> ('b \<times> mem) result"
    and pool :: "'b \<Rightarrow> ptr set"
    and wf :: "(nat \<Rightarrow> nat option) \<Rightarrow> 'b \<Rightarrow> bool"
  assumes alloc_law: "wf (hp_len (mem_heap m)) b \<Longrightarrow> heap_ok (mem_heap m) \<Longrightarrow>
      alloc n b m = Inr (p, b', m') \<Longrightarrow>
      (\<exists>k. p = Ptr k 0 \<and> (hp_blocks (mem_heap m) k = None \<or> p \<in> pool b) \<and>
         hp_len (mem_heap m') k = Some n \<and>
         (\<forall>c. c \<noteq> k \<longrightarrow> hp_blocks (mem_heap m') c = hp_blocks (mem_heap m) c)) \<and>
      pool b' = pool b - {p} \<and> wf (hp_len (mem_heap m')) b' \<and> heap_ok (mem_heap m')"
    and dealloc_law: "wf (hp_len (mem_heap m)) b \<Longrightarrow> heap_ok (mem_heap m) \<Longrightarrow> p \<notin> pool b \<Longrightarrow>
      dealloc p n b m = Inr (b', m') \<Longrightarrow>
      (\<exists>k. p = Ptr k 0 \<and>
         (\<forall>c. c \<noteq> k \<longrightarrow> hp_blocks (mem_heap m') c = hp_blocks (mem_heap m) c)) \<and>
      pool b' \<subseteq> insert p (pool b) \<and> wf (hp_len (mem_heap m')) b' \<and> heap_ok (mem_heap m')"
begin

definition in_use :: "nat set \<Rightarrow> 'b \<Rightarrow> mem \<Rightarrow> bool" where
  "in_use U b m \<longleftrightarrow> wf (hp_len (mem_heap m)) b \<and> heap_ok (mem_heap m) \<and>
     (\<forall>k \<in> U. hp_blocks (mem_heap m) k \<noteq> None \<and> Ptr k 0 \<notin> pool b)"

lemma in_use_alloc:
  assumes "in_use U b m" "alloc n b m = Inr (p, b', m')"
  obtains k where "p = Ptr k 0" "k \<notin> U" "in_use (insert k U) b' m'"
    "hp_len (mem_heap m') k = Some n"
    "\<And>c. c \<in> U \<Longrightarrow> hp_blocks (mem_heap m') c = hp_blocks (mem_heap m) c"
proof -
  have w: "wf (hp_len (mem_heap m)) b" "heap_ok (mem_heap m)" using assms(1) by (auto simp: in_use_def)
  note law = alloc_law [OF w assms(2)]
  then obtain k where k: "p = Ptr k 0" "hp_blocks (mem_heap m) k = None \<or> p \<in> pool b"
    "hp_len (mem_heap m') k = Some n"
    "\<And>c. c \<noteq> k \<Longrightarrow> hp_blocks (mem_heap m') c = hp_blocks (mem_heap m) c" by blast
  have nu: "k \<notin> U" using k(1,2) assms(1) by (auto simp: in_use_def)
  have "hp_blocks (mem_heap m') c \<noteq> None \<and> Ptr c 0 \<notin> pool b" if "c \<in> U" for c
  proof -
    have "c \<noteq> k" using nu that by auto
    with k(4) [OF this] show ?thesis using assms(1) that by (auto simp: in_use_def)
  qed
  then have "in_use (insert k U) b' m'"
    using law k(1,3) by (auto simp: in_use_def hp_len_def)
  with that k nu show thesis by (metis (no_types))
qed

lemma in_use_dealloc:
  assumes "in_use U b m" "p \<notin> pool b" "dealloc p n b m = Inr (b', m')"
  obtains k where "p = Ptr k 0" "in_use (U - {k}) b' m'"
    "\<And>c. c \<noteq> k \<Longrightarrow> hp_blocks (mem_heap m') c = hp_blocks (mem_heap m) c"
proof -
  have w: "wf (hp_len (mem_heap m)) b" "heap_ok (mem_heap m)" using assms(1) by (auto simp: in_use_def)
  note law = dealloc_law [OF w assms(2,3)]
  then obtain k where k: "p = Ptr k 0"
    "\<And>c. c \<noteq> k \<Longrightarrow> hp_blocks (mem_heap m') c = hp_blocks (mem_heap m) c" by blast
  then have "in_use (U - {k}) b' m'"
    using law assms(1) by (auto simp: in_use_def)
  with that k show thesis by blast
qed

end

interpretation backends: memory_allocator "allocate fi" deallocate free_ptrs backend_ok
  using allocate_spec deallocate_spec
  by unfold_locales (auto simp: alloc_effect_def dealloc_effect_def)

section \<open>Histories of a backend\<close>

text \<open>
  The runs of a backend: buffers are allocated, written by their owners and given back with
  the size they were asked for.  The last argument lists the buffers in use.
\<close>

inductive backend_history ::
  "fabric_ops \<Rightarrow> memory_backend \<Rightarrow> mem \<Rightarrow> memory_backend \<Rightarrow> mem \<Rightarrow> (ptr \<times> size_t) list \<Rightarrow> bool"
  for fi b0 m0 where
  bh_start: "backend_history fi b0 m0 b0 m0 []"
| bh_alloc: "backend_history fi b0 m0 b m L \<Longrightarrow> allocate fi n b m = Inr (p, b', m') \<Longrightarrow>
    backend_history fi b0 m0 b' m' ((p, n) # L)"
| bh_write: "backend_history fi b0 m0 b m L \<Longrightarrow> (p, n) \<in> set L \<Longrightarrow>
    write_mem (ptr_add p i) ys (mem_heap m) = Inr h \<Longrightarrow>
    backend_history fi b0 m0 b (m\<lparr>mem_heap := h\<rparr>) L"
| bh_dealloc: "backend_history fi b0 m0 b m L \<Longrightarrow> (p, n) \<in> set L \<Longrightarrow>
    deallocate p n b m = Inr (b', m') \<Longrightarrow>
    backend_history fi b0 m0 b' m' (remove1 (p, n) L)"

definition live_ok :: "memory_backend \<Rightarrow> mem \<Rightarrow> (ptr \<times> size_t) list \<Rightarrow> bool" where
  "live_ok b m L \<longleftrightarrow> backends.in_use {k. Ptr k 0 \<in> fst ` set L} b m \<and> distinct (map fst L) \<and>
     (\<forall>p n. (p, n) \<in> set L \<longrightarrow> (\<exists>k. p = Ptr k 0 \<and> hp_len (mem_heap m) k = Some n))"

lemma live_okD:
  assumes "live_ok b m L"
  shows "backends.in_use {k. Ptr k 0 \<in> fst ` set L} b m" "distinct (map fst L)"
    and "(p, n) \<in> set L \<Longrightarrow> \<exists>k. p = Ptr k 0 \<and> hp_len (mem_heap m) k = Some n"
    and "(p, n) \<in> set L \<Longrightarrow> p \<notin> free_ptrs b"
    and "backend_ok (hp_len (mem_heap m)) b" "heap_ok (mem_heap m)"
proof -
  show u: "backends.in_use {k. Ptr k 0 \<in> fst ` set L} b m" "distinct (map fst L)"
    and w: "\<And>p n. (p, n) \<in> set L \<Longrightarrow> \<exists>k. p = Ptr k 0 \<and> hp_len (mem_heap m) k = Some n"
    using assms by (auto simp: live_ok_def)
  show "(p, n) \<in> set L \<Longrightarrow> p \<notin> free_ptrs b"
    using w [of p n] u(1) unfolding backends.in_use_def by (metis fst_conv imageI mem_Collect_eq)
  show "backend_ok (hp_len (mem_heap m)) b" "heap_ok (mem_heap m)"
    using u(1) by (auto simp: backends.in_use_def)
qed

lemma live_ok_alloc:
  assumes "live_ok b m L" "allocate fi n b m = Inr (p, b', m')"
  shows "live_ok b' m' ((p, n) # L)" "p \<notin> fst ` set L"
    "\<And>k. Ptr k 0 \<in> fst ` set L \<Longrightarrow> hp_blocks (mem_heap m') k = hp_blocks (mem_heap m) k"
proof -
  note D = live_okD [OF assms(1)]
  let ?U = "{k. Ptr k 0 \<in> fst ` set L}"
  obtain k where k: "p = Ptr k 0" "k \<notin> ?U" "backends.in_use (insert k ?U) b' m'"
      "hp_len (mem_heap m') k = Some n"
      "\<And>c. c \<in> ?U \<Longrightarrow> hp_blocks (mem_heap m') c = hp_blocks (mem_heap m) c"
    by (rule backends.in_use_alloc [OF D(1) assms(2)]) (rule that)
  have set: "insert k {k. Ptr k 0 \<in> fst ` set L} = {k. Ptr k 0 \<in> fst ` set ((p, n) # L)}"
    using k(1) by auto
  have "\<exists>c. q = Ptr c 0 \<and> hp_len (mem_heap m') c = Some s" if "(q, s) \<in> set L" for q s
  proof -
    from D(3) [OF that] obtain c where c: "q = Ptr c 0" "hp_len (mem_heap m) c = Some s" by auto
    moreover have "Ptr c 0 \<in> fst ` set L" using that c(1) by force
    ultimately show ?thesis using k(5) by (auto simp: hp_len_def)
  qed
  then show "live_ok b' m' ((p, n) # L)"
    using k D(2) unfolding live_ok_def set by auto
  show "p \<notin> fst ` set L" using k(1,2) by simp
  show "\<And>k. Ptr k 0 \<in> fst ` set L \<Longrightarrow> hp_blocks (mem_heap m') k = hp_blocks (mem_heap m) k"
    using k(5) by simp
qed

lemma set_remove1_key:
  "distinct (map fst L) \<Longrightarrow> (p, n) \<in> set L \<Longrightarrow> set (remove1 (p, n) L) = {(q, s) \<in> set L. q \<noteq> p}"
  by (induction L) (force split: if_splits)+

lemma distinct_remove1_key: "distinct (map fst L) \<Longrightarrow> distinct (map fst (remove1 x L))"
  using set_remove1_subset [of x] by (induction L) (fastforce split: if_splits)+

lemma live_ok_dealloc:
  assumes "live_ok b m L" "(p, n) \<in> set L" "deallocate p n b m = Inr (b', m')"
  shows "live_ok b' m' (remove1 (p, n) L)"
proof -
  note D = live_okD [OF assms(1)]
  obtain k where k: "p = Ptr k 0" "backends.in_use ({k. Ptr k 0 \<in> fst ` set L} - {k}) b' m'"
      "\<And>c. c \<noteq> k \<Longrightarrow> hp_blocks (mem_heap m') c = hp_blocks (mem_heap m) c"
    by (rule backends.in_use_dealloc [OF D(1) D(4) [OF assms(2)] assms(3)]) (rule that)
  have L': "set (remove1 (p, n) L) = {(q, s) \<in> set L. q \<noteq> p}"
    by (rule set_remove1_key [OF D(2) assms(2)])
  have set: "{k. Ptr k 0 \<in> fst ` set L} - {k} = {k. Ptr k 0 \<in> fst ` set (remove1 (p, n) L)}"
    using k(1) unfolding L' by force
  have "\<exists>c. q = Ptr c 0 \<and> hp_len (mem_heap m') c = Some s" if "(q, s) \<in> set (remove1 (p, n) L)" for q s
  proof -
    from that L' have q: "(q, s) \<in> set L" "q \<noteq> p" by auto
    from D(3) [OF q(1)] obtain c where c: "q = Ptr c 0" "hp_len (mem_heap m) c = Some s" by auto
    moreover have "c \<noteq> k" using q(2) c(1) k(1) by auto
    ultimately show ?thesis using k(3) by (auto simp: hp_len_def)
  qed
  then show ?thesis
    using k(2) distinct_remove1_key [OF D(2)] unfolding live_ok_def set by auto
qed

lemma hp_len_write: "write_mem p ys h = Inr h' \<Longrightarrow> hp_len h' = hp_len h"
  by (auto simp: hp_len_def fun_eq_iff elim!: write_mem_Inr)

lemma live_ok_write:
  assumes "live_ok b m L" "write_mem p ys (mem_heap m) = Inr h"
  shows "live_ok b (m\<lparr>mem_heap := h\<rparr>) L"
proof -
  have some: "hp_blocks h k \<noteq> None \<longleftrightarrow> hp_blocks (mem_heap m) k \<noteq> None" for k
    using hp_len_write [OF assms(2)] by (metis hp_len_def map_option_is_None)
  show ?thesis
    using assms(1) some hp_len_write [OF assms(2)] heap_ok_write [OF _ assms(2)]
    by (simp add: live_ok_def backends.in_use_def)
qed

lemma history_live_ok:
  assumes "backend_history fi b0 m0 b m L" "backend_ok (hp_len (mem_heap m0)) b0" "heap_ok (mem_heap m0)"
  shows "live_ok b m L"
  using assms(1)
proof induction
  case bh_start
  then show ?case using assms(2,3) by (simp add: live_ok_def backends.in_use_def)
qed (blast intro: live_ok_alloc(1) live_ok_write live_ok_dealloc)+

text \<open>The bytes in use that a balance obtained from its \<open>i\<close>-th backend.\<close>

definition balance_load :: "(ptr, nat) std_map \<Rightarrow> (ptr \<times> size_t) list \<Rightarrow> nat \<Rightarrow> nat" where
  "balance_load own L i = sum_list (map (\<lambda>(p, n). if sm_find own p = Some i then n else 0) L)"

definition balance_inv :: "nat \<Rightarrow> memory_backend \<Rightarrow> (ptr \<times> size_t) list \<Rightarrow> bool" where
  "balance_inv N b L \<longleftrightarrow> (\<exists>bs mems own. b = MemoryBackendBalance bs mems own \<and>
     length bs = N \<and> length mems = N \<and> dom (sm_find own) = fst ` set L \<and>
     (\<forall>i < N. mems ! i = balance_load own L i mod W64))"

lemma balance_load_cong:
  "(\<And>p n. (p, n) \<in> set L \<Longrightarrow> (sm_find own' p = Some i) = (sm_find own p = Some i)) \<Longrightarrow>
   balance_load own' L i = balance_load own L i"
  unfolding balance_load_def by (rule arg_cong [of _ _ sum_list]) (auto intro!: map_cong)

lemma balance_load_remove1:
  "(p, n) \<in> set L \<Longrightarrow> balance_load own L i =
     balance_load own (remove1 (p, n) L) i + (if sm_find own p = Some i then n else 0)"
  by (induction L) (auto simp: balance_load_def)

lemma sub64_mod: "n \<le> S mod W64 \<Longrightarrow> sub64 (S mod W64) n = (S - n) mod W64"
proof -
  assume n: "n \<le> S mod W64"
  have "S - n = S div W64 * W64 + (S mod W64 - n)"
    using n div_mult_mod_eq [of S W64] by linarith
  moreover have "S mod W64 - n < W64" using mod_less_divisor [OF W64_pos, of S] by linarith
  ultimately have "(S - n) mod W64 = S mod W64 - n" by (metis mod_less mod_mult_self3)
  then show ?thesis using n by simp
qed

lemma balance_inv_alloc:
  assumes "balance_inv N b L" "allocate fi n b m = Inr (p, b', m')" "p \<notin> fst ` set L"
  shows "balance_inv N b' ((p, n) # L)"
proof -
  obtain bs mems own where b: "b = MemoryBackendBalance bs mems own" "length bs = N"
      "length mems = N" "dom (sm_find own) = fst ` set L"
      "\<And>i. i < N \<Longrightarrow> mems ! i = balance_load own L i mod W64"
    using assms(1) by (auto simp: balance_inv_def)
  define k where "k = balance_select mems"
  obtain sub' where k: "k < N" "b' = MemoryBackendBalance (bs[k := sub'])
      (mems[k := add64 (mems ! k) n]) (sm_set p k own)"
    using assms(2) b(1,2) by (auto simp: k_def Let_def bindE_eq_Inr split: if_splits)
  have "balance_load (sm_set p k own) L i = balance_load own L i" for i
    using assms(3) by (intro balance_load_cong) force
  then have "balance_load (sm_set p k own) ((p, n) # L) i =
      balance_load own L i + (if i = k then n else 0)" for i
    by (simp add: balance_load_def)
  then show ?thesis
    using b k(1) unfolding k(2) balance_inv_def
    by (auto simp: nth_list_update add64_def mod_simps)
qed

lemma balance_inv_dealloc:
  assumes "balance_inv N b L" "deallocate p n b m = Inr (b', m')" "(p, n) \<in> set L"
    and "distinct (map fst L)"
  shows "balance_inv N b' (remove1 (p, n) L)"
proof -
  obtain bs mems own where b: "b = MemoryBackendBalance bs mems own" "length bs = N"
      "length mems = N" "dom (sm_find own) = fst ` set L"
      "\<And>i. i < N \<Longrightarrow> mems ! i = balance_load own L i mod W64"
    using assms(1) by (auto simp: balance_inv_def)
  obtain k sub' where k: "sm_find own p = Some k" "k < N" "n \<le> mems ! k"
      "b' = MemoryBackendBalance (bs[k := sub']) (mems[k := sub64 (mems ! k) n]) (sm_erase p own)"
    using assms(2) b(1,2) by (auto simp: bindE_eq_Inr split: option.splits if_splits)
  note L' = set_remove1_key [OF assms(4,3)]
  have "balance_load (sm_erase p own) (remove1 (p, n) L) i = balance_load own (remove1 (p, n) L) i" for i
    using L' by (intro balance_load_cong) auto
  moreover have "balance_load own L i = balance_load own (remove1 (p, n) L) i + (if i = k then n else 0)" for i
    using balance_load_remove1 [OF assms(3), of own i] k(1) by simp
  ultimately have load: "balance_load (sm_erase p own) (remove1 (p, n) L) i =
      (if i = k then balance_load own L i - n else balance_load own L i)" for i by simp
  have "(mems[k := sub64 (mems ! k) n]) ! i = balance_load (sm_erase p own) (remove1 (p, n) L) i mod W64"
    if "i < N" for i
    using b(3,5) k(2,3) that load [of i] sub64_mod [of n "balance_load own L k"]
    by (cases "i = k") auto
  moreover have "dom (sm_find (sm_erase p own)) = fst ` set (remove1 (p, n) L)"
  proof -
    have "dom (sm_find (sm_erase p own)) = fst ` set L - {p}"
      unfolding sm_find_erase dom_fun_upd b(4) by simp
    then show ?thesis unfolding L' by auto
  qed
  ultimately show ?thesis
    using b(2,3) unfolding k(4) balance_inv_def
    by (simp del: sm_find_erase)
qed

lemma balance_min_loop_least:
  "ident < i \<Longrightarrow> mn = ys ! ident \<Longrightarrow> i = length ys \<Longrightarrow> (\<forall>j < i. ys ! ident \<le> ys ! j) \<Longrightarrow>
   (\<forall>j < length (ys @ xs). (ys @ xs) ! balance_min_loop xs i ident mn \<le> (ys @ xs) ! j)"
proof (induction xs arbitrary: i ident mn ys)
  case (Cons x xs)
  show ?case
  proof (cases "x < mn")
    case True
    have "\<forall>j < Suc i. (ys @ [x]) ! i \<le> (ys @ [x]) ! j"
      using True Cons.prems by (auto simp: nth_append less_Suc_eq)
    with Cons.IH [of i "Suc i" x "ys @ [x]"] Cons.prems True show ?thesis by simp
  next
    case False
    have "\<forall>j < Suc i. (ys @ [x]) ! ident \<le> (ys @ [x]) ! j"
      using False Cons.prems by (auto simp: nth_append less_Suc_eq)
    with Cons.IH [of ident "Suc i" mn "ys @ [x]"] Cons.prems False show ?thesis
      by (simp add: nth_append)
  qed
qed simp

lemma balance_select_least: "j < length mems \<Longrightarrow> mems ! balance_select mems \<le> mems ! j"
  using balance_min_loop_least [of 0 1 "hd mems" "[hd mems]" "tl mems"] by (cases mems) auto

lemma balance_inv_history:
  assumes "backend_history fi (MemoryBackendBalance bs0 mems0 []) m0 b m L"
    and "backend_ok (hp_len (mem_heap m0)) (MemoryBackendBalance bs0 mems0 [])" "heap_ok (mem_heap m0)"
    and "mems0 = replicate (length bs0) 0"
  shows "balance_inv (length bs0) b L"
  using assms(1)
proof induction
  case bh_start
  then show ?case using assms(4) by (simp add: balance_inv_def balance_load_def)
next
  case (bh_alloc b m L n p b' m')
  show ?case
    using balance_inv_alloc [OF bh_alloc.IH bh_alloc.hyps(2)]
      live_ok_alloc(2) [OF history_live_ok [OF bh_alloc.hyps(1) assms(2,3)] bh_alloc.hyps(2)] by blast
next
  case (bh_dealloc b m L p n b' m')
  show ?case
    using balance_inv_dealloc [OF bh_dealloc.IH bh_dealloc.hyps(3,2)]
      live_okD(2) [OF history_live_ok [OF bh_dealloc.hyps(1) assms(2,3)]] by blast
qed

section \<open>Windows of a pmem file\<close>

text \<open>
  A run of \<open>nvdimm_reserve\<close>: the windows \<open>(fileFD, offset, size)\<close> it handed out and the sizes
  the files were truncated to.
\<close>

inductive nvdimm_windows :: "nvdimm \<Rightarrow> (nat \<times> size_t \<times> size_t) list \<Rightarrow> bool" where
  nw_start: "nv_fileSize nv = 0 \<Longrightarrow> nv_fileOffset nv = 0 \<Longrightarrow> nvdimm_windows nv []"
| nw_reserve: "nvdimm_windows nv ws \<Longrightarrow> 0 < n \<Longrightarrow> n < W64 div 16 \<Longrightarrow>
    nvdimm_reserve n nv h = Inr (off, nv') \<Longrightarrow>
    nvdimm_windows nv' ((nv_fileFD nv', off, n) # ws)"

definition windows_disjoint :: "nat \<times> size_t \<times> size_t \<Rightarrow> nat \<times> size_t \<times> size_t \<Rightarrow> bool" where
  "windows_disjoint v w = (case (v, w) of ((fd1, o1, n1), (fd2, o2, n2)) \<Rightarrow>
     fd1 = fd2 \<longrightarrow> o1 + n1 \<le> o2 \<or> o2 + n2 \<le> o1)"

lemma mod_round_up:
  assumes "0 < (n::nat)"
  shows "x + (n - x mod n) = (x div n + 1) * n"
proof -
  have "x mod n < n" using assms by simp
  moreover have "x = x div n * n + x mod n" by simp
  ultimately show ?thesis by (simp only: add_mult_distrib)
qed

lemma nvdimm_next_size_bounds:
  assumes "0 < n" "n < W64 div 16" "fs < W64 div 2"
  shows "n dvd nvdimm_next_size fs n" "n \<le> nvdimm_next_size fs n" "nvdimm_next_size fs n < W64 div 2"
proof -
  define lim where "lim = (if mul64 fs 2 > IOC_INCREASE_LIMIT then IOC_INCREASE_LIMIT else mul64 fs 2)"
  have w: "W64 = 18446744073709551616" by (simp add: W64_def)
  have lim: "lim \<le> 32 * 1024 * 1024 * 1024" by (simp add: lim_def IOC_INCREASE_LIMIT_def)
  have m: "lim mod n < n" using assms(1) by simp
  have "lim + n < W64" using lim assms(2) w by simp
  then have up: "nvdimm_next_size fs n = (if lim mod n \<noteq> 0 then lim + (n - lim mod n) else lim)"
    if "fs \<noteq> 0"
    using that m by (simp add: nvdimm_next_size_def Let_def lim_def [symmetric])
  have first: "nvdimm_next_size 0 n = 8 * n"
    using assms(2) w by (simp add: nvdimm_next_size_def IOC_INITIAL_FACTOR_def mul64_small)
  show dvd: "n dvd nvdimm_next_size fs n"
    using up first mod_round_up [OF assms(1), of lim] by (cases "fs = 0") auto
  have "mul64 fs 2 = fs * 2" using assms(3) w by (intro mul64_small) simp
  then have "0 < lim" if "fs \<noteq> 0" using that by (simp add: lim_def IOC_INCREASE_LIMIT_def)
  then have "0 < nvdimm_next_size fs n" using up first assms(1) m by (cases "fs = 0") auto
  with dvd show "n \<le> nvdimm_next_size fs n" by (rule dvd_imp_le)
  show "nvdimm_next_size fs n < W64 div 2"
    using up first lim assms(2) w m by (cases "fs = 0") auto
qed

lemma nvdimm_reserve_step:
  assumes "nvdimm_reserve n nv h = Inr (off, nv')" "0 < n" "n < W64 div 16"
    and "nv_fileSize nv < W64 div 2" "nv_fileOffset nv \<le> nv_fileSize nv"
  shows "off + n \<le> nv_fileSize nv'" "nv_fileOffset nv' = off + n" "nv_fileSize nv' < W64 div 2"
    and "nv_fileFD nv' = nv_fileFD nv \<and> off = nv_fileOffset nv \<and> nv_fileSize nv' = nv_fileSize nv \<or>
      nv_fileFD nv' = Suc (nv_fileFD nv) \<and> off = 0"
proof -
  note nxt = nvdimm_next_size_bounds [OF assms(2-4)]
  have w: "W64 = 18446744073709551616" by (simp add: W64_def)
  have "nv_fileOffset nv + n < W64" using assms(3-5) w by simp
  moreover have "n < W64" using assms(3) w by simp
  ultimately show "off + n \<le> nv_fileSize nv'" "nv_fileOffset nv' = off + n" "nv_fileSize nv' < W64 div 2"
    "nv_fileFD nv' = nv_fileFD nv \<and> off = nv_fileOffset nv \<and> nv_fileSize nv' = nv_fileSize nv \<or>
      nv_fileFD nv' = Suc (nv_fileFD nv) \<and> off = 0"
    using assms nxt
    by (auto simp: nvdimm_reserve_def openNewFile_def bindE_eq_Inr Let_def split: if_splits)
qed

lemma nvdimm_windows_inv:
  "nvdimm_windows nv ws \<Longrightarrow>
     nv_fileSize nv < W64 div 2 \<and> nv_fileOffset nv \<le> nv_fileSize nv \<and> sorted_wrt windows_disjoint ws \<and>
     (\<forall>fd off n. (fd, off, n) \<in> set ws \<longrightarrow> fd < nv_fileFD nv \<or>
        fd = nv_fileFD nv \<and> off + n \<le> nv_fileOffset nv)"
proof (induction rule: nvdimm_windows.induct)
  case (nw_start nv)
  then show ?case by (simp add: W64_def)
next
  case (nw_reserve nv ws n h off nv')
  then have IH: "nv_fileSize nv < W64 div 2" "nv_fileOffset nv \<le> nv_fileSize nv" by auto
  note st = nvdimm_reserve_step [OF nw_reserve.hyps(4,2,3) IH]
  have old: "fd < nv_fileFD nv' \<or> fd = nv_fileFD nv' \<and> o1 + n1 \<le> off"
    if "(fd, o1, n1) \<in> set ws" for fd o1 n1
    using nw_reserve.IH that st(4) by fastforce
  then have "windows_disjoint (nv_fileFD nv', off, n) w" if "w \<in> set ws" for w
    using that by (cases w) (fastforce simp: windows_disjoint_def)
  moreover have "fd < nv_fileFD nv' \<or> fd = nv_fileFD nv' \<and> o1 + n1 \<le> nv_fileOffset nv'"
    if "(fd, o1, n1) \<in> set ((nv_fileFD nv', off, n) # ws)" for fd o1 n1
    using that old [of fd o1 n1] st(2) by auto
  ultimately show ?case
    using nw_reserve.IH st(1,2,3) by auto
qed

section \<open>Properties\<close>

text \<open>C27: At every point of a run of a backend (any composition of malloc, nvdimm, cache and
  balance) the buffers in use are pairwise distinct blocks, each is live and has exactly the
  size it was asked for, and none of them waits in a free list; a further allocation returns
  none of them and leaves the content of all of them unchanged.\<close>

theorem live_buffers_disjoint:
  assumes "backend_ok (hp_len (mem_heap m0)) b0" "heap_ok (mem_heap m0)"
    and "backend_history fi b0 m0 b m L"
  shows "distinct (map fst L) \<and>
    (\<forall>p n. (p, n) \<in> set L \<longrightarrow> p \<notin> free_ptrs b \<and>
       (\<exists>k xs. p = Ptr k 0 \<and> hp_blocks (mem_heap m) k = Some xs \<and> length xs = n)) \<and>
    (\<forall>s q b' m'. allocate fi s b m = Inr (q, b', m') \<longrightarrow> q \<notin> fst ` set L \<and>
       (\<forall>p n. (p, n) \<in> set L \<longrightarrow> read_mem p n (mem_heap m') = read_mem p n (mem_heap m)))"
proof -
  have live: "live_ok b m L" by (rule history_live_ok [OF assms(3,1,2)])
  note D = live_okD [OF live]
  have blk: "\<exists>k xs. p = Ptr k 0 \<and> hp_blocks (mem_heap m) k = Some xs \<and> length xs = n"
    if "(p, n) \<in> set L" for p n
    using D(3) [OF that] by (auto simp: hp_len_def)
  have keep: "read_mem p n (mem_heap m') = read_mem p n (mem_heap m)"
    if a: "allocate fi s b m = Inr (q, b', m')" and p: "(p, n) \<in> set L" for s q b' m' p n
  proof -
    from D(3) [OF p] obtain k where k: "p = Ptr k 0" by auto
    then have "Ptr k 0 \<in> fst ` set L" using p by force
    from live_ok_alloc(3) [OF live a this] k show ?thesis by simp
  qed
  show ?thesis
    using D(2,4) blk keep live_ok_alloc(2) [OF live] by blast
qed

definition wit_fabric :: fabric_ops where
  "wit_fabric = \<lparr>fi_mr_reg = (\<lambda>_ _ _. 0), fi_mr_key = id, addr_of = (\<lambda>_. 4096)\<rparr>"

definition wit_mem :: mem where
  "wit_mem = \<lparr>mem_heap = \<lparr>hp_blocks = (\<lambda>_. None), hp_next = 1, hp_junk = (\<lambda>_ _. 0),
     hp_fail = (\<lambda>_. False)\<rparr>, mem_domain = LibfabricDomain_init False\<rparr>"

definition wit_balance :: memory_backend where
  "wit_balance = MemoryBackendBalance
     [MemoryBackendMalloc False, MemoryBackendCache (MemoryBackendMalloc False) [] []] [0, 0] []"

lemma wit_start: "backend_ok (hp_len (mem_heap wit_mem)) wit_balance" "heap_ok (mem_heap wit_mem)"
  by (auto simp: wit_balance_def wit_mem_def heap_ok_def less_Suc_eq nth_Cons')

lemma wit_alloc2:
  "allocate fi 2 wit_balance wit_mem = Inr (Ptr 1 0,
     MemoryBackendBalance [MemoryBackendMalloc False, MemoryBackendCache (MemoryBackendMalloc False) [] []]
       [2, 0] [(Ptr 1 0, 0)],
     wit_mem\<lparr>mem_heap := \<lparr>hp_blocks = [1 \<mapsto> [0, 0]], hp_next = 2, hp_junk = (\<lambda>_ _. 0),
       hp_fail = (\<lambda>_. False)\<rparr>\<rparr>)"
  by (simp add: wit_balance_def wit_mem_def malloc_allocate_def register_if_def malloc_def sys_alloc_def
      upt_rec add64_def W64_def)

theorem live_buffers_disjoint_witness:
  "\<exists>b m. backend_history wit_fabric wit_balance wit_mem b m [(Ptr 1 0, 2)] \<and>
     Ptr 1 0 \<notin> free_ptrs b \<and> (\<exists>xs. hp_blocks (mem_heap m) 1 = Some xs \<and> length xs = 2)"
proof -
  obtain b m where h: "backend_history wit_fabric wit_balance wit_mem b m [(Ptr 1 0, 2)]"
    using bh_alloc [OF bh_start wit_alloc2] by blast
  from live_buffers_disjoint [OF wit_start h] h show ?thesis by auto
qed

text \<open>C28: The counters of \<open>MemoryBackendBalance\<close> are exact along every run that starts with
  no buffer: \<open>backendMem[i]\<close> is the number of bytes in use that came from backend \<open>i\<close>
  (modulo the 64 bit width).  In every state of such a run, \<open>allocate\<close> takes the buffer from a backend
  with the smallest counter, raises the counter of this backend alone by the size and records the backend as the owner
  of the buffer.\<close>

theorem balance_accounting:
  assumes "backend_ok (hp_len (mem_heap m0)) (MemoryBackendBalance bs0 (replicate (length bs0) 0) [])"
    and "heap_ok (mem_heap m0)"
    and "backend_history fi (MemoryBackendBalance bs0 (replicate (length bs0) 0) []) m0 b m L"
  shows "\<exists>bs mems own. b = MemoryBackendBalance bs mems own \<and> length mems = length bs0 \<and>
    (\<forall>p. (\<exists>n. (p, n) \<in> set L) = (sm_find own p \<noteq> None)) \<and>
    (\<forall>i < length bs0. getMem i mems = Inr (balance_load own L i mod W64)) \<and>
    (\<forall>n p b' m'. allocate fi n b m = Inr (p, b', m') \<longrightarrow>
      (\<exists>i sub'. i < length bs0 \<and> (\<forall>j < length bs0. mems ! i \<le> mems ! j) \<and> allocate fi n (bs ! i) m = Inr (p, sub', m') \<and>
        b' = MemoryBackendBalance (bs[i := sub']) (mems[i := add64 (mems ! i) n]) (sm_set p i own)))"
proof -
  obtain bs mems own where b: "b = MemoryBackendBalance bs mems own" "length mems = length bs0" "length bs = length bs0"
      "dom (sm_find own) = fst ` set L" "\<And>i. i < length bs0 \<Longrightarrow> mems ! i = balance_load own L i mod W64"
    using balance_inv_history [OF assms(3,1,2) refl] by (auto simp: balance_inv_def)
  have "(\<exists>n. (p, n) \<in> set L) = (sm_find own p \<noteq> None)" for p
    using b(4) by (metis domIff fst_conv imageE imageI prod.collapse)
  moreover have "\<exists>i sub'. i < length bs0 \<and> (\<forall>j < length bs0. mems ! i \<le> mems ! j) \<and> allocate fi n (bs ! i) m = Inr (p, sub', m') \<and>
        b' = MemoryBackendBalance (bs[i := sub']) (mems[i := add64 (mems ! i) n]) (sm_set p i own)"
    if "allocate fi n b m = Inr (p, b', m')" for n p b' m'
    using that b(1-3) balance_select_least [of _ mems]
    by (intro exI [of _ "balance_select mems"]) (auto simp: Let_def split: if_split_asm elim!: bindE_InrE)
  ultimately show ?thesis using b by (auto simp: getMem_def)
qed

text \<open>After an allocation from the first of two backends, the next one is served by the second.\<close>

theorem balance_accounting_witness:
  "\<exists>b m p bs mems own m'. backend_history wit_fabric wit_balance wit_mem b m [(Ptr 1 0, 2)] \<and>
     allocate wit_fabric 2 b m = Inr (p, MemoryBackendBalance bs mems own, m') \<and> sm_find own (Ptr 1 0) = Some 0 \<and> sm_find own p = Some 1"
proof -
  let ?bs = "[MemoryBackendMalloc False, MemoryBackendCache (MemoryBackendMalloc False) [] []]"
  let ?b = "MemoryBackendBalance ?bs [2, 0] [(Ptr 1 0, 0)]"
  let ?m = "wit_mem\<lparr>mem_heap := \<lparr>hp_blocks = [1 \<mapsto> [0, 0]], hp_next = 2, hp_junk = (\<lambda>_ _. 0), hp_fail = (\<lambda>_. False)\<rparr>\<rparr>"
  have h: "backend_history wit_fabric wit_balance wit_mem ?b ?m [(Ptr 1 0, 2)]" by (rule bh_alloc [OF bh_start wit_alloc2])
  have w: "wit_balance = MemoryBackendBalance ?bs (replicate (length ?bs) 0) []" by (simp add: wit_balance_def numeral_2_eq_2)
  obtain b' m' where run: "allocate wit_fabric 2 ?b ?m = Inr (Ptr 2 0, b', m')"
    by (simp add: malloc_allocate_def register_if_def malloc_def sys_alloc_def freeList_of_def)
  from balance_accounting [OF wit_start [unfolded w] h [unfolded w]] run obtain i sub' where
    i: "i < length ?bs" "\<forall>j < length ?bs. [2, 0 :: nat] ! i \<le> [2, 0] ! j"
      "b' = MemoryBackendBalance (?bs[i := sub']) ([2, 0][i := add64 ([2, 0] ! i) 2]) (sm_set (Ptr 2 0) i [(Ptr 1 0, 0)])"
    by blast
  have "i = 1" using i(1) i(2) [rule_format, of 1] by (cases i) simp_all
  then have own: "sm_find (sm_set (Ptr 2 0) i [(Ptr 1 0, 0)]) (Ptr 1 0) = Some 0" "sm_find (sm_set (Ptr 2 0) i [(Ptr 1 0, 0)]) (Ptr 2 0) = Some 1"
    by simp_all
  then show ?thesis using h run unfolding i(3) by blast
qed

text \<open>A cache gives a returned buffer out again: after \<open>deallocate(addr, size)\<close> the next
  \<open>allocate(size)\<close> returns \<open>addr\<close> itself, leaves every free list as it was before the
  deallocation, and touches neither the memory, the registrations nor the backend below.\<close>

theorem cache_reuse:
  assumes "deallocate p n (MemoryBackendCache sub fl rt) m = Inr (b', m')"
  shows "m' = m \<and> (\<exists>fl'. allocate fi n b' m' = Inr (p, MemoryBackendCache sub fl' rt, m) \<and>
      (\<forall>s. freeList_of fl' s = freeList_of fl s))"
proof -
  have b': "b' = MemoryBackendCache sub (sm_set n (p # freeList_of fl n) fl) rt" "m' = m" "0 < n"
    using assms by (auto simp: bindE_eq_Inr)
  have "freeList_of (sm_set n (p # freeList_of fl n) fl) n = p # freeList_of fl n"
    by (simp add: freeList_of_def)
  with b' show ?thesis by (auto simp: freeList_of_def)
qed

theorem cache_reuse_witness:
  "\<exists>fl'. allocate wit_fabric 4096 (MemoryBackendCache (MemoryBackendMalloc False)
       [(4096, [Ptr 1 0, Ptr 2 0])] [(Ptr 1 0, 4096), (Ptr 2 0, 4096)]) wit_mem =
     Inr (Ptr 1 0, MemoryBackendCache (MemoryBackendMalloc False) fl'
       [(Ptr 1 0, 4096), (Ptr 2 0, 4096)], wit_mem) \<and> freeList_of fl' 4096 = [Ptr 2 0]"
proof -
  have d: "deallocate (Ptr 1 0) 4096 (MemoryBackendCache (MemoryBackendMalloc False)
       [(4096, [Ptr 2 0])] [(Ptr 1 0, 4096), (Ptr 2 0, 4096)]) wit_mem =
     Inr (MemoryBackendCache (MemoryBackendMalloc False)
       [(4096, [Ptr 1 0, Ptr 2 0])] [(Ptr 1 0, 4096), (Ptr 2 0, 4096)], wit_mem)"
    by (simp add: isLocalMemory_def freeList_of_def)
  have "freeList_of [(4096, [Ptr 2 0])] 4096 = [Ptr 2 0]" by (simp add: freeList_of_def)
  with cache_reuse [OF d, of wit_fabric] show ?thesis by auto
qed

text \<open>C38: The windows \<open>MemoryBackendNvdimm\<close> maps never overlap inside one file, every window
  of the open file ends within the size the file was truncated to, and a request for less
  than a sixteenth of the address space never trips the assertion on the file offset: it
  succeeds whenever the system can open a file.\<close>

theorem nvdimm_windows_disjoint:
  assumes "nvdimm_windows nv ws"
  shows "sorted_wrt windows_disjoint ws \<and>
    (\<forall>off n. (nv_fileFD nv, off, n) \<in> set ws \<longrightarrow> off + n \<le> nv_fileSize nv) \<and>
    (\<forall>n h. 0 < n \<and> n < W64 div 16 \<and> \<not> hp_fail h (hp_next h) \<longrightarrow>
      (\<exists>off nv'. nvdimm_reserve n nv h = Inr (off, nv')))"
proof -
  note inv = nvdimm_windows_inv [OF assms]
  have "\<exists>off nv'. nvdimm_reserve n nv h = Inr (off, nv')"
    if n: "0 < n" "n < W64 div 16" and "\<not> hp_fail h (hp_next h)" for n h
  proof -
    have w: "W64 = 18446744073709551616" by (simp add: W64_def)
    have "n \<le> nvdimm_next_size (nv_fileSize nv) n" using nvdimm_next_size_bounds(2) [OF n] inv by blast
    moreover have "nv_fileOffset nv + n < W64" "n < W64" using inv n(2) w by auto
    ultimately show ?thesis
      using that by (simp add: nvdimm_reserve_def openNewFile_def Let_def)
  qed
  moreover have "off + n \<le> nv_fileSize nv" if "(nv_fileFD nv, off, n) \<in> set ws" for off n
    using inv that by force
  ultimately show ?thesis using inv by blast
qed

theorem nvdimm_windows_disjoint_witness:
  "\<exists>nv. nvdimm_windows nv [(1, 4096, 8192), (1, 0, 4096)] \<and> nv_fileSize nv = 32768 \<and>
     windows_disjoint (1, 4096, 8192) (1, 0, 4096)"
proof -
  let ?h = "mem_heap wit_mem"
  let ?nv = "\<lambda>fd size off. \<lparr>nv_fileFD = fd, nv_fileSize = size, nv_chunks = 0, nv_fileOffset = off\<rparr>"
  have "nvdimm_windows (?nv 0 0 0) []" by (simp add: nw_start)
  moreover have "nvdimm_reserve 4096 (?nv 0 0 0) ?h = Inr (0, ?nv 1 32768 4096)"
    by (simp add: nvdimm_reserve_def openNewFile_def nvdimm_next_size_def wit_mem_def add64_def mul64_def
        W64_def IOC_INITIAL_FACTOR_def Let_def)
  ultimately have "nvdimm_windows (?nv 1 32768 4096) [(1, 0, 4096)]"
    by (drule_tac nw_reserve) (auto simp: W64_def)
  moreover have "nvdimm_reserve 8192 (?nv 1 32768 4096) ?h = Inr (4096, ?nv 1 32768 12288)"
    by (simp add: nvdimm_reserve_def add64_def W64_def Let_def)
  ultimately have w: "nvdimm_windows (?nv 1 32768 12288) [(1, 4096, 8192), (1, 0, 4096)]"
    by (drule_tac nw_reserve) (auto simp: W64_def)
  from nvdimm_windows_disjoint [OF this] w show ?thesis by force
qed

end
