(* ===== verification/Storage_Backend.thy ===== *)
theory Storage_Backend
  imports Heap
begin

text \<open>
  The storage backends (src/server/core/StorageBackend.hpp and .cpp,
  src/server/backends/StorageBackendMero.cpp).  The abstract class is the record
  \<open>storage_ops\<close>: what the three virtual functions do to the state of the storage, which is
  the type variable \<open>'s\<close>.  A buffer argument is passed by its content and a read returns the
  content it leaves in the buffer.  \<open>storage_ok\<close> states the documented contract of the
  functions; it is a hypothesis of the theorems about data that comes from the storage.

  The backend that the server uses is \<open>StorageBackendMero\<close>; its Motr branch is the theory \<open>Storage_Motr\<close>, its Clovis branch
  the theory \<open>Storage_Clovis\<close>.
\<close>

section \<open>Signed and unsigned sizes\<close>

definition ssize_t_of :: "size_t \<Rightarrow> int" where
  "ssize_t_of n = (if n < 2 ^ 63 then int n else int n - 2 ^ 64)"

definition size_t_of :: "int \<Rightarrow> size_t" where
  "size_t_of i = nat (i mod 2 ^ 64)"

text \<open>The conversion to \<open>int\<close>.\<close>

definition to_int32 :: "int \<Rightarrow> int" where
  "to_int32 x = (x + 2 ^ 31) mod 2 ^ 32 - 2 ^ 31"

lemma to_int32_small [simp]: "0 \<le> x \<Longrightarrow> x < 2 ^ 31 \<Longrightarrow> to_int32 x = x"
  by (simp add: to_int32_def)

lemma size_t_of_small: "size_t_of (int x) = x" if "x < 2 ^ 64"
  using that by (simp add: size_t_of_def nat_mod_distrib flip: of_nat_mod)

lemma size_t_of_ssize [simp]: "n < W64 \<Longrightarrow> size_t_of (ssize_t_of n) = n"
  by (auto simp: size_t_of_def ssize_t_of_def W64_def)

lemma ssize_t_of_eq [simp]: "n < W64 \<Longrightarrow> k < W64 \<Longrightarrow> ssize_t_of n = ssize_t_of k \<longleftrightarrow> n = k"
  using size_t_of_ssize by metis

lemma ssize_t_of_not_error: "n mod 4096 = 0 \<Longrightarrow> ssize_t_of n \<noteq> - 1"
  by (auto simp: ssize_t_of_def)

lemma size_t_of_error: "n mod 4096 = 0 \<Longrightarrow> size_t_of (- 1) \<noteq> n"
  by (auto simp: size_t_of_def)

section \<open>The interface\<close>

text \<open>
  The arguments are the two halves of the object identifier, the buffer (its
  content), the offset in the object and the state of the storage.
\<close>

record 's storage_ops =
  so_pread :: "int \<Rightarrow> int \<Rightarrow> byte list \<Rightarrow> size_t \<Rightarrow> 's \<Rightarrow> (int \<times> byte list \<times> 's) result"
  so_pwrite :: "int \<Rightarrow> int \<Rightarrow> byte list \<Rightarrow> size_t \<Rightarrow> 's \<Rightarrow> (int \<times> 's) result"
  so_create :: "int \<Rightarrow> int \<Rightarrow> 's \<Rightarrow> (int \<times> 's) result"

text \<open>The byte of an object, named by the two halves of its identifier, at an offset.\<close>

type_synonym 's storage_content = "'s \<Rightarrow> int \<times> int \<Rightarrow> nat \<Rightarrow> byte"

text \<open>
  The documented contract: the status of a successful transfer is the size; a read never
  changes what is stored and, when it succeeds, fills the buffer with it; a write changes
  nothing outside its range and, when it succeeds, stores the buffer; creating an object
  changes no stored byte.
\<close>

definition pread_post ::
  "(nat \<Rightarrow> byte) \<Rightarrow> byte list \<Rightarrow> size_t \<Rightarrow> bool \<Rightarrow> byte list \<Rightarrow> bool" where
  "pread_post stored buf off success buf' \<longleftrightarrow> length buf' = length buf \<and>
     (success \<longrightarrow> buf' = map stored [off..<off + length buf])"

definition pwrite_post ::
  "('k \<Rightarrow> nat \<Rightarrow> byte) \<Rightarrow> ('k \<Rightarrow> nat \<Rightarrow> byte) \<Rightarrow> 'k \<Rightarrow> byte list \<Rightarrow> size_t \<Rightarrow> bool \<Rightarrow> bool" where
  "pwrite_post stored stored' k buf off success \<longleftrightarrow>
     (\<forall>k' x. k' \<noteq> k \<or> x < off \<or> off + length buf \<le> x \<longrightarrow> stored' k' x = stored k' x) \<and>
     (success \<longrightarrow> (\<forall>i < length buf. stored' k (off + i) = buf ! i))"

definition storage_ok :: "'s storage_ops \<Rightarrow> 's storage_content \<Rightarrow> bool" where
  "storage_ok so content \<longleftrightarrow>
     (\<forall>hi lo buf off s st buf' s'. so_pread so hi lo buf off s = Inr (st, buf', s') \<longrightarrow>
        content s' = content s \<and>
        pread_post (content s (hi, lo)) buf off (size_t_of st = length buf) buf') \<and>
     (\<forall>hi lo buf off s st s'. so_pwrite so hi lo buf off s = Inr (st, s') \<longrightarrow>
        pwrite_post (content s) (content s') (hi, lo) buf off (st = ssize_t_of (length buf))) \<and>
     (\<forall>hi lo s st s'. so_create so hi lo s = Inr (st, s') \<longrightarrow> content s' = content s)"

lemma storage_pread:
  assumes "storage_ok so content" "so_pread so hi lo buf off s = Inr (st, buf', s')"
  shows "content s' = content s"
    "pread_post (content s (hi, lo)) buf off (size_t_of st = length buf) buf'"
  using assms(2) assms(1) [unfolded storage_ok_def, THEN conjunct1] by blast+

lemma storage_pwrite:
  assumes "storage_ok so content" "so_pwrite so hi lo buf off s = Inr (st, s')"
  shows "pwrite_post (content s) (content s') (hi, lo) buf off (st = ssize_t_of (length buf))"
  using assms(2) assms(1) [unfolded storage_ok_def, THEN conjunct2, THEN conjunct1] by blast

lemma storage_create:
  "storage_ok so content \<Longrightarrow> so_create so hi lo s = Inr (st, s') \<Longrightarrow> content s' = content s"
  by (auto simp: storage_ok_def)

lemma pwrite_postD:
  assumes "pwrite_post stored stored' k buf off success"
  shows "k' \<noteq> k \<or> x < off \<or> off + length buf \<le> x \<Longrightarrow> stored' k' x = stored k' x"
    "success \<Longrightarrow> i < length buf \<Longrightarrow> stored' k (off + i) = buf ! i"
  using assms by (auto simp: pwrite_post_def)

section \<open>Copy on write on the storage\<close>

text \<open>\<open>StorageBackend::makeCowSegment\<close>: \<open>buf0\<close> is the uninitialised temporary buffer.\<close>

definition makeCowSegment ::
  "'s storage_ops \<Rightarrow> int \<Rightarrow> int \<Rightarrow> int \<Rightarrow> int \<Rightarrow> size_t \<Rightarrow> byte list \<Rightarrow> 's \<Rightarrow> (int \<times> 's) result" where
  "makeCowSegment so  highOrig lowOrig highDest lowDest offset buf0 s =
     (let n = length buf0 in
      bindE (so_pread so  highOrig lowOrig buf0 offset s) (\<lambda>(status, buf, s1).
      bindE (assumeE (status = ssize_t_of n) ''Fail to fully load the object range for COW'') (\<lambda>_.
      bindE (so_pwrite so  highDest lowDest buf offset s1) (\<lambda>(status, s2).
      bindE (assumeE (status = ssize_t_of n) ''Fail to fully write back the object range for COW'') (\<lambda>_.
      Inr (ssize_t_of n, s2))))))"

section \<open>A storage in a table\<close>

text \<open>A storage that keeps its objects in a table, used to instantiate the contracts.\<close>

type_synonym table = "int \<times> int \<Rightarrow> nat \<Rightarrow> byte"

definition table_write :: "int \<times> int \<Rightarrow> byte list \<Rightarrow> size_t \<Rightarrow> table \<Rightarrow> table" where
  "table_write k buf off t = (\<lambda>k' x. if k' = k \<and> off \<le> x \<and> x < off + length buf then buf ! (x - off) else t k' x)"

definition table_ops :: "table storage_ops" where
  "table_ops = \<lparr>so_pread = (\<lambda>hi lo buf off t.
       Inr (ssize_t_of (length buf), map (t (hi, lo)) [off..<off + length buf], t)),
     so_pwrite = (\<lambda>hi lo buf off t. Inr (ssize_t_of (length buf), table_write (hi, lo) buf off t)),
     so_create = (\<lambda>_ _ t. Inr (0, t))\<rparr>"

lemma table_write_post: "pwrite_post t (table_write k buf off t) k buf off success"
  by (auto simp: pwrite_post_def table_write_def)

lemma table_ok: "storage_ok table_ops (\<lambda>t. t)"
  by (auto simp: storage_ok_def table_ops_def pread_post_def table_write_post)

lemma makeCowSegment_effect:
  assumes "storage_ok so content" "length buf0 < W64"
    and "makeCowSegment so  ho lo hdst ldst off buf0 s = Inr (st, s')"
  shows "st = ssize_t_of (length buf0) \<and>
    (\<forall>x. off \<le> x \<and> x < off + length buf0 \<longrightarrow> content s' (hdst, ldst) x = content s (ho, lo) x) \<and>
    (\<forall>k x. k \<noteq> (hdst, ldst) \<or> x < off \<or> off + length buf0 \<le> x \<longrightarrow> content s' k x = content s k x)"
proof -
  let ?n = "length buf0"
  from assms(3) obtain buf s1 where rd: "so_pread so  ho lo buf0 off s = Inr (ssize_t_of ?n, buf, s1)"
      and wr: "so_pwrite so  hdst ldst buf off s1 = Inr (ssize_t_of ?n, s')" and st: "st = ssize_t_of ?n"
    by (auto simp: makeCowSegment_def Let_def bindE_eq_Inr)
  note rd = storage_pread [OF assms(1) rd]
  then have buf: "content s1 = content s" "buf = map (content s (ho, lo)) [off..<off + ?n]"
    using assms(2) by (auto simp: pread_post_def)
  then have len: "length buf = ?n" by simp
  note wr = pwrite_postD [OF storage_pwrite [OF assms(1) wr]]
  have "content s' (hdst, ldst) x = content s (ho, lo) x" if "off \<le> x" "x < off + ?n" for x
    using wr(2) [of "x - off"] that len buf(2) by simp
  moreover have "content s' k x = content s k x"
    if "k \<noteq> (hdst, ldst) \<or> x < off \<or> off + ?n \<le> x" for k x
    using wr(1) [of k x] that len buf(1) by simp
  ultimately show ?thesis using st by blast
qed

section \<open>Properties\<close>

text \<open>Copy on write of a storage range copies exactly that range: after
  \<open>makeCowSegment\<close> returns, the destination object holds the source's bytes over the range,
  and no other stored byte changed (so the source is intact unless it is the destination).\<close>

theorem makeCowSegment_copies:
  assumes "storage_ok so content" "length buf0 < W64"
    and "makeCowSegment so  ho lo hdst ldst off buf0 s = Inr (st, s')"
  shows "st = ssize_t_of (length buf0) \<and>
    (\<forall>x. off \<le> x \<and> x < off + length buf0 \<longrightarrow> content s' (hdst, ldst) x = content s (ho, lo) x) \<and>
    (\<forall>k x. k \<noteq> (hdst, ldst) \<or> x < off \<or> off + length buf0 \<le> x \<longrightarrow> content s' k x = content s k x)"
  by (rule makeCowSegment_effect [OF assms])

theorem makeCowSegment_copies_witness:
  "\<exists>s'. makeCowSegment table_ops 0 1 0 2 5 [0, 0] (\<lambda>k x. of_nat x) = Inr (2, s') \<and>
     s' (0, 2) 6 = 6 \<and> s' (0, 1) 6 = 6"
proof -
  have run: "makeCowSegment table_ops 0 1 0 2 5 [0, 0] (\<lambda>k x. of_nat x) =
      Inr (2, table_write (0, 2) [5, 6] 5 (\<lambda>k x. of_nat x))"
    by (simp add: makeCowSegment_def table_ops_def ssize_t_of_def upt_rec)
  have "length [0, 0 :: byte] < W64" by (simp add: W64_def)
  from makeCowSegment_copies [OF table_ok this run, THEN conjunct2, THEN conjunct1, rule_format, of 6]
    makeCowSegment_copies [OF table_ok this run, THEN conjunct2, THEN conjunct2, rule_format, of "(0, 1)" 6]
  show ?thesis using run by auto
qed

end
