(* ===== verification/M0_Client.thy ===== *)
theory M0_Client
  imports Storage_Backend
begin

text \<open>
  The client interface of the object store as the two sample libraries use it
  (extern-deps/from-motr-sample-apps and extern-deps/from-clovis-sample-apps): the store itself is not part of the
  repository, so its calls are the record \<open>m0_client\<close> and its documented behaviour is the hypothesis \<open>m0_client_ok\<close>.
  An operation is created, launched and waited for; its outcome is the pair of what the wait and what the operation returned.
\<close>

section \<open>The interface\<close>

text \<open>An object is named by the two halves of its identifier, an extent is an index in the object and a size.\<close>

type_synonym m0_id = "int \<times> int"
type_synonym extent = "nat \<times> size_t"
type_synonym m0_outcome = "int \<times> int"

datatype m0_opcode = M0_OC_READ | M0_OC_WRITE

record 's m0_client =
  m0_bufvec_alloc :: "nat \<Rightarrow> size_t \<Rightarrow> 's \<Rightarrow> int \<times> byte list list \<times> 's"
  m0_indexvec_alloc :: "nat \<Rightarrow> 's \<Rightarrow> int \<times> 's"
  m0_entity_open :: "m0_id \<Rightarrow> 's \<Rightarrow> m0_outcome \<times> 's"
  m0_entity_create :: "int option \<Rightarrow> m0_id \<Rightarrow> nat \<Rightarrow> 's \<Rightarrow> int \<times> 's"
  m0_create_op :: "m0_id \<Rightarrow> 's \<Rightarrow> m0_outcome \<times> 's"
  m0_obj_op :: "m0_opcode \<Rightarrow> m0_id \<Rightarrow> extent list \<Rightarrow> byte list list \<Rightarrow> 's \<Rightarrow> m0_outcome \<times> byte list list \<times> 's"

text \<open>The expression \<open>a ?: b\<close> on statuses.\<close>

definition elvis :: "int \<Rightarrow> int \<Rightarrow> int" where
  "elvis a b = (if a \<noteq> 0 then a else b)"

lemma elvis_eq_0 [simp]: "elvis a b = 0 \<longleftrightarrow> a = 0 \<and> b = 0"
  by (simp add: elvis_def)

section \<open>The documented behaviour\<close>

fun ascending :: "extent list \<Rightarrow> bool" where
  "ascending [] = True"
| "ascending ((o1, n) # es) \<longleftrightarrow> (\<forall>(o2, m) \<in> set es. o1 + n \<le> o2) \<and> ascending es"

text \<open>
  Opening and creating an object and allocating vectors change no stored byte.  For extents in ascending order and one
  buffer per extent, a read changes nothing and fills the buffers when it succeeds, a write changes neither the buffers nor anything outside the
  extents and stores the buffers when it succeeds.  Success is an outcome with both statuses zero.
\<close>

definition m0_read_ok :: "('s, 'z) m0_client_scheme \<Rightarrow> 's storage_content \<Rightarrow> bool" where
  "m0_read_ok m content \<longleftrightarrow>
     (\<forall>k es ds s st ds' s'. ascending es \<longrightarrow> map length ds = map snd es \<longrightarrow> m0_obj_op m M0_OC_READ k es ds s = (st, ds', s') \<longrightarrow>
        content s' = content s \<and> map length ds' = map snd es \<and>
        (st = (0, 0) \<longrightarrow> ds' = map (\<lambda>(x, n). map (content s k) [x..<x + n]) es))"

definition m0_write_ok :: "('s, 'z) m0_client_scheme \<Rightarrow> 's storage_content \<Rightarrow> bool" where
  "m0_write_ok m content \<longleftrightarrow>
     (\<forall>k es ds s st ds' s'. ascending es \<longrightarrow> map length ds = map snd es \<longrightarrow> m0_obj_op m M0_OC_WRITE k es ds s = (st, ds', s') \<longrightarrow>
        ds' = ds \<and> (\<forall>k' x. k' \<noteq> k \<or> (\<forall>(y, n) \<in> set es. x < y \<or> y + n \<le> x) \<longrightarrow> content s' k' x = content s k' x) \<and>
        (st = (0, 0) \<longrightarrow> (\<forall>i < length es. \<forall>y < snd (es ! i). content s' k (fst (es ! i) + y) = ds ! i ! y)))"

definition m0_neutral :: "('s, 'z) m0_client_scheme \<Rightarrow> 's storage_content \<Rightarrow> bool" where
  "m0_neutral m content \<longleftrightarrow>
     (\<forall>n sz s rc bs s'. m0_bufvec_alloc m n sz s = (rc, bs, s') \<longrightarrow>
        content s' = content s \<and> (rc = 0 \<longrightarrow> length bs = n \<and> (\<forall>b \<in> set bs. length b = sz))) \<and>
     (\<forall>n s rc s'. m0_indexvec_alloc m n s = (rc, s') \<longrightarrow> content s' = content s) \<and>
     (\<forall>k s st s'. m0_entity_open m k s = (st, s') \<longrightarrow> content s' = content s) \<and>
     (\<forall>p k l s rc s'. m0_entity_create m p k l s = (rc, s') \<longrightarrow> content s' = content s) \<and>
     (\<forall>k s st s'. m0_create_op m k s = (st, s') \<longrightarrow> content s' = content s)"

definition m0_client_ok :: "('s, 'z) m0_client_scheme \<Rightarrow> 's storage_content \<Rightarrow> bool" where
  "m0_client_ok m content \<longleftrightarrow> m0_neutral m content \<and> m0_read_ok m content \<and> m0_write_ok m content"

lemma m0_allocD:
  assumes "m0_client_ok m content" "m0_bufvec_alloc m n sz s = (rc, bs, s')"
  shows "content s' = content s" "rc = 0 \<Longrightarrow> length bs = n" "rc = 0 \<Longrightarrow> b \<in> set bs \<Longrightarrow> length b = sz"
proof -
  have "m0_neutral m content" using assms(1) by (simp add: m0_client_ok_def)
  note A = this [unfolded m0_neutral_def, THEN conjunct1, rule_format, OF assms(2)]
  show "content s' = content s" using A by blast
  show "length bs = n" if "rc = 0" using A that by blast
  show "length b = sz" if "rc = 0" "b \<in> set bs" using A that by blast
qed

lemma m0_neutralD:
  assumes "m0_client_ok m content"
  shows "m0_indexvec_alloc m n s = (rc, s') \<Longrightarrow> content s' = content s"
    "m0_entity_open m k s = (st, s') \<Longrightarrow> content s' = content s"
    "m0_entity_create m p k l s = (rc, s') \<Longrightarrow> content s' = content s"
    "m0_create_op m k s = (st, s') \<Longrightarrow> content s' = content s"
proof -
  have "m0_neutral m content" using assms by (simp add: m0_client_ok_def)
  note A = this [unfolded m0_neutral_def, THEN conjunct2]
  show "content s' = content s" if "m0_indexvec_alloc m n s = (rc, s')"
    by (rule A [THEN conjunct1, rule_format, OF that])
  show "content s' = content s" if "m0_entity_open m k s = (st, s')"
    by (rule A [THEN conjunct2, THEN conjunct1, rule_format, OF that])
  show "content s' = content s" if "m0_entity_create m p k l s = (rc, s')"
    by (rule A [THEN conjunct2, THEN conjunct2, THEN conjunct1, rule_format, OF that])
  show "content s' = content s" if "m0_create_op m k s = (st, s')"
    by (rule A [THEN conjunct2, THEN conjunct2, THEN conjunct2, rule_format, OF that])
qed

section \<open>Consecutive extents\<close>

abbreviation run_of :: "nat \<Rightarrow> size_t \<Rightarrow> nat \<Rightarrow> extent list" where
  "run_of x u n \<equiv> map (\<lambda>i. (x + i * u, u)) [0..<n]"

lemma run_ascending: "ascending (map (\<lambda>i. (x + i * u, u)) [m..<n])"
proof (induction "n - m" arbitrary: m)
  case (Suc d)
  then have "[m..<n] = m # [Suc m..<n]" by (simp add: upt_rec)
  moreover have "x + m * u + u \<le> x + i * u" if "Suc m \<le> i" for i using mult_le_mono1 [OF that, of u] by simp
  ultimately show ?case using Suc.hyps by auto
qed simp

lemma length_concat_run: "\<forall>d \<in> set ds. length d = u \<Longrightarrow> length (concat ds) = length ds * u"
  by (induction ds) auto

lemma nth_concat_run:
  assumes "\<forall>d \<in> set ds. length d = u" "i < length ds * u"
  shows "concat ds ! i = ds ! (i div u) ! (i mod u)"
  using assms
proof (induction ds arbitrary: i)
  case (Cons d ds)
  have u: "0 < u" using Cons.prems(2) by (cases u) simp_all
  show ?case
  proof (cases "i < u")
    case True
    then show ?thesis using Cons.prems(1) by (simp add: nth_append)
  next
    case False
    then have i: "i = (i - u) + u" by simp
    have "i div u = Suc ((i - u) div u)" "i mod u = (i - u) mod u" using u False by (simp_all add: le_div_geq le_mod_geq)
    moreover have "concat ds ! (i - u) = ds ! ((i - u) div u) ! ((i - u) mod u)" using Cons False by auto
    ultimately show ?thesis using Cons.prems(1) False by (simp add: nth_append)
  qed
qed simp

lemma units_concat: "concat (map (\<lambda>i. map f [y + i * u..<y + i * u + u]) [0..<n]) = map f [y..<y + n * u]"
proof (induction n)
  case (Suc n)
  have "[y..<y + Suc n * u] = [y..<y + n * u] @ [y + n * u..<y + n * u + u]"
    using upt_add_eq_append [of y "y + n * u" u] by (simp add: algebra_simps)
  then show ?case using Suc by simp
qed simp

text \<open>One operation over consecutive extents transfers the concatenation of the buffers.\<close>

lemma run_written:
  assumes ok: "m0_client_ok m content" and ds: "length ds = n" "\<forall>d \<in> set ds. length d = u"
    and run: "m0_obj_op m M0_OC_WRITE k (run_of x u n) ds s = (st, ds', s')"
  shows "ds' = ds" "pwrite_post (content s) (content s') k (concat ds) x (st = (0, 0))"
proof -
  have len: "length (concat ds) = n * u" using length_concat_run [OF ds(2)] ds(1) by simp
  have "map length ds = map snd (run_of x u n)" using ds by (simp add: list_eq_iff_nth_eq)
  with ok run_ascending [of x u 0 n] run have ds': "ds' = ds" and
    out: "\<And>k' y. k' \<noteq> k \<or> (\<forall>(z, n) \<in> set (run_of x u n). y < z \<or> z + n \<le> y) \<Longrightarrow> content s' k' y = content s k' y" and
    stored: "\<And>i y. st = (0, 0) \<Longrightarrow> i < n \<Longrightarrow> y < u \<Longrightarrow> content s' k (x + i * u + y) = ds ! i ! y"
    unfolding m0_client_ok_def m0_write_ok_def by fastforce+
  have "content s' k' y = content s k' y" if y: "k' \<noteq> k \<or> y < x \<or> x + n * u \<le> y" for k' y
  proof -
    have "x + i * u + u \<le> x + n * u" if "i < n" for i using mult_le_mono1 [of "Suc i" n u] that by simp
    then show ?thesis using y by (intro out) fastforce
  qed
  moreover have "content s' k (x + i) = concat ds ! i" if "st = (0, 0)" "i < n * u" for i
  proof -
    have "0 < u" using that(2) by (cases u) simp_all
    then have "i div u < n" "i mod u < u" using that(2) by (simp_all add: less_mult_imp_div_less)
    from stored [OF that(1) this] show ?thesis using nth_concat_run [OF ds(2)] ds(1) that(2) by (simp add: add.assoc)
  qed
  ultimately show "pwrite_post (content s) (content s') k (concat ds) x (st = (0, 0))" using len by (auto simp: pwrite_post_def)
  show "ds' = ds" by (rule ds')
qed

lemma run_read:
  assumes ok: "m0_client_ok m content" and ds: "length ds = n" "\<forall>d \<in> set ds. length d = u"
    and run: "m0_obj_op m M0_OC_READ k (run_of x u n) ds s = (st, ds', s')"
  shows "content s' = content s" "length ds' = n" "\<forall>d \<in> set ds'. length d = u"
    "st = (0, 0) \<Longrightarrow> ds' = map (\<lambda>i. map (content s k) [x + i * u..<x + i * u + u]) [0..<n]"
proof -
  have "map length ds = map snd (run_of x u n)" using ds by (simp add: list_eq_iff_nth_eq)
  with ok run_ascending [of x u 0 n] run have
    R: "content s' = content s" "map length ds' = map snd (run_of x u n)"
      "st = (0, 0) \<longrightarrow> ds' = map (\<lambda>(x, n). map (content s k) [x..<x + n]) (run_of x u n)"
    unfolding m0_client_ok_def m0_read_ok_def by blast+
  show "content s' = content s" by (rule R(1))
  show "length ds' = n" using arg_cong [OF R(2), of length] by simp
  then show "\<forall>d \<in> set ds'. length d = u" using R(2) by (auto simp: list_eq_iff_nth_eq in_set_conv_nth)
  show "ds' = map (\<lambda>i. map (content s k) [x + i * u..<x + i * u + u]) [0..<n]" if "st = (0, 0)" using R(3) that by simp
qed

section \<open>Blocks of a buffer\<close>

abbreviation blocks_of :: "size_t \<Rightarrow> nat \<Rightarrow> nat \<Rightarrow> byte list \<Rightarrow> byte list list" where
  "blocks_of bsz n pos buf \<equiv> map (\<lambda>i. slice (pos + i * bsz) bsz buf) [0..<n]"

lemma blocks_Suc: "blocks_of bsz (Suc n) pos buf = slice pos bsz buf # blocks_of bsz n (pos + bsz) buf"
  by (simp add: map_upt_Suc add.assoc del: upt_Suc)

lemma concat_blocks: "pos + n * bsz \<le> length buf \<Longrightarrow> concat (blocks_of bsz n pos buf) = slice pos (n * bsz) buf"
proof (induction n)
  case (Suc n)
  then show ?case using slice_append_slice [of pos "n * bsz" bsz buf] by (simp add: algebra_simps)
qed simp

lemma length_blocks: "pos + n * bsz \<le> length buf \<Longrightarrow> d \<in> set (blocks_of bsz n pos buf) \<Longrightarrow> length d = bsz"
proof -
  assume fit: "pos + n * bsz \<le> length buf" and "d \<in> set (blocks_of bsz n pos buf)"
  then obtain i where i: "d = slice (pos + i * bsz) bsz buf" "i < n" by auto
  have "Suc i * bsz \<le> n * bsz" using i(2) by (intro mult_le_mono1) simp
  then show ?thesis using fit i(1) by simp
qed

section \<open>Transfers in several operations\<close>

lemma pwrite_post_append:
  "pwrite_post a b k xs off True \<Longrightarrow> pwrite_post b c k ys (off + length xs) success \<Longrightarrow> pwrite_post a c k (xs @ ys) off success"
  by (auto simp: pwrite_post_def nth_append) (metis add.assoc add_diff_inverse_nat nat_add_left_cancel_less)

lemma pwrite_post_append':
  "pwrite_post a b k xs off sane \<Longrightarrow> pwrite_post b c k ys (off + length xs) (success \<and> sane) \<Longrightarrow> pwrite_post a c k (xs @ ys) off (success \<and> sane)"
  by (cases sane) (auto intro: pwrite_post_append, auto simp: pwrite_post_def)

lemma pwrite_post_prefix: "pwrite_post a b k xs off success \<Longrightarrow> pwrite_post a b k (xs @ ys) off False"
  by (auto simp: pwrite_post_def)

lemma pwrite_post_weaken: "pwrite_post a b k xs off success \<Longrightarrow> (success' \<Longrightarrow> success) \<Longrightarrow> pwrite_post a b k xs off success'"
  by (auto simp: pwrite_post_def)

lemma pwrite_post_none: "pwrite_post a a k xs off False"
  by (simp add: pwrite_post_def)

lemma patch_patch: "p + length a \<le> length xs \<Longrightarrow> patch (p + length a) b (patch p a xs) = patch p (a @ b) xs"
  by (simp add: patch_def ac_simps)

section \<open>A store in a table\<close>

text \<open>The extent that covers a position.\<close>

definition covering :: "extent list \<Rightarrow> nat \<Rightarrow> nat option" where
  "covering es x = List.find (\<lambda>i. fst (es ! i) \<le> x \<and> x < fst (es ! i) + snd (es ! i)) [0..<length es]"

definition table_obj_op :: "m0_opcode \<Rightarrow> m0_id \<Rightarrow> extent list \<Rightarrow> byte list list \<Rightarrow> table \<Rightarrow> m0_outcome \<times> byte list list \<times> table" where
  "table_obj_op op k es ds t = (case op of
       M0_OC_READ \<Rightarrow> ((0, 0), map (\<lambda>(x, n). map (t k) [x..<x + n]) es, t)
     | M0_OC_WRITE \<Rightarrow> ((0, 0), ds, \<lambda>k' x. case covering es x of
          Some i \<Rightarrow> if k' = k then ds ! i ! (x - fst (es ! i)) else t k' x | None \<Rightarrow> t k' x))"

lemma ascending_nth: "ascending es \<Longrightarrow> i < j \<Longrightarrow> j < length es \<Longrightarrow> fst (es ! i) + snd (es ! i) \<le> fst (es ! j)"
proof (induction es arbitrary: i j rule: ascending.induct)
  case (2 o1 n es)
  obtain j' where j: "j = Suc j'" "j' < length es" using "2.prems" by (cases j) auto
  show ?case
  proof (cases i)
    case 0
    have "es ! j' \<in> set es" using j(2) by simp
    then have "o1 + n \<le> fst (es ! j')" using "2.prems"(1) by fastforce
    then show ?thesis using 0 j by simp
  next
    case (Suc i')
    then show ?thesis using "2.IH" [of i' j'] "2.prems" j by simp
  qed
qed simp

lemma covering_eq:
  assumes "ascending es" "i < length es" "y < snd (es ! i)"
  shows "covering es (fst (es ! i) + y) = Some i"
proof -
  have "\<not> (fst (es ! j) \<le> fst (es ! i) + y \<and> fst (es ! i) + y < fst (es ! j) + snd (es ! j))" if "j < i" for j
    using ascending_nth [OF assms(1) that assms(2)] assms(3) by simp
  then show ?thesis using assms(2,3) unfolding covering_def find_Some_iff by (intro exI [of _ i]) simp
qed

lemma covering_None:
  assumes "\<forall>(y, n) \<in> set es. x < y \<or> y + n \<le> x"
  shows "covering es x = None"
proof -
  have "x < fst (es ! i) \<or> fst (es ! i) + snd (es ! i) \<le> x" if "i < length es" for i
    using assms nth_mem [OF that] by (cases "es ! i") auto
  then show ?thesis unfolding covering_def find_None_iff by fastforce
qed

text \<open>Any record whose calls are those of the table has the documented behaviour.\<close>

lemma table_client_ok:
  assumes "m0_bufvec_alloc m = (\<lambda>n sz t. (0, replicate n (replicate sz b), t))" "m0_indexvec_alloc m = (\<lambda>n t. (0, t))"
    and "m0_entity_open m = (\<lambda>k t. (st, t))" "m0_entity_create m = (\<lambda>p k l t. (0, t))" "m0_create_op m = (\<lambda>k t. ((0, 0), t))"
    and "m0_obj_op m = table_obj_op"
  shows "m0_client_ok m (\<lambda>t. t)"
  using assms
  by (auto simp: m0_client_ok_def m0_neutral_def m0_read_ok_def m0_write_ok_def table_obj_op_def covering_eq covering_None
      split: option.splits)

end
