(* ===== verification/Storage_Motr.thy ===== *)
theory Storage_Motr
  imports M0_Client
begin

text \<open>
  The Mero backend in its Motr branch (src/server/backends/StorageBackendMero.cpp, \<open>HAVE_MOTR\<close>) and the part of the
  sample library that it calls (extern-deps/from-motr-sample-apps: buffer.c, clovis_api.c, c0appz_internal.h).  A transfer
  is a loop over operations of \<open>m0bs\<close> bytes, cut into blocks of 4096 bytes; the vectors of blocks and of extents
  are allocated once and used again by every operation.  The library runs on the client interface of \<open>M0_Client\<close>,
  extended by what Motr says about pools and layouts.
\<close>

section \<open>Data\<close>

text \<open>The layout of a pool version: data units, parity units and pool width.\<close>

record m0_pdclust_attr =
  pa_N :: nat
  pa_K :: nat
  pa_P :: nat

text \<open>
  A vector on the stack of a transfer: not initialised, left behind by an allocation that failed, allocated, or freed.
  The two calls that free a vector are code of Motr: what they do to a vector that is not allocated is not known here,
  so that they may fail.
\<close>

datatype m0_vec = Uninitialised | AllocFailed | Allocated | Freed

record 's motr_client = "'s m0_client" +
  m0_pool_version_get :: "int option \<Rightarrow> int \<times> m0_pdclust_attr"
  m0_obj_layout :: "m0_id \<Rightarrow> 's \<Rightarrow> nat"
  m0_client_layout_id :: nat
  m0_layout_find_by_buffsize :: "m0_pdclust_attr \<Rightarrow> size_t \<Rightarrow> nat"
  m0_obj_layout_id_to_unit_size :: "nat \<Rightarrow> size_t"
  m0_bufvec_free :: "m0_vec \<Rightarrow> 's \<Rightarrow> 's result"
  m0_indexvec_free :: "m0_vec \<Rightarrow> 's \<Rightarrow> 's result"

text \<open>The global variables of the library: the pools of the tiers, the unit size option, and the transferred bytes.\<close>

record motr_globals =
  mg_pools :: "int list"
  mg_unit_size :: nat
  qos_total_weight :: int

text \<open>The state of the backend: the variables of the process and the store.\<close>

type_synonym 's motr_state = "motr_globals \<times> 's"

definition PAGE_SIZE :: nat where "PAGE_SIZE = 4096"
definition MAX_M0_BUFSZ :: nat where "MAX_M0_BUFSZ = 128 * 1024 * 1024"
definition MAX_POOLS :: nat where "MAX_POOLS = 16"
definition EINVAL :: int where "EINVAL = 22"

section \<open>Operations of the library\<close>

text \<open>\<open>tier2pool\<close>: the argument is an \<open>int\<close> passed as \<open>uint8_t\<close>, \<open>None\<close> the null pointer.\<close>

definition tier2pool :: "motr_globals \<Rightarrow> int \<Rightarrow> int option result" where
  "tier2pool g tier =
     (let tier_idx = nat (tier mod 256) in
      if tier_idx < 1 \<or> tier_idx > MAX_POOLS then Inr None
      else if tier_idx - 1 < length (mg_pools g) then Inr (Some (mg_pools g ! (tier_idx - 1)))
      else Inl OutOfBounds)"

partial_function (option) roundup_loop :: "size_t \<Rightarrow> size_t \<Rightarrow> size_t option" where
  "roundup_loop x pow = (if pow < x then roundup_loop x (mul64 pow 2) else Some pow)"

definition roundup_power2 :: "size_t \<Rightarrow> size_t option" where
  "roundup_power2 x = roundup_loop x 1"

definition open_entity :: "('s, 'z) m0_client_scheme \<Rightarrow> m0_id \<Rightarrow> 's \<Rightarrow> int \<times> 's" where
  "open_entity m k s = (let ((w, r), s) = m0_entity_open m k s in (elvis w r, s))"

text \<open>\<open>c0appz_ex\<close>: the opened object is given by its layout.\<close>

definition c0appz_ex :: "('s, 'z) motr_client_scheme \<Rightarrow> m0_id \<Rightarrow> 's \<Rightarrow> nat option \<times> 's" where
  "c0appz_ex m k s = (let (rc, s) = open_entity m k s in (if rc \<noteq> 0 then None else Some (m0_obj_layout m k s), s))"

definition c0appz_m0bs :: "('s, 'z) motr_client_scheme \<Rightarrow> m0_id \<Rightarrow> size_t \<Rightarrow> int \<Rightarrow> 's motr_state \<Rightarrow> (size_t \<times> 's motr_state) result" where
  "c0appz_m0bs m k obj_sz tier st =
     (let (g, s) = st in
      bindE (tier2pool g tier) (\<lambda>pool.
      let obj_sz = (if obj_sz > MAX_M0_BUFSZ then MAX_M0_BUFSZ else obj_sz);
          (rc, pa) = m0_pool_version_get m pool
      in if rc \<noteq> 0 then Inr (0, (g, s))
         else
           let (ex, s) = c0appz_ex m k s;
               lid = (case ex of Some lid \<Rightarrow> lid
                      | None \<Rightarrow> if mg_unit_size g \<noteq> 0 then m0_client_layout_id m else m0_layout_find_by_buffsize m pa obj_sz);
               usz = m0_obj_layout_id_to_unit_size m lid;
               gsz = mul64 usz (pa_N pa);
               width = (pa_N pa + (2 * pa_K pa) mod 2 ^ 32) mod 2 ^ 32
           in if width = 0 \<or> gsz = 0 then Inl DivisionByZero
              else
                let max_bs = mul64 (mul64 (mul64 usz 2) (pa_P pa)) (pa_N pa) div width;
                    max_bs = mul64 (max_bs div gsz) gsz
                in if obj_sz \<ge> max_bs then Inr (max_bs, (g, s))
                   else if obj_sz \<le> gsz then Inr (gsz, (g, s))
                   else (case roundup_power2 obj_sz of Some pow \<Rightarrow> Inr (pow, (g, s)) | None \<Rightarrow> Inl Diverges)))"

definition free_segs :: "('s, 'z) motr_client_scheme \<Rightarrow> m0_vec \<Rightarrow> m0_vec \<Rightarrow> m0_vec \<Rightarrow> 's \<Rightarrow> 's result" where
  "free_segs m data ext attr s =
     bindE (m0_indexvec_free m ext s) (\<lambda>s. bindE (m0_bufvec_free m data s) (\<lambda>s. m0_bufvec_free m attr s))"

text \<open>
  \<open>alloc_segs\<close>: the vectors are given by the blocks of the data vector; the attributes stay empty.  When an allocation
  fails, the three vectors are freed, also those that no allocation was tried for.
\<close>

definition alloc_segs :: "('s, 'z) motr_client_scheme \<Rightarrow> size_t \<Rightarrow> nat \<Rightarrow> 's \<Rightarrow> (int \<times> byte list list \<times> 's) result" where
  "alloc_segs m bsz cnt s =
     (let (rc, data, s) = m0_bufvec_alloc m cnt bsz s in
      if rc \<noteq> 0 then bindE (free_segs m AllocFailed Uninitialised Uninitialised s) (\<lambda>s. Inr (rc, [], s))
      else let (rc, attr, s) = m0_bufvec_alloc m cnt 1 s in
      if rc \<noteq> 0 then bindE (free_segs m Allocated Uninitialised AllocFailed s) (\<lambda>s. Inr (rc, [], s))
      else let (rc, s) = m0_indexvec_alloc m cnt s in
      if rc \<noteq> 0 then bindE (free_segs m Allocated AllocFailed Allocated s) (\<lambda>s. Inr (rc, [], s)) else Inr (0, data, s))"

fun set_exts_loop :: "nat \<Rightarrow> size_t \<Rightarrow> size_t \<Rightarrow> extent list" where
  "set_exts_loop 0 off bsz = []"
| "set_exts_loop (Suc n) off bsz = (off, bsz) # set_exts_loop n (add64 off bsz) bsz"

definition set_exts :: "nat \<Rightarrow> size_t \<Rightarrow> size_t \<Rightarrow> extent list \<times> size_t" where
  "set_exts v_nr off bsz = (set_exts_loop v_nr off bsz, mul64 v_nr bsz)"

definition do_io_op ::
  "('s, 'z) m0_client_scheme \<Rightarrow> m0_id \<Rightarrow> m0_opcode \<Rightarrow> extent list \<Rightarrow> byte list list \<Rightarrow> 's \<Rightarrow> int \<times> byte list list \<times> 's" where
  "do_io_op m k opcode ext data s = (let ((w, r), data, s) = m0_obj_op m opcode k ext data s in (elvis w r, data, s))"

text \<open>
  \<open>bufvecw\<close> and \<open>bufvecr\<close>: the copies between the buffer, from position \<open>pos\<close> on, and the first blocks of the vector.
\<close>

fun bufvecw_loop :: "nat list \<Rightarrow> byte list list \<Rightarrow> byte list \<Rightarrow> nat \<Rightarrow> size_t \<Rightarrow> byte list list result" where
  "bufvecw_loop [] data buf pos bsz = Inr data"
| "bufvecw_loop (i # is) data buf pos bsz =
     (if i < length data \<and> bsz \<le> length (data ! i) \<and> pos + bsz \<le> length buf
      then bufvecw_loop is (data[i := patch 0 (slice pos bsz buf) (data ! i)]) buf (pos + bsz) bsz
      else Inl OutOfBounds)"

definition bufvecw :: "byte list list \<Rightarrow> byte list \<Rightarrow> nat \<Rightarrow> size_t \<Rightarrow> nat \<Rightarrow> (byte list list \<times> size_t) result" where
  "bufvecw data buf pos bsz cnt =
     (let cnt = (if cnt > length data then length data else cnt) in
      bindE (bufvecw_loop [0..<cnt] data buf pos bsz) (\<lambda>data. Inr (data, mul64 cnt bsz)))"

fun bufvecr_loop :: "nat list \<Rightarrow> byte list list \<Rightarrow> byte list \<Rightarrow> nat \<Rightarrow> size_t \<Rightarrow> byte list result" where
  "bufvecr_loop [] data buf pos bsz = Inr buf"
| "bufvecr_loop (i # is) data buf pos bsz =
     (if i < length data \<and> bsz \<le> length (data ! i) \<and> pos + bsz \<le> length buf
      then bufvecr_loop is data (patch pos (slice 0 bsz (data ! i)) buf) (pos + bsz) bsz
      else Inl OutOfBounds)"

definition bufvecr :: "byte list list \<Rightarrow> byte list \<Rightarrow> nat \<Rightarrow> size_t \<Rightarrow> nat \<Rightarrow> (byte list \<times> size_t) result" where
  "bufvecr data buf pos bsz cnt =
     (let cnt = (if cnt > length data then length data else cnt) in
      bindE (bufvecr_loop [0..<cnt] data buf pos bsz) (\<lambda>buf. Inr (buf, mul64 cnt bsz)))"

text \<open>The transferred bytes are added to an \<open>int\<close>.\<close>

definition add_weight :: "nat \<Rightarrow> size_t \<Rightarrow> motr_globals \<Rightarrow> motr_globals" where
  "add_weight cnt bsz g = g\<lparr>qos_total_weight := to_int32 (qos_total_weight g + int (mul64 cnt bsz))\<rparr>"

text \<open>
  The loops of \<open>c0appz_mr\<close> and \<open>c0appz_mw\<close>, with the state in which they leave the three vectors: an operation that fails frees
  them before the loop is left.  A loop that makes no progress any more has the value \<open>None\<close>.
\<close>

partial_function (option) mr_loop ::
  "('s, 'z) motr_client_scheme \<Rightarrow> m0_id \<Rightarrow> size_t \<Rightarrow> size_t \<Rightarrow> size_t \<Rightarrow> nat \<Rightarrow> byte list list \<Rightarrow> byte list \<Rightarrow> nat \<Rightarrow> 's motr_state \<Rightarrow>
   (int \<times> byte list \<times> m0_vec \<times> 's motr_state) result option" where
  "mr_loop m k off bsz cnt cnt_per_op data buf pos st =
     (if cnt = 0 then Some (Inr (0, buf, Allocated, st))
      else
        let cnt_per_op = (if cnt < cnt_per_op then cnt else cnt_per_op);
            (ext, len) = set_exts (length data) off bsz;
            (rc, data, s) = do_io_op m k M0_OC_READ ext data (snd st)
        in if rc \<noteq> 0 then Some (bindE (free_segs m Allocated Allocated Allocated s) (\<lambda>s. Inr (rc, buf, Freed, (fst st, s))))
           else (case bufvecr data buf pos bsz cnt_per_op of
               Inl e \<Rightarrow> Some (Inl e)
             | Inr (buf, n) \<Rightarrow> mr_loop m k (add64 off len) bsz (cnt - cnt_per_op) cnt_per_op data buf (pos + n)
                 (add_weight cnt_per_op bsz (fst st), s)))"

partial_function (option) mw_loop ::
  "('s, 'z) motr_client_scheme \<Rightarrow> m0_id \<Rightarrow> size_t \<Rightarrow> size_t \<Rightarrow> size_t \<Rightarrow> nat \<Rightarrow> byte list list \<Rightarrow> byte list \<Rightarrow> nat \<Rightarrow> 's motr_state \<Rightarrow>
   (int \<times> m0_vec \<times> 's motr_state) result option" where
  "mw_loop m k off bsz cnt cnt_per_op data buf pos st =
     (if cnt = 0 then Some (Inr (0, Allocated, st))
      else
        let cnt_per_op = (if cnt < cnt_per_op then cnt else cnt_per_op);
            (ext, len) = set_exts (length data) off bsz
        in (case bufvecw data buf pos bsz cnt_per_op of
            Inl e \<Rightarrow> Some (Inl e)
          | Inr (data, n) \<Rightarrow>
              let (rc, data, s) = do_io_op m k M0_OC_WRITE ext data (snd st)
              in if rc \<noteq> 0 then Some (bindE (free_segs m Allocated Allocated Allocated s) (\<lambda>s. Inr (rc, Freed, (fst st, s))))
                 else mw_loop m k (add64 off len) bsz (cnt - cnt_per_op) cnt_per_op data buf (pos + n)
                   (add_weight cnt_per_op bsz (fst st), s)))"

definition returnE :: "'a result option \<Rightarrow> 'a result" where
  "returnE r = (case r of Some x \<Rightarrow> x | None \<Rightarrow> Inl Diverges)"

text \<open>The macro \<open>CHECK_BSZ_ARGS\<close>.\<close>

definition bsz_args_ok :: "size_t \<Rightarrow> size_t \<Rightarrow> bool" where
  "bsz_args_ok bsz m0bs \<longleftrightarrow> \<not> (bsz < 1 \<or> bsz mod PAGE_SIZE \<noteq> 0) \<and> \<not> (m0bs < 1 \<or> m0bs mod bsz \<noteq> 0)"

definition c0appz_mr ::
  "('s, 'z) motr_client_scheme \<Rightarrow> byte list \<Rightarrow> m0_id \<Rightarrow> size_t \<Rightarrow> size_t \<Rightarrow> size_t \<Rightarrow> size_t \<Rightarrow> 's motr_state \<Rightarrow> (int \<times> byte list \<times> 's motr_state) result" where
  "c0appz_mr m buf k off bsz cnt m0bs st =
     (if \<not> bsz_args_ok bsz m0bs then Inr (- EINVAL, buf, st)
      else
        let cnt_per_op = (m0bs div bsz) mod 2 ^ 32; (g, s) = st in
        bindE (alloc_segs m bsz cnt_per_op s) (\<lambda>(rc, data, s).
        if rc \<noteq> 0 then Inr (rc, buf, (g, s))
        else let (rc, s) = open_entity m k s in
          bindE (if rc \<noteq> 0 then Inr (rc, buf, Allocated, (g, s)) else returnE (mr_loop m k off bsz cnt cnt_per_op data buf 0 (g, s)))
            (\<lambda>(rc, buf, v, (g, s)). bindE (free_segs m v v v s) (\<lambda>s. Inr (rc, buf, (g, s))))))"

definition c0appz_mw ::
  "('s, 'z) motr_client_scheme \<Rightarrow> byte list \<Rightarrow> m0_id \<Rightarrow> size_t \<Rightarrow> size_t \<Rightarrow> size_t \<Rightarrow> size_t \<Rightarrow> 's motr_state \<Rightarrow> (int \<times> 's motr_state) result" where
  "c0appz_mw m buf k off bsz cnt m0bs st =
     (if \<not> bsz_args_ok bsz m0bs then Inr (- EINVAL, st)
      else
        let cnt_per_op = (m0bs div bsz) mod 2 ^ 32; (g, s) = st in
        bindE (alloc_segs m bsz cnt_per_op s) (\<lambda>(rc, data, s).
        if rc \<noteq> 0 then Inr (rc, (g, s))
        else let (rc, s) = open_entity m k s in
          bindE (if rc \<noteq> 0 then Inr (rc, Allocated, (g, s)) else returnE (mw_loop m k off bsz cnt cnt_per_op data buf 0 (g, s)))
            (\<lambda>(rc, v, (g, s)). bindE (free_segs m v v v s) (\<lambda>s. Inr (rc, (g, s))))))"

definition c0appz_cr :: "('s, 'z) motr_client_scheme \<Rightarrow> m0_id \<Rightarrow> int \<Rightarrow> size_t \<Rightarrow> 's motr_state \<Rightarrow> (int \<times> 's motr_state) result" where
  "c0appz_cr m k tier bsz st =
     (let (g, s) = st in
      bindE (tier2pool g tier) (\<lambda>pool.
      let (rc, pa) = m0_pool_version_get m pool in
      if rc \<noteq> 0 then Inr (rc, (g, s))
      else
        let lid = (if mg_unit_size g \<noteq> 0 then m0_client_layout_id m else m0_layout_find_by_buffsize m pa bsz);
            (rc, s) = open_entity m k s
        in if rc = 0 then Inr (1, (g, s))
           else let (rc, s) = m0_entity_create m pool k lid s
                in if rc \<noteq> 0 then Inr (rc, (g, s))
                   else let ((w, r), s) = m0_create_op m k s in Inr (elvis w r, (g, s))))"

definition create_object :: "('s, 'z) motr_client_scheme \<Rightarrow> m0_id \<Rightarrow> 's motr_state \<Rightarrow> (int \<times> 's motr_state) result" where
  "create_object m k st = c0appz_cr m k 0 (1024 * 1024) st"

section \<open>Operations of the backend\<close>

definition mero_create :: "('s, 'z) motr_client_scheme \<Rightarrow> int \<Rightarrow> int \<Rightarrow> 's motr_state \<Rightarrow> (int \<times> 's motr_state) result" where
  "mero_create m high low st = create_object m (high, low) st"

definition mero_pread ::
  "('s, 'z) motr_client_scheme \<Rightarrow> int \<Rightarrow> int \<Rightarrow> byte list \<Rightarrow> size_t \<Rightarrow> 's motr_state \<Rightarrow> (int \<times> byte list \<times> 's motr_state) result" where
  "mero_pread m high low buf offset st =
     (let n = length buf in
      bindE (assumeE (n mod 4096 = 0) ''Clovis driver work only with size multiple of the page size !'') (\<lambda>_.
      bindE (assumeE (offset mod 4096 = 0) ''Clovis driver work only with offset multiple of the page size !'') (\<lambda>_.
      bindE (c0appz_m0bs m (high, low) n 0 st) (\<lambda>(m0bs, st).
      let bsz = 4096; cnt = n div bsz in
      bindE (c0appz_mr m buf (high, low) offset bsz cnt m0bs st) (\<lambda>(ret, buf, st).
      Inr (if ret = 0 then ssize_t_of n else - 1, buf, st))))))"

definition mero_pwrite ::
  "('s, 'z) motr_client_scheme \<Rightarrow> int \<Rightarrow> int \<Rightarrow> byte list \<Rightarrow> size_t \<Rightarrow> 's motr_state \<Rightarrow> (int \<times> 's motr_state) result" where
  "mero_pwrite m high low buf offset st =
     (let n = length buf in
      bindE (assumeE (n mod 4096 = 0) ''Motr driver work only with size multiple of the page size !'') (\<lambda>_.
      bindE (assumeE (offset mod 4096 = 0) ''Motr driver work only with offset multiple of the page size !'') (\<lambda>_.
      bindE (c0appz_m0bs m (high, low) n 0 st) (\<lambda>(m0bs, st).
      let bsz = 4096; cnt = n div bsz in
      bindE (c0appz_mw m buf (high, low) offset bsz cnt m0bs st) (\<lambda>(ret, st).
      Inr (if ret = 0 then ssize_t_of n else - 1, st))))))"

definition mero_ops :: "('s, 'z) motr_client_scheme \<Rightarrow> 's motr_state storage_ops" where
  "mero_ops m = \<lparr>so_pread = mero_pread m, so_pwrite = mero_pwrite m, so_create = mero_create m\<rparr>"

text \<open>The branch without an object store (\<open>NOMERO\<close>).\<close>

definition nomero_ops :: "'s storage_ops" where
  "nomero_ops = \<lparr>so_pread = (\<lambda>high low buf offset s. Inr (ssize_t_of (length buf), buf, s)),
     so_pwrite = (\<lambda>high low buf offset s. Inr (ssize_t_of (length buf), s)),
     so_create = (\<lambda>high low s. Inr (0, s))\<rparr>"

section \<open>Blocks\<close>

text \<open>The vector of the library: \<open>nr\<close> blocks of \<open>bsz\<close> bytes.\<close>

definition segs :: "nat \<Rightarrow> size_t \<Rightarrow> byte list list \<Rightarrow> bool" where
  "segs nr bsz data \<longleftrightarrow> length data = nr \<and> (\<forall>d \<in> set data. length d = bsz)"

lemma concat_drop_segs: "segs nr bsz data \<Longrightarrow> concat (drop r data) = drop (r * bsz) (concat data)"
proof -
  have "\<forall>d \<in> set data. length d = bsz \<Longrightarrow> concat (drop r data) = drop (r * bsz) (concat data)"
  proof (induction data arbitrary: r)
    case (Cons d data)
    then show ?case by (cases r) auto
  qed simp
  then show "segs nr bsz data \<Longrightarrow> ?thesis" by (simp add: segs_def)
qed

lemma segs_blocks: "segs nr bsz data \<Longrightarrow> c \<le> nr \<Longrightarrow> pos + c * bsz \<le> length buf \<Longrightarrow> segs nr bsz (blocks_of bsz c pos buf @ drop c data)"
  using length_blocks [of pos c bsz buf] by (fastforce simp: segs_def dest: in_set_dropD)

lemma set_exts_run: "off + n * bsz < W64 \<Longrightarrow> set_exts n off bsz = (run_of off bsz n, n * bsz)"
proof -
  have "set_exts_loop n off bsz = run_of off bsz n" if "off + n * bsz < W64" for off
    using that
  proof (induction n arbitrary: off)
    case (Suc n)
    then show ?case by (simp add: map_upt_Suc add.assoc algebra_simps del: upt_Suc)
  qed simp
  then show "off + n * bsz < W64 \<Longrightarrow> ?thesis" by (simp add: set_exts_def mul64_small)
qed

lemma bufvecw_loop_eq:
  "j + n \<le> length data \<Longrightarrow> \<forall>d \<in> set data. length d = bsz \<Longrightarrow> pos + n * bsz \<le> length buf \<Longrightarrow>
   bufvecw_loop [j..<j + n] data buf pos bsz = Inr (take j data @ blocks_of bsz n pos buf @ drop (j + n) data)"
proof (induction n arbitrary: j data pos)
  case (Suc n)
  let ?b = "slice pos bsz buf" and ?data = "data[j := slice pos bsz buf]"
  have j: "j < length data" "length (data ! j) = bsz" "length ?b = bsz" using Suc.prems by (auto simp: algebra_simps)
  have u: "[j..<j + Suc n] = j # [Suc j..<Suc j + n]" by (simp add: upt_rec)
  have "\<forall>d \<in> set ?data. length d = bsz" using Suc.prems(2) j(3) set_update_subset_insert [of data j ?b] by blast
  from Suc.IH [OF _ this, of "Suc j" "pos + bsz"] Suc.prems(1,3)
  have "bufvecw_loop [Suc j..<Suc j + n] ?data buf (pos + bsz) bsz =
      Inr (take (Suc j) ?data @ blocks_of bsz n (pos + bsz) buf @ drop (Suc j + n) ?data)" by (simp add: algebra_simps)
  also have "take (Suc j) ?data = take j data @ [?b]" using j(1) by (simp add: take_Suc_conv_app_nth)
  finally show ?case using j Suc.prems(3) unfolding u blocks_Suc by (simp add: patch_full algebra_simps)
qed simp

lemma bufvecw_eq:
  assumes "segs nr bsz data" "c \<le> nr" "pos + c * bsz \<le> length buf" "c * bsz < W64"
  shows "bufvecw data buf pos bsz c = Inr (blocks_of bsz c pos buf @ drop c data, c * bsz)"
  using assms bufvecw_loop_eq [of 0 c data bsz pos buf] by (simp add: bufvecw_def segs_def mul64_small)



section \<open>Freeing the vectors\<close>

text \<open>
  What Motr documents: freeing an allocated vector returns; a call that returns has changed no stored byte.
\<close>

definition m0_frees_ok :: "('s, 'z) motr_client_scheme \<Rightarrow> 's storage_content \<Rightarrow> bool" where
  "m0_frees_ok m content \<longleftrightarrow>
     (\<forall>s. (\<exists>s'. m0_bufvec_free m Allocated s = Inr s') \<and> (\<exists>s'. m0_indexvec_free m Allocated s = Inr s')) \<and>
     (\<forall>v s s'. m0_bufvec_free m v s = Inr s' \<longrightarrow> content s' = content s) \<and>
     (\<forall>v s s'. m0_indexvec_free m v s = Inr s' \<longrightarrow> content s' = content s)"

text \<open>A call of the store can fail, and \<open>e\<close> is an error of freeing a vector that is not allocated.\<close>

definition m0_can_fail :: "('s, 'z) m0_client_scheme \<Rightarrow> bool" where
  "m0_can_fail m \<longleftrightarrow> (\<exists>n sz s. fst (m0_bufvec_alloc m n sz s) \<noteq> 0) \<or> (\<exists>n s. fst (m0_indexvec_alloc m n s) \<noteq> 0) \<or>
     (\<exists>opcode k es ds s. fst (m0_obj_op m opcode k es ds s) \<noteq> (0, 0))"

definition bad_free :: "('s, 'z) motr_client_scheme \<Rightarrow> ioc_error \<Rightarrow> bool" where
  "bad_free m e \<longleftrightarrow> m0_can_fail m \<and> (\<exists>v s. v \<noteq> Allocated \<and> (m0_bufvec_free m v s = Inl e \<or> m0_indexvec_free m v s = Inl e))"

lemma m0_failed:
  "m0_bufvec_alloc m n sz s = (rc, ds, s') \<Longrightarrow> rc \<noteq> 0 \<Longrightarrow> m0_can_fail m"
  "m0_indexvec_alloc m n s = (rc, s') \<Longrightarrow> rc \<noteq> 0 \<Longrightarrow> m0_can_fail m"
  "m0_obj_op m opcode k es ds s = ((w, r), ds', s') \<Longrightarrow> elvis w r \<noteq> 0 \<Longrightarrow> m0_can_fail m"
  unfolding m0_can_fail_def by (metis fst_conv, metis fst_conv) (metis elvis_eq_0 fst_conv prod.inject)

lemma free_segs_allocated:
  assumes "m0_frees_ok m content"
  obtains s' where "free_segs m Allocated Allocated Allocated s = Inr s'" "content s' = content s"
proof -
  obtain s1 where 1: "m0_indexvec_free m Allocated s = Inr s1" "content s1 = content s" using assms unfolding m0_frees_ok_def by metis
  obtain s2 where 2: "m0_bufvec_free m Allocated s1 = Inr s2" "content s2 = content s1" using assms unfolding m0_frees_ok_def by metis
  obtain s3 where 3: "m0_bufvec_free m Allocated s2 = Inr s3" "content s3 = content s2" using assms unfolding m0_frees_ok_def by metis
  show thesis using that [of s3] 1 2 3 by (simp add: free_segs_def)
qed

text \<open>Freeing other vectors returns without a change of the stored bytes, or fails in one of the calls of Motr.\<close>

lemma free_segs_any:
  assumes ok: "m0_frees_ok m content" and fail: "m0_can_fail m"
  shows "case free_segs m d e a s of Inl err \<Rightarrow> bad_free m err | Inr s' \<Rightarrow> content s' = content s"
proof -
  have good: "m0_bufvec_free m Allocated s \<noteq> Inl err" "m0_indexvec_free m Allocated s \<noteq> Inl err" for s err
    using ok unfolding m0_frees_ok_def by (metis Inr_Inl_False)+
  have bad: "m0_bufvec_free m v s = Inl err \<Longrightarrow> bad_free m err" "m0_indexvec_free m v s = Inl err \<Longrightarrow> bad_free m err" for v s err
    using good fail unfolding bad_free_def by metis+
  have same: "m0_bufvec_free m v s = Inr s' \<Longrightarrow> content s' = content s" "m0_indexvec_free m v s = Inr s' \<Longrightarrow> content s' = content s" for v s s'
    using ok unfolding m0_frees_ok_def by metis+
  show ?thesis unfolding free_segs_def by (auto simp: bindE_def dest: bad split: sum.splits) (metis same)
qed

section \<open>Writing\<close>

lemma mw_loop_end [simp]: "mw_loop m k off bsz 0 c data buf pos st = Some (Inr (0, Allocated, st))"
  by (subst mw_loop.simps) simp

text \<open>
  One round of the loop: the blocks of the buffer replace the first ones of the vector, and the whole vector is written.
\<close>

lemma mw_loop_round:
  assumes ok: "m0_client_ok m content" "m0_frees_ok m content" and data: "segs nr bsz data" and c: "0 < cnt" "c = min cnt nr"
    and fit: "pos + c * bsz \<le> length buf" "off + nr * bsz < W64"
  obtains rc s' where
    "pwrite_post (content (snd st)) (content s') k (slice pos (c * bsz) buf @ drop (c * bsz) (concat data)) off (rc = 0)" "rc \<noteq> 0 \<longrightarrow> m0_can_fail m"
    "mw_loop m k off bsz cnt nr data buf pos st =
       (if rc \<noteq> 0 then Some (Inr (rc, Freed, (fst st, s')))
        else mw_loop m k (off + nr * bsz) bsz (cnt - c) c (blocks_of bsz c pos buf @ drop c data) buf (pos + c * bsz) (add_weight c bsz (fst st), s'))"
proof -
  let ?data = "blocks_of bsz c pos buf @ drop c data"
  have le: "c \<le> nr" "c * bsz \<le> nr * bsz" using c(2) by simp_all
  have sg: "segs nr bsz ?data" by (rule segs_blocks [OF data le(1) fit(1)])
  have bv: "bufvecw data buf pos bsz c = Inr (?data, c * bsz)" by (rule bufvecw_eq [OF data le(1) fit(1)]) (use le(2) fit(2) in linarith)
  have nr: "length data = nr" using data by (simp add: segs_def)
  obtain w r ds' s' where op: "m0_obj_op m M0_OC_WRITE k (run_of off bsz nr) ?data (snd st) = ((w, r), ds', s')" by (metis prod.exhaust)
  note W = run_written [OF ok(1) _ _ op, OF sg [unfolded segs_def, THEN conjunct1] sg [unfolded segs_def, THEN conjunct2]]
  have cc: "concat ?data = slice pos (c * bsz) buf @ drop (c * bsz) (concat data)"
    using concat_blocks [OF fit(1)] concat_drop_segs [OF data, of c] by simp
  have min: "(if cnt < nr then cnt else nr) = c" using c(2) by simp
  obtain s'' where fr: "free_segs m Allocated Allocated Allocated s' = Inr s''" "content s'' = content s'" by (rule free_segs_allocated [OF ok(2)])
  have post: "pwrite_post (content (snd st)) (content s') k (slice pos (c * bsz) buf @ drop (c * bsz) (concat data)) off (elvis w r = 0)"
    using W(2) unfolding cc by simp
  have run: "mw_loop m k off bsz cnt nr data buf pos st =
       (if elvis w r \<noteq> 0 then Some (Inr (elvis w r, Freed, (fst st, s'')))
        else mw_loop m k (off + nr * bsz) bsz (cnt - c) c ?data buf (pos + c * bsz) (add_weight c bsz (fst st), s'))"
    using c(1) by (subst mw_loop.simps) (simp add: Let_def min nr set_exts_run [OF fit(2)] bv do_io_op_def op W(1) fit(2) fr(1))
  show thesis
    using that [of "if elvis w r \<noteq> 0 then s'' else s'" "elvis w r"] m0_failed(3) [OF op] post run fr(2) by (cases "elvis w r = 0") simp_all
qed

text \<open>
  The whole loop over \<open>q\<close> full operations and \<open>r\<close> more blocks: it returns, and what it writes is the range of the buffer
  followed by the blocks of the last full operation (or of the fresh vector) that the short operation did not replace.
\<close>

lemma mw_loop_written:
  assumes ok: "m0_client_ok m content" "m0_frees_ok m content" and nr: "0 < nr" and r: "r < nr"
  shows "segs nr bsz data \<Longrightarrow> pos + (q * nr + r) * bsz \<le> length buf \<Longrightarrow> off + Suc q * nr * bsz < W64 \<Longrightarrow>
    \<exists>rc st'. mw_loop m k off bsz (q * nr + r) nr data buf pos st = Some (Inr (rc, if rc = 0 then Allocated else Freed, st')) \<and> (rc \<noteq> 0 \<longrightarrow> m0_can_fail m) \<and>
      pwrite_post (content (snd st)) (content (snd st')) k
        (slice pos ((q * nr + r) * bsz) buf @
         (if r = 0 then [] else drop (r * bsz) (if q = 0 then concat data else slice (pos + (q - 1) * nr * bsz) (nr * bsz) buf)))
        off (rc = 0)"
proof (induction q arbitrary: data pos off st)
  case 0
  show ?case
  proof (cases "r = 0")
    case True
    then show ?thesis by (auto simp: pwrite_post_def)
  next
    case False
    then have c: "0 < r" "r = min r nr" using r by simp_all
    have fit: "pos + r * bsz \<le> length buf" "off + nr * bsz < W64" using "0.prems" by simp_all
    obtain rc s' where "pwrite_post (content (snd st)) (content s') k (slice pos (r * bsz) buf @ drop (r * bsz) (concat data)) off (rc = 0)"
        "rc \<noteq> 0 \<longrightarrow> m0_can_fail m"
        "mw_loop m k off bsz r nr data buf pos st = (if rc \<noteq> 0 then Some (Inr (rc, Freed, (fst st, s'))) else
           mw_loop m k (off + nr * bsz) bsz (r - r) r (blocks_of bsz r pos buf @ drop r data) buf (pos + r * bsz) (add_weight r bsz (fst st), s'))"
      by (rule mw_loop_round [OF ok "0.prems"(1) c fit, of st k])
    then show ?thesis using False by auto
  qed
next
  case (Suc q)
  let ?n = "(q * nr + r) * bsz" and ?data = "blocks_of bsz nr pos buf @ drop nr data"
  have c: "0 < Suc q * nr + r" "nr = min (Suc q * nr + r) nr" using nr by simp_all
  have fit: "pos + nr * bsz \<le> length buf" "off + nr * bsz < W64" using Suc.prems(2,3) by (simp_all add: algebra_simps)
  obtain rc s' where
    P: "pwrite_post (content (snd st)) (content s') k (slice pos (nr * bsz) buf @ drop (nr * bsz) (concat data)) off (rc = 0)" and
    F: "rc \<noteq> 0 \<longrightarrow> m0_can_fail m" and
    L: "mw_loop m k off bsz (Suc q * nr + r) nr data buf pos st = (if rc \<noteq> 0 then Some (Inr (rc, Freed, (fst st, s'))) else
       mw_loop m k (off + nr * bsz) bsz (Suc q * nr + r - nr) nr ?data buf (pos + nr * bsz) (add_weight nr bsz (fst st), s'))"
    by (rule mw_loop_round [OF ok Suc.prems(1) c fit, of st k])
  let ?first = "slice pos (nr * bsz) buf" and ?tail = "if r = 0 then [] else drop (r * bsz) (slice (pos + q * nr * bsz) (nr * bsz) buf)"
  have len: "length ?first = nr * bsz" using fit(1) by simp
  have all: "length (concat data) = nr * bsz" using Suc.prems(1) length_concat_run by (auto simp: segs_def)
  then have P: "pwrite_post (content (snd st)) (content s') k ?first off (rc = 0)" using P by simp
  have cut: "slice pos ((Suc q * nr + r) * bsz) buf = ?first @ slice (pos + nr * bsz) ?n buf"
    using slice_append_slice [of pos "nr * bsz" ?n buf] Suc.prems(2) by (simp add: algebra_simps)
  have le: "nr \<le> nr" by simp
  have sg: "segs nr bsz ?data" by (rule segs_blocks [OF Suc.prems(1) le fit(1)])
  have cd: "concat ?data = ?first" using concat_blocks [OF fit(1)] Suc.prems(1) by (simp add: segs_def)
  show ?case
  proof (cases "rc = 0")
    case True
    have e: "(if q = 0 then concat ?data else slice (pos + nr * bsz + (q - 1) * nr * bsz) (nr * bsz) buf) = slice (pos + q * nr * bsz) (nr * bsz) buf"
      unfolding cd by (cases q) (simp_all add: algebra_simps)
    have "\<exists>rc st'. mw_loop m k (off + nr * bsz) bsz (q * nr + r) nr ?data buf (pos + nr * bsz) (add_weight nr bsz (fst st), s') = Some (Inr (rc, if rc = 0 then Allocated else Freed, st')) \<and>
        (rc \<noteq> 0 \<longrightarrow> m0_can_fail m) \<and> pwrite_post (content s') (content (snd st')) k (slice (pos + nr * bsz) ?n buf @ ?tail) (off + nr * bsz) (rc = 0)"
      using Suc.IH [OF sg, of "pos + nr * bsz" "off + nr * bsz" "(add_weight nr bsz (fst st), s')"] Suc.prems(2,3) unfolding e
      by (simp add: algebra_simps)
    then obtain rc' st' where R: "mw_loop m k (off + nr * bsz) bsz (q * nr + r) nr ?data buf (pos + nr * bsz) (add_weight nr bsz (fst st), s') = Some (Inr (rc', if rc' = 0 then Allocated else Freed, st'))"
        "rc' \<noteq> 0 \<longrightarrow> m0_can_fail m" "pwrite_post (content s') (content (snd st')) k (slice (pos + nr * bsz) ?n buf @ ?tail) (off + nr * bsz) (rc' = 0)" by blast
    have "pwrite_post (content (snd st)) (content (snd st')) k (?first @ slice (pos + nr * bsz) ?n buf @ ?tail) off (rc' = 0)"
      by (rule pwrite_post_append) (use P True R(3) len in simp_all)
    then show ?thesis using L True R(1,2) unfolding cut by (intro exI [of _ rc'] exI [of _ st']) (simp only: append_assoc, cases "r = 0", simp_all)
  next
    case False
    then show ?thesis using L F pwrite_post_prefix [of _ _ k ?first off "rc = 0"] P unfolding cut by simp
  qed
qed

section \<open>Reading\<close>

lemma mr_loop_end [simp]: "mr_loop m k off bsz 0 c data buf pos st = Some (Inr (0, buf, Allocated, st))"
  by (subst mr_loop.simps) simp



section \<open>The size of an operation\<close>

lemma roundup_loop_pow: "x \<le> 2 ^ 63 \<Longrightarrow> k \<le> 63 \<Longrightarrow> k = 0 \<or> 2 ^ (k - 1) < x \<Longrightarrow>
   \<exists>j. roundup_loop x (2 ^ k) = Some (2 ^ j) \<and> x \<le> 2 ^ j \<and> k \<le> j \<and> (j = 0 \<or> 2 ^ (j - 1) < x)"
proof (induction "63 - k" arbitrary: k)
  case (Suc d)
  show ?case
  proof (cases "2 ^ k < x")
    case True
    have "mul64 (2 ^ k) 2 = 2 ^ Suc k"
    proof -
      have "(2 :: nat) ^ Suc k \<le> 2 ^ 63" using Suc.hyps(2) by (intro power_increasing) simp_all
      then show ?thesis by (simp add: mul64_small W64_def mult.commute)
    qed
    then have "roundup_loop x (2 ^ k) = roundup_loop x (2 ^ Suc k)" using True by (subst roundup_loop.simps) simp
    moreover have "\<exists>j. roundup_loop x (2 ^ Suc k) = Some (2 ^ j) \<and> x \<le> 2 ^ j \<and> Suc k \<le> j \<and> (j = 0 \<or> 2 ^ (j - 1) < x)"
      by (rule Suc.hyps(1)) (use Suc.hyps(2) Suc.prems True in simp_all)
    ultimately show ?thesis by auto
  next
    case False
    then show ?thesis using Suc.prems by (intro exI [of _ k]) (subst roundup_loop.simps, simp)
  qed
next
  case 0
  then have "k = 63" by simp
  then show ?case using 0 by (intro exI [of _ k]) (subst roundup_loop.simps, simp)
qed

text \<open>The least power of two from the argument on, for the arguments up to \<open>2 ^ 63\<close>; beyond them the loop does not end.\<close>

lemma roundup_power2_least:
  assumes "x \<le> 2 ^ 63"
  obtains j where "roundup_power2 x = Some (2 ^ j)" "x \<le> 2 ^ j" "j = 0 \<or> 2 ^ (j - 1) < x"
  using roundup_loop_pow [of x 0] assms by (auto simp: roundup_power2_def)

definition doubled :: "nat \<Rightarrow> bool" where
  "doubled pow \<longleftrightarrow> pow = 0 \<or> (\<exists>k \<le> 63. pow = 2 ^ k)"

lemma doubled_step: "doubled pow \<Longrightarrow> doubled (mul64 pow 2)" "doubled pow \<Longrightarrow> pow \<le> 2 ^ 63"
proof -
  have "doubled (mul64 (2 ^ k) 2)" if "k \<le> 63" for k
  proof (cases "k = 63")
    case False
    then have "(2 :: nat) ^ Suc k \<le> 2 ^ 63" using that by (intro power_increasing) simp_all
    then have "mul64 (2 ^ k) 2 = 2 ^ Suc k" by (simp add: mul64_small W64_def mult.commute)
    then show ?thesis unfolding doubled_def using that False by (metis Suc_leI le_neq_implies_less)
  qed (simp add: doubled_def mul64_def W64_def)
  then show "doubled pow \<Longrightarrow> doubled (mul64 pow 2)" by (auto simp: doubled_def mul64_def)
  show "doubled pow \<Longrightarrow> pow \<le> 2 ^ 63" using power_increasing [of _ 63 "2 :: nat"] by (auto simp: doubled_def)
qed

lemma roundup_loop_returns:
  assumes "roundup_loop x pow = Some y"
  shows "doubled pow \<longrightarrow> x \<le> 2 ^ 63"
proof -
  let ?P = "\<lambda>x pow (y :: nat). doubled pow \<longrightarrow> x \<le> 2 ^ 63"
  have "(case (x, pow) of (x, pow) \<Rightarrow> ?P x pow) y"
  proof (rule roundup_loop.raw_induct)
    show "(case (x, pow) of (x, pow) \<Rightarrow> roundup_loop x pow) = Some y" using assms by simp
    fix f x pow y
    assume "\<And>x pow y. f x pow = Some y \<Longrightarrow> ?P x pow y" "(if pow < x then f x (mul64 pow 2) else Some pow) = Some y"
    then show "?P x pow y" using doubled_step [of pow] by (fastforce split: if_splits)
  qed
  then show ?thesis by simp
qed

lemma roundup_power2_diverges: "2 ^ 63 < x \<Longrightarrow> roundup_power2 x = None"
  using roundup_loop_returns [of x 1] by (cases "roundup_power2 x") (auto simp: roundup_power2_def doubled_def)

text \<open>
  What Motr documents of its layouts: a unit is a multiple of the page up to 32 MB, and a pool is at least as wide as
  a parity group with its spare units.
\<close>

definition motr_layouts :: "('s, 'z) motr_client_scheme \<Rightarrow> bool" where
  "motr_layouts m \<longleftrightarrow>
     (\<forall>lid. 0 < m0_obj_layout_id_to_unit_size m lid \<and> m0_obj_layout_id_to_unit_size m lid mod 4096 = 0 \<and>
        m0_obj_layout_id_to_unit_size m lid \<le> 2 ^ 25) \<and>
     (\<forall>pool pa. m0_pool_version_get m pool = (0, pa) \<longrightarrow> 0 < pa_N pa \<and> pa_N pa + 2 * pa_K pa \<le> pa_P pa \<and> pa_P pa < 2 ^ 16)"

lemma max_bs_bounds:
  fixes u N K P :: nat
  assumes "0 < u" "u \<le> 2 ^ 25" "0 < N" "N + 2 * K \<le> P" "P < 2 ^ 16"
  shows "mul64 (mul64 (mul64 u 2) P) N = u * 2 * P * N" "mul64 u N = u * N" "(N + (2 * K) mod 2 ^ 32) mod 2 ^ 32 = N + 2 * K"
    "u * N \<le> u * 2 * P * N div (N + 2 * K)" "u * 2 * P * N div (N + 2 * K) \<le> 2 ^ 42"
proof -
  have "u * (2 * P * N) \<le> 2 ^ 25 * (2 * 2 ^ 16 * 2 ^ 16)" using assms by (intro mult_le_mono) simp_all
  then have big: "u * 2 * P * N < W64" by (simp add: W64_def mult.assoc)
  have "u * 2 * P * 1 \<le> u * 2 * P * N" "u * 2 * 1 * 1 \<le> u * 2 * P * N" "u * 1 * 1 * N \<le> u * 2 * P * N"
    using assms by (intro mult_le_mono; simp)+
  then have "u * 2 * P < W64" "u * 2 < W64" "u * N < W64" using big by linarith+
  then show "mul64 (mul64 (mul64 u 2) P) N = u * 2 * P * N" "mul64 u N = u * N" using big by (simp_all add: mul64_small)
  have w: "0 < N + 2 * K" "N + 2 * K < 2 ^ 32" using assms by simp_all
  then show "(N + (2 * K) mod 2 ^ 32) mod 2 ^ 32 = N + 2 * K" by simp
  have "u * N * (N + 2 * K) \<le> u * N * (2 * P)" using assms(4) by (intro mult_le_mono2) simp
  then have "u * N * (N + 2 * K) div (N + 2 * K) \<le> u * 2 * P * N div (N + 2 * K)" by (intro div_le_mono) (simp add: ac_simps)
  moreover have "u * N * (N + 2 * K) div (N + 2 * K) = u * N" using w(1) by (intro nonzero_mult_div_cancel_right) simp
  ultimately show "u * N \<le> u * 2 * P * N div (N + 2 * K)" by simp
  have "u * 2 * P * N \<le> u * 2 * P * (N + 2 * K)" by simp
  then have "u * 2 * P * N div (N + 2 * K) \<le> u * 2 * P * (N + 2 * K) div (N + 2 * K)" by (rule div_le_mono)
  also have "\<dots> = u * (2 * P)" using w by simp
  also have "\<dots> \<le> 2 ^ 25 * (2 * 2 ^ 16)" using assms by (intro mult_le_mono) simp_all
  finally show "u * 2 * P * N div (N + 2 * K) \<le> 2 ^ 42" by simp
qed

lemma round_down_bounds:
  fixes g x :: nat
  assumes "0 < g" "g \<le> x" "4096 dvd g"
  shows "0 < x div g * g" "4096 dvd x div g * g" "x div g * g \<le> x"
  using assms by (simp_all add: div_greater_zero_iff)

lemma power2_page:
  assumes "4096 < x" "x \<le> (2 :: nat) ^ j"
  shows "4096 dvd (2 :: nat) ^ j"
proof -
  have "(2 :: nat) ^ 12 < 2 ^ j" using assms by simp
  then have "12 < j" by (rule power_less_imp_less_exp [rotated]) simp
  then have "12 \<le> j" by simp
  then have "(2 :: nat) ^ 12 dvd 2 ^ j" by (rule le_imp_power_dvd)
  then show ?thesis by simp
qed

lemma open_entity_neutral: "m0_client_ok m content \<Longrightarrow> open_entity m k s = (rc, s') \<Longrightarrow> content s' = content s"
  by (auto simp: open_entity_def dest: m0_neutralD(2) split: prod.splits)

lemma tier2pool_default: "tier2pool g 0 = Inr None"
  by (simp add: tier2pool_def)

text \<open>
  The size of an operation is computed without error; it is zero when the pool is unknown, and accepted by the check
  of the transfers otherwise.
\<close>

lemma m0bs_accepted:
  assumes ok: "m0_client_ok m content" and lay: "motr_layouts m"
  obtains b g s' where "c0appz_m0bs m k n 0 st = Inr (b, (g, s'))" "content s' = content (snd st)" "b = 0 \<or> bsz_args_ok 4096 b" "b \<le> 2 ^ 42"
proof -
  obtain g s where st: "st = (g, s)" by force
  obtain rc pa where pv: "m0_pool_version_get m None = (rc, pa)" by force
  show thesis
  proof (cases "rc = 0")
    case False
    then show thesis using that [of 0 g s] by (simp add: c0appz_m0bs_def st tier2pool_default pv)
  next
    case True
    obtain ex s1 where ex: "c0appz_ex m k s = (ex, s1)" by force
    have s1: "content s1 = content s" using ex open_entity_neutral [OF ok] by (auto simp: c0appz_ex_def split: prod.splits)
    let ?n = "min n MAX_M0_BUFSZ" and ?N = "pa_N pa" and ?W = "pa_N pa + 2 * pa_K pa"
    define u where "u = m0_obj_layout_id_to_unit_size m
      (case ex of Some lid \<Rightarrow> lid | None \<Rightarrow> if mg_unit_size g \<noteq> 0 then m0_client_layout_id m else m0_layout_find_by_buffsize m pa ?n)"
    have u: "0 < u" "4096 dvd u" "u \<le> 2 ^ 25" using lay by (auto simp: motr_layouts_def u_def)
    have pa: "0 < ?N" "?W \<le> pa_P pa" "pa_P pa < 2 ^ 16" using lay pv True by (auto simp: motr_layouts_def)
    note B = max_bs_bounds [OF u(1,3) pa]
    let ?max = "u * 2 * pa_P pa * ?N div ?W" and ?g = "u * ?N"
    have g: "0 < ?g" "4096 dvd ?g" using u pa by simp_all
    note D = round_down_bounds [OF g(1) B(4) g(2)]
    have "?max div ?g * ?g < W64" by (rule le_less_trans [OF order_trans [OF D(3) B(5)]]) (simp add: W64_def)
    then have small: "mul64 (?max div ?g) ?g = ?max div ?g * ?g" by (rule mul64_small)
    have n: "(if n > MAX_M0_BUFSZ then MAX_M0_BUFSZ else n) = ?n" by simp
    have run: "c0appz_m0bs m k n 0 st = (if ?n \<ge> ?max div ?g * ?g then Inr (?max div ?g * ?g, (g, s1))
        else if ?n \<le> ?g then Inr (?g, (g, s1))
        else (case roundup_power2 ?n of Some pow \<Rightarrow> Inr (pow, (g, s1)) | None \<Rightarrow> Inl Diverges))"
      using g(1) pa(1)
      unfolding c0appz_m0bs_def st n tier2pool_default prod.case bindE_Inr pv Let_def ex u_def [symmetric] B(1-3) small True by simp
    have page: "bsz_args_ok 4096 b" if "0 < b" "4096 dvd b" for b using that by (auto simp: bsz_args_ok_def PAGE_SIZE_def)
    define d where "d = ?max div ?g * ?g"
    have d: "bsz_args_ok 4096 d" "d \<le> 2 ^ 42" using page [OF D(1,2)] order_trans [OF D(3) B(5)] by (simp_all add: d_def)
    note run = run [folded d_def]
    consider "d \<le> ?n" | "?n < d" "?n \<le> ?g" | "?n < d" "?g < ?n" by linarith
    then show thesis
    proof cases
      case 1
      then have "c0appz_m0bs m k n 0 st = Inr (d, (g, s1))" using run by simp
      then show thesis using that s1 st d by simp
    next
      case 2
      then have "c0appz_m0bs m k n 0 st = Inr (?g, (g, s1))" using run by (simp only: not_le [symmetric] if_False if_True)
      then show thesis using that s1 st page [OF g] order_trans [OF B(4,5)] by simp
    next
      case 3
      have le: "?n \<le> 2 ^ 27" by (simp add: MAX_M0_BUFSZ_def)
      then have "?n \<le> 2 ^ 63" by simp
      then obtain j where j: "roundup_power2 ?n = Some (2 ^ j)" "?n \<le> 2 ^ j" "j = 0 \<or> 2 ^ (j - 1) < ?n" by (rule roundup_power2_least)
      have "4096 \<le> ?g" using g dvd_imp_le by blast
      then have "bsz_args_ok 4096 (2 ^ j)" using 3 j(2) by (intro page power2_page [of ?n]) simp_all
      moreover have "(2 :: nat) ^ j \<le> 2 ^ 42"
      proof (cases j)
        case (Suc i)
        then have "(2 :: nat) ^ i < ?n" using j(3) by simp
        then have "(2 :: nat) ^ i < 2 ^ 27" using le by linarith
        then show ?thesis using Suc by simp
      qed simp
      moreover have "c0appz_m0bs m k n 0 st = Inr (2 ^ j, (g, s1))" using run 3 j(1) by (simp only: not_le [symmetric] if_False option.case)
      ultimately show thesis using that s1 st by simp
    qed
  qed
qed

section \<open>Transfers of the library\<close>

text \<open>Allocating the vectors: without a failure they are returned, and a failure frees vectors that are not allocated.\<close>

lemma alloc_segs_ok:
  assumes ok: "m0_client_ok m content" "m0_frees_ok m content"
  shows "case alloc_segs m bsz nr s of Inl e \<Rightarrow> bad_free m e
    | Inr (rc, data, s') \<Rightarrow> content s' = content s \<and> (rc = 0 \<longrightarrow> segs nr bsz data)"
proof -
  obtain rc1 d1 s1 where a: "m0_bufvec_alloc m nr bsz s = (rc1, d1, s1)" by (metis prod.exhaust)
  obtain rc2 d2 s2 where b: "m0_bufvec_alloc m nr 1 s1 = (rc2, d2, s2)" by (metis prod.exhaust)
  obtain rc3 s3 where c: "m0_indexvec_alloc m nr s2 = (rc3, s3)" by force
  have same: "content s1 = content s" "content s2 = content s" "content s3 = content s"
    using m0_allocD(1) [OF ok(1) a] m0_allocD(1) [OF ok(1) b] m0_neutralD(1) [OF ok(1) c] by simp_all
  let ?post = "\<lambda>r. case r of Inl e \<Rightarrow> bad_free m e | Inr (rc, data, s') \<Rightarrow> content s' = content s \<and> (rc = 0 \<longrightarrow> segs nr bsz data)"
  have freed: "?post (bindE (free_segs m d e x t) (\<lambda>s. Inr (rc, [], s)))"
    if "m0_can_fail m" "content t = content s" "rc \<noteq> 0" for d e x t rc
    using free_segs_any [OF ok(2) that(1), where d = d and e = e and a = x and s = t] that(2,3) by (simp add: bindE_def split: sum.splits)
  have all: "segs nr bsz d1" if "rc1 = 0" using m0_allocD(2,3) [OF ok(1) a that] by (simp add: segs_def)
  have eq: "alloc_segs m bsz nr s =
      (if rc1 \<noteq> 0 then bindE (free_segs m AllocFailed Uninitialised Uninitialised s1) (\<lambda>s. Inr (rc1, [], s))
       else if rc2 \<noteq> 0 then bindE (free_segs m Allocated Uninitialised AllocFailed s2) (\<lambda>s. Inr (rc2, [], s))
       else if rc3 \<noteq> 0 then bindE (free_segs m Allocated AllocFailed Allocated s3) (\<lambda>s. Inr (rc3, [], s)) else Inr (0, d1, s3))"
    unfolding alloc_segs_def a Let_def prod.case b c ..
  consider "rc1 \<noteq> 0" | "rc1 = 0" "rc2 \<noteq> 0" | "rc1 = 0" "rc2 = 0" "rc3 \<noteq> 0" | "rc1 = 0" "rc2 = 0" "rc3 = 0" by blast
  then show ?thesis
  proof cases
    case 1
    show ?thesis using freed [OF m0_failed(1) [OF a 1] same(1) 1] 1 unfolding eq by simp
  next
    case 2
    show ?thesis using freed [OF m0_failed(1) [OF b 2(2)] same(2) 2(2)] 2 unfolding eq by simp
  next
    case 3
    show ?thesis using freed [OF m0_failed(2) [OF c 3(3)] same(3) 3(3)] 3 unfolding eq by simp
  next
    case 4
    then show ?thesis using all same(3) unfolding eq by simp
  qed
qed

text \<open>What the blocks of the data vector hold after the allocation.\<close>

definition fresh_segs :: "('s, 'z) motr_client_scheme \<Rightarrow> size_t \<Rightarrow> nat \<Rightarrow> 's \<Rightarrow> byte list list" where
  "fresh_segs m bsz nr s = (case alloc_segs m bsz nr s of Inl e \<Rightarrow> [] | Inr (rc, data, s') \<Rightarrow> data)"

text \<open>
  The bytes that a write of \<open>buf\<close> stores after the range: the rest of the vector of the last operation, which holds
  the last full operation or, when there was none, what the vector was allocated with (\<open>fresh\<close>).
\<close>

definition overrun :: "size_t \<Rightarrow> byte list list \<Rightarrow> byte list \<Rightarrow> byte list" where
  "overrun m0bs fresh buf =
     (let r = length buf mod m0bs in
      if r = 0 then [] else drop r (if length buf < m0bs then concat fresh else slice (length buf - r - m0bs) m0bs buf))"


lemma overrun_rounds:
  assumes "0 < bsz" "0 < nr" "length buf = (q * nr + r) * bsz" "r < nr"
  shows "overrun (nr * bsz) fresh buf =
    (if r = 0 then [] else drop (r * bsz) (if q = 0 then concat fresh else slice (0 + (q - 1) * nr * bsz) (nr * bsz) buf))"
proof -
  have "length buf mod (nr * bsz) = r * bsz" using assms(1,4) unfolding assms(3) by (simp add: mult_mod_left [symmetric])
  moreover have "length buf < nr * bsz \<longleftrightarrow> q = 0"
  proof (cases q)
    case (Suc p)
    then have "nr * bsz \<le> length buf" unfolding assms(3) by (intro mult_le_mono1) simp
    then show ?thesis using Suc by simp
  qed (use assms in simp)
  moreover have "length buf - r * bsz - nr * bsz = (q - 1) * nr * bsz" unfolding assms(3) by (cases q) (simp_all add: algebra_simps)
  ultimately show ?thesis using assms(1) by (simp add: overrun_def Let_def)
qed

lemma returnE_Some [simp]: "returnE (Some r) = r"
  by (simp add: returnE_def)

text \<open>The vectors are freed after the loop, for the second time when an operation failed.\<close>

lemma freed_after:
  assumes ok: "m0_frees_ok m content" and fail: "rc \<noteq> (0 :: int) \<longrightarrow> m0_can_fail m"
  shows "case free_segs m (if rc = 0 then Allocated else Freed) (if rc = 0 then Allocated else Freed) (if rc = 0 then Allocated else Freed) s of
    Inl err \<Rightarrow> bad_free m err | Inr s' \<Rightarrow> content s' = content s"
proof (cases "rc = 0")
  case True
  obtain s' where "free_segs m Allocated Allocated Allocated s = Inr s'" "content s' = content s" by (rule free_segs_allocated [OF ok])
  then show ?thesis using True by simp
qed (use free_segs_any [OF ok] fail in simp)

text \<open>The operations that a transfer of \<open>cnt\<close> blocks is made of.\<close>

lemma transfer_rounds:
  assumes "bsz_args_ok bsz m0bs" "bsz * cnt = length buf" "m0bs div bsz < 2 ^ 32" "off + length buf + m0bs < W64"
  obtains nr q r where "0 < bsz" "0 < nr" "m0bs = nr * bsz" "m0bs div bsz mod 2 ^ 32 = nr" "m0bs div bsz = nr" "cnt = q * nr + r" "r < nr"
    "length buf = (q * nr + r) * bsz" "0 + (q * nr + r) * bsz \<le> length buf" "off + Suc q * nr * bsz < W64"
proof -
  let ?nr = "m0bs div bsz" and ?q = "cnt div (m0bs div bsz)" and ?r = "cnt mod (m0bs div bsz)"
  have b: "0 < bsz" "0 < m0bs" "bsz dvd m0bs" using assms(1) by (auto simp: bsz_args_ok_def)
  then have nr: "0 < ?nr" "m0bs = ?nr * bsz" by (auto simp: dvd_imp_le div_greater_zero_iff)
  have cnt: "cnt = ?q * ?nr + ?r" "?r < ?nr" using nr(1) by (simp_all only: div_mult_mod_eq mod_less_divisor)
  have len: "length buf = (?q * ?nr + ?r) * bsz" using assms(2) cnt(1) by (simp add: mult.commute)
  have "Suc ?q * ?nr * bsz \<le> length buf + m0bs" unfolding len using nr(2) by (simp add: algebra_simps)
  then have "off + Suc ?q * ?nr * bsz < W64" using assms(4) by linarith
  then show thesis using that [of ?nr ?q ?r] b(1) nr cnt len assms(3) by simp
qed

lemma c0appz_mw_written:
  assumes ok: "m0_client_ok m content" "m0_frees_ok m content"
    and len: "bsz * cnt = length buf" and small: "m0bs div bsz < 2 ^ 32" "off + length buf + m0bs < W64"
  shows "case c0appz_mw m buf k off bsz cnt m0bs st of Inl e \<Rightarrow> bad_free m e
    | Inr (ret, st') \<Rightarrow> pwrite_post (content (snd st)) (content (snd st')) k (buf @ overrun m0bs (fresh_segs m bsz (m0bs div bsz) (snd st)) buf) off (ret = 0)"
proof (cases "bsz_args_ok bsz m0bs")
  case False
  then show ?thesis by (simp add: c0appz_mw_def pwrite_post_none EINVAL_def)
next
  case True
  obtain nr q r where R: "0 < bsz" "0 < nr" "m0bs = nr * bsz" "m0bs div bsz mod 2 ^ 32 = nr" "m0bs div bsz = nr" "cnt = q * nr + r" "r < nr"
      "length buf = (q * nr + r) * bsz" "0 + (q * nr + r) * bsz \<le> length buf" "off + Suc q * nr * bsz < W64"
    by (rule transfer_rounds [OF True len small])
  obtain g s where st: "st = (g, s)" by force
  note A = alloc_segs_ok [OF ok, where bsz = bsz and nr = nr and s = s]
  have run: "c0appz_mw m buf k off bsz cnt m0bs st = bindE (alloc_segs m bsz nr s) (\<lambda>(rc, data, s).
        if rc \<noteq> 0 then Inr (rc, (g, s))
        else let (rc, s) = open_entity m k s in
          bindE (if rc \<noteq> 0 then Inr (rc, Allocated, (g, s)) else returnE (mw_loop m k off bsz cnt nr data buf 0 (g, s)))
            (\<lambda>(rc, v, (g, s)). bindE (free_segs m v v v s) (\<lambda>s. Inr (rc, (g, s)))))"
    using True unfolding c0appz_mw_def st R(4) Let_def by simp
  show ?thesis
  proof (cases "alloc_segs m bsz nr s")
    case (Inl e)
    then show ?thesis using run A by simp
  next
    case (Inr res)
    obtain rca fresh s1 where al: "alloc_segs m bsz nr s = Inr (rca, fresh, s1)" using Inr by (metis prod.exhaust)
    obtain rco s2 where op: "open_entity m k s1 = (rco, s2)" by force
    have s1: "content s1 = content s" and s2: "content s2 = content s" using A al open_entity_neutral [OF ok(1) op] by simp_all
    have fresh: "fresh_segs m bsz (m0bs div bsz) s = fresh" by (simp add: fresh_segs_def R(5) al)
    show ?thesis
    proof (cases "rca = 0 \<and> rco = 0")
      case True
      then have "segs nr bsz fresh" using A al by simp
      have ov: "buf @ overrun m0bs fresh buf = slice 0 ((q * nr + r) * bsz) buf @ (if r = 0 then [] else
          drop (r * bsz) (if q = 0 then concat fresh else slice (0 + (q - 1) * nr * bsz) (nr * bsz) buf))"
        unfolding overrun_rounds [OF R(1,2,8,7), of fresh, folded R(3)] R(8) [symmetric] by (simp add: R(3))
      from mw_loop_written [OF ok R(2,7) \<open>segs nr bsz fresh\<close> R(9,10), of k "(g, s2)"] obtain rc g' s3 where
        L: "mw_loop m k off bsz cnt nr fresh buf 0 (g, s2) = Some (Inr (rc, if rc = 0 then Allocated else Freed, (g', s3)))" "rc \<noteq> 0 \<longrightarrow> m0_can_fail m"
          "pwrite_post (content s2) (content s3) k (buf @ overrun m0bs fresh buf) off (rc = 0)"
        unfolding ov [symmetric] unfolding R(6) [symmetric] by auto
      then show ?thesis
        using freed_after [OF ok(2) L(2), where s = s3] run True al op s2 unfolding st snd_conv fresh by (auto simp: bindE_def split: sum.splits)
    next
      case False
      obtain s3 where "free_segs m Allocated Allocated Allocated s2 = Inr s3" "content s3 = content s2" by (rule free_segs_allocated [OF ok(2)])
      then show ?thesis using False run al op s1 s2 unfolding st snd_conv fresh by (auto simp: pwrite_post_none)
    qed
  qed
qed


section \<open>The backend\<close>

lemma mero_args:
  assumes "m0_client_ok m content" "motr_layouts m" "length buf mod 4096 = 0" "off + length buf + 2 ^ 42 < W64"
  obtains b st1 where "c0appz_m0bs m k (length buf) 0 st = Inr (b, st1)" "content (snd st1) = content (snd st)"
    "4096 * (length buf div 4096) = length buf" "b div 4096 < 2 ^ 32" "off + length buf + b < W64" "ssize_t_of (length buf) \<noteq> - 1"
    "size_t_of (- 1) \<noteq> length buf"
proof -
  obtain b g s' where B: "c0appz_m0bs m k (length buf) 0 st = Inr (b, (g, s'))" "content s' = content (snd st)" "b = 0 \<or> bsz_args_ok 4096 b" "b \<le> 2 ^ 42"
    by (rule m0bs_accepted [OF assms(1,2)])
  have "b div 4096 \<le> 2 ^ 42 div 4096" using B(4) by (rule div_le_mono)
  then show thesis
    using that [of b "(g, s')"] B assms(3,4) ssize_t_of_not_error [OF assms(3)] size_t_of_error [OF assms(3)] by auto
qed

lemma mero_pwrite_exact:
  assumes ok: "m0_client_ok m content" "m0_frees_ok m content" "motr_layouts m"
    and sz: "length buf mod 4096 = 0" "off mod 4096 = 0" and small: "off + length buf + 2 ^ 42 < W64"
  obtains m0bs st1 where "c0appz_m0bs m (hi, lo) (length buf) 0 st = Inr (m0bs, st1)"
    "case mero_pwrite m hi lo buf off st of Inl e \<Rightarrow> bad_free m e
     | Inr (r, st') \<Rightarrow> pwrite_post (content (snd st)) (content (snd st')) (hi, lo)
         (buf @ overrun m0bs (fresh_segs m 4096 (m0bs div 4096) (snd st1)) buf) off (r = ssize_t_of (length buf))"
proof -
  obtain b st1 where B: "c0appz_m0bs m (hi, lo) (length buf) 0 st = Inr (b, st1)" "content (snd st1) = content (snd st)"
      "4096 * (length buf div 4096) = length buf" "b div 4096 < 2 ^ 32" "off + length buf + b < W64" "ssize_t_of (length buf) \<noteq> - 1"
      "size_t_of (- 1) \<noteq> length buf"
    by (rule mero_args [OF ok(1,3) sz(1) small])
  note W = c0appz_mw_written [OF ok(1,2) B(3-5), where k = "(hi, lo)" and st = st1]
  have "mero_pwrite m hi lo buf off st = bindE (c0appz_mw m buf (hi, lo) off 4096 (length buf div 4096) b st1)
      (\<lambda>(ret, st). Inr (if ret = 0 then ssize_t_of (length buf) else - 1, st))"
    using sz unfolding mero_pwrite_def Let_def by (simp add: B(1))
  moreover have "(if ret = 0 then ssize_t_of (length buf) else - 1) = ssize_t_of (length buf) \<longleftrightarrow> ret = 0" for ret :: int using B(6) by auto
  ultimately show thesis using that [OF B(1)] W B(2) by (simp add: bindE_def split: sum.splits prod.splits)
qed



text \<open>A store in a table, whose layout has units of \<open>u\<close> bytes and whose calls fail to free a vector that is not allocated.\<close>

definition table_motr :: "size_t \<Rightarrow> table motr_client" where
  "table_motr u = \<lparr>m0_bufvec_alloc = (\<lambda>n sz t. (0, replicate n (replicate sz 0), t)), m0_indexvec_alloc = (\<lambda>n t. (0, t)),
     m0_entity_open = (\<lambda>k t. ((0, 0), t)), m0_entity_create = (\<lambda>p k l t. (0, t)), m0_create_op = (\<lambda>k t. ((0, 0), t)), m0_obj_op = table_obj_op,
     m0_pool_version_get = (\<lambda>pool. (0, \<lparr>pa_N = 1, pa_K = 0, pa_P = 2\<rparr>)), m0_obj_layout = (\<lambda>k t. 0), m0_client_layout_id = 0,
     m0_layout_find_by_buffsize = (\<lambda>pa n. 0), m0_obj_layout_id_to_unit_size = (\<lambda>lid. u),
     m0_bufvec_free = (\<lambda>v t. if v = Allocated then Inr t else Inl UseAfterFree), m0_indexvec_free = (\<lambda>v t. if v = Allocated then Inr t else Inl UseAfterFree)\<rparr>"

text \<open>The same store with operations that fail.\<close>

definition failing_motr :: "size_t \<Rightarrow> table motr_client" where
  "failing_motr u = (table_motr u)\<lparr>m0_obj_op := (\<lambda>op k es ds t. ((- 5, 0), ds, t))\<rparr>"

definition wit_globals :: motr_globals where
  "wit_globals = \<lparr>mg_pools = replicate 16 0, mg_unit_size = 0, qos_total_weight = 0\<rparr>"

lemma table_motr_ok: "m0_client_ok (table_motr u) (\<lambda>t. t)"
  by (rule table_client_ok [where b = 0 and st = "(0, 0)"]) (simp_all add: table_motr_def)

lemma table_motr_frees: "m0_frees_ok (table_motr u) (\<lambda>t. t)"
  by (simp add: m0_frees_ok_def table_motr_def)

lemma table_motr_layouts: "motr_layouts (table_motr 4096)" "motr_layouts (table_motr 8192)"
  by (simp_all add: motr_layouts_def table_motr_def)

lemma table_m0bs:
  "c0appz_m0bs (table_motr 4096) k 4096 0 (wit_globals, t) = Inr (4096, (wit_globals, t))"
  "c0appz_m0bs (table_motr 8192) k 4096 0 (wit_globals, t) = Inr (8192, (wit_globals, t))"
  by (simp_all add: c0appz_m0bs_def tier2pool_default table_motr_def c0appz_ex_def open_entity_def elvis_def mul64_def W64_def MAX_M0_BUFSZ_def)

lemma table_alloc:
  "alloc_segs (table_motr u) bsz n t = Inr (0, replicate n (replicate bsz 0), t)"
  "alloc_segs (failing_motr u) bsz n t = Inr (0, replicate n (replicate bsz 0), t)"
  by (simp_all add: alloc_segs_def table_motr_def failing_motr_def)

text \<open>Writing one page succeeds.\<close>

lemma table_write_page:
  assumes "u = 4096 \<or> u = 8192"
  shows "\<exists>st'. mero_pwrite (table_motr u) 0 1 (replicate 4096 1) 0 (wit_globals, t) = Inr (4096, st')"
proof -
  let ?m = "table_motr u" and ?buf = "replicate 4096 (1 :: byte)" and ?nr = "u div 4096"
  have nr: "?nr mod 2 ^ 32 = ?nr" "0 < ?nr" using assms by auto
  let ?fresh = "replicate ?nr (replicate 4096 0) :: byte list list"
  have sg: "segs ?nr 4096 ?fresh" by (simp add: segs_def)
  have c: "1 = min 1 ?nr" "0 + 1 * 4096 \<le> length ?buf" "0 + ?nr * 4096 < W64" using assms by (auto simp: W64_def)
  have bv: "bufvecw ?fresh ?buf 0 4096 1 = Inr (blocks_of 4096 1 0 ?buf @ drop 1 ?fresh, 1 * 4096)"
    by (rule bufvecw_eq [OF sg _ c(2)]) (use nr(2) in \<open>simp_all add: W64_def\<close>)
  have m0bs: "c0appz_m0bs ?m (0, 1) 4096 0 (wit_globals, t) = Inr (u, (wit_globals, t))" using table_m0bs assms by auto
  have op: "open_entity ?m (0, 1) t = (0, t)" by (simp add: open_entity_def table_motr_def elvis_def)
  have io: "\<exists>ds s. do_io_op ?m (0, 1) M0_OC_WRITE es data t = (0, ds, s)" for es data
    by (simp add: do_io_op_def table_motr_def table_obj_op_def elvis_def)
  have min: "(if 1 < ?nr then 1 else ?nr) = 1" using nr(2) by simp
  have fr: "free_segs ?m Allocated Allocated Allocated s = Inr s" for s by (simp add: free_segs_def table_motr_def)
  obtain ds s where io: "do_io_op ?m (0, 1) M0_OC_WRITE (run_of 0 4096 ?nr) (blocks_of 4096 1 0 ?buf @ drop 1 ?fresh) t = (0, ds, s)"
    using io by blast
  have "mw_loop ?m (0, 1) 0 4096 1 ?nr ?fresh ?buf 0 (wit_globals, t) = Some (Inr (0, Allocated, (add_weight 1 4096 wit_globals, s)))"
    by (subst mw_loop.simps) (simp only: min bv Let_def length_replicate set_exts_run [OF c(3)] prod.case sum.case io snd_conv fst_conv
        one_neq_zero if_False not_not refl if_True mw_loop_end diff_self_eq_0 simp_thms)
  then have "\<exists>st'. c0appz_mw ?m ?buf (0, 1) 0 4096 1 u (wit_globals, t) = Inr (0, st')"
    using assms unfolding c0appz_mw_def nr(1) Let_def prod.case table_alloc op
    by (auto simp: bsz_args_ok_def PAGE_SIZE_def op fr)
  then show ?thesis unfolding mero_pwrite_def length_replicate Let_def by (auto simp: m0bs ssize_t_of_def simp del: replicate.simps)
qed

text \<open>
  A write whose operation fails frees the vectors in the loop and again behind it: on a store that does not accept a vector twice the
  process stops, and the failure is never reported to the caller.
\<close>

lemma failed_write_frees_twice:
  "mero_pwrite (failing_motr 4096) 0 1 (replicate 4096 1) 0 (wit_globals, t) = Inl UseAfterFree"
proof -
  let ?m = "failing_motr 4096" and ?buf = "replicate 4096 (1 :: byte)" and ?fresh = "replicate 1 (replicate 4096 0) :: byte list list"
  have bv: "bufvecw ?fresh ?buf 0 4096 1 = Inr (blocks_of 4096 1 0 ?buf @ drop 1 ?fresh, 1 * 4096)"
    by (rule bufvecw_eq [where nr = 1]) (simp_all add: segs_def W64_def)
  have m0bs: "c0appz_m0bs ?m (0, 1) 4096 0 (wit_globals, t) = Inr (4096, (wit_globals, t))"
    by (simp add: c0appz_m0bs_def tier2pool_default table_motr_def failing_motr_def c0appz_ex_def open_entity_def elvis_def mul64_def W64_def MAX_M0_BUFSZ_def)
  have op: "open_entity ?m (0, 1) t = (0, t)" by (simp add: open_entity_def table_motr_def failing_motr_def elvis_def)
  have io: "do_io_op ?m (0, 1) M0_OC_WRITE es data t = (- 5, data, t)" for es data by (simp add: do_io_op_def failing_motr_def elvis_def)
  have fr: "free_segs ?m Allocated Allocated Allocated t = Inr t" "free_segs ?m Freed Freed Freed t = Inl UseAfterFree"
    by (simp_all add: free_segs_def table_motr_def failing_motr_def)
  have "mw_loop ?m (0, 1) 0 4096 1 1 ?fresh ?buf 0 (wit_globals, t) = Some (Inr (- 5, Freed, (wit_globals, t)))"
    by (subst mw_loop.simps) (simp add: bv [unfolded One_nat_def] Let_def set_exts_def io fr(1) del: replicate.simps)
  then have "c0appz_mw ?m ?buf (0, 1) 0 4096 1 4096 (wit_globals, t) = Inl UseAfterFree"
    by (simp add: c0appz_mw_def bsz_args_ok_def PAGE_SIZE_def table_alloc op fr del: replicate.simps)
  then show ?thesis unfolding mero_pwrite_def length_replicate Let_def by (simp add: m0bs del: replicate.simps)
qed

section \<open>Properties\<close>



text \<open>C32: a write whose size is not a multiple of the size of the operations overwrites the object after its range: the last
  operation writes the whole vector, so the bytes up to the end of the operation become those of the previous
  operation, or what the vector was allocated with when there is only one.\<close>

theorem motr_write_overruns:
  assumes "m0_client_ok m content" "m0_frees_ok m content" "motr_layouts m" "length buf mod 4096 = 0" "off mod 4096 = 0" "off + length buf + 2 ^ 42 < W64"
    and "c0appz_m0bs m (hi, lo) (length buf) 0 st = Inr (m0bs, st1)" "alloc_segs m 4096 (m0bs div 4096) (snd st1) = Inr (0, fresh, s2)"
    and "mero_pwrite m hi lo buf off st = Inr (ssize_t_of (length buf), st')" "\<not> m0bs dvd length buf"
    and "i < m0bs - length buf mod m0bs"
  shows "content (snd st') (hi, lo) (off + length buf + i) =
    (if length buf < m0bs then concat fresh ! (length buf + i) else buf ! (length buf - m0bs + i))"
proof -
  obtain b st1' where W: "c0appz_m0bs m (hi, lo) (length buf) 0 st = Inr (b, st1')"
      "case mero_pwrite m hi lo buf off st of Inl e \<Rightarrow> bad_free m e
       | Inr (r, st') \<Rightarrow> pwrite_post (content (snd st)) (content (snd st')) (hi, lo)
           (buf @ overrun b (fresh_segs m 4096 (b div 4096) (snd st1')) buf) off (r = ssize_t_of (length buf))"
    by (rule mero_pwrite_exact [OF assms(1-6), where hi = hi and lo = lo and st = st])
  have post: "pwrite_post (content (snd st)) (content (snd st')) (hi, lo) (buf @ overrun m0bs fresh buf) off True"
    using W assms(7-9) by (simp add: fresh_segs_def)
  let ?r = "length buf mod m0bs"
  have r: "?r \<noteq> 0" using assms(10) by (simp add: dvd_eq_mod_eq_0)
  have m0bs: "0 < m0bs" using assms(11) by simp
  obtain b' g s' where "c0appz_m0bs m (hi, lo) (length buf) 0 st = Inr (b', (g, s'))" "b' = 0 \<or> bsz_args_ok 4096 b'"
    by (rule m0bs_accepted [OF assms(1,3)])
  then have "bsz_args_ok 4096 m0bs" using assms(7) m0bs by simp
  then have page: "m0bs div 4096 * 4096 = m0bs" by (auto simp: bsz_args_ok_def)
  have fresh: "length (concat fresh) = m0bs"
    using alloc_segs_ok [OF assms(1,2), where bsz = 4096 and nr = "m0bs div 4096" and s = "snd st1"] assms(8) length_concat_run [of fresh 4096] page by (simp add: segs_def)
  have ge: "m0bs + ?r \<le> length buf" if "\<not> length buf < m0bs"
  proof -
    have "1 * m0bs \<le> length buf div m0bs * m0bs" using that m0bs by (intro mult_le_mono1) (simp add: Suc_le_eq div_greater_zero_iff)
    then show ?thesis using div_mult_mod_eq [of "length buf" m0bs] by linarith
  qed
  have "length buf - (?r + m0bs) + (?r + i) = length buf + i - m0bs" if "\<not> length buf < m0bs" using ge [OF that] by linarith
  then have "overrun m0bs fresh buf ! i = (if length buf < m0bs then concat fresh ! (length buf + i) else buf ! (length buf - m0bs + i))"
    using r fresh assms(11) ge by (simp add: overrun_def Let_def)
  moreover have "i < length (overrun m0bs fresh buf)" using r fresh assms(11) ge by (cases "length buf < m0bs") (simp_all add: overrun_def Let_def)
  ultimately show ?thesis using pwrite_postD(2) [OF post, of "length buf + i"] by (simp add: nth_append add.assoc)
qed

theorem motr_write_overruns_witness:
  "\<exists>st'. mero_pwrite (table_motr 8192) 0 1 (replicate 4096 1) 0 (wit_globals, \<lambda>k x. 7) = Inr (4096, st') \<and> snd st' (0, 1) 4100 = 0"
proof -
  let ?buf = "replicate 4096 (1 :: byte)" and ?st = "(wit_globals, \<lambda>k x. 7)"
  have sz: "length ?buf mod 4096 = 0" "(0 :: nat) mod 4096 = 0" "0 + length ?buf + 2 ^ 42 < W64" by (simp_all add: W64_def)
  obtain st' where st': "mero_pwrite (table_motr 8192) 0 1 ?buf 0 ?st = Inr (4096, st')" using table_write_page by blast
  then have run: "mero_pwrite (table_motr 8192) 0 1 ?buf 0 ?st = Inr (ssize_t_of (length ?buf), st')" by (simp add: ssize_t_of_def)
  have bs: "c0appz_m0bs (table_motr 8192) (0, 1) (length ?buf) 0 ?st = Inr (8192, ?st)" using table_m0bs(2) by simp
  have i: "\<not> 8192 dvd length ?buf" "4 < 8192 - length ?buf mod 8192" by (simp_all add: dvd_eq_mod_eq_0)
  have cf: "concat (replicate n (replicate k x)) = replicate (n * k) x" for n k and x :: byte
    by (induction n) (simp_all add: replicate_add)
  have "snd st' (0, 1) (0 + length ?buf + 4) = concat (replicate (8192 div 4096) (replicate 4096 0)) ! (length ?buf + 4)"
    using motr_write_overruns [OF table_motr_ok table_motr_frees table_motr_layouts(2) sz bs table_alloc(1) run i] by simp
  then show ?thesis using st' unfolding cf by simp
qed

end
