(* ===== verification/Storage_Clovis.thy ===== *)
theory Storage_Clovis
  imports M0_Client
begin

text \<open>
  The Mero backend in its Clovis branch (src/server/backends/StorageBackendMero.cpp, \<open>HAVE_MERO\<close>) and the part of the
  sample library that it calls (extern-deps/from-clovis-sample-apps/clovis_api.c).  A transfer is cut into
  data units, and the units are sent in groups of at most 50; the vectors that the code fills for a group are lists of
  extents and of unit buffers.
\<close>

section \<open>The library\<close>

record 's clovis_client = "'s m0_client" +
  m0_clovis_layout_id :: nat
  m0_clovis_obj_layout_id_to_unit_size :: "nat \<Rightarrow> size_t"

abbreviation unit_size :: "('s, 'z) clovis_client_scheme \<Rightarrow> size_t" where
  "unit_size cl \<equiv> m0_clovis_obj_layout_id_to_unit_size cl (m0_clovis_layout_id cl)"

text \<open>Opening an entity returns the status of the operation; the status of the wait is not looked at.\<close>

definition clovis_open_entity :: "('s, 'z) clovis_client_scheme \<Rightarrow> m0_id \<Rightarrow> 's \<Rightarrow> int \<times> 's" where
  "clovis_open_entity cl k s = (let ((w, r), s) = m0_entity_open cl k s in (r, s))"

definition clovis_create_object :: "('s, 'z) clovis_client_scheme \<Rightarrow> m0_id \<Rightarrow> 's \<Rightarrow> int \<times> 's" where
  "clovis_create_object cl k s =
     (let (rc, s) = clovis_open_entity cl k s in
      if \<not> rc < 0 then (1, s)
      else let (rc, s) = m0_entity_create cl None k (m0_clovis_layout_id cl) s in
      if rc < 0 then (2, s)
      else let ((w, r), s) = m0_create_op cl k s in (0, s))"

definition read_data_from_object ::
  "('s, 'z) clovis_client_scheme \<Rightarrow> m0_id \<Rightarrow> extent list \<Rightarrow> byte list list \<Rightarrow> 's \<Rightarrow> int \<times> byte list list \<times> 's" where
  "read_data_from_object cl k ext data s =
     (let (rc, s) = clovis_open_entity cl k s; ((w, r), data, s) = m0_obj_op cl M0_OC_READ k ext data s in (elvis w r, data, s))"

text \<open>The status of a write is that of the wait.\<close>

definition write_data_to_object ::
  "('s, 'z) clovis_client_scheme \<Rightarrow> m0_id \<Rightarrow> extent list \<Rightarrow> byte list list \<Rightarrow> 's \<Rightarrow> int \<times> 's" where
  "write_data_to_object cl k ext data s =
     (let (rc, s) = clovis_open_entity cl k s; ((w, r), data, s) = m0_obj_op cl M0_OC_WRITE k ext data s in (w, s))"

section \<open>Operations\<close>

definition CLOVIS_MAX_DATA_UNIT_PER_OPS :: nat where "CLOVIS_MAX_DATA_UNIT_PER_OPS = 50"

text \<open>The size of the units and their number.\<close>

definition clovis_units :: "('s, 'z) clovis_client_scheme \<Rightarrow> size_t \<Rightarrow> (size_t \<times> int) result" where
  "clovis_units cl n =
     bindE (assertE (0 < unit_size cl) ''data_units_size > 0'') (\<lambda>_.
     if unit_size cl > n then Inr (n, 1)
     else bindE (assertE (n mod unit_size cl = 0) ''We don't handle the case where the IO size is not a multiple of the data units'') (\<lambda>_.
          Inr (unit_size cl, to_int32 (int (n div unit_size cl)))))"

text \<open>The loop that fills the extents; the position is an \<open>int\<close>.\<close>

fun extents :: "nat \<Rightarrow> size_t \<Rightarrow> int \<Rightarrow> (nat \<times> size_t) list \<times> int" where
  "extents 0 u last_index = ([], last_index)"
| "extents (Suc n) u last_index =
     (let (es, l) = extents n u (to_int32 (last_index + int u)) in ((size_t_of last_index, u) # es, l))"

text \<open>The copies between the buffer and the units, \<open>base\<close> units into the buffer.\<close>

fun gather :: "nat list \<Rightarrow> nat \<Rightarrow> size_t \<Rightarrow> byte list \<Rightarrow> byte list list result" where
  "gather [] base u buf = Inr []"
| "gather (i # is) base u buf =
     (if (i + base) * u + u \<le> length buf
      then bindE (gather is base u buf) (\<lambda>ds. Inr (slice ((i + base) * u) u buf # ds))
      else Inl OutOfBounds)"

fun scatter :: "nat list \<Rightarrow> byte list list \<Rightarrow> nat \<Rightarrow> size_t \<Rightarrow> byte list \<Rightarrow> byte list result" where
  "scatter [] ds base u buf = Inr buf"
| "scatter (i # is) ds base u buf =
     (if i < length ds \<and> length (ds ! i) = u \<and> (i + base) * u + u \<le> length buf
      then scatter is ds base u (patch ((i + base) * u) (ds ! i) buf)
      else Inl OutOfBounds)"

text \<open>
  The vectors of a group.  The statuses of the allocations are not looked at, so after a failed one the code
  works on vectors without storage.
\<close>

definition clovis_vectors :: "('s, 'z) clovis_client_scheme \<Rightarrow> nat \<Rightarrow> size_t \<Rightarrow> 's \<Rightarrow> (byte list list \<times> 's) result" where
  "clovis_vectors cl n u s =
     (let (rc1, data, s) = m0_bufvec_alloc cl n u s; (rc2, attr, s) = m0_bufvec_alloc cl n 1 s; (rc3, s) = m0_indexvec_alloc cl n s
      in if rc1 \<noteq> 0 \<or> rc2 \<noteq> 0 \<or> rc3 \<noteq> 0 then Inl NullDereference else Inr (data, s))"

definition group_size :: "int \<Rightarrow> nat" where
  "group_size blocks = nat (if blocks > int CLOVIS_MAX_DATA_UNIT_PER_OPS then int CLOVIS_MAX_DATA_UNIT_PER_OPS else blocks)"

function clovis_read_loop ::
  "('s, 'z) clovis_client_scheme \<Rightarrow> int \<Rightarrow> int \<Rightarrow> size_t \<Rightarrow> int \<Rightarrow> nat \<Rightarrow> int \<Rightarrow> byte list \<Rightarrow> 's \<Rightarrow> (int \<times> byte list \<times> 's) result" where
  "clovis_read_loop cl high low u blocks j last_index buf s =
     (if blocks > 0 then
        let block_size = group_size blocks in
        bindE (clovis_vectors cl block_size u s) (\<lambda>(data, s).
        let (ext, last_index) = extents block_size u last_index;
            (ret, ds, s) = read_data_from_object cl (high, low) ext data s
        in if ret \<noteq> 0 then Inr (ret, buf, s)
           else bindE (scatter [0..<block_size] ds (j * block_size) u buf) (\<lambda>buf.
                clovis_read_loop cl high low u (blocks - int block_size) (Suc j) last_index buf s))
      else Inr (0, buf, s))"
  by pat_completeness auto
termination
  by (relation "measure (\<lambda>(cl, high, low, u, blocks, j, l, buf, s). nat blocks)") (auto simp: group_size_def CLOVIS_MAX_DATA_UNIT_PER_OPS_def)

function clovis_write_loop ::
  "('s, 'z) clovis_client_scheme \<Rightarrow> int \<Rightarrow> int \<Rightarrow> size_t \<Rightarrow> int \<Rightarrow> nat \<Rightarrow> int \<Rightarrow> byte list \<Rightarrow> 's \<Rightarrow> (int \<times> 's) result" where
  "clovis_write_loop cl high low u blocks j last_index buf s =
     (if blocks > 0 then
        let block_size = group_size blocks in
        bindE (clovis_vectors cl block_size u s) (\<lambda>(data, s).
        let (ext, last_index) = extents block_size u last_index in
        bindE (gather [0..<block_size] (j * block_size) u buf) (\<lambda>ds.
        let (ret, s) = write_data_to_object cl (high, low) ext ds s
        in if ret \<noteq> 0 then Inr (ret, s)
           else clovis_write_loop cl high low u (blocks - int block_size) (Suc j) last_index buf s))
      else Inr (0, s))"
  by pat_completeness auto
termination
  by (relation "measure (\<lambda>(cl, high, low, u, blocks, j, l, buf, s). nat blocks)") (auto simp: group_size_def CLOVIS_MAX_DATA_UNIT_PER_OPS_def)

declare clovis_read_loop.simps [simp del] clovis_write_loop.simps [simp del]

definition clovis_pread :: "('s, 'z) clovis_client_scheme \<Rightarrow> int \<Rightarrow> int \<Rightarrow> byte list \<Rightarrow> size_t \<Rightarrow> 's \<Rightarrow> (int \<times> byte list \<times> 's) result" where
  "clovis_pread cl high low buf offset s =
     bindE (clovis_units cl (length buf)) (\<lambda>(u, blocks).
     bindE (clovis_read_loop cl high low u blocks 0 (to_int32 (int offset)) buf s) (\<lambda>(ret, buf, s).
     Inr (if ret = 0 then ssize_t_of (length buf) else - 1, buf, s)))"

definition clovis_pwrite :: "('s, 'z) clovis_client_scheme \<Rightarrow> int \<Rightarrow> int \<Rightarrow> byte list \<Rightarrow> size_t \<Rightarrow> 's \<Rightarrow> (int \<times> 's) result" where
  "clovis_pwrite cl high low buf offset s =
     bindE (clovis_units cl (length buf)) (\<lambda>(u, blocks).
     bindE (clovis_write_loop cl high low u blocks 0 (to_int32 (int offset)) buf s) (\<lambda>(ret, s).
     Inr (if ret = 0 then ssize_t_of (length buf) else - 1, s)))"

definition clovis_create :: "('s, 'z) clovis_client_scheme \<Rightarrow> int \<Rightarrow> int \<Rightarrow> 's \<Rightarrow> (int \<times> 's) result" where
  "clovis_create cl high low s = Inr (clovis_create_object cl (high, low) s)"

section \<open>Groups\<close>

text \<open>The memory suffices, and a write that was waited for has not failed.\<close>

definition m0_memory :: "('s, 'z) m0_client_scheme \<Rightarrow> bool" where
  "m0_memory m \<longleftrightarrow> (\<forall>n sz s. fst (m0_bufvec_alloc m n sz s) = 0) \<and> (\<forall>n s. fst (m0_indexvec_alloc m n s) = 0)"

definition writes_stable :: "('s, 'z) m0_client_scheme \<Rightarrow> bool" where
  "writes_stable m \<longleftrightarrow> (\<forall>k es ds s w r ds' s'. m0_obj_op m M0_OC_WRITE k es ds s = ((w, r), ds', s') \<longrightarrow> w = 0 \<longrightarrow> r = 0)"

lemma clovis_vectors_ok:
  assumes "m0_client_ok cl content" "m0_memory cl"
  obtains data s' where "clovis_vectors cl n u s = Inr (data, s')" "content s' = content s" "length data = n" "\<forall>d \<in> set data. length d = u"
proof -
  obtain rc1 d1 s1 where a: "m0_bufvec_alloc cl n u s = (rc1, d1, s1)" by (metis prod.exhaust)
  obtain rc2 d2 s2 where b: "m0_bufvec_alloc cl n 1 s1 = (rc2, d2, s2)" by (metis prod.exhaust)
  obtain rc3 s3 where c: "m0_indexvec_alloc cl n s2 = (rc3, s3)" by force
  have rc: "rc1 = 0" "rc2 = 0" "rc3 = 0" using assms(2) a b c unfolding m0_memory_def by (metis fst_conv)+
  have "clovis_vectors cl n u s = Inr (d1, s3)" unfolding clovis_vectors_def a Let_def prod.case b c using rc by simp
  moreover have "content s3 = content s" using m0_allocD(1) [OF assms(1) a] m0_allocD(1) [OF assms(1) b] m0_neutralD(1) [OF assms(1) c] by simp
  ultimately show thesis using that m0_allocD(2,3) [OF assms(1) a] rc(1) by simp
qed

lemma clovis_open_neutral: "m0_client_ok cl content \<Longrightarrow> clovis_open_entity cl k s = (rc, s') \<Longrightarrow> content s' = content s"
  by (auto simp: clovis_open_entity_def dest: m0_neutralD(2) split: prod.splits)

lemma extents_eq:
  "x + n * u < 2 ^ 31 \<Longrightarrow> extents n u (int x) = (map (\<lambda>i. (x + i * u, u)) [0..<n], int (x + n * u))"
proof (induction n arbitrary: x)
  case (Suc n)
  have "to_int32 (int x + int u) = int (x + u)" using Suc.prems by simp
  moreover have "extents n u (int (x + u)) = (map (\<lambda>i. (x + u + i * u, u)) [0..<n], int (x + u + n * u))"
    by (rule Suc.IH) (use Suc.prems in \<open>simp add: algebra_simps\<close>)
  moreover have "map (\<lambda>i. (x + i * u, u)) [0..<Suc n] = (x, u) # map (\<lambda>i. (x + u + i * u, u)) [0..<n]"
    by (simp add: map_upt_Suc add.assoc del: upt_Suc)
  ultimately show ?case using Suc.prems size_t_of_small [of x] by (simp add: add.assoc del: upt_Suc)
qed simp

lemma gather_eq: "\<forall>i \<in> set is. (i + base) * u + u \<le> length buf \<Longrightarrow> gather is base u buf = Inr (map (\<lambda>i. slice ((i + base) * u) u buf) is)"
  by (induction "is") auto

section \<open>Writing\<close>

lemma write_loop_end [simp]: "clovis_write_loop cl hi lo u 0 j l buf s = Inr (0, s)"
  by (simp add: clovis_write_loop.simps)

text \<open>One group of \<open>n\<close> units, at position \<open>y\<close> of the object.\<close>

lemma write_loop_group:
  assumes ok: "m0_client_ok cl content" "m0_memory cl"
    and m: "0 < m" "n = group_size (int m)" "(n + j * n) * u \<le> length buf" "y + n * u < 2 ^ 31"
  obtains ret s' where "pwrite_post (content s) (content s') (hi, lo) (slice (j * n * u) (n * u) buf) y (ret = 0 \<and> writes_stable cl)"
    "clovis_write_loop cl hi lo u (int m) j (int y) buf s =
     (if ret \<noteq> 0 then Inr (ret, s') else clovis_write_loop cl hi lo u (int m - int n) (Suc j) (int (y + n * u)) buf s')"
proof -
  let ?ds = "blocks_of u n (j * n * u) buf"
  have fit: "j * n * u + n * u \<le> length buf" using m(3) by (simp add: algebra_simps)
  have "(i + j * n) * u + u \<le> length buf" if "i < n" for i
    using mult_le_mono1 [of "Suc (i + j * n)" "n + j * n" u] that m(3) by simp
  then have "gather [0..<n] (j * n) u buf = Inr (map (\<lambda>i. slice ((i + j * n) * u) u buf) [0..<n])" by (intro gather_eq) simp
  also have "map (\<lambda>i. slice ((i + j * n) * u) u buf) [0..<n] = ?ds" by (simp add: algebra_simps)
  finally have g: "gather [0..<n] (j * n) u buf = Inr ?ds" .
  obtain data s0 where v: "clovis_vectors cl n u s = Inr (data, s0)" "content s0 = content s"
    by (rule clovis_vectors_ok [OF ok, of n u s])
  obtain rc s1 where o1: "clovis_open_entity cl (hi, lo) s0 = (rc, s1)" by force
  obtain w r ds' s2 where op: "m0_obj_op cl M0_OC_WRITE (hi, lo) (run_of y u n) ?ds s1 = ((w, r), ds', s2)" by (metis prod.exhaust)
  have wr: "write_data_to_object cl (hi, lo) (run_of y u n) ?ds s0 = (w, s2)"
    unfolding write_data_to_object_def o1 Let_def prod.case op ..
  have "pwrite_post (content s1) (content s2) (hi, lo) (concat ?ds) y ((w, r) = (0, 0))"
    by (rule run_written(2) [OF ok(1) _ _ op]) (use length_blocks [OF fit] in auto)
  then have "pwrite_post (content s) (content s2) (hi, lo) (slice (j * n * u) (n * u) buf) y ((w, r) = (0, 0))"
    using concat_blocks [OF fit] clovis_open_neutral [OF ok(1) o1] v(2) by simp
  moreover have "r = 0" if "w = 0" "writes_stable cl" using op that unfolding writes_stable_def by blast
  ultimately have "pwrite_post (content s) (content s2) (hi, lo) (slice (j * n * u) (n * u) buf) y (w = 0 \<and> writes_stable cl)"
    by (elim pwrite_post_weaken) simp
  moreover have "clovis_write_loop cl hi lo u (int m) j (int y) buf s =
     (if w \<noteq> 0 then Inr (w, s2) else clovis_write_loop cl hi lo u (int m - int n) (Suc j) (int (y + n * u)) buf s2)"
    using m(1) by (subst clovis_write_loop.simps) (simp add: m(2) [symmetric] v(1) extents_eq [OF m(4)] g wr del: of_nat_add of_nat_mult)
  ultimately show thesis using that by blast
qed

lemma group_size_eq: "m \<le> 50 \<Longrightarrow> group_size (int m) = m" "50 \<le> m \<Longrightarrow> group_size (int m) = 50"
  by (auto simp: group_size_def CLOVIS_MAX_DATA_UNIT_PER_OPS_def)

text \<open>Full groups from group \<open>j\<close> on.\<close>

lemma write_loop_full:
  assumes ok: "m0_client_ok cl content" "m0_memory cl"
  shows "(j * 50 + k * 50) * u = length buf \<Longrightarrow> x + length buf < 2 ^ 31 \<Longrightarrow>
    \<exists>ret s'. clovis_write_loop cl hi lo u (int (k * 50)) j (int (x + j * 50 * u)) buf s = Inr (ret, s') \<and>
      pwrite_post (content s) (content s') (hi, lo) (drop (j * 50 * u) buf) (x + j * 50 * u) (ret = 0 \<and> writes_stable cl)"
proof (induction k arbitrary: j s)
  case 0
  then show ?case by (auto simp: pwrite_post_def)
next
  case (Suc k)
  let ?y = "x + j * 50 * u"
  have n: "50 = group_size (int (Suc k * 50))" by (rule group_size_eq(2) [symmetric]) simp
  have fit: "(50 + j * 50) * u \<le> length buf" unfolding Suc.prems(1) [symmetric] by (intro mult_le_mono1) simp
  then have y: "?y + 50 * u < 2 ^ 31" using Suc.prems(2) by (simp add: algebra_simps)
  obtain ret s' where post: "pwrite_post (content s) (content s') (hi, lo) (slice (j * 50 * u) (50 * u) buf) ?y (ret = 0 \<and> writes_stable cl)"
    and loop: "clovis_write_loop cl hi lo u (int (Suc k * 50)) j (int ?y) buf s =
      (if ret \<noteq> 0 then Inr (ret, s') else clovis_write_loop cl hi lo u (int (k * 50)) (Suc j) (int (x + Suc j * 50 * u)) buf s')"
  proof -
    have e: "int (Suc k * 50) - int 50 = int (k * 50)" "?y + 50 * u = x + Suc j * 50 * u" by (simp_all add: algebra_simps)
    have "0 < Suc k * 50" by simp
    then show thesis by (rule write_loop_group [OF ok _ n fit y, of s hi lo, unfolded e]) (rule that)
  qed
  have cut: "drop (j * 50 * u) buf = slice (j * 50 * u) (50 * u) buf @ drop (Suc j * 50 * u) buf"
    using append_take_drop_id [of "50 * u" "drop (j * 50 * u) buf"] by (simp add: slice_def algebra_simps)
  have len: "length (slice (j * 50 * u) (50 * u) buf) = 50 * u" using fit by (simp add: algebra_simps)
  show ?case
  proof (cases "ret = 0")
    case True
    have "(Suc j * 50 + k * 50) * u = length buf" using Suc.prems(1) by (simp add: algebra_simps)
    from Suc.IH [OF this Suc.prems(2), of s'] obtain ret' s'' where
      R: "clovis_write_loop cl hi lo u (int (k * 50)) (Suc j) (int (x + Suc j * 50 * u)) buf s' = Inr (ret', s'')"
        "pwrite_post (content s') (content s'') (hi, lo) (drop (Suc j * 50 * u) buf) (x + Suc j * 50 * u) (ret' = 0 \<and> writes_stable cl)"
      by blast
    have "pwrite_post (content s) (content s'') (hi, lo) (drop (j * 50 * u) buf) ?y (ret' = 0 \<and> writes_stable cl)"
      unfolding cut by (rule pwrite_post_append') (use post True R(2) len in \<open>simp_all add: algebra_simps\<close>)
    then show ?thesis using loop True R(1) by auto
  next
    case False
    then show ?thesis using loop pwrite_post_prefix [OF post, of "drop (Suc j * 50 * u) buf"] unfolding cut by auto
  qed
qed

text \<open>The units of a transfer that the code accepts.\<close>

lemma clovis_units_eq:
  assumes "0 < unit_size cl" "n < unit_size cl \<or> unit_size cl dvd n" "n < 2 ^ 31"
  obtains u m where "clovis_units cl n = Inr (u, int m)" "m * u = n" "m = (if n < unit_size cl then 1 else n div unit_size cl)"
proof (cases "n < unit_size cl")
  case True
  then show ?thesis using that [of n 1] assms(1) by (simp add: clovis_units_def)
next
  case False
  have "n div unit_size cl < 2 ^ 31" using assms(3) le_less_trans [OF div_le_dividend] by blast
  then have "to_int32 (int (n div unit_size cl)) = int (n div unit_size cl)" by (intro to_int32_small) simp_all
  then show ?thesis using that [of "unit_size cl" "n div unit_size cl"] False assms(1,2) by (simp add: clovis_units_def)
qed

text \<open>The transfers whose groups have the same size: at most 50 units, or a multiple of 50.\<close>

lemma clovis_groups:
  assumes "0 < unit_size cl" "n < unit_size cl \<or> unit_size cl dvd n" "n < 2 ^ 31" "n \<le> 50 * unit_size cl \<or> 50 * unit_size cl dvd n"
  obtains u m where "clovis_units cl n = Inr (u, int m)" "m * u = n" "(\<exists>k. m = k * 50) \<or> 0 < m \<and> m \<le> 50"
proof (rule clovis_units_eq [OF assms(1-3)])
  fix u m assume U: "clovis_units cl n = Inr (u, int m)" "m * u = n" "m = (if n < unit_size cl then 1 else n div unit_size cl)"
  have "(\<exists>k. m = k * 50) \<or> 0 < m \<and> m \<le> 50"
  proof (cases "n \<le> 50 * unit_size cl")
    case True
    then have "n div unit_size cl \<le> 50" using div_le_mono [OF True, of "unit_size cl"] assms(1) by simp
    then show ?thesis using U(3) by (cases "m = 0") auto
  next
    case False
    then obtain k where k: "n = 50 * unit_size cl * k" using assms(4) by (auto simp: dvd_def)
    then have "n div unit_size cl = k * 50" using assms(1) by (simp add: mult.assoc mult.left_commute)
    then show ?thesis using False U(3) by auto
  qed
  then show thesis using that U by blast
qed

lemma clovis_write:
  assumes ok: "m0_client_ok cl content" "m0_memory cl" and small: "off + length buf < 2 ^ 31"
    and U: "clovis_units cl (length buf) = Inr (u, int m)" "m * u = length buf" "(\<exists>k. m = k * 50) \<or> 0 < m \<and> m \<le> 50"
  shows "\<exists>st s'. clovis_pwrite cl hi lo buf off s = Inr (st, s') \<and>
    pwrite_post (content s) (content s') (hi, lo) buf off (st = ssize_t_of (length buf) \<and> writes_stable cl)"
proof -
  have "\<exists>ret s'. clovis_write_loop cl hi lo u (int m) 0 (int off) buf s = Inr (ret, s') \<and>
      pwrite_post (content s) (content s') (hi, lo) buf off (ret = 0 \<and> writes_stable cl)"
    using U(3)
  proof
    assume "\<exists>k. m = k * 50"
    then obtain k where "m = k * 50" ..
    then show ?thesis using write_loop_full [OF ok, of 0 k u buf off hi lo s] U(2) small by simp
  next
    assume m: "0 < m \<and> m \<le> 50"
    have fit: "(m + 0 * m) * u \<le> length buf" "off + m * u < 2 ^ 31" using U(2) small by simp_all
    obtain ret s' where "pwrite_post (content s) (content s') (hi, lo) (slice (0 * m * u) (m * u) buf) off (ret = 0 \<and> writes_stable cl)"
        "clovis_write_loop cl hi lo u (int m) 0 (int off) buf s =
         (if ret \<noteq> 0 then Inr (ret, s') else clovis_write_loop cl hi lo u (int m - int m) (Suc 0) (int (off + m * u)) buf s')"
      by (rule write_loop_group [OF ok conjunct1 [OF m] group_size_eq(1) [OF conjunct2 [OF m], symmetric] fit, of s hi lo])
    then show ?thesis using U(2) by auto
  qed
  moreover have "ssize_t_of (length buf) \<noteq> - 1" using small by (simp add: ssize_t_of_def)
  moreover have "to_int32 (int off) = int off" using small by (intro to_int32_small) simp_all
  ultimately show ?thesis using U(1) by (auto simp: clovis_pwrite_def)
qed

text \<open>
  With a last group that is shorter than the others the position in the buffer is computed from the size of that group: the
  end of the range gets bytes from the middle of the buffer, although the size is returned.
\<close>

lemma clovis_write_misplaced:
  assumes ok: "m0_client_ok cl content" "m0_memory cl" "writes_stable cl" and u: "0 < unit_size cl" and r: "0 < r" "r < 50" "length buf = (50 + r) * unit_size cl"
    and small: "off + length buf < 2 ^ 31" and run: "clovis_pwrite cl hi lo buf off s = Inr (ssize_t_of (length buf), s')" and i: "i < r * unit_size cl"
  shows "content s' (hi, lo) (off + 50 * unit_size cl + i) = buf ! (r * unit_size cl + i)"
proof -
  let ?u = "unit_size cl" and ?y = "off + 50 * unit_size cl"
  have units: "clovis_units cl (length buf) = Inr (?u, int (50 + r))" using r u by (simp add: clovis_units_def)
  have "ssize_t_of (length buf) \<noteq> - 1" using small by (simp add: ssize_t_of_def)
  then have loop: "clovis_write_loop cl hi lo ?u (int (50 + r)) 0 (int off) buf s = Inr (0, s')"
    using run units small by (auto simp: clovis_pwrite_def elim!: bindE_InrE split: if_splits)
  have n1: "50 = group_size (int (50 + r))" by (rule group_size_eq(2) [symmetric]) simp
  have n2: "r = group_size (int r)" by (rule group_size_eq(1) [symmetric]) (use r(2) in simp)
  have fit: "(50 + 0 * 50) * ?u \<le> length buf" "off + 50 * ?u < 2 ^ 31" "(r + 1 * r) * ?u \<le> length buf" "?y + r * ?u < 2 ^ 31" "0 < 50 + r"
    using r small by (simp_all add: algebra_simps)
  obtain ret1 s1 where "clovis_write_loop cl hi lo ?u (int (50 + r)) 0 (int off) buf s =
      (if ret1 \<noteq> 0 then Inr (ret1, s1) else clovis_write_loop cl hi lo ?u (int (50 + r) - int 50) (Suc 0) (int ?y) buf s1)"
    by (rule write_loop_group [OF ok(1,2) fit(5) n1 fit(1,2), of s hi lo])
  then have loop2: "clovis_write_loop cl hi lo ?u (int r) 1 (int ?y) buf s1 = Inr (0, s')" using loop by (simp split: if_splits)
  obtain ret2 s2 where G: "pwrite_post (content s1) (content s2) (hi, lo) (slice (1 * r * ?u) (r * ?u) buf) ?y (ret2 = 0 \<and> writes_stable cl)"
      "clovis_write_loop cl hi lo ?u (int r) 1 (int ?y) buf s1 =
       (if ret2 \<noteq> 0 then Inr (ret2, s2) else clovis_write_loop cl hi lo ?u (int r - int r) (Suc 1) (int (?y + r * ?u)) buf s2)"
    by (rule write_loop_group [OF ok(1,2) r(1) n2 fit(3,4), of s1 hi lo])
  have "ret2 = 0" "s2 = s'" using loop2 G(2) by (simp_all split: if_splits)
  then have "pwrite_post (content s1) (content s') (hi, lo) (slice (1 * r * ?u) (r * ?u) buf) ?y True" using G(1) ok(3) by simp
  from pwrite_postD(2) [OF this, of i] show ?thesis using i fit(3) by (simp add: algebra_simps)
qed

section \<open>Reading\<close>

lemma scatter_eq:
  assumes "length buf = a + n * u + b" "length ds = n" "\<forall>d \<in> set ds. length d = u" "a = base * u" "k \<le> n"
  shows "scatter [n - k..<n] ds base u buf = Inr (patch (a + (n - k) * u) (concat (drop (n - k) ds)) buf)"
  using assms
proof (induction k arbitrary: buf)
  case (Suc k)
  let ?i = "n - Suc k" and ?d = "ds ! (n - Suc k)"
  have i: "?i < n" "Suc ?i = n - k" using Suc.prems(5) by simp_all
  have d: "length ?d = u" using Suc.prems(2,3) i(1) by simp
  have "Suc ?i * u \<le> n * u" using i by (intro mult_le_mono1) simp
  then have fit: "(?i + base) * u + u \<le> length buf" using Suc.prems(1,4) by (simp add: algebra_simps)
  have pos: "(?i + base) * u = a + ?i * u" using Suc.prems(4) by (simp add: algebra_simps)
  let ?b = "patch (a + ?i * u) ?d buf"
  have len: "length ?b = a + n * u + b" using Suc.prems(1) fit d pos by simp
  have up: "[?i..<n] = ?i # [n - k..<n]" using i by (simp add: upt_rec)
  have dr: "drop ?i ds = ?d # drop (n - k) ds" using i Suc.prems(2) by (metis Cons_nth_drop_Suc)
  have "scatter [n - k..<n] ds base u ?b = Inr (patch (a + (n - k) * u) (concat (drop (n - k) ds)) ?b)"
    by (rule Suc.IH [OF len Suc.prems(2-4)]) (use Suc.prems(5) in simp)
  moreover have "patch (a + (n - k) * u) (concat (drop (n - k) ds)) ?b = patch (a + ?i * u) (concat (drop ?i ds)) buf"
    using patch_patch [of "a + ?i * u" ?d buf "concat (drop (n - k) ds)"] fit d pos unfolding dr i(2) [symmetric] by (simp add: algebra_simps)
  ultimately show ?case unfolding up using i(1) Suc.prems(2) d fit pos by simp
qed simp

lemma read_loop_end [simp]: "clovis_read_loop cl hi lo u 0 j l buf s = Inr (0, buf, s)"
  by (simp add: clovis_read_loop.simps)

lemma read_loop_group:
  assumes ok: "m0_client_ok cl content" "m0_memory cl" and m: "0 < m" "n = group_size (int m)" "(n + j * n) * u \<le> length buf" "y + n * u < 2 ^ 31"
  shows "\<exists>ret s'. content s' = content s \<and> clovis_read_loop cl hi lo u (int m) j (int y) buf s =
    (if ret \<noteq> 0 then Inr (ret, buf, s')
     else clovis_read_loop cl hi lo u (int m - int n) (Suc j) (int (y + n * u)) (patch (j * n * u) (map (content s (hi, lo)) [y..<y + n * u]) buf) s')"
proof -
  let ?f = "content s (hi, lo)" and ?es = "map (\<lambda>i. (y + i * u, u)) [0..<n]"
  obtain data s0 where v: "clovis_vectors cl n u s = Inr (data, s0)" "content s0 = content s" "length data = n" "\<forall>d \<in> set data. length d = u"
    by (rule clovis_vectors_ok [OF ok, of n u s])
  obtain rc s1 where o1: "clovis_open_entity cl (hi, lo) s0 = (rc, s1)" by force
  have s1: "content s1 = content s" using clovis_open_neutral [OF ok(1) o1] v(2) by simp
  obtain w r ds s2 where op: "m0_obj_op cl M0_OC_READ (hi, lo) ?es data s1 = ((w, r), ds, s2)" by (metis prod.exhaust)
  have rd: "read_data_from_object cl (hi, lo) ?es data s0 = (elvis w r, ds, s2)"
    unfolding read_data_from_object_def o1 Let_def prod.case op ..
  note R = run_read [OF ok(1) v(3,4) op]
  have sc: "scatter [0..<n] ds (j * n) u buf = Inr (patch (j * n * u) (map ?f [y..<y + n * u]) buf)" if "elvis w r = 0"
  proof -
    have ds: "ds = map (\<lambda>i. map ?f [y + i * u..<y + i * u + u]) [0..<n]" using R(4) that s1 by simp
    have "length buf = j * n * u + n * u + (length buf - (j * n * u + n * u))" using m(3) by (simp add: algebra_simps)
    from scatter_eq [OF this _ _ refl order_refl, of ds] show ?thesis using ds units_concat [of ?f y u n] by simp
  qed
  have "clovis_read_loop cl hi lo u (int m) j (int y) buf s =
      (if elvis w r \<noteq> 0 then Inr (elvis w r, buf, s2) else bindE (scatter [0..<n] ds (j * n) u buf) (\<lambda>buf.
         clovis_read_loop cl hi lo u (int m - int n) (Suc j) (int (y + n * u)) buf s2))"
    using m(1) by (subst clovis_read_loop.simps)
      (simp add: m(2) [symmetric] v(1) extents_eq [OF m(4)] rd del: of_nat_add of_nat_mult elvis_eq_0)
  then show ?thesis using R(1) s1 sc by (intro exI [of _ "elvis w r"] exI [of _ s2]) (simp del: elvis_eq_0)
qed

lemma read_loop_full:
  assumes ok: "m0_client_ok cl content" "m0_memory cl"
  shows "(j * 50 + k * 50) * u = length buf \<Longrightarrow> x + length buf < 2 ^ 31 \<Longrightarrow>
    \<exists>ret buf' s'. clovis_read_loop cl hi lo u (int (k * 50)) j (int (x + j * 50 * u)) buf s = Inr (ret, buf', s') \<and> content s' = content s \<and>
      length buf' = length buf \<and> take (j * 50 * u) buf' = take (j * 50 * u) buf \<and>
      (ret = 0 \<longrightarrow> drop (j * 50 * u) buf' = map (content s (hi, lo)) [x + j * 50 * u..<x + length buf])"
proof (induction k arbitrary: j buf s)
  case 0
  then show ?case by auto
next
  case (Suc k)
  let ?p = "j * 50 * u" and ?y = "x + j * 50 * u" and ?f = "content s (hi, lo)"
  let ?buf = "patch ?p (map ?f [?y..<?y + 50 * u]) buf"
  have n: "50 = group_size (int (Suc k * 50))" by (rule group_size_eq(2) [symmetric]) simp
  have fit: "(50 + j * 50) * u \<le> length buf" unfolding Suc.prems(1) [symmetric] by (intro mult_le_mono1) simp
  then have y: "?y + 50 * u < 2 ^ 31" and fit': "?p + 50 * u \<le> length buf" using Suc.prems(2) by (simp_all add: algebra_simps)
  have len: "length ?buf = length buf" using fit' by simp
  obtain ret s1 where G: "content s1 = content s" "clovis_read_loop cl hi lo u (int (Suc k * 50)) j (int ?y) buf s =
      (if ret \<noteq> 0 then Inr (ret, buf, s1) else clovis_read_loop cl hi lo u (int (k * 50)) (Suc j) (int (x + Suc j * 50 * u)) ?buf s1)"
  proof -
    have e: "int (Suc k * 50) - int 50 = int (k * 50)" "?y + 50 * u = x + Suc j * 50 * u" by (simp_all add: algebra_simps)
    show thesis using read_loop_group [OF ok _ n fit y, of s hi lo] that unfolding e by auto
  qed
  show ?case
  proof (cases "ret = 0")
    case True
    have "(Suc j * 50 + k * 50) * u = length ?buf" unfolding len using Suc.prems(1) by (simp add: algebra_simps)
    from Suc.IH [OF this, of s1] obtain ret' buf' s' where
      R: "clovis_read_loop cl hi lo u (int (k * 50)) (Suc j) (int (x + Suc j * 50 * u)) ?buf s1 = Inr (ret', buf', s')" "content s' = content s1"
        "length buf' = length buf" "take (Suc j * 50 * u) buf' = take (Suc j * 50 * u) ?buf"
        "ret' = 0 \<longrightarrow> drop (Suc j * 50 * u) buf' = map ?f [x + Suc j * 50 * u..<x + length buf]"
      using Suc.prems(2) G(1) len by auto
    have e: "Suc j * 50 * u = ?p + 50 * u" by (simp add: algebra_simps)
    have "take ?p buf' = take ?p ?buf" using arg_cong [OF R(4), of "take ?p"] e by simp
    then have t: "take ?p buf' = take ?p buf" using fit' by (simp add: patch_def)
    have "slice ?p (50 * u) buf' = drop ?p (take (Suc j * 50 * u) ?buf)"
      using R(4) e by (simp add: slice_def take_drop add.commute)
    also have "\<dots> = slice ?p (50 * u) ?buf" using e by (simp add: slice_def take_drop add.commute)
    also have "\<dots> = map ?f [?y..<?y + 50 * u]" using fit' by simp
    finally have mid: "slice ?p (50 * u) buf' = map ?f [?y..<?y + 50 * u]" .
    have "drop ?p buf' = slice ?p (50 * u) buf' @ drop (?p + 50 * u) buf'"
      using append_take_drop_id [of "50 * u" "drop ?p buf'"] by (simp add: slice_def add.commute)
    moreover have "[?y..<x + length buf] = [?y..<?y + 50 * u] @ [?y + 50 * u..<x + length buf]" 
      using upt_add_eq_append [of ?y "?y + 50 * u" "length buf - (?p + 50 * u)"] fit' by simp
    ultimately have "ret' = 0 \<longrightarrow> drop ?p buf' = map ?f [?y..<x + length buf]" using R(5) mid e by (simp add: add.assoc)
    then show ?thesis using G True R(1-3) t by simp
  next
    case False
    then show ?thesis using G by simp
  qed
qed

lemma clovis_read:
  assumes ok: "m0_client_ok cl content" "m0_memory cl" and small: "off + length buf < 2 ^ 31"
    and U: "clovis_units cl (length buf) = Inr (u, int m)" "m * u = length buf" "(\<exists>k. m = k * 50) \<or> 0 < m \<and> m \<le> 50"
  shows "\<exists>st buf' s'. clovis_pread cl hi lo buf off s = Inr (st, buf', s') \<and> content s' = content s \<and>
    pread_post (content s (hi, lo)) buf off (st = ssize_t_of (length buf)) buf'"
proof -
  let ?f = "content s (hi, lo)"
  have "\<exists>ret buf' s'. clovis_read_loop cl hi lo u (int m) 0 (int off) buf s = Inr (ret, buf', s') \<and> content s' = content s \<and> pread_post ?f buf off (ret = 0) buf'"
    using U(3)
  proof
    assume "\<exists>k. m = k * 50"
    then obtain k where "m = k * 50" ..
    then show ?thesis using read_loop_full [OF ok, of 0 k u buf off hi lo s] U(2) small by (auto simp: pread_post_def)
  next
    assume m: "0 < m \<and> m \<le> 50"
    obtain ret s1 where G: "content s1 = content s" "clovis_read_loop cl hi lo u (int m) 0 (int off) buf s =
        (if ret \<noteq> 0 then Inr (ret, buf, s1) else clovis_read_loop cl hi lo u (int m - int m) (Suc 0) (int (off + m * u)) (patch (0 * m * u) (map ?f [off..<off + m * u]) buf) s1)"
      using read_loop_group [OF ok _ group_size_eq(1) [symmetric], of m 0 u buf off s hi lo] m U(2) small by auto
    then show ?thesis using U(2) by (cases "ret = 0") (auto simp: pread_post_def patch_def)
  qed
  moreover have "ssize_t_of (length buf) \<noteq> - 1" using small by (simp add: ssize_t_of_def)
  moreover have "to_int32 (int off) = int off" using small by (intro to_int32_small) simp_all
  ultimately show ?thesis using U(1) by (fastforce simp: clovis_pread_def pread_post_def)
qed

section \<open>Creating\<close>

lemma clovis_create_neutral:
  assumes ok: "m0_client_ok cl content"
  shows "\<exists>st s'. clovis_create cl hi lo s = Inr (st, s') \<and> content s' = content s"
proof -
  obtain rc s1 where op: "clovis_open_entity cl (hi, lo) s = (rc, s1)" by force
  obtain rcc s2 where cr: "m0_entity_create cl None (hi, lo) (m0_clovis_layout_id cl) s1 = (rcc, s2)" by force
  obtain w r s3 where co: "m0_create_op cl (hi, lo) s2 = ((w, r), s3)" by (metis prod.exhaust)
  have "content s1 = content s" "content s2 = content s" "content s3 = content s"
    using clovis_open_neutral [OF ok op] m0_neutralD(3) [OF ok cr] m0_neutralD(4) [OF ok co] by simp_all
  moreover have "clovis_create cl hi lo s = Inr (if \<not> rc < 0 then (1, s1) else if rcc < 0 then (2, s2) else (0, s3))"
    unfolding clovis_create_def clovis_create_object_def Let_def op prod.case cr co ..
  ultimately show ?thesis by simp
qed

section \<open>Properties\<close>

text \<open>C31: the Clovis branch of the Mero backend returns and fulfils the contract of the storage for a transfer that ends before
  2 GB of the object and is cut into groups of the same size (at most 50 units, or a multiple of 50): a write changes
  nothing outside its range and, when it returns the size and no operation that was waited for has failed, has stored the
  buffer; a read changes nothing and, when it returns the size, has filled the buffer with the stored bytes; creating an
  object changes no stored byte.\<close>

theorem clovis_transfers:
  assumes "m0_client_ok cl content" "m0_memory cl" "0 < unit_size cl" "length buf < unit_size cl \<or> unit_size cl dvd length buf"
    and "off + length buf < 2 ^ 31" "length buf \<le> 50 * unit_size cl \<or> 50 * unit_size cl dvd length buf"
  shows "(\<exists>st s'. clovis_pwrite cl hi lo buf off s = Inr (st, s') \<and>
      pwrite_post (content s) (content s') (hi, lo) buf off (st = ssize_t_of (length buf) \<and> writes_stable cl)) \<and>
    (\<exists>st buf' s'. clovis_pread cl hi lo buf off s = Inr (st, buf', s') \<and> content s' = content s \<and>
      pread_post (content s (hi, lo)) buf off (st = ssize_t_of (length buf)) buf') \<and>
    (\<exists>st s'. clovis_create cl hi lo s = Inr (st, s') \<and> content s' = content s)"
proof -
  have "length buf < 2 ^ 31" using assms(5) by simp
  then obtain u m where U: "clovis_units cl (length buf) = Inr (u, int m)" "m * u = length buf" "(\<exists>k. m = k * 50) \<or> 0 < m \<and> m \<le> 50"
    by (rule clovis_groups [OF assms(3,4) _ assms(6)])
  show ?thesis using clovis_write [OF assms(1,2,5) U] clovis_read [OF assms(1,2,5) U] clovis_create_neutral [OF assms(1)] by blast
qed

text \<open>A store in a table with units of \<open>u\<close> bytes.\<close>

definition table_clovis :: "size_t \<Rightarrow> table clovis_client" where
  "table_clovis u = \<lparr>m0_bufvec_alloc = (\<lambda>n sz t. (0, replicate n (replicate sz 0), t)), m0_indexvec_alloc = (\<lambda>n t. (0, t)),
     m0_entity_open = (\<lambda>k t. ((0, 0), t)), m0_entity_create = (\<lambda>p k l t. (0, t)), m0_create_op = (\<lambda>k t. ((0, 0), t)), m0_obj_op = table_obj_op,
     m0_clovis_layout_id = 9, m0_clovis_obj_layout_id_to_unit_size = (\<lambda>lid. u)\<rparr>"

lemma table_clovis_ok: "m0_client_ok (table_clovis u) (\<lambda>t. t)"
  by (rule table_client_ok [where b = 0 and st = "(0, 0)"]) (simp_all add: table_clovis_def)

lemma table_clovis_memory: "m0_memory (table_clovis u)" "writes_stable (table_clovis u)"
  by (auto simp: m0_memory_def writes_stable_def table_clovis_def table_obj_op_def)

theorem clovis_transfers_witness:
  "\<exists>s'. clovis_pwrite (table_clovis 2) 0 1 [1, 2, 3, 4] 8 (\<lambda>k x. 0) = Inr (4, s') \<and> s' (0, 1) 10 = 3"
proof -
  have "\<exists>s'. write_data_to_object (table_clovis 2) k es ds t = (0, s')" for k es ds t
    by (simp add: write_data_to_object_def clovis_open_entity_def table_clovis_def table_obj_op_def)
  then have "\<exists>s'. clovis_write_loop (table_clovis 2) 0 1 2 2 0 8 [1, 2, 3, 4] (\<lambda>k x. 0) = Inr (0, s')"
    using write_loop_end [of "table_clovis 2"] group_size_eq(1) [of 2]
    by (subst clovis_write_loop.simps) (auto simp: clovis_vectors_def table_clovis_def gather_eq split: prod.splits, metis fst_conv)
  then have st: "\<exists>s'. clovis_pwrite (table_clovis 2) 0 1 [1, 2, 3, 4] 8 (\<lambda>k x. 0) = Inr (4, s')"
    by (auto simp: clovis_pwrite_def clovis_units_def table_clovis_def ssize_t_of_def)
  have "0 < unit_size (table_clovis 2)" "length [1, 2, 3, 4 :: byte] < unit_size (table_clovis 2) \<or> unit_size (table_clovis 2) dvd length [1, 2, 3, 4 :: byte]"
      "(8 :: nat) + length [1, 2, 3, 4 :: byte] < 2 ^ 31"
      "length [1, 2, 3, 4 :: byte] \<le> 50 * unit_size (table_clovis 2) \<or> 50 * unit_size (table_clovis 2) dvd length [1, 2, 3, 4 :: byte]"
    by (simp_all add: table_clovis_def)
  from clovis_transfers [OF table_clovis_ok table_clovis_memory(1) this, of 0 1 "\<lambda>k x. 0"] st
  obtain s' where s': "clovis_pwrite (table_clovis 2) 0 1 [1, 2, 3, 4] 8 (\<lambda>k x. 0) = Inr (4, s')"
      "pwrite_post (\<lambda>k x. 0) s' (0, 1) [1, 2, 3, 4] 8 True"
    using table_clovis_memory(2) by (auto simp: ssize_t_of_def)
  show ?thesis using s'(1) pwrite_postD(2) [OF s'(2), of 2] by simp
qed

lemma write_loop_status:
  assumes waits: "\<forall>k es ds s. fst (fst (m0_obj_op cl M0_OC_WRITE k es ds s)) = 0"
  shows "clovis_write_loop cl hi lo u m j l buf s = Inr (ret, s') \<Longrightarrow> ret = 0"
proof (induction "nat m" arbitrary: m j l s rule: less_induct)
  case less
  have w: "fst (write_data_to_object cl k es ds s) = 0" for k es ds s
  proof -
    obtain rc s1 where o1: "clovis_open_entity cl k s = (rc, s1)" by force
    obtain w r d s2 where op: "m0_obj_op cl M0_OC_WRITE k es ds s1 = ((w, r), d, s2)" by (metis prod.exhaust)
    then have "w = 0" using waits by (metis fst_conv)
    then show ?thesis by (simp add: write_data_to_object_def o1 op)
  qed
  show ?case
  proof (cases "m > 0")
    case True
    have "nat (m - int (group_size m)) < nat m" using True by (simp add: group_size_def CLOVIS_MAX_DATA_UNIT_PER_OPS_def)
    from less.hyps [OF this] have IH: "clovis_write_loop cl hi lo u (m - int (group_size m)) (Suc j) l buf s = Inr (ret, s') \<Longrightarrow> ret = 0" for l s .
    from less.prems True obtain es l' ds s1 where "(let (ret, s) = write_data_to_object cl (hi, lo) es ds s1 in if ret \<noteq> 0 then Inr (ret, s)
        else clovis_write_loop cl hi lo u (m - int (group_size m)) (Suc j) l' buf s) = Inr (ret, s')"
      by (subst (asm) clovis_write_loop.simps) (auto simp: Let_def elim!: bindE_InrE split: prod.splits)
    then show ?thesis using w [of "(hi, lo)" es ds s1] IH by (auto split: prod.splits)
  next
    case False
    then show ?thesis using less.prems by (simp add: clovis_write_loop.simps)
  qed
qed

text \<open>The status of a write operation is not looked at: when the waits for the operations return, a write returns the size
  whatever became of the operations.\<close>

theorem clovis_write_failure_hidden:
  assumes "m0_client_ok cl content" "m0_memory cl" "0 < unit_size cl" "length buf < unit_size cl \<or> unit_size cl dvd length buf"
    and "off + length buf < 2 ^ 31" "length buf \<le> 50 * unit_size cl \<or> 50 * unit_size cl dvd length buf"
    and waits: "\<forall>k es ds s. fst (fst (m0_obj_op cl M0_OC_WRITE k es ds s)) = 0"
  shows "\<exists>s'. clovis_pwrite cl hi lo buf off s = Inr (ssize_t_of (length buf), s')"
proof -
  have "length buf < 2 ^ 31" using assms(5) by simp
  then obtain u m where U: "clovis_units cl (length buf) = Inr (u, int m)" "m * u = length buf" "(\<exists>k. m = k * 50) \<or> 0 < m \<and> m \<le> 50"
    by (rule clovis_groups [OF assms(3,4) _ assms(6)])
  from clovis_write [OF assms(1,2,5) U] obtain st s' where "clovis_pwrite cl hi lo buf off s = Inr (st, s')" by blast
  then show ?thesis using U(1) write_loop_status [OF waits] by (auto simp: clovis_pwrite_def elim!: bindE_InrE)
qed

text \<open>A store whose writes all fail.\<close>

definition failing_clovis :: "table clovis_client" where
  "failing_clovis = (table_clovis 2)\<lparr>m0_obj_op := (\<lambda>op k es ds t. ((0, - 5), ds, t))\<rparr>"

theorem clovis_write_failure_hidden_witness:
  "clovis_pwrite failing_clovis 0 1 [1, 2, 3, 4] 8 (\<lambda>k x. 0) = Inr (4, \<lambda>k x. 0)"
proof -
  let ?buf = "[1, 2, 3, 4] :: byte list"
  have ok: "m0_client_ok failing_clovis (\<lambda>t. t)"
    unfolding m0_client_ok_def
  proof (intro conjI)
    show "m0_neutral failing_clovis (\<lambda>t. t)" by (simp add: m0_neutral_def failing_clovis_def table_clovis_def)
    show "m0_read_ok failing_clovis (\<lambda>t. t)" by (simp add: m0_read_ok_def failing_clovis_def)
    show "m0_write_ok failing_clovis (\<lambda>t. t)" by (simp add: m0_write_ok_def failing_clovis_def)
  qed
  have mem: "m0_memory failing_clovis" using table_clovis_memory(1) [of 2] by (simp add: m0_memory_def failing_clovis_def)
  have u: "unit_size failing_clovis = 2" by (simp add: failing_clovis_def table_clovis_def)
  have c: "0 < unit_size failing_clovis" "length ?buf < unit_size failing_clovis \<or> unit_size failing_clovis dvd length ?buf"
      "8 + length ?buf < 2 ^ 31" "length ?buf \<le> 50 * unit_size failing_clovis \<or> 50 * unit_size failing_clovis dvd length ?buf"
      "\<forall>k es ds s. fst (fst (m0_obj_op failing_clovis M0_OC_WRITE k es ds s)) = 0"
    unfolding u by (simp_all add: failing_clovis_def)
  obtain s' where s': "clovis_pwrite failing_clovis 0 1 ?buf 8 (\<lambda>k x. 0) = Inr (4, s')"
    using clovis_write_failure_hidden [OF ok mem c, of 0 1 "\<lambda>k x. 0"] by (auto simp: ssize_t_of_def)
  have "write_data_to_object failing_clovis k es ds t = (0, t)" for k es ds t
    by (simp add: write_data_to_object_def clovis_open_entity_def failing_clovis_def table_clovis_def)
  moreover have "clovis_vectors failing_clovis n v t = Inr (replicate n (replicate v 0), t)" for n v t
    by (simp add: clovis_vectors_def failing_clovis_def table_clovis_def)
  ultimately have "clovis_write_loop failing_clovis 0 1 2 2 0 8 ?buf (\<lambda>k x. 0) = Inr (0, \<lambda>k x. 0)"
    using write_loop_end [of failing_clovis] group_size_eq(1) [of 2]
    by (subst clovis_write_loop.simps) (simp add: gather_eq split: prod.splits)
  then have "s' = (\<lambda>k x. 0)" using s' unfolding clovis_pwrite_def clovis_units_def u by (simp add: ssize_t_of_def)
  then show ?thesis using s' by simp
qed

end
