(* ===== verification/Debug_Messages.thy ===== *)
theory Debug_Messages
  imports Std_Map "HOL-Library.Char_ord" "HOL-Library.List_Lexorder"
begin

text \<open>
  The messages of the program (extern-deps/from-cern-lhcb-daqpipe-v2/FormattedMessage.cpp and Debug.cpp, used through
  src/base/common/Debug.hpp): formats with numbered arguments, the selection of the debug messages by category, and the
  emission of a message, which ends the program for the levels assert and fatal.  The debug build is modelled (assertions
  are compiled in).  A C string is a \<open>string\<close> without a terminator; the null pointer is \<open>None\<close>.
\<close>

section \<open>Formatted messages\<close>

record fmessage =
  fm_format :: string
  fm_entries :: "string list"

definition FormattedMessage :: "string \<Rightarrow> fmessage" where
  "FormattedMessage format = \<lparr>fm_format = format, fm_entries = []\<rparr>"

definition arg :: "fmessage \<Rightarrow> string \<Rightarrow> fmessage" where
  "arg m value = m\<lparr>fm_entries := fm_entries m @ [value]\<rparr>"

text \<open>\<open>strerror\<close> and \<open>errno\<close> are parameters.\<close>

definition argStrErrno :: "(int \<Rightarrow> string) \<Rightarrow> int \<Rightarrow> fmessage \<Rightarrow> fmessage" where
  "argStrErrno strerror errno m = arg m (strerror errno)"

abbreviation PERCENT :: char where "PERCENT \<equiv> CHR 0x25"

definition is_digit :: "char \<Rightarrow> bool" where
  "is_digit c \<longleftrightarrow> 48 \<le> (of_char c :: nat) \<and> (of_char c :: nat) \<le> 57"

definition is_space :: "char \<Rightarrow> bool" where
  "is_space c \<longleftrightarrow> c = CHR 0x20 \<or> 9 \<le> (of_char c :: nat) \<and> (of_char c :: nat) \<le> 13"

text \<open>\<open>atoi\<close>: white space, a sign, digits.  A number outside \<open>int\<close> has no defined result.\<close>

definition digits_value :: "string \<Rightarrow> nat" where
  "digits_value ds = foldl (\<lambda>n c. 10 * n + (of_char c - 48)) 0 ds"

definition atoi :: "string \<Rightarrow> int result" where
  "atoi s =
     (let s = dropWhile is_space s;
          (neg, s) = (case s of c # cs \<Rightarrow> if c = CHR ''-'' then (True, cs) else if c = CHR ''+'' then (False, cs) else (False, s) | [] \<Rightarrow> (False, s));
          n = int (digits_value (takeWhile is_digit s));
          v = (if neg then - n else n)
      in if - (2 ^ 31) \<le> v \<and> v < 2 ^ 31 then Inr v else Inl OutOfBounds)"

text \<open>The decimal representation that the stream prints.\<close>

fun show_nat :: "nat \<Rightarrow> string" where
  "show_nat n = (if n < 10 then [char_of (48 + n)] else show_nat (n div 10) @ [char_of (48 + n mod 10)])"

declare show_nat.simps [simp del]

definition show_int :: "int \<Rightarrow> string" where
  "show_int i = (if i < 0 then CHR ''-'' # show_nat (nat (- i)) else show_nat (nat i))"

text \<open>
  What a stream receives: the text, and the identifiers of the warnings about missing arguments on the error stream.
\<close>

type_synonym stream_text = "string \<times> int list"

definition emit :: "string \<Rightarrow> stream_text result \<Rightarrow> stream_text result" where
  "emit s r = bindE r (\<lambda>(t, w). Inr (s @ t, w))"

definition pushValue :: "string list \<Rightarrow> int \<Rightarrow> string \<times> int list" where
  "pushValue entries i =
     (if i = 0 \<or> nat (i mod 2 ^ 64) > length entries then (PERCENT # show_int i, [i]) else (entries ! nat (i - 1), []))"

text \<open>\<open>toStream\<close>, on the rest of the format from the position of the loop on.\<close>

function toStream_from :: "string list \<Rightarrow> string \<Rightarrow> stream_text result" where
  "toStream_from entries [] = Inr ([], [])"
| "toStream_from entries (c # cs) =
     (if c = PERCENT then
        if cs \<noteq> [] \<and> hd cs = PERCENT then emit [PERCENT] (toStream_from entries (tl cs))
        else bindE (atoi cs) (\<lambda>i.
             bindE (assertE (i \<noteq> 0) ''id != 0'') (\<lambda>_.
             let (t, w) = pushValue entries i in
             bindE (toStream_from entries (dropWhile is_digit cs)) (\<lambda>(t', w'). Inr (t @ t', w @ w'))))
      else emit [c] (toStream_from entries cs))"
  by pat_completeness auto
termination
  by (relation "measure (\<lambda>(entries, s). length s)") (auto simp: less_Suc_eq_le length_dropWhile_le)

declare toStream_from.simps(2) [simp del]

definition toStream :: "fmessage \<Rightarrow> stream_text result" where
  "toStream m = toStream_from (fm_entries m) (fm_format m)"

definition toString :: "fmessage \<Rightarrow> string result" where
  "toString m = bindE (toStream m) (\<lambda>(t, w). Inr t)"

section \<open>Categories\<close>

text \<open>The static members of the class \<open>Debug\<close>; \<open>catMap = None\<close> is the null pointer, which shows every category.\<close>

record debug =
  catMap :: "(string, bool) std_map option"
  catMaxWidth :: nat
  rank :: int
  disabled :: bool
  debugMsgLocation :: bool

definition debug_init :: debug where
  "debug_init = \<lparr>catMap = Some [], catMaxWidth = 0, rank = - 1, disabled = True, debugMsgLocation = False\<rparr>"

definition setRank :: "int \<Rightarrow> debug \<Rightarrow> debug" where
  "setRank r d = d\<lparr>rank := r\<rparr>"

definition enableCat :: "string \<Rightarrow> debug \<Rightarrow> debug" where
  "enableCat cat d =
     (let m = (case catMap d of None \<Rightarrow> [] | Some m \<Rightarrow> m) in
      d\<lparr>catMap := Some (sm_set cat True m), catMaxWidth := max (catMaxWidth d) (length cat), disabled := False\<rparr>)"

definition enableAll :: "debug \<Rightarrow> debug" where
  "enableAll d = d\<lparr>catMap := None, disabled := False\<rparr>"

definition enableDebugCodeLocation :: "debug \<Rightarrow> debug" where
  "enableDebugCodeLocation d = d\<lparr>debugMsgLocation := True\<rparr>"

definition is_sep :: "char \<Rightarrow> bool" where
  "is_sep c \<longleftrightarrow> c = CHR '':'' \<or> c = CHR ''.''"

text \<open>The buffer of \<open>showParentsCat\<close> has 64 characters; a write beyond it is an error.\<close>

definition buffer_put :: "string \<Rightarrow> char \<Rightarrow> string result" where
  "buffer_put buffer c = (if length buffer < 64 then Inr (buffer @ [c]) else Inl OutOfBounds)"

fun copy_name :: "string \<Rightarrow> string \<Rightarrow> (string \<times> string) result" where
  "copy_name [] buffer = Inr ([], buffer)"
| "copy_name (c # cat) buffer =
     (if is_sep c then Inr (c # cat, buffer) else bindE (buffer_put buffer c) (\<lambda>buffer. copy_name cat buffer))"

lemma copy_name_length: "copy_name cat buffer = Inr (cat', buffer') \<Longrightarrow> length cat' \<le> length cat"
  by (induction cat buffer rule: copy_name.induct) (auto elim!: bindE_InrE split: if_splits)

function parents_loop :: "(string, bool) std_map \<Rightarrow> string \<Rightarrow> string \<Rightarrow> bool result" where
  "parents_loop m cat buffer =
     (if cat = [] then Inr False
      else bindE (copy_name cat buffer) (\<lambda>(cat', buffer).
           bindE (buffer_put buffer CHR 0x00) (\<lambda>_.
           case cat' of
             [] \<Rightarrow> Inr False
           | c # cat'' \<Rightarrow>
               if sm_find m buffer \<noteq> None then Inr True
               else bindE (buffer_put buffer c) (\<lambda>buffer. parents_loop m cat'' buffer))))"
  by pat_completeness auto
termination
  by (relation "measure (\<lambda>(m, cat, buffer). length cat)") (auto dest!: copy_name_length)

declare parents_loop.simps [simp del]

definition showParentsCat :: "(string, bool) std_map \<Rightarrow> string option \<Rightarrow> bool result" where
  "showParentsCat m cat = (case cat of
       None \<Rightarrow> Inr False
     | Some cat \<Rightarrow>
         bindE (assumeE (length cat < 64) ''Category name is too long and overpass the 64 character limit'') (\<lambda>_. parents_loop m cat []))"

definition showCat :: "string option \<Rightarrow> debug \<Rightarrow> (bool \<times> debug) result" where
  "showCat cat d = (case catMap d of
       None \<Rightarrow> (case cat of
           None \<Rightarrow> Inl NullDereference
         | Some c \<Rightarrow> Inr (True, d\<lparr>catMaxWidth := max (catMaxWidth d) (length c)\<rparr>))
     | Some m \<Rightarrow> (case cat of
           None \<Rightarrow> Inr (True, d)
         | Some c \<Rightarrow> (case sm_find m c of
               None \<Rightarrow> bindE (showParentsCat m cat) (\<lambda>parentStatus. Inr (parentStatus, d\<lparr>catMap := Some (sm_set c parentStatus m)\<rparr>))
             | Some v \<Rightarrow> Inr (v, d))))"

text \<open>\<open>getline\<close> with the separator \<open>','\<close>, until the end of the string.\<close>

function getline_all :: "string \<Rightarrow> string list" where
  "getline_all s =
     (if s = [] then []
      else takeWhile (\<lambda>c. c \<noteq> CHR '','') s # getline_all (tl (dropWhile (\<lambda>c. c \<noteq> CHR '','') s)))"
  by pat_completeness auto
termination
proof (relation "measure length")
  fix s :: string
  assume "s \<noteq> []"
  have "length (dropWhile (\<lambda>c. c \<noteq> CHR '','') s) \<le> length s" by (rule length_dropWhile_le)
  then show "(tl (dropWhile (\<lambda>c. c \<noteq> CHR '','') s), s) \<in> measure length"
    using \<open>s \<noteq> []\<close> by (simp, cases s) auto
qed simp

declare getline_all.simps [simp del]

definition verbosity_token :: "string \<Rightarrow> debug \<Rightarrow> debug" where
  "verbosity_token token d =
     (if token = ''all'' \<or> token = ''*'' then enableAll d
      else if token = ''code'' then enableDebugCodeLocation d
      else enableCat token d)"

definition setVerbosity :: "string \<Rightarrow> debug \<Rightarrow> debug" where
  "setVerbosity value d = fold verbosity_token (getline_all value) d"

section \<open>Emission\<close>

datatype DebugLevel = MESSAGE_ASSERT | MESSAGE_DEBUG | MESSAGE_INFO | MESSAGE_NORMAL | MESSAGE_WARNING | MESSAGE_ERROR | MESSAGE_FATAL

record debug_message = fmessage +
  dm_cat :: "string option"
  dm_level :: DebugLevel
  dm_file :: string
  dm_line :: int

definition COLOR :: "string \<Rightarrow> string" where
  "COLOR code = CHR 0x1B # ''['' @ code @ ''m''"

text \<open>\<open>color\<close> is the build option \<open>ENABLE_COLOR\<close>.\<close>

definition cstLevelPrefix :: "bool \<Rightarrow> DebugLevel \<Rightarrow> string" where
  "cstLevelPrefix color level = (case level of
       MESSAGE_ASSERT \<Rightarrow> (if color then COLOR ''31'' else []) @ ''Assert : ''
     | MESSAGE_DEBUG \<Rightarrow> if color then COLOR ''36'' else ''Debug : ''
     | MESSAGE_INFO \<Rightarrow> if color then COLOR ''36'' else ''Info : ''
     | MESSAGE_NORMAL \<Rightarrow> []
     | MESSAGE_WARNING \<Rightarrow> (if color then COLOR ''33'' else []) @ ''Warning : ''
     | MESSAGE_ERROR \<Rightarrow> (if color then COLOR ''31'' else []) @ ''Error : ''
     | MESSAGE_FATAL \<Rightarrow> (if color then COLOR ''31'' else []) @ ''Fatal : '')"

definition cstPostfix :: "bool \<Rightarrow> string" where
  "cstPostfix color = (if color then COLOR ''0'' else [])"

abbreviation NEWLINE :: string where "NEWLINE \<equiv> [CHR 0x0A]"

definition location :: "bool \<Rightarrow> debug_message \<Rightarrow> string" where
  "location color m = cstLevelPrefix color (dm_level m) @ ''At '' @ dm_file m @ '':'' @ show_int (dm_line m) @ '' : '' @ NEWLINE"

definition pad :: "nat \<Rightarrow> string \<Rightarrow> string" where
  "pad w s = s @ replicate (w - length s) CHR 0x20"

text \<open>
  What the emission of a message does: nothing, a text on one of the streams, or a text followed by the handler that was
  set for the end of the program (which gets the text) and \<open>abort\<close>.
\<close>

datatype emission = Silent | StdOut string | StdErr string | AbortOut string | AbortErr string

definition body :: "bool \<Rightarrow> debug_message \<Rightarrow> string result" where
  "body color m = bindE (toString (fmessage.truncate m)) (\<lambda>t. Inr (cstLevelPrefix color (dm_level m) @ t @ cstPostfix color @ NEWLINE))"

definition located :: "bool \<Rightarrow> debug_message \<Rightarrow> string" where
  "located color m = (if dm_line m \<noteq> 0 then NEWLINE @ location color m else [])"

definition debug_end :: "bool \<Rightarrow> debug_message \<Rightarrow> debug \<Rightarrow> (emission \<times> debug) result" where
  "debug_end color m d = (case dm_level m of
       MESSAGE_DEBUG \<Rightarrow>
         bindE (showCat (dm_cat m) d) (\<lambda>(shown, d).
         if \<not> shown then Inr (Silent, d)
         else case dm_cat m of
             None \<Rightarrow> Inl NullDereference
           | Some cat \<Rightarrow>
             bindE (toString (fmessage.truncate m)) (\<lambda>t.
             Inr (StdOut ((if dm_line m \<noteq> 0 \<and> debugMsgLocation d then location color m else []) @
               cstLevelPrefix color MESSAGE_DEBUG @ ''['' @ pad (catMaxWidth d) cat @ ''] '' @ t @ cstPostfix color @ NEWLINE), d)))
     | MESSAGE_INFO \<Rightarrow> bindE (body color m) (\<lambda>t. Inr (StdOut t, d))
     | MESSAGE_NORMAL \<Rightarrow> bindE (body color m) (\<lambda>t. Inr (StdOut t, d))
     | MESSAGE_ASSERT \<Rightarrow> bindE (body color m) (\<lambda>t. Inr (AbortOut (located color m @ t), d))
     | MESSAGE_WARNING \<Rightarrow> bindE (body color m) (\<lambda>t. Inr (StdErr (located color m @ t), d))
     | MESSAGE_ERROR \<Rightarrow> bindE (body color m) (\<lambda>t. Inr (StdErr (located color m @ t), d))
     | MESSAGE_FATAL \<Rightarrow> bindE (body color m) (\<lambda>t. Inr (AbortErr (located color m @ t), d)))"

text \<open>The constructor with a code location, and the macros for debug messages and for \<open>assume\<close>.\<close>

definition Debug :: "string \<Rightarrow> string \<Rightarrow> int \<Rightarrow> DebugLevel \<Rightarrow> string option \<Rightarrow> debug_message" where
  "Debug format file line level cat =
     \<lparr>fm_format = format, fm_entries = [], dm_cat = cat, dm_level = level, dm_file = file, dm_line = line\<rparr>"

definition DAQ_DEBUG :: "bool \<Rightarrow> string \<Rightarrow> string \<Rightarrow> string list \<Rightarrow> string \<Rightarrow> int \<Rightarrow> debug \<Rightarrow> (emission \<times> debug) result" where
  "DAQ_DEBUG color cat format args file line d =
     (if disabled d then Inr (Silent, d)
      else debug_end color (foldl (\<lambda>m a. m\<lparr>fm_entries := fm_entries m @ [a]\<rparr>) (Debug format file line MESSAGE_DEBUG (Some cat)) args) d)"

definition assume_macro :: "bool \<Rightarrow> bool \<Rightarrow> string \<Rightarrow> string \<Rightarrow> int \<Rightarrow> debug \<Rightarrow> (emission \<times> debug) result" where
  "assume_macro color check message file line d =
     (if \<not> check then debug_end color (Debug message file line MESSAGE_FATAL None) d else Inr (Silent, d))"

text \<open>\<open>initLoadEnv\<close>: the argument is the environment variable \<open>IOC_DEBUG\<close>.\<close>

definition initLoadEnv :: "bool \<Rightarrow> string option \<Rightarrow> debug \<Rightarrow> (emission \<times> debug) result" where
  "initLoadEnv color env d = (case env of
       None \<Rightarrow> Inr (Silent, d)
     | Some v \<Rightarrow>
         bindE (debug_end color (Debug ''Enabling debugging logs via IOC_DEBUG environnement variable !'' ''Debug.cpp'' 362 MESSAGE_INFO None)
                  (d\<lparr>catMap := Some []\<rparr>)) (\<lambda>(e, d).
         Inr (e, setVerbosity v d)))"

definition showList :: "bool \<Rightarrow> debug \<Rightarrow> (emission \<times> debug) result" where
  "showList color d =
     (let buffer = ''Debug categories :'' @ NEWLINE @
          (case catMap d of None \<Rightarrow> [] | Some m \<Rightarrow> concat (map (\<lambda>(name, v). '' - '' @ name @ NEWLINE) m))
      in debug_end color (Debug buffer ''Debug.cpp'' 310 MESSAGE_INFO None) d)"

section \<open>Numbers\<close>

lemma show_nat_digits: "c \<in> set (show_nat n) \<Longrightarrow> is_digit c"
proof (induction n rule: show_nat.induct)
  case (1 n)
  then show ?case by (subst (asm) show_nat.simps) (auto simp: is_digit_def split: if_splits)
qed

lemma show_nat_not_Nil [simp]: "show_nat n \<noteq> []"
  by (subst show_nat.simps) simp

lemma digits_value_snoc: "digits_value (ds @ [c]) = 10 * digits_value ds + (of_char c - 48)"
  by (simp add: digits_value_def)

lemma digits_value_show [simp]: "digits_value (show_nat n) = n"
proof (induction n rule: show_nat.induct)
  case (1 n)
  show ?case
  proof (cases "n < 10")
    case True
    then show ?thesis by (subst show_nat.simps) (simp add: digits_value_def)
  next
    case False
    then have "show_nat n = show_nat (n div 10) @ [char_of (48 + n mod 10)]" by (subst show_nat.simps) simp
    then show ?thesis using 1 [OF False] by (simp add: digits_value_snoc)
  qed
qed

lemma is_digit_plain: "is_digit c \<Longrightarrow> \<not> is_space c \<and> c \<noteq> CHR ''-'' \<and> c \<noteq> CHR ''+'' \<and> c \<noteq> PERCENT"
  by (auto simp: is_digit_def is_space_def)

lemma takeWhile_show:
  assumes "r = [] \<or> \<not> is_digit (hd r)"
  shows "takeWhile is_digit (show_nat n @ r) = show_nat n" "dropWhile is_digit (show_nat n @ r) = r"
proof -
  have "takeWhile is_digit r = []" "dropWhile is_digit r = r" using assms by (cases r; simp)+
  then show "takeWhile is_digit (show_nat n @ r) = show_nat n" "dropWhile is_digit (show_nat n @ r) = r"
    using show_nat_digits by (simp_all add: takeWhile_append2 dropWhile_append2)
qed

lemma atoi_show:
  assumes "r = [] \<or> \<not> is_digit (hd r)" "n < 2 ^ 31"
  shows "atoi (show_nat n @ r) = Inr (int n)"
proof -
  obtain c cs where c: "show_nat n = c # cs" by (cases "show_nat n") auto
  then have "is_digit c" using show_nat_digits [of c n] by simp
  note plain = is_digit_plain [OF this]
  have "dropWhile is_space (show_nat n @ r) = show_nat n @ r" using plain by (simp add: c)
  moreover have "digits_value (takeWhile is_digit (c # cs @ r)) = n" using takeWhile_show(1) [OF assms(1), of n] c digits_value_show [of n] by simp
  ultimately show ?thesis using plain assms(2) by (simp add: atoi_def c del: takeWhile.simps)
qed

section \<open>Rendering\<close>

text \<open>What a format is meant to be: text, a percent sign, references to arguments.\<close>

datatype piece = Text string | Percent | Arg nat

fun piece_format :: "piece \<Rightarrow> string" where
  "piece_format (Text s) = s"
| "piece_format Percent = [PERCENT, PERCENT]"
| "piece_format (Arg n) = PERCENT # show_nat n"

fun piece_text :: "string list \<Rightarrow> piece \<Rightarrow> string" where
  "piece_text args (Text s) = s"
| "piece_text args Percent = [PERCENT]"
| "piece_text args (Arg n) = (if n \<le> length args then args ! (n - 1) else PERCENT # show_nat n)"

definition format_of :: "piece list \<Rightarrow> string" where
  "format_of ps = concat (map piece_format ps)"

text \<open>A number is not followed by a digit, arguments are numbered from one, and text has no percent sign.\<close>

fun pieces_ok :: "piece list \<Rightarrow> bool" where
  "pieces_ok [] \<longleftrightarrow> True"
| "pieces_ok (Text s # ps) \<longleftrightarrow> PERCENT \<notin> set s \<and> pieces_ok ps"
| "pieces_ok (Percent # ps) \<longleftrightarrow> pieces_ok ps"
| "pieces_ok (Arg n # ps) \<longleftrightarrow> 0 < n \<and> n < 2 ^ 31 \<and> (format_of ps = [] \<or> \<not> is_digit (hd (format_of ps))) \<and> pieces_ok ps"

lemma toStream_text: "PERCENT \<notin> set s \<Longrightarrow> toStream_from es (s @ r) = emit s (toStream_from es r)"
proof (induction s)
  case Nil
  then show ?case by (cases "toStream_from es r") (auto simp: emit_def)
next
  case (Cons c s)
  then show ?case by (cases "toStream_from es r") (auto simp: emit_def toStream_from.simps)
qed

lemma toStream_percent: "toStream_from es (PERCENT # PERCENT # r) = emit [PERCENT] (toStream_from es r)"
  by (simp add: toStream_from.simps)

lemma toStream_arg:
  assumes "0 < n" "n < 2 ^ 31" "r = [] \<or> \<not> is_digit (hd r)" "toStream_from es r = Inr (t, w)"
  shows "\<exists>w'. toStream_from es (PERCENT # show_nat n @ r) = Inr (piece_text es (Arg n) @ t, w')"
proof -
  obtain c cs where c: "show_nat n = c # cs" by (cases "show_nat n") auto
  then have "c \<noteq> PERCENT" using show_nat_digits [of c n] is_digit_plain by simp
  then have "toStream_from es (PERCENT # show_nat n @ r) =
      bindE (atoi (show_nat n @ r)) (\<lambda>i. bindE (assertE (i \<noteq> 0) ''id != 0'') (\<lambda>_. let (t, w) = pushValue es i in
        bindE (toStream_from es (dropWhile is_digit (show_nat n @ r))) (\<lambda>(t', w'). Inr (t @ t', w @ w'))))"
    by (subst toStream_from.simps) (simp add: c)
  also have "\<dots> = (let (t', w') = pushValue es (int n) in Inr (t' @ t, w' @ w))"
    using assms by (simp add: atoi_show takeWhile_show(2))
  finally show ?thesis using assms(1,2) by (simp add: pushValue_def show_int_def nat_diff_distrib)
qed

lemma toStream_pieces: "pieces_ok ps \<Longrightarrow> \<exists>w. toStream_from es (format_of ps) = Inr (concat (map (piece_text es) ps), w)"
proof (induction ps rule: pieces_ok.induct)
  case (2 s ps)
  then show ?case using toStream_text [of s es "format_of ps"] by (auto simp: format_of_def emit_def)
next
  case (3 ps)
  then show ?case using toStream_percent [of es "format_of ps"] by (auto simp: format_of_def emit_def)
next
  case (4 n ps)
  then obtain w where "toStream_from es (format_of ps) = Inr (concat (map (piece_text es) ps), w)" by auto
  from toStream_arg [OF _ _ _ this, of n] "4.prems" show ?case by (auto simp: format_of_def)
qed (simp add: format_of_def)

text \<open>A message is rendered as its format says: text is copied, a doubled percent sign is printed once, and \<open>%n\<close> becomes the
  \<open>n\<close>-th argument, or is printed as it is when there is no such argument.\<close>

theorem message_rendered:
  assumes "pieces_ok ps"
  shows "toString (foldl arg (FormattedMessage (format_of ps)) args) = Inr (concat (map (piece_text args) ps))"
proof -
  have "foldl arg m as = m\<lparr>fm_entries := fm_entries m @ as\<rparr>" for m :: fmessage and as
    by (induction as arbitrary: m) (auto simp: arg_def)
  then show ?thesis using toStream_pieces [OF assms, of args] by (auto simp: toString_def toStream_def FormattedMessage_def)
qed

theorem message_rendered_witness:
  "toString (foldl arg (FormattedMessage ''%1 of %2: 100%%'') [''5'', ''10'']) = Inr ''5 of 10: 100%''"
proof -
  let ?ps = "[Arg 1, Text '' of '', Arg 2, Text '': 100'', Percent]"
  have d: "show_nat 1 = ''1''" "show_nat 2 = ''2''" by code_simp+
  have f: "format_of ?ps = ''%1 of %2: 100%%''" unfolding format_of_def by (simp only: piece_format.simps d list.map concat.simps append.simps)
  have "pieces_ok ?ps" unfolding pieces_ok.simps format_of_def by (simp add: is_digit_def)
  from message_rendered [OF this, of "[''5'', ''10'']"] show ?thesis unfolding f by simp
qed

text \<open>A string whose percent signs are doubled prints as the string.\<close>

definition escape :: "string \<Rightarrow> string" where
  "escape s = concat (map (\<lambda>c. if c = PERCENT then [PERCENT, PERCENT] else [c]) s)"

lemma escape_printed: "toString (FormattedMessage (escape s)) = Inr s"
proof -
  have "toStream_from [] (escape s) = Inr (s, [])"
    by (induction s) (auto simp: escape_def emit_def toStream_percent toStream_from.simps)
  then show ?thesis by (simp add: toString_def toStream_def FormattedMessage_def)
qed

text \<open>A format with a percent sign that is neither doubled nor followed by a number fails its assertion.\<close>

lemma bad_format_fails: "\<not> is_space c \<Longrightarrow> \<not> is_digit c \<Longrightarrow> c \<noteq> PERCENT \<Longrightarrow> c \<noteq> CHR ''-'' \<Longrightarrow> c \<noteq> CHR ''+'' \<Longrightarrow>
   toString (FormattedMessage (PERCENT # c # s)) = Inl (AssertFailed ''id != 0'')"
  by (simp add: toString_def toStream_def FormattedMessage_def toStream_from.simps atoi_def digits_value_def)

section \<open>Selection\<close>

text \<open>The categories a set of names selects: the names, and what has one of them before a separator.\<close>

definition parent_in :: "string set \<Rightarrow> string \<Rightarrow> bool" where
  "parent_in names cat \<longleftrightarrow> (\<exists>i < length cat. is_sep (cat ! i) \<and> take i cat \<in> names)"

definition selected :: "string set \<Rightarrow> string \<Rightarrow> bool" where
  "selected names cat \<longleftrightarrow> cat \<in> names \<or> parent_in names cat"

lemma copy_name_eq:
  "length buffer + length cat < 64 \<Longrightarrow>
   copy_name cat buffer = Inr (dropWhile (\<lambda>c. \<not> is_sep c) cat, buffer @ takeWhile (\<lambda>c. \<not> is_sep c) cat)"
  by (induction cat buffer rule: copy_name.induct) (auto simp: buffer_put_def)

text \<open>The search for a parent, one character at a time, with the characters before the current one.\<close>

fun parent_from :: "string set \<Rightarrow> string \<Rightarrow> string \<Rightarrow> bool" where
  "parent_from names before [] = False"
| "parent_from names before (c # cat) = (is_sep c \<and> before \<in> names \<or> parent_from names (before @ [c]) cat)"

lemma parent_from_iff: "parent_from names before cat \<longleftrightarrow> (\<exists>i < length cat. is_sep (cat ! i) \<and> before @ take i cat \<in> names)"
  by (induction cat arbitrary: before) (simp_all add: Ex_less_Suc2)

lemma parent_from_name: "\<forall>c \<in> set name. \<not> is_sep c \<Longrightarrow> parent_from names before (name @ cat) = parent_from names (before @ name) cat"
  by (induction name arbitrary: before) simp_all

text \<open>The loop makes this search; its buffer is large enough.\<close>

lemma parents_loop_eq:
  "length buffer + length cat < 64 \<Longrightarrow> parents_loop m cat buffer = Inr (parent_from (dom (sm_find m)) buffer cat)"
proof (induction "length cat" arbitrary: cat buffer rule: less_induct)
  case less
  let ?name = "takeWhile (\<lambda>c. \<not> is_sep c) cat" and ?rest = "dropWhile (\<lambda>c. \<not> is_sep c) cat"
  have "length ?name + length ?rest = length cat" using takeWhile_dropWhile_id length_append by metis
  then have len: "length (buffer @ ?name) + length ?rest < 64" "length ?rest \<le> length cat" using less.prems by simp_all
  have step: "parent_from (dom (sm_find m)) buffer cat = parent_from (dom (sm_find m)) (buffer @ ?name) ?rest"
  proof -
    have "\<forall>c \<in> set ?name. \<not> is_sep c" using set_takeWhileD by fast
    from parent_from_name [OF this, of "dom (sm_find m)" buffer ?rest] show ?thesis by simp
  qed
  have loop: "parents_loop m cat buffer = (case ?rest of [] \<Rightarrow> Inr False
      | c # rest \<Rightarrow> if sm_find m (buffer @ ?name) \<noteq> None then Inr True else parents_loop m rest (buffer @ ?name @ [c]))"
  proof (cases "cat = []")
    case False
    have put: "buffer_put (buffer @ ?name) c = Inr (buffer @ ?name @ [c])" for c using len(1) by (simp add: buffer_put_def)
    show ?thesis
    proof (cases ?rest)
      case Nil
      show ?thesis using False put [of "CHR 0x00"] by (subst parents_loop.simps) (simp add: copy_name_eq [OF less.prems], simp add: Nil)
    next
      case (Cons c rest)
      show ?thesis using False put by (subst parents_loop.simps) (simp only: copy_name_eq [OF less.prems] if_False bindE_Inr prod.case Cons list.case)
    qed
  qed (simp add: parents_loop.simps)
  show ?case
  proof (cases ?rest)
    case Nil
    show ?thesis unfolding loop step Nil by simp
  next
    case (Cons c rest)
    have "is_sep c" using Cons hd_dropWhile [of "\<lambda>c. \<not> is_sep c" cat] by auto
    moreover have "parents_loop m rest (buffer @ ?name @ [c]) = Inr (parent_from (dom (sm_find m)) (buffer @ ?name @ [c]) rest)"
      by (rule less.hyps) (use len Cons in simp_all)
    ultimately show ?thesis unfolding loop step Cons by auto
  qed
qed

lemma showParentsCat_eq: "length cat < 64 \<Longrightarrow> showParentsCat m (Some cat) = Inr (parent_in (dom (sm_find m)) cat)"
  by (simp add: showParentsCat_def parents_loop_eq parent_in_def parent_from_iff)

text \<open>The answer for a category: the map when it has the name, else its parents.\<close>

lemma showCat_eq:
  assumes "catMap d = Some m" "length cat < 64"
  shows "\<exists>d'. showCat (Some cat) d = Inr (case sm_find m cat of Some v \<Rightarrow> v | None \<Rightarrow> parent_in (dom (sm_find m)) cat, d')"
  using assms by (auto simp: showCat_def showParentsCat_eq split: option.splits)

fun join_comma :: "string list \<Rightarrow> string" where
  "join_comma [] = []"
| "join_comma [t] = t"
| "join_comma (t # ts) = t @ CHR '','' # join_comma ts"

text \<open>The tokens of a list of names with commas between them; an empty last name is lost.\<close>

lemma getline_join:
  "\<forall>t \<in> set ts. CHR '','' \<notin> set t \<Longrightarrow> ts \<noteq> [] \<Longrightarrow> last ts \<noteq> [] \<Longrightarrow> getline_all (join_comma ts) = ts"
proof (induction ts rule: join_comma.induct)
  case (2 t)
  then have "takeWhile (\<lambda>c. c \<noteq> CHR '','') t = t" "dropWhile (\<lambda>c. c \<noteq> CHR '','') t = []" by (auto simp: takeWhile_eq_all_conv dropWhile_eq_Nil_conv)
  then have "getline_all t = t # getline_all []" using 2 by (subst getline_all.simps) (simp only: if_False list.sel join_comma.simps last.simps simp_thms if_True)
  then show ?case by (simp add: getline_all.simps [of "[]"])
next
  case (3 t t' ts)
  then have "CHR '','' \<notin> set t" by simp
  then have "takeWhile (\<lambda>c. c \<noteq> CHR '','') (t @ CHR '','' # r) = t" "dropWhile (\<lambda>c. c \<noteq> CHR '','') (t @ CHR '','' # r) = CHR '','' # r" for r
    by (induction t) auto
  moreover have "getline_all (join_comma (t' # ts)) = t' # ts" by (rule "3.IH") (use "3.prems" in auto)
  ultimately show ?case by (subst getline_all.simps) simp
qed simp

definition plain_token :: "string \<Rightarrow> bool" where
  "plain_token t \<longleftrightarrow> CHR '','' \<notin> set t \<and> t \<noteq> ''all'' \<and> t \<noteq> ''*'' \<and> t \<noteq> ''code''"

lemma verbosity_map:
  "\<forall>t \<in> set ts. plain_token t \<Longrightarrow> catMap d = Some m \<Longrightarrow>
   \<exists>m'. catMap (fold verbosity_token ts d) = Some m' \<and> sm_find m' = (\<lambda>c. if c \<in> set ts then Some True else sm_find m c)"
proof (induction ts arbitrary: d m)
  case (Cons t ts)
  then have "catMap (verbosity_token t d) = Some (sm_set t True m)" by (simp add: verbosity_token_def plain_token_def enableCat_def Let_def)
  from Cons.IH [OF _ this] Cons.prems(1) show ?case by (auto simp: fun_eq_iff)
qed simp

text \<open>The verbosity given as names with commas between them selects exactly these categories and those below them, for
  the first question about a category: a name is below another one that stands before one of its separators.\<close>

theorem verbosity_selects:
  assumes "\<forall>t \<in> set ts. plain_token t" "ts \<noteq> []" "last ts \<noteq> []" "catMap d = Some []" "length cat < 64"
  shows "\<exists>d'. showCat (Some cat) (setVerbosity (join_comma ts) d) = Inr (selected (set ts) cat, d')"
proof -
  have g: "getline_all (join_comma ts) = ts" using assms(1-3) by (intro getline_join) (auto simp: plain_token_def)
  obtain m where m: "catMap (setVerbosity (join_comma ts) d) = Some m" "sm_find m = (\<lambda>c. if c \<in> set ts then Some True else None)"
    using verbosity_map [OF assms(1,4)] unfolding setVerbosity_def g by fastforce
  have "dom (sm_find m) = set ts" unfolding m(2) by (auto simp: dom_def)
  then have e: "(case sm_find m cat of Some v \<Rightarrow> v | None \<Rightarrow> parent_in (dom (sm_find m)) cat) = selected (set ts) cat"
    unfolding m(2) by (auto simp: selected_def)
  show ?thesis using showCat_eq [OF m(1) assms(5)] unfolding e .
qed

theorem verbosity_selects_witness:
  "(\<exists>d'. showCat (Some ''hook:read'') (setVerbosity ''mero,hook'' debug_init) = Inr (True, d')) \<and>
   (\<exists>d'. showCat (Some ''hooks'') (setVerbosity ''mero,hook'' debug_init) = Inr (False, d'))"
proof -
  let ?ts = "[''mero'', ''hook'']"
  have ok: "\<forall>t \<in> set ?ts. plain_token t" "?ts \<noteq> []" "last ?ts \<noteq> []" "catMap debug_init = Some []"
      "length ''hook:read'' < 64" "length ''hooks'' < 64"
    by (simp_all add: plain_token_def debug_init_def)
  have "selected (set ?ts) ''hook:read''" unfolding selected_def parent_in_def by (rule disjI2, rule exI [of _ 4]) (simp add: is_sep_def)
  moreover have "\<not> selected (set ?ts) ''hooks''" unfolding selected_def parent_in_def by (auto simp: is_sep_def less_Suc_eq nth_Cons')
  ultimately show ?thesis using verbosity_selects [OF ok(1-5)] verbosity_selects [OF ok(1-4,6)] by simp
qed

text \<open>An answer is remembered as an entry of the map, and the search for a parent only looks whether there is an entry: once a
  category was refused, the categories below it are shown.\<close>

theorem refused_category_shows_children:
  assumes "catMap d = Some m" "showCat (Some cat) d = Inr (False, d')" "sm_find m (cat @ CHR '':'' # sub) = None"
    and "length (cat @ CHR '':'' # sub) < 64"
  shows "\<exists>d''. showCat (Some (cat @ CHR '':'' # sub)) d' = Inr (True, d'')"
proof -
  let ?c = "cat @ CHR '':'' # sub"
  obtain m' where m': "catMap d' = Some m'" "cat \<in> dom (sm_find m')" "sm_find m' ?c = None"
    using assms(1-3) by (auto simp: showCat_def split: option.splits elim!: bindE_InrE)
  have "parent_in (dom (sm_find m')) ?c"
    unfolding parent_in_def using m'(2) by (intro exI [of _ "length cat"]) (simp add: is_sep_def)
  then show ?thesis using showCat_eq [OF m'(1) assms(4)] m'(3) by simp
qed

theorem refused_category_shows_children_witness:
  "\<exists>d' d''. showCat (Some ''net'') (setVerbosity ''mero'' debug_init) = Inr (False, d') \<and> showCat (Some ''net:poll'') d' = Inr (True, d'')"
proof -
  have g: "getline_all ''mero'' = [''mero'']" using getline_join [of "[''mero'']"] by simp
  let ?m = "[(''mero'', True)]"
  have m: "catMap (setVerbosity ''mero'' debug_init) = Some ?m" unfolding setVerbosity_def g by (simp add: verbosity_token_def enableCat_def debug_init_def)
  have "length ''net'' < 64" by simp
  from showCat_eq [OF m this] obtain d' where d': "showCat (Some ''net'') (setVerbosity ''mero'' debug_init) = Inr (False, d')"
    by (auto simp: parent_in_def is_sep_def less_Suc_eq nth_Cons')
  have "length (''net'' @ CHR '':'' # ''poll'') < 64" "sm_find ?m (''net'' @ CHR '':'' # ''poll'') = None" by simp_all
  from refused_category_shows_children [OF m d' this(2,1)] d' show ?thesis by simp
qed

section \<open>Ending the program\<close>

text \<open>
  \<open>assume\<close> with a message without percent signs: nothing happens when the condition holds, otherwise the message is
  printed on the error stream and the program ends.
\<close>

lemma assume_macro_eq:
  assumes "PERCENT \<notin> set message"
  shows "assume_macro color check message file line d =
    (if check then Inr (Silent, d)
     else Inr (AbortErr ((if line \<noteq> 0 then NEWLINE @ cstLevelPrefix color MESSAGE_FATAL @ ''At '' @ file @ '':'' @ show_int line @ '' : '' @ NEWLINE else []) @
       cstLevelPrefix color MESSAGE_FATAL @ message @ cstPostfix color @ NEWLINE), d))"
proof -
  have "toString (fmessage.truncate (Debug message file line MESSAGE_FATAL None)) = Inr message"
    using toStream_text [OF assms, of "[]" "[]"] by (simp add: toString_def toStream_def Debug_def fmessage.truncate_def emit_def)
  then show ?thesis by (simp add: assume_macro_def debug_end_def body_def located_def location_def Debug_def)
qed

text \<open>Only the levels assert and fatal end the program, and messages of these levels never return.\<close>

lemma debug_end_aborts:
  assumes "debug_end color m d = Inr (e, d')"
  shows "(\<exists>t. e = AbortOut t \<or> e = AbortErr t) \<longleftrightarrow> dm_level m = MESSAGE_ASSERT \<or> dm_level m = MESSAGE_FATAL"
  using assms by (cases "dm_level m") (auto simp: debug_end_def elim!: bindE_InrE split: if_splits option.splits)

text \<open>The token \<open>all\<close> before a name shows only that name.\<close>

lemma verbosity_all_then_name:
  assumes "plain_token t" "t \<noteq> []" "length cat < 64"
  shows "\<exists>d'. showCat (Some cat) (setVerbosity (''all,'' @ t) d) = Inr (selected {t} cat, d')"
proof -
  have "getline_all (join_comma [''all'', t]) = [''all'', t]" using assms by (intro getline_join) (auto simp: plain_token_def)
  then have g: "getline_all (''all,'' @ t) = [''all'', t]" by simp
  have m: "catMap (setVerbosity (''all,'' @ t) d) = Some [(t, True)]"
    using assms(1) unfolding setVerbosity_def g by (simp add: verbosity_token_def plain_token_def enableAll_def enableCat_def)
  have "dom (sm_find [(t, True)]) = {t}" by (auto split: if_splits)
  then show ?thesis using showCat_eq [OF m assms(3)] by (simp add: selected_def split: if_splits)
qed

end
