(* ===== verification/Mero_Init.thy ===== *)
theory Mero_Init
  imports Debug_Messages
begin

text \<open>
  Connecting to the object store: the two versions of \<open>c0appz_init\<close> that the server program calls
  (extern-deps/from-motr-sample-apps/clovis_api.c for Motr, extern-deps/from-clovis-sample-apps/clovis_api.c for Clovis), with the
  parsers of their resource files.  A file is its content; the calls of the store and the parser of its identifiers are
  arguments.  \<open>fgets\<close> cuts lines that do not fit in the buffer.
\<close>

section \<open>Reading lines\<close>

abbreviation NL :: char where "NL \<equiv> CHR 0x0A"

definition fgets :: "nat \<Rightarrow> string \<Rightarrow> (string \<times> string) option" where
  "fgets n s =
     (if s = [] then None
      else let line = takeWhile (\<lambda>c. c \<noteq> NL) s;
               r = take (n - 1) (line @ (if length line < length s then [NL] else []))
           in Some (r, drop (length r) s))"

lemma fgets_shrinks: "fgets n s = Some (r, rest) \<Longrightarrow> 1 < n \<Longrightarrow> length rest < length s"
  by (cases s) (auto simp: fgets_def Let_def min_def split: if_splits)

section \<open>The resource file of Motr\<close>

definition MAX_CONF_STR_LEN :: nat where "MAX_CONF_STR_LEN = 128"
definition MAX_CONF_PARAMS :: nat where "MAX_CONF_PARAMS = 32"

text \<open>The name and the value of a parameter.\<close>

type_synonym param = "string \<times> string"

text \<open>
  The two scans of a line: the first one succeeds for a comment and is at the end of the input for an empty line, and the code skips
  the line in both cases; the second one wants a name, an equal sign and a value.
\<close>

definition is_word :: "char \<Rightarrow> bool" where
  "is_word c \<longleftrightarrow> (let n = of_char c :: nat in 97 \<le> n \<and> n \<le> 122 \<or> n = 95 \<or> 65 \<le> n \<and> n \<le> 90 \<or> 48 \<le> n \<and> n \<le> 57)"

definition is_value :: "char \<Rightarrow> bool" where
  "is_value c \<longleftrightarrow> c \<noteq> CHR ''#'' \<and> c \<noteq> NL \<and> c \<noteq> CHR 0x0D"

definition scan_skip :: "string \<Rightarrow> bool" where
  "scan_skip s \<longleftrightarrow> (let r = dropWhile is_space s in r = [] \<or> hd r = CHR ''#'')"

definition scan_param :: "string \<Rightarrow> param option" where
  "scan_param s =
     (let r = dropWhile is_space s;
          name = takeWhile is_word r;
          r = dropWhile is_space (dropWhile is_word r)
      in if name = [] \<or> r = [] \<or> hd r \<noteq> CHR ''='' then None
         else let value = takeWhile is_value (dropWhile is_space (tl r))
              in if value = [] then None else Some (name, value))"

text \<open>\<open>None\<close> is the status \<open>-1\<close>.\<close>

function read_params :: "nat \<Rightarrow> string \<Rightarrow> param list option" where
  "read_params max_params file =
     (if max_params = 0 then Some []
      else case fgets MAX_CONF_STR_LEN file of
          None \<Rightarrow> Some []
        | Some (s, rest) \<Rightarrow>
            if scan_skip s then read_params max_params rest
            else case scan_param s of
                None \<Rightarrow> None
              | Some p \<Rightarrow> (case read_params (max_params - 1) rest of None \<Rightarrow> None | Some ps \<Rightarrow> Some (p # ps)))"
  by pat_completeness auto
termination
  by (relation "measure (\<lambda>(n, s). length s)") (auto dest!: fgets_shrinks simp: MAX_CONF_STR_LEN_def)

declare read_params.simps [simp del]

fun param_get_loop :: "string \<Rightarrow> param list \<Rightarrow> nat \<Rightarrow> string option" where
  "param_get_loop name p 0 = None"
| "param_get_loop name p (Suc n) = (if fst (p ! n) = name then Some (snd (p ! n)) else param_get_loop name p n)"

definition param_get :: "string \<Rightarrow> param list \<Rightarrow> string option" where
  "param_get name p = param_get_loop name p (length p)"

text \<open>\<open>m0_fid_sscanf\<close> is the argument \<open>fid\<close>.  The result is the status and the pools that were set.\<close>

fun pools_fids_loop :: "(string \<Rightarrow> int option) \<Rightarrow> param list \<Rightarrow> nat \<Rightarrow> nat \<Rightarrow> int list \<Rightarrow> int \<times> int list" where
  "pools_fids_loop fid p i 0 pools = (int i, pools)"
| "pools_fids_loop fid p i (Suc left) pools = (case param_get (''M0_POOL_TIER'' @ show_nat (i + 1)) p of
      None \<Rightarrow> (int i, pools)
    | Some pval \<Rightarrow> (case fid pval of None \<Rightarrow> (- 1, pools) | Some f \<Rightarrow> pools_fids_loop fid p (Suc i) left (pools[i := f])))"

definition pools_fids_set :: "(string \<Rightarrow> int option) \<Rightarrow> param list \<Rightarrow> int list \<Rightarrow> int \<times> int list" where
  "pools_fids_set fid p pools = pools_fids_loop fid p 0 16 pools"

record m0_conf =
  mc_ha_addr :: "string option"
  mc_profile :: "string option"
  mc_local_addr :: "string option"
  mc_process_fid :: "string option"
  mc_layout_id :: nat

text \<open>The names in the order of the table; the index of the instance is part of two of them.\<close>

definition conf_names :: "nat \<Rightarrow> string list" where
  "conf_names idx = [''HA_ENDPOINT_ADDR'', ''PROFILE_FID'', ''LOCAL_ENDPOINT_ADDR'' @ show_nat idx, ''LOCAL_PROC_FID'' @ show_nat idx]"

definition set_conf :: "nat \<Rightarrow> string option \<Rightarrow> m0_conf \<Rightarrow> m0_conf" where
  "set_conf i v c =
     (if i = 0 then c\<lparr>mc_ha_addr := v\<rparr> else if i = 1 then c\<lparr>mc_profile := v\<rparr>
      else if i = 2 then c\<lparr>mc_local_addr := v\<rparr> else c\<lparr>mc_process_fid := v\<rparr>)"

fun read_conf_loop :: "param list \<Rightarrow> nat \<Rightarrow> string list \<Rightarrow> m0_conf \<Rightarrow> int \<times> m0_conf" where
  "read_conf_loop p i [] c = (0, c)"
| "read_conf_loop p i (name # names) c =
     (let v = param_get name p; c = set_conf i v c in
      if v = None then (- 22, c) else read_conf_loop p (Suc i) names c)"

definition read_conf_params :: "nat \<Rightarrow> param list \<Rightarrow> m0_conf \<Rightarrow> int \<times> m0_conf" where
  "read_conf_params idx p c = read_conf_loop p 0 (conf_names idx) c"

text \<open>
  What the initialisation depends on: the content of the file (or the error of \<open>fopen\<close>), the parser of identifiers, the layout of a
  unit size and the statuses of the client and of its root realm.
\<close>

record motr_env =
  me_file :: "int + string"
  me_fid :: "string \<Rightarrow> int option"
  me_layout :: "nat \<Rightarrow> nat"
  me_client_init :: "m0_conf \<Rightarrow> int"
  me_realm :: int

record motr_instance =
  mi_conf :: m0_conf
  mi_pools :: "int list"
  mi_unit_size :: nat

definition motr_init :: "motr_env \<Rightarrow> nat \<Rightarrow> motr_instance \<Rightarrow> int \<times> motr_instance" where
  "motr_init e idx g = (case me_file e of
       Inl errno \<Rightarrow> (- errno, g)
     | Inr file \<Rightarrow> (case read_params MAX_CONF_PARAMS file of
         None \<Rightarrow> (- 1, g)
       | Some ps \<Rightarrow>
           let (rc, pools) = pools_fids_set (me_fid e) ps (mi_pools g); g = g\<lparr>mi_pools := pools\<rparr> in
           if rc \<le> 0 then (- 22, g)
           else let (rc, c) = read_conf_params idx ps (mi_conf g); g = g\<lparr>mi_conf := c\<rparr> in
           if rc \<noteq> 0 then (rc, g)
           else let g = g\<lparr>mi_conf := (mi_conf g)\<lparr>mc_layout_id := 0\<rparr>\<rparr>; lid = me_layout e (mi_unit_size g * 1024) in
           if mi_unit_size g \<noteq> 0 \<and> lid = 0 then (- 22, g)
           else let g = (if mi_unit_size g \<noteq> 0 then g\<lparr>mi_conf := (mi_conf g)\<lparr>mc_layout_id := lid\<rparr>\<rparr> else g);
                    rc = me_client_init e (mi_conf g)
           in if rc \<noteq> 0 then (rc, g) else (me_realm e, g)))"

section \<open>The resource file of Clovis\<close>

definition MAXC0RC :: nat where "MAXC0RC = 4"
definition SZC0RCSTR :: nat where "SZC0RCSTR = 256"

definition trim :: "string \<Rightarrow> string" where
  "trim s =
     (let s = dropWhile is_space s in
      if s = [] then [] else hd s # rev (dropWhile is_space (rev (tl s))))"

text \<open>A line that is neither a comment nor empty.\<close>

definition counts :: "string \<Rightarrow> bool" where
  "counts str \<longleftrightarrow> \<not> (str \<noteq> [] \<and> hd str = CHR ''#'') \<and> str \<noteq> []"

function skip_rows :: "nat \<Rightarrow> nat \<Rightarrow> string \<Rightarrow> string" where
  "skip_rows i n file =
     (if i \<noteq> n then (case fgets SZC0RCSTR file of
          None \<Rightarrow> file
        | Some (buf, rest) \<Rightarrow> skip_rows (if counts (trim buf) then Suc i else i) n rest)
      else file)"
  by pat_completeness auto
termination
  by (relation "measure (\<lambda>(i, n, s). length s)") (auto dest!: fgets_shrinks simp: SZC0RCSTR_def)

function read_rows :: "nat \<Rightarrow> string list \<Rightarrow> string \<Rightarrow> string list" where
  "read_rows i rows file = (case fgets SZC0RCSTR file of
       None \<Rightarrow> rows
     | Some (buf, rest) \<Rightarrow>
         let str = trim buf in
         if \<not> counts str then read_rows i rows rest
         else if Suc i = MAXC0RC then rows @ [str] else read_rows (Suc i) (rows @ [str]) rest)"
  by pat_completeness auto
termination
  by (relation "measure (\<lambda>(i, rows, s). length s)") (auto dest!: fgets_shrinks simp: SZC0RCSTR_def)

declare skip_rows.simps [simp del] read_rows.simps [simp del]

record clovis_conf =
  cc_local_addr :: string
  cc_ha_addr :: string
  cc_profile :: string
  cc_process_fid :: string
  cc_layout :: nat

definition clovis_init :: "string option \<Rightarrow> (clovis_conf \<Rightarrow> int) \<Rightarrow> int \<Rightarrow> nat \<Rightarrow> int \<times> clovis_conf option" where
  "clovis_init file m0_clovis_init realm idx = (case file of
       None \<Rightarrow> (1, None)
     | Some file \<Rightarrow>
         let c0rc = read_rows 0 [] (skip_rows 0 (idx * MAXC0RC) file) in
         if length c0rc \<noteq> MAXC0RC then (2, None)
         else let conf = \<lparr>cc_local_addr = c0rc ! 0, cc_ha_addr = c0rc ! 1, cc_profile = c0rc ! 2, cc_process_fid = c0rc ! 3, cc_layout = 9\<rparr>;
                  rc = m0_clovis_init conf
              in if rc \<noteq> 0 then (rc, Some conf) else (realm, Some conf))"

section \<open>Parameters\<close>

lemma param_get_last: "param_get name ps = map_of (rev ps) name"
proof -
  have "n \<le> length ps \<Longrightarrow> param_get_loop name ps n = map_of (rev (take n ps)) name" for n
    by (induction n) (auto simp: take_Suc_conv_app_nth)
  then show ?thesis by (simp add: param_get_def)
qed

definition param_ok :: "param \<Rightarrow> bool" where
  "param_ok p \<longleftrightarrow> fst p \<noteq> [] \<and> (\<forall>c \<in> set (fst p). is_word c) \<and> snd p \<noteq> [] \<and> (\<forall>c \<in> set (snd p). is_value c) \<and> \<not> is_space (hd (snd p)) \<and>
     length (fst p) + length (snd p) < 124"

definition param_line :: "param \<Rightarrow> string" where
  "param_line p = fst p @ '' = '' @ snd p @ [NL]"

lemma is_word_plain: "is_word c \<Longrightarrow> \<not> is_space c \<and> c \<noteq> CHR ''#'' \<and> c \<noteq> CHR ''='' \<and> c \<noteq> NL"
  by (auto simp: is_word_def is_space_def Let_def)

lemma fgets_line: "NL \<notin> set l \<Longrightarrow> length l + 1 < n \<Longrightarrow> fgets n (l @ NL # rest) = Some (l @ [NL], rest)"
proof -
  assume l: "NL \<notin> set l" "length l + 1 < n"
  then have "takeWhile (\<lambda>c. c \<noteq> NL) (l @ NL # rest) = l" by (subst takeWhile_append2) auto
  then show ?thesis using l(2) by (simp add: fgets_def Let_def)
qed

lemma line_fits:
  assumes "param_ok p"
  shows "fgets MAX_CONF_STR_LEN (param_line p @ rest) = Some (param_line p, rest)"
proof -
  let ?l = "fst p @ '' = '' @ snd p"
  have "NL \<notin> set ?l" using assms is_word_plain by (auto simp: param_ok_def is_value_def)
  from fgets_line [OF this, of MAX_CONF_STR_LEN rest] assms show ?thesis by (simp add: param_line_def param_ok_def MAX_CONF_STR_LEN_def)
qed

lemma line_scanned:
  assumes "param_ok p"
  shows "\<not> scan_skip (param_line p)" "scan_param (param_line p) = Some p"
proof -
  obtain c name where n: "fst p = c # name" using assms by (cases "fst p") (auto simp: param_ok_def)
  have c: "\<not> is_space c" "c \<noteq> CHR ''#''" using assms n is_word_plain [of c] by (auto simp: param_ok_def)
  then have d: "dropWhile is_space (param_line p) = param_line p" by (simp add: param_line_def n)
  then show "\<not> scan_skip (param_line p)" using c(2) by (simp add: scan_skip_def param_line_def n)
  have sp: "is_space CHR '' ''" "\<not> is_space CHR ''=''" "\<not> is_word CHR '' ''" "\<not> is_value NL" by (simp_all add: is_space_def is_word_def is_value_def)
  have w: "\<forall>c \<in> set (fst p). is_word c" and v: "\<forall>c \<in> set (snd p). is_value c" "snd p \<noteq> []" "\<not> is_space (hd (snd p))"
    using assms by (auto simp: param_ok_def)
  have name: "takeWhile is_word (param_line p) = fst p" "dropWhile is_word (param_line p) = '' = '' @ snd p @ [NL]"
    unfolding param_line_def using w sp by (simp_all add: takeWhile_append2 dropWhile_append2)
  have "dropWhile is_space (snd p @ [NL]) = snd p @ [NL]" using v(2,3) by (cases "snd p") auto
  moreover have "takeWhile is_value (snd p @ [NL]) = snd p" using v(1) sp by (simp add: takeWhile_append2)
  ultimately show "scan_param (param_line p) = Some p"
    using sp v(2) n by (simp add: scan_param_def d name) (metis n prod.collapse)
qed

text \<open>A resource file with one line per parameter is read back as the parameters.\<close>

lemma params_read:
  "\<forall>p \<in> set ps. param_ok p \<Longrightarrow> length ps \<le> n \<Longrightarrow> read_params n (concat (map param_line ps)) = Some ps"
proof (induction ps arbitrary: n)
  case Nil
  then show ?case by (subst read_params.simps) (simp add: fgets_def)
next
  case (Cons p ps)
  have p: "param_ok p" using Cons.prems by simp
  have "read_params (n - 1) (concat (map param_line ps)) = Some ps" using Cons by auto
  then show ?case using Cons.prems(2) line_fits [OF p] line_scanned [OF p] by (subst read_params.simps) simp
qed

lemma read_conf_spec:
  "read_conf_params idx ps c = (0, c') \<Longrightarrow>
   (\<forall>name \<in> set (conf_names idx). param_get name ps \<noteq> None) \<and>
   [mc_ha_addr c', mc_profile c', mc_local_addr c', mc_process_fid c'] = map (\<lambda>name. param_get name ps) (conf_names idx)"
  by (auto simp: read_conf_params_def conf_names_def Let_def set_conf_def split: if_splits)

lemma read_conf_complete:
  "\<forall>name \<in> set (conf_names idx). param_get name ps \<noteq> None \<Longrightarrow> fst (read_conf_params idx ps c) = 0"
  by (auto simp: read_conf_params_def conf_names_def Let_def)

text \<open>
  A successful connection to Motr uses the last value that the file gives for each of the four names, needs a first pool, and
  was accepted by the store.
\<close>

lemma motr_init_connects:
  assumes ps: "\<forall>p \<in> set ps. param_ok p" "length ps \<le> MAX_CONF_PARAMS" and fl: "me_file e = Inr (concat (map param_line ps))"
    and run: "motr_init e idx g = (0, g')"
  shows "[mc_ha_addr (mi_conf g'), mc_profile (mi_conf g'), mc_local_addr (mi_conf g'), mc_process_fid (mi_conf g')] =
      map (map_of (rev ps)) (conf_names idx)"
    "None \<notin> set (map (map_of (rev ps)) (conf_names idx))" "map_of (rev ps) ''M0_POOL_TIER1'' \<noteq> None" "me_client_init e (mi_conf g') = 0"
proof -
  note rd = params_read [OF ps]
  obtain rp pools where pools: "pools_fids_set (me_fid e) ps (mi_pools g) = (rp, pools)" by force
  obtain rc c where conf: "read_conf_params idx ps (mi_conf g) = (rc, c)" by force
  from run have ok: "\<not> rp \<le> 0" "rc = 0" "me_client_init e (mi_conf g') = 0" "\<exists>lid. mi_conf g' = c\<lparr>mc_layout_id := lid\<rparr>"
    by (auto simp: motr_init_def fl rd pools conf Let_def split: if_splits)
  note C = read_conf_spec [OF conf [unfolded ok(2)]]
  show "[mc_ha_addr (mi_conf g'), mc_profile (mi_conf g'), mc_local_addr (mi_conf g'), mc_process_fid (mi_conf g')] =
      map (map_of (rev ps)) (conf_names idx)"
    using C ok(4) by (auto simp: param_get_last)
  show "None \<notin> set (map (map_of (rev ps)) (conf_names idx))" using C by (auto simp: param_get_last)
  show "map_of (rev ps) ''M0_POOL_TIER1'' \<noteq> None"
  proof
    assume "map_of (rev ps) ''M0_POOL_TIER1'' = None"
    moreover have "show_nat 1 = ''1''" by code_simp
    ultimately have "pools_fids_loop (me_fid e) ps 0 (Suc 15) (mi_pools g) = (0, mi_pools g)"
      by (subst pools_fids_loop.simps) (simp add: param_get_last)
    moreover have "Suc 15 = (16 :: nat)" by simp
    ultimately show False using ok(1) pools unfolding pools_fids_set_def by simp
  qed
  show "me_client_init e (mi_conf g') = 0" by (rule ok(3))
qed

section \<open>Rows\<close>

text \<open>The lines as \<open>fgets\<close> gives them, and the rows of the file among them.\<close>

function fgets_lines :: "string \<Rightarrow> string list" where
  "fgets_lines src = (case fgets SZC0RCSTR src of None \<Rightarrow> [] | Some (buf, rest) \<Rightarrow> buf # fgets_lines rest)"
  by pat_completeness auto
termination
  by (relation "measure length") (auto dest!: fgets_shrinks simp: SZC0RCSTR_def)

declare fgets_lines.simps [simp del]

definition rc_rows :: "string \<Rightarrow> string list" where
  "rc_rows src = filter counts (map trim (fgets_lines src))"

lemma rc_rows_step:
  "fgets SZC0RCSTR src = None \<Longrightarrow> rc_rows src = []"
  "fgets SZC0RCSTR src = Some (buf, rest) \<Longrightarrow> rc_rows src = (if counts (trim buf) then trim buf # rc_rows rest else rc_rows rest)"
  by (simp_all add: rc_rows_def fgets_lines.simps [of src])

lemma skip_rows_eq: "i \<le> n \<Longrightarrow> rc_rows (skip_rows i n src) = drop (n - i) (rc_rows src)"
proof (induction i n src rule: skip_rows.induct)
  case (1 i n src)
  show ?case
  proof (cases "i = n \<or> fgets SZC0RCSTR src = None")
    case True
    then show ?thesis using rc_rows_step(1) [of src] by (subst skip_rows.simps) auto
  next
    case False
    then obtain buf rest where f: "fgets SZC0RCSTR src = Some (buf, rest)" "i \<noteq> n" by auto
    have "rc_rows (skip_rows (if counts (trim buf) then Suc i else i) n rest) = drop (n - (if counts (trim buf) then Suc i else i)) (rc_rows rest)"
      by (rule "1.IH" [OF f(2,1) refl]) (use "1.prems" f(2) in auto)
    then show ?thesis using f rc_rows_step(2) [OF f(1)] "1.prems" Suc_diff_Suc [of i n]
      by (subst skip_rows.simps) (cases "n - i"; auto)
  qed
qed

lemma read_rows_eq: "i < MAXC0RC \<Longrightarrow> read_rows i rows src = rows @ take (MAXC0RC - i) (rc_rows src)"
proof (induction i rows src rule: read_rows.induct)
  case (1 i rows src)
  show ?case
  proof (cases "fgets SZC0RCSTR src")
    case None
    then show ?thesis by (subst read_rows.simps) (simp add: rc_rows_step)
  next
    case (Some br)
    then obtain buf rest where f: "fgets SZC0RCSTR src = Some (buf, rest)" by (cases br) simp
    note IH = "1.IH" [OF f refl refl]
    show ?thesis
    proof (cases "counts (trim buf)")
      case False
      then show ?thesis using IH(1) "1.prems" rc_rows_step(2) [OF f] by (subst read_rows.simps) (simp add: f)
    next
      case True
      then show ?thesis using IH(2) "1.prems" rc_rows_step(2) [OF f] by (subst read_rows.simps) (cases "Suc i = MAXC0RC"; simp add: f Suc_diff_Suc [symmetric])
    qed
  qed
qed

text \<open>The Clovis initialisation of instance \<open>idx\<close> uses the four rows from \<open>4 * idx\<close> on.\<close>

lemma clovis_init_rows:
  "clovis_init (Some src) init realm idx =
     (let rows = take 4 (drop (4 * idx) (rc_rows src)) in
      if length rows \<noteq> 4 then (2, None)
      else let conf = \<lparr>cc_local_addr = rows ! 0, cc_ha_addr = rows ! 1, cc_profile = rows ! 2, cc_process_fid = rows ! 3, cc_layout = 9\<rparr>;
               rc = init conf in if rc \<noteq> 0 then (rc, Some conf) else (realm, Some conf))"
  unfolding clovis_init_def option.case Let_def
  by (simp add: read_rows_eq skip_rows_eq MAXC0RC_def mult.commute)

end
