(* ===== verification/Serializer.thy ===== *)
theory Serializer
  imports IOC_Prelude
begin

text \<open>
  The serializer of the network messages (src/base/network/Serializer.hpp and
  Serializer_inlined.hpp).  One description of the fields of a struct packs it into a message
  buffer, unpacks it, computes its size or prints it, according to the action of the
  serializer.

  A message buffer is its byte content; \<open>ser_size\<close> is the size the caller announced, and a
  copy outside the real buffer is an error of its own.  A \<open>const char *\<close> to the data of a
  message is the list of the bytes readable from it (\<open>None\<close> for \<open>NULL\<close>): unpacking such a
  field points into the message buffer and copies nothing.  The output stream of the
  printing action is the list of the printed items.

  The lemmas describe each field operation by the two views a caller has: \<open>emit\<close>, appending
  bytes to the packed message, and \<open>ser_rest\<close>, the bytes still to be unpacked.
\<close>

section \<open>Little endian integers\<close>

text \<open>What \<open>memcpy\<close> copies out of and into an integer variable.\<close>

fun le_bytes :: "nat \<Rightarrow> nat \<Rightarrow> byte list" where
  "le_bytes 0 v = []"
| "le_bytes (Suc k) v = of_nat (v mod 256) # le_bytes k (v div 256)"

fun le_value :: "byte list \<Rightarrow> nat" where
  "le_value [] = 0"
| "le_value (b # bs) = unat b + 256 * le_value bs"

definition int_bytes :: "nat \<Rightarrow> int \<Rightarrow> byte list" where
  "int_bytes k i = le_bytes k (nat (i mod 256 ^ k))"

definition int_value :: "byte list \<Rightarrow> int" where
  "int_value bs = (let v = int (le_value bs); m = 256 ^ length bs in if 2 * v < m then v else v - m)"

lemma length_le_bytes [simp]: "length (le_bytes k v) = k"
  by (induction k arbitrary: v) auto

lemma length_int_bytes [simp]: "length (int_bytes k v) = k"
  by (simp add: int_bytes_def)

lemma le_value_bytes: "le_value (le_bytes k v) = v mod 256 ^ k"
proof (induction k arbitrary: v)
  case (Suc k)
  have "unat (of_nat (v mod 256) :: byte) = v mod 256" by (simp add: unat_of_nat)
  then show ?case using Suc by (simp add: mod_mult2_eq)
qed simp

lemma le_value_bytes_id [simp]: "v < 256 ^ k \<Longrightarrow> le_value (le_bytes k v) = v"
  by (simp add: le_value_bytes)

lemma le_value_less: "le_value bs < 256 ^ length bs"
proof (induction bs)
  case (Cons b bs)
  have "unat b < 256" using unsigned_less [of b] by (simp add: nat_less_iff)
  with Cons show ?case by simp
qed simp

lemma le_bytes_value: "le_bytes (length bs) (le_value bs) = bs"
proof (induction bs)
  case (Cons b bs)
  have "unat b < 256" using unsigned_less [of b] by (simp add: nat_less_iff)
  then show ?case using Cons by simp
qed simp

lemma int_value_bytes [simp]:
  assumes "0 < k" "- (256 ^ k) \<le> 2 * i" "2 * i < 256 ^ k"
  shows "int_value (int_bytes k i) = i"
proof -
  have "nat (i mod 256 ^ k) < 256 ^ k" by (simp add: nat_less_iff)
  then have "int_value (int_bytes k i) = (if 2 * (i mod 256 ^ k) < 256 ^ k then i mod 256 ^ k else i mod 256 ^ k - 256 ^ k)"
    by (simp add: int_value_def int_bytes_def Let_def)
  also have "\<dots> = i"
  proof (cases "0 \<le> i")
    case False
    then have "(i + 256 ^ k) mod 256 ^ k = i + 256 ^ k" using assms(2) by (intro mod_pos_pos_trivial) auto
    then have "i mod 256 ^ k = i + 256 ^ k" by simp
    then show ?thesis using assms(2) False by auto
  qed (use assms(3) in simp)
  finally show ?thesis .
qed

section \<open>State\<close>

datatype SerializerAction =
    SERIALIZER_PACK
  | SERIALIZER_UNPACK
  | SERIALIZER_STRINGIFY
  | SERIALIZER_SIZE
  | SERIALIZER_UNSET

text \<open>Bytes readable from a pointer, and what \<open>operator <<\<close> prints.\<close>

type_synonym data_ptr = "byte list option"

datatype out_item = Text string | Number int | Pointer data_ptr

record SerializerBase =
  ser_buffer :: "byte list option"
  ser_size :: size_t
  ser_cursor :: size_t
  ser_action :: SerializerAction
  ser_out :: "out_item list"
  ser_outFirst :: bool
  ser_root :: bool

type_synonym 'a applier = "'a \<Rightarrow> SerializerBase \<Rightarrow> ('a \<times> SerializerBase) result"

definition SerializerBase_init :: "byte list option \<Rightarrow> size_t \<Rightarrow> SerializerAction \<Rightarrow> SerializerBase result" where
  "SerializerBase_init buffer n action =
     bindE (if action \<noteq> SERIALIZER_UNSET \<and> action \<noteq> SERIALIZER_SIZE
            then bindE (assertE (buffer \<noteq> None) ''buffer != NULL'') (\<lambda>_. assertE (n > 0) ''size > 0'')
            else Inr ()) (\<lambda>_.
     bindE (assertE (action \<noteq> SERIALIZER_STRINGIFY) ''action != SERIALIZER_STRINGIFY'') (\<lambda>_.
     Inr \<lparr>ser_buffer = buffer, ser_size = n, ser_cursor = 0, ser_action = action, ser_out = [],
          ser_outFirst = False, ser_root = True\<rparr>))"

definition SerializerBase_stream :: SerializerBase where
  "SerializerBase_stream =
     \<lparr>ser_buffer = None, ser_size = 0, ser_cursor = 0, ser_action = SERIALIZER_STRINGIFY, ser_out = [],
      ser_outFirst = True, ser_root = True\<rparr>"

definition Serializer_make :: "byte list option \<Rightarrow> size_t \<Rightarrow> SerializerBase result" where
  "Serializer_make buffer n = SerializerBase_init buffer n SERIALIZER_PACK"

definition DeSerializer_make :: "byte list option \<Rightarrow> size_t \<Rightarrow> SerializerBase result" where
  "DeSerializer_make buffer n = SerializerBase_init buffer n SERIALIZER_UNPACK"

definition getCursor :: "SerializerBase \<Rightarrow> size_t" where
  "getCursor s = ser_cursor s"

definition getAction :: "SerializerBase \<Rightarrow> SerializerAction" where
  "getAction s = ser_action s"

section \<open>Operations\<close>

definition action_defined :: "SerializerAction \<Rightarrow> bool" where
  "action_defined a \<longleftrightarrow> a = SERIALIZER_PACK \<or> a = SERIALIZER_UNPACK \<or> a = SERIALIZER_STRINGIFY \<or> a = SERIALIZER_SIZE"

definition checkSize :: "string \<Rightarrow> size_t \<Rightarrow> SerializerBase \<Rightarrow> unit result" where
  "checkSize fieldName n s =
     (if ser_action s \<noteq> SERIALIZER_STRINGIFY then
        let requested = add64 (ser_cursor s) n in
        assumeE (requested \<le> ser_size s) (''Buffer is too small to get the new entry for field '' @ fieldName)
      else Inr ())"

text \<open>The two \<open>memcpy\<close> directions, at the cursor.\<close>

definition ser_put :: "byte list \<Rightarrow> SerializerBase \<Rightarrow> SerializerBase result" where
  "ser_put bs s = (case ser_buffer s of
     None \<Rightarrow> Inl NullDereference
   | Some buf \<Rightarrow> if ser_cursor s + length bs \<le> length buf
       then Inr (s\<lparr>ser_buffer := Some (patch (ser_cursor s) bs buf)\<rparr>) else Inl OutOfBounds)"

definition ser_get :: "size_t \<Rightarrow> SerializerBase \<Rightarrow> byte list result" where
  "ser_get n s = (case ser_buffer s of
     None \<Rightarrow> Inl NullDereference
   | Some buf \<Rightarrow> if ser_cursor s + n \<le> length buf then Inr (slice (ser_cursor s) n buf) else Inl OutOfBounds)"

definition data_read :: "size_t \<Rightarrow> data_ptr \<Rightarrow> byte list result" where
  "data_read n p = (case p of
     None \<Rightarrow> Inl NullDereference
   | Some xs \<Rightarrow> if n \<le> length xs then Inr (take n xs) else Inl OutOfBounds)"

definition ser_print :: "string \<Rightarrow> out_item list \<Rightarrow> SerializerBase \<Rightarrow> SerializerBase" where
  "ser_print fieldName items s =
     s\<lparr>ser_out := ser_out s @ [Text (if ser_outFirst s then [] else '', ''), Text fieldName, Text '': ''] @ items\<rparr>"

definition ser_move :: "size_t \<Rightarrow> SerializerBase \<Rightarrow> SerializerBase" where
  "ser_move n s = s\<lparr>ser_cursor := add64 (ser_cursor s) n\<rparr>"

definition not_first :: "SerializerBase \<Rightarrow> SerializerBase" where
  "not_first s = s\<lparr>ser_outFirst := False\<rparr>"

text \<open>
  The body shared by the five overloads on a value of fixed size \<open>n\<close>: \<open>enc\<close> and \<open>dec\<close> are the
  bytes of the variable, \<open>shown\<close> what the stream prints of it.
\<close>

definition apply_fixed ::
  "nat \<Rightarrow> ('a \<Rightarrow> byte list) \<Rightarrow> (byte list \<Rightarrow> 'a) \<Rightarrow> ('a \<Rightarrow> out_item) \<Rightarrow> string \<Rightarrow> 'a applier" where
  "apply_fixed n enc dec shown fieldName value s =
     bindE (assertE (action_defined (ser_action s)) ''SERIALIZER_ACTION_DEFINED'') (\<lambda>_.
     bindE (checkSize fieldName n s) (\<lambda>_.
     bindE (case ser_action s of
              SERIALIZER_PACK \<Rightarrow> bindE (ser_put (enc value) s) (\<lambda>s. Inr (value, s))
            | SERIALIZER_UNPACK \<Rightarrow> bindE (ser_get n s) (\<lambda>bs. Inr (dec bs, s))
            | SERIALIZER_STRINGIFY \<Rightarrow> Inr (value, ser_print fieldName [shown value] s)
            | SERIALIZER_SIZE \<Rightarrow> Inr (value, s)
            | SERIALIZER_UNSET \<Rightarrow> Inl (AssumeFailed ''Unsupported action'')) (\<lambda>(value, s).
     Inr (value, not_first (ser_move n s)))))"

definition apply_bool :: "string \<Rightarrow> bool applier" where
  "apply_bool = apply_fixed 1 (\<lambda>v. [if v then 1 else 0]) (\<lambda>bs. hd bs \<noteq> 0) (\<lambda>v. Text (if v then ''true'' else ''false''))"

definition apply_uint32 :: "string \<Rightarrow> nat applier" where
  "apply_uint32 = apply_fixed 4 (le_bytes 4) le_value (\<lambda>v. Number (int v))"

definition apply_int32 :: "string \<Rightarrow> int applier" where
  "apply_int32 = apply_fixed 4 (int_bytes 4) int_value Number"

definition apply_int64 :: "string \<Rightarrow> int applier" where
  "apply_int64 = apply_fixed 8 (int_bytes 8) int_value Number"

definition apply_uint64 :: "string \<Rightarrow> nat applier" where
  "apply_uint64 = apply_fixed 8 (le_bytes 8) le_value (\<lambda>v. Number (int v))"

text \<open>\<open>apply(fieldName, const void * buffer, size)\<close>: packing only.\<close>

definition apply_const :: "string \<Rightarrow> data_ptr \<Rightarrow> size_t \<Rightarrow> SerializerBase \<Rightarrow> SerializerBase result" where
  "apply_const fieldName buffer n s =
     bindE (assertE (buffer \<noteq> None) ''buffer != NULL'') (\<lambda>_.
     bindE (assertE (action_defined (ser_action s)) ''SERIALIZER_ACTION_DEFINED'') (\<lambda>_.
     bindE (assertE (ser_action s \<noteq> SERIALIZER_UNPACK) ''this->action != SERIALIZER_UNPACK'') (\<lambda>_.
     bindE (checkSize fieldName n s) (\<lambda>_.
     bindE (case ser_action s of
              SERIALIZER_PACK \<Rightarrow> bindE (data_read n buffer) (\<lambda>bs. ser_put bs s)
            | SERIALIZER_STRINGIFY \<Rightarrow> Inr (ser_print fieldName [Text [CHR 0x22], Pointer buffer, Text [CHR 0x22]] s)
            | SERIALIZER_SIZE \<Rightarrow> Inr s
            | _ \<Rightarrow> Inl (AssumeFailed ''Unsupported unpack action !'')) (\<lambda>s.
     Inr (not_first (ser_move n s)))))))"

text \<open>\<open>apply(fieldName, void * buffer, size)\<close>: the buffer is overwritten when unpacking.\<close>

definition apply_raw :: "string \<Rightarrow> size_t \<Rightarrow> data_ptr applier" where
  "apply_raw fieldName n buffer s =
     bindE (assertE (buffer \<noteq> None) ''buffer != NULL'') (\<lambda>_.
     bindE (assertE (action_defined (ser_action s)) ''SERIALIZER_ACTION_DEFINED'') (\<lambda>_.
     bindE (checkSize fieldName n s) (\<lambda>_.
     bindE (case ser_action s of
              SERIALIZER_PACK \<Rightarrow> bindE (data_read n buffer) (\<lambda>bs. bindE (ser_put bs s) (\<lambda>s. Inr (buffer, s)))
            | SERIALIZER_UNPACK \<Rightarrow>
                bindE (ser_get n s) (\<lambda>bs.
                bindE (data_read n buffer) (\<lambda>_. Inr (map_option (patch 0 bs) buffer, s)))
            | SERIALIZER_STRINGIFY \<Rightarrow> Inr (buffer, ser_print fieldName [Pointer buffer] s)
            | SERIALIZER_SIZE \<Rightarrow> Inr (buffer, s)
            | SERIALIZER_UNSET \<Rightarrow> Inl (AssumeFailed ''Unsupported action'')) (\<lambda>(buffer, s).
     Inr (buffer, not_first (ser_move n s))))))"

text \<open>Unpacking points into the message buffer.\<close>

definition serializeOrPoint :: "string \<Rightarrow> size_t \<Rightarrow> data_ptr applier" where
  "serializeOrPoint fieldName n buffer s =
     bindE (assertE (action_defined (ser_action s)) ''SERIALIZER_ACTION_DEFINED'') (\<lambda>_.
     bindE (checkSize fieldName n s) (\<lambda>_.
     bindE (case ser_action s of
              SERIALIZER_PACK \<Rightarrow> bindE (data_read n buffer) (\<lambda>bs. bindE (ser_put bs s) (\<lambda>s. Inr (buffer, s)))
            | SERIALIZER_UNPACK \<Rightarrow> Inr (map_option (drop (ser_cursor s)) (ser_buffer s), s)
            | SERIALIZER_STRINGIFY \<Rightarrow> Inr (buffer, ser_print fieldName [Pointer buffer] s)
            | SERIALIZER_SIZE \<Rightarrow> Inr (buffer, s)
            | SERIALIZER_UNSET \<Rightarrow> Inl (AssumeFailed ''Unsupported action'')) (\<lambda>(buffer, s).
     Inr (buffer, ser_move n s))))"

text \<open>Strings: the length with its terminator, then the characters.\<close>

definition c_str :: "string \<Rightarrow> byte list" where
  "c_str v = map (\<lambda>c. of_nat (of_char c)) v @ [0]"

definition str_of :: "byte list \<Rightarrow> string" where
  "str_of bs = map (\<lambda>b. char_of (unat b)) (takeWhile (\<lambda>b. b \<noteq> 0) bs)"

definition apply_string_const :: "string \<Rightarrow> string \<Rightarrow> SerializerBase \<Rightarrow> SerializerBase result" where
  "apply_string_const fieldName value s =
     bindE (assertE (action_defined (ser_action s)) ''SERIALIZER_ACTION_DEFINED'') (\<lambda>_.
     bindE (assertE (ser_action s \<noteq> SERIALIZER_UNPACK) ''this->action != SERIALIZER_UNPACK'') (\<lambda>_.
     bindE (case ser_action s of
              SERIALIZER_PACK \<Rightarrow>
                let len = length value + 1 in
                bindE (checkSize fieldName (add64 4 len) s) (\<lambda>_.
                bindE (apply_uint64 fieldName len s) (\<lambda>(_, s).
                apply_const fieldName (Some (c_str value)) len s))
            | SERIALIZER_STRINGIFY \<Rightarrow> Inr (ser_print fieldName [Text [CHR 0x22], Text value, Text [CHR 0x22]] s)
            | SERIALIZER_SIZE \<Rightarrow> Inr s
            | _ \<Rightarrow> Inl (AssumeFailed ''Unsupported unpack action !'')) (\<lambda>s.
     Inr (not_first s))))"

definition apply_string :: "string \<Rightarrow> string applier" where
  "apply_string fieldName value s =
     bindE (assertE (action_defined (ser_action s)) ''SERIALIZER_ACTION_DEFINED'') (\<lambda>_.
     bindE (case ser_action s of
              SERIALIZER_PACK \<Rightarrow> bindE (apply_string_const fieldName value s) (\<lambda>s. Inr (value, s))
            | SERIALIZER_UNPACK \<Rightarrow>
                bindE (apply_uint64 fieldName 0 s) (\<lambda>(len, s).
                bindE (checkSize fieldName len s) (\<lambda>_.
                bindE (case ser_buffer s of None \<Rightarrow> Inl NullDereference | Some buf \<Rightarrow> Inr buf) (\<lambda>buf.
                bindE (if len = 0 \<or> length buf < ser_cursor s + len then Inl OutOfBounds
                       else Inr (buf ! (ser_cursor s + len - 1))) (\<lambda>c.
                bindE (assumeE (c = 0) (''Got a non null terminated string for field '' @ fieldName)) (\<lambda>_.
                Inr (str_of (drop (ser_cursor s) buf), ser_move len s))))))
            | SERIALIZER_STRINGIFY \<Rightarrow> Inr (value, ser_print fieldName [Text [CHR 0x22], Text value, Text [CHR 0x22]] s)
            | SERIALIZER_SIZE \<Rightarrow> Inr (value, s)
            | SERIALIZER_UNSET \<Rightarrow> Inl (AssumeFailed ''Unsupported action'')) (\<lambda>(value, s).
     Inr (value, not_first s)))"

text \<open>
  The template for structs: \<open>applyDef\<close> is the member function \<open>applySerializerDef\<close> of the type.
\<close>

definition apply_struct :: "'a applier \<Rightarrow> string \<Rightarrow> 'a applier" where
  "apply_struct applyDef fieldName value s =
     (let s = (if ser_action s = SERIALIZER_STRINGIFY
               then s\<lparr>ser_out := ser_out s @ [Text (if ser_outFirst s then [] else '', ''),
                        Text (if ser_root s then [] else fieldName), Text (if ser_root s then [] else '': ''), Text ''{ ''],
                      ser_outFirst := True\<rparr>
               else s);
          s = s\<lparr>ser_root := False\<rparr>
      in
      bindE (applyDef value s) (\<lambda>(value, s).
      let s = (if ser_action s = SERIALIZER_STRINGIFY
               then s\<lparr>ser_out := ser_out s @ [Text (if ser_outFirst s then [] else '' ''), Text ''}'']\<rparr>
               else s)
      in Inr (value, not_first s)))"

definition ser_pop :: "'a applier \<Rightarrow> 'a applier" where
  "ser_pop applyDef value s = apply_struct applyDef ''pop'' value s"

definition ser_stream_out :: "'a applier \<Rightarrow> 'a applier" where
  "ser_stream_out applyDef value s = apply_struct applyDef ''operator <<'' value s"

definition stringify :: "'a applier \<Rightarrow> 'a \<Rightarrow> out_item list result" where
  "stringify applyDef value =
     bindE (apply_struct applyDef ''value'' value SerializerBase_stream) (\<lambda>(_, s). Inr (ser_out s))"

definition computeSize :: "'a applier \<Rightarrow> 'a \<Rightarrow> size_t result" where
  "computeSize applyDef value =
     bindE (SerializerBase_init None (W64 - 1) SERIALIZER_SIZE) (\<lambda>s.
     bindE (apply_struct applyDef ''value'' value s) (\<lambda>(_, s). Inr (getCursor s)))"

section \<open>Packing\<close>

definition packing :: "SerializerBase \<Rightarrow> bool" where
  "packing s \<longleftrightarrow> ser_action s = SERIALIZER_PACK \<and> ser_cursor s \<le> ser_size s \<and> ser_size s < W64 \<and>
     (\<exists>buf. ser_buffer s = Some buf \<and> ser_size s \<le> length buf)"

definition emit :: "byte list \<Rightarrow> bool \<Rightarrow> SerializerBase \<Rightarrow> SerializerBase" where
  "emit bs fl s = s\<lparr>ser_buffer := map_option (patch (ser_cursor s) bs) (ser_buffer s),
     ser_cursor := ser_cursor s + length bs, ser_outFirst := fl\<rparr>"

lemma emit_sel [simp]:
  "ser_cursor (emit bs fl s) = ser_cursor s + length bs" "ser_size (emit bs fl s) = ser_size s"
  "ser_action (emit bs fl s) = ser_action s" "ser_outFirst (emit bs fl s) = fl" "ser_root (emit bs fl s) = ser_root s"
  "not_first (emit bs fl s) = emit bs False s"
  by (simp_all add: emit_def not_first_def)

lemma patch_append:
  assumes "c + length a + length b \<le> length buf"
  shows "patch (c + length a) b (patch c a buf) = patch c (a @ b) buf"
proof -
  have "min (c + length a) c = c" by simp
  with assms show ?thesis
    by (simp add: patch_def take_drop drop_drop) (simp add: add.commute add.left_commute)
qed

lemma emit_emit [simp]:
  assumes "packing s" "ser_cursor s + length a + length b \<le> ser_size s"
  shows "emit b fl' (emit a fl s) = emit (a @ b) fl' s"
proof -
  obtain buf where "ser_buffer s = Some buf" "ser_size s \<le> length buf" using assms(1) by (auto simp: packing_def)
  with assms(2) show ?thesis by (simp add: emit_def patch_append add.assoc)
qed

lemma packing_emit [simp]:
  assumes "packing s" "ser_cursor s + length bs \<le> ser_size s"
  shows "packing (emit bs fl s)"
  using assms by (auto simp: packing_def emit_def)

lemma packing_action [simp]: "packing s \<Longrightarrow> ser_action s = SERIALIZER_PACK"
  by (simp add: packing_def)

lemma checkSize_ok [simp]:
  "ser_cursor s + n \<le> ser_size s \<Longrightarrow> ser_size s < W64 \<Longrightarrow> checkSize fn n s = Inr ()"
  by (simp add: checkSize_def)

lemma packing_checkSize [simp]:
  "packing s \<Longrightarrow> ser_cursor s + n \<le> ser_size s \<Longrightarrow> checkSize fn n s = Inr ()"
  by (simp add: packing_def)

lemma ser_put_emit:
  assumes "packing s" "ser_cursor s + length bs \<le> ser_size s"
  shows "\<exists>s'. ser_put bs s = Inr s' \<and> ser_move (length bs) s' = emit bs (ser_outFirst s) s"
proof -
  obtain buf where "ser_buffer s = Some buf" "ser_size s \<le> length buf" "ser_size s < W64"
    using assms(1) by (auto simp: packing_def)
  with assms(2) show ?thesis by (simp add: ser_put_def ser_move_def emit_def)
qed

lemma apply_fixed_pack:
  assumes "packing s" "ser_cursor s + n \<le> ser_size s" "length (enc v) = n"
  shows "apply_fixed n enc dec shown fn v s = Inr (v, emit (enc v) False s)"
proof -
  obtain s' where "ser_put (enc v) s = Inr s'" "ser_move n s' = emit (enc v) (ser_outFirst s) s"
    using ser_put_emit [of s "enc v"] assms by auto
  then show ?thesis using assms by (simp add: apply_fixed_def action_defined_def)
qed

lemma apply_scalar_pack [wire_simps]:
  "packing s \<Longrightarrow> ser_cursor s + 1 \<le> ser_size s \<Longrightarrow> apply_bool fn b s = Inr (b, emit [if b then 1 else 0] False s)"
  "packing s \<Longrightarrow> ser_cursor s + 4 \<le> ser_size s \<Longrightarrow> apply_uint32 fn v s = Inr (v, emit (le_bytes 4 v) False s)"
  "packing s \<Longrightarrow> ser_cursor s + 4 \<le> ser_size s \<Longrightarrow> apply_int32 fn i s = Inr (i, emit (int_bytes 4 i) False s)"
  "packing s \<Longrightarrow> ser_cursor s + 8 \<le> ser_size s \<Longrightarrow> apply_int64 fn i s = Inr (i, emit (int_bytes 8 i) False s)"
  "packing s \<Longrightarrow> ser_cursor s + 8 \<le> ser_size s \<Longrightarrow> apply_uint64 fn v s = Inr (v, emit (le_bytes 8 v) False s)"
  unfolding apply_bool_def apply_uint32_def apply_int32_def apply_int64_def apply_uint64_def
  by (simp_all add: apply_fixed_pack)

lemma data_read_Inr: "n \<le> length xs \<Longrightarrow> data_read n (Some xs) = Inr (take n xs)"
  by (simp add: data_read_def)

lemma apply_data_pack [wire_simps]:
  assumes "packing s" "ser_cursor s + n \<le> ser_size s" "n \<le> length xs"
  shows "apply_const fn (Some xs) n s = Inr (emit (take n xs) False s)"
    "apply_raw fn n (Some xs) s = Inr (Some xs, emit (take n xs) False s)"
    "serializeOrPoint fn n (Some xs) s = Inr (Some xs, emit (take n xs) (ser_outFirst s) s)"
proof -
  obtain s' where "ser_put (take n xs) s = Inr s'" "ser_move n s' = emit (take n xs) (ser_outFirst s) s"
    using ser_put_emit [of s "take n xs"] assms by (auto simp: min.absorb2)
  then show "apply_const fn (Some xs) n s = Inr (emit (take n xs) False s)"
    "apply_raw fn n (Some xs) s = Inr (Some xs, emit (take n xs) False s)"
    "serializeOrPoint fn n (Some xs) s = Inr (Some xs, emit (take n xs) (ser_outFirst s) s)"
    using assms
    by (simp_all add: apply_const_def apply_raw_def serializeOrPoint_def action_defined_def data_read_Inr)
qed

section \<open>Unpacking and sizes\<close>

definition unpacking :: "SerializerBase \<Rightarrow> bool" where
  "unpacking s \<longleftrightarrow> ser_action s = SERIALIZER_UNPACK \<and> ser_cursor s \<le> ser_size s \<and> ser_size s < W64 \<and>
     (\<exists>buf. ser_buffer s = Some buf \<and> ser_size s \<le> length buf)"

definition sizing :: "SerializerBase \<Rightarrow> bool" where
  "sizing s \<longleftrightarrow> ser_action s = SERIALIZER_SIZE \<and> ser_size s = W64 - 1 \<and> ser_cursor s < W64"

definition ser_rest :: "SerializerBase \<Rightarrow> byte list" where
  "ser_rest s = drop (ser_cursor s) (case ser_buffer s of None \<Rightarrow> [] | Some buf \<Rightarrow> buf)"

definition advance :: "nat \<Rightarrow> bool \<Rightarrow> SerializerBase \<Rightarrow> SerializerBase" where
  "advance n fl s = s\<lparr>ser_cursor := ser_cursor s + n, ser_outFirst := fl\<rparr>"

lemma advance_sel [simp]:
  "ser_cursor (advance n fl s) = ser_cursor s + n" "ser_size (advance n fl s) = ser_size s"
  "ser_action (advance n fl s) = ser_action s" "ser_outFirst (advance n fl s) = fl" "ser_root (advance n fl s) = ser_root s"
  "advance m fl' (advance n fl s) = advance (n + m) fl' s" "not_first (advance n fl s) = advance n False s"
  "ser_rest (advance n fl s) = drop n (ser_rest s)"
  by (simp_all add: advance_def not_first_def ser_rest_def add.assoc add.commute)

lemma unpacking_advance [simp]:
  "unpacking s \<Longrightarrow> ser_cursor s + n \<le> ser_size s \<Longrightarrow> unpacking (advance n fl s)"
  by (auto simp: unpacking_def advance_def)

lemma sizing_advance [simp]: "sizing s \<Longrightarrow> ser_cursor s + n < W64 \<Longrightarrow> sizing (advance n fl s)"
  by (auto simp: sizing_def advance_def)

lemma unpacking_facts [simp]:
  assumes "unpacking s"
  shows "ser_action s = SERIALIZER_UNPACK"
    "ser_cursor s + n \<le> ser_size s \<Longrightarrow> checkSize fn n s = Inr ()"
    "ser_cursor s + n \<le> ser_size s \<Longrightarrow> not_first (ser_move n s) = advance n False s"
    "ser_cursor s + n \<le> ser_size s \<Longrightarrow> ser_move n s = advance n (ser_outFirst s) s"
    "ser_cursor s + n \<le> ser_size s \<Longrightarrow> ser_get n s = Inr (take n (ser_rest s))"
  using assms by (auto simp: unpacking_def not_first_def ser_move_def advance_def ser_get_def ser_rest_def slice_def)

lemma sizing_facts [simp]:
  assumes "sizing s"
  shows "ser_action s = SERIALIZER_SIZE"
    "ser_cursor s + n < W64 \<Longrightarrow> checkSize fn n s = Inr ()"
    "ser_cursor s + n < W64 \<Longrightarrow> not_first (ser_move n s) = advance n False s"
    "ser_cursor s + n < W64 \<Longrightarrow> ser_move n s = advance n (ser_outFirst s) s"
  using assms by (auto simp: sizing_def not_first_def ser_move_def advance_def checkSize_def)

lemma apply_scalar_unpack [wire_simps]:
  assumes "unpacking s"
  shows "ser_cursor s + 1 \<le> ser_size s \<Longrightarrow> apply_bool fn b s = Inr (hd (take 1 (ser_rest s)) \<noteq> 0, advance 1 False s)"
    "ser_cursor s + 4 \<le> ser_size s \<Longrightarrow> apply_uint32 fn v s = Inr (le_value (take 4 (ser_rest s)), advance 4 False s)"
    "ser_cursor s + 4 \<le> ser_size s \<Longrightarrow> apply_int32 fn i s = Inr (int_value (take 4 (ser_rest s)), advance 4 False s)"
    "ser_cursor s + 8 \<le> ser_size s \<Longrightarrow> apply_int64 fn i s = Inr (int_value (take 8 (ser_rest s)), advance 8 False s)"
    "ser_cursor s + 8 \<le> ser_size s \<Longrightarrow> apply_uint64 fn v s = Inr (le_value (take 8 (ser_rest s)), advance 8 False s)"
  using assms unfolding apply_bool_def apply_uint32_def apply_int32_def apply_int64_def apply_uint64_def
  by (simp_all add: apply_fixed_def action_defined_def del: One_nat_def)

lemma apply_scalar_size [wire_simps]:
  assumes "sizing s"
  shows "ser_cursor s + 1 < W64 \<Longrightarrow> apply_bool fn b s = Inr (b, advance 1 False s)"
    "ser_cursor s + 4 < W64 \<Longrightarrow> apply_uint32 fn v s = Inr (v, advance 4 False s)"
    "ser_cursor s + 4 < W64 \<Longrightarrow> apply_int32 fn i s = Inr (i, advance 4 False s)"
    "ser_cursor s + 8 < W64 \<Longrightarrow> apply_int64 fn i s = Inr (i, advance 8 False s)"
    "ser_cursor s + 8 < W64 \<Longrightarrow> apply_uint64 fn v s = Inr (v, advance 8 False s)"
  using assms unfolding apply_bool_def apply_uint32_def apply_int32_def apply_int64_def apply_uint64_def
  by (simp_all add: apply_fixed_def action_defined_def del: One_nat_def)

lemma apply_data_unpack [wire_simps]:
  assumes "unpacking s" "ser_cursor s + n \<le> ser_size s"
  shows "n \<le> length xs \<Longrightarrow> apply_raw fn n (Some xs) s = Inr (Some (patch 0 (take n (ser_rest s)) xs), advance n False s)"
    "serializeOrPoint fn n p s = Inr (Some (ser_rest s), advance n (ser_outFirst s) s)"
  using assms by (auto simp: apply_raw_def serializeOrPoint_def action_defined_def data_read_Inr ser_rest_def unpacking_def
      simp flip: not_first_def)

lemma apply_data_size [wire_simps]:
  assumes "sizing s" "ser_cursor s + n < W64"
  shows "apply_const fn (Some xs) n s = Inr (advance n False s)"
    "apply_raw fn n (Some xs) s = Inr (Some xs, advance n False s)"
    "serializeOrPoint fn n p s = Inr (p, advance n (ser_outFirst s) s)"
  using assms by (simp_all add: apply_const_def apply_raw_def serializeOrPoint_def action_defined_def)

section \<open>Strings\<close>

lemma c_str_simps [simp]: "length (c_str v) = Suc (length v)" "take (Suc (length v)) (c_str v) = c_str v"
  by (simp_all add: c_str_def)

lemma unat_char [simp]: "unat (of_nat (of_char c) :: byte) = of_char c"
  by (simp add: unat_of_nat)

lemma char_byte_zero: "(of_nat (of_char c) :: byte) = 0 \<longleftrightarrow> c = CHR 0x00"
proof
  assume "(of_nat (of_char c) :: byte) = 0"
  then have "unat (of_nat (of_char c) :: byte) = 0" by simp
  then have "(of_char c :: nat) = of_char (CHR 0x00)" by simp
  then show "c = CHR 0x00" by (simp only: of_char_eq_iff)
qed simp

lemma str_of_c_str:
  assumes "CHR 0x00 \<notin> set v"
  shows "str_of (c_str v @ r) = v"
proof -
  have "\<forall>b \<in> set (map (\<lambda>c. of_nat (of_char c) :: byte) v). b \<noteq> 0"
    using assms by (auto simp: char_byte_zero)
  then have "takeWhile (\<lambda>b. b \<noteq> 0) (c_str v @ r) = map (\<lambda>c. of_nat (of_char c)) v"
    by (subst c_str_def, subst append_assoc, subst takeWhile_append2) auto
  then show ?thesis by (simp add: str_of_def comp_def)
qed

text \<open>
  Packing a string appends its length and its characters; the code only checks for four bytes
  of length before the characters, but the nested calls check the rest.
\<close>

lemma apply_string_pack [wire_simps]:
  assumes "packing s" "ser_cursor s + (9 + length v) \<le> ser_size s"
  shows "apply_string fn v s = Inr (v, emit (le_bytes 8 (Suc (length v)) @ c_str v) False s)"
proof -
  have "ser_size s < W64" using assms(1) by (simp add: packing_def)
  then have "add64 4 (Suc (length v)) = 5 + length v" using assms(2) by simp
  then show ?thesis
    using assms by (simp add: apply_string_def apply_string_const_def action_defined_def wire_simps)
qed

lemma apply_string_unpack [wire_simps]:
  assumes s: "unpacking s" "ser_rest s = le_bytes 8 (Suc (length v)) @ c_str v @ r"
    and fit: "ser_cursor s + (9 + length v) \<le> ser_size s" and v: "CHR 0x00 \<notin> set v"
  shows "apply_string fn v0 s = Inr (v, advance (9 + length v) False s)"
proof -
  obtain buf where buf: "ser_buffer s = Some buf" "ser_size s \<le> length buf" "ser_size s < W64"
    using s(1) by (auto simp: unpacking_def)
  let ?c = "ser_cursor s + 8"
  have len: "le_value (take 8 (ser_rest s)) = Suc (length v)" using fit buf(3) s(2) by (simp add: W64_def)
  have rest: "drop ?c buf = c_str v @ r"
    using arg_cong [OF s(2), of "drop 8"] buf(1) by (simp add: ser_rest_def add.commute)
  have "buf ! (?c + length v) = drop ?c buf ! length v" using fit buf(2) by simp
  also have "\<dots> = 0" unfolding rest by (simp add: nth_append c_str_def)
  finally have z: "buf ! (?c + length v) = 0" .
  have "unpacking (advance 8 False s)" using s(1) fit by simp
  moreover have "ser_buffer (advance 8 False s) = Some buf" using buf(1) by (simp add: advance_def)
  ultimately show ?thesis
    using s(1) fit buf(2) z rest str_of_c_str [OF v, of r] 
    by (simp add: apply_string_def action_defined_def apply_scalar_unpack len) (simp add: ac_simps numeral_eq_Suc)
qed

section \<open>Structs\<close>

lemma not_root [simp]: "\<not> ser_root s \<Longrightarrow> s\<lparr>ser_root := False\<rparr> = s"
  by (cases s) simp

text \<open>
  The contract of a member function \<open>applySerializerDef\<close>: packing appends the wire format \<open>enc\<close>
  of the struct, unpacking it restores the struct up to \<open>same\<close> (a data pointer comes back as a
  pointer into the message), and the size action counts its bytes.  \<open>ok\<close> are the values that
  can be sent, \<open>dest\<close> the variables that can receive one.
\<close>

locale wire_struct =
  fixes applyDef :: "'a applier"
    and enc :: "'a \<Rightarrow> byte list"
    and ok :: "'a \<Rightarrow> bool"
    and dest :: "'a \<Rightarrow> bool"
    and same :: "'a \<Rightarrow> 'a \<Rightarrow> bool"
  assumes pack: "ok v \<Longrightarrow> packing s \<Longrightarrow> \<not> ser_root s \<Longrightarrow> ser_cursor s + length (enc v) \<le> ser_size s \<Longrightarrow>
      \<exists>fl. applyDef v s = Inr (v, emit (enc v) fl s)"
    and unpack: "ok v \<Longrightarrow> dest v0 \<Longrightarrow> unpacking s \<Longrightarrow> \<not> ser_root s \<Longrightarrow> ser_rest s = enc v @ r \<Longrightarrow>
      ser_cursor s + length (enc v) \<le> ser_size s \<Longrightarrow>
      \<exists>fl v'. applyDef v0 s = Inr (v', advance (length (enc v)) fl s) \<and> same v v'"
begin

lemma pack_struct:
  assumes "ok v" "packing s" "ser_cursor s + length (enc v) \<le> ser_size s"
  shows "apply_struct applyDef fn v s = Inr (v, emit (enc v) False (s\<lparr>ser_root := False\<rparr>))"
proof -
  have "packing (s\<lparr>ser_root := False\<rparr>)" using assms(2) by (simp add: packing_def)
  then obtain fl where "applyDef v (s\<lparr>ser_root := False\<rparr>) = Inr (v, emit (enc v) fl (s\<lparr>ser_root := False\<rparr>))"
    using pack [of v "s\<lparr>ser_root := False\<rparr>"] assms by auto
  then show ?thesis using assms(2) by (simp add: apply_struct_def)
qed

lemma unpack_struct:
  assumes "ok v" "dest v0" "unpacking s" "ser_rest s = enc v @ r" "ser_cursor s + length (enc v) \<le> ser_size s"
  shows "\<exists>v'. apply_struct applyDef fn v0 s = Inr (v', advance (length (enc v)) False (s\<lparr>ser_root := False\<rparr>)) \<and> same v v'"
proof -
  have "unpacking (s\<lparr>ser_root := False\<rparr>)" "ser_rest (s\<lparr>ser_root := False\<rparr>) = enc v @ r"
    using assms(3,4) by (simp_all add: unpacking_def ser_rest_def)
  then obtain fl v' where "applyDef v0 (s\<lparr>ser_root := False\<rparr>) = Inr (v', advance (length (enc v)) fl (s\<lparr>ser_root := False\<rparr>))" "same v v'"
    using unpack [of v v0 "s\<lparr>ser_root := False\<rparr>" r] assms by auto
  then show ?thesis using assms(3) by (simp add: apply_struct_def)
qed

text \<open>The simplified forms for a struct that is a field of another one.\<close>

lemma nested:
  assumes "\<not> ser_root s" "ok v" "packing s" "ser_cursor s + length (enc v) \<le> ser_size s"
  shows "apply_struct applyDef fn v s = Inr (v, emit (enc v) False s)"
  using pack_struct assms by simp

lemma nested_unpack:
  assumes "\<not> ser_root s" "ok v" "dest v0" "unpacking s" "ser_rest s = enc v @ r" "ser_cursor s + length (enc v) \<le> ser_size s"
  shows "\<exists>v'. apply_struct applyDef fn v0 s = Inr (v', advance (length (enc v)) False s) \<and> same v v'"
  using unpack_struct [OF assms(2-6), of fn] assms(1) by auto

text \<open>A message packed into a buffer is unpacked from it.\<close>

lemma roundtrip:
  assumes "ok v" "dest v0" "length (enc v) \<le> n" "0 < n" "n \<le> length buf" "n < W64"
  shows "\<exists>s s' d d' v'. Serializer_make (Some buf) n = Inr s \<and> apply_struct applyDef fn v s = Inr (v, s') \<and>
    getCursor s' = length (enc v) \<and> DeSerializer_make (ser_buffer s') n = Inr d \<and>
    ser_pop applyDef v0 d = Inr (v', d') \<and> getCursor d' = length (enc v) \<and> same v v'"
proof -
  obtain s where s: "Serializer_make (Some buf) n = Inr s" "packing s" "ser_cursor s = 0" "ser_size s = n" "ser_buffer s = Some buf"
    using assms(4-6) by (simp add: Serializer_make_def SerializerBase_init_def packing_def)
  let ?s = "emit (enc v) False (s\<lparr>ser_root := False\<rparr>)"
  have p: "apply_struct applyDef fn v s = Inr (v, ?s)" using pack_struct [OF assms(1) s(2)] s(3,4) assms(3) by simp
  have b: "ser_buffer ?s = Some (patch 0 (enc v) buf)" using s(3,5) by (simp add: emit_def)
  have len: "length (patch 0 (enc v) buf) = length buf" using assms(3,5) by simp
  obtain d where d: "DeSerializer_make (ser_buffer ?s) n = Inr d" "unpacking d" "ser_cursor d = 0" "ser_size d = n"
      "ser_buffer d = Some (patch 0 (enc v) buf)"
    using assms(4-6) b len by (simp add: DeSerializer_make_def SerializerBase_init_def unpacking_def)
  have "ser_rest d = enc v @ drop (length (enc v)) buf" using d(3,5) by (simp add: ser_rest_def patch_def)
  then obtain v' where "ser_pop applyDef v0 d = Inr (v', advance (length (enc v)) False (d\<lparr>ser_root := False\<rparr>))" "same v v'"
    using unpack_struct [OF assms(1,2) d(2)] d(3,4) assms(3) unfolding ser_pop_def by auto
  then show ?thesis using s(1,3) p d(1,3) by (auto simp: getCursor_def)
qed

end

text \<open>Structs whose size the size action computes: all but the one with a string.\<close>

locale sized_struct = wire_struct +
  assumes sizes: "ok v \<Longrightarrow> sizing s \<Longrightarrow> \<not> ser_root s \<Longrightarrow> ser_cursor s + length (enc v) < W64 \<Longrightarrow>
      \<exists>fl. applyDef v s = Inr (v, advance (length (enc v)) fl s)"
begin

lemma sizes_struct:
  assumes "ok v" "sizing s" "ser_cursor s + length (enc v) < W64"
  shows "apply_struct applyDef fn v s = Inr (v, advance (length (enc v)) False (s\<lparr>ser_root := False\<rparr>))"
proof -
  have "sizing (s\<lparr>ser_root := False\<rparr>)" using assms(2) by (simp add: sizing_def)
  then obtain fl where "applyDef v (s\<lparr>ser_root := False\<rparr>) = Inr (v, advance (length (enc v)) fl (s\<lparr>ser_root := False\<rparr>))"
    using sizes [of v "s\<lparr>ser_root := False\<rparr>"] assms by auto
  then show ?thesis using assms(2) by (simp add: apply_struct_def)
qed

lemma computeSize_exact:
  assumes "ok v" "length (enc v) < W64"
  shows "computeSize applyDef v = Inr (length (enc v))"
proof -
  obtain s where s: "SerializerBase_init None (W64 - 1) SERIALIZER_SIZE = Inr s" "sizing s" "ser_cursor s = 0"
    by (simp add: SerializerBase_init_def sizing_def)
  then show ?thesis using sizes_struct [OF assms(1) s(2), of "''value''"] assms(2)
    by (simp add: computeSize_def getCursor_def)
qed

lemma nested_size:
  assumes "\<not> ser_root s" "ok v" "sizing s" "ser_cursor s + length (enc v) < W64"
  shows "apply_struct applyDef fn v s = Inr (v, advance (length (enc v)) False s)"
  using sizes_struct assms by simp

end

end
