(* ===== verification/Protocol.thy ===== *)
theory Protocol
  imports Serializer Libfabric_Domain
begin

text \<open>
  The messages exchanged by clients and servers (src/base/network/Protocol.hpp, Protocol.cpp
  and Protocol_inlined.hpp): their types, their structs with the fields of the code, and one
  \<open>applySerializerDef\<close> per struct.  Each struct is an instance of the contract \<open>wire_struct\<close> of
  the serializer, so that a message that is packed by one side is unpacked by the other.
\<close>

section \<open>Constants and message types\<close>

definition IOC_LF_MAX_ADDR_LEN :: nat where "IOC_LF_MAX_ADDR_LEN = 32"
definition IOC_EAGER_MAX_WRITE :: nat where "IOC_EAGER_MAX_WRITE = 32 * 1024"
definition IOC_EAGER_MAX_READ :: nat where "IOC_EAGER_MAX_READ = 32 * 1024"
definition IOC_STRUCT_MAX :: nat where "IOC_STRUCT_MAX = 64"
definition IOC_LF_PROTOCOL_VERSION :: int where "IOC_LF_PROTOCOL_VERSION = 2"

text \<open>\<open>sizeof(LibfabricMessageHeader)\<close> is four 64 bit fields.\<close>

definition sizeof_LibfabricMessageHeader :: nat where "sizeof_LibfabricMessageHeader = 32"

definition IOC_POST_RECEIVE_READ :: nat where
  "IOC_POST_RECEIVE_READ = sizeof_LibfabricMessageHeader + IOC_STRUCT_MAX + IOC_EAGER_MAX_READ"

definition IOC_POST_RECEIVE_WRITE :: nat where
  "IOC_POST_RECEIVE_WRITE = sizeof_LibfabricMessageHeader + IOC_STRUCT_MAX + IOC_EAGER_MAX_WRITE"

datatype LibfabricMessageType =
    IOC_LF_MSG_CONNECT_INIT
  | IOC_LF_MSG_ASSIGN_ID
  | IOC_LF_MSG_BAD_AUTH
  | IOC_LF_MSG_FATAL_ERROR
  | IOC_LF_MSG_MAX
  | IOC_LF_MSG_PING
  | IOC_LF_MSG_PONG
  | IOC_LF_MSG_OBJ_READ
  | IOC_LF_MSG_OBJ_WRITE
  | IOC_LF_MSG_OBJ_READ_WRITE_ACK
  | IOC_LF_MSG_OBJ_FLUSH
  | IOC_LF_MSG_OBJ_FLUSH_ACK
  | IOC_LF_MSG_OBJ_CREATE
  | IOC_LF_MSG_OBJ_CREATE_ACK
  | IOC_LF_MSG_OBJ_RANGE_REGISTER
  | IOC_LF_MSG_OBJ_RANGE_REGISTER_ACK
  | IOC_LF_MSG_OBJ_RANGE_UNREGISTER
  | IOC_LF_MSG_OBJ_RANGE_UNREGISTER_ACK
  | IOC_LF_MSG_OBJ_COW
  | IOC_LF_MSG_OBJ_COW_ACK

text \<open>The number of a message type on the wire.\<close>

fun msg_code :: "LibfabricMessageType \<Rightarrow> nat" where
  "msg_code IOC_LF_MSG_CONNECT_INIT = 0"
| "msg_code IOC_LF_MSG_ASSIGN_ID = 1"
| "msg_code IOC_LF_MSG_BAD_AUTH = 2"
| "msg_code IOC_LF_MSG_FATAL_ERROR = 3"
| "msg_code IOC_LF_MSG_MAX = 4"
| "msg_code IOC_LF_MSG_PING = 10"
| "msg_code IOC_LF_MSG_PONG = 11"
| "msg_code IOC_LF_MSG_OBJ_READ = 100"
| "msg_code IOC_LF_MSG_OBJ_WRITE = 101"
| "msg_code IOC_LF_MSG_OBJ_READ_WRITE_ACK = 102"
| "msg_code IOC_LF_MSG_OBJ_FLUSH = 103"
| "msg_code IOC_LF_MSG_OBJ_FLUSH_ACK = 104"
| "msg_code IOC_LF_MSG_OBJ_CREATE = 105"
| "msg_code IOC_LF_MSG_OBJ_CREATE_ACK = 106"
| "msg_code IOC_LF_MSG_OBJ_RANGE_REGISTER = 107"
| "msg_code IOC_LF_MSG_OBJ_RANGE_REGISTER_ACK = 108"
| "msg_code IOC_LF_MSG_OBJ_RANGE_UNREGISTER = 109"
| "msg_code IOC_LF_MSG_OBJ_RANGE_UNREGISTER_ACK = 110"
| "msg_code IOC_LF_MSG_OBJ_COW = 111"
| "msg_code IOC_LF_MSG_OBJ_COW_ACK = 112"

section \<open>Structs\<close>

record LibfabricBuffer =
  lb_buffer :: data_ptr
  lb_size :: size_t

record LibfabricPing =
  lp_rdmaSize :: nat
  lp_eagerSize :: nat
  lp_rdmaIov :: Iov
  lp_eagerData :: data_ptr

record LibfabricObjectId =
  loi_low :: int
  loi_high :: int

record LibfabricMessageHeader =
  mh_msgType :: nat
  mh_lfClientId :: nat
  mh_tcpClientId :: nat
  mh_tcpClientKey :: nat

record LibfabricObjReadWriteInfos =
  rw_objectId :: LibfabricObjectId
  rw_iov :: Iov
  rw_offset :: nat
  rw_size :: nat
  rw_msgHasData :: bool
  rw_optionalData :: data_ptr

record LibfabricObjFlushInfos =
  fl_objectId :: LibfabricObjectId
  fl_offset :: nat
  fl_size :: nat

record LibfabricObjCreateInfos =
  cr_objectId :: LibfabricObjectId

record LibfabricRegisterRange =
  rr_objectId :: LibfabricObjectId
  rr_offset :: nat
  rr_size :: nat
  rr_write :: bool

record LibfabricUnregisterRange =
  ur_objectId :: LibfabricObjectId
  ur_offset :: nat
  ur_size :: nat
  ur_id :: int
  ur_write :: bool

record LibfabricObjectCow =
  oc_sourceObjectId :: LibfabricObjectId
  oc_destObjectId :: LibfabricObjectId
  oc_allowExist :: bool
  oc_rangeOffset :: nat
  oc_rangeSize :: nat

record LibfabricResponse =
  rs_msgDataSize :: nat
  rs_status :: int
  rs_msgHasData :: bool
  rs_optionalData :: data_ptr
  rs_optionalDataFragments :: "LibfabricBuffer list option"

record LibfabricFirstHandshake =
  fh_protocolVersion :: int
  fh_assignLfClientId :: nat

record LibfabricFirstClientMessage =
  fc_addr :: "byte list"

record LibfabricErrorMessage =
  em_errorMessage :: string

type_synonym LibfabricEmpty = unit

section \<open>Serialization of the structs\<close>

definition Iov_applySerializerDef :: "Iov applier" where
  "Iov_applySerializerDef this s =
     bindE (apply_uint64 ''addr'' (iov_addr this) s) (\<lambda>(addr, s).
     bindE (apply_uint64 ''key'' (iov_key this) s) (\<lambda>(key, s).
     Inr (this\<lparr>iov_addr := addr, iov_key := key\<rparr>, s)))"

definition Ping_applySerializerDef :: "LibfabricPing applier" where
  "Ping_applySerializerDef this s =
     bindE (apply_uint64 ''rdmaSize'' (lp_rdmaSize this) s) (\<lambda>(rdmaSize, s).
     bindE (apply_uint64 ''eagerSize'' (lp_eagerSize this) s) (\<lambda>(eagerSize, s).
     bindE (apply_struct Iov_applySerializerDef ''rdmaIov'' (lp_rdmaIov this) s) (\<lambda>(rdmaIov, s).
     bindE (if eagerSize > 0 then serializeOrPoint ''eagerData'' eagerSize (lp_eagerData this) s
            else Inr (lp_eagerData this, s)) (\<lambda>(eagerData, s).
     Inr (this\<lparr>lp_rdmaSize := rdmaSize, lp_eagerSize := eagerSize, lp_rdmaIov := rdmaIov, lp_eagerData := eagerData\<rparr>, s)))))"

definition ObjectId_applySerializerDef :: "LibfabricObjectId applier" where
  "ObjectId_applySerializerDef this s =
     bindE (apply_int64 ''low'' (loi_low this) s) (\<lambda>(low, s).
     bindE (apply_int64 ''high'' (loi_high this) s) (\<lambda>(high, s).
     Inr (this\<lparr>loi_low := low, loi_high := high\<rparr>, s)))"

definition MessageHeader_applySerializerDef :: "LibfabricMessageHeader applier" where
  "MessageHeader_applySerializerDef this s =
     bindE (apply_uint64 ''msgType'' (mh_msgType this) s) (\<lambda>(msgType, s).
     bindE (apply_uint64 ''lfClientId'' (mh_lfClientId this) s) (\<lambda>(lfClientId, s).
     bindE (apply_uint64 ''tcpClientId'' (mh_tcpClientId this) s) (\<lambda>(tcpClientId, s).
     bindE (apply_uint64 ''tcpClientKey'' (mh_tcpClientKey this) s) (\<lambda>(tcpClientKey, s).
     Inr (this\<lparr>mh_msgType := msgType, mh_lfClientId := lfClientId, mh_tcpClientId := tcpClientId,
               mh_tcpClientKey := tcpClientKey\<rparr>, s)))))"

definition ObjReadWriteInfos_applySerializerDef :: "LibfabricObjReadWriteInfos applier" where
  "ObjReadWriteInfos_applySerializerDef this s =
     bindE (apply_struct ObjectId_applySerializerDef ''objectId'' (rw_objectId this) s) (\<lambda>(objectId, s).
     bindE (apply_struct Iov_applySerializerDef ''iov'' (rw_iov this) s) (\<lambda>(iov, s).
     bindE (apply_uint64 ''offset'' (rw_offset this) s) (\<lambda>(offset, s).
     bindE (apply_uint64 ''size'' (rw_size this) s) (\<lambda>(n, s).
     bindE (apply_bool ''msgHasData'' (rw_msgHasData this) s) (\<lambda>(msgHasData, s).
     bindE (if msgHasData then serializeOrPoint ''optionalData'' n (rw_optionalData this) s
            else Inr (rw_optionalData this, s)) (\<lambda>(optionalData, s).
     Inr (this\<lparr>rw_objectId := objectId, rw_iov := iov, rw_offset := offset, rw_size := n,
               rw_msgHasData := msgHasData, rw_optionalData := optionalData\<rparr>, s)))))))"

definition ObjFlushInfos_applySerializerDef :: "LibfabricObjFlushInfos applier" where
  "ObjFlushInfos_applySerializerDef this s =
     bindE (apply_struct ObjectId_applySerializerDef ''objectId'' (fl_objectId this) s) (\<lambda>(objectId, s).
     bindE (apply_uint64 ''objectoffsetId'' (fl_offset this) s) (\<lambda>(offset, s).
     bindE (apply_uint64 ''size'' (fl_size this) s) (\<lambda>(n, s).
     Inr (this\<lparr>fl_objectId := objectId, fl_offset := offset, fl_size := n\<rparr>, s))))"

definition ObjCreateInfos_applySerializerDef :: "LibfabricObjCreateInfos applier" where
  "ObjCreateInfos_applySerializerDef this s =
     bindE (apply_struct ObjectId_applySerializerDef ''objectId'' (cr_objectId this) s) (\<lambda>(objectId, s).
     Inr (this\<lparr>cr_objectId := objectId\<rparr>, s))"

definition RegisterRange_applySerializerDef :: "LibfabricRegisterRange applier" where
  "RegisterRange_applySerializerDef this s =
     bindE (apply_struct ObjectId_applySerializerDef ''objectId'' (rr_objectId this) s) (\<lambda>(objectId, s).
     bindE (apply_uint64 ''offset'' (rr_offset this) s) (\<lambda>(offset, s).
     bindE (apply_uint64 ''size'' (rr_size this) s) (\<lambda>(n, s).
     bindE (apply_bool ''write'' (rr_write this) s) (\<lambda>(wr, s).
     Inr (this\<lparr>rr_objectId := objectId, rr_offset := offset, rr_size := n, rr_write := wr\<rparr>, s)))))"

definition UnregisterRange_applySerializerDef :: "LibfabricUnregisterRange applier" where
  "UnregisterRange_applySerializerDef this s =
     bindE (apply_struct ObjectId_applySerializerDef ''objectId'' (ur_objectId this) s) (\<lambda>(objectId, s).
     bindE (apply_uint64 ''offset'' (ur_offset this) s) (\<lambda>(offset, s).
     bindE (apply_uint64 ''size'' (ur_size this) s) (\<lambda>(n, s).
     bindE (apply_int32 ''id'' (ur_id this) s) (\<lambda>(i, s).
     bindE (apply_bool ''write'' (ur_write this) s) (\<lambda>(wr, s).
     Inr (this\<lparr>ur_objectId := objectId, ur_offset := offset, ur_size := n, ur_id := i, ur_write := wr\<rparr>, s))))))"

definition ObjectCow_applySerializerDef :: "LibfabricObjectCow applier" where
  "ObjectCow_applySerializerDef this s =
     bindE (apply_struct ObjectId_applySerializerDef ''sourceObjectId'' (oc_sourceObjectId this) s) (\<lambda>(sourceObjectId, s).
     bindE (apply_struct ObjectId_applySerializerDef ''destObjectId'' (oc_destObjectId this) s) (\<lambda>(destObjectId, s).
     bindE (apply_bool ''allowExist'' (oc_allowExist this) s) (\<lambda>(allowExist, s).
     bindE (apply_uint64 ''rangeOffset'' (oc_rangeOffset this) s) (\<lambda>(rangeOffset, s).
     bindE (apply_uint64 ''rangeSize'' (oc_rangeSize this) s) (\<lambda>(rangeSize, s).
     Inr (this\<lparr>oc_sourceObjectId := sourceObjectId, oc_destObjectId := destObjectId, oc_allowExist := allowExist,
               oc_rangeOffset := rangeOffset, oc_rangeSize := rangeSize\<rparr>, s))))))"

text \<open>\<open>initStatusOnly\<close> sets every field of the response.\<close>

definition initStatusOnly :: "int \<Rightarrow> LibfabricResponse" where
  "initStatusOnly status =
     \<lparr>rs_msgDataSize = 0, rs_status = status, rs_msgHasData = False, rs_optionalData = None,
      rs_optionalDataFragments = None\<rparr>"

fun fragments_apply :: "LibfabricBuffer list \<Rightarrow> SerializerBase \<Rightarrow> SerializerBase result" where
  "fragments_apply [] s = Inr s"
| "fragments_apply (f # fs) s =
     bindE (apply_raw ''optionalDataFragment'' (lb_size f) (lb_buffer f) s) (\<lambda>(_, s). fragments_apply fs s)"

definition Response_applySerializerDef :: "LibfabricResponse applier" where
  "Response_applySerializerDef this s =
     bindE (apply_uint64 ''msgDataSize'' (rs_msgDataSize this) s) (\<lambda>(msgDataSize, s).
     bindE (apply_int32 ''status'' (rs_status this) s) (\<lambda>(status, s).
     bindE (apply_bool ''msgHasData'' (rs_msgHasData this) s) (\<lambda>(msgHasData, s).
     bindE (if msgHasData then
              (case rs_optionalDataFragments this of
                 Some fs \<Rightarrow>
                   if getAction s = SERIALIZER_PACK \<or> getAction s = SERIALIZER_SIZE then
                     bindE (assertE (rs_optionalData this = None) ''this->optionalData == NULL'') (\<lambda>_.
                     bindE (fragments_apply fs s) (\<lambda>s. Inr (rs_optionalData this, s)))
                   else serializeOrPoint ''optionalData'' msgDataSize (rs_optionalData this) s
               | None \<Rightarrow> serializeOrPoint ''optionalData'' msgDataSize (rs_optionalData this) s)
            else Inr (rs_optionalData this, s)) (\<lambda>(optionalData, s).
     Inr (this\<lparr>rs_msgDataSize := msgDataSize, rs_status := status, rs_msgHasData := msgHasData,
               rs_optionalData := optionalData\<rparr>, s)))))"

definition FirstHandshake_applySerializerDef :: "LibfabricFirstHandshake applier" where
  "FirstHandshake_applySerializerDef this s =
     bindE (apply_int32 ''protocolVersion'' (fh_protocolVersion this) s) (\<lambda>(protocolVersion, s).
     bindE (apply_uint64 ''assignLfClientId'' (fh_assignLfClientId this) s) (\<lambda>(assignLfClientId, s).
     Inr (this\<lparr>fh_protocolVersion := protocolVersion, fh_assignLfClientId := assignLfClientId\<rparr>, s)))"

text \<open>\<open>char addr[IOC_LF_MAX_ADDR_LEN]\<close>\<close>

definition FirstClientMessage_applySerializerDef :: "LibfabricFirstClientMessage applier" where
  "FirstClientMessage_applySerializerDef this s =
     bindE (apply_raw ''addr'' IOC_LF_MAX_ADDR_LEN (Some (fc_addr this)) s) (\<lambda>(addr, s).
     Inr (this\<lparr>fc_addr := (case addr of None \<Rightarrow> fc_addr this | Some a \<Rightarrow> a)\<rparr>, s))"

definition Empty_applySerializerDef :: "LibfabricEmpty applier" where
  "Empty_applySerializerDef this s = Inr (this, s)"

definition ErrorMessage_applySerializerDef :: "LibfabricErrorMessage applier" where
  "ErrorMessage_applySerializerDef this s =
     bindE (apply_string ''errorMessage'' (em_errorMessage this) s) (\<lambda>(errorMessage, s).
     Inr (this\<lparr>em_errorMessage := errorMessage\<rparr>, s))"

text \<open>\<open>operator==\<close> and the stream operators.\<close>

definition Iov_eq :: "Iov \<Rightarrow> Iov \<Rightarrow> bool" where
  "Iov_eq a b \<longleftrightarrow> iov_addr a = iov_addr b \<and> iov_key a = iov_key b"

definition LibfabricObjectId_eq :: "LibfabricObjectId \<Rightarrow> LibfabricObjectId \<Rightarrow> bool" where
  "LibfabricObjectId_eq a b \<longleftrightarrow> loi_low a = loi_low b \<and> loi_high a = loi_high b"

definition LibfabricObjectId_print :: "LibfabricObjectId \<Rightarrow> out_item list" where
  "LibfabricObjectId_print objectId = [Number (loi_high objectId), Text '':'', Number (loi_low objectId)]"

definition Iov_print :: "Iov \<Rightarrow> out_item list" where
  "Iov_print iov = [Number (int (iov_addr iov)), Text '':'', Number (int (iov_key iov))]"

section \<open>Wire formats\<close>

lemma le8_value [simp]: "v < W64 \<Longrightarrow> le_value (le_bytes 8 v) = v"
  by (simp add: W64_def)

definition int64_ok :: "int \<Rightarrow> bool" where
  "int64_ok i \<longleftrightarrow> - (2 ^ 63) \<le> i \<and> i < 2 ^ 63"

definition int32_ok :: "int \<Rightarrow> bool" where
  "int32_ok i \<longleftrightarrow> - (2 ^ 31) \<le> i \<and> i < 2 ^ 31"

lemma int_wire [simp]:
  "int64_ok i \<Longrightarrow> int_value (int_bytes 8 i) = i" "int32_ok j \<Longrightarrow> int_value (int_bytes 4 j) = j"
  by (simp_all add: int64_ok_def int32_ok_def)

lemma ser_rest_take:
  "ser_rest s = a @ r \<Longrightarrow> length a = n \<Longrightarrow> take n (ser_rest s) = a"
  "ser_rest s = a @ r \<Longrightarrow> length a = n \<Longrightarrow> drop n (ser_rest s) = r"
  by simp_all

definition Iov_wire :: "Iov \<Rightarrow> byte list" where
  "Iov_wire v = le_bytes 8 (iov_addr v) @ le_bytes 8 (iov_key v)"

definition Iov_ok :: "Iov \<Rightarrow> bool" where
  "Iov_ok v \<longleftrightarrow> iov_addr v < W64 \<and> iov_key v < W64"

definition ObjectId_wire :: "LibfabricObjectId \<Rightarrow> byte list" where
  "ObjectId_wire v = int_bytes 8 (loi_low v) @ int_bytes 8 (loi_high v)"

definition ObjectId_ok :: "LibfabricObjectId \<Rightarrow> bool" where
  "ObjectId_ok v \<longleftrightarrow> int64_ok (loi_low v) \<and> int64_ok (loi_high v)"

lemma length_wire [simp]: "length (Iov_wire i) = 16" "length (ObjectId_wire v) = 16"
  by (simp_all add: Iov_wire_def ObjectId_wire_def)

interpretation iov: sized_struct Iov_applySerializerDef Iov_wire Iov_ok "\<lambda>_. True" "(=)"
  by unfold_locales (auto simp: Iov_applySerializerDef_def Iov_wire_def Iov_ok_def wire_simps)

interpretation oid: sized_struct ObjectId_applySerializerDef ObjectId_wire ObjectId_ok "\<lambda>_. True" "(=)"
  by unfold_locales (auto simp: ObjectId_applySerializerDef_def ObjectId_wire_def ObjectId_ok_def wire_simps)

text \<open>Fields that are structs.\<close>

lemma field_unpack [wire_simps]:
  assumes "unpacking s" "\<not> ser_root s" "ser_cursor s + 16 \<le> ser_size s"
  shows "ser_rest s = Iov_wire i @ r \<Longrightarrow> Iov_ok i \<Longrightarrow>
      apply_struct Iov_applySerializerDef fn i0 s = Inr (i, advance 16 False s)"
    "ser_rest s = ObjectId_wire v @ r \<Longrightarrow> ObjectId_ok v \<Longrightarrow>
      apply_struct ObjectId_applySerializerDef fn v0 s = Inr (v, advance 16 False s)"
  using assms iov.nested_unpack [where s = s and v = i] oid.nested_unpack [where s = s and v = v] by auto

lemmas nested_wire [wire_simps] = iov.nested [simplified] iov.nested_size [simplified] oid.nested [simplified] oid.nested_size [simplified]

definition MessageHeader_wire :: "LibfabricMessageHeader \<Rightarrow> byte list" where
  "MessageHeader_wire v = le_bytes 8 (mh_msgType v) @ le_bytes 8 (mh_lfClientId v) @ le_bytes 8 (mh_tcpClientId v) @
     le_bytes 8 (mh_tcpClientKey v)"

definition MessageHeader_ok :: "LibfabricMessageHeader \<Rightarrow> bool" where
  "MessageHeader_ok v \<longleftrightarrow> mh_msgType v < W64 \<and> mh_lfClientId v < W64 \<and> mh_tcpClientId v < W64 \<and> mh_tcpClientKey v < W64"

interpretation header: sized_struct MessageHeader_applySerializerDef MessageHeader_wire MessageHeader_ok "\<lambda>_. True" "(=)"
  by unfold_locales (auto simp: MessageHeader_applySerializerDef_def MessageHeader_wire_def MessageHeader_ok_def wire_simps)

definition ObjFlushInfos_wire :: "LibfabricObjFlushInfos \<Rightarrow> byte list" where
  "ObjFlushInfos_wire v = ObjectId_wire (fl_objectId v) @ le_bytes 8 (fl_offset v) @ le_bytes 8 (fl_size v)"

definition ObjFlushInfos_ok :: "LibfabricObjFlushInfos \<Rightarrow> bool" where
  "ObjFlushInfos_ok v \<longleftrightarrow> ObjectId_ok (fl_objectId v) \<and> fl_offset v < W64 \<and> fl_size v < W64"

interpretation flush: sized_struct ObjFlushInfos_applySerializerDef ObjFlushInfos_wire ObjFlushInfos_ok "\<lambda>_. True" "(=)"
  by unfold_locales (auto simp: ObjFlushInfos_applySerializerDef_def ObjFlushInfos_wire_def ObjFlushInfos_ok_def wire_simps)

definition ObjCreateInfos_wire :: "LibfabricObjCreateInfos \<Rightarrow> byte list" where
  "ObjCreateInfos_wire v = ObjectId_wire (cr_objectId v)"

definition ObjCreateInfos_ok :: "LibfabricObjCreateInfos \<Rightarrow> bool" where
  "ObjCreateInfos_ok v \<longleftrightarrow> ObjectId_ok (cr_objectId v)"

interpretation create: sized_struct ObjCreateInfos_applySerializerDef ObjCreateInfos_wire ObjCreateInfos_ok "\<lambda>_. True" "(=)"
  by unfold_locales (auto simp: ObjCreateInfos_applySerializerDef_def ObjCreateInfos_wire_def ObjCreateInfos_ok_def wire_simps)

abbreviation bool_wire :: "bool \<Rightarrow> byte list" where
  "bool_wire b \<equiv> [if b then 1 else 0]"

definition RegisterRange_wire :: "LibfabricRegisterRange \<Rightarrow> byte list" where
  "RegisterRange_wire v = ObjectId_wire (rr_objectId v) @ le_bytes 8 (rr_offset v) @ le_bytes 8 (rr_size v) @ bool_wire (rr_write v)"

definition RegisterRange_ok :: "LibfabricRegisterRange \<Rightarrow> bool" where
  "RegisterRange_ok v \<longleftrightarrow> ObjectId_ok (rr_objectId v) \<and> rr_offset v < W64 \<and> rr_size v < W64"

interpretation range_reg: sized_struct RegisterRange_applySerializerDef RegisterRange_wire RegisterRange_ok "\<lambda>_. True" "(=)"
  by unfold_locales (auto simp: RegisterRange_applySerializerDef_def RegisterRange_wire_def RegisterRange_ok_def wire_simps)

definition UnregisterRange_wire :: "LibfabricUnregisterRange \<Rightarrow> byte list" where
  "UnregisterRange_wire v = ObjectId_wire (ur_objectId v) @ le_bytes 8 (ur_offset v) @ le_bytes 8 (ur_size v) @
     int_bytes 4 (ur_id v) @ bool_wire (ur_write v)"

definition UnregisterRange_ok :: "LibfabricUnregisterRange \<Rightarrow> bool" where
  "UnregisterRange_ok v \<longleftrightarrow> ObjectId_ok (ur_objectId v) \<and> ur_offset v < W64 \<and> ur_size v < W64 \<and> int32_ok (ur_id v)"

interpretation range_unreg: sized_struct UnregisterRange_applySerializerDef UnregisterRange_wire UnregisterRange_ok "\<lambda>_. True" "(=)"
  by unfold_locales (auto simp: UnregisterRange_applySerializerDef_def UnregisterRange_wire_def UnregisterRange_ok_def wire_simps)

definition ObjectCow_wire :: "LibfabricObjectCow \<Rightarrow> byte list" where
  "ObjectCow_wire v = ObjectId_wire (oc_sourceObjectId v) @ ObjectId_wire (oc_destObjectId v) @ bool_wire (oc_allowExist v) @
     le_bytes 8 (oc_rangeOffset v) @ le_bytes 8 (oc_rangeSize v)"

definition ObjectCow_ok :: "LibfabricObjectCow \<Rightarrow> bool" where
  "ObjectCow_ok v \<longleftrightarrow> ObjectId_ok (oc_sourceObjectId v) \<and> ObjectId_ok (oc_destObjectId v) \<and>
     oc_rangeOffset v < W64 \<and> oc_rangeSize v < W64"

interpretation cow: sized_struct ObjectCow_applySerializerDef ObjectCow_wire ObjectCow_ok "\<lambda>_. True" "(=)"
  by unfold_locales (auto simp: ObjectCow_applySerializerDef_def ObjectCow_wire_def ObjectCow_ok_def wire_simps)

definition FirstHandshake_wire :: "LibfabricFirstHandshake \<Rightarrow> byte list" where
  "FirstHandshake_wire v = int_bytes 4 (fh_protocolVersion v) @ le_bytes 8 (fh_assignLfClientId v)"

definition FirstHandshake_ok :: "LibfabricFirstHandshake \<Rightarrow> bool" where
  "FirstHandshake_ok v \<longleftrightarrow> int32_ok (fh_protocolVersion v) \<and> fh_assignLfClientId v < W64"

interpretation handshake: sized_struct FirstHandshake_applySerializerDef FirstHandshake_wire FirstHandshake_ok "\<lambda>_. True" "(=)"
  by unfold_locales (auto simp: FirstHandshake_applySerializerDef_def FirstHandshake_wire_def FirstHandshake_ok_def wire_simps)

definition addr_ok :: "LibfabricFirstClientMessage \<Rightarrow> bool" where
  "addr_ok v \<longleftrightarrow> length (fc_addr v) = IOC_LF_MAX_ADDR_LEN"

interpretation first_msg: sized_struct FirstClientMessage_applySerializerDef fc_addr addr_ok addr_ok "(=)"
  by unfold_locales (auto simp: FirstClientMessage_applySerializerDef_def addr_ok_def wire_simps patch_full)

interpretation no_data: sized_struct Empty_applySerializerDef "\<lambda>_. []" "\<lambda>_. True" "\<lambda>_. True" "(=)"
proof -
  have "emit [] (ser_outFirst s) s = s" if "packing s" for s using that by (auto simp: emit_def packing_def)
  moreover have "advance 0 (ser_outFirst s) s = s" for s by (simp add: advance_def)
  ultimately show "sized_struct Empty_applySerializerDef (\<lambda>_. []) (\<lambda>_. True) (\<lambda>_. True) (=)"
    by unfold_locales (simp_all add: Empty_applySerializerDef_def, (metis+))
qed

definition ErrorMessage_wire :: "LibfabricErrorMessage \<Rightarrow> byte list" where
  "ErrorMessage_wire v = le_bytes 8 (Suc (length (em_errorMessage v))) @ c_str (em_errorMessage v)"

definition ErrorMessage_ok :: "LibfabricErrorMessage \<Rightarrow> bool" where
  "ErrorMessage_ok v \<longleftrightarrow> CHR 0x00 \<notin> set (em_errorMessage v)"

interpretation error_msg: wire_struct ErrorMessage_applySerializerDef ErrorMessage_wire ErrorMessage_ok "\<lambda>_. True" "(=)"
  by unfold_locales (auto simp: ErrorMessage_applySerializerDef_def ErrorMessage_wire_def ErrorMessage_ok_def wire_simps)

section \<open>Messages that carry data\<close>

definition data_of :: "nat \<Rightarrow> data_ptr \<Rightarrow> byte list" where
  "data_of n p = (case p of None \<Rightarrow> [] | Some xs \<Rightarrow> take n xs)"

definition data_ok :: "nat \<Rightarrow> data_ptr \<Rightarrow> bool" where
  "data_ok n p \<longleftrightarrow> (\<exists>xs. p = Some xs \<and> n \<le> length xs)"

lemma length_data_of [simp]: "data_ok n p \<Longrightarrow> length (data_of n p) = n"
  by (auto simp: data_ok_def data_of_def)

lemma point_pack [wire_simps]:
  "packing s \<Longrightarrow> data_ok n p \<Longrightarrow> ser_cursor s + n \<le> ser_size s \<Longrightarrow>
     serializeOrPoint fn n p s = Inr (p, emit (data_of n p) (ser_outFirst s) s)"
  by (auto simp: data_ok_def data_of_def apply_data_pack)

definition Ping_wire :: "LibfabricPing \<Rightarrow> byte list" where
  "Ping_wire v = le_bytes 8 (lp_rdmaSize v) @ le_bytes 8 (lp_eagerSize v) @ Iov_wire (lp_rdmaIov v) @
     (if lp_eagerSize v > 0 then data_of (lp_eagerSize v) (lp_eagerData v) else [])"

definition Ping_ok :: "LibfabricPing \<Rightarrow> bool" where
  "Ping_ok v \<longleftrightarrow> lp_rdmaSize v < W64 \<and> lp_eagerSize v < W64 \<and> Iov_ok (lp_rdmaIov v) \<and>
     (lp_eagerSize v > 0 \<longrightarrow> data_ok (lp_eagerSize v) (lp_eagerData v))"

definition Ping_same :: "LibfabricPing \<Rightarrow> LibfabricPing \<Rightarrow> bool" where
  "Ping_same v v' \<longleftrightarrow> lp_rdmaSize v' = lp_rdmaSize v \<and> lp_eagerSize v' = lp_eagerSize v \<and> lp_rdmaIov v' = lp_rdmaIov v \<and>
     (lp_eagerSize v > 0 \<longrightarrow> data_ok (lp_eagerSize v) (lp_eagerData v') \<and>
        data_of (lp_eagerSize v) (lp_eagerData v') = data_of (lp_eagerSize v) (lp_eagerData v))"

interpretation ping: sized_struct Ping_applySerializerDef Ping_wire Ping_ok "\<lambda>_. True" Ping_same
proof unfold_locales
  show "\<exists>fl. Ping_applySerializerDef v s = Inr (v, emit (Ping_wire v) fl s)"
    if "Ping_ok v" "packing s" "\<not> ser_root s" "ser_cursor s + length (Ping_wire v) \<le> ser_size s" for v s
    using that by (auto simp: Ping_applySerializerDef_def Ping_wire_def Ping_ok_def wire_simps split: if_splits)
  show "\<exists>fl. Ping_applySerializerDef v s = Inr (v, advance (length (Ping_wire v)) fl s)"
    if "Ping_ok v" "sizing s" "\<not> ser_root s" "ser_cursor s + length (Ping_wire v) < W64" for v s
    using that by (auto simp: Ping_applySerializerDef_def Ping_wire_def Ping_ok_def wire_simps split: if_splits)
  show "\<exists>fl v'. Ping_applySerializerDef v0 s = Inr (v', advance (length (Ping_wire v)) fl s) \<and> Ping_same v v'"
    if "Ping_ok v" "unpacking s" "\<not> ser_root s" "ser_rest s = Ping_wire v @ r"
      "ser_cursor s + length (Ping_wire v) \<le> ser_size s" for v v0 s r
    using that by (auto simp: Ping_applySerializerDef_def Ping_wire_def Ping_ok_def Ping_same_def wire_simps data_of_def data_ok_def
        split: if_splits)
qed

definition ReadWrite_wire :: "LibfabricObjReadWriteInfos \<Rightarrow> byte list" where
  "ReadWrite_wire v = ObjectId_wire (rw_objectId v) @ Iov_wire (rw_iov v) @ le_bytes 8 (rw_offset v) @ le_bytes 8 (rw_size v) @
     bool_wire (rw_msgHasData v) @ (if rw_msgHasData v then data_of (rw_size v) (rw_optionalData v) else [])"

definition ReadWrite_ok :: "LibfabricObjReadWriteInfos \<Rightarrow> bool" where
  "ReadWrite_ok v \<longleftrightarrow> ObjectId_ok (rw_objectId v) \<and> Iov_ok (rw_iov v) \<and> rw_offset v < W64 \<and> rw_size v < W64 \<and>
     (rw_msgHasData v \<longrightarrow> data_ok (rw_size v) (rw_optionalData v))"

definition ReadWrite_same :: "LibfabricObjReadWriteInfos \<Rightarrow> LibfabricObjReadWriteInfos \<Rightarrow> bool" where
  "ReadWrite_same v v' \<longleftrightarrow> rw_objectId v' = rw_objectId v \<and> rw_iov v' = rw_iov v \<and> rw_offset v' = rw_offset v \<and>
     rw_size v' = rw_size v \<and> rw_msgHasData v' = rw_msgHasData v \<and>
     (rw_msgHasData v \<longrightarrow> data_ok (rw_size v) (rw_optionalData v') \<and>
        data_of (rw_size v) (rw_optionalData v') = data_of (rw_size v) (rw_optionalData v))"

interpretation rw: sized_struct ObjReadWriteInfos_applySerializerDef ReadWrite_wire ReadWrite_ok "\<lambda>_. True" ReadWrite_same
proof unfold_locales
  show "\<exists>fl. ObjReadWriteInfos_applySerializerDef v s = Inr (v, emit (ReadWrite_wire v) fl s)"
    if "ReadWrite_ok v" "packing s" "\<not> ser_root s" "ser_cursor s + length (ReadWrite_wire v) \<le> ser_size s" for v s
    using that by (auto simp: ObjReadWriteInfos_applySerializerDef_def ReadWrite_wire_def ReadWrite_ok_def wire_simps split: if_splits)
  show "\<exists>fl. ObjReadWriteInfos_applySerializerDef v s = Inr (v, advance (length (ReadWrite_wire v)) fl s)"
    if "ReadWrite_ok v" "sizing s" "\<not> ser_root s" "ser_cursor s + length (ReadWrite_wire v) < W64" for v s
    using that by (auto simp: ObjReadWriteInfos_applySerializerDef_def ReadWrite_wire_def ReadWrite_ok_def wire_simps split: if_splits)
  show "\<exists>fl v'. ObjReadWriteInfos_applySerializerDef v0 s = Inr (v', advance (length (ReadWrite_wire v)) fl s) \<and> ReadWrite_same v v'"
    if "ReadWrite_ok v" "unpacking s" "\<not> ser_root s" "ser_rest s = ReadWrite_wire v @ r"
      "ser_cursor s + length (ReadWrite_wire v) \<le> ser_size s" for v v0 s r
    using that by (auto simp: ObjReadWriteInfos_applySerializerDef_def ReadWrite_wire_def ReadWrite_ok_def ReadWrite_same_def
        wire_simps data_of_def data_ok_def split: if_splits)
qed

text \<open>The data of a response: one buffer, or fragments that are sent one after the other.\<close>

definition response_data :: "LibfabricResponse \<Rightarrow> byte list" where
  "response_data v = (if \<not> rs_msgHasData v then [] else case rs_optionalDataFragments v of
     None \<Rightarrow> data_of (rs_msgDataSize v) (rs_optionalData v)
   | Some fs \<Rightarrow> concat (map (\<lambda>f. data_of (lb_size f) (lb_buffer f)) fs))"

definition fragments_ok :: "LibfabricBuffer list \<Rightarrow> bool" where
  "fragments_ok fs \<longleftrightarrow> (\<forall>f \<in> set fs. data_ok (lb_size f) (lb_buffer f))"

definition Response_wire :: "LibfabricResponse \<Rightarrow> byte list" where
  "Response_wire v = le_bytes 8 (rs_msgDataSize v) @ int_bytes 4 (rs_status v) @ bool_wire (rs_msgHasData v) @ response_data v"

definition Response_ok :: "LibfabricResponse \<Rightarrow> bool" where
  "Response_ok v \<longleftrightarrow> rs_msgDataSize v < W64 \<and> int32_ok (rs_status v) \<and>
     (rs_msgHasData v \<longrightarrow> length (response_data v) = rs_msgDataSize v \<and> (case rs_optionalDataFragments v of
        None \<Rightarrow> data_ok (rs_msgDataSize v) (rs_optionalData v)
      | Some fs \<Rightarrow> rs_optionalData v = None \<and> fragments_ok fs))"

definition Response_same :: "LibfabricResponse \<Rightarrow> LibfabricResponse \<Rightarrow> bool" where
  "Response_same v v' \<longleftrightarrow> rs_msgDataSize v' = rs_msgDataSize v \<and> rs_status v' = rs_status v \<and>
     rs_msgHasData v' = rs_msgHasData v \<and>
     (rs_msgHasData v \<longrightarrow> data_ok (rs_msgDataSize v) (rs_optionalData v') \<and>
        data_of (rs_msgDataSize v) (rs_optionalData v') = response_data v)"

lemma fragments_pack:
  "packing s \<Longrightarrow> fragments_ok fs \<Longrightarrow>
   ser_cursor s + length (concat (map (\<lambda>f. data_of (lb_size f) (lb_buffer f)) fs)) \<le> ser_size s \<Longrightarrow>
   \<exists>fl. fragments_apply fs s = Inr (emit (concat (map (\<lambda>f. data_of (lb_size f) (lb_buffer f)) fs)) fl s)"
proof (induction fs arbitrary: s)
  case Nil
  have "emit [] (ser_outFirst s) s = s" using Nil.prems(1) by (auto simp: emit_def packing_def)
  then show ?case by (metis concat.simps(1) fragments_apply.simps(1) list.simps(8))
next
  case (Cons f fs)
  let ?d = "data_of (lb_size f) (lb_buffer f)"
  have d: "data_ok (lb_size f) (lb_buffer f)" "length ?d = lb_size f" using Cons.prems(2) by (simp_all add: fragments_ok_def)
  have p: "apply_raw ''optionalDataFragment'' (lb_size f) (lb_buffer f) s = Inr (lb_buffer f, emit ?d False s)"
    using d Cons.prems(1,3) by (auto simp: data_ok_def data_of_def apply_data_pack)
  have "\<exists>fl. fragments_apply fs (emit ?d False s) =
      Inr (emit (concat (map (\<lambda>f. data_of (lb_size f) (lb_buffer f)) fs)) fl (emit ?d False s))"
    by (rule Cons.IH) (use Cons.prems d in \<open>auto simp: fragments_ok_def\<close>)
  then show ?case using p Cons.prems d by auto
qed

lemma fragments_size:
  "sizing s \<Longrightarrow> fragments_ok fs \<Longrightarrow>
   ser_cursor s + length (concat (map (\<lambda>f. data_of (lb_size f) (lb_buffer f)) fs)) < W64 \<Longrightarrow>
   \<exists>fl. fragments_apply fs s = Inr (advance (length (concat (map (\<lambda>f. data_of (lb_size f) (lb_buffer f)) fs))) fl s)"
proof (induction fs arbitrary: s)
  case Nil
  have "advance 0 (ser_outFirst s) s = s" by (simp add: advance_def)
  then show ?case by (metis concat.simps(1) fragments_apply.simps(1) list.simps(8) list.size(3))
next
  case (Cons f fs)
  have d: "data_ok (lb_size f) (lb_buffer f)" "length (data_of (lb_size f) (lb_buffer f)) = lb_size f"
    using Cons.prems(2) by (simp_all add: fragments_ok_def)
  have p: "apply_raw ''optionalDataFragment'' (lb_size f) (lb_buffer f) s = Inr (lb_buffer f, advance (lb_size f) False s)"
    using d Cons.prems(1,3) by (auto simp: data_ok_def apply_data_size)
  have "\<exists>fl. fragments_apply fs (advance (lb_size f) False s) =
      Inr (advance (length (concat (map (\<lambda>f. data_of (lb_size f) (lb_buffer f)) fs))) fl (advance (lb_size f) False s))"
    by (rule Cons.IH) (use Cons.prems d in \<open>auto simp: fragments_ok_def\<close>)
  then show ?case using p Cons.prems d by auto
qed

interpretation response: sized_struct Response_applySerializerDef Response_wire Response_ok "\<lambda>_. True" Response_same
proof unfold_locales
  show "\<exists>fl. Response_applySerializerDef v s = Inr (v, emit (Response_wire v) fl s)"
    if a: "Response_ok v" "packing s" "\<not> ser_root s" "ser_cursor s + length (Response_wire v) \<le> ser_size s" for v s
  proof (cases "rs_msgHasData v \<and> rs_optionalDataFragments v \<noteq> None")
    case True
    then obtain fs where fs: "rs_optionalDataFragments v = Some fs" by blast
    let ?s = "emit (le_bytes 8 (rs_msgDataSize v) @ int_bytes 4 (rs_status v) @ bool_wire (rs_msgHasData v)) False s"
    have "\<exists>fl. fragments_apply fs ?s = Inr (emit (concat (map (\<lambda>f. data_of (lb_size f) (lb_buffer f)) fs)) fl ?s)"
      by (rule fragments_pack) (use a True fs in \<open>auto simp: Response_ok_def Response_wire_def response_data_def\<close>)
    then show ?thesis using a True fs
      by (auto simp: Response_applySerializerDef_def Response_wire_def Response_ok_def response_data_def getAction_def wire_simps)
  next
    case False
    then show ?thesis using a
      by (auto simp: Response_applySerializerDef_def Response_wire_def Response_ok_def response_data_def wire_simps)
  qed
  show "\<exists>fl. Response_applySerializerDef v s = Inr (v, advance (length (Response_wire v)) fl s)"
    if a: "Response_ok v" "sizing s" "\<not> ser_root s" "ser_cursor s + length (Response_wire v) < W64" for v s
  proof (cases "rs_msgHasData v \<and> rs_optionalDataFragments v \<noteq> None")
    case True
    then obtain fs where fs: "rs_optionalDataFragments v = Some fs" by blast
    let ?s = "advance 13 False s"
    have "\<exists>fl. fragments_apply fs ?s = Inr (advance (length (concat (map (\<lambda>f. data_of (lb_size f) (lb_buffer f)) fs))) fl ?s)"
      by (rule fragments_size) (use a True fs in \<open>auto simp: Response_ok_def Response_wire_def response_data_def\<close>)
    then show ?thesis using a True fs
      by (auto simp: Response_applySerializerDef_def Response_wire_def Response_ok_def response_data_def getAction_def wire_simps)
  next
    case False
    then show ?thesis using a
      by (auto simp: Response_applySerializerDef_def Response_wire_def Response_ok_def response_data_def wire_simps)
  qed
  show "\<exists>fl v'. Response_applySerializerDef v0 s = Inr (v', advance (length (Response_wire v)) fl s) \<and> Response_same v v'"
    if a: "Response_ok v" "unpacking s" "\<not> ser_root s" "ser_rest s = Response_wire v @ r"
      "ser_cursor s + length (Response_wire v) \<le> ser_size s" for v v0 s r
  proof (cases "rs_msgHasData v")
    case True
    then show ?thesis using a
      by (cases "rs_optionalDataFragments v0")
        (auto simp: Response_applySerializerDef_def Response_wire_def Response_ok_def Response_same_def getAction_def wire_simps
          data_of_def data_ok_def)
  next
    case False
    then show ?thesis using a
      by (auto simp: Response_applySerializerDef_def Response_wire_def Response_ok_def Response_same_def response_data_def wire_simps)
  qed
qed

section \<open>Properties\<close>

text \<open>
  C33. A read or write request that is packed into a message buffer large enough is unpacked
  from that buffer with all its fields, and its eager data is found in the message; the number
  of bytes written, read and computed in advance are the same.
\<close>

theorem request_roundtrip:
  assumes "ReadWrite_ok req" "length (ReadWrite_wire req) \<le> n" "n \<le> length buf" "n < W64"
  shows "computeSize ObjReadWriteInfos_applySerializerDef req = Inr (length (ReadWrite_wire req)) \<and>
    (\<exists>s s' d d' req'. Serializer_make (Some buf) n = Inr s \<and>
       apply_struct ObjReadWriteInfos_applySerializerDef ''message'' req s = Inr (req, s') \<and>
       getCursor s' = length (ReadWrite_wire req) \<and> DeSerializer_make (ser_buffer s') n = Inr d \<and>
       ser_pop ObjReadWriteInfos_applySerializerDef req0 d = Inr (req', d') \<and>
       getCursor d' = length (ReadWrite_wire req) \<and> ReadWrite_same req req')"
proof -
  have "0 < n" using assms(2) by (simp add: ReadWrite_wire_def)
  moreover have "length (ReadWrite_wire req) < W64" using assms(2,4) by simp
  ultimately show ?thesis
    using rw.roundtrip [OF assms(1) TrueI assms(2) _ assms(3,4)] rw.computeSize_exact [OF assms(1)] by simp
qed

definition wit_request :: LibfabricObjReadWriteInfos where
  "wit_request = \<lparr>rw_objectId = \<lparr>loi_low = 10, loi_high = -20\<rparr>, rw_iov = \<lparr>iov_addr = 64, iov_key = 3\<rparr>, rw_offset = 100,
     rw_size = 3, rw_msgHasData = True, rw_optionalData = Some [7, 8, 9]\<rparr>"

lemma wit_request_ok: "ReadWrite_ok wit_request" "length (ReadWrite_wire wit_request) = 52"
  by (simp_all add: ReadWrite_ok_def wit_request_def ObjectId_ok_def Iov_ok_def int64_ok_def data_ok_def W64_def
      ReadWrite_wire_def data_of_def)

theorem request_roundtrip_witness:
  "\<exists>s s' d d' req'. Serializer_make (Some (replicate 64 0)) 64 = Inr s \<and>
     apply_struct ObjReadWriteInfos_applySerializerDef ''message'' wit_request s = Inr (wit_request, s') \<and>
     DeSerializer_make (ser_buffer s') 64 = Inr d \<and>
     ser_pop ObjReadWriteInfos_applySerializerDef wit_request d = Inr (req', d') \<and>
     rw_offset req' = 100 \<and> data_of 3 (rw_optionalData req') = [7, 8, 9]"
proof -
  have "rw_offset req' = 100 \<and> data_of 3 (rw_optionalData req') = [7, 8, 9]" if "ReadWrite_same wit_request req'" for req'
    using that by (simp add: ReadWrite_same_def wit_request_def data_of_def)
  then show ?thesis
    using request_roundtrip [OF wit_request_ok(1), of 64 "replicate 64 0" wit_request] wit_request_ok(2)
    by (simp add: W64_def) blast
qed

text \<open>
  C34. A response whose data is given as fragments is received as one contiguous buffer: the
  client finds the concatenation of the fragments, with the announced size, in the message.
\<close>

theorem fragments_received_contiguous:
  assumes "rs_msgHasData resp" "rs_optionalDataFragments resp = Some fs" "rs_optionalData resp = None" "fragments_ok fs"
    and "rs_msgDataSize resp = length (concat (map (\<lambda>f. data_of (lb_size f) (lb_buffer f)) fs))" "int32_ok (rs_status resp)"
    and "13 + rs_msgDataSize resp \<le> n" "n \<le> length buf" "n < W64"
  shows "\<exists>s s' d d' resp'. Serializer_make (Some buf) n = Inr s \<and>
       apply_struct Response_applySerializerDef ''response'' resp s = Inr (resp, s') \<and>
       DeSerializer_make (ser_buffer s') n = Inr d \<and> ser_pop Response_applySerializerDef resp0 d = Inr (resp', d') \<and>
       rs_status resp' = rs_status resp \<and>
       data_of (rs_msgDataSize resp') (rs_optionalData resp') = concat (map (\<lambda>f. data_of (lb_size f) (lb_buffer f)) fs)"
proof -
  have "Response_ok resp" using assms by (simp add: Response_ok_def response_data_def)
  moreover have "length (Response_wire resp) = 13 + rs_msgDataSize resp"
    using assms(1,2,5) by (simp add: Response_wire_def response_data_def)
  moreover have "rs_status resp' = rs_status resp \<and>
      data_of (rs_msgDataSize resp') (rs_optionalData resp') = concat (map (\<lambda>f. data_of (lb_size f) (lb_buffer f)) fs)"
    if "Response_same resp resp'" for resp'
    using that assms(1,2) by (simp add: Response_same_def response_data_def)
  ultimately show ?thesis
    using response.roundtrip [where v = resp and n = n and buf = buf and fn = "''response''" and ?v0.0 = resp0] assms(7-9)
    by (simp, blast)
qed

definition wit_response :: LibfabricResponse where
  "wit_response = \<lparr>rs_msgDataSize = 3, rs_status = -1, rs_msgHasData = True, rs_optionalData = None,
     rs_optionalDataFragments = Some [\<lparr>lb_buffer = Some [1, 2, 5], lb_size = 2\<rparr>, \<lparr>lb_buffer = Some [3], lb_size = 1\<rparr>]\<rparr>"

theorem fragments_received_contiguous_witness:
  "\<exists>s s' d d' resp'. Serializer_make (Some (replicate 20 0)) 16 = Inr s \<and>
     apply_struct Response_applySerializerDef ''response'' wit_response s = Inr (wit_response, s') \<and>
     DeSerializer_make (ser_buffer s') 16 = Inr d \<and> ser_pop Response_applySerializerDef (initStatusOnly 0) d = Inr (resp', d') \<and>
     rs_status resp' = -1 \<and> data_of (rs_msgDataSize resp') (rs_optionalData resp') = [1, 2, 3]"
  using fragments_received_contiguous [of wit_response "[\<lparr>lb_buffer = Some [1, 2, 5], lb_size = 2\<rparr>, \<lparr>lb_buffer = Some [3], lb_size = 1\<rparr>]"
      16 "replicate 20 0" "initStatusOnly 0"]
  by (simp add: wit_response_def data_of_def data_ok_def fragments_ok_def int32_ok_def W64_def)

text \<open>
  The constants are large enough: every request fits the receive buffers the server posts, and every response those of the
  client: the header, a struct without data, and eager data up to the eager limit.
\<close>

lemma eager_messages_fit:
  assumes "ReadWrite_ok req" "rw_msgHasData req \<longrightarrow> rw_size req \<le> IOC_EAGER_MAX_WRITE"
    and "Response_ok resp" "rs_msgHasData resp \<longrightarrow> rs_msgDataSize resp \<le> IOC_EAGER_MAX_READ"
  shows "length (MessageHeader_wire h) + length (ReadWrite_wire req) \<le> IOC_POST_RECEIVE_WRITE \<and>
    length (MessageHeader_wire h) + length (Response_wire resp) \<le> IOC_POST_RECEIVE_READ \<and>
    length (MessageHeader_wire h) + length (ObjectCow_wire c) \<le> IOC_POST_RECEIVE_WRITE \<and>
    length (MessageHeader_wire h) + length (UnregisterRange_wire u) \<le> IOC_POST_RECEIVE_WRITE \<and>
    length (MessageHeader_wire h) + length (FirstHandshake_wire f) \<le> IOC_POST_RECEIVE_READ"
proof -
  have "length (ReadWrite_wire req) \<le> IOC_STRUCT_MAX + IOC_EAGER_MAX_WRITE"
    using assms(1,2) by (auto simp: ReadWrite_wire_def ReadWrite_ok_def IOC_STRUCT_MAX_def)
  moreover have "length (Response_wire resp) \<le> IOC_STRUCT_MAX + IOC_EAGER_MAX_READ"
  proof (cases "rs_msgHasData resp")
    case True
    then show ?thesis using assms(3,4) by (simp add: Response_wire_def Response_ok_def IOC_STRUCT_MAX_def)
  qed (simp add: Response_wire_def response_data_def IOC_STRUCT_MAX_def)
  ultimately show ?thesis
    by (simp add: MessageHeader_wire_def ObjectCow_wire_def UnregisterRange_wire_def FirstHandshake_wire_def
        IOC_POST_RECEIVE_READ_def IOC_POST_RECEIVE_WRITE_def sizeof_LibfabricMessageHeader_def IOC_STRUCT_MAX_def)
qed

text \<open>
  Unpacking a data pointer accepts exactly the sizes that end inside the message after the
  addition of \<open>checkSize\<close> has wrapped at 64 bits: without wrap-around the pointed bytes are in
  the message, and a size announced just below the wrap-around is accepted although the
  message holds fewer bytes.
\<close>

theorem point_size_check:
  assumes "unpacking s" "n < W64"
  shows "(\<forall>p' s'. ser_cursor s + n < W64 \<longrightarrow> serializeOrPoint fn n p s = Inr (p', s') \<longrightarrow> data_ok n p' \<and> ser_cursor s' \<le> ser_size s) \<and>
    (ser_cursor s + n < W64 \<longrightarrow> ser_size s < ser_cursor s + n \<longrightarrow> (\<exists>msg. serializeOrPoint fn n p s = Inl (AssumeFailed msg))) \<and>
    (ser_cursor s + n = W64 \<longrightarrow> serializeOrPoint fn n p s = Inr (Some (ser_rest s), s\<lparr>ser_cursor := 0\<rparr>))"
proof -
  obtain buf where buf: "ser_buffer s = Some buf" "ser_size s \<le> length buf" "ser_size s < W64" "ser_cursor s \<le> ser_size s"
    using assms(1) by (auto simp: unpacking_def)
  have small: "data_ok n p' \<and> ser_cursor s' \<le> ser_size s"
    if "ser_cursor s + n < W64" "serializeOrPoint fn n p s = Inr (p', s')" for p' s'
  proof -
    have le: "ser_cursor s + n \<le> ser_size s"
      using that assms(1) by (auto simp: serializeOrPoint_def checkSize_def Let_def split: if_splits elim!: bindE_InrE)
    then show ?thesis using that assms(1) buf by (auto simp: apply_data_unpack data_ok_def ser_rest_def)
  qed
  moreover have "\<exists>msg. serializeOrPoint fn n p s = Inl (AssumeFailed msg)" if "ser_cursor s + n < W64" "ser_size s < ser_cursor s + n"
    using that assms(1) by (simp add: serializeOrPoint_def action_defined_def checkSize_def)
  moreover have "serializeOrPoint fn n p s = Inr (Some (ser_rest s), s\<lparr>ser_cursor := 0\<rparr>)" if "ser_cursor s + n = W64"
    using that assms(1) buf
    by (simp add: serializeOrPoint_def action_defined_def checkSize_def add64_def ser_move_def ser_rest_def unpacking_def)
  ultimately show ?thesis by blast
qed

theorem point_size_check_witness:
  "\<exists>d. DeSerializer_make (Some [1, 2, 3, 4, 5, 6, 7, 8]) 8 = Inr d \<and>
     serializeOrPoint ''eagerData'' (W64 - 8) None (advance 8 False d) = Inr (Some [], (advance 8 False d)\<lparr>ser_cursor := 0\<rparr>)"
proof -
  obtain d where d: "DeSerializer_make (Some [1, 2, 3, 4, 5, 6, 7, 8]) 8 = Inr d" "unpacking d" "ser_cursor d = 0" "ser_size d = 8"
      "ser_rest d = [1, 2, 3, 4, 5, 6, 7, 8]"
    by (simp add: DeSerializer_make_def SerializerBase_init_def unpacking_def W64_def ser_rest_def)
  have "unpacking (advance 8 False d)" "W64 - 8 < W64" "ser_cursor (advance 8 False d) + (W64 - 8) = W64"
    using d by (simp_all add: W64_def)
  then show ?thesis using point_size_check [of "advance 8 False d" "W64 - 8" "''eagerData''" None] d by simp
qed

end
