(* ===== verification/Object_Segment.thy ===== *)
theory Object_Segment
  imports Memory_Backends Storage_Backend
begin

text \<open>
  The segments of an object (src/server/core/ObjectSegment.hpp and .cpp) over the state they
  share: the process memory, the memory backends, the storage and the table of
  \<open>ObjectSegmentMemory\<close> values held by \<open>std::shared_ptr\<close>.  A shared pointer is the index of
  an entry of that table together with its use count; copying a pointer increments the
  count, dropping one decrements it and runs the destructor at zero.

  \<open>world_ok\<close> is the invariant of the shared state: the use counts are the numbers of
  references, every entry owns a live buffer of its size that no other entry and no free
  list holds.
\<close>

section \<open>State\<close>

record ObjectSegmentMemory =
  osm_buffer :: ptr
  osm_size :: size_t
  osm_memoryBackend :: nat

record ObjectSegment =
  os_memory :: "nat option"
  os_offset :: size_t
  os_dirty :: bool

record ObjectSegmentDescr =
  osd_ptr :: ptr
  osd_offset :: size_t
  osd_size :: size_t

record 's world =
  w_mem :: mem
  w_backends :: "nat \<Rightarrow> memory_backend option"
  w_shared :: "nat \<Rightarrow> (ObjectSegmentMemory \<times> nat) option"
  w_next :: nat
  w_storage :: 's

abbreviation w_blocks :: "'s world \<Rightarrow> nat \<Rightarrow> byte list option" where
  "w_blocks w \<equiv> hp_blocks (mem_heap (w_mem w))"

definition w_set_heap :: "heap \<Rightarrow> 's world \<Rightarrow> 's world" where
  "w_set_heap h w = w\<lparr>w_mem := (w_mem w)\<lparr>mem_heap := h\<rparr>\<rparr>"

section \<open>Calls through a memory backend pointer\<close>

definition w_allocate :: "fabric_ops \<Rightarrow> nat \<Rightarrow> size_t \<Rightarrow> 's world \<Rightarrow> (ptr \<times> 's world) result" where
  "w_allocate fi mb n w = (case w_backends w mb of
     None \<Rightarrow> Inl UseAfterFree
   | Some b \<Rightarrow> bindE (allocate fi n b (w_mem w)) (\<lambda>(p, b', m').
       Inr (p, w\<lparr>w_mem := m', w_backends := (w_backends w)(mb \<mapsto> b')\<rparr>)))"

definition w_deallocate :: "nat \<Rightarrow> ptr \<Rightarrow> size_t \<Rightarrow> 's world \<Rightarrow> 's world result" where
  "w_deallocate mb p n w = (case w_backends w mb of
     None \<Rightarrow> Inl UseAfterFree
   | Some b \<Rightarrow> bindE (deallocate p n b (w_mem w)) (\<lambda>(b', m').
       Inr (w\<lparr>w_mem := m', w_backends := (w_backends w)(mb \<mapsto> b')\<rparr>)))"

section \<open>Shared pointers\<close>

definition make_shared :: "ObjectSegmentMemory \<Rightarrow> 's world \<Rightarrow> nat \<times> 's world" where
  "make_shared osm w =
     (w_next w, w\<lparr>w_shared := (w_shared w)(w_next w \<mapsto> (osm, 1)), w_next := Suc (w_next w)\<rparr>)"

definition ObjectSegmentMemory_destroy :: "ObjectSegmentMemory \<Rightarrow> 's world \<Rightarrow> 's world result" where
  "ObjectSegmentMemory_destroy osm w =
     (if osm_buffer osm = NULL then Inr w
      else w_deallocate (osm_memoryBackend osm) (osm_buffer osm) (osm_size osm) w)"

definition shared_copy :: "nat option \<Rightarrow> 's world \<Rightarrow> 's world result" where
  "shared_copy p w = (case p of
     None \<Rightarrow> Inr w
   | Some i \<Rightarrow> (case w_shared w i of
       None \<Rightarrow> Inl UseAfterFree
     | Some (osm, cnt) \<Rightarrow> Inr (w\<lparr>w_shared := (w_shared w)(i \<mapsto> (osm, Suc cnt))\<rparr>)))"

definition shared_drop :: "nat option \<Rightarrow> 's world \<Rightarrow> 's world result" where
  "shared_drop p w = (case p of
     None \<Rightarrow> Inr w
   | Some i \<Rightarrow> (case w_shared w i of
       None \<Rightarrow> Inl UseAfterFree
     | Some (osm, cnt) \<Rightarrow>
         if cnt \<le> 1 then ObjectSegmentMemory_destroy osm (w\<lparr>w_shared := (w_shared w)(i := None)\<rparr>)
         else Inr (w\<lparr>w_shared := (w_shared w)(i \<mapsto> (osm, cnt - 1))\<rparr>)))"

section \<open>Segments\<close>

definition ObjectSegment_null :: ObjectSegment where
  "ObjectSegment_null = \<lparr>os_memory = None, os_offset = 0, os_dirty = False\<rparr>"

definition ObjectSegment_make ::
  "size_t \<Rightarrow> size_t \<Rightarrow> ptr \<Rightarrow> nat \<Rightarrow> 's world \<Rightarrow> ObjectSegment \<times> 's world" where
  "ObjectSegment_make offset n buffer mb w =
     (let (i, w') = make_shared \<lparr>osm_buffer = buffer, osm_size = n, osm_memoryBackend = mb\<rparr> w
      in (\<lparr>os_memory = Some i, os_offset = offset, os_dirty = False\<rparr>, w'))"

text \<open>The access through the pointer: \<open>assert(memory != nullptr)\<close>, then the entry.\<close>

definition seg_memory :: "ObjectSegment \<Rightarrow> 's world \<Rightarrow> ObjectSegmentMemory result" where
  "seg_memory seg w = (case os_memory seg of
     None \<Rightarrow> Inl (AssertFailed ''memory != nullptr'')
   | Some i \<Rightarrow> (case w_shared w i of None \<Rightarrow> Inl UseAfterFree | Some (osm, _) \<Rightarrow> Inr osm))"

definition ObjectSegment_overlap :: "ObjectSegment \<Rightarrow> size_t \<Rightarrow> size_t \<Rightarrow> 's world \<Rightarrow> bool result" where
  "ObjectSegment_overlap seg segBase segSize w =
     bindE (seg_memory seg w) (\<lambda>osm.
     Inr (os_offset seg < add64 segBase segSize \<and> add64 (os_offset seg) (osm_size osm) > segBase))"

definition getSegmentDescr :: "ObjectSegment \<Rightarrow> 's world \<Rightarrow> ObjectSegmentDescr result" where
  "getSegmentDescr seg w =
     bindE (seg_memory seg w) (\<lambda>osm.
     Inr \<lparr>osd_ptr = osm_buffer osm, osd_offset = os_offset seg, osd_size = osm_size osm\<rparr>)"

text \<open>\<open>!memory.unique()\<close>; a null pointer is not unique.\<close>

definition isCow :: "ObjectSegment \<Rightarrow> 's world \<Rightarrow> bool" where
  "isCow seg w = (case os_memory seg of
     None \<Rightarrow> True
   | Some i \<Rightarrow> (case w_shared w i of None \<Rightarrow> True | Some (_, cnt) \<Rightarrow> cnt \<noteq> 1))"

definition makeCowOf :: "ObjectSegment \<Rightarrow> ObjectSegment \<Rightarrow> 's world \<Rightarrow> (ObjectSegment \<times> 's world) result" where
  "makeCowOf seg orig w =
     bindE (shared_copy (os_memory orig) w) (\<lambda>w.
     bindE (shared_drop (os_memory seg) w) (\<lambda>w.
     Inr (\<lparr>os_memory = os_memory orig, os_offset = os_offset orig, os_dirty = os_dirty orig\<rparr>, w)))"

definition applyCow :: "fabric_ops \<Rightarrow> ObjectSegment \<Rightarrow> 's world \<Rightarrow> (ObjectSegment \<times> 's world) result" where
  "applyCow fi seg w =
     bindE (seg_memory seg w) (\<lambda>osm.
     bindE (assertE (isCow seg w) ''this->isCow()'') (\<lambda>_.
     bindE (w_allocate fi (osm_memoryBackend osm) (osm_size osm) w) (\<lambda>(new_ptr, w).
     bindE (assertE (new_ptr \<noteq> NULL) ''new_ptr != NULL'') (\<lambda>_.
     bindE (memcpy new_ptr (osm_buffer osm) (osm_size osm) (mem_heap (w_mem w))) (\<lambda>h.
     let (i, w) = make_shared \<lparr>osm_buffer = new_ptr, osm_size = osm_size osm,
                               osm_memoryBackend = osm_memoryBackend osm\<rparr> (w_set_heap h w) in
     bindE (shared_drop (os_memory seg) w) (\<lambda>w.
     Inr (seg\<lparr>os_memory := Some i\<rparr>, w)))))))"

section \<open>Invariant\<close>

text \<open>
  \<open>R i\<close> is the number of references to entry \<open>i\<close>; \<open>X\<close> are the blocks that were allocated but
  are not yet owned by an entry.
\<close>

definition owned_blocks :: "'s world \<Rightarrow> nat set" where
  "owned_blocks w = {k. \<exists>i osm c. w_shared w i = Some (osm, c) \<and> osm_buffer osm = Ptr k 0}"

definition entry_ok :: "nat \<Rightarrow> 's world \<Rightarrow> ObjectSegmentMemory \<Rightarrow> bool" where
  "entry_ok mb w osm \<longleftrightarrow> osm_memoryBackend osm = mb \<and>
     (\<exists>k. osm_buffer osm = Ptr k 0 \<and> hp_len (mem_heap (w_mem w)) k = Some (osm_size osm))"

text \<open>
  The rest of the process: blocks that are allocated but not owned by an entry (\<open>fr_temp\<close>), blocks
  of other components with their content (\<open>fr_data\<close>), and the message buffers of the domain.
\<close>

record frame =
  fr_temp :: "nat set"
  fr_data :: "nat \<Rightarrow> byte list option"
  fr_msgBuffers :: "ptr list"
  fr_msgBufferSize :: size_t

definition fr_blocks :: "frame \<Rightarrow> nat set" where
  "fr_blocks X = fr_temp X \<union> dom (fr_data X)"

definition fr_insert :: "nat \<Rightarrow> frame \<Rightarrow> frame" where
  "fr_insert k X = X\<lparr>fr_temp := insert k (fr_temp X)\<rparr>"

definition frame_ok :: "frame \<Rightarrow> mem \<Rightarrow> bool" where
  "frame_ok X m \<longleftrightarrow> fr_temp X \<inter> dom (fr_data X) = {} \<and> fr_data X \<subseteq>\<^sub>m hp_blocks (mem_heap m) \<and>
     ld_msgBuffers (mem_domain m) = fr_msgBuffers X \<and> ld_msgBufferSize (mem_domain m) = fr_msgBufferSize X"

definition world_ok :: "nat \<Rightarrow> (nat \<Rightarrow> nat) \<Rightarrow> frame \<Rightarrow> 's world \<Rightarrow> bool" where
  "world_ok mb R X w \<longleftrightarrow> frame_ok X (w_mem w) \<and>
     (\<exists>b. w_backends w mb = Some b \<and> backends.in_use (owned_blocks w \<union> fr_blocks X) b (w_mem w)) \<and>
     owned_blocks w \<inter> fr_blocks X = {} \<and>
     (\<forall>i osm c. w_shared w i = Some (osm, c) \<longrightarrow> i < w_next w \<and> 0 < c \<and> c = R i \<and> entry_ok mb w osm) \<and>
     (\<forall>i. w_shared w i = None \<longrightarrow> R i = 0) \<and>
     (\<forall>i j osm osm' c c'. w_shared w i = Some (osm, c) \<longrightarrow> w_shared w j = Some (osm', c') \<longrightarrow>
        osm_buffer osm = osm_buffer osm' \<longrightarrow> i = j)"

text \<open>The bytes behind a shared pointer, and that they survive a step.\<close>

definition shared_bytes :: "'s world \<Rightarrow> nat \<Rightarrow> byte list option" where
  "shared_bytes w i = (case w_shared w i of
     None \<Rightarrow> None
   | Some (osm, _) \<Rightarrow> (case osm_buffer osm of NULL \<Rightarrow> None | Ptr k _ \<Rightarrow> w_blocks w k))"

definition entry_of :: "'s world \<Rightarrow> nat \<Rightarrow> ObjectSegmentMemory option" where
  "entry_of w i = map_option fst (w_shared w i)"

definition data_kept :: "nat set \<Rightarrow> 's world \<Rightarrow> 's world \<Rightarrow> bool" where
  "data_kept S w w' \<longleftrightarrow> (\<forall>i \<in> S. entry_of w' i = entry_of w i \<and> shared_bytes w' i = shared_bytes w i)"

lemma data_kept_refl [simp]: "data_kept S w w"
  by (simp add: data_kept_def)

lemma data_kept_trans: "data_kept S w w' \<Longrightarrow> data_kept S w' w'' \<Longrightarrow> data_kept S w w''"
  by (simp add: data_kept_def)

lemma data_kept_mono: "data_kept S w w' \<Longrightarrow> T \<subseteq> S \<Longrightarrow> data_kept T w w'"
  by (auto simp: data_kept_def)

lemma shared_bytes_entry:
  "w_shared w i = Some (osm, c) \<Longrightarrow> osm_buffer osm = Ptr k j \<Longrightarrow> shared_bytes w i = w_blocks w k"
  by (simp add: shared_bytes_def)

lemma shared_bytes_cong:
  "w_shared w' i = w_shared w i \<Longrightarrow> w_mem w' = w_mem w \<Longrightarrow> shared_bytes w' i = shared_bytes w i"
  by (simp add: shared_bytes_def split: option.split ptr.split)

lemma kept_if_shared:
  "(\<And>i. i \<in> S \<Longrightarrow> w_shared w' i = w_shared w i) \<Longrightarrow> w_mem w' = w_mem w \<Longrightarrow> data_kept S w w'"
  by (auto simp: data_kept_def entry_of_def intro: shared_bytes_cong)

lemma entry_of_Some: "entry_of w i = Some osm \<longleftrightarrow> (\<exists>c. w_shared w i = Some (osm, c))"
  by (auto simp: entry_of_def)

lemma fr_insert_sel [simp]:
  "fr_blocks (fr_insert k X) = insert k (fr_blocks X)" "fr_data (fr_insert k X) = fr_data X"
  by (auto simp: fr_blocks_def fr_insert_def)

lemma frame_cong:
  assumes "frame_ok X m" "\<And>k. k \<in> fr_blocks X \<Longrightarrow> hp_blocks (mem_heap m') k = hp_blocks (mem_heap m) k"
    and "ld_msgBuffers (mem_domain m') = ld_msgBuffers (mem_domain m)"
    "ld_msgBufferSize (mem_domain m') = ld_msgBufferSize (mem_domain m)"
  shows "frame_ok X m'"
  using assms by (simp add: frame_ok_def fr_blocks_def map_le_def)

lemma frame_insert: "k \<notin> fr_blocks X \<Longrightarrow> frame_ok (fr_insert k X) m \<longleftrightarrow> frame_ok X m"
  by (auto simp: frame_ok_def fr_blocks_def fr_insert_def)

lemma world_okD:
  assumes "world_ok mb R X w"
  shows "\<exists>b. w_backends w mb = Some b \<and> backends.in_use (owned_blocks w \<union> fr_blocks X) b (w_mem w)"
    and "owned_blocks w \<inter> fr_blocks X = {}"
    and "w_shared w i = Some (osm, c) \<Longrightarrow> i < w_next w \<and> 0 < c \<and> c = R i \<and> entry_ok mb w osm"
    and "w_shared w i = None \<Longrightarrow> R i = 0"
    and "w_shared w i = Some (osm, c) \<Longrightarrow> w_shared w j = Some (osm', c') \<Longrightarrow>
        osm_buffer osm = osm_buffer osm' \<Longrightarrow> i = j"
    and "frame_ok X (w_mem w)"
  using assms unfolding world_ok_def by blast+

lemma world_okI:
  assumes "w_backends w mb = Some b" "backends.in_use (owned_blocks w \<union> fr_blocks X) b (w_mem w)"
    and "owned_blocks w \<inter> fr_blocks X = {}"
    and "\<And>i osm c. w_shared w i = Some (osm, c) \<Longrightarrow> i < w_next w \<and> 0 < c \<and> c = R i \<and> entry_ok mb w osm"
    and "\<And>i. w_shared w i = None \<Longrightarrow> R i = 0"
    and "\<And>i j osm osm' c c'. w_shared w i = Some (osm, c) \<Longrightarrow> w_shared w j = Some (osm', c') \<Longrightarrow>
        osm_buffer osm = osm_buffer osm' \<Longrightarrow> i = j"
    and "frame_ok X (w_mem w)"
  shows "world_ok mb R X w"
  using assms unfolding world_ok_def by blast

lemma world_ok_entry:
  assumes "world_ok mb R X w" "w_shared w i = Some (osm, c)"
  obtains k bs where "osm_buffer osm = Ptr k 0" "w_blocks w k = Some bs" "length bs = osm_size osm"
    "k \<in> owned_blocks w" "shared_bytes w i = Some bs" "osm_memoryBackend osm = mb" "c = R i" "0 < c"
proof -
  have "entry_ok mb w osm" "c = R i" "0 < c" using world_okD(3) [OF assms] by auto
  then obtain k bs where "osm_buffer osm = Ptr k 0" "w_blocks w k = Some bs" "length bs = osm_size osm"
      "osm_memoryBackend osm = mb"
    by (auto simp: entry_ok_def hp_len_def)
  moreover from this have "k \<in> owned_blocks w" "shared_bytes w i = Some bs"
    using assms(2) shared_bytes_entry [OF assms(2)] by (auto simp: owned_blocks_def)
  ultimately show thesis using that \<open>c = R i\<close> \<open>0 < c\<close> by blast
qed

lemma world_live:
  assumes "world_ok mb R X w" "0 < R i"
  obtains osm c where "w_shared w i = Some (osm, c)"
  using world_okD(4) [OF assms(1), of i] assms(2) by (cases "w_shared w i") auto

lemma kept_if_blocks:
  assumes "world_ok mb R X w" "entry_of w' = entry_of w"
    and "\<And>k. k \<in> owned_blocks w \<Longrightarrow> w_blocks w' k = w_blocks w k"
  shows "data_kept S w w'"
proof -
  have "shared_bytes w' i = shared_bytes w i" for i
  proof (cases "w_shared w i")
    case None
    then have "w_shared w' i = None" using assms(2) by (metis entry_of_def map_option_is_None)
    with None show ?thesis by (simp add: shared_bytes_def)
  next
    case (Some e)
    obtain osm c where e: "e = (osm, c)" by force
    with Some world_ok_entry [OF assms(1), of i osm c] obtain k where
      k: "osm_buffer osm = Ptr k 0" "k \<in> owned_blocks w" by blast
    obtain c' where "w_shared w' i = Some (osm, c')"
      using assms(2) Some e by (metis entry_of_Some)
    with k Some e assms(3) show ?thesis by (simp add: shared_bytes_entry)
  qed
  with assms(2) show ?thesis by (simp add: data_kept_def)
qed

section \<open>Preservation\<close>

lemma world_alloc:
  assumes ok: "world_ok mb R X w" and a: "w_allocate fi mb n w = Inr (p, w')"
  obtains k where "p = Ptr k 0" "k \<notin> owned_blocks w" "k \<notin> fr_blocks X" "world_ok mb R (fr_insert k X) w'"
    "hp_len (mem_heap (w_mem w')) k = Some n" "w_shared w' = w_shared w" "w_next w' = w_next w"
    "w_storage w' = w_storage w" "data_kept S w w'" "\<And>c. c \<in> fr_blocks X \<Longrightarrow> w_blocks w' c = w_blocks w c"
proof -
  obtain b where b: "w_backends w mb = Some b" "backends.in_use (owned_blocks w \<union> fr_blocks X) b (w_mem w)"
    using world_okD(1) [OF ok] by blast
  obtain b' m' where al: "allocate fi n b (w_mem w) = Inr (p, b', m')"
      and w': "w' = w\<lparr>w_mem := m', w_backends := (w_backends w)(mb \<mapsto> b')\<rparr>"
    using a b(1) by (auto simp: w_allocate_def bindE_eq_Inr)
  obtain k where k: "p = Ptr k 0" "k \<notin> owned_blocks w \<union> fr_blocks X"
      "backends.in_use (insert k (owned_blocks w \<union> fr_blocks X)) b' m'" "hp_len (mem_heap m') k = Some n"
      "\<And>c. c \<in> owned_blocks w \<union> fr_blocks X \<Longrightarrow> hp_blocks (mem_heap m') c = w_blocks w c"
    by (rule backends.in_use_alloc [OF b(2) al]) (rule that)
  have own: "owned_blocks w' = owned_blocks w" by (simp add: owned_blocks_def w')
  have blk: "w_blocks w' c = w_blocks w c" if "c \<in> owned_blocks w \<union> fr_blocks X" for c
    using k(5) [OF that] by (simp add: w')
  have ent: "i < w_next w' \<and> 0 < c \<and> c = R i \<and> entry_ok mb w' osm"
    if "w_shared w' i = Some (osm, c)" for i osm c
  proof -
    have s: "w_shared w i = Some (osm, c)" using that by (simp add: w')
    obtain kk bs where "osm_buffer osm = Ptr kk 0" "w_blocks w kk = Some bs" "length bs = osm_size osm"
        "kk \<in> owned_blocks w" "osm_memoryBackend osm = mb"
      using world_ok_entry [OF ok s] by blast
    then have "entry_ok mb w' osm" using blk by (auto simp: entry_ok_def hp_len_def)
    then show ?thesis using world_okD(3) [OF ok s] by (simp add: w')
  qed
  have "frame_ok X (w_mem w')"
    by (rule frame_cong [OF world_okD(6) [OF ok]]) (use blk allocate_pool [OF al] in \<open>simp_all add: w'\<close>)
  then have fr: "frame_ok (fr_insert k X) (w_mem w')" using k(2) by (simp add: frame_insert)
  have "world_ok mb R (fr_insert k X) w'"
  proof (rule world_okI)
    show "w_backends w' mb = Some b'" by (simp add: w')
    show "backends.in_use (owned_blocks w' \<union> fr_blocks (fr_insert k X)) b' (w_mem w')"
      using k(3) unfolding own by (simp add: w')
    show "owned_blocks w' \<inter> fr_blocks (fr_insert k X) = {}" using world_okD(2) [OF ok] k(2) own by auto
    show "\<And>i. w_shared w' i = None \<Longrightarrow> R i = 0" using world_okD(4) [OF ok] by (simp add: w')
    show "\<And>i j osm osm' c c'. w_shared w' i = Some (osm, c) \<Longrightarrow> w_shared w' j = Some (osm', c') \<Longrightarrow>
        osm_buffer osm = osm_buffer osm' \<Longrightarrow> i = j"
      using world_okD(5) [OF ok] by (simp add: w')
  qed (use ent fr in simp_all)
  moreover have "data_kept S w w'"
    using kept_if_blocks [OF ok] blk by (simp add: w' entry_of_def fun_eq_iff)
  moreover have "k \<notin> owned_blocks w" "k \<notin> fr_blocks X" using k(2) by auto
  ultimately show thesis
    using that [of k] k(1,4) blk by (simp add: w')
qed

lemma world_dealloc:
  assumes ok: "world_ok mb R (fr_insert k X) w" and k: "k \<notin> fr_blocks X"
    and d: "w_deallocate mb (Ptr k 0) n w = Inr w'"
  shows "world_ok mb R X w'" "w_shared w' = w_shared w" "w_next w' = w_next w"
    "w_storage w' = w_storage w" "data_kept S w w'"
proof -
  obtain b where b: "w_backends w mb = Some b" "backends.in_use (owned_blocks w \<union> insert k (fr_blocks X)) b (w_mem w)"
    using world_okD(1) [OF ok] by auto
  obtain b' m' where de: "deallocate (Ptr k 0) n b (w_mem w) = Inr (b', m')"
      and w': "w' = w\<lparr>w_mem := m', w_backends := (w_backends w)(mb \<mapsto> b')\<rparr>"
    using d b(1) by (auto simp: w_deallocate_def bindE_eq_Inr)
  have np: "Ptr k 0 \<notin> free_ptrs b" using b(2) by (simp add: backends.in_use_def)
  obtain k' where k': "Ptr k 0 = Ptr k' 0" "backends.in_use (owned_blocks w \<union> insert k (fr_blocks X) - {k'}) b' m'"
      "\<And>c. c \<noteq> k' \<Longrightarrow> hp_blocks (mem_heap m') c = w_blocks w c"
    by (rule backends.in_use_dealloc [OF b(2) np de]) (rule that)
  have nk: "k \<notin> owned_blocks w" using world_okD(2) [OF ok] by auto
  have own: "owned_blocks w' = owned_blocks w" by (simp add: owned_blocks_def w')
  have blk: "w_blocks w' c = w_blocks w c" if "c \<in> owned_blocks w" for c
    using k'(3) [of c] k'(1) nk that by (auto simp: w')
  have ent: "i < w_next w' \<and> 0 < c \<and> c = R i \<and> entry_ok mb w' osm"
    if "w_shared w' i = Some (osm, c)" for i osm c
  proof -
    have s: "w_shared w i = Some (osm, c)" using that by (simp add: w')
    obtain kk bs where "osm_buffer osm = Ptr kk 0" "w_blocks w kk = Some bs" "length bs = osm_size osm"
        "kk \<in> owned_blocks w" "osm_memoryBackend osm = mb"
      using world_ok_entry [OF ok s] by blast
    then have "entry_ok mb w' osm" using blk by (auto simp: entry_ok_def hp_len_def)
    then show ?thesis using world_okD(3) [OF ok s] by (simp add: w')
  qed
  have "frame_ok X (w_mem w)" using world_okD(6) [OF ok] k by (simp add: frame_insert)
  then have fr: "frame_ok X (w_mem w')"
  proof (rule frame_cong)
    show "hp_blocks (mem_heap (w_mem w')) c = w_blocks w c" if "c \<in> fr_blocks X" for c
      using k'(3) [of c] k'(1) k that by (auto simp: w')
  qed (use deallocate_pool [OF de] in \<open>simp_all add: w'\<close>)
  show "world_ok mb R X w'"
  proof (rule world_okI)
    show "w_backends w' mb = Some b'" by (simp add: w')
    have "owned_blocks w \<union> insert k (fr_blocks X) - {k'} = owned_blocks w' \<union> fr_blocks X" using own nk k k'(1) by auto
    with k'(2) show "backends.in_use (owned_blocks w' \<union> fr_blocks X) b' (w_mem w')" by (simp add: w')
    show "owned_blocks w' \<inter> fr_blocks X = {}" using world_okD(2) [OF ok] own by auto
    show "\<And>i. w_shared w' i = None \<Longrightarrow> R i = 0" using world_okD(4) [OF ok] by (simp add: w')
    show "\<And>i j osm osm' c c'. w_shared w' i = Some (osm, c) \<Longrightarrow> w_shared w' j = Some (osm', c') \<Longrightarrow>
        osm_buffer osm = osm_buffer osm' \<Longrightarrow> i = j"
      using world_okD(5) [OF ok] by (simp add: w')
  qed (use ent fr in simp_all)
  show "data_kept S w w'"
    using kept_if_blocks [OF ok] blk by (simp add: w' entry_of_def fun_eq_iff)
qed (use d in \<open>auto simp: w_deallocate_def bindE_eq_Inr split: option.splits\<close>)

lemma world_write:
  assumes ok: "world_ok mb R X w" and wr: "write_mem (Ptr k j) ys (mem_heap (w_mem w)) = Inr h"
    and fk: "fr_data X k = None"
  shows "world_ok mb R X (w_set_heap h w)" "w_shared (w_set_heap h w) = w_shared w"
    "w_next (w_set_heap h w) = w_next w" "w_storage (w_set_heap h w) = w_storage w"
    "\<And>c. c \<noteq> k \<Longrightarrow> w_blocks (w_set_heap h w) c = w_blocks w c"
    "\<And>xs. w_blocks w k = Some xs \<Longrightarrow> w_blocks (w_set_heap h w) k = Some (patch j ys xs) \<and>
       j + length ys \<le> length xs"
    "k \<notin> owned_blocks w \<Longrightarrow> data_kept S w (w_set_heap h w)"
proof -
  obtain xs where xs: "w_blocks w k = Some xs" "j + length ys \<le> length xs"
      "h = (mem_heap (w_mem w))\<lparr>hp_blocks := (w_blocks w)(k \<mapsto> patch j ys xs)\<rparr>"
    using wr by (auto split: option.splits if_splits)
  have len: "hp_len h = hp_len (mem_heap (w_mem w))" by (rule hp_len_write [OF wr])
  have own: "owned_blocks (w_set_heap h w) = owned_blocks w" by (simp add: owned_blocks_def w_set_heap_def)
  obtain b where b: "w_backends w mb = Some b" "backends.in_use (owned_blocks w \<union> fr_blocks X) b (w_mem w)"
    using world_okD(1) [OF ok] by blast
  have "backends.in_use (owned_blocks w \<union> fr_blocks X) b ((w_mem w)\<lparr>mem_heap := h\<rparr>)"
    using b(2) len heap_ok_write [OF _ wr] xs(3) by (auto simp: backends.in_use_def)
  moreover have "frame_ok X (w_mem (w_set_heap h w))"
    using world_okD(6) [OF ok] fk xs(3) by (auto simp: frame_ok_def map_le_def w_set_heap_def)
  ultimately show "world_ok mb R X (w_set_heap h w)"
    using b(1) len world_okD(2) [OF ok]
    by (intro world_okI, unfold own)
      (simp_all add: w_set_heap_def entry_ok_def world_okD(4) [OF ok],
       use world_okD(3) [OF ok] in \<open>simp add: entry_ok_def\<close>, use world_okD(5) [OF ok] in blast)
  show other: "\<And>c. c \<noteq> k \<Longrightarrow> w_blocks (w_set_heap h w) c = w_blocks w c"
    and "\<And>xs. w_blocks w k = Some xs \<Longrightarrow> w_blocks (w_set_heap h w) k = Some (patch j ys xs) \<and>
       j + length ys \<le> length xs"
    using xs by (auto simp: w_set_heap_def)
  show "data_kept S w (w_set_heap h w)" if "k \<notin> owned_blocks w"
  proof (rule kept_if_blocks [OF ok])
    show "w_blocks (w_set_heap h w) c = w_blocks w c" if "c \<in> owned_blocks w" for c
      using other [of c] that \<open>k \<notin> owned_blocks w\<close> by auto
  qed (simp add: entry_of_def fun_eq_iff w_set_heap_def)
qed (simp_all add: w_set_heap_def)

lemma world_make_shared:
  assumes ok: "world_ok mb R (fr_insert k X) w" and k: "k \<notin> fr_blocks X"
    and n: "hp_len (mem_heap (w_mem w)) k = Some n"
    and ms: "make_shared \<lparr>osm_buffer = Ptr k 0, osm_size = n, osm_memoryBackend = mb\<rparr> w = (i, w')"
  shows "w_shared w i = None" "R i = 0" "world_ok mb (R(i := 1)) X w'"
    "w_shared w' = (w_shared w)(i \<mapsto> (\<lparr>osm_buffer = Ptr k 0, osm_size = n, osm_memoryBackend = mb\<rparr>, 1))"
    "shared_bytes w' i = w_blocks w k" "w_mem w' = w_mem w"
    "w_storage w' = w_storage w" "i \<notin> S \<Longrightarrow> data_kept S w w'"
proof -
  let ?osm = "\<lparr>osm_buffer = Ptr k 0, osm_size = n, osm_memoryBackend = mb\<rparr>"
  have i: "i = w_next w" and w': "w' = w\<lparr>w_shared := (w_shared w)(i \<mapsto> (?osm, 1)), w_next := Suc i\<rparr>"
    using ms by (auto simp: make_shared_def)
  show none: "w_shared w i = None"
    using world_okD(3) [OF ok, of i] i by (cases "w_shared w i") auto
  then show "R i = 0" using world_okD(4) [OF ok] by blast
  have own: "owned_blocks w' = insert k (owned_blocks w)"
    unfolding owned_blocks_def w' using none by (auto split: if_splits) (metis option.distinct(1))
  have nk: "k \<notin> owned_blocks w" using world_okD(2) [OF ok] by auto
  have old: "j \<noteq> i" if "w_shared w j = Some e" for j e using none that by auto
  obtain b where b: "w_backends w mb = Some b" "backends.in_use (owned_blocks w \<union> insert k (fr_blocks X)) b (w_mem w)"
    using world_okD(1) [OF ok] by auto
  show "world_ok mb (R(i := 1)) X w'"
  proof (rule world_okI)
    show "w_backends w' mb = Some b" using b(1) by (simp add: w')
    show "backends.in_use (owned_blocks w' \<union> fr_blocks X) b (w_mem w')" using b(2) unfolding own by (simp add: w')
    show "owned_blocks w' \<inter> fr_blocks X = {}" using world_okD(2) [OF ok] own k by auto
    show "j < w_next w' \<and> 0 < c \<and> c = (R(i := 1)) j \<and> entry_ok mb w' osm"
      if "w_shared w' j = Some (osm, c)" for j osm c
      using that world_okD(3) [OF ok, of j osm c] n
      by (cases "j = i") (auto simp: w' i entry_ok_def)
    show "(R(i := 1)) j = 0" if "w_shared w' j = None" for j
      using that world_okD(4) [OF ok, of j] by (auto simp: w' split: if_splits)
    have ne: "osm_buffer osm \<noteq> Ptr k 0" if "w_shared w j = Some (osm, c)" for j osm c
      using nk that by (auto simp: owned_blocks_def)
    show "j = j'" if "w_shared w' j = Some (osm, c)" "w_shared w' j' = Some (osm', c')"
        "osm_buffer osm = osm_buffer osm'" for j j' osm osm' c c'
      using that ne [of j osm c] ne [of j' osm' c'] world_okD(5) [OF ok, of j osm c j' osm' c']
      by (cases "j = i"; cases "j' = i") (auto simp: w')
    show "frame_ok X (w_mem w')" using world_okD(6) [OF ok] k by (simp add: w' frame_insert)
  qed
  show "w_shared w' = (w_shared w)(i \<mapsto> (?osm, 1))" by (simp add: w')
  then show "shared_bytes w' i = w_blocks w k"
    using shared_bytes_entry [of w' i ?osm 1 k 0] by (simp add: w')
  show "i \<notin> S \<Longrightarrow> data_kept S w w'"
    by (rule kept_if_shared) (auto simp: w')
qed (use ms in \<open>auto simp: make_shared_def\<close>)

lemma entry_of_upd: "entry_of (w\<lparr>w_shared := (w_shared w)(i \<mapsto> (osm, c))\<rparr>) = (entry_of w)(i \<mapsto> osm)"
  by (auto simp: entry_of_def)

lemma world_set_count:
  assumes ok: "world_ok mb R X w" and i: "w_shared w i = Some (osm, c)" and c: "0 < c'"
  shows "world_ok mb (R(i := c')) X (w\<lparr>w_shared := (w_shared w)(i \<mapsto> (osm, c'))\<rparr>)"
    "data_kept S w (w\<lparr>w_shared := (w_shared w)(i \<mapsto> (osm, c'))\<rparr>)"
proof -
  let ?w = "w\<lparr>w_shared := (w_shared w)(i \<mapsto> (osm, c'))\<rparr>"
  have ent: "entry_of ?w = entry_of w" using i by (auto simp: entry_of_def fun_eq_iff)
  have own: "owned_blocks ?w = owned_blocks w"
  proof -
    have "owned_blocks v = {k. \<exists>j osm. entry_of v j = Some osm \<and> osm_buffer osm = Ptr k 0}" for v :: "'a world"
      unfolding owned_blocks_def entry_of_Some by blast
    with ent show ?thesis by simp
  qed
  obtain b where b: "w_backends w mb = Some b" "backends.in_use (owned_blocks w \<union> fr_blocks X) b (w_mem w)"
    using world_okD(1) [OF ok] by blast
  show "world_ok mb (R(i := c')) X ?w"
  proof (rule world_okI)
    show "w_backends ?w mb = Some b" using b(1) by simp
    show "backends.in_use (owned_blocks ?w \<union> fr_blocks X) b (w_mem ?w)" unfolding own using b(2) by simp
    show "owned_blocks ?w \<inter> fr_blocks X = {}" unfolding own by (rule world_okD(2) [OF ok])
    show "j < w_next ?w \<and> 0 < d \<and> d = (R(i := c')) j \<and> entry_ok mb ?w osm'"
      if "w_shared ?w j = Some (osm', d)" for j osm' d
      using that i c world_okD(3) [OF ok, of j] by (cases "j = i") (auto simp: entry_ok_def)
    show "(R(i := c')) j = 0" if "w_shared ?w j = None" for j
      using that world_okD(4) [OF ok, of j] by (auto split: if_splits)
    show "j = j'" if "w_shared ?w j = Some (osm1, c1)" "w_shared ?w j' = Some (osm2, c2)"
        "osm_buffer osm1 = osm_buffer osm2" for j j' osm1 osm2 c1 c2
    proof -
      have "\<exists>d. w_shared w l = Some (osm3, d)" if "w_shared ?w l = Some (osm3, c3)" for l osm3 c3
        using that i by (auto split: if_splits)
      with that world_okD(5) [OF ok] show ?thesis by metis
    qed
    show "frame_ok X (w_mem ?w)" using world_okD(6) [OF ok] by simp
  qed
  show "data_kept S w ?w"
    using kept_if_blocks [OF ok ent] by simp
qed

lemma world_copy:
  assumes "world_ok mb R X w" "shared_copy (Some i) w = Inr w'"
  shows "world_ok mb (R(i := Suc (R i))) X w'" "data_kept S w w'" "w_storage w' = w_storage w"
    "0 < R i" "w_mem w' = w_mem w" "w_next w' = w_next w"
proof -
  obtain osm c where i: "w_shared w i = Some (osm, c)"
      and w': "w' = w\<lparr>w_shared := (w_shared w)(i \<mapsto> (osm, Suc c))\<rparr>"
    using assms(2) by (auto simp: shared_copy_def split: option.splits)
  have "c = R i" "0 < c" using world_okD(3) [OF assms(1) i] by auto
  with world_set_count [OF assms(1) i, of "Suc c"] w'
  show "world_ok mb (R(i := Suc (R i))) X w'" "data_kept S w w'" "w_storage w' = w_storage w" "0 < R i"
    "w_mem w' = w_mem w" "w_next w' = w_next w"
    by auto
qed

text \<open>Dropping the last reference gives the buffer back; the entry leaves the table.\<close>

lemma world_remove_entry:
  assumes ok: "world_ok mb R X w" and i: "w_shared w i = Some (osm, c)" and k: "osm_buffer osm = Ptr k 0"
  shows "k \<notin> fr_blocks X" "world_ok mb (R(i := 0)) (fr_insert k X) (w\<lparr>w_shared := (w_shared w)(i := None)\<rparr>)"
    "i \<notin> S \<Longrightarrow> data_kept S w (w\<lparr>w_shared := (w_shared w)(i := None)\<rparr>)"
proof -
  let ?w = "w\<lparr>w_shared := (w_shared w)(i := None)\<rparr>"
  have ko: "k \<in> owned_blocks w" using i k by (auto simp: owned_blocks_def)
  then show "k \<notin> fr_blocks X" using world_okD(2) [OF ok] by auto
  have own: "owned_blocks ?w = owned_blocks w - {k}"
  proof (intro set_eqI iffI)
    fix x
    assume "x \<in> owned_blocks ?w"
    then obtain j osm' c' where j: "j \<noteq> i" "w_shared w j = Some (osm', c')" "osm_buffer osm' = Ptr x 0"
      by (auto simp: owned_blocks_def split: if_splits)
    with world_okD(5) [OF ok j(2) i] k show "x \<in> owned_blocks w - {k}"
      by (auto simp: owned_blocks_def)
  next
    fix x
    assume x: "x \<in> owned_blocks w - {k}"
    then obtain j osm' c' where j: "w_shared w j = Some (osm', c')" "osm_buffer osm' = Ptr x 0"
      by (auto simp: owned_blocks_def)
    then have "j \<noteq> i" using i k x by auto
    with j show "x \<in> owned_blocks ?w" unfolding owned_blocks_def by auto
  qed
  obtain b where b: "w_backends w mb = Some b" "backends.in_use (owned_blocks w \<union> fr_blocks X) b (w_mem w)"
    using world_okD(1) [OF ok] by blast
  show "world_ok mb (R(i := 0)) (fr_insert k X) ?w"
  proof (rule world_okI)
    show "w_backends ?w mb = Some b" using b(1) by simp
    have "owned_blocks ?w \<union> insert k (fr_blocks X) = owned_blocks w \<union> fr_blocks X" using own ko by auto
    then show "backends.in_use (owned_blocks ?w \<union> fr_blocks (fr_insert k X)) b (w_mem ?w)" using b(2) by simp
    show "owned_blocks ?w \<inter> fr_blocks (fr_insert k X) = {}" using own world_okD(2) [OF ok] by auto
    show "j < w_next ?w \<and> 0 < d \<and> d = (R(i := 0)) j \<and> entry_ok mb ?w osm'"
      if "w_shared ?w j = Some (osm', d)" for j osm' d
      using that world_okD(3) [OF ok, of j] by (cases "j = i") (auto simp: entry_ok_def)
    show "(R(i := 0)) j = 0" if "w_shared ?w j = None" for j
      using that world_okD(4) [OF ok, of j] by (auto split: if_splits)
    show "j = j'" if "w_shared ?w j = Some (osm1, c1)" "w_shared ?w j' = Some (osm2, c2)"
        "osm_buffer osm1 = osm_buffer osm2" for j j' osm1 osm2 c1 c2
      using that world_okD(5) [OF ok, of j osm1 c1 j' osm2 c2] by (auto split: if_splits)
    show "frame_ok (fr_insert k X) (w_mem ?w)"
      using world_okD(6) [OF ok] \<open>k \<notin> fr_blocks X\<close> by (simp add: frame_insert)
  qed
  show "i \<notin> S \<Longrightarrow> data_kept S w ?w"
    by (rule kept_if_shared) auto
qed

lemma world_drop:
  assumes ok: "world_ok mb R X w" and d: "shared_drop (Some i) w = Inr w'"
  shows "world_ok mb (R(i := R i - 1)) X w'" "w_storage w' = w_storage w" "0 < R i"
    "1 < R i \<or> i \<notin> S \<Longrightarrow> data_kept S w w'" "w_next w' = w_next w"
proof -
  obtain osm c where i: "w_shared w i = Some (osm, c)"
    using d by (auto simp: shared_drop_def split: option.splits)
  obtain k where c: "c = R i" "0 < c" and k: "osm_buffer osm = Ptr k 0" and mb: "osm_memoryBackend osm = mb"
    using world_ok_entry [OF ok i] by blast
  show "0 < R i" using c by simp
  have "world_ok mb (R(i := R i - 1)) X w' \<and> w_storage w' = w_storage w \<and> w_next w' = w_next w \<and>
    (1 < R i \<or> i \<notin> S \<longrightarrow> data_kept S w w')"
  proof (cases "c \<le> 1")
    case True
    let ?w = "w\<lparr>w_shared := (w_shared w)(i := None)\<rparr>"
    note rm = world_remove_entry [OF ok i k]
    have "w_deallocate mb (Ptr k 0) (osm_size osm) ?w = Inr w'"
      using d i True k mb by (simp add: shared_drop_def ObjectSegmentMemory_destroy_def)
    note de = world_dealloc [OF rm(2,1) this]
    have "R i = 1" using True c by simp
    then show ?thesis
      using de rm(3) [of S] data_kept_trans [of S w ?w w'] by simp
  next
    case False
    then have w': "w' = w\<lparr>w_shared := (w_shared w)(i \<mapsto> (osm, c - 1))\<rparr>"
      using d i by (simp add: shared_drop_def)
    show ?thesis
      using world_set_count [OF ok i, of "c - 1"] False c unfolding w' by simp
  qed
  then show "world_ok mb (R(i := R i - 1)) X w'" "w_storage w' = w_storage w" "w_next w' = w_next w"
    "1 < R i \<or> i \<notin> S \<Longrightarrow> data_kept S w w'" by blast+
qed

section \<open>Effect of the segment operations\<close>

lemma seg_memory_Inr:
  "seg_memory seg w = Inr osm \<longleftrightarrow> (\<exists>i c. os_memory seg = Some i \<and> w_shared w i = Some (osm, c))"
  by (auto simp: seg_memory_def split: option.splits)

lemma isCow_iff:
  "world_ok mb R X w \<Longrightarrow> os_memory seg = Some i \<Longrightarrow> 0 < R i \<Longrightarrow> isCow seg w \<longleftrightarrow> R i \<noteq> 1"
  using world_okD(3) [of mb R X w i] world_okD(4) [of mb R X w i]
  by (cases "w_shared w i") (auto simp: isCow_def)

text \<open>
  After \<open>applyCow\<close> the segment points to a new entry that only it references, with the bytes
  of the old one; the old entry lost one reference.
\<close>

lemma applyCow_effect:
  assumes ok: "world_ok mb R X w" and a: "applyCow fi seg w = Inr (seg', w')"
    and i: "os_memory seg = Some i"
  obtains j osm where "os_memory seg' = Some j" "os_offset seg' = os_offset seg" "os_dirty seg' = os_dirty seg"
    "R j = 0" "1 < R i" "world_ok mb (R(j := 1, i := R i - 1)) X w'"
    "shared_bytes w' j = shared_bytes w i" "entry_of w i = Some osm"
    "\<exists>osm'. entry_of w' j = Some osm' \<and> osm_size osm' = osm_size osm"
    "data_kept {l. 0 < R l} w w'" "w_storage w' = w_storage w"
proof -
  obtain osm c where osm: "w_shared w i = Some (osm, c)" using a i
    by (auto simp: applyCow_def bindE_eq_Inr seg_memory_Inr)
  obtain k bs where k: "osm_buffer osm = Ptr k 0" "w_blocks w k = Some bs" "length bs = osm_size osm"
      "k \<in> owned_blocks w" "shared_bytes w i = Some bs" "osm_memoryBackend osm = mb" "c = R i" "0 < c"
    by (rule world_ok_entry [OF ok osm]) (rule that)
  have sm: "seg_memory seg w = Inr osm" using i osm by (auto simp: seg_memory_Inr)
  let ?osm = "\<lambda>p. \<lparr>osm_buffer = p, osm_size = osm_size osm, osm_memoryBackend = mb\<rparr>"
  obtain p w1 h where
      cow: "isCow seg w" and al: "w_allocate fi mb (osm_size osm) w = Inr (p, w1)"
      and cp: "memcpy p (Ptr k 0) (osm_size osm) (mem_heap (w_mem w1)) = Inr h"
      and rest: "(case make_shared (?osm p) (w_set_heap h w1) of (j, w2) \<Rightarrow>
        bindE (shared_drop (Some i) w2) (\<lambda>w. Inr (seg\<lparr>os_memory := Some j\<rparr>, w))) = Inr (seg', w')"
    using a i k(1,6) sm unfolding applyCow_def Let_def by (auto elim!: bindE_InrE)
  obtain j w2 where ms: "make_shared (?osm p) (w_set_heap h w1) = (j, w2)" by force
  then have dr: "shared_drop (Some i) w2 = Inr w'" and seg': "seg' = seg\<lparr>os_memory := Some j\<rparr>"
    using rest by (auto simp: bindE_eq_Inr)
  have ri: "1 < R i" using cow isCow_iff [OF ok i] k(7,8) by auto
  obtain q where q: "p = Ptr q 0" "q \<notin> owned_blocks w" "q \<notin> fr_blocks X" "world_ok mb R (fr_insert q X) w1"
      "hp_len (mem_heap (w_mem w1)) q = Some (osm_size osm)" "w_shared w1 = w_shared w"
      "w_next w1 = w_next w" "w_storage w1 = w_storage w" "data_kept UNIV w w1"
      "\<And>c. c \<in> fr_blocks X \<Longrightarrow> w_blocks w1 c = w_blocks w c"
    by (rule world_alloc [OF ok al]) (rule that)
  have k1: "w_blocks w1 k = Some bs"
    using q(9) osm k(1,5) q(6) shared_bytes_entry [of w1 i osm c k 0] by (simp add: data_kept_def)
  have wr: "write_mem (Ptr q 0) bs (mem_heap (w_mem w1)) = Inr h"
    using cp k1 k(3) q(1) by (simp add: memcpy_def split: if_splits)
  have fq: "fr_data (fr_insert q X) q = None" using q(3) by (auto simp: fr_blocks_def)
  note ww = world_write [OF q(4) wr fq]
  have own1: "owned_blocks w1 = owned_blocks w" by (simp add: owned_blocks_def q(6))
  obtain xs where xs: "w_blocks w1 q = Some xs" "length xs = osm_size osm"
    using q(5) by (auto simp: hp_len_def)
  have hq: "w_blocks (w_set_heap h w1) q = Some bs"
    using ww(6) [OF xs(1)] xs(2) k(3) patch_full [of bs xs] by simp
  note sh = world_make_shared [OF ww(1) q(3) _ ms [unfolded q(1)]]
  have len: "hp_len (mem_heap (w_mem (w_set_heap h w1))) q = Some (osm_size osm)"
    using hq k(3) by (simp add: hp_len_def)
  note sh = sh [OF len]
  have ij: "i \<noteq> j" using sh(1) osm q(6) by (auto simp: w_set_heap_def)
  have kept: "data_kept {l. 0 < R l} w w2"
  proof (rule data_kept_trans [OF data_kept_mono [OF q(9)] data_kept_trans])
    show "data_kept {l. 0 < R l} w1 (w_set_heap h w1)" using ww(7) q(2) own1 by simp
    show "data_kept {l. 0 < R l} (w_set_heap h w1) w2" using sh(8) sh(2) by simp
  qed simp
  have Ri: "(R(j := 1)) i = R i" using ij by simp
  note dr = world_drop [OF sh(3) dr]
  have kept2: "data_kept {l. 0 < (R(j := 1)) l} w2 w'"
    by (rule dr(4)) (use ri ij in simp)
  have bytes_j: "shared_bytes w' j = Some bs" "entry_of w' j = entry_of w2 j"
    using kept2 sh(5) hq by (auto simp: data_kept_def)
  show thesis
  proof (rule that)
    show "world_ok mb (R(j := 1, i := R i - 1)) X w'" using dr(1) ij by simp
    show "data_kept {l. 0 < R l} w w'"
      by (rule data_kept_trans [OF kept data_kept_mono [OF kept2]]) auto
    show "\<exists>osm'. entry_of w' j = Some osm' \<and> osm_size osm' = osm_size osm"
    proof -
      have "entry_of w' j = Some (?osm (Ptr q 0))"
        unfolding bytes_j(2) using sh(4) by (simp add: entry_of_def)
      then show ?thesis by simp
    qed
  qed (use seg' ri sh bytes_j k(5) osm dr(2) ww(4) q(8) in \<open>auto simp: entry_of_def\<close>)
qed

text \<open>\<open>makeCowOf\<close> on a segment without memory shares the entry of the original.\<close>

lemma makeCowOf_effect:
  assumes ok: "world_ok mb R X w" and c: "makeCowOf seg orig w = Inr (seg', w')"
    and i: "os_memory orig = Some i" and null: "os_memory seg = None"
  shows "seg' = orig" "0 < R i" "world_ok mb (R(i := Suc (R i))) X w'" "data_kept S w w'"
    "w_storage w' = w_storage w"
proof -
  have cp: "shared_copy (Some i) w = Inr w'"
    using c i null by (auto simp: makeCowOf_def bindE_eq_Inr shared_drop_def)
  show "seg' = orig"
    using c i null by (auto simp: makeCowOf_def bindE_eq_Inr shared_drop_def)
  show "0 < R i" "world_ok mb (R(i := Suc (R i))) X w'" "data_kept S w w'" "w_storage w' = w_storage w"
    by (rule world_copy [OF ok cp])+
qed

end
