(* ===== verification/Object.thy ===== *)
theory Object
  imports Object_Segment Consistency_Tracker
begin

text \<open>
  Objects (src/server/core/Object.hpp and .cpp): the cache of the loaded segments of a stored
  object.  The segments are kept in a \<open>std::map\<close> under the offset of their last byte, so that
  \<open>lower_bound\<close> finds the first segment that may overlap a range.  This theory holds the
  operations; their invariants and theorems are in the theories that import it.

  A reference to a segment of the map that an operation updates is the position in the list
  that represents the map; the loops return the updated part of the list.
\<close>

section \<open>Identifiers and state\<close>

datatype ObjectAccessMode = ACCESS_READ | ACCESS_WRITE

datatype ObjectId = ObjectId (oid_high: int) (oid_low: int)

text \<open>\<open>operator<\<close> on identifiers.\<close>

instantiation ObjectId :: linorder
begin

definition less_ObjectId :: "ObjectId \<Rightarrow> ObjectId \<Rightarrow> bool" where
  "less_ObjectId objId1 objId2 =
     (if oid_high objId1 < oid_high objId2 then True
      else if oid_high objId1 = oid_high objId2 then oid_low objId1 < oid_low objId2
      else False)"

definition less_eq_ObjectId :: "ObjectId \<Rightarrow> ObjectId \<Rightarrow> bool" where
  "less_eq_ObjectId a b \<longleftrightarrow> a < b \<or> a = (b :: ObjectId)"

instance
  by standard (auto simp: less_ObjectId_def less_eq_ObjectId_def ObjectId.expand split: if_splits,
      metis ObjectId.expand linorder_less_linear)

end

record object =
  obj_objectId :: ObjectId
  obj_segmentMap :: "(size_t, ObjectSegment) std_map"
  obj_alignement :: size_t
  obj_consistencyTracker :: ConsistencyTracker
  obj_storageBackend :: bool
  obj_memoryBackend :: nat

definition Object_init :: "bool \<Rightarrow> nat \<Rightarrow> ObjectId \<Rightarrow> size_t \<Rightarrow> object" where
  "Object_init storageBackend memBack objectId alignement =
     \<lparr>obj_objectId = objectId, obj_segmentMap = [], obj_alignement = alignement,
      obj_consistencyTracker = ConsistencyTracker_init, obj_storageBackend = storageBackend,
      obj_memoryBackend = memBack\<rparr>"

definition setStorageBackend :: "bool \<Rightarrow> object \<Rightarrow> object" where
  "setStorageBackend sb ob = ob\<lparr>obj_storageBackend := sb\<rparr>"

definition setMemoryBackend :: "nat \<Rightarrow> object \<Rightarrow> object" where
  "setMemoryBackend mb ob = ob\<lparr>obj_memoryBackend := mb\<rparr>"

definition forceAlignement :: "size_t \<Rightarrow> object \<Rightarrow> object result" where
  "forceAlignement alignment ob =
     bindE (assumeE (obj_segmentMap ob = []) ''Cannot change the alignement after accessing the object.'') (\<lambda>_.
     Inr (ob\<lparr>obj_alignement := alignment\<rparr>))"

section \<open>Storage access\<close>

text \<open>
  The wrappers that check for a storage backend.  A read overwrites the buffer, whose content
  is passed and returned.
\<close>

definition Object_pwrite ::
  "'s storage_ops \<Rightarrow> object \<Rightarrow> byte list \<Rightarrow> size_t \<Rightarrow> 's world \<Rightarrow> (int \<times> 's world) result" where
  "Object_pwrite so ob buf offset w =
     (if obj_storageBackend ob then
        bindE (so_pwrite so (oid_high (obj_objectId ob)) (oid_low (obj_objectId ob)) buf offset (w_storage w)) (\<lambda>(st, s).
        Inr (st, w\<lparr>w_storage := s\<rparr>))
      else Inr (ssize_t_of (length buf), w))"

definition Object_pread ::
  "'s storage_ops \<Rightarrow> object \<Rightarrow> ptr \<Rightarrow> size_t \<Rightarrow> size_t \<Rightarrow> 's world \<Rightarrow> (int \<times> 's world) result" where
  "Object_pread so ob buffer n offset w =
     (if obj_storageBackend ob then
        bindE (read_mem buffer n (mem_heap (w_mem w))) (\<lambda>buf.
        bindE (so_pread so (oid_high (obj_objectId ob)) (oid_low (obj_objectId ob)) buf offset (w_storage w)) (\<lambda>(st, buf, s).
        bindE (write_mem buffer buf (mem_heap (w_mem w))) (\<lambda>h.
        Inr (st, (w_set_heap h w)\<lparr>w_storage := s\<rparr>))))
      else Inr (ssize_t_of n, w))"

definition Object_create :: "'s storage_ops \<Rightarrow> object \<Rightarrow> 's world \<Rightarrow> (int \<times> 's world) result" where
  "Object_create so ob w =
     (if obj_storageBackend ob then
        bindE (so_create so (oid_high (obj_objectId ob)) (oid_low (obj_objectId ob)) (w_storage w)) (\<lambda>(st, s).
        Inr (st, w\<lparr>w_storage := s\<rparr>))
      else Inr (0, w))"

section \<open>Dirty ranges and flush\<close>

fun markDirty_loop ::
  "size_t \<Rightarrow> size_t \<Rightarrow> (size_t, ObjectSegment) std_map \<Rightarrow> 's world \<Rightarrow> (size_t, ObjectSegment) std_map result" where
  "markDirty_loop base n [] w = Inr []"
| "markDirty_loop base n ((k, seg) # segs) w =
     bindE (ObjectSegment_overlap seg base n w) (\<lambda>ov.
     bindE (markDirty_loop base n segs w) (\<lambda>segs'.
     Inr ((k, if ov then seg\<lparr>os_dirty := True\<rparr> else seg) # segs')))"

definition markDirty :: "size_t \<Rightarrow> size_t \<Rightarrow> object \<Rightarrow> 's world \<Rightarrow> object result" where
  "markDirty base n ob w =
     bindE (markDirty_loop base n (obj_segmentMap ob) w) (\<lambda>segs. Inr (ob\<lparr>obj_segmentMap := segs\<rparr>))"

definition flush_wanted :: "size_t \<Rightarrow> size_t \<Rightarrow> ObjectSegment \<Rightarrow> 's world \<Rightarrow> bool result" where
  "flush_wanted offset n seg w =
     (if os_dirty seg then (if n = 0 then Inr True else ObjectSegment_overlap seg offset n w) else Inr False)"

fun flush_loop ::
  "'s storage_ops \<Rightarrow> object \<Rightarrow> size_t \<Rightarrow> size_t \<Rightarrow> int \<Rightarrow> (size_t, ObjectSegment) std_map \<Rightarrow> 's world \<Rightarrow>
   (int \<times> (size_t, ObjectSegment) std_map \<times> 's world) result" where
  "flush_loop so ob offset n ret [] w = Inr (ret, [], w)"
| "flush_loop so ob offset n ret ((k, seg) # segs) w =
     bindE (flush_wanted offset n seg w) (\<lambda>wanted.
     if wanted then
       bindE (seg_memory seg w) (\<lambda>osm.
       bindE (read_mem (osm_buffer osm) (osm_size osm) (mem_heap (w_mem w))) (\<lambda>buf.
       bindE (Object_pwrite so ob buf (os_offset seg) w) (\<lambda>(st, w).
       bindE (flush_loop so ob offset n (if st \<noteq> ssize_t_of (osm_size osm) then - 1 else ret) segs w) (\<lambda>(ret, segs', w).
       Inr (ret, (k, seg\<lparr>os_dirty := False\<rparr>) # segs', w)))))
     else
       bindE (flush_loop so ob offset n ret segs w) (\<lambda>(ret, segs', w). Inr (ret, (k, seg) # segs', w)))"

definition Object_flush ::
  "'s storage_ops \<Rightarrow> size_t \<Rightarrow> size_t \<Rightarrow> object \<Rightarrow> 's world \<Rightarrow> (int \<times> object \<times> 's world) result" where
  "Object_flush so offset n ob w =
     bindE (flush_loop so ob offset n 0 (obj_segmentMap ob) w) (\<lambda>(ret, segs, w).
     Inr (ret, ob\<lparr>obj_segmentMap := segs\<rparr>, w))"

section \<open>Access to the buffers of a range\<close>

definition isFullyOverlapped :: "size_t \<Rightarrow> size_t \<Rightarrow> size_t \<Rightarrow> size_t \<Rightarrow> bool" where
  "isFullyOverlapped segOffset segSize reqOffset reqSize =
     (let segEnd = add64 segOffset segSize; reqEnd = add64 reqOffset reqSize
      in segOffset \<ge> reqOffset \<and> segEnd \<le> reqEnd)"

definition align_range :: "size_t \<Rightarrow> size_t \<Rightarrow> size_t \<Rightarrow> size_t \<times> size_t" where
  "align_range alignement base n =
     (if alignement > 0 then
        let n = add64 n (base mod alignement);
            base = base - base mod alignement;
            n = (if n mod alignement > 0 then add64 n (alignement - n mod alignement) else n)
        in (base, n)
      else (base, n))"

text \<open>The entry \<open>segmentMap[k]\<close>, created null when it is missing.\<close>

definition segmentMap_at :: "size_t \<Rightarrow> object \<Rightarrow> ObjectSegment" where
  "segmentMap_at k ob = (case sm_find (obj_segmentMap ob) k of None \<Rightarrow> ObjectSegment_null | Some seg \<Rightarrow> seg)"

definition errDescr :: ObjectSegmentDescr where
  "errDescr = \<lparr>osd_ptr = NULL, osd_offset = 0, osd_size = 0\<rparr>"

definition loadSegment ::
  "fabric_ops \<Rightarrow> 's storage_ops \<Rightarrow> size_t \<Rightarrow> size_t \<Rightarrow> bool \<Rightarrow> bool \<Rightarrow> object \<Rightarrow> 's world \<Rightarrow>
   (ObjectSegmentDescr \<times> object \<times> 's world) result" where
  "loadSegment fi so offset n load acceptLoadFail ob w =
     bindE (w_allocate fi (obj_memoryBackend ob) n w) (\<lambda>(buffer, w).
     bindE (if load then
              bindE (Object_pread so ob buffer n offset w) (\<lambda>(st, w).
              Inr (size_t_of st \<noteq> n \<and> \<not> acceptLoadFail, w))
            else Inr (False, w)) (\<lambda>(failed, w).
     if failed then
       bindE (w_deallocate (obj_memoryBackend ob) buffer n w) (\<lambda>w. Inr (errDescr, ob, w))
     else
       let k = sub64 (add64 offset n) 1;
           old = segmentMap_at k ob;
           (seg, w) = ObjectSegment_make offset n buffer (obj_memoryBackend ob) w
       in bindE (shared_drop (os_memory old) w) (\<lambda>w.
          bindE (getSegmentDescr seg w) (\<lambda>descr.
          Inr (descr, ob\<lparr>obj_segmentMap := sm_set k seg (obj_segmentMap ob)\<rparr>, w)))))"

text \<open>The first loop of \<open>getBuffers\<close>: the loaded segments that overlap the range.\<close>

fun collect_segments ::
  "fabric_ops \<Rightarrow> ObjectAccessMode \<Rightarrow> size_t \<Rightarrow> size_t \<Rightarrow> (size_t, ObjectSegment) std_map \<Rightarrow> 's world \<Rightarrow>
   ((size_t, ObjectSegment) std_map \<times> ObjectSegmentDescr list \<times> 's world) result" where
  "collect_segments fi mode base n [] w = Inr ([], [], w)"
| "collect_segments fi mode base n ((k, seg) # segs) w =
     bindE (ObjectSegment_overlap seg base n w) (\<lambda>ov.
     if ov then
       bindE (if mode = ACCESS_WRITE \<and> isCow seg w then applyCow fi seg w else Inr (seg, w)) (\<lambda>(seg', w).
       bindE (getSegmentDescr seg' w) (\<lambda>descr.
       bindE (collect_segments fi mode base n segs w) (\<lambda>(segs', descrs, w).
       Inr ((k, seg') # segs', descr # descrs, w))))
     else Inr ((k, seg) # segs, [], w))"

text \<open>
  The second loop: load what is missing before each of them.  The third component is
  \<open>lastOffset\<close>, the flag says that no load failed.
\<close>

definition loadGap ::
  "fabric_ops \<Rightarrow> 's storage_ops \<Rightarrow> bool \<Rightarrow> bool \<Rightarrow> size_t \<Rightarrow> size_t \<Rightarrow> size_t \<Rightarrow> size_t \<Rightarrow> object \<Rightarrow> 's world \<Rightarrow>
   (ObjectSegmentDescr \<times> object \<times> 's world) result" where
  "loadGap fi so load isForWriteOp origBase origSize lastOffset n ob w =
     (let needLoad = (if isForWriteOp \<and> isFullyOverlapped lastOffset n origBase origSize then False else load)
      in loadSegment fi so lastOffset n needLoad isForWriteOp ob w)"

fun fill_gaps ::
  "fabric_ops \<Rightarrow> 's storage_ops \<Rightarrow> bool \<Rightarrow> bool \<Rightarrow> size_t \<Rightarrow> size_t \<Rightarrow> size_t \<Rightarrow> ObjectSegmentDescr list \<Rightarrow> object \<Rightarrow>
   's world \<Rightarrow> (bool \<times> size_t \<times> ObjectSegmentDescr list \<times> object \<times> 's world) result" where
  "fill_gaps fi so load isW ob0 os0 lastOffset [] ob w = Inr (True, lastOffset, [], ob, w)"
| "fill_gaps fi so load isW ob0 os0 lastOffset (it # its) ob w =
     (if osd_offset it > lastOffset then
        bindE (loadGap fi so load isW ob0 os0 lastOffset (osd_offset it - lastOffset) ob w) (\<lambda>(descr, ob, w).
        if osd_ptr descr = NULL then Inr (False, lastOffset, [], ob, w)
        else
          bindE (fill_gaps fi so load isW ob0 os0 (add64 (osd_offset it) (osd_size it)) its ob w)
            (\<lambda>(ok, last, tmp, ob, w). Inr (ok, last, descr # tmp, ob, w)))
      else fill_gaps fi so load isW ob0 os0 (add64 (osd_offset it) (osd_size it)) its ob w)"

definition getBuffers ::
  "fabric_ops \<Rightarrow> 's storage_ops \<Rightarrow> size_t \<Rightarrow> size_t \<Rightarrow> ObjectAccessMode \<Rightarrow> bool \<Rightarrow> bool \<Rightarrow> object \<Rightarrow> 's world \<Rightarrow>
   (bool \<times> ObjectSegmentDescr list \<times> object \<times> 's world) result" where
  "getBuffers fi so origBase origSize mode load isForWriteOp ob w =
     (let (base, n) = align_range (obj_alignement ob) origBase origSize;
          segs = obj_segmentMap ob;
          it = sm_lower_bound base segs;
          before = takeWhile (\<lambda>(k, _). k < base) segs
      in
      bindE (collect_segments fi mode base n it w) (\<lambda>(it', segments, w).
      let ob = ob\<lparr>obj_segmentMap := before @ it'\<rparr> in
      bindE (fill_gaps fi so load isForWriteOp origBase origSize base segments ob w) (\<lambda>(ok, lastOffset, tmp, ob, w).
      if \<not> ok then Inr (False, [], ob, w)
      else
        let segments = segments @ tmp;
            endOffset = add64 base n
        in if lastOffset < endOffset then
             bindE (loadGap fi so load isForWriteOp origBase origSize lastOffset (endOffset - lastOffset) ob w) (\<lambda>(descr, ob, w).
             if osd_ptr descr = NULL then Inr (False, [], ob, w)
             else Inr (True, sort_key osd_offset (segments @ [descr]), ob, w))
           else Inr (True, sort_key osd_offset segments, ob, w))))"

section \<open>Vectors for scatter and gather\<close>

text \<open>\<open>int delta = n\<close> keeps the low 32 bits, read as a signed value.\<close>

definition int_of_size :: "size_t \<Rightarrow> int" where
  "int_of_size n = (let r = int n mod 2 ^ 32 in if r < 2 ^ 31 then r else r - 2 ^ 32)"

definition size_plus_int :: "size_t \<Rightarrow> int \<Rightarrow> size_t" where
  "size_plus_int n d = nat ((int n + d) mod 2 ^ 64)"

fun ptr_plus_int :: "ptr \<Rightarrow> int \<Rightarrow> ptr result" where
  "ptr_plus_int NULL d = Inl NullDereference"
| "ptr_plus_int (Ptr b i) d = (if int i + d < 0 then Inl OutOfBounds else Inr (Ptr b (nat (int i + d))))"

record iovec =
  iov_base :: ptr
  iov_len :: size_t

definition iovec_clip :: "size_t \<Rightarrow> size_t \<Rightarrow> ObjectSegmentDescr \<Rightarrow> ObjectSegmentDescr result" where
  "iovec_clip offset n it =
     bindE (if osd_offset it < offset then
              let delta = int_of_size (offset - osd_offset it) in
              bindE (ptr_plus_int (osd_ptr it) delta) (\<lambda>p.
              Inr (it\<lparr>osd_ptr := p, osd_offset := size_plus_int (osd_offset it) delta,
                      osd_size := size_plus_int (osd_size it) (- delta)\<rparr>))
            else Inr it) (\<lambda>it.
     if add64 (osd_offset it) (osd_size it) > add64 offset n then
       let delta = int_of_size (add64 (osd_offset it) (osd_size it) - add64 offset n) in
       Inr (it\<lparr>osd_size := size_plus_int (osd_size it) (- delta)\<rparr>)
     else Inr it)"

fun buildIovec :: "ObjectSegmentDescr list \<Rightarrow> size_t \<Rightarrow> size_t \<Rightarrow> (ObjectSegmentDescr list \<times> iovec list) result" where
  "buildIovec [] offset n = Inr ([], [])"
| "buildIovec (it # its) offset n =
     bindE (iovec_clip offset n it) (\<lambda>it'.
     bindE (buildIovec its offset n) (\<lambda>(its', iov).
     Inr (it' # its', \<lparr>iov_base = osd_ptr it', iov_len = osd_size it'\<rparr> # iov)))"

section \<open>Copy on write\<close>

text \<open>The copy loop of \<open>rangeCopyOnWriteSegment\<close>.\<close>

fun cow_copy_loop ::
  "ptr \<Rightarrow> size_t \<Rightarrow> size_t \<Rightarrow> size_t \<Rightarrow> ObjectSegmentDescr list \<Rightarrow> 's world \<Rightarrow> 's world result" where
  "cow_copy_loop origBuffer innerOffset innerSize absOffset [] w = Inr w"
| "cow_copy_loop origBuffer innerOffset innerSize absOffset (it # its) w =
     (let destOffset = sub64 absOffset (osd_offset it);
          copySize = (if osd_size it > innerSize then innerSize else osd_size it)
      in
      bindE (memcpy (ptr_add (osd_ptr it) destOffset) (ptr_add origBuffer innerOffset) copySize
               (mem_heap (w_mem w))) (\<lambda>h.
      cow_copy_loop origBuffer (add64 innerOffset copySize) (sub64 innerSize copySize)
        (add64 absOffset copySize) its (w_set_heap h w)))"

definition cow_inner :: "size_t \<Rightarrow> size_t \<Rightarrow> size_t \<Rightarrow> size_t \<Rightarrow> size_t \<times> size_t \<times> bool" where
  "cow_inner origOffset origSize offset n =
     (let (innerOffset, innerSize, partial) =
            (if origOffset < offset
             then (offset - origOffset, sub64 origSize (offset - origOffset), True)
             else (0, origSize, False))
      in if add64 offset n < add64 origOffset origSize
         then (innerOffset, sub64 innerSize (sub64 (add64 origOffset origSize) (add64 offset n)), True)
         else (innerOffset, innerSize, partial))"

text \<open>
  The source segment is a reference: \<open>orig\<close> is its value at the call, and \<open>reread\<close> gives its value for the copy, after \<open>getBuffers\<close>
  has changed the object, which differs when the segment belongs to the object itself and got memory of its own.  A copy
  of a segment onto itself has the effect of \<open>memmove\<close> here; the C standard gives no meaning to \<open>memcpy\<close> on overlapping memory.
\<close>

definition rangeCopyOnWriteSegment ::
  "fabric_ops \<Rightarrow> 's storage_ops \<Rightarrow> ObjectSegment \<Rightarrow> (object \<Rightarrow> ObjectSegment) \<Rightarrow> size_t \<Rightarrow> size_t \<Rightarrow> object \<Rightarrow> 's world \<Rightarrow>
   (object \<times> 's world) result" where
  "rangeCopyOnWriteSegment fi so orig reread offset n ob w =
     bindE (seg_memory orig w) (\<lambda>osm.
     let (innerOffset, innerSize, origPartialOverlap) = cow_inner (os_offset orig) (osm_size osm) offset n
     in
     bindE (case sm_lower_bound (os_offset orig) (obj_segmentMap ob) of
              [] \<Rightarrow> Inr False
            | (_, target) # _ \<Rightarrow>
                if os_offset target \<noteq> os_offset orig then Inr True
                else bindE (seg_memory target w) (\<lambda>tosm. Inr (osm_size tosm \<noteq> osm_size osm)))
       (\<lambda>localPartialOverlap.
     if origPartialOverlap \<or> localPartialOverlap then
       let absOffset = add64 (os_offset orig) innerOffset in
       bindE (getBuffers fi so absOffset innerSize ACCESS_WRITE True False ob w) (\<lambda>(_, segments, ob, w).
       bindE (if segments = [] then Inr (osm_buffer osm) else bindE (seg_memory (reread ob) w) (\<lambda>osm. Inr (osm_buffer osm))) (\<lambda>buffer.
       bindE (cow_copy_loop buffer innerOffset innerSize absOffset segments w) (\<lambda>w.
       Inr (ob, w))))
     else
       let k = sub64 (add64 (os_offset orig) (osm_size osm)) 1 in
       bindE (makeCowOf (segmentMap_at k ob) orig w) (\<lambda>(seg, w).
       Inr (ob\<lparr>obj_segmentMap := sm_set k seg (obj_segmentMap ob)\<rparr>, w))))"

fun rangeCopyOnWrite_loop ::
  "fabric_ops \<Rightarrow> 's storage_ops \<Rightarrow> (size_t, ObjectSegment) std_map \<Rightarrow> size_t \<Rightarrow> size_t \<Rightarrow> object \<Rightarrow> 's world \<Rightarrow>
   (object \<times> 's world) result" where
  "rangeCopyOnWrite_loop fi so [] offset n ob w = Inr (ob, w)"
| "rangeCopyOnWrite_loop fi so ((k, seg) # segs) offset n ob w =
     bindE (ObjectSegment_overlap seg offset n w) (\<lambda>ov.
     if ov then
       bindE (rangeCopyOnWriteSegment fi so seg (\<lambda>_. seg) offset n ob w) (\<lambda>(ob, w).
       rangeCopyOnWrite_loop fi so segs offset n ob w)
     else Inr (ob, w))"

definition rangeCopyOnWrite ::
  "fabric_ops \<Rightarrow> 's storage_ops \<Rightarrow> object \<Rightarrow> size_t \<Rightarrow> size_t \<Rightarrow> object \<Rightarrow> 's world \<Rightarrow> (object \<times> 's world) result" where
  "rangeCopyOnWrite fi so origObject offset n ob w =
     (case sm_lower_bound offset (obj_segmentMap origObject) of
        [] \<Rightarrow> Inr (ob, w)
      | (k, seg) # segs \<Rightarrow>
          bindE (ObjectSegment_overlap seg offset n w) (\<lambda>ov.
          rangeCopyOnWrite_loop fi so (if ov then (k, seg) # segs else segs) offset n ob w))"

text \<open>
  The case where the source is the object itself: the iterator walks over the map that is being
  changed, so that the next entry is the one after the current key in the updated map.  The
  keys are 64 bit values, hence the bound.
\<close>

function rangeCopyOnWrite_self_loop ::
  "fabric_ops \<Rightarrow> 's storage_ops \<Rightarrow> size_t \<Rightarrow> size_t \<Rightarrow> size_t \<Rightarrow> object \<Rightarrow> 's world \<Rightarrow> (object \<times> 's world) result" where
  "rangeCopyOnWrite_self_loop fi so start offset n ob w =
     (case sm_lower_bound start (obj_segmentMap ob) of
        [] \<Rightarrow> Inr (ob, w)
      | (k, seg) # _ \<Rightarrow>
          if k < start \<or> W64 \<le> k then Inr (ob, w)
          else
            bindE (ObjectSegment_overlap seg offset n w) (\<lambda>ov.
            if ov then
              bindE (rangeCopyOnWriteSegment fi so seg (segmentMap_at k) offset n ob w) (\<lambda>(ob, w).
              rangeCopyOnWrite_self_loop fi so (Suc k) offset n ob w)
            else Inr (ob, w)))"
  by pat_completeness auto

termination
  by (relation "measure (\<lambda>(fi, so, start, offset, n, ob, w). W64 - start)") auto

definition rangeCopyOnWrite_self ::
  "fabric_ops \<Rightarrow> 's storage_ops \<Rightarrow> size_t \<Rightarrow> size_t \<Rightarrow> object \<Rightarrow> 's world \<Rightarrow> (object \<times> 's world) result" where
  "rangeCopyOnWrite_self fi so offset n ob w =
     (case sm_lower_bound offset (obj_segmentMap ob) of
        [] \<Rightarrow> Inr (ob, w)
      | (k, seg) # _ \<Rightarrow>
          bindE (ObjectSegment_overlap seg offset n w) (\<lambda>ov.
          rangeCopyOnWrite_self_loop fi so (if ov then offset else Suc k) offset n ob w))"

text \<open>Uninitialised memory of a given size.\<close>

definition fresh_bytes :: "size_t \<Rightarrow> 's world \<Rightarrow> byte list" where
  "fresh_bytes n w = (let h = mem_heap (w_mem w) in map (hp_junk h (hp_next h)) [0..<n])"

fun fullCow_loop ::
  "'s storage_ops \<Rightarrow> object \<Rightarrow> size_t \<Rightarrow> (size_t, ObjectSegment) std_map \<Rightarrow> object \<Rightarrow> 's world \<Rightarrow>
   (object \<times> 's world) result" where
  "fullCow_loop so this cursor [] cow w = Inr (cow, w)"
| "fullCow_loop so this cursor ((k, it) # its) cow w =
     bindE (seg_memory it w) (\<lambda>osm.
     bindE (if cursor < os_offset it then
              if \<not> obj_storageBackend this then Inl NullDereference
              else
                let copySize = os_offset it - cursor in
                bindE (makeCowSegment so (oid_high (obj_objectId this)) (oid_low (obj_objectId this))
                         (oid_high (obj_objectId cow)) (oid_low (obj_objectId cow)) cursor
                         (fresh_bytes copySize w) (w_storage w)) (\<lambda>(status, s).
                bindE (assumeE (status = ssize_t_of copySize) ''Fail to copy on write on the storage for COW !'') (\<lambda>_.
                Inr (w\<lparr>w_storage := s\<rparr>)))
            else Inr w) (\<lambda>w.
     bindE (makeCowOf (segmentMap_at k cow) it w) (\<lambda>(seg, w).
     let cow = cow\<lparr>obj_segmentMap := sm_set k seg (obj_segmentMap cow)\<rparr> in
     bindE (if \<not> os_dirty seg then
              bindE (read_mem (osm_buffer osm) (osm_size osm) (mem_heap (w_mem w))) (\<lambda>buf.
              bindE (Object_pwrite so cow buf (os_offset seg) w) (\<lambda>(status, w).
              bindE (assumeE (status = ssize_t_of (osm_size osm)) ''Fail to copy the COW non dirty elements !'') (\<lambda>_.
              Inr w)))
            else Inr w) (\<lambda>w.
     fullCow_loop so this (add64 (os_offset it) (osm_size osm)) its cow w))))"

definition makeFullCopyOnWrite ::
  "'s storage_ops \<Rightarrow> ObjectId \<Rightarrow> bool \<Rightarrow> object \<Rightarrow> 's world \<Rightarrow> (object \<times> 's world) result" where
  "makeFullCopyOnWrite so targetObjectId allowExist this w =
     (let cow = Object_init (obj_storageBackend this) (obj_memoryBackend this) targetObjectId (obj_alignement this)
      in
      bindE (Object_create so cow w) (\<lambda>(createStatus, w).
      bindE (assumeE (createStatus = 0 \<or> allowExist) ''Failed to create object on the storage for COW !'') (\<lambda>_.
      fullCow_loop so this 0 (obj_segmentMap this) cow w)))"

text \<open>The destructor drops the segments of the map.\<close>

fun Object_destroy_loop :: "(size_t, ObjectSegment) std_map \<Rightarrow> 's world \<Rightarrow> 's world result" where
  "Object_destroy_loop [] w = Inr w"
| "Object_destroy_loop ((k, seg) # segs) w =
     bindE (shared_drop (os_memory seg) w) (\<lambda>w. Object_destroy_loop segs w)"

definition Object_destroy :: "object \<Rightarrow> 's world \<Rightarrow> 's world result" where
  "Object_destroy ob w = Object_destroy_loop (obj_segmentMap ob) w"

section \<open>Helpers of the unit tests\<close>

definition getUniqBuffer ::
  "fabric_ops \<Rightarrow> 's storage_ops \<Rightarrow> size_t \<Rightarrow> size_t \<Rightarrow> ObjectAccessMode \<Rightarrow> bool \<Rightarrow> object \<Rightarrow> 's world \<Rightarrow>
   (ptr \<times> object \<times> 's world) result" where
  "getUniqBuffer fi so base n mode load ob w =
     bindE (getBuffers fi so base n mode load False ob w) (\<lambda>(_, segments, ob, w).
     bindE (assumeE (length segments = 1) ''Fail to get a uniq segment'') (\<lambda>_.
     let segment = hd segments in
     Inr (ptr_add (osd_ptr segment) (sub64 base (osd_offset segment)), ob, w)))"

text \<open>Begin and length of the part of a segment the helpers touch.\<close>

definition local_range :: "size_t \<Rightarrow> ObjectSegmentDescr \<Rightarrow> size_t \<times> size_t" where
  "local_range offset it =
     (if osd_offset it < offset
      then (offset - osd_offset it, sub64 (osd_size it) (offset - osd_offset it))
      else (0, osd_size it))"

fun fill_loop :: "size_t \<Rightarrow> size_t \<Rightarrow> byte \<Rightarrow> ObjectSegmentDescr list \<Rightarrow> 's world \<Rightarrow> 's world result" where
  "fill_loop offset n v [] w = Inr w"
| "fill_loop offset n v (it # its) w =
     (let (localOffset, localSize) = local_range offset it;
          localSize = (if add64 localOffset localSize > n then sub64 n localOffset else localSize)
      in bindE (write_mem (ptr_add (osd_ptr it) localOffset) (replicate localSize v) (mem_heap (w_mem w))) (\<lambda>h.
         fill_loop offset n v its (w_set_heap h w)))"

definition fillBuffer ::
  "fabric_ops \<Rightarrow> 's storage_ops \<Rightarrow> size_t \<Rightarrow> size_t \<Rightarrow> byte \<Rightarrow> object \<Rightarrow> 's world \<Rightarrow> (object \<times> 's world) result" where
  "fillBuffer fi so offset n v ob w =
     bindE (getBuffers fi so offset n ACCESS_WRITE True False ob w) (\<lambda>(_, segments, ob, w).
     bindE (fill_loop offset n v segments w) (\<lambda>w. Inr (ob, w)))"

definition checkUniq ::
  "fabric_ops \<Rightarrow> 's storage_ops \<Rightarrow> size_t \<Rightarrow> size_t \<Rightarrow> object \<Rightarrow> 's world \<Rightarrow> (bool \<times> object \<times> 's world) result" where
  "checkUniq fi so offset n ob w =
     bindE (getBuffers fi so offset n ACCESS_READ True False ob w) (\<lambda>(_, lst, ob, w).
     Inr (length lst = 1 \<and> osd_offset (hd lst) = offset \<and> osd_size (hd lst) = n, ob, w))"

fun check_bytes :: "ptr \<Rightarrow> byte \<Rightarrow> nat \<Rightarrow> heap \<Rightarrow> bool result" where
  "check_bytes p v 0 h = Inr True"
| "check_bytes p v (Suc n) h =
     bindE (read_mem p 1 h) (\<lambda>bs. if hd bs \<noteq> v then Inr False else check_bytes (ptr_add p 1) v n h)"

fun check_loop :: "size_t \<Rightarrow> size_t \<Rightarrow> byte \<Rightarrow> ObjectSegmentDescr list \<Rightarrow> 's world \<Rightarrow> bool result" where
  "check_loop offset n v [] w = Inr True"
| "check_loop offset n v (it # its) w =
     (let (localOffset, localSize) = local_range offset it;
          localSize = (if add64 localOffset localSize > n then n else localSize)
      in bindE (check_bytes (ptr_add (osd_ptr it) localOffset) v localSize (mem_heap (w_mem w))) (\<lambda>ok.
         if ok then check_loop offset n v its w else Inr False))"

definition checkBuffer ::
  "fabric_ops \<Rightarrow> 's storage_ops \<Rightarrow> size_t \<Rightarrow> size_t \<Rightarrow> byte \<Rightarrow> object \<Rightarrow> 's world \<Rightarrow> (bool \<times> object \<times> 's world) result" where
  "checkBuffer fi so offset n v ob w =
     bindE (getBuffers fi so offset n ACCESS_WRITE True False ob w) (\<lambda>(_, segments, ob, w).
     bindE (check_loop offset n v segments w) (\<lambda>ok. Inr (ok, ob, w)))"

end
