(* ===== verification/Client_Registry.thy ===== *)
theory Client_Registry
  imports Std_Map
begin

text \<open>
  \<open>ClientRegistry\<close> (src/base/network/ClientRegistry.hpp and .cpp): the keys of the connected
  clients, written by the TCP thread and checked for every message of the RDMA thread.  Each
  operation runs under the mutex of the registry, so the interleavings of the two threads are
  the sequences of whole operations.
\<close>

section \<open>Operations\<close>

type_synonym ClientRegistry = "(nat, nat) std_map"

definition ClientRegistry_init :: ClientRegistry where
  "ClientRegistry_init = []"

definition registerClient :: "nat \<Rightarrow> nat \<Rightarrow> ClientRegistry \<Rightarrow> ClientRegistry result" where
  "registerClient cid key clients =
     bindE (assertE (sm_find clients cid = None) ''clients.find(id) == clients.end()'') (\<lambda>_.
     Inr (sm_set cid key clients))"

definition disconnectClient :: "nat \<Rightarrow> ClientRegistry \<Rightarrow> ClientRegistry result" where
  "disconnectClient cid clients =
     bindE (assertE (sm_find clients cid \<noteq> None) ''clients.find(id) != clients.end()'') (\<lambda>_.
     Inr (sm_erase cid clients))"

definition checkIdentification :: "nat \<Rightarrow> nat \<Rightarrow> ClientRegistry \<Rightarrow> bool" where
  "checkIdentification cid key clients =
     (case sm_find clients cid of None \<Rightarrow> False | Some k \<Rightarrow> k = key)"

section \<open>Histories\<close>

datatype registry_event = Registered nat nat | Disconnected nat

fun event_client :: "registry_event \<Rightarrow> nat" where
  "event_client (Registered cid key) = cid"
| "event_client (Disconnected cid) = cid"

fun registry_step :: "registry_event \<Rightarrow> ClientRegistry \<Rightarrow> ClientRegistry result" where
  "registry_step (Registered cid key) r = registerClient cid key r"
| "registry_step (Disconnected cid) r = disconnectClient cid r"

fun registry_run :: "registry_event list \<Rightarrow> ClientRegistry \<Rightarrow> ClientRegistry result" where
  "registry_run [] r = Inr r"
| "registry_run (e # es) r = bindE (registry_step e r) (registry_run es)"

text \<open>The specification: the last event about a client is its registration with this key.\<close>

definition authorised :: "registry_event list \<Rightarrow> nat \<Rightarrow> nat \<Rightarrow> bool" where
  "authorised es cid key \<longleftrightarrow>
     (let about = filter (\<lambda>e. event_client e = cid) es in about \<noteq> [] \<and> last about = Registered cid key)"

lemma registry_run_append:
  "registry_run (es @ fs) r = bindE (registry_run es r) (registry_run fs)"
  by (induction es arbitrary: r) (auto simp: bindE_def split: sum.split)

lemma authorised_snoc:
  "authorised (es @ [e]) cid key = (if event_client e = cid then e = Registered cid key else authorised es cid key)"
  by (auto simp: authorised_def Let_def)

lemma registry_step_find:
  assumes "sm_ok r" "registry_step e r = Inr r'"
  shows "sm_ok r'"
    "sm_find r' cid = (if event_client e = cid then (case e of Registered _ key \<Rightarrow> Some key | Disconnected _ \<Rightarrow> None) else sm_find r cid)"
  using assms by (cases e; auto simp: registerClient_def disconnectClient_def sm_ok_set sm_ok_erase sm_find_set sm_find_erase elim!: bindE_InrE)+

lemma registry_run_find:
  assumes "registry_run es ClientRegistry_init = Inr r"
  shows "sm_ok r \<and> (\<forall>cid key. sm_find r cid = Some key \<longleftrightarrow> authorised es cid key)"
  using assms
proof (induction es arbitrary: r rule: rev_induct)
  case Nil
  then show ?case by (simp add: ClientRegistry_init_def authorised_def)
next
  case (snoc e es)
  then obtain r1 where r1: "registry_run es ClientRegistry_init = Inr r1" "registry_step e r1 = Inr r"
    by (auto simp: registry_run_append bindE_eq_Inr)
  note IH = snoc.IH [OF r1(1)]
  show ?case
    using registry_step_find [OF conjunct1 [OF IH] r1(2)] IH by (cases e) (auto simp: authorised_snoc)
qed

text \<open>
  C29: after any sequence of registrations and disconnections, a message is accepted exactly when
  the last event about its client identifier is a registration with the key of the message.
\<close>

theorem checkIdentification_spec:
  assumes "registry_run es ClientRegistry_init = Inr r"
  shows "checkIdentification cid key r \<longleftrightarrow> authorised es cid key"
  proof -
  have "checkIdentification cid key r \<longleftrightarrow> sm_find r cid = Some key"
    by (auto simp: checkIdentification_def split: option.split)
  then show ?thesis using registry_run_find [OF assms] by blast
qed

theorem checkIdentification_spec_witness:
  "checkIdentification 1 43 [(1, 43), (2, 50)] \<and> \<not> checkIdentification 0 42 [(1, 43), (2, 50)]"
proof -
  let ?es = "[Registered 0 42, Registered 1 43, Disconnected 0, Registered 2 50]"
  have run: "registry_run ?es ClientRegistry_init = Inr [(1, 43), (2, 50)]"
    by (simp add: registerClient_def disconnectClient_def ClientRegistry_init_def sm_erase_def)
  show ?thesis
    using checkIdentification_spec [OF run, of 1 43] checkIdentification_spec [OF run, of 0 42]
    by (simp add: authorised_def Let_def)
qed

end
