(* ===== verification/Libfabric_Connection.thy ===== *)
theory Libfabric_Connection
  imports Protocol Object Client_Registry
begin

text \<open>
  \<open>LibfabricConnection\<close> (src/base/network/LibfabricConnection.hpp and .cpp) with the requests and
  callback results of Hook.hpp: posting receive buffers, building and sending messages, RDMA
  operations, polling completions, checking the authentication of a message and dispatching it
  to its hook.

  The endpoint is the record \<open>fabric\<close>: \<open>fb_codes\<close> are the return codes of the next calls that
  post an operation, in order (0 once the list is used up), \<open>fb_cq\<close> the outcomes of the next
  reads of the completion queue, \<open>fb_ops\<close> the accepted operations that have not completed and
  \<open>fb_recv\<close> the receive buffers the device may fill.  Hooks and the lambda functions of post
  actions are values of the types \<open>'h\<close> and \<open>'f\<close>, run by a function that the caller supplies.
\<close>

section \<open>Data\<close>

definition FI_EAGAIN :: int where "FI_EAGAIN = 11"
definition IOC_LF_SERVER_ID :: int where "IOC_LF_SERVER_ID = 0"
definition IOC_LF_NO_BUFFER :: nat where "IOC_LF_NO_BUFFER = W64 - 1"

datatype LibfabricActionResult = LF_WAIT_LOOP_KEEP_WAITING | LF_WAIT_LOOP_UNBLOCK

record LibfabricClientRequest =
  rq_lfClientId :: nat
  rq_msgBufferId :: nat
  rq_header :: LibfabricMessageHeader
  rq_deserializer :: SerializerBase

text \<open>
  A post action: a lambda function or a constant result, and the resources its destructor gives
  back.  \<open>isRecv\<close> is only read when a receive buffer is attached, which no function of the program
  does (\<open>registerBuffer\<close> has no definition), and is left out.
\<close>

datatype 'f action_body =
    LibfabricPostActionFunction 'f
  | LibfabricPostActionNop LibfabricActionResult

record 'f post_action =
  pa_body :: "'f action_body"
  pa_bufferId :: nat
  pa_domainBuffer :: ptr

text \<open>A completion: a received message, or the end of an operation (\<open>None\<close>: no wake up).\<close>

datatype 'f cq_entry = CqRecv nat | CqDone "'f post_action option"

datatype 'f cq_read = CqEntry "'f cq_entry" | CqAgain | CqFailed

datatype 'f fi_op =
    FiSend (op_addr: nat) (op_buffer: ptr) (op_bytes: "byte list") (op_context: "'f post_action option")
  | FiRead (op_addr: nat) (op_iov: "iovec list") (op_remote: nat) (op_key: nat) (op_context: "'f post_action option")
  | FiWrite (op_addr: nat) (op_iov: "iovec list") (op_remote: nat) (op_key: nat) (op_context: "'f post_action option")

record 'f fabric =
  fb_codes :: "int list"
  fb_cq :: "'f cq_read list"
  fb_ops :: "'f fi_op list"
  fb_recv :: "nat list"

text \<open>The calls on the endpoint and its address vector: \<open>fi_av_insert\<close>, \<open>fi_getname\<close> and the address of the server.\<close>

record endpoint_ops =
  eo_av_insert :: "byte list \<Rightarrow> int \<times> nat"
  eo_getname :: "int \<times> byte list"
  eo_dest_addr :: "byte list"

text \<open>\<open>HookAssignId\<close> is the lambda function that \<open>joinServer\<close> registers.\<close>

datatype 'h hook = HookAssignId | UserHook 'h

record ('h, 'f) connection =
  lc_passivePolling :: bool
  lc_recvBuffers :: "byte list list"
  lc_recvBuffersCount :: size_t
  lc_recvBuffersSize :: size_t
  lc_remoteLiAddr :: "(int, nat) std_map"
  lc_nextEndpointId :: nat
  lc_hookOnEndpointConnect :: "int list option"
  lc_hookOnBadAuth :: "LibfabricActionResult option"
  lc_clientId :: nat
  lc_hooks :: "(nat, 'h hook) std_map"
  lc_used :: bool
  lc_tcpClientId :: nat
  lc_tcpClientKey :: nat
  lc_clientRegistry :: ClientRegistry
  lc_checkClientAuth :: bool
  lc_disableReceive :: bool
  lc_cqEntries :: "'f cq_entry list"
  lc_pendingAction :: int
  lc_fabric :: "'f fabric"

section \<open>Post actions\<close>

definition PostAction_init :: "'f action_body \<Rightarrow> 'f post_action" where
  "PostAction_init body = \<lparr>pa_body = body, pa_bufferId = IOC_LF_NO_BUFFER, pa_domainBuffer = NULL\<rparr>"

definition attachDomainBuffer :: "ptr \<Rightarrow> 'f post_action \<Rightarrow> 'f post_action result" where
  "attachDomainBuffer buf act =
     bindE (assertE (pa_domainBuffer act = NULL) ''this->domainBuffer == NULL'') (\<lambda>_.
     bindE (assertE (buf \<noteq> NULL) ''domainBuffer != NULL'') (\<lambda>_.
     Inr (act\<lparr>pa_domainBuffer := buf\<rparr>)))"

section \<open>Construction and settings\<close>

text \<open>The hook on a connection is known by the endpoint identifiers it was called with.\<close>

definition LibfabricConnection_init :: "bool \<Rightarrow> ('h, 'f) connection" where
  "LibfabricConnection_init passivePolling =
     \<lparr>lc_passivePolling = passivePolling, lc_recvBuffers = [], lc_recvBuffersCount = 0,
      lc_recvBuffersSize = 0, lc_remoteLiAddr = [], lc_nextEndpointId = 0,
      lc_hookOnEndpointConnect = None, lc_hookOnBadAuth = None, lc_clientId = W64 - 1,
      lc_hooks = [], lc_used = False, lc_tcpClientId = 0, lc_tcpClientKey = 0,
      lc_clientRegistry = ClientRegistry_init, lc_checkClientAuth = False,
      lc_disableReceive = False, lc_cqEntries = [], lc_pendingAction = 0,
      lc_fabric = \<lparr>fb_codes = [], fb_cq = [], fb_ops = [], fb_recv = []\<rparr>\<rparr>"

definition setHooks :: "('h, 'f) connection \<Rightarrow> ('h, 'f) connection" where
  "setHooks c = c\<lparr>lc_hookOnEndpointConnect := Some []\<rparr>"

definition setTcpClientInfos :: "nat \<Rightarrow> nat \<Rightarrow> ('h, 'f) connection \<Rightarrow> ('h, 'f) connection" where
  "setTcpClientInfos tcpId key c = c\<lparr>lc_tcpClientId := tcpId, lc_tcpClientKey := key\<rparr>"

definition setCheckClientAuth :: "bool \<Rightarrow> ('h, 'f) connection \<Rightarrow> ('h, 'f) connection" where
  "setCheckClientAuth v c = c\<lparr>lc_checkClientAuth := v\<rparr>"

definition setOnBadAuth :: "LibfabricActionResult \<Rightarrow> ('h, 'f) connection \<Rightarrow> ('h, 'f) connection" where
  "setOnBadAuth res c = c\<lparr>lc_hookOnBadAuth := Some res\<rparr>"

definition fillProtocolHeader :: "nat \<Rightarrow> ('h, 'f) connection \<Rightarrow> LibfabricMessageHeader" where
  "fillProtocolHeader type c =
     \<lparr>mh_msgType = type, mh_lfClientId = lc_clientId c, mh_tcpClientId = lc_tcpClientId c,
      mh_tcpClientKey = lc_tcpClientKey c\<rparr>"

text \<open>A hook that is replaced is deleted; hooks are values here, so it is overwritten.\<close>

definition registerHook :: "nat \<Rightarrow> 'h hook \<Rightarrow> ('h, 'f) connection \<Rightarrow> ('h, 'f) connection" where
  "registerHook messageType h c = c\<lparr>lc_hooks := sm_set messageType h (lc_hooks c)\<rparr>"

definition unregisterHook :: "nat \<Rightarrow> ('h, 'f) connection \<Rightarrow> ('h, 'f) connection" where
  "unregisterHook messageType c = c\<lparr>lc_hooks := sm_erase messageType (lc_hooks c)\<rparr>"

section \<open>Completion queue\<close>

text \<open>
  \<open>pollForCompletion\<close>: the cache first when it is accepted, then the queue of the device; an error
  of the queue is reported as no completion.  A queue with nothing left is \<open>-FI_EAGAIN\<close>.
\<close>

definition pollForCompletion :: "bool \<Rightarrow> ('h, 'f) connection \<Rightarrow> 'f cq_entry option \<times> ('h, 'f) connection" where
  "pollForCompletion acceptCache c =
     (if acceptCache \<and> lc_cqEntries c \<noteq> []
      then (Some (hd (lc_cqEntries c)), c\<lparr>lc_cqEntries := tl (lc_cqEntries c)\<rparr>)
      else case fb_cq (lc_fabric c) of
          [] \<Rightarrow> (None, c)
        | r # rs \<Rightarrow> (case r of CqEntry e \<Rightarrow> Some e | CqAgain \<Rightarrow> None | CqFailed \<Rightarrow> None,
            c\<lparr>lc_fabric := (lc_fabric c)\<lparr>fb_cq := rs\<rparr>\<rparr>))"

function pollAllCqInCache :: "('h, 'f) connection \<Rightarrow> ('h, 'f) connection" where
  "pollAllCqInCache c = (case pollForCompletion False c of
     (None, c') \<Rightarrow> c'
   | (Some e, c') \<Rightarrow> pollAllCqInCache (c'\<lparr>lc_cqEntries := lc_cqEntries c' @ [e]\<rparr>))"
  by pat_completeness auto
termination
  by (relation "measure (\<lambda>c. length (fb_cq (lc_fabric c)))")
    (auto simp: pollForCompletion_def split: list.splits if_splits)

section \<open>Posting operations\<close>

text \<open>
  The loop \<open>do { err = call; if (err == -FI_EAGAIN) pollAllCqInCache(); } while (err == -FI_EAGAIN)\<close>
  over the return codes to come.
\<close>

fun post_retry :: "int list \<Rightarrow> ('h, 'f) connection \<Rightarrow> int \<times> ('h, 'f) connection" where
  "post_retry [] c = (0, c\<lparr>lc_fabric := (lc_fabric c)\<lparr>fb_codes := []\<rparr>\<rparr>)"
| "post_retry (err # codes) c =
     (if err = - FI_EAGAIN then post_retry codes (pollAllCqInCache c)
      else (err, c\<lparr>lc_fabric := (lc_fabric c)\<lparr>fb_codes := codes\<rparr>\<rparr>))"

text \<open>
  One operation is posted whatever the number of refusals.  The RDMA operations of the code allocate
  the post action inside of the loop, so that each refusal leaks one; post actions are values here and no leak is seen.  The
  counter of the pending actions is an \<open>int\<close> in the code and has no bound here.
\<close>

definition post_operation :: "string \<Rightarrow> 'f fi_op \<Rightarrow> ('h, 'f) connection \<Rightarrow> ('h, 'f) connection result" where
  "post_operation call op c =
     (let (err, c) = post_retry (fb_codes (lc_fabric c)) c in
      bindE (assumeE (err = 0) call) (\<lambda>_.
      Inr (c\<lparr>lc_fabric := (lc_fabric c)\<lparr>fb_ops := fb_ops (lc_fabric c) @ [op]\<rparr>,
             lc_pendingAction := lc_pendingAction c + 1\<rparr>)))"

definition repostReceive :: "nat \<Rightarrow> ('h, 'f) connection \<Rightarrow> ('h, 'f) connection result" where
  "repostReceive i c =
     bindE (assumeE (i < lc_recvBuffersCount c) ''Invalid receive buffer ID'') (\<lambda>_.
     let (err, codes) = (case fb_codes (lc_fabric c) of [] \<Rightarrow> (0, []) | e # es \<Rightarrow> (e, es)) in
     bindE (assumeE (err = 0) ''fi_recv'') (\<lambda>_.
     Inr (c\<lparr>lc_fabric := (lc_fabric c)\<lparr>fb_codes := codes, fb_recv := fb_recv (lc_fabric c) @ [i]\<rparr>\<rparr>)))"

definition terminate :: "LibfabricClientRequest \<Rightarrow> ('h, 'f) connection \<Rightarrow> ('h, 'f) connection result" where
  "terminate rq c = repostReceive (rq_msgBufferId rq) c"

fun postReceives_loop :: "nat list \<Rightarrow> byte list \<Rightarrow> ('h, 'f) connection \<Rightarrow> ('h, 'f) connection result" where
  "postReceives_loop [] fresh c = Inr c"
| "postReceives_loop (i # is) fresh c =
     bindE (repostReceive i (c\<lparr>lc_recvBuffers := lc_recvBuffers c @ [fresh]\<rparr>)) (postReceives_loop is fresh)"

text \<open>\<open>junk\<close> is the content of the freshly allocated buffers.\<close>

definition postReceives :: "(nat \<Rightarrow> byte) \<Rightarrow> size_t \<Rightarrow> nat \<Rightarrow> ('h, 'f) connection \<Rightarrow> ('h, 'f) connection result" where
  "postReceives junk n cnt c =
     postReceives_loop [0..<cnt] (map junk [0..<n])
       (c\<lparr>lc_recvBuffersCount := cnt, lc_recvBuffersSize := n, lc_recvBuffers := []\<rparr>)"

section \<open>Messages\<close>

definition sendRawMessage ::
  "ptr \<Rightarrow> size_t \<Rightarrow> int \<Rightarrow> 'f post_action option \<Rightarrow> ('h, 'f) connection \<Rightarrow> 's world \<Rightarrow> ('h, 'f) connection result" where
  "sendRawMessage buf n dest act c w =
     bindE (assertE (buf \<noteq> NULL) ''buffer != NULL'') (\<lambda>_.
     bindE (assertE (n \<le> lc_recvBuffersSize c) ''size <= recvBuffersSize'') (\<lambda>_.
     case sm_find (lc_remoteLiAddr c) dest of
       None \<Rightarrow> Inl (AssumeFailed ''Client endpoint id not found'')
     | Some a \<Rightarrow>
         bindE (read_mem buf n (mem_heap (w_mem w))) (\<lambda>bytes.
         post_operation ''fi_send'' (FiSend a buf bytes act) c)))"

definition sendRawMessageNoPollWakeup ::
  "ptr \<Rightarrow> size_t \<Rightarrow> int \<Rightarrow> ('h, 'f) connection \<Rightarrow> 's world \<Rightarrow> ('h, 'f) connection result" where
  "sendRawMessageNoPollWakeup buf n dest c w = sendRawMessage buf n dest None c w"

definition sendMessage_raw ::
  "ptr \<Rightarrow> size_t \<Rightarrow> int \<Rightarrow> 'f \<Rightarrow> ('h, 'f) connection \<Rightarrow> 's world \<Rightarrow> ('h, 'f) connection result" where
  "sendMessage_raw buf n dest f c w =
     sendRawMessage buf n dest (Some (PostAction_init (LibfabricPostActionFunction f))) c w"

definition packed_bytes :: "SerializerBase \<Rightarrow> byte list" where
  "packed_bytes s = (case ser_buffer s of None \<Rightarrow> [] | Some bs \<Rightarrow> bs)"

definition sendMessage ::
  "fabric_ops \<Rightarrow> nat \<Rightarrow> int \<Rightarrow> 'd applier \<Rightarrow> 'd \<Rightarrow> 'f action_body \<Rightarrow> ('h, 'f) connection \<Rightarrow> 's world \<Rightarrow>
   (('h, 'f) connection \<times> 's world) result" where
  "sendMessage fi msgType dest applySerializerDef d body c w =
     bindE (getMsgBuffer fi (mem_domain (w_mem w)) (mem_heap (w_mem w))) (\<lambda>(buf, dom, h).
     let bufferSize = getMsgBufferSize dom in
     bindE (attachDomainBuffer buf (PostAction_init body)) (\<lambda>act.
     bindE (read_mem buf bufferSize h) (\<lambda>bytes.
     bindE (Serializer_make (Some bytes) bufferSize) (\<lambda>s.
     bindE (apply_struct MessageHeader_applySerializerDef ''header'' (fillProtocolHeader msgType c) s) (\<lambda>(_, s).
     bindE (apply_struct applySerializerDef ''data'' d s) (\<lambda>(_, s).
     bindE (write_mem buf (packed_bytes s) h) (\<lambda>h.
     let w = w\<lparr>w_mem := \<lparr>mem_heap = h, mem_domain = dom\<rparr>\<rparr> in
     bindE (sendRawMessage buf (getCursor s) dest (Some act) c w) (\<lambda>c.
     Inr (c, w)))))))))"

definition sendMessageNoPollWakeup ::
  "fabric_ops \<Rightarrow> nat \<Rightarrow> int \<Rightarrow> 'd applier \<Rightarrow> 'd \<Rightarrow> ('h, 'f) connection \<Rightarrow> 's world \<Rightarrow>
   (('h, 'f) connection \<times> 's world) result" where
  "sendMessageNoPollWakeup fi msgType dest applySerializerDef d c w =
     sendMessage fi msgType dest applySerializerDef d (LibfabricPostActionNop LF_WAIT_LOOP_KEEP_WAITING) c w"

text \<open>
  The three forms of \<open>sendResponse\<close>.  The client identifier, an unsigned 64 bit number, becomes the
  \<open>int\<close> that \<open>sendMessage\<close> takes.
\<close>

definition response_action :: "bool \<Rightarrow> 'f action_body" where
  "response_action unblock =
     LibfabricPostActionNop (if unblock then LF_WAIT_LOOP_UNBLOCK else LF_WAIT_LOOP_KEEP_WAITING)"

definition sendResponse ::
  "fabric_ops \<Rightarrow> LibfabricMessageType \<Rightarrow> nat \<Rightarrow> int \<Rightarrow> bool \<Rightarrow> ('h, 'f) connection \<Rightarrow> 's world \<Rightarrow>
   (('h, 'f) connection \<times> 's world) result" where
  "sendResponse fi msgType lfClientId status unblock c w =
     sendMessage fi (msg_code msgType) (int_of_size lfClientId) Response_applySerializerDef
       \<lparr>rs_msgDataSize = 0, rs_status = status, rs_msgHasData = False, rs_optionalData = None,
        rs_optionalDataFragments = None\<rparr> (response_action unblock) c w"

definition sendResponse_data ::
  "fabric_ops \<Rightarrow> LibfabricMessageType \<Rightarrow> nat \<Rightarrow> int \<Rightarrow> data_ptr \<Rightarrow> size_t \<Rightarrow> bool \<Rightarrow> ('h, 'f) connection \<Rightarrow>
   's world \<Rightarrow> (('h, 'f) connection \<times> 's world) result" where
  "sendResponse_data fi msgType lfClientId status d n unblock c w =
     sendMessage fi (msg_code msgType) (int_of_size lfClientId) Response_applySerializerDef
       \<lparr>rs_msgDataSize = n, rs_status = status, rs_msgHasData = True, rs_optionalData = d,
        rs_optionalDataFragments = None\<rparr> (response_action unblock) c w"

text \<open>The fragments may hold entries that were never set; adding up their sizes reads them.\<close>

fun fragments_sum :: "LibfabricBuffer option list \<Rightarrow> size_t \<Rightarrow> size_t result" where
  "fragments_sum [] sumSize = Inr sumSize"
| "fragments_sum (None # fs) sumSize = Inl UninitialisedRead"
| "fragments_sum (Some f # fs) sumSize = fragments_sum fs (add64 sumSize (lb_size f))"

definition sendResponse_fragments ::
  "fabric_ops \<Rightarrow> LibfabricMessageType \<Rightarrow> nat \<Rightarrow> int \<Rightarrow> LibfabricBuffer option list \<Rightarrow> bool \<Rightarrow> ('h, 'f) connection \<Rightarrow>
   's world \<Rightarrow> (('h, 'f) connection \<times> 's world) result" where
  "sendResponse_fragments fi msgType lfClientId status fragments unblock c w =
     bindE (assertE (length fragments < 2 ^ 32 - 1) ''cntFragments < UINT32_MAX'') (\<lambda>_.
     bindE (fragments_sum fragments 0) (\<lambda>sumSize.
     sendMessage fi (msg_code msgType) (int_of_size lfClientId) Response_applySerializerDef
       \<lparr>rs_msgDataSize = sumSize, rs_status = status, rs_msgHasData = True, rs_optionalData = None,
        rs_optionalDataFragments = Some (List.map_filter (\<lambda>f. f) fragments)\<rparr> (response_action unblock) c w))"

section \<open>RDMA operations\<close>

text \<open>
  \<open>fi_mr_desc\<close> reads the memory region; \<open>rdmaRead\<close> and \<open>rdmaWrite\<close> call it before their assertion that
  a region was found.
\<close>

definition rdma_post ::
  "string \<Rightarrow> (nat \<Rightarrow> 'f fi_op) \<Rightarrow> int \<Rightarrow> ('h, 'f) connection \<Rightarrow> ('h, 'f) connection result" where
  "rdma_post call op dest c = (case sm_find (lc_remoteLiAddr c) dest of
     None \<Rightarrow> Inl (AssumeFailed ''Client endpoint id not found'')
   | Some a \<Rightarrow> post_operation call (op a) c)"

definition rdmaRead ::
  "int \<Rightarrow> ptr \<Rightarrow> nat \<Rightarrow> nat \<Rightarrow> size_t \<Rightarrow> 'f \<Rightarrow> ('h, 'f) connection \<Rightarrow> 's world \<Rightarrow> ('h, 'f) connection result" where
  "rdmaRead dest localAddr remoteAddr remoteKey n f c w =
     bindE (assertE (localAddr \<noteq> NULL) ''localAddr != NULL'') (\<lambda>_.
     bindE (getFidMR localAddr n (mem_domain (w_mem w))) (\<lambda>mr.
     if mr = None then Inl NullDereference
     else rdma_post ''fi_read'' (\<lambda>a. FiRead a [\<lparr>iov_base = localAddr, iov_len = n\<rparr>] remoteAddr remoteKey
            (Some (PostAction_init (LibfabricPostActionFunction f)))) dest c))"

definition rdmaWrite ::
  "int \<Rightarrow> ptr \<Rightarrow> nat \<Rightarrow> nat \<Rightarrow> size_t \<Rightarrow> 'f \<Rightarrow> ('h, 'f) connection \<Rightarrow> 's world \<Rightarrow> ('h, 'f) connection result" where
  "rdmaWrite dest localAddr remoteAddr remoteKey n f c w =
     bindE (assertE (localAddr \<noteq> NULL) ''localAddr != NULL'') (\<lambda>_.
     bindE (assertE (0 < n) ''size > 0'') (\<lambda>_.
     bindE (getFidMR localAddr n (mem_domain (w_mem w))) (\<lambda>mr.
     if mr = None then Inl NullDereference
     else rdma_post ''fi_write'' (\<lambda>a. FiWrite a [\<lparr>iov_base = localAddr, iov_len = n\<rparr>] remoteAddr remoteKey
            (Some (PostAction_init (LibfabricPostActionFunction f)))) dest c)))"

fun iov_regions :: "iovec list \<Rightarrow> LibfabricDomain \<Rightarrow> unit result" where
  "iov_regions [] d = Inr ()"
| "iov_regions (v # vs) d =
     bindE (getFidMR (iov_base v) (iov_len v) d) (\<lambda>mr.
     bindE (assertE (mr \<noteq> None) ''mr != NULL'') (\<lambda>_. iov_regions vs d))"

definition rdmaReadv ::
  "int \<Rightarrow> iovec list \<Rightarrow> nat \<Rightarrow> nat \<Rightarrow> 'f \<Rightarrow> ('h, 'f) connection \<Rightarrow> 's world \<Rightarrow> ('h, 'f) connection result" where
  "rdmaReadv dest iov remoteAddr remoteKey f c w =
     bindE (assertE (0 < length iov) ''count > 0'') (\<lambda>_.
     bindE (iov_regions iov (mem_domain (w_mem w))) (\<lambda>_.
     rdma_post ''fi_readv'' (\<lambda>a. FiRead a iov remoteAddr remoteKey
       (Some (PostAction_init (LibfabricPostActionFunction f)))) dest c))"

definition rdmaWritev ::
  "int \<Rightarrow> iovec list \<Rightarrow> nat \<Rightarrow> nat \<Rightarrow> 'f \<Rightarrow> ('h, 'f) connection \<Rightarrow> 's world \<Rightarrow> ('h, 'f) connection result" where
  "rdmaWritev dest iov remoteAddr remoteKey f c w =
     bindE (assertE (0 < length iov) ''count > 0'') (\<lambda>_.
     bindE (iov_regions iov (mem_domain (w_mem w))) (\<lambda>_.
     rdma_post ''fi_writev'' (\<lambda>a. FiWrite a iov remoteAddr remoteKey
       (Some (PostAction_init (LibfabricPostActionFunction f)))) dest c))"

section \<open>Received messages\<close>

text \<open>
  \<open>checkAuth\<close>: on a failure the refusal is sent and the receive buffer is not posted again, although
  its identifier is passed for that purpose.
\<close>

definition checkAuth ::
  "fabric_ops \<Rightarrow> LibfabricMessageHeader \<Rightarrow> nat \<Rightarrow> nat \<Rightarrow> ('h, 'f) connection \<Rightarrow> 's world \<Rightarrow>
   (bool \<times> ('h, 'f) connection \<times> 's world) result" where
  "checkAuth fi header lfClientId i c w =
     (if \<not> lc_checkClientAuth c then Inr (True, c, w)
      else if checkIdentification (mh_tcpClientId header) (mh_tcpClientKey header) (lc_clientRegistry c)
      then Inr (True, c, w)
      else bindE (sendResponse fi IOC_LF_MSG_BAD_AUTH lfClientId (- 1) False c w) (\<lambda>(c, w). Inr (False, c, w)))"

text \<open>The header of the message in a receive buffer, and the deserializer behind it.\<close>

definition receive_header :: "nat \<Rightarrow> ('h, 'f) connection \<Rightarrow> (LibfabricMessageHeader \<times> SerializerBase) result" where
  "receive_header i c =
     bindE (assertE (i < lc_recvBuffersCount c) ''id < this->recvBuffersCount'') (\<lambda>_.
     bindE (DeSerializer_make (Some (lc_recvBuffers c ! i)) (lc_recvBuffersSize c)) (\<lambda>s.
     apply_struct MessageHeader_applySerializerDef ''header''
       \<lparr>mh_msgType = 0, mh_lfClientId = 0, mh_tcpClientId = 0, mh_tcpClientKey = 0\<rparr> s))"

definition onConnInit ::
  "fabric_ops \<Rightarrow> endpoint_ops \<Rightarrow> LibfabricClientRequest \<Rightarrow> ('h, 'f) connection \<Rightarrow> 's world \<Rightarrow>
   (('h, 'f) connection \<times> 's world) result" where
  "onConnInit fi eo rq c w =
     bindE (assertE (mh_msgType (rq_header rq) = msg_code IOC_LF_MSG_CONNECT_INIT)
              ''request.header.msgType == IOC_LF_MSG_CONNECT_INIT'') (\<lambda>_.
     bindE (apply_struct FirstClientMessage_applySerializerDef ''firstClientMessage''
              \<lparr>fc_addr = replicate IOC_LF_MAX_ADDR_LEN 0\<rparr> (rq_deserializer rq)) (\<lambda>(firstClientMessage, _).
     let epId = lc_nextEndpointId c; (err, a) = eo_av_insert eo (fc_addr firstClientMessage) in
     bindE (assumeE (err = 1) ''fi_av_insert'') (\<lambda>_.
     let c = c\<lparr>lc_nextEndpointId := add64 epId 1,
               lc_remoteLiAddr := sm_set (int_of_size epId) a (lc_remoteLiAddr c)\<rparr> in
     bindE (sendMessageNoPollWakeup fi (msg_code IOC_LF_MSG_ASSIGN_ID) (int_of_size epId)
              FirstHandshake_applySerializerDef
              \<lparr>fh_protocolVersion = IOC_LF_PROTOCOL_VERSION, fh_assignLfClientId = epId\<rparr> c w) (\<lambda>(c, w).
     let c = c\<lparr>lc_hookOnEndpointConnect :=
                 map_option (\<lambda>calls. calls @ [int_of_size epId]) (lc_hookOnEndpointConnect c)\<rparr> in
     bindE (terminate rq c) (\<lambda>c. Inr (c, w))))))"

text \<open>The lambda function of \<open>joinServer\<close> for \<open>IOC_LF_MSG_ASSIGN_ID\<close>.\<close>

definition onAssignId ::
  "LibfabricClientRequest \<Rightarrow> ('h, 'f) connection \<Rightarrow> (LibfabricActionResult \<times> ('h, 'f) connection) result" where
  "onAssignId rq c =
     bindE (apply_struct FirstHandshake_applySerializerDef ''firstHandshakeResponse''
              \<lparr>fh_protocolVersion = 0, fh_assignLfClientId = 0\<rparr> (rq_deserializer rq)) (\<lambda>(hs, _).
     bindE (terminate rq (c\<lparr>lc_clientId := fh_assignLfClientId hs\<rparr>)) (\<lambda>c.
     bindE (assumeE (fh_protocolVersion hs = IOC_LF_PROTOCOL_VERSION)
              ''Invalid rdma protocol version from server'') (\<lambda>_.
     Inr (LF_WAIT_LOOP_UNBLOCK, c))))"

section \<open>Dispatch and polling\<close>

text \<open>
  \<open>run_hook\<close> runs the hook of the application on a request, \<open>run_fun\<close> a lambda function of a post
  action; both may change the state \<open>'a\<close> of the application, the connection and the memory.
\<close>

type_synonym ('a, 'h, 'f, 's) outcome =
  "(LibfabricActionResult \<times> 'a \<times> ('h, 'f) connection \<times> 's world) result"

type_synonym ('x, 'a, 'h, 'f, 's) callback =
  "'x \<Rightarrow> 'a \<Rightarrow> ('h, 'f) connection \<Rightarrow> 's world \<Rightarrow> ('a, 'h, 'f, 's) outcome"

definition onMessage ::
  "('h \<times> LibfabricClientRequest, 'a, 'h, 'f, 's) callback \<Rightarrow> 'h hook \<Rightarrow>
   (LibfabricClientRequest, 'a, 'h, 'f, 's) callback" where
  "onMessage run_hook h rq a c w = (case h of
     HookAssignId \<Rightarrow> bindE (onAssignId rq c) (\<lambda>(res, c). Inr (res, a, c, w))
   | UserHook u \<Rightarrow> run_hook (u, rq) a c w)"

definition onRecv ::
  "fabric_ops \<Rightarrow> endpoint_ops \<Rightarrow> ('h \<times> LibfabricClientRequest, 'a, 'h, 'f, 's) callback \<Rightarrow>
   (nat, 'a, 'h, 'f, 's) callback" where
  "onRecv fi eo run_hook i a c w =
     bindE (receive_header i c) (\<lambda>(header, s).
     let rq = \<lparr>rq_lfClientId = mh_lfClientId header, rq_msgBufferId = i, rq_header = header,
               rq_deserializer = s\<rparr>
     in if mh_msgType header = msg_code IOC_LF_MSG_CONNECT_INIT then
          bindE (onConnInit fi eo rq c w) (\<lambda>(c, w). Inr (LF_WAIT_LOOP_KEEP_WAITING, a, c, w))
        else if mh_msgType header = msg_code IOC_LF_MSG_BAD_AUTH then
          (case lc_hookOnBadAuth c of
             None \<Rightarrow> Inl (AssumeFailed ''Invalid authentification while exchanging with server'')
           | Some res \<Rightarrow> bindE (terminate rq c) (\<lambda>c. Inr (res, a, c, w)))
        else if mh_msgType header = msg_code IOC_LF_MSG_FATAL_ERROR then
          (case sm_find (lc_hooks c) (mh_msgType header) of
             Some h \<Rightarrow> onMessage run_hook h rq a c w
           | None \<Rightarrow> bindE (apply_struct ErrorMessage_applySerializerDef ''errorMessage'' \<lparr>em_errorMessage = ''''\<rparr> s)
                       (\<lambda>_. Inl (AssumeFailed ''Server has send error message'')))
        else
          bindE (checkAuth fi header (mh_lfClientId header) i c w) (\<lambda>(ok, c, w).
          if \<not> ok then Inr (LF_WAIT_LOOP_UNBLOCK, a, c, w)
          else case sm_find (lc_hooks c) (mh_msgType header) of
             Some h \<Rightarrow> onMessage run_hook h rq a c w
           | None \<Rightarrow> Inl (AssumeFailed ''Invalid message type'')))"

definition runPostAction ::
  "('f, 'a, 'h, 'f, 's) callback \<Rightarrow> ('f post_action, 'a, 'h, 'f, 's) callback" where
  "runPostAction run_fun act a c w = (case pa_body act of
     LibfabricPostActionFunction f \<Rightarrow> run_fun f a c w
   | LibfabricPostActionNop res \<Rightarrow> Inr (res, a, c, w))"

text \<open>\<open>delete action\<close>: the destructor gives the attached buffers back.\<close>

definition freeBuffer ::
  "'f post_action \<Rightarrow> ('h, 'f) connection \<Rightarrow> 's world \<Rightarrow> (('h, 'f) connection \<times> 's world) result" where
  "freeBuffer act c w =
     (if pa_domainBuffer act = NULL then Inr (c, w)
      else bindE (if pa_bufferId act \<noteq> IOC_LF_NO_BUFFER then repostReceive (pa_bufferId act) c else Inr c) (\<lambda>c.
           bindE (retMsgBuffer (pa_domainBuffer act) (mem_domain (w_mem w))) (\<lambda>dom.
           Inr (c, w\<lparr>w_mem := (w_mem w)\<lparr>mem_domain := dom\<rparr>\<rparr>))))"

definition decr_pending :: "('h, 'f) connection \<Rightarrow> ('h, 'f) connection result" where
  "decr_pending c =
     bindE (assertE (0 \<le> lc_pendingAction c - 1) ''this->pendingAction >= 0'') (\<lambda>_.
     Inr (c\<lparr>lc_pendingAction := lc_pendingAction c - 1\<rparr>))"

text \<open>One round of the loop of \<open>poll\<close>; the flag says whether the loop is left.\<close>

definition poll_round ::
  "fabric_ops \<Rightarrow> endpoint_ops \<Rightarrow> ('h \<times> LibfabricClientRequest, 'a, 'h, 'f, 's) callback \<Rightarrow>
   ('f, 'a, 'h, 'f, 's) callback \<Rightarrow> 'a \<Rightarrow> ('h, 'f) connection \<Rightarrow> 's world \<Rightarrow>
   (bool \<times> 'a \<times> ('h, 'f) connection \<times> 's world) result" where
  "poll_round fi eo run_hook run_fun a c w = (case pollForCompletion True c of
     (None, c) \<Rightarrow> Inr (False, a, c, w)
   | (Some (CqRecv i), c) \<Rightarrow>
       if lc_disableReceive c then Inr (False, a, c, w)
       else bindE (onRecv fi eo run_hook i a c w) (\<lambda>(res, a, c, w). Inr (res \<noteq> LF_WAIT_LOOP_KEEP_WAITING, a, c, w))
   | (Some (CqDone (Some act)), c) \<Rightarrow>
       bindE (runPostAction run_fun act a c w) (\<lambda>(res, a, c, w).
       bindE (freeBuffer act c w) (\<lambda>(c, w).
       bindE (decr_pending c) (\<lambda>c. Inr (res = LF_WAIT_LOOP_UNBLOCK, a, c, w))))
   | (Some (CqDone None), c) \<Rightarrow> bindE (decr_pending c) (\<lambda>c. Inr (False, a, c, w)))"

text \<open>The loop with at most \<open>fuel\<close> rounds; the flag says whether \<open>poll\<close> returned.\<close>

fun poll ::
  "nat \<Rightarrow> fabric_ops \<Rightarrow> endpoint_ops \<Rightarrow> ('h \<times> LibfabricClientRequest, 'a, 'h, 'f, 's) callback \<Rightarrow>
   ('f, 'a, 'h, 'f, 's) callback \<Rightarrow> bool \<Rightarrow> 'a \<Rightarrow> ('h, 'f) connection \<Rightarrow> 's world \<Rightarrow>
   (bool \<times> 'a \<times> ('h, 'f) connection \<times> 's world) result" where
  "poll 0 fi eo run_hook run_fun waitMsg a c w = Inr (False, a, c, w)"
| "poll (Suc fuel) fi eo run_hook run_fun waitMsg a c w =
     bindE (poll_round fi eo run_hook run_fun a c w) (\<lambda>(stop, a, c, w).
     if stop \<or> \<not> waitMsg then Inr (True, a, c, w)
     else poll fuel fi eo run_hook run_fun waitMsg a c w)"

fun pollAllPendingAction ::
  "nat \<Rightarrow> fabric_ops \<Rightarrow> endpoint_ops \<Rightarrow> ('h \<times> LibfabricClientRequest, 'a, 'h, 'f, 's) callback \<Rightarrow>
   ('f, 'a, 'h, 'f, 's) callback \<Rightarrow> 'a \<Rightarrow> ('h, 'f) connection \<Rightarrow> 's world \<Rightarrow>
   (bool \<times> 'a \<times> ('h, 'f) connection \<times> 's world) result" where
  "pollAllPendingAction 0 fi eo run_hook run_fun a c w = Inr (lc_pendingAction c \<le> 0, a, c, w)"
| "pollAllPendingAction (Suc fuel) fi eo run_hook run_fun a c w =
     (if lc_pendingAction c > 0 then
        bindE (poll 1 fi eo run_hook run_fun False a c w) (\<lambda>(_, a, c, w).
        pollAllPendingAction fuel fi eo run_hook run_fun a c w)
      else Inr (True, a, c, w))"

definition LibfabricConnection_destroy ::
  "nat \<Rightarrow> fabric_ops \<Rightarrow> endpoint_ops \<Rightarrow> ('h \<times> LibfabricClientRequest, 'a, 'h, 'f, 's) callback \<Rightarrow>
   ('f, 'a, 'h, 'f, 's) callback \<Rightarrow> 'a \<Rightarrow> ('h, 'f) connection \<Rightarrow> 's world \<Rightarrow>
   (bool \<times> 'a \<times> ('h, 'f) connection \<times> 's world) result" where
  "LibfabricConnection_destroy fuel fi eo run_hook run_fun a c w =
     bindE (pollAllPendingAction fuel fi eo run_hook run_fun a c w) (\<lambda>(finished, a, c, w).
     Inr (finished, a, if finished then c\<lparr>lc_recvBuffers := [], lc_hooks := []\<rparr> else c, w))"

definition onRecvMessage ::
  "fabric_ops \<Rightarrow> nat \<Rightarrow> ('h, 'f) connection \<Rightarrow> 's world \<Rightarrow>
   (LibfabricClientRequest option \<times> ('h, 'f) connection \<times> 's world) result" where
  "onRecvMessage fi i c w =
     bindE (receive_header i c) (\<lambda>(header, s).
     if mh_msgType header = msg_code IOC_LF_MSG_BAD_AUTH then
       (case lc_hookOnBadAuth c of
          None \<Rightarrow> Inl (AssumeFailed ''Invalid authentification while exchanging with server'')
        | Some _ \<Rightarrow> bindE (repostReceive i c) (\<lambda>c. Inr (None, c, w)))
     else if mh_msgType header = msg_code IOC_LF_MSG_FATAL_ERROR then
       bindE (apply_struct ErrorMessage_applySerializerDef ''errorMessage'' \<lparr>em_errorMessage = ''''\<rparr> s)
         (\<lambda>_. Inl (AssumeFailed ''Server has send error message''))
     else bindE (checkAuth fi header (mh_lfClientId header) i c w) (\<lambda>(ok, c, w).
       Inr (if ok then Some \<lparr>rq_lfClientId = mh_lfClientId header, rq_msgBufferId = i, rq_header = header,
                             rq_deserializer = s\<rparr> else None, c, w)))"

text \<open>
  \<open>pollMessage\<close> with at most \<open>fuel\<close> rounds: the outer option says whether it returned, the inner one
  holds the response when it returned true.  An operation posted without wake up is not
  subtracted from the pending ones here.
\<close>

fun pollMessage ::
  "nat \<Rightarrow> fabric_ops \<Rightarrow> ('f, 'a, 'h, 'f, 's) callback \<Rightarrow> LibfabricMessageType \<Rightarrow> 'a \<Rightarrow> ('h, 'f) connection \<Rightarrow>
   's world \<Rightarrow> (LibfabricClientRequest option option \<times> 'a \<times> ('h, 'f) connection \<times> 's world) result" where
  "pollMessage 0 fi run_fun expected a c w = Inr (None, a, c, w)"
| "pollMessage (Suc fuel) fi run_fun expected a c w = (case pollForCompletion True c of
     (None, c) \<Rightarrow> pollMessage fuel fi run_fun expected a c w
   | (Some (CqRecv i), c) \<Rightarrow>
       bindE (onRecvMessage fi i c w) (\<lambda>(res, c, w). case res of
         None \<Rightarrow> Inr (Some None, a, c, w)
       | Some rq \<Rightarrow>
           bindE (assumeE (mh_msgType (rq_header rq) = msg_code expected) ''Got an invalide message type'') (\<lambda>_.
           Inr (Some (Some rq), a, c, w)))
   | (Some (CqDone (Some act)), c) \<Rightarrow>
       bindE (runPostAction run_fun act a c w) (\<lambda>(res, a, c, w).
       bindE (decr_pending c) (\<lambda>c.
       bindE (freeBuffer act c w) (\<lambda>(c, w).
       if res = LF_WAIT_LOOP_UNBLOCK then Inr (Some None, a, c, w)
       else pollMessage fuel fi run_fun expected a c w)))
   | (Some (CqDone None), c) \<Rightarrow> pollMessage fuel fi run_fun expected a c w)"

section \<open>Joining a server, broadcasting an error\<close>

text \<open>
  The buffer of the address is longer than the address; the rest of it, which the code sends uninitialised, is zero here.
\<close>

definition joinServer ::
  "nat \<Rightarrow> fabric_ops \<Rightarrow> endpoint_ops \<Rightarrow> ('h \<times> LibfabricClientRequest, 'a, 'h, 'f, 's) callback \<Rightarrow>
   ('f, 'a, 'h, 'f, 's) callback \<Rightarrow> 'a \<Rightarrow> ('h, 'f) connection \<Rightarrow> 's world \<Rightarrow>
   (bool \<times> 'a \<times> ('h, 'f) connection \<times> 's world) result" where
  "joinServer fuel fi eo run_hook run_fun a c w =
     (let (err, srv) = eo_av_insert eo (eo_dest_addr eo); (err', name) = eo_getname eo in
      bindE (assumeE (err = 1) ''fi_av_insert'') (\<lambda>_.
      bindE (assumeE (err' = 0) ''fi_getname'') (\<lambda>_.
      bindE (assertE (length name \<le> IOC_LF_MAX_ADDR_LEN) ''addrlen <= IOC_LF_MAX_ADDR_LEN'') (\<lambda>_.
      let c = registerHook (msg_code IOC_LF_MSG_ASSIGN_ID) HookAssignId
                (c\<lparr>lc_remoteLiAddr := sm_set IOC_LF_SERVER_ID srv (lc_remoteLiAddr c)\<rparr>) in
      bindE (sendMessageNoPollWakeup fi (msg_code IOC_LF_MSG_CONNECT_INIT) IOC_LF_SERVER_ID
               FirstClientMessage_applySerializerDef
               \<lparr>fc_addr = name @ replicate (IOC_LF_MAX_ADDR_LEN - length name) 0\<rparr> c w) (\<lambda>(c, w).
      poll fuel fi eo run_hook run_fun True a c w)))))"

fun broadcast_send :: "fabric_ops \<Rightarrow> LibfabricErrorMessage \<Rightarrow> int list \<Rightarrow> ('h, 'f) connection \<Rightarrow> 's world \<Rightarrow>
   (('h, 'f) connection \<times> 's world) result" where
  "broadcast_send fi msg [] c w = Inr (c, w)"
| "broadcast_send fi msg (dest # ds) c w =
     bindE (sendMessage fi (msg_code IOC_LF_MSG_FATAL_ERROR) dest ErrorMessage_applySerializerDef msg
              (LibfabricPostActionNop LF_WAIT_LOOP_UNBLOCK) c w) (\<lambda>(c, w).
     broadcast_send fi msg ds c w)"

fun broadcast_wait ::
  "nat \<Rightarrow> nat \<Rightarrow> fabric_ops \<Rightarrow> endpoint_ops \<Rightarrow> ('h \<times> LibfabricClientRequest, 'a, 'h, 'f, 's) callback \<Rightarrow>
   ('f, 'a, 'h, 'f, 's) callback \<Rightarrow> 'a \<Rightarrow> ('h, 'f) connection \<Rightarrow> 's world \<Rightarrow>
   (bool \<times> 'a \<times> ('h, 'f) connection \<times> 's world) result" where
  "broadcast_wait 0 fuel fi eo run_hook run_fun a c w = Inr (True, a, c, w)"
| "broadcast_wait (Suc cnt) fuel fi eo run_hook run_fun a c w =
     bindE (poll fuel fi eo run_hook run_fun True a c w) (\<lambda>(returned, a, c, w).
     if returned then broadcast_wait cnt fuel fi eo run_hook run_fun a c w else Inr (False, a, c, w))"

text \<open>The buffer that \<open>broadcastErrrorMessage\<close> allocates and frees is not used in between.\<close>

definition broadcastErrrorMessage ::
  "nat \<Rightarrow> fabric_ops \<Rightarrow> endpoint_ops \<Rightarrow> ('h \<times> LibfabricClientRequest, 'a, 'h, 'f, 's) callback \<Rightarrow>
   ('f, 'a, 'h, 'f, 's) callback \<Rightarrow> string \<Rightarrow> 'a \<Rightarrow> ('h, 'f) connection \<Rightarrow> 's world \<Rightarrow>
   (bool \<times> 'a \<times> ('h, 'f) connection \<times> 's world) result" where
  "broadcastErrrorMessage fuel fi eo run_hook run_fun message a c w =
     bindE (broadcast_send fi \<lparr>em_errorMessage = message\<rparr> (map fst (lc_remoteLiAddr c))
              (c\<lparr>lc_disableReceive := True\<rparr>) w) (\<lambda>(c, w).
     broadcast_wait (length (lc_remoteLiAddr c)) fuel fi eo run_hook run_fun a c w)"

end
