(* ===== verification/Object_Access.thy ===== *)
theory Object_Access
  imports Object
begin

text \<open>
  The invariant of the segment map of an object and the contract of \<open>getBuffers\<close>.

  \<open>map_ok\<close>: the entries are keyed by their last byte, non-empty, below the 64 bit limit and
  pairwise disjoint.  \<open>view_byte\<close> is the byte an object caches at an offset, \<open>object_byte\<close> the
  byte it stands for: the cached one, otherwise the stored one.
\<close>

section \<open>Views\<close>

definition seg_bytes :: "'s world \<Rightarrow> ObjectSegment \<Rightarrow> byte list option" where
  "seg_bytes w seg = (case os_memory seg of None \<Rightarrow> None | Some i \<Rightarrow> shared_bytes w i)"

definition map_refs :: "(size_t, ObjectSegment) std_map \<Rightarrow> nat \<Rightarrow> nat" where
  "map_refs m i = length (filter (\<lambda>(k, seg). os_memory seg = Some i) m)"

definition seg_ok :: "'s world \<Rightarrow> size_t \<Rightarrow> ObjectSegment \<Rightarrow> bool" where
  "seg_ok w k seg \<longleftrightarrow> (\<exists>xs. seg_bytes w seg = Some xs \<and> xs \<noteq> [] \<and> os_offset seg + length xs = Suc k \<and> Suc k < W64)"

definition map_ok :: "'s world \<Rightarrow> (size_t, ObjectSegment) std_map \<Rightarrow> bool" where
  "map_ok w m \<longleftrightarrow> sm_ok m \<and> (\<forall>k seg. (k, seg) \<in> set m \<longrightarrow> seg_ok w k seg) \<and>
     (\<forall>k seg k' seg'. (k, seg) \<in> set m \<longrightarrow> (k', seg') \<in> set m \<longrightarrow> k < k' \<longrightarrow> k < os_offset seg')"

definition view_byte :: "'s world \<Rightarrow> (size_t, ObjectSegment) std_map \<Rightarrow> nat \<Rightarrow> byte option" where
  "view_byte w m x = (case sm_lower_bound x m of
     [] \<Rightarrow> None
   | (k, seg) # _ \<Rightarrow> if os_offset seg \<le> x
       then map_option (\<lambda>xs. xs ! (x - os_offset seg)) (seg_bytes w seg) else None)"

text \<open>What \<open>getBuffers\<close> may not change: the offsets, the bytes and the dirty flags.\<close>

definition map_view ::
  "'s world \<Rightarrow> (size_t, ObjectSegment) std_map \<Rightarrow> (size_t \<times> size_t \<times> byte list option \<times> bool) list" where
  "map_view w m = map (\<lambda>(k, seg). (k, os_offset seg, seg_bytes w seg, os_dirty seg)) m"

lemma map_view_simps [simp]:
  "map_view w [] = []"
  "map_view w ((k, seg) # m) = (k, os_offset seg, seg_bytes w seg, os_dirty seg) # map_view w m"
  "map_view w (m @ m') = map_view w m @ map_view w m'"
  by (auto simp: map_view_def)

lemma map_refs_simps [simp]:
  "map_refs [] i = 0"
  "map_refs ((k, seg) # m) i = (if os_memory seg = Some i then 1 else 0) + map_refs m i"
  "map_refs (m @ m') i = map_refs m i + map_refs m' i"
  by (auto simp: map_refs_def)

lemma map_refs_pos: "(k, seg) \<in> set m \<Longrightarrow> os_memory seg = Some i \<Longrightarrow> 0 < map_refs m i"
  by (auto simp: map_refs_def filter_empty_conv)

lemma map_refs_sm_set:
  "sm_find m k = None \<Longrightarrow> map_refs (sm_set k seg m) i = (if os_memory seg = Some i then 1 else 0) + map_refs m i"
  by (induction m) (auto split: if_splits)

lemma map_okD:
  assumes "map_ok w m"
  shows "sm_ok m" "(k, seg) \<in> set m \<Longrightarrow> seg_ok w k seg"
    "(k, seg) \<in> set m \<Longrightarrow> (k', seg') \<in> set m \<Longrightarrow> k < k' \<Longrightarrow> k < os_offset seg'"
  using assms by (auto simp: map_ok_def)

lemma map_okI:
  assumes "sm_ok m" "\<And>k seg. (k, seg) \<in> set m \<Longrightarrow> seg_ok w k seg"
    "\<And>k seg k' seg'. (k, seg) \<in> set m \<Longrightarrow> (k', seg') \<in> set m \<Longrightarrow> k < k' \<Longrightarrow> k < os_offset seg'"
  shows "map_ok w m"
  using assms by (auto simp: map_ok_def)

lemma seg_okE:
  assumes "seg_ok w k seg"
  obtains i xs where "os_memory seg = Some i" "shared_bytes w i = Some xs" "seg_bytes w seg = Some xs"
    "xs \<noteq> []" "os_offset seg + length xs = Suc k" "Suc k < W64" "os_offset seg \<le> k"
proof -
  obtain xs where "seg_bytes w seg = Some xs" "xs \<noteq> []" "os_offset seg + length xs = Suc k" "Suc k < W64"
    using assms by (auto simp: seg_ok_def)
  moreover from this have "os_offset seg \<le> k" by (cases xs) auto
  ultimately show thesis using that by (cases "os_memory seg") (auto simp: seg_bytes_def)
qed

lemma data_keptD:
  "data_kept S w w' \<Longrightarrow> i \<in> S \<Longrightarrow> entry_of w' i = entry_of w i"
  "data_kept S w w' \<Longrightarrow> i \<in> S \<Longrightarrow> shared_bytes w' i = shared_bytes w i"
  by (simp_all add: data_kept_def)

text \<open>\<open>view_byte\<close> reads the segment that contains the offset.\<close>

lemma view_byte_eq:
  assumes ok: "map_ok w m" and s: "(k, seg) \<in> set m" "os_offset seg \<le> x" "x \<le> k" "seg_bytes w seg = Some xs"
  shows "view_byte w m x = Some (xs ! (x - os_offset seg))"
proof -
  note D = map_okD [OF ok]
  have find: "sm_find m k = Some seg" using s(1) sm_find_in [OF D(1)] by blast
  obtain k0 seg0 rest where lb: "sm_lower_bound x m = (k0, seg0) # rest"
    using lower_bound_Nil [OF D(1) _ find, of x] s(3) by (cases "sm_lower_bound x m") auto
  note h = lower_bound_head [OF D(1) lb]
  have "k0 \<le> k" using h(3) [OF find s(3)] .
  have "k0 = k"
  proof (rule ccontr)
    assume "k0 \<noteq> k"
    then have "k0 < os_offset seg" using D(3) [OF _ s(1), of k0 seg0] h(1) \<open>k0 \<le> k\<close> by (simp add: sm_find_in [OF D(1)])
    with h(2) s(2) show False by simp
  qed
  then have "seg0 = seg" using h(1) find by simp
  with lb s show ?thesis by (simp add: view_byte_def)
qed

lemma view_byte_SomeD:
  assumes ok: "map_ok w m" and v: "view_byte w m x = Some b"
  obtains k seg xs where "(k, seg) \<in> set m" "os_offset seg \<le> x" "x \<le> k" "seg_bytes w seg = Some xs"
    "b = xs ! (x - os_offset seg)"
proof -
  note D = map_okD [OF ok]
  obtain k seg rest xs where lb: "sm_lower_bound x m = (k, seg) # rest" "os_offset seg \<le> x"
      "seg_bytes w seg = Some xs" "b = xs ! (x - os_offset seg)"
    using v by (auto simp: view_byte_def split: list.splits if_splits)
  with lower_bound_head [OF D(1) lb(1)] that show thesis by (simp add: sm_find_in [OF D(1)])
qed

lemma map_ok_view: "map_view w' m' = map_view w m \<Longrightarrow> map_ok w m \<Longrightarrow> map_ok w' m'"
proof -
  assume e: "map_view w' m' = map_view w m" and ok: "map_ok w m"
  have keys: "map fst m' = map fst m"
    using arg_cong [OF e, of "map fst"] by (simp add: map_view_def comp_def case_prod_unfold)
  have ex: "\<exists>seg. (k, seg) \<in> set m \<and> os_offset seg = os_offset seg' \<and> seg_bytes w seg = seg_bytes w' seg'"
    if "(k, seg') \<in> set m'" for k seg'
  proof -
    have "(k, os_offset seg', seg_bytes w' seg', os_dirty seg') \<in> set (map_view w' m')"
      using that by (force simp: map_view_def)
    then show ?thesis unfolding e by (auto simp: map_view_def)
  qed
  show ?thesis
  proof (rule map_okI)
    show "sm_ok m'" using map_okD(1) [OF ok] keys by (simp add: sm_ok_def)
    show "seg_ok w' k seg" if "(k, seg) \<in> set m'" for k seg
      using ex [OF that] map_okD(2) [OF ok] by (metis seg_ok_def)
    show "k < os_offset seg'" if "(k, seg) \<in> set m'" "(k', seg') \<in> set m'" "k < k'" for k seg k' seg'
      using ex [OF that(1)] ex [OF that(2)] that(3) map_okD(3) [OF ok] by metis
  qed
qed

lemma view_byte_view:
  assumes e: "map_view w' m' = map_view w m"
  shows "view_byte w' m' = view_byte w m"
proof
  fix x
  have "map_view w' (sm_lower_bound x m') = map_view w (sm_lower_bound x m)"
    using e
  proof (induction m' arbitrary: m)
    case (Cons a m')
    then show ?case by (cases m; cases a) (auto simp: sm_lower_bound_def map_view_def split: if_splits)
  qed (simp add: map_view_def sm_lower_bound_def)
  then show "view_byte w' m' x = view_byte w m x"
    by (auto simp: view_byte_def map_view_def split: list.splits)
qed

lemma kept_view:
  assumes "data_kept {i. 0 < map_refs m i} w w'"
  shows "map_view w' m = map_view w m"
proof -
  have "seg_bytes w' seg = seg_bytes w seg" if "(k, seg) \<in> set m" for k seg
    using assms map_refs_pos [OF that] by (auto simp: seg_bytes_def data_kept_def split: option.split)
  then show ?thesis by (auto simp: map_view_def)
qed

section \<open>Collecting the loaded segments\<close>

lemma seg_entry:
  assumes "world_ok mb R X w" "seg_ok w k seg"
  obtains i osm c blk xs where "os_memory seg = Some i" "w_shared w i = Some (osm, c)"
    "osm_buffer osm = Ptr blk 0" "w_blocks w blk = Some xs" "osm_size osm = length xs"
    "seg_bytes w seg = Some xs" "xs \<noteq> []" "os_offset seg + length xs = Suc k" "Suc k < W64" "c = R i" "0 < R i"
proof -
  obtain i xs where s: "os_memory seg = Some i" "shared_bytes w i = Some xs" "seg_bytes w seg = Some xs"
    "xs \<noteq> []" "os_offset seg + length xs = Suc k" "Suc k < W64"
    by (rule seg_okE [OF assms(2)])
  obtain osm c where o: "w_shared w i = Some (osm, c)"
    using s(2) by (auto simp: shared_bytes_def split: option.splits)
  obtain blk bs where b: "osm_buffer osm = Ptr blk 0" "w_blocks w blk = Some bs" "length bs = osm_size osm"
      "blk \<in> owned_blocks w" "shared_bytes w i = Some bs" "osm_memoryBackend osm = mb" "c = R i" "0 < c"
    by (rule world_ok_entry [OF assms(1) o])
  show thesis using that [of i osm c blk xs] s o b by simp
qed

lemma overlap_eq:
  assumes "world_ok mb R X w" "seg_ok w k seg" "base + n < W64"
  shows "ObjectSegment_overlap seg base n w = Inr (os_offset seg < base + n \<and> base \<le> k)"
proof -
  obtain i osm c blk xs where s: "os_memory seg = Some i" "w_shared w i = Some (osm, c)"
    "osm_buffer osm = Ptr blk 0" "w_blocks w blk = Some xs" "osm_size osm = length xs"
    "seg_bytes w seg = Some xs" "xs \<noteq> []" "os_offset seg + length xs = Suc k" "Suc k < W64"
    by (rule seg_entry [OF assms(1,2)])
  then show ?thesis
    using assms(3) by (simp add: ObjectSegment_overlap_def seg_memory_def less_Suc_eq_le)
qed

lemma getSegmentDescr_eq:
  "os_memory seg = Some i \<Longrightarrow> getSegmentDescr seg w = Inr d \<longleftrightarrow>
     (\<exists>osm. entry_of w i = Some osm \<and> d = \<lparr>osd_ptr = osm_buffer osm, osd_offset = os_offset seg, osd_size = osm_size osm\<rparr>)"
  by (auto simp: getSegmentDescr_def bindE_eq_Inr seg_memory_Inr entry_of_Some)

text \<open>
  The descriptor of a segment, with what the caller may rely on: it is in the range and, for
  a write access, nothing else references its memory.
\<close>

definition descr_ok ::
  "'s world \<Rightarrow> (nat \<Rightarrow> nat) \<Rightarrow> ObjectAccessMode \<Rightarrow> size_t \<Rightarrow> size_t \<Rightarrow> size_t \<times> ObjectSegment \<Rightarrow> ObjectSegmentDescr \<Rightarrow> bool" where
  "descr_ok w R mode base n e d \<longleftrightarrow> getSegmentDescr (snd e) w = Inr d \<and>
     os_offset (snd e) < base + n \<and> base \<le> fst e \<and>
     (mode = ACCESS_WRITE \<longrightarrow> (\<exists>i. os_memory (snd e) = Some i \<and> R i = 1))"

definition collect_post ::
  "frame \<Rightarrow> nat \<Rightarrow> (nat \<Rightarrow> nat) \<Rightarrow> ObjectAccessMode \<Rightarrow> size_t \<Rightarrow> size_t \<Rightarrow> (size_t, ObjectSegment) std_map \<Rightarrow> 's world \<Rightarrow>
   (size_t, ObjectSegment) std_map \<Rightarrow> ObjectSegmentDescr list \<Rightarrow> 's world \<Rightarrow> bool" where
  "collect_post X mb E mode base n segs w segs' ds w' \<longleftrightarrow>
     world_ok mb (\<lambda>i. map_refs segs' i + E i) X w' \<and>
     (\<forall>i. 0 < map_refs segs i + E i \<longrightarrow> map_refs segs' i \<le> map_refs segs i) \<and>
     map_view w' segs' = map_view w segs \<and> data_kept {i. 0 < E i} w w' \<and> w_storage w' = w_storage w \<and>
     (\<exists>hit rest. segs' = hit @ rest \<and>
        list_all2 (descr_ok w' (\<lambda>i. map_refs segs' i + E i) mode base n) hit ds \<and>
        (rest \<noteq> [] \<longrightarrow> \<not> (os_offset (snd (hd rest)) < base + n \<and> base \<le> fst (hd rest))))"

text \<open>One step: the segment that is handed out, shared or not.\<close>

lemma cow_step:
  assumes ok: "world_ok mb (\<lambda>i. map_refs ((k, seg) # segs) i + E i) X w" and seg: "seg_ok w k seg"
    and st: "(if mode = ACCESS_WRITE \<and> isCow seg w then applyCow fi seg w else Inr (seg, w)) = Inr (seg', w')"
  obtains j where "os_memory seg' = Some j" "os_offset seg' = os_offset seg" "os_dirty seg' = os_dirty seg"
    "world_ok mb (\<lambda>i. map_refs segs i + (E i + (if i = j then 1 else 0))) X w'"
    "\<And>i. 0 < map_refs ((k, seg) # segs) i + E i \<Longrightarrow>
       (if i = j then 1 else 0) + map_refs segs i \<le> map_refs ((k, seg) # segs) i"
    "\<And>i. 0 < map_refs ((k, seg) # segs) i + E i \<Longrightarrow> 0 < map_refs segs i + (E i + (if i = j then 1 else 0))"
    "shared_bytes w' j = seg_bytes w seg" "data_kept {i. 0 < map_refs segs i + E i} w w'"
    "w_storage w' = w_storage w" "mode = ACCESS_WRITE \<Longrightarrow> map_refs segs j + E j = 0"
proof -
  let ?R = "\<lambda>i. map_refs ((k, seg) # segs) i + E i"
  obtain i osm c blk xs where s: "os_memory seg = Some i" "w_shared w i = Some (osm, c)"
    "osm_buffer osm = Ptr blk 0" "w_blocks w blk = Some xs" "osm_size osm = length xs"
    "seg_bytes w seg = Some xs" "xs \<noteq> []" "os_offset seg + length xs = Suc k" "Suc k < W64" "c = ?R i" "0 < ?R i"
    by (rule seg_entry [OF ok seg])
  show thesis
  proof (cases "mode = ACCESS_WRITE \<and> isCow seg w")
    case True
    with st have a: "applyCow fi seg w = Inr (seg', w')" by simp
    obtain j osm where j: "os_memory seg' = Some j" "os_offset seg' = os_offset seg" "os_dirty seg' = os_dirty seg"
        "?R j = 0" "1 < ?R i" "world_ok mb (?R(j := 1, i := ?R i - 1)) X w'"
        "shared_bytes w' j = shared_bytes w i" "entry_of w i = Some osm"
        "\<exists>osm'. entry_of w' j = Some osm' \<and> osm_size osm' = osm_size osm"
        "data_kept {l. 0 < ?R l} w w'" "w_storage w' = w_storage w"
      by (rule applyCow_effect [OF ok a s(1)])
    have ij: "i \<noteq> j" using j(4,5) by auto
    have R: "?R(j := 1, i := ?R i - 1) = (\<lambda>l. map_refs segs l + (E l + (if l = j then 1 else 0)))"
      using j(4) s(1) ij by (auto simp: fun_eq_iff split: if_splits)
    show thesis
    proof (rule that [of j])
      show "world_ok mb (\<lambda>l. map_refs segs l + (E l + (if l = j then 1 else 0))) X w'"
        using j(6) unfolding R .
      show "data_kept {l. 0 < map_refs segs l + E l} w w'" by (rule data_kept_mono [OF j(10)]) auto
      show "0 < map_refs segs l + (E l + (if l = j then 1 else 0))" if "0 < ?R l" for l
        using that j(4,5) s(1) by (cases "l = i") auto
    qed (use j s in \<open>auto simp: seg_bytes_def split: if_splits\<close>)
  next
    case False
    with st have e: "seg' = seg" "w' = w" by (auto split: if_splits)
    have R: "?R = (\<lambda>l. map_refs segs l + (E l + (if l = i then 1 else 0)))"
      using s(1) by (auto simp: fun_eq_iff)
    have uniq: "map_refs segs i + E i = 0" if "mode = ACCESS_WRITE"
      using False isCow_iff [OF ok s(1,11)] that s(1) by simp
    show thesis
    proof (rule that [of i])
      show "world_ok mb (\<lambda>l. map_refs segs l + (E l + (if l = i then 1 else 0))) X w'"
        using ok e unfolding R by simp
    qed (use s e uniq in \<open>auto simp: seg_bytes_def\<close>)
  qed
qed

lemma collect_effect:
  assumes "world_ok mb (\<lambda>i. map_refs segs i + E i) X w" "\<And>k seg. (k, seg) \<in> set segs \<Longrightarrow> seg_ok w k seg"
    "base + n < W64" "collect_segments fi mode base n segs w = Inr (segs', ds, w')"
  shows "collect_post X mb E mode base n segs w segs' ds w'"
  using assms
proof (induction segs arbitrary: E w segs' ds w')
  case Nil
  then show ?case by (auto simp: collect_post_def)
next
  case (Cons e segs)
  obtain k seg where e: "e = (k, seg)" by force
  have sok: "seg_ok w k seg" using Cons.prems(2) e by simp
  note ov = overlap_eq [OF Cons.prems(1) sok Cons.prems(3)]
  show ?case
  proof (cases "os_offset seg < base + n \<and> base \<le> k")
    case False
    then have "segs' = e # segs" "ds = []" "w' = w" using Cons.prems(4) ov e by auto
    then show ?thesis using False Cons.prems(1) e by (auto simp: collect_post_def)
  next
    case True
    then obtain seg1 w1 d segs2 ds2 where
        st: "(if mode = ACCESS_WRITE \<and> isCow seg w then applyCow fi seg w else Inr (seg, w)) = Inr (seg1, w1)"
        and d: "getSegmentDescr seg1 w1 = Inr d"
        and rec: "collect_segments fi mode base n segs w1 = Inr (segs2, ds2, w')"
        and res: "segs' = (k, seg1) # segs2" "ds = d # ds2"
      using Cons.prems(4) ov e by (auto elim!: bindE_InrE)
    obtain j where j: "os_memory seg1 = Some j" "os_offset seg1 = os_offset seg" "os_dirty seg1 = os_dirty seg"
        "world_ok mb (\<lambda>i. map_refs segs i + (E i + (if i = j then 1 else 0))) X w1"
        "\<And>i. 0 < map_refs ((k, seg) # segs) i + E i \<Longrightarrow>
           (if i = j then 1 else 0) + map_refs segs i \<le> map_refs ((k, seg) # segs) i"
        "\<And>i. 0 < map_refs ((k, seg) # segs) i + E i \<Longrightarrow> 0 < map_refs segs i + (E i + (if i = j then 1 else 0))"
        "shared_bytes w1 j = seg_bytes w seg" "data_kept {i. 0 < map_refs segs i + E i} w w1"
        "w_storage w1 = w_storage w" "mode = ACCESS_WRITE \<Longrightarrow> map_refs segs j + E j = 0"
      by (rule cow_step [OF Cons.prems(1) [unfolded e] sok st]) (rule that)
    let ?E = "\<lambda>i. E i + (if i = j then 1 else 0)"
    have view1: "map_view w1 segs = map_view w segs"
      by (rule kept_view, rule data_kept_mono [OF j(8)]) auto
    have "seg_ok w1 k' seg'" if "(k', seg') \<in> set segs" for k' seg'
    proof -
      have "seg_bytes w1 seg' = seg_bytes w seg'"
        using view1 that by (auto simp: map_view_def)
      then show ?thesis using Cons.prems(2) [of k' seg'] that by (simp add: seg_ok_def)
    qed
    from Cons.IH [OF j(4) this Cons.prems(3) rec]
    have post: "collect_post X mb ?E mode base n segs w1 segs2 ds2 w'" .
    have refs: "(\<lambda>i. map_refs segs' i + E i) = (\<lambda>i. map_refs segs2 i + ?E i)"
      using j(1) res(1) by (auto simp: fun_eq_iff)
    have kept: "data_kept {i. 0 < ?E i} w1 w'" using post by (simp add: collect_post_def)
    have kj: "shared_bytes w' j = shared_bytes w1 j" "entry_of w' j = entry_of w1 j"
      using kept by (auto simp: data_kept_def)
    have dj: "getSegmentDescr seg1 w' = Inr d" using d j(1) kj(2) by (simp add: getSegmentDescr_eq)
    have le: "map_refs segs2 i \<le> map_refs segs i" if "0 < map_refs segs i + ?E i" for i
      by (rule post [unfolded collect_post_def, THEN conjunct2, THEN conjunct1, rule_format, OF that])
    have uniq: "map_refs segs2 j + ?E j = 1" if "mode = ACCESS_WRITE"
      using le [of j] j(10) [OF that] by simp
    have dok: "descr_ok w' (\<lambda>i. map_refs segs' i + E i) mode base n (k, seg1) d"
      unfolding refs descr_ok_def using dj True j(1,2) uniq by auto
    obtain hit rest where hr: "segs2 = hit @ rest"
        "list_all2 (descr_ok w' (\<lambda>i. map_refs segs2 i + ?E i) mode base n) hit ds2"
        "rest \<noteq> [] \<longrightarrow> \<not> (os_offset (snd (hd rest)) < base + n \<and> base \<le> fst (hd rest))"
      using post unfolding collect_post_def by blast
    have "\<exists>hit rest. segs' = hit @ rest \<and>
        list_all2 (descr_ok w' (\<lambda>i. map_refs segs' i + E i) mode base n) hit ds \<and>
        (rest \<noteq> [] \<longrightarrow> \<not> (os_offset (snd (hd rest)) < base + n \<and> base \<le> fst (hd rest)))"
      using hr dok res unfolding refs by (intro exI [of _ "(k, seg1) # hit"] exI [of _ rest]) simp
    moreover have "world_ok mb (\<lambda>i. map_refs segs' i + E i) X w'"
      unfolding refs using post by (simp add: collect_post_def)
    moreover have "map_refs segs' i \<le> map_refs (e # segs) i" if "0 < map_refs (e # segs) i + E i" for i
    proof -
      have "map_refs segs2 i \<le> map_refs segs i"
        by (rule le [OF j(6) [OF that [unfolded e]]])
      then show ?thesis using j(1) j(5) [of i] that res(1) e by (auto split: if_splits)
    qed
    moreover have "map_view w' segs' = map_view w (e # segs)"
      using post view1 res(1) e j(1,2,3,7) kj(1) by (simp add: collect_post_def seg_bytes_def)
    moreover have "data_kept {i. 0 < E i} w w'"
      by (rule data_kept_trans [OF data_kept_mono [OF j(8)] data_kept_mono [OF kept]]) auto
    moreover have "w_storage w' = w_storage w" using post j(9) by (simp add: collect_post_def)
    ultimately show ?thesis unfolding collect_post_def by blast
  qed
qed

section \<open>Loading a missing range\<close>

text \<open>No segment touches the range.\<close>

definition gap_free :: "(size_t, ObjectSegment) std_map \<Rightarrow> size_t \<Rightarrow> size_t \<Rightarrow> bool" where
  "gap_free m lo hi \<longleftrightarrow> (\<forall>k seg. (k, seg) \<in> set m \<longrightarrow> k < lo \<or> hi \<le> os_offset seg)"

lemma pread_effect:
  assumes ok: "world_ok mb R (fr_insert q X) w" and fq: "q \<notin> fr_blocks X" and q: "q \<notin> owned_blocks w" "w_blocks w q = Some xs" "length xs = n"
    and so: "storage_ok so content" and n: "n < W64"
    and p: "Object_pread so ob (Ptr q 0) n off w = Inr (st, w')"
  obtains ys where "world_ok mb R (fr_insert q X) w'" "w_shared w' = w_shared w" "w_next w' = w_next w" "data_kept S w w'"
    "w_blocks w' q = Some ys" "length ys = n" "content (w_storage w') = content (w_storage w)"
    "owned_blocks w' = owned_blocks w"
    "obj_storageBackend ob \<Longrightarrow> size_t_of st = n \<Longrightarrow>
      ys = map (content (w_storage w) (oid_high (obj_objectId ob), oid_low (obj_objectId ob))) [off..<off + n]"
proof (cases "obj_storageBackend ob")
  case False
  then have "w' = w" using p by (auto simp: Object_pread_def)
  then show thesis using that [of xs] ok q False by simp
next
  case True
  let ?k = "(oid_high (obj_objectId ob), oid_low (obj_objectId ob))"
  obtain ys s h where rd: "so_pread so (fst ?k) (snd ?k) xs off (w_storage w) = Inr (st, ys, s)"
      and wr: "write_mem (Ptr q 0) ys (mem_heap (w_mem w)) = Inr h" and w': "w' = (w_set_heap h w)\<lparr>w_storage := s\<rparr>"
    using p True q(2,3) by (auto simp: Object_pread_def elim!: bindE_InrE)
  note rd = storage_pread [OF so rd]
  have len: "length ys = n" using rd(2) q(3) by (simp add: pread_post_def)
  have "fr_data (fr_insert q X) q = None" using fq by (auto simp: fr_blocks_def)
  note ww = world_write [OF ok wr this]
  let ?w = "w_set_heap h w"
  have q': "w_blocks ?w q = Some ys" using ww(6) [OF q(2)] len q(3) patch_full [of ys xs] by simp
  have same: "w_shared w' = w_shared ?w" "w_mem w' = w_mem ?w" "w_next w' = w_next ?w" "w_backends w' = w_backends ?w"
    by (simp_all add: w')
  have own: "owned_blocks w' = owned_blocks ?w" "owned_blocks ?w = owned_blocks w"
    by (auto simp: owned_blocks_def same(1) ww(2))
  show thesis
  proof (rule that [of ys])
    show "world_ok mb R (fr_insert q X) w'"
      using ww(1) by (simp add: world_ok_def entry_ok_def own same)
    show "data_kept S w w'"
      using ww(7) [OF q(1)] data_kept_trans [OF _ kept_if_shared [of S w' ?w]] same by simp
    show "w_blocks w' q = Some ys" using q' same by simp
    show "content (w_storage w') = content (w_storage w)" using rd(1) by (simp add: w')
    show "size_t_of st = n \<Longrightarrow> ys = map (content (w_storage w) ?k) [off..<off + n]"
      using rd(2) q(3) by (simp add: pread_post_def)
  qed (use len ww(2,3) same own in auto)
qed

abbreviation obj_key :: "object \<Rightarrow> int \<times> int" where
  "obj_key ob \<equiv> (oid_high (obj_objectId ob), oid_low (obj_objectId ob))"

lemma map_ok_insert:
  assumes ok: "map_ok w m" and gap: "gap_free m lo (lo + n)" and n: "0 < n" "lo + n < W64"
    and seg: "os_offset seg = lo" "seg_bytes w seg = Some xs" "length xs = n"
  shows "map_ok w (sm_set (lo + n - 1) seg m)" "sm_find m (lo + n - 1) = None"
    "set (sm_set (lo + n - 1) seg m) = insert (lo + n - 1, seg) (set m)"
proof -
  note D = map_okD [OF ok]
  have new: "k \<noteq> lo + n - 1" if "(k, s) \<in> set m" for k s
  proof -
    have "os_offset s \<le> k" using D(2) [OF that] seg_okE by blast
    moreover have "k < lo \<or> lo + n \<le> os_offset s" using gap that by (simp add: gap_free_def)
    ultimately show ?thesis using n(1) by linarith
  qed
  then show "sm_find m (lo + n - 1) = None" by (metis map_of_SomeD not_None_eq)
  show set: "set (sm_set (lo + n - 1) seg m) = insert (lo + n - 1, seg) (set m)"
  proof -
    have "{(k', v') \<in> set m. k' \<noteq> lo + n - 1} = set m" using new by blast
    then show ?thesis by (simp add: set_sm_set [OF D(1)])
  qed
  show "map_ok w (sm_set (lo + n - 1) seg m)"
  proof (rule map_okI)
    show "sm_ok (sm_set (lo + n - 1) seg m)" by (rule sm_ok_set [OF D(1)])
    show "seg_ok w k s" if "(k, s) \<in> set (sm_set (lo + n - 1) seg m)" for k s
      using that D(2) seg n unfolding set by (auto simp: seg_ok_def)
    show "k < os_offset s'" if "(k, s) \<in> set (sm_set (lo + n - 1) seg m)"
        "(k', s') \<in> set (sm_set (lo + n - 1) seg m)" "k < k'" for k s k' s'
    proof -
      have old: "os_offset s'' \<le> k''" if "(k'', s'') \<in> set m" for k'' s''
        using D(2) [OF that] seg_okE by blast
      from that consider "(k, s) \<in> set m" "(k', s') \<in> set m" | "k = lo + n - 1" "(k', s') \<in> set m"
        | "(k, s) \<in> set m" "k' = lo + n - 1" "s' = seg" unfolding set by auto
      then show ?thesis
      proof cases
        case 2
        then show ?thesis using gap old [OF 2(2)] that(3) n(1) by (fastforce simp: gap_free_def)
      next
        case 3
        then show ?thesis using gap old [OF 3(1)] that(3) n(1) seg(1) by (fastforce simp: gap_free_def)
      qed (use D(3) that(3) in blast)
    qed
  qed
qed

text \<open>Every read of the storage that returns is a complete one.\<close>

definition reads_succeed :: "'s storage_ops \<Rightarrow> bool" where
  "reads_succeed so \<longleftrightarrow> (\<forall>hi lo buf off s st buf' s'.
     so_pread so hi lo buf off s = Inr (st, buf', s') \<longrightarrow> size_t_of st = length buf)"

text \<open>
  \<open>loadSegment\<close> on a free range: either it adds one clean segment that holds the stored
  bytes (when they were read) and returns its descriptor, or it changes no data.
\<close>

definition load_post ::
  "nat \<Rightarrow> (nat \<Rightarrow> nat) \<Rightarrow> ((int \<times> int) \<Rightarrow> nat \<Rightarrow> byte) \<Rightarrow> size_t \<Rightarrow> size_t \<Rightarrow> bool \<Rightarrow> object \<Rightarrow> 's world \<Rightarrow>
   ObjectSegmentDescr \<Rightarrow> object \<Rightarrow> 's world \<Rightarrow> bool" where
  "load_post mb E stored lo n loaded ob w d ob' w' \<longleftrightarrow>
     (\<exists>seg i blk xs. ob' = ob\<lparr>obj_segmentMap := sm_set (lo + n - 1) seg (obj_segmentMap ob)\<rparr> \<and>
        map_ok w' (obj_segmentMap ob') \<and> sm_find (obj_segmentMap ob) (lo + n - 1) = None \<and>
        set (obj_segmentMap ob') = insert (lo + n - 1, seg) (set (obj_segmentMap ob)) \<and>
        seg = \<lparr>os_memory = Some i, os_offset = lo, os_dirty = False\<rparr> \<and>
        map_refs (obj_segmentMap ob) i + E i = 0 \<and>
        d = \<lparr>osd_ptr = Ptr blk 0, osd_offset = lo, osd_size = n\<rparr> \<and> getSegmentDescr seg w' = Inr d \<and>
        shared_bytes w' i = Some xs \<and> length xs = n \<and>
        (loaded \<and> obj_storageBackend ob \<longrightarrow> xs = map (stored (obj_key ob)) [lo..<lo + n]))"

lemma loadSegment_effect:
  fixes content :: "'s storage_content"
  assumes ok: "world_ok mb (\<lambda>i. map_refs (obj_segmentMap ob) i + E i) X w" and mok: "map_ok w (obj_segmentMap ob)"
    and mb: "obj_memoryBackend ob = mb" and so: "storage_ok so content"
    and gap: "gap_free (obj_segmentMap ob) lo (lo + n)" and n: "0 < n" "lo + n < W64"
    and l: "loadSegment fi so lo n load accept ob w = Inr (d, ob', w')"
  shows "world_ok mb (\<lambda>i. map_refs (obj_segmentMap ob') i + E i) X w'"
    "data_kept {i. 0 < map_refs (obj_segmentMap ob) i + E i} w w'"
    "content (w_storage w') = content (w_storage w)"
    "if osd_ptr d = NULL then ob' = ob
     else load_post mb E (content (w_storage w)) lo n (load \<and> (\<not> accept \<or> reads_succeed so)) ob w d ob' w'"
proof -
  let ?m = "obj_segmentMap ob" and ?R = "\<lambda>i. map_refs (obj_segmentMap ob) i + E i"
  let ?S = "{i. 0 < ?R i}"
  obtain buffer w1 where al: "w_allocate fi mb n w = Inr (buffer, w1)"
    using l mb unfolding loadSegment_def by (auto elim!: bindE_InrE)
  obtain q where q: "buffer = Ptr q 0" "q \<notin> owned_blocks w" "q \<notin> fr_blocks X" "world_ok mb ?R (fr_insert q X) w1"
      "hp_len (mem_heap (w_mem w1)) q = Some n" "w_shared w1 = w_shared w" "w_next w1 = w_next w"
      "w_storage w1 = w_storage w" "data_kept ?S w w1" "\<And>c. c \<in> fr_blocks X \<Longrightarrow> w_blocks w1 c = w_blocks w c"
    by (rule world_alloc [OF ok al]) (rule that)
  have qn: "q \<notin> owned_blocks w1" using q(2,6) by (simp add: owned_blocks_def)
  obtain xs1 where xs1: "w_blocks w1 q = Some xs1" "length xs1 = n" using q(5) by (auto simp: hp_len_def)
  obtain failed w2 where
      rd: "(if load then bindE (Object_pread so ob buffer n lo w1) (\<lambda>(st, w). Inr (size_t_of st \<noteq> n \<and> \<not> accept, w))
            else Inr (False, w1)) = Inr (failed, w2)"
      and rest: "(if failed then bindE (w_deallocate mb buffer n w2) (\<lambda>w. Inr (errDescr, ob, w))
        else let k = sub64 (add64 lo n) 1; old = segmentMap_at k ob;
           (seg, w) = ObjectSegment_make lo n buffer mb w2
       in bindE (shared_drop (os_memory old) w) (\<lambda>w.
          bindE (getSegmentDescr seg w) (\<lambda>descr.
          Inr (descr, ob\<lparr>obj_segmentMap := sm_set k seg ?m\<rparr>, w)))) = Inr (d, ob', w')"
    using l al mb unfolding loadSegment_def by (auto elim!: bindE_InrE)
  have "\<exists>ys. world_ok mb ?R (fr_insert q X) w2 \<and> w_shared w2 = w_shared w1 \<and> data_kept ?S w1 w2 \<and>
      w_blocks w2 q = Some ys \<and> length ys = n \<and> content (w_storage w2) = content (w_storage w1) \<and>
      (load \<and> (\<not> accept \<and> \<not> failed \<or> reads_succeed so) \<and> obj_storageBackend ob \<longrightarrow>
         ys = map (content (w_storage w1) (obj_key ob)) [lo..<lo + n])"
  proof (cases load)
    case False
    then show ?thesis using rd q(4) xs1 by auto
  next
    case True
    then obtain st where pr: "Object_pread so ob (Ptr q 0) n lo w1 = Inr (st, w2)"
        and f: "failed \<longleftrightarrow> size_t_of st \<noteq> n \<and> \<not> accept"
      using rd q(1) by (auto elim!: bindE_InrE)
    have succ: "size_t_of st = n" if "reads_succeed so" "obj_storageBackend ob"
    proof -
      from pr that(2) xs1 obtain buf' s' where
          "so_pread so (fst (obj_key ob)) (snd (obj_key ob)) xs1 lo (w_storage w1) = Inr (st, buf', s')"
        by (auto simp: Object_pread_def elim!: bindE_InrE)
      then show ?thesis using that(1) xs1(2) unfolding reads_succeed_def by blast
    qed
    have n64: "n < W64" using n(2) by simp
    show ?thesis
      by (rule pread_effect [OF q(4,3) qn xs1 so n64 pr, of ?S]) (use succ f in blast)
  qed
  then obtain ys where w2: "world_ok mb ?R (fr_insert q X) w2" "w_shared w2 = w_shared w1" "data_kept ?S w1 w2"
      "w_blocks w2 q = Some ys" "length ys = n" "content (w_storage w2) = content (w_storage w1)"
      "load \<and> (\<not> accept \<and> \<not> failed \<or> reads_succeed so) \<Longrightarrow> obj_storageBackend ob \<Longrightarrow>
         ys = map (content (w_storage w1) (obj_key ob)) [lo..<lo + n]" by blast
  have kept2: "data_kept ?S w w2" by (rule data_kept_trans [OF q(9) w2(3)])
  have "world_ok mb (\<lambda>i. map_refs (obj_segmentMap ob') i + E i) X w' \<and> data_kept ?S w w' \<and>
    content (w_storage w') = content (w_storage w) \<and>
    (if osd_ptr d = NULL then ob' = ob
     else load_post mb E (content (w_storage w)) lo n (load \<and> (\<not> accept \<or> reads_succeed so)) ob w d ob' w')"
  proof (cases failed)
    case True
    then have de: "w_deallocate mb (Ptr q 0) n w2 = Inr w'" and "d = errDescr" "ob' = ob"
      using rest q(1) by (auto elim!: bindE_InrE)
    moreover note de = world_dealloc [OF w2(1) q(3) de]
    ultimately show ?thesis
      using w2(6) q(8) data_kept_trans [OF kept2 de(5)] by (simp add: errDescr_def)
  next
    case False
    let ?k = "lo + n - 1"
    obtain i w3 where ms: "make_shared \<lparr>osm_buffer = Ptr q 0, osm_size = n, osm_memoryBackend = mb\<rparr> w2 = (i, w3)" by force
    note sh = world_make_shared [OF w2(1) q(3) _ ms, unfolded hp_len_def, simplified w2(4,5) option.map, OF refl]
    let ?seg = "\<lparr>os_memory = Some i, os_offset = lo, os_dirty = False\<rparr>"
    have k: "sub64 (add64 lo n) 1 = ?k" using n by simp
    have kept3: "data_kept ?S w w3"
      using data_kept_trans [OF kept2 sh(8)] sh(2) by simp
    have mok3: "map_ok w3 ?m"
      by (rule map_ok_view [OF kept_view mok], rule data_kept_mono [OF kept3]) auto
    have bytes: "seg_bytes w3 ?seg = Some ys" "shared_bytes w3 i = Some ys"
      using sh(5) w2(4) by (simp_all add: seg_bytes_def)
    note ins = map_ok_insert [OF mok3 gap n, of ?seg, OF _ bytes(1) w2(5)]
    have old: "segmentMap_at ?k ob = ObjectSegment_null"
      using ins(2) by (simp add: segmentMap_at_def)
    have res: "w' = w3" "getSegmentDescr ?seg w3 = Inr d" "ob' = ob\<lparr>obj_segmentMap := sm_set ?k ?seg ?m\<rparr>"
      using rest False old ms unfolding k q(1)
      by (auto simp: Let_def ObjectSegment_make_def ObjectSegment_null_def shared_drop_def elim!: bindE_InrE)
    have d: "d = \<lparr>osd_ptr = Ptr q 0, osd_offset = lo, osd_size = n\<rparr>"
      using res(2) sh(4) by (auto simp: getSegmentDescr_def seg_memory_def)
    have refs: "(\<lambda>l. map_refs (sm_set ?k ?seg ?m) l + E l) = ?R(i := 1)"
      using map_refs_sm_set [OF ins(2)] sh(2) by (auto simp: fun_eq_iff)
    have "load_post mb E (content (w_storage w)) lo n (load \<and> (\<not> accept \<or> reads_succeed so)) ob w d ob' w'"
      unfolding load_post_def
      using res ins(1,2,3) sh(2) d bytes(2) w2(5,6,7) False q(8)
      by (intro exI [of _ ?seg] exI [of _ i] exI [of _ q] exI [of _ ys]) auto
    moreover have "world_ok mb (\<lambda>l. map_refs (obj_segmentMap ob') l + E l) X w'"
      using sh(3) res refs by simp
    moreover have "content (w_storage w') = content (w_storage w)"
      using res(1) sh(7) w2(6) q(8) by simp
    ultimately show ?thesis using kept3 res(1) d by simp
  qed
  then show "world_ok mb (\<lambda>i. map_refs (obj_segmentMap ob') i + E i) X w'"
    "data_kept ?S w w'" "content (w_storage w') = content (w_storage w)"
    "if osd_ptr d = NULL then ob' = ob
     else load_post mb E (content (w_storage w)) lo n (load \<and> (\<not> accept \<or> reads_succeed so)) ob w d ob' w'"
    by blast+
qed

section \<open>Extending a map by loaded ranges\<close>

definition new_seg ::
  "(nat \<Rightarrow> nat) \<Rightarrow> (nat \<Rightarrow> bool) \<Rightarrow> (nat \<Rightarrow> byte) \<Rightarrow> 's world \<Rightarrow> size_t \<Rightarrow> ObjectSegment \<Rightarrow> bool" where
  "new_seg R P stored w k seg \<longleftrightarrow> (\<exists>i xs. os_memory seg = Some i \<and> R i = 1 \<and> \<not> os_dirty seg \<and>
     shared_bytes w i = Some xs \<and>
     (\<forall>x. os_offset seg \<le> x \<and> x \<le> k \<and> P x \<longrightarrow> xs ! (x - os_offset seg) = stored x))"

text \<open>The segments of an object with an alignement start and end on its grid.\<close>

definition on_grid :: "size_t \<Rightarrow> size_t \<Rightarrow> bool" where
  "on_grid al x \<longleftrightarrow> al = 0 \<or> al dvd x"

definition grid_ok :: "object \<Rightarrow> bool" where
  "grid_ok ob \<longleftrightarrow> (\<forall>k seg. (k, seg) \<in> set (obj_segmentMap ob) \<longrightarrow>
     on_grid (obj_alignement ob) (os_offset seg) \<and> on_grid (obj_alignement ob) (Suc k))"

definition ext_post ::
  "frame \<Rightarrow> nat \<Rightarrow> (nat \<Rightarrow> nat) \<Rightarrow> (nat \<Rightarrow> bool) \<Rightarrow> (nat \<Rightarrow> byte) \<Rightarrow> size_t \<Rightarrow> size_t \<Rightarrow> object \<Rightarrow> 's world \<Rightarrow> object \<Rightarrow> 's world \<Rightarrow> bool" where
  "ext_post X mb E P stored lo hi ob w ob' w' \<longleftrightarrow>
     (let m = obj_segmentMap ob; m' = obj_segmentMap ob'; R = (\<lambda>i. map_refs m' i + E i) in
      world_ok mb R X w' \<and> map_ok w' m' \<and> ob' = ob\<lparr>obj_segmentMap := m'\<rparr> \<and>
      data_kept {i. 0 < map_refs m i + E i} w w' \<and>
      (\<forall>i. 0 < map_refs m i + E i \<longrightarrow> map_refs m' i = map_refs m i) \<and>
      set m \<subseteq> set m' \<and> (grid_ok ob \<longrightarrow> grid_ok ob') \<and>
      (\<forall>k seg. (k, seg) \<in> set m' \<longrightarrow> (k, seg) \<notin> set m \<longrightarrow>
         lo \<le> os_offset seg \<and> k < hi \<and> new_seg R P stored w' k seg))"

lemma ext_postD:
  assumes "ext_post X mb E P stored lo hi ob w ob' w'"
  shows "world_ok mb (\<lambda>i. map_refs (obj_segmentMap ob') i + E i) X w'" "map_ok w' (obj_segmentMap ob')"
    "ob' = ob\<lparr>obj_segmentMap := obj_segmentMap ob'\<rparr>"
    "data_kept {i. 0 < map_refs (obj_segmentMap ob) i + E i} w w'"
    "0 < map_refs (obj_segmentMap ob) i + E i \<Longrightarrow> map_refs (obj_segmentMap ob') i = map_refs (obj_segmentMap ob) i"
    "set (obj_segmentMap ob) \<subseteq> set (obj_segmentMap ob')"
    "(k, seg) \<in> set (obj_segmentMap ob') \<Longrightarrow> (k, seg) \<notin> set (obj_segmentMap ob) \<Longrightarrow> lo \<le> os_offset seg \<and> k < hi"
    "(k, seg) \<in> set (obj_segmentMap ob') \<Longrightarrow> (k, seg) \<notin> set (obj_segmentMap ob) \<Longrightarrow>
      new_seg (\<lambda>i. map_refs (obj_segmentMap ob') i + E i) P stored w' k seg"
    "grid_ok ob \<Longrightarrow> grid_ok ob'"
  using assms unfolding ext_post_def Let_def by (simp_all del: add_gr_0)

lemma ext_postI:
  assumes "world_ok mb (\<lambda>i. map_refs (obj_segmentMap ob') i + E i) X w'" "map_ok w' (obj_segmentMap ob')"
    "ob' = ob\<lparr>obj_segmentMap := obj_segmentMap ob'\<rparr>"
    "data_kept {i. 0 < map_refs (obj_segmentMap ob) i + E i} w w'"
    "\<And>i. 0 < map_refs (obj_segmentMap ob) i + E i \<Longrightarrow> map_refs (obj_segmentMap ob') i = map_refs (obj_segmentMap ob) i"
    "set (obj_segmentMap ob) \<subseteq> set (obj_segmentMap ob')"
    "\<And>k seg. (k, seg) \<in> set (obj_segmentMap ob') \<Longrightarrow> (k, seg) \<notin> set (obj_segmentMap ob) \<Longrightarrow>
      lo \<le> os_offset seg \<and> k < hi \<and> new_seg (\<lambda>i. map_refs (obj_segmentMap ob') i + E i) P stored w' k seg"
    "grid_ok ob \<Longrightarrow> grid_ok ob'"
  shows "ext_post X mb E P stored lo hi ob w ob' w'"
  using assms unfolding ext_post_def Let_def by blast

lemma ext_refl:
  "world_ok mb (\<lambda>i. map_refs (obj_segmentMap ob) i + E i) X w \<Longrightarrow> map_ok w (obj_segmentMap ob) \<Longrightarrow>
   ext_post X mb E P stored lo hi ob w ob w"
  by (rule ext_postI) auto

lemma ext_trans:
  assumes a: "ext_post X mb E P stored lo mid ob w ob1 w1" and b: "ext_post X mb E P stored mid' hi ob1 w1 ob2 w2"
    and o: "lo \<le> mid'" "mid \<le> hi"
  shows "ext_post X mb E P stored lo hi ob w ob2 w2"
proof (rule ext_postI)
  note A = ext_postD [OF a] and B = ext_postD [OF b]
  have refs1: "0 < map_refs (obj_segmentMap ob1) i + E i" if "0 < map_refs (obj_segmentMap ob) i + E i" for i
    using A(5) [OF that] that by simp
  show "data_kept {i. 0 < map_refs (obj_segmentMap ob) i + E i} w w2"
    by (rule data_kept_trans [OF A(4) data_kept_mono [OF B(4)]])
      (rule subsetI, simp only: mem_Collect_eq, rule refs1)
  show "map_refs (obj_segmentMap ob2) i = map_refs (obj_segmentMap ob) i"
    if "0 < map_refs (obj_segmentMap ob) i + E i" for i
    using A(5) [OF that] B(5) [OF refs1 [OF that]] by simp
  show "ob2 = ob\<lparr>obj_segmentMap := obj_segmentMap ob2\<rparr>"
    using A(3) B(3) by (metis object.surjective object.update_convs(2))
  show "set (obj_segmentMap ob) \<subseteq> set (obj_segmentMap ob2)" using A(6) B(6) by blast
  show "grid_ok ob \<Longrightarrow> grid_ok ob2" using A(9) B(9) by blast
  fix k seg
  assume k: "(k, seg) \<in> set (obj_segmentMap ob2)" "(k, seg) \<notin> set (obj_segmentMap ob)"
  show "lo \<le> os_offset seg \<and> k < hi \<and> new_seg (\<lambda>i. map_refs (obj_segmentMap ob2) i + E i) P stored w2 k seg"
  proof (cases "(k, seg) \<in> set (obj_segmentMap ob1)")
    case True
    from A(8) [OF True k(2)] obtain i xs where n: "os_memory seg = Some i"
        "map_refs (obj_segmentMap ob1) i + E i = 1" "\<not> os_dirty seg" "shared_bytes w1 i = Some xs"
        "\<forall>x. os_offset seg \<le> x \<and> x \<le> k \<and> P x \<longrightarrow> xs ! (x - os_offset seg) = stored x"
      unfolding new_seg_def by blast
    have "map_refs (obj_segmentMap ob2) i + E i = 1" "shared_bytes w2 i = Some xs"
      using B(5) [of i] data_keptD(2) [OF B(4), of i] n(2,4) by (simp_all del: add_gr_0)
    with n have "new_seg (\<lambda>i. map_refs (obj_segmentMap ob2) i + E i) P stored w2 k seg"
      unfolding new_seg_def by blast
    then show ?thesis using A(7) [OF True k(2)] o(2) by simp
  next
    case False
    then show ?thesis using B(7,8) [OF k(1) False] o(1) by simp
  qed
qed (use ext_postD [OF b] in blast)+

definition descr_set :: "'s world \<Rightarrow> (size_t \<times> ObjectSegment) set \<Rightarrow> ObjectSegmentDescr set" where
  "descr_set w M = {d. \<exists>k seg. (k, seg) \<in> M \<and> getSegmentDescr seg w = Inr d}"

lemma descr_set_Un: "descr_set w (M \<union> N) = descr_set w M \<union> descr_set w N"
  by (auto simp: descr_set_def)

lemma descr_set_kept:
  assumes "data_kept {i. 0 < R i} w w'" "\<And>k seg. (k, seg) \<in> M \<Longrightarrow> \<exists>i. os_memory seg = Some i \<and> 0 < R i"
  shows "descr_set w' M = descr_set w M"
proof -
  have "getSegmentDescr seg w' = getSegmentDescr seg w" if "(k, seg) \<in> M" for k seg
  proof -
    from assms(2) [OF that] obtain i where i: "os_memory seg = Some i" "0 < R i" by blast
    then have "entry_of w' i = entry_of w i" using assms(1) by (simp add: data_kept_def)
    then have "map_option fst (w_shared w' i) = map_option fst (w_shared w i)" by (simp add: entry_of_def)
    then show ?thesis using i(1)
      by (cases "w_shared w i"; cases "w_shared w' i") (auto simp: getSegmentDescr_def seg_memory_def)
  qed
  then show ?thesis by (auto simp: descr_set_def) (metis)+
qed

text \<open>
  The bytes \<open>getBuffers\<close> must bring from the storage: all of them for a read; for a write
  those outside the requested range, as long as the storage can be read.
\<close>

definition must_match :: "'s storage_ops \<Rightarrow> bool \<Rightarrow> bool \<Rightarrow> size_t \<Rightarrow> size_t \<Rightarrow> object \<Rightarrow> nat \<Rightarrow> bool" where
  "must_match so load isW origBase origSize ob x \<longleftrightarrow> load \<and> obj_storageBackend ob \<and>
     (\<not> isW \<or> reads_succeed so \<and> \<not> (origBase \<le> x \<and> x < origBase + origSize))"

text \<open>A load that accepts a failing read always gives a buffer.\<close>

lemma loadSegment_accepted:
  assumes ok: "world_ok mb R X w" and mb: "obj_memoryBackend ob = mb"
    and l: "loadSegment fi so lo n load True ob w = Inr (d, ob', w')"
  shows "osd_ptr d \<noteq> NULL"
proof -
  obtain buffer w1 where al: "w_allocate fi mb n w = Inr (buffer, w1)"
    using l mb unfolding loadSegment_def by (auto elim!: bindE_InrE)
  obtain q where q: "buffer = Ptr q 0" by (rule world_alloc [OF ok al]) (rule that)
  have drop: "osm' = osm" if "shared_drop m v = Inr v'" "w_shared v i = Some (osm, c)" "w_shared v' i = Some (osm', c')"
    for m i osm c osm' c' and v v' :: "'a world"
    using that by (cases m)
      (auto simp: shared_drop_def ObjectSegmentMemory_destroy_def w_deallocate_def elim!: bindE_InrE split: option.splits if_splits)
  obtain w2 i w3 where ms: "make_shared \<lparr>osm_buffer = buffer, osm_size = n, osm_memoryBackend = mb\<rparr> w2 = (i, w3)"
      and dr: "shared_drop (os_memory (segmentMap_at (sub64 (add64 lo n) 1) ob)) w3 = Inr w'"
      and de: "getSegmentDescr \<lparr>os_memory = Some i, os_offset = lo, os_dirty = False\<rparr> w' = Inr d"
    using l al mb unfolding loadSegment_def ObjectSegment_make_def Let_def
    by (auto elim!: bindE_InrE split: prod.splits if_splits)
  have new: "w_shared w3 i = Some (\<lparr>osm_buffer = buffer, osm_size = n, osm_memoryBackend = mb\<rparr>, 1)"
    using ms by (auto simp: make_shared_def)
  obtain osm c where osm: "w_shared w' i = Some (osm, c)" "osd_ptr d = osm_buffer osm"
    using de by (auto simp: getSegmentDescr_def seg_memory_Inr elim!: bindE_InrE)
  show ?thesis using drop [OF dr new osm(1)] osm(2) q by simp
qed

lemma loadGap_effect:
  fixes content :: "'s storage_content"
  assumes ok: "world_ok mb (\<lambda>i. map_refs (obj_segmentMap ob) i + E i) X w" and mok: "map_ok w (obj_segmentMap ob)"
    and mb: "obj_memoryBackend ob = mb" and so: "storage_ok so content"
    and gap: "gap_free (obj_segmentMap ob) lo (lo + n)" and n: "0 < n" "lo + n < W64"
    and req: "origBase + origSize < W64"
    and grid: "grid_ok ob \<longrightarrow> on_grid (obj_alignement ob) lo \<and> on_grid (obj_alignement ob) (lo + n)"
    and l: "loadGap fi so load isW origBase origSize lo n ob w = Inr (d, ob', w')"
  shows "ext_post X mb E (must_match so load isW origBase origSize ob) (content (w_storage w) (obj_key ob))
      lo (lo + n) ob w ob' w'"
    "content (w_storage w') = content (w_storage w)"
    "osd_ptr d \<noteq> NULL \<Longrightarrow> \<exists>seg. (lo + n - 1, seg) \<in> set (obj_segmentMap ob') \<and> os_offset seg = lo \<and>
       set (obj_segmentMap ob') - set (obj_segmentMap ob) = {(lo + n - 1, seg)} \<and>
       getSegmentDescr seg w' = Inr d \<and> osd_offset d = lo \<and> osd_size d = n"
    "osd_ptr d = NULL \<Longrightarrow> ob' = ob" "isW \<Longrightarrow> osd_ptr d \<noteq> NULL"
proof -
  let ?need = "if isW \<and> isFullyOverlapped lo n origBase origSize then False else load"
  let ?P = "must_match so load isW origBase origSize ob" and ?st = "content (w_storage w) (obj_key ob)"
  have ls: "loadSegment fi so lo n ?need isW ob w = Inr (d, ob', w')" using l by (simp add: loadGap_def Let_def)
  show "isW \<Longrightarrow> osd_ptr d \<noteq> NULL" using loadSegment_accepted [OF ok mb] ls by simp
  note L = loadSegment_effect [OF ok mok mb so gap n ls]
  show "content (w_storage w') = content (w_storage w)" by (rule L(3))
  show "osd_ptr d = NULL \<Longrightarrow> ob' = ob" using L(4) by simp
  have "ext_post X mb E ?P ?st lo (lo + n) ob w ob' w' \<and> (osd_ptr d \<noteq> NULL \<longrightarrow>
     (\<exists>seg. (lo + n - 1, seg) \<in> set (obj_segmentMap ob') \<and> os_offset seg = lo \<and>
       set (obj_segmentMap ob') - set (obj_segmentMap ob) = {(lo + n - 1, seg)} \<and>
       getSegmentDescr seg w' = Inr d \<and> osd_offset d = lo \<and> osd_size d = n))"
  proof (cases "osd_ptr d = NULL")
    case True
    then have "ob' = ob" using L(4) by simp
    moreover have "map_ok w' (obj_segmentMap ob)"
      by (rule map_ok_view [OF kept_view mok], rule data_kept_mono [OF L(2)]) auto
    ultimately show ?thesis using L(1,2) True by (auto intro!: ext_postI)
  next
    case False
    then have "load_post mb E (content (w_storage w)) lo n (?need \<and> (\<not> isW \<or> reads_succeed so)) ob w d ob' w'"
      using L(4) by simp
    then obtain seg i blk xs where p: "ob' = ob\<lparr>obj_segmentMap := sm_set (lo + n - 1) seg (obj_segmentMap ob)\<rparr>"
        "map_ok w' (obj_segmentMap ob')"
        "set (obj_segmentMap ob') = insert (lo + n - 1, seg) (set (obj_segmentMap ob))"
        "seg = \<lparr>os_memory = Some i, os_offset = lo, os_dirty = False\<rparr>"
        "map_refs (obj_segmentMap ob) i + E i = 0"
        "d = \<lparr>osd_ptr = Ptr blk 0, osd_offset = lo, osd_size = n\<rparr>" "getSegmentDescr seg w' = Inr d"
        "shared_bytes w' i = Some xs" "length xs = n"
        "sm_find (obj_segmentMap ob) (lo + n - 1) = None"
        "(?need \<and> (\<not> isW \<or> reads_succeed so)) \<and> obj_storageBackend ob \<longrightarrow> xs = map ?st [lo..<lo + n]"
      unfolding load_post_def by (elim exE conjE) (rule that)
    have new: "(k, seg) \<notin> set (obj_segmentMap ob)" for k
      using map_refs_pos [of k seg _ i] p(4,5) by fastforce
    have refs: "map_refs (obj_segmentMap ob') j = (if j = i then 1 else 0) + map_refs (obj_segmentMap ob) j" for j
      using map_refs_sm_set [OF p(10), of seg j] p(1,4) by auto
    have stored: "xs ! (x - lo) = ?st x" if "lo \<le> x" "x \<le> lo + n - 1" "?P x" for x
    proof -
      have "?need" using that req n by (auto simp: must_match_def isFullyOverlapped_def)
      then have "xs = map ?st [lo..<lo + n]" using p(11) that(3) by (auto simp: must_match_def)
      then show ?thesis using that n(1) by simp
    qed
    have "new_seg (\<lambda>j. map_refs (obj_segmentMap ob') j + E j) ?P ?st w' (lo + n - 1) seg"
      unfolding new_seg_def using p(4,5,8) refs stored by (intro exI [of _ i] exI [of _ xs]) auto
    moreover have "grid_ok ob'" if "grid_ok ob"
      using grid [rule_format, OF that] that p(3,4) n(1) unfolding grid_ok_def by (auto simp: p(1))
    ultimately have "ext_post X mb E ?P ?st lo (lo + n) ob w ob' w'"
      using L(1,2) p(1,2,3,4,5) refs n(1) by (intro ext_postI) auto
    then show ?thesis using p(3,4,6,7) new by auto
  qed
  then show "ext_post X mb E ?P ?st lo (lo + n) ob w ob' w'"
    "osd_ptr d \<noteq> NULL \<Longrightarrow> \<exists>seg. (lo + n - 1, seg) \<in> set (obj_segmentMap ob') \<and> os_offset seg = lo \<and>
       set (obj_segmentMap ob') - set (obj_segmentMap ob) = {(lo + n - 1, seg)} \<and>
       getSegmentDescr seg w' = Inr d \<and> osd_offset d = lo \<and> osd_size d = n"
    by blast+
qed

section \<open>Filling the gaps\<close>

fun last_end :: "size_t \<Rightarrow> ObjectSegmentDescr list \<Rightarrow> size_t" where
  "last_end l [] = l"
| "last_end l (d # ds) = last_end (osd_offset d + osd_size d) ds"

fun gaps_ok :: "(size_t, ObjectSegment) std_map \<Rightarrow> size_t \<Rightarrow> ObjectSegmentDescr list \<Rightarrow> bool" where
  "gaps_ok m l [] \<longleftrightarrow> True"
| "gaps_ok m l (d # ds) \<longleftrightarrow> (l < osd_offset d \<longrightarrow> gap_free m l (osd_offset d)) \<and>
     l < osd_offset d + osd_size d \<and> osd_offset d + osd_size d < W64 \<and> gaps_ok m (osd_offset d + osd_size d) ds"

lemma last_end_ge: "gaps_ok m l ds \<Longrightarrow> l \<le> last_end l ds"
  by (induction ds arbitrary: l) fastforce+

lemma gap_free_ext:
  assumes "gap_free m lo hi" "\<And>k seg. (k, seg) \<in> set m' \<Longrightarrow> (k, seg) \<notin> set m \<Longrightarrow> k < lo"
  shows "gap_free m' lo hi"
  using assms unfolding gap_free_def by blast

lemma gaps_ok_ext:
  "gaps_ok m l ds \<Longrightarrow> (\<And>k seg. (k, seg) \<in> set m' \<Longrightarrow> (k, seg) \<notin> set m \<Longrightarrow> k < l) \<Longrightarrow> gaps_ok m' l ds"
proof (induction ds arbitrary: l)
  case (Cons d ds)
  have "gaps_ok m' (osd_offset d + osd_size d) ds"
    by (rule Cons.IH) (use Cons.prems in \<open>fastforce+\<close>)
  moreover have "l < osd_offset d \<longrightarrow> gap_free m' l (osd_offset d)"
    using Cons.prems(1) gap_free_ext [of m l "osd_offset d" m'] Cons.prems(2) by auto
  ultimately show ?case using Cons.prems(1) by simp
qed simp

definition covers :: "(size_t \<times> ObjectSegment) set \<Rightarrow> nat \<Rightarrow> bool" where
  "covers M x \<longleftrightarrow> (\<exists>k seg. (k, seg) \<in> M \<and> os_offset seg \<le> x \<and> x \<le> k)"

definition covered_by :: "ObjectSegmentDescr list \<Rightarrow> nat \<Rightarrow> bool" where
  "covered_by ds x \<longleftrightarrow> (\<exists>d \<in> set ds. osd_offset d \<le> x \<and> x < osd_offset d + osd_size d)"

definition fill_post ::
  "size_t \<Rightarrow> ObjectSegmentDescr list \<Rightarrow> object \<Rightarrow> size_t \<Rightarrow> ObjectSegmentDescr list \<Rightarrow> object \<Rightarrow> 's world \<Rightarrow> bool" where
  "fill_post l its ob lst tmp ob' w' \<longleftrightarrow> lst = last_end l its \<and>
     set tmp = descr_set w' (set (obj_segmentMap ob') - set (obj_segmentMap ob)) \<and>
     (\<forall>d \<in> set tmp. l \<le> osd_offset d) \<and> distinct (map osd_offset tmp) \<and>
     (\<forall>x. l \<le> x \<and> x < lst \<longrightarrow> covered_by its x \<or> covered_by tmp x)"

lemma fill_gaps_effect:
  fixes content :: "'s storage_content"
  assumes "world_ok mb (\<lambda>i. map_refs (obj_segmentMap ob) i + E i) X w" "map_ok w (obj_segmentMap ob)"
    and "obj_memoryBackend ob = mb" and so: "storage_ok so content"
    and "gaps_ok (obj_segmentMap ob) l its"
    and req: "origBase + origSize < W64"
    and "grid_ok ob \<longrightarrow> on_grid (obj_alignement ob) l \<and>
      (\<forall>d \<in> set its. on_grid (obj_alignement ob) (osd_offset d) \<and> on_grid (obj_alignement ob) (osd_offset d + osd_size d))"
    and "fill_gaps fi so load isW origBase origSize l its ob w = Inr (ok, lst, tmp, ob', w')"
  shows "ext_post X mb E (must_match so load isW origBase origSize ob) (content (w_storage w) (obj_key ob))
      l (last_end l its) ob w ob' w'" (is ?A)
    and "content (w_storage w') = content (w_storage w)" (is ?B)
    and "ok \<Longrightarrow> fill_post l its ob lst tmp ob' w'" (is "_ \<Longrightarrow> ?C") and "isW \<Longrightarrow> ok"
proof -
  have "?A \<and> ?B \<and> (ok \<longrightarrow> ?C) \<and> (isW \<longrightarrow> ok)"
    using assms(1-3,5,7,8)
  proof (induction its arbitrary: l ob w tmp ok)
    case Nil
    then show ?case by (auto simp: ext_refl fill_post_def descr_set_def)
  next
    case (Cons it its)
    let ?P = "must_match so load isW origBase origSize ob" and ?st = "content (w_storage w) (obj_key ob)"
    let ?l = "osd_offset it + osd_size it"
    have g: "l < osd_offset it \<longrightarrow> gap_free (obj_segmentMap ob) l (osd_offset it)" "l < ?l" "?l < W64"
        "gaps_ok (obj_segmentMap ob) ?l its" using Cons.prems(4) by auto
    have add: "add64 (osd_offset it) (osd_size it) = ?l" using g(3) by simp
    have fin: "last_end l (it # its) = last_end ?l its" by simp
    show ?case
    proof (cases "l < osd_offset it")
      case False
      then have run: "fill_gaps fi so load isW origBase origSize ?l its ob w = Inr (ok, lst, tmp, ob', w')"
        using Cons.prems(6) add by simp
      have gr: "grid_ok ob \<longrightarrow> on_grid (obj_alignement ob) ?l \<and>
          (\<forall>d \<in> set its. on_grid (obj_alignement ob) (osd_offset d) \<and> on_grid (obj_alignement ob) (osd_offset d + osd_size d))"
        using Cons.prems(5) by simp
      note IH = Cons.IH [OF Cons.prems(1-3) g(4) gr run]
      have "ext_post X mb E ?P ?st l (last_end ?l its) ob w ob' w'"
        by (rule ext_trans [OF ext_refl [OF Cons.prems(1,2)] IH [THEN conjunct1]]) (use g(2) last_end_ge [OF g(4)] in auto)
      moreover have "fill_post l (it # its) ob lst tmp ob' w'" if ok
      proof -
        have post: "fill_post ?l its ob lst tmp ob' w'" using IH that by blast
        have "covered_by (it # its) x \<or> covered_by tmp x" if "l \<le> x" "x < lst" for x
        proof (cases "x < ?l")
          case True
          with that False show ?thesis by (auto simp: covered_by_def)
        next
          case far: False
          then have "covered_by its x \<or> covered_by tmp x" using post that unfolding fill_post_def by simp
          then show ?thesis by (auto simp: covered_by_def)
        qed
        moreover have "\<forall>d \<in> set tmp. l \<le> osd_offset d" using post g(2) unfolding fill_post_def by force
        ultimately show ?thesis using post unfolding fill_post_def by simp
      qed
      ultimately show ?thesis using IH fin by simp
    next
      case True
      let ?n = "osd_offset it - l"
      have n: "0 < ?n" "l + ?n = osd_offset it" "l + ?n < W64" using True g(3) by auto
      obtain d ob1 w1 where lg: "loadGap fi so load isW origBase origSize l ?n ob w = Inr (d, ob1, w1)"
          and rest: "(if osd_ptr d = NULL then Inr (False, l, [], ob1, w1)
            else bindE (fill_gaps fi so load isW origBase origSize ?l its ob1 w1)
              (\<lambda>(ok, last, tmp, ob, w). Inr (ok, last, d # tmp, ob, w))) = Inr (ok, lst, tmp, ob', w')"
        using Cons.prems(6) True unfolding fill_gaps.simps add by (auto elim!: bindE_InrE)
      have gap: "gap_free (obj_segmentMap ob) l (l + ?n)" using g(1) True n(2) by simp
      have gr: "grid_ok ob \<longrightarrow> on_grid (obj_alignement ob) l \<and> on_grid (obj_alignement ob) (l + ?n)"
        using Cons.prems(5) n(2) by simp
      note G = loadGap_effect [OF Cons.prems(1-3) so gap n(1,3) req gr lg]
      have ge: "?l \<le> last_end ?l its" by (rule last_end_ge [OF g(4)])
      show ?thesis
      proof (cases "osd_ptr d = NULL")
        case null: True
        then have "ob' = ob1" "w' = w1" "\<not> ok" "\<not> isW" using rest G(5) by auto
        moreover have "ext_post X mb E ?P ?st l (last_end ?l its) ob w ob1 w1"
          by (rule ext_trans [OF G(1) ext_refl [OF ext_postD(1,2) [OF G(1)]]]) (use n(2) ge in auto)
        ultimately show ?thesis using G(2) fin by simp
      next
        case False
        then obtain tmp1 where run: "fill_gaps fi so load isW origBase origSize ?l its ob1 w1 = Inr (ok, lst, tmp1, ob', w')"
            and tmp: "tmp = d # tmp1"
          using rest by (auto elim!: bindE_InrE)
        note D = ext_postD [OF G(1)]
        obtain M where o1: "ob1 = ob\<lparr>obj_segmentMap := M\<rparr>" using D(3) by blast
        have same: "obj_memoryBackend ob1 = mb" "must_match so load isW origBase origSize ob1 = ?P" "obj_key ob1 = obj_key ob"
          using Cons.prems(3) by (simp_all add: o1 must_match_def fun_eq_iff)
        have gr1: "grid_ok ob1 \<longrightarrow> on_grid (obj_alignement ob1) ?l \<and>
          (\<forall>d \<in> set its. on_grid (obj_alignement ob1) (osd_offset d) \<and> on_grid (obj_alignement ob1) (osd_offset d + osd_size d))"
        proof -
          have "grid_ok ob1 \<Longrightarrow> grid_ok ob" using D(6) unfolding grid_ok_def by (auto simp: o1)
          then show ?thesis using Cons.prems(5) by (auto simp: o1)
        qed
        have gaps1: "gaps_ok (obj_segmentMap ob1) ?l its"
          by (rule gaps_ok_ext [OF g(4)]) (use D(7) n(2) in force)
        note IH = Cons.IH [OF D(1,2) same(1) gaps1 gr1 run, unfolded same G(2)]
        have ext: "ext_post X mb E ?P ?st l (last_end ?l its) ob w ob' w'"
          by (rule ext_trans [OF G(1) IH [THEN conjunct1]]) (use g(2) n(2) ge in auto)
        have "fill_post l (it # its) ob lst tmp ob' w'" if ok
        proof -
          let ?m = "obj_segmentMap ob" and ?m1 = "obj_segmentMap ob1" and ?m' = "obj_segmentMap ob'"
          have post: "fill_post ?l its ob1 lst tmp1 ob' w'" using IH that by blast
          obtain seg where seg: "(l + ?n - 1, seg) \<in> set ?m1" "set ?m1 - set ?m = {(l + ?n - 1, seg)}"
              "getSegmentDescr seg w1 = Inr d" "osd_offset d = l" "osd_size d = ?n"
            using G(3) [OF False] by blast
          note I = ext_postD [OF IH [THEN conjunct1]]
          obtain i where i: "os_memory seg = Some i" using seg(3)
            by (cases "os_memory seg") (auto simp: getSegmentDescr_def seg_memory_def)
          have "0 < map_refs ?m1 i + E i" using map_refs_pos [OF seg(1) i] by simp
          then have "descr_set w' {(l + ?n - 1, seg)} = descr_set w1 {(l + ?n - 1, seg)}"
            by (intro descr_set_kept [OF I(4)]) (use i in auto)
          then have one: "descr_set w' {(l + ?n - 1, seg)} = {d}" using seg(3) by (auto simp: descr_set_def)
          have dec: "set ?m' - set ?m = {(l + ?n - 1, seg)} \<union> (set ?m' - set ?m1)"
            using seg(2) D(6) I(6) by blast
          have "set tmp = descr_set w' (set ?m' - set ?m)"
            unfolding dec descr_set_Un one using post tmp by (simp add: fill_post_def)
          moreover have "\<forall>d \<in> set tmp. l \<le> osd_offset d" "distinct (map osd_offset tmp)"
            using post seg(4) tmp g(2) unfolding fill_post_def by force+
          moreover have "covered_by (it # its) x \<or> covered_by tmp x" if "l \<le> x" "x < lst" for x
            using post seg(4,5) tmp that True unfolding fill_post_def covered_by_def
            by (cases "x < osd_offset it"; cases "x < ?l") auto
          ultimately show ?thesis using post unfolding fill_post_def by simp
        qed
        then show ?thesis using ext IH fin G(2) by simp
      qed
    qed
  qed
  then show ?A ?B "ok \<Longrightarrow> ?C" "isW \<Longrightarrow> ok" by blast+
qed

section \<open>The contract of getBuffers\<close>

lemma ext_view:
  assumes ext: "ext_post X mb E P stored lo hi ob w ob' w'" and ok: "map_ok w (obj_segmentMap ob)"
  shows "view_byte w (obj_segmentMap ob) x = Some b \<Longrightarrow> view_byte w' (obj_segmentMap ob') x = Some b"
    "view_byte w (obj_segmentMap ob) x = None \<Longrightarrow> view_byte w' (obj_segmentMap ob') x = Some b \<Longrightarrow>
      lo \<le> x \<and> x < hi \<and> (P x \<longrightarrow> b = stored x)"
proof -
  note D = ext_postD [OF ext]
  have kept: "seg_bytes w' seg = seg_bytes w seg" if "(k, seg) \<in> set (obj_segmentMap ob)" for k seg
  proof (cases "os_memory seg")
    case (Some i)
    then have "0 < map_refs (obj_segmentMap ob) i + E i" using map_refs_pos [OF that] by simp
    with data_keptD(2) [OF D(4), of i] Some show ?thesis by (simp add: seg_bytes_def del: add_gr_0)
  qed (simp add: seg_bytes_def)
  show old: "view_byte w' (obj_segmentMap ob') x = Some b" if v: "view_byte w (obj_segmentMap ob) x = Some b"
  proof -
    obtain k seg xs where s: "(k, seg) \<in> set (obj_segmentMap ob)" "os_offset seg \<le> x" "x \<le> k"
        "seg_bytes w seg = Some xs" "b = xs ! (x - os_offset seg)"
      by (rule view_byte_SomeD [OF ok v])
    with view_byte_eq [OF D(2), of k seg x xs] D(6) kept [OF s(1)] show ?thesis by auto
  qed
  assume none: "view_byte w (obj_segmentMap ob) x = None" and v: "view_byte w' (obj_segmentMap ob') x = Some b"
  obtain k seg xs where s: "(k, seg) \<in> set (obj_segmentMap ob')" "os_offset seg \<le> x" "x \<le> k"
      "seg_bytes w' seg = Some xs" "b = xs ! (x - os_offset seg)"
    by (rule view_byte_SomeD [OF D(2) v])
  have new: "(k, seg) \<notin> set (obj_segmentMap ob)"
  proof
    assume in_ob: "(k, seg) \<in> set (obj_segmentMap ob)"
    with view_byte_eq [OF ok in_ob s(2,3), of xs] kept [OF in_ob] s(4) none show False by simp
  qed
  note b = D(7) [OF s(1) new]
  obtain i ys where n: "os_memory seg = Some i" "shared_bytes w' i = Some ys"
      "\<forall>x. os_offset seg \<le> x \<and> x \<le> k \<and> P x \<longrightarrow> ys ! (x - os_offset seg) = stored x"
    using D(8) [OF s(1) new] unfolding new_seg_def by blast
  have "ys = xs" using n(1,2) s(4) by (simp add: seg_bytes_def)
  with n(3) s b show "lo \<le> x \<and> x < hi \<and> (P x \<longrightarrow> b = stored x)" by auto
qed

lemma descr_of_seg:
  assumes "world_ok mb R X w" "seg_ok w k seg" "getSegmentDescr seg w = Inr d"
  shows "osd_offset d = os_offset seg" "osd_offset d + osd_size d = Suc k" "osd_offset d \<le> k" "Suc k < W64"
    "\<exists>blk xs. osd_ptr d = Ptr blk 0 \<and> w_blocks w blk = Some xs \<and> osd_size d = length xs \<and> seg_bytes w seg = Some xs"
proof -
  obtain i osm c blk xs where s: "os_memory seg = Some i" "w_shared w i = Some (osm, c)"
    "osm_buffer osm = Ptr blk 0" "w_blocks w blk = Some xs" "osm_size osm = length xs"
    "seg_bytes w seg = Some xs" "xs \<noteq> []" "os_offset seg + length xs = Suc k" "Suc k < W64"
    by (rule seg_entry [OF assms(1,2)])
  have "d = \<lparr>osd_ptr = Ptr blk 0, osd_offset = os_offset seg, osd_size = length xs\<rparr>"
    using assms(3) s by (simp add: getSegmentDescr_def seg_memory_def)
  moreover have "os_offset seg \<le> k" using s(7,8) by (cases xs) auto
  ultimately show "osd_offset d = os_offset seg" "osd_offset d + osd_size d = Suc k" "osd_offset d \<le> k" "Suc k < W64"
    "\<exists>blk xs. osd_ptr d = Ptr blk 0 \<and> w_blocks w blk = Some xs \<and> osd_size d = length xs \<and> seg_bytes w seg = Some xs"
    using s by auto
qed

lemma seg_descr_exists:
  "world_ok mb R X w \<Longrightarrow> seg_ok w k seg \<Longrightarrow> \<exists>d. getSegmentDescr seg w = Inr d"
  by (erule (1) seg_entry) (simp add: getSegmentDescr_def seg_memory_def)

text \<open>Consecutive segments of a map leave free gaps between them.\<close>

lemma hits_gaps:
  assumes ok: "world_ok mb R X w" and mok: "map_ok w m"
    and "m = pre @ hit @ rest" "\<And>k seg. (k, seg) \<in> set pre \<Longrightarrow> k < l" "\<And>k seg. (k, seg) \<in> set hit \<Longrightarrow> l \<le> k"
    and "list_all2 (\<lambda>e d. getSegmentDescr (snd e) w = Inr d) hit ds"
  shows "gaps_ok m l ds \<and> (\<forall>k seg. (k, seg) \<in> set (pre @ hit) \<longrightarrow> k < last_end l ds) \<and>
    (ds \<noteq> [] \<longrightarrow> last_end l ds = Suc (fst (last hit)))"
  using assms(3-)
proof (induction hit arbitrary: pre l ds)
  case (Cons e hit)
  obtain k seg where e: "e = (k, seg)" by force
  obtain d ds' where ds: "ds = d # ds'" "getSegmentDescr seg w = Inr d"
      "list_all2 (\<lambda>e d. getSegmentDescr (snd e) w = Inr d) hit ds'"
    using Cons.prems(4) e by (cases ds) auto
  note D = map_okD [OF mok]
  have m: "(k, seg) \<in> set m" using Cons.prems(1) e by simp
  note ds2 = descr_of_seg [OF ok D(2) [OF m] ds(2)]
  have later: "k < k'" if "(k', s') \<in> set (hit @ rest)" for k' s'
    using D(1) Cons.prems(1) e that by (fastforce simp: sm_ok_append)
  have before: "k' < k" if "(k', s') \<in> set pre" for k' s'
    using D(1) Cons.prems(1) e that by (fastforce simp: sm_ok_append)
  have "gap_free m l (os_offset seg)"
    unfolding gap_free_def
  proof (intro allI impI)
    fix k' s'
    assume k': "(k', s') \<in> set m"
    then consider "(k', s') \<in> set pre" | "(k', s') = (k, seg)" | "(k', s') \<in> set (hit @ rest)"
      using Cons.prems(1) e by auto
    then show "k' < l \<or> os_offset seg \<le> os_offset s'"
    proof cases
      case 3
      from D(3) [OF m k' later [OF 3]] show ?thesis using ds2(1,3) by simp
    qed (use Cons.prems(2) in auto)
  qed
  moreover have "l < Suc k" using Cons.prems(3) [of k seg] e by simp
  moreover have "gaps_ok m (Suc k) ds' \<and> (\<forall>k' s'. (k', s') \<in> set ((pre @ [(k, seg)]) @ hit) \<longrightarrow> k' < last_end (Suc k) ds') \<and>
    (ds' \<noteq> [] \<longrightarrow> last_end (Suc k) ds' = Suc (fst (last hit)))"
  proof (rule Cons.IH)
    show "m = (pre @ [(k, seg)]) @ hit @ rest" using Cons.prems(1) e by simp
    show "k' < Suc k" if "(k', s') \<in> set (pre @ [(k, seg)])" for k' s'
      using that before [of k' s'] by auto
    show "Suc k \<le> k'" if "(k', s') \<in> set hit" for k' s'
      using later [of k' s'] that by (simp add: Suc_le_eq)
  qed (rule ds(3))
  ultimately show ?case
    using ds(1) ds2 e ds(3) by (cases ds') (auto simp: list_all2_Cons2)
qed simp

definition in_range :: "size_t \<Rightarrow> size_t \<Rightarrow> (size_t \<times> ObjectSegment) set \<Rightarrow> (size_t \<times> ObjectSegment) set" where
  "in_range base n M = {e \<in> M. os_offset (snd e) < base + n \<and> base \<le> fst e}"

lemma map_ok_same_offset:
  assumes "map_ok w m" "(k, s) \<in> set m" "(k', s') \<in> set m" "os_offset s = os_offset s'"
  shows "k = k' \<and> s = s'"
proof -
  note D = map_okD [OF assms(1)]
  have "os_offset s \<le> k" "os_offset s' \<le> k'" using D(2) [OF assms(2)] D(2) [OF assms(3)] by (auto elim: seg_okE)
  with D(3) [OF assms(2,3)] D(3) [OF assms(3,2)] assms(4) have "k = k'"
    by (metis linorder_less_linear not_le)
  with assms(2,3) sm_find_in [OF D(1)] show ?thesis by auto
qed

text \<open>The effect of \<open>getBuffers\<close> on the state, whether it succeeds or not.\<close>

definition access_post ::
  "frame \<Rightarrow> nat \<Rightarrow> (nat \<Rightarrow> nat) \<Rightarrow> (nat \<Rightarrow> bool) \<Rightarrow> (nat \<Rightarrow> byte) \<Rightarrow> size_t \<Rightarrow> size_t \<Rightarrow> object \<Rightarrow> 's world \<Rightarrow> object \<Rightarrow> 's world \<Rightarrow> bool" where
  "access_post X mb E P stored base n ob w ob' w' \<longleftrightarrow>
     (let m = obj_segmentMap ob; m' = obj_segmentMap ob' in
      world_ok mb (\<lambda>i. map_refs m' i + E i) X w' \<and> map_ok w' m' \<and> ob' = ob\<lparr>obj_segmentMap := m'\<rparr> \<and>
      data_kept {i. 0 < E i} w w' \<and> (grid_ok ob \<longrightarrow> grid_ok ob') \<and>
      (\<forall>x b. view_byte w m x = Some b \<longrightarrow> view_byte w' m' x = Some b) \<and>
      (\<forall>x b. view_byte w m x = None \<longrightarrow> view_byte w' m' x = Some b \<longrightarrow>
         base \<le> x \<and> x < base + n \<and> (P x \<longrightarrow> b = stored x)))"

text \<open>What a successful \<open>getBuffers\<close> returns.\<close>

definition buffers_post ::
  "(nat \<Rightarrow> nat) \<Rightarrow> ObjectAccessMode \<Rightarrow> size_t \<Rightarrow> size_t \<Rightarrow> object \<Rightarrow> 's world \<Rightarrow> ObjectSegmentDescr list \<Rightarrow> bool" where
  "buffers_post R mode base n ob w segs \<longleftrightarrow>
     sorted_wrt (<) (map osd_offset segs) \<and>
     set segs = descr_set w (in_range base n (set (obj_segmentMap ob))) \<and>
     (\<forall>x. base \<le> x \<and> x < base + n \<longrightarrow> covered_by segs x) \<and>
     (mode = ACCESS_WRITE \<longrightarrow> (\<forall>k seg. (k, seg) \<in> in_range base n (set (obj_segmentMap ob)) \<longrightarrow>
        (\<exists>i. os_memory seg = Some i \<and> R i = 1)))"

lemma list_all2_descr_set:
  assumes "list_all2 (\<lambda>e d. getSegmentDescr (snd e) w = Inr d) hit ds"
  shows "set ds = descr_set w (set hit)"
  using assms
proof (induction rule: list_all2_induct)
  case (Cons e hit d ds)
  then have "descr_set w {e} = {d}" by (cases e) (auto simp: descr_set_def)
  then show ?case using Cons.IH descr_set_Un [of w "{e}" "set hit"] by simp
qed (simp add: descr_set_def)

lemma list_all2_in: "list_all2 Q xs ys \<Longrightarrow> x \<in> set xs \<Longrightarrow> \<exists>y \<in> set ys. Q x y"
  by (induction rule: list_all2_induct) auto

lemma map_offsets:
  "list_all2 (\<lambda>e d. getSegmentDescr (snd e) w = Inr d) hit ds \<Longrightarrow>
   map osd_offset ds = map (\<lambda>e. os_offset (snd e)) hit"
  by (induction rule: list_all2_induct) (auto simp: getSegmentDescr_def elim!: bindE_InrE)

text \<open>The state after the first loop.\<close>

lemma collect_state:
  fixes ob :: object and w :: "'s world"
  assumes ok: "world_ok mb (\<lambda>i. map_refs (obj_segmentMap ob) i + E i) X w" and mok: "map_ok w (obj_segmentMap ob)"
    and n: "base + n < W64"
    and col: "collect_segments fi mode base n (sm_lower_bound base (obj_segmentMap ob)) w = Inr (it', ds, w1)"
    and ob1: "ob1 = ob\<lparr>obj_segmentMap := takeWhile (\<lambda>(k, _). k < base) (obj_segmentMap ob) @ it'\<rparr>"
  shows "world_ok mb (\<lambda>i. map_refs (obj_segmentMap ob1) i + E i) X w1"
    "map_view w1 (obj_segmentMap ob1) = map_view w (obj_segmentMap ob)"
    "data_kept {i. 0 < E i} w w1" "w_storage w1 = w_storage w"
    "\<exists>hit. set hit = in_range base n (set (obj_segmentMap ob1)) \<and> distinct (map osd_offset ds) \<and>
      list_all2 (descr_ok w1 (\<lambda>i. map_refs (obj_segmentMap ob1) i + E i) mode base n) hit ds \<and>
      gaps_ok (obj_segmentMap ob1) base ds \<and>
      (\<forall>k seg. (k, seg) \<in> set (obj_segmentMap ob1) \<longrightarrow> k < last_end base ds \<or> base + n \<le> os_offset seg) \<and>
      (\<forall>e \<in> set hit. fst e < last_end base ds) \<and> (ds \<noteq> [] \<longrightarrow> last_end base ds = Suc (fst (last hit)) \<and> hit \<noteq> [])"
proof -
  let ?m = "obj_segmentMap ob" and ?pre = "takeWhile (\<lambda>(k, _). k < base) (obj_segmentMap ob)"
  let ?it = "sm_lower_bound base ?m" and ?m1 = "obj_segmentMap ob1"
  have m: "?m = ?pre @ ?it" by (simp add: sm_lower_bound_def)
  have m1: "?m1 = ?pre @ it'" by (simp add: ob1)
  let ?E = "\<lambda>i. map_refs ?pre i + E i"
  have refs: "(\<lambda>i. map_refs ?m i + E i) = (\<lambda>i. map_refs ?it i + ?E i)"
    by (subst m) (simp add: fun_eq_iff)
  have sok: "seg_ok w k seg" if "(k, seg) \<in> set ?it" for k seg
    using that map_okD(2) [OF mok, of k seg] set_lower_bound [OF map_okD(1) [OF mok], of base] by simp
  have post: "collect_post X mb ?E mode base n ?it w it' ds w1"
    by (rule collect_effect [OF ok [unfolded refs] sok n col])
  have "(\<lambda>i. map_refs ?m1 i + E i) = (\<lambda>i. map_refs it' i + ?E i)" by (simp add: m1 fun_eq_iff)
  then show w1: "world_ok mb (\<lambda>i. map_refs ?m1 i + E i) X w1" using post by (simp add: collect_post_def)
  have kept: "data_kept {i. 0 < ?E i} w w1" using post by (simp add: collect_post_def del: add_gr_0)
  then show "data_kept {i. 0 < E i} w w1" by (rule data_kept_mono) auto
  have "map_view w1 ?pre = map_view w ?pre"
    by (rule kept_view, rule data_kept_mono [OF kept]) auto
  moreover have it': "map_view w1 it' = map_view w ?it" using post by (simp add: collect_post_def)
  ultimately show view: "map_view w1 ?m1 = map_view w ?m"
    by (subst m) (simp add: m1)
  show "w_storage w1 = w_storage w" using post by (simp add: collect_post_def)
  have mok1: "map_ok w1 ?m1" by (rule map_ok_view [OF view mok])
  note D = map_okD [OF mok1]
  obtain hit rest where hr: "it' = hit @ rest"
      "list_all2 (descr_ok w1 (\<lambda>i. map_refs it' i + ?E i) mode base n) hit ds"
      "rest \<noteq> [] \<longrightarrow> \<not> (os_offset (snd (hd rest)) < base + n \<and> base \<le> fst (hd rest))"
    using post unfolding collect_post_def by blast
  have dok: "list_all2 (descr_ok w1 (\<lambda>i. map_refs ?m1 i + E i) mode base n) hit ds"
    using hr(2) by (simp add: m1 add.assoc add.left_commute)
  then have dd: "list_all2 (\<lambda>e d. getSegmentDescr (snd e) w1 = Inr d) hit ds"
    by (rule list_all2_mono) (simp add: descr_ok_def)
  have keys: "base \<le> k" if "(k, seg) \<in> set it'" for k seg
  proof -
    have "map fst it' = map fst ?it"
      using arg_cong [OF it', of "map fst"] by (simp add: map_view_def comp_def case_prod_unfold)
    then have "k \<in> fst ` set ?it" using that by (metis fst_conv image_eqI list.set_map)
    then show ?thesis using set_lower_bound [OF map_okD(1) [OF mok]] by auto
  qed
  have pre: "k < base" if "(k, seg) \<in> set ?pre" for k seg using set_takeWhileD [OF that] by simp
  have far: "base + n \<le> os_offset seg" if r: "(k, seg) \<in> set rest" for k seg
  proof -
    obtain k0 s0 rest' where r0: "rest = (k0, s0) # rest'" using r by (cases rest) auto
    have "base \<le> k0" using keys [of k0 s0] hr(1) r0 by simp
    then have s0: "base + n \<le> os_offset s0" using hr(3) r0 by simp
    show ?thesis
    proof (cases "(k, seg) = (k0, s0)")
      case False
      have in1: "(k, seg) \<in> set ?m1" "(k0, s0) \<in> set ?m1" using r r0 by (auto simp: m1 hr(1))
      have "k0 < k" using D(1) r r0 False by (fastforce simp: m1 hr(1) sm_ok_append)
      with D(3) [OF in1(2,1)] have "k0 < os_offset seg" by simp
      moreover have "os_offset s0 \<le> k0" using D(2) [OF in1(2)] by (auto elim: seg_okE)
      ultimately show ?thesis using s0 by simp
    qed (use s0 in simp)
  qed
  have m3: "?m1 = ?pre @ hit @ rest" by (simp add: m1 hr(1))
  have "base \<le> k" if "(k, seg) \<in> set hit" for k seg using keys [of k seg] that by (simp add: hr(1))
  note H = hits_gaps [OF w1 mok1 m3 pre this dd]
  have hit: "set hit = in_range base n (set ?m1)"
  proof (rule set_eqI, rule iffI)
    fix e assume "e \<in> set hit"
    moreover from this obtain d where "descr_ok w1 (\<lambda>i. map_refs ?m1 i + E i) mode base n e d"
      using list_all2_in [OF dok] by blast
    ultimately show "e \<in> in_range base n (set ?m1)" by (auto simp: in_range_def descr_ok_def m3)
  next
    fix e assume e: "e \<in> in_range base n (set ?m1)"
    then have "e \<notin> set ?pre" "e \<notin> set rest"
      using pre [of "fst e" "snd e"] far [of "fst e" "snd e"] by (auto simp: in_range_def)
    with e show "e \<in> set hit" by (auto simp: in_range_def m3)
  qed
  have "distinct (map (\<lambda>e. os_offset (snd e)) hit)"
  proof -
    have "distinct hit" using sm_ok_distinct [OF D(1)] by (auto simp: m3 distinct_map)
    moreover have "inj_on (\<lambda>e. os_offset (snd e)) (set hit)"
      using map_ok_same_offset [OF mok1] hit by (auto simp: inj_on_def in_range_def)
    ultimately show ?thesis by (simp add: distinct_map)
  qed
  moreover have "map osd_offset ds = map (\<lambda>e. os_offset (snd e)) hit"
    by (rule map_offsets [OF dd])
  ultimately have dist: "distinct (map osd_offset ds)" by simp
  have cover: "k < last_end base ds \<or> base + n \<le> os_offset seg" if "(k, seg) \<in> set ?m1" for k seg
    using that H far by (auto simp: m3)
  have "hit \<noteq> []" if "ds \<noteq> []" using dd that by auto
  then show "\<exists>hit. set hit = in_range base n (set ?m1) \<and> distinct (map osd_offset ds) \<and>
      list_all2 (descr_ok w1 (\<lambda>i. map_refs ?m1 i + E i) mode base n) hit ds \<and> gaps_ok ?m1 base ds \<and>
      (\<forall>k seg. (k, seg) \<in> set ?m1 \<longrightarrow> k < last_end base ds \<or> base + n \<le> os_offset seg) \<and>
      (\<forall>e \<in> set hit. fst e < last_end base ds) \<and> (ds \<noteq> [] \<longrightarrow> last_end base ds = Suc (fst (last hit)) \<and> hit \<noteq> [])"
    using H hit dist dok cover by (intro exI [of _ hit]) auto
qed

lemma ext_tighten:
  assumes "ext_post X mb E P stored lo hi ob w ob' w'"
    and "\<And>k seg. (k, seg) \<in> set (obj_segmentMap ob') \<Longrightarrow> (k, seg) \<notin> set (obj_segmentMap ob) \<Longrightarrow> k < hi'"
  shows "ext_post X mb E P stored lo hi' ob w ob' w'"
proof (rule ext_postI)
  note D = ext_postD [OF assms(1)]
  show "lo \<le> os_offset seg \<and> k < hi' \<and> new_seg (\<lambda>i. map_refs (obj_segmentMap ob') i + E i) P stored w' k seg"
    if "(k, seg) \<in> set (obj_segmentMap ob')" "(k, seg) \<notin> set (obj_segmentMap ob)" for k seg
    using D(7,8) [OF that] assms(2) [OF that] by simp
  show "map_refs (obj_segmentMap ob') i = map_refs (obj_segmentMap ob) i"
    if "0 < map_refs (obj_segmentMap ob) i + E i" for i by (rule D(5) [OF that])
qed (rule ext_postD [OF assms(1)])+

text \<open>The new segments of the second loop end before the last segment found by the first.\<close>

lemma fill_new_below:
  assumes ext: "ext_post X mb E P stored base (last_end base ds) ob1 w1 ob2 w2"
    and hit: "set hit = in_range base n (set (obj_segmentMap ob1))"
    and le: "ds \<noteq> [] \<longrightarrow> last_end base ds = Suc (fst (last hit)) \<and> hit \<noteq> []"
    and new: "(k, seg) \<in> set (obj_segmentMap ob2)" "(k, seg) \<notin> set (obj_segmentMap ob1)"
  shows "k < base + n"
proof (rule ccontr)
  assume far: "\<not> k < base + n"
  note D = ext_postD [OF ext]
  note M = map_okD [OF D(2)]
  have off: "os_offset seg \<le> k" using M(2) [OF new(1)] by (auto elim: seg_okE)
  have b: "base \<le> os_offset seg" "k < last_end base ds" using D(7) [OF new] by auto
  then have "ds \<noteq> []" using off by auto
  obtain kh sh where h: "last hit = (kh, sh)" by force
  have "(kh, sh) \<in> set hit" using h le \<open>ds \<noteq> []\<close> last_in_set [of hit] by simp
  then have h2: "(kh, sh) \<in> set (obj_segmentMap ob1)" "os_offset sh < base + n"
    unfolding hit by (auto simp: in_range_def)
  then have h3: "(kh, sh) \<in> set (obj_segmentMap ob2)" using D(6) by blast
  have "k \<le> kh" using b(2) le \<open>ds \<noteq> []\<close> h by simp
  moreover have "k \<noteq> kh" using new h2(1) h3 sm_find_in [OF M(1)] by auto
  ultimately have "k < os_offset sh" using M(3) [OF new(1) h3] by simp
  with far h2(2) show False by simp
qed

lemma grid_ok_view:
  assumes view: "map_view w1 (obj_segmentMap ob1) = map_view w (obj_segmentMap ob)"
    and al: "obj_alignement ob1 = obj_alignement ob" and ok: "grid_ok ob"
  shows "grid_ok ob1"
  unfolding grid_ok_def
proof (intro allI impI)
  fix k seg
  assume "(k, seg) \<in> set (obj_segmentMap ob1)"
  then have "(k, os_offset seg, seg_bytes w1 seg, os_dirty seg) \<in> set (map_view w1 (obj_segmentMap ob1))"
    by (force simp: map_view_def)
  then obtain seg0 where "(k, seg0) \<in> set (obj_segmentMap ob)" "os_offset seg0 = os_offset seg"
    unfolding view by (auto simp: map_view_def)
  then show "on_grid (obj_alignement ob1) (os_offset seg) \<and> on_grid (obj_alignement ob1) (Suc k)"
    using ok al unfolding grid_ok_def by metis
qed

lemma access_from_ext:
  assumes view: "map_view w1 (obj_segmentMap ob1) = map_view w (obj_segmentMap ob)"
    and mok: "map_ok w (obj_segmentMap ob)" and kept: "data_kept {i. 0 < E i} w w1"
    and ob1: "ob1 = ob\<lparr>obj_segmentMap := m1\<rparr>"
    and ext: "ext_post X mb E P stored base (base + n) ob1 w1 ob' w'"
  shows "access_post X mb E P stored base n ob w ob' w'"
proof -
  note D = ext_postD [OF ext]
  have mok1: "map_ok w1 (obj_segmentMap ob1)" by (rule map_ok_view [OF view mok])
  have vb: "view_byte w1 (obj_segmentMap ob1) = view_byte w (obj_segmentMap ob)" by (rule view_byte_view [OF view])
  have "data_kept {i. 0 < E i} w1 w'" by (rule data_kept_mono [OF D(4)]) auto
  with kept have "data_kept {i. 0 < E i} w w'" by (rule data_kept_trans)
  moreover have "ob' = ob\<lparr>obj_segmentMap := obj_segmentMap ob'\<rparr>"
    using D(3) ob1 by (metis object.surjective object.update_convs(2))
  moreover have "grid_ok ob'" if "grid_ok ob"
    by (rule D(9), rule grid_ok_view [OF view _ that]) (simp add: ob1)
  ultimately show ?thesis
    using D(1,2) ext_view [OF ext mok1] unfolding access_post_def Let_def vb by blast
qed

lemma descr_set_offset:
  assumes "d \<in> descr_set w M" "world_ok mb R X w" "\<And>k seg. (k, seg) \<in> M \<Longrightarrow> seg_ok w k seg"
  obtains k seg where "(k, seg) \<in> M" "osd_offset d = os_offset seg" "os_offset seg \<le> k"
    "osd_offset d + osd_size d = Suc k" "getSegmentDescr seg w = Inr d"
  using assms descr_of_seg(1-3) [OF assms(2)] unfolding descr_set_def by fastforce

lemma buffers_from:
  assumes w1: "world_ok mb (\<lambda>i. map_refs (obj_segmentMap ob1) i + E i) X w1"
    and ext: "ext_post X mb E P stored base (base + n) ob1 w1 ob' w'"
    and hit: "set hit = in_range base n (set (obj_segmentMap ob1))" "distinct (map osd_offset ds)"
    and dok: "list_all2 (descr_ok w1 (\<lambda>i. map_refs (obj_segmentMap ob1) i + E i) mode base n) hit ds"
    and nw: "set nw = descr_set w' (set (obj_segmentMap ob') - set (obj_segmentMap ob1))" "distinct (map osd_offset nw)"
    and cov: "\<And>x. base \<le> x \<Longrightarrow> x < base + n \<Longrightarrow> covered_by ds x \<or> covered_by nw x"
  shows "buffers_post (\<lambda>i. map_refs (obj_segmentMap ob') i + E i) mode base n ob' w' (sort_key osd_offset (ds @ nw))"
proof -
  let ?m1 = "obj_segmentMap ob1" and ?m' = "obj_segmentMap ob'"
  let ?R1 = "\<lambda>i. map_refs ?m1 i + E i" and ?R' = "\<lambda>i. map_refs ?m' i + E i"
  note D = ext_postD [OF ext]
  note M = map_okD [OF D(2)]
  have dd: "list_all2 (\<lambda>e d. getSegmentDescr (snd e) w1 = Inr d) hit ds"
    using dok by (rule list_all2_mono) (simp add: descr_ok_def)
  have refs_hit: "\<exists>i. os_memory seg = Some i \<and> 0 < ?R1 i" if h: "(k, seg) \<in> set hit" for k seg
  proof -
    obtain d where "getSegmentDescr seg w1 = Inr d" using list_all2_in [OF dd h] by auto
    then obtain i where i: "os_memory seg = Some i"
      by (cases "os_memory seg") (auto simp: getSegmentDescr_def seg_memory_def)
    have "(k, seg) \<in> set ?m1" using h hit(1) by (auto simp: in_range_def)
    from map_refs_pos [OF this i] i show ?thesis by simp
  qed
  have ds: "set ds = descr_set w' (set hit)"
    using list_all2_descr_set [OF dd] descr_set_kept [OF D(4) refs_hit] by simp
  have rng: "in_range base n (set ?m') = set hit \<union> (set ?m' - set ?m1)"
  proof -
    have "(k, seg) \<in> in_range base n (set ?m')" if "(k, seg) \<in> set ?m' - set ?m1" for k seg
      using that D(7) [of k seg] M(2) [of k seg] by (auto simp: in_range_def elim: seg_okE)
    moreover have "in_range base n (set ?m1) \<subseteq> in_range base n (set ?m')"
      using D(6) by (auto simp: in_range_def)
    ultimately show ?thesis using hit(1) by (auto simp: in_range_def)
  qed
  have set: "set (ds @ nw) = descr_set w' (in_range base n (set ?m'))"
    unfolding rng descr_set_Un using ds nw(1) by simp
  have disj: "osd_offset d \<noteq> osd_offset d'" if dn: "d \<in> set ds" "d' \<in> set nw" for d d'
  proof
    assume eq: "osd_offset d = osd_offset d'"
    have okM: "seg_ok w' k seg" if "(k, seg) \<in> set ?m'" for k seg by (rule M(2) [OF that])
    have hm: "set hit \<subseteq> set ?m1" using hit(1) by (auto simp: in_range_def)
    have "seg_ok w' k s" if "(k, s) \<in> set hit" for k s using okM [of k s] that hm D(6) by blast
    then obtain k s where 1: "(k, s) \<in> set hit" "osd_offset d = os_offset s"
      by (rule descr_set_offset [OF dn(1) [unfolded ds] D(1)])
    have "seg_ok w' k s" if "(k, s) \<in> set ?m' - set ?m1" for k s using okM [of k s] that by blast
    then obtain k' s' where 2: "(k', s') \<in> set ?m' - set ?m1" "osd_offset d' = os_offset s'"
      by (rule descr_set_offset [OF dn(2) [unfolded nw(1)] D(1)])
    have "(k, s) \<in> set ?m'" using 1(1) hm D(6) by blast
    moreover have "(k', s') \<in> set ?m'" "os_offset s = os_offset s'" using 1(2) 2 eq by auto
    ultimately have "k = k' \<and> s = s'" by (rule map_ok_same_offset [OF D(2)])
    moreover have "(k, s) \<in> set ?m1" using 1(1) hm by blast
    ultimately show False using 2(1) by simp
  qed
  have "distinct (map osd_offset (ds @ nw))"
    using hit(2) nw(2) disj by auto
  then have "distinct (map osd_offset (sort_key osd_offset (ds @ nw)))"
    by (metis distinct_map distinct_sort set_sort)
  moreover have "sorted (map osd_offset (sort_key osd_offset (ds @ nw)))" by simp
  ultimately have sorted: "sorted_wrt (<) (map osd_offset (sort_key osd_offset (ds @ nw)))"
    by (simp only: strict_sorted_iff)
  have uniq: "\<exists>i. os_memory seg = Some i \<and> ?R' i = 1"
    if wr: "mode = ACCESS_WRITE" and r: "(k, seg) \<in> in_range base n (set ?m')" for k seg
  proof (cases "(k, seg) \<in> set hit")
    case True
    then obtain d where "descr_ok w1 ?R1 mode base n (k, seg) d" using list_all2_in [OF dok] by blast
    then obtain i where i: "os_memory seg = Some i" "?R1 i = 1" using wr by (auto simp: descr_ok_def)
    then show ?thesis using D(5) [of i] by simp
  next
    case False
    then have "(k, seg) \<in> set ?m'" "(k, seg) \<notin> set ?m1" using r rng by auto
    from D(8) [OF this] show ?thesis unfolding new_seg_def by blast
  qed
  have "covered_by (sort_key osd_offset (ds @ nw)) x" if "base \<le> x" "x < base + n" for x
    using cov [OF that] by (auto simp: covered_by_def)
  then show ?thesis using sorted set uniq unfolding buffers_post_def by simp
qed

lemma list_all2_in2: "list_all2 Q xs ys \<Longrightarrow> y \<in> set ys \<Longrightarrow> \<exists>x \<in> set xs. Q x y"
  by (induction rule: list_all2_induct) auto

lemma last_end_grid:
  "on_grid al l \<Longrightarrow> (\<And>d. d \<in> set ds \<Longrightarrow> on_grid al (osd_offset d + osd_size d)) \<Longrightarrow> on_grid al (last_end l ds)"
  by (induction ds arbitrary: l) auto

text \<open>The aligned range contains the request and ends less than one alignement after it.\<close>

lemma align_range_spec:
  assumes al: "align_range a origBase origSize = (base, n)" and bound: "origBase + origSize + a < W64"
  shows "base \<le> origBase" "origBase + origSize \<le> base + n" "on_grid a base" "on_grid a (base + n)"
    "a = 0 \<Longrightarrow> base = origBase \<and> n = origSize"
    "0 < a \<Longrightarrow> origBase < base + a \<and> base + n < origBase + origSize + a"
    "base + n < W64"
proof -
  show zero: "base = origBase \<and> n = origSize" if "a = 0" using al that by (simp add: align_range_def)
  let ?r = "origBase mod a" and ?n = "origSize + origBase mod a"
  have pos: "base = origBase - ?r \<and> n = (if ?n mod a > 0 then ?n + (a - ?n mod a) else ?n)" if "0 < a"
  proof -
    have r: "?r < a" "?r \<le> origBase" using that by auto
    then have 1: "add64 origSize ?r = ?n" using bound by (intro add64_small) linarith
    have "?n mod a < a" using that by simp
    moreover have "?n + a < W64 + ?r" using bound by simp
    ultimately have "?n mod a > 0 \<Longrightarrow> ?n + (a - ?n mod a) < W64" using bound r by linarith
    then show ?thesis using al that 1 by (auto simp: align_range_def Let_def)
  qed
  have b: "base + ?r = origBase" if "0 < a" using pos [OF that] by simp
  have base: "base \<le> origBase \<and> on_grid a base \<and> (0 < a \<longrightarrow> origBase < base + a)"
  proof (cases "0 < a")
    case True
    then have "?r < a" by simp
    with b [OF True] have "base \<le> origBase" "origBase < base + a" by linarith+
    with pos [OF True] show ?thesis by (simp add: on_grid_def dvd_minus_mod)
  qed (use zero in \<open>simp add: on_grid_def\<close>)
  then show "base \<le> origBase" "on_grid a base" by auto
  have n: "a dvd n \<and> ?n \<le> n \<and> n < ?n + a" if "0 < a"
  proof -
    have m: "?n mod a < a" using that by simp
    have "a dvd n" using pos [OF that] mod_round_up [OF that, of ?n] by (auto simp del: mod_add_right_eq)
    moreover have "0 < ?n mod a \<and> n = ?n + (a - ?n mod a) \<or> n = ?n" using pos [OF that] by metis
    then have "?n \<le> n" "n < ?n + a" using m that by linarith+
    ultimately show ?thesis by simp
  qed
  show "origBase + origSize \<le> base + n"
    using n b zero by (cases "0 < a") auto
  show "on_grid a (base + n)"
    using n base by (cases "a = 0") (auto simp: on_grid_def)
  show "0 < a \<Longrightarrow> origBase < base + a \<and> base + n < origBase + origSize + a"
    using n b base by auto
  then show "base + n < W64" using bound zero by (cases "0 < a") auto
qed

text \<open>The descriptors after the last load: those of the second loop and the new one.\<close>

lemma last_gap_descrs:
  assumes w2: "world_ok mb (\<lambda>i. map_refs (obj_segmentMap ob2) i + E i) X w2" and m2: "map_ok w2 (obj_segmentMap ob2)"
    and tmp: "set tmp = descr_set w2 (set (obj_segmentMap ob2) - set (obj_segmentMap ob1))" "distinct (map osd_offset tmp)"
    and sub: "set (obj_segmentMap ob1) \<subseteq> set (obj_segmentMap ob2)"
    and ext: "ext_post X mb E P stored lst hi ob2 w2 ob3 w3"
    and below: "\<And>k seg. (k, seg) \<in> set (obj_segmentMap ob2) - set (obj_segmentMap ob1) \<Longrightarrow> k < lst"
    and new: "\<exists>seg. (lst + g - 1, seg) \<in> set (obj_segmentMap ob3) \<and> os_offset seg = lst \<and>
       set (obj_segmentMap ob3) - set (obj_segmentMap ob2) = {(lst + g - 1, seg)} \<and>
       getSegmentDescr seg w3 = Inr d \<and> osd_offset d = lst \<and> osd_size d = g"
  shows "set (tmp @ [d]) = descr_set w3 (set (obj_segmentMap ob3) - set (obj_segmentMap ob1))"
    "distinct (map osd_offset (tmp @ [d]))" "osd_offset d = lst \<and> osd_size d = g"
proof -
  let ?m1 = "set (obj_segmentMap ob1)" and ?m2 = "set (obj_segmentMap ob2)" and ?m3 = "set (obj_segmentMap ob3)"
  note D = ext_postD [OF ext]
  obtain seg where seg: "?m3 - ?m2 = {(lst + g - 1, seg)}" "getSegmentDescr seg w3 = Inr d" "osd_offset d = lst" "osd_size d = g"
    using new by blast
  have refs: "\<exists>i. os_memory s = Some i \<and> 0 < map_refs (obj_segmentMap ob2) i + E i" if "(k, s) \<in> ?m2 - ?m1" for k s
  proof -
    have "seg_ok w2 k s" using map_okD(2) [OF m2] that by blast
    then obtain i where i: "os_memory s = Some i" by (auto elim: seg_okE)
    have "(k, s) \<in> ?m2" using that by simp
    from map_refs_pos [OF this i] i show ?thesis by auto
  qed
  have old: "descr_set w3 (?m2 - ?m1) = set tmp"
    unfolding tmp(1) by (rule descr_set_kept [OF D(4)]) (rule refs)
  have one: "descr_set w3 {(lst + g - 1, seg)} = {d}" using seg(2) by (auto simp: descr_set_def)
  have dec: "?m3 - ?m1 = (?m2 - ?m1) \<union> {(lst + g - 1, seg)}" using seg(1) sub D(6) by blast
  show "set (tmp @ [d]) = descr_set w3 (?m3 - ?m1)" unfolding dec descr_set_Un old one by simp
  have "osd_offset e < lst" if e: "e \<in> set tmp" for e
  proof -
    have "seg_ok w2 k s" if "(k, s) \<in> ?m2 - ?m1" for k s using map_okD(2) [OF m2] that by blast
    then obtain k s where "(k, s) \<in> ?m2 - ?m1" "osd_offset e = os_offset s" "os_offset s \<le> k"
      by (rule descr_set_offset [OF e [unfolded tmp(1)] w2])
    with below [of k s] show ?thesis by simp
  qed
  then show "distinct (map osd_offset (tmp @ [d]))" using tmp(2) seg(3) by fastforce
  show "osd_offset d = lst \<and> osd_size d = g" using seg(3,4) by simp
qed

lemma getBuffers_effect:
  fixes content :: "'s storage_content"
  assumes ok: "world_ok mb (\<lambda>i. map_refs (obj_segmentMap ob) i + E i) X w" and mok: "map_ok w (obj_segmentMap ob)"
    and mb: "obj_memoryBackend ob = mb" and so: "storage_ok so content"
    and al: "align_range (obj_alignement ob) origBase origSize = (base, n)"
    and bound: "origBase + origSize + obj_alignement ob < W64"
    and run: "getBuffers fi so origBase origSize mode load isW ob w = Inr (res, segs, ob', w')"
  shows "access_post X mb E (must_match so load isW origBase origSize ob) (content (w_storage w) (obj_key ob)) base n ob w ob' w'"
      (is ?A)
    and "content (w_storage w') = content (w_storage w)" (is ?B)
    and "if res then buffers_post (\<lambda>i. map_refs (obj_segmentMap ob') i + E i) mode base n ob' w' segs else segs = []" (is ?C)
    and "isW \<Longrightarrow> res"
proof -
  let ?P = "must_match so load isW origBase origSize ob" and ?st = "content (w_storage w) (obj_key ob)"
  let ?before = "takeWhile (\<lambda>(k, _). k < base) (obj_segmentMap ob)"
  note A = align_range_spec [OF al bound]
  have lim: "base + n < W64" "origBase + origSize < W64" using A bound by auto
  have e64: "add64 base n = base + n" using lim(1) by simp
  obtain it' ds w1 fok lst tmp ob1 ob2 w2 where
      col: "collect_segments fi mode base n (sm_lower_bound base (obj_segmentMap ob)) w = Inr (it', ds, w1)"
      and ob1: "ob1 = ob\<lparr>obj_segmentMap := ?before @ it'\<rparr>"
      and fill: "fill_gaps fi so load isW origBase origSize base ds ob1 w1 = Inr (fok, lst, tmp, ob2, w2)"
      and rest: "(if \<not> fok then Inr (False, [], ob2, w2)
        else if lst < base + n then
             bindE (loadGap fi so load isW origBase origSize lst (base + n - lst) ob2 w2) (\<lambda>(descr, ob, w).
             if osd_ptr descr = NULL then Inr (False, [], ob, w)
             else Inr (True, sort_key osd_offset ((ds @ tmp) @ [descr]), ob, w))
           else Inr (True, sort_key osd_offset (ds @ tmp), ob2, w2)) = Inr (res, segs, ob', w')"
    using run unfolding getBuffers_def al Let_def prod.case e64 by (auto elim!: bindE_InrE)
  note C = collect_state [OF ok mok lim(1) col ob1]
  obtain hit where hit: "set hit = in_range base n (set (obj_segmentMap ob1))" "distinct (map osd_offset ds)"
      "list_all2 (descr_ok w1 (\<lambda>i. map_refs (obj_segmentMap ob1) i + E i) mode base n) hit ds"
      "gaps_ok (obj_segmentMap ob1) base ds"
      "\<And>k seg. (k, seg) \<in> set (obj_segmentMap ob1) \<Longrightarrow> k < last_end base ds \<or> base + n \<le> os_offset seg"
      "ds \<noteq> [] \<longrightarrow> last_end base ds = Suc (fst (last hit)) \<and> hit \<noteq> []"
    using C(5) by blast
  have mok1: "map_ok w1 (obj_segmentMap ob1)" by (rule map_ok_view [OF C(2) mok])
  have same: "obj_memoryBackend ob1 = mb" "must_match so load isW origBase origSize ob1 = ?P"
      "obj_key ob1 = obj_key ob" "content (w_storage w1) = content (w_storage w)"
    using mb C(4) by (simp_all add: ob1 must_match_def fun_eq_iff)
  have gr: "grid_ok ob1 \<longrightarrow> on_grid (obj_alignement ob1) base \<and>
      (\<forall>d \<in> set ds. on_grid (obj_alignement ob1) (osd_offset d) \<and> on_grid (obj_alignement ob1) (osd_offset d + osd_size d))"
  proof -
    have al1: "obj_alignement ob1 = obj_alignement ob" by (simp add: ob1)
    have "on_grid (obj_alignement ob1) (osd_offset d) \<and> on_grid (obj_alignement ob1) (osd_offset d + osd_size d)"
      if g: "grid_ok ob1" and d: "d \<in> set ds" for d
    proof -
      obtain e where e: "e \<in> set hit" "getSegmentDescr (snd e) w1 = Inr d"
        using list_all2_in2 [OF hit(3) d] by (auto simp: descr_ok_def)
      have e1: "(fst e, snd e) \<in> set (obj_segmentMap ob1)" using e(1) hit(1) by (auto simp: in_range_def)
      note ds = descr_of_seg [OF C(1) map_okD(2) [OF mok1 e1] e(2)]
      show ?thesis using g e1 ds(1,2) unfolding grid_ok_def by metis
    qed
    then show ?thesis using A(3) al1 by auto
  qed
  note F = fill_gaps_effect [OF C(1) mok1 same(1) so hit(4) lim(2) gr fill, unfolded same]
  have ext2: "ext_post X mb E ?P ?st base (base + n) ob1 w1 ob2 w2"
    by (rule ext_tighten [OF F(1)], rule fill_new_below [OF F(1) hit(1,6)])
  note D2 = ext_postD [OF ext2]
  note acc = access_from_ext [OF C(2) mok C(3) ob1]
  note buf = buffers_from [OF C(1) _ hit(1-3)]
  have "?A \<and> ?B \<and> ?C \<and> (isW \<longrightarrow> res)"
  proof (cases fok)
    case False
    then have "res = False" "segs = []" "ob' = ob2" "w' = w2" "\<not> isW" using rest F(4) by auto
    then show ?thesis using acc [OF ext2] F(2) by simp
  next
    case True
    have fp: "lst = last_end base ds" "set tmp = descr_set w2 (set (obj_segmentMap ob2) - set (obj_segmentMap ob1))"
        "distinct (map osd_offset tmp)" "\<And>x. base \<le> x \<Longrightarrow> x < lst \<Longrightarrow> covered_by ds x \<or> covered_by tmp x"
      using F(3) [OF True] unfolding fill_post_def by blast+
    show ?thesis
    proof (cases "lst < base + n")
      case False
      then have r: "res = True" "segs = sort_key osd_offset (ds @ tmp)" "ob' = ob2" "w' = w2" using rest True by auto
      have "buffers_post (\<lambda>i. map_refs (obj_segmentMap ob2) i + E i) mode base n ob2 w2 (sort_key osd_offset (ds @ tmp))"
        by (rule buf [OF ext2 fp(2,3)]) (use fp(4) False in simp)
      then show ?thesis using r acc [OF ext2] F(2) by simp
    next
      case gap: True
      let ?g = "base + n - lst"
      have lg: "base \<le> lst" "0 < ?g" "lst + ?g = base + n" "lst + ?g < W64"
        using last_end_ge [OF hit(4)] fp(1) gap lim(1) by auto
      obtain d ob3 w3 where run3: "loadGap fi so load isW origBase origSize lst ?g ob2 w2 = Inr (d, ob3, w3)"
          and res: "(if osd_ptr d = NULL then Inr (False, [], ob3, w3)
            else Inr (True, sort_key osd_offset (ds @ tmp @ [d]), ob3, w3)) = (Inr (res, segs, ob', w') :: _ result)"
        using rest True gap unfolding append_assoc by (auto elim!: bindE_InrE)
      obtain M where o2: "ob2 = ob1\<lparr>obj_segmentMap := M\<rparr>" using D2(3) by blast
      have same2: "obj_memoryBackend ob2 = mb" "must_match so load isW origBase origSize ob2 = ?P"
          "obj_key ob2 = obj_key ob" "content (w_storage w2) = content (w_storage w)"
        using same F(2) by (simp_all add: o2 must_match_def fun_eq_iff)
      have free: "gap_free (obj_segmentMap ob2) lst (lst + ?g)"
      proof -
        have "k < lst \<or> base + n \<le> os_offset seg" if "(k, seg) \<in> set (obj_segmentMap ob2)" for k seg
          using hit(5) [of k seg] ext_postD(7) [OF F(1) that] fp(1)
          by (cases "(k, seg) \<in> set (obj_segmentMap ob1)") auto
        then show ?thesis unfolding gap_free_def lg(3) by blast
      qed
      have gr2: "grid_ok ob2 \<longrightarrow> on_grid (obj_alignement ob2) lst \<and> on_grid (obj_alignement ob2) (lst + ?g)"
      proof
        assume "grid_ok ob2"
        then have "grid_ok ob1" using D2(6) unfolding grid_ok_def by (auto simp: o2)
        then have "on_grid (obj_alignement ob1) lst" using gr unfolding fp(1) by (intro last_end_grid) auto
        then show "on_grid (obj_alignement ob2) lst \<and> on_grid (obj_alignement ob2) (lst + ?g)"
          using A(4) lg(3) by (simp add: o2 ob1)
      qed
      note G = loadGap_effect [OF D2(1,2) same2(1) so free lg(2,4) lim(2) gr2 run3, unfolded same2]
      have ext3: "ext_post X mb E ?P ?st base (base + n) ob1 w1 ob3 w3"
        by (rule ext_trans [OF ext2 G(1) [unfolded lg(3)]]) (use lg in auto)
      show ?thesis
      proof (cases "osd_ptr d = NULL")
        case True
        then have "res = False" "segs = []" "ob' = ob3" "w' = w3" "\<not> isW" using res G(5) by auto
        then show ?thesis using acc [OF ext3] G(2) by simp
      next
        case False
        then have r: "res = True" "segs = sort_key osd_offset (ds @ tmp @ [d])" "ob' = ob3" "w' = w3" using res by auto
        have below: "k < lst" if "(k, seg) \<in> set (obj_segmentMap ob2) - set (obj_segmentMap ob1)" for k seg
          using ext_postD(7) [OF F(1)] that fp(1) by blast
        note N = last_gap_descrs [OF D2(1,2) fp(2,3) D2(6) G(1) below G(3) [OF False]]
        have "buffers_post (\<lambda>i. map_refs (obj_segmentMap ob3) i + E i) mode base n ob3 w3 (sort_key osd_offset (ds @ tmp @ [d]))"
        proof (rule buf [OF ext3 N(1,2)])
          fix x
          assume "base \<le> x" "x < base + n"
          then show "covered_by ds x \<or> covered_by (tmp @ [d]) x"
            using fp(4) [of x] N(3) lg(3) by (cases "x < lst") (auto simp: covered_by_def)
        qed
        then show ?thesis using r acc [OF ext3] G(2) by simp
      qed
    qed
  qed
  then show ?A ?B ?C "isW \<Longrightarrow> res" by blast+
qed

section \<open>Properties\<close>

definition wit_world :: "table world" where
  "wit_world = \<lparr>w_mem = wit_mem, w_backends = [0 \<mapsto> MemoryBackendMalloc False], w_shared = (\<lambda>_. None),
     w_next = 0, w_storage = (\<lambda>k x. of_nat x)\<rparr>"

definition wit_frame :: frame where
  "wit_frame = \<lparr>fr_temp = {}, fr_data = (\<lambda>_. None), fr_msgBuffers = [], fr_msgBufferSize = 1024 * 1024\<rparr>"

lemma wit_frame_ok: "frame_ok wit_frame m \<longleftrightarrow> ld_msgBuffers (mem_domain m) = [] \<and> ld_msgBufferSize (mem_domain m) = 1024 * 1024"
  "fr_blocks wit_frame = {}"
  by (auto simp: frame_ok_def wit_frame_def fr_blocks_def)

definition wit_object :: object where
  "wit_object = Object_init True 0 (ObjectId 0 7) 0"

lemma wit_world_ok: "world_ok 0 (\<lambda>i. map_refs (obj_segmentMap wit_object) i + 0) wit_frame wit_world"
  "map_ok wit_world (obj_segmentMap wit_object)" "obj_memoryBackend wit_object = 0"
  by (auto simp: world_ok_def wit_world_def wit_object_def Object_init_def owned_blocks_def backends.in_use_def
      wit_mem_def heap_ok_def map_ok_def wit_frame_ok LibfabricDomain_init_def)

lemmas access_eval = getBuffers_def align_range_def sm_lower_bound_def loadGap_def isFullyOverlapped_def loadSegment_def
  w_allocate_def malloc_allocate_def register_if_def malloc_def sys_alloc_def Object_pread_def
  table_ops_def w_set_heap_def segmentMap_at_def ObjectSegment_make_def make_shared_def ObjectSegment_null_def
  shared_drop_def getSegmentDescr_def seg_memory_def size_t_of_def ssize_t_of_def Let_def upt_rec W64_def add64_def sub64_def

lemma wit_getBuffers: "\<exists>segs ob' w'. getBuffers wit_fabric table_ops 5 2 ACCESS_READ True False wit_object wit_world =
    Inr (True, segs, ob', w') \<and> length segs = 1 \<and> osd_offset (hd segs) = 5 \<and> osd_size (hd segs) = 2"
  by (simp add: access_eval wit_world_def wit_object_def Object_init_def wit_mem_def)

text \<open>C6: Contract of \<open>getBuffers\<close>.  On a well-formed object (disjoint segments keyed by
  their last byte, buffers owned through reference counts that match the references) every
  outcome keeps the invariants and the memory of every other object, keeps all cached bytes,
  and caches new bytes only inside the aligned range; those equal the stored bytes, except
  inside the range of a write request or when the storage cannot be read for one.  On success the descriptors
  returned are, in increasing order of offset, exactly those of the object's segments that
  meet the aligned range, they cover it without a hole, the aligned range contains the
  request, and for a write access nothing else references their memory; on failure none is
  returned.\<close>

theorem getBuffers_contract:
  fixes content :: "'s storage_content"
  assumes "world_ok mb (\<lambda>i. map_refs (obj_segmentMap ob) i + E i) X w" "map_ok w (obj_segmentMap ob)"
    and "obj_memoryBackend ob = mb" "storage_ok so content"
    and "origBase + origSize + obj_alignement ob < W64"
    and "getBuffers fi so origBase origSize mode load isW ob w = Inr (res, segs, ob', w')"
  shows "\<exists>base n. base \<le> origBase \<and> origBase + origSize \<le> base + n \<and>
    access_post X mb E (must_match so load isW origBase origSize ob) (content (w_storage w) (obj_key ob)) base n ob w ob' w' \<and>
    content (w_storage w') = content (w_storage w) \<and>
    (if res then buffers_post (\<lambda>i. map_refs (obj_segmentMap ob') i + E i) mode base n ob' w' segs else segs = [])"
proof -
  obtain base n where al: "align_range (obj_alignement ob) origBase origSize = (base, n)" by force
  show ?thesis
    using getBuffers_effect [OF assms(1-4) al assms(5,6)] align_range_spec(1,2) [OF al assms(5)] by blast
qed

theorem getBuffers_contract_witness:
  "\<exists>base n segs ob' (w' :: table world). base \<le> 5 \<and> 5 + 2 \<le> base + n \<and>
     buffers_post (\<lambda>i. map_refs (obj_segmentMap ob') i + 0) ACCESS_READ base n ob' w' segs \<and>
     map_ok w' (obj_segmentMap ob') \<and> length segs = 1"
proof -
  obtain segs ob' w' where run: "getBuffers wit_fabric table_ops 5 2 ACCESS_READ True False wit_object wit_world =
      Inr (True, segs, ob', w')" "length segs = 1"
    using wit_getBuffers by blast
  have lim: "5 + 2 + obj_alignement wit_object < W64" by (simp add: wit_object_def Object_init_def W64_def)
  obtain base n where b: "base \<le> 5" "5 + 2 \<le> base + n"
      "buffers_post (\<lambda>i. map_refs (obj_segmentMap ob') i + 0) ACCESS_READ base n ob' w' segs"
      "map_ok w' (obj_segmentMap ob')"
    using getBuffers_contract [OF wit_world_ok table_ok lim run(1)] unfolding access_post_def Let_def if_True by blast
  then show ?thesis using run(2) by blast
qed

end
