(* ===== verification/Object_Data.thy ===== *)
theory Object_Data
  imports Object_Access
begin

text \<open>
  What happens to the data of an object: writes through the descriptors \<open>getBuffers\<close> returns,
  marking and flushing of dirty segments, the full copy on write and the destruction of an
  object, with the theorems about them.
\<close>

section \<open>Writing through a descriptor\<close>

lemma world_write_entry:
  assumes ok: "world_ok mb R X w" and i: "w_shared w i = Some (osm, c)" "osm_buffer osm = Ptr blk 0"
    and wr: "write_mem (Ptr blk j) ys (mem_heap (w_mem w)) = Inr h"
  shows "world_ok mb R X (w_set_heap h w)" "data_kept (- {i}) w (w_set_heap h w)"
    "entry_of (w_set_heap h w) = entry_of w" "w_storage (w_set_heap h w) = w_storage w"
    "shared_bytes w i = Some xs \<Longrightarrow> shared_bytes (w_set_heap h w) i = Some (patch j ys xs) \<and> j + length ys \<le> length xs"
proof -
  have "blk \<in> owned_blocks w" using i by (auto simp: owned_blocks_def)
  then have "fr_data X blk = None" using world_okD(2) [OF ok] by (auto simp: fr_blocks_def)
  note W = world_write [OF ok wr this]
  show "world_ok mb R X (w_set_heap h w)" by (rule W(1))
  show ent: "entry_of (w_set_heap h w) = entry_of w" by (simp add: entry_of_def fun_eq_iff W(2))
  show "w_storage (w_set_heap h w) = w_storage w" by (rule W(4))
  show "shared_bytes (w_set_heap h w) i = Some (patch j ys xs) \<and> j + length ys \<le> length xs"
    if "shared_bytes w i = Some xs"
    using that W(2,6) i shared_bytes_entry [OF i] shared_bytes_entry [of "w_set_heap h w" i osm c blk 0] by simp
  have "shared_bytes (w_set_heap h w) l = shared_bytes w l" if "l \<noteq> i" for l
  proof (cases "w_shared w l")
    case None
    then show ?thesis using W(2) by (simp add: shared_bytes_def)
  next
    case (Some e)
    obtain osm' c' where e: "w_shared w l = Some (osm', c')" using Some by force
    obtain k where k: "osm_buffer osm' = Ptr k 0" using world_ok_entry [OF ok e] by blast
    have "k \<noteq> blk" using world_okD(5) [OF ok e i(1)] k i(2) that by auto
    then show ?thesis
      using W(2,5) e shared_bytes_entry [OF e k] shared_bytes_entry [of "w_set_heap h w" l osm' c' k 0] k by simp
  qed
  then show "data_kept (- {i}) w (w_set_heap h w)" using ent by (simp add: data_kept_def)
qed

lemma map_refs_unique:
  assumes "map_refs m i \<le> 1" "(k, s) \<in> set m" "(k', s') \<in> set m" "os_memory s = Some i" "os_memory s' = Some i"
  shows "(k, s) = (k', s')"
proof -
  let ?f = "filter (\<lambda>(k, seg). os_memory seg = Some i) m"
  have "length ?f \<le> 1" using assms(1) by (simp add: map_refs_def)
  moreover have "(k, s) \<in> set ?f" "(k', s') \<in> set ?f" using assms(2-5) by auto
  ultimately show ?thesis by (cases ?f) (auto simp: less_Suc_eq_le)
qed

lemma seg_write:
  assumes ok: "world_ok mb (\<lambda>i. map_refs m i + E i) X w" and mok: "map_ok w m"
    and s: "(k, seg) \<in> set m" "os_memory seg = Some i" "map_refs m i + E i = 1"
    and d: "getSegmentDescr seg w = Inr d"
    and wr: "write_mem (ptr_add (osd_ptr d) j) ys (mem_heap (w_mem w)) = Inr h"
  defines "w' \<equiv> w_set_heap h w"
  shows "world_ok mb (\<lambda>i. map_refs m i + E i) X w'" "map_ok w' m" "data_kept {i. 0 < E i} w w'"
    "entry_of w' = entry_of w" "w_storage w' = w_storage w" "j + length ys \<le> osd_size d"
    "view_byte w' m x = (if os_offset seg + j \<le> x \<and> x < os_offset seg + j + length ys
       then Some (ys ! (x - (os_offset seg + j))) else view_byte w m x)"
proof -
  note M = map_okD [OF mok]
  obtain i' osm c blk xs where e: "os_memory seg = Some i'" "w_shared w i' = Some (osm, c)"
    "osm_buffer osm = Ptr blk 0" "w_blocks w blk = Some xs" "osm_size osm = length xs"
    "seg_bytes w seg = Some xs" "xs \<noteq> []" "os_offset seg + length xs = Suc k" "Suc k < W64"
    by (rule seg_entry [OF ok M(2) [OF s(1)]])
  have ii: "i' = i" using e(1) s(2) by simp
  have dd: "osd_ptr d = Ptr blk 0" "osd_size d = length xs"
    using d e by (auto simp: getSegmentDescr_def seg_memory_def)
  have wr': "write_mem (Ptr blk j) ys (mem_heap (w_mem w)) = Inr h" using wr dd by simp
  note W = world_write_entry [OF ok e(2) [unfolded ii] e(3) wr', folded w'_def]
  have b: "shared_bytes w' i = Some (patch j ys xs)" "j + length ys \<le> length xs"
    using W(5) [of xs] e(6) s(2) by (auto simp: seg_bytes_def)
  have own: "seg_bytes w' seg = Some (patch j ys xs)" using b(1) s(2) by (simp add: seg_bytes_def)
  have other: "seg_bytes w' s' = seg_bytes w s'" if "(k', s') \<in> set m" "(k', s') \<noteq> (k, seg)" for k' s'
  proof -
    have "os_memory s' \<noteq> Some i" using map_refs_unique [OF _ s(1) that(1) s(2)] s(3) that(2) by auto
    then show ?thesis using data_keptD(2) [OF W(2)] by (cases "os_memory s'") (auto simp: seg_bytes_def)
  qed
  show "world_ok mb (\<lambda>i. map_refs m i + E i) X w'" "entry_of w' = entry_of w" "w_storage w' = w_storage w"
    "j + length ys \<le> osd_size d"
    using W(1,3,4) b(2) dd(2) by auto
  show "data_kept {i. 0 < E i} w w'"
    by (rule data_kept_mono [OF W(2)]) (use s(3) map_refs_pos [OF s(1,2)] in auto)
  have sok: "seg_ok w' k' s'" if "(k', s') \<in> set m" for k' s'
    using that M(2) [OF that] own other [OF that] e(6,7,8,9) b(2)
    by (cases "(k', s') = (k, seg)") (auto simp: seg_ok_def patch_def)
  then show mok': "map_ok w' m" using M by (intro map_okI) auto
  show "view_byte w' m x = (if os_offset seg + j \<le> x \<and> x < os_offset seg + j + length ys
       then Some (ys ! (x - (os_offset seg + j))) else view_byte w m x)"
  proof (cases "os_offset seg \<le> x \<and> x \<le> k")
    case True
    have "view_byte w' m x = Some (patch j ys xs ! (x - os_offset seg))"
      using view_byte_eq [OF mok' s(1) _ _ own] True by simp
    moreover have "view_byte w m x = Some (xs ! (x - os_offset seg))"
      using view_byte_eq [OF mok s(1) _ _ e(6)] True by simp
    moreover have "x - os_offset seg < length xs" using True e(8) by linarith
    ultimately show ?thesis
      using nth_patch [OF b(2), of "x - os_offset seg"] True by (auto simp: algebra_simps)
  next
    case False
    have "view_byte w' m x = view_byte w m x"
    proof (cases "view_byte w m x")
      case None
      show ?thesis
      proof (rule ccontr)
        assume "view_byte w' m x \<noteq> view_byte w m x"
        then obtain b where b': "view_byte w' m x = Some b" using None by auto
        obtain k' s' xs' where v: "(k', s') \<in> set m" "os_offset s' \<le> x" "x \<le> k'" "seg_bytes w' s' = Some xs'"
          by (rule view_byte_SomeD [OF mok' b'])
        obtain zs where "seg_bytes w s' = Some zs" using M(2) [OF v(1)] by (auto elim: seg_okE)
        with view_byte_eq [OF mok v(1-3)] None show False by auto
      qed
    next
      case (Some b)
      obtain k' s' xs' where v: "(k', s') \<in> set m" "os_offset s' \<le> x" "x \<le> k'" "seg_bytes w s' = Some xs'"
          "b = xs' ! (x - os_offset s')"
        by (rule view_byte_SomeD [OF mok Some])
      have "(k', s') \<noteq> (k, seg)" using v False by auto
      with view_byte_eq [OF mok' v(1-3)] other [OF v(1)] v Some show ?thesis by simp
    qed
    moreover have "\<not> (os_offset seg + j \<le> x \<and> x < os_offset seg + j + length ys)"
      using False b(2) e(8) by auto
    ultimately show ?thesis by argo
  qed
qed

section \<open>Contiguous descriptors\<close>

text \<open>The descriptors cover \<open>[b, e)\<close> one after the other; the first may start before \<open>b\<close>.\<close>

fun chain :: "nat \<Rightarrow> nat \<Rightarrow> ObjectSegmentDescr list \<Rightarrow> bool" where
  "chain b e [] \<longleftrightarrow> e \<le> b"
| "chain b e (d # ds) \<longleftrightarrow> osd_offset d \<le> b \<and> b < osd_offset d + osd_size d \<and> b < e \<and>
     (\<forall>d' \<in> set ds. osd_offset d + osd_size d \<le> osd_offset d') \<and> chain (osd_offset d + osd_size d) e ds"

lemma chain_intro:
  assumes "sorted_wrt (<) (map osd_offset ds)"
    and "\<And>d d'. d \<in> set ds \<Longrightarrow> d' \<in> set ds \<Longrightarrow> osd_offset d < osd_offset d' \<Longrightarrow> osd_offset d + osd_size d \<le> osd_offset d'"
    and "\<And>d. d \<in> set ds \<Longrightarrow> osd_offset d < e \<and> b < osd_offset d + osd_size d \<and> 0 < osd_size d"
    and "\<And>x. b \<le> x \<Longrightarrow> x < e \<Longrightarrow> covered_by ds x" and "ds \<noteq> [] \<Longrightarrow> b < e"
  shows "chain b e ds"
  using assms
proof (induction ds arbitrary: b)
  case Nil
  then show ?case by (force simp: covered_by_def)
next
  case (Cons d ds)
  let ?b = "osd_offset d + osd_size d"
  have later: "?b \<le> osd_offset d'" if "d' \<in> set ds" for d'
    using Cons.prems(1,2) that by (simp add: Cons.prems(2))
  have d: "osd_offset d < e" "b < ?b" "b < e" using Cons.prems(3,5) by auto
  obtain d' where "d' \<in> set (d # ds)" "osd_offset d' \<le> b"
    using Cons.prems(4) [of b] d(3) by (auto simp: covered_by_def)
  then have start: "osd_offset d \<le> b" using later d(2) by fastforce
  have "chain ?b e ds"
  proof (rule Cons.IH)
    show "covered_by ds x" if "?b \<le> x" "x < e" for x
      using Cons.prems(4) [of x] that d(2) by (auto simp: covered_by_def)
    show "osd_offset d' < e \<and> ?b < osd_offset d' + osd_size d' \<and> 0 < osd_size d'" if "d' \<in> set ds" for d'
      using Cons.prems(3) [of d'] later [OF that] that by auto
    show "?b < e" if ne: "ds \<noteq> []"
    proof -
      obtain d' where "d' \<in> set ds" using ne by (cases ds) auto
      then show ?thesis using later [of d'] Cons.prems(3) [of d'] by fastforce
    qed
    show "osd_offset d1 + osd_size d1 \<le> osd_offset d2"
      if "d1 \<in> set ds" "d2 \<in> set ds" "osd_offset d1 < osd_offset d2" for d1 d2
      using Cons.prems(2) [of d1 d2] that by simp
  qed (use Cons.prems(1) in simp)
  with start d later show ?case by simp
qed

text \<open>
  A segment of the aligned range meets the request itself when the segments are on the grid.
\<close>

lemma grid_meets_request:
  assumes al: "align_range a origBase origSize = (base, n)" "origBase + origSize + a < W64" "0 < origSize"
    and g: "on_grid a lo" "on_grid a hi" "lo < base + n" "base < hi"
  shows "lo < origBase + origSize \<and> origBase < hi"
proof (cases "a = 0")
  case True
  then show ?thesis using align_range_spec(5) [OF al(1,2)] g(3,4) by simp
next
  case False
  note A = align_range_spec [OF al(1,2)]
  obtain p q r t where p: "lo = a * p" "hi = a * q" "base = a * r" "base + n = a * t"
    using g(1,2) A(3,4) False by (auto simp: on_grid_def elim!: dvdE)
  have "p < t" "r < q" using g(3,4) p False by (metis mult_less_cancel1)+
  then have "a * Suc p \<le> a * t" "a * Suc r \<le> a * q" by (simp_all only: mult_le_mono2 Suc_le_eq)
  then have "lo + a \<le> base + n" "base + a \<le> hi" using p by simp_all
  moreover have "origBase < base + a" "base + n < origBase + origSize + a" using A(6) False by auto
  ultimately show ?thesis by linarith
qed

lemma buffers_chain:
  assumes ok: "world_ok mb R X w" and mok: "map_ok w (obj_segmentMap ob)"
    and buf: "buffers_post R' mode base n ob w segs" and grid: "grid_ok ob"
    and al: "align_range (obj_alignement ob) origBase origSize = (base, n)"
      "origBase + origSize + obj_alignement ob < W64" "0 < origSize"
  shows "chain origBase (origBase + origSize) segs"
proof (rule chain_intro)
  note M = map_okD [OF mok] and A = align_range_spec [OF al(1,2)]
  have seg: "\<exists>k s. (k, s) \<in> set (obj_segmentMap ob) \<and> osd_offset d = os_offset s \<and> osd_offset d + osd_size d = Suc k \<and>
      os_offset s \<le> k \<and> os_offset s < base + n \<and> base \<le> k" if "d \<in> set segs" for d
  proof -
    have "d \<in> descr_set w (in_range base n (set (obj_segmentMap ob)))"
      using buf that by (simp add: buffers_post_def)
    moreover have "seg_ok w k s" if "(k, s) \<in> in_range base n (set (obj_segmentMap ob))" for k s
      using M(2) [of k s] that by (simp add: in_range_def)
    ultimately obtain k s where "(k, s) \<in> in_range base n (set (obj_segmentMap ob))" "osd_offset d = os_offset s"
        "os_offset s \<le> k" "osd_offset d + osd_size d = Suc k"
      by (elim descr_set_offset [OF _ ok])
    then show ?thesis by (auto simp: in_range_def)
  qed
  show "sorted_wrt (<) (map osd_offset segs)" using buf by (simp add: buffers_post_def)
  show "covered_by segs x" if "origBase \<le> x" "x < origBase + origSize" for x
    using buf that A(1,2) by (simp add: buffers_post_def)
  show "osd_offset d < origBase + origSize \<and> origBase < osd_offset d + osd_size d \<and> 0 < osd_size d"
    if ds: "d \<in> set segs" for d
  proof -
    obtain k s where s: "(k, s) \<in> set (obj_segmentMap ob)" "osd_offset d = os_offset s"
        "osd_offset d + osd_size d = Suc k" "os_offset s \<le> k" "os_offset s < base + n" "base \<le> k"
      using seg [OF ds] by blast
    have "on_grid (obj_alignement ob) (os_offset s)" "on_grid (obj_alignement ob) (Suc k)"
      using grid s(1) by (auto simp: grid_ok_def)
    from grid_meets_request [OF al this] s show ?thesis by linarith
  qed
  show "osd_offset d + osd_size d \<le> osd_offset d'"
    if dd: "d \<in> set segs" "d' \<in> set segs" "osd_offset d < osd_offset d'" for d d'
  proof -
    obtain k s where 1: "(k, s) \<in> set (obj_segmentMap ob)" "osd_offset d = os_offset s"
        "osd_offset d + osd_size d = Suc k" "os_offset s \<le> k" using seg [OF dd(1)] by blast
    obtain k' s' where 2: "(k', s') \<in> set (obj_segmentMap ob)" "osd_offset d' = os_offset s'" "os_offset s' \<le> k'"
      using seg [OF dd(2)] by blast
    have "k < k'"
    proof (rule ccontr)
      assume "\<not> k < k'"
      then consider "k' < k" | "k = k'" by linarith
      then show False
      proof cases
        case 1
        then show ?thesis using M(3) [OF 2(1) \<open>(k, s) \<in> _\<close>] 2 dd(3) \<open>osd_offset d = os_offset s\<close> by simp
      next
        case eq: 2
        then have "s = s'" using 1(1) 2(1) sm_find_in [OF M(1)] by auto
        then show ?thesis using 1(2) 2(2) dd(3) by simp
      qed
    qed
    with M(3) [OF 1(1) 2(1)] 1(3) 2(2) show ?thesis by simp
  qed
qed (use al in simp)

section \<open>Storage changes\<close>

lemma storage_frame [simp]:
  "world_ok mb R X (w\<lparr>w_storage := s\<rparr>) = world_ok mb R X w" "shared_bytes (w\<lparr>w_storage := s\<rparr>) = shared_bytes w"
  "seg_bytes (w\<lparr>w_storage := s\<rparr>) = seg_bytes w" "map_ok (w\<lparr>w_storage := s\<rparr>) = map_ok w"
  "view_byte (w\<lparr>w_storage := s\<rparr>) = view_byte w" "entry_of (w\<lparr>w_storage := s\<rparr>) = entry_of w"
  "data_kept S (w\<lparr>w_storage := s\<rparr>) v = data_kept S w v" "data_kept S v (w\<lparr>w_storage := s\<rparr>) = data_kept S v w"
  "seg_ok (w\<lparr>w_storage := s\<rparr>) = seg_ok w" "seg_memory seg (w\<lparr>w_storage := s\<rparr>) = seg_memory seg w"
proof -
  have b: "shared_bytes (w\<lparr>w_storage := s\<rparr>) i = shared_bytes w i" for i by (rule shared_bytes_cong) simp_all
  then show sb: "shared_bytes (w\<lparr>w_storage := s\<rparr>) = shared_bytes w" by (simp add: fun_eq_iff)
  show "world_ok mb R X (w\<lparr>w_storage := s\<rparr>) = world_ok mb R X w"
    by (simp add: world_ok_def owned_blocks_def entry_ok_def)
  show g: "seg_bytes (w\<lparr>w_storage := s\<rparr>) = seg_bytes w" by (simp add: fun_eq_iff seg_bytes_def sb split: option.split)
  then show so: "seg_ok (w\<lparr>w_storage := s\<rparr>) = seg_ok w" by (simp add: fun_eq_iff seg_ok_def)
  then show "map_ok (w\<lparr>w_storage := s\<rparr>) = map_ok w" by (simp add: fun_eq_iff map_ok_def)
  show "view_byte (w\<lparr>w_storage := s\<rparr>) = view_byte w" by (simp add: fun_eq_iff view_byte_def g split: list.split)
  show e: "entry_of (w\<lparr>w_storage := s\<rparr>) = entry_of w" by (simp add: fun_eq_iff entry_of_def)
  show "data_kept S (w\<lparr>w_storage := s\<rparr>) v = data_kept S w v" "data_kept S v (w\<lparr>w_storage := s\<rparr>) = data_kept S v w"
    by (simp_all add: data_kept_def sb e)
  show "seg_memory seg (w\<lparr>w_storage := s\<rparr>) = seg_memory seg w"
    by (simp add: seg_memory_def split: option.split)
qed

text \<open>The byte an object stands for.\<close>

definition object_byte :: "'s storage_content \<Rightarrow> 's world \<Rightarrow> object \<Rightarrow> nat \<Rightarrow> byte" where
  "object_byte content w ob x = (case view_byte w (obj_segmentMap ob) x of
     Some b \<Rightarrow> b | None \<Rightarrow> content (w_storage w) (obj_key ob) x)"

section \<open>Dirty segments\<close>

definition meets :: "size_t \<Rightarrow> size_t \<Rightarrow> size_t \<Rightarrow> ObjectSegment \<Rightarrow> bool" where
  "meets base n k seg \<longleftrightarrow> os_offset seg < base + n \<and> base \<le> k"

lemma markDirty_loop_eq:
  "world_ok mb R X w \<Longrightarrow> (\<And>k seg. (k, seg) \<in> set segs \<Longrightarrow> seg_ok w k seg) \<Longrightarrow> base + n < W64 \<Longrightarrow>
   markDirty_loop base n segs w =
     Inr (map (\<lambda>(k, seg). (k, if meets base n k seg then seg\<lparr>os_dirty := True\<rparr> else seg)) segs)"
proof (induction segs)
  case (Cons e segs)
  obtain k seg where e: "e = (k, seg)" by force
  then have "ObjectSegment_overlap seg base n w = Inr (meets base n k seg)"
    using overlap_eq [OF Cons.prems(1) Cons.prems(2), of k seg base n] Cons.prems(3) by (simp add: meets_def)
  with Cons e show ?case by simp
qed simp

definition set_dirty :: "(size_t \<Rightarrow> ObjectSegment \<Rightarrow> bool) \<Rightarrow> (size_t, ObjectSegment) std_map \<Rightarrow> (size_t, ObjectSegment) std_map" where
  "set_dirty f m = map (\<lambda>(k, seg). (k, seg\<lparr>os_dirty := f k seg\<rparr>)) m"

text \<open>Changing flags changes neither the references nor the bytes.\<close>

lemma set_dirty_frame:
  "map_refs (set_dirty f m) = map_refs m" "map_ok w (set_dirty f m) = map_ok w m"
  "view_byte w (set_dirty f m) = view_byte w m" "sm_ok (set_dirty f m) = sm_ok m"
proof -
  show "map_refs (set_dirty f m) = map_refs m"
    by (induction m) (auto simp: fun_eq_iff set_dirty_def)
  show sm: "sm_ok (set_dirty f m) = sm_ok m" by (simp add: sm_ok_def set_dirty_def comp_def case_prod_unfold)
  have b: "seg_bytes w (seg\<lparr>os_dirty := d\<rparr>) = seg_bytes w seg" for seg d by (simp add: seg_bytes_def)
  show "map_ok w (set_dirty f m) = map_ok w m"
    unfolding map_ok_def sm by (fastforce simp: set_dirty_def seg_ok_def b)
  have "sm_lower_bound x (set_dirty f m) = set_dirty f (sm_lower_bound x m)" for x
    by (induction m) (auto simp: sm_lower_bound_def set_dirty_def)
  then show "view_byte w (set_dirty f m) = view_byte w m"
    by (auto simp: fun_eq_iff view_byte_def set_dirty_def b split: list.splits)
qed

lemma grid_set_dirty: "grid_ok (ob\<lparr>obj_segmentMap := set_dirty f (obj_segmentMap ob)\<rparr>) = grid_ok ob"
  by (fastforce simp: grid_ok_def set_dirty_def)

lemma markDirty_eq:
  assumes "world_ok mb R X w" "map_ok w (obj_segmentMap ob)" "base + n < W64"
  shows "markDirty base n ob w =
    Inr (ob\<lparr>obj_segmentMap := set_dirty (\<lambda>k seg. os_dirty seg \<or> meets base n k seg) (obj_segmentMap ob)\<rparr>)"
proof -
  have "map (\<lambda>(k, seg). (k, if meets base n k seg then seg\<lparr>os_dirty := True\<rparr> else seg)) m =
      set_dirty (\<lambda>k seg. os_dirty seg \<or> meets base n k seg) m" for m
    by (auto simp: set_dirty_def)
  then show ?thesis
    using markDirty_loop_eq [OF assms(1) map_okD(2) [OF assms(2)] assms(3)] by (simp add: markDirty_def)
qed

section \<open>Flush\<close>

definition to_flush :: "size_t \<Rightarrow> size_t \<Rightarrow> size_t \<Rightarrow> ObjectSegment \<Rightarrow> bool" where
  "to_flush off n k seg \<longleftrightarrow> os_dirty seg \<and> (n = 0 \<or> meets off n k seg)"

lemma flush_wanted_eq:
  "world_ok mb R X w \<Longrightarrow> seg_ok w k seg \<Longrightarrow> off + n < W64 \<Longrightarrow> flush_wanted off n seg w = Inr (to_flush off n k seg)"
  using overlap_eq [of mb R X w k seg off n] by (auto simp: flush_wanted_def to_flush_def meets_def)

definition flushed :: "size_t \<Rightarrow> size_t \<Rightarrow> (size_t, ObjectSegment) std_map \<Rightarrow> (size_t \<times> ObjectSegment) set" where
  "flushed off n segs = {(k, seg). (k, seg) \<in> set segs \<and> to_flush off n k seg}"

definition flush_post ::
  "((int \<times> int) \<Rightarrow> nat \<Rightarrow> byte) \<Rightarrow> ((int \<times> int) \<Rightarrow> nat \<Rightarrow> byte) \<Rightarrow> int \<times> int \<Rightarrow> 's world \<Rightarrow>
   (size_t \<times> ObjectSegment) set \<Rightarrow> int \<Rightarrow> int \<Rightarrow> bool" where
  "flush_post stored stored' key w F ret ret' \<longleftrightarrow>
     (ret' = ret \<or> ret' = - 1) \<and>
     (\<forall>key' x. key' \<noteq> key \<or> \<not> covers F x \<longrightarrow> stored' key' x = stored key' x) \<and>
     (ret' = 0 \<longrightarrow> (\<forall>k seg xs x. (k, seg) \<in> F \<longrightarrow> seg_bytes w seg = Some xs \<longrightarrow>
        os_offset seg \<le> x \<longrightarrow> x \<le> k \<longrightarrow> stored' key x = xs ! (x - os_offset seg)))"

lemma flushed_Cons:
  "flushed off n ((k, seg) # segs) = (if to_flush off n k seg then insert (k, seg) (flushed off n segs) else flushed off n segs)"
  by (auto simp: flushed_def)

lemma covers_insert: "covers (insert (k, seg) F) x \<longleftrightarrow> os_offset seg \<le> x \<and> x \<le> k \<or> covers F x"
  by (auto simp: covers_def)

lemma map_ok_Cons:
  assumes "map_ok w ((k, seg) # segs)"
  shows "map_ok w segs" "seg_ok w k seg" "\<And>k' s'. (k', s') \<in> set segs \<Longrightarrow> k < os_offset s'"
proof -
  note M = map_okD [OF assms]
  show "map_ok w segs" using assms unfolding map_ok_def by auto
  show "seg_ok w k seg" using M(2) by simp
  show "k < os_offset s'" if s: "(k', s') \<in> set segs" for k' s'
  proof -
    have "k < k'" using M(1) s by fastforce
    with M(3) [of k seg k' s'] s show ?thesis by simp
  qed
qed

lemma flush_loop_effect:
  fixes content :: "'s storage_content"
  assumes so: "storage_ok so content" and sb: "obj_storageBackend ob" and lim: "off + n < W64"
    and "world_ok mb R X w" "map_ok w segs"
    and "flush_loop so ob off n ret segs w = Inr (ret', segs', w')"
  shows "segs' = set_dirty (\<lambda>k seg. os_dirty seg \<and> \<not> to_flush off n k seg) segs \<and> (\<exists>s'. w' = w\<lparr>w_storage := s'\<rparr>) \<and>
    flush_post (content (w_storage w)) (content (w_storage w')) (obj_key ob) w (flushed off n segs) ret ret'"
  using assms(4-)
proof (induction segs arbitrary: ret w segs')
  case Nil
  then show ?case
    by (auto simp: set_dirty_def flush_post_def flushed_def covers_def intro: exI [of _ "w_storage w"])
next
  case (Cons e segs)
  obtain k seg where e: "e = (k, seg)" by force
  note C = map_ok_Cons [OF Cons.prems(2) [unfolded e]]
  note want = flush_wanted_eq [OF Cons.prems(1) C(2) lim]
  let ?key = "obj_key ob"
  show ?case
  proof (cases "to_flush off n k seg")
    case False
    then obtain segs2 where run: "flush_loop so ob off n ret segs w = Inr (ret', segs2, w')" and s': "segs' = (k, seg) # segs2"
      using Cons.prems(3) e want by (auto elim!: bindE_InrE)
    note IH = Cons.IH [OF Cons.prems(1) C(1) run]
    then show ?thesis using False e s' by (auto simp: set_dirty_def flushed_Cons)
  next
    case True
    obtain i osm c blk xs where s: "os_memory seg = Some i" "w_shared w i = Some (osm, c)"
      "osm_buffer osm = Ptr blk 0" "w_blocks w blk = Some xs" "osm_size osm = length xs"
      "seg_bytes w seg = Some xs" "xs \<noteq> []" "os_offset seg + length xs = Suc k" "Suc k < W64"
      by (rule seg_entry [OF Cons.prems(1) C(2)])
    have sm: "seg_memory seg w = Inr osm" using s by (simp add: seg_memory_def)
    obtain st s1 segs2 where
        wr: "so_pwrite so (fst ?key) (snd ?key) xs (os_offset seg) (w_storage w) = Inr (st, s1)"
        and run: "flush_loop so ob off n (if st \<noteq> ssize_t_of (length xs) then - 1 else ret) segs (w\<lparr>w_storage := s1\<rparr>) =
          Inr (ret', segs2, w')"
        and s': "segs' = (k, seg\<lparr>os_dirty := False\<rparr>) # segs2"
      using Cons.prems(3) e want True sm s(3,4,5) sb by (auto simp: Object_pwrite_def elim!: bindE_InrE)
    let ?w = "w\<lparr>w_storage := s1\<rparr>" and ?ret = "if st \<noteq> ssize_t_of (length xs) then - 1 else ret"
    have IH: "segs2 = set_dirty (\<lambda>k seg. os_dirty seg \<and> \<not> to_flush off n k seg) segs \<and> (\<exists>s'. w' = ?w\<lparr>w_storage := s'\<rparr>) \<and>
        flush_post (content s1) (content (w_storage w')) ?key ?w (flushed off n segs) ?ret ret'"
      using Cons.IH [of ?w, OF _ _ run] Cons.prems(1) C(1) by simp
    note W = pwrite_postD [OF storage_pwrite [OF so wr]]
    have ret: "ret' = ?ret \<or> ret' = - 1" using IH by (simp add: flush_post_def)
    have keep: "content (w_storage w') key' x = content s1 key' x" if "key' \<noteq> ?key \<or> \<not> covers (flushed off n segs) x" for key' x
      using IH that unfolding flush_post_def by blast
    have apart: "\<not> covers (flushed off n segs) x" if "x \<le> k" for x
      using C(3) that by (fastforce simp: covers_def flushed_def)
    have frame: "content (w_storage w') key' x = content (w_storage w) key' x"
      if "key' \<noteq> ?key \<or> \<not> covers (flushed off n ((k, seg) # segs)) x" for key' x
      using keep [of key' x] W(1) [of key' x] that True s(8) by (auto simp: flushed_Cons covers_insert)
    have written: "content (w_storage w') ?key x = ys ! (x - os_offset sg)"
      if r: "ret' = 0" and sg: "(k', sg) \<in> flushed off n ((k, seg) # segs)" "seg_bytes w sg = Some ys"
        "os_offset sg \<le> x" "x \<le> k'" for k' sg ys x
    proof (cases "(k', sg) = (k, seg)")
      case True
      then have "content (w_storage w') ?key x = content s1 ?key x" using apart sg(4) by (intro keep) simp
      moreover have "st = ssize_t_of (length xs)" using ret r by (auto split: if_splits)
      ultimately show ?thesis
        using W(2) [of "x - os_offset seg"] True sg s(6,8) by simp
    next
      case False
      then have "(k', sg) \<in> flushed off n segs" using sg(1) by (auto simp: flushed_def)
      then show ?thesis using IH r sg(2-) unfolding flush_post_def by simp
    qed
    have "flush_post (content (w_storage w)) (content (w_storage w')) ?key w (flushed off n ((k, seg) # segs)) ret ret'"
      using ret frame written unfolding flush_post_def by (auto split: if_splits)
    then show ?thesis using IH e s' True by (auto simp: set_dirty_def)
  qed
qed

section \<open>Properties of access and flush\<close>

text \<open>C15: Copy-on-write isolation.  After a write access to object \<open>a\<close>, whatever is written
  through a returned descriptor changes exactly the bytes of \<open>a\<close> at that place: another object
  \<open>b\<close> keeps its bytes and its invariant, even when the two shared segments before.\<close>

theorem cow_write_isolated:
  fixes content :: "'s storage_content"
  assumes ok: "world_ok mb (\<lambda>i. map_refs (obj_segmentMap a) i + (map_refs (obj_segmentMap b) i + E i)) X w"
    and ab: "map_ok w (obj_segmentMap a)" "map_ok w (obj_segmentMap b)" "obj_memoryBackend a = mb" "storage_ok so content"
    and lim: "origBase + origSize + obj_alignement a < W64"
    and run: "getBuffers fi so origBase origSize ACCESS_WRITE load isW a w = Inr (True, segs, a', w1)"
    and wr: "d \<in> set segs" "write_mem (ptr_add (osd_ptr d) j) ys (mem_heap (w_mem w1)) = Inr h"
  shows "map_ok (w_set_heap h w1) (obj_segmentMap b) \<and>
    view_byte (w_set_heap h w1) (obj_segmentMap b) = view_byte w (obj_segmentMap b) \<and>
    map_ok (w_set_heap h w1) (obj_segmentMap a') \<and> j + length ys \<le> osd_size d \<and>
    (\<forall>x. view_byte (w_set_heap h w1) (obj_segmentMap a') x =
      (if osd_offset d + j \<le> x \<and> x < osd_offset d + j + length ys then Some (ys ! (x - (osd_offset d + j)))
       else view_byte w1 (obj_segmentMap a') x))"
proof -
  let ?E = "\<lambda>i. map_refs (obj_segmentMap b) i + E i"
  obtain base n where al: "align_range (obj_alignement a) origBase origSize = (base, n)" by force
  note G = getBuffers_effect [OF ok ab(1,3,4) al lim run]
  have acc: "world_ok mb (\<lambda>i. map_refs (obj_segmentMap a') i + ?E i) X w1" "map_ok w1 (obj_segmentMap a')"
      "data_kept {i. 0 < ?E i} w w1"
    using G(1) unfolding access_post_def Let_def by (simp_all del: add_gr_0)
  have buf: "set segs = descr_set w1 (in_range base n (set (obj_segmentMap a')))"
      "\<And>k seg. (k, seg) \<in> in_range base n (set (obj_segmentMap a')) \<Longrightarrow>
        \<exists>i. os_memory seg = Some i \<and> map_refs (obj_segmentMap a') i + ?E i = 1"
    using G(3) unfolding buffers_post_def by auto
  obtain k seg where s: "(k, seg) \<in> in_range base n (set (obj_segmentMap a'))" "getSegmentDescr seg w1 = Inr d"
    using wr(1) buf(1) by (auto simp: descr_set_def)
  obtain i where i: "os_memory seg = Some i" "map_refs (obj_segmentMap a') i + ?E i = 1" using buf(2) [OF s(1)] by blast
  have sm: "(k, seg) \<in> set (obj_segmentMap a')" using s(1) by (simp add: in_range_def)
  note S = seg_write [OF acc(1,2) sm i s(2) wr(2)]
  have off: "osd_offset d = os_offset seg"
    using descr_of_seg(1) [OF acc(1) map_okD(2) [OF acc(2) sm] s(2)] .
  have "data_kept {i. 0 < map_refs (obj_segmentMap b) i} w (w_set_heap h w1)"
    by (rule data_kept_mono [OF data_kept_trans [OF acc(3) S(3)]]) auto
  from kept_view [OF this] have "map_view (w_set_heap h w1) (obj_segmentMap b) = map_view w (obj_segmentMap b)" .
  from map_ok_view [OF this ab(2)] view_byte_view [OF this] S(2,6,7) off show ?thesis by simp
qed

text \<open>Two objects that share one segment of two bytes.\<close>

definition wit_seg :: ObjectSegment where
  "wit_seg = \<lparr>os_memory = Some 0, os_offset = 0, os_dirty = False\<rparr>"

definition wit_a :: object where
  "wit_a = (Object_init True 0 (ObjectId 0 1) 0)\<lparr>obj_segmentMap := [(1, wit_seg)]\<rparr>"

definition wit_b :: object where
  "wit_b = (Object_init True 0 (ObjectId 0 2) 0)\<lparr>obj_segmentMap := [(1, wit_seg)]\<rparr>"

definition wit_shared_world :: "table world" where
  "wit_shared_world = \<lparr>w_mem = \<lparr>mem_heap = \<lparr>hp_blocks = [1 \<mapsto> [10, 20]], hp_next = 2, hp_junk = (\<lambda>_ _. 0),
      hp_fail = (\<lambda>_. False)\<rparr>, mem_domain = LibfabricDomain_init False\<rparr>,
     w_backends = [0 \<mapsto> MemoryBackendMalloc False],
     w_shared = [0 \<mapsto> (\<lparr>osm_buffer = Ptr 1 0, osm_size = 2, osm_memoryBackend = 0\<rparr>, 2)],
     w_next = 1, w_storage = (\<lambda>k x. 0)\<rparr>"

lemma wit_shared_ok:
  "world_ok 0 (\<lambda>i. map_refs (obj_segmentMap wit_a) i + (map_refs (obj_segmentMap wit_b) i + 0)) wit_frame wit_shared_world"
  "map_ok wit_shared_world (obj_segmentMap wit_a)" "map_ok wit_shared_world (obj_segmentMap wit_b)"
  "obj_memoryBackend wit_a = 0"
  by (auto simp: world_ok_def wit_shared_world_def wit_a_def wit_b_def wit_seg_def Object_init_def owned_blocks_def
      backends.in_use_def heap_ok_def map_ok_def seg_ok_def seg_bytes_def shared_bytes_def entry_ok_def hp_len_def W64_def
      wit_frame_ok LibfabricDomain_init_def split: if_splits)

lemma wit_cow_run:
  "\<exists>segs a' w1 h. getBuffers wit_fabric table_ops 0 2 ACCESS_WRITE True True wit_a wit_shared_world = Inr (True, segs, a', w1) \<and>
     hd segs \<in> set segs \<and> osd_offset (hd segs) = 0 \<and>
     write_mem (ptr_add (osd_ptr (hd segs)) 1) [99] (mem_heap (w_mem w1)) = Inr h"
  by (simp add: access_eval ObjectSegment_overlap_def isCow_def applyCow_def memcpy_def patch_def slice_def
      wit_shared_world_def wit_a_def wit_seg_def Object_init_def)

theorem cow_write_isolated_witness:
  "\<exists>(a' :: object) (w2 :: table world). view_byte w2 (obj_segmentMap a') 1 = Some 99 \<and> view_byte w2 (obj_segmentMap wit_b) 1 = Some 20"
proof -
  obtain segs a' w1 h where r: "getBuffers wit_fabric table_ops 0 2 ACCESS_WRITE True True wit_a wit_shared_world = Inr (True, segs, a', w1)"
      "hd segs \<in> set segs" "osd_offset (hd segs) = 0"
      "write_mem (ptr_add (osd_ptr (hd segs)) 1) [99] (mem_heap (w_mem w1)) = Inr h"
    using wit_cow_run by blast
  have lim: "0 + 2 + obj_alignement wit_a < W64" by (simp add: wit_a_def Object_init_def W64_def)
  have "view_byte wit_shared_world (obj_segmentMap wit_b) 1 = Some 20"
    by (simp add: view_byte_def wit_b_def wit_seg_def Object_init_def sm_lower_bound_def seg_bytes_def shared_bytes_def wit_shared_world_def)
  moreover note C = cow_write_isolated [OF wit_shared_ok table_ok lim r(1,2,4)]
  then have "view_byte (w_set_heap h w1) (obj_segmentMap a') 1 = Some 99" using r(3) by simp
  moreover have "view_byte (w_set_heap h w1) (obj_segmentMap wit_b) = view_byte wit_shared_world (obj_segmentMap wit_b)"
    using C by blast
  ultimately show ?thesis by (intro exI [of _ a'] exI [of _ "w_set_heap h w1"]) simp
qed

text \<open>C16: \<open>flush\<close> writes back.  It returns 0 or -1, clears the dirty flag of every dirty
  segment that meets the range (all of them for size 0), leaves the cached bytes, the byte the
  object stands for at every offset, all other objects of the storage and the invariants as they
  were; when it returns 0, the storage holds the cached bytes of all those segments.\<close>

theorem flush_writes_back:
  fixes content :: "'s storage_content"
  assumes so: "storage_ok so content" "obj_storageBackend ob" "off + n < W64"
    and ok: "world_ok mb R X w" "map_ok w (obj_segmentMap ob)" "R = (\<lambda>i. map_refs (obj_segmentMap ob) i + E i)"
    and run: "Object_flush so off n ob w = Inr (ret, ob', w')"
  shows "(ret = 0 \<or> ret = - 1) \<and> world_ok mb (\<lambda>i. map_refs (obj_segmentMap ob') i + E i) X w' \<and>
    map_ok w' (obj_segmentMap ob') \<and> view_byte w' (obj_segmentMap ob') = view_byte w (obj_segmentMap ob) \<and>
    (\<forall>k seg. (k, seg) \<in> set (obj_segmentMap ob') \<longrightarrow> \<not> to_flush off n k seg) \<and>
    object_byte content w' ob' = object_byte content w ob \<and>
    (\<forall>key x. key \<noteq> obj_key ob \<longrightarrow> content (w_storage w') key x = content (w_storage w) key x) \<and>
    (ret = 0 \<longrightarrow> (\<forall>x. covers (flushed off n (obj_segmentMap ob)) x \<longrightarrow>
       view_byte w (obj_segmentMap ob) x = Some (content (w_storage w') (obj_key ob) x)))"
proof -
  let ?m = "obj_segmentMap ob"
  let ?f = "\<lambda>k seg. os_dirty seg \<and> \<not> to_flush off n k seg"
  obtain segs where r: "flush_loop so ob off n 0 ?m w = Inr (ret, segs, w')" and ob': "ob' = ob\<lparr>obj_segmentMap := segs\<rparr>"
    using run by (auto simp: Object_flush_def elim!: bindE_InrE)
  from flush_loop_effect [OF so ok(1,2) r] obtain s' where
      L: "segs = set_dirty ?f ?m" "w' = w\<lparr>w_storage := s'\<rparr>"
      "flush_post (content (w_storage w)) (content (w_storage w')) (obj_key ob) w (flushed off n ?m) 0 ret" by blast
  note frame = set_dirty_frame
  have "\<not> to_flush off n k seg" if "(k, seg) \<in> set segs" for k seg
    using that unfolding L(1) by (auto simp: set_dirty_def to_flush_def meets_def)
  moreover have vb: "view_byte w' (obj_segmentMap ob') = view_byte w ?m"
    by (simp add: ob' L frame)
  moreover have "object_byte content w' ob' x = object_byte content w ob x" for x
  proof (cases "view_byte w ?m x")
    case None
    have "\<not> covers (flushed off n ?m) x"
    proof
      assume "covers (flushed off n ?m) x"
      then obtain k seg where "(k, seg) \<in> set ?m" "os_offset seg \<le> x" "x \<le> k" by (auto simp: covers_def flushed_def)
      moreover from this obtain xs where "seg_bytes w seg = Some xs" using map_okD(2) [OF ok(2)] by (blast elim: seg_okE)
      ultimately show False using view_byte_eq [OF ok(2)] None by fastforce
    qed
    then show ?thesis using L(3) None vb by (simp add: object_byte_def flush_post_def ob')
  qed (use vb in \<open>simp add: object_byte_def\<close>)
  moreover have "view_byte w ?m x = Some (content (w_storage w') (obj_key ob) x)"
    if z: "ret = 0" and c: "covers (flushed off n ?m) x" for x
  proof -
    obtain k seg where s: "(k, seg) \<in> flushed off n ?m" "(k, seg) \<in> set ?m" "os_offset seg \<le> x" "x \<le> k"
      using c by (auto simp: covers_def flushed_def)
    moreover from this obtain xs where xs: "seg_bytes w seg = Some xs" using map_okD(2) [OF ok(2)] by (blast elim: seg_okE)
    ultimately have "content (w_storage w') (obj_key ob) x = xs ! (x - os_offset seg)"
      using L(3) z unfolding flush_post_def by blast
    then show ?thesis using view_byte_eq [OF ok(2) s(2-4) xs] by simp
  qed
  moreover have "(ret = 0 \<or> ret = - 1) \<and> (\<forall>key x. key \<noteq> obj_key ob \<longrightarrow> content (w_storage w') key x = content (w_storage w) key x)"
    using L(3) unfolding flush_post_def by blast
  ultimately show ?thesis
    using ok by (simp add: ob' L(1) frame) (simp add: L(2) frame fun_eq_iff)
qed

definition wit_dirty :: object where
  "wit_dirty = wit_a\<lparr>obj_segmentMap := [(1, wit_seg\<lparr>os_dirty := True\<rparr>)]\<rparr>"

lemma wit_dirty_ok:
  "world_ok 0 (\<lambda>i. map_refs (obj_segmentMap wit_dirty) i + map_refs (obj_segmentMap wit_b) i) wit_frame wit_shared_world"
  "map_ok wit_shared_world (obj_segmentMap wit_dirty)" "obj_storageBackend wit_dirty"
proof -
  have d: "obj_segmentMap wit_dirty = set_dirty (\<lambda>_ _. True) (obj_segmentMap wit_a)"
    by (simp add: wit_dirty_def wit_a_def set_dirty_def wit_seg_def)
  show "world_ok 0 (\<lambda>i. map_refs (obj_segmentMap wit_dirty) i + map_refs (obj_segmentMap wit_b) i) wit_frame wit_shared_world"
    "map_ok wit_shared_world (obj_segmentMap wit_dirty)"
    using wit_shared_ok(1,2) by (simp_all add: d set_dirty_frame)
  show "obj_storageBackend wit_dirty" by (simp add: wit_dirty_def wit_a_def Object_init_def)
qed

theorem flush_writes_back_witness:
  "\<exists>ob' w'. Object_flush table_ops 0 0 wit_dirty wit_shared_world = Inr (0, ob', w') \<and>
     w_storage w' (obj_key wit_dirty) 1 = 20"
proof -
  obtain ob' w' where run: "Object_flush table_ops 0 0 wit_dirty wit_shared_world = Inr (0, ob', w')"
    by (simp add: Object_flush_def flush_wanted_def Object_pwrite_def wit_dirty_def wit_a_def wit_seg_def Object_init_def
        seg_memory_def wit_shared_world_def table_ops_def ssize_t_of_def)
  have "covers (flushed 0 0 (obj_segmentMap wit_dirty)) 1"
    by (auto simp: covers_def flushed_def wit_dirty_def wit_seg_def to_flush_def)
  moreover have "view_byte wit_shared_world (obj_segmentMap wit_dirty) 1 = Some 20"
    by (simp add: view_byte_def wit_dirty_def wit_seg_def sm_lower_bound_def seg_bytes_def shared_bytes_def wit_shared_world_def)
  moreover have "0 + 0 < W64" by simp
  ultimately show ?thesis
    using flush_writes_back [OF table_ok wit_dirty_ok(3) _ wit_dirty_ok(1,2) refl run] run by auto
qed

end
