(* ===== verification/Object_Cow.thy ===== *)
theory Object_Cow
  imports Object_Data
begin

text \<open>
  Copy on write of whole objects and of ranges, and the destruction of objects: effect on
  the shared state, on the invariant of the objects involved and on their bytes.
\<close>

section \<open>Full copy on write\<close>

lemma sm_set_append: "(\<And>k' v'. (k', v') \<in> set m \<Longrightarrow> k' < k) \<Longrightarrow> sm_set k v m = m @ [(k, v)]"
  by (induction m) fastforce+

lemma sm_find_None_if_less:
  fixes k :: "'k :: linorder"
  assumes "\<And>k' v'. (k', v') \<in> set m \<Longrightarrow> k' < k"
  shows "sm_find m k = None"
proof (cases "sm_find m k")
  case (Some v)
  then have "k < k" by (rule assms [OF map_of_SomeD])
  then show ?thesis by simp
qed

lemma Object_pwrite_effect:
  fixes content :: "'s storage_content"
  assumes "storage_ok so content" "Object_pwrite so ob buf off w = Inr (st, w')"
  obtains s' where "w' = w\<lparr>w_storage := s'\<rparr>"
    "\<And>key x. key \<noteq> obj_key ob \<or> x < off \<or> off + length buf \<le> x \<Longrightarrow> content s' key x = content (w_storage w) key x"
    "obj_storageBackend ob \<Longrightarrow> st = ssize_t_of (length buf) \<Longrightarrow> i < length buf \<Longrightarrow> content s' (obj_key ob) (off + i) = buf ! i"
proof (cases "obj_storageBackend ob")
  case False
  then have "w' = w\<lparr>w_storage := w_storage w\<rparr>" using assms(2) by (simp add: Object_pwrite_def)
  then show thesis using that [of "w_storage w"] False by simp
next
  case True
  then obtain s' where wr: "so_pwrite so (oid_high (obj_objectId ob)) (oid_low (obj_objectId ob)) buf off (w_storage w) = Inr (st, s')"
      and w': "w' = w\<lparr>w_storage := s'\<rparr>"
    using assms(2) by (auto simp: Object_pwrite_def elim!: bindE_InrE)
  note W = pwrite_postD [OF storage_pwrite [OF assms(1) wr]]
  show thesis by (rule that [OF w']) (use W in auto)
qed

text \<open>One iteration of the loop of \<open>makeFullCopyOnWrite\<close>.\<close>

definition cow_post ::
  "((int \<times> int) \<Rightarrow> nat \<Rightarrow> byte) \<Rightarrow> ((int \<times> int) \<Rightarrow> nat \<Rightarrow> byte) \<Rightarrow> int \<times> int \<Rightarrow> int \<times> int \<Rightarrow> size_t \<Rightarrow>
   (size_t, ObjectSegment) std_map \<Rightarrow> bool" where
  "cow_post stored stored' S T cursor its \<longleftrightarrow>
     (\<forall>key x. key \<noteq> T \<or> x < cursor \<longrightarrow> stored' key x = stored key x) \<and>
     (\<forall>x k seg. cursor \<le> x \<longrightarrow> (k, seg) \<in> set its \<longrightarrow> x \<le> k \<longrightarrow> \<not> covers (set its) x \<longrightarrow> stored' T x = stored S x)"

lemma cow_postD:
  assumes "cow_post stored stored' S T cursor its"
  shows "key \<noteq> T \<or> x < cursor \<Longrightarrow> stored' key x = stored key x"
    "cursor \<le> x \<Longrightarrow> (k, seg) \<in> set its \<Longrightarrow> x \<le> k \<Longrightarrow> \<not> covers (set its) x \<Longrightarrow> stored' T x = stored S x"
  using assms unfolding cow_post_def by blast+

lemma cow_post_step:
  assumes gap: "\<And>key x. key \<noteq> T \<or> x < cursor \<or> os_offset it \<le> x \<Longrightarrow> s1 key x = s0 key x"
      "\<And>x. cursor \<le> x \<Longrightarrow> x < os_offset it \<Longrightarrow> s1 T x = s0 S x"
    and wr: "\<And>key x. key \<noteq> T \<or> x < os_offset it \<or> k < x \<Longrightarrow> s2 key x = s1 key x"
    and post: "cow_post s2 s3 S T (Suc k) its" and ST: "S \<noteq> T" and ord: "cursor \<le> os_offset it" "os_offset it \<le> k"
  shows "cow_post s0 s3 S T cursor ((k, it) # its)"
  unfolding cow_post_def
proof (intro conjI allI impI)
  note P = cow_postD [OF post]
  show "s3 key x = s0 key x" if "key \<noteq> T \<or> x < cursor" for key x
    using P(1) [of key x] wr [of key x] gap(1) [of key x] that ord by fastforce
  fix x k' seg
  assume x: "cursor \<le> x" "(k', seg) \<in> set ((k, it) # its)" "x \<le> k'" "\<not> covers (set ((k, it) # its)) x"
  then have nc: "x < os_offset it \<or> k < x" "\<not> covers (set its) x" by (auto simp: covers_insert)
  show "s3 T x = s0 S x"
  proof (cases "x < os_offset it")
    case True
    then show ?thesis using P(1) [of T x] wr [of T x] gap(2) [of x] x(1) ord by simp
  next
    case False
    then have "k < x" using nc(1) by simp
    then have "(k', seg) \<in> set its" using x(2,3) by auto
    then have "s3 T x = s2 S x" using P(2) [of x k' seg] x(3) nc(2) \<open>k < x\<close> by simp
    then show ?thesis using wr [of S x] gap(1) [of S x] ST by simp
  qed
qed

lemma cow_gap_effect:
  fixes content :: "'s storage_content" and w :: "'s world"
  assumes so: "storage_ok so content" and lim: "os_offset it < W64"
    and run: "(if cursor < os_offset it then
              if \<not> obj_storageBackend this then Inl NullDereference
              else
                let copySize = os_offset it - cursor in
                bindE (makeCowSegment so (oid_high (obj_objectId this)) (oid_low (obj_objectId this))
                         (oid_high (obj_objectId cow)) (oid_low (obj_objectId cow)) cursor
                         (fresh_bytes copySize w) (w_storage w)) (\<lambda>(status, s).
                bindE (assumeE (status = ssize_t_of copySize) ''Fail to copy on write on the storage for COW !'') (\<lambda>_.
                Inr (w\<lparr>w_storage := s\<rparr>)))
            else Inr w) = Inr w'"
  obtains s' where "w' = w\<lparr>w_storage := s'\<rparr>"
    "\<And>key x. key \<noteq> obj_key cow \<or> x < cursor \<or> os_offset it \<le> x \<Longrightarrow> content s' key x = content (w_storage w) key x"
    "\<And>x. cursor \<le> x \<Longrightarrow> x < os_offset it \<Longrightarrow> content s' (obj_key cow) x = content (w_storage w) (obj_key this) x"
proof (cases "cursor < os_offset it")
  case False
  then have "w' = w\<lparr>w_storage := w_storage w\<rparr>" using run by simp
  then show thesis using that [of "w_storage w"] False by simp
next
  case True
  let ?n = "os_offset it - cursor"
  from run True obtain st s' where
      mk: "makeCowSegment so (oid_high (obj_objectId this)) (oid_low (obj_objectId this)) (oid_high (obj_objectId cow))
        (oid_low (obj_objectId cow)) cursor (fresh_bytes ?n w) (w_storage w) = Inr (st, s')"
      and w': "w' = w\<lparr>w_storage := s'\<rparr>"
    by (auto simp: Let_def split: if_splits elim!: bindE_InrE)
  have len: "length (fresh_bytes ?n w) = ?n" by (simp add: fresh_bytes_def Let_def)
  then have "length (fresh_bytes ?n w) < W64" using lim by simp
  note M = makeCowSegment_effect [OF so this mk]
  show thesis
  proof (rule that [OF w'])
    show "content s' key x = content (w_storage w) key x" if "key \<noteq> obj_key cow \<or> x < cursor \<or> os_offset it \<le> x" for key x
      using M that len True by fastforce
    show "content s' (obj_key cow) x = content (w_storage w) (obj_key this) x" if "cursor \<le> x" "x < os_offset it" for x
      using M that len True by auto
  qed
qed

text \<open>The part of an iteration after the gap: the shared segment, and its bytes when they are clean.\<close>

lemma cow_clean_effect:
  fixes content :: "'s storage_content" and w :: "'s world"
  assumes so: "storage_ok so content"
    and run: "(if \<not> os_dirty seg then
              bindE (read_mem p n (mem_heap (w_mem w))) (\<lambda>buf.
              bindE (Object_pwrite so cow buf (os_offset seg) w) (\<lambda>(status, w).
              bindE (assumeE (status = ssize_t_of n) ''Fail to copy the COW non dirty elements !'') (\<lambda>_.
              Inr w)))
            else Inr w) = Inr w'"
  obtains s' where "w' = w\<lparr>w_storage := s'\<rparr>"
    "\<And>key x. key \<noteq> obj_key cow \<or> x < os_offset seg \<or> os_offset seg + n \<le> x \<Longrightarrow> content s' key x = content (w_storage w) key x"
proof (cases "os_dirty seg")
  case True
  then have "w' = w\<lparr>w_storage := w_storage w\<rparr>" using run by simp
  then show thesis using that [of "w_storage w"] by simp
next
  case False
  then obtain buf st where b: "read_mem p n (mem_heap (w_mem w)) = Inr buf"
      and wr: "Object_pwrite so cow buf (os_offset seg) w = Inr (st, w')"
    using run by (auto elim!: bindE_InrE)
  have len: "length buf = n" using b by (auto elim!: read_mem_Inr)
  obtain s' where s': "w' = w\<lparr>w_storage := s'\<rparr>"
    "\<And>key x. key \<noteq> obj_key cow \<or> x < os_offset seg \<or> os_offset seg + length buf \<le> x \<Longrightarrow> content s' key x = content (w_storage w) key x"
    by (rule Object_pwrite_effect [OF so wr]) (rule that)
  show thesis by (rule that [OF s'(1)]) (use s'(2) len in simp)
qed

lemma fullCow_loop_effect:
  fixes content :: "'s storage_content" and w :: "'s world"
  assumes so: "storage_ok so content" and keys: "obj_key this \<noteq> obj_key cow"
    and "world_ok mb R X w" "map_ok w its" "\<And>k seg. (k, seg) \<in> set its \<Longrightarrow> cursor \<le> os_offset seg"
      "\<And>k' s' k s. (k', s') \<in> set (obj_segmentMap cow) \<Longrightarrow> (k, s) \<in> set its \<Longrightarrow> k' < k"
    and "fullCow_loop so this cursor its cow w = Inr (cow', w')"
  shows "cow' = cow\<lparr>obj_segmentMap := obj_segmentMap cow @ its\<rparr> \<and> world_ok mb (\<lambda>i. R i + map_refs its i) X w' \<and>
    data_kept UNIV w w' \<and>
    cow_post (content (w_storage w)) (content (w_storage w')) (obj_key this) (obj_key cow) cursor its"
  using assms(2-)
proof (induction its arbitrary: R cursor cow w)
  case Nil
  then show ?case by (simp add: cow_post_def)
next
  case (Cons e its)
  obtain k it where e: "e = (k, it)" by force
  note M = map_ok_Cons [OF Cons.prems(3) [unfolded e]]
  obtain i osm c blk xs where s: "os_memory it = Some i" "w_shared w i = Some (osm, c)"
      "osm_buffer osm = Ptr blk 0" "w_blocks w blk = Some xs" "osm_size osm = length xs"
      "seg_bytes w it = Some xs" "xs \<noteq> []" "os_offset it + length xs = Suc k" "Suc k < W64" "c = R i" "0 < R i"
    by (rule seg_entry [OF Cons.prems(2) M(2)])
  then have osm: "seg_memory it w = Inr osm" by (auto simp: seg_memory_Inr)
  have lim: "os_offset it < W64" "os_offset it \<le> k" using s(7,8,9) by (simp, cases xs) auto
  have new: "sm_find (obj_segmentMap cow) k = None" and app: "sm_set k it (obj_segmentMap cow) = obj_segmentMap cow @ [(k, it)]"
    using Cons.prems(5) e by (auto intro!: sm_find_None_if_less sm_set_append)
  from Cons.prems(6) [unfolded e fullCow_loop.simps osm bindE_Inr] obtain w1 where
      gap: "(if cursor < os_offset it then
              if \<not> obj_storageBackend this then Inl NullDereference
              else
                let copySize = os_offset it - cursor in
                bindE (makeCowSegment so (oid_high (obj_objectId this)) (oid_low (obj_objectId this))
                         (oid_high (obj_objectId cow)) (oid_low (obj_objectId cow)) cursor
                         (fresh_bytes copySize w) (w_storage w)) (\<lambda>(status, s).
                bindE (assumeE (status = ssize_t_of copySize) ''Fail to copy on write on the storage for COW !'') (\<lambda>_.
                Inr (w\<lparr>w_storage := s\<rparr>)))
            else Inr w) = Inr w1"
      and rest: "bindE (makeCowOf (segmentMap_at k cow) it w1) (\<lambda>(seg, w).
     let cow = cow\<lparr>obj_segmentMap := sm_set k seg (obj_segmentMap cow)\<rparr> in
     bindE (if \<not> os_dirty seg then
              bindE (read_mem (osm_buffer osm) (osm_size osm) (mem_heap (w_mem w))) (\<lambda>buf.
              bindE (Object_pwrite so cow buf (os_offset seg) w) (\<lambda>(status, w).
              bindE (assumeE (status = ssize_t_of (osm_size osm)) ''Fail to copy the COW non dirty elements !'') (\<lambda>_.
              Inr w)))
            else Inr w) (\<lambda>w.
     fullCow_loop so this (add64 (os_offset it) (osm_size osm)) its cow w)) = Inr (cow', w')"
    by (rule bindE_InrE)
  obtain s1 where w1: "w1 = w\<lparr>w_storage := s1\<rparr>"
      "\<And>key x. key \<noteq> obj_key cow \<or> x < cursor \<or> os_offset it \<le> x \<Longrightarrow> content s1 key x = content (w_storage w) key x"
      "\<And>x. cursor \<le> x \<Longrightarrow> x < os_offset it \<Longrightarrow> content s1 (obj_key cow) x = content (w_storage w) (obj_key this) x"
    by (rule cow_gap_effect [OF so lim(1) gap]) (rule that)
  let ?cow = "cow\<lparr>obj_segmentMap := obj_segmentMap cow @ [(k, it)]\<rparr>"
  have ok1: "world_ok mb R X w1" using Cons.prems(2) w1(1) by simp
  from rest obtain seg w2 where mk: "makeCowOf (segmentMap_at k cow) it w1 = Inr (seg, w2)"
    by (auto elim!: bindE_InrE)
  have null: "os_memory (segmentMap_at k cow) = None" using new by (simp add: segmentMap_at_def ObjectSegment_null_def)
  note C = makeCowOf_effect [OF ok1 mk s(1) null]
  from rest [unfolded mk bindE_Inr prod.case C(1) app Let_def] obtain w3 where
      clean: "(if \<not> os_dirty it then
              bindE (read_mem (osm_buffer osm) (osm_size osm) (mem_heap (w_mem w2))) (\<lambda>buf.
              bindE (Object_pwrite so ?cow buf (os_offset it) w2) (\<lambda>(status, w).
              bindE (assumeE (status = ssize_t_of (osm_size osm)) ''Fail to copy the COW non dirty elements !'') (\<lambda>_.
              Inr w)))
            else Inr w2) = Inr w3"
      and next_it: "fullCow_loop so this (add64 (os_offset it) (osm_size osm)) its ?cow w3 = Inr (cow', w')"
    by (rule bindE_InrE)
  obtain s3 where w3: "w3 = w2\<lparr>w_storage := s3\<rparr>"
      "\<And>key x. key \<noteq> obj_key ?cow \<or> x < os_offset it \<or> os_offset it + osm_size osm \<le> x \<Longrightarrow>
         content s3 key x = content (w_storage w2) key x"
    by (rule cow_clean_effect [OF so clean]) (rule that)
  have cur: "add64 (os_offset it) (osm_size osm) = Suc k" using s(5,8,9) by simp
  have kept: "data_kept UNIV w w3" using C(4) [of UNIV] w1(1) w3(1) by simp
  have ok3: "world_ok mb (R(i := Suc (R i))) X w3" using C(3) w3(1) by simp
  have "map_ok w3 its" using M(1) kept by (metis data_kept_mono kept_view map_ok_view subset_UNIV)
  moreover have "Suc k \<le> os_offset s'" if "(k', s') \<in> set its" for k' s' using M(3) [OF that] by simp
  moreover have "k1 < k2" if "(k1, s1) \<in> set (obj_segmentMap ?cow)" "(k2, s2) \<in> set its" for k1 s1 k2 s2
    using that Cons.prems(5) [of k1 s1 k2 s2] map_okD(1) [OF Cons.prems(3)] e by auto
  ultimately have IH: "cow' = ?cow\<lparr>obj_segmentMap := obj_segmentMap ?cow @ its\<rparr> \<and>
      world_ok mb (\<lambda>j. (R(i := Suc (R i))) j + map_refs its j) X w' \<and> data_kept UNIV w3 w' \<and>
      cow_post (content (w_storage w3)) (content (w_storage w')) (obj_key this) (obj_key ?cow) (Suc k) its"
    using Cons.IH [OF _ ok3 _ _ _ next_it [unfolded cur]] Cons.prems(1) by simp
  have "cow_post (content (w_storage w)) (content (w_storage w')) (obj_key this) (obj_key cow) cursor ((k, it) # its)"
  proof (rule cow_post_step [OF w1(2,3)])
    show "cow_post (content s3) (content (w_storage w')) (obj_key this) (obj_key cow) (Suc k) its"
      using IH w3(1) by simp
    show "content s3 key x = content s1 key x" if "key \<noteq> obj_key cow \<or> x < os_offset it \<or> k < x" for key x
      using w3(2) [of key x] that C(5) w1(1) s(5,8) by auto
    show "obj_key this \<noteq> obj_key cow" "cursor \<le> os_offset it" "os_offset it \<le> k"
      using Cons.prems(1,4) e lim by auto
  qed
  moreover have "(\<lambda>j. (R(i := Suc (R i))) j + map_refs its j) = (\<lambda>j. R j + map_refs ((k, it) # its) j)"
    using s(1) by (auto simp: fun_eq_iff)
  ultimately show ?case using IH e kept by (auto dest: data_kept_trans)
qed

lemma Object_create_effect:
  assumes "storage_ok so content" "Object_create so ob w = Inr (st, w')"
  obtains s' where "w' = w\<lparr>w_storage := s'\<rparr>" "content s' = content (w_storage w)"
proof (cases "obj_storageBackend ob")
  case True
  then obtain s' where "so_create so (oid_high (obj_objectId ob)) (oid_low (obj_objectId ob)) (w_storage w) = Inr (st, s')"
      "w' = w\<lparr>w_storage := s'\<rparr>"
    using assms(2) by (auto simp: Object_create_def elim!: bindE_InrE)
  then show thesis using that storage_create [OF assms(1)] by blast
next
  case False
  then have "w' = w\<lparr>w_storage := w_storage w\<rparr>" using assms(2) by (simp add: Object_create_def)
  then show thesis using that by blast
qed

lemma view_byte_None_iff:
  assumes "map_ok w m"
  shows "view_byte w m x = None \<longleftrightarrow> \<not> covers (set m) x"
proof
  assume "view_byte w m x = None"
  then show "\<not> covers (set m) x"
    using view_byte_eq [OF assms] map_okD(2) [OF assms] by (fastforce simp: covers_def elim!: seg_okE)
next
  assume nc: "\<not> covers (set m) x"
  show "view_byte w m x = None"
  proof (rule ccontr)
    assume "view_byte w m x \<noteq> None"
    then obtain b where "view_byte w m x = Some b" by blast
    then show False using nc by (auto simp: covers_def elim!: view_byte_SomeD [OF assms])
  qed
qed

lemma makeFullCopyOnWrite_effect:
  fixes content :: "'s storage_content" and w :: "'s world"
  assumes so: "storage_ok so content" and new: "targetId \<noteq> obj_objectId this"
    and ok: "world_ok mb R X w" and mok: "map_ok w (obj_segmentMap this)"
    and run: "makeFullCopyOnWrite so targetId allowExist this w = Inr (cow, w')"
  shows "cow = this\<lparr>obj_objectId := targetId, obj_consistencyTracker := ConsistencyTracker_init\<rparr>"
    "world_ok mb (\<lambda>i. R i + map_refs (obj_segmentMap this) i) X w'" "data_kept UNIV w w'"
    "cow_post (content (w_storage w)) (content (w_storage w')) (obj_key this) (oid_high targetId, oid_low targetId) 0 (obj_segmentMap this)"
proof -
  let ?cow = "Object_init (obj_storageBackend this) (obj_memoryBackend this) targetId (obj_alignement this)"
  from run obtain st w1 where cr: "Object_create so ?cow w = Inr (st, w1)"
      and loop: "fullCow_loop so this 0 (obj_segmentMap this) ?cow w1 = Inr (cow, w')"
    by (auto simp: makeFullCopyOnWrite_def Let_def elim!: bindE_InrE)
  obtain s1 where w1: "w1 = w\<lparr>w_storage := s1\<rparr>" "content s1 = content (w_storage w)"
    by (rule Object_create_effect [OF so cr])
  have keys: "obj_key this \<noteq> obj_key ?cow" using new by (auto simp: Object_init_def ObjectId.expand)
  have empty: "obj_segmentMap ?cow = []" by (simp add: Object_init_def)
  have e: "cow = ?cow\<lparr>obj_segmentMap := obj_segmentMap ?cow @ obj_segmentMap this\<rparr> \<and>
      world_ok mb (\<lambda>i. R i + map_refs (obj_segmentMap this) i) X w' \<and> data_kept UNIV w1 w' \<and>
      cow_post (content (w_storage w1)) (content (w_storage w')) (obj_key this) (obj_key ?cow) 0 (obj_segmentMap this)"
    by (rule fullCow_loop_effect [OF so keys _ _ _ _ loop]) (use ok mok w1 empty in auto)
  then show "cow = this\<lparr>obj_objectId := targetId, obj_consistencyTracker := ConsistencyTracker_init\<rparr>"
    by (simp add: Object_init_def)
  show "world_ok mb (\<lambda>i. R i + map_refs (obj_segmentMap this) i) X w'" "data_kept UNIV w w'"
    "cow_post (content (w_storage w)) (content (w_storage w')) (obj_key this) (oid_high targetId, oid_low targetId) 0 (obj_segmentMap this)"
    using e w1 by (simp_all add: Object_init_def)
qed

text \<open>
  C17. A full copy on write returns an object with the content of the source up to the end of
  its last loaded segment: the loaded segments are shared, and what lies between them is copied
  on the storage.  The source, every other object of the storage and the memory of every
  segment are unchanged, and the use counts account for the new references.
\<close>

theorem full_cow_content:
  fixes content :: "'s storage_content" and w :: "'s world"
  assumes so: "storage_ok so content" and new: "targetId \<noteq> obj_objectId this"
    and ok: "world_ok mb (\<lambda>i. map_refs (obj_segmentMap this) i + E i) X w" and mok: "map_ok w (obj_segmentMap this)"
    and run: "makeFullCopyOnWrite so targetId allowExist this w = Inr (cow, w')"
  shows "obj_objectId cow = targetId \<and> map_ok w' (obj_segmentMap cow) \<and> map_ok w' (obj_segmentMap this) \<and>
    world_ok mb (\<lambda>i. map_refs (obj_segmentMap cow) i + (map_refs (obj_segmentMap this) i + E i)) X w' \<and>
    (\<forall>k seg x. (k, seg) \<in> set (obj_segmentMap this) \<and> x \<le> k \<longrightarrow>
       object_byte content w' cow x = object_byte content w this x) \<and>
    object_byte content w' this = object_byte content w this \<and>
    (\<forall>key x. key \<noteq> obj_key cow \<longrightarrow> content (w_storage w') key x = content (w_storage w) key x)"
proof -
  note F = makeFullCopyOnWrite_effect [OF so new ok mok run]
  note P = cow_postD [OF F(4)]
  have segs: "obj_segmentMap cow = obj_segmentMap this" and oid: "obj_objectId cow = targetId" using F(1) by simp_all
  have view: "map_view w' (obj_segmentMap this) = map_view w (obj_segmentMap this)"
    by (rule kept_view [OF data_kept_mono [OF F(3)]]) simp
  have mok': "map_ok w' (obj_segmentMap this)" by (rule map_ok_view [OF view mok])
  note vb = view_byte_view [OF view]
  have "object_byte content w' cow x = object_byte content w this x"
    if "(k, seg) \<in> set (obj_segmentMap this)" "x \<le> k" for k seg x
    using view_byte_None_iff [OF mok, of x] P(2) [OF _ that] oid vb
    by (cases "view_byte w (obj_segmentMap this) x") (simp_all add: object_byte_def segs)
  moreover have "object_byte content w' this = object_byte content w this"
  proof -
    have "obj_key this \<noteq> (oid_high targetId, oid_low targetId)" using new by (auto simp: ObjectId.expand)
    then show ?thesis using P(1) [of "obj_key this"] by (simp add: object_byte_def vb fun_eq_iff split: option.split)
  qed
  moreover have "world_ok mb (\<lambda>i. map_refs (obj_segmentMap cow) i + (map_refs (obj_segmentMap this) i + E i)) X w'"
    using F(2) by (simp add: segs add.commute)
  ultimately show ?thesis using mok' segs oid P(1) by auto
qed

theorem full_cow_content_witness:
  "\<exists>(cow :: object) (w' :: table world). makeFullCopyOnWrite table_ops (ObjectId 0 7) False wit_a wit_shared_world = Inr (cow, w') \<and>
     object_byte (\<lambda>t. t) w' cow 1 = 20"
proof -
  obtain cow and w' :: "table world" where run: "makeFullCopyOnWrite table_ops (ObjectId 0 7) False wit_a wit_shared_world = Inr (cow, w')"
    by (simp add: makeFullCopyOnWrite_def Object_create_def Object_init_def wit_a_def wit_seg_def seg_memory_def
        wit_shared_world_def makeCowOf_def shared_copy_def shared_drop_def segmentMap_at_def ObjectSegment_null_def
        table_ops_def Object_pwrite_def ssize_t_of_def)
  have b: "object_byte (\<lambda>t. t) wit_shared_world wit_a 1 = 20"
    by (simp add: object_byte_def view_byte_def wit_a_def wit_seg_def Object_init_def sm_lower_bound_def seg_bytes_def
        shared_bytes_def wit_shared_world_def)
  have new: "ObjectId 0 7 \<noteq> obj_objectId wit_a" by (simp add: wit_a_def Object_init_def)
  have "(1, wit_seg) \<in> set (obj_segmentMap wit_a)" by (simp add: wit_a_def)
  then have "object_byte (\<lambda>t. t) w' cow 1 = object_byte (\<lambda>t. t) wit_shared_world wit_a 1"
    using full_cow_content [OF table_ok new wit_shared_ok(1,2) run] by blast
  then show ?thesis using run b by auto
qed

section \<open>Destruction\<close>

text \<open>Dropping the segments of an object gives back its references and disturbs no other segment.\<close>

lemma destroy_loop_effect:
  fixes w :: "'s world"
  assumes "world_ok mb (\<lambda>i. map_refs segs i + E i) X w" "\<And>k seg. (k, seg) \<in> set segs \<Longrightarrow> os_memory seg \<noteq> None"
    "Object_destroy_loop segs w = Inr w'"
  shows "world_ok mb E X w' \<and> data_kept {i. 0 < E i} w w' \<and> w_storage w' = w_storage w"
  using assms
proof (induction segs arbitrary: w)
  case (Cons e segs)
  obtain k seg where e: "e = (k, seg)" by force
  with Cons.prems(2) [of k seg] obtain i where i: "os_memory seg = Some i" by auto
  from Cons.prems(3) e i obtain w1 where d: "shared_drop (Some i) w = Inr w1" and r: "Object_destroy_loop segs w1 = Inr w'"
    by (auto elim!: bindE_InrE)
  note D = world_drop [OF Cons.prems(1) d]
  have "(\<lambda>j. map_refs (e # segs) j + E j)(i := map_refs (e # segs) i + E i - 1) = (\<lambda>j. map_refs segs j + E j)"
    using e i by (auto simp: fun_eq_iff)
  then have ok1: "world_ok mb (\<lambda>j. map_refs segs j + E j) X w1" using D(1) by simp
  have "data_kept {j. 0 < E j} w w1" using D(4) [of "{j. 0 < E j}"] e i by auto
  moreover have "world_ok mb E X w' \<and> data_kept {i. 0 < E i} w1 w' \<and> w_storage w' = w_storage w1"
    using Cons.IH [OF ok1 _ r] Cons.prems(2) by fastforce
  ultimately show ?case using D(2) by (auto dest: data_kept_trans)
qed simp

lemma Object_destroy_effect:
  assumes "world_ok mb (\<lambda>i. map_refs (obj_segmentMap ob) i + E i) X w" "map_ok w (obj_segmentMap ob)"
    "Object_destroy ob w = Inr w'"
  shows "world_ok mb E X w' \<and> data_kept {i. 0 < E i} w w' \<and> w_storage w' = w_storage w"
  using destroy_loop_effect [OF assms(1) _ assms(3) [unfolded Object_destroy_def]] map_okD(2) [OF assms(2)]
  by (metis option.distinct(1) seg_okE)

section \<open>Copy on write of a range\<close>

text \<open>
  The invariant an operation on one object keeps: its segments are well formed, and the use
  counts are its references plus the references \<open>E\<close> of everything else.
\<close>

definition object_inv :: "frame \<Rightarrow> nat \<Rightarrow> (nat \<Rightarrow> nat) \<Rightarrow> object \<Rightarrow> 's world \<Rightarrow> bool" where
  "object_inv X mb E ob w \<longleftrightarrow> world_ok mb (\<lambda>i. map_refs (obj_segmentMap ob) i + E i) X w \<and> map_ok w (obj_segmentMap ob)"

text \<open>The contract of such an operation: nothing else changes.\<close>

definition object_step :: "frame \<Rightarrow> nat \<Rightarrow> (nat \<Rightarrow> nat) \<Rightarrow> object \<Rightarrow> 's world \<Rightarrow> object \<Rightarrow> 's world \<Rightarrow> bool" where
  "object_step X mb E ob w ob' w' \<longleftrightarrow> object_inv X mb E ob' w' \<and> data_kept {i. 0 < E i} w w' \<and>
     ob' = ob\<lparr>obj_segmentMap := obj_segmentMap ob'\<rparr> \<and> (grid_ok ob \<longrightarrow> grid_ok ob')"

lemma object_step_refl: "object_inv X mb E ob w \<Longrightarrow> object_step X mb E ob w ob w"
  by (simp add: object_step_def)

lemma object_step_trans:
  "object_step X mb E ob w ob1 w1 \<Longrightarrow> object_step X mb E ob1 w1 ob2 w2 \<Longrightarrow> object_step X mb E ob w ob2 w2"
  unfolding object_step_def by (metis (no_types, lifting) data_kept_trans object.surjective object.update_convs(2))

lemma object_step_fields:
  assumes "object_step X mb E ob w ob' w'"
  shows "obj_memoryBackend ob' = obj_memoryBackend ob" "obj_alignement ob' = obj_alignement ob"
    "obj_objectId ob' = obj_objectId ob" "obj_storageBackend ob' = obj_storageBackend ob"
    "obj_consistencyTracker ob' = obj_consistencyTracker ob"
  using assms unfolding object_step_def by (metis object.select_convs object.surjective object.update_convs(2))+

lemma getBuffers_step:
  fixes content :: "'s storage_content"
  assumes "object_inv X mb E ob w" "obj_memoryBackend ob = mb" "storage_ok so content"
    and "origBase + origSize + obj_alignement ob < W64"
    and "getBuffers fi so origBase origSize mode load isW ob w = Inr (res, segs, ob', w')"
  shows "object_step X mb E ob w ob' w'" "content (w_storage w') = content (w_storage w)"
proof -
  obtain base n where al: "align_range (obj_alignement ob) origBase origSize = (base, n)" by force
  note G = getBuffers_effect [OF _ _ assms(2,3) al assms(4,5), of E]
  show "object_step X mb E ob w ob' w'"
    using G(1) assms(1) unfolding object_inv_def object_step_def access_post_def Let_def by blast
  show "content (w_storage w') = content (w_storage w)" using G(2) assms(1) unfolding object_inv_def by blast
qed

lemma makeCowOf_replace:
  assumes ok: "world_ok mb R X w" and c: "makeCowOf seg orig w = Inr (seg', w')"
    and i: "os_memory orig = Some i" and j: "os_memory seg = Some j"
  shows "seg' = orig" "world_ok mb ((R(i := Suc (R i)))(j := (R(i := Suc (R i))) j - 1)) X w'"
    "1 < (R(i := Suc (R i))) j \<or> j \<notin> S \<Longrightarrow> data_kept S w w'" "w_storage w' = w_storage w"
proof -
  obtain w1 where cp: "shared_copy (Some i) w = Inr w1" and dr: "shared_drop (Some j) w1 = Inr w'"
    using c i j by (auto simp: makeCowOf_def elim!: bindE_InrE)
  note C = world_copy [OF ok cp]
  note D = world_drop [OF C(1) dr]
  show "seg' = orig" using c i by (auto simp: makeCowOf_def elim!: bindE_InrE)
  show "world_ok mb ((R(i := Suc (R i)))(j := (R(i := Suc (R i))) j - 1)) X w'" by (rule D(1))
  show "w_storage w' = w_storage w" using C(3) D(2) by simp
  show "data_kept S w w'" if "1 < (R(i := Suc (R i))) j \<or> j \<notin> S"
    using data_kept_trans [OF C(2) D(4) [OF that]] .
qed

lemma map_refs_replace:
  assumes "sm_ok m" "sm_find m k = Some old"
  shows "map_refs (sm_set k seg m) i + (if os_memory old = Some i then 1 else 0) =
    map_refs m i + (if os_memory seg = Some i then 1 else 0)"
  using assms
proof (induction m)
  case (Cons e m)
  obtain k' s where e: "e = (k', s)" by force
  show ?case
  proof (cases "k' = k")
    case False
    then have "sm_find m k = Some old" using Cons.prems(2) e by simp
    moreover from this have "k' < k" using Cons.prems(1) e by (auto dest!: map_of_SomeD)
    ultimately show ?thesis using Cons e by simp
  qed (use Cons.prems e in simp)
qed simp

text \<open>Sharing a segment of another object under the key of its last byte.\<close>

lemma share_segment_step:
  fixes w :: "'s world"
  assumes inv: "object_inv X mb E ob w" and seg: "seg_ok w k orig"
    and grid: "grid_ok ob \<Longrightarrow> on_grid (obj_alignement ob) (os_offset orig) \<and> on_grid (obj_alignement ob) (Suc k)"
    and fits: "\<And>k' s'. (k', s') \<in> set (obj_segmentMap ob) \<Longrightarrow> k' < os_offset orig \<or> (k' = k \<and> os_offset s' = os_offset orig) \<or> k < os_offset s'"
    and c: "makeCowOf (segmentMap_at k ob) orig w = Inr (seg', w')"
  shows "object_step X mb E ob w (ob\<lparr>obj_segmentMap := sm_set k seg' (obj_segmentMap ob)\<rparr>) w' \<and> w_storage w' = w_storage w"
proof -
  let ?m = "obj_segmentMap ob" and ?R = "\<lambda>i. map_refs (obj_segmentMap ob) i + E i"
  have ok: "world_ok mb ?R X w" and mok: "map_ok w ?m" using inv by (auto simp: object_inv_def)
  note M = map_okD [OF mok]
  obtain i xs where i: "os_memory orig = Some i" "seg_bytes w orig = Some xs" "os_offset orig \<le> k" "shared_bytes w i = Some xs"
    using seg by (rule seg_okE)
  have main: "seg' = orig \<and> world_ok mb (\<lambda>l. map_refs (sm_set k orig ?m) l + E l) X w' \<and>
      data_kept ({l. 0 < E l} \<union> {l. 0 < map_refs (sm_set k orig ?m) l}) w w' \<and> w_storage w' = w_storage w"
  proof (cases "sm_find ?m k")
    case None
    then have null: "os_memory (segmentMap_at k ob) = None" by (simp add: segmentMap_at_def ObjectSegment_null_def)
    note C = makeCowOf_effect [OF ok c i(1) null]
    have "(?R(i := Suc (?R i))) = (\<lambda>l. map_refs (sm_set k orig ?m) l + E l)"
      using None i(1) by (auto simp: fun_eq_iff map_refs_sm_set)
    then show ?thesis using C(1,3,4,5) by simp
  next
    case (Some old)
    then have at: "segmentMap_at k ob = old" and mem: "(k, old) \<in> set ?m"
      by (simp_all add: segmentMap_at_def map_of_SomeD)
    obtain j where j: "os_memory old = Some j" using M(2) [OF mem] by (rule seg_okE)
    note C = makeCowOf_replace [OF ok c [unfolded at] i(1) j]
    have refs: "((?R(i := Suc (?R i)))(j := (?R(i := Suc (?R i))) j - 1)) l = map_refs (sm_set k orig ?m) l + E l" for l
      using map_refs_replace [OF M(1) Some, of orig l] map_refs_pos [OF mem j] i(1) j by (auto split: if_splits)
    have "1 < (?R(i := Suc (?R i))) j \<or> j \<notin> {l. 0 < E l} \<union> {l. 0 < map_refs (sm_set k orig ?m) l}"
      using refs [of j] map_refs_pos [OF mem j] by (auto split: if_splits)
    then have "data_kept ({l. 0 < E l} \<union> {l. 0 < map_refs (sm_set k orig ?m) l}) w w'" by (rule C(3))
    moreover have "((?R(i := Suc (?R i)))(j := (?R(i := Suc (?R i))) j - 1)) = (\<lambda>l. map_refs (sm_set k orig ?m) l + E l)"
      by (rule ext) (rule refs)
    ultimately show ?thesis using C(1,2,4) by (simp only: simp_thms)
  qed
  have "map_ok w (sm_set k orig ?m)"
  proof (rule map_okI)
    show "sm_ok (sm_set k orig ?m)" by (rule sm_ok_set [OF M(1)])
    show "seg_ok w k' s'" if "(k', s') \<in> set (sm_set k orig ?m)" for k' s'
      using that seg M(2) by (auto simp: set_sm_set [OF M(1)])
    show "k1 < os_offset s2" if kk: "(k1, s1) \<in> set (sm_set k orig ?m)" "(k2, s2) \<in> set (sm_set k orig ?m)" "k1 < k2" for k1 s1 k2 s2
    proof -
      consider "k1 = k" "(k2, s2) \<in> set ?m" | "(k1, s1) \<in> set ?m" "k2 = k" "s2 = orig" | "(k1, s1) \<in> set ?m" "(k2, s2) \<in> set ?m"
        using kk by (auto simp: set_sm_set [OF M(1)])
      then show ?thesis
      proof cases
        case 1
        then show ?thesis using fits [of k2 s2] kk(3) i(3) by auto
      next
        case 2
        then show ?thesis using fits [of k1 s1] kk(3) M(2) [OF 2(1)] by (auto elim!: seg_okE)
      next
        case 3
        then show ?thesis using M(3) kk(3) by blast
      qed
    qed
  qed
  moreover have "map_view w' (sm_set k orig ?m) = map_view w (sm_set k orig ?m)"
    by (rule kept_view [OF data_kept_mono]) (use main in auto)
  ultimately have "map_ok w' (sm_set k orig ?m)" by (metis map_ok_view)
  moreover have "data_kept {l. 0 < E l} w w'" using main by (auto elim: data_kept_mono)
  moreover have "grid_ok ob \<longrightarrow> grid_ok (ob\<lparr>obj_segmentMap := sm_set k orig ?m\<rparr>)"
    using grid unfolding grid_ok_def by (auto simp: set_sm_set [OF M(1)])
  ultimately show ?thesis using main by (simp add: object_step_def object_inv_def)
qed

text \<open>Descriptors of segments that only the object references.\<close>

definition private_descr :: "(nat \<Rightarrow> nat) \<Rightarrow> object \<Rightarrow> 's world \<Rightarrow> ObjectSegmentDescr \<Rightarrow> bool" where
  "private_descr E ob w d \<longleftrightarrow> (\<exists>k seg i. (k, seg) \<in> set (obj_segmentMap ob) \<and> os_memory seg = Some i \<and>
     map_refs (obj_segmentMap ob) i + E i = 1 \<and> getSegmentDescr seg w = Inr d)"

lemma buffers_private:
  assumes "buffers_post (\<lambda>i. map_refs (obj_segmentMap ob) i + E i) ACCESS_WRITE base n ob w segs" "d \<in> set segs"
  shows "private_descr E ob w d"
  using assms unfolding buffers_post_def private_descr_def descr_set_def in_range_def by fastforce

lemma private_write:
  assumes inv: "object_inv X mb E ob w" and d: "private_descr E ob w d"
    and wr: "write_mem (ptr_add (osd_ptr d) j) ys (mem_heap (w_mem w)) = Inr h"
  shows "object_step X mb E ob w ob (w_set_heap h w)" "w_storage (w_set_heap h w) = w_storage w"
    "entry_of (w_set_heap h w) = entry_of w" "j + length ys \<le> osd_size d"
    "view_byte (w_set_heap h w) (obj_segmentMap ob) x = (if osd_offset d + j \<le> x \<and> x < osd_offset d + j + length ys
       then Some (ys ! (x - (osd_offset d + j))) else view_byte w (obj_segmentMap ob) x)"
proof -
  obtain k seg i where s: "(k, seg) \<in> set (obj_segmentMap ob)" "os_memory seg = Some i"
      "map_refs (obj_segmentMap ob) i + E i = 1" and g: "getSegmentDescr seg w = Inr d"
    using d by (auto simp: private_descr_def)
  have off: "osd_offset d = os_offset seg" using g by (auto simp: getSegmentDescr_def elim!: bindE_InrE)
  have ok: "world_ok mb (\<lambda>i. map_refs (obj_segmentMap ob) i + E i) X w" "map_ok w (obj_segmentMap ob)"
    using inv by (auto simp: object_inv_def)
  note W = seg_write [OF ok s g wr]
  show "object_step X mb E ob w ob (w_set_heap h w)" using W(1-3) by (simp add: object_step_def object_inv_def)
  show "w_storage (w_set_heap h w) = w_storage w" "entry_of (w_set_heap h w) = entry_of w" "j + length ys \<le> osd_size d"
    by (rule W(5), rule W(4), rule W(6))
  show "view_byte (w_set_heap h w) (obj_segmentMap ob) x = (if osd_offset d + j \<le> x \<and> x < osd_offset d + j + length ys
       then Some (ys ! (x - (osd_offset d + j))) else view_byte w (obj_segmentMap ob) x)"
    unfolding off by (rule W(7))
qed

lemma private_descr_kept:
  "entry_of w' = entry_of w \<Longrightarrow> private_descr E ob w' d = private_descr E ob w d"
  unfolding private_descr_def using getSegmentDescr_eq by metis

lemma cow_copy_step:
  fixes w :: "'s world"
  assumes "object_inv X mb E ob w" "\<And>d. d \<in> set segs \<Longrightarrow> private_descr E ob w d"
    "cow_copy_loop origBuffer innerOffset innerSize absOffset segs w = Inr w'"
  shows "object_step X mb E ob w ob w' \<and> w_storage w' = w_storage w"
  using assms
proof (induction segs arbitrary: innerOffset innerSize absOffset w)
  case Nil
  then show ?case by (simp add: object_step_refl)
next
  case (Cons d segs)
  from Cons.prems(3) obtain c h io ins ab j where
      cp: "memcpy (ptr_add (osd_ptr d) j) (ptr_add origBuffer innerOffset) c (mem_heap (w_mem w)) = Inr h"
      and r: "cow_copy_loop origBuffer io ins ab segs (w_set_heap h w) = Inr w'"
    by (auto simp: Let_def elim!: bindE_InrE)
  from cp obtain ys where wr: "write_mem (ptr_add (osd_ptr d) j) ys (mem_heap (w_mem w)) = Inr h"
    by (auto simp: memcpy_def elim!: bindE_InrE)
  note P = private_write [OF Cons.prems(1) Cons.prems(2) [of d, simplified] wr]
  have "object_inv X mb E ob (w_set_heap h w)" using P(1) by (simp add: object_step_def)
  then have "object_step X mb E ob (w_set_heap h w) ob w' \<and> w_storage w' = w_storage (w_set_heap h w)"
    using Cons.IH [OF _ _ r] Cons.prems(2) private_descr_kept [OF P(3)] by simp
  then show ?case using object_step_trans [OF P(1)] P(2) by auto
qed

text \<open>The part of a segment inside the range.\<close>

lemma cow_inner_bounds:
  assumes "cow_inner so sn offset n = (io, ins, p)" "so < offset + n" "offset < so + sn" "so + sn < W64" "offset + n < W64"
  shows "so + io + ins \<le> so + sn" "so + io + ins \<le> offset + n" "p \<or> (io = 0 \<and> ins = sn)"
  using assms by (auto simp: cow_inner_def Let_def sub64_def split: if_splits)

lemma rangeCow_segment_step:
  fixes content :: "'s storage_content" and w :: "'s world"
  assumes inv: "object_inv X mb E ob w" "obj_memoryBackend ob = mb" "storage_ok so content"
    and grid: "grid_ok ob \<Longrightarrow> on_grid (obj_alignement ob) (os_offset orig) \<and> on_grid (obj_alignement ob) (Suc k)"
    and seg: "seg_ok w k orig" and ov: "os_offset orig < offset + n" "offset \<le> k" "offset + n + obj_alignement ob < W64"
    and run: "rangeCopyOnWriteSegment fi so orig reread offset n ob w = Inr (ob', w')"
  shows "object_step X mb E ob w ob' w' \<and> content (w_storage w') = content (w_storage w)"
proof -
  have ok: "world_ok mb (\<lambda>i. map_refs (obj_segmentMap ob) i + E i) X w" and mok: "map_ok w (obj_segmentMap ob)"
    using inv(1) by (auto simp: object_inv_def)
  note M = map_okD [OF mok]
  obtain i osm c blk xs where s: "os_memory orig = Some i" "w_shared w i = Some (osm, c)"
      "osm_buffer osm = Ptr blk 0" "w_blocks w blk = Some xs" "osm_size osm = length xs"
      "seg_bytes w orig = Some xs" "xs \<noteq> []" "os_offset orig + length xs = Suc k" "Suc k < W64"
    by (rule seg_entry [OF ok seg])
  have osm: "seg_memory orig w = Inr osm" using s(1,2) by (auto simp: seg_memory_Inr)
  obtain io ins p where inner: "cow_inner (os_offset orig) (osm_size osm) offset n = (io, ins, p)"
    by (metis prod_cases3)
  have b: "os_offset orig + io + ins \<le> Suc k" "os_offset orig + io + ins \<le> offset + n"
    using cow_inner_bounds [OF inner] ov s(5,8,9) by simp_all
  have key: "sub64 (add64 (os_offset orig) (osm_size osm)) 1 = k" using s(5,8,9) by simp
  from run [unfolded rangeCopyOnWriteSegment_def osm bindE_Inr inner Let_def prod.case] obtain lp where
      lp: "(case sm_lower_bound (os_offset orig) (obj_segmentMap ob) of
              [] \<Rightarrow> Inr False
            | (_, target) # _ \<Rightarrow>
                if os_offset target \<noteq> os_offset orig then Inr True
                else bindE (seg_memory target w) (\<lambda>tosm. Inr (osm_size tosm \<noteq> osm_size osm))) = Inr lp"
      and r: "(if p \<or> lp then
         bindE (getBuffers fi so (add64 (os_offset orig) io) ins ACCESS_WRITE True False ob w) (\<lambda>(_, segments, ob, w).
         bindE (if segments = [] then Inr (osm_buffer osm) else bindE (seg_memory (reread ob) w) (\<lambda>osm. Inr (osm_buffer osm))) (\<lambda>buffer.
         bindE (cow_copy_loop buffer io ins (add64 (os_offset orig) io) segments w) (\<lambda>w. Inr (ob, w))))
       else
         bindE (makeCowOf (segmentMap_at k ob) orig w) (\<lambda>(seg, w).
         Inr (ob\<lparr>obj_segmentMap := sm_set k seg (obj_segmentMap ob)\<rparr>, w))) = Inr (ob', w')"
    unfolding key by (rule bindE_InrE)
  show ?thesis
  proof (cases "p \<or> lp")
    case True
    have a: "add64 (os_offset orig) io = os_offset orig + io" using b(1) s(9) by simp
    from r True a obtain res segs w1 buffer where
        gb: "getBuffers fi so (os_offset orig + io) ins ACCESS_WRITE True False ob w = Inr (res, segs, ob', w1)"
        and cl: "cow_copy_loop buffer io ins (os_offset orig + io) segs w1 = Inr w'"
      by (auto split: if_split_asm elim!: bindE_InrE)
    have lim: "os_offset orig + io + ins + obj_alignement ob < W64" using b(2) ov(3) by simp
    note G = getBuffers_step [OF inv lim gb]
    obtain base m where al: "align_range (obj_alignement ob) (os_offset orig + io) ins = (base, m)" by force
    have priv: "private_descr E ob' w1 d" if "d \<in> set segs" for d
      using getBuffers_effect(3) [OF ok mok inv(2,3) al lim gb] that by (cases res) (auto dest: buffers_private)
    have "object_inv X mb E ob' w1" using G(1) unfolding object_step_def by blast
    then have "object_step X mb E ob' w1 ob' w' \<and> w_storage w' = w_storage w1"
      by (rule cow_copy_step [OF _ priv cl])
    then show ?thesis using G object_step_trans by metis
  next
    case False
    then obtain seg' where mk: "makeCowOf (segmentMap_at k ob) orig w = Inr (seg', w')"
        and ob': "ob' = ob\<lparr>obj_segmentMap := sm_set k seg' (obj_segmentMap ob)\<rparr>"
      using r by (auto elim!: bindE_InrE)
    have "k' < os_offset orig \<or> (k' = k \<and> os_offset s' = os_offset orig) \<or> k < os_offset s'"
      if ks: "(k', s') \<in> set (obj_segmentMap ob)" for k' s'
    proof (cases "sm_lower_bound (os_offset orig) (obj_segmentMap ob)")
      case Nil
      then show ?thesis using lower_bound_Nil [OF M(1) Nil, of k' s'] ks sm_find_in [OF M(1)] by auto
    next
      case (Cons e rest)
      obtain k0 t where e: "e = (k0, t)" by force
      have t: "os_offset t = os_offset orig" and tb: "\<exists>tosm. seg_memory t w = Inr tosm \<and> osm_size tosm = osm_size osm"
        using lp False Cons e by (auto split: if_splits elim!: bindE_InrE)
      note L = lower_bound_head [OF M(1) Cons [unfolded e]]
      have tin: "(k0, t) \<in> set (obj_segmentMap ob)" using L(1) sm_find_in [OF M(1)] by blast
      have "k0 = k"
        using seg_entry [OF ok M(2) [OF tin]] t tb s(5,8) by (fastforce simp: seg_memory_Inr)
      show ?thesis
      proof (cases "k' < os_offset orig")
        case False
        then have "k0 \<le> k'" using L(3) [of k' s'] ks sm_find_in [OF M(1)] by auto
        then show ?thesis using M(3) [OF tin ks] \<open>k0 = k\<close> t ks tin sm_find_in [OF M(1)] by (cases "k0 = k'") auto
      qed simp
    qed
    then show ?thesis using share_segment_step [OF inv(1) seg grid _ mk] ob' by simp
  qed
qed

text \<open>The loops over the segments of the source.\<close>

lemma rangeCow_loop_step:
  fixes content :: "'s storage_content" and w :: "'s world"
  assumes "object_inv X mb E ob w" "obj_memoryBackend ob = mb" "storage_ok so content" "offset + n + obj_alignement ob < W64"
    and "\<And>k seg. (k, seg) \<in> set segs \<Longrightarrow> seg_ok w k seg"
    and "\<And>i. 0 < map_refs segs i \<Longrightarrow> 0 < E i"
    and "\<And>k seg. (k, seg) \<in> set segs \<Longrightarrow> on_grid (obj_alignement ob) (os_offset seg) \<and> on_grid (obj_alignement ob) (Suc k)"
    and "rangeCopyOnWrite_loop fi so segs offset n ob w = Inr (ob', w')"
  shows "object_step X mb E ob w ob' w' \<and> content (w_storage w') = content (w_storage w)"
  using assms
proof (induction segs arbitrary: ob w)
  case Nil
  then show ?case by (simp add: object_step_refl)
next
  case (Cons e segs)
  obtain k seg where e: "e = (k, seg)" by force
  have ok: "world_ok mb (\<lambda>i. map_refs (obj_segmentMap ob) i + E i) X w" using Cons.prems(1) by (simp add: object_inv_def)
  have s: "seg_ok w k seg" using Cons.prems(5) [of k seg] e by simp
  have ov: "ObjectSegment_overlap seg offset n w = Inr (os_offset seg < offset + n \<and> offset \<le> k)"
    by (rule overlap_eq [OF ok s]) (use Cons.prems(4) in simp)
  show ?case
  proof (cases "os_offset seg < offset + n \<and> offset \<le> k")
    case False
    then have "ob' = ob \<and> w' = w" using Cons.prems(8) e ov by (simp split: if_splits)
    then show ?thesis using Cons.prems(1) by (simp add: object_step_refl)
  next
    case True
    then obtain ob1 w1 where r: "rangeCopyOnWriteSegment fi so seg (\<lambda>_. seg) offset n ob w = Inr (ob1, w1)"
        and l: "rangeCopyOnWrite_loop fi so segs offset n ob1 w1 = Inr (ob', w')"
      using Cons.prems(8) e ov by (auto elim!: bindE_InrE)
    have st: "object_step X mb E ob w ob1 w1 \<and> content (w_storage w1) = content (w_storage w)"
      by (rule rangeCow_segment_step [OF Cons.prems(1-3) _ s _ _ Cons.prems(4) r]) (use True Cons.prems(7) e in auto)
    then have inv1: "object_inv X mb E ob1 w1" and kept: "data_kept {i. 0 < E i} w w1" unfolding object_step_def by blast+
    note F = object_step_fields [OF conjunct1 [OF st]]
    have keep: "seg_ok w1 k' s'" if m: "(k', s') \<in> set segs" for k' s'
    proof -
      have ok': "seg_ok w k' s'" using Cons.prems(5) [of k' s'] m by simp
      obtain i where "os_memory s' = Some i" using ok' by (rule seg_okE)
      then have "0 < E i" using Cons.prems(6) [of i] map_refs_pos [OF m] e by simp
      then have "seg_bytes w1 s' = seg_bytes w s'" using data_keptD(2) [OF kept, of i] \<open>os_memory s' = Some i\<close>
        by (simp add: seg_bytes_def)
      then show ?thesis using ok' by (simp add: seg_ok_def)
    qed
    have "object_step X mb E ob1 w1 ob' w' \<and> content (w_storage w') = content (w_storage w1)"
      by (rule Cons.IH [OF inv1 _ Cons.prems(3) _ keep _ _ l]) (use Cons.prems(2,4,6,7) e F(1,2) in auto)
    then show ?thesis using st object_step_trans by metis
  qed
qed

lemma rangeCow_step:
  fixes content :: "'s storage_content" and w :: "'s world"
  assumes inv: "object_inv X mb E ob w" "obj_memoryBackend ob = mb" "storage_ok so content" "offset + n + obj_alignement ob < W64"
    and src: "map_ok w (obj_segmentMap src)" "\<And>i. 0 < map_refs (obj_segmentMap src) i \<Longrightarrow> 0 < E i"
      "grid_ok src" "obj_alignement src = obj_alignement ob"
    and run: "rangeCopyOnWrite fi so src offset n ob w = Inr (ob', w')"
  shows "object_step X mb E ob w ob' w' \<and> content (w_storage w') = content (w_storage w)"
proof (cases "sm_lower_bound offset (obj_segmentMap src)")
  case Nil
  then show ?thesis using run inv(1) by (simp add: rangeCopyOnWrite_def object_step_refl)
next
  case (Cons e rest)
  obtain k seg where e: "e = (k, seg)" by force
  with run Cons obtain ov where l: "rangeCopyOnWrite_loop fi so (if ov then (k, seg) # rest else rest) offset n ob w = Inr (ob', w')"
    by (auto simp: rangeCopyOnWrite_def elim!: bindE_InrE)
  have sub: "set (if ov then (k, seg) # rest else rest) \<subseteq> set (obj_segmentMap src)"
    using set_lower_bound [OF map_okD(1) [OF src(1)], of offset] Cons e by (auto split: if_splits)
  have "0 < E i" if "0 < map_refs (if ov then (k, seg) # rest else rest) i" for i
  proof -
    from that obtain k' s' where "(k', s') \<in> set (if ov then (k, seg) # rest else rest)" "os_memory s' = Some i"
      unfolding map_refs_def by (auto simp: filter_empty_conv split: if_splits)
    then show ?thesis using sub src(2) map_refs_pos by blast
  qed
  then show ?thesis
    by (intro rangeCow_loop_step [OF inv _ _ _ l])
      (use sub src(1) map_okD(2) in blast, use sub src(3,4) in \<open>auto simp: grid_ok_def\<close>)
qed

lemma rangeCow_self_loop_step:
  fixes content :: "'s storage_content" and w :: "'s world"
  assumes "object_inv X mb E ob w" "obj_memoryBackend ob = mb" "storage_ok so content" "offset + n + obj_alignement ob < W64"
    and "rangeCopyOnWrite_self_loop fi so start offset n ob w = Inr (ob', w')"
  shows "object_step X mb E ob w ob' w' \<and> content (w_storage w') = content (w_storage w)"
  using assms
proof (induction fi so start offset n ob w rule: rangeCopyOnWrite_self_loop.induct)
  case (1 fi so start offset n ob w)
  have mok: "map_ok w (obj_segmentMap ob)" and ok: "world_ok mb (\<lambda>i. map_refs (obj_segmentMap ob) i + E i) X w"
    using "1.prems"(1) by (auto simp: object_inv_def)
  note run = "1.prems"(5) [unfolded rangeCopyOnWrite_self_loop.simps [of fi so start]]
  show ?case
  proof (cases "sm_lower_bound start (obj_segmentMap ob)")
    case Nil
    then show ?thesis using run "1.prems"(1) by (simp add: object_step_refl)
  next
    case (Cons e rest)
    obtain k seg where e: "e = (k, seg)" by force
    have mem: "(k, seg) \<in> set (obj_segmentMap ob)"
      using lower_bound_head(1) [OF map_okD(1) [OF mok] Cons [unfolded e]] by (rule map_of_SomeD)
    then have s: "seg_ok w k seg" by (rule map_okD(2) [OF mok])
    have ov: "ObjectSegment_overlap seg offset n w = Inr (os_offset seg < offset + n \<and> offset \<le> k)"
      by (rule overlap_eq [OF ok s]) (use "1.prems"(4) in simp)
    show ?thesis
    proof (cases "(k < start \<or> W64 \<le> k) \<or> \<not> (os_offset seg < offset + n \<and> offset \<le> k)")
      case True
      then have "ob' = ob \<and> w' = w" using run Cons e ov by (auto split: if_splits)
      then show ?thesis using "1.prems"(1) by (simp add: object_step_refl)
    next
      case False
      then obtain ob1 w1 where r: "rangeCopyOnWriteSegment fi so seg (segmentMap_at k) offset n ob w = Inr (ob1, w1)"
          and l: "rangeCopyOnWrite_self_loop fi so (Suc k) offset n ob1 w1 = Inr (ob', w')"
        using run Cons e ov by (auto elim!: bindE_InrE)
      have st: "object_step X mb E ob w ob1 w1 \<and> content (w_storage w1) = content (w_storage w)"
        by (rule rangeCow_segment_step [OF "1.prems"(1-3) _ s _ _ "1.prems"(4) r])
          (use False mem in \<open>auto simp: grid_ok_def\<close>)
      then have inv1: "object_inv X mb E ob1 w1" unfolding object_step_def by blast
      note F = object_step_fields [OF conjunct1 [OF st]]
      have "object_step X mb E ob1 w1 ob' w' \<and> content (w_storage w') = content (w_storage w1)"
        by (rule "1.IH" [OF Cons e [symmetric] _ ov _ r refl inv1 _ "1.prems"(3) _ l])
          (use False F(1,2) "1.prems"(2,4) in auto)
      then show ?thesis using st object_step_trans by metis
    qed
  qed
qed

lemma rangeCow_self_step:
  fixes content :: "'s storage_content" and w :: "'s world"
  assumes inv: "object_inv X mb E ob w" "obj_memoryBackend ob = mb" "storage_ok so content" "offset + n + obj_alignement ob < W64"
    and run: "rangeCopyOnWrite_self fi so offset n ob w = Inr (ob', w')"
  shows "object_step X mb E ob w ob' w' \<and> content (w_storage w') = content (w_storage w)"
proof (cases "sm_lower_bound offset (obj_segmentMap ob)")
  case Nil
  then show ?thesis using run inv(1) by (simp add: rangeCopyOnWrite_self_def object_step_refl)
next
  case (Cons e rest)
  with run obtain start where "rangeCopyOnWrite_self_loop fi so start offset n ob w = Inr (ob', w')"
    by (auto simp: rangeCopyOnWrite_self_def split: prod.splits elim!: bindE_InrE)
  then show ?thesis by (rule rangeCow_self_loop_step [OF inv])
qed

end
