(* ===== verification/Container.thy ===== *)
theory Container
  imports Object_Cow
begin

text \<open>
  The container of the server (src/server/core/Container.hpp and .cpp): the objects by
  identifier.  An entry of the map is the pointer to an object, \<open>None\<close> when it is null.

  \<open>container_ok\<close> is the invariant of the whole data path: every object is well formed and the use
  counts of the shared memory are the references of all the objects together.  An operation on
  one object is an instance of the locale \<open>object_operation\<close>; running it on an object of the
  container keeps the invariant and the bytes of all the other objects.
\<close>

section \<open>State\<close>

record container =
  ct_objects :: "(ObjectId, object option) std_map"
  ct_objectSegmentsAlignement :: size_t
  ct_storageBackend :: bool
  ct_memoryBackend :: nat

section \<open>Operations\<close>

definition Container_init :: "bool \<Rightarrow> nat \<Rightarrow> size_t \<Rightarrow> container" where
  "Container_init storageBackend memBack objectSegmentsAlignement =
     \<lparr>ct_objects = [], ct_objectSegmentsAlignement = objectSegmentsAlignement, ct_storageBackend = storageBackend,
      ct_memoryBackend = memBack\<rparr>"

text \<open>\<open>delete\<close> of a pointer; deleting a null pointer does nothing.\<close>

definition delete_object :: "object option \<Rightarrow> 's world \<Rightarrow> 's world result" where
  "delete_object p w = (case p of None \<Rightarrow> Inr w | Some ob \<Rightarrow> Object_destroy ob w)"

fun Container_destroy_loop :: "(ObjectId, object option) std_map \<Rightarrow> 's world \<Rightarrow> 's world result" where
  "Container_destroy_loop [] w = Inr w"
| "Container_destroy_loop ((k, p) # its) w = bindE (delete_object p w) (\<lambda>w. Container_destroy_loop its w)"

definition Container_destroy :: "container \<Rightarrow> 's world \<Rightarrow> 's world result" where
  "Container_destroy ct w = Container_destroy_loop (ct_objects ct) w"

text \<open>A call of a method on every object.\<close>

fun each_object :: "(object \<Rightarrow> object) \<Rightarrow> (ObjectId, object option) std_map \<Rightarrow> (ObjectId, object option) std_map result" where
  "each_object f [] = Inr []"
| "each_object f ((k, p) # its) = (case p of
     None \<Rightarrow> Inl NullDereference
   | Some ob \<Rightarrow> bindE (each_object f its) (\<lambda>its'. Inr ((k, Some (f ob)) # its')))"

definition Container_setStorageBackend :: "bool \<Rightarrow> container \<Rightarrow> container result" where
  "Container_setStorageBackend storageBackend ct =
     bindE (each_object (setStorageBackend storageBackend) (ct_objects ct)) (\<lambda>objs.
     Inr (ct\<lparr>ct_storageBackend := storageBackend, ct_objects := objs\<rparr>))"

definition Container_setMemoryBackend :: "nat \<Rightarrow> container \<Rightarrow> container result" where
  "Container_setMemoryBackend memoryBackend ct =
     bindE (each_object (setMemoryBackend memoryBackend) (ct_objects ct)) (\<lambda>objs.
     Inr (ct\<lparr>ct_memoryBackend := memoryBackend, ct_objects := objs\<rparr>))"

text \<open>
  \<open>getObject\<close> returns the pointer it found or the object it created; the reference is the key.
\<close>

definition getObject :: "ObjectId \<Rightarrow> container \<Rightarrow> (object \<times> container) result" where
  "getObject objectId ct = (case sm_find (ct_objects ct) objectId of
     None \<Rightarrow>
       let obj = Object_init (ct_storageBackend ct) (ct_memoryBackend ct) objectId (ct_objectSegmentsAlignement ct)
       in Inr (obj, ct\<lparr>ct_objects := sm_set objectId (Some obj) (ct_objects ct)\<rparr>)
   | Some None \<Rightarrow> Inl NullDereference
   | Some (Some obj) \<Rightarrow> Inr (obj, ct))"

text \<open>The update of the object a reference points to.\<close>

definition put_object :: "ObjectId \<Rightarrow> object \<Rightarrow> container \<Rightarrow> container" where
  "put_object objectId ob ct = ct\<lparr>ct_objects := sm_set objectId (Some ob) (ct_objects ct)\<rparr>"

definition hasObject :: "ObjectId \<Rightarrow> container \<Rightarrow> bool" where
  "hasObject objectId ct \<longleftrightarrow> sm_find (ct_objects ct) objectId \<noteq> None"

definition object_clientDisconnect :: "nat \<Rightarrow> object \<Rightarrow> object" where
  "object_clientDisconnect tcpClientId ob =
     ob\<lparr>obj_consistencyTracker := clientDisconnect tcpClientId (obj_consistencyTracker ob)\<rparr>"

definition onClientDisconnect :: "nat \<Rightarrow> container \<Rightarrow> container result" where
  "onClientDisconnect tcpClientId ct =
     bindE (each_object (object_clientDisconnect tcpClientId) (ct_objects ct)) (\<lambda>objs.
     Inr (ct\<lparr>ct_objects := objs\<rparr>))"

definition setObjectSegmentsAlignement :: "size_t \<Rightarrow> container \<Rightarrow> container" where
  "setObjectSegmentsAlignement alignement ct = ct\<lparr>ct_objectSegmentsAlignement := alignement\<rparr>"

definition deref :: "'a option \<Rightarrow> 'a result" where
  "deref p = (case p of None \<Rightarrow> Inl NullDereference | Some x \<Rightarrow> Inr x)"

definition makeObjectRangeCow ::
  "fabric_ops \<Rightarrow> 's storage_ops \<Rightarrow> ObjectId \<Rightarrow> ObjectId \<Rightarrow> bool \<Rightarrow> size_t \<Rightarrow> size_t \<Rightarrow> container \<Rightarrow> 's world \<Rightarrow>
   (bool \<times> container \<times> 's world) result" where
  "makeObjectRangeCow fi so sourceId destId allowExist offset n ct w = (case sm_find (ct_objects ct) sourceId of
     None \<Rightarrow> Inr (False, ct, w)
   | Some p \<Rightarrow>
       bindE (deref p) (\<lambda>sourceObject.
       case sm_find (ct_objects ct) destId of
         Some q \<Rightarrow>
           if \<not> allowExist then Inr (False, ct, w)
           else
             bindE (deref q) (\<lambda>destObj.
             bindE (if sourceId = destId then rangeCopyOnWrite_self fi so offset n destObj w
                    else rangeCopyOnWrite fi so sourceObject offset n destObj w) (\<lambda>(destObj, w).
             Inr (True, put_object destId destObj ct, w)))
       | None \<Rightarrow>
           let destObj = Object_init (ct_storageBackend ct) (ct_memoryBackend ct) destId (ct_objectSegmentsAlignement ct) in
           bindE (rangeCopyOnWrite fi so sourceObject offset n destObj w) (\<lambda>(destObj, w).
           Inr (True, put_object destId destObj ct, w))))"

text \<open>
  The first half of \<open>makeObjectFullCow\<close>: the object that is replaced is deleted and its entry stays in the map as a null pointer
  until the copy is made; \<open>None\<close> is the refusal to replace it.
\<close>

definition full_cow_clear :: "ObjectId \<Rightarrow> bool \<Rightarrow> container \<Rightarrow> 's world \<Rightarrow> (container \<times> 's world) option result" where
  "full_cow_clear destId allowExist ct w = (case sm_find (ct_objects ct) destId of
     None \<Rightarrow> Inr (Some (ct, w))
   | Some q \<Rightarrow>
       if \<not> allowExist then Inr None
       else bindE (delete_object q w) (\<lambda>w. Inr (Some (ct\<lparr>ct_objects := sm_set destId None (ct_objects ct)\<rparr>, w))))"

definition makeObjectFullCow ::
  "'s storage_ops \<Rightarrow> ObjectId \<Rightarrow> ObjectId \<Rightarrow> bool \<Rightarrow> container \<Rightarrow> 's world \<Rightarrow> (bool \<times> container \<times> 's world) result" where
  "makeObjectFullCow so sourceId destId allowExist ct w = (case sm_find (ct_objects ct) sourceId of
     None \<Rightarrow> Inr (False, ct, w)
   | Some _ \<Rightarrow>
       bindE (full_cow_clear destId allowExist ct w)
         (\<lambda>r. case r of
            None \<Rightarrow> Inr (False, ct, w)
          | Some (ct, w) \<Rightarrow>
              (case sm_find (ct_objects ct) sourceId of
                 Some (Some src) \<Rightarrow>
                   bindE (makeFullCopyOnWrite so destId allowExist src w) (\<lambda>(cowObj, w).
                   Inr (True, put_object destId cowObj ct, w))
               | _ \<Rightarrow> Inl NullDereference)))"

section \<open>Invariant\<close>

definition ob_refs :: "object option \<Rightarrow> nat \<Rightarrow> nat" where
  "ob_refs p i = (case p of None \<Rightarrow> 0 | Some ob \<Rightarrow> map_refs (obj_segmentMap ob) i)"

fun ct_refs :: "(ObjectId, object option) std_map \<Rightarrow> nat \<Rightarrow> nat" where
  "ct_refs [] i = 0"
| "ct_refs ((k, p) # its) i = ob_refs p i + ct_refs its i"

definition member_ok :: "nat \<Rightarrow> size_t \<Rightarrow> 's world \<Rightarrow> ObjectId \<Rightarrow> object \<Rightarrow> bool" where
  "member_ok mb al w k ob \<longleftrightarrow> obj_objectId ob = k \<and> obj_memoryBackend ob = mb \<and> obj_alignement ob = al \<and>
     map_ok w (obj_segmentMap ob) \<and> grid_ok ob"

definition container_ok :: "frame \<Rightarrow> nat \<Rightarrow> 's world \<Rightarrow> container \<Rightarrow> bool" where
  "container_ok X mb w ct \<longleftrightarrow> sm_ok (ct_objects ct) \<and> ct_memoryBackend ct = mb \<and>
     (\<forall>k p. (k, p) \<in> set (ct_objects ct) \<longrightarrow> (\<exists>ob. p = Some ob \<and> member_ok mb (ct_objectSegmentsAlignement ct) w k ob)) \<and>
     world_ok mb (ct_refs (ct_objects ct)) X w"

lemma container_okD:
  assumes "container_ok X mb w ct"
  shows "sm_ok (ct_objects ct)" "ct_memoryBackend ct = mb" "world_ok mb (ct_refs (ct_objects ct)) X w"
    "(k, p) \<in> set (ct_objects ct) \<Longrightarrow> \<exists>ob. p = Some ob \<and> member_ok mb (ct_objectSegmentsAlignement ct) w k ob"
  using assms unfolding container_ok_def by blast+

lemma ct_refs_erase_id: "(\<And>p. (k, p) \<notin> set m) \<Longrightarrow> sm_erase k m = m"
  by (auto simp: sm_erase_def filter_id_conv)

lemma ct_refs_find:
  "sm_ok m \<Longrightarrow> sm_find m k = Some p \<Longrightarrow> ct_refs m i = ob_refs p i + ct_refs (sm_erase k m) i"
proof (induction m)
  case (Cons e m)
  obtain k' q where e: "e = (k', q)" by force
  show ?case
  proof (cases "k' = k")
    case True
    then have "sm_erase k m = m" using Cons.prems(1) e by (intro ct_refs_erase_id) auto
    then show ?thesis using True Cons.prems(2) e by (simp add: sm_erase_def)
  next
    case False
    then show ?thesis using Cons e by (simp add: sm_erase_def)
  qed
qed simp

lemma sm_erase_set: "sm_ok m \<Longrightarrow> sm_erase k (sm_set k p m) = sm_erase k m"
proof (induction m)
  case (Cons e m)
  obtain k' q where e: "e = (k', q)" by force
  have "sm_ok m" using Cons.prems e by simp
  then show ?case using Cons.IH e by (auto simp: sm_erase_def)
qed (simp add: sm_erase_def)

lemma ct_refs_set: "sm_ok m \<Longrightarrow> ct_refs (sm_set k p m) i = ob_refs p i + ct_refs (sm_erase k m) i"
  using ct_refs_find [OF sm_ok_set, of m k p k p i] by (simp add: sm_erase_set)

lemma ct_refs_pos:
  "(k, Some ob) \<in> set m \<Longrightarrow> 0 < map_refs (obj_segmentMap ob) i \<Longrightarrow> 0 < ct_refs m i"
  by (induction m) (auto simp: ob_refs_def)

text \<open>The references of the other objects.\<close>

definition others :: "ObjectId \<Rightarrow> container \<Rightarrow> nat \<Rightarrow> nat" where
  "others k ct = ct_refs (sm_erase k (ct_objects ct))"

lemma container_focus:
  assumes ok: "container_ok X mb w ct" and f: "sm_find (ct_objects ct) k = Some (Some ob)"
  shows "object_inv X mb (others k ct) ob w" "member_ok mb (ct_objectSegmentsAlignement ct) w k ob"
proof -
  note C = container_okD [OF ok]
  show m: "member_ok mb (ct_objectSegmentsAlignement ct) w k ob" using C(4) [OF map_of_SomeD [OF f]] by simp
  have "ct_refs (ct_objects ct) = (\<lambda>i. map_refs (obj_segmentMap ob) i + others k ct i)"
    by (rule ext) (simp add: ct_refs_find [OF C(1) f] ob_refs_def others_def)
  then show "object_inv X mb (others k ct) ob w" using C(3) m by (simp add: object_inv_def member_ok_def)
qed

text \<open>Replacing or adding one object.\<close>

lemma container_put:
  assumes ok: "container_ok X mb w ct" and inv: "object_inv X mb (others k ct) ob' w'" and kept: "data_kept {i. 0 < others k ct i} w w'"
    and fields: "obj_objectId ob' = k" "obj_memoryBackend ob' = mb" "obj_alignement ob' = ct_objectSegmentsAlignement ct" "grid_ok ob'"
  shows "container_ok X mb w' (put_object k ob' ct)"
    "\<And>k' ob. k' \<noteq> k \<Longrightarrow> sm_find (ct_objects ct) k' = Some (Some ob) \<Longrightarrow> view_byte w' (obj_segmentMap ob) = view_byte w (obj_segmentMap ob)"
proof -
  note C = container_okD [OF ok]
  have view: "map_view w' (obj_segmentMap ob) = map_view w (obj_segmentMap ob)"
    if "k' \<noteq> k" "(k', Some ob) \<in> set (ct_objects ct)" for k' ob
  proof (rule kept_view [OF data_kept_mono [OF kept]])
    have "(k', Some ob) \<in> set (sm_erase k (ct_objects ct))" using that by simp
    then show "{i. 0 < map_refs (obj_segmentMap ob) i} \<subseteq> {i. 0 < others k ct i}"
      unfolding others_def using ct_refs_pos by blast
  qed
  then show "view_byte w' (obj_segmentMap ob) = view_byte w (obj_segmentMap ob)"
    if "k' \<noteq> k" "sm_find (ct_objects ct) k' = Some (Some ob)" for k' ob
    using that view_byte_view map_of_SomeD by metis
  have "\<exists>ob. p = Some ob \<and> member_ok mb (ct_objectSegmentsAlignement ct) w' k'' ob"
    if m: "(k'', p) \<in> set (sm_set k (Some ob') (ct_objects ct))" for k'' p
  proof (cases "k'' = k")
    case True
    then have "p = Some ob'" using m by (auto simp: set_sm_set [OF C(1)])
    then show ?thesis using True inv fields by (simp add: member_ok_def object_inv_def)
  next
    case False
    then have m': "(k'', p) \<in> set (ct_objects ct)" using m by (auto simp: set_sm_set [OF C(1)])
    then obtain ob where ob: "p = Some ob" "member_ok mb (ct_objectSegmentsAlignement ct) w k'' ob" using C(4) by blast
    then have "map_ok w' (obj_segmentMap ob)"
      using map_ok_view [OF view [OF False]] m' by (auto simp: member_ok_def)
    then show ?thesis using ob by (auto simp: member_ok_def)
  qed
  moreover have "world_ok mb (ct_refs (sm_set k (Some ob') (ct_objects ct))) X w'"
  proof -
    have "ct_refs (sm_set k (Some ob') (ct_objects ct)) = (\<lambda>i. map_refs (obj_segmentMap ob') i + others k ct i)"
      by (rule ext) (simp add: ct_refs_set [OF C(1)] ob_refs_def others_def)
    then show ?thesis using inv by (simp add: object_inv_def)
  qed
  ultimately show "container_ok X mb w' (put_object k ob' ct)"
    using C(1,2) sm_ok_set [OF C(1)] by (simp add: container_ok_def put_object_def)
qed

section \<open>Lookup\<close>

lemma others_put: "sm_ok (ct_objects ct) \<Longrightarrow> others k (put_object k ob ct) = others k ct"
  by (simp add: others_def put_object_def sm_erase_set)

lemma object_inv_init:
  "world_ok mb E X w \<Longrightarrow> object_inv X mb E (Object_init sb mb' k al) w" "grid_ok (Object_init sb mb' k al)"
  by (simp_all add: object_inv_def Object_init_def map_ok_def grid_ok_def)

lemma getObject_ok:
  assumes ok: "container_ok X mb w ct"
  obtains ob ct1 where "getObject k ct = Inr (ob, ct1)" "container_ok X mb w ct1" "sm_find (ct_objects ct1) k = Some (Some ob)"
    "\<And>k'. k' \<noteq> k \<Longrightarrow> sm_find (ct_objects ct1) k' = sm_find (ct_objects ct) k'" "others k ct1 = others k ct"
    "ct_objectSegmentsAlignement ct1 = ct_objectSegmentsAlignement ct" "ct_storageBackend ct1 = ct_storageBackend ct"
    "hasObject k ct \<Longrightarrow> ct1 = ct"
    "\<not> hasObject k ct \<Longrightarrow> ob = Object_init (ct_storageBackend ct) mb k (ct_objectSegmentsAlignement ct)"
proof (cases "sm_find (ct_objects ct) k")
  case (Some p)
  then obtain ob where "p = Some ob" using container_okD(4) [OF ok map_of_SomeD] by blast
  then show thesis using that [of ob ct] Some ok by (simp add: getObject_def hasObject_def)
next
  case None
  note C = container_okD [OF ok]
  let ?ob = "Object_init (ct_storageBackend ct) (ct_memoryBackend ct) k (ct_objectSegmentsAlignement ct)"
  have er: "sm_erase k (ct_objects ct) = ct_objects ct"
    using None by (intro ct_refs_erase_id) (metis sm_find_in [OF C(1)] option.distinct(1))
  have g: "getObject k ct = Inr (?ob, put_object k ?ob ct)" using None by (simp add: getObject_def put_object_def Let_def)
  have "object_inv X mb (others k ct) ?ob w" using C(3) er by (intro object_inv_init) (simp add: others_def)
  then have "container_ok X mb w (put_object k ?ob ct)"
    by (rule container_put(1) [OF ok]) (use C(2) in \<open>simp_all add: Object_init_def grid_ok_def\<close>)
  then show thesis
    using that [OF g] None C(2) others_put [OF C(1)] by (simp add: put_object_def hasObject_def)
qed

section \<open>Operations on one object\<close>

text \<open>
  An operation of the server on an object, reached through the container: \<open>pre\<close> is what it needs
  of the object, \<open>content\<close> the bytes of the storage.
\<close>

locale object_operation =
  fixes op :: "object \<Rightarrow> 's world \<Rightarrow> ('r \<times> object \<times> 's world) result"
    and pre :: "object \<Rightarrow> bool"
    and content :: "'s storage_content"
  assumes op_step: "object_inv X mb E ob w \<Longrightarrow> obj_memoryBackend ob = mb \<Longrightarrow> pre ob \<Longrightarrow> op ob w = Inr (r, ob', w') \<Longrightarrow>
      object_step X mb E ob w ob' w'"
    and op_storage: "object_inv X mb E ob w \<Longrightarrow> obj_memoryBackend ob = mb \<Longrightarrow> pre ob \<Longrightarrow> op ob w = Inr (r, ob', w') \<Longrightarrow>
      key \<noteq> obj_key ob \<Longrightarrow> content (w_storage w') key = content (w_storage w) key"
begin

lemma keeps_container:
  assumes ok: "container_ok X mb w ct" and g: "getObject k ct = Inr (ob, ct1)" and p: "pre ob" and r: "op ob w = Inr (r, ob', w')"
  shows "container_ok X mb w' (put_object k ob' ct1)"
    "\<And>k' ob2. k' \<noteq> k \<Longrightarrow> sm_find (ct_objects ct) k' = Some (Some ob2) \<Longrightarrow>
       sm_find (ct_objects (put_object k ob' ct1)) k' = Some (Some ob2) \<and>
       object_byte content w' ob2 = object_byte content w ob2"
proof -
  obtain c1: "container_ok X mb w ct1" "sm_find (ct_objects ct1) k = Some (Some ob)"
      "\<And>k'. k' \<noteq> k \<Longrightarrow> sm_find (ct_objects ct1) k' = sm_find (ct_objects ct) k'"
    by (rule getObject_ok [OF ok, of k]) (use g in auto)
  note F = container_focus [OF c1(1,2)]
  have mem: "obj_memoryBackend ob = mb" "obj_objectId ob = k" using F(2) by (simp_all add: member_ok_def)
  note st = op_step [OF F(1) mem(1) p r]
  note fields = object_step_fields [OF st]
  have D: "object_inv X mb (others k ct1) ob' w'" "data_kept {i. 0 < others k ct1 i} w w'" "grid_ok ob \<longrightarrow> grid_ok ob'"
    using st unfolding object_step_def by blast+
  have flds: "obj_objectId ob' = k" "obj_memoryBackend ob' = mb" "obj_alignement ob' = ct_objectSegmentsAlignement ct1" "grid_ok ob'"
    using fields F(2) D(3) by (simp_all add: member_ok_def)
  note P = container_put [OF c1(1) D(1,2) flds]
  show "container_ok X mb w' (put_object k ob' ct1)" by (rule P(1))
  fix k' ob2
  assume k': "k' \<noteq> k" "sm_find (ct_objects ct) k' = Some (Some ob2)"
  then have f1: "sm_find (ct_objects ct1) k' = Some (Some ob2)" using c1(3) by simp
  have "obj_objectId ob2 = k'" using container_focus(2) [OF c1(1) f1] by (simp add: member_ok_def)
  then have "obj_key ob2 \<noteq> obj_key ob" using k'(1) mem(2) by (auto simp: ObjectId.expand)
  then have "content (w_storage w') (obj_key ob2) = content (w_storage w) (obj_key ob2)"
    by (rule op_storage [OF F(1) mem(1) p r])
  then show "sm_find (ct_objects (put_object k ob' ct1)) k' = Some (Some ob2) \<and>
      object_byte content w' ob2 = object_byte content w ob2"
    using P(2) [OF k'(1) f1] f1 k'(1) by (auto simp: put_object_def object_byte_def fun_eq_iff split: option.split)
qed

end

text \<open>The accesses, the flush and the copy on write of a range are such operations.\<close>

definition access_op ::
  "fabric_ops \<Rightarrow> 's storage_ops \<Rightarrow> size_t \<Rightarrow> size_t \<Rightarrow> ObjectAccessMode \<Rightarrow> bool \<Rightarrow> bool \<Rightarrow> object \<Rightarrow> 's world \<Rightarrow>
   ((bool \<times> ObjectSegmentDescr list) \<times> object \<times> 's world) result" where
  "access_op fi so base n mode load isW ob w =
     bindE (getBuffers fi so base n mode load isW ob w) (\<lambda>(res, segs, ob, w). Inr ((res, segs), ob, w))"

interpretation access: object_operation "access_op fi so base n mode load isW"
    "\<lambda>ob. storage_ok so content \<and> base + n + obj_alignement ob < W64" content
  for fi and so :: "'s storage_ops" and base n mode load isW content
proof unfold_locales
  fix X mb E ob r ob' key and w w' :: "'s world"
  assume a: "object_inv X mb E ob w" "obj_memoryBackend ob = mb" "storage_ok so content \<and> base + n + obj_alignement ob < W64"
    "access_op fi so base n mode load isW ob w = Inr (r, ob', w')"
  from a(4) obtain res segs where "getBuffers fi so base n mode load isW ob w = Inr (res, segs, ob', w')"
    by (auto simp: access_op_def elim!: bindE_InrE)
  note G = getBuffers_step [OF a(1,2) conjunct1 [OF a(3)] conjunct2 [OF a(3)] this]
  show "object_step X mb E ob w ob' w'" by (rule G(1))
  show "content (w_storage w') key = content (w_storage w) key" by (simp add: G(2))
qed

lemma flush_step:
  fixes content :: "'s storage_content"
  assumes so: "storage_ok so content" "obj_storageBackend ob" "off + n < W64" and inv: "object_inv X mb E ob w"
    and run: "Object_flush so off n ob w = Inr (ret, ob', w')"
  shows "object_step X mb E ob w ob' w'" "key \<noteq> obj_key ob \<Longrightarrow> content (w_storage w') key = content (w_storage w) key"
proof -
  have ok: "world_ok mb (\<lambda>i. map_refs (obj_segmentMap ob) i + E i) X w" "map_ok w (obj_segmentMap ob)"
    using inv by (auto simp: object_inv_def)
  from run obtain segs where l: "flush_loop so ob off n 0 (obj_segmentMap ob) w = Inr (ret, segs, w')"
      and ob': "ob' = ob\<lparr>obj_segmentMap := segs\<rparr>"
    by (auto simp: Object_flush_def elim!: bindE_InrE)
  note L = flush_loop_effect [OF so ok l]
  obtain s' where w': "w' = w\<lparr>w_storage := s'\<rparr>" using L by blast
  obtain f where segs: "segs = set_dirty f (obj_segmentMap ob)" using L by blast
  have "object_inv X mb E ob' w'" using inv segs w' ob' by (simp add: object_inv_def set_dirty_frame)
  moreover have "grid_ok ob \<longrightarrow> grid_ok ob'" using segs ob' grid_set_dirty by metis
  ultimately show "object_step X mb E ob w ob' w'" using ob' w' by (simp add: object_step_def)
  show "content (w_storage w') key = content (w_storage w) key" if "key \<noteq> obj_key ob"
    using L that unfolding flush_post_def by blast
qed

interpretation flush_op: object_operation "Object_flush so off n"
    "\<lambda>ob. storage_ok so content \<and> obj_storageBackend ob \<and> off + n < W64" content
  for so :: "'s storage_ops" and off n content
proof unfold_locales
  fix X mb E ob r ob' key and w w' :: "'s world"
  assume a: "object_inv X mb E ob w" "storage_ok so content \<and> obj_storageBackend ob \<and> off + n < W64"
    "Object_flush so off n ob w = Inr (r, ob', w')"
  note F = flush_step [OF _ _ _ a(1,3)]
  show "object_step X mb E ob w ob' w'" using F(1) a(2) by blast
  show "content (w_storage w') key = content (w_storage w) key" if "key \<noteq> obj_key ob"
    by (rule F(2) [OF _ _ _ that]) (use a(2) in auto)
qed

section \<open>Copy on write of objects\<close>

lemma sm_set_set: "sm_set k a (sm_set k b m) = sm_set k a m"
  by (induction m) auto

text \<open>Deleting an object gives back its references; the others keep their bytes.\<close>

lemma container_delete:
  assumes ok: "container_ok X mb w ct" and f: "sm_find (ct_objects ct) k = Some (Some ob)" and d: "Object_destroy ob w = Inr w'"
  shows "world_ok mb (others k ct) X w'" "data_kept {i. 0 < others k ct i} w w'" "w_storage w' = w_storage w"
    "\<And>k' ob2. k' \<noteq> k \<Longrightarrow> sm_find (ct_objects ct) k' = Some (Some ob2) \<Longrightarrow> map_view w' (obj_segmentMap ob2) = map_view w (obj_segmentMap ob2)"
proof -
  have D: "world_ok mb (others k ct) X w' \<and> data_kept {i. 0 < others k ct i} w w' \<and> w_storage w' = w_storage w"
    using Object_destroy_effect [OF _ _ d, of mb "others k ct"] container_focus(1) [OF ok f] unfolding object_inv_def by blast
  then show "world_ok mb (others k ct) X w'" "data_kept {i. 0 < others k ct i} w w'" "w_storage w' = w_storage w" by auto
  fix k' ob2
  assume k': "k' \<noteq> k" "sm_find (ct_objects ct) k' = Some (Some ob2)"
  have "(k', Some ob2) \<in> set (sm_erase k (ct_objects ct))" using k' map_of_SomeD by fastforce
  then have "{i. 0 < map_refs (obj_segmentMap ob2) i} \<subseteq> {i. 0 < others k ct i}"
    unfolding others_def using ct_refs_pos by blast
  then show "map_view w' (obj_segmentMap ob2) = map_view w (obj_segmentMap ob2)"
    using D by (blast intro: kept_view data_kept_mono)
qed

text \<open>The object the copy replaces, if there is one, is gone before the copy starts.\<close>

lemma fullCow_cleared:
  assumes ok: "container_ok X mb w ct" and src: "sm_find (ct_objects ct) sourceId = Some (Some src)" and ne: "sourceId \<noteq> destId"
    and run: "makeObjectFullCow so sourceId destId allowExist ct w = Inr (True, ct', w')"
  obtains w1 cow where "world_ok mb (others destId ct) X w1" "w_storage w1 = w_storage w" "data_kept {i. 0 < others destId ct i} w w1"
    "makeFullCopyOnWrite so destId allowExist src w1 = Inr (cow, w')" "ct' = put_object destId cow ct"
proof (cases "sm_find (ct_objects ct) destId")
  case None
  note C = container_okD [OF ok]
  have er: "sm_erase destId (ct_objects ct) = ct_objects ct"
    using None by (intro ct_refs_erase_id) (metis sm_find_in [OF C(1)] option.distinct(1))
  from run None src obtain cow where "makeFullCopyOnWrite so destId allowExist src w = Inr (cow, w')" "ct' = put_object destId cow ct"
    by (auto simp: makeObjectFullCow_def full_cow_clear_def elim!: bindE_InrE)
  then show thesis using that [of w cow] C(3) er by (simp add: others_def)
next
  case (Some q)
  then obtain old where old: "q = Some old" using container_okD(4) [OF ok map_of_SomeD] by blast
  with run Some src ne obtain w1 cow where d: "Object_destroy old w = Inr w1"
      and mk: "makeFullCopyOnWrite so destId allowExist src w1 = Inr (cow, w')"
      and ct': "ct' = put_object destId cow (ct\<lparr>ct_objects := sm_set destId None (ct_objects ct)\<rparr>)"
    by (auto simp: makeObjectFullCow_def full_cow_clear_def delete_object_def split: if_splits elim!: bindE_InrE)
  have "ct' = put_object destId cow ct" using ct' by (simp add: put_object_def sm_set_set)
  then show thesis using that container_delete [OF ok Some [unfolded old] d] mk by blast
qed

lemma makeObjectFullCow_effect:
  fixes content :: "'s storage_content" and w :: "'s world"
  assumes ok: "container_ok X mb w ct" and so: "storage_ok so content"
    and src: "sm_find (ct_objects ct) sourceId = Some (Some src)" and ne: "sourceId \<noteq> destId"
    and run: "makeObjectFullCow so sourceId destId allowExist ct w = Inr (True, ct', w')"
  obtains cow where "container_ok X mb w' ct'" "ct' = put_object destId cow ct"
    "\<And>k seg x. (k, seg) \<in> set (obj_segmentMap src) \<Longrightarrow> x \<le> k \<Longrightarrow> object_byte content w' cow x = object_byte content w src x"
    "\<And>k' ob. k' \<noteq> destId \<Longrightarrow> sm_find (ct_objects ct) k' = Some (Some ob) \<Longrightarrow> object_byte content w' ob = object_byte content w ob"
proof -
  obtain w1 cow where w1: "world_ok mb (others destId ct) X w1" "w_storage w1 = w_storage w" "data_kept {i. 0 < others destId ct i} w w1"
      and mk: "makeFullCopyOnWrite so destId allowExist src w1 = Inr (cow, w')" and ct': "ct' = put_object destId cow ct"
    by (rule fullCow_cleared [OF ok src ne run])
  have views: "map_view w1 (obj_segmentMap ob) = map_view w (obj_segmentMap ob)"
    if "k' \<noteq> destId" "sm_find (ct_objects ct) k' = Some (Some ob)" for k' ob
  proof (rule kept_view [OF data_kept_mono [OF w1(3)]])
    have "(k', Some ob) \<in> set (sm_erase destId (ct_objects ct))" using that map_of_SomeD by fastforce
    then show "{i. 0 < map_refs (obj_segmentMap ob) i} \<subseteq> {i. 0 < others destId ct i}"
      unfolding others_def using ct_refs_pos by blast
  qed
  have mem: "member_ok mb (ct_objectSegmentsAlignement ct) w sourceId src" by (rule container_focus(2) [OF ok src])
  have mok1: "map_ok w1 (obj_segmentMap src)"
    using map_ok_view [OF views [OF ne src]] mem by (simp add: member_ok_def)
  have new: "destId \<noteq> obj_objectId src" using mem ne by (simp add: member_ok_def)
  note F = makeFullCopyOnWrite_effect [OF so new w1(1) mok1 mk]
  note P = cow_postD [OF F(4)]
  have cow: "obj_objectId cow = destId" "obj_segmentMap cow = obj_segmentMap src" "obj_memoryBackend cow = mb"
    "obj_alignement cow = ct_objectSegmentsAlignement ct" "grid_ok cow"
    using F(1) mem by (auto simp: member_ok_def grid_ok_def)
  have view': "map_view w' (obj_segmentMap src) = map_view w1 (obj_segmentMap src)"
    by (rule kept_view [OF data_kept_mono [OF F(3)]]) simp
  have "object_inv X mb (others destId ct) cow w'"
    using F(2) map_ok_view [OF view' mok1] by (simp add: object_inv_def cow add.commute)
  moreover have kept: "data_kept {i. 0 < others destId ct i} w w'"
    using w1(3) F(3) by (blast intro: data_kept_trans data_kept_mono)
  ultimately have put: "container_ok X mb w' (put_object destId cow ct)"
      "\<And>k' ob. k' \<noteq> destId \<Longrightarrow> sm_find (ct_objects ct) k' = Some (Some ob) \<Longrightarrow> view_byte w' (obj_segmentMap ob) = view_byte w (obj_segmentMap ob)"
    using container_put [OF ok] cow by blast+
  show thesis
  proof (rule that)
    show "container_ok X mb w' ct'" "ct' = put_object destId cow ct" using put(1) ct' by simp_all
    show "object_byte content w' cow x = object_byte content w src x" if k: "(k, seg) \<in> set (obj_segmentMap src)" "x \<le> k" for k seg x
    proof -
      have "view_byte w' (obj_segmentMap src) x = view_byte w1 (obj_segmentMap src) x"
        "view_byte w1 (obj_segmentMap src) x = view_byte w (obj_segmentMap src) x"
        using view_byte_view [OF view'] view_byte_view [OF views [OF ne src]] by simp_all
      then show ?thesis
        using view_byte_None_iff [OF mok1, of x] P(2) [OF _ k] cow w1(2)
        by (cases "view_byte w (obj_segmentMap src) x") (simp_all add: object_byte_def)
    qed
    show "object_byte content w' ob = object_byte content w ob" if ob: "k' \<noteq> destId" "sm_find (ct_objects ct) k' = Some (Some ob)" for k' ob
    proof -
      have "obj_objectId ob = k'" using container_focus(2) [OF ok ob(2)] by (simp add: member_ok_def)
      then have "obj_key ob \<noteq> (oid_high destId, oid_low destId)" using ob(1) by (auto simp: ObjectId.expand)
      then show ?thesis using P(1) put(2) [OF ob] w1(2) by (simp add: object_byte_def fun_eq_iff split: option.split)
    qed
  qed
qed

text \<open>
  C18. A full copy on write between two different objects of a container returns true exactly
  when the source exists and the destination is free or may be replaced.  It keeps the invariant
  of the container, gives the destination the bytes of the source up to its last loaded
  segment, and changes no byte of any other object.
\<close>

theorem container_full_cow:
  fixes content :: "'s storage_content" and w :: "'s world"
  assumes ok: "container_ok X mb w ct" and so: "storage_ok so content" and ne: "sourceId \<noteq> destId"
    and run: "makeObjectFullCow so sourceId destId allowExist ct w = Inr (res, ct', w')"
  shows "res = (hasObject sourceId ct \<and> (hasObject destId ct \<longrightarrow> allowExist)) \<and> container_ok X mb w' ct' \<and>
    (\<not> res \<longrightarrow> ct' = ct \<and> w' = w) \<and>
    (\<forall>k' ob. k' \<noteq> destId \<longrightarrow> sm_find (ct_objects ct) k' = Some (Some ob) \<longrightarrow>
       sm_find (ct_objects ct') k' = Some (Some ob) \<and> object_byte content w' ob = object_byte content w ob) \<and>
    (\<forall>src. res \<longrightarrow> sm_find (ct_objects ct) sourceId = Some (Some src) \<longrightarrow>
       (\<exists>cow. sm_find (ct_objects ct') destId = Some (Some cow) \<and>
          (\<forall>k seg x. (k, seg) \<in> set (obj_segmentMap src) \<and> x \<le> k \<longrightarrow>
             object_byte content w' cow x = object_byte content w src x)))"
proof -
  have res: "res = (hasObject sourceId ct \<and> (hasObject destId ct \<longrightarrow> allowExist))" and fail: "\<not> res \<Longrightarrow> ct' = ct \<and> w' = w"
    using run by (auto simp: makeObjectFullCow_def full_cow_clear_def hasObject_def split: option.splits if_splits prod.splits elim!: bindE_InrE)
  show ?thesis
  proof (cases res)
    case False
    then show ?thesis using res fail ok by auto
  next
    case True
    then obtain p where "sm_find (ct_objects ct) sourceId = Some p" using res by (auto simp: hasObject_def)
    then obtain src where src: "sm_find (ct_objects ct) sourceId = Some (Some src)"
      using container_okD(4) [OF ok map_of_SomeD] by blast
    obtain cow where cow: "container_ok X mb w' ct'" "ct' = put_object destId cow ct"
      "\<And>k seg x. (k, seg) \<in> set (obj_segmentMap src) \<Longrightarrow> x \<le> k \<Longrightarrow> object_byte content w' cow x = object_byte content w src x"
      "\<And>k' ob. k' \<noteq> destId \<Longrightarrow> sm_find (ct_objects ct) k' = Some (Some ob) \<Longrightarrow> object_byte content w' ob = object_byte content w ob"
      by (rule makeObjectFullCow_effect [OF ok so src ne run [unfolded True [THEN eqTrueI]]]) (rule that)
    then show ?thesis using True res src by (auto simp: put_object_def)
  qed
qed

definition wit_container :: container where
  "wit_container = \<lparr>ct_objects = [(ObjectId 0 1, Some wit_a), (ObjectId 0 2, Some wit_b)], ct_objectSegmentsAlignement = 0,
     ct_storageBackend = True, ct_memoryBackend = 0\<rparr>"

lemma wit_container_ok: "container_ok wit_frame 0 wit_shared_world wit_container"
proof -
  have "(\<lambda>i. map_refs (obj_segmentMap wit_a) i + (map_refs (obj_segmentMap wit_b) i + 0)) = ct_refs (ct_objects wit_container)"
    by (simp add: wit_container_def ob_refs_def fun_eq_iff)
  then have "world_ok 0 (ct_refs (ct_objects wit_container)) wit_frame wit_shared_world" using wit_shared_ok(1) by simp
  moreover have "sm_ok (ct_objects wit_container)" by (simp add: wit_container_def less_ObjectId_def)
  moreover have "member_ok 0 0 wit_shared_world (ObjectId 0 1) wit_a" "member_ok 0 0 wit_shared_world (ObjectId 0 2) wit_b"
    using wit_shared_ok(2,3) by (simp_all add: member_ok_def wit_a_def wit_b_def Object_init_def grid_ok_def on_grid_def)
  ultimately show ?thesis by (auto simp: container_ok_def wit_container_def)
qed

lemma wit_full_cow_run:
  "\<exists>ct' (w' :: table world). makeObjectFullCow table_ops (ObjectId 0 1) (ObjectId 0 2) True wit_container wit_shared_world = Inr (True, ct', w')"
  by (simp add: makeObjectFullCow_def full_cow_clear_def wit_container_def delete_object_def Object_destroy_def makeFullCopyOnWrite_def Object_create_def
      Object_init_def wit_a_def wit_b_def wit_seg_def seg_memory_def wit_shared_world_def makeCowOf_def shared_copy_def
      shared_drop_def segmentMap_at_def ObjectSegment_null_def table_ops_def Object_pwrite_def ssize_t_of_def less_ObjectId_def)

theorem container_full_cow_witness:
  "\<exists>ct' (w' :: table world) cow. makeObjectFullCow table_ops (ObjectId 0 1) (ObjectId 0 2) True wit_container wit_shared_world = Inr (True, ct', w') \<and>
     sm_find (ct_objects ct') (ObjectId 0 2) = Some (Some cow) \<and> object_byte (\<lambda>t. t) w' cow 1 = 20"
proof -
  obtain ct' and w' :: "table world" where
      run: "makeObjectFullCow table_ops (ObjectId 0 1) (ObjectId 0 2) True wit_container wit_shared_world = Inr (True, ct', w')"
    using wit_full_cow_run by blast
  have ne: "ObjectId 0 1 \<noteq> ObjectId 0 2" by simp
  have src: "sm_find (ct_objects wit_container) (ObjectId 0 1) = Some (Some wit_a)" "(1, wit_seg) \<in> set (obj_segmentMap wit_a)"
    by (simp_all add: wit_container_def wit_a_def)
  have b: "object_byte (\<lambda>t. t) wit_shared_world wit_a 1 = 20"
    by (simp add: object_byte_def view_byte_def wit_a_def wit_seg_def Object_init_def sm_lower_bound_def seg_bytes_def
        shared_bytes_def wit_shared_world_def)
  have "\<exists>cow. sm_find (ct_objects ct') (ObjectId 0 2) = Some (Some cow) \<and>
      (\<forall>k seg x. (k, seg) \<in> set (obj_segmentMap wit_a) \<and> x \<le> k \<longrightarrow> object_byte (\<lambda>t. t) w' cow x = object_byte (\<lambda>t. t) wit_shared_world wit_a x)"
    using container_full_cow [OF wit_container_ok table_ok ne run] src(1) by blast
  then show ?thesis using run src(2) b by fastforce
qed

text \<open>
  A full copy on write of an object onto itself that is allowed to replace its destination
  deletes the source before it is copied, and the call goes through a null pointer.
\<close>

theorem full_cow_onto_itself:
  assumes "sm_find (ct_objects ct) objectId = Some (Some ob)" "Object_destroy ob w = Inr w1"
  shows "makeObjectFullCow so objectId objectId True ct w = Inl NullDereference"
  using assms by (simp add: makeObjectFullCow_def full_cow_clear_def delete_object_def)

theorem full_cow_onto_itself_witness:
  "makeObjectFullCow table_ops (ObjectId 0 1) (ObjectId 0 1) True wit_container wit_shared_world = Inl NullDereference"
proof -
  have "sm_find (ct_objects wit_container) (ObjectId 0 1) = Some (Some wit_a)" by (simp add: wit_container_def)
  moreover obtain w1 :: "table world" where "Object_destroy wit_a wit_shared_world = Inr w1"
    by (simp add: Object_destroy_def wit_a_def wit_seg_def shared_drop_def wit_shared_world_def)
  ultimately show ?thesis using full_cow_onto_itself by blast
qed

text \<open>
  The map of the objects has no lock.  A client whose TCP connection ends while the server replaces an object by a full copy, or
  another thread that changes the storage, finds the null pointer that \<open>makeObjectFullCow\<close> leaves in the map until the copy is made.
\<close>

lemma each_object_null: "(k, None) \<in> set m \<Longrightarrow> each_object f m = Inl NullDereference"
  by (induction f m rule: each_object.induct) (auto split: option.splits)

lemma disconnect_during_full_cow:
  assumes "full_cow_clear destId True ct w = Inr (Some (ct1, w1))" "hasObject destId ct"
  shows "onClientDisconnect client ct1 = Inl NullDereference \<and> Container_setStorageBackend sb ct1 = Inl NullDereference"
proof -
  have "ct1 = ct\<lparr>ct_objects := sm_set destId None (ct_objects ct)\<rparr>"
    using assms by (auto simp: full_cow_clear_def hasObject_def elim!: bindE_InrE split: option.splits)
  moreover have "sm_find (sm_set destId None (ct_objects ct)) destId = Some None" by simp
  ultimately have "(destId, None) \<in> set (ct_objects ct1)" by (simp add: map_of_SomeD)
  then show ?thesis using each_object_null by (simp add: onClientDisconnect_def Container_setStorageBackend_def)
qed

section \<open>Copy on write of a range of an object\<close>

lemma container_object_step:
  fixes content :: "'s storage_content"
  assumes ok: "container_ok X mb w ct" and f: "sm_find (ct_objects ct) k = Some (Some ob)"
    and st: "object_step X mb (others k ct) ob w ob' w'" and c: "content (w_storage w') = content (w_storage w)"
  shows "container_ok X mb w' (put_object k ob' ct)"
    "k' \<noteq> k \<Longrightarrow> sm_find (ct_objects ct) k' = Some (Some ob2) \<Longrightarrow>
       sm_find (ct_objects (put_object k ob' ct)) k' = Some (Some ob2) \<and> object_byte content w' ob2 = object_byte content w ob2"
proof -
  have D: "object_inv X mb (others k ct) ob' w'" "data_kept {i. 0 < others k ct i} w w'" "grid_ok ob \<longrightarrow> grid_ok ob'"
    using st unfolding object_step_def by blast+
  have flds: "obj_objectId ob' = k" "obj_memoryBackend ob' = mb" "obj_alignement ob' = ct_objectSegmentsAlignement ct" "grid_ok ob'"
    using object_step_fields [OF st] container_focus(2) [OF ok f] D(3) by (simp_all add: member_ok_def)
  note P = container_put [OF ok D(1,2) flds]
  show "container_ok X mb w' (put_object k ob' ct)" by (rule P(1))
  show "sm_find (ct_objects (put_object k ob' ct)) k' = Some (Some ob2) \<and> object_byte content w' ob2 = object_byte content w ob2"
    if "k' \<noteq> k" "sm_find (ct_objects ct) k' = Some (Some ob2)"
    using P(2) [OF that] that c by (auto simp: put_object_def object_byte_def fun_eq_iff split: option.split)
qed

lemma others_refs:
  "sm_ok (ct_objects ct) \<Longrightarrow> sm_find (ct_objects ct) k' = Some (Some ob) \<Longrightarrow> k' \<noteq> k \<Longrightarrow> 0 < map_refs (obj_segmentMap ob) i \<Longrightarrow> 0 < others k ct i"
  unfolding others_def by (rule ct_refs_pos [of k' ob]) (auto dest: map_of_SomeD)

lemma makeObjectRangeCow_effect:
  fixes content :: "'s storage_content" and w :: "'s world"
  assumes ok: "container_ok X mb w ct" and so: "storage_ok so content"
    and lim: "offset + n + ct_objectSegmentsAlignement ct < W64"
    and run: "makeObjectRangeCow fi so sourceId destId allowExist offset n ct w = Inr (res, ct', w')"
  shows "container_ok X mb w' ct'"
    "k' \<noteq> destId \<Longrightarrow> sm_find (ct_objects ct) k' = Some (Some ob2) \<Longrightarrow>
       sm_find (ct_objects ct') k' = Some (Some ob2) \<and> object_byte content w' ob2 = object_byte content w ob2"
proof -
  have *: "container_ok X mb w' ct' \<and> (k' \<noteq> destId \<longrightarrow> sm_find (ct_objects ct) k' = Some (Some ob2) \<longrightarrow>
       sm_find (ct_objects ct') k' = Some (Some ob2) \<and> object_byte content w' ob2 = object_byte content w ob2)"
  proof (cases "sm_find (ct_objects ct) sourceId = None \<or> (sm_find (ct_objects ct) destId \<noteq> None \<and> \<not> allowExist)")
    case True
    then have "ct' = ct \<and> w' = w"
      using run by (auto simp: makeObjectRangeCow_def split: option.splits elim!: bindE_InrE)
    then show ?thesis using ok by simp
  next
    case False
    then obtain p where "sm_find (ct_objects ct) sourceId = Some p" by auto
    then obtain src where src: "sm_find (ct_objects ct) sourceId = Some (Some src)"
      using container_okD(4) [OF ok map_of_SomeD] by blast
    obtain dest ct1 where g: "getObject destId ct = Inr (dest, ct1)" and c1: "container_ok X mb w ct1"
        "sm_find (ct_objects ct1) destId = Some (Some dest)" "\<And>k'. k' \<noteq> destId \<Longrightarrow> sm_find (ct_objects ct1) k' = sm_find (ct_objects ct) k'"
        "ct_objectSegmentsAlignement ct1 = ct_objectSegmentsAlignement ct"
      by (rule getObject_ok [OF ok]) (rule that)
    have r: "\<exists>dest'. (if sourceId = destId then rangeCopyOnWrite_self fi so offset n dest w
          else rangeCopyOnWrite fi so src offset n dest w) = Inr (dest', w') \<and> ct' = put_object destId dest' ct1"
    proof (cases "sm_find (ct_objects ct) destId")
      case None
      then show ?thesis using run src g
        by (auto simp: makeObjectRangeCow_def deref_def getObject_def put_object_def sm_set_set Let_def elim!: bindE_InrE)
    next
      case (Some q)
      then obtain old where "q = Some old" using container_okD(4) [OF ok map_of_SomeD] by blast
      then show ?thesis using run src g Some False
        by (auto simp: makeObjectRangeCow_def deref_def getObject_def split: if_splits elim!: bindE_InrE)
    qed
    then obtain dest' where r: "(if sourceId = destId then rangeCopyOnWrite_self fi so offset n dest w
          else rangeCopyOnWrite fi so src offset n dest w) = Inr (dest', w')" and ct': "ct' = put_object destId dest' ct1"
      by blast
    note F = container_focus [OF c1(1,2)]
    have al: "obj_memoryBackend dest = mb" "offset + n + obj_alignement dest < W64"
      using F(2) lim c1(4) by (simp_all add: member_ok_def)
    have st: "object_step X mb (others destId ct1) dest w dest' w' \<and> content (w_storage w') = content (w_storage w)"
    proof (cases "sourceId = destId")
      case True
      then show ?thesis using rangeCow_self_step [OF F(1) al(1) so al(2)] r by simp
    next
      case ne: False
      then have src1: "sm_find (ct_objects ct1) sourceId = Some (Some src)" using src c1(3) by simp
      have mem: "member_ok mb (ct_objectSegmentsAlignement ct1) w sourceId src" by (rule container_focus(2) [OF c1(1) src1])
      have "0 < others destId ct1 i" if "0 < map_refs (obj_segmentMap src) i" for i
        using others_refs [OF container_okD(1) [OF c1(1)] src1 ne that] .
      then show ?thesis
        by (intro rangeCow_step [OF F(1) al(1) so al(2)]) (use mem F(2) r ne in \<open>simp_all add: member_ok_def\<close>)
    qed
    note S = container_object_step [OF c1(1,2) conjunct1 [OF st] conjunct2 [OF st]]
    show ?thesis using S c1(3) unfolding ct' by metis
  qed
  then show "container_ok X mb w' ct'" by blast
  show "sm_find (ct_objects ct') k' = Some (Some ob2) \<and> object_byte content w' ob2 = object_byte content w ob2"
    if "k' \<noteq> destId" "sm_find (ct_objects ct) k' = Some (Some ob2)"
    using * that by blast
qed

section \<open>Changes on every object\<close>

lemma each_object_eq:
  "(\<And>k p. (k, p) \<in> set m \<Longrightarrow> p \<noteq> None) \<Longrightarrow> each_object f m = Inr (sm_map_values (map_option f) m)"
proof (induction m)
  case (Cons e m)
  obtain k p where e: "e = (k, p)" by force
  then obtain ob where "p = Some ob" using Cons.prems [of k p] by auto
  moreover have "each_object f m = Inr (sm_map_values (map_option f) m)" using Cons.IH Cons.prems by auto
  ultimately show ?case using e by (simp add: sm_map_values_def)
qed (simp add: sm_map_values_def)

lemma onClientDisconnect_eq:
  assumes ok: "container_ok X mb w ct"
  shows "onClientDisconnect c ct = Inr (ct\<lparr>ct_objects := sm_map_values (map_option (object_clientDisconnect c)) (ct_objects ct)\<rparr>)"
  using each_object_eq [of "ct_objects ct" "object_clientDisconnect c"] container_okD(4) [OF ok]
  by (fastforce simp: onClientDisconnect_def)

lemma ct_refs_map_values:
  "(\<And>ob. obj_segmentMap (f ob) = obj_segmentMap ob) \<Longrightarrow> ct_refs (sm_map_values (map_option f) m) = ct_refs m"
proof
  fix i
  assume "\<And>ob. obj_segmentMap (f ob) = obj_segmentMap ob"
  then show "ct_refs (sm_map_values (map_option f) m) i = ct_refs m i"
    by (induction m) (auto simp: sm_map_values_def ob_refs_def split: option.split)
qed

text \<open>A change that keeps the segments, the identity and the alignment of every object.\<close>

lemma container_each:
  assumes ok: "container_ok X mb w ct" and r: "each_object f (ct_objects ct) = Inr objs"
    and f: "\<And>ob. obj_segmentMap (f ob) = obj_segmentMap ob" "\<And>ob. obj_objectId (f ob) = obj_objectId ob"
      "\<And>ob. obj_memoryBackend (f ob) = obj_memoryBackend ob" "\<And>ob. obj_alignement (f ob) = obj_alignement ob"
  shows "container_ok X mb w (ct\<lparr>ct_objects := objs\<rparr>)"
proof -
  note C = container_okD [OF ok]
  have objs: "objs = sm_map_values (map_option f) (ct_objects ct)"
    using r each_object_eq [of "ct_objects ct" f] C(4) by fastforce
  have "\<exists>ob. p = Some ob \<and> member_ok mb (ct_objectSegmentsAlignement ct) w k ob" if kp: "(k, p) \<in> set objs" for k p
  proof -
    from kp obtain q where q: "(k, q) \<in> set (ct_objects ct)" "p = map_option f q" by (auto simp: objs sm_map_values_def)
    then obtain ob where "q = Some ob" "member_ok mb (ct_objectSegmentsAlignement ct) w k ob" using C(4) by blast
    then show ?thesis using q(2) f by (auto simp: member_ok_def grid_ok_def)
  qed
  moreover have "ct_refs objs = ct_refs (ct_objects ct)" unfolding objs by (rule ct_refs_map_values [OF f(1)])
  ultimately show ?thesis using C(1-3) unfolding container_ok_def by (simp add: objs)
qed

lemma container_disconnect:
  "container_ok X mb w ct \<Longrightarrow> onClientDisconnect c ct = Inr ct' \<Longrightarrow> container_ok X mb w ct'"
  by (auto simp: onClientDisconnect_def object_clientDisconnect_def elim!: bindE_InrE container_each)

lemma container_set_storage:
  assumes "container_ok X mb w ct" "Container_setStorageBackend sb ct = Inr ct'"
  shows "container_ok X mb w ct'"
proof -
  obtain objs where o: "each_object (setStorageBackend sb) (ct_objects ct) = Inr objs"
      "ct' = ct\<lparr>ct_storageBackend := sb, ct_objects := objs\<rparr>"
    using assms(2) by (auto simp: Container_setStorageBackend_def elim!: bindE_InrE)
  have "container_ok X mb w (ct\<lparr>ct_objects := objs\<rparr>)"
    by (rule container_each [OF assms(1) o(1)]) (simp_all add: setStorageBackend_def)
  then show ?thesis by (simp add: o(2) container_ok_def)
qed

end
