(* ===== verification/Connection_Inv.thy ===== *)
theory Connection_Inv
  imports Libfabric_Connection Container "HOL-Library.Multiset"
begin

text \<open>
  Properties of the connection: completions moved to the cache are neither lost nor reordered,
  the counter of pending actions is the number of operations that are not yet consumed, and a
  message is packed into a buffer that nothing else uses, next to the invariant of the objects.
\<close>

section \<open>Memory outside the objects\<close>

lemma frame_data: "frame_ok X m \<Longrightarrow> fr_data X k = Some xs \<Longrightarrow> hp_blocks (mem_heap m) k = Some xs"
  unfolding frame_ok_def map_le_def by (metis domI)

lemma in_use_malloc:
  assumes u: "backends.in_use U b m" and a: "malloc n (mem_heap m) = (p, h)" "p \<noteq> NULL"
  shows "\<exists>k xs. p = Ptr k 0 \<and> k \<notin> U \<and> hp_blocks (mem_heap m) k = None \<and> length xs = n \<and>
    hp_blocks h = (hp_blocks (mem_heap m))(k \<mapsto> xs) \<and> backends.in_use (insert k U) b (m\<lparr>mem_heap := h\<rparr>)"
proof -
  let ?h = "mem_heap m" and ?k = "hp_next (mem_heap m)" and ?xs = "map (hp_junk (mem_heap m) (hp_next (mem_heap m))) [0..<n]"
  note c = sys_alloc_cases [OF a(1) [unfolded malloc_def] a(2)]
  have D: "backend_ok (hp_len ?h) b" "heap_ok ?h" "\<And>k. k \<in> U \<Longrightarrow> hp_blocks ?h k \<noteq> None \<and> Ptr k 0 \<notin> free_ptrs b"
    using u by (auto simp: backends.in_use_def)
  have fresh: "hp_blocks ?h ?k = None" using D(2) by (auto simp: heap_ok_def)
  have track: "Ptr ?k 0 \<notin> tracked b" using tracked_live [OF D(1), of "Ptr ?k 0"] fresh by (auto simp: hp_len_def)
  have "backend_ok (hp_len h) b"
    by (rule backend_ok_frame [OF D(1)]) (use track c(2) in \<open>auto simp: hp_len_def\<close>)
  moreover have "heap_ok h" using sys_alloc_ok [OF D(2)] a(1) by (metis malloc_def snd_conv)
  moreover have "Ptr ?k 0 \<notin> free_ptrs b" using track free_ptrs_tracked [OF D(1)] by blast
  ultimately have "backends.in_use (insert ?k U) b (m\<lparr>mem_heap := h\<rparr>)"
    using D(3) c(2) by (auto simp: backends.in_use_def)
  moreover have "?k \<notin> U" using D(3) [of ?k] fresh by auto
  ultimately show ?thesis using c fresh by (intro exI [of _ ?k] exI [of _ ?xs]) auto
qed

lemma world_malloc:
  assumes ok: "world_ok mb R X w" and a: "malloc n (mem_heap (w_mem w)) = (p, h)" "p \<noteq> NULL"
  obtains k xs where "p = Ptr k 0" "k \<notin> fr_blocks X" "length xs = n" "w_blocks (w_set_heap h w) = (w_blocks w)(k \<mapsto> xs)"
    "world_ok mb R (X\<lparr>fr_data := (fr_data X)(k \<mapsto> xs)\<rparr>) (w_set_heap h w)" "data_kept S w (w_set_heap h w)"
proof -
  let ?w = "w_set_heap h w"
  obtain b where b: "w_backends w mb = Some b" "backends.in_use (owned_blocks w \<union> fr_blocks X) b (w_mem w)"
    using world_okD(1) [OF ok] by blast
  obtain k xs where k: "p = Ptr k 0" "k \<notin> owned_blocks w \<union> fr_blocks X" "w_blocks w k = None" "length xs = n"
      "hp_blocks h = (w_blocks w)(k \<mapsto> xs)"
      "backends.in_use (insert k (owned_blocks w \<union> fr_blocks X)) b ((w_mem w)\<lparr>mem_heap := h\<rparr>)"
    using in_use_malloc [OF b(2) a] by blast
  let ?X = "X\<lparr>fr_data := (fr_data X)(k \<mapsto> xs)\<rparr>"
  have fb: "fr_blocks ?X = insert k (fr_blocks X)" by (auto simp: fr_blocks_def)
  have own: "owned_blocks ?w = owned_blocks w" by (simp add: owned_blocks_def w_set_heap_def)
  have ent: "i < w_next ?w \<and> 0 < c \<and> c = R i \<and> entry_ok mb ?w osm" if "w_shared ?w i = Some (osm, c)" for i osm c
  proof -
    have s: "w_shared w i = Some (osm, c)" using that by (simp add: w_set_heap_def)
    note D = world_okD(3) [OF ok s]
    then have "entry_ok mb ?w osm" using k(3,5) by (auto simp: entry_ok_def w_set_heap_def hp_len_def)
    then show ?thesis using D by (simp add: w_set_heap_def)
  qed
  have "world_ok mb R ?X ?w"
  proof (rule world_okI)
    show "w_backends ?w mb = Some b" using b(1) by (simp add: w_set_heap_def)
    show "backends.in_use (owned_blocks ?w \<union> fr_blocks ?X) b (w_mem ?w)" using k(6) unfolding own fb by (simp add: w_set_heap_def)
    show "owned_blocks ?w \<inter> fr_blocks ?X = {}" using world_okD(2) [OF ok] k(2) unfolding own fb by auto
    show "\<And>i. w_shared ?w i = None \<Longrightarrow> R i = 0" using world_okD(4) [OF ok] by (simp add: w_set_heap_def)
    show "\<And>i j osm osm' c c'. w_shared ?w i = Some (osm, c) \<Longrightarrow> w_shared ?w j = Some (osm', c') \<Longrightarrow>
        osm_buffer osm = osm_buffer osm' \<Longrightarrow> i = j" using world_okD(5) [OF ok] by (simp add: w_set_heap_def)
    have kb: "k \<notin> fr_blocks X" using k(2) by simp
    have "frame_ok X (w_mem ?w)"
      by (rule frame_cong [OF world_okD(6) [OF ok]]) (use kb k(5) in \<open>auto simp: w_set_heap_def\<close>)
    then show "frame_ok ?X (w_mem ?w)" using kb k(5) by (auto simp: frame_ok_def fr_blocks_def map_le_def w_set_heap_def)
  qed (rule ent)
  moreover have "data_kept S w ?w"
    by (rule kept_if_blocks [OF ok]) (use k(2,5) in \<open>auto simp: w_set_heap_def entry_of_def\<close>)
  ultimately show thesis using that [OF k(1) _ k(4)] k(2,5) by (simp add: w_set_heap_def)
qed

text \<open>Writing into a block of another component, and giving the domain another pool.\<close>

lemma world_write_frame:
  assumes ok: "world_ok mb R X w" and d: "fr_data X k = Some xs"
    and wr: "write_mem (Ptr k j) ys (mem_heap (w_mem w)) = Inr h"
  shows "world_ok mb R (X\<lparr>fr_data := (fr_data X)(k \<mapsto> patch j ys xs)\<rparr>) (w_set_heap h w)"
    "data_kept S w (w_set_heap h w)" "w_blocks (w_set_heap h w) = (w_blocks w)(k \<mapsto> patch j ys xs)"
proof -
  let ?X = "X\<lparr>fr_temp := insert k (fr_temp X), fr_data := (fr_data X)(k := None)\<rparr>"
  let ?Y = "X\<lparr>fr_data := (fr_data X)(k \<mapsto> patch j ys xs)\<rparr>"
  have blk: "w_blocks w k = Some xs" by (rule frame_data [OF world_okD(6) [OF ok] d])
  have sets: "fr_blocks ?X = fr_blocks X" "fr_blocks ?Y = fr_blocks X" using d by (auto simp: fr_blocks_def)
  have "frame_ok ?X (w_mem w)" using world_okD(6) [OF ok] by (auto simp: frame_ok_def map_le_def)
  then have "world_ok mb R ?X w" using ok unfolding world_ok_def sets by blast
  note W = world_write [OF this wr]
  have b': "w_blocks (w_set_heap h w) = (w_blocks w)(k \<mapsto> patch j ys xs)"
    using W(5,6) blk by (auto simp: fun_eq_iff)
  then show "w_blocks (w_set_heap h w) = (w_blocks w)(k \<mapsto> patch j ys xs)" .
  have kx: "k \<in> fr_blocks X" using d by (auto simp: fr_blocks_def)
  then show "data_kept S w (w_set_heap h w)" using W(7) world_okD(2) [OF ok] by auto
  have "frame_ok X (w_mem w)" by (rule world_okD(6) [OF ok])
  then have "frame_ok ?Y (w_mem (w_set_heap h w))"
    using b' d by (auto simp: frame_ok_def map_le_def w_set_heap_def)
  then show "world_ok mb R ?Y (w_set_heap h w)" using W(1) unfolding world_ok_def sets by simp
qed

definition w_set_domain :: "LibfabricDomain \<Rightarrow> 's world \<Rightarrow> 's world" where
  "w_set_domain d w = w\<lparr>w_mem := (w_mem w)\<lparr>mem_domain := d\<rparr>\<rparr>"

lemma world_set_domain:
  assumes "world_ok mb R X w" "ld_msgBufferSize d = ld_msgBufferSize (mem_domain (w_mem w))"
  shows "world_ok mb R (X\<lparr>fr_msgBuffers := ld_msgBuffers d\<rparr>) (w_set_domain d w)" "data_kept S w (w_set_domain d w)"
proof -
  have "owned_blocks (w_set_domain d w) = owned_blocks w" by (simp add: owned_blocks_def w_set_domain_def)
  then show "world_ok mb R (X\<lparr>fr_msgBuffers := ld_msgBuffers d\<rparr>) (w_set_domain d w)"
    using assms by (auto simp: world_ok_def frame_ok_def fr_blocks_def w_set_domain_def entry_ok_def backends.in_use_def)
  show "data_kept S w (w_set_domain d w)"
    by (rule kept_if_blocks [OF assms(1)]) (simp_all add: w_set_domain_def entry_of_def fun_eq_iff)
qed

section \<open>Completions and pending operations\<close>

definition queued :: "'f cq_read list \<Rightarrow> 'f cq_entry list" where
  "queued rs = List.map_filter (\<lambda>r. case r of CqEntry e \<Rightarrow> Some e | CqAgain \<Rightarrow> None | CqFailed \<Rightarrow> None) rs"

lemma queued_simps [simp]:
  "queued [] = []" "queued (CqEntry e # rs) = e # queued rs" "queued (CqAgain # rs) = queued rs"
  "queued (CqFailed # rs) = queued rs" "queued (rs @ rs') = queued rs @ queued rs'"
  by (auto simp: queued_def List.map_filter_def)

text \<open>The completions the program has not handled yet, in the order it will.\<close>

definition completions :: "('h, 'f) connection \<Rightarrow> 'f cq_entry list" where
  "completions c = lc_cqEntries c @ queued (fb_cq (lc_fabric c))"

definition same_settings :: "('h, 'f) connection \<Rightarrow> ('h, 'f) connection \<Rightarrow> bool" where
  "same_settings c c' \<longleftrightarrow> c' = c\<lparr>lc_cqEntries := lc_cqEntries c', lc_pendingAction := lc_pendingAction c',
     lc_fabric := lc_fabric c'\<rparr>"

lemma same_settings_refl [simp]: "same_settings c c"
  by (simp add: same_settings_def)

lemma same_settings_trans: "same_settings c c1 \<Longrightarrow> same_settings c1 c2 \<Longrightarrow> same_settings c c2"
  by (cases c; cases c1; cases c2) (simp add: same_settings_def)

lemma same_settings_sel:
  assumes "same_settings c c'"
  shows "lc_recvBuffers c' = lc_recvBuffers c" "lc_recvBuffersCount c' = lc_recvBuffersCount c"
    "lc_recvBuffersSize c' = lc_recvBuffersSize c" "lc_remoteLiAddr c' = lc_remoteLiAddr c" "lc_hooks c' = lc_hooks c"
    "lc_clientId c' = lc_clientId c" "lc_tcpClientId c' = lc_tcpClientId c" "lc_tcpClientKey c' = lc_tcpClientKey c"
    "lc_clientRegistry c' = lc_clientRegistry c" "lc_checkClientAuth c' = lc_checkClientAuth c"
    "lc_nextEndpointId c' = lc_nextEndpointId c" "lc_disableReceive c' = lc_disableReceive c"
  using assms by (cases c; cases c'; simp add: same_settings_def)+

text \<open>Only the cache, the completion queue and the return codes change.\<close>

definition same_posted :: "('h, 'f) connection \<Rightarrow> ('h, 'f) connection \<Rightarrow> bool" where
  "same_posted c c' \<longleftrightarrow> same_settings c c' \<and> lc_pendingAction c' = lc_pendingAction c \<and>
     fb_ops (lc_fabric c') = fb_ops (lc_fabric c) \<and> fb_recv (lc_fabric c') = fb_recv (lc_fabric c)"

lemma same_posted_refl [simp]: "same_posted c c"
  by (simp add: same_posted_def)

lemma same_posted_trans: "same_posted c c1 \<Longrightarrow> same_posted c1 c2 \<Longrightarrow> same_posted c c2"
  unfolding same_posted_def using same_settings_trans by (metis (no_types, lifting))

lemma pollForCompletion_effect:
  assumes "pollForCompletion cache c = (r, c')"
  shows "same_posted c c'" "fb_codes (lc_fabric c') = fb_codes (lc_fabric c)"
    "cache \<Longrightarrow> completions c = (case r of None \<Rightarrow> [] | Some e \<Rightarrow> [e]) @ completions c'"
    "\<not> cache \<Longrightarrow> lc_cqEntries c' = lc_cqEntries c \<and>
       queued (fb_cq (lc_fabric c)) = (case r of None \<Rightarrow> [] | Some e \<Rightarrow> [e]) @ queued (fb_cq (lc_fabric c'))"
  using assms by (auto simp: pollForCompletion_def same_posted_def same_settings_def completions_def
      split: if_splits list.splits cq_read.splits)

lemma pollAllCqInCache_effect:
  "same_posted c (pollAllCqInCache c) \<and> completions (pollAllCqInCache c) = completions c"
proof (induction c rule: pollAllCqInCache.induct)
  case (1 c)
  obtain r c' where p: "pollForCompletion False c = (r, c')" by force
  note E = pollForCompletion_effect [OF p]
  show ?case
  proof (cases r)
    case None
    then show ?thesis using p E by (simp add: completions_def)
  next
    case (Some e)
    let ?c = "c'\<lparr>lc_cqEntries := lc_cqEntries c' @ [e]\<rparr>"
    have s: "same_posted c' ?c" by (simp add: same_posted_def same_settings_def)
    have "same_posted ?c (pollAllCqInCache ?c) \<and> completions (pollAllCqInCache ?c) = completions ?c"
      by (rule 1) (use p Some in auto)
    moreover have "completions ?c = completions c" using E(4) Some by (simp add: completions_def)
    ultimately show ?thesis using p Some E(1) s same_posted_trans by (simp del: pollAllCqInCache.simps add: pollAllCqInCache.simps [of c]) blast
  qed
qed

lemma post_retry_effect:
  "post_retry codes c = (err, c') \<Longrightarrow> same_posted c c' \<and> completions c' = completions c"
proof (induction codes c rule: post_retry.induct)
  case (1 c)
  then show ?case by (auto simp: same_posted_def same_settings_def completions_def)
next
  case (2 e codes c)
  show ?case
  proof (cases "e = - FI_EAGAIN")
    case True
    then have "same_posted (pollAllCqInCache c) c' \<and> completions c' = completions (pollAllCqInCache c)"
      using 2 by (simp del: pollAllCqInCache.simps)
    then show ?thesis using pollAllCqInCache_effect [of c] same_posted_trans by metis
  next
    case False
    then show ?thesis using "2.prems" by (auto simp: same_posted_def same_settings_def completions_def)
  qed
qed

text \<open>The effect of a call that posts an operation.\<close>

definition posted :: "'f fi_op \<Rightarrow> ('h, 'f) connection \<Rightarrow> ('h, 'f) connection \<Rightarrow> bool" where
  "posted op c c' \<longleftrightarrow> same_settings c c' \<and> completions c' = completions c \<and>
     fb_ops (lc_fabric c') = fb_ops (lc_fabric c) @ [op] \<and> fb_recv (lc_fabric c') = fb_recv (lc_fabric c) \<and>
     lc_pendingAction c' = lc_pendingAction c + 1"

lemma post_operation_effect:
  assumes "post_operation call op c = Inr c'"
  shows "posted op c c'"
proof -
  obtain err c1 where r: "post_retry (fb_codes (lc_fabric c)) c = (err, c1)" by force
  have c': "c' = c1\<lparr>lc_fabric := (lc_fabric c1)\<lparr>fb_ops := fb_ops (lc_fabric c1) @ [op]\<rparr>,
      lc_pendingAction := lc_pendingAction c1 + 1\<rparr>"
    using assms r by (auto simp: post_operation_def elim!: bindE_InrE)
  have "same_settings c1 c'" by (simp add: c' same_settings_def)
  then show ?thesis
    using post_retry_effect [OF r] c' same_settings_trans [of c c1 c']
    by (auto simp: posted_def same_posted_def completions_def)
qed

lemma post_operation_returns:
  assumes "set (fb_codes (lc_fabric c)) \<subseteq> {0, - FI_EAGAIN}"
  shows "\<exists>c'. post_operation call op c = Inr c'"
proof -
  have "fst (post_retry codes c) = 0" if "set codes \<subseteq> {0, - FI_EAGAIN}" for codes and c :: "('h, 'f) connection"
    using that by (induction codes c rule: post_retry.induct) (auto simp del: pollAllCqInCache.simps)
  from this [OF assms, of c] show ?thesis
    by (auto simp: post_operation_def split: prod.split)
qed

lemma repostReceive_effect:
  assumes "repostReceive i c = Inr c'"
  shows "i < lc_recvBuffersCount c" "same_settings c c'" "completions c' = completions c"
    "fb_ops (lc_fabric c') = fb_ops (lc_fabric c)" "fb_recv (lc_fabric c') = fb_recv (lc_fabric c) @ [i]"
    "lc_pendingAction c' = lc_pendingAction c"
  using assms by (auto simp: repostReceive_def same_settings_def completions_def elim!: bindE_InrE split: list.splits)

section \<open>Message buffers\<close>

fun entry_action :: "'f cq_entry \<Rightarrow> 'f post_action option" where
  "entry_action (CqRecv i) = None"
| "entry_action (CqDone act) = act"

fun is_done :: "'f cq_entry \<Rightarrow> bool" where
  "is_done (CqRecv i) = False"
| "is_done (CqDone act) = True"

text \<open>The message buffers attached to operations that are not consumed yet.\<close>

definition buffers_of :: "'f post_action option list \<Rightarrow> ptr list" where
  "buffers_of acts = filter (\<lambda>p. p \<noteq> NULL) (map pa_domainBuffer (List.map_filter (\<lambda>a. a) acts))"

definition inflight :: "('h, 'f) connection \<Rightarrow> ptr list" where
  "inflight c = buffers_of (map op_context (fb_ops (lc_fabric c)) @ map entry_action (completions c))"

definition pending_count :: "('h, 'f) connection \<Rightarrow> nat" where
  "pending_count c = length (fb_ops (lc_fabric c)) + length (filter is_done (completions c))"

lemma buffers_of_simps [simp]:
  "buffers_of [] = []" "buffers_of (None # as) = buffers_of as"
  "buffers_of (Some a # as) = (if pa_domainBuffer a = NULL then [] else [pa_domainBuffer a]) @ buffers_of as"
  "buffers_of (as @ bs) = buffers_of as @ buffers_of bs"
  by (auto simp: buffers_of_def List.map_filter_def)

text \<open>The buffers of the pool and those in flight are distinct blocks of the configured size.\<close>

definition msg_buffers_ok :: "frame \<Rightarrow> ptr list \<Rightarrow> bool" where
  "msg_buffers_ok X L \<longleftrightarrow> distinct (fr_msgBuffers X @ L) \<and>
     (\<forall>p \<in> set (fr_msgBuffers X @ L). \<exists>k xs. p = Ptr k 0 \<and> fr_data X k = Some xs \<and> length xs = fr_msgBufferSize X)"

text \<open>The bytes of a posted message stay in its buffer.\<close>

fun send_intact :: "frame \<Rightarrow> 'f fi_op \<Rightarrow> bool" where
  "send_intact X (FiSend a p bytes ctx) \<longleftrightarrow> (\<exists>act k xs. ctx = Some act \<and> pa_domainBuffer act = p \<and> p = Ptr k 0 \<and>
     fr_data X k = Some xs \<and> take (length bytes) xs = bytes)"
| "send_intact X op \<longleftrightarrow> True"

text \<open>
  The connection counts its operations that are posted or completed but not handled, and the
  operations whose completion is being handled (\<open>nc_held\<close>).  Blocks of other users of the memory
  (\<open>nc_foreign\<close>) are never message buffers, whose size is \<open>nc_size\<close>.
\<close>

record net_context =
  nc_held :: nat
  nc_foreign :: "nat \<rightharpoonup> byte list"
  nc_size :: size_t

definition foreign_ok :: "(nat \<rightharpoonup> byte list) \<Rightarrow> frame \<Rightarrow> ptr list \<Rightarrow> bool" where
  "foreign_ok F X L \<longleftrightarrow> F \<subseteq>\<^sub>m fr_data X \<and> (\<forall>k \<in> dom F. Ptr k 0 \<notin> set (fr_msgBuffers X @ L))"

definition net_ok :: "net_context \<Rightarrow> frame \<Rightarrow> ('h, 'f) connection \<Rightarrow> bool" where
  "net_ok pd X c \<longleftrightarrow> msg_buffers_ok X (inflight c) \<and> lc_pendingAction c = int (pending_count c + nc_held pd) \<and>
     foreign_ok (nc_foreign pd) X (inflight c) \<and> fr_msgBufferSize X = nc_size pd \<and>
     (\<forall>op \<in> set (fb_ops (lc_fabric c)). send_intact X op)"

lemma msg_buffers_perm: "mset L = mset L' \<Longrightarrow> msg_buffers_ok X L \<longleftrightarrow> msg_buffers_ok X L'"
  unfolding msg_buffers_ok_def by (metis mset_append mset_eq_imp_distinct_iff set_append set_mset_mset)

lemma msg_buffers_data:
  assumes "msg_buffers_ok X L" "fr_msgBuffers Y = fr_msgBuffers X" "fr_msgBufferSize Y = fr_msgBufferSize X"
    and "\<And>k xs. fr_data X k = Some xs \<Longrightarrow> \<exists>ys. fr_data Y k = Some ys \<and> length ys = length xs"
  shows "msg_buffers_ok Y L"
  unfolding msg_buffers_ok_def assms(2,3)
proof (intro conjI ballI)
  show "distinct (fr_msgBuffers X @ L)" using assms(1) by (simp add: msg_buffers_ok_def)
  fix p
  assume "p \<in> set (fr_msgBuffers X @ L)"
  then obtain k xs where "p = Ptr k 0" "fr_data X k = Some xs" "length xs = fr_msgBufferSize X"
    using assms(1) unfolding msg_buffers_ok_def by blast
  then show "\<exists>k xs. p = Ptr k 0 \<and> fr_data Y k = Some xs \<and> length xs = fr_msgBufferSize X" using assms(4) by metis
qed

lemma msg_buffers_upd:
  assumes "msg_buffers_ok Y L" "fr_data Y k = Some xs" "length ys = length xs"
  shows "msg_buffers_ok (Y\<lparr>fr_data := (fr_data Y)(k \<mapsto> ys)\<rparr>) L"
  by (rule msg_buffers_data [OF assms(1)]) (use assms(2,3) in auto)

lemma msg_buffers_Cons:
  "msg_buffers_ok X (p # L) \<longleftrightarrow> msg_buffers_ok X L \<and> p \<notin> set (fr_msgBuffers X @ L) \<and>
     (\<exists>k xs. p = Ptr k 0 \<and> fr_data X k = Some xs \<and> length xs = fr_msgBufferSize X)"
  unfolding msg_buffers_ok_def by auto

lemma msg_buffersD: "msg_buffers_ok X L \<Longrightarrow> p \<in> set L \<Longrightarrow> \<exists>k xs. p = Ptr k 0 \<and> fr_data X k = Some xs"
  unfolding msg_buffers_ok_def by (metis UnCI set_append)

lemma getMsgBuffer_effect:
  assumes ok: "world_ok mb R X w" and L: "msg_buffers_ok X L"
    and g: "getMsgBuffer fi (mem_domain (w_mem w)) (mem_heap (w_mem w)) = Inr (buf, dm, h)"
  obtains Y where "world_ok mb R Y (w_set_domain dm (w_set_heap h w))" "msg_buffers_ok Y (buf # L)"
    "fr_data X \<subseteq>\<^sub>m fr_data Y" "data_kept S w (w_set_domain dm (w_set_heap h w))"
    "fr_msgBufferSize Y = fr_msgBufferSize X" "ld_msgBufferSize dm = fr_msgBufferSize X"
    "\<And>F. foreign_ok F X L \<Longrightarrow> foreign_ok F Y (buf # L)"
proof (cases "ld_msgBuffers (mem_domain (w_mem w)) = []")
  case False
  let ?d = "mem_domain (w_mem w)"
  have fr: "fr_msgBuffers X = ld_msgBuffers ?d" "fr_msgBufferSize X = ld_msgBufferSize ?d"
    using world_okD(6) [OF ok] by (auto simp: frame_ok_def)
  have r: "buf = last (ld_msgBuffers ?d)" "dm = ?d\<lparr>ld_msgBuffers := butlast (ld_msgBuffers ?d)\<rparr>" "h = mem_heap (w_mem w)"
    using g False by (auto simp: getMsgBuffer_def)
  let ?Y = "X\<lparr>fr_msgBuffers := ld_msgBuffers dm\<rparr>"
  have w: "w_set_heap h w = w" by (simp add: r(3) w_set_heap_def)
  note W = world_set_domain [OF ok, of dm]
  have "fr_msgBuffers X = butlast (ld_msgBuffers ?d) @ [buf]" using False fr r(1) by simp
  moreover from this have "foreign_ok F ?Y (buf # L)" if "foreign_ok F X L" for F
    using that r(2) by (auto simp: foreign_ok_def)
  ultimately have "msg_buffers_ok ?Y (buf # L)" "\<And>F. foreign_ok F X L \<Longrightarrow> foreign_ok F ?Y (buf # L)"
    using L r(2) by (auto simp: msg_buffers_ok_def)
  then show thesis using that [of ?Y] W fr r(2) by (simp add: w)
next
  case True
  let ?d = "mem_domain (w_mem w)"
  have fr: "fr_msgBuffers X = []" "fr_msgBufferSize X = ld_msgBufferSize ?d"
    using world_okD(6) [OF ok] True by (auto simp: frame_ok_def)
  obtain iov where m: "malloc (ld_msgBufferSize ?d) (mem_heap (w_mem w)) = (buf, h)"
      and reg: "registerSegment fi buf (ld_msgBufferSize ?d) True False False ?d = Inr (iov, dm)"
    using g True by (auto simp: getMsgBuffer_def elim!: bindE_InrE split: prod.splits)
  have dm: "ld_msgBuffers dm = []" "ld_msgBufferSize dm = ld_msgBufferSize ?d" "buf \<noteq> NULL"
    using reg True by (auto simp: registerSegment_def Let_def elim!: bindE_InrE)
  obtain k xs where k: "buf = Ptr k 0" "k \<notin> fr_blocks X" "length xs = ld_msgBufferSize ?d"
      "w_blocks (w_set_heap h w) = (w_blocks w)(k \<mapsto> xs)"
      "world_ok mb R (X\<lparr>fr_data := (fr_data X)(k \<mapsto> xs)\<rparr>) (w_set_heap h w)" "data_kept S w (w_set_heap h w)"
    by (rule world_malloc [OF ok m dm(3)]) (rule that)
  let ?Y = "X\<lparr>fr_data := (fr_data X)(k \<mapsto> xs), fr_msgBuffers := ld_msgBuffers dm\<rparr>"
  have "ld_msgBufferSize dm = ld_msgBufferSize (mem_domain (w_mem (w_set_heap h w)))" using dm(2) by (simp add: w_set_heap_def)
  note W = world_set_domain [OF k(5) this]
  have kn: "fr_data X k = None" using k(2) by (auto simp: fr_blocks_def)
  then have "msg_buffers_ok ?Y L" using dm(1) fr(1) by (intro msg_buffers_data [OF L]) auto
  moreover have "buf \<notin> set L" using msg_buffersD [OF L, of buf] kn k(1) by auto
  ultimately have "msg_buffers_ok ?Y (buf # L)" using k(1,3) fr(2) dm(1) by (simp add: msg_buffers_Cons)
  moreover have "fr_data X \<subseteq>\<^sub>m fr_data ?Y" using kn by (auto simp: map_le_def)
  moreover have "data_kept S w (w_set_domain dm (w_set_heap h w))" by (rule data_kept_trans [OF k(6) W(2)])
  moreover have "foreign_ok F ?Y (buf # L)" if "foreign_ok F X L" for F
  proof -
    have "k \<notin> dom F" using that kn unfolding foreign_ok_def map_le_def by (metis domIff)
    then show ?thesis using that k(1) dm(1) by (auto simp: foreign_ok_def map_le_def domIff)
  qed
  ultimately show thesis using that [of ?Y] W(1) fr(2) dm(2) by simp
qed

text \<open>Writing the message into its own buffer leaves every other block alone.\<close>

lemma write_buffer_effect:
  assumes ok: "world_ok mb R Y w" and L: "msg_buffers_ok Y (buf # L)"
    and wr: "write_mem buf ys (mem_heap (w_mem w)) = Inr h"
  obtains Z k xs where "world_ok mb R Z (w_set_heap h w)" "msg_buffers_ok Z (buf # L)" "data_kept S w (w_set_heap h w)"
    "buf = Ptr k 0" "fr_data Z = (fr_data Y)(k \<mapsto> xs)" "take (length ys) xs = ys" "w_blocks (w_set_heap h w) k = Some xs"
    "fr_msgBufferSize Z = fr_msgBufferSize Y" "fr_msgBuffers Z = fr_msgBuffers Y"
proof -
  obtain k xs where k: "buf = Ptr k 0" "fr_data Y k = Some xs" "length xs = fr_msgBufferSize Y"
    using L by (auto simp: msg_buffers_ok_def)
  note W = world_write_frame [OF ok k(2) wr [unfolded k(1)]]
  have "w_blocks w k = Some xs" by (rule frame_data [OF world_okD(6) [OF ok] k(2)])
  then have len: "length ys \<le> length xs" using wr k(1) by (auto split: if_splits)
  have "msg_buffers_ok (Y\<lparr>fr_data := (fr_data Y)(k \<mapsto> patch 0 ys xs)\<rparr>) (buf # L)"
    by (rule msg_buffers_upd [OF L k(2)]) (use len in simp)
  then show thesis using that [OF W(1) _ W(2) k(1), of "patch 0 ys xs"] W(3) len by (simp add: patch_def)
qed

section \<open>Sending a message\<close>

text \<open>A posted operation with its message buffer, and a world that differs in the memory outside the objects only.\<close>

lemma inflight_posted:
  assumes "posted op c c'"
  shows "mset (inflight c') = mset (buffers_of [op_context op] @ inflight c)" "pending_count c' = Suc (pending_count c)"
  using assms by (cases "op_context op"; auto simp: posted_def inflight_def pending_count_def)+

lemma send_intact_mono:
  assumes "send_intact X op" "\<And>k xs. fr_data X k = Some xs \<Longrightarrow> Ptr k 0 \<in> set (buffers_of [op_context op]) \<Longrightarrow> fr_data Y k = Some xs"
  shows "send_intact Y op"
  using assms by (cases op) auto

lemma buffers_of_member: "x \<in> set acts \<Longrightarrow> p \<in> set (buffers_of [x]) \<Longrightarrow> p \<in> set (buffers_of acts)"
  by (induction acts) (auto simp: buffers_of_def List.map_filter_def)

lemma inflight_member: "op \<in> set (fb_ops (lc_fabric c)) \<Longrightarrow> p \<in> set (buffers_of [op_context op]) \<Longrightarrow> p \<in> set (inflight c)"
  unfolding inflight_def by (rule buffers_of_member [of "op_context op"]) auto

definition memory_only :: "'s world \<Rightarrow> 's world \<Rightarrow> bool" where
  "memory_only w w' \<longleftrightarrow> w' = w\<lparr>w_mem := w_mem w'\<rparr>"

lemma sendRawMessage_effect:
  assumes "sendRawMessage buf n dest act c w = Inr c'"
  obtains a bytes where "sm_find (lc_remoteLiAddr c) dest = Some a" "read_mem buf n (mem_heap (w_mem w)) = Inr bytes"
    "posted (FiSend a buf bytes act) c c'" "n \<le> lc_recvBuffersSize c" "buf \<noteq> NULL"
  using assms by (auto simp: sendRawMessage_def elim!: bindE_InrE dest: post_operation_effect split: option.splits)

lemma sendMessage_effect:
  assumes ok: "world_ok mb R X w" and net: "net_ok pd X c"
    and s: "sendMessage fi t dest A d body c w = Inr (c', w')"
  obtains Z a buf bytes act where "world_ok mb R Z w'" "net_ok pd Z c'" "data_kept S w w'" "memory_only w w'"
    "posted (FiSend a buf bytes (Some act)) c c'" "sm_find (lc_remoteLiAddr c) dest = Some a" "pa_body act = body"
    "length bytes \<le> lc_recvBuffersSize c" "fr_msgBufferSize Z = fr_msgBufferSize X"
proof -
  obtain buf dm h act bs s0 s1 s2 h' d1 d2 where g: "getMsgBuffer fi (mem_domain (w_mem w)) (mem_heap (w_mem w)) = Inr (buf, dm, h)"
      and att: "attachDomainBuffer buf (PostAction_init body) = Inr act"
      and wr: "write_mem buf (packed_bytes s2) h = Inr h'"
      and w': "w' = w\<lparr>w_mem := \<lparr>mem_heap = h', mem_domain = dm\<rparr>\<rparr>"
      and raw: "sendRawMessage buf (getCursor s2) dest (Some act) c w' = Inr c'"
    using s unfolding sendMessage_def Let_def by (auto elim!: bindE_InrE split: prod.splits)
  let ?w = "w_set_domain dm (w_set_heap h w)"
  have act: "act = (PostAction_init body)\<lparr>pa_domainBuffer := buf\<rparr>" "buf \<noteq> NULL"
    using att by (auto simp: attachDomainBuffer_def elim!: bindE_InrE)
  have L: "msg_buffers_ok X (inflight c)" and pend: "lc_pendingAction c = int (pending_count c + nc_held pd)"
      and foreign: "foreign_ok (nc_foreign pd) X (inflight c)"
      and sends: "\<And>op. op \<in> set (fb_ops (lc_fabric c)) \<Longrightarrow> send_intact X op"
    using net by (auto simp: net_ok_def)
  obtain Y where Y: "world_ok mb R Y ?w" "msg_buffers_ok Y (buf # inflight c)" "fr_data X \<subseteq>\<^sub>m fr_data Y" "data_kept S w ?w"
      "fr_msgBufferSize Y = fr_msgBufferSize X" "ld_msgBufferSize dm = fr_msgBufferSize X"
      "\<And>F. foreign_ok F X (inflight c) \<Longrightarrow> foreign_ok F Y (buf # inflight c)"
    by (rule getMsgBuffer_effect [OF ok L g]) (rule that)
  have "write_mem buf (packed_bytes s2) (mem_heap (w_mem ?w)) = Inr h'" using wr by (simp add: w_set_domain_def w_set_heap_def)
  then obtain Z k xs where Z: "world_ok mb R Z (w_set_heap h' ?w)" "msg_buffers_ok Z (buf # inflight c)" "data_kept S ?w (w_set_heap h' ?w)"
      "buf = Ptr k 0" "fr_data Z = (fr_data Y)(k \<mapsto> xs)" "take (length (packed_bytes s2)) xs = packed_bytes s2"
      "w_blocks (w_set_heap h' ?w) k = Some xs" "fr_msgBufferSize Z = fr_msgBufferSize Y" "fr_msgBuffers Z = fr_msgBuffers Y"
    by (rule write_buffer_effect [OF Y(1,2)]) (rule that)
  have w2: "w' = w_set_heap h' ?w" by (simp add: w' w_set_heap_def w_set_domain_def)
  obtain a bytes where a: "sm_find (lc_remoteLiAddr c) dest = Some a" "read_mem buf (getCursor s2) (mem_heap (w_mem w')) = Inr bytes"
      "posted (FiSend a buf bytes (Some act)) c c'" "getCursor s2 \<le> lc_recvBuffersSize c"
    by (rule sendRawMessage_effect [OF raw]) (rule that)
  have bytes: "bytes = take (getCursor s2) xs" "length bytes = getCursor s2"
    using a(2) Z(4,7) w2 by (auto simp: slice_def split: if_splits)
  note P = inflight_posted [OF a(3)]
  have "msg_buffers_ok Z (inflight c')"
    using msg_buffers_perm [OF P(1)] Z(2) act by simp
  moreover have "send_intact Z op" if "op \<in> set (fb_ops (lc_fabric c'))" for op
  proof (cases "op \<in> set (fb_ops (lc_fabric c))")
    case True
    have "fr_data Z i = Some ys" if "fr_data X i = Some ys" "Ptr i 0 \<in> set (buffers_of [op_context op])" for i ys
    proof -
      have "Ptr i 0 \<in> set (inflight c)" using inflight_member [OF True that(2)] .
      then have "i \<noteq> k" using Z(2,4) by (auto simp: msg_buffers_ok_def)
      then show ?thesis using that(1) Y(3) Z(5) by (metis domI fun_upd_other map_le_def)
    qed
    then show ?thesis using send_intact_mono [OF sends [OF True]] by blast
  next
    case False
    then have "op = FiSend a buf bytes (Some act)" using that a(3) by (auto simp: posted_def)
    then show ?thesis using Z(4,5) bytes act by auto
  qed
  moreover have "lc_pendingAction c' = int (pending_count c' + nc_held pd)" using a(3) pend P(2) by (simp add: posted_def)
  moreover have "foreign_ok (nc_foreign pd) Z (inflight c')"
  proof -
    have Yf: "foreign_ok (nc_foreign pd) Y (buf # inflight c)" by (rule Y(7) [OF foreign])
    then have "k \<notin> dom (nc_foreign pd)" using Z(4) by (auto simp: foreign_ok_def)
    moreover have "set (inflight c') = set (buf # inflight c)" using mset_eq_setD [OF P(1)] act by simp
    ultimately show ?thesis using Yf Z(5,9) unfolding foreign_ok_def map_le_def by (auto simp: domIff)
  qed
  moreover have "fr_msgBufferSize Z = nc_size pd" using net Y(5) Z(8) by (simp add: net_ok_def)
  ultimately have "net_ok pd Z c'" by (simp add: net_ok_def)
  moreover have "data_kept S w w'" using data_kept_trans [OF Y(4) Z(3)] w2 by simp
  moreover have "memory_only w w'" by (simp add: w' memory_only_def)
  moreover have "pa_body act = body" using act by (simp add: PostAction_init_def)
  ultimately show thesis using that [of Z] Z(1,8) Y(5) a bytes(2) w2 by simp
qed

text \<open>The bytes of a message are the header followed by the wire format of its data.\<close>

context wire_struct
begin

lemma sendMessage_wire:
  fixes c :: "('h, 'f) connection"
  assumes s: "sendMessage fi t dst applyDef v body c w = Inr (c', w')"
    and v: "ok v" and hd: "MessageHeader_ok (fillProtocolHeader t c)"
    and n: "32 + length (enc v) \<le> ld_msgBufferSize (mem_domain (w_mem w))" "ld_msgBufferSize (mem_domain (w_mem w)) < W64"
  shows "\<exists>a buf act. posted (FiSend a buf (MessageHeader_wire (fillProtocolHeader t c) @ enc v) (Some act)) c c'"
proof -
  let ?hd = "fillProtocolHeader t c"
  obtain buf dm h act bs s0 s1 s2 h' d1 d2 where g: "getMsgBuffer fi (mem_domain (w_mem w)) (mem_heap (w_mem w)) = Inr (buf, dm, h)"
      and rd: "read_mem buf (ld_msgBufferSize dm) h = Inr bs" and s0: "Serializer_make (Some bs) (ld_msgBufferSize dm) = Inr s0"
      and s1: "apply_struct MessageHeader_applySerializerDef ''header'' ?hd s0 = Inr (d1, s1)"
      and s2: "apply_struct applyDef ''data'' v s1 = Inr (d2, s2)"
      and wr: "write_mem buf (packed_bytes s2) h = Inr h'"
      and w': "w' = w\<lparr>w_mem := \<lparr>mem_heap = h', mem_domain = dm\<rparr>\<rparr>"
      and raw: "sendRawMessage buf (getCursor s2) dst (Some act) c w' = Inr c'"
    using s unfolding sendMessage_def Let_def getMsgBufferSize_def by (auto elim!: bindE_InrE split: prod.splits)
  have dm: "ld_msgBufferSize dm = ld_msgBufferSize (mem_domain (w_mem w))"
    using g by (auto simp: getMsgBuffer_def registerSegment_def Let_def elim!: bindE_InrE split: if_splits prod.splits)
  have len: "length bs = ld_msgBufferSize dm" using read_mem_Inr [OF rd] by (metis length_slice)
  have P0: "packing s0" "ser_cursor s0 = 0" "ser_size s0 = ld_msgBufferSize dm" "ser_buffer s0 = Some bs"
    using s0 len dm n(2) by (auto simp: Serializer_make_def SerializerBase_init_def packing_def elim!: bindE_InrE)
  have hl: "length (MessageHeader_wire ?hd) = 32" by (simp add: MessageHeader_wire_def)
  have e1: "s1 = emit (MessageHeader_wire ?hd) False (s0\<lparr>ser_root := False\<rparr>)"
    using s1 header.pack_struct [OF hd P0(1)] P0(2,3) hl n(1) dm by auto
  have P1: "packing s1" "ser_cursor s1 = 32" "ser_size s1 = ld_msgBufferSize dm" "\<not> ser_root s1"
    "ser_buffer s1 = Some (patch 0 (MessageHeader_wire ?hd) bs)"
    using P0 hl len n(1) dm by (auto simp: e1 emit_def packing_def)
  have e2: "s2 = emit (enc v) False s1" using s2 nested [OF P1(4) v P1(1)] P1(2,3) n(1) dm by auto
  have buf2: "packed_bytes s2 = MessageHeader_wire ?hd @ enc v @ drop (32 + length (enc v)) bs"
    using P1(2,5) hl by (simp add: e2 emit_def packed_bytes_def patch_def add.commute)
  have cur: "getCursor s2 = 32 + length (enc v)" using P1(2) by (simp add: e2 getCursor_def)
  obtain a bytes where a: "sm_find (lc_remoteLiAddr c) dst = Some a" "read_mem buf (getCursor s2) (mem_heap (w_mem w')) = Inr bytes"
      "posted (FiSend a buf bytes (Some act)) c c'"
    by (rule sendRawMessage_effect [OF raw]) (rule that)
  obtain b i xs where b: "buf = Ptr b i" "hp_blocks h b = Some xs" "i + length (packed_bytes s2) \<le> length xs"
      "h' = h\<lparr>hp_blocks := (hp_blocks h)(b \<mapsto> patch i (packed_bytes s2) xs)\<rparr>"
    by (rule write_mem_Inr [OF wr]) (rule that)
  have "bytes = slice i (getCursor s2) (patch i (packed_bytes s2) xs)"
    using a(2) b(1,4) w' by (auto split: if_splits)
  also have "\<dots> = take (getCursor s2) (packed_bytes s2)"
    using b(3) cur buf2 hl by (simp add: slice_def patch_def)
  also have "\<dots> = MessageHeader_wire ?hd @ enc v" using cur buf2 hl by simp
  finally show ?thesis using a(3) by blast
qed

end

end
