(* ===== verification/Hooks.thy ===== *)
theory Hooks
  imports Connection_Inv
begin

text \<open>
  The hooks of the server (src/server/hooks): the handlers of the messages that clients send.
  Each hook deserialises its message, works on the container and answers through the connection.
  The lambda functions that the hooks give to RDMA operations are the values of \<open>server_fun\<close>.
\<close>

section \<open>State\<close>

record ServerStats =
  st_readSize :: size_t
  st_writeSize :: size_t

definition ServerStats_init :: ServerStats where
  "ServerStats_init = \<lparr>st_readSize = 0, st_writeSize = 0\<rparr>"

record ping_state =
  pp_buffer :: ptr
  pp_bufferSize :: size_t
  pp_bufferIov :: Iov

datatype server_hook =
    HookPingPong | HookFlush | HookRangeRegister | HookRangeUnregister | HookObjectCreate
  | HookObjectRead | HookObjectWrite | HookObjectCow

text \<open>
  The lambda functions, with the values they capture: the counter of remaining operations, the size
  and the client of a transfer; the client and the receive buffer of a ping.
\<close>

datatype server_fun =
    RdmaPushed nat size_t nat
  | RdmaFetched nat size_t nat
  | PingFetched nat nat size_t

text \<open>\<open>ap_ops\<close> are the integers allocated by the RDMA transfers (\<open>new int\<close>).\<close>

record app =
  ap_container :: container
  ap_stats :: ServerStats
  ap_ping :: ping_state
  ap_consistencyCheck :: bool
  ap_ops :: "nat \<Rightarrow> int option"
  ap_nextOps :: nat

type_synonym server_connection = "(server_hook, server_fun) connection"

type_synonym 's hook_result = "(app, server_hook, server_fun, 's) outcome"

definition oid_of :: "LibfabricObjectId \<Rightarrow> ObjectId" where
  "oid_of i = ObjectId (loi_high i) (loi_low i)"

definition no_oid :: LibfabricObjectId where
  "no_oid = \<lparr>loi_low = 0, loi_high = 0\<rparr>"

text \<open>The end of most hooks: answer with a status, post the receive buffer again.\<close>

definition reply ::
  "fabric_ops \<Rightarrow> LibfabricMessageType \<Rightarrow> int \<Rightarrow> LibfabricClientRequest \<Rightarrow> app \<Rightarrow> server_connection \<Rightarrow> 's world \<Rightarrow>
   's hook_result" where
  "reply fi msgType status rq a c w =
     bindE (sendResponse fi msgType (rq_lfClientId rq) status False c w) (\<lambda>(c, w).
     bindE (terminate rq c) (\<lambda>c. Inr (LF_WAIT_LOOP_KEEP_WAITING, a, c, w)))"

section \<open>Flush, creation, copy on write\<close>

definition HookFlush_onMessage ::
  "fabric_ops \<Rightarrow> 's storage_ops \<Rightarrow> LibfabricClientRequest \<Rightarrow> app \<Rightarrow> server_connection \<Rightarrow> 's world \<Rightarrow> 's hook_result" where
  "HookFlush_onMessage fi so rq a c w =
     bindE (apply_struct ObjFlushInfos_applySerializerDef ''objFlush''
              \<lparr>fl_objectId = no_oid, fl_offset = 0, fl_size = 0\<rparr> (rq_deserializer rq)) (\<lambda>(objFlush, _).
     let k = oid_of (fl_objectId objFlush) in
     bindE (getObject k (ap_container a)) (\<lambda>(ob, ct).
     bindE (Object_flush so (fl_offset objFlush) (fl_size objFlush) ob w) (\<lambda>(ret, ob, w).
     reply fi IOC_LF_MSG_OBJ_FLUSH_ACK ret rq (a\<lparr>ap_container := put_object k ob ct\<rparr>) c w)))"

definition HookObjectCreate_onMessage ::
  "fabric_ops \<Rightarrow> 's storage_ops \<Rightarrow> LibfabricClientRequest \<Rightarrow> app \<Rightarrow> server_connection \<Rightarrow> 's world \<Rightarrow> 's hook_result" where
  "HookObjectCreate_onMessage fi so rq a c w =
     bindE (apply_struct ObjCreateInfos_applySerializerDef ''objCreate'' \<lparr>cr_objectId = no_oid\<rparr> (rq_deserializer rq))
       (\<lambda>(objCreate, _).
     bindE (getObject (oid_of (cr_objectId objCreate)) (ap_container a)) (\<lambda>(ob, ct).
     bindE (Object_create so ob w) (\<lambda>(ret, w).
     reply fi IOC_LF_MSG_OBJ_CREATE_ACK ret rq (a\<lparr>ap_container := ct\<rparr>) c w)))"

definition HookObjectCow_onMessage ::
  "fabric_ops \<Rightarrow> 's storage_ops \<Rightarrow> LibfabricClientRequest \<Rightarrow> app \<Rightarrow> server_connection \<Rightarrow> 's world \<Rightarrow> 's hook_result" where
  "HookObjectCow_onMessage fi so rq a c w =
     bindE (apply_struct ObjectCow_applySerializerDef ''objCow''
              \<lparr>oc_sourceObjectId = no_oid, oc_destObjectId = no_oid, oc_allowExist = False, oc_rangeOffset = 0,
               oc_rangeSize = 0\<rparr> (rq_deserializer rq)) (\<lambda>(objCow, _).
     let sourceId = oid_of (oc_sourceObjectId objCow); destId = oid_of (oc_destObjectId objCow) in
     bindE (if oc_rangeSize objCow = 0
            then makeObjectFullCow so sourceId destId (oc_allowExist objCow) (ap_container a) w
            else makeObjectRangeCow fi so sourceId destId (oc_allowExist objCow) (oc_rangeOffset objCow)
                   (oc_rangeSize objCow) (ap_container a) w) (\<lambda>(status, ct, w).
     reply fi IOC_LF_MSG_OBJ_COW_ACK (if status then 0 else - 1) rq (a\<lparr>ap_container := ct\<rparr>) c w))"

section \<open>Ranges\<close>

definition range_mode :: "bool \<Rightarrow> ConsistencyAccessMode" where
  "range_mode write = (if write then CONSIST_ACCESS_MODE_WRITE else CONSIST_ACCESS_MODE_READ)"

definition HookRangeRegister_onMessage ::
  "fabric_ops \<Rightarrow> LibfabricClientRequest \<Rightarrow> app \<Rightarrow> server_connection \<Rightarrow> 's world \<Rightarrow> 's hook_result" where
  "HookRangeRegister_onMessage fi rq a c w =
     bindE (apply_struct RegisterRange_applySerializerDef ''registerRange''
              \<lparr>rr_objectId = no_oid, rr_offset = 0, rr_size = 0, rr_write = False\<rparr> (rq_deserializer rq)) (\<lambda>(rr, _).
     let k = oid_of (rr_objectId rr) in
     bindE (getObject k (ap_container a)) (\<lambda>(ob, ct).
     let (status, t) = (if ap_consistencyCheck a
                        then registerRange (mh_tcpClientId (rq_header rq)) (rr_offset rr) (rr_size rr) (range_mode (rr_write rr))
                               (obj_consistencyTracker ob)
                        else (0, obj_consistencyTracker ob)) in
     reply fi IOC_LF_MSG_OBJ_RANGE_REGISTER_ACK status rq
       (a\<lparr>ap_container := put_object k (ob\<lparr>obj_consistencyTracker := t\<rparr>) ct\<rparr>) c w))"

definition HookRangeUnregister_onMessage ::
  "fabric_ops \<Rightarrow> LibfabricClientRequest \<Rightarrow> app \<Rightarrow> server_connection \<Rightarrow> 's world \<Rightarrow> 's hook_result" where
  "HookRangeUnregister_onMessage fi rq a c w =
     bindE (apply_struct UnregisterRange_applySerializerDef ''unregisterRange''
              \<lparr>ur_objectId = no_oid, ur_offset = 0, ur_size = 0, ur_id = 0, ur_write = False\<rparr> (rq_deserializer rq)) (\<lambda>(ur, _).
     let k = oid_of (ur_objectId ur) in
     bindE (getObject k (ap_container a)) (\<lambda>(ob, ct).
     let (found, t) = (if ap_consistencyCheck a
                       then unregisterRange (mh_tcpClientId (rq_header rq)) (ur_id ur) (ur_offset ur) (ur_size ur)
                              (range_mode (ur_write ur)) (obj_consistencyTracker ob)
                       else (True, obj_consistencyTracker ob)) in
     reply fi IOC_LF_MSG_OBJ_RANGE_UNREGISTER_ACK (if found then 0 else - 1) rq
       (a\<lparr>ap_container := put_object k (ob\<lparr>obj_consistencyTracker := t\<rparr>) ct\<rparr>) c w))"

section \<open>Eager transfers\<close>

text \<open>The part of a segment a request of \<open>dataSize\<close> bytes from \<open>baseOffset\<close> uses, \<open>cur\<close> bytes being done.\<close>

definition eager_clip :: "size_t \<Rightarrow> size_t \<Rightarrow> size_t \<Rightarrow> ObjectSegmentDescr \<Rightarrow> (size_t \<times> size_t) result" where
  "eager_clip dataSize baseOffset cur seg =
     (let (offset, copySize) = (if baseOffset > osd_offset seg
                                then (baseOffset - osd_offset seg, sub64 (osd_size seg) (baseOffset - osd_offset seg))
                                else (0, osd_size seg)) in
      bindE (assertE (copySize \<le> osd_size seg) ''copySize <= segment.size'') (\<lambda>_.
      let copySize = (if add64 cur copySize > dataSize then sub64 dataSize cur else copySize) in
      bindE (assertE (offset < osd_size seg) ''offset < segment.size'') (\<lambda>_.
      bindE (assertE (copySize \<le> osd_size seg) ''copySize <= segment.size'') (\<lambda>_.
      bindE (assertE (copySize \<le> osd_size seg - offset) ''copySize <= segment.size - offset'') (\<lambda>_.
      Inr (offset, copySize))))))"

fun eager_extract ::
  "byte list \<Rightarrow> size_t \<Rightarrow> size_t \<Rightarrow> ObjectSegmentDescr list \<Rightarrow> size_t \<Rightarrow> 's world \<Rightarrow> (size_t \<times> 's world) result" where
  "eager_extract bytes dataSize baseOffset [] cur w = Inr (cur, w)"
| "eager_extract bytes dataSize baseOffset (seg # segs) cur w =
     bindE (eager_clip dataSize baseOffset cur seg) (\<lambda>(offset, copySize).
     bindE (if cur + copySize \<le> length bytes then Inr (slice cur copySize bytes) else Inl OutOfBounds) (\<lambda>part.
     bindE (write_mem (ptr_add (osd_ptr seg) offset) part (mem_heap (w_mem w))) (\<lambda>h.
     eager_extract bytes dataSize baseOffset segs (add64 cur copySize) (w_set_heap h w))))"

definition objEagerExtractFromMessage ::
  "fabric_ops \<Rightarrow> nat \<Rightarrow> LibfabricObjReadWriteInfos \<Rightarrow> ObjectSegmentDescr list \<Rightarrow> app \<Rightarrow> server_connection \<Rightarrow> 's world \<Rightarrow>
   (app \<times> server_connection \<times> 's world) result" where
  "objEagerExtractFromMessage fi clientId rw segments a c w = (case rw_optionalData rw of
     None \<Rightarrow> Inl (AssertFailed ''data != NULL'')
   | Some bytes \<Rightarrow>
       bindE (eager_extract bytes (rw_size rw) (rw_offset rw) segments 0 w) (\<lambda>(cur, w).
       let a = a\<lparr>ap_stats := (ap_stats a)\<lparr>st_writeSize := add64 (st_writeSize (ap_stats a)) cur\<rparr>\<rparr> in
       bindE (sendResponse fi IOC_LF_MSG_OBJ_READ_WRITE_ACK clientId 0 False c w) (\<lambda>(c, w). Inr (a, c, w))))"

text \<open>The bytes a pointer leads to.\<close>

definition ptr_data :: "ptr \<Rightarrow> heap \<Rightarrow> data_ptr" where
  "ptr_data p h = (case p of NULL \<Rightarrow> None | Ptr b i \<Rightarrow> map_option (drop i) (hp_blocks h b))"

text \<open>
  The loop of \<open>objEagerPushToClient\<close> fills \<open>buffers[i]\<close> but never increments \<open>i\<close>: the entries after the
  first keep the content of the fresh array.
\<close>

fun eager_fragments ::
  "size_t \<Rightarrow> size_t \<Rightarrow> ObjectSegmentDescr list \<Rightarrow> nat \<Rightarrow> size_t \<Rightarrow> LibfabricBuffer option list \<Rightarrow> 's world \<Rightarrow>
   LibfabricBuffer option list result" where
  "eager_fragments dataSize baseOffset [] i cur buffers w = Inr buffers"
| "eager_fragments dataSize baseOffset (seg # segs) i cur buffers w =
     bindE (eager_clip dataSize baseOffset cur seg) (\<lambda>(offset, copySize).
     eager_fragments dataSize baseOffset segs i (add64 cur copySize)
       (buffers[i := Some \<lparr>lb_buffer = ptr_data (ptr_add (osd_ptr seg) offset) (mem_heap (w_mem w)),
                           lb_size = copySize\<rparr>]) w)"

definition objEagerPushToClient ::
  "fabric_ops \<Rightarrow> nat \<Rightarrow> LibfabricObjReadWriteInfos \<Rightarrow> ObjectSegmentDescr list \<Rightarrow> app \<Rightarrow> server_connection \<Rightarrow> 's world \<Rightarrow>
   (app \<times> server_connection \<times> 's world) result" where
  "objEagerPushToClient fi clientId rw segments a c w =
     bindE (eager_fragments (rw_size rw) (rw_offset rw) segments 0 0 (replicate (length segments) None) w) (\<lambda>buffers.
     let a = a\<lparr>ap_stats := (ap_stats a)\<lparr>st_readSize := add64 (st_readSize (ap_stats a)) (rw_size rw)\<rparr>\<rparr> in
     bindE (sendResponse_fragments fi IOC_LF_MSG_OBJ_READ_WRITE_ACK clientId 0 buffers False c w) (\<lambda>(c, w).
     Inr (a, c, w)))"

section \<open>RDMA transfers\<close>

definition IOC_LF_MAX_RDMA_SEGS :: nat where "IOC_LF_MAX_RDMA_SEGS = 4"

function count_groups :: "nat \<Rightarrow> int" where
  "count_groups n = (if n = 0 then 0 else count_groups (n - IOC_LF_MAX_RDMA_SEGS) + 1)"
  by pat_completeness auto
termination
  by (relation "measure (\<lambda>n. n)") (auto simp: IOC_LF_MAX_RDMA_SEGS_def)

text \<open>One operation per group of at most \<open>IOC_LF_MAX_RDMA_SEGS\<close> segments; \<open>post\<close> is \<open>rdmaReadv\<close> or \<open>rdmaWritev\<close>.\<close>

function rdma_groups ::
  "(iovec list \<Rightarrow> nat \<Rightarrow> server_connection \<Rightarrow> server_connection result) \<Rightarrow> nat \<Rightarrow> size_t \<Rightarrow> iovec list \<Rightarrow>
   server_connection \<Rightarrow> server_connection result" where
  "rdma_groups post addr offset iov c =
     (if iov = [] then Inr c
      else let group = take IOC_LF_MAX_RDMA_SEGS iov in
           bindE (post group (add64 addr offset) c) (\<lambda>c.
           rdma_groups post addr (foldl (\<lambda>off v. add64 off (iov_len v)) offset group)
             (drop IOC_LF_MAX_RDMA_SEGS iov) c))"
  by pat_completeness auto
termination
  by (relation "measure (\<lambda>(post, addr, offset, iov, c). length iov)") (auto simp: IOC_LF_MAX_RDMA_SEGS_def)

declare count_groups.simps [simp del] rdma_groups.simps [simp del]

definition new_ops :: "int \<Rightarrow> app \<Rightarrow> nat \<times> app" where
  "new_ops n a = (ap_nextOps a, a\<lparr>ap_ops := (ap_ops a)(ap_nextOps a \<mapsto> n), ap_nextOps := Suc (ap_nextOps a)\<rparr>)"

definition objRdmaPushToClient ::
  "nat \<Rightarrow> LibfabricObjReadWriteInfos \<Rightarrow> ObjectSegmentDescr list \<Rightarrow> app \<Rightarrow> server_connection \<Rightarrow> 's world \<Rightarrow>
   (app \<times> server_connection) result" where
  "objRdmaPushToClient clientId rw segments a c w =
     bindE (buildIovec segments (rw_offset rw) (rw_size rw)) (\<lambda>(_, iov).
     let (ops, a) = new_ops (count_groups (length segments)) a in
     bindE (rdma_groups (\<lambda>vs addr c. rdmaWritev (int_of_size clientId) vs addr (iov_key (rw_iov rw))
              (RdmaPushed ops (rw_size rw) clientId) c w) (iov_addr (rw_iov rw)) 0 iov c) (\<lambda>c.
     Inr (a, c)))"

definition objRdmaFetchFromClient ::
  "nat \<Rightarrow> LibfabricObjReadWriteInfos \<Rightarrow> ObjectSegmentDescr list \<Rightarrow> app \<Rightarrow> server_connection \<Rightarrow> 's world \<Rightarrow>
   (app \<times> server_connection) result" where
  "objRdmaFetchFromClient clientId rw segments a c w =
     bindE (buildIovec segments (rw_offset rw) (rw_size rw)) (\<lambda>(_, iov).
     let (ops, a) = new_ops (count_groups (length segments)) a in
     bindE (rdma_groups (\<lambda>vs addr c. rdmaReadv (int_of_size clientId) vs addr (iov_key (rw_iov rw))
              (RdmaFetched ops (rw_size rw) clientId) c w) (iov_addr (rw_iov rw)) 0 iov c) (\<lambda>c.
     Inr (a, c)))"

text \<open>The lambda function of a transfer: the last operation to complete counts the bytes and answers.\<close>

definition transfer_done ::
  "fabric_ops \<Rightarrow> (ServerStats \<Rightarrow> ServerStats) \<Rightarrow> nat \<Rightarrow> nat \<Rightarrow> app \<Rightarrow> server_connection \<Rightarrow> 's world \<Rightarrow> 's hook_result" where
  "transfer_done fi account ops clientId a c w = (case ap_ops a ops of
     None \<Rightarrow> Inl UseAfterFree
   | Some n \<Rightarrow>
       if n - 1 = 0 then
         bindE (sendResponse fi IOC_LF_MSG_OBJ_READ_WRITE_ACK clientId 0 False c w) (\<lambda>(c, w).
         Inr (LF_WAIT_LOOP_KEEP_WAITING, a\<lparr>ap_stats := account (ap_stats a), ap_ops := (ap_ops a)(ops := None)\<rparr>, c, w))
       else Inr (LF_WAIT_LOOP_KEEP_WAITING, a\<lparr>ap_ops := (ap_ops a)(ops \<mapsto> n - 1)\<rparr>, c, w))"

section \<open>Read and write\<close>

definition no_rw :: LibfabricObjReadWriteInfos where
  "no_rw = \<lparr>rw_objectId = no_oid, rw_iov = \<lparr>iov_addr = 0, iov_key = 0\<rparr>, rw_offset = 0, rw_size = 0,
     rw_msgHasData = False, rw_optionalData = None\<rparr>"

definition HookObjectRead_onMessage ::
  "fabric_ops \<Rightarrow> 's storage_ops \<Rightarrow> LibfabricClientRequest \<Rightarrow> app \<Rightarrow> server_connection \<Rightarrow> 's world \<Rightarrow> 's hook_result" where
  "HookObjectRead_onMessage fi so rq a c w =
     bindE (apply_struct ObjReadWriteInfos_applySerializerDef ''objReadWrite'' no_rw (rq_deserializer rq)) (\<lambda>(rw, _).
     let k = oid_of (rw_objectId rw) in
     bindE (getObject k (ap_container a)) (\<lambda>(ob, ct).
     bindE (getBuffers fi so (rw_offset rw) (rw_size rw) ACCESS_READ True False ob w) (\<lambda>(status, segments, ob, w).
     let a = a\<lparr>ap_container := put_object k ob ct\<rparr> in
     bindE (if status then
              if rw_size rw \<le> IOC_EAGER_MAX_READ then objEagerPushToClient fi (rq_lfClientId rq) rw segments a c w
              else bindE (objRdmaPushToClient (rq_lfClientId rq) rw segments a c w) (\<lambda>(a, c). Inr (a, c, w))
            else bindE (sendResponse fi IOC_LF_MSG_OBJ_READ_WRITE_ACK (rq_lfClientId rq) (- 1) False c w)
                   (\<lambda>(c, w). Inr (a, c, w))) (\<lambda>(a, c, w).
     bindE (terminate rq c) (\<lambda>c. Inr (LF_WAIT_LOOP_KEEP_WAITING, a, c, w))))))"

text \<open>A failed \<open>getBuffers\<close> is answered with status 0, and the range is marked dirty in every case.\<close>

definition HookObjectWrite_onMessage ::
  "fabric_ops \<Rightarrow> 's storage_ops \<Rightarrow> LibfabricClientRequest \<Rightarrow> app \<Rightarrow> server_connection \<Rightarrow> 's world \<Rightarrow> 's hook_result" where
  "HookObjectWrite_onMessage fi so rq a c w =
     bindE (apply_struct ObjReadWriteInfos_applySerializerDef ''objReadWrite'' no_rw (rq_deserializer rq)) (\<lambda>(rw, _).
     let k = oid_of (rw_objectId rw) in
     bindE (getObject k (ap_container a)) (\<lambda>(ob, ct).
     bindE (getBuffers fi so (rw_offset rw) (rw_size rw) ACCESS_WRITE True True ob w) (\<lambda>(status, segments, ob, w).
     bindE (if status then
              if rw_msgHasData rw then objEagerExtractFromMessage fi (rq_lfClientId rq) rw segments a c w
              else bindE (objRdmaFetchFromClient (rq_lfClientId rq) rw segments a c w) (\<lambda>(a, c). Inr (a, c, w))
            else bindE (sendResponse fi IOC_LF_MSG_OBJ_READ_WRITE_ACK (rq_lfClientId rq) 0 False c w)
                   (\<lambda>(c, w). Inr (a, c, w))) (\<lambda>(a, c, w).
     bindE (markDirty (rw_offset rw) (rw_size rw) ob w) (\<lambda>ob.
     bindE (terminate rq c) (\<lambda>c.
     Inr (LF_WAIT_LOOP_KEEP_WAITING, a\<lparr>ap_container := put_object k ob ct\<rparr>, c, w)))))))"

section \<open>Ping\<close>

definition HookPingPong_init :: ping_state where
  "HookPingPong_init = \<lparr>pp_buffer = NULL, pp_bufferSize = 0, pp_bufferIov = \<lparr>iov_addr = 0, iov_key = 0\<rparr>\<rparr>"

text \<open>\<open>new char[n]\<close> raises an exception when the memory is exhausted.\<close>

definition reallocateBuffer ::
  "fabric_ops \<Rightarrow> size_t \<Rightarrow> ping_state \<Rightarrow> 's world \<Rightarrow> (ping_state \<times> 's world) result" where
  "reallocateBuffer fi rdmaSize pp w =
     bindE (if pp_buffer pp \<noteq> NULL then
              bindE (unregisterSegment (pp_buffer pp) (pp_bufferSize pp) (mem_domain (w_mem w))) (\<lambda>d.
              bindE (free_block (pp_buffer pp) (mem_heap (w_mem w))) (\<lambda>h.
              Inr (w\<lparr>w_mem := \<lparr>mem_heap = h, mem_domain = d\<rparr>\<rparr>)))
            else Inr w) (\<lambda>w.
     if rdmaSize > 0 then
       let (buf, h) = malloc rdmaSize (mem_heap (w_mem w)) in
       bindE (assumeE (buf \<noteq> NULL) ''std::bad_alloc'') (\<lambda>_.
       bindE (registerSegment fi buf rdmaSize True True False (mem_domain (w_mem w))) (\<lambda>(iov, d).
       Inr (\<lparr>pp_buffer = buf, pp_bufferSize = rdmaSize, pp_bufferIov = iov\<rparr>,
            w\<lparr>w_mem := \<lparr>mem_heap = h, mem_domain = d\<rparr>\<rparr>)))
     else Inr (HookPingPong_init, w))"

definition HookPingPong_onMessage ::
  "fabric_ops \<Rightarrow> LibfabricClientRequest \<Rightarrow> app \<Rightarrow> server_connection \<Rightarrow> 's world \<Rightarrow> 's hook_result" where
  "HookPingPong_onMessage fi rq a c w =
     bindE (apply_struct Ping_applySerializerDef ''ping''
              \<lparr>lp_rdmaSize = 0, lp_eagerSize = 0, lp_rdmaIov = \<lparr>iov_addr = 0, iov_key = 0\<rparr>, lp_eagerData = None\<rparr>
              (rq_deserializer rq)) (\<lambda>(ping, _).
     bindE (if pp_bufferSize (ap_ping a) < lp_rdmaSize ping then reallocateBuffer fi (lp_rdmaSize ping) (ap_ping a) w
            else Inr (ap_ping a, w)) (\<lambda>(pp, w).
     let a = a\<lparr>ap_ping := pp\<rparr> in
     bindE (if lp_eagerSize ping = 0 then Inr [] else data_read (lp_eagerSize ping) (lp_eagerData ping)) (\<lambda>bytes.
     bindE (assertE (list_all (\<lambda>x. x = 43) bytes) ''ping.eagerData[i] == 43'') (\<lambda>_.
     if lp_rdmaSize ping > 0 then
       bindE (rdmaRead (int_of_size (rq_lfClientId rq)) (pp_buffer pp) (iov_addr (lp_rdmaIov ping))
                (iov_key (lp_rdmaIov ping)) (lp_rdmaSize ping)
                (PingFetched (rq_lfClientId rq) (rq_msgBufferId rq) (lp_rdmaSize ping)) c w) (\<lambda>c.
       Inr (LF_WAIT_LOOP_KEEP_WAITING, a, c, w))
     else
       bindE (sendResponse fi IOC_LF_MSG_PONG (rq_lfClientId rq) 0 False c w) (\<lambda>(c, w).
       bindE (repostReceive (rq_msgBufferId rq) c) (\<lambda>c.
       Inr (LF_WAIT_LOOP_KEEP_WAITING, a, c, w)))))))"

definition ping_fetched ::
  "fabric_ops \<Rightarrow> nat \<Rightarrow> nat \<Rightarrow> size_t \<Rightarrow> app \<Rightarrow> server_connection \<Rightarrow> 's world \<Rightarrow> 's hook_result" where
  "ping_fetched fi lfClientId msgBufferId rdmaSize a c w =
     bindE (read_mem (pp_buffer (ap_ping a)) rdmaSize (mem_heap (w_mem w))) (\<lambda>bytes.
     bindE (assertE (list_all (\<lambda>x. x = 42) bytes) ''this->buffer[i] == 42'') (\<lambda>_.
     bindE (sendResponse fi IOC_LF_MSG_PONG lfClientId 0 False c w) (\<lambda>(c, w).
     bindE (repostReceive msgBufferId c) (\<lambda>c.
     Inr (LF_WAIT_LOOP_KEEP_WAITING, a, c, w)))))"

section \<open>Dispatch\<close>

definition run_hook ::
  "fabric_ops \<Rightarrow> 's storage_ops \<Rightarrow> server_hook \<times> LibfabricClientRequest \<Rightarrow> app \<Rightarrow> server_connection \<Rightarrow> 's world \<Rightarrow>
   's hook_result" where
  "run_hook fi so hr a c w = (case hr of (h, rq) \<Rightarrow> (case h of
     HookPingPong \<Rightarrow> HookPingPong_onMessage fi rq a c w
   | HookFlush \<Rightarrow> HookFlush_onMessage fi so rq a c w
   | HookRangeRegister \<Rightarrow> HookRangeRegister_onMessage fi rq a c w
   | HookRangeUnregister \<Rightarrow> HookRangeUnregister_onMessage fi rq a c w
   | HookObjectCreate \<Rightarrow> HookObjectCreate_onMessage fi so rq a c w
   | HookObjectRead \<Rightarrow> HookObjectRead_onMessage fi so rq a c w
   | HookObjectWrite \<Rightarrow> HookObjectWrite_onMessage fi so rq a c w
   | HookObjectCow \<Rightarrow> HookObjectCow_onMessage fi so rq a c w))"

definition run_fun ::
  "fabric_ops \<Rightarrow> server_fun \<Rightarrow> app \<Rightarrow> server_connection \<Rightarrow> 's world \<Rightarrow> 's hook_result" where
  "run_fun fi f a c w = (case f of
     RdmaPushed ops n clientId \<Rightarrow>
       transfer_done fi (\<lambda>st. st\<lparr>st_readSize := add64 (st_readSize st) n\<rparr>) ops clientId a c w
   | RdmaFetched ops n clientId \<Rightarrow>
       transfer_done fi (\<lambda>st. st\<lparr>st_writeSize := add64 (st_writeSize st) n\<rparr>) ops clientId a c w
   | PingFetched clientId msgBufferId n \<Rightarrow> ping_fetched fi clientId msgBufferId n a c w)"

end
