(* ===== verification/Hook_Data.thy ===== *)
theory Hook_Data
  imports Hooks
begin

text \<open>
  What the transfers of the hooks do to the bytes of an object: the copy loop of an eager write
  never fails one of its assertions and stores exactly the data of the message.
\<close>

section \<open>The copy loop of an eager transfer\<close>

lemma eager_clip_ok:
  assumes "osd_offset d \<le> b" "b < osd_offset d + osd_size d" "osd_offset d + osd_size d < W64"
    and "b = base + cur" "cur = 0 \<or> b \<le> osd_offset d" "b < base + n" "base + n < W64"
  shows "eager_clip n base cur d = Inr (b - osd_offset d, min (osd_offset d + osd_size d) (base + n) - b)"
proof -
  have "(if base > osd_offset d then (base - osd_offset d, sub64 (osd_size d) (base - osd_offset d)) else (0, osd_size d)) =
      (b - osd_offset d, osd_offset d + osd_size d - b)"
    using assms by auto
  moreover have "add64 cur (osd_offset d + osd_size d - b) = cur + (osd_offset d + osd_size d - b)"
    using assms by (intro add64_small) linarith
  ultimately show ?thesis using assms by (auto simp: eager_clip_def Let_def min_def)
qed

lemma private_block:
  assumes inv: "object_inv X mb E ob w" and d: "private_descr E ob w d"
  obtains k xs where "osd_ptr d = Ptr k 0" "w_blocks w k = Some xs" "length xs = osd_size d" "osd_offset d + osd_size d < W64"
proof -
  obtain key seg i where s: "(key, seg) \<in> set (obj_segmentMap ob)" "os_memory seg = Some i" and g: "getSegmentDescr seg w = Inr d"
    using d by (auto simp: private_descr_def)
  have ok: "world_ok mb (\<lambda>i. map_refs (obj_segmentMap ob) i + E i) X w" "map_ok w (obj_segmentMap ob)"
    using inv by (auto simp: object_inv_def)
  obtain osm c where e: "w_shared w i = Some (osm, c)" "d = \<lparr>osd_ptr = osm_buffer osm, osd_offset = os_offset seg, osd_size = osm_size osm\<rparr>"
    using g s(2) by (auto simp: getSegmentDescr_def seg_memory_Inr elim!: bindE_InrE)
  obtain k bs where k: "osm_buffer osm = Ptr k 0" "w_blocks w k = Some bs" "length bs = osm_size osm"
      "k \<in> owned_blocks w" "shared_bytes w i = Some bs"
    by (rule world_ok_entry [OF ok(1) e(1)]) (rule that)
  have "seg_ok w key seg" using map_okD(2) [OF ok(2) s(1)] .
  then have "os_offset seg + osm_size osm < W64" using k(3,5) s(2) by (auto simp: seg_ok_def seg_bytes_def)
  then show thesis using that [of k bs] k e(2) by simp
qed

lemma eager_extract_effect:
  fixes w :: "'s world"
  assumes "object_inv X mb E ob w" "\<And>d. d \<in> set segs \<Longrightarrow> private_descr E ob w d" "chain (base + cur) (base + n) segs"
    and "cur = 0 \<or> (\<forall>d \<in> set segs. base + cur \<le> osd_offset d)" "cur \<le> n" "base + n < W64" "n \<le> length bytes"
  shows "\<exists>w'. eager_extract bytes n base segs cur w = Inr (n, w') \<and> object_step X mb E ob w ob w' \<and> w_storage w' = w_storage w \<and>
    entry_of w' = entry_of w \<and>
    (\<forall>x. view_byte w' (obj_segmentMap ob) x = (if base + cur \<le> x \<and> x < base + n then Some (bytes ! (x - base))
       else view_byte w (obj_segmentMap ob) x))"
  using assms
proof (induction segs arbitrary: cur w)
  case Nil
  then have "cur = n" by simp
  then show ?case using object_step_refl [OF Nil.prems(1)] by auto
next
  case (Cons d ds)
  let ?m = "obj_segmentMap ob" and ?b = "base + cur" and ?top = "osd_offset d + osd_size d"
  let ?len = "min ?top (base + n) - ?b"
  have p: "private_descr E ob w d" using Cons.prems(2) by simp
  obtain k xs where k: "osd_ptr d = Ptr k 0" "w_blocks w k = Some xs" "length xs = osd_size d" "?top < W64"
    by (rule private_block [OF Cons.prems(1) p]) (rule that)
  have c: "osd_offset d \<le> ?b" "?b < ?top" "?b < base + n" "chain ?top (base + n) ds"
      "\<And>d'. d' \<in> set ds \<Longrightarrow> ?top \<le> osd_offset d'"
    using Cons.prems(3) by auto
  have "cur = 0 \<or> ?b \<le> osd_offset d" using Cons.prems(4) by auto
  then have clip: "eager_clip n base cur d = Inr (?b - osd_offset d, ?len)"
    by (rule eager_clip_ok [OF c(1,2) k(4) refl _ c(3) Cons.prems(6)])
  have len: "cur + ?len \<le> n" "?b - osd_offset d + ?len \<le> length xs" using c(1,2,3) k(3) by auto
  let ?part = "slice cur ?len bytes"
  have part: "length ?part = ?len" using len(1) Cons.prems(7) by simp
  obtain h where wr: "write_mem (ptr_add (osd_ptr d) (?b - osd_offset d)) ?part (mem_heap (w_mem w)) = Inr h"
    using k(1,2) len(2) part by simp
  note W = private_write [OF Cons.prems(1) p wr]
  let ?w = "w_set_heap h w"
  have view1: "view_byte ?w ?m x = (if ?b \<le> x \<and> x < ?b + ?len then Some (bytes ! (x - base)) else view_byte w ?m x)" for x
    using W(5) [of x] c(1) part len(1) Cons.prems(7) by auto
  have nxt: "add64 cur ?len = cur + ?len" using len(1) Cons.prems(6) by simp
  have "\<exists>w'. eager_extract bytes n base ds (cur + ?len) ?w = Inr (n, w') \<and> object_step X mb E ob ?w ob w' \<and>
      w_storage w' = w_storage ?w \<and> entry_of w' = entry_of ?w \<and>
      (\<forall>x. view_byte w' ?m x = (if base + (cur + ?len) \<le> x \<and> x < base + n then Some (bytes ! (x - base)) else view_byte ?w ?m x))"
  proof (rule Cons.IH)
    show "object_inv X mb E ob ?w" using W(1) by (simp add: object_step_def)
    show "private_descr E ob ?w d'" if "d' \<in> set ds" for d'
      using Cons.prems(2) [of d'] that private_descr_kept [OF W(3)] by simp
    show "chain (base + (cur + ?len)) (base + n) ds"
    proof (cases "?top \<le> base + n")
      case True
      then show ?thesis using c by (simp add: min_def)
    next
      case False
      then have "ds = []" using c(4) by (cases ds) auto
      then show ?thesis using False c(3) by (simp add: min_def)
    qed
    show "cur + ?len = 0 \<or> (\<forall>d' \<in> set ds. base + (cur + ?len) \<le> osd_offset d')" using c(2,5) by (auto simp: min_def) fastforce+
  qed (use len(1) Cons.prems(6,7) in auto)
  then obtain w' where w': "eager_extract bytes n base ds (cur + ?len) ?w = Inr (n, w')" "object_step X mb E ob ?w ob w'"
      "w_storage w' = w_storage ?w" "entry_of w' = entry_of ?w"
      "\<And>x. view_byte w' ?m x = (if base + (cur + ?len) \<le> x \<and> x < base + n then Some (bytes ! (x - base)) else view_byte ?w ?m x)"
    by blast
  have "eager_extract bytes n base (d # ds) cur w = Inr (n, w')"
    using clip wr w'(1) len(1) Cons.prems(7) nxt by simp
  moreover have "view_byte w' ?m x = (if ?b \<le> x \<and> x < base + n then Some (bytes ! (x - base)) else view_byte w ?m x)" for x
    using w'(5) [of x] view1 [of x] len(1) by auto
  ultimately show ?case
    using object_step_trans [OF W(1) w'(2)] w'(3,4) W(2,3) by auto
qed

section \<open>Answers\<close>

definition conn_ok :: "net_context \<Rightarrow> frame \<Rightarrow> ('h, 'f) connection \<Rightarrow> bool" where
  "conn_ok pd X c \<longleftrightarrow> net_ok pd X c \<and> lc_clientId c < W64 \<and> lc_tcpClientId c < W64 \<and> lc_tcpClientKey c < W64 \<and>
     45 \<le> fr_msgBufferSize X \<and> fr_msgBufferSize X < W64"

text \<open>The response with a status and no data.\<close>

definition status_response :: "int \<Rightarrow> LibfabricResponse" where
  "status_response status = \<lparr>rs_msgDataSize = 0, rs_status = status, rs_msgHasData = False, rs_optionalData = None,
     rs_optionalDataFragments = None\<rparr>"

text \<open>Exactly one message was posted: a response to a client.\<close>

definition answered ::
  "LibfabricMessageType \<Rightarrow> LibfabricResponse \<Rightarrow> nat \<Rightarrow> ('h, 'f) connection \<Rightarrow> ('h, 'f) connection \<Rightarrow> bool" where
  "answered t resp client c c' \<longleftrightarrow> (\<exists>a buf act. sm_find (lc_remoteLiAddr c) (int_of_size client) = Some a \<and>
     posted (FiSend a buf (MessageHeader_wire (fillProtocolHeader (msg_code t) c) @ Response_wire resp) (Some act)) c c')"

lemma msg_code_small: "msg_code t < W64"
  by (cases t) (simp_all add: W64_def)

lemma same_settings_header: "same_settings c c' \<Longrightarrow> fillProtocolHeader t c' = fillProtocolHeader t c"
  using same_settings_sel [of c c'] by (simp add: fillProtocolHeader_def)

text \<open>A container through a change of the memory outside its objects.\<close>

lemma container_memory:
  assumes "container_ok X mb w ct" "world_ok mb (ct_refs (ct_objects ct)) Z w'" "data_kept UNIV w w'"
  shows "container_ok Z mb w' ct" "view_byte w' m = view_byte w m" "map_view w' m = map_view w m"
proof -
  show v: "map_view w' m = map_view w m" for m by (rule kept_view [OF data_kept_mono [OF assms(3)]]) simp
  show "view_byte w' m = view_byte w m" by (rule view_byte_view [OF v])
  have "member_ok mb al w' k ob = member_ok mb al w k ob" for al k ob
    using map_ok_view [OF v, of "obj_segmentMap ob"] map_ok_view [OF v [symmetric], of "obj_segmentMap ob"]
    unfolding member_ok_def by blast
  then show "container_ok Z mb w' ct" using assms(1,2) unfolding container_ok_def by simp
qed

lemma response_effect:
  assumes ok: "container_ok X mb w ct" and conn: "conn_ok pd X c" and resp: "Response_ok resp"
    and fit: "32 + length (Response_wire resp) \<le> fr_msgBufferSize X"
    and s: "sendMessage fi (msg_code t) (int_of_size client) Response_applySerializerDef resp body c w = Inr (c', w')"
  obtains Z where "container_ok Z mb w' ct" "conn_ok pd Z c'" "answered t resp client c c'" "memory_only w w'" "data_kept UNIV w w'"
    "fr_msgBufferSize Z = fr_msgBufferSize X"
proof -
  have net: "net_ok pd X c" and sz: "45 \<le> fr_msgBufferSize X" "fr_msgBufferSize X < W64"
      and hd: "MessageHeader_ok (fillProtocolHeader (msg_code t) c)"
    using conn msg_code_small by (auto simp: conn_ok_def MessageHeader_ok_def fillProtocolHeader_def)
  have wok: "world_ok mb (ct_refs (ct_objects ct)) X w" by (rule container_okD(3) [OF ok])
  obtain Z a buf bytes act where Z: "world_ok mb (ct_refs (ct_objects ct)) Z w'" "net_ok pd Z c'" "data_kept UNIV w w'" "memory_only w w'"
      "posted (FiSend a buf bytes (Some act)) c c'" "sm_find (lc_remoteLiAddr c) (int_of_size client) = Some a" "pa_body act = body"
      "length bytes \<le> lc_recvBuffersSize c" "fr_msgBufferSize Z = fr_msgBufferSize X"
    by (rule sendMessage_effect [OF wok net s]) (rule that)
  have d: "ld_msgBufferSize (mem_domain (w_mem w)) = fr_msgBufferSize X"
    using world_okD(6) [OF wok] by (simp add: frame_ok_def)
  obtain a' buf' act' where "posted (FiSend a' buf' (MessageHeader_wire (fillProtocolHeader (msg_code t) c) @ Response_wire resp) (Some act')) c c'"
    using response.sendMessage_wire [OF s resp hd] fit sz d by auto
  with Z(5,6) have "answered t resp client c c'" unfolding answered_def by (auto simp: posted_def)
  moreover have "conn_ok pd Z c'" using conn Z(2,5,9) same_settings_sel [of c c'] by (auto simp: conn_ok_def posted_def)
  ultimately show thesis using that container_memory(1) [OF ok Z(1,3)] Z(3,4,9) by blast
qed

text \<open>
  A message is sent whenever the pool has a buffer, the message fits, the peer is known and the
  endpoint accepts the operation after refusing it any number of times with \<open>-FI_EAGAIN\<close>.
\<close>

definition endpoint_ready :: "frame \<Rightarrow> int \<Rightarrow> ('h, 'f) connection \<Rightarrow> bool" where
  "endpoint_ready X dst c \<longleftrightarrow> fr_msgBuffers X \<noteq> [] \<and> sm_find (lc_remoteLiAddr c) dst \<noteq> None \<and>
     fr_msgBufferSize X \<le> lc_recvBuffersSize c \<and> set (fb_codes (lc_fabric c)) \<subseteq> {- FI_EAGAIN}"

definition buffer_available :: "fabric_ops \<Rightarrow> 's world \<Rightarrow> bool" where
  "buffer_available fi w \<longleftrightarrow> (\<exists>r. getMsgBuffer fi (mem_domain (w_mem w)) (mem_heap (w_mem w)) = Inr r)"

lemma pool_available:
  "world_ok mb R X w \<Longrightarrow> fr_msgBuffers X \<noteq> [] \<Longrightarrow> buffer_available fi w"
  using world_okD(6) [of mb R X w] by (auto simp: buffer_available_def getMsgBuffer_def frame_ok_def)

lemma available_buffer:
  assumes ok: "world_ok mb R X w" and net: "net_ok pd X c" and av: "buffer_available fi w"
  obtains k xs dm h where "getMsgBuffer fi (mem_domain (w_mem w)) (mem_heap (w_mem w)) = Inr (Ptr k 0, dm, h)"
    "hp_blocks h k = Some xs" "length xs = fr_msgBufferSize X" "ld_msgBufferSize dm = fr_msgBufferSize X"
proof -
  obtain buf dm h where g: "getMsgBuffer fi (mem_domain (w_mem w)) (mem_heap (w_mem w)) = Inr (buf, dm, h)"
    using av by (auto simp: buffer_available_def)
  have L: "msg_buffers_ok X (inflight c)" using net by (simp add: net_ok_def)
  obtain Y where Y: "world_ok mb R Y (w_set_domain dm (w_set_heap h w))" "msg_buffers_ok Y (buf # inflight c)"
      "fr_msgBufferSize Y = fr_msgBufferSize X" "ld_msgBufferSize dm = fr_msgBufferSize X"
    by (rule getMsgBuffer_effect [OF ok L g]) (rule that)
  obtain k xs where k: "buf = Ptr k 0" "fr_data Y k = Some xs" "length xs = fr_msgBufferSize Y" using Y(2) by (auto simp: msg_buffers_Cons)
  have "hp_blocks h k = Some xs"
    using frame_data [OF world_okD(6) [OF Y(1)] k(2)] by (simp add: w_set_domain_def w_set_heap_def)
  then show thesis using that g k Y(3,4) by simp
qed

context wire_struct
begin

lemma sendMessage_available:
  fixes c :: "('h, 'f) connection"
  assumes ok: "world_ok mb R X w" and net: "net_ok pd X c" and av: "buffer_available fi w"
    and peer: "sm_find (lc_remoteLiAddr c) dst = Some a" "fr_msgBufferSize X \<le> lc_recvBuffersSize c" "set (fb_codes (lc_fabric c)) \<subseteq> {- FI_EAGAIN}"
    and v: "ok v" and hd: "MessageHeader_ok (fillProtocolHeader t c)"
    and n: "32 + length (enc v) \<le> fr_msgBufferSize X" "fr_msgBufferSize X < W64"
  shows "\<exists>c' w'. sendMessage fi t dst applyDef v body c w = Inr (c', w')"
proof -
  let ?hd = "fillProtocolHeader t c" and ?n = "fr_msgBufferSize X"
  obtain k xs dm h where g: "getMsgBuffer fi (mem_domain (w_mem w)) (mem_heap (w_mem w)) = Inr (Ptr k 0, dm, h)" "hp_blocks h k = Some xs"
      "length xs = ?n" "ld_msgBufferSize dm = ?n"
    by (rule available_buffer [OF ok net av]) (rule that)
  have n0: "0 < ?n" using n(1) by simp
  obtain s0 where s0: "Serializer_make (Some xs) ?n = Inr s0" "packing s0" "ser_cursor s0 = 0" "ser_size s0 = ?n" "ser_buffer s0 = Some xs"
    using n0 n(2) g(3) by (auto simp: Serializer_make_def SerializerBase_init_def packing_def)
  have hl: "length (MessageHeader_wire ?hd) = 32" by (simp add: MessageHeader_wire_def)
  let ?s1 = "emit (MessageHeader_wire ?hd) False (s0\<lparr>ser_root := False\<rparr>)"
  have e1: "apply_struct MessageHeader_applySerializerDef ''header'' ?hd s0 = Inr (?hd, ?s1)"
    using header.pack_struct [OF hd s0(2)] s0(3,4) hl n(1) by simp
  have P1: "packing ?s1" "ser_cursor ?s1 = 32" "ser_size ?s1 = ?n" "\<not> ser_root ?s1" "ser_buffer ?s1 = Some (patch 0 (MessageHeader_wire ?hd) xs)"
    using s0 hl g(3) n(1) by (auto simp: emit_def packing_def)
  let ?s2 = "emit (enc v) False ?s1"
  have e2: "apply_struct applyDef ''data'' v ?s1 = Inr (v, ?s2)" using nested [OF P1(4) v P1(1)] P1(2,3) n(1) by simp
  have len: "length (packed_bytes ?s2) = ?n" "getCursor ?s2 = 32 + length (enc v)"
    using s0(3,5) hl g(3) n(1) by (simp_all add: emit_def packed_bytes_def getCursor_def)
  have rd: "read_mem (Ptr k 0) ?n h = Inr xs" using g(2,3) by (simp add: slice_def)
  let ?h' = "h\<lparr>hp_blocks := (hp_blocks h)(k \<mapsto> patch 0 (packed_bytes ?s2) xs)\<rparr>"
  have wr: "write_mem (Ptr k 0) (packed_bytes ?s2) h = Inr ?h'" using g(2,3) len(1) by simp
  let ?w = "w\<lparr>w_mem := \<lparr>mem_heap = ?h', mem_domain = dm\<rparr>\<rparr>"
  obtain bytes where rd': "read_mem (Ptr k 0) (getCursor ?s2) ?h' = Inr bytes" using g(3) len n(1) by simp
  have "set (fb_codes (lc_fabric c)) \<subseteq> {0, - FI_EAGAIN}" using peer(3) by auto
  note post = post_operation_returns [OF this]
  have "getCursor ?s2 \<le> lc_recvBuffersSize c" using len(2) n(1) peer(2) by simp
  then have raw: "\<exists>c'. sendRawMessage (Ptr k 0) (getCursor ?s2) dst (Some act) c ?w = Inr c'" for act
    using post by (simp add: sendRawMessage_def peer(1) rd' del: read_mem.simps)
  obtain c' where "sendRawMessage (Ptr k 0) (getCursor ?s2) dst (Some ((PostAction_init body)\<lparr>pa_domainBuffer := Ptr k 0\<rparr>)) c ?w = Inr c'"
    using raw by blast
  then show ?thesis
    by (simp add: sendMessage_def g(1,4) attachDomainBuffer_def PostAction_init_def getMsgBufferSize_def rd s0(1) e1 e2 wr Let_def
        del: read_mem.simps write_mem.simps)
qed

lemma sendMessage_returns:
  fixes c :: "('h, 'f) connection"
  assumes ok: "world_ok mb R X w" and net: "net_ok pd X c" and rdy: "endpoint_ready X dst c"
    and v: "ok v" and hd: "MessageHeader_ok (fillProtocolHeader t c)"
    and n: "32 + length (enc v) \<le> fr_msgBufferSize X" "fr_msgBufferSize X < W64"
  shows "\<exists>c' w'. sendMessage fi t dst applyDef v body c w = Inr (c', w')"
proof -
  obtain a where "sm_find (lc_remoteLiAddr c) dst = Some a" using rdy by (auto simp: endpoint_ready_def)
  then show ?thesis
    using sendMessage_available [OF ok net pool_available [OF ok] _ _ _ v hd n] rdy by (auto simp: endpoint_ready_def)
qed

end

lemma post_operation_codes:
  assumes "post_operation call op c = Inr c'" "set (fb_codes (lc_fabric c)) \<subseteq> {- FI_EAGAIN}"
  shows "fb_codes (lc_fabric c') = []"
proof -
  have "fb_codes (lc_fabric (snd (post_retry codes c))) = []" if "set codes \<subseteq> {- FI_EAGAIN}" for codes and c :: "('h, 'f) connection"
    using that by (induction codes c rule: post_retry.induct) (simp_all del: pollAllCqInCache.simps)
  from this [OF assms(2), of c] show ?thesis
    using assms(1) by (auto simp: post_operation_def elim!: bindE_InrE split: prod.splits)
qed

lemma sendMessage_codes:
  fixes w :: "'s world"
  assumes "sendMessage fi t dst A d body c w = Inr (c', w')" "set (fb_codes (lc_fabric c)) \<subseteq> {- FI_EAGAIN}"
  shows "fb_codes (lc_fabric c') = []"
proof -
  obtain buf n act and w1 :: "'s world" where "sendRawMessage buf n dst (Some act) c w1 = Inr c'"
    using assms(1) unfolding sendMessage_def Let_def by (auto elim!: bindE_InrE split: prod.splits)
  then obtain op where "post_operation ''fi_send'' op c = Inr c'"
    by (auto simp: sendRawMessage_def elim!: bindE_InrE split: option.splits)
  then show ?thesis using assms(2) by (rule post_operation_codes)
qed

lemma repostReceive_returns:
  "fb_codes (lc_fabric c) = [] \<Longrightarrow> i < lc_recvBuffersCount c \<Longrightarrow> \<exists>c'. repostReceive i c = Inr c'"
  by (simp add: repostReceive_def)

lemma status_response_ok: "int32_ok st \<Longrightarrow> Response_ok (status_response st)" "length (Response_wire (status_response st)) = 13"
  by (simp_all add: Response_ok_def status_response_def Response_wire_def response_data_def W64_def)

lemma sendResponse_effect:
  assumes ok: "container_ok X mb w ct" and conn: "conn_ok pd X c" and st: "int32_ok st"
    and s: "sendResponse fi t client st unblock c w = Inr (c', w')"
  obtains Z where "container_ok Z mb w' ct" "conn_ok pd Z c'" "answered t (status_response st) client c c'" "memory_only w w'"
    "data_kept UNIV w w'" "fr_msgBufferSize Z = fr_msgBufferSize X"
proof -
  have "32 + length (Response_wire (status_response st)) \<le> fr_msgBufferSize X"
    using conn by (simp add: conn_ok_def status_response_ok)
  then show thesis
    using response_effect [OF ok conn status_response_ok(1) [OF st] _ s [unfolded sendResponse_def, folded status_response_def]] that
    by blast
qed

text \<open>An answer with a status, and the receive buffer posted again, always succeed on a ready endpoint.\<close>

lemma status_reply_returns:
  assumes ok: "container_ok X mb w ct" and conn: "conn_ok pd X c" and st: "int32_ok st" and rdy: "endpoint_ready X (int_of_size client) c"
    and i: "i < lc_recvBuffersCount c"
  obtains c1 w1 c2 where "sendResponse fi t client st unblock c w = Inr (c1, w1)" "repostReceive i c1 = Inr c2"
proof -
  have net: "net_ok pd X c" "fr_msgBufferSize X < W64" "32 + length (Response_wire (status_response st)) \<le> fr_msgBufferSize X"
      and hd: "MessageHeader_ok (fillProtocolHeader (msg_code t) c)"
    using conn msg_code_small by (auto simp: conn_ok_def MessageHeader_ok_def fillProtocolHeader_def status_response_ok(2))
  obtain c1 w1 where s: "sendResponse fi t client st unblock c w = Inr (c1, w1)"
    using response.sendMessage_returns [OF container_okD(3) [OF ok] net(1) rdy status_response_ok(1) [OF st] hd net(3,2)]
    unfolding sendResponse_def status_response_def by blast
  have "fb_codes (lc_fabric c1) = []"
    using sendMessage_codes [OF s [unfolded sendResponse_def]] rdy by (simp add: endpoint_ready_def)
  moreover obtain Z where "answered t (status_response st) client c c1"
    by (rule sendResponse_effect [OF ok conn st s]) (rule that)
  then have "lc_recvBuffersCount c1 = lc_recvBuffersCount c" using same_settings_sel(2) by (auto simp: answered_def posted_def)
  ultimately show thesis using that [OF s] repostReceive_returns i by metis
qed

lemma conn_ok_repost:
  assumes "conn_ok pd X c" "repostReceive i c = Inr c'"
  shows "conn_ok pd X c'"
proof -
  note R = repostReceive_effect [OF assms(2)]
  have "inflight c' = inflight c" "pending_count c' = pending_count c" using R(3,4) by (simp_all add: inflight_def pending_count_def)
  then show ?thesis using assms(1) R(4,6) same_settings_sel [OF R(2)] by (simp add: conn_ok_def net_ok_def)
qed

text \<open>The answer of a hook: the response, and the receive buffer posted again.\<close>

definition hook_answer ::
  "LibfabricMessageType \<Rightarrow> LibfabricResponse \<Rightarrow> LibfabricClientRequest \<Rightarrow> ('h, 'f) connection \<Rightarrow> ('h, 'f) connection \<Rightarrow> bool" where
  "hook_answer t resp rq c c' \<longleftrightarrow> (\<exists>c1. answered t resp (rq_lfClientId rq) c c1 \<and> repostReceive (rq_msgBufferId rq) c1 = Inr c')"

lemma reply_effect:
  assumes ok: "container_ok X mb w (ap_container a)" and conn: "conn_ok pd X c" and st: "int32_ok st"
    and r: "reply fi t st rq a c w = Inr (res, a', c', w')"
  obtains Z where "container_ok Z mb w' (ap_container a)" "conn_ok pd Z c'" "hook_answer t (status_response st) rq c c'" "memory_only w w'"
    "data_kept UNIV w w'" "res = LF_WAIT_LOOP_KEEP_WAITING" "a' = a"
proof -
  obtain c1 where s: "sendResponse fi t (rq_lfClientId rq) st False c w = Inr (c1, w')" and t: "repostReceive (rq_msgBufferId rq) c1 = Inr c'"
      and res: "res = LF_WAIT_LOOP_KEEP_WAITING" "a' = a"
    using r by (auto simp: reply_def terminate_def elim!: bindE_InrE)
  obtain Z where Z: "container_ok Z mb w' (ap_container a)" "conn_ok pd Z c1" "answered t (status_response st) (rq_lfClientId rq) c c1"
      "memory_only w w'" "data_kept UNIV w w'" "fr_msgBufferSize Z = fr_msgBufferSize X"
    by (rule sendResponse_effect [OF ok conn st s]) (rule that)
  show thesis
    by (rule that [of Z]) (use Z res conn_ok_repost [OF Z(2) t] t in \<open>auto simp: hook_answer_def\<close>)
qed

section \<open>Eager write\<close>

text \<open>The memory of the range of a write: it succeeds, the segments belong to the object alone and follow each other.\<close>

lemma write_object:
  fixes content :: "'s storage_content"
  assumes inv: "object_inv X mb E ob w" and mem: "obj_memoryBackend ob = mb" and so: "storage_ok so content" and grid: "grid_ok ob"
    and lim: "off + n + obj_alignement ob < W64" "0 < n"
    and g: "getBuffers fi so off n ACCESS_WRITE True True ob w = Inr (res, segs, ob1, w1)"
  shows "res" "object_step X mb E ob w ob1 w1" "content (w_storage w1) = content (w_storage w)" "chain off (off + n) segs"
    "d \<in> set segs \<Longrightarrow> private_descr E ob1 w1 d"
    "view_byte w (obj_segmentMap ob) x = Some b \<Longrightarrow> object_byte content w1 ob1 x = b"
    "\<not> (off \<le> x \<and> x < off + n) \<Longrightarrow> reads_succeed so \<Longrightarrow> obj_storageBackend ob \<Longrightarrow> object_byte content w1 ob1 x = object_byte content w ob x"
proof -
  let ?m = "obj_segmentMap ob" and ?m1 = "obj_segmentMap ob1"
  have ok: "world_ok mb (\<lambda>i. map_refs ?m i + E i) X w" "map_ok w ?m" using inv by (auto simp: object_inv_def)
  obtain base bn where al: "align_range (obj_alignement ob) off n = (base, bn)" by force
  note G = getBuffers_effect [OF ok mem so al lim(1) g]
  show res: res using G(4) by simp
  then have buf: "buffers_post (\<lambda>i. map_refs ?m1 i + E i) ACCESS_WRITE base bn ob1 w1 segs" using G(3) by simp
  show st: "object_step X mb E ob w ob1 w1" by (rule getBuffers_step(1) [OF inv mem so lim(1) g])
  have inv1: "object_inv X mb E ob1 w1" "grid_ok ob1" using st grid by (auto simp: object_step_def)
  have ok1: "world_ok mb (\<lambda>i. map_refs ?m1 i + E i) X w1" "map_ok w1 ?m1" using inv1 by (auto simp: object_inv_def)
  have fld: "obj_alignement ob1 = obj_alignement ob" "obj_key ob1 = obj_key ob"
    using object_step_fields [OF st] by simp_all
  show "chain off (off + n) segs"
    by (rule buffers_chain [OF ok1 buf inv1(2)]) (use al lim fld in simp_all)
  show "d \<in> set segs \<Longrightarrow> private_descr E ob1 w1 d" by (rule buffers_private [OF buf])
  show cont: "content (w_storage w1) = content (w_storage w)" by (rule G(2))
  have view: "\<And>x b. view_byte w ?m x = Some b \<Longrightarrow> view_byte w1 ?m1 x = Some b"
      "\<And>x b. view_byte w ?m x = None \<Longrightarrow> view_byte w1 ?m1 x = Some b \<Longrightarrow>
         must_match so True True off n ob x \<Longrightarrow> b = content (w_storage w) (obj_key ob) x"
    using G(1) unfolding access_post_def Let_def by blast+
  show loaded: "object_byte content w1 ob1 x = b" if "view_byte w ?m x = Some b" for x b
    using view(1) [OF that] by (simp add: object_byte_def)
  show "object_byte content w1 ob1 x = object_byte content w ob x"
    if o: "\<not> (off \<le> x \<and> x < off + n)" "reads_succeed so" "obj_storageBackend ob"
  proof (cases "view_byte w ?m x")
    case None
    have "must_match so True True off n ob x" using o by (simp add: must_match_def)
    then show ?thesis using None view(2) [OF None] cont fld(2) by (auto simp: object_byte_def split: option.split)
  qed (use loaded in \<open>auto simp: object_byte_def\<close>)
qed

lemma object_byte_written:
  assumes "content (w_storage w2) = content (w_storage w1)"
    and "\<And>x. view_byte w2 (obj_segmentMap ob) x = (if S x then Some (f x) else view_byte w1 (obj_segmentMap ob) x)"
  shows "object_byte content w2 ob x = (if S x then f x else object_byte content w1 ob x)"
  using assms by (simp add: object_byte_def split: option.split)

lemma eager_write_object:
  fixes content :: "'s storage_content"
  assumes inv: "object_inv X mb E ob w" and mem: "obj_memoryBackend ob = mb" and so: "storage_ok so content" and grid: "grid_ok ob"
    and lim: "off + n + obj_alignement ob < W64" "0 < n" "n \<le> length bytes"
    and g: "getBuffers fi so off n ACCESS_WRITE True True ob w = Inr (res, segs, ob1, w1)"
  obtains w2 where "res" "eager_extract bytes n off segs 0 w1 = Inr (n, w2)" "object_step X mb E ob w ob1 w2"
    "content (w_storage w2) = content (w_storage w)"
    "\<And>x. off \<le> x \<Longrightarrow> x < off + n \<Longrightarrow> object_byte content w2 ob1 x = bytes ! (x - off)"
    "\<And>x b. \<not> (off \<le> x \<and> x < off + n) \<Longrightarrow> view_byte w (obj_segmentMap ob) x = Some b \<Longrightarrow> object_byte content w2 ob1 x = b"
    "\<And>x. \<not> (off \<le> x \<and> x < off + n) \<Longrightarrow> reads_succeed so \<Longrightarrow> obj_storageBackend ob \<Longrightarrow>
       object_byte content w2 ob1 x = object_byte content w ob x"
proof -
  note W = write_object [OF inv mem so grid lim(1,2) g]
  have inv1: "object_inv X mb E ob1 w1" using W(2) by (simp add: object_step_def)
  have "\<exists>w2. eager_extract bytes n off segs 0 w1 = Inr (n, w2) \<and> object_step X mb E ob1 w1 ob1 w2 \<and>
      w_storage w2 = w_storage w1 \<and> entry_of w2 = entry_of w1 \<and>
      (\<forall>x. view_byte w2 (obj_segmentMap ob1) x = (if off + 0 \<le> x \<and> x < off + n then Some (bytes ! (x - off)) else view_byte w1 (obj_segmentMap ob1) x))"
    by (rule eager_extract_effect [OF inv1 W(5)]) (use W(4) lim in simp_all)
  then obtain w2 where w2: "eager_extract bytes n off segs 0 w1 = Inr (n, w2)" "object_step X mb E ob1 w1 ob1 w2"
      "content (w_storage w2) = content (w_storage w1)"
      "\<And>x. view_byte w2 (obj_segmentMap ob1) x = (if off \<le> x \<and> x < off + n then Some (bytes ! (x - off)) else view_byte w1 (obj_segmentMap ob1) x)"
    by auto
  note B = object_byte_written [where content = content, OF w2(3,4)]
  show thesis by (rule that [OF W(1) w2(1) object_step_trans [OF W(2) w2(2)]]) (use w2(3) W(3,6,7) in \<open>auto simp: B\<close>)
qed

text \<open>Marking segments dirty changes no byte of an object.\<close>

lemma markDirty_step:
  assumes inv: "object_inv X mb E ob w" and m: "markDirty off n ob w = Inr ob'" and lim: "off + n < W64"
  shows "object_step X mb E ob w ob' w" "object_byte content w ob' = object_byte content w ob"
proof -
  have ok: "world_ok mb (\<lambda>i. map_refs (obj_segmentMap ob) i + E i) X w" "map_ok w (obj_segmentMap ob)"
    using inv by (auto simp: object_inv_def)
  obtain f where ob': "ob' = ob\<lparr>obj_segmentMap := set_dirty f (obj_segmentMap ob)\<rparr>"
    using m markDirty_eq [OF ok lim] by auto
  show "object_step X mb E ob w ob' w"
    using inv grid_set_dirty [of f ob] by (simp add: object_step_def object_inv_def ob' set_dirty_frame)
  show "object_byte content w ob' = object_byte content w ob"
    by (rule ext) (simp add: object_byte_def ob' set_dirty_frame split: option.split)
qed

section \<open>Requests\<close>

text \<open>The message that is left in a deserializer starts with the given bytes.\<close>

definition holds_message :: "SerializerBase \<Rightarrow> byte list \<Rightarrow> bool" where
  "holds_message s xs \<longleftrightarrow> unpacking s \<and> (\<exists>r. ser_rest s = xs @ r) \<and> ser_cursor s + length xs \<le> ser_size s"

context wire_struct
begin

lemma holds_unpack:
  assumes "holds_message s (enc v)" "ok v" "dest v0" "apply_struct applyDef fn v0 s = Inr (v', s')"
  shows "same v v'"
  using assms(1,4) unpack_struct [OF assms(2,3), of s _ fn] by (auto simp: holds_message_def)

end

lemma object_byte_memory:
  assumes "data_kept UNIV w w'" "memory_only w w'"
  shows "object_byte content w' ob = object_byte content w ob"
proof -
  have "map_view w' (obj_segmentMap ob) = map_view w (obj_segmentMap ob)"
    by (rule kept_view [OF data_kept_mono [OF assms(1)]]) simp
  then have "view_byte w' (obj_segmentMap ob) = view_byte w (obj_segmentMap ob)" by (rule view_byte_view)
  moreover obtain m where "w' = w\<lparr>w_mem := m\<rparr>" using assms(2) unfolding memory_only_def by blast
  ultimately show ?thesis by (simp add: object_byte_def fun_eq_iff split: option.split)
qed

lemma put_object_find: "sm_find (ct_objects (put_object k ob ct)) k = Some (Some ob)"
  by (simp add: put_object_def)

lemma put_object_twice: "put_object k ob (put_object k ob1 ct) = put_object k ob ct"
  by (simp add: put_object_def sm_set_set)

lemma markDirty_container:
  fixes content :: "'s storage_content"
  assumes ok: "container_ok X mb w (put_object k ob ct)" and m: "markDirty off n ob w = Inr ob'" and lim: "off + n < W64"
  shows "container_ok X mb w (put_object k ob' ct)" "object_byte content w ob' = object_byte content w ob"
proof -
  note F = container_focus [OF ok put_object_find]
  note M = markDirty_step [OF F(1) m lim]
  show "container_ok X mb w (put_object k ob' ct)"
    using container_object_step(1) [OF ok put_object_find M(1) refl] by (simp add: put_object_twice)
  show "object_byte content w ob' = object_byte content w ob" by (rule M(2))
qed

section \<open>Writing\<close>

text \<open>What an operation on one object of a container leaves of the others.\<close>

definition others_kept ::
  "'s storage_content \<Rightarrow> ObjectId \<Rightarrow> container \<Rightarrow> 's world \<Rightarrow> container \<Rightarrow> 's world \<Rightarrow> bool" where
  "others_kept content k ct w ct' w' \<longleftrightarrow> (\<forall>k' ob. k' \<noteq> k \<longrightarrow> sm_find (ct_objects ct) k' = Some (Some ob) \<longrightarrow>
     sm_find (ct_objects ct') k' = Some (Some ob) \<and> object_byte content w' ob = object_byte content w ob)"

text \<open>The object a hook works on: the one of the container, or a new one.\<close>

definition the_object :: "ObjectId \<Rightarrow> container \<Rightarrow> object" where
  "the_object k ct = (case sm_find (ct_objects ct) k of
     Some (Some ob) \<Rightarrow> ob
   | _ \<Rightarrow> Object_init (ct_storageBackend ct) (ct_memoryBackend ct) k (ct_objectSegmentsAlignement ct))"

lemma getObject_the:
  assumes "container_ok X mb w ct" "getObject k ct = Inr (ob, ct1)"
  shows "container_ok X mb w ct1" "sm_find (ct_objects ct1) k = Some (Some ob)"
    "\<And>k'. k' \<noteq> k \<Longrightarrow> sm_find (ct_objects ct1) k' = sm_find (ct_objects ct) k'" "ob = the_object k ct"
    "obj_alignement ob = ct_objectSegmentsAlignement ct"
proof -
  obtain ob' ct' where g: "getObject k ct = Inr (ob', ct')" "container_ok X mb w ct'" "sm_find (ct_objects ct') k = Some (Some ob')"
      "\<And>k'. k' \<noteq> k \<Longrightarrow> sm_find (ct_objects ct') k' = sm_find (ct_objects ct) k'"
      "ct_objectSegmentsAlignement ct' = ct_objectSegmentsAlignement ct" "hasObject k ct \<Longrightarrow> ct' = ct"
      "\<not> hasObject k ct \<Longrightarrow> ob' = Object_init (ct_storageBackend ct) mb k (ct_objectSegmentsAlignement ct)"
    by (rule getObject_ok [OF assms(1), of k]) (rule that)
  then have eq: "ob' = ob" "ct' = ct1" using assms(2) by simp_all
  then show c1: "container_ok X mb w ct1" "sm_find (ct_objects ct1) k = Some (Some ob)" using g(2,3) by simp_all
  show "sm_find (ct_objects ct1) k' = sm_find (ct_objects ct) k'" if "k' \<noteq> k" for k' using g(4) [OF that] eq by simp
  show "ob = the_object k ct"
  proof (cases "hasObject k ct")
    case True
    then show ?thesis using g(3,6) eq by (simp add: the_object_def)
  next
    case False
    then show ?thesis using g(7) eq container_okD(2) [OF assms(1)] by (simp add: the_object_def hasObject_def split: option.splits)
  qed
  show "obj_alignement ob = ct_objectSegmentsAlignement ct"
    using container_focus(2) [OF c1] g(5) eq by (simp add: member_ok_def)
qed

lemma HookObjectWrite_effect:
  fixes content :: "'s storage_content" and w :: "'s world"
  assumes ok: "container_ok X mb w (ap_container a)" and conn: "conn_ok pd X c" and so: "storage_ok so content"
    and msg: "holds_message (rq_deserializer rq) (ReadWrite_wire req)" "ReadWrite_ok req" "rw_msgHasData req" "0 < rw_size req"
    and lim: "rw_offset req + rw_size req + ct_objectSegmentsAlignement (ap_container a) < W64"
    and run: "HookObjectWrite_onMessage fi so rq a c w = Inr (res, a', c', w')"
  obtains Z ob' where "container_ok Z mb w' (ap_container a')" "conn_ok pd Z c'"
    "hook_answer IOC_LF_MSG_OBJ_READ_WRITE_ACK (status_response 0) rq c c'"
    "sm_find (ct_objects (ap_container a')) (oid_of (rw_objectId req)) = Some (Some ob')"
    "content (w_storage w') = content (w_storage w)"
    "others_kept content (oid_of (rw_objectId req)) (ap_container a) w (ap_container a') w'"
    "\<And>x. rw_offset req \<le> x \<Longrightarrow> x < rw_offset req + rw_size req \<Longrightarrow>
       object_byte content w' ob' x = data_of (rw_size req) (rw_optionalData req) ! (x - rw_offset req)"
    "\<And>x b. \<not> (rw_offset req \<le> x \<and> x < rw_offset req + rw_size req) \<Longrightarrow>
       view_byte w (obj_segmentMap (the_object (oid_of (rw_objectId req)) (ap_container a))) x = Some b \<Longrightarrow> object_byte content w' ob' x = b"
    "\<And>x. \<not> (rw_offset req \<le> x \<and> x < rw_offset req + rw_size req) \<Longrightarrow> reads_succeed so \<Longrightarrow>
       obj_storageBackend (the_object (oid_of (rw_objectId req)) (ap_container a)) \<Longrightarrow>
       object_byte content w' ob' x = object_byte content w (the_object (oid_of (rw_objectId req)) (ap_container a)) x"
proof -
  let ?k = "oid_of (rw_objectId req)" and ?n = "rw_size req" and ?off = "rw_offset req"
  let ?ob = "the_object ?k (ap_container a)"
  obtain rw s where rw: "apply_struct ObjReadWriteInfos_applySerializerDef ''objReadWrite'' no_rw (rq_deserializer rq) = Inr (rw, s)"
    using run by (auto simp: HookObjectWrite_onMessage_def elim!: bindE_InrE)
  have same: "ReadWrite_same req rw" by (rule rw.holds_unpack [OF msg(1,2) TrueI rw])
  then obtain bytes where d: "rw_objectId rw = rw_objectId req" "rw_offset rw = ?off" "rw_size rw = ?n" "rw_msgHasData rw"
      "rw_optionalData rw = Some bytes" "?n \<le> length bytes" "take ?n bytes = data_of ?n (rw_optionalData req)"
    using msg(3) by (auto simp: ReadWrite_same_def data_ok_def data_of_def)
  obtain ob ct1 st segs ob1 w1 where g: "getObject ?k (ap_container a) = Inr (ob, ct1)"
      "getBuffers fi so ?off ?n ACCESS_WRITE True True ob w = Inr (st, segs, ob1, w1)"
    using run d by (auto simp: HookObjectWrite_onMessage_def rw Let_def elim!: bindE_InrE)
  note G = getObject_the [OF ok g(1)]
  note F = container_focus [OF G(1,2)]
  have mem: "obj_memoryBackend ob = mb" "grid_ok ob" "?off + ?n + obj_alignement ob < W64"
    using F(2) lim G(5) by (simp_all add: member_ok_def)
  obtain w2 where w2: "st" "eager_extract bytes ?n ?off segs 0 w1 = Inr (?n, w2)" "object_step X mb (others ?k ct1) ob w ob1 w2"
      "content (w_storage w2) = content (w_storage w)"
      "\<And>x. ?off \<le> x \<Longrightarrow> x < ?off + ?n \<Longrightarrow> object_byte content w2 ob1 x = bytes ! (x - ?off)"
      "\<And>x b. \<not> (?off \<le> x \<and> x < ?off + ?n) \<Longrightarrow> view_byte w (obj_segmentMap ob) x = Some b \<Longrightarrow> object_byte content w2 ob1 x = b"
      "\<And>x. \<not> (?off \<le> x \<and> x < ?off + ?n) \<Longrightarrow> reads_succeed so \<Longrightarrow> obj_storageBackend ob \<Longrightarrow>
         object_byte content w2 ob1 x = object_byte content w ob x"
    by (rule eager_write_object [OF F(1) mem(1) so mem(2,3) msg(4) d(6) g(2)]) (rule that)
  note S = container_object_step [OF G(1,2) w2(3,4)]
  obtain c2 w3 ob2 where r: "sendResponse fi IOC_LF_MSG_OBJ_READ_WRITE_ACK (rq_lfClientId rq) 0 False c w2 = Inr (c2, w3)"
      "markDirty ?off ?n ob1 w3 = Inr ob2" "repostReceive (rq_msgBufferId rq) c2 = Inr c'" "w' = w3"
      "ap_container a' = put_object ?k ob2 ct1"
    using run d g w2(1,2)
    by (auto simp: HookObjectWrite_onMessage_def rw objEagerExtractFromMessage_def terminate_def Let_def elim!: bindE_InrE)
  have st: "int32_ok 0" by (simp add: int32_ok_def)
  obtain Z where Z: "container_ok Z mb w3 (put_object ?k ob1 ct1)" "conn_ok pd Z c2"
      "answered IOC_LF_MSG_OBJ_READ_WRITE_ACK (status_response 0) (rq_lfClientId rq) c c2" "memory_only w2 w3"
      "data_kept UNIV w2 w3" "fr_msgBufferSize Z = fr_msgBufferSize X"
    by (rule sendResponse_effect [OF S(1) conn st r(1)]) (rule that)
  have "?off + ?n < W64" using lim by simp
  note M = markDirty_container [OF Z(1) r(2) this]
  have byte: "object_byte content w' ob2 = object_byte content w2 ob1" "object_byte content w' ob = object_byte content w2 ob" for ob
    using M(2) object_byte_memory [OF Z(5,4)] r(4) by simp_all
  show thesis
  proof (rule that)
    show "container_ok Z mb w' (ap_container a')" using M(1) r(4,5) by simp
    show "conn_ok pd Z c'" by (rule conn_ok_repost [OF Z(2) r(3)])
    show "hook_answer IOC_LF_MSG_OBJ_READ_WRITE_ACK (status_response 0) rq c c'" using Z(3) r(3) by (auto simp: hook_answer_def)
    show "sm_find (ct_objects (ap_container a')) ?k = Some (Some ob2)" using put_object_find r(5) by simp
    show "content (w_storage w') = content (w_storage w)"
      using Z(4) w2(4) r(4) by (metis memory_only_def world.select_convs world.update_convs(1) world.surjective)
    show "others_kept content ?k (ap_container a) w (ap_container a') w'"
      using S(2) G(3) byte(2) r(5) by (simp add: others_kept_def put_object_def)
    show "object_byte content w' ob2 x = data_of ?n (rw_optionalData req) ! (x - ?off)" if "?off \<le> x" "x < ?off + ?n" for x
      using w2(5) [OF that] that byte(1) d(7) by (metis add.commute less_diff_conv2 nth_take)
    show "object_byte content w' ob2 x = b"
      if "\<not> (?off \<le> x \<and> x < ?off + ?n)" "view_byte w (obj_segmentMap ?ob) x = Some b" for x b
      using w2(6) that byte(1) G(4) by simp
    show "object_byte content w' ob2 x = object_byte content w ?ob x"
      if "\<not> (?off \<le> x \<and> x < ?off + ?n)" "reads_succeed so" "obj_storageBackend ?ob" for x
      using w2(7) that byte(1) G(4) by simp
  qed
qed

lemma HookObjectWrite_returns:
  fixes content :: "'s storage_content" and w :: "'s world"
  assumes ok: "container_ok X mb w (ap_container a)" and conn: "conn_ok pd X c" and so: "storage_ok so content"
    and msg: "holds_message (rq_deserializer rq) (ReadWrite_wire req)" "ReadWrite_ok req" "rw_msgHasData req" "0 < rw_size req"
    and lim: "rw_offset req + rw_size req + ct_objectSegmentsAlignement (ap_container a) < W64"
    and buf: "getBuffers fi so (rw_offset req) (rw_size req) ACCESS_WRITE True True (the_object (oid_of (rw_objectId req)) (ap_container a)) w =
      Inr (st, segs, ob1, w1)"
    and rdy: "endpoint_ready X (int_of_size (rq_lfClientId rq)) c" "rq_msgBufferId rq < lc_recvBuffersCount c"
  shows "\<exists>a' c' w'. HookObjectWrite_onMessage fi so rq a c w = Inr (LF_WAIT_LOOP_KEEP_WAITING, a', c', w')"
proof -
  let ?k = "oid_of (rw_objectId req)" and ?n = "rw_size req" and ?off = "rw_offset req"
  obtain r where msg': "unpacking (rq_deserializer rq)" "ser_rest (rq_deserializer rq) = ReadWrite_wire req @ r"
      "ser_cursor (rq_deserializer rq) + length (ReadWrite_wire req) \<le> ser_size (rq_deserializer rq)"
    using msg(1) by (auto simp: holds_message_def)
  obtain rw s where rw: "apply_struct ObjReadWriteInfos_applySerializerDef ''objReadWrite'' no_rw (rq_deserializer rq) = Inr (rw, s)"
      "ReadWrite_same req rw"
    using rw.unpack_struct [OF msg(2) TrueI msg'] by blast
  then obtain bytes where d: "rw_objectId rw = rw_objectId req" "rw_offset rw = ?off" "rw_size rw = ?n" "rw_msgHasData rw"
      "rw_optionalData rw = Some bytes" "?n \<le> length bytes"
    using msg(3) by (auto simp: ReadWrite_same_def data_ok_def data_of_def)
  obtain ob ct1 where g: "getObject ?k (ap_container a) = Inr (ob, ct1)" by (rule getObject_ok [OF ok])
  note G = getObject_the [OF ok g]
  note F = container_focus [OF G(1,2)]
  have mem: "obj_memoryBackend ob = mb" "grid_ok ob" "?off + ?n + obj_alignement ob < W64"
    using F(2) lim G(5) by (simp_all add: member_ok_def)
  note buf' = buf [folded G(4)]
  obtain w2 where w2: "st" "eager_extract bytes ?n ?off segs 0 w1 = Inr (?n, w2)" "object_step X mb (others ?k ct1) ob w ob1 w2"
      "content (w_storage w2) = content (w_storage w)"
    by (rule eager_write_object [OF F(1) mem(1) so mem(2,3) msg(4) d(6) buf']) (rule that)
  note S = container_object_step(1) [OF G(1,2) w2(3,4)]
  have st: "int32_ok 0" by (simp add: int32_ok_def)
  obtain c2 w3 c3 where r: "sendResponse fi IOC_LF_MSG_OBJ_READ_WRITE_ACK (rq_lfClientId rq) 0 False c w2 = Inr (c2, w3)"
      "repostReceive (rq_msgBufferId rq) c2 = Inr c3"
    by (rule status_reply_returns [OF S conn st rdy]) (rule that)
  obtain Z where Z: "container_ok Z mb w3 (put_object ?k ob1 ct1)"
    by (rule sendResponse_effect [OF S conn st r(1)]) (rule that)
  have inv: "world_ok mb (\<lambda>i. map_refs (obj_segmentMap ob1) i + others ?k (put_object ?k ob1 ct1) i) Z w3" "map_ok w3 (obj_segmentMap ob1)"
    using container_focus(1) [OF Z put_object_find] by (auto simp: object_inv_def)
  have "?off + ?n < W64" using lim by simp
  then obtain ob2 where m: "markDirty ?off ?n ob1 w3 = Inr ob2" using markDirty_eq [OF inv] by blast
  show ?thesis
    using d w2(1,2)
    by (simp add: HookObjectWrite_onMessage_def rw(1) g buf' objEagerExtractFromMessage_def terminate_def Let_def r m)
qed

text \<open>
  C8. A write request that carries its data is served whenever the memory for the range can be
  obtained and the endpoint accepts the answer: the hook returns, the object then has the bytes
  of the message in the range, every byte outside it that was loaded, or that can be read from
  the storage, is unchanged, no other object changes, the invariants of the container and the
  connection are kept, and exactly one acknowledgement with status 0 is posted.
\<close>

theorem eager_write_stored:
  fixes content :: "'s storage_content" and w :: "'s world"
  assumes ok: "container_ok X mb w (ap_container a)" and conn: "conn_ok pd X c" and so: "storage_ok so content"
    and msg: "holds_message (rq_deserializer rq) (ReadWrite_wire req)" "ReadWrite_ok req" "rw_msgHasData req" "0 < rw_size req"
    and lim: "rw_offset req + rw_size req + ct_objectSegmentsAlignement (ap_container a) < W64"
    and ob: "ob = the_object (oid_of (rw_objectId req)) (ap_container a)"
    and buf: "getBuffers fi so (rw_offset req) (rw_size req) ACCESS_WRITE True True ob w = Inr (st, segs, ob1, w1)"
    and rdy: "endpoint_ready X (int_of_size (rq_lfClientId rq)) c" "rq_msgBufferId rq < lc_recvBuffersCount c"
  shows "\<exists>a' c' w' Z ob'. HookObjectWrite_onMessage fi so rq a c w = Inr (LF_WAIT_LOOP_KEEP_WAITING, a', c', w') \<and>
    container_ok Z mb w' (ap_container a') \<and> conn_ok pd Z c' \<and>
    hook_answer IOC_LF_MSG_OBJ_READ_WRITE_ACK (status_response 0) rq c c' \<and>
    sm_find (ct_objects (ap_container a')) (oid_of (rw_objectId req)) = Some (Some ob') \<and>
    others_kept content (oid_of (rw_objectId req)) (ap_container a) w (ap_container a') w' \<and>
    (\<forall>x. rw_offset req \<le> x \<and> x < rw_offset req + rw_size req \<longrightarrow>
       object_byte content w' ob' x = data_of (rw_size req) (rw_optionalData req) ! (x - rw_offset req)) \<and>
    (\<forall>x. \<not> (rw_offset req \<le> x \<and> x < rw_offset req + rw_size req) \<longrightarrow>
       view_byte w (obj_segmentMap ob) x \<noteq> None \<or> reads_succeed so \<and> obj_storageBackend ob \<longrightarrow>
       object_byte content w' ob' x = object_byte content w ob x)"
proof -
  obtain a' c' w' where run: "HookObjectWrite_onMessage fi so rq a c w = Inr (LF_WAIT_LOOP_KEEP_WAITING, a', c', w')"
    using HookObjectWrite_returns [OF ok conn so msg lim buf [unfolded ob] rdy] by blast
  obtain Z ob' where E: "container_ok Z mb w' (ap_container a')" "conn_ok pd Z c'"
    "hook_answer IOC_LF_MSG_OBJ_READ_WRITE_ACK (status_response 0) rq c c'"
    "sm_find (ct_objects (ap_container a')) (oid_of (rw_objectId req)) = Some (Some ob')"
    "others_kept content (oid_of (rw_objectId req)) (ap_container a) w (ap_container a') w'"
    "\<And>x. rw_offset req \<le> x \<Longrightarrow> x < rw_offset req + rw_size req \<Longrightarrow>
       object_byte content w' ob' x = data_of (rw_size req) (rw_optionalData req) ! (x - rw_offset req)"
    "\<And>x b. \<not> (rw_offset req \<le> x \<and> x < rw_offset req + rw_size req) \<Longrightarrow> view_byte w (obj_segmentMap ob) x = Some b \<Longrightarrow>
       object_byte content w' ob' x = b"
    "\<And>x. \<not> (rw_offset req \<le> x \<and> x < rw_offset req + rw_size req) \<Longrightarrow> reads_succeed so \<Longrightarrow> obj_storageBackend ob \<Longrightarrow>
       object_byte content w' ob' x = object_byte content w ob x"
    by (rule HookObjectWrite_effect [OF ok conn so msg lim run]) (use that ob in blast)
  have "object_byte content w' ob' x = object_byte content w ob x"
    if "\<not> (rw_offset req \<le> x \<and> x < rw_offset req + rw_size req)" "view_byte w (obj_segmentMap ob) x \<noteq> None" for x
    using E(7) [OF that(1)] that(2) by (auto simp: object_byte_def)
  then show ?thesis using run E by (intro exI [of _ a'] exI [of _ c'] exI [of _ w'] exI [of _ Z] exI [of _ ob']) auto
qed

definition no_context :: net_context where
  "no_context = \<lparr>nc_held = 0, nc_foreign = (\<lambda>_. None), nc_size = 64\<rparr>"

definition wit_net_frame :: frame where
  "wit_net_frame = \<lparr>fr_temp = {}, fr_data = [1 \<mapsto> replicate 64 0], fr_msgBuffers = [Ptr 1 0], fr_msgBufferSize = 64\<rparr>"

definition wit_net_world :: "table world" where
  "wit_net_world = wit_world\<lparr>w_mem := \<lparr>mem_heap = \<lparr>hp_blocks = [1 \<mapsto> replicate 64 0], hp_next = 2, hp_junk = (\<lambda>_ _. 0), hp_fail = (\<lambda>_. False)\<rparr>,
     mem_domain = (LibfabricDomain_init False)\<lparr>ld_msgBufferSize := 64, ld_msgBuffers := [Ptr 1 0]\<rparr>\<rparr>\<rparr>"

definition wit_app :: app where
  "wit_app = \<lparr>ap_container = \<lparr>ct_objects = [], ct_objectSegmentsAlignement = 0, ct_storageBackend = True, ct_memoryBackend = 0\<rparr>,
     ap_stats = ServerStats_init, ap_ping = HookPingPong_init, ap_consistencyCheck = True, ap_ops = (\<lambda>_. None), ap_nextOps = 0\<rparr>"

definition wit_connection :: server_connection where
  "wit_connection = (LibfabricConnection_init False)\<lparr>lc_recvBuffers := [replicate 64 0, replicate 64 0], lc_recvBuffersCount := 2,
     lc_recvBuffersSize := 64, lc_remoteLiAddr := [(3, 5)]\<rparr>"

definition wit_message :: "byte list \<Rightarrow> LibfabricClientRequest" where
  "wit_message xs = \<lparr>rq_lfClientId = 3, rq_msgBufferId = 1,
     rq_header = \<lparr>mh_msgType = msg_code IOC_LF_MSG_OBJ_WRITE, mh_lfClientId = 3, mh_tcpClientId = 0, mh_tcpClientKey = 0\<rparr>,
     rq_deserializer = \<lparr>ser_buffer = Some xs, ser_size = length xs, ser_cursor = 0, ser_action = SERIALIZER_UNPACK,
       ser_out = [], ser_outFirst = False, ser_root = False\<rparr>\<rparr>"

lemma wit_message_holds: "length xs < W64 \<Longrightarrow> holds_message (rq_deserializer (wit_message xs)) xs"
  by (simp add: holds_message_def wit_message_def unpacking_def ser_rest_def)

lemma wit_net_ok: "container_ok wit_net_frame 0 wit_net_world (ap_container wit_app)" "conn_ok no_context wit_net_frame wit_connection"
  "endpoint_ready wit_net_frame (int_of_size 3) wit_connection"
proof -
  have "world_ok 0 (ct_refs []) wit_net_frame wit_net_world"
    by (auto simp: world_ok_def wit_net_world_def wit_world_def owned_blocks_def backends.in_use_def heap_ok_def wit_net_frame_def
        frame_ok_def fr_blocks_def LibfabricDomain_init_def)
  then show "container_ok wit_net_frame 0 wit_net_world (ap_container wit_app)"
    by (simp add: container_ok_def wit_app_def)
  show "conn_ok no_context wit_net_frame wit_connection"
    by (simp add: conn_ok_def net_ok_def foreign_ok_def no_context_def msg_buffers_ok_def inflight_def pending_count_def completions_def wit_net_frame_def
        wit_connection_def LibfabricConnection_init_def W64_def)
  show "endpoint_ready wit_net_frame (int_of_size 3) wit_connection"
    by (simp add: endpoint_ready_def wit_net_frame_def wit_connection_def LibfabricConnection_init_def int_of_size_def W64_def)
qed

lemma wit_write_buffers:
  "\<exists>segs ob1 w1. getBuffers wit_fabric table_ops 100 3 ACCESS_WRITE True True (Object_init True 0 (ObjectId (-20) 10) 0) wit_net_world =
     Inr (True, segs, ob1, w1)"
  by (simp add: access_eval wit_net_world_def wit_world_def Object_init_def)

theorem eager_write_stored_witness:
  "\<exists>a' c' w' ob'. HookObjectWrite_onMessage wit_fabric table_ops (wit_message (ReadWrite_wire wit_request)) wit_app wit_connection wit_net_world =
       Inr (LF_WAIT_LOOP_KEEP_WAITING, a', c', w') \<and>
     sm_find (ct_objects (ap_container a')) (ObjectId (-20) 10) = Some (Some ob') \<and>
     map (object_byte (\<lambda>t. t) w' ob') [100, 101, 102] = [7, 8, 9]"
proof -
  let ?rq = "wit_message (ReadWrite_wire wit_request)"
  have msg: "holds_message (rq_deserializer ?rq) (ReadWrite_wire wit_request)"
    by (rule wit_message_holds) (simp add: wit_request_ok W64_def)
  have k: "oid_of (rw_objectId wit_request) = ObjectId (-20) 10" by (simp add: oid_of_def wit_request_def)
  have ob: "Object_init True 0 (ObjectId (-20) 10) 0 = the_object (oid_of (rw_objectId wit_request)) (ap_container wit_app)"
    by (simp add: k the_object_def wit_app_def)
  have rq: "rw_msgHasData wit_request" "rw_size wit_request = 3" "rw_offset wit_request = 100"
      "data_of 3 (rw_optionalData wit_request) = [7, 8, 9]"
    by (simp_all add: wit_request_def data_of_def)
  have misc: "100 + 3 + ct_objectSegmentsAlignement (ap_container wit_app) < W64" "rq_lfClientId ?rq = 3"
      "rq_msgBufferId ?rq < lc_recvBuffersCount wit_connection"
    by (simp_all add: wit_app_def W64_def wit_message_def wit_connection_def)
  obtain segs ob1 and w1 :: "table world" where
    b: "getBuffers wit_fabric table_ops 100 3 ACCESS_WRITE True True (Object_init True 0 (ObjectId (-20) 10) 0) wit_net_world = Inr (True, segs, ob1, w1)"
    using wit_write_buffers by blast
  obtain a' c' w' ob' where r: "HookObjectWrite_onMessage wit_fabric table_ops ?rq wit_app wit_connection wit_net_world =
      Inr (LF_WAIT_LOOP_KEEP_WAITING, a', c', w')" "sm_find (ct_objects (ap_container a')) (ObjectId (-20) 10) = Some (Some ob')"
      "\<forall>x. 100 \<le> x \<and> x < 100 + 3 \<longrightarrow> object_byte (\<lambda>t. t) w' ob' x = [7, 8, 9] ! (x - 100)"
    using eager_write_stored [OF wit_net_ok(1,2) table_ok msg wit_request_ok(1) rq(1) _ _ ob, unfolded rq(2,3), OF _ misc(1) b]
      wit_net_ok(3) misc(2,3) unfolding k rq(4) by force
  from r(3) have "object_byte (\<lambda>t. t) w' ob' 100 = 7" "object_byte (\<lambda>t. t) w' ob' 101 = 8" "object_byte (\<lambda>t. t) w' ob' 102 = 9"
    by simp_all
  then show ?thesis using r(1,2) by auto
qed

end
