(* ===== verification/Hook_Read.thy ===== *)
theory Hook_Read
  imports Hook_Data
begin

text \<open>
  Eager reads (\<open>HookObjectRead\<close>): the answer carries the bytes of the object when one segment
  holds the range, a range over several segments is not answered, and a failed access is reported.
\<close>

section \<open>The segments of a read\<close>

lemma descr_bytes:
  assumes inv: "object_inv X mb E ob w" and d: "d \<in> descr_set w (in_range base n (set (obj_segmentMap ob)))"
  obtains k xs where "osd_ptr d = Ptr k 0" "w_blocks w k = Some xs" "length xs = osd_size d" "osd_offset d + osd_size d < W64"
    "\<And>x. osd_offset d \<le> x \<Longrightarrow> x < osd_offset d + osd_size d \<Longrightarrow> view_byte w (obj_segmentMap ob) x = Some (xs ! (x - osd_offset d))"
proof -
  let ?m = "obj_segmentMap ob"
  have ok: "world_ok mb (\<lambda>i. map_refs ?m i + E i) X w" "map_ok w ?m" using inv by (auto simp: object_inv_def)
  obtain key seg where s: "(key, seg) \<in> set ?m" "getSegmentDescr seg w = Inr d" using d by (auto simp: descr_set_def in_range_def)
  have sok: "seg_ok w key seg" by (rule map_okD(2) [OF ok(2) s(1)])
  then obtain i where i: "os_memory seg = Some i" by (auto simp: seg_ok_def seg_bytes_def split: option.splits)
  obtain osm c where e: "w_shared w i = Some (osm, c)" "d = \<lparr>osd_ptr = osm_buffer osm, osd_offset = os_offset seg, osd_size = osm_size osm\<rparr>"
    using s(2) i by (auto simp: getSegmentDescr_def seg_memory_Inr elim!: bindE_InrE)
  obtain k bs where k: "osm_buffer osm = Ptr k 0" "w_blocks w k = Some bs" "length bs = osm_size osm"
      "k \<in> owned_blocks w" "shared_bytes w i = Some bs"
    by (rule world_ok_entry [OF ok(1) e(1)]) (rule that)
  have b: "seg_bytes w seg = Some bs" using k(5) i by (simp add: seg_bytes_def)
  then have lim: "os_offset seg + osm_size osm < W64" "os_offset seg + osm_size osm = Suc key"
    using sok k(3) by (auto simp: seg_ok_def)
  have "view_byte w ?m x = Some (bs ! (x - os_offset seg))" if "os_offset seg \<le> x" "x < os_offset seg + osm_size osm" for x
    by (rule view_byte_eq [OF ok(2) s(1) that(1) _ b]) (use that(2) lim(2) in simp)
  then show thesis using that [of k bs] k e(2) lim(1) by simp
qed

text \<open>Loading for a read changes no byte of an object that has a storage, and loaded bytes never change.\<close>

lemma read_object:
  fixes content :: "'s storage_content"
  assumes inv: "object_inv X mb E ob w" and mem: "obj_memoryBackend ob = mb" and so: "storage_ok so content" and grid: "grid_ok ob"
    and lim: "off + n + obj_alignement ob < W64" "0 < n"
    and g: "getBuffers fi so off n ACCESS_READ True False ob w = Inr (res, segs, ob1, w1)"
  shows "object_step X mb E ob w ob1 w1" "content (w_storage w1) = content (w_storage w)"
    "view_byte w (obj_segmentMap ob) x \<noteq> None \<or> obj_storageBackend ob \<Longrightarrow> object_byte content w1 ob1 x = object_byte content w ob x"
    "res \<Longrightarrow> chain off (off + n) segs"
    "res \<Longrightarrow> d \<in> set segs \<Longrightarrow> \<exists>base n. d \<in> descr_set w1 (in_range base n (set (obj_segmentMap ob1)))"
proof -
  let ?m = "obj_segmentMap ob" and ?m1 = "obj_segmentMap ob1"
  have ok: "world_ok mb (\<lambda>i. map_refs ?m i + E i) X w" "map_ok w ?m" using inv by (auto simp: object_inv_def)
  obtain base bn where al: "align_range (obj_alignement ob) off n = (base, bn)" by force
  note G = getBuffers_effect [OF ok mem so al lim(1) g]
  show st: "object_step X mb E ob w ob1 w1" by (rule getBuffers_step(1) [OF inv mem so lim(1) g])
  show cont: "content (w_storage w1) = content (w_storage w)" by (rule G(2))
  have view: "\<And>x b. view_byte w ?m x = Some b \<Longrightarrow> view_byte w1 ?m1 x = Some b"
      "\<And>x b. view_byte w ?m x = None \<Longrightarrow> view_byte w1 ?m1 x = Some b \<Longrightarrow>
         must_match so True False off n ob x \<Longrightarrow> b = content (w_storage w) (obj_key ob) x"
    using G(1) unfolding access_post_def Let_def by blast+
  have inv1: "object_inv X mb E ob1 w1" "grid_ok ob1" using st grid by (auto simp: object_step_def)
  have ok1: "world_ok mb (\<lambda>i. map_refs ?m1 i + E i) X w1" "map_ok w1 ?m1" using inv1 by (auto simp: object_inv_def)
  have fld: "obj_alignement ob1 = obj_alignement ob" "obj_key ob1 = obj_key ob" using object_step_fields [OF st] by simp_all
  show "object_byte content w1 ob1 x = object_byte content w ob x" if "view_byte w ?m x \<noteq> None \<or> obj_storageBackend ob"
  proof (cases "view_byte w ?m x")
    case None
    then have "must_match so True False off n ob x" using that by (simp add: must_match_def)
    then show ?thesis using None view(2) [OF None] cont fld(2) by (auto simp: object_byte_def split: option.split)
  qed (use view(1) in \<open>simp add: object_byte_def\<close>)
  assume res
  then have buf: "buffers_post (\<lambda>i. map_refs ?m1 i + E i) ACCESS_READ base bn ob1 w1 segs" using G(3) by simp
  show "chain off (off + n) segs"
    by (rule buffers_chain [OF ok1 buf inv1(2)]) (use al lim fld in simp_all)
  show "\<exists>base n. d \<in> descr_set w1 (in_range base n (set ?m1))" if "d \<in> set segs"
    using buf that unfolding buffers_post_def by blast
qed

section \<open>The answer of an eager read\<close>

definition data_response :: "int \<Rightarrow> byte list \<Rightarrow> LibfabricResponse" where
  "data_response status bytes = \<lparr>rs_msgDataSize = length bytes, rs_status = status, rs_msgHasData = True, rs_optionalData = Some bytes,
     rs_optionalDataFragments = None\<rparr>"

lemma answered_wire: "Response_wire resp = Response_wire resp' \<Longrightarrow> answered t resp client c c' = answered t resp' client c c'"
  by (simp add: answered_def)

text \<open>The first fragment is the part of the range in the first segment; the others are never set.\<close>

lemma eager_fragments_rest:
  assumes "chain (base + cur) (base + n) segs" "cur = 0 \<or> (\<forall>d \<in> set segs. base + cur \<le> osd_offset d)" "cur \<le> n" "base + n < W64"
    and "\<And>d. d \<in> set segs \<Longrightarrow> osd_offset d + osd_size d < W64" "0 < length buffers"
  shows "\<exists>f. eager_fragments n base segs 0 cur buffers w = Inr (if segs = [] then buffers else buffers[0 := Some f])"
  using assms
proof (induction segs arbitrary: cur buffers)
  case (Cons d ds)
  let ?b = "base + cur" and ?top = "osd_offset d + osd_size d"
  let ?len = "min ?top (base + n) - ?b"
  have c: "osd_offset d \<le> ?b" "?b < ?top" "?b < base + n" "chain ?top (base + n) ds" "\<And>d'. d' \<in> set ds \<Longrightarrow> ?top \<le> osd_offset d'"
    using Cons.prems(1) by auto
  have top: "?top < W64" using Cons.prems(5) by simp
  have "cur = 0 \<or> ?b \<le> osd_offset d" using Cons.prems(2) by auto
  then have clip: "eager_clip n base cur d = Inr (?b - osd_offset d, ?len)"
    by (rule eager_clip_ok [OF c(1,2) top refl _ c(3) Cons.prems(4)])
  have len: "cur + ?len \<le> n" using c(3) by auto
  have nxt: "add64 cur ?len = cur + ?len" using len Cons.prems(4) by simp
  let ?f = "\<lparr>lb_buffer = ptr_data (ptr_add (osd_ptr d) (?b - osd_offset d)) (mem_heap (w_mem w)), lb_size = ?len\<rparr>"
  have "\<exists>f. eager_fragments n base ds 0 (cur + ?len) (buffers[0 := Some ?f]) w =
      Inr (if ds = [] then buffers[0 := Some ?f] else buffers[0 := Some ?f, 0 := Some f])"
  proof (rule Cons.IH)
    show "chain (base + (cur + ?len)) (base + n) ds"
    proof (cases "?top \<le> base + n")
      case True
      then show ?thesis using c by (simp add: min_def)
    next
      case False
      then have "ds = []" using c(4) by (cases ds) auto
      then show ?thesis using False c(3) by (simp add: min_def)
    qed
    show "cur + ?len = 0 \<or> (\<forall>d' \<in> set ds. base + (cur + ?len) \<le> osd_offset d')" using c(2,5) by (auto simp: min_def) fastforce+
  qed (use len Cons.prems(4-6) in auto)
  then show ?case using clip nxt by auto
qed simp

lemma read_unpacked:
  assumes "holds_message (rq_deserializer rq) (ReadWrite_wire req)" "ReadWrite_ok req"
  obtains rw s where "apply_struct ObjReadWriteInfos_applySerializerDef ''objReadWrite'' no_rw (rq_deserializer rq) = Inr (rw, s)"
    "rw_objectId rw = rw_objectId req" "rw_offset rw = rw_offset req" "rw_size rw = rw_size req" "rw_iov rw = rw_iov req"
proof -
  obtain r where "unpacking (rq_deserializer rq)" "ser_rest (rq_deserializer rq) = ReadWrite_wire req @ r"
      "ser_cursor (rq_deserializer rq) + length (ReadWrite_wire req) \<le> ser_size (rq_deserializer rq)"
    using assms(1) by (auto simp: holds_message_def)
  then obtain rw s where "apply_struct ObjReadWriteInfos_applySerializerDef ''objReadWrite'' no_rw (rq_deserializer rq) = Inr (rw, s)"
      "ReadWrite_same req rw"
    using rw.unpack_struct [OF assms(2) TrueI] by blast
  then show thesis using that by (simp add: ReadWrite_same_def)
qed

text \<open>
  The state in which the hook of a read answers: the object is loaded, the container keeps its
  invariant, and no byte that is defined has changed.
\<close>

lemma read_prepared:
  fixes content :: "'s storage_content" and w :: "'s world"
  assumes ok: "container_ok X mb w ct" and so: "storage_ok so content" and n: "0 < n"
    and lim: "off + n + ct_objectSegmentsAlignement ct < W64"
    and buf: "getBuffers fi so off n ACCESS_READ True False (the_object k ct) w = Inr (res, segs, ob1, w1)"
  obtains ct1 where "getObject k ct = Inr (the_object k ct, ct1)" "container_ok X mb w1 (put_object k ob1 ct1)"
    "others_kept content k ct w (put_object k ob1 ct1) w1" "res \<Longrightarrow> chain off (off + n) segs"
    "\<And>x. view_byte w (obj_segmentMap (the_object k ct)) x \<noteq> None \<or> obj_storageBackend (the_object k ct) \<Longrightarrow>
       object_byte content w1 ob1 x = object_byte content w (the_object k ct) x"
    "\<And>d. res \<Longrightarrow> d \<in> set segs \<Longrightarrow> \<exists>base n. d \<in> descr_set w1 (in_range base n (set (obj_segmentMap ob1)))"
    "object_inv X mb (others k (put_object k ob1 ct1)) ob1 w1"
proof -
  obtain ob ct1 where g: "getObject k ct = Inr (ob, ct1)" by (rule getObject_ok [OF ok])
  note G = getObject_the [OF ok g]
  note F = container_focus [OF G(1,2)]
  have mem: "obj_memoryBackend ob = mb" "grid_ok ob" "off + n + obj_alignement ob < W64"
    using F(2) lim G(5) by (simp_all add: member_ok_def)
  note R = read_object [OF F(1) mem(1) so mem(2,3) n buf [folded G(4)]]
  note S = container_object_step [OF G(1,2) R(1,2)]
  have "others_kept content k ct w (put_object k ob1 ct1) w1"
    using S(2) G(3) unfolding others_kept_def by metis
  then show thesis using that [of ct1] g G(4) S(1) R(3-5) container_focus(1) [OF S(1) put_object_find] by blast
qed

text \<open>One segment holds the whole range: the fragment it gives is the range of the object.\<close>

lemma single_fragment:
  fixes content :: "'s storage_content"
  assumes inv: "object_inv X mb E ob w" and d: "d \<in> descr_set w (in_range base bn (set (obj_segmentMap ob)))"
    and ch: "chain off (off + n) [d]" and lim: "off + n < W64"
  obtains p where "eager_fragments n off [d] 0 0 [None] w = Inr [Some \<lparr>lb_buffer = p, lb_size = n\<rparr>]" "data_ok n p"
    "data_of n p = map (object_byte content w ob) [off..<off + n]"
proof -
  obtain k xs where k: "osd_ptr d = Ptr k 0" "w_blocks w k = Some xs" "length xs = osd_size d" "osd_offset d + osd_size d < W64"
      "\<And>x. osd_offset d \<le> x \<Longrightarrow> x < osd_offset d + osd_size d \<Longrightarrow> view_byte w (obj_segmentMap ob) x = Some (xs ! (x - osd_offset d))"
    by (rule descr_bytes [OF inv d]) (rule that)
  have c: "osd_offset d \<le> off" "off < osd_offset d + osd_size d" "off < off + n" "off + n \<le> osd_offset d + osd_size d" using ch by auto
  have "eager_clip n off 0 d = Inr (off - osd_offset d, min (osd_offset d + osd_size d) (off + n) - off)"
    by (rule eager_clip_ok) (use c k(4) lim in simp_all)
  then have clip: "eager_clip n off 0 d = Inr (off - osd_offset d, n)" using c(4) by simp
  let ?p = "Some (drop (off - osd_offset d) xs)"
  have len: "off - osd_offset d + n \<le> length xs" using c k(3) by simp
  have "data_of n ?p = map (object_byte content w ob) [off..<off + n]"
  proof (rule nth_equalityI)
    fix i
    assume "i < length (data_of n ?p)"
    then have i: "i < n" using len by (simp add: data_of_def)
    have "view_byte w (obj_segmentMap ob) (off + i) = Some (xs ! (off + i - osd_offset d))" using k(5) c i by simp
    then show "data_of n ?p ! i = map (object_byte content w ob) [off..<off + n] ! i"
      using i len c(1) by (simp add: data_of_def object_byte_def)
  qed (use len in \<open>simp add: data_of_def\<close>)
  moreover have "eager_fragments n off [d] 0 0 [None] w = Inr [Some \<lparr>lb_buffer = ?p, lb_size = n\<rparr>]"
    using clip k(1,2) by (simp add: ptr_data_def)
  moreover have "data_ok n ?p" using len by (simp add: data_ok_def)
  ultimately show thesis using that by blast
qed

lemma fragment_response:
  assumes "data_ok n p" "n < W64"
  shows "Response_ok \<lparr>rs_msgDataSize = n, rs_status = 0, rs_msgHasData = True, rs_optionalData = None,
      rs_optionalDataFragments = Some [\<lparr>lb_buffer = p, lb_size = n\<rparr>]\<rparr>"
    "Response_wire \<lparr>rs_msgDataSize = n, rs_status = 0, rs_msgHasData = True, rs_optionalData = None,
      rs_optionalDataFragments = Some [\<lparr>lb_buffer = p, lb_size = n\<rparr>]\<rparr> = Response_wire (data_response 0 (data_of n p))"
    "length (Response_wire (data_response 0 (data_of n p))) = 13 + n"
proof -
  obtain xs where "p = Some xs" "n \<le> length xs" using assms(1) by (auto simp: data_ok_def)
  with assms(2) show "Response_ok \<lparr>rs_msgDataSize = n, rs_status = 0, rs_msgHasData = True, rs_optionalData = None,
      rs_optionalDataFragments = Some [\<lparr>lb_buffer = p, lb_size = n\<rparr>]\<rparr>"
    "Response_wire \<lparr>rs_msgDataSize = n, rs_status = 0, rs_msgHasData = True, rs_optionalData = None,
      rs_optionalDataFragments = Some [\<lparr>lb_buffer = p, lb_size = n\<rparr>]\<rparr> = Response_wire (data_response 0 (data_of n p))"
    "length (Response_wire (data_response 0 (data_of n p))) = 13 + n"
    by (simp_all add: Response_ok_def Response_wire_def response_data_def data_response_def fragments_ok_def int32_ok_def
        data_of_def data_ok_def)
qed

lemma answer_returns:
  assumes ok: "container_ok X mb w ct" and conn: "conn_ok pd X c" and resp: "Response_ok resp"
    and fit: "32 + length (Response_wire resp) \<le> fr_msgBufferSize X" and rdy: "endpoint_ready X (int_of_size client) c"
    and i: "i < lc_recvBuffersCount c"
  obtains c1 w1 c2 where "sendMessage fi (msg_code t) (int_of_size client) Response_applySerializerDef resp body c w = Inr (c1, w1)"
    "repostReceive i c1 = Inr c2"
proof -
  have net: "net_ok pd X c" "fr_msgBufferSize X < W64" and hd: "MessageHeader_ok (fillProtocolHeader (msg_code t) c)"
    using conn msg_code_small by (auto simp: conn_ok_def MessageHeader_ok_def fillProtocolHeader_def)
  obtain c1 w1 where s: "sendMessage fi (msg_code t) (int_of_size client) Response_applySerializerDef resp body c w = Inr (c1, w1)"
    using response.sendMessage_returns [OF container_okD(3) [OF ok] net(1) rdy resp hd fit net(2)] by blast
  have "fb_codes (lc_fabric c1) = []" using sendMessage_codes [OF s] rdy by (simp add: endpoint_ready_def)
  moreover obtain Z where "answered t resp client c c1"
    by (rule response_effect [OF ok conn resp fit s]) (rule that)
  then have "lc_recvBuffersCount c1 = lc_recvBuffersCount c" using same_settings_sel(2) by (auto simp: answered_def posted_def)
  ultimately show thesis using that [OF s] repostReceive_returns i by metis
qed

lemma eager_read_effect:
  fixes content :: "'s storage_content" and w :: "'s world"
  assumes ok: "container_ok X mb w (ap_container a)" and conn: "conn_ok pd X c" and so: "storage_ok so content"
    and msg: "holds_message (rq_deserializer rq) (ReadWrite_wire req)" "ReadWrite_ok req"
    and n: "0 < rw_size req" "rw_size req \<le> IOC_EAGER_MAX_READ" "45 + rw_size req \<le> fr_msgBufferSize X"
    and lim: "rw_offset req + rw_size req + ct_objectSegmentsAlignement (ap_container a) < W64"
    and ob: "ob = the_object (oid_of (rw_objectId req)) (ap_container a)"
      "\<forall>x. rw_offset req \<le> x \<and> x < rw_offset req + rw_size req \<longrightarrow> view_byte w (obj_segmentMap ob) x \<noteq> None \<or> obj_storageBackend ob"
    and buf: "getBuffers fi so (rw_offset req) (rw_size req) ACCESS_READ True False ob w = Inr (True, [d], ob1, w1)"
    and rdy: "endpoint_ready X (int_of_size (rq_lfClientId rq)) c" "rq_msgBufferId rq < lc_recvBuffersCount c"
  shows "\<exists>a' c' w' Z ob'. HookObjectRead_onMessage fi so rq a c w = Inr (LF_WAIT_LOOP_KEEP_WAITING, a', c', w') \<and>
    container_ok Z mb w' (ap_container a') \<and> conn_ok pd Z c' \<and>
    hook_answer IOC_LF_MSG_OBJ_READ_WRITE_ACK
      (data_response 0 (map (object_byte content w ob) [rw_offset req..<rw_offset req + rw_size req])) rq c c' \<and>
    sm_find (ct_objects (ap_container a')) (oid_of (rw_objectId req)) = Some (Some ob') \<and>
    others_kept content (oid_of (rw_objectId req)) (ap_container a) w (ap_container a') w' \<and>
    (\<forall>x. view_byte w (obj_segmentMap ob) x \<noteq> None \<or> obj_storageBackend ob \<longrightarrow> object_byte content w' ob' x = object_byte content w ob x)"
proof -
  let ?k = "oid_of (rw_objectId req)" and ?n = "rw_size req" and ?off = "rw_offset req"
  obtain rw s where rw: "apply_struct ObjReadWriteInfos_applySerializerDef ''objReadWrite'' no_rw (rq_deserializer rq) = Inr (rw, s)"
      "rw_objectId rw = rw_objectId req" "rw_offset rw = ?off" "rw_size rw = ?n"
    by (rule read_unpacked [OF msg]) (rule that)
  obtain ct1 where P: "getObject ?k (ap_container a) = Inr (ob, ct1)" "container_ok X mb w1 (put_object ?k ob1 ct1)"
    "others_kept content ?k (ap_container a) w (put_object ?k ob1 ct1) w1" "chain ?off (?off + ?n) [d]"
    "\<And>x. view_byte w (obj_segmentMap ob) x \<noteq> None \<or> obj_storageBackend ob \<Longrightarrow> object_byte content w1 ob1 x = object_byte content w ob x"
    "\<exists>base n. d \<in> descr_set w1 (in_range base n (set (obj_segmentMap ob1)))" "object_inv X mb (others ?k (put_object ?k ob1 ct1)) ob1 w1"
    by (rule read_prepared [OF ok so n(1) lim buf [unfolded ob(1)]]) (use ob(1) in \<open>auto intro: that\<close>)
  obtain base bn where d: "d \<in> descr_set w1 (in_range base bn (set (obj_segmentMap ob1)))" using P(6) by blast
  have lim': "?off + ?n < W64" using lim by simp
  obtain p where p: "eager_fragments ?n ?off [d] 0 0 [None] w1 = Inr [Some \<lparr>lb_buffer = p, lb_size = ?n\<rparr>]" "data_ok ?n p"
      "data_of ?n p = map (object_byte content w1 ob1) [?off..<?off + ?n]"
    by (rule single_fragment [OF P(7) d P(4) lim']) (rule that)
  have "map (object_byte content w1 ob1) [?off..<?off + ?n] = map (object_byte content w ob) [?off..<?off + ?n]"
    using P(5) ob(2) by simp
  then have bytes: "data_of ?n p = map (object_byte content w ob) [?off..<?off + ?n]" using p(3) by simp
  have nW: "?n < W64" using lim' by simp
  let ?resp = "\<lparr>rs_msgDataSize = ?n, rs_status = 0, rs_msgHasData = True, rs_optionalData = None,
      rs_optionalDataFragments = Some [\<lparr>lb_buffer = p, lb_size = ?n\<rparr>]\<rparr>"
  note R = fragment_response [OF p(2) nW]
  have fit: "32 + length (Response_wire ?resp) \<le> fr_msgBufferSize X" using R(2,3) n(3) by simp
  obtain c1 w2 c2 where r: "sendMessage fi (msg_code IOC_LF_MSG_OBJ_READ_WRITE_ACK) (int_of_size (rq_lfClientId rq)) Response_applySerializerDef
      ?resp (response_action False) c w1 = Inr (c1, w2)" "repostReceive (rq_msgBufferId rq) c1 = Inr c2"
    by (rule answer_returns [OF P(2) conn R(1) fit rdy]) (rule that)
  obtain Z where Z: "container_ok Z mb w2 (put_object ?k ob1 ct1)" "conn_ok pd Z c1"
      "answered IOC_LF_MSG_OBJ_READ_WRITE_ACK ?resp (rq_lfClientId rq) c c1" "memory_only w1 w2" "data_kept UNIV w1 w2"
    by (rule response_effect [OF P(2) conn R(1) fit r(1)]) (rule that)
  have ans: "hook_answer IOC_LF_MSG_OBJ_READ_WRITE_ACK (data_response 0 (map (object_byte content w ob) [?off..<?off + ?n])) rq c c2"
    using Z(3) r(2) answered_wire [OF R(2)] bytes unfolding hook_answer_def by metis
  have byte: "object_byte content w2 o2 = object_byte content w1 o2" for o2 by (rule object_byte_memory [OF Z(5,4)])
  have "List.map_filter (\<lambda>f. f) [Some \<lparr>lb_buffer = p, lb_size = ?n\<rparr>] = [\<lparr>lb_buffer = p, lb_size = ?n\<rparr>]" by (simp add: List.map_filter_def)
  then have "\<exists>a'. HookObjectRead_onMessage fi so rq a c w = Inr (LF_WAIT_LOOP_KEEP_WAITING, a', c2, w2) \<and>
      ap_container a' = put_object ?k ob1 ct1"
    using n(2) nW by (simp add: HookObjectRead_onMessage_def rw P(1) buf objEagerPushToClient_def p(1) sendResponse_fragments_def r
        terminate_def Let_def del: eager_fragments.simps msg_code.simps)
  then obtain a' where run: "HookObjectRead_onMessage fi so rq a c w = Inr (LF_WAIT_LOOP_KEEP_WAITING, a', c2, w2)"
      "ap_container a' = put_object ?k ob1 ct1"
    by blast
  have "others_kept content ?k (ap_container a) w (ap_container a') w2" using P(3) run(2) byte by (simp add: others_kept_def)
  moreover have "conn_ok pd Z c2" by (rule conn_ok_repost [OF Z(2) r(2)])
  moreover have "sm_find (ct_objects (ap_container a')) ?k = Some (Some ob1)" using put_object_find run(2) by simp
  ultimately show ?thesis using run Z(1) ans P(5) byte by (intro exI [of _ a'] exI [of _ c2] exI [of _ w2] exI [of _ Z] exI [of _ ob1]) auto
qed

section \<open>Properties\<close>

text \<open>
  C9. A read of at most the eager limit from an object that has a storage, or whose range is
  loaded, is answered when one segment holds the range: the hook returns, the one message it
  posts carries status 0 and exactly the bytes of the object in the range, and neither this
  object nor any other changes.
\<close>

theorem eager_read_answered:
  fixes content :: "'s storage_content" and w :: "'s world"
  assumes ok: "container_ok X mb w (ap_container a)" and conn: "conn_ok pd X c" and so: "storage_ok so content"
    and msg: "holds_message (rq_deserializer rq) (ReadWrite_wire req)" "ReadWrite_ok req"
    and n: "0 < rw_size req" "rw_size req \<le> IOC_EAGER_MAX_READ" "45 + rw_size req \<le> fr_msgBufferSize X"
    and lim: "rw_offset req + rw_size req + ct_objectSegmentsAlignement (ap_container a) < W64"
    and ob: "ob = the_object (oid_of (rw_objectId req)) (ap_container a)"
      "\<forall>x. rw_offset req \<le> x \<and> x < rw_offset req + rw_size req \<longrightarrow> view_byte w (obj_segmentMap ob) x \<noteq> None \<or> obj_storageBackend ob"
    and buf: "getBuffers fi so (rw_offset req) (rw_size req) ACCESS_READ True False ob w = Inr (True, [d], ob1, w1)"
    and rdy: "endpoint_ready X (int_of_size (rq_lfClientId rq)) c" "rq_msgBufferId rq < lc_recvBuffersCount c"
  shows "\<exists>a' c' w' Z ob'. HookObjectRead_onMessage fi so rq a c w = Inr (LF_WAIT_LOOP_KEEP_WAITING, a', c', w') \<and>
    container_ok Z mb w' (ap_container a') \<and> conn_ok pd Z c' \<and>
    hook_answer IOC_LF_MSG_OBJ_READ_WRITE_ACK
      (data_response 0 (map (object_byte content w ob) [rw_offset req..<rw_offset req + rw_size req])) rq c c' \<and>
    sm_find (ct_objects (ap_container a')) (oid_of (rw_objectId req)) = Some (Some ob') \<and>
    others_kept content (oid_of (rw_objectId req)) (ap_container a) w (ap_container a') w' \<and>
    (\<forall>x. view_byte w (obj_segmentMap ob) x \<noteq> None \<or> obj_storageBackend ob \<longrightarrow> object_byte content w' ob' x = object_byte content w ob x)"
  by (rule eager_read_effect [OF assms])

text \<open>
  C40. A read of at most the eager limit whose range lies in two or more segments reads the
  entries of its array of fragments that it never set (the loop does not advance the index), in
  every state in which the objects can be loaded.
\<close>

theorem eager_read_split:
  fixes content :: "'s storage_content" and w :: "'s world"
  assumes ok: "container_ok X mb w (ap_container a)" and so: "storage_ok so content"
    and msg: "holds_message (rq_deserializer rq) (ReadWrite_wire req)" "ReadWrite_ok req"
    and n: "0 < rw_size req" "rw_size req \<le> IOC_EAGER_MAX_READ"
    and lim: "rw_offset req + rw_size req + ct_objectSegmentsAlignement (ap_container a) < W64"
    and buf: "getBuffers fi so (rw_offset req) (rw_size req) ACCESS_READ True False (the_object (oid_of (rw_objectId req)) (ap_container a)) w =
      Inr (True, segs, ob1, w1)"
    and split: "2 \<le> length segs" "length segs < 2 ^ 32 - 1"
  shows "HookObjectRead_onMessage fi so rq a c w = Inl UninitialisedRead"
proof -
  let ?k = "oid_of (rw_objectId req)" and ?n = "rw_size req" and ?off = "rw_offset req"
  obtain rw s where rw: "apply_struct ObjReadWriteInfos_applySerializerDef ''objReadWrite'' no_rw (rq_deserializer rq) = Inr (rw, s)"
      "rw_objectId rw = rw_objectId req" "rw_offset rw = ?off" "rw_size rw = ?n"
    by (rule read_unpacked [OF msg]) (rule that)
  obtain ct1 where P: "getObject ?k (ap_container a) = Inr (the_object ?k (ap_container a), ct1)" "chain ?off (?off + ?n) segs"
    "\<And>d. d \<in> set segs \<Longrightarrow> \<exists>base n. d \<in> descr_set w1 (in_range base n (set (obj_segmentMap ob1)))"
    "object_inv X mb (others ?k (put_object ?k ob1 ct1)) ob1 w1"
    by (rule read_prepared [OF ok so n(1) lim buf]) (auto intro: that)
  have small: "osd_offset d + osd_size d < W64" if d: "d \<in> set segs" for d
  proof -
    obtain base bn where "d \<in> descr_set w1 (in_range base bn (set (obj_segmentMap ob1)))" using P(3) [OF d] by blast
    then show ?thesis by (rule descr_bytes [OF P(4)])
  qed
  obtain d1 d2 ds where segs: "segs = d1 # d2 # ds" using split(1) by (cases segs rule: list.exhaust; cases "tl segs") auto
  have "\<exists>f. eager_fragments ?n ?off segs 0 0 (replicate (length segs) None) w1 = Inr (if segs = [] then replicate (length segs) None
      else (replicate (length segs) None)[0 := Some f])"
    by (rule eager_fragments_rest) (use P(2) lim small segs in auto)
  then obtain f where f: "eager_fragments ?n ?off segs 0 0 (replicate (length segs) None) w1 = Inr (Some f # None # replicate (length ds) None)"
    using segs by auto
  have cnt: "length (Some f # None # replicate (length ds) None) < 2 ^ 32 - 1" using split(2) segs by simp
  show ?thesis
    using n(2) cnt by (simp add: HookObjectRead_onMessage_def rw P(1) buf objEagerPushToClient_def f sendResponse_fragments_def Let_def)
qed

definition wit_read :: "int \<Rightarrow> nat \<Rightarrow> nat \<Rightarrow> LibfabricObjReadWriteInfos" where
  "wit_read low off n = \<lparr>rw_objectId = \<lparr>loi_low = low, loi_high = 0\<rparr>, rw_iov = \<lparr>iov_addr = 64, iov_key = 3\<rparr>, rw_offset = off,
     rw_size = n, rw_msgHasData = False, rw_optionalData = None\<rparr>"

lemma wit_read_ok:
  assumes "int64_ok low" "off < W64" "n < W64"
  shows "ReadWrite_ok (wit_read low off n)" "holds_message (rq_deserializer (wit_message (ReadWrite_wire (wit_read low off n)))) (ReadWrite_wire (wit_read low off n))"
proof -
  show "ReadWrite_ok (wit_read low off n)"
    using assms by (simp add: ReadWrite_ok_def wit_read_def ObjectId_ok_def Iov_ok_def int64_ok_def W64_def)
  show "holds_message (rq_deserializer (wit_message (ReadWrite_wire (wit_read low off n)))) (ReadWrite_wire (wit_read low off n))"
    by (rule wit_message_holds) (simp add: ReadWrite_wire_def wit_read_def W64_def)
qed

lemma wit_read_buffers:
  "\<exists>d ob1 w1. getBuffers wit_fabric table_ops 5 2 ACCESS_READ True False (Object_init True 0 (ObjectId 0 7) 0) wit_net_world =
     Inr (True, [d], ob1, w1)"
  by (simp add: access_eval wit_net_world_def wit_world_def Object_init_def)

theorem eager_read_answered_witness:
  "\<exists>a' c' w'. HookObjectRead_onMessage wit_fabric table_ops (wit_message (ReadWrite_wire (wit_read 7 5 2))) wit_app wit_connection wit_net_world =
       Inr (LF_WAIT_LOOP_KEEP_WAITING, a', c', w') \<and>
     hook_answer IOC_LF_MSG_OBJ_READ_WRITE_ACK (data_response 0 [5, 6]) (wit_message (ReadWrite_wire (wit_read 7 5 2))) wit_connection c'"
proof -
  let ?rq = "wit_message (ReadWrite_wire (wit_read 7 5 2))" and ?ob = "Object_init True 0 (ObjectId 0 7) 0"
  have ok: "ReadWrite_ok (wit_read 7 5 2)" "holds_message (rq_deserializer ?rq) (ReadWrite_wire (wit_read 7 5 2))"
    by (rule wit_read_ok; simp add: int64_ok_def W64_def)+
  have rq: "rw_size (wit_read 7 5 2) = 2" "rw_offset (wit_read 7 5 2) = 5" "rw_objectId (wit_read 7 5 2) = \<lparr>loi_low = 7, loi_high = 0\<rparr>"
    by (simp_all add: wit_read_def)
  have ob: "?ob = the_object (oid_of (rw_objectId (wit_read 7 5 2))) (ap_container wit_app)" "obj_storageBackend ?ob"
    by (simp_all add: rq(3) oid_of_def the_object_def wit_app_def Object_init_def)
  have misc: "5 + 2 + ct_objectSegmentsAlignement (ap_container wit_app) < W64" "rq_lfClientId ?rq = 3" "(2 :: nat) \<le> IOC_EAGER_MAX_READ"
      "rq_msgBufferId ?rq < lc_recvBuffersCount wit_connection" "45 + 2 \<le> fr_msgBufferSize wit_net_frame"
    by (simp_all add: wit_app_def W64_def wit_message_def wit_connection_def wit_net_frame_def IOC_EAGER_MAX_READ_def)
  have bytes: "map (object_byte (\<lambda>t. t) wit_net_world ?ob) [5..<5 + 2] = [5, 6]"
    by (simp add: object_byte_def view_byte_def Object_init_def sm_lower_bound_def wit_net_world_def wit_world_def upt_rec)
  obtain d ob1 and w1 :: "table world" where
    b: "getBuffers wit_fabric table_ops 5 2 ACCESS_READ True False ?ob wit_net_world = Inr (True, [d], ob1, w1)"
    using wit_read_buffers by blast
  show ?thesis
    using eager_read_answered [OF wit_net_ok(1,2) table_ok ok(2,1) _ _ _ _ ob(1), unfolded rq(1,2), OF _ misc(3,5,1) _ b]
      ob(2) wit_net_ok(3) misc(2,4) unfolding bytes by force
qed

lemma wit_split_buffers:
  "\<exists>d1 d2 ob1 w1. getBuffers wit_fabric table_ops 0 4 ACCESS_READ True False wit_a wit_shared_world = Inr (True, [d1, d2], ob1, w1)"
  by (simp add: access_eval ObjectSegment_overlap_def wit_a_def wit_seg_def wit_shared_world_def Object_init_def)

theorem eager_read_split_witness:
  "HookObjectRead_onMessage wit_fabric table_ops (wit_message (ReadWrite_wire (wit_read 1 0 4))) (wit_app\<lparr>ap_container := wit_container\<rparr>)
     wit_connection wit_shared_world = Inl UninitialisedRead"
proof -
  let ?rq = "wit_message (ReadWrite_wire (wit_read 1 0 4))" and ?a = "wit_app\<lparr>ap_container := wit_container\<rparr>"
  have ok: "ReadWrite_ok (wit_read 1 0 4)" "holds_message (rq_deserializer ?rq) (ReadWrite_wire (wit_read 1 0 4))"
    by (rule wit_read_ok; simp add: int64_ok_def W64_def)+
  have ct: "container_ok wit_frame 0 wit_shared_world (ap_container ?a)" using wit_container_ok by simp
  have rq: "rw_size (wit_read 1 0 4) = 4" "rw_offset (wit_read 1 0 4) = 0"
      "the_object (oid_of (rw_objectId (wit_read 1 0 4))) (ap_container ?a) = wit_a"
    by (simp_all add: wit_read_def the_object_def oid_of_def wit_container_def)
  obtain d1 d2 ob1 and w1 :: "table world" where
    b: "getBuffers wit_fabric table_ops 0 4 ACCESS_READ True False wit_a wit_shared_world = Inr (True, [d1, d2], ob1, w1)"
    using wit_split_buffers by blast
  have n: "(0 :: nat) < 4" "(4 :: nat) \<le> IOC_EAGER_MAX_READ" "0 + 4 + ct_objectSegmentsAlignement (ap_container ?a) < W64"
      "2 \<le> length [d1, d2]" "length [d1, d2] < 2 ^ 32 - 1"
    by (simp_all add: IOC_EAGER_MAX_READ_def W64_def wit_container_def)
  show ?thesis by (rule eager_read_split [OF ct table_ok ok(2,1), unfolded rq, OF n(1,2,3) b n(4,5)])
qed

end
