(* ===== verification/Hook_Invariant.thy ===== *)
theory Hook_Invariant
  imports Hook_Read
begin

text \<open>
  Every hook of the server on objects keeps the invariants of the container and of the
  connection, whatever the endpoint and the storage answer.
\<close>

section \<open>Messages and transfers\<close>

lemma send_keeps:
  assumes ok: "container_ok X mb w ct" and conn: "conn_ok pd X c" and s: "sendMessage fi t dst A d body c w = Inr (c', w')"
  obtains Z where "container_ok Z mb w' ct" "conn_ok pd Z c'" "memory_only w w'" "data_kept UNIV w w'"
proof -
  have net: "net_ok pd X c" using conn by (simp add: conn_ok_def)
  have wok: "world_ok mb (ct_refs (ct_objects ct)) X w" by (rule container_okD(3) [OF ok])
  obtain Z a buf bytes act where Z: "world_ok mb (ct_refs (ct_objects ct)) Z w'" "net_ok pd Z c'" "data_kept UNIV w w'" "memory_only w w'"
      "posted (FiSend a buf bytes (Some act)) c c'" "fr_msgBufferSize Z = fr_msgBufferSize X"
    by (rule sendMessage_effect [OF wok net s]) (rule that)
  have "conn_ok pd Z c'" using conn Z(2,5,6) same_settings_sel [of c c'] by (auto simp: conn_ok_def posted_def)
  then show thesis using that container_memory(1) [OF ok Z(1,3)] Z(3,4) by blast
qed

lemma reply_keeps:
  assumes ok: "container_ok X mb w (ap_container a)" and conn: "conn_ok pd X c" and r: "reply fi t st rq a c w = Inr (res, a', c', w')"
  shows "\<exists>Z. container_ok Z mb w' (ap_container a') \<and> conn_ok pd Z c'"
proof -
  obtain c1 where s: "sendResponse fi t (rq_lfClientId rq) st False c w = Inr (c1, w')" and t: "repostReceive (rq_msgBufferId rq) c1 = Inr c'"
      and a': "a' = a"
    using r by (auto simp: reply_def terminate_def elim!: bindE_InrE)
  obtain Z where "container_ok Z mb w' (ap_container a)" "conn_ok pd Z c1"
    by (rule send_keeps [OF ok conn s [unfolded sendResponse_def]]) (rule that)
  then show ?thesis using conn_ok_repost [OF _ t] a' by blast
qed

text \<open>An RDMA operation holds no message buffer.\<close>

lemma rdma_keeps:
  assumes "conn_ok pd X c" "posted op c c'" "buffers_of [op_context op] = []" "send_intact X op"
  shows "conn_ok pd X c'"
proof -
  note P = inflight_posted [OF assms(2)]
  have "msg_buffers_ok X (inflight c')" "set (inflight c') = set (inflight c)"
    using assms(1,3) msg_buffers_perm [OF P(1)] mset_eq_setD [OF P(1)] by (simp_all add: conn_ok_def net_ok_def)
  then show ?thesis
    using assms P(2) same_settings_sel [of c c'] by (auto simp: conn_ok_def net_ok_def foreign_ok_def posted_def)
qed

lemma rdma_op:
  assumes "rdmaReadv dst vs addr key f c w = Inr c' \<or> rdmaWritev dst vs addr key f c w = Inr c'"
  obtains op where "posted op c c'" "buffers_of [op_context op] = []" "send_intact X op"
  using assms by (auto simp: rdmaReadv_def rdmaWritev_def rdma_post_def PostAction_init_def Let_def elim!: bindE_InrE
      dest!: post_operation_effect split: option.splits)

lemma rdma_groups_keeps:
  assumes "\<And>vs addr c c'. P c \<Longrightarrow> post vs addr c = Inr c' \<Longrightarrow> P c'"
    and "P c" "rdma_groups post addr off iov c = Inr c'"
  shows "P c'"
  using assms
proof (induction post addr off iov c rule: rdma_groups.induct)
  case (1 post addr off iov c)
  show ?case
  proof (cases "iov = []")
    case True
    then show ?thesis using "1.prems" by (simp add: rdma_groups.simps)
  next
    case False
    let ?g = "take IOC_LF_MAX_RDMA_SEGS iov"
    obtain c1 where c1: "post ?g (add64 addr off) c = Inr c1"
        "rdma_groups post addr (foldl (\<lambda>off v. add64 off (iov_len v)) off ?g) (drop IOC_LF_MAX_RDMA_SEGS iov) c1 = Inr c'"
      using False "1.prems"(3) by (subst (asm) rdma_groups.simps) (auto simp: Let_def elim!: bindE_InrE)
    have "P c1" by (rule "1.prems"(1) [OF "1.prems"(2) c1(1)])
    then show ?thesis using "1.IH" [OF False refl c1(1) "1.prems"(1) _ c1(2)] by simp
  qed
qed

lemma push_keeps:
  assumes "conn_ok pd X c" "objRdmaPushToClient client rw segs a c w = Inr (a', c')"
  shows "conn_ok pd X c'" "ap_container a' = ap_container a"
proof -
  obtain key f addr iov where r: "rdma_groups (\<lambda>vs addr c. rdmaWritev (int_of_size client) vs addr key f c w) addr 0 iov c = Inr c'"
    using assms(2) by (auto simp: objRdmaPushToClient_def elim!: bindE_InrE split: prod.splits)
  show "conn_ok pd X c'"
    by (rule rdma_groups_keeps [where P = "conn_ok pd X", OF _ assms(1) r]) (metis rdma_op rdma_keeps)
  show "ap_container a' = ap_container a" using assms(2) by (auto simp: objRdmaPushToClient_def new_ops_def elim!: bindE_InrE)
qed

lemma fetch_keeps:
  assumes "conn_ok pd X c" "objRdmaFetchFromClient client rw segs a c w = Inr (a', c')"
  shows "conn_ok pd X c'" "ap_container a' = ap_container a"
proof -
  obtain key f addr iov where r: "rdma_groups (\<lambda>vs addr c. rdmaReadv (int_of_size client) vs addr key f c w) addr 0 iov c = Inr c'"
    using assms(2) by (auto simp: objRdmaFetchFromClient_def elim!: bindE_InrE split: prod.splits)
  show "conn_ok pd X c'"
    by (rule rdma_groups_keeps [where P = "conn_ok pd X", OF _ assms(1) r]) (metis rdma_op rdma_keeps)
  show "ap_container a' = ap_container a" using assms(2) by (auto simp: objRdmaFetchFromClient_def new_ops_def elim!: bindE_InrE)
qed

section \<open>Flush without a storage\<close>

lemma flush_loop_no_storage:
  assumes "\<not> obj_storageBackend ob" "off + n < W64" "world_ok mb R X w" "map_ok w segs"
    and "flush_loop so ob off n ret segs w = Inr (ret', segs', w')"
  shows "w' = w \<and> (\<exists>f. segs' = set_dirty f segs)"
proof -
  have "w' = w \<and> segs' = set_dirty (\<lambda>k seg. os_dirty seg \<and> \<not> to_flush off n k seg) segs"
    using assms(4,5)
  proof (induction segs arbitrary: ret segs')
    case (Cons e segs)
    obtain k seg where e: "e = (k, seg)" by force
    note C = map_ok_Cons [OF Cons.prems(1) [unfolded e]]
    note want = flush_wanted_eq [OF assms(3) C(2) assms(2)]
    obtain r2 segs2 where run: "flush_loop so ob off n r2 segs w = Inr (ret', segs2, w')"
        and s': "segs' = (k, seg\<lparr>os_dirty := os_dirty seg \<and> \<not> to_flush off n k seg\<rparr>) # segs2"
      using Cons.prems(2) e want assms(1) by (auto simp: Object_pwrite_def to_flush_def elim!: bindE_InrE split: if_splits)
    then show ?case using Cons.IH [OF C(1) run] e by (simp add: set_dirty_def)
  qed (simp add: set_dirty_def)
  then show ?thesis by blast
qed

lemma flush_keeps_object:
  fixes content :: "'s storage_content"
  assumes so: "storage_ok so content" and lim: "off + n < W64" and inv: "object_inv X mb E ob w"
    and run: "Object_flush so off n ob w = Inr (ret, ob', w')"
  shows "object_step X mb E ob w ob' w'"
proof (cases "obj_storageBackend ob")
  case True
  then show ?thesis by (rule flush_step(1) [OF so _ lim inv run])
next
  case False
  have ok: "world_ok mb (\<lambda>i. map_refs (obj_segmentMap ob) i + E i) X w" "map_ok w (obj_segmentMap ob)"
    using inv by (auto simp: object_inv_def)
  obtain segs where l: "flush_loop so ob off n 0 (obj_segmentMap ob) w = Inr (ret, segs, w')" and ob': "ob' = ob\<lparr>obj_segmentMap := segs\<rparr>"
    using run by (auto simp: Object_flush_def elim!: bindE_InrE)
  obtain f where f: "w' = w" "segs = set_dirty f (obj_segmentMap ob)" using flush_loop_no_storage [OF False lim ok l] by blast
  have "grid_ok ob' = grid_ok ob" unfolding ob' f by (rule grid_set_dirty)
  then show ?thesis using inv f ob' by (simp add: object_step_def object_inv_def set_dirty_frame)
qed

section \<open>Container changes\<close>

lemma container_object:
  assumes ok: "container_ok X mb w ct" and g: "getObject k ct = Inr (ob, ct1)"
  shows "object_inv X mb (others k ct1) ob w" "obj_memoryBackend ob = mb" "obj_alignement ob = ct_objectSegmentsAlignement ct"
    "object_step X mb (others k ct1) ob w ob' w' \<Longrightarrow> container_ok X mb w' (put_object k ob' ct1)"
proof -
  note G = getObject_the [OF ok g]
  note F = container_focus [OF G(1,2)]
  show "object_inv X mb (others k ct1) ob w" "obj_memoryBackend ob = mb" "obj_alignement ob = ct_objectSegmentsAlignement ct"
    using F G(5) by (simp_all add: member_ok_def)
  show "container_ok X mb w' (put_object k ob' ct1)" if "object_step X mb (others k ct1) ob w ob' w'"
    by (rule container_object_step(1) [OF G(1,2) that, where content = "\<lambda>_ _ _. 0"]) simp
qed

lemma container_tracker:
  assumes ok: "container_ok X mb w ct" and g: "getObject k ct = Inr (ob, ct1)"
  shows "container_ok X mb w (put_object k (ob\<lparr>obj_consistencyTracker := t\<rparr>) ct1)"
proof -
  note G = getObject_the [OF ok g]
  note F = container_focus [OF G(1,2)]
  show ?thesis
    by (rule container_put(1) [OF G(1)]) (use F in \<open>auto simp: member_ok_def object_inv_def grid_ok_def\<close>)
qed

lemma container_storage: "container_ok X mb (w\<lparr>w_storage := s\<rparr>) ct = container_ok X mb w ct"
  by (simp add: container_ok_def member_ok_def)

lemma full_cow_keeps:
  fixes content :: "'s storage_content" and w :: "'s world"
  assumes ok: "container_ok X mb w ct" and so: "storage_ok so content"
    and run: "makeObjectFullCow so sourceId destId allowExist ct w = Inr (res, ct', w')"
  shows "container_ok X mb w' ct'"
proof (cases res)
  case False
  then have "ct' = ct \<and> w' = w"
    using run by (auto simp: makeObjectFullCow_def full_cow_clear_def split: option.splits if_splits prod.splits elim!: bindE_InrE)
  then show ?thesis using ok by simp
next
  case True
  then obtain p where p: "sm_find (ct_objects ct) sourceId = Some p"
    using run by (auto simp: makeObjectFullCow_def full_cow_clear_def split: option.splits)
  then obtain src where src: "sm_find (ct_objects ct) sourceId = Some (Some src)"
    using container_okD(4) [OF ok map_of_SomeD] by blast
  have ne: "sourceId \<noteq> destId"
    using run True src by (auto simp: makeObjectFullCow_def full_cow_clear_def split: if_splits elim!: bindE_InrE)
  show ?thesis by (rule makeObjectFullCow_effect [OF ok so src ne run [unfolded True [THEN eqTrueI]]])
qed

section \<open>Requests on objects\<close>

datatype object_request =
    FlushRequest LibfabricObjFlushInfos
  | CreateRequest LibfabricObjCreateInfos
  | CowRequest LibfabricObjectCow
  | RegisterRequest LibfabricRegisterRange
  | UnregisterRequest LibfabricUnregisterRange
  | ReadRequest LibfabricObjReadWriteInfos
  | WriteRequest LibfabricObjReadWriteInfos

fun request_hook :: "object_request \<Rightarrow> server_hook" where
  "request_hook (FlushRequest _) = HookFlush"
| "request_hook (CreateRequest _) = HookObjectCreate"
| "request_hook (CowRequest _) = HookObjectCow"
| "request_hook (RegisterRequest _) = HookRangeRegister"
| "request_hook (UnregisterRequest _) = HookRangeUnregister"
| "request_hook (ReadRequest _) = HookObjectRead"
| "request_hook (WriteRequest _) = HookObjectWrite"

fun request_wire :: "object_request \<Rightarrow> byte list" where
  "request_wire (FlushRequest v) = ObjFlushInfos_wire v"
| "request_wire (CreateRequest v) = ObjCreateInfos_wire v"
| "request_wire (CowRequest v) = ObjectCow_wire v"
| "request_wire (RegisterRequest v) = RegisterRange_wire v"
| "request_wire (UnregisterRequest v) = UnregisterRange_wire v"
| "request_wire (ReadRequest v) = ReadWrite_wire v"
| "request_wire (WriteRequest v) = ReadWrite_wire v"

text \<open>The fields have their types, and a range ends before the last segment of the address space.\<close>

fun request_ok :: "size_t \<Rightarrow> object_request \<Rightarrow> bool" where
  "request_ok al (FlushRequest v) \<longleftrightarrow> ObjFlushInfos_ok v \<and> fl_offset v + fl_size v < W64"
| "request_ok al (CreateRequest v) \<longleftrightarrow> ObjCreateInfos_ok v"
| "request_ok al (CowRequest v) \<longleftrightarrow> ObjectCow_ok v \<and> oc_rangeOffset v + oc_rangeSize v + al < W64"
| "request_ok al (RegisterRequest v) \<longleftrightarrow> RegisterRange_ok v"
| "request_ok al (UnregisterRequest v) \<longleftrightarrow> UnregisterRange_ok v"
| "request_ok al (ReadRequest v) \<longleftrightarrow> ReadWrite_ok v \<and> rw_offset v + rw_size v + al < W64"
| "request_ok al (WriteRequest v) \<longleftrightarrow> ReadWrite_ok v \<and> rw_offset v + rw_size v + al < W64 \<and> (rw_msgHasData v \<longrightarrow> 0 < rw_size v)"

definition kept :: "net_context \<Rightarrow> nat \<Rightarrow> app \<Rightarrow> server_connection \<Rightarrow> 's world \<Rightarrow> bool" where
  "kept pd mb a c w \<longleftrightarrow> (\<exists>Z. container_ok Z mb w (ap_container a) \<and> conn_ok pd Z c)"

lemma reply_kept:
  assumes "container_ok X mb w (ap_container a)" "conn_ok pd X c" "reply fi t st rq a c w = Inr (res, a', c', w')"
  shows "kept pd mb a' c' w'"
  using reply_keeps [OF assms] by (simp add: kept_def)

lemma flush_hook_keeps:
  fixes content :: "'s storage_content" and w :: "'s world"
  assumes ok: "container_ok X mb w (ap_container a)" and conn: "conn_ok pd X c" and so: "storage_ok so content"
    and msg: "holds_message (rq_deserializer rq) (ObjFlushInfos_wire v)" "ObjFlushInfos_ok v" "fl_offset v + fl_size v < W64"
    and run: "HookFlush_onMessage fi so rq a c w = Inr (res, a', c', w')"
  shows "kept pd mb a' c' w'"
proof -
  obtain v' s where u: "apply_struct ObjFlushInfos_applySerializerDef ''objFlush'' \<lparr>fl_objectId = no_oid, fl_offset = 0, fl_size = 0\<rparr>
      (rq_deserializer rq) = Inr (v', s)"
    using run by (auto simp: HookFlush_onMessage_def elim!: bindE_InrE)
  have v': "v' = v" using flush.holds_unpack [OF msg(1,2) TrueI u] by simp
  obtain ob ct1 ret ob1 and w1 :: "'s world" where r: "getObject (oid_of (fl_objectId v)) (ap_container a) = Inr (ob, ct1)"
      "Object_flush so (fl_offset v) (fl_size v) ob w = Inr (ret, ob1, w1)"
      "reply fi IOC_LF_MSG_OBJ_FLUSH_ACK ret rq (a\<lparr>ap_container := put_object (oid_of (fl_objectId v)) ob1 ct1\<rparr>) c w1 = Inr (res, a', c', w')"
    using run by (auto simp: HookFlush_onMessage_def u v' Let_def elim!: bindE_InrE)
  note O = container_object [OF ok r(1)]
  have "container_ok X mb w1 (put_object (oid_of (fl_objectId v)) ob1 ct1)"
    by (rule O(4) [OF flush_keeps_object [OF so msg(3) O(1) r(2)]])
  then show ?thesis by (intro reply_kept [OF _ conn r(3)]) simp
qed

lemma create_hook_keeps:
  fixes w :: "'s world"
  assumes ok: "container_ok X mb w (ap_container a)" and conn: "conn_ok pd X c"
    and run: "HookObjectCreate_onMessage fi so rq a c w = Inr (res, a', c', w')"
  shows "kept pd mb a' c' w'"
proof -
  obtain k ob ct1 ret and w1 :: "'s world" where r: "getObject k (ap_container a) = Inr (ob, ct1)"
      "Object_create so ob w = Inr (ret, w1)"
      "reply fi IOC_LF_MSG_OBJ_CREATE_ACK ret rq (a\<lparr>ap_container := ct1\<rparr>) c w1 = Inr (res, a', c', w')"
    using run by (auto simp: HookObjectCreate_onMessage_def elim!: bindE_InrE)
  have "\<exists>s. w1 = w\<lparr>w_storage := s\<rparr>"
    using r(2) by (auto simp: Object_create_def elim!: bindE_InrE split: if_splits) (metis world.surjective world.update_convs(5))
  then have "container_ok X mb w1 ct1" using getObject_the(1) [OF ok r(1)] by (auto simp: container_storage)
  then show ?thesis by (intro reply_kept [OF _ conn r(3)]) simp
qed

lemma cow_hook_keeps:
  fixes content :: "'s storage_content" and w :: "'s world"
  assumes ok: "container_ok X mb w (ap_container a)" and conn: "conn_ok pd X c" and so: "storage_ok so content"
    and msg: "holds_message (rq_deserializer rq) (ObjectCow_wire v)" "ObjectCow_ok v"
      "oc_rangeOffset v + oc_rangeSize v + ct_objectSegmentsAlignement (ap_container a) < W64"
    and run: "HookObjectCow_onMessage fi so rq a c w = Inr (res, a', c', w')"
  shows "kept pd mb a' c' w'"
proof -
  let ?s = "oid_of (oc_sourceObjectId v)" and ?d = "oid_of (oc_destObjectId v)"
  let ?v0 = "\<lparr>oc_sourceObjectId = no_oid, oc_destObjectId = no_oid, oc_allowExist = False, oc_rangeOffset = 0, oc_rangeSize = 0\<rparr>"
  obtain v' s where u: "apply_struct ObjectCow_applySerializerDef ''objCow'' ?v0 (rq_deserializer rq) = Inr (v', s)"
    using run by (auto simp: HookObjectCow_onMessage_def elim!: bindE_InrE)
  have v': "v' = v" using cow.holds_unpack [OF msg(1,2) TrueI u] by simp
  obtain st ct1 and w1 :: "'s world" where r: "(if oc_rangeSize v = 0 then makeObjectFullCow so ?s ?d (oc_allowExist v) (ap_container a) w
      else makeObjectRangeCow fi so ?s ?d (oc_allowExist v) (oc_rangeOffset v) (oc_rangeSize v) (ap_container a) w) = Inr (st, ct1, w1)"
      "reply fi IOC_LF_MSG_OBJ_COW_ACK (if st then 0 else - 1) rq (a\<lparr>ap_container := ct1\<rparr>) c w1 = Inr (res, a', c', w')"
    using run unfolding HookObjectCow_onMessage_def Let_def u v' bindE_Inr prod.case by (auto elim!: bindE_InrE simp del: split_paired_All split del: if_split)
  have "container_ok X mb w1 ct1"
  proof (cases "oc_rangeSize v = 0")
    case True
    then show ?thesis using r(1) full_cow_keeps [OF ok so] by simp
  next
    case False
    then show ?thesis using r(1) makeObjectRangeCow_effect(1) [OF ok so msg(3)] by simp
  qed
  then show ?thesis by (intro reply_kept [OF _ conn r(2)]) simp
qed

lemma range_hooks_keep:
  assumes ok: "container_ok X mb w (ap_container a)" and conn: "conn_ok pd X c"
    and run: "HookRangeRegister_onMessage fi rq a c w = Inr (res, a', c', w') \<or> HookRangeUnregister_onMessage fi rq a c w = Inr (res, a', c', w')"
  shows "kept pd mb a' c' w'"
proof -
  obtain k ob ct1 t st msg where r: "getObject k (ap_container a) = Inr (ob, ct1)"
      "reply fi msg st rq (a\<lparr>ap_container := put_object k (ob\<lparr>obj_consistencyTracker := t\<rparr>) ct1\<rparr>) c w = Inr (res, a', c', w')"
    using run by (fastforce simp: HookRangeRegister_onMessage_def HookRangeUnregister_onMessage_def Let_def elim!: bindE_InrE split: prod.splits)
  show ?thesis by (rule reply_kept [OF _ conn r(2)]) (use container_tracker [OF ok r(1)] in simp)
qed

lemma read_hook_keeps:
  fixes content :: "'s storage_content" and w :: "'s world"
  assumes ok: "container_ok X mb w (ap_container a)" and conn: "conn_ok pd X c" and so: "storage_ok so content"
    and msg: "holds_message (rq_deserializer rq) (ReadWrite_wire v)" "ReadWrite_ok v"
      "rw_offset v + rw_size v + ct_objectSegmentsAlignement (ap_container a) < W64"
    and run: "HookObjectRead_onMessage fi so rq a c w = Inr (res, a', c', w')"
  shows "kept pd mb a' c' w'"
proof -
  let ?k = "oid_of (rw_objectId v)"
  obtain rw s where rw: "apply_struct ObjReadWriteInfos_applySerializerDef ''objReadWrite'' no_rw (rq_deserializer rq) = Inr (rw, s)"
      "rw_objectId rw = rw_objectId v" "rw_offset rw = rw_offset v" "rw_size rw = rw_size v"
    by (rule read_unpacked [OF msg(1,2)]) (rule that)
  obtain ob ct1 st segs ob1 and w1 :: "'s world" and a1 c1 where g: "getObject ?k (ap_container a) = Inr (ob, ct1)"
      "getBuffers fi so (rw_offset v) (rw_size v) ACCESS_READ True False ob w = Inr (st, segs, ob1, w1)"
    and r: "(if st then if rw_size v \<le> IOC_EAGER_MAX_READ
          then objEagerPushToClient fi (rq_lfClientId rq) rw segs (a\<lparr>ap_container := put_object ?k ob1 ct1\<rparr>) c w1
          else bindE (objRdmaPushToClient (rq_lfClientId rq) rw segs (a\<lparr>ap_container := put_object ?k ob1 ct1\<rparr>) c w1) (\<lambda>(a, c). Inr (a, c, w1))
        else bindE (sendResponse fi IOC_LF_MSG_OBJ_READ_WRITE_ACK (rq_lfClientId rq) (- 1) False c w1)
               (\<lambda>(c, w). Inr (a\<lparr>ap_container := put_object ?k ob1 ct1\<rparr>, c, w))) = Inr (a1, c1, w')"
    and t: "repostReceive (rq_msgBufferId rq) c1 = Inr c'" "a' = a1"
    using run unfolding HookObjectRead_onMessage_def rw(1) bindE_Inr prod.case rw(2-4) Let_def terminate_def
    by (auto elim!: bindE_InrE split del: if_split)
  note O = container_object [OF ok g(1)]
  have lim: "rw_offset v + rw_size v + obj_alignement ob < W64" using msg(3) O(3) by simp
  have ct: "container_ok X mb w1 (put_object ?k ob1 ct1)" by (rule O(4) [OF getBuffers_step(1) [OF O(1,2) so lim g(2)]])
  have "\<exists>Z. container_ok Z mb w' (ap_container a1) \<and> conn_ok pd Z c1"
  proof (cases "st \<and> \<not> rw_size v \<le> IOC_EAGER_MAX_READ")
    case True
    then obtain "objRdmaPushToClient (rq_lfClientId rq) rw segs (a\<lparr>ap_container := put_object ?k ob1 ct1\<rparr>) c w1 = Inr (a1, c1)" "w' = w1"
      using r by (auto elim!: bindE_InrE)
    then show ?thesis using push_keeps [OF conn] ct by fastforce
  next
    case False
    then obtain tp A d body dst where "sendMessage fi tp dst A (d :: LibfabricResponse) body c w1 = Inr (c1, w')" "ap_container a1 = put_object ?k ob1 ct1"
      using r by (auto simp: objEagerPushToClient_def sendResponse_fragments_def sendResponse_def Let_def elim!: bindE_InrE split: if_splits)
    then show ?thesis using send_keeps [OF ct conn] by metis
  qed
  then show ?thesis using conn_ok_repost [OF _ t(1)] t(2) unfolding kept_def by blast
qed

lemma write_hook_keeps:
  fixes content :: "'s storage_content" and w :: "'s world"
  assumes ok: "container_ok X mb w (ap_container a)" and conn: "conn_ok pd X c" and so: "storage_ok so content"
    and msg: "holds_message (rq_deserializer rq) (ReadWrite_wire v)" "ReadWrite_ok v"
      "rw_offset v + rw_size v + ct_objectSegmentsAlignement (ap_container a) < W64" "rw_msgHasData v \<longrightarrow> 0 < rw_size v"
    and run: "HookObjectWrite_onMessage fi so rq a c w = Inr (res, a', c', w')"
  shows "kept pd mb a' c' w'"
proof (cases "rw_msgHasData v")
  case True
  then have "0 < rw_size v" using msg(4) by simp
  then show ?thesis using HookObjectWrite_effect [OF ok conn so msg(1,2) True _ msg(3) run] unfolding kept_def by metis
next
  case False
  let ?k = "oid_of (rw_objectId v)"
  obtain rw s where rw: "apply_struct ObjReadWriteInfos_applySerializerDef ''objReadWrite'' no_rw (rq_deserializer rq) = Inr (rw, s)"
    using run by (auto simp: HookObjectWrite_onMessage_def elim!: bindE_InrE)
  have d: "rw_objectId rw = rw_objectId v" "rw_offset rw = rw_offset v" "rw_size rw = rw_size v" "\<not> rw_msgHasData rw"
    using rw.holds_unpack [OF msg(1,2) TrueI rw] False by (simp_all add: ReadWrite_same_def)
  obtain ob ct1 st segs ob1 and w1 :: "'s world" where g: "getObject ?k (ap_container a) = Inr (ob, ct1)"
      "getBuffers fi so (rw_offset v) (rw_size v) ACCESS_WRITE True True ob w = Inr (st, segs, ob1, w1)"
    using run d by (auto simp: HookObjectWrite_onMessage_def rw Let_def elim!: bindE_InrE)
  note O = container_object [OF ok g(1)]
  have lim: "rw_offset v + rw_size v + obj_alignement ob < W64" "rw_offset v + rw_size v < W64" using msg(3) O(3) by simp_all
  have ct: "container_ok X mb w1 (put_object ?k ob1 ct1)" by (rule O(4) [OF getBuffers_step(1) [OF O(1,2) so lim(1) g(2)]])
  obtain base bn where al: "align_range (obj_alignement ob) (rw_offset v) (rw_size v) = (base, bn)" by force
  have st: st
    using getBuffers_effect(4) [OF _ _ O(2) so al lim(1) g(2)] O(1) unfolding object_inv_def by blast
  obtain a1 c1 ob2 where r: "objRdmaFetchFromClient (rq_lfClientId rq) rw segs a c w1 = Inr (a1, c1)" "markDirty (rw_offset v) (rw_size v) ob1 w1 = Inr ob2"
      "repostReceive (rq_msgBufferId rq) c1 = Inr c'" "w' = w1" "ap_container a' = put_object ?k ob2 ct1"
    using run d g st by (auto simp: HookObjectWrite_onMessage_def rw terminate_def Let_def elim!: bindE_InrE)
  note M = markDirty_container(1) [OF ct r(2) lim(2)]
  show ?thesis using M fetch_keeps(1) [OF conn r(1)] conn_ok_repost [OF _ r(3)] r(4,5) unfolding kept_def by metis
qed

end
