(* ===== verification/Polling.thy ===== *)
theory Polling
  imports Hook_Invariant
begin

text \<open>
  The polling loop of the connection: consuming a completion gives its message buffer back to
  the pool and keeps the count of pending operations exact; a received message reaches its hook.
  The contract between the loop and the callbacks of the server is the locale \<open>server_callbacks\<close>.
\<close>

section \<open>Consuming a completion\<close>

lemma conn_ok_net: "conn_ok pd X c \<Longrightarrow> net_ok pd X c"
  by (simp add: conn_ok_def)

text \<open>The buffer of an operation whose completion was taken is in nobody's hands.\<close>

lemma pop_done:
  assumes conn: "conn_ok pd X c" and p: "pollForCompletion True c = (Some (CqDone ctx), c')"
  shows "\<exists>F. conn_ok (pd\<lparr>nc_held := Suc (nc_held pd), nc_foreign := F\<rparr>) X c' \<and>
    (case buffers_of [ctx] of [] \<Rightarrow> F = nc_foreign pd
     | p # _ \<Rightarrow> \<exists>k xs. p = Ptr k 0 \<and> fr_data X k = Some xs \<and> length xs = fr_msgBufferSize X \<and> nc_foreign pd k = None \<and>
         F = (nc_foreign pd)(k \<mapsto> xs))"
proof -
  note P = pollForCompletion_effect [OF p]
  have comp: "completions c = CqDone ctx # completions c'" using P(3) by simp
  have ops: "fb_ops (lc_fabric c') = fb_ops (lc_fabric c)" "same_settings c c'" "lc_pendingAction c' = lc_pendingAction c"
    using P(1) by (auto simp: same_posted_def)
  have pend: "pending_count c = Suc (pending_count c')" using comp ops(1) by (simp add: pending_count_def)
  have fl: "mset (inflight c) = mset (buffers_of [ctx] @ inflight c')"
    by (cases ctx) (simp_all add: inflight_def comp ops(1))
  have N: "msg_buffers_ok X (buffers_of [ctx] @ inflight c')" "foreign_ok (nc_foreign pd) X (inflight c)"
    "lc_pendingAction c = int (pending_count c + nc_held pd)" "\<And>op. op \<in> set (fb_ops (lc_fabric c)) \<Longrightarrow> send_intact X op"
    using conn msg_buffers_perm [OF fl] by (auto simp: conn_ok_def net_ok_def)
  have sets: "set (inflight c) = set (buffers_of [ctx] @ inflight c')" by (rule mset_eq_setD [OF fl])
  have rest: "conn_ok (pd\<lparr>nc_held := Suc (nc_held pd), nc_foreign := F\<rparr>) X c'"
    if "msg_buffers_ok X (inflight c')" "foreign_ok F X (inflight c')" for F
    using that conn N(3,4) pend ops same_settings_sel [OF ops(2)] by (auto simp: conn_ok_def net_ok_def)
  show ?thesis
  proof (cases "buffers_of [ctx]")
    case Nil
    then show ?thesis using rest [of "nc_foreign pd"] N(1,2) sets by (auto simp: foreign_ok_def)
  next
    case (Cons q qs)
    have qs: "qs = []" using Cons by (cases ctx) (auto split: if_splits)
    have m: "msg_buffers_ok X (q # inflight c')" using N(1) Cons qs by simp
    then obtain k xs where k: "q = Ptr k 0" "fr_data X k = Some xs" "length xs = fr_msgBufferSize X" "q \<notin> set (fr_msgBuffers X @ inflight c')"
      by (auto simp: msg_buffers_Cons)
    have nf: "nc_foreign pd k = None" using N(2) sets Cons k(1) by (auto simp: foreign_ok_def domIff)
    have "foreign_ok ((nc_foreign pd)(k \<mapsto> xs)) X (inflight c')"
      using N(2) sets Cons k by (auto simp: foreign_ok_def map_le_def)
    then show ?thesis using rest m k nf Cons by (auto simp: msg_buffers_Cons)
  qed
qed

lemma decr_pending_ok:
  assumes "conn_ok (pd\<lparr>nc_held := Suc n\<rparr>) X c"
  shows "\<exists>c'. decr_pending c = Inr c' \<and> conn_ok (pd\<lparr>nc_held := n\<rparr>) X c' \<and> same_settings c c'"
proof -
  let ?c = "c\<lparr>lc_pendingAction := lc_pendingAction c - 1\<rparr>"
  have pos: "lc_pendingAction c = int (pending_count c + Suc n)" using assms by (simp add: conn_ok_def net_ok_def)
  have "inflight ?c = inflight c" "pending_count ?c = pending_count c" by (simp_all add: inflight_def pending_count_def completions_def)
  then have "conn_ok (pd\<lparr>nc_held := n\<rparr>) X ?c" using assms pos by (auto simp: conn_ok_def net_ok_def)
  then show ?thesis using pos by (auto simp: decr_pending_def same_settings_def)
qed

text \<open>The destructor of a post action gives the buffer to the pool.\<close>

lemma return_buffer:
  assumes ok: "container_ok X mb w ct" and conn: "conn_ok pd X c" and F: "nc_foreign pd k = Some xs" "length xs = fr_msgBufferSize X"
    and r: "retMsgBuffer (Ptr k 0) (mem_domain (w_mem w)) = Inr dm"
  shows "\<exists>Z. container_ok Z mb (w_set_domain dm w) ct \<and> conn_ok (pd\<lparr>nc_foreign := (nc_foreign pd)(k := None)\<rparr>) Z c"
proof -
  let ?Z = "X\<lparr>fr_msgBuffers := ld_msgBuffers dm\<rparr>"
  have wok: "world_ok mb (ct_refs (ct_objects ct)) X w" by (rule container_okD(3) [OF ok])
  have fr: "fr_msgBuffers X = ld_msgBuffers (mem_domain (w_mem w))" using world_okD(6) [OF wok] by (simp add: frame_ok_def)
  have dm: "ld_msgBuffers dm = fr_msgBuffers X @ [Ptr k 0]" "ld_msgBufferSize dm = ld_msgBufferSize (mem_domain (w_mem w))"
    using r fr by (auto simp: retMsgBuffer_def)
  note W = world_set_domain [OF wok dm(2)]
  have fo: "foreign_ok (nc_foreign pd) X (inflight c)" and mb: "msg_buffers_ok X (inflight c)"
    using conn by (auto simp: conn_ok_def net_ok_def)
  have d: "fr_data X k = Some xs" "Ptr k 0 \<notin> set (fr_msgBuffers X @ inflight c)"
    using fo F(1) by (auto simp: foreign_ok_def map_le_def dom_def)
  have "msg_buffers_ok ?Z (inflight c)" using mb d F(2) dm(1) by (auto simp: msg_buffers_ok_def)
  moreover have "foreign_ok ((nc_foreign pd)(k := None)) ?Z (inflight c)"
    using fo dm(1) by (auto simp: foreign_ok_def map_le_def)
  moreover have "send_intact ?Z op" if "op \<in> set (fb_ops (lc_fabric c))" for op
    using conn that send_intact_mono [of X op ?Z] by (auto simp: conn_ok_def net_ok_def)
  ultimately have "conn_ok (pd\<lparr>nc_foreign := (nc_foreign pd)(k := None)\<rparr>) ?Z c"
    using conn by (auto simp: conn_ok_def net_ok_def)
  then show ?thesis using container_memory(1) [OF ok W] by blast
qed

section \<open>Received messages\<close>

lemma receive_keeps:
  fixes w :: "'s world"
  assumes k: "kept pd mb a c w" and p: "pollForCompletion True c = (Some (CqRecv i), c')"
  shows "kept pd mb a c' w"
proof -
  obtain X where X: "container_ok X mb w (ap_container a)" "conn_ok pd X c" using k by (auto simp: kept_def)
  note P = pollForCompletion_effect [OF p]
  have comp: "completions c = CqRecv i # completions c'" using P(3) by simp
  have s: "fb_ops (lc_fabric c') = fb_ops (lc_fabric c)" "same_settings c c'" "lc_pendingAction c' = lc_pendingAction c"
    using P(1) by (auto simp: same_posted_def)
  have "inflight c' = inflight c" "pending_count c' = pending_count c" by (simp_all add: inflight_def pending_count_def comp s(1))
  then have "conn_ok pd X c'" using X(2) s same_settings_sel [OF s(2)] by (simp add: conn_ok_def net_ok_def)
  then show ?thesis using X(1) by (auto simp: kept_def)
qed

lemma nothing_keeps:
  assumes k: "kept pd mb a c w" and p: "pollForCompletion True c = (None, c')"
  shows "kept pd mb a c' w"
proof -
  note P = pollForCompletion_effect [OF p]
  have comp: "completions c = completions c'" using P(3) by simp
  have s: "fb_ops (lc_fabric c') = fb_ops (lc_fabric c)" "same_settings c c'" "lc_pendingAction c' = lc_pendingAction c"
    using P(1) by (auto simp: same_posted_def)
  have "inflight c' = inflight c" "pending_count c' = pending_count c" by (simp_all add: inflight_def pending_count_def comp s(1))
  then have "conn_ok pd X c'" if "conn_ok pd X c" for X
    using that s same_settings_sel [OF s(2)] by (simp add: conn_ok_def net_ok_def)
  then show ?thesis using k by (auto simp: kept_def)
qed

lemma send_kept:
  fixes w :: "'s world"
  assumes "kept pd mb a c w" "sendMessage fi t dst A d body c w = Inr (c', w')"
  shows "kept pd mb a c' w'" "same_settings c c'"
proof -
  obtain X where X: "container_ok X mb w (ap_container a)" "conn_ok pd X c" using assms(1) by (auto simp: kept_def)
  show "kept pd mb a c' w'" using send_keeps [OF X assms(2)] unfolding kept_def by metis
  show "same_settings c c'"
    using sendMessage_effect [OF container_okD(3) [OF X(1)] conn_ok_net [OF X(2)] assms(2)] by (metis posted_def)
qed

lemma repost_kept: "kept pd mb a c w \<Longrightarrow> repostReceive i c = Inr c' \<Longrightarrow> kept pd mb a c' w"
  unfolding kept_def using conn_ok_repost by blast

lemma kept_settings:
  "kept pd mb a c w \<Longrightarrow> kept pd mb a (c\<lparr>lc_nextEndpointId := n, lc_remoteLiAddr := m\<rparr>) w"
  "kept pd mb a c w \<Longrightarrow> kept pd mb a (c\<lparr>lc_hookOnEndpointConnect := calls\<rparr>) w"
  by (auto simp: kept_def conn_ok_def net_ok_def inflight_def pending_count_def completions_def)

lemma onConnInit_keeps:
  fixes w :: "'s world"
  assumes k: "kept pd mb a c w" and r: "onConnInit fi eo rq c w = Inr (c', w')"
  shows "kept pd mb a c' w'"
proof -
  obtain n m t dst A d body c1 calls where
    s: "sendMessage fi t dst A (d :: LibfabricFirstHandshake) body (c\<lparr>lc_nextEndpointId := n, lc_remoteLiAddr := m\<rparr>) w = Inr (c1, w')"
    and t: "repostReceive (rq_msgBufferId rq) (c1\<lparr>lc_hookOnEndpointConnect := calls\<rparr>) = Inr c'"
    using r by (auto simp: onConnInit_def sendMessageNoPollWakeup_def terminate_def Let_def elim!: bindE_InrE split: prod.splits)
  show ?thesis by (rule repost_kept [OF kept_settings(2) [OF send_kept(1) [OF kept_settings(1) [OF k] s]] t])
qed

definition message_accepted ::
  "(server_hook \<Rightarrow> LibfabricClientRequest \<Rightarrow> app \<Rightarrow> bool) \<Rightarrow> nat \<Rightarrow> app \<Rightarrow> server_connection \<Rightarrow> bool" where
  "message_accepted accepts i a c \<longleftrightarrow> (\<forall>h s hk. receive_header i c = Inr (h, s) \<longrightarrow>
     sm_find (lc_hooks c) (mh_msgType h) = Some hk \<longrightarrow> (\<exists>u. hk = UserHook u \<and>
       accepts u \<lparr>rq_lfClientId = mh_lfClientId h, rq_msgBufferId = i, rq_header = h, rq_deserializer = s\<rparr> a))"

section \<open>Callbacks\<close>

text \<open>
  What the loop relies on: a hook that gets a message it accepts, and a lambda function, keep the
  invariant and give the context of the connection back as they got it.
\<close>

locale server_callbacks =
  fixes run_hook :: "(server_hook \<times> LibfabricClientRequest, app, server_hook, server_fun, 's) callback"
    and run_fun :: "(server_fun, app, server_hook, server_fun, 's) callback"
    and accepts :: "server_hook \<Rightarrow> LibfabricClientRequest \<Rightarrow> app \<Rightarrow> bool"
    and mb :: nat
  assumes hook_keeps: "kept pd mb a c w \<Longrightarrow> accepts u rq a \<Longrightarrow> run_hook (u, rq) a c w = Inr (res, a', c', w') \<Longrightarrow> kept pd mb a' c' w'"
    and fun_keeps: "kept pd mb a c w \<Longrightarrow> run_fun f a c w = Inr (res, a', c', w') \<Longrightarrow> kept pd mb a' c' w'"
begin

lemma done_keeps:
  assumes k: "kept pd mb a c w" and p: "pollForCompletion True c = (Some (CqDone (Some act)), c1)"
    and r: "runPostAction run_fun act a c1 w = Inr (res, a2, c2, w2)" and f: "freeBuffer act c2 w2 = Inr (c3, w3)"
    and d: "decr_pending c3 = Inr c4"
  shows "kept pd mb a2 c4 w3"
proof -
  obtain X where X: "container_ok X mb w (ap_container a)" "conn_ok pd X c" using k by (auto simp: kept_def)
  obtain F where F: "conn_ok (pd\<lparr>nc_held := Suc (nc_held pd), nc_foreign := F\<rparr>) X c1"
    "case buffers_of [Some act] of [] \<Rightarrow> F = nc_foreign pd
     | p # _ \<Rightarrow> \<exists>k xs. p = Ptr k 0 \<and> fr_data X k = Some xs \<and> length xs = fr_msgBufferSize X \<and> nc_foreign pd k = None \<and>
         F = (nc_foreign pd)(k \<mapsto> xs)"
    using pop_done [OF X(2) p] by blast
  let ?pd = "pd\<lparr>nc_held := Suc (nc_held pd), nc_foreign := F\<rparr>"
  have "kept ?pd mb a c1 w" using X(1) F(1) by (auto simp: kept_def)
  then have "kept ?pd mb a2 c2 w2"
    using r fun_keeps by (auto simp: runPostAction_def split: action_body.splits)
  then obtain Z where Z: "container_ok Z mb w2 (ap_container a2)" "conn_ok ?pd Z c2" by (auto simp: kept_def)
  have "\<exists>Y. container_ok Y mb w3 (ap_container a2) \<and> conn_ok (pd\<lparr>nc_held := Suc (nc_held pd)\<rparr>) Y c3"
  proof (cases "pa_domainBuffer act = NULL")
    case True
    then show ?thesis using Z F(2) f by (auto simp: freeBuffer_def)
  next
    case False
    then obtain q xs where q: "pa_domainBuffer act = Ptr q 0" "length xs = fr_msgBufferSize X" "nc_foreign pd q = None"
        "F = (nc_foreign pd)(q \<mapsto> xs)"
      using F(2) by auto
    obtain dm where dm: "retMsgBuffer (Ptr q 0) (mem_domain (w_mem w2)) = Inr dm" "w3 = w_set_domain dm w2"
        "c3 = c2 \<or> repostReceive (pa_bufferId act) c2 = Inr c3"
      using f False q(1) by (auto simp: freeBuffer_def w_set_domain_def elim!: bindE_InrE split: if_splits)
    have c3: "conn_ok ?pd Z c3" using dm(3) Z(2) conn_ok_repost by metis
    have sz: "fr_msgBufferSize X = fr_msgBufferSize Z" using F(1) Z(2) by (simp add: conn_ok_def net_ok_def)
    have "nc_foreign ?pd q = Some xs" using q(4) by simp
    from return_buffer [OF Z(1) c3 this _ dm(1)] show ?thesis using q(2,3,4) sz dm(2) by (simp add: fun_upd_idem)
  qed
  then obtain Y where Y: "container_ok Y mb w3 (ap_container a2)" "conn_ok (pd\<lparr>nc_held := Suc (nc_held pd)\<rparr>) Y c3" by blast
  have "conn_ok (pd\<lparr>nc_held := nc_held pd\<rparr>) Y c4" using decr_pending_ok [OF Y(2)] d by auto
  then show ?thesis using Y(1) by (auto simp: kept_def)
qed

lemma onRecv_keeps:
  assumes k: "kept pd mb a c w" and acc: "message_accepted accepts i a c" and r: "onRecv fi eo run_hook i a c w = Inr (res, a', c', w')"
  shows "kept pd mb a' c' w'"
proof -
  obtain h s where h: "receive_header i c = Inr (h, s)" using r by (auto simp: onRecv_def elim!: bindE_InrE)
  let ?rq = "\<lparr>rq_lfClientId = mh_lfClientId h, rq_msgBufferId = i, rq_header = h, rq_deserializer = s\<rparr>"
  have hook: "kept pd mb a' c' w'"
    if m: "kept pd mb a c1 w1" "sm_find (lc_hooks c) (mh_msgType h) = Some hk" "onMessage run_hook hk ?rq a c1 w1 = Inr (res, a', c', w')" for c1 w1 hk
  proof -
    obtain u where "hk = UserHook u" "accepts u ?rq a" using acc h m(2) unfolding message_accepted_def by blast
    then show ?thesis using m(1,3) hook_keeps by (simp add: onMessage_def)
  qed
  show ?thesis
  proof (cases "mh_msgType h = msg_code IOC_LF_MSG_CONNECT_INIT")
    case True
    then show ?thesis using r onConnInit_keeps [OF k] by (auto simp: onRecv_def h Let_def elim!: bindE_InrE)
  next
    case init: False
    show ?thesis
    proof (cases "mh_msgType h = msg_code IOC_LF_MSG_BAD_AUTH")
      case True
      then show ?thesis using r init repost_kept [OF k]
        by (auto simp: onRecv_def h Let_def terminate_def elim!: bindE_InrE split: option.splits)
    next
      case auth: False
      show ?thesis
      proof (cases "mh_msgType h = msg_code IOC_LF_MSG_FATAL_ERROR")
        case True
        then show ?thesis using r init auth hook [OF k]
          by (auto simp: onRecv_def h Let_def elim!: bindE_InrE split: option.splits)
      next
        case False
        obtain ok c1 w1 where ca: "checkAuth fi h (mh_lfClientId h) i c w = Inr (ok, c1, w1)"
          using r init auth False by (auto simp: onRecv_def h Let_def elim!: bindE_InrE)
        have c1: "kept pd mb a c1 w1 \<and> same_settings c c1"
          using ca k send_kept [OF k] by (auto simp: checkAuth_def sendResponse_def elim!: bindE_InrE split: if_splits)
        then have "lc_hooks c1 = lc_hooks c" using same_settings_sel(5) by blast
        then show ?thesis using r init auth False ca c1 hook
          by (auto simp: onRecv_def h Let_def elim!: bindE_InrE split: if_splits option.splits)
      qed
    qed
  qed
qed

text \<open>The message of the next completion, when there is one, is acceptable.\<close>

definition next_accepted :: "app \<Rightarrow> server_connection \<Rightarrow> bool" where
  "next_accepted a c \<longleftrightarrow> (\<forall>i c'. pollForCompletion True c = (Some (CqRecv i), c') \<longrightarrow> message_accepted accepts i a c')"

lemma poll_round_keeps:
  assumes k: "kept pd mb a c w" and acc: "next_accepted a c" and r: "poll_round fi eo run_hook run_fun a c w = Inr (stop, a', c', w')"
  shows "kept pd mb a' c' w'"
proof -
  obtain e c1 where p: "pollForCompletion True c = (e, c1)" by force
  show ?thesis
  proof (cases e)
    case None
    then show ?thesis using r p nothing_keeps [OF k] by (simp add: poll_round_def)
  next
    case (Some e')
    show ?thesis
    proof (cases e')
      case (CqRecv i)
      have k1: "kept pd mb a c1 w" by (rule receive_keeps [OF k p [unfolded Some CqRecv]])
      have "message_accepted accepts i a c1" using acc p Some CqRecv by (simp add: next_accepted_def)
      then show ?thesis using r p Some CqRecv k1 onRecv_keeps [OF k1]
        by (auto simp: poll_round_def elim!: bindE_InrE split: if_splits)
    next
      case (CqDone ctx)
      show ?thesis
      proof (cases ctx)
        case None
        obtain X where X: "container_ok X mb w (ap_container a)" "conn_ok pd X c" using k by (auto simp: kept_def)
        have "conn_ok (pd\<lparr>nc_held := Suc (nc_held pd)\<rparr>) X c1" using pop_done [OF X(2) p [unfolded Some CqDone None]] by auto
        from decr_pending_ok [OF this] show ?thesis
          using r p Some CqDone None X(1) by (auto simp: poll_round_def kept_def)
      next
        case act: (Some act)
        then show ?thesis using r p Some CqDone done_keeps [OF k p [unfolded Some CqDone act]]
          by (auto simp: poll_round_def elim!: bindE_InrE)
      qed
    qed
  qed
qed

end

section \<open>The callbacks of the server\<close>

definition server_accepts :: "'s storage_ops \<Rightarrow> 's storage_content \<Rightarrow> server_hook \<Rightarrow> LibfabricClientRequest \<Rightarrow> app \<Rightarrow> bool" where
  "server_accepts so content u rq a \<longleftrightarrow> storage_ok so content \<and> (\<exists>r. u = request_hook r \<and>
     holds_message (rq_deserializer rq) (request_wire r) \<and> request_ok (ct_objectSegmentsAlignement (ap_container a)) r)"

lemma run_hook_keeps:
  fixes w :: "'s world"
  assumes k: "kept pd mb a c w" and acc: "server_accepts so content u rq a" and r: "run_hook fi so (u, rq) a c w = Inr (res, a', c', w')"
  shows "kept pd mb a' c' w'"
proof -
  obtain X where X: "container_ok X mb w (ap_container a)" "conn_ok pd X c" using k by (auto simp: kept_def)
  obtain q where so: "storage_ok so content" and q: "u = request_hook q" "holds_message (rq_deserializer rq) (request_wire q)"
      "request_ok (ct_objectSegmentsAlignement (ap_container a)) q"
    using acc by (auto simp: server_accepts_def)
  show ?thesis
  proof (cases q)
    case (FlushRequest v)
    then show ?thesis using r q flush_hook_keeps [OF X so] by (simp add: run_hook_def)
  next
    case (CreateRequest v)
    then show ?thesis using r q create_hook_keeps [OF X] by (simp add: run_hook_def)
  next
    case (CowRequest v)
    then show ?thesis using r q cow_hook_keeps [OF X so] by (simp add: run_hook_def)
  next
    case (RegisterRequest v)
    then show ?thesis using r q by (intro range_hooks_keep [OF X, of fi rq res]) (simp add: run_hook_def)
  next
    case (UnregisterRequest v)
    then show ?thesis using r q by (intro range_hooks_keep [OF X, of fi rq res]) (simp add: run_hook_def)
  next
    case (ReadRequest v)
    then show ?thesis using r q read_hook_keeps [OF X so] by (simp add: run_hook_def)
  next
    case (WriteRequest v)
    then show ?thesis using r q write_hook_keeps [OF X so] by (simp add: run_hook_def)
  qed
qed

lemma kept_app: "ap_container a' = ap_container a \<Longrightarrow> kept pd mb a' c w = kept pd mb a c w"
  by (simp add: kept_def)

lemma run_fun_keeps:
  fixes w :: "'s world"
  assumes k: "kept pd mb a c w" and r: "run_fun fi f a c w = Inr (res, a', c', w')"
  shows "kept pd mb a' c' w'"
proof -
  have T: "kept pd mb a' c' w'" if t: "transfer_done fi account ops client a c w = Inr (res, a', c', w')" for account ops client
  proof -
    have "(\<exists>t dst A d body. sendMessage fi t dst A (d :: LibfabricResponse) body c w = Inr (c', w')) \<or> c' = c \<and> w' = w"
        and a': "ap_container a' = ap_container a"
      using t by (auto simp: transfer_done_def sendResponse_def elim!: bindE_InrE split: option.splits if_splits)
    then have "kept pd mb a c' w'" by (elim disjE exE) (erule send_kept(1) [OF k], simp add: k)
    then show ?thesis using kept_app [OF a'] by blast
  qed
  have P: "kept pd mb a' c' w'" if p: "ping_fetched fi client i n a c w = Inr (res, a', c', w')" for client i n
  proof -
    obtain t dst A d body c1 where "sendMessage fi t dst A (d :: LibfabricResponse) body c w = Inr (c1, w')" "repostReceive i c1 = Inr c'" "a' = a"
      using p by (auto simp: ping_fetched_def sendResponse_def elim!: bindE_InrE)
    then show ?thesis using repost_kept [OF send_kept(1) [OF k]] by simp
  qed
  show ?thesis using r T P by (cases f) (simp_all add: run_fun_def)
qed

interpretation callbacks: server_callbacks "run_hook fi so" "run_fun fi" "server_accepts so content" mb
  for fi and so :: "'s storage_ops" and content mb
  by unfold_locales (erule (2) run_hook_keeps, erule (1) run_fun_keeps)

end
