(* ===== verification/Config.thy ===== *)
theory Config
  imports IOC_Prelude
begin

text \<open>
  The configuration of the server (src/server/core/Config.hpp and .cpp).  \<open>argp_parse\<close> of the C
  library calls \<open>parseOptions\<close> for every option and argument it finds; the calls it makes are the
  argument of \<open>parseArgs\<close>.
\<close>

section \<open>Data and operations\<close>

record config =
  cf_listenIP :: string
  cf_nvdimmMountPath :: "string list"
  cf_meroRcFile :: string
  cf_consistencyCheck :: bool
  cf_clientAuth :: bool
  cf_activePolling :: bool
  cf_broadcastErrorToClients :: bool

definition Config_init :: config where
  "Config_init = \<lparr>cf_listenIP = '''', cf_nvdimmMountPath = [], cf_meroRcFile = ''mero_ressource_file.rc'',
     cf_consistencyCheck = True, cf_clientAuth = True, cf_activePolling = True, cf_broadcastErrorToClients = False\<rparr>"

definition initForUnitTests :: "config \<Rightarrow> config" where
  "initForUnitTests cfg = cfg\<lparr>cf_listenIP := ''127.0.0.1'', cf_activePolling := True\<rparr>"

text \<open>\<open>std::string::find\<close> from a position.\<close>

definition find_from :: "char \<Rightarrow> string \<Rightarrow> nat \<Rightarrow> nat option" where
  "find_from ch str pos = (case dropWhile (\<lambda>i. str ! i \<noteq> ch) [pos..<length str] of [] \<Rightarrow> None | i # _ \<Rightarrow> Some i)"

lemma find_from_Some: "find_from ch str pos = Some p \<Longrightarrow> pos \<le> p \<and> p < length str \<and> str ! p = ch"
proof -
  assume "find_from ch str pos = Some p"
  then obtain l where d: "dropWhile (\<lambda>i. str ! i \<noteq> ch) [pos..<length str] = p # l"
    by (auto simp: find_from_def split: list.splits)
  then have "p \<in> set [pos..<length str]" by (metis list.set_intros(1) set_dropWhileD)
  moreover have "\<not> str ! p \<noteq> ch" using hd_dropWhile [of "\<lambda>i. str ! i \<noteq> ch" "[pos..<length str]"] d by simp
  ultimately show ?thesis by simp
qed

function splitToVector_loop :: "string \<Rightarrow> nat \<Rightarrow> nat \<Rightarrow> string list \<Rightarrow> string list" where
  "splitToVector_loop str prev_pos pos out = (case find_from CHR '','' str pos of
     None \<Rightarrow> out @ [drop prev_pos str]
   | Some p \<Rightarrow>
       let substring = take (p - prev_pos) (drop prev_pos str) in
       splitToVector_loop str (p + 1) (p + 1) (if substring \<noteq> [] then out @ [substring] else out))"
  by pat_completeness auto
termination
  by (relation "measure (\<lambda>(str, prev_pos, pos, out). length str - pos)") (auto dest!: find_from_Some)

declare splitToVector_loop.simps [simp del]

definition splitToVector :: "string \<Rightarrow> string list" where
  "splitToVector str = splitToVector_loop str 0 0 []"

text \<open>A call of \<open>parseOptions\<close>: an option with its value, a plain argument, the end without arguments, or another key.\<close>

datatype argp_call = Option char string | Argument string | NoArguments | OtherKey

text \<open>\<open>None\<close> is the exit of \<open>argp_usage\<close>; the flag is false for \<open>ARGP_ERR_UNKNOWN\<close>.  Option v
  only selects the messages that are printed (\<open>setVerbosity\<close> of theory Debug_Messages, \<open>enableAll\<close> without a value) and leaves the configuration alone.\<close>

fun parseOptions :: "argp_call \<Rightarrow> config \<Rightarrow> (bool \<times> config) option" where
  "parseOptions (Option key arg) cfg =
     (if key = CHR ''n'' then Some (True, cfg\<lparr>cf_nvdimmMountPath := splitToVector arg\<rparr>)
      else if key = CHR ''l'' then Some (True, cfg\<lparr>cf_listenIP := arg\<rparr>)
      else if key = CHR ''c'' then Some (True, cfg\<lparr>cf_consistencyCheck := False\<rparr>)
      else if key = CHR ''p'' then Some (True, cfg\<lparr>cf_activePolling := True\<rparr>)
      else if key = CHR ''a'' then Some (True, cfg\<lparr>cf_clientAuth := False\<rparr>)
      else if key = CHR ''m'' then Some (True, cfg\<lparr>cf_meroRcFile := arg\<rparr>)
      else if key = CHR ''v'' then Some (True, cfg)
      else Some (False, cfg))"
| "parseOptions NoArguments cfg = None"
| "parseOptions (Argument arg) cfg = (if cf_listenIP cfg = '''' then Some (True, cfg\<lparr>cf_listenIP := arg\<rparr>) else None)"
| "parseOptions OtherKey cfg = Some (False, cfg)"

fun parse_calls :: "argp_call list \<Rightarrow> config \<Rightarrow> config option" where
  "parse_calls [] cfg = Some cfg"
| "parse_calls (k # ks) cfg = (case parseOptions k cfg of None \<Rightarrow> None | Some (_, cfg) \<Rightarrow> parse_calls ks cfg)"

definition parseArgs :: "argp_call list \<Rightarrow> config \<Rightarrow> config option" where
  "parseArgs calls cfg = (case parse_calls calls cfg of
     None \<Rightarrow> None
   | Some cfg \<Rightarrow> if cf_listenIP cfg = '''' then None else Some cfg)"

section \<open>Splitting a list of paths\<close>

text \<open>The reference: the maximal parts without a comma.\<close>

fun comma_parts :: "string \<Rightarrow> string list" where
  "comma_parts [] = [[]]"
| "comma_parts (x # xs) = (if x = CHR '','' then [] # comma_parts xs
     else case comma_parts xs of [] \<Rightarrow> [[x]] | p # ps \<Rightarrow> (x # p) # ps)"

lemma comma_parts_ne: "comma_parts xs \<noteq> []"
  by (induction xs) (auto split: list.splits)

lemma comma_parts_no_comma: "CHR '','' \<notin> set xs \<Longrightarrow> comma_parts xs = [xs]"
  by (induction xs) auto

lemma comma_parts_comma: "CHR '','' \<notin> set xs \<Longrightarrow> comma_parts (xs @ CHR '','' # ys) = xs # comma_parts ys"
  by (induction xs) (auto split: list.splits)

lemma find_from_least:
  "find_from ch str pos = Some p \<Longrightarrow> pos \<le> i \<Longrightarrow> i < p \<Longrightarrow> str ! i \<noteq> ch"
  "find_from ch str pos = None \<Longrightarrow> pos \<le> i \<Longrightarrow> i < length str \<Longrightarrow> str ! i \<noteq> ch"
proof -
  let ?P = "\<lambda>i. str ! i \<noteq> ch" and ?l = "[pos..<length str]"
  show "str ! i \<noteq> ch" if f: "find_from ch str pos = Some p" and i: "pos \<le> i" "i < p"
  proof -
    obtain l where d: "dropWhile ?P ?l = p # l" using f by (auto simp: find_from_def split: list.splits)
    have "takeWhile ?P ?l @ p # l = ?l" using takeWhile_dropWhile_id [of ?P ?l] d by simp
    then have "sorted_wrt (<) (takeWhile ?P ?l @ p # l)" "i \<in> set (takeWhile ?P ?l @ p # l)"
      using i find_from_Some [OF f] by simp_all
    then have "i \<in> set (takeWhile ?P ?l)" using i(2) by (auto simp: sorted_wrt_append)
    then show ?thesis by (auto dest: set_takeWhileD)
  qed
  show "str ! i \<noteq> ch" if "find_from ch str pos = None" "pos \<le> i" "i < length str"
    using that by (auto simp: find_from_def dropWhile_eq_Nil_conv split: list.splits)
qed

lemma split_loop_parts:
  "pos \<le> length str \<Longrightarrow> splitToVector_loop str pos pos out =
     out @ filter (\<lambda>p. p \<noteq> []) (butlast (comma_parts (drop pos str))) @ [last (comma_parts (drop pos str))]"
proof (induction "length str - pos" arbitrary: pos out rule: less_induct)
  case less
  show ?case
  proof (cases "find_from CHR '','' str pos")
    case None
    have "CHR '','' \<notin> set (drop pos str)"
    proof
      assume "CHR '','' \<in> set (drop pos str)"
      then obtain j where "j < length str - pos" "str ! (pos + j) = CHR '',''" using less.prems by (auto simp: in_set_conv_nth)
      then show False using find_from_least(2) [OF None, of "pos + j"] by simp
    qed
    then show ?thesis using None by (simp add: splitToVector_loop.simps comma_parts_no_comma)
  next
    case (Some p)
    have p: "pos \<le> p" "p < length str" "str ! p = CHR '',''" using find_from_Some [OF Some] by auto
    let ?a = "take (p - pos) (drop pos str)"
    have a: "CHR '','' \<notin> set ?a"
    proof
      assume "CHR '','' \<in> set ?a"
      then obtain j where "j < p - pos" "str ! (pos + j) = CHR '',''" using p by (auto simp: in_set_conv_nth)
      then show False using find_from_least(1) [OF Some, of "pos + j"] by simp
    qed
    have "drop (p - pos) (drop pos str) = CHR '','' # drop (p + 1) str"
      using p Cons_nth_drop_Suc [of p str] by simp
    then have "drop pos str = ?a @ CHR '','' # drop (p + 1) str" by (metis append_take_drop_id)
    then have parts: "comma_parts (drop pos str) = ?a # comma_parts (drop (p + 1) str)" using comma_parts_comma [OF a] by metis
    have IH: "splitToVector_loop str (p + 1) (p + 1) out =
        out @ filter (\<lambda>p. p \<noteq> []) (butlast (comma_parts (drop (p + 1) str))) @ [last (comma_parts (drop (p + 1) str))]" for out
      by (rule less.hyps) (use p in auto)
    show ?thesis
      by (subst splitToVector_loop.simps) (use Some parts IH comma_parts_ne in \<open>simp add: Let_def\<close>)
  qed
qed

text \<open>
  The list of directories given to an option is the parts between its commas: empty parts
  are dropped, except that the part after the last comma is kept even when it is empty.
\<close>

theorem splitToVector_parts:
  "splitToVector str = filter (\<lambda>p. p \<noteq> []) (butlast (comma_parts str)) @ [last (comma_parts str)]"
  using split_loop_parts [of 0 str "[]"] by (simp add: splitToVector_def)

section \<open>Options\<close>

definition given :: "char \<Rightarrow> argp_call list \<Rightarrow> bool" where
  "given key calls \<longleftrightarrow> (\<exists>arg. Option key arg \<in> set calls)"

lemma parse_calls_flags:
  "parse_calls calls cfg = Some cfg' \<Longrightarrow> cf_activePolling cfg \<Longrightarrow> cf_activePolling cfg' \<and>
     cf_clientAuth cfg' = (cf_clientAuth cfg \<and> \<not> given CHR ''a'' calls) \<and>
     cf_consistencyCheck cfg' = (cf_consistencyCheck cfg \<and> \<not> given CHR ''c'' calls)"
proof (induction calls arbitrary: cfg)
  case (Cons k ks)
  obtain b cfg1 where p: "parseOptions k cfg = Some (b, cfg1)" "parse_calls ks cfg1 = Some cfg'"
    using Cons.prems(1) by (auto split: option.splits)
  have k: "cf_activePolling cfg1" "cf_clientAuth cfg1 = (cf_clientAuth cfg \<and> (\<forall>arg. k \<noteq> Option CHR ''a'' arg))"
    "cf_consistencyCheck cfg1 = (cf_consistencyCheck cfg \<and> (\<forall>arg. k \<noteq> Option CHR ''c'' arg))"
    using p(1) Cons.prems(2) by (cases k; auto split: if_splits)+
  show ?case using Cons.IH [OF p(2) k(1)] k by (auto simp: given_def)
qed (simp add: given_def)

text \<open>
  Whatever the command line, the server authenticates its clients unless the option \<open>a\<close> is
  given, checks consistency unless \<open>c\<close> is given, and polls actively: the option \<open>p\<close> sets what is
  already the default, so that passive polling cannot be chosen.
\<close>

theorem parsed_options:
  assumes "parseArgs calls Config_init = Some cfg"
  shows "cf_activePolling cfg \<and> cf_clientAuth cfg = (\<not> given CHR ''a'' calls) \<and>
    cf_consistencyCheck cfg = (\<not> given CHR ''c'' calls) \<and> cf_listenIP cfg \<noteq> ''''"
  using assms parse_calls_flags [of calls Config_init cfg]
  by (auto simp: parseArgs_def Config_init_def split: option.splits if_splits)

theorem parsed_options_witness:
  "\<exists>cfg. parseArgs [Option CHR ''a'' '''', Option CHR ''n'' ''/pmem0,,/pmem1,'', Argument ''10.0.0.1''] Config_init = Some cfg \<and>
     cf_activePolling cfg \<and> \<not> cf_clientAuth cfg \<and> cf_consistencyCheck cfg \<and> cf_nvdimmMountPath cfg = [''/pmem0'', ''/pmem1'', '''']"
proof -
  let ?calls = "[Option CHR ''a'' '''', Option CHR ''n'' ''/pmem0,,/pmem1,'', Argument ''10.0.0.1'']"
  have sp: "splitToVector ''/pmem0,,/pmem1,'' = [''/pmem0'', ''/pmem1'', '''']"
    using split_loop_parts [of 0 "''/pmem0,,/pmem1,''" "[]"] by (simp add: splitToVector_def)
  obtain cfg where r: "parseArgs ?calls Config_init = Some cfg" "cf_nvdimmMountPath cfg = [''/pmem0'', ''/pmem1'', '''']"
    by (simp add: parseArgs_def sp Config_init_def)
  have "given CHR ''a'' ?calls" "\<not> given CHR ''c'' ?calls" by (auto simp: given_def)
  then show ?thesis using parsed_options [OF r(1)] r by blast
qed

end
