(* ===== verification/Server.thy ===== *)
theory Server
  imports Polling Config
begin

text \<open>
  The server (src/server/core/Server.hpp and .cpp): construction, backends, the connection and
  disconnection of TCP clients, polling.  The TCP thread and the statistics thread run beside the
  polling thread; their operations on the shared state are steps of their own (theory \<open>Server_Inv\<close>).
\<close>

section \<open>State\<close>

text \<open>\<open>sv_cntConnections\<close> is the counter of the TCP thread, \<open>sv_tcpServer\<close> says that the pointer to its server is not null; the handler
  before an abort is installed or not.\<close>

record 's server =
  sv_app :: app
  sv_connection :: server_connection
  sv_world :: "'s world"
  sv_memoryBackend :: nat
  sv_cntConnections :: nat
  sv_pollRunning :: bool
  sv_statsRunning :: bool
  sv_tcpServer :: bool
  sv_beforeAbort :: bool

section \<open>Construction\<close>

definition server_hooks :: "(LibfabricMessageType \<times> server_hook) list" where
  "server_hooks = [(IOC_LF_MSG_PING, HookPingPong), (IOC_LF_MSG_OBJ_FLUSH, HookFlush),
     (IOC_LF_MSG_OBJ_RANGE_REGISTER, HookRangeRegister), (IOC_LF_MSG_OBJ_RANGE_UNREGISTER, HookRangeUnregister),
     (IOC_LF_MSG_OBJ_CREATE, HookObjectCreate), (IOC_LF_MSG_OBJ_READ, HookObjectRead),
     (IOC_LF_MSG_OBJ_WRITE, HookObjectWrite), (IOC_LF_MSG_OBJ_COW, HookObjectCow)]"

definition server_receiveSize :: size_t where "server_receiveSize = 1024 * 1024"
definition server_alignement :: size_t where "server_alignement = 8 * 1024 * 1024"

text \<open>The world holds the fresh domain; \<open>junk\<close> is the content of the fresh receive buffers.\<close>

definition Server_init :: "config \<Rightarrow> (nat \<Rightarrow> byte) \<Rightarrow> 's world \<Rightarrow> 's server result" where
  "Server_init cfg junk w =
     bindE (setMsgBufferSize IOC_POST_RECEIVE_READ (mem_domain (w_mem w))) (\<lambda>dom.
     bindE (assertE (IOC_POST_RECEIVE_WRITE < 1024 * 1024) ''IOC_POST_RECEIVE_WRITE < 1024*1024'') (\<lambda>_.
     bindE (postReceives junk server_receiveSize 128 (LibfabricConnection_init (\<not> cf_activePolling cfg))) (\<lambda>c.
     let c = (if cf_clientAuth cfg then setCheckClientAuth True c else c);
         w = w\<lparr>w_mem := (w_mem w)\<lparr>mem_domain := dom\<rparr>,
               w_backends := (w_backends w)(0 \<mapsto> MemoryBackendCache (MemoryBackendMalloc True) [] [])\<rparr>;
         c = foldl (\<lambda>c (t, h). registerHook (msg_code t) (UserHook h) c) c server_hooks
     in Inr \<lparr>sv_app = \<lparr>ap_container = Container_init False 0 server_alignement, ap_stats = ServerStats_init,
               ap_ping = HookPingPong_init, ap_consistencyCheck = cf_consistencyCheck cfg, ap_ops = (\<lambda>_. None), ap_nextOps = 0\<rparr>,
             sv_connection = c, sv_world = w, sv_memoryBackend = 0, sv_cntConnections = 0, sv_pollRunning = False,
             sv_statsRunning = False, sv_tcpServer = True, sv_beforeAbort = cf_broadcastErrorToClients cfg\<rparr>)))"

section \<open>Backends\<close>

definition Server_setStorageBackend :: "bool \<Rightarrow> 's server \<Rightarrow> 's server result" where
  "Server_setStorageBackend storageBackend s =
     bindE (Container_setStorageBackend storageBackend (ap_container (sv_app s))) (\<lambda>ct.
     Inr (s\<lparr>sv_app := (sv_app s)\<lparr>ap_container := ct\<rparr>\<rparr>))"

text \<open>The destructors of the memory backends.\<close>

fun cache_release :: "(ptr \<times> size_t) list \<Rightarrow> memory_backend \<Rightarrow> mem \<Rightarrow> (memory_backend \<times> mem) result" where
  "cache_release [] b m = Inr (b, m)"
| "cache_release ((p, n) # its) b m = bindE (deallocate p n b m) (\<lambda>(b, m). cache_release its b m)"

fun backend_depth :: "memory_backend \<Rightarrow> nat" where
  "backend_depth (MemoryBackendCache b fl rt) = Suc (backend_depth b)"
| "backend_depth (MemoryBackendBalance bs mems own) = Suc (sum_list (map backend_depth bs))"
| "backend_depth _ = 1"

lemma deallocate_depth: "deallocate p n b m = Inr (b', m') \<Longrightarrow> backend_depth b' = backend_depth b"
proof (induction p n b m arbitrary: b' m' rule: deallocate.induct)
  case (5 p n bs mems own m)
  obtain i sub' m1 where i: "i < length bs" "deallocate p n (bs ! i) m = Inr (sub', m1)" "sm_find own p = Some i" "p \<noteq> NULL" "0 < n"
      "b' = MemoryBackendBalance (bs[i := sub']) (mems[i := sub64 (mems ! i) n]) (sm_erase p own)"
    using "5.prems" by (auto elim!: bindE_InrE split: option.splits if_splits)
  have "backend_depth sub' = backend_depth (bs ! i)" using "5.IH" [of "()" "()" i] i by (simp add: assertE_def)
  then have "map backend_depth (bs[i := sub']) = map backend_depth bs" using i(1) by (simp add: map_update list_update_same_conv)
  then show ?case using i(6) by simp
qed (auto elim!: bindE_InrE)

lemma cache_release_depth: "cache_release its b m = Inr (b', m') \<Longrightarrow> backend_depth b' = backend_depth b"
  by (induction its b m rule: cache_release.induct) (fastforce elim!: bindE_InrE dest: deallocate_depth)+

function backend_destroy :: "memory_backend \<Rightarrow> mem \<Rightarrow> mem result" where
  "backend_destroy (MemoryBackendMalloc lf) m = Inr m"
| "backend_destroy (MemoryBackendNvdimm lf nv) m = bindE (assertE (nv_chunks nv = 0) ''chunks == 0'') (\<lambda>_. Inr m)"
| "backend_destroy (MemoryBackendNvdimmGrow lf ng) m = bindE (assertE (ng_chunks ng = 0) ''chunks == 0'') (\<lambda>_. Inr m)"
| "backend_destroy (MemoryBackendCache b freeLists rangesTracker) m =
     bindE (assertE (sum_list (map (\<lambda>(_, l). length l) freeLists) = length rangesTracker) ''cnt == this->rangesTracker.size()'') (\<lambda>_.
     bindE (cache_release rangesTracker b m) (\<lambda>(b, m). backend_destroy b m))"
| "backend_destroy (MemoryBackendBalance bs mems own) m = foldl (\<lambda>r b. bindE r (\<lambda>m. backend_destroy b m)) (Inr m) bs"
  by pat_completeness auto
termination
  by (relation "measure (\<lambda>(b, m). backend_depth b)")
    (auto dest: cache_release_depth simp: less_Suc_eq_le intro!: member_le_sum_list)

section \<open>Changing the memory backend\<close>

text \<open>The new backend gets the free identifier \<open>i\<close>; the old one is deleted although segments may refer to it.\<close>

definition Server_setMemoryBackend :: "nat \<Rightarrow> memory_backend \<Rightarrow> 's server \<Rightarrow> 's server result" where
  "Server_setMemoryBackend i memoryBackend s =
     bindE (Container_setMemoryBackend i (ap_container (sv_app s))) (\<lambda>ct.
     let old = sv_memoryBackend s; w = (sv_world s)\<lparr>w_backends := (w_backends (sv_world s))(i \<mapsto> memoryBackend)\<rparr> in
     case w_backends w old of
       None \<Rightarrow> Inl UseAfterFree
     | Some b \<Rightarrow>
         bindE (backend_destroy b (w_mem w)) (\<lambda>m.
         Inr (s\<lparr>sv_app := (sv_app s)\<lparr>ap_container := ct\<rparr>, sv_memoryBackend := i,
                sv_world := w\<lparr>w_mem := m, w_backends := (w_backends w)(old := None)\<rparr>\<rparr>)))"

definition nvdimm_init :: nvdimm where
  "nvdimm_init = \<lparr>nv_fileFD = 0, nv_fileSize = 0, nv_chunks = 0, nv_fileOffset = 0\<rparr>"

definition setNvdimm :: "nat \<Rightarrow> string list \<Rightarrow> 's server \<Rightarrow> 's server result" where
  "setNvdimm i nvdimmPaths s =
     Server_setMemoryBackend i
       (foldl (\<lambda>backend _. registerBackend (MemoryBackendCache (MemoryBackendNvdimm True nvdimm_init) [] []) backend)
          (MemoryBackendBalance [] [] []) nvdimmPaths) s"

section \<open>Clients\<close>

definition setOnClientConnect :: "'s server \<Rightarrow> 's server" where
  "setOnClientConnect s = s\<lparr>sv_connection := setHooks (sv_connection s)\<rparr>"

definition Server_onClientConnect :: "nat \<Rightarrow> nat \<Rightarrow> 's server \<Rightarrow> 's server result" where
  "Server_onClientConnect tcpClientId key s =
     bindE (registerClient tcpClientId key (lc_clientRegistry (sv_connection s))) (\<lambda>r.
     Inr (s\<lparr>sv_connection := (sv_connection s)\<lparr>lc_clientRegistry := r\<rparr>\<rparr>))"

definition Server_onClientDisconnect :: "nat \<Rightarrow> 's server \<Rightarrow> 's server result" where
  "Server_onClientDisconnect tcpClientId s =
     bindE (disconnectClient tcpClientId (lc_clientRegistry (sv_connection s))) (\<lambda>r.
     bindE (onClientDisconnect tcpClientId (ap_container (sv_app s))) (\<lambda>ct.
     Inr (s\<lparr>sv_connection := (sv_connection s)\<lparr>lc_clientRegistry := r\<rparr>, sv_app := (sv_app s)\<lparr>ap_container := ct\<rparr>\<rparr>)))"

text \<open>
  The handler of the TCP thread: identifiers are counted up, the key is drawn at random.  The
  counter is an \<open>int\<close>; a run with fewer than \<open>2\<^sup>31\<close> connections is modelled.
\<close>

definition tcp_connect :: "nat \<Rightarrow> 's server \<Rightarrow> 's server result" where
  "tcp_connect key s =
     bindE (assumeE (sv_cntConnections s < 2 ^ 31 - 1) ''cntConnections'') (\<lambda>_.
     Server_onClientConnect (sv_cntConnections s) key (s\<lparr>sv_cntConnections := Suc (sv_cntConnections s)\<rparr>))"

section \<open>Polling\<close>

text \<open>One turn of the loop of \<open>Server::poll\<close>, and the loop until \<open>stop\<close> after \<open>fuel\<close> turns.\<close>

definition server_round :: "fabric_ops \<Rightarrow> endpoint_ops \<Rightarrow> 's storage_ops \<Rightarrow> 's server \<Rightarrow> 's server result" where
  "server_round fi eo so s =
     bindE (poll 1 fi eo (run_hook fi so) (run_fun fi) False (sv_app s) (sv_connection s) (sv_world s)) (\<lambda>(_, a, c, w).
     Inr (s\<lparr>sv_app := a, sv_connection := c, sv_world := w\<rparr>))"

fun Server_poll_loop :: "nat \<Rightarrow> fabric_ops \<Rightarrow> endpoint_ops \<Rightarrow> 's storage_ops \<Rightarrow> 's server \<Rightarrow> 's server result" where
  "Server_poll_loop 0 fi eo so s = Inr (s\<lparr>sv_pollRunning := False\<rparr>)"
| "Server_poll_loop (Suc turns) fi eo so s = bindE (server_round fi eo so s) (Server_poll_loop turns fi eo so)"

definition Server_poll :: "nat \<Rightarrow> fabric_ops \<Rightarrow> endpoint_ops \<Rightarrow> 's storage_ops \<Rightarrow> 's server \<Rightarrow> 's server result" where
  "Server_poll turns fi eo so s =
     bindE (Server_poll_loop turns fi eo so (s\<lparr>sv_pollRunning := True\<rparr>)) (\<lambda>s. Inr (s\<lparr>sv_pollRunning := True\<rparr>))"

text \<open>The thread of the statistics, between two prints.\<close>

definition stats_reset :: "'s server \<Rightarrow> 's server" where
  "stats_reset s = s\<lparr>sv_app := (sv_app s)\<lparr>ap_stats := ServerStats_init\<rparr>\<rparr>"

end
