(* ===== verification/Handler_Frame.thy ===== *)
theory Handler_Frame
  imports Hook_Invariant
begin

text \<open>
  What a handler may do to the connection, without any assumption on the state: it posts
  operations, it gives the receive buffer of its request back exactly once, and it leaves the
  settings and the waiting completions alone.  An RDMA transfer posts as many operations as the
  counter it allocates says.  The segment alignment of the container is fixed.
\<close>

section \<open>Operations a handler adds\<close>

fun fun_transfer :: "server_fun \<Rightarrow> nat option" where
  "fun_transfer (RdmaPushed k n client) = Some k"
| "fun_transfer (RdmaFetched k n client) = Some k"
| "fun_transfer (PingFetched client i n) = None"

text \<open>
  The counter that the completion of an operation decrements; an operation that keeps no receive
  buffer, which is every operation but the RDMA read of a ping.
\<close>

definition transfer_of :: "server_fun post_action option \<Rightarrow> nat option" where
  "transfer_of ctx = (case ctx of
     None \<Rightarrow> None
   | Some act \<Rightarrow> (case pa_body act of LibfabricPostActionFunction f \<Rightarrow> fun_transfer f | LibfabricPostActionNop res \<Rightarrow> None))"

definition bufferless :: "server_fun post_action option \<Rightarrow> bool" where
  "bufferless ctx \<longleftrightarrow> (\<forall>act. ctx = Some act \<longrightarrow> pa_bufferId act = IOC_LF_NO_BUFFER \<and>
     (\<forall>f. pa_body act = LibfabricPostActionFunction f \<longrightarrow> fun_transfer f \<noteq> None))"

definition extends :: "nat list \<Rightarrow> nat list \<Rightarrow> server_connection \<Rightarrow> server_connection \<Rightarrow> bool" where
  "extends ids ks c c' \<longleftrightarrow> same_settings c c' \<and> completions c' = completions c \<and>
     fb_recv (lc_fabric c') = fb_recv (lc_fabric c) @ ids \<and>
     (\<exists>ops. fb_ops (lc_fabric c') = fb_ops (lc_fabric c) @ ops \<and> (\<forall>op \<in> set ops. bufferless (op_context op)) \<and>
        List.map_filter transfer_of (map op_context ops) = ks)"

lemma extends_refl [simp, intro]: "extends [] [] c c"
  by (simp add: extends_def)

lemma extends_trans:
  assumes "extends ids ks c c1" "extends js ls c1 c2"
  shows "extends (ids @ js) (ks @ ls) c c2"
proof -
  obtain ops ops' where "fb_ops (lc_fabric c1) = fb_ops (lc_fabric c) @ ops" "\<forall>op \<in> set ops. bufferless (op_context op)"
      "List.map_filter transfer_of (map op_context ops) = ks"
      "fb_ops (lc_fabric c2) = fb_ops (lc_fabric c1) @ ops'" "\<forall>op \<in> set ops'. bufferless (op_context op)"
      "List.map_filter transfer_of (map op_context ops') = ls"
    using assms unfolding extends_def by metis
  then have "\<exists>ops. fb_ops (lc_fabric c2) = fb_ops (lc_fabric c) @ ops \<and> (\<forall>op \<in> set ops. bufferless (op_context op)) \<and>
      List.map_filter transfer_of (map op_context ops) = ks @ ls"
    by (intro exI [of _ "ops @ ops'"]) (auto simp: List.map_filter_def)
  moreover have "same_settings c c2" using assms same_settings_trans by (metis extends_def)
  ultimately show ?thesis using assms by (simp add: extends_def)
qed

lemma extends_then: "extends [] ks c c1 \<Longrightarrow> extends ids [] c1 c2 \<Longrightarrow> extends ids ks c c2"
  using extends_trans [of "[]" ks c c1 ids "[]"] by simp

lemma posted_extends:
  "posted op c c' \<Longrightarrow> bufferless (op_context op) \<Longrightarrow> extends [] (case transfer_of (op_context op) of None \<Rightarrow> [] | Some k \<Rightarrow> [k]) c c'"
  unfolding posted_def extends_def by (intro conjI exI [of _ "[op]"]) (auto simp: List.map_filter_def split: option.split)

lemma repost_extends: "repostReceive i c = Inr c' \<Longrightarrow> extends [i] [] c c'"
  using repostReceive_effect [of i c c'] by (auto simp: extends_def List.map_filter_def)

lemma sendMessage_extends:
  fixes w :: "'s world"
  assumes "sendMessage fi t dst A d (LibfabricPostActionNop res) c w = Inr (c', w')"
  shows "extends [] [] c c'"
proof -
  obtain buf act n w0 where att: "attachDomainBuffer buf (PostAction_init (LibfabricPostActionNop res)) = Inr act"
      and raw: "sendRawMessage buf n dst (Some act) c (w0 :: 's world) = Inr c'"
    using assms(1) unfolding sendMessage_def Let_def by (auto elim!: bindE_InrE split: prod.splits)
  obtain a bytes where p: "posted (FiSend a buf bytes (Some act)) c c'" by (rule sendRawMessage_effect [OF raw]) (rule that)
  have "pa_body act = LibfabricPostActionNop res" "pa_bufferId act = IOC_LF_NO_BUFFER" using att by (auto simp: attachDomainBuffer_def PostAction_init_def elim!: bindE_InrE)
  then have "transfer_of (Some act) = None" "bufferless (Some act)" by (auto simp: transfer_of_def bufferless_def)
  then show ?thesis using posted_extends [OF p] by simp
qed

lemma sendResponse_extends:
  "sendResponse fi t client st unblock c w = Inr (c', w') \<Longrightarrow> extends [] [] c c'"
  "sendResponse_fragments fi t client st fs unblock c w = Inr (c', w') \<Longrightarrow> extends [] [] c c'"
  by (auto simp: sendResponse_def sendResponse_fragments_def response_action_def elim!: bindE_InrE elim: sendMessage_extends)

section \<open>Transfers\<close>

lemma rdma_extends:
  assumes "rdmaReadv dst vs addr key f c w = Inr c' \<or> rdmaWritev dst vs addr key f c w = Inr c'" "fun_transfer f = Some k"
  shows "extends [] [k] c c'"
proof -
  obtain op where op: "posted op c c'" "op_context op = Some (PostAction_init (LibfabricPostActionFunction f))"
    using assms(1) by (auto simp: rdmaReadv_def rdmaWritev_def rdma_post_def elim!: bindE_InrE dest!: post_operation_effect split: option.splits)
  have "transfer_of (op_context op) = Some k" "bufferless (op_context op)"
    using op(2) assms(2) by (auto simp: transfer_of_def bufferless_def PostAction_init_def)
  then show ?thesis using posted_extends [OF op(1)] by simp
qed

lemma count_groups_nat: "0 \<le> count_groups n"
  by (induction n rule: count_groups.induct) (subst count_groups.simps, simp)

lemma rdma_groups_extends:
  assumes "\<And>vs addr c c'. post vs addr c = Inr c' \<Longrightarrow> extends [] [k] c c'" "rdma_groups post addr off iov c = Inr c'"
  shows "extends [] (replicate (nat (count_groups (length iov))) k) c c'"
  using assms
proof (induction post addr off iov c rule: rdma_groups.induct)
  case (1 post addr off iov c)
  show ?case
  proof (cases "iov = []")
    case True
    then show ?thesis using "1.prems" by (simp add: rdma_groups.simps count_groups.simps)
  next
    case False
    let ?g = "take IOC_LF_MAX_RDMA_SEGS iov" and ?r = "drop IOC_LF_MAX_RDMA_SEGS iov"
    obtain c1 where c1: "post ?g (add64 addr off) c = Inr c1"
        "rdma_groups post addr (foldl (\<lambda>off v. add64 off (iov_len v)) off ?g) ?r c1 = Inr c'"
      using False "1.prems"(2) by (subst (asm) rdma_groups.simps) (auto simp: Let_def elim!: bindE_InrE)
    have "extends [] (replicate (nat (count_groups (length ?r))) k) c1 c'"
      using "1.IH" [OF False refl c1(1) "1.prems"(1) c1(2)] by simp
    from extends_trans [OF "1.prems"(1) [OF c1(1)] this]
    have "extends [] (replicate (Suc (nat (count_groups (length ?r)))) k) c c'" by simp
    moreover have "count_groups (length iov) = count_groups (length ?r) + 1"
      using False by (subst count_groups.simps) simp
    ultimately show ?thesis using count_groups_nat [of "length ?r"] by (simp add: nat_add_distrib)
  qed
qed

lemma buildIovec_length: "buildIovec segs off n = Inr (segs', iov) \<Longrightarrow> length iov = length segs"
  by (induction segs arbitrary: segs' iov) (auto elim!: bindE_InrE)

text \<open>A handler starts no transfer, or one, whose fresh counter is the number of its operations.\<close>

definition starts :: "nat list \<Rightarrow> app \<Rightarrow> app \<Rightarrow> bool" where
  "starts ks a a' \<longleftrightarrow> ks = [] \<and> ap_ops a' = ap_ops a \<and> ap_nextOps a' = ap_nextOps a \<or>
     (\<exists>n. ks = replicate n (ap_nextOps a) \<and> ap_ops a' = (ap_ops a)(ap_nextOps a \<mapsto> int n) \<and> ap_nextOps a' = Suc (ap_nextOps a))"

lemma transfer_extends:
  assumes "objRdmaPushToClient client rw segs a c w = Inr (a', c') \<or> objRdmaFetchFromClient client rw segs a c w = Inr (a', c')"
  shows "\<exists>ks. extends [] ks c c' \<and> starts ks a a'"
proof -
  let ?n = "count_groups (length segs)" and ?k = "ap_nextOps a"
  obtain segs' iov where iov: "buildIovec segs (rw_offset rw) (rw_size rw) = Inr (segs', iov)"
    using assms by (auto simp: objRdmaPushToClient_def objRdmaFetchFromClient_def elim!: bindE_InrE)
  have "(\<exists>f. fun_transfer f = Some ?k \<and> rdma_groups (\<lambda>vs addr c. rdmaWritev (int_of_size client) vs addr (iov_key (rw_iov rw)) f c w)
      (iov_addr (rw_iov rw)) 0 iov c = Inr c') \<or>
    (\<exists>f. fun_transfer f = Some ?k \<and> rdma_groups (\<lambda>vs addr c. rdmaReadv (int_of_size client) vs addr (iov_key (rw_iov rw)) f c w)
      (iov_addr (rw_iov rw)) 0 iov c = Inr c')"
    using assms
    by (elim disjE) (auto simp: objRdmaPushToClient_def objRdmaFetchFromClient_def new_ops_def iov elim!: bindE_InrE
        intro: exI [of _ "RdmaPushed ?k (rw_size rw) client"] exI [of _ "RdmaFetched ?k (rw_size rw) client"])
  then have "extends [] (replicate (nat ?n) ?k) c c'"
    using rdma_extends buildIovec_length [OF iov] by (elim disjE exE) (rule rdma_groups_extends [of _ ?k, where iov = iov, simplified buildIovec_length [OF iov]]; blast)+
  moreover have "a' = snd (new_ops ?n a)"
    using assms iov by (auto simp: objRdmaPushToClient_def objRdmaFetchFromClient_def elim!: bindE_InrE split: prod.splits)
  ultimately show ?thesis using count_groups_nat [of "length segs"] by (auto simp: starts_def new_ops_def)
qed

lemma eager_extends:
  "objEagerPushToClient fi client rw segs a c w = Inr (a', c', w') \<Longrightarrow> extends [] [] c c' \<and> starts [] a a'"
  "objEagerExtractFromMessage fi client rw segs a c w = Inr (a', c', w') \<Longrightarrow> extends [] [] c c' \<and> starts [] a a'"
  by (auto simp: objEagerPushToClient_def objEagerExtractFromMessage_def starts_def elim!: bindE_InrE split: option.splits
      intro: sendResponse_extends)

lemma starts_simps [simp]:
  "starts ks (a\<lparr>ap_container := x\<rparr>) a' = starts ks a a'" "starts ks a (a'\<lparr>ap_container := y\<rparr>) = starts ks a a'" "starts [] a a"
  by (auto simp: starts_def)

lemmas push_extends = transfer_extends [OF disjI1]
lemmas fetch_extends = transfer_extends [OF disjI2]

lemma reply_extends: "reply fi t st rq a c w = Inr (res, a', c', w') \<Longrightarrow>
    extends [rq_msgBufferId rq] [] c c' \<and> a' = a \<and> res = LF_WAIT_LOOP_KEEP_WAITING"
  by (auto simp: reply_def terminate_def elim!: bindE_InrE intro: extends_then [OF sendResponse_extends(1) repost_extends])

section \<open>The handlers\<close>

definition handled :: "LibfabricClientRequest \<Rightarrow> app \<Rightarrow> server_connection \<Rightarrow> LibfabricActionResult \<Rightarrow> app \<Rightarrow> server_connection \<Rightarrow> bool" where
  "handled rq a c res a' c' \<longleftrightarrow> res = LF_WAIT_LOOP_KEEP_WAITING \<and> (\<exists>ks. extends [rq_msgBufferId rq] ks c c' \<and> starts ks a a')"

lemma handledI:
  assumes "terminate rq c1 = Inr c'" "extends [] ks c c1" "starts ks a a'"
  shows "handled rq a c LF_WAIT_LOOP_KEEP_WAITING a' c'"
  using assms extends_then [OF assms(2) repost_extends] by (auto simp: handled_def terminate_def)

lemma read_write_handled:
  "HookObjectRead_onMessage fi so rq a c w = Inr (res, a', c', w') \<Longrightarrow> handled rq a c res a' c'"
  "HookObjectWrite_onMessage fi so rq a c w = Inr (res, a', c', w') \<Longrightarrow> handled rq a c res a' c'"
  by (auto simp: HookObjectRead_onMessage_def HookObjectWrite_onMessage_def Let_def elim!: bindE_InrE split: if_splits
      dest!: eager_extends push_extends fetch_extends sendResponse_extends(1)) (erule (1) handledI; simp)+

lemma run_hook_handled:
  assumes "u \<noteq> HookPingPong" "run_hook fi so (u, rq) a c w = Inr (res, a', c', w')"
  shows "handled rq a c res a' c'"
proof (cases u)
  case HookObjectRead
  then show ?thesis using assms(2) by (intro read_write_handled(1)) (simp add: run_hook_def)
next
  case HookObjectWrite
  then show ?thesis using assms(2) by (intro read_write_handled(2)) (simp add: run_hook_def)
qed (use assms in \<open>auto simp: handled_def run_hook_def HookFlush_onMessage_def HookObjectCreate_onMessage_def HookObjectCow_onMessage_def
    HookRangeRegister_onMessage_def HookRangeUnregister_onMessage_def Let_def elim!: bindE_InrE dest!: reply_extends
    intro!: exI [of _ "[]"] split: prod.splits\<close>)

section \<open>The alignment of the segments\<close>

lemma put_object_alignement [simp]: "ct_objectSegmentsAlignement (put_object k ob ct) = ct_objectSegmentsAlignement ct"
  by (simp add: put_object_def)

lemma getObject_alignement: "getObject k ct = Inr (ob, ct') \<Longrightarrow> ct_objectSegmentsAlignement ct' = ct_objectSegmentsAlignement ct"
  by (auto simp: getObject_def Let_def split: option.splits)

lemma cow_alignement:
  "makeObjectFullCow so src dst ex ct w = Inr (st, ct', w') \<Longrightarrow> ct_objectSegmentsAlignement ct' = ct_objectSegmentsAlignement ct"
  "makeObjectRangeCow fi so src dst ex off n ct w = Inr (st, ct', w') \<Longrightarrow> ct_objectSegmentsAlignement ct' = ct_objectSegmentsAlignement ct"
  by (auto simp: makeObjectFullCow_def full_cow_clear_def makeObjectRangeCow_def Let_def elim!: bindE_InrE split: option.splits if_splits)

lemma transfers_container:
  "objRdmaPushToClient client rw segs a c w = Inr (a', c') \<Longrightarrow> ap_container a' = ap_container a"
  "objRdmaFetchFromClient client rw segs a c w = Inr (a', c') \<Longrightarrow> ap_container a' = ap_container a"
  "objEagerPushToClient fi client rw segs a c w = Inr (a', c', w') \<Longrightarrow> ap_container a' = ap_container a"
  "objEagerExtractFromMessage fi client rw segs a c w = Inr (a', c', w') \<Longrightarrow> ap_container a' = ap_container a"
  by (auto simp: objRdmaPushToClient_def objRdmaFetchFromClient_def objEagerPushToClient_def objEagerExtractFromMessage_def
      new_ops_def elim!: bindE_InrE split: option.splits)

lemma run_hook_alignement:
  assumes "u \<noteq> HookPingPong" "run_hook fi so (u, rq) a c w = Inr (res, a', c', w')"
  shows "ct_objectSegmentsAlignement (ap_container a') = ct_objectSegmentsAlignement (ap_container a)"
  using assms
  by (cases u) (auto simp: run_hook_def HookFlush_onMessage_def HookObjectCreate_onMessage_def HookObjectCow_onMessage_def
      HookRangeRegister_onMessage_def HookRangeUnregister_onMessage_def HookObjectRead_onMessage_def HookObjectWrite_onMessage_def Let_def
      elim!: bindE_InrE dest!: reply_extends getObject_alignement cow_alignement transfers_container split: prod.splits if_splits)

end
