(* ===== verification/Connection_Props.thy ===== *)
theory Connection_Props
  imports Hook_Data
begin

text \<open>
  Properties of the connection on its own: posting an operation ends, a response made of
  fragments is the response with their concatenation, a message that is not authenticated
  reaches no hook.
\<close>

section \<open>Posting an operation\<close>

lemma post_retry_replicate:
  "\<exists>c'. post_retry (replicate n (- FI_EAGAIN) @ 0 # codes) c = (0, c') \<and> fb_codes (lc_fabric c') = codes"
proof (induction n arbitrary: c)
  case 0
  then show ?case by (simp add: FI_EAGAIN_def)
next
  case (Suc n)
  then show ?case by (simp del: pollAllCqInCache.simps)
qed

text \<open>C37: posting an operation ends for every number of refusals with \<open>-FI_EAGAIN\<close> before the endpoint
  accepts: the operation is posted once and counted once, and the completions that were moved to
  the cache in between are neither lost nor reordered.\<close>

theorem posting_terminates:
  assumes "fb_codes (lc_fabric c) = replicate n (- FI_EAGAIN) @ 0 # codes"
  shows "\<exists>c'. post_operation call op c = Inr c' \<and> fb_codes (lc_fabric c') = codes \<and> completions c' = completions c \<and>
    fb_ops (lc_fabric c') = fb_ops (lc_fabric c) @ [op] \<and> lc_pendingAction c' = lc_pendingAction c + 1"
proof -
  obtain c1 where "post_retry (fb_codes (lc_fabric c)) c = (0, c1)" "fb_codes (lc_fabric c1) = codes"
    using post_retry_replicate unfolding assms by blast
  then obtain c' where c': "post_operation call op c = Inr c'" "fb_codes (lc_fabric c') = codes" by (auto simp: post_operation_def)
  then show ?thesis using post_operation_effect [OF c'(1)] by (auto simp: posted_def)
qed

theorem posting_terminates_witness:
  "\<exists>c'. post_operation ''fi_send'' (FiRead 1 [] 0 0 None) ((LibfabricConnection_init False :: (unit, unit) connection)
      \<lparr>lc_fabric := \<lparr>fb_codes = [- 11, - 11, 0], fb_cq = [CqEntry (CqRecv 4), CqAgain, CqEntry (CqRecv 2)], fb_ops = [], fb_recv = []\<rparr>\<rparr>) = Inr c' \<and>
    completions c' = [CqRecv 4, CqRecv 2] \<and> lc_pendingAction c' = 1"
proof -
  let ?c = "(LibfabricConnection_init False :: (unit, unit) connection)
      \<lparr>lc_fabric := \<lparr>fb_codes = [- 11, - 11, 0], fb_cq = [CqEntry (CqRecv 4), CqAgain, CqEntry (CqRecv 2)], fb_ops = [], fb_recv = []\<rparr>\<rparr>"
  have "fb_codes (lc_fabric ?c) = replicate 2 (- FI_EAGAIN) @ 0 # []" by (simp add: FI_EAGAIN_def numeral_2_eq_2)
  from posting_terminates [OF this, of "''fi_send''" "FiRead 1 [] 0 0 None"] show ?thesis
    by (auto simp: completions_def LibfabricConnection_init_def)
qed

section \<open>Fragments\<close>

context wire_struct
begin

lemma sendMessage_same_wire:
  assumes v: "ok v" "ok v'" "enc v = enc v'" and hd: "MessageHeader_ok (fillProtocolHeader t c)"
    and n: "32 + length (enc v) \<le> ld_msgBufferSize (mem_domain (w_mem w))" "ld_msgBufferSize (mem_domain (w_mem w)) < W64"
  shows "sendMessage fi t dst applyDef v body c w = sendMessage fi t dst applyDef v' body c w"
proof -
  let ?hd = "fillProtocolHeader t c"
  have same: "bindE (Serializer_make (Some bs) (ld_msgBufferSize dm)) (\<lambda>s.
        bindE (apply_struct MessageHeader_applySerializerDef ''header'' ?hd s) (\<lambda>(_, s). bindE (apply_struct applyDef ''data'' v s) (\<lambda>(_, s). f s))) =
      bindE (Serializer_make (Some bs) (ld_msgBufferSize dm)) (\<lambda>s.
        bindE (apply_struct MessageHeader_applySerializerDef ''header'' ?hd s) (\<lambda>(_, s). bindE (apply_struct applyDef ''data'' v' s) (\<lambda>(_, s). f s)))"
    if g: "getMsgBuffer fi (mem_domain (w_mem w)) (mem_heap (w_mem w)) = Inr (buf, dm, h)" and rd: "read_mem buf (ld_msgBufferSize dm) h = Inr bs"
    for buf dm h bs and f :: "SerializerBase \<Rightarrow> 'r result"
  proof (cases "Serializer_make (Some bs) (ld_msgBufferSize dm)")
    case (Inr s0)
    have dm: "ld_msgBufferSize dm = ld_msgBufferSize (mem_domain (w_mem w))"
      using g by (auto simp: getMsgBuffer_def registerSegment_def Let_def elim!: bindE_InrE split: if_splits prod.splits)
    have len: "length bs = ld_msgBufferSize dm" using read_mem_Inr [OF rd] by (metis length_slice)
    have P0: "packing s0" "ser_cursor s0 = 0" "ser_size s0 = ld_msgBufferSize dm"
      using Inr len dm n(2) by (auto simp: Serializer_make_def SerializerBase_init_def packing_def elim!: bindE_InrE)
    have hl: "length (MessageHeader_wire ?hd) = 32" by (simp add: MessageHeader_wire_def)
    let ?s1 = "emit (MessageHeader_wire ?hd) False (s0\<lparr>ser_root := False\<rparr>)"
    have e1: "apply_struct MessageHeader_applySerializerDef ''header'' ?hd s0 = Inr (?hd, ?s1)"
      using header.pack_struct [OF hd P0(1)] P0(2,3) hl n(1) dm by auto
    have P1: "packing ?s1" "ser_cursor ?s1 = 32" "ser_size ?s1 = ld_msgBufferSize dm" "\<not> ser_root ?s1"
      using P0 hl len n(1) dm by (auto simp: emit_def packing_def)
    have "apply_struct applyDef ''data'' v ?s1 = Inr (v, emit (enc v) False ?s1)" "apply_struct applyDef ''data'' v' ?s1 = Inr (v', emit (enc v) False ?s1)"
      using nested [OF P1(4) v(1) P1(1)] nested [OF P1(4) v(2) P1(1)] P1(2,3) n(1) dm v(3) by auto
    then show ?thesis by (simp add: Inr e1)
  qed simp
  show ?thesis
  proof (cases "getMsgBuffer fi (mem_domain (w_mem w)) (mem_heap (w_mem w))")
    case (Inr r)
    obtain buf dm h where r: "r = (buf, dm, h)" by (cases r) auto
    show ?thesis
    proof (cases "read_mem buf (ld_msgBufferSize dm) h")
      case rd: (Inr bs)
      show ?thesis unfolding sendMessage_def getMsgBufferSize_def Let_def Inr r bindE_Inr prod.case rd
        by (subst same [OF Inr [unfolded r] rd]) (rule refl)
    qed (simp add: sendMessage_def getMsgBufferSize_def Inr r Let_def)
  qed (simp add: sendMessage_def)
qed

end

definition fragments_data :: "LibfabricBuffer list \<Rightarrow> byte list" where
  "fragments_data fs = concat (map (\<lambda>f. data_of (lb_size f) (lb_buffer f)) fs)"

lemma fragments_sum_length:
  "fragments_ok fs \<Longrightarrow> n + length (fragments_data fs) < W64 \<Longrightarrow> fragments_sum (map Some fs) n = Inr (n + length (fragments_data fs))"
proof (induction fs arbitrary: n)
  case (Cons f fs)
  have "lb_size f = length (data_of (lb_size f) (lb_buffer f))" using Cons.prems(1) by (simp add: fragments_ok_def)
  then show ?case using Cons.IH [of "n + lb_size f"] Cons.prems by (simp add: fragments_ok_def fragments_data_def add64_def)
qed (simp add: fragments_data_def)

text \<open>C36: sending a response from fragments has the effect, on the connection and the memory, of
  sending the concatenation of the fragments as one buffer.\<close>

theorem fragments_sent_as_one:
  fixes w :: "'s world" and c :: "('h, 'f) connection"
  assumes fs: "fragments_ok fs" "length fs < 2 ^ 32 - 1" and st: "int32_ok st" and hd: "MessageHeader_ok (fillProtocolHeader (msg_code t) c)"
    and n: "45 + length (fragments_data fs) \<le> ld_msgBufferSize (mem_domain (w_mem w))" "ld_msgBufferSize (mem_domain (w_mem w)) < W64"
  shows "sendResponse_fragments fi t client st (map Some fs) unblock c w =
    sendResponse_data fi t client st (Some (fragments_data fs)) (length (fragments_data fs)) unblock c w"
proof -
  let ?n = "length (fragments_data fs)"
  let ?v = "\<lparr>rs_msgDataSize = ?n, rs_status = st, rs_msgHasData = True, rs_optionalData = None, rs_optionalDataFragments = Some fs\<rparr>"
  let ?v' = "\<lparr>rs_msgDataSize = ?n, rs_status = st, rs_msgHasData = True, rs_optionalData = Some (fragments_data fs), rs_optionalDataFragments = None\<rparr>"
  have sum: "fragments_sum (map Some fs) 0 = Inr ?n" using fragments_sum_length [OF fs(1), of 0] n by simp
  have all: "List.map_filter (\<lambda>f. f) (map Some fs) = fs" by (induction fs) (simp_all add: List.map_filter_def)
  have wire: "Response_wire ?v = Response_wire ?v'" "length (Response_wire ?v) = 13 + ?n"
    by (simp_all add: Response_wire_def response_data_def fragments_data_def data_of_def)
  have "Response_ok ?v" "Response_ok ?v'"
    using fs(1) st n by (simp_all add: Response_ok_def response_data_def fragments_data_def data_ok_def data_of_def)
  then show ?thesis
    using response.sendMessage_same_wire [OF _ _ wire(1) hd, of w] wire(2) n fs(2)
    by (simp add: sendResponse_fragments_def sendResponse_data_def sum all)
qed

theorem fragments_sent_as_one_witness:
  "sendResponse_fragments wit_fabric IOC_LF_MSG_OBJ_READ_WRITE_ACK 3 0
      [Some \<lparr>lb_buffer = Some [1, 2, 9], lb_size = 2\<rparr>, Some \<lparr>lb_buffer = Some [3], lb_size = 1\<rparr>] False wit_connection wit_net_world =
    sendResponse_data wit_fabric IOC_LF_MSG_OBJ_READ_WRITE_ACK 3 0 (Some [1, 2, 3]) 3 False wit_connection wit_net_world"
proof -
  let ?fs = "[\<lparr>lb_buffer = Some [1, 2, 9], lb_size = 2\<rparr>, \<lparr>lb_buffer = Some [3], lb_size = 1\<rparr>]"
  have d: "fragments_data ?fs = [1, 2, 3]" by (simp add: fragments_data_def data_of_def)
  have "MessageHeader_ok (fillProtocolHeader (msg_code IOC_LF_MSG_OBJ_READ_WRITE_ACK) wit_connection)"
    by (simp add: MessageHeader_ok_def fillProtocolHeader_def wit_connection_def LibfabricConnection_init_def W64_def)
  moreover have "fragments_ok ?fs" "length ?fs < 2 ^ 32 - 1" "int32_ok 0" by (simp_all add: fragments_ok_def data_ok_def int32_ok_def)
  moreover have "45 + length (fragments_data ?fs) \<le> ld_msgBufferSize (mem_domain (w_mem wit_net_world))"
    "ld_msgBufferSize (mem_domain (w_mem wit_net_world)) < W64"
    unfolding d by (simp_all add: wit_net_world_def LibfabricDomain_init_def W64_def)
  ultimately show ?thesis using fragments_sent_as_one [of ?fs 0 IOC_LF_MSG_OBJ_READ_WRITE_ACK wit_connection wit_net_world wit_fabric 3 False]
    by (simp only: d list.map list.size add_0 add_Suc_right add_0_right numeral_3_eq_3)
qed

section \<open>Received messages\<close>

text \<open>An endpoint that knows one peer.\<close>

definition wit_endpoint :: endpoint_ops where
  "wit_endpoint = \<lparr>eo_av_insert = (\<lambda>_. (1, 5)), eo_getname = (0, []), eo_dest_addr = []\<rparr>"

text \<open>A message in a receive buffer: its header, then its data.\<close>

lemma header_length: "length (MessageHeader_wire h) = 32"
  by (simp add: MessageHeader_wire_def)

lemma received_message:
  assumes "lc_recvBuffers c ! i = MessageHeader_wire h @ body @ r" "MessageHeader_ok h" "i < lc_recvBuffersCount c"
    and n: "length (lc_recvBuffers c ! i) = lc_recvBuffersSize c" "lc_recvBuffersSize c < W64"
  shows "\<exists>s. receive_header i c = Inr (h, s) \<and> holds_message s body"
proof -
  let ?buf = "lc_recvBuffers c ! i" and ?n = "lc_recvBuffersSize c"
  have pos: "32 + length body + length r = ?n" using assms(1) n(1) header_length [of h] by (metis length_append add.assoc)
  obtain d where d: "DeSerializer_make (Some ?buf) ?n = Inr d" "unpacking d" "ser_cursor d = 0" "ser_size d = ?n" "ser_buffer d = Some ?buf"
    using n pos by (simp add: DeSerializer_make_def SerializerBase_init_def unpacking_def)
  have r: "ser_rest d = MessageHeader_wire h @ body @ r" using d(3,5) assms(1) by (simp add: ser_rest_def)
  let ?d = "advance 32 False (d\<lparr>ser_root := False\<rparr>)"
  have u: "apply_struct MessageHeader_applySerializerDef ''header'' \<lparr>mh_msgType = 0, mh_lfClientId = 0, mh_tcpClientId = 0, mh_tcpClientKey = 0\<rparr> d
      = Inr (h, ?d)"
    using header.unpack_struct [OF assms(2) _ d(2) r] d(3,4) pos header_length [of h] by auto
  have "ser_rest ?d = body @ r" using assms(1) d(3,5) header_length [of h] by (simp add: ser_rest_def advance_def)
  then have "holds_message ?d body" using d pos by (auto simp: holds_message_def unpacking_def advance_def)
  then show ?thesis using u d(1) assms(3) by (simp add: receive_header_def)
qed


text \<open>C26: with authentication on, a message whose key is not the one registered for its client
  reaches no hook, whatever the hooks are: the state of the application and the data of the
  objects stay, the client gets one refusal.  The receive buffer is not posted again.\<close>

theorem bad_auth_refused:
  fixes w :: "'s world"
  assumes ok: "container_ok X mb w ct" and conn: "conn_ok pd X c" and rdy: "endpoint_ready X (int_of_size (mh_lfClientId h)) c"
    and auth: "lc_checkClientAuth c" "\<not> checkIdentification (mh_tcpClientId h) (mh_tcpClientKey h) (lc_clientRegistry c)"
    and msg: "receive_header i c = Inr (h, s)"
      "mh_msgType h \<notin> {msg_code IOC_LF_MSG_CONNECT_INIT, msg_code IOC_LF_MSG_BAD_AUTH, msg_code IOC_LF_MSG_FATAL_ERROR}"
  shows "\<exists>c' w'. onRecv fi eo handler i a c w = Inr (LF_WAIT_LOOP_UNBLOCK, a, c', w') \<and>
    answered IOC_LF_MSG_BAD_AUTH (status_response (- 1)) (mh_lfClientId h) c c' \<and>
    data_kept UNIV w w' \<and> fb_recv (lc_fabric c') = fb_recv (lc_fabric c)"
proof -
  let ?t = IOC_LF_MSG_BAD_AUTH
  have net: "net_ok pd X c" "fr_msgBufferSize X < W64" "32 + length (Response_wire (status_response (- 1))) \<le> fr_msgBufferSize X"
      and hd: "MessageHeader_ok (fillProtocolHeader (msg_code ?t) c)"
    using conn by (auto simp: conn_ok_def MessageHeader_ok_def fillProtocolHeader_def status_response_ok(2) W64_def)
  have st: "int32_ok (- 1)" by (simp add: int32_ok_def)
  obtain c' w' where send: "sendResponse fi ?t (mh_lfClientId h) (- 1) False c w = Inr (c', w')"
    using response.sendMessage_returns [OF container_okD(3) [OF ok] net(1) rdy status_response_ok(1) [OF st] hd net(3,2)]
    unfolding sendResponse_def status_response_def by blast
  obtain Z where Z: "answered ?t (status_response (- 1)) (mh_lfClientId h) c c'" "data_kept UNIV w w'"
    by (rule sendResponse_effect [OF ok conn st send]) (rule that)
  have "checkAuth fi h (mh_lfClientId h) i c w = Inr (False, c', w')" using auth send by (simp add: checkAuth_def)
  then have "onRecv fi eo handler i a c w = Inr (LF_WAIT_LOOP_UNBLOCK, a, c', w')"
    using msg by (simp add: onRecv_def Let_def del: msg_code.simps)
  moreover have "fb_recv (lc_fabric c') = fb_recv (lc_fabric c)" using Z(1) by (auto simp: answered_def posted_def)
  ultimately show ?thesis using Z by blast
qed

text \<open>A write request with the key 9 of a client that is registered with the key 8.\<close>

theorem bad_auth_refused_witness:
  "\<exists>c' w'. onRecv wit_fabric wit_endpoint (run_hook wit_fabric table_ops) 1 wit_app
      (wit_connection\<lparr>lc_checkClientAuth := True, lc_clientRegistry := [(4, 8)],
         lc_recvBuffers := [replicate 64 0, le_bytes 8 101 @ le_bytes 8 3 @ le_bytes 8 4 @ le_bytes 8 9 @ replicate 32 0]\<rparr>) wit_net_world =
      Inr (LF_WAIT_LOOP_UNBLOCK, wit_app, c', w') \<and> length (fb_ops (lc_fabric c')) = 1"
proof -
  let ?h = "\<lparr>mh_msgType = 101, mh_lfClientId = 3, mh_tcpClientId = 4, mh_tcpClientKey = 9\<rparr>"
  let ?buf = "le_bytes 8 101 @ le_bytes 8 3 @ le_bytes 8 4 @ le_bytes 8 9 @ replicate 32 0"
  let ?c = "wit_connection\<lparr>lc_checkClientAuth := True, lc_clientRegistry := [(4, 8)], lc_recvBuffers := [replicate 64 0, ?buf]\<rparr>"
  have conn: "conn_ok no_context wit_net_frame ?c" "endpoint_ready wit_net_frame (int_of_size (mh_lfClientId ?h)) ?c"
    using wit_net_ok(2,3) by (simp_all add: conn_ok_def net_ok_def inflight_def pending_count_def completions_def endpoint_ready_def)
  have auth: "lc_checkClientAuth ?c" "\<not> checkIdentification (mh_tcpClientId ?h) (mh_tcpClientKey ?h) (lc_clientRegistry ?c)"
    by (simp_all add: checkIdentification_def)
  have buf: "lc_recvBuffers ?c ! 1 = MessageHeader_wire ?h @ [] @ replicate 32 0" by (simp add: MessageHeader_wire_def)
  have "\<exists>s. receive_header 1 ?c = Inr (?h, s) \<and> holds_message s []"
    by (rule received_message [OF buf]) (simp_all add: MessageHeader_ok_def wit_connection_def W64_def)
  then obtain s where s: "receive_header 1 ?c = Inr (?h, s)" by blast
  show ?thesis
    using bad_auth_refused [OF wit_net_ok(1) conn auth s, of wit_fabric wit_endpoint "run_hook wit_fabric table_ops" wit_app]
    by (fastforce simp: answered_def posted_def wit_connection_def LibfabricConnection_init_def)
qed

end
