(* ===== verification/Server_Inv.thy ===== *)
theory Server_Inv
  imports Server Handler_Frame Connection_Props
begin

text \<open>
  The running server as a step relation: a turn of the polling loop, the TCP thread, the
  statistics thread, and what the fabric does on its own (delivering a message into a posted
  receive buffer, completing an operation, writing the data of an RDMA read).  The invariant of
  the server holds in every reachable state.
\<close>

section \<open>Messages of clients\<close>

fun request_type :: "object_request \<Rightarrow> LibfabricMessageType" where
  "request_type (FlushRequest v) = IOC_LF_MSG_OBJ_FLUSH"
| "request_type (CreateRequest v) = IOC_LF_MSG_OBJ_CREATE"
| "request_type (CowRequest v) = IOC_LF_MSG_OBJ_COW"
| "request_type (RegisterRequest v) = IOC_LF_MSG_OBJ_RANGE_REGISTER"
| "request_type (UnregisterRequest v) = IOC_LF_MSG_OBJ_RANGE_UNREGISTER"
| "request_type (ReadRequest v) = IOC_LF_MSG_OBJ_READ"
| "request_type (WriteRequest v) = IOC_LF_MSG_OBJ_WRITE"

text \<open>
  The content of a receive buffer after the message of a client: a header, then the data of a
  connection or of a request on an object.  \<open>al\<close> is the alignment of the segments of the server.
\<close>

definition client_message :: "size_t \<Rightarrow> byte list \<Rightarrow> bool" where
  "client_message al bs \<longleftrightarrow> (\<exists>h body r. MessageHeader_ok h \<and> bs = MessageHeader_wire h @ body @ r \<and>
     (mh_msgType h = msg_code IOC_LF_MSG_CONNECT_INIT \<or>
      (\<exists>q. mh_msgType h = msg_code (request_type q) \<and> body = request_wire q \<and> request_ok al q)))"

section \<open>Receive buffers\<close>

definition received :: "server_connection \<Rightarrow> nat list" where
  "received c = List.map_filter (\<lambda>e. case e of CqRecv i \<Rightarrow> Some i | CqDone ctx \<Rightarrow> None) (completions c)"

text \<open>
  Every receive buffer is in one place: posted, received, or with a handler (\<open>held\<close>).  A received one
  holds the message of a client.
\<close>

definition receives_ok :: "nat list \<Rightarrow> size_t \<Rightarrow> server_connection \<Rightarrow> bool" where
  "receives_ok held al c \<longleftrightarrow> length (lc_recvBuffers c) = lc_recvBuffersCount c \<and>
     (\<forall>b \<in> set (lc_recvBuffers c). length b = lc_recvBuffersSize c) \<and> lc_recvBuffersSize c = server_receiveSize \<and>
     distinct (held @ fb_recv (lc_fabric c) @ received c) \<and>
     set (held @ fb_recv (lc_fabric c) @ received c) \<subseteq> {..<lc_recvBuffersCount c} \<and>
     (\<forall>i \<in> set (received c). client_message al (lc_recvBuffers c ! i))"

lemma receives_drop: "receives_ok (i # held) al c \<Longrightarrow> receives_ok held al c"
  by (simp add: receives_ok_def)

lemma receives_extends:
  assumes "receives_ok ids al c" "extends ids ks c c'"
  shows "receives_ok [] al c'"
proof -
  have "same_settings c c'" "received c' = received c" using assms(2) by (auto simp: extends_def received_def)
  then show ?thesis
    using assms same_settings_sel [of c c'] unfolding receives_ok_def extends_def by auto
qed

lemma receives_extends_held: "receives_ok held al c \<Longrightarrow> extends [] ks c c' \<Longrightarrow> receives_ok held al c'"
  using same_settings_sel [of c c'] unfolding receives_ok_def extends_def received_def by auto

lemma receives_settings [simp]:
  "receives_ok held al (c\<lparr>lc_nextEndpointId := n, lc_remoteLiAddr := m\<rparr>) = receives_ok held al c"
  "receives_ok held al (c\<lparr>lc_hookOnEndpointConnect := calls\<rparr>) = receives_ok held al c"
  "receives_ok held al (c\<lparr>lc_pendingAction := p\<rparr>) = receives_ok held al c"
  by (simp_all add: receives_ok_def received_def completions_def)

section \<open>Transfers\<close>

definition contexts :: "server_connection \<Rightarrow> server_fun post_action option list" where
  "contexts c = map op_context (fb_ops (lc_fabric c)) @ map entry_action (completions c)"

definition transfer_count :: "nat list \<Rightarrow> server_connection \<Rightarrow> nat \<Rightarrow> nat" where
  "transfer_count held c k = count_list (held @ List.map_filter transfer_of (contexts c)) k"

text \<open>The counter of a transfer is the number of its operations that are not handled yet.\<close>

definition transfers_ok :: "nat list \<Rightarrow> app \<Rightarrow> server_connection \<Rightarrow> bool" where
  "transfers_ok held a c \<longleftrightarrow> (\<forall>k. (case ap_ops a k of None \<Rightarrow> 0 | Some n \<Rightarrow> n) = int (transfer_count held c k)) \<and>
     (\<forall>k. ap_nextOps a \<le> k \<longrightarrow> ap_ops a k = None) \<and> (\<forall>ctx \<in> set (contexts c). bufferless ctx)"

lemma map_filter_append [simp]: "List.map_filter f (xs @ ys) = List.map_filter f xs @ List.map_filter f ys"
  by (simp add: List.map_filter_def)

lemma count_list_replicate: "count_list (replicate n x) k = (if k = x then n else 0)"
  by (induction n) auto

lemma transfers_extends:
  assumes t: "transfers_ok held a c" and e: "extends ids ks c c'" and s: "starts ks a a'"
  shows "transfers_ok held a' c'"
proof -
  obtain ops where ops: "fb_ops (lc_fabric c') = fb_ops (lc_fabric c) @ ops" "\<forall>op \<in> set ops. bufferless (op_context op)"
      "List.map_filter transfer_of (map op_context ops) = ks" "completions c' = completions c"
    using e by (auto simp: extends_def)
  have cnt: "transfer_count held c' k = transfer_count held c k + count_list ks k" for k
    using ops(1,3,4) by (simp add: transfer_count_def contexts_def)
  have ctx: "\<forall>ctx \<in> set (contexts c'). bufferless ctx" using t ops(1,2,4) by (auto simp: transfers_ok_def contexts_def)
  have old: "\<And>k. (case ap_ops a k of None \<Rightarrow> 0 | Some n \<Rightarrow> n) = int (transfer_count held c k)"
      "\<And>k. ap_nextOps a \<le> k \<Longrightarrow> ap_ops a k = None"
    using t by (auto simp: transfers_ok_def)
  from s show ?thesis unfolding starts_def
  proof (elim disjE exE conjE)
    assume "ks = []" "ap_ops a' = ap_ops a" "ap_nextOps a' = ap_nextOps a"
    then show ?thesis using cnt ctx old by (simp add: transfers_ok_def)
  next
    fix n
    assume n: "ks = replicate n (ap_nextOps a)" "ap_ops a' = (ap_ops a)(ap_nextOps a \<mapsto> int n)" "ap_nextOps a' = Suc (ap_nextOps a)"
    have "transfer_count held c (ap_nextOps a) = 0" using old(1) [of "ap_nextOps a"] old(2) [of "ap_nextOps a"] by simp
    then show ?thesis using cnt ctx old n by (auto simp: transfers_ok_def count_list_replicate)
  qed
qed

lemma transfers_settings [simp]:
  "transfers_ok held a (c\<lparr>lc_nextEndpointId := n, lc_remoteLiAddr := m\<rparr>) = transfers_ok held a c"
  "transfers_ok held a (c\<lparr>lc_hookOnEndpointConnect := calls\<rparr>) = transfers_ok held a c"
  "transfers_ok held a (c\<lparr>lc_pendingAction := p\<rparr>) = transfers_ok held a c"
  by (simp_all add: transfers_ok_def transfer_count_def contexts_def completions_def)

section \<open>The state of the server\<close>

definition server_table :: "(nat, server_hook hook) std_map" where
  "server_table = foldl (\<lambda>m (t, h). sm_set (msg_code t) (UserHook h) m) [] server_hooks"

lemma server_table_find:
  "sm_find server_table (msg_code (request_type q)) = Some (UserHook (request_hook q))"
  "sm_find server_table (msg_code IOC_LF_MSG_CONNECT_INIT) = None"
  by (cases q) (simp_all add: server_table_def server_hooks_def)

definition state_ok ::
  "nat list \<Rightarrow> nat list \<Rightarrow> net_context \<Rightarrow> nat \<Rightarrow> size_t \<Rightarrow> app \<Rightarrow> server_connection \<Rightarrow> 's world \<Rightarrow> bool" where
  "state_ok ids ks pd mb al a c w \<longleftrightarrow> kept pd mb a c w \<and> ct_objectSegmentsAlignement (ap_container a) = al \<and>
     lc_hooks c = server_table \<and> receives_ok ids al c \<and> transfers_ok ks a c"

lemma state_ok_drop: "state_ok (i # ids) ks pd mb al a c w \<Longrightarrow> state_ok ids ks pd mb al a c w"
  by (auto simp: state_ok_def intro: receives_drop)

lemma state_ok_extends:
  assumes "state_ok ids ks pd mb al a c w" "extends ids ls c c'" "starts ls a a'" "kept pd mb a' c' w'"
    "ct_objectSegmentsAlignement (ap_container a') = ct_objectSegmentsAlignement (ap_container a)"
  shows "state_ok [] ks pd mb al a' c' w'"
  using assms receives_extends [of ids al c ls c'] transfers_extends [of ks a c ids ls c' a'] same_settings_sel(5) [of c c']
  by (auto simp: state_ok_def extends_def)

lemma state_ok_send:
  assumes "state_ok ids ks pd mb al a c w" "extends [] [] c c'" "kept pd mb a c' w'"
  shows "state_ok ids ks pd mb al a c' w'"
  using assms receives_extends_held [of ids al c "[]" c'] transfers_extends [of ks a c "[]" "[]" c' a] same_settings_sel(5) [of c c']
  by (auto simp: state_ok_def extends_def)

lemma accepted_message:
  assumes s: "state_ok [i] ks pd mb al a c w" and m: "client_message al (lc_recvBuffers c ! i)" and so: "storage_ok so content"
  shows "message_accepted (server_accepts so content) i a c"
    and "receive_header i c = Inr (h, d) \<Longrightarrow> mh_msgType h = msg_code IOC_LF_MSG_CONNECT_INIT \<or> (\<exists>q. mh_msgType h = msg_code (request_type q))"
proof -
  obtain h' body r where m': "MessageHeader_ok h'" "lc_recvBuffers c ! i = MessageHeader_wire h' @ body @ r"
      and q: "mh_msgType h' = msg_code IOC_LF_MSG_CONNECT_INIT \<or>
        (\<exists>q. mh_msgType h' = msg_code (request_type q) \<and> body = request_wire q \<and> request_ok al q)"
    using m unfolding client_message_def by blast
  have b: "i < lc_recvBuffersCount c" "length (lc_recvBuffers c ! i) = lc_recvBuffersSize c" "lc_recvBuffersSize c < W64"
    using s by (auto simp: state_ok_def receives_ok_def server_receiveSize_def W64_def)
  obtain d' where d: "receive_header i c = Inr (h', d')" "holds_message d' body"
    using received_message [OF m'(2,1) b] by blast
  have hooks: "lc_hooks c = server_table" "ct_objectSegmentsAlignement (ap_container a) = al" using s by (auto simp: state_ok_def)
  show "message_accepted (server_accepts so content) i a c"
    using q d so hooks server_table_find
    by (auto simp: message_accepted_def server_accepts_def simp del: msg_code.simps request_type.simps)
  show "mh_msgType h = msg_code IOC_LF_MSG_CONNECT_INIT \<or> (\<exists>q. mh_msgType h = msg_code (request_type q))"
    if "receive_header i c = Inr (h, d)" using that d(1) q by auto
qed

text \<open>The answer to a connection.\<close>

lemma onConnInit_state:
  fixes w :: "'s world"
  assumes s: "state_ok [i] ks pd mb al a c w" and r: "onConnInit fi eo rq c w = Inr (c', w')" and i: "rq_msgBufferId rq = i"
  shows "state_ok [] ks pd mb al a c' w'"
proof -
  obtain n m t dst A d res c1 calls where
    send: "sendMessage fi t dst A (d :: LibfabricFirstHandshake) (LibfabricPostActionNop res) (c\<lparr>lc_nextEndpointId := n, lc_remoteLiAddr := m\<rparr>) w = Inr (c1, w')"
    and t: "repostReceive i (c1\<lparr>lc_hookOnEndpointConnect := calls\<rparr>) = Inr c'"
    using r i by (auto simp: onConnInit_def sendMessageNoPollWakeup_def terminate_def Let_def elim!: bindE_InrE split: prod.splits)
  let ?c = "c\<lparr>lc_nextEndpointId := n, lc_remoteLiAddr := m\<rparr>"
  have s0: "state_ok [i] ks pd mb al a ?c w" using s kept_settings(1) by (auto simp: state_ok_def)
  have k1: "kept pd mb a c1 w'" using s0 send_kept(1) [OF _ send] by (simp add: state_ok_def)
  have "state_ok [i] ks pd mb al a c1 w'" by (rule state_ok_send [OF s0 sendMessage_extends [OF send] k1])
  then have s2: "state_ok [i] ks pd mb al a (c1\<lparr>lc_hookOnEndpointConnect := calls\<rparr>) w'" using kept_settings(2) by (auto simp: state_ok_def)
  then have "kept pd mb a c' w'" using repost_kept [OF _ t] by (auto simp: state_ok_def)
  then show ?thesis using state_ok_extends [OF s2 repost_extends [OF t], of a w'] by simp
qed

lemma checkAuth_state:
  fixes w :: "'s world"
  assumes s: "state_ok ids ks pd mb al a c w" and r: "checkAuth fi h client i c w = Inr (ok, c', w')"
  shows "state_ok ids ks pd mb al a c' w'"
proof (cases "c' = c \<and> w' = w")
  case False
  then have send: "sendResponse fi IOC_LF_MSG_BAD_AUTH client (- 1) False c w = Inr (c', w')"
    using r by (auto simp: checkAuth_def elim!: bindE_InrE split: if_splits)
  have "kept pd mb a c' w'" using s send_kept(1) [OF _ send [unfolded sendResponse_def]] by (auto simp: state_ok_def)
  then show ?thesis by (rule state_ok_send [OF s sendResponse_extends(1) [OF send]])
qed (use s in simp)

lemma onRecv_state:
  fixes w :: "'s world" and content :: "'s storage_content"
  assumes s: "state_ok [i] ks pd mb al a c w" and m: "client_message al (lc_recvBuffers c ! i)" and so: "storage_ok so content"
    and r: "onRecv fi eo (run_hook fi so) i a c w = Inr (res, a', c', w')"
  shows "state_ok [] ks pd mb al a' c' w'"
proof -
  note acc = accepted_message [OF s m so]
  have k': "kept pd mb a' c' w'" using s callbacks.onRecv_keeps [OF _ acc(1) r] by (simp add: state_ok_def)
  obtain h d where h: "receive_header i c = Inr (h, d)" using r by (auto simp: onRecv_def elim!: bindE_InrE)
  let ?rq = "\<lparr>rq_lfClientId = mh_lfClientId h, rq_msgBufferId = i, rq_header = h, rq_deserializer = d\<rparr>"
  from acc(2) [OF h] show ?thesis
  proof (elim disjE exE)
    assume "mh_msgType h = msg_code IOC_LF_MSG_CONNECT_INIT"
    then have "onConnInit fi eo ?rq c w = Inr (c', w')" "a' = a"
      using r by (auto simp: onRecv_def h Let_def elim!: bindE_InrE simp del: msg_code.simps)
    then show ?thesis using onConnInit_state [OF s, of fi eo ?rq c' w'] by simp
  next
    fix q
    assume q: "mh_msgType h = msg_code (request_type q)"
    have ne: "msg_code (request_type q) \<noteq> msg_code IOC_LF_MSG_CONNECT_INIT" "msg_code (request_type q) \<noteq> msg_code IOC_LF_MSG_BAD_AUTH"
      "msg_code (request_type q) \<noteq> msg_code IOC_LF_MSG_FATAL_ERROR" by (cases q; simp)+
    obtain ok c1 and w1 :: "'s world" where ca: "checkAuth fi h (mh_lfClientId h) i c w = Inr (ok, c1, w1)"
        and rest: "if \<not> ok then Inr (LF_WAIT_LOOP_UNBLOCK, a, c1, w1) = (Inr (res, a', c', w') :: 's hook_result)
          else (case sm_find (lc_hooks c1) (mh_msgType h) of Some hk \<Rightarrow> onMessage (run_hook fi so) hk ?rq a c1 w1
            | None \<Rightarrow> Inl (AssumeFailed ''Invalid message type'')) = Inr (res, a', c', w')"
      using r ne by (auto simp: onRecv_def h q Let_def elim!: bindE_InrE simp del: msg_code.simps request_type.simps split: if_splits)
    have s1: "state_ok [i] ks pd mb al a c1 w1" by (rule checkAuth_state [OF s ca])
    show ?thesis
    proof (cases ok)
      case False
      then show ?thesis using rest state_ok_drop [OF s1] by simp
    next
      case True
      have "lc_hooks c1 = server_table" using s1 by (simp add: state_ok_def)
      then have hook: "run_hook fi so (request_hook q, ?rq) a c1 w1 = Inr (res, a', c', w')"
        using rest True q server_table_find(1) [of q] by (simp add: onMessage_def del: msg_code.simps request_type.simps)
      have np: "request_hook q \<noteq> HookPingPong" by (cases q) simp_all
      obtain ls where "extends [i] ls c1 c'" "starts ls a a'" using run_hook_handled [OF np hook] by (auto simp: handled_def)
      then show ?thesis using state_ok_extends [OF s1] k' run_hook_alignement [OF np hook] by blast
    qed
  qed
qed

section \<open>Completions\<close>

lemma pop_contexts:
  assumes "pollForCompletion True c = (Some e, c')"
  shows "transfers_ok [] a c \<Longrightarrow> transfers_ok (case transfer_of (entry_action e) of None \<Rightarrow> [] | Some k \<Rightarrow> [k]) a c' \<and> bufferless (entry_action e)"
    "receives_ok [] al c \<Longrightarrow> (case e of
       CqRecv i \<Rightarrow> receives_ok [i] al c' \<and> client_message al (lc_recvBuffers c' ! i)
     | CqDone ctx \<Rightarrow> receives_ok [] al c')"
    "lc_hooks c' = lc_hooks c"
proof -
  note P = pollForCompletion_effect [OF assms]
  have comp: "completions c = e # completions c'" using P(3) by simp
  have s: "fb_ops (lc_fabric c') = fb_ops (lc_fabric c)" "fb_recv (lc_fabric c') = fb_recv (lc_fabric c)" "same_settings c c'"
    using P(1) by (auto simp: same_posted_def)
  note set = same_settings_sel [OF s(3)]
  have recv: "received c = (case e of CqRecv i \<Rightarrow> i # received c' | CqDone ctx \<Rightarrow> received c')"
    by (simp add: received_def comp List.map_filter_def split: cq_entry.split)
  have cnt: "transfer_count [] c k = transfer_count (case transfer_of (entry_action e) of None \<Rightarrow> [] | Some k \<Rightarrow> [k]) c' k" for k
    by (simp add: transfer_count_def contexts_def comp s(1) List.map_filter_def split: option.split)
  show "transfers_ok [] a c \<Longrightarrow> transfers_ok (case transfer_of (entry_action e) of None \<Rightarrow> [] | Some k \<Rightarrow> [k]) a c' \<and> bufferless (entry_action e)"
    unfolding transfers_ok_def cnt by (simp add: contexts_def comp s(1))
  show "receives_ok [] al c \<Longrightarrow> (case e of
       CqRecv i \<Rightarrow> receives_ok [i] al c' \<and> client_message al (lc_recvBuffers c' ! i)
     | CqDone ctx \<Rightarrow> receives_ok [] al c')"
    by (auto simp: receives_ok_def recv s(2) set split: cq_entry.split)
  show "lc_hooks c' = lc_hooks c" by (rule set(5))
qed

lemma transfer_done_ok:
  assumes t: "transfers_ok [k] a c" and r: "transfer_done fi account k client a c w = Inr (res, a', c', w')"
  shows "transfers_ok [] a' c' \<and> extends [] [] c c' \<and> ap_container a' = ap_container a"
proof -
  have cnt: "transfer_count [k] c j = transfer_count [] c j + (if j = k then 1 else 0)" for j by (simp add: transfer_count_def)
  have old: "\<And>j. (case ap_ops a j of None \<Rightarrow> 0 | Some n \<Rightarrow> n) = int (transfer_count [] c j + (if j = k then 1 else 0))"
      "\<And>j. ap_nextOps a \<le> j \<Longrightarrow> ap_ops a j = None" "\<forall>ctx \<in> set (contexts c). bufferless ctx"
    using t unfolding transfers_ok_def cnt by auto
  obtain n where n: "ap_ops a k = Some n" using r by (auto simp: transfer_done_def split: option.splits)
  have nk: "n = int (transfer_count [] c k) + 1" using old(1) [of k] n by simp
  have e: "extends [] [] c c'" "ap_container a' = ap_container a"
    using r n by (auto simp: transfer_done_def elim!: bindE_InrE split: if_splits intro: sendResponse_extends)
  have a': "ap_ops a' = (if n = 1 then (ap_ops a)(k := None) else (ap_ops a)(k \<mapsto> n - 1))" "ap_nextOps a' = ap_nextOps a"
    using r n by (auto simp: transfer_done_def elim!: bindE_InrE split: if_splits)
  have "(case ap_ops a' j of None \<Rightarrow> 0 | Some n \<Rightarrow> n) = int (transfer_count [] c j)" for j
    using old(1) [of j] nk by (simp add: a')
  moreover have "ap_ops a' j = None" if "ap_nextOps a' \<le> j" for j
    using old(2) [of j] that n by (auto simp: a')
  ultimately have "transfers_ok [] a' c" using old(3) by (simp add: transfers_ok_def)
  then show ?thesis using transfers_extends [OF _ e(1), of "[]" a' a'] e by simp
qed

lemma receive_state:
  assumes s: "state_ok [] ks pd mb al a c w" and p: "pollForCompletion True c = (Some (CqRecv i), c')" and ks: "ks = []"
  shows "state_ok [i] [] pd mb al a c' w" "client_message al (lc_recvBuffers c' ! i)"
  using s receive_keeps [OF _ p] pop_contexts [OF p] ks by (auto simp: state_ok_def transfer_of_def)

lemma freeBuffer_bufferless:
  assumes "freeBuffer act c w = Inr (c', w')" "bufferless (Some act)"
  shows "c' = c"
  using assms by (auto simp: freeBuffer_def bufferless_def elim!: bindE_InrE split: if_splits)

lemma round_state:
  fixes w :: "'s world" and content :: "'s storage_content"
  assumes s: "state_ok [] [] pd mb al a c w" and so: "storage_ok so content"
    and r: "poll_round fi eo (run_hook fi so) (run_fun fi) a c w = Inr (stop, a', c', w')"
  shows "state_ok [] [] pd mb al a' c' w'"
proof -
  have k: "kept pd mb a c w" using s by (simp add: state_ok_def)
  have "callbacks.next_accepted TYPE('s) so content a c"
    unfolding callbacks.next_accepted_def using receive_state [OF s] accepted_message(1) so by blast
  then have k': "kept pd mb a' c' w'" by (rule callbacks.poll_round_keeps [OF k _ r])
  obtain e c1 where p: "pollForCompletion True c = (e, c1)" by force
  show ?thesis
  proof (cases e)
    case None
    note P = pollForCompletion_effect [OF p]
    have "a' = a" "c' = c1" using r p None by (auto simp: poll_round_def)
    moreover have "extends [] [] c c1" using P None by (auto simp: extends_def same_posted_def List.map_filter_def)
    ultimately show ?thesis using state_ok_extends [OF s, of "[]" c1 a w'] k' by simp
  next
    case (Some e')
    show ?thesis
    proof (cases e')
      case (CqRecv i)
      note R = receive_state [OF s p [unfolded Some CqRecv] refl]
      show ?thesis
      proof (cases "lc_disableReceive c1")
        case True
        then show ?thesis using r p Some CqRecv state_ok_drop [OF R(1)] by (simp add: poll_round_def)
      next
        case False
        then obtain res where "onRecv fi eo (run_hook fi so) i a c1 w = Inr (res, a', c', w')"
          using r p Some CqRecv by (auto simp: poll_round_def elim!: bindE_InrE)
        then show ?thesis by (rule onRecv_state [OF R so])
      qed
    next
      case (CqDone ctx)
      note C = pop_contexts [OF p [unfolded Some CqDone]]
      have c1: "lc_hooks c1 = server_table" "receives_ok [] al c1" "ct_objectSegmentsAlignement (ap_container a) = al"
          and t: "transfers_ok (case transfer_of ctx of None \<Rightarrow> [] | Some k \<Rightarrow> [k]) a c1" "bufferless ctx"
        using s C by (auto simp: state_ok_def)
      have "lc_hooks c' = server_table \<and> receives_ok [] al c' \<and> transfers_ok [] a' c' \<and> ap_container a' = ap_container a"
      proof (cases ctx)
        case None
        then show ?thesis using r p Some CqDone c1 t(1)
          by (auto simp: poll_round_def decr_pending_def transfer_of_def elim!: bindE_InrE)
      next
        case act: (Some act)
        obtain res c2 c3 and w2 :: "'s world" where run: "runPostAction (run_fun fi) act a c1 w = Inr (res, a', c2, w2)"
            and f: "freeBuffer act c2 w2 = Inr (c3, w')" and d: "decr_pending c3 = Inr c'"
          using r p Some CqDone act by (auto simp: poll_round_def elim!: bindE_InrE)
        have c3: "c3 = c2" using freeBuffer_bufferless [OF f] t(2) act by simp
        have "lc_hooks c2 = server_table \<and> receives_ok [] al c2 \<and> transfers_ok [] a' c2 \<and> ap_container a' = ap_container a"
        proof (cases "pa_body act")
          case (LibfabricPostActionNop x)
          then show ?thesis using run c1 t(1) act by (auto simp: runPostAction_def transfer_of_def)
        next
          case (LibfabricPostActionFunction g)
          then obtain k account client where k: "transfer_of ctx = Some k" "transfer_done fi account k client a c1 w = Inr (res, a', c2, w2)"
            using t(2) run act by (cases g) (auto simp: bufferless_def transfer_of_def runPostAction_def run_fun_def)
          have "transfers_ok [] a' c2 \<and> extends [] [] c1 c2 \<and> ap_container a' = ap_container a"
            by (rule transfer_done_ok [OF _ k(2)]) (use t(1) k(1) in simp)
          then show ?thesis using c1 receives_extends [of "[]" al c1 "[]" c2] same_settings_sel(5) [of c1 c2] by (auto simp: extends_def)
        qed
        then show ?thesis using d c3 by (auto simp: decr_pending_def elim!: bindE_InrE)
      qed
      then show ?thesis using k' c1(3) by (simp add: state_ok_def)
    qed
  qed
qed

section \<open>The fabric\<close>

text \<open>A message arrives in a posted receive buffer; an operation completes.\<close>

definition deliver :: "nat \<Rightarrow> byte list \<Rightarrow> server_connection \<Rightarrow> server_connection" where
  "deliver i bytes c =
     c\<lparr>lc_recvBuffers := (lc_recvBuffers c)[i := bytes @ drop (length bytes) (lc_recvBuffers c ! i)],
       lc_fabric := (lc_fabric c)\<lparr>fb_recv := remove1 i (fb_recv (lc_fabric c)), fb_cq := fb_cq (lc_fabric c) @ [CqEntry (CqRecv i)]\<rparr>\<rparr>"

definition complete :: "nat \<Rightarrow> server_connection \<Rightarrow> server_connection" where
  "complete j c = (let ops = fb_ops (lc_fabric c) in
     c\<lparr>lc_fabric := (lc_fabric c)\<lparr>fb_ops := take j ops @ drop (Suc j) ops,
         fb_cq := fb_cq (lc_fabric c) @ [CqEntry (CqDone (op_context (ops ! j)))]\<rparr>\<rparr>)"

definition answer_codes :: "int list \<Rightarrow> bool \<Rightarrow> server_connection \<Rightarrow> server_connection" where
  "answer_codes codes failed c =
     c\<lparr>lc_fabric := (lc_fabric c)\<lparr>fb_codes := codes, fb_cq := fb_cq (lc_fabric c) @ [if failed then CqFailed else CqAgain]\<rparr>\<rparr>"

lemma kept_connection:
  assumes "kept pd mb a c w" "mset (inflight c') = mset (inflight c)" "pending_count c' = pending_count c"
    "lc_pendingAction c' = lc_pendingAction c" "set (fb_ops (lc_fabric c')) \<subseteq> set (fb_ops (lc_fabric c))"
    "lc_clientId c' = lc_clientId c" "lc_tcpClientId c' = lc_tcpClientId c" "lc_tcpClientKey c' = lc_tcpClientKey c"
  shows "kept pd mb a c' w"
  using assms mset_eq_setD [OF assms(2)] msg_buffers_perm [OF assms(2)]
  unfolding kept_def conn_ok_def net_ok_def foreign_ok_def by fastforce

lemma deliver_state:
  assumes s: "state_ok [] [] pd mb al a c w" and i: "i \<in> set (fb_recv (lc_fabric c))" and n: "length bytes \<le> lc_recvBuffersSize c"
    and m: "client_message al (bytes @ drop (length bytes) (lc_recvBuffers c ! i))"
  shows "state_ok [] [] pd mb al a (deliver i bytes c) w"
proof -
  let ?c = "deliver i bytes c"
  have comp: "completions ?c = completions c @ [CqRecv i]" by (simp add: completions_def deliver_def)
  have flds: "fb_ops (lc_fabric ?c) = fb_ops (lc_fabric c)" "lc_hooks ?c = lc_hooks c" by (simp_all add: deliver_def)
  have "kept pd mb a ?c w"
    by (rule kept_connection [of pd mb a c]) (use s in \<open>simp_all add: state_ok_def inflight_def pending_count_def comp flds, simp_all add: deliver_def\<close>)
  moreover have "transfers_ok [] a ?c"
    using s comp flds by (auto simp: state_ok_def transfers_ok_def transfer_count_def contexts_def transfer_of_def bufferless_def List.map_filter_def)
  moreover have "receives_ok [] al ?c"
  proof -
    have R: "receives_ok [] al c" using s by (simp add: state_ok_def)
    have recv: "received ?c = received c @ [i]" by (simp add: received_def comp List.map_filter_def)
    have ne: "i \<notin> set (received c)" "i < length (lc_recvBuffers c)" using R i by (auto simp: receives_ok_def)
    have len: "length (lc_recvBuffers c ! i) = lc_recvBuffersSize c" using R ne(2) by (simp add: receives_ok_def)
    have "length (bytes @ drop (length bytes) (lc_recvBuffers c ! i)) = lc_recvBuffersSize c" using len n by simp
    then have sizes: "\<forall>b \<in> set (lc_recvBuffers ?c). length b = lc_recvBuffersSize c"
      using R by (auto simp: deliver_def receives_ok_def dest: set_update_subset_insert [THEN subsetD])
    have mem: "client_message al (lc_recvBuffers ?c ! j)" if "j \<in> set (received ?c)" for j
      using that [unfolded recv] m R ne by (cases "j = i") (auto simp: deliver_def receives_ok_def)
    have f: "lc_recvBuffersCount ?c = lc_recvBuffersCount c" "lc_recvBuffersSize ?c = lc_recvBuffersSize c"
      "fb_recv (lc_fabric ?c) = remove1 i (fb_recv (lc_fabric c))" "length (lc_recvBuffers ?c) = length (lc_recvBuffers c)"
      by (simp_all add: deliver_def)
    have D: "distinct (fb_recv (lc_fabric c))" "distinct (received c)" "set (fb_recv (lc_fabric c)) \<inter> set (received c) = {}"
      "set (fb_recv (lc_fabric c) @ received c) \<subseteq> {..<lc_recvBuffersCount c}" using R by (auto simp: receives_ok_def)
    have "distinct (remove1 i (fb_recv (lc_fabric c)) @ received c @ [i])" using D ne(1) by (auto simp: set_remove1_eq)
    moreover have "set (remove1 i (fb_recv (lc_fabric c)) @ received c @ [i]) \<subseteq> {..<lc_recvBuffersCount c}"
      using D i by (auto simp: set_remove1_eq)
    ultimately show ?thesis using R sizes mem unfolding receives_ok_def f recv by simp
  qed
  ultimately show ?thesis using s flds by (simp add: state_ok_def)
qed

lemma complete_state:
  assumes s: "state_ok [] [] pd mb al a c w" and j: "j < length (fb_ops (lc_fabric c))"
  shows "state_ok [] [] pd mb al a (complete j c) w"
proof -
  let ?c = "complete j c" and ?ops = "fb_ops (lc_fabric c)"
  let ?op = "?ops ! j"
  have comp: "completions ?c = completions c @ [CqDone (op_context ?op)]" by (simp add: completions_def complete_def Let_def)
  have ops: "fb_ops (lc_fabric ?c) = take j ?ops @ drop (Suc j) ?ops" by (simp add: complete_def Let_def)
  have split: "?ops = take j ?ops @ ?op # drop (Suc j) ?ops" using j by (simp add: id_take_nth_drop)
  have ctx: "mset (contexts ?c) = mset (contexts c)"
    unfolding contexts_def ops comp by (subst (3) split) (simp add: ac_simps)
  have mf: "mset (List.map_filter f (contexts ?c)) = mset (List.map_filter f (contexts c))" for f :: "server_fun post_action option \<Rightarrow> 'b option"
    by (simp add: List.map_filter_def ctx)
  have "mset (buffers_of (contexts ?c)) = mset (buffers_of (contexts c))" unfolding buffers_of_def by (simp add: mf)
  then have fl: "mset (inflight ?c) = mset (inflight c)" by (simp add: inflight_def contexts_def)
  have cnt: "transfer_count [] ?c k = transfer_count [] c k" for k
    unfolding transfer_count_def count_mset [symmetric] append_Nil mf ..
  have pend: "pending_count ?c = pending_count c" using j by (simp add: pending_count_def comp ops)
  have sub: "set (fb_ops (lc_fabric ?c)) \<subseteq> set ?ops" unfolding ops by (auto dest: in_set_takeD in_set_dropD)
  have flds: "lc_hooks ?c = lc_hooks c" "lc_pendingAction ?c = lc_pendingAction c" "lc_clientId ?c = lc_clientId c"
    "lc_tcpClientId ?c = lc_tcpClientId c" "lc_tcpClientKey ?c = lc_tcpClientKey c" "lc_recvBuffers ?c = lc_recvBuffers c"
    "lc_recvBuffersCount ?c = lc_recvBuffersCount c" "lc_recvBuffersSize ?c = lc_recvBuffersSize c" "fb_recv (lc_fabric ?c) = fb_recv (lc_fabric c)"
    by (simp_all add: complete_def Let_def)
  have "kept pd mb a ?c w"
    by (rule kept_connection [OF _ fl pend flds(2) sub flds(3-5)]) (use s in \<open>simp add: state_ok_def\<close>)
  moreover have "transfers_ok [] a ?c"
    using s mset_eq_setD [OF ctx] by (simp add: state_ok_def transfers_ok_def cnt)
  moreover have "received ?c = received c" by (simp add: received_def comp List.map_filter_def)
  ultimately show ?thesis using s flds by (simp add: state_ok_def receives_ok_def)
qed

lemma answer_codes_state: "state_ok [] [] pd mb al a c w \<Longrightarrow> state_ok [] [] pd mb al a (answer_codes codes failed c) w"
proof -
  assume s: "state_ok [] [] pd mb al a c w"
  let ?c = "answer_codes codes failed c"
  have comp: "completions ?c = completions c" by (simp add: completions_def answer_codes_def)
  have ops: "fb_ops (lc_fabric ?c) = fb_ops (lc_fabric c)" "fb_recv (lc_fabric ?c) = fb_recv (lc_fabric c)" by (simp_all add: answer_codes_def)
  have set: "same_settings c ?c" by (simp add: same_settings_def answer_codes_def)
  have "kept pd mb a ?c w"
    by (rule kept_connection [of pd mb a c])
      (use s same_settings_sel [OF set] in \<open>simp_all add: state_ok_def inflight_def pending_count_def comp ops, simp_all add: answer_codes_def\<close>)
  then show ?thesis using s comp ops same_settings_sel [OF set]
    by (simp add: state_ok_def receives_ok_def received_def transfers_ok_def transfer_count_def contexts_def)
qed

text \<open>The data of an RDMA read arrives in the memory of a segment.\<close>

lemma container_write_owned:
  assumes ok: "container_ok X mb w ct" and k: "k \<in> owned_blocks w" and wr: "write_mem (Ptr k j) ys (mem_heap (w_mem w)) = Inr h"
  shows "container_ok X mb (w_set_heap h w) ct"
proof -
  note C = container_okD [OF ok]
  have "fr_data X k = None" using k world_okD(2) [OF C(3)] by (auto simp: fr_blocks_def)
  note W = world_write [OF C(3) wr this]
  have len: "map_option length (shared_bytes (w_set_heap h w) i) = map_option length (shared_bytes w i)" for i
    unfolding shared_bytes_def W(2)
  proof (cases "w_shared w i")
    case (Some e)
    obtain osm n where e: "e = (osm, n)" by force
    show "map_option length (case w_shared w i of None \<Rightarrow> None | Some (osm, _) \<Rightarrow> (case osm_buffer osm of NULL \<Rightarrow> None
        | Ptr k _ \<Rightarrow> w_blocks (w_set_heap h w) k)) = map_option length (case w_shared w i of None \<Rightarrow> None
        | Some (osm, _) \<Rightarrow> (case osm_buffer osm of NULL \<Rightarrow> None | Ptr k _ \<Rightarrow> w_blocks w k))"
    proof (cases "osm_buffer osm")
      case (Ptr q x)
      show ?thesis
      proof (cases "q = k")
        case True
        obtain xs where "w_blocks w k = Some xs" using wr by (auto split: option.splits if_splits)
        then show ?thesis using W(6) [of xs] True Some e Ptr by simp
      qed (use W(5) Some e Ptr in simp)
    qed (use Some e in simp)
  qed simp
  have seg: "seg_ok (w_set_heap h w) q seg" if so: "seg_ok w q seg" for q seg
  proof -
    obtain i xs where i: "os_memory seg = Some i" "shared_bytes w i = Some xs" "xs \<noteq> []" "os_offset seg + length xs = Suc q" "Suc q < W64"
      using so by (auto simp: seg_ok_def seg_bytes_def split: option.splits)
    obtain ys where "shared_bytes (w_set_heap h w) i = Some ys" "length ys = length xs" using len [of i] i(2) by auto
    then show ?thesis using i by (auto simp: seg_ok_def seg_bytes_def)
  qed
  have "member_ok mb al (w_set_heap h w) q ob" if "member_ok mb al w q ob" for al q ob
    using that seg by (auto simp: member_ok_def map_ok_def)
  then show ?thesis using ok W(1) unfolding container_ok_def by blast
qed

section \<open>Steps\<close>

text \<open>
  The steps of the server.  \<open>al\<close> is its segment alignment; a delivered message is one of a client.
  The data of an RDMA read goes to a segment that is still alive: a client that replaces an
  object by a full copy on write while another one writes to it is outside of the relation, as
  are the messages of the ping benchmark.  An answer of the storage, the endpoint or the memory
  that makes the program abort leads nowhere.

  A round is one step.  The disconnection of a client, which runs in the TCP thread, and the change of the storage come
  between rounds.  This is an assumption on the schedule that the program does not enforce: the map of the objects has no
  lock, and a disconnection in the middle of a full copy on write meets a null pointer (\<open>disconnect_during_full_cow\<close> of
  theory Container).
\<close>

inductive server_step :: "fabric_ops \<Rightarrow> endpoint_ops \<Rightarrow> 's storage_ops \<Rightarrow> 's server \<Rightarrow> 's server \<Rightarrow> bool"
  for fi eo so where
  step_round: "server_round fi eo so s = Inr s' \<Longrightarrow> server_step fi eo so s s'"
| step_message: "i \<in> set (fb_recv (lc_fabric (sv_connection s))) \<Longrightarrow> length bytes \<le> lc_recvBuffersSize (sv_connection s) \<Longrightarrow>
    client_message server_alignement (bytes @ drop (length bytes) (lc_recvBuffers (sv_connection s) ! i)) \<Longrightarrow>
    server_step fi eo so s (s\<lparr>sv_connection := deliver i bytes (sv_connection s)\<rparr>)"
| step_complete: "j < length (fb_ops (lc_fabric (sv_connection s))) \<Longrightarrow>
    server_step fi eo so s (s\<lparr>sv_connection := complete j (sv_connection s)\<rparr>)"
| step_codes: "server_step fi eo so s (s\<lparr>sv_connection := answer_codes codes failed (sv_connection s)\<rparr>)"
| step_data: "FiRead a iov remote key ctx \<in> set (fb_ops (lc_fabric (sv_connection s))) \<Longrightarrow> v \<in> set iov \<Longrightarrow>
    ptr_add (iov_base v) j = Ptr k x \<Longrightarrow> j + length bytes \<le> iov_len v \<Longrightarrow> k \<in> owned_blocks (sv_world s) \<Longrightarrow>
    write_mem (Ptr k x) bytes (mem_heap (w_mem (sv_world s))) = Inr h \<Longrightarrow>
    server_step fi eo so s (s\<lparr>sv_world := w_set_heap h (sv_world s)\<rparr>)"
| step_connect: "tcp_connect key s = Inr s' \<Longrightarrow> server_step fi eo so s s'"
| step_disconnect: "Server_onClientDisconnect client s = Inr s' \<Longrightarrow> server_step fi eo so s s'"
| step_storage: "Server_setStorageBackend sb s = Inr s' \<Longrightarrow> server_step fi eo so s s'"
| step_hook: "server_step fi eo so s (setOnClientConnect s)"
| step_stats: "server_step fi eo so s (stats_reset s)"

text \<open>The process before the server is built.\<close>

definition fresh_world :: "'s world \<Rightarrow> bool" where
  "fresh_world w \<longleftrightarrow> heap_ok (mem_heap (w_mem w)) \<and> w_shared w = (\<lambda>_. None) \<and> ld_msgBuffers (mem_domain (w_mem w)) = []"

inductive server_reachable :: "fabric_ops \<Rightarrow> endpoint_ops \<Rightarrow> 's storage_ops \<Rightarrow> 's server \<Rightarrow> bool" for fi eo so where
  reach_init: "fresh_world w \<Longrightarrow> Server_init cfg junk w = Inr s \<Longrightarrow> server_reachable fi eo so s"
| reach_step: "server_reachable fi eo so s \<Longrightarrow> server_step fi eo so s s' \<Longrightarrow> server_reachable fi eo so s'"

definition server_context :: net_context where
  "server_context = \<lparr>nc_held = 0, nc_foreign = (\<lambda>_. None), nc_size = IOC_POST_RECEIVE_READ\<rparr>"

definition server_ok :: "'s server \<Rightarrow> bool" where
  "server_ok s \<longleftrightarrow> state_ok [] [] server_context 0 server_alignement (sv_app s) (sv_connection s) (sv_world s)"

section \<open>The invariant\<close>

lemma kept_world:
  assumes "kept pd mb a c w" "k \<in> owned_blocks w" "write_mem (Ptr k x) bytes (mem_heap (w_mem w)) = Inr h"
  shows "kept pd mb a c (w_set_heap h w)"
  using assms container_write_owned unfolding kept_def by blast

lemma state_ok_container:
  assumes "state_ok ids ks pd mb al a c w" "\<And>X. container_ok X mb w (ap_container a) \<Longrightarrow> container_ok X mb w ct"
    "ct_objectSegmentsAlignement ct = ct_objectSegmentsAlignement (ap_container a)"
  shows "state_ok ids ks pd mb al (a\<lparr>ap_container := ct\<rparr>) c w"
  using assms unfolding state_ok_def kept_def transfers_ok_def by auto

lemma state_ok_registry [simp]:
  "state_ok ids ks pd mb al a (c\<lparr>lc_clientRegistry := r\<rparr>) w = state_ok ids ks pd mb al a c w"
  "state_ok ids ks pd mb al a (c\<lparr>lc_hookOnEndpointConnect := f\<rparr>) w = state_ok ids ks pd mb al a c w"
  by (simp_all add: state_ok_def kept_def conn_ok_def net_ok_def inflight_def pending_count_def completions_def receives_ok_def
      received_def transfers_ok_def transfer_count_def contexts_def)

lemma step_keeps:
  fixes so :: "'s storage_ops" and content :: "'s storage_content"
  assumes "server_step fi eo so s s'" "storage_ok so content" "server_ok s"
  shows "server_ok s'"
  using assms
proof (induction rule: server_step.induct)
  case (step_round s s')
  obtain f a c w where p: "poll 1 fi eo (run_hook fi so) (run_fun fi) False (sv_app s) (sv_connection s) (sv_world s) = Inr (f, a, c, w)"
      and s': "s' = s\<lparr>sv_app := a, sv_connection := c, sv_world := w\<rparr>"
    using step_round.hyps by (auto simp: server_round_def elim!: bindE_InrE)
  obtain stop where "poll_round fi eo (run_hook fi so) (run_fun fi) (sv_app s) (sv_connection s) (sv_world s) = Inr (stop, a, c, w)"
    using p by (auto elim!: bindE_InrE)
  from round_state [OF _ step_round.prems(1) this] show ?case using step_round.prems(2) s' by (simp add: server_ok_def)
next
  case (step_message i s bytes)
  then show ?case using deliver_state by (simp add: server_ok_def)
next
  case (step_complete j s)
  then show ?case using complete_state by (simp add: server_ok_def)
next
  case (step_codes s codes failed)
  then show ?case using answer_codes_state by (simp add: server_ok_def)
next
  case (step_data a iov remote key ctx s v j k x bytes h)
  show ?case using step_data.prems(2) kept_world [OF _ step_data.hyps(5,6)] by (simp add: server_ok_def state_ok_def)
next
  case (step_connect key s s')
  then show ?case by (auto simp: server_ok_def tcp_connect_def Server_onClientConnect_def elim!: bindE_InrE)
next
  case (step_disconnect client s s')
  obtain ct r where ct: "onClientDisconnect client (ap_container (sv_app s)) = Inr ct"
      "s' = s\<lparr>sv_connection := (sv_connection s)\<lparr>lc_clientRegistry := r\<rparr>, sv_app := (sv_app s)\<lparr>ap_container := ct\<rparr>\<rparr>"
    using step_disconnect.hyps by (auto simp: Server_onClientDisconnect_def elim!: bindE_InrE)
  have "ct_objectSegmentsAlignement ct = ct_objectSegmentsAlignement (ap_container (sv_app s))"
    using ct(1) by (auto simp: onClientDisconnect_def elim!: bindE_InrE)
  then show ?case using step_disconnect.prems(2) by (auto simp: server_ok_def ct(2) intro!: state_ok_container elim: container_disconnect [OF _ ct(1)])
next
  case (step_storage sb s s')
  obtain ct where ct: "Container_setStorageBackend sb (ap_container (sv_app s)) = Inr ct" "s' = s\<lparr>sv_app := (sv_app s)\<lparr>ap_container := ct\<rparr>\<rparr>"
    using step_storage.hyps by (auto simp: Server_setStorageBackend_def elim!: bindE_InrE)
  have "ct_objectSegmentsAlignement ct = ct_objectSegmentsAlignement (ap_container (sv_app s))"
    using ct(1) by (auto simp: Container_setStorageBackend_def elim!: bindE_InrE)
  then show ?case using step_storage.prems(2) by (auto simp: server_ok_def ct(2) intro!: state_ok_container elim: container_set_storage [OF _ ct(1)])
next
  case (step_hook s)
  then show ?case by (simp add: server_ok_def setOnClientConnect_def setHooks_def)
next
  case (step_stats s)
  then show ?case by (simp add: server_ok_def stats_reset_def state_ok_def kept_def transfers_ok_def)
qed

text \<open>Construction posts every receive buffer.\<close>

lemma postReceives_loop_eq:
  "fb_codes (lc_fabric c) = [] \<Longrightarrow> \<forall>i \<in> set ids. i < lc_recvBuffersCount c \<Longrightarrow>
   postReceives_loop ids fresh c = Inr (c\<lparr>lc_recvBuffers := lc_recvBuffers c @ replicate (length ids) fresh,
     lc_fabric := (lc_fabric c)\<lparr>fb_recv := fb_recv (lc_fabric c) @ ids\<rparr>\<rparr>)"
proof (induction ids arbitrary: c)
  case (Cons i ids)
  let ?c = "c\<lparr>lc_recvBuffers := lc_recvBuffers c @ [fresh], lc_fabric := (lc_fabric c)\<lparr>fb_recv := fb_recv (lc_fabric c) @ [i]\<rparr>\<rparr>"
  have "repostReceive i (c\<lparr>lc_recvBuffers := lc_recvBuffers c @ [fresh]\<rparr>) = Inr ?c"
    using Cons.prems by (simp add: repostReceive_def)
  then show ?case using Cons.IH [of ?c] Cons.prems by (simp add: replicate_append_same)
qed simp

lemma init_connection:
  assumes "Server_init cfg junk w = Inr s"
  shows "\<exists>f. lc_fabric (sv_connection s) = \<lparr>fb_codes = [], fb_cq = [], fb_ops = [], fb_recv = [0..<128]\<rparr> \<and>
    lc_recvBuffers (sv_connection s) = replicate 128 f \<and> length f = server_receiveSize"
    "lc_recvBuffersCount (sv_connection s) = 128" "lc_recvBuffersSize (sv_connection s) = server_receiveSize"
    "lc_cqEntries (sv_connection s) = []" "lc_pendingAction (sv_connection s) = 0" "lc_hooks (sv_connection s) = server_table"
    "lc_clientId (sv_connection s) = W64 - 1" "lc_tcpClientId (sv_connection s) = 0" "lc_tcpClientKey (sv_connection s) = 0"
    "\<not> lc_disableReceive (sv_connection s)" "lc_nextEndpointId (sv_connection s) = 0" "lc_remoteLiAddr (sv_connection s) = []"
    "lc_checkClientAuth (sv_connection s) = cf_clientAuth cfg"
proof -
  let ?f = "map junk [0..<server_receiveSize]"
  let ?c = "(LibfabricConnection_init (\<not> cf_activePolling cfg) :: server_connection)\<lparr>lc_recvBuffersCount := 128, lc_recvBuffersSize := server_receiveSize,
     lc_recvBuffers := replicate 128 ?f, lc_fabric := \<lparr>fb_codes = [], fb_cq = [], fb_ops = [], fb_recv = [0..<128]\<rparr>\<rparr>"
  have post: "postReceives junk server_receiveSize 128 (LibfabricConnection_init (\<not> cf_activePolling cfg)) = Inr ?c"
    unfolding postReceives_def by (subst postReceives_loop_eq) (simp_all add: LibfabricConnection_init_def)
  have reg: "foldl (\<lambda>c (t, h). registerHook (msg_code t) (UserHook h) c) c hs =
      c\<lparr>lc_hooks := foldl (\<lambda>m (t, h). sm_set (msg_code t) (UserHook h) m) (lc_hooks c) hs\<rparr>" for c :: server_connection and hs
    by (induction hs arbitrary: c) (auto simp: registerHook_def)
  have "sv_connection s = (if cf_clientAuth cfg then setCheckClientAuth True ?c else ?c)\<lparr>lc_hooks := server_table\<rparr>"
    using assms post unfolding Server_init_def server_table_def
    by (auto simp: reg setCheckClientAuth_def LibfabricConnection_init_def Let_def elim!: bindE_InrE)
  then show "\<exists>f. lc_fabric (sv_connection s) = \<lparr>fb_codes = [], fb_cq = [], fb_ops = [], fb_recv = [0..<128]\<rparr> \<and>
    lc_recvBuffers (sv_connection s) = replicate 128 f \<and> length f = server_receiveSize"
    "lc_recvBuffersCount (sv_connection s) = 128" "lc_recvBuffersSize (sv_connection s) = server_receiveSize"
    "lc_cqEntries (sv_connection s) = []" "lc_pendingAction (sv_connection s) = 0" "lc_hooks (sv_connection s) = server_table"
    "lc_clientId (sv_connection s) = W64 - 1" "lc_tcpClientId (sv_connection s) = 0" "lc_tcpClientKey (sv_connection s) = 0"
    "\<not> lc_disableReceive (sv_connection s)" "lc_nextEndpointId (sv_connection s) = 0" "lc_remoteLiAddr (sv_connection s) = []"
    "lc_checkClientAuth (sv_connection s) = cf_clientAuth cfg"
    by (auto simp: setCheckClientAuth_def LibfabricConnection_init_def)
qed

lemma init_world:
  assumes "Server_init cfg junk w = Inr s"
  shows "sv_world s = w\<lparr>w_mem := (w_mem w)\<lparr>mem_domain := (mem_domain (w_mem w))\<lparr>ld_msgBufferSize := IOC_POST_RECEIVE_READ\<rparr>\<rparr>,
      w_backends := (w_backends w)(0 \<mapsto> MemoryBackendCache (MemoryBackendMalloc True) [] [])\<rparr>"
    "ap_container (sv_app s) = Container_init False 0 server_alignement" "ap_ops (sv_app s) = (\<lambda>_. None)"
  using assms unfolding Server_init_def setMsgBufferSize_def by (auto simp: Let_def elim!: bindE_InrE)

lemma post_receive_read: "IOC_POST_RECEIVE_READ < W64" "45 \<le> IOC_POST_RECEIVE_READ"
  by (simp_all add: IOC_POST_RECEIVE_READ_def sizeof_LibfabricMessageHeader_def IOC_STRUCT_MAX_def IOC_EAGER_MAX_READ_def W64_def)

lemma init_returns: "ld_msgBuffers (mem_domain (w_mem w)) = [] \<Longrightarrow> \<exists>s. Server_init cfg junk w = Inr s"
  unfolding Server_init_def postReceives_def
  by (subst postReceives_loop_eq) (auto simp: LibfabricConnection_init_def setMsgBufferSize_def Let_def IOC_POST_RECEIVE_WRITE_def
      sizeof_LibfabricMessageHeader_def IOC_STRUCT_MAX_def IOC_EAGER_MAX_WRITE_def)

lemma init_ok:
  fixes w :: "'s world"
  assumes w: "fresh_world w" and r: "Server_init cfg junk w = Inr s"
  shows "server_ok s"
proof -
  let ?c = "sv_connection s" and ?w = "sv_world s"
  let ?X = "\<lparr>fr_temp = {}, fr_data = (\<lambda>_. None), fr_msgBuffers = [], fr_msgBufferSize = IOC_POST_RECEIVE_READ\<rparr>"
  note W = init_world [OF r] and C = init_connection [OF r]
  obtain f where f: "lc_fabric ?c = \<lparr>fb_codes = [], fb_cq = [], fb_ops = [], fb_recv = [0..<128]\<rparr>"
      "lc_recvBuffers ?c = replicate 128 f" "length f = server_receiveSize" using C(1) by blast
  have comp: "completions ?c = []" using f(1) C(4) by (simp add: completions_def)
  have "world_ok 0 (ct_refs []) ?X ?w"
    using w by (auto simp: W world_ok_def fresh_world_def owned_blocks_def backends.in_use_def frame_ok_def fr_blocks_def)
  then have "container_ok ?X 0 ?w (ap_container (sv_app s))" by (simp add: W(2) container_ok_def Container_init_def)
  moreover have "conn_ok server_context ?X ?c"
    using f(1) C post_receive_read
    by (simp add: conn_ok_def net_ok_def msg_buffers_ok_def foreign_ok_def server_context_def inflight_def pending_count_def comp W64_def)
  ultimately have "kept server_context 0 (sv_app s) ?c ?w" by (auto simp: kept_def)
  moreover have "receives_ok [] server_alignement ?c"
    using f C by (auto simp: receives_ok_def received_def comp server_receiveSize_def W64_def List.map_filter_def)
  moreover have "transfers_ok [] (sv_app s) ?c"
    using f(1) W(3) by (auto simp: transfers_ok_def transfer_count_def contexts_def comp List.map_filter_def)
  ultimately show ?thesis using W(2) C(6) by (simp add: server_ok_def state_ok_def Container_init_def)
qed

lemma reachable_ok:
  fixes so :: "'s storage_ops" and content :: "'s storage_content"
  assumes "server_reachable fi eo so s" "storage_ok so content"
  shows "server_ok s"
  using assms(1) by (induction rule: server_reachable.induct) (auto intro: init_ok step_keeps [OF _ assms(2)])

end
