(* ===== verification/Tcp.thy ===== *)
theory Tcp
  imports Server_Inv
begin

text \<open>
  The TCP connection beside the fabric (src/base/network/TcpServer.cpp, TcpClient.cpp): the server
  gives each client its identifier and its key, and learns from the end of the connection that the
  client is gone.  A socket is the bytes in transit and the results of the calls to come; an empty
  list of results means that every call transfers all it is asked for.
\<close>

section \<open>Sockets\<close>

record socket =
  sk_bytes :: "byte list"
  sk_results :: "int list"

definition call_result :: "nat \<Rightarrow> socket \<Rightarrow> int \<times> int list" where
  "call_result n sk = (case sk_results sk of [] \<Rightarrow> (int n, []) | r # rs \<Rightarrow> (min r (int n), rs))"

definition sock_write :: "byte list \<Rightarrow> socket \<Rightarrow> int \<times> socket" where
  "sock_write bs sk = (let (rc, rs) = call_result (length bs) sk in
     (rc, \<lparr>sk_bytes = sk_bytes sk @ take (nat rc) bs, sk_results = rs\<rparr>))"

definition sock_read :: "size_t \<Rightarrow> socket \<Rightarrow> int \<times> byte list \<times> socket" where
  "sock_read n sk = (let (rc, rs) = call_result (min n (length (sk_bytes sk))) sk in
     (rc, take (nat rc) (sk_bytes sk), \<lparr>sk_bytes = drop (nat rc) (sk_bytes sk), sk_results = rs\<rparr>))"

text \<open>A call whose result must be the whole size.\<close>

definition write_all :: "byte list \<Rightarrow> socket \<Rightarrow> socket result" where
  "write_all bs sk = (let (rc, sk) = sock_write bs sk in
     bindE (assumeE (rc = int (length bs)) ''Invalid write() size !'') (\<lambda>_. Inr sk))"

definition read_all :: "size_t \<Rightarrow> socket \<Rightarrow> (byte list \<times> socket) result" where
  "read_all n sk = (let (rc, bs, sk) = sock_read n sk in
     bindE (assumeE (rc = int n) ''Fail to read input data'') (\<lambda>_. Inr (bs, sk)))"

section \<open>The server\<close>

text \<open>
  \<open>ts_clients\<close> are the structs \<open>TcpClientInfo\<close> that are alive: the file descriptor and the identifier.
  The program keeps them as the arguments of the events of libevent.
\<close>

record 's tcp_server =
  ts_server :: "'s server"
  ts_keepConnection :: bool
  ts_clients :: "(int \<times> nat) list"

definition setupTcpServer :: "config \<Rightarrow> 's server \<Rightarrow> 's tcp_server" where
  "setupTcpServer cfg s = \<lparr>ts_server = s, ts_keepConnection = cf_clientAuth cfg, ts_clients = []\<rparr>"

text \<open>\<open>key\<close> is drawn by the handler \<open>onConnect\<close>.\<close>

definition sendClientId :: "nat \<Rightarrow> int \<Rightarrow> socket \<Rightarrow> 's tcp_server \<Rightarrow> (socket \<times> 's tcp_server) result" where
  "sendClientId key fd sk ts =
     (let ident = sv_cntConnections (ts_server ts) in
      bindE (tcp_connect key (ts_server ts)) (\<lambda>s.
      let ts = ts\<lparr>ts_server := s, ts_clients := (fd, ident) # ts_clients ts\<rparr> in
      bindE (write_all (int_bytes 2 IOC_LF_PROTOCOL_VERSION) sk) (\<lambda>sk.
      bindE (write_all (le_bytes 8 ident) sk) (\<lambda>sk.
      bindE (write_all (le_bytes 8 key) sk) (\<lambda>sk.
      bindE (write_all [of_bool (ts_keepConnection ts)] sk) (\<lambda>sk.
      Inr (sk, ts)))))))"

text \<open>\<open>newfd\<close> is the result of \<open>accept\<close>, \<open>evt\<close> says whether \<open>event_new\<close> returned an event.\<close>

definition acceptOneClientCallback :: "int \<Rightarrow> bool \<Rightarrow> nat \<Rightarrow> socket \<Rightarrow> 's tcp_server \<Rightarrow> (socket \<times> 's tcp_server) result" where
  "acceptOneClientCallback newfd evt key sk ts =
     (if newfd < 0 then Inr (sk, ts)
      else if \<not> evt then Inr (sk, ts)
      else sendClientId key newfd sk ts)"

definition closeClient :: "int \<Rightarrow> 's tcp_server \<Rightarrow> 's tcp_server result" where
  "closeClient fd ts = (case map_of (ts_clients ts) fd of
     None \<Rightarrow> Inl UseAfterFree
   | Some ident \<Rightarrow>
       bindE (Server_onClientDisconnect ident (ts_server ts)) (\<lambda>s.
       Inr (ts\<lparr>ts_server := s, ts_clients := filter (\<lambda>(fd', _). fd' \<noteq> fd) (ts_clients ts)\<rparr>)))"

text \<open>The result of \<open>read\<close> on the connection of a client; what the client writes is not looked at.\<close>

datatype read_outcome = ReadData | ReadEnd | ReadInterrupted | ReadFailed

fun recvClientMessageCallback :: "read_outcome list \<Rightarrow> int \<Rightarrow> 's tcp_server \<Rightarrow> 's tcp_server result" where
  "recvClientMessageCallback [] fd ts = Inr ts"
| "recvClientMessageCallback (r # rs) fd ts = (case r of
     ReadEnd \<Rightarrow> closeClient fd ts
   | ReadInterrupted \<Rightarrow> recvClientMessageCallback rs fd ts
   | ReadFailed \<Rightarrow> Inr ts
   | ReadData \<Rightarrow> Inr ts)"

section \<open>The client\<close>

record TcpConnInfo =
  ci_clientId :: nat
  ci_key :: nat
  ci_protocolVersion :: int
  ci_keepConnection :: bool

text \<open>The flag of the result says whether the connection is still open.\<close>

definition getConnectionInfos :: "socket \<Rightarrow> (TcpConnInfo \<times> bool \<times> socket) result" where
  "getConnectionInfos sk =
     bindE (read_all 2 sk) (\<lambda>(v, sk).
     bindE (assumeE (int_value v = IOC_LF_PROTOCOL_VERSION) ''Invalid server protocol version'') (\<lambda>_.
     bindE (read_all 8 sk) (\<lambda>(i, sk).
     bindE (read_all 8 sk) (\<lambda>(k, sk).
     bindE (read_all 1 sk) (\<lambda>(b, sk).
     let keep = (b \<noteq> [0]) in
     Inr (\<lparr>ci_clientId = le_value i, ci_key = le_value k, ci_protocolVersion = int_value v, ci_keepConnection = keep\<rparr>, keep, sk))))))"

section \<open>Lemmas\<close>

lemma write_all_quiet [simp]:
  "sk_results sk = [] \<Longrightarrow> write_all bs sk = Inr (sk\<lparr>sk_bytes := sk_bytes sk @ bs\<rparr>)"
  by (simp add: write_all_def sock_write_def call_result_def)

lemma read_all_quiet [simp]:
  "sk_results sk = [] \<Longrightarrow> sk_bytes sk = bs @ rest \<Longrightarrow> length bs = n \<Longrightarrow> read_all n sk = Inr (bs, sk\<lparr>sk_bytes := rest\<rparr>)"
  by (cases sk) (auto simp: read_all_def sock_read_def call_result_def min_def)

lemma read_all_byte [simp]: "sk_results sk = [] \<Longrightarrow> sk_bytes sk = [b] \<Longrightarrow> read_all (Suc 0) sk = Inr ([b], sk\<lparr>sk_bytes := []\<rparr>)"
  using read_all_quiet [of sk "[b]" "[]" 1] by simp

lemma write_all_effect: "write_all bs sk = Inr sk' \<Longrightarrow> sk_bytes sk' = sk_bytes sk @ bs"
  by (auto simp: write_all_def sock_write_def Let_def split: prod.splits elim!: bindE_InrE)

section \<open>Runs of the TCP thread\<close>

text \<open>
  The other threads of the server may change all of its state but the registry of the clients and
  the counter of the connections.  The system never hands out a file descriptor that is in use.
\<close>

inductive tcp_step :: "'s tcp_server \<Rightarrow> 's tcp_server \<Rightarrow> bool" where
  tcp_accept: "acceptOneClientCallback newfd evt key sk ts = Inr (sk', ts') \<Longrightarrow> newfd \<notin> fst ` set (ts_clients ts) \<Longrightarrow> tcp_step ts ts'"
| tcp_receive: "recvClientMessageCallback rs fd ts = Inr ts' \<Longrightarrow> tcp_step ts ts'"
| tcp_other: "lc_clientRegistry (sv_connection s) = lc_clientRegistry (sv_connection (ts_server ts)) \<Longrightarrow>
    sv_cntConnections s = sv_cntConnections (ts_server ts) \<Longrightarrow> tcp_step ts (ts\<lparr>ts_server := s\<rparr>)"

inductive tcp_reachable :: "'s tcp_server \<Rightarrow> bool" where
  tcp_init: "Server_init cfg junk w = Inr s \<Longrightarrow> tcp_reachable (setupTcpServer cfg s)"
| tcp_next: "tcp_reachable ts \<Longrightarrow> tcp_step ts ts' \<Longrightarrow> tcp_reachable ts'"

abbreviation registry :: "'s tcp_server \<Rightarrow> ClientRegistry" where
  "registry ts \<equiv> lc_clientRegistry (sv_connection (ts_server ts))"

definition tcp_ok :: "'s tcp_server \<Rightarrow> bool" where
  "tcp_ok ts \<longleftrightarrow> sm_ok (registry ts) \<and> distinct (map fst (ts_clients ts)) \<and> distinct (map snd (ts_clients ts)) \<and>
     (\<forall>i. sm_find (registry ts) i = None \<longleftrightarrow> i \<notin> snd ` set (ts_clients ts)) \<and> (\<forall>i \<in> snd ` set (ts_clients ts). i < sv_cntConnections (ts_server ts))"

lemma accept_effect:
  assumes "sendClientId key fd sk ts = Inr (sk', ts')"
  shows "\<exists>s. tcp_connect key (ts_server ts) = Inr s \<and> ts' = ts\<lparr>ts_server := s, ts_clients := (fd, sv_cntConnections (ts_server ts)) # ts_clients ts\<rparr> \<and>
    sk_bytes sk' = sk_bytes sk @ int_bytes 2 IOC_LF_PROTOCOL_VERSION @ le_bytes 8 (sv_cntConnections (ts_server ts)) @ le_bytes 8 key @
      [of_bool (ts_keepConnection ts)]"
  using assms by (auto simp: sendClientId_def Let_def elim!: bindE_InrE dest!: write_all_effect)

lemma connect_effect:
  assumes "tcp_connect key s = Inr s'"
  shows "sv_cntConnections s < 2 ^ 31 - 1" "sv_cntConnections s' = Suc (sv_cntConnections s)"
    "lc_clientRegistry (sv_connection s') = sm_set (sv_cntConnections s) key (lc_clientRegistry (sv_connection s))"
  using assms by (auto simp: tcp_connect_def Server_onClientConnect_def registerClient_def elim!: bindE_InrE)

lemma close_effect:
  assumes "closeClient fd ts = Inr ts'"
  obtains i s where "map_of (ts_clients ts) fd = Some i" "Server_onClientDisconnect i (ts_server ts) = Inr s"
    "ts' = ts\<lparr>ts_server := s, ts_clients := filter (\<lambda>(fd', _). fd' \<noteq> fd) (ts_clients ts)\<rparr>"
    "registry ts' = sm_erase i (registry ts)" "sv_cntConnections s = sv_cntConnections (ts_server ts)"
  using assms by (auto simp: closeClient_def Server_onClientDisconnect_def disconnectClient_def elim!: bindE_InrE split: option.splits)

lemma received_close: "recvClientMessageCallback rs fd ts = Inr ts' \<Longrightarrow> ts' = ts \<or> closeClient fd ts = Inr ts'"
  by (induction rs) (auto split: read_outcome.splits)

lemma accept_ok:
  assumes ok: "tcp_ok ts" and r: "sendClientId key fd sk ts = Inr (sk', ts')" and fd: "fd \<notin> fst ` set (ts_clients ts)"
  shows "tcp_ok ts'"
proof -
  obtain s where s: "tcp_connect key (ts_server ts) = Inr s" "ts' = ts\<lparr>ts_server := s, ts_clients := (fd, sv_cntConnections (ts_server ts)) # ts_clients ts\<rparr>"
    using accept_effect [OF r] by blast
  note C = connect_effect [OF s(1)]
  have "sm_find (registry ts') i = None \<longleftrightarrow> i \<notin> snd ` set (ts_clients ts')" for i using ok C(3) s(2) by (simp add: tcp_ok_def)
  moreover have "\<forall>i \<in> snd ` set (ts_clients ts'). i < sv_cntConnections (ts_server ts')" using ok C(2) s(2) by (auto simp: tcp_ok_def less_Suc_eq)
  moreover have "sv_cntConnections (ts_server ts) \<notin> snd ` set (ts_clients ts)" using ok by (auto simp: tcp_ok_def)
  ultimately show ?thesis using ok fd C(3) s(2) by (simp add: tcp_ok_def sm_ok_set)
qed

lemma close_ok:
  assumes ok: "tcp_ok ts" and r: "closeClient fd ts = Inr ts'"
  shows "tcp_ok ts'"
proof -
  obtain i s where c: "map_of (ts_clients ts) fd = Some i" "ts' = ts\<lparr>ts_server := s, ts_clients := filter (\<lambda>(fd', _). fd' \<noteq> fd) (ts_clients ts)\<rparr>"
      "registry ts' = sm_erase i (registry ts)" "sv_cntConnections s = sv_cntConnections (ts_server ts)"
    by (rule close_effect [OF r]) (rule that)
  have d: "distinct (map fst (ts_clients ts))" "distinct (map snd (ts_clients ts))" using ok by (auto simp: tcp_ok_def)
  have i: "(fd, i) \<in> set (ts_clients ts)" using c(1) by (rule map_of_SomeD)
  have "(fd' = fd) = (j = i)" if "(fd', j) \<in> set (ts_clients ts)" for fd' j
    using d i that by (metis (no_types, lifting) eq_key_imp_eq_value inj_on_contraD distinct_map prod.inject snd_conv)
  then have "snd ` set (ts_clients ts') = snd ` set (ts_clients ts) - {i}" using c(2) by (auto simp: image_iff)
  then show ?thesis using ok c(2-4) by (auto simp: tcp_ok_def sm_ok_erase distinct_map_filter simp del: set_filter)
qed

lemma postReceives_registry:
  assumes "postReceives junk n cnt c = Inr c'"
  shows "lc_clientRegistry c' = lc_clientRegistry c"
proof -
  have "lc_clientRegistry c' = lc_clientRegistry c" if "postReceives_loop is fresh c = Inr c'" for "is" fresh and c c' :: "('h, 'f) connection"
    using that by (induction "is" arbitrary: c) (auto elim!: bindE_InrE dest!: repostReceive_effect(2) dest: same_settings_sel(9))
  from this [OF assms [unfolded postReceives_def]] show ?thesis by simp
qed

lemma init_registry:
  assumes "Server_init cfg junk w = Inr s"
  shows "lc_clientRegistry (sv_connection s) = []" "sv_cntConnections s = 0"
proof -
  obtain c :: server_connection where c: "postReceives junk server_receiveSize 128 (LibfabricConnection_init (\<not> cf_activePolling cfg)) = Inr c"
      "lc_clientRegistry (sv_connection s) = lc_clientRegistry c" "sv_cntConnections s = 0"
    using assms by (auto simp: Server_init_def server_hooks_def registerHook_def setCheckClientAuth_def Let_def elim!: bindE_InrE split: if_splits)
  show "lc_clientRegistry (sv_connection s) = []" "sv_cntConnections s = 0"
    using postReceives_registry [OF c(1)] c(2,3) by (simp_all add: LibfabricConnection_init_def ClientRegistry_init_def)
qed

lemma tcp_reachable_ok: "tcp_reachable ts \<Longrightarrow> tcp_ok ts"
proof (induction rule: tcp_reachable.induct)
  case (tcp_init cfg junk w s)
  then show ?case using init_registry(1) [OF tcp_init.hyps] by (simp add: tcp_ok_def setupTcpServer_def)
next
  case (tcp_next ts ts')
  from tcp_next.hyps(2) tcp_next.IH show ?case
  proof cases
    case (tcp_accept newfd evt key sk sk')
    then show ?thesis using accept_ok tcp_next.IH by (auto simp: acceptOneClientCallback_def split: if_splits)
  next
    case (tcp_receive rs fd)
    then show ?thesis using received_close close_ok tcp_next.IH by blast
  qed (simp add: tcp_ok_def)
qed

section \<open>Properties\<close>

text \<open>C22: the registry holds the identifiers of the open TCP connections and no other, so that messages
  are accepted from connected clients only; registering the next client and removing a connected one
  never fail their assertions.\<close>

theorem tcp_clients_registered:
  assumes "tcp_reachable ts"
  shows "((\<exists>key. checkIdentification i key (registry ts)) \<longleftrightarrow> i \<in> snd ` set (ts_clients ts)) \<and>
    (\<exists>r. registerClient (sv_cntConnections (ts_server ts)) key (registry ts) = Inr r) \<and>
    ((fd, i) \<in> set (ts_clients ts) \<longrightarrow> (\<exists>r. disconnectClient i (registry ts) = Inr r))"
proof -
  have ok: "\<And>i. sm_find (registry ts) i = None \<longleftrightarrow> i \<notin> snd ` set (ts_clients ts)" "\<forall>i \<in> snd ` set (ts_clients ts). i < sv_cntConnections (ts_server ts)"
    using tcp_reachable_ok [OF assms] by (auto simp: tcp_ok_def)
  have mem: "j \<in> snd ` set (ts_clients ts) \<longleftrightarrow> (\<exists>key. sm_find (registry ts) j = Some key)" for j using ok(1) [of j] by (cases "sm_find (registry ts) j") auto
  have "sv_cntConnections (ts_server ts) \<notin> snd ` set (ts_clients ts)" using ok(2) by blast
  then have "sm_find (registry ts) (sv_cntConnections (ts_server ts)) = None" unfolding mem by simp
  moreover have "(\<exists>key. checkIdentification i key (registry ts)) \<longleftrightarrow> i \<in> snd ` set (ts_clients ts)"
    unfolding mem by (auto simp: checkIdentification_def split: option.split)
  moreover have "sm_find (registry ts) i \<noteq> None" if "(fd, i) \<in> set (ts_clients ts)"
  proof -
    have "i \<in> snd ` set (ts_clients ts)" using that by force
    then show ?thesis unfolding mem by simp
  qed
  ultimately show ?thesis by (simp add: registerClient_def disconnectClient_def)
qed

text \<open>A server with one client on file descriptor 7.\<close>

lemma wit_tcp:
  "\<exists>(ts :: table tcp_server) sk'. tcp_reachable ts \<and> ts_clients ts = [(7, 0)] \<and> ts_keepConnection ts = True \<and> sk_results sk' = [] \<and>
     (\<exists>ts0. acceptOneClientCallback 7 True 9 \<lparr>sk_bytes = [], sk_results = []\<rparr> ts0 = Inr (sk', ts) \<and> sv_cntConnections (ts_server ts0) = 0 \<and>
        ts_keepConnection ts0 = True) \<and>
     (\<exists>X. container_ok X 0 (sv_world (ts_server ts)) (ap_container (sv_app (ts_server ts))))"
proof -
  have fresh: "fresh_world wit_world" by (auto simp: fresh_world_def wit_world_def wit_mem_def heap_ok_def LibfabricDomain_init_def)
  then obtain s where s: "Server_init Config_init (\<lambda>_. 0) wit_world = Inr s" using init_returns [of wit_world] by (auto simp: fresh_world_def)
  let ?ts = "setupTcpServer Config_init s" and ?sk = "\<lparr>sk_bytes = [], sk_results = []\<rparr>"
  have ts: "ts_clients ?ts = []" "ts_keepConnection ?ts = True" "ts_server ?ts = s" by (simp_all add: setupTcpServer_def Config_init_def)
  note R = init_registry [OF s]
  obtain sk' ts' where a: "acceptOneClientCallback 7 True 9 ?sk ?ts = Inr (sk', ts')" "sk_results sk' = []"
    using R ts by (simp add: acceptOneClientCallback_def sendClientId_def tcp_connect_def Server_onClientConnect_def registerClient_def Let_def)
  have eff: "\<exists>s'. tcp_connect 9 s = Inr s' \<and> ts' = ?ts\<lparr>ts_server := s', ts_clients := [(7, 0)]\<rparr>"
    using accept_effect [of 9 7 ?sk ?ts sk' ts'] a(1) ts R(2) by (auto simp: acceptOneClientCallback_def)
  then obtain s' where s': "tcp_connect 9 s = Inr s'" "ts' = ?ts\<lparr>ts_server := s', ts_clients := [(7, 0)]\<rparr>" by blast
  have "sv_world s' = sv_world s" "sv_app s' = sv_app s"
    using s'(1) by (auto simp: tcp_connect_def Server_onClientConnect_def elim!: bindE_InrE)
  moreover obtain X where "container_ok X 0 (sv_world s) (ap_container (sv_app s))"
    using init_ok [OF fresh s] by (auto simp: server_ok_def state_ok_def kept_def)
  moreover have "tcp_reachable ts'" by (rule tcp_next [OF tcp_init [OF s] tcp_accept [OF a(1)]]) (simp add: ts)
  ultimately show ?thesis using a s'(2) ts R(2) by (intro exI [of _ ts'] exI [of _ sk']) auto
qed

theorem tcp_clients_registered_witness:
  "\<exists>ts :: table tcp_server. ts_clients ts = [(7, 0)] \<and> (\<exists>key. checkIdentification 0 key (registry ts)) \<and>
     \<not> (\<exists>key. checkIdentification 1 key (registry ts)) \<and> (\<exists>r. disconnectClient 0 (registry ts) = Inr r)"
proof -
  obtain ts :: "table tcp_server" where ts: "tcp_reachable ts" "ts_clients ts = [(7, 0)]" using wit_tcp by blast
  show ?thesis using tcp_clients_registered [OF ts(1), of 0 0 7] tcp_clients_registered [OF ts(1), of 1 0 7] ts(2)
    by (intro exI [of _ ts]) auto
qed

text \<open>C23: the handshake of a client that connects: what it reads from the connection is its identifier, its
  key and whether to keep the connection, nothing is left over, and from then on the messages of a
  connection that was set up with them pass the check of the server.\<close>

theorem handshake_authenticates:
  fixes c :: "('h, 'f) connection" and w :: "'w world"
  assumes run: "acceptOneClientCallback newfd evt key sk ts = Inr (sk', ts')" "0 \<le> newfd" evt
    and key: "key < W64" and sk: "sk_bytes sk = []" "sk_results sk' = []"
  shows "\<exists>infos sk''. getConnectionInfos sk' = Inr (infos, ts_keepConnection ts, sk'') \<and> sk_bytes sk'' = [] \<and>
    ci_clientId infos = sv_cntConnections (ts_server ts) \<and> ci_key infos = key \<and>
    checkAuth fi (fillProtocolHeader t (setTcpClientInfos (ci_clientId infos) (ci_key infos) c)) client i (sv_connection (ts_server ts')) w =
      Inr (True, sv_connection (ts_server ts'), w)"
proof -
  let ?i = "sv_cntConnections (ts_server ts)" and ?keep = "ts_keepConnection ts"
  obtain s where s: "tcp_connect key (ts_server ts) = Inr s" "ts' = ts\<lparr>ts_server := s, ts_clients := (newfd, ?i) # ts_clients ts\<rparr>"
      "sk_bytes sk' = int_bytes 2 IOC_LF_PROTOCOL_VERSION @ le_bytes 8 ?i @ le_bytes 8 key @ [of_bool ?keep]"
    using run sk(1) accept_effect [of key newfd sk ts sk' ts'] by (auto simp: acceptOneClientCallback_def)
  note C = connect_effect [OF s(1)]
  have v: "int_value (int_bytes 2 IOC_LF_PROTOCOL_VERSION) = IOC_LF_PROTOCOL_VERSION"
    by (simp add: IOC_LF_PROTOCOL_VERSION_def)
  have n: "le_value (le_bytes 8 ?i) = ?i" "le_value (le_bytes 8 key) = key" using C(1) key by (simp_all add: W64_def)
  let ?infos = "\<lparr>ci_clientId = ?i, ci_key = key, ci_protocolVersion = IOC_LF_PROTOCOL_VERSION, ci_keepConnection = ?keep\<rparr>"
  have "getConnectionInfos sk' = Inr (?infos, ?keep, sk'\<lparr>sk_bytes := []\<rparr>)"
    using s(3) sk(2) v n by (simp add: getConnectionInfos_def Let_def)
  moreover have "checkIdentification ?i key (lc_clientRegistry (sv_connection s))" using C(3) by (simp add: checkIdentification_def)
  ultimately show ?thesis using s(2) by (simp add: checkAuth_def fillProtocolHeader_def setTcpClientInfos_def)
qed

theorem handshake_authenticates_witness:
  "\<exists>(ts :: table tcp_server) sk infos sk'. ts_clients ts = [(7, 0)] \<and> getConnectionInfos sk = Inr (infos, True, sk') \<and>
     ci_clientId infos = 0 \<and> ci_key infos = 9"
proof -
  obtain ts ts0 :: "table tcp_server" and sk where ts: "ts_clients ts = [(7, 0)]" "sk_results sk = []"
      "acceptOneClientCallback 7 True 9 \<lparr>sk_bytes = [], sk_results = []\<rparr> ts0 = Inr (sk, ts)"
      "sv_cntConnections (ts_server ts0) = 0" "ts_keepConnection ts0 = True"
    using wit_tcp by blast
  show ?thesis using handshake_authenticates [OF ts(3), where fi = wit_fabric and w = wit_world and client = 0 and i = 0 and t = 0 and
        c = "LibfabricConnection_init False :: (unit, unit) connection"] ts
    by (intro exI [of _ ts] exI [of _ sk]) (auto simp: W64_def)
qed

text \<open>C24: when the connection of a client ends, its identifier is refused with every key, no object keeps one
  of its ranges, and the other clients keep their registration and their ranges.\<close>

theorem tcp_end_releases:
  assumes reach: "tcp_reachable ts" and ok: "container_ok X mb w (ap_container (sv_app (ts_server ts)))" and fd: "(fd, i) \<in> set (ts_clients ts)"
  shows "\<exists>ts'. recvClientMessageCallback (replicate n ReadInterrupted @ ReadEnd # rs) fd ts = Inr ts' \<and>
    \<not> checkIdentification i key (registry ts') \<and>
    (j \<noteq> i \<longrightarrow> checkIdentification j key (registry ts') = checkIdentification j key (registry ts)) \<and>
    (\<forall>k ob'. sm_find (ct_objects (ap_container (sv_app (ts_server ts')))) k = Some (Some ob') \<longrightarrow>
      (\<exists>ob. sm_find (ct_objects (ap_container (sv_app (ts_server ts)))) k = Some (Some ob) \<and>
        ct_ranges (obj_consistencyTracker ob') = filter (\<lambda>r. cr_tcpClientId r \<noteq> i) (ct_ranges (obj_consistencyTracker ob))))"
proof -
  have inv: "distinct (map fst (ts_clients ts))" "\<And>i. sm_find (registry ts) i = None \<longleftrightarrow> i \<notin> snd ` set (ts_clients ts)"
    using tcp_reachable_ok [OF reach] by (auto simp: tcp_ok_def)
  have "i \<in> snd ` set (ts_clients ts)" using fd by force
  then have reg: "sm_find (registry ts) i \<noteq> None" using inv(2) by blast
  have cl: "map_of (ts_clients ts) fd = Some i" using inv(1) fd by (rule map_of_is_SomeI)
  note D = onClientDisconnect_eq [OF ok, of i]
  have loop: "recvClientMessageCallback (replicate n ReadInterrupted @ ReadEnd # rs) fd ts = closeClient fd ts" by (induction n) simp_all
  let ?objs = "sm_map_values (map_option (object_clientDisconnect i)) (ct_objects (ap_container (sv_app (ts_server ts))))"
  obtain ts' where ts': "closeClient fd ts = Inr ts'" "registry ts' = sm_erase i (registry ts)"
      "ct_objects (ap_container (sv_app (ts_server ts'))) = ?objs"
    using cl reg D by (simp add: closeClient_def Server_onClientDisconnect_def disconnectClient_def)
  have "\<exists>ob. sm_find (ct_objects (ap_container (sv_app (ts_server ts)))) k = Some (Some ob) \<and>
        ct_ranges (obj_consistencyTracker ob') = filter (\<lambda>r. cr_tcpClientId r \<noteq> i) (ct_ranges (obj_consistencyTracker ob))"
    if "sm_find ?objs k = Some (Some ob')" for k ob'
    using that by (auto simp: object_clientDisconnect_def clientDisconnect_def disconnect_loop_filter)
  then show ?thesis using loop ts' by (simp add: checkIdentification_def)
qed

theorem tcp_end_releases_witness:
  "\<exists>ts ts' :: table tcp_server. recvClientMessageCallback [ReadInterrupted, ReadEnd] 7 ts = Inr ts' \<and> \<not> checkIdentification 0 9 (registry ts')"
proof -
  obtain ts :: "table tcp_server" and X where ts: "tcp_reachable ts" "ts_clients ts = [(7, 0)]"
      "container_ok X 0 (sv_world (ts_server ts)) (ap_container (sv_app (ts_server ts)))"
    using wit_tcp by blast
  have "\<exists>ts'. recvClientMessageCallback [ReadInterrupted, ReadEnd] 7 ts = Inr ts' \<and> \<not> checkIdentification 0 9 (registry ts')"
    using tcp_end_releases [OF ts(1,3), of 7 0 1 "[]" 9 0] ts(2) by auto
  then show ?thesis by blast
qed

end
