(* ===== verification/Network_Setup.thy ===== *)
theory Network_Setup
  imports Tcp Debug_Messages
begin

text \<open>
  Opening the network: the constructor of \<open>LibfabricDomain\<close> (src/base/network/LibfabricDomain.cpp), the listening socket
  and the event loop of \<open>TcpServer\<close> (src/base/network/TcpServer.cpp) and the connection of \<open>TcpClient\<close>
  (src/base/network/TcpClient.cpp).  The results of the calls of libfabric, of the system and of libevent are arguments.
\<close>

section \<open>The domain\<close>

record fi_info =
  src_addrlen :: size_t
  dest_addrlen :: size_t
  prov_name :: string

record fabric_open =
  fi_allocinfo :: bool
  fi_getinfo :: "string \<Rightarrow> string \<Rightarrow> bool \<Rightarrow> int \<times> fi_info"
  fi_fabric :: "fi_info \<Rightarrow> int"
  fi_domain :: "fi_info \<Rightarrow> int"

text \<open>The macro \<open>LIBFABRIC_CHECK_STATUS\<close>.\<close>

definition LIBFABRIC_CHECK_STATUS :: "string \<Rightarrow> int \<Rightarrow> unit result" where
  "LIBFABRIC_CHECK_STATUS call status = assumeE (status = 0) (''Libfabric get failure on command '' @ call)"

definition LibfabricDomain_open :: "fabric_open \<Rightarrow> string \<Rightarrow> string \<Rightarrow> bool \<Rightarrow> (fi_info \<times> LibfabricDomain) result" where
  "LibfabricDomain_open fo serverIp port isDomainServer =
     bindE (assertE (serverIp \<noteq> []) ''serverIp.empty() == false'') (\<lambda>_.
     bindE (assertE (port \<noteq> []) ''port.empty() == false'') (\<lambda>_.
     if \<not> fi_allocinfo fo then Inl (Exited ''fi_allocinfo failed'')
     else
       let (err, fi) = fi_getinfo fo serverIp port isDomainServer in
       bindE (LIBFABRIC_CHECK_STATUS ''fi_getinfo'' err) (\<lambda>_.
       bindE (assumeE (src_addrlen fi \<le> IOC_LF_MAX_ADDR_LEN) ''Invalid hard coded maximum address len !'') (\<lambda>_.
       bindE (assumeE (dest_addrlen fi \<le> IOC_LF_MAX_ADDR_LEN) ''Invalid hard coded maximum address len !'') (\<lambda>_.
       bindE (LIBFABRIC_CHECK_STATUS ''fi_fabric'' (fi_fabric fo fi)) (\<lambda>_.
       bindE (LIBFABRIC_CHECK_STATUS ''fi_domain'' (fi_domain fo fi)) (\<lambda>_.
       Inr (fi, LibfabricDomain_init (take 4 (prov_name fi) = ''tcp;''))))))))) "

definition getLFProviderName :: "fi_info \<Rightarrow> string" where
  "getLFProviderName fi = prov_name fi"

section \<open>The listening socket\<close>

datatype bind_outcome = BindDone | BindInUse | BindFailed

text \<open>
  The search for a port in \<open>createSocketV4\<close>: the port is an unsigned 16 bit number, the last one an
  \<open>int\<close>.  \<open>None\<close> is a search that does not end.
\<close>

partial_function (option) bind_port :: "(nat \<Rightarrow> bind_outcome) \<Rightarrow> nat \<Rightarrow> int \<Rightarrow> nat option option" where
  "bind_port bind port maxPort =
     (if int port \<le> maxPort then (case bind port of
        BindDone \<Rightarrow> Some (Some port)
      | BindFailed \<Rightarrow> Some None
      | BindInUse \<Rightarrow> bind_port bind (Suc port mod 65536) maxPort)
      else Some None)"

record sys_socket =
  sys_socket_fd :: int
  sys_setsockopt :: "nat \<Rightarrow> int"
  sys_bind :: "nat \<Rightarrow> bind_outcome"
  sys_listen :: int
  sys_close :: int

text \<open>
  The result is the returned value, the port that the socket is bound to and whether the socket was closed.
\<close>

definition createSocketV4 :: "sys_socket \<Rightarrow> int \<Rightarrow> int \<Rightarrow> (int \<times> nat option \<times> bool) result" where
  "createSocketV4 sys firstPort maxPort =
     (let sock = sys_socket_fd sys in
      if sock = - 1 then Inr (- 1, None, False)
      else if \<exists>opt < 5. sys_setsockopt sys opt = - 1 then Inr (- 1, None, True)
      else case bind_port (sys_bind sys) (nat (firstPort mod 65536)) maxPort of
        None \<Rightarrow> Inl Diverges
      | Some None \<Rightarrow> Inr (- 1, None, True)
      | Some (Some port) \<Rightarrow> if sys_listen sys = - 1 then Inr (- 1, None, True) else Inr (sock, Some port, False))"

text \<open>The members of the server that do not belong to a client: the listening socket and the base of libevent.\<close>

record tcp_listener =
  tl_listenFd :: int
  tl_port :: "nat option"
  tl_keepConnection :: bool
  tl_ebase :: bool
  tl_listening :: bool
  tl_break :: bool

definition TcpServer_new :: "sys_socket \<Rightarrow> int \<Rightarrow> int \<Rightarrow> bool \<Rightarrow> tcp_listener result" where
  "TcpServer_new sys port portRange keepConnection =
     bindE (createSocketV4 sys port (port + portRange)) (\<lambda>(res, bound, closed).
     bindE (assumeE (res \<ge> 0) ''Failed to open socket'') (\<lambda>_.
     Inr \<lparr>tl_listenFd = res, tl_port = bound, tl_keepConnection = keepConnection, tl_ebase = False, tl_listening = False, tl_break = False\<rparr>))"

definition TcpServer_destroy :: "sys_socket \<Rightarrow> tcp_listener \<Rightarrow> unit result" where
  "TcpServer_destroy sys ls = assumeE (sys_close sys \<ge> 0) ''Failed to close socket''"

text \<open>\<open>base\<close> and \<open>evt\<close> say whether libevent could allocate its base and the event of the socket.\<close>

definition setupLibeventListener :: "bool \<Rightarrow> bool \<Rightarrow> tcp_listener \<Rightarrow> tcp_listener result" where
  "setupLibeventListener base evt ls =
     bindE (assumeE base ''Failed to allocate a new event base'') (\<lambda>_.
     bindE (assumeE evt ''Failed to allocate a new event'') (\<lambda>_.
     Inr (ls\<lparr>tl_ebase := True, tl_listening := True\<rparr>)))"

definition TcpServer_stop :: "tcp_listener \<Rightarrow> tcp_listener" where
  "TcpServer_stop ls = (if tl_ebase ls then ls\<lparr>tl_break := True\<rparr> else ls)"

definition Server_openTcp :: "sys_socket \<Rightarrow> config \<Rightarrow> int \<Rightarrow> int \<Rightarrow> tcp_listener result" where
  "Server_openTcp sys cfg port maxport =
     (if cf_clientAuth cfg then TcpServer_new sys port maxport True else TcpServer_new sys port maxport False)"

section \<open>The connection of a client\<close>

text \<open>
  \<open>inet_addr\<close>, \<open>gethostbyname\<close> and \<open>getservbyname\<close> are functions of the names; \<open>sys_connect\<close> gets the address and the port
  as they are stored for the network and tells whether the connection is established.  \<open>htons\<close> is that of a
  machine that stores the low byte first.
\<close>

record sys_client =
  inet_addr :: "string \<Rightarrow> nat"
  gethostbyname :: "string \<Rightarrow> nat option"
  getservbyname :: "string \<Rightarrow> nat option"
  sys_client_fd :: int
  sys_connect :: "nat \<Rightarrow> nat \<Rightarrow> bool"

definition htons :: "nat \<Rightarrow> nat" where
  "htons p = (p mod 256) * 256 + p div 256 mod 256"

definition server_address :: "sys_client \<Rightarrow> string \<Rightarrow> nat result" where
  "server_address sys addr =
     (if addr \<noteq> [] \<and> is_digit (hd addr) then Inr (inet_addr sys addr)
      else case gethostbyname sys addr of None \<Rightarrow> Inl (Exited ''gethostbyname'') | Some a \<Rightarrow> Inr a)"

definition server_port :: "sys_client \<Rightarrow> string \<Rightarrow> nat result" where
  "server_port sys aport =
     (if aport \<noteq> [] \<and> is_digit (hd aport) then bindE (atoi aport) (\<lambda>p. Inr (nat (p mod 65536)))
      else case getservbyname sys aport of None \<Rightarrow> Inl (Exited ''Can't resolve'') | Some s_port \<Rightarrow> Inr (s_port mod 65536))"

definition client_tcp_connect :: "sys_client \<Rightarrow> string option \<Rightarrow> string option \<Rightarrow> int result" where
  "client_tcp_connect sys addr aport = (case (addr, aport) of
       (Some addr, Some aport) \<Rightarrow>
         bindE (server_address sys addr) (\<lambda>s_addr.
         bindE (server_port sys aport) (\<lambda>port.
         let sin_port = htons port; sockfd = sys_client_fd sys in
         if sockfd = - 1 then Inl (Exited ''Can't get socket'')
         else if \<not> sys_connect sys s_addr sin_port then Inl (Exited ''connect failed'')
         else Inr sockfd))
     | _ \<Rightarrow> Inr (- 1))"

definition TcpClient_new :: "sys_client \<Rightarrow> string \<Rightarrow> string \<Rightarrow> int result" where
  "TcpClient_new sys addr port =
     bindE (client_tcp_connect sys (Some addr) (Some port)) (\<lambda>connFd.
     bindE (assumeE (connFd \<ge> 0) ''Fail to connect to server'') (\<lambda>_. Inr connFd))"

section \<open>Properties of the domain\<close>

text \<open>A domain that was opened is empty, its addresses fit in the messages, and only the tcp provider uses offsets.\<close>

lemma domain_opened:
  assumes "LibfabricDomain_open fo ip port srv = Inr (fi, d)"
  shows "domain_ok d" "src_addrlen fi \<le> 32" "dest_addrlen fi \<le> 32" "ld_segments d = []" "ld_msgBufferSize d = 1024 * 1024"
    "ld_virtMrMode d \<longleftrightarrow> take 4 (getLFProviderName fi) \<noteq> ''tcp;''"
proof -
  from assms have d: "d = LibfabricDomain_init (take 4 (prov_name fi) = ''tcp;'')" "src_addrlen fi \<le> 32" "dest_addrlen fi \<le> 32"
    by (auto simp: LibfabricDomain_open_def LIBFABRIC_CHECK_STATUS_def IOC_LF_MAX_ADDR_LEN_def Let_def elim!: bindE_InrE
        split: if_splits prod.splits)
  show "domain_ok d" unfolding d(1) by (rule domain_ok_init)
  show "src_addrlen fi \<le> 32" "dest_addrlen fi \<le> 32" by (rule d)+
  show "ld_segments d = []" "ld_msgBufferSize d = 1024 * 1024" "ld_virtMrMode d \<longleftrightarrow> take 4 (getLFProviderName fi) \<noteq> ''tcp;''"
    unfolding d(1) by (simp_all add: LibfabricDomain_init_def getLFProviderName_def)
qed

section \<open>Properties of the sockets\<close>

lemma bind_port_range:
  "maxPort < 65535 \<Longrightarrow> bind_port bind port maxPort =
     Some (case filter (\<lambda>p. bind p \<noteq> BindInUse) [port..<nat (maxPort + 1)] of
        [] \<Rightarrow> None | p # _ \<Rightarrow> if bind p = BindDone then Some p else None)"
proof (induction "nat (maxPort + 1) - port" arbitrary: port)
  case 0
  then show ?case by (subst bind_port.simps) auto
next
  case (Suc d)
  have le: "int port \<le> maxPort" using Suc.hyps(2) by linarith
  have up: "[port..<nat (maxPort + 1)] = port # [Suc port..<nat (maxPort + 1)]" using le by (intro upt_conv_Cons) linarith
  have "d = nat (maxPort + 1) - Suc port" "Suc port mod 65536 = Suc port" using Suc.hyps(2) Suc.prems le by auto
  then show ?case using Suc.hyps(1) [of "Suc port"] Suc.prems le up by (subst bind_port.simps) (simp split: bind_outcome.split)
qed

lemma bind_port_returns:
  assumes "bind_port bind port maxPort = Some r"
  shows "port < 65536 \<longrightarrow> maxPort < 65535 \<or> (\<exists>p. bind p \<noteq> BindInUse)"
proof -
  let ?P = "\<lambda>bind port maxPort (r :: nat option). port < 65536 \<longrightarrow> maxPort < 65535 \<or> (\<exists>p. bind p \<noteq> BindInUse)"
  have "?P bind port maxPort r"
  proof (rule bind_port.raw_induct [where P = ?P, OF _ assms])
    fix f :: "(nat \<Rightarrow> bind_outcome) \<Rightarrow> nat \<Rightarrow> int \<Rightarrow> nat option option"
    fix bind :: "nat \<Rightarrow> bind_outcome" and port maxPort r
    assume IH: "\<And>bind port maxPort r. f bind port maxPort = Some r \<Longrightarrow> ?P bind port maxPort r"
      and run: "(if int port \<le> maxPort then (case bind port of BindDone \<Rightarrow> Some (Some port) | BindInUse \<Rightarrow> f bind (Suc port mod 65536) maxPort | BindFailed \<Rightarrow> Some None)
        else Some None) = Some r"
    show "?P bind port maxPort r"
    proof (cases "int port \<le> maxPort \<and> bind port = BindInUse")
      case True
      then show ?thesis using run IH [of bind "Suc port mod 65536" maxPort r] by simp
    next
      case False
      then show ?thesis using run by auto
    qed
  qed
  then show ?thesis by simp
qed

text \<open>The search for a port ends when the last port is below 65535: it binds the first port of the range
  that is not in use, and gives up after the last one.  With a last port of 65535 or more and every
  port in use it never ends, since the port wraps around.\<close>

lemma port_search:
  "maxPort < 65535 \<Longrightarrow> bind_port bind port maxPort = Some (case filter (\<lambda>p. bind p \<noteq> BindInUse) [port..<nat (maxPort + 1)] of
        [] \<Rightarrow> None | p # _ \<Rightarrow> if bind p = BindDone then Some p else None)"
  "65535 \<le> maxPort \<Longrightarrow> \<forall>p. bind p = BindInUse \<Longrightarrow> port < 65536 \<Longrightarrow> bind_port bind port maxPort = None"
  using bind_port_range bind_port_returns [of bind port maxPort] by (simp, cases "bind_port bind port maxPort") auto

text \<open>
  The server listens on the first port of the range that can be bound, or stops; every socket that is not returned
  is closed again.
\<close>

lemma server_socket:
  assumes "0 \<le> port" "0 \<le> rng" "port + rng < 65535" "0 \<le> sys_socket_fd sys" "\<forall>opt < 5. sys_setsockopt sys opt = 0" "sys_listen sys = 0"
    and "\<exists>p. port \<le> int p \<and> int p \<le> port + rng \<and> sys_bind sys p = BindDone" "\<forall>p. sys_bind sys p \<noteq> BindFailed"
  obtains ls p where "TcpServer_new sys port rng keep = Inr ls" "tl_listenFd ls = sys_socket_fd sys" "tl_port ls = Some p"
    "sys_bind sys p = BindDone" "port \<le> int p" "int p \<le> port + rng" "\<forall>q. port \<le> int q \<and> q < p \<longrightarrow> sys_bind sys q = BindInUse"
proof -
  let ?ps = "[nat port..<nat (port + rng + 1)]" and ?free = "\<lambda>p. sys_bind sys p \<noteq> BindInUse"
  obtain p0 where p0: "port \<le> int p0" "int p0 \<le> port + rng" "sys_bind sys p0 = BindDone" using assms(7) by blast
  then have "p0 \<in> set ?ps" "?free p0" by auto
  then obtain p rest where f: "filter ?free ?ps = p # rest" by (cases "filter ?free ?ps") (auto simp: filter_empty_conv)
  then have "p \<in> set (filter ?free ?ps)" by simp
  then have p: "p \<in> set ?ps" "sys_bind sys p = BindDone" using assms(8) by (auto intro: bind_outcome.exhaust)
  obtain us vs where split: "?ps = us @ p # vs" "\<forall>u \<in> set us. \<not> ?free u" using f by (auto simp: filter_eq_Cons_iff)
  have first: "sys_bind sys q = BindInUse" if "port \<le> int q" "q < p" for q
  proof -
    have "q \<in> set ?ps" using that p(1) by auto
    moreover have "sorted_wrt (<) ?ps" by simp
    then have "\<forall>v \<in> set vs. p < v" unfolding split(1) by (simp add: sorted_wrt_append)
    ultimately show ?thesis using split that(2) by fastforce
  qed
  have "bind_port (sys_bind sys) (nat (port mod 65536)) (port + rng) = Some (Some p)"
    using port_search(1) [OF assms(3), of "sys_bind sys" "nat port"] f p(2) assms(1-3) by simp
  then have "TcpServer_new sys port rng keep = Inr \<lparr>tl_listenFd = sys_socket_fd sys, tl_port = Some p, tl_keepConnection = keep,
      tl_ebase = False, tl_listening = False, tl_break = False\<rparr>"
    using assms(4-6) by (auto simp: TcpServer_new_def createSocketV4_def Let_def)
  then show thesis using that p first by auto
qed

lemma socket_not_leaked: "createSocketV4 sys p q = Inr (r, bound, closed) \<Longrightarrow> sys_socket_fd sys \<noteq> - 1 \<Longrightarrow> closed \<longleftrightarrow> r = - 1"
  by (auto simp: createSocketV4_def Let_def split: if_splits option.splits)

text \<open>A stop before the loop was set up is lost.\<close>

lemma stop_before_loop_lost: "\<not> tl_ebase ls \<Longrightarrow> setupLibeventListener True True (TcpServer_stop ls) = Inr ls' \<Longrightarrow> tl_break ls' = tl_break ls"
  by (auto simp: TcpServer_stop_def setupLibeventListener_def)

section \<open>Properties of the client\<close>

lemma htons_htons: "p < 65536 \<Longrightarrow> htons (htons p) = p"
proof -
  assume p: "p < 65536"
  have "p div 256 < 256" using p by (simp add: div_less_iff_less_mult)
  moreover have "p mod 256 * 256 + p div 256 mod 256 = p div 256 + p mod 256 * 256" using \<open>p div 256 < 256\<close> by simp
  ultimately show ?thesis by (simp add: htons_def)
qed

text \<open>A port given as a number reaches the network in its order; a service name gives a port that is in that order already and is
  swapped once more.\<close>

lemma numeric_port: "p < 65536 \<Longrightarrow> server_port sys (show_nat p) = Inr p"
proof -
  assume p: "p < 65536"
  have "is_digit (hd (show_nat p))" using show_nat_digits [of "hd (show_nat p)" p] by simp
  moreover have "atoi (show_nat p) = Inr (int p)" using atoi_show [of "[]" p] p by simp
  ultimately show ?thesis using p by (simp add: server_port_def)
qed

lemma service_port_swapped:
  "getservbyname sys name = Some (htons p) \<Longrightarrow> p < 65536 \<Longrightarrow> name \<noteq> [] \<Longrightarrow> \<not> is_digit (hd name) \<Longrightarrow>
   \<exists>q. server_port sys name = Inr q \<and> htons q = p"
proof -
  assume a: "getservbyname sys name = Some (htons p)" "p < 65536" "name \<noteq> []" "\<not> is_digit (hd name)"
  have "p mod 256 * 256 \<le> 255 * 256" by (intro mult_le_mono1) (use mod_less_divisor [of 256 p] in linarith)
  then have "htons p < 65536" using mod_less_divisor [of 256 "p div 256"] by (simp add: htons_def)
  then show ?thesis using a htons_htons by (simp add: server_port_def)
qed

end
