(* ===== verification/Wire_Types.thy ===== *)
theory Wire_Types
  imports Libfabric_Connection
begin

text \<open>
  What a deserializer yields on arbitrary bytes: whatever a peer puts in a message, the fields
  that are read have the range of their C++ type.  The contract of a reader is the locale
  \<open>typed_reader\<close>; every struct of the protocol with fields of fixed size fulfils it.
\<close>

section \<open>Fields\<close>

lemma le_value_bound: "length bs \<le> k \<Longrightarrow> le_value bs < 256 ^ k"
  by (rule less_le_trans [OF le_value_less]) (simp add: power_increasing)

lemma int_value_range: "- (256 ^ length bs) \<le> 2 * int_value bs \<and> 2 * int_value bs < 256 ^ length bs"
proof -
  define m :: int where "m = 256 ^ length bs"
  have "int (le_value bs) < m" unfolding m_def using le_value_less [of bs] by (metis of_nat_less_iff of_nat_numeral of_nat_power)
  then show ?thesis unfolding int_value_def Let_def m_def [symmetric] by simp
qed

lemma apply_fixed_reads:
  assumes "apply_fixed n enc dec shown fn v s = Inr (v', s')" "ser_action s = SERIALIZER_UNPACK"
  shows "\<exists>bs. length bs = n \<and> v' = dec bs" "ser_action s' = SERIALIZER_UNPACK"
proof -
  obtain buf where "v' = dec (slice (ser_cursor s) n buf)" "ser_cursor s + n \<le> length buf" "s' = not_first (ser_move n s)"
    using assms by (auto simp: apply_fixed_def ser_get_def elim!: bindE_InrE split: option.splits if_splits)
  then show "\<exists>bs. length bs = n \<and> v' = dec bs" "ser_action s' = SERIALIZER_UNPACK"
    using assms(2) by (auto simp: not_first_def ser_move_def intro: exI [of _ "slice (ser_cursor s) n buf"])
qed

lemma apply_reads:
  assumes "ser_action s = SERIALIZER_UNPACK"
  shows "apply_uint64 fn n s = Inr (n', s') \<Longrightarrow> n' < W64 \<and> ser_action s' = SERIALIZER_UNPACK"
    "apply_int64 fn i s = Inr (i', s') \<Longrightarrow> int64_ok i' \<and> ser_action s' = SERIALIZER_UNPACK"
    "apply_int32 fn j s = Inr (j', s') \<Longrightarrow> int32_ok j' \<and> ser_action s' = SERIALIZER_UNPACK"
    "apply_bool fn b s = Inr (b', s') \<Longrightarrow> ser_action s' = SERIALIZER_UNPACK"
proof -
  note R = apply_fixed_reads [OF _ assms]
  show "n' < W64 \<and> ser_action s' = SERIALIZER_UNPACK" if "apply_uint64 fn n s = Inr (n', s')"
    using R [OF that [unfolded apply_uint64_def]] le_value_bound [of _ 8] by (auto simp: W64_def)
  show "int64_ok i' \<and> ser_action s' = SERIALIZER_UNPACK" if r: "apply_int64 fn i s = Inr (i', s')"
  proof -
    obtain bs where "length bs = 8" "i' = int_value bs" using R(1) [OF r [unfolded apply_int64_def]] by blast
    then show ?thesis using int_value_range [of bs] R(2) [OF r [unfolded apply_int64_def]] by (simp add: int64_ok_def)
  qed
  show "int32_ok j' \<and> ser_action s' = SERIALIZER_UNPACK" if r: "apply_int32 fn j s = Inr (j', s')"
  proof -
    obtain bs where "length bs = 4" "j' = int_value bs" using R(1) [OF r [unfolded apply_int32_def]] by blast
    then show ?thesis using int_value_range [of bs] R(2) [OF r [unfolded apply_int32_def]] by (simp add: int32_ok_def)
  qed
  show "ser_action s' = SERIALIZER_UNPACK" if "apply_bool fn b s = Inr (b', s')"
    using R [OF that [unfolded apply_bool_def]] by blast
qed

section \<open>Structs\<close>

locale typed_reader =
  fixes applyDef :: "'a applier" and typed :: "'a \<Rightarrow> bool"
  assumes reads: "ser_action s = SERIALIZER_UNPACK \<Longrightarrow> applyDef v s = Inr (v', s') \<Longrightarrow> typed v' \<and> ser_action s' = SERIALIZER_UNPACK"
begin

lemma struct_reads:
  "ser_action s = SERIALIZER_UNPACK \<Longrightarrow> apply_struct applyDef fn v s = Inr (v', s') \<Longrightarrow> typed v' \<and> ser_action s' = SERIALIZER_UNPACK"
proof -
  assume s: "ser_action s = SERIALIZER_UNPACK" and a: "apply_struct applyDef fn v s = Inr (v', s')"
  have e: "apply_struct applyDef fn v s = bindE (applyDef v (s\<lparr>ser_root := False\<rparr>)) (\<lambda>(v, s).
      let s = (if ser_action s = SERIALIZER_STRINGIFY then s\<lparr>ser_out := ser_out s @ [Text (if ser_outFirst s then [] else '' ''), Text ''}'']\<rparr> else s)
      in Inr (v, not_first s))"
    unfolding apply_struct_def s by (simp add: Let_def)
  obtain s1 where s1: "applyDef v (s\<lparr>ser_root := False\<rparr>) = Inr (v', s1)" "ser_action s' = ser_action s1"
    using a unfolding e by (auto simp: Let_def not_first_def elim!: bindE_InrE)
  then show ?thesis using reads [OF _ s1(1)] s by simp
qed

end

interpretation iov_reader: typed_reader Iov_applySerializerDef Iov_ok
  by unfold_locales (auto simp: Iov_applySerializerDef_def Iov_ok_def elim!: bindE_InrE dest!: apply_reads(1) [rotated])

interpretation oid_reader: typed_reader ObjectId_applySerializerDef ObjectId_ok
  by unfold_locales (auto simp: ObjectId_applySerializerDef_def ObjectId_ok_def elim!: bindE_InrE dest!: apply_reads(2) [rotated])

interpretation header_reader: typed_reader MessageHeader_applySerializerDef MessageHeader_ok
  by unfold_locales (auto simp: MessageHeader_applySerializerDef_def MessageHeader_ok_def elim!: bindE_InrE dest!: apply_reads(1) [rotated])

interpretation flush_reader: typed_reader ObjFlushInfos_applySerializerDef ObjFlushInfos_ok
  by unfold_locales (auto simp: ObjFlushInfos_applySerializerDef_def ObjFlushInfos_ok_def elim!: bindE_InrE
      dest!: apply_reads(1) [rotated] oid_reader.struct_reads [rotated])

interpretation create_reader: typed_reader ObjCreateInfos_applySerializerDef ObjCreateInfos_ok
  by unfold_locales (auto simp: ObjCreateInfos_applySerializerDef_def ObjCreateInfos_ok_def elim!: bindE_InrE
      dest!: oid_reader.struct_reads [rotated])

interpretation register_reader: typed_reader RegisterRange_applySerializerDef RegisterRange_ok
  by unfold_locales (auto simp: RegisterRange_applySerializerDef_def RegisterRange_ok_def elim!: bindE_InrE
      dest!: apply_reads(1,4) [rotated] oid_reader.struct_reads [rotated])

interpretation unregister_reader: typed_reader UnregisterRange_applySerializerDef UnregisterRange_ok
  by unfold_locales (auto simp: UnregisterRange_applySerializerDef_def UnregisterRange_ok_def elim!: bindE_InrE
      dest!: apply_reads(1,3,4) [rotated] oid_reader.struct_reads [rotated])

interpretation cow_reader: typed_reader ObjectCow_applySerializerDef ObjectCow_ok
  by unfold_locales (auto simp: ObjectCow_applySerializerDef_def ObjectCow_ok_def elim!: bindE_InrE
      dest!: apply_reads(1,4) [rotated] oid_reader.struct_reads [rotated])

interpretation handshake_reader: typed_reader FirstHandshake_applySerializerDef FirstHandshake_ok
  by unfold_locales (auto simp: FirstHandshake_applySerializerDef_def FirstHandshake_ok_def elim!: bindE_InrE
      dest!: apply_reads(1,3) [rotated])

text \<open>The fields of fixed size of the structs that carry data.\<close>

definition ReadWrite_fields :: "LibfabricObjReadWriteInfos \<Rightarrow> bool" where
  "ReadWrite_fields v \<longleftrightarrow> ObjectId_ok (rw_objectId v) \<and> Iov_ok (rw_iov v) \<and> rw_offset v < W64 \<and> rw_size v < W64"

lemma serializeOrPoint_action:
  "ser_action s = SERIALIZER_UNPACK \<Longrightarrow> serializeOrPoint fn n p s = Inr (p', s') \<Longrightarrow> ser_action s' = SERIALIZER_UNPACK"
  by (auto simp: serializeOrPoint_def ser_move_def elim!: bindE_InrE)

interpretation rw_reader: typed_reader ObjReadWriteInfos_applySerializerDef ReadWrite_fields
proof unfold_locales
  fix s v v' s'
  assume s: "ser_action s = SERIALIZER_UNPACK" and r: "ObjReadWriteInfos_applySerializerDef v s = Inr (v', s')"
  obtain oid s1 i s2 off s3 n s4 b s5 p where
    r1: "apply_struct ObjectId_applySerializerDef ''objectId'' (rw_objectId v) s = Inr (oid, s1)"
    and r2: "apply_struct Iov_applySerializerDef ''iov'' (rw_iov v) s1 = Inr (i, s2)"
    and r3: "apply_uint64 ''offset'' (rw_offset v) s2 = Inr (off, s3)" and r4: "apply_uint64 ''size'' (rw_size v) s3 = Inr (n, s4)"
    and r5: "apply_bool ''msgHasData'' (rw_msgHasData v) s4 = Inr (b, s5)"
    and r6: "(if b then serializeOrPoint ''optionalData'' n (rw_optionalData v) s5 else Inr (rw_optionalData v, s5)) = Inr (p, s')"
    and v': "rw_objectId v' = oid" "rw_iov v' = i" "rw_offset v' = off" "rw_size v' = n"
    using r by (auto simp: ObjReadWriteInfos_applySerializerDef_def elim!: bindE_InrE split del: if_split)
  note s1 = oid_reader.struct_reads [OF s r1]
  note s2 = iov_reader.struct_reads [OF conjunct2 [OF s1] r2]
  note s3 = apply_reads(1) [OF conjunct2 [OF s2] r3]
  note s4 = apply_reads(1) [OF conjunct2 [OF s3] r4]
  note s5 = apply_reads(4) [OF conjunct2 [OF s4] r5]
  show "ReadWrite_fields v' \<and> ser_action s' = SERIALIZER_UNPACK"
    using s1 s2 s3 s4 s5 r6 serializeOrPoint_action [OF s5] v' by (auto simp: ReadWrite_fields_def split: if_splits)
qed

section \<open>Received messages\<close>

text \<open>The fields of the model are numbers without a width; whatever bytes a client sends, those that a received message and
  a request read from it give them are in the range of the types that they have in the program.\<close>

lemma received_fields_typed:
  assumes "receive_header i c = Inr (h, s)"
  shows "MessageHeader_ok h \<and>
    (\<forall>v v' s'. apply_struct ObjFlushInfos_applySerializerDef fn v s = Inr (v', s') \<longrightarrow> ObjFlushInfos_ok v') \<and>
    (\<forall>v v' s'. apply_struct ObjCreateInfos_applySerializerDef fn v s = Inr (v', s') \<longrightarrow> ObjCreateInfos_ok v') \<and>
    (\<forall>v v' s'. apply_struct RegisterRange_applySerializerDef fn v s = Inr (v', s') \<longrightarrow> RegisterRange_ok v') \<and>
    (\<forall>v v' s'. apply_struct UnregisterRange_applySerializerDef fn v s = Inr (v', s') \<longrightarrow> UnregisterRange_ok v') \<and>
    (\<forall>v v' s'. apply_struct ObjectCow_applySerializerDef fn v s = Inr (v', s') \<longrightarrow> ObjectCow_ok v') \<and>
    (\<forall>v v' s'. apply_struct ObjReadWriteInfos_applySerializerDef fn v s = Inr (v', s') \<longrightarrow> ReadWrite_fields v')"
proof -
  obtain s0 h0 where s0: "apply_struct MessageHeader_applySerializerDef ''header'' h0 s0 = Inr (h, s)" "ser_action s0 = SERIALIZER_UNPACK"
    using assms by (auto simp: receive_header_def DeSerializer_make_def SerializerBase_init_def elim!: bindE_InrE split: if_splits)
  have r: "MessageHeader_ok h" "ser_action s = SERIALIZER_UNPACK" using header_reader.struct_reads [OF s0(2,1)] by simp_all
  show ?thesis
    by (intro conjI allI impI) (rule r(1), erule flush_reader.struct_reads [OF r(2), THEN conjunct1],
        erule create_reader.struct_reads [OF r(2), THEN conjunct1], erule register_reader.struct_reads [OF r(2), THEN conjunct1],
        erule unregister_reader.struct_reads [OF r(2), THEN conjunct1], erule cow_reader.struct_reads [OF r(2), THEN conjunct1],
        erule rw_reader.struct_reads [OF r(2), THEN conjunct1])
qed

end
