(* ===== verification/Server_Progress.thy ===== *)
theory Server_Progress
  imports Server_Inv
begin

text \<open>
  Runs of the server that succeed: a buffer for a message is available or can be allocated, the
  endpoint accepts the operation, then a client that connects gets its identifier and a status
  response is posted.
\<close>

section \<open>Completions\<close>

lemma next_completion:
  assumes "completions c = e # rest" "fb_cq (lc_fabric c) = map CqEntry es"
  shows "\<exists>c'. pollForCompletion True c = (Some e, c')"
  using assms by (cases "lc_cqEntries c"; cases es) (auto simp: pollForCompletion_def completions_def)

section \<open>Connection of a client\<close>

text \<open>An endpoint that accepts every call at once leaves the completion queue alone.\<close>

lemma post_operation_quiet:
  "post_operation call op c = Inr c' \<Longrightarrow> fb_codes (lc_fabric c) = [] \<Longrightarrow> fb_cq (lc_fabric c') = fb_cq (lc_fabric c)"
  by (auto simp: post_operation_def elim!: bindE_InrE)

lemma sendMessage_quiet:
  fixes w :: "'s world"
  assumes "sendMessage fi t dst A d body c w = Inr (c', w')" "fb_codes (lc_fabric c) = []"
  shows "fb_cq (lc_fabric c') = fb_cq (lc_fabric c)"
proof -
  obtain buf n act and w1 :: "'s world" where "sendRawMessage buf n dst (Some act) c w1 = Inr c'"
    using assms(1) unfolding sendMessage_def Let_def by (auto elim!: bindE_InrE split: prod.splits)
  then obtain op where "post_operation ''fi_send'' op c = Inr c'"
    by (auto simp: sendRawMessage_def elim!: bindE_InrE split: option.splits)
  then show ?thesis using assms(2) by (rule post_operation_quiet)
qed

text \<open>The memory after a message was written into a buffer of the pool.\<close>

definition message_written :: "fabric_ops \<Rightarrow> 's world \<Rightarrow> 's world \<Rightarrow> bool" where
  "message_written fi w w' \<longleftrightarrow> (\<exists>p dom h bytes h'. getMsgBuffer fi (mem_domain (w_mem w)) (mem_heap (w_mem w)) = Inr (p, dom, h) \<and>
     write_mem p bytes h = Inr h' \<and> w' = w\<lparr>w_mem := \<lparr>mem_heap = h', mem_domain = dom\<rparr>\<rparr>)"

lemma sendMessage_written: "sendMessage fi t dst A d body c w = Inr (c', w') \<Longrightarrow> message_written fi w w'"
  unfolding sendMessage_def Let_def message_written_def by (auto elim!: bindE_InrE split: prod.splits) blast

lemma onConnInit_joins:
  fixes w :: "'s world" and c :: server_connection
  assumes ok: "container_ok X mb w ct" and conn: "conn_ok pd X c" and av: "buffer_available fi w"
    and msg: "mh_msgType (rq_header rq) = msg_code IOC_LF_MSG_CONNECT_INIT" "holds_message (rq_deserializer rq) addr" "length addr = IOC_LF_MAX_ADDR_LEN"
    and ins: "eo_av_insert eo addr = (1, fa)" and ep: "lc_nextEndpointId c < 2 ^ 31 - 1"
    and rdy: "fr_msgBufferSize X \<le> lc_recvBuffersSize c" "set (fb_codes (lc_fabric c)) \<subseteq> {- FI_EAGAIN}" "rq_msgBufferId rq < lc_recvBuffersCount c"
  shows "\<exists>c' w' buf act. onConnInit fi eo rq c w = Inr (c', w') \<and> lc_nextEndpointId c' = Suc (lc_nextEndpointId c) \<and>
    lc_remoteLiAddr c' = sm_set (int (lc_nextEndpointId c)) fa (lc_remoteLiAddr c) \<and> completions c' = completions c \<and>
    fb_ops (lc_fabric c') = fb_ops (lc_fabric c) @ [FiSend fa buf (MessageHeader_wire (fillProtocolHeader (msg_code IOC_LF_MSG_ASSIGN_ID) c) @
      FirstHandshake_wire \<lparr>fh_protocolVersion = IOC_LF_PROTOCOL_VERSION, fh_assignLfClientId = lc_nextEndpointId c\<rparr>) (Some act)] \<and>
    fb_recv (lc_fabric c') = fb_recv (lc_fabric c) @ [rq_msgBufferId rq] \<and> pa_body act = LibfabricPostActionNop LF_WAIT_LOOP_KEEP_WAITING \<and>
    (fb_codes (lc_fabric c) = [] \<longrightarrow> fb_cq (lc_fabric c') = fb_cq (lc_fabric c)) \<and> message_written fi w w' \<and>
    fb_codes (lc_fabric c') = [] \<and> lc_disableReceive c' = lc_disableReceive c \<and> lc_checkClientAuth c' = lc_checkClientAuth c"
proof -
  let ?n = "lc_nextEndpointId c"
  let ?c = "c\<lparr>lc_nextEndpointId := Suc ?n, lc_remoteLiAddr := sm_set (int ?n) fa (lc_remoteLiAddr c)\<rparr>"
  let ?d = "\<lparr>fh_protocolVersion = IOC_LF_PROTOCOL_VERSION, fh_assignLfClientId = ?n\<rparr>" and ?t = "msg_code IOC_LF_MSG_ASSIGN_ID"
  let ?body = "LibfabricPostActionNop LF_WAIT_LOOP_KEEP_WAITING"
  have n: "int_of_size ?n = int ?n" "add64 ?n (Suc 0) = Suc ?n" using ep by (simp_all add: int_of_size_def add64_def W64_def)
  have u: "\<exists>d. apply_struct FirstClientMessage_applySerializerDef ''firstClientMessage'' \<lparr>fc_addr = replicate IOC_LF_MAX_ADDR_LEN 0\<rparr> (rq_deserializer rq)
      = Inr (\<lparr>fc_addr = addr\<rparr>, d)"
    using first_msg.unpack_struct [of "\<lparr>fc_addr = addr\<rparr>" "\<lparr>fc_addr = replicate IOC_LF_MAX_ADDR_LEN 0\<rparr>" "rq_deserializer rq"] msg(2,3)
    by (auto simp: addr_ok_def holds_message_def)
  have cn: "conn_ok pd X ?c" using conn by (simp add: conn_ok_def net_ok_def inflight_def pending_count_def completions_def)
  have hd: "fillProtocolHeader ?t ?c = fillProtocolHeader ?t c" by (simp add: fillProtocolHeader_def)
  have ok_hd: "MessageHeader_ok (fillProtocolHeader ?t ?c)" and sz: "32 + length (FirstHandshake_wire ?d) \<le> fr_msgBufferSize X" "fr_msgBufferSize X < W64"
    using conn by (simp_all add: conn_ok_def MessageHeader_ok_def fillProtocolHeader_def FirstHandshake_wire_def W64_def)
  have ok_d: "FirstHandshake_ok ?d" using ep by (simp add: FirstHandshake_ok_def IOC_LF_PROTOCOL_VERSION_def int32_ok_def W64_def)
  have wok: "world_ok mb (ct_refs (ct_objects ct)) X w" by (rule container_okD(3) [OF ok])
  have peer: "sm_find (lc_remoteLiAddr ?c) (int ?n) = Some fa" by simp
  have "\<exists>c1 w'. sendMessage fi ?t (int ?n) FirstHandshake_applySerializerDef ?d ?body ?c w = Inr (c1, w')"
    by (rule handshake.sendMessage_available [OF wok conn_ok_net [OF cn] av peer _ _ ok_d ok_hd sz]) (use rdy in simp_all)
  then obtain c1 w' where send: "sendMessage fi ?t (int ?n) FirstHandshake_applySerializerDef ?d ?body ?c w = Inr (c1, w')" by blast
  have dsz: "ld_msgBufferSize (mem_domain (w_mem w)) = fr_msgBufferSize X" using world_okD(6) [OF wok] by (simp add: frame_ok_def)
  obtain a buf act where wire: "posted (FiSend a buf (MessageHeader_wire (fillProtocolHeader ?t ?c) @ FirstHandshake_wire ?d) (Some act)) ?c c1"
    using handshake.sendMessage_wire [OF send ok_d ok_hd] sz dsz by auto
  obtain Z a' buf' bytes' act' where eff: "posted (FiSend a' buf' bytes' (Some act')) ?c c1" "sm_find (lc_remoteLiAddr ?c) (int ?n) = Some a'" "pa_body act' = ?body"
    by (rule sendMessage_effect [OF wok conn_ok_net [OF cn] send]) (rule that)
  have a: "a = fa" "pa_body act = ?body" using wire eff peer by (simp_all add: posted_def)
  let ?c1 = "c1\<lparr>lc_hookOnEndpointConnect := map_option (\<lambda>calls. calls @ [int ?n]) (lc_hookOnEndpointConnect c1)\<rparr>"
  have "same_settings ?c c1" using wire by (simp add: posted_def)
  note S = same_settings_sel [OF this]
  have "fb_codes (lc_fabric ?c1) = []" using sendMessage_codes [OF send] rdy(2) by simp
  then obtain c' where rep: "repostReceive (rq_msgBufferId rq) ?c1 = Inr c'"
    using repostReceive_returns [of ?c1] S(2) rdy(3) by auto
  note R = repostReceive_effect [OF rep]
  have run: "onConnInit fi eo rq c w = Inr (c', w')"
    using u msg(1) ins send rep
    by (auto simp: onConnInit_def n sendMessageNoPollWakeup_def terminate_def Let_def simp del: msg_code.simps)
  have "same_settings ?c1 c'" by (rule R(2))
  note T = same_settings_sel [OF this]
  have "fb_codes (lc_fabric c) = [] \<longrightarrow> fb_cq (lc_fabric c') = fb_cq (lc_fabric c)"
    using sendMessage_quiet [OF send] rep by (auto simp: repostReceive_def elim!: bindE_InrE split: list.splits)
  moreover have "fb_codes (lc_fabric c') = []"
    using rep \<open>fb_codes (lc_fabric ?c1) = []\<close> by (auto simp: repostReceive_def elim!: bindE_InrE)
  ultimately show ?thesis
    using run R(3-5) wire a hd S(4,10,11,12) T(4,10,11,12) sendMessage_written [OF send]
    by (intro exI [of _ c'] exI [of _ w'] exI [of _ buf] exI [of _ act]) (simp add: posted_def completions_def)
qed

lemma connect_round:
  assumes inv: "server_ok s"
    and recv: "completions (sv_connection s) = CqRecv i # rest" "fb_cq (lc_fabric (sv_connection s)) = map CqEntry es" "\<not> lc_disableReceive (sv_connection s)"
    and msg: "lc_recvBuffers (sv_connection s) ! i = MessageHeader_wire h @ addr @ r" "MessageHeader_ok h"
      "mh_msgType h = msg_code IOC_LF_MSG_CONNECT_INIT" "length addr = IOC_LF_MAX_ADDR_LEN"
    and env: "eo_av_insert eo addr = (1, fa)" "buffer_available fi (sv_world s)" "set (fb_codes (lc_fabric (sv_connection s))) \<subseteq> {- FI_EAGAIN}"
    and ep: "lc_nextEndpointId (sv_connection s) < 2 ^ 31 - 1"
  shows "\<exists>s' buf act. server_round fi eo so s = Inr s' \<and> completions (sv_connection s') = rest \<and>
    lc_nextEndpointId (sv_connection s') = Suc (lc_nextEndpointId (sv_connection s)) \<and>
    lc_remoteLiAddr (sv_connection s') = sm_set (int (lc_nextEndpointId (sv_connection s))) fa (lc_remoteLiAddr (sv_connection s)) \<and>
    fb_ops (lc_fabric (sv_connection s')) = fb_ops (lc_fabric (sv_connection s)) @
      [FiSend fa buf (MessageHeader_wire (fillProtocolHeader (msg_code IOC_LF_MSG_ASSIGN_ID) (sv_connection s)) @
        FirstHandshake_wire \<lparr>fh_protocolVersion = IOC_LF_PROTOCOL_VERSION, fh_assignLfClientId = lc_nextEndpointId (sv_connection s)\<rparr>) (Some act)] \<and>
    fb_recv (lc_fabric (sv_connection s')) = fb_recv (lc_fabric (sv_connection s)) @ [i] \<and>
    pa_body act = LibfabricPostActionNop LF_WAIT_LOOP_KEEP_WAITING \<and>
    (fb_codes (lc_fabric (sv_connection s)) = [] \<longrightarrow> fb_cq (lc_fabric (sv_connection s)) = [CqEntry (CqRecv i)] \<longrightarrow>
       lc_cqEntries (sv_connection s) = [] \<longrightarrow> fb_cq (lc_fabric (sv_connection s')) = []) \<and>
    sv_app s' = sv_app s \<and> message_written fi (sv_world s) (sv_world s') \<and> fb_codes (lc_fabric (sv_connection s')) = [] \<and>
    lc_disableReceive (sv_connection s') = lc_disableReceive (sv_connection s) \<and> lc_checkClientAuth (sv_connection s') = lc_checkClientAuth (sv_connection s)"
proof -
  let ?c = "sv_connection s" and ?a = "sv_app s" and ?w = "sv_world s"
  have st: "state_ok [] [] server_context 0 server_alignement ?a ?c ?w" using inv by (simp add: server_ok_def)
  obtain c1 where p: "pollForCompletion True ?c = (Some (CqRecv i), c1)" using next_completion [OF recv(1,2)] by blast
  note P = pollForCompletion_effect [OF p]
  note S = receive_state [OF st p refl]
  have set: "same_settings ?c c1" "fb_ops (lc_fabric c1) = fb_ops (lc_fabric ?c)" "fb_recv (lc_fabric c1) = fb_recv (lc_fabric ?c)" "completions c1 = rest"
    using P(1,3) recv(1) by (auto simp: same_posted_def)
  note sel = same_settings_sel [OF set(1)]
  have b: "i < lc_recvBuffersCount c1" "length (lc_recvBuffers c1 ! i) = lc_recvBuffersSize c1" "lc_recvBuffersSize c1 = server_receiveSize"
    using S(1) by (auto simp: state_ok_def receives_ok_def)
  have "lc_recvBuffersSize c1 < W64" using b(3) by (simp add: server_receiveSize_def W64_def)
  then obtain d where d: "receive_header i c1 = Inr (h, d)" "holds_message d addr"
    using received_message [of c1 i h addr r] msg(1,2) b sel(1) by auto
  let ?rq = "\<lparr>rq_lfClientId = mh_lfClientId h, rq_msgBufferId = i, rq_header = h, rq_deserializer = d\<rparr>"
  obtain X where X: "container_ok X 0 ?w (ap_container ?a)" "conn_ok server_context X c1" using S(1) by (auto simp: state_ok_def kept_def)
  have sz: "fr_msgBufferSize X \<le> lc_recvBuffersSize c1"
    using X(2) b(3) by (simp add: conn_ok_def net_ok_def server_context_def server_receiveSize_def IOC_POST_RECEIVE_READ_def
        sizeof_LibfabricMessageHeader_def IOC_STRUCT_MAX_def IOC_EAGER_MAX_READ_def)
  obtain c' w' buf act where J: "onConnInit fi eo ?rq c1 ?w = Inr (c', w')" "lc_nextEndpointId c' = Suc (lc_nextEndpointId c1)"
      "lc_remoteLiAddr c' = sm_set (int (lc_nextEndpointId c1)) fa (lc_remoteLiAddr c1)" "completions c' = completions c1"
      "fb_ops (lc_fabric c') = fb_ops (lc_fabric c1) @ [FiSend fa buf (MessageHeader_wire (fillProtocolHeader (msg_code IOC_LF_MSG_ASSIGN_ID) c1) @
        FirstHandshake_wire \<lparr>fh_protocolVersion = IOC_LF_PROTOCOL_VERSION, fh_assignLfClientId = lc_nextEndpointId c1\<rparr>) (Some act)]"
      "fb_recv (lc_fabric c') = fb_recv (lc_fabric c1) @ [i]" "pa_body act = LibfabricPostActionNop LF_WAIT_LOOP_KEEP_WAITING"
      "fb_codes (lc_fabric c1) = [] \<longrightarrow> fb_cq (lc_fabric c') = fb_cq (lc_fabric c1)" "message_written fi ?w w'" "fb_codes (lc_fabric c') = []"
      "lc_disableReceive c' = lc_disableReceive c1" "lc_checkClientAuth c' = lc_checkClientAuth c1"
    using onConnInit_joins [OF X env(2), of ?rq addr eo fa] msg(3,4) d(2) env(1,3) ep sel(11) P(2) b(1) sz by auto
  have "server_round fi eo so s = Inr (s\<lparr>sv_connection := c', sv_world := w'\<rparr>)"
    using J(1) d(1) msg(3) recv(3) sel(12) by (simp add: server_round_def poll_round_def p onRecv_def del: msg_code.simps)
  moreover have "fb_cq (lc_fabric c1) = []" if "fb_cq (lc_fabric ?c) = [CqEntry (CqRecv i)]" "lc_cqEntries ?c = []"
    using p that by (auto simp: pollForCompletion_def)
  ultimately show ?thesis using J(2-12) P(2) set(2-4) sel(4,10,11,12) same_settings_header [OF set(1)]
    by (intro exI [of _ "s\<lparr>sv_connection := c', sv_world := w'\<rparr>"] exI [of _ buf] exI [of _ act]) simp
qed

section \<open>The end of a message\<close>

text \<open>Handling the completion of a message puts its buffer back in the pool and lowers the counter of the pending actions.\<close>

lemma done_round:
  assumes inv: "server_ok s" and cq: "completions (sv_connection s) = CqDone (Some act) # rest" "fb_cq (lc_fabric (sv_connection s)) = map CqEntry es"
    and act: "pa_body act = LibfabricPostActionNop res" "pa_domainBuffer act \<noteq> NULL"
  obtains c1 where "server_round fi eo so s = Inr (s\<lparr>sv_connection := c1\<lparr>lc_pendingAction := lc_pendingAction (sv_connection s) - 1\<rparr>,
      sv_world := w_set_domain ((mem_domain (w_mem (sv_world s)))
        \<lparr>ld_msgBuffers := ld_msgBuffers (mem_domain (w_mem (sv_world s))) @ [pa_domainBuffer act]\<rparr>) (sv_world s)\<rparr>)"
    "same_posted (sv_connection s) c1" "completions c1 = rest" "fb_codes (lc_fabric c1) = fb_codes (lc_fabric (sv_connection s))"
    "lc_cqEntries (sv_connection s) = [] \<longrightarrow> fb_cq (lc_fabric c1) = tl (fb_cq (lc_fabric (sv_connection s)))"
proof -
  let ?c = "sv_connection s"
  have st: "state_ok [] [] server_context 0 server_alignement (sv_app s) ?c (sv_world s)" using inv by (simp add: server_ok_def)
  obtain X where X: "conn_ok server_context X ?c" using st by (auto simp: state_ok_def kept_def)
  have pend: "0 < lc_pendingAction ?c" using X cq(1) by (simp add: conn_ok_def net_ok_def pending_count_def)
  obtain c1 where p: "pollForCompletion True ?c = (Some (CqDone (Some act)), c1)" using next_completion [OF cq] by blast
  note P = pollForCompletion_effect [OF p]
  have c1: "completions c1 = rest" "lc_pendingAction c1 = lc_pendingAction ?c" using P(1,3) cq(1) by (auto simp: same_posted_def)
  have "bufferless (Some act)" using pop_contexts(1) [OF p] st by (auto simp: state_ok_def)
  then have free: "freeBuffer act c1 (sv_world s) = Inr (c1, w_set_domain ((mem_domain (w_mem (sv_world s)))
      \<lparr>ld_msgBuffers := ld_msgBuffers (mem_domain (w_mem (sv_world s))) @ [pa_domainBuffer act]\<rparr>) (sv_world s))"
    using act(2) by (simp add: freeBuffer_def bufferless_def retMsgBuffer_def w_set_domain_def)
  have "lc_cqEntries ?c = [] \<longrightarrow> fb_cq (lc_fabric c1) = tl (fb_cq (lc_fabric ?c))"
    using p by (auto simp: pollForCompletion_def split: list.splits)
  then show thesis
    using that [of c1] act(1) pend c1 P(1,2) by (simp add: server_round_def poll_round_def p runPostAction_def free decr_pending_def)
qed

section \<open>The end of a transfer\<close>

lemma freeBuffer_returns:
  "bufferless (Some act) \<Longrightarrow> \<exists>w'. freeBuffer act c w = Inr (c, w')"
  by (auto simp: freeBuffer_def bufferless_def retMsgBuffer_def)

lemma response_sent:
  fixes w :: "'s world" and c :: server_connection
  assumes ok: "container_ok X mb w ct" and conn: "conn_ok pd X c" and st: "int32_ok st" and av: "buffer_available fi w"
    and peer: "sm_find (lc_remoteLiAddr c) (int_of_size client) = Some fa" "fr_msgBufferSize X \<le> lc_recvBuffersSize c"
      "set (fb_codes (lc_fabric c)) \<subseteq> {- FI_EAGAIN}"
  shows "\<exists>c' w' buf act. sendResponse fi t client st unblock c w = Inr (c', w') \<and>
    posted (FiSend fa buf (MessageHeader_wire (fillProtocolHeader (msg_code t) c) @ Response_wire (status_response st)) (Some act)) c c'"
proof -
  have "\<exists>c' w'. sendResponse fi t client st unblock c w = Inr (c', w')"
    unfolding sendResponse_def status_response_def [symmetric]
    by (rule response.sendMessage_available [OF container_okD(3) [OF ok] conn_ok_net [OF conn] av peer status_response_ok(1) [OF st]])
      (use conn status_response_ok(2) [of st] msg_code_small in
        \<open>auto simp: conn_ok_def MessageHeader_ok_def fillProtocolHeader_def simp del: msg_code.simps\<close>)
  then obtain c' w' where send: "sendResponse fi t client st unblock c w = Inr (c', w')" by blast
  obtain Z where "answered t (status_response st) client c c'" by (rule sendResponse_effect [OF ok conn st send]) (rule that)
  then show ?thesis using send peer(1) by (auto simp: answered_def)
qed

end
