(* ===== verification/Server_Properties.thy ===== *)
theory Server_Properties
  imports Server_Progress
begin

text \<open>
  The properties of the running server: what holds in every reachable state, and that it makes
  progress there (completions of messages are handled, a client that connects gets its
  identifier, the last operation of a transfer is answered).
\<close>

section \<open>A client that connects\<close>

text \<open>The server starts, the first message of a client arrives in receive buffer 3, the server answers.\<close>

definition wit_header :: LibfabricMessageHeader where
  "wit_header = \<lparr>mh_msgType = msg_code IOC_LF_MSG_CONNECT_INIT, mh_lfClientId = 0, mh_tcpClientId = 0, mh_tcpClientKey = 0\<rparr>"

definition wit_hello :: "byte list" where
  "wit_hello = MessageHeader_wire wit_header @ replicate 32 7"

lemma wit_header_ok: "MessageHeader_ok wit_header" "mh_msgType wit_header = msg_code IOC_LF_MSG_CONNECT_INIT"
  by (simp_all add: wit_header_def MessageHeader_ok_def W64_def)

lemma wit_started:
  "\<exists>s r. server_reachable wit_fabric wit_endpoint table_ops s \<and> lc_cqEntries (sv_connection s) = [] \<and>
     fb_cq (lc_fabric (sv_connection s)) = [CqEntry (CqRecv 3)] \<and> fb_codes (lc_fabric (sv_connection s)) = [] \<and>
     fb_ops (lc_fabric (sv_connection s)) = [] \<and> lc_recvBuffers (sv_connection s) ! 3 = wit_hello @ r \<and>
     \<not> lc_disableReceive (sv_connection s) \<and> lc_nextEndpointId (sv_connection s) = 0 \<and> buffer_available wit_fabric (sv_world s) \<and>
     \<not> lc_checkClientAuth (sv_connection s) \<and> lc_remoteLiAddr (sv_connection s) = [] \<and> 4 \<in> set (fb_recv (lc_fabric (sv_connection s))) \<and>
     ap_container (sv_app s) = Container_init False 0 server_alignement \<and>
     sv_world s = wit_world\<lparr>w_mem := wit_mem\<lparr>mem_domain := (LibfabricDomain_init False)\<lparr>ld_msgBufferSize := IOC_POST_RECEIVE_READ\<rparr>\<rparr>,
       w_backends := [0 \<mapsto> MemoryBackendCache (MemoryBackendMalloc True) [] []]\<rparr>"
proof -
  let ?cfg = "Config_init\<lparr>cf_clientAuth := False\<rparr>"
  have fresh: "fresh_world wit_world" by (auto simp: fresh_world_def wit_world_def wit_mem_def heap_ok_def LibfabricDomain_init_def)
  then obtain s where s: "Server_init ?cfg (\<lambda>_. 0) wit_world = Inr s" using init_returns [of wit_world] by (auto simp: fresh_world_def)
  have reach: "server_reachable wit_fabric wit_endpoint table_ops s" by (rule reach_init [OF fresh s])
  note C = init_connection [OF s] and W = init_world [OF s]
  obtain f where f: "lc_fabric (sv_connection s) = \<lparr>fb_codes = [], fb_cq = [], fb_ops = [], fb_recv = [0..<128]\<rparr>"
      "lc_recvBuffers (sv_connection s) = replicate 128 f" "length f = server_receiveSize" using C(1) by blast
  let ?s = "s\<lparr>sv_connection := deliver 3 wit_hello (sv_connection s)\<rparr>"
  have len: "length wit_hello = 64" by (simp add: wit_hello_def header_length)
  have "client_message server_alignement (wit_hello @ drop (length wit_hello) f)"
    unfolding client_message_def using wit_header_ok by (auto simp: wit_hello_def)
  then have "server_step wit_fabric wit_endpoint table_ops s ?s"
    by (intro step_message) (use f C(3) len in \<open>simp_all add: server_receiveSize_def\<close>)
  then have "server_reachable wit_fabric wit_endpoint table_ops ?s" by (rule reach_step [OF reach])
  moreover have "buffer_available wit_fabric (sv_world ?s)"
    by (simp add: buffer_available_def W(1) wit_world_def wit_mem_def getMsgBuffer_def getMR_def sm_lower_bound_def malloc_def sys_alloc_def registerSegment_def
        wit_fabric_def LibfabricDomain_init_def IOC_POST_RECEIVE_READ_def sizeof_LibfabricMessageHeader_def IOC_STRUCT_MAX_def
        IOC_EAGER_MAX_READ_def Let_def del: upt.simps)
  moreover have "4 \<in> set (fb_recv (lc_fabric (sv_connection ?s)))" using f(1) by (simp add: deliver_def set_remove1_eq)
  moreover have "sv_world ?s = wit_world\<lparr>w_mem := wit_mem\<lparr>mem_domain := (LibfabricDomain_init False)\<lparr>ld_msgBufferSize := IOC_POST_RECEIVE_READ\<rparr>\<rparr>,
       w_backends := [0 \<mapsto> MemoryBackendCache (MemoryBackendMalloc True) [] []]\<rparr>"
    using W(1) by (simp add: wit_world_def wit_mem_def)
  ultimately show ?thesis using f(1,2) C(4,10-13) W(2)
    by (intro exI [of _ ?s] exI [of _ "drop (length wit_hello) f"]) (simp add: deliver_def)
qed

lemma wit_joined:
  "\<exists>s buf bytes act. server_reachable wit_fabric wit_endpoint table_ops s \<and> fb_cq (lc_fabric (sv_connection s)) = [] \<and>
     completions (sv_connection s) = [] \<and> fb_ops (lc_fabric (sv_connection s)) = [FiSend 5 buf bytes (Some act)] \<and>
     bytes \<noteq> [] \<and> pa_body act = LibfabricPostActionNop LF_WAIT_LOOP_KEEP_WAITING \<and> pa_domainBuffer act \<noteq> NULL \<and>
     fb_codes (lc_fabric (sv_connection s)) = [] \<and> \<not> lc_disableReceive (sv_connection s) \<and> \<not> lc_checkClientAuth (sv_connection s) \<and>
     lc_remoteLiAddr (sv_connection s) = [(0, 5)] \<and> 4 \<in> set (fb_recv (lc_fabric (sv_connection s))) \<and>
     ap_container (sv_app s) = Container_init False 0 server_alignement \<and>
     message_written wit_fabric (wit_world\<lparr>w_mem := wit_mem\<lparr>mem_domain := (LibfabricDomain_init False)\<lparr>ld_msgBufferSize := IOC_POST_RECEIVE_READ\<rparr>\<rparr>,
       w_backends := [0 \<mapsto> MemoryBackendCache (MemoryBackendMalloc True) [] []]\<rparr>) (sv_world s)"
proof -
  obtain s r where s: "server_reachable wit_fabric wit_endpoint table_ops s" "lc_cqEntries (sv_connection s) = []"
      "fb_cq (lc_fabric (sv_connection s)) = [CqEntry (CqRecv 3)]" "fb_codes (lc_fabric (sv_connection s)) = []"
      "fb_ops (lc_fabric (sv_connection s)) = []" "lc_recvBuffers (sv_connection s) ! 3 = wit_hello @ r"
      "\<not> lc_disableReceive (sv_connection s)" "lc_nextEndpointId (sv_connection s) = 0" "buffer_available wit_fabric (sv_world s)"
      "\<not> lc_checkClientAuth (sv_connection s)" "lc_remoteLiAddr (sv_connection s) = []" "4 \<in> set (fb_recv (lc_fabric (sv_connection s)))"
      "ap_container (sv_app s) = Container_init False 0 server_alignement"
      "sv_world s = wit_world\<lparr>w_mem := wit_mem\<lparr>mem_domain := (LibfabricDomain_init False)\<lparr>ld_msgBufferSize := IOC_POST_RECEIVE_READ\<rparr>\<rparr>,
         w_backends := [0 \<mapsto> MemoryBackendCache (MemoryBackendMalloc True) [] []]\<rparr>"
    using wit_started by blast
  have comp: "completions (sv_connection s) = [CqRecv 3]" "fb_cq (lc_fabric (sv_connection s)) = map CqEntry [CqRecv 3]"
    using s(2,3) by (simp_all add: completions_def)
  have buf: "lc_recvBuffers (sv_connection s) ! 3 = MessageHeader_wire wit_header @ replicate 32 7 @ r" using s(6) by (simp add: wit_hello_def)
  let ?bytes = "MessageHeader_wire (fillProtocolHeader (msg_code IOC_LF_MSG_ASSIGN_ID) (sv_connection s)) @
    FirstHandshake_wire \<lparr>fh_protocolVersion = IOC_LF_PROTOCOL_VERSION, fh_assignLfClientId = 0\<rparr>"
  obtain s' buf act where s': "server_round wit_fabric wit_endpoint table_ops s = Inr s'" "completions (sv_connection s') = []"
      "fb_ops (lc_fabric (sv_connection s')) = [FiSend 5 buf ?bytes (Some act)]"
      "pa_body act = LibfabricPostActionNop LF_WAIT_LOOP_KEEP_WAITING" "fb_cq (lc_fabric (sv_connection s')) = []"
      "fb_codes (lc_fabric (sv_connection s')) = []" "\<not> lc_disableReceive (sv_connection s')" "\<not> lc_checkClientAuth (sv_connection s')"
      "lc_remoteLiAddr (sv_connection s') = [(0, 5)]" "4 \<in> set (fb_recv (lc_fabric (sv_connection s')))"
      "ap_container (sv_app s') = Container_init False 0 server_alignement" "message_written wit_fabric (sv_world s) (sv_world s')"
    using connect_round [OF reachable_ok [OF s(1) table_ok] comp s(7) buf wit_header_ok, of wit_endpoint 5 wit_fabric table_ops] s
    by (auto simp: wit_endpoint_def IOC_LF_MAX_ADDR_LEN_def simp del: msg_code.simps)
  have r': "server_reachable wit_fabric wit_endpoint table_ops s'" by (rule reach_step [OF s(1) step_round [OF s'(1)]])
  have "length ?bytes \<noteq> 0" by (simp add: header_length)
  then have b: "?bytes \<noteq> []" by force
  obtain X where "conn_ok server_context X (sv_connection s')" using reachable_ok [OF r' table_ok] by (auto simp: server_ok_def state_ok_def kept_def)
  then have "pa_domainBuffer act \<noteq> NULL" using s'(3) by (auto simp: conn_ok_def net_ok_def)
  then show ?thesis using r' s'(2-12) b s(14) by (intro exI [of _ s'] exI [of _ buf] exI [of _ ?bytes] exI [of _ act]) simp
qed

section \<open>What holds in every reachable state\<close>

text \<open>C10: messages that were posted and not yet transmitted still have their bytes in their
  buffer, no buffer is used twice or both used and in the pool, and the counter of pending
  actions is the number of operations whose completion was not handled.\<close>

theorem posted_messages_intact:
  fixes so :: "'s storage_ops" and content :: "'s storage_content"
  assumes "server_reachable fi eo so s" "storage_ok so content"
  shows "(\<forall>a p bytes ctx. FiSend a p bytes ctx \<in> set (fb_ops (lc_fabric (sv_connection s))) \<longrightarrow>
       read_mem p (length bytes) (mem_heap (w_mem (sv_world s))) = Inr bytes) \<and>
     distinct (ld_msgBuffers (mem_domain (w_mem (sv_world s))) @ inflight (sv_connection s)) \<and>
     lc_pendingAction (sv_connection s) =
       int (length (fb_ops (lc_fabric (sv_connection s))) + length (filter is_done (completions (sv_connection s))))"
proof -
  let ?c = "sv_connection s" and ?w = "sv_world s"
  obtain X where X: "container_ok X 0 ?w (ap_container (sv_app s))" "conn_ok server_context X ?c"
    using reachable_ok [OF assms] by (auto simp: server_ok_def state_ok_def kept_def)
  have fr: "frame_ok X (w_mem ?w)" by (rule world_okD(6) [OF container_okD(3) [OF X(1)]])
  have N: "msg_buffers_ok X (inflight ?c)" "lc_pendingAction ?c = int (pending_count ?c)"
      "\<And>op. op \<in> set (fb_ops (lc_fabric ?c)) \<Longrightarrow> send_intact X op"
    using X(2) by (auto simp: conn_ok_def net_ok_def server_context_def)
  have "read_mem p (length bytes) (mem_heap (w_mem ?w)) = Inr bytes" if op: "FiSend a p bytes ctx \<in> set (fb_ops (lc_fabric ?c))" for a p bytes ctx
  proof -
    obtain k xs where k: "p = Ptr k 0" "fr_data X k = Some xs" "take (length bytes) xs = bytes" using N(3) [OF op] by auto
    then have "length bytes \<le> length xs" by (metis length_take min.cobounded1)
    then show ?thesis using k frame_data [OF fr k(2)] by (simp add: slice_def)
  qed
  moreover have "distinct (ld_msgBuffers (mem_domain (w_mem ?w)) @ inflight ?c)" using N(1) fr by (simp add: msg_buffers_ok_def frame_ok_def)
  ultimately show ?thesis using N(2) by (simp add: pending_count_def del: read_mem.simps)
qed

theorem posted_messages_intact_witness:
  "\<exists>(s :: table server) p bytes ctx. fb_ops (lc_fabric (sv_connection s)) = [FiSend 5 p bytes ctx] \<and> bytes \<noteq> [] \<and>
     read_mem p (length bytes) (mem_heap (w_mem (sv_world s))) = Inr bytes \<and> lc_pendingAction (sv_connection s) = 1"
proof -
  obtain s p bytes act where s: "server_reachable wit_fabric wit_endpoint table_ops s" "completions (sv_connection s) = []"
      "fb_ops (lc_fabric (sv_connection s)) = [FiSend 5 p bytes (Some act)]" "bytes \<noteq> []"
    using wit_joined by blast
  show ?thesis using posted_messages_intact [OF s(1) table_ok] s(2-4)
    by (intro exI [of _ s] exI [of _ p] exI [of _ bytes] exI [of _ "Some act"]) (simp del: read_mem.simps)
qed

text \<open>C13: a receive buffer is never at two places: those posted to the device and those whose
  message waits to be handled are distinct, exist, and a waiting one holds the message of a client.\<close>

theorem receive_buffers_exclusive:
  fixes so :: "'s storage_ops" and content :: "'s storage_content"
  assumes "server_reachable fi eo so s" "storage_ok so content"
  shows "distinct (fb_recv (lc_fabric (sv_connection s)) @ received (sv_connection s)) \<and>
    (\<forall>i \<in> set (fb_recv (lc_fabric (sv_connection s)) @ received (sv_connection s)). i < length (lc_recvBuffers (sv_connection s))) \<and>
    (\<forall>i \<in> set (received (sv_connection s)). client_message server_alignement (lc_recvBuffers (sv_connection s) ! i))"
  using reachable_ok [OF assms] by (auto simp: server_ok_def state_ok_def receives_ok_def)

theorem receive_buffers_exclusive_witness:
  "\<exists>s :: table server. received (sv_connection s) = [3] \<and> 3 \<notin> set (fb_recv (lc_fabric (sv_connection s))) \<and>
     client_message server_alignement (lc_recvBuffers (sv_connection s) ! 3)"
proof -
  obtain s where s: "server_reachable wit_fabric wit_endpoint table_ops s" "lc_cqEntries (sv_connection s) = []"
      "fb_cq (lc_fabric (sv_connection s)) = [CqEntry (CqRecv 3)]"
    using wit_started by blast
  have "received (sv_connection s) = [3]" using s(2,3) by (simp add: received_def completions_def List.map_filter_def)
  then show ?thesis using receive_buffers_exclusive [OF s(1) table_ok] by (intro exI [of _ s]) simp
qed

section \<open>Progress\<close>

text \<open>C19: in a reachable state, handling the completion of a message that the server sent
  succeeds whatever the rest of the state is; the buffer of the message goes back to the pool
  and one action less is pending.\<close>

theorem send_completion_handled:
  fixes so :: "'s storage_ops" and content :: "'s storage_content"
  assumes "server_reachable fi eo so s" "storage_ok so content"
    and "completions (sv_connection s) = CqDone (Some act) # rest" "fb_cq (lc_fabric (sv_connection s)) = map CqEntry es"
    and "pa_body act = LibfabricPostActionNop res" "pa_domainBuffer act \<noteq> NULL"
  shows "\<exists>s'. server_round fi eo so s = Inr s' \<and> completions (sv_connection s') = rest \<and>
    ld_msgBuffers (mem_domain (w_mem (sv_world s'))) = ld_msgBuffers (mem_domain (w_mem (sv_world s))) @ [pa_domainBuffer act] \<and>
    lc_pendingAction (sv_connection s') = lc_pendingAction (sv_connection s) - 1"
  by (rule done_round [OF reachable_ok [OF assms(1,2)] assms(3-6), of fi eo so]) (simp add: w_set_domain_def completions_def)

theorem send_completion_handled_witness:
  "\<exists>(s :: table server) s' p. server_round wit_fabric wit_endpoint table_ops s = Inr s' \<and> lc_pendingAction (sv_connection s) = 1 \<and>
     lc_pendingAction (sv_connection s') = 0 \<and> p \<noteq> NULL \<and>
     ld_msgBuffers (mem_domain (w_mem (sv_world s'))) = ld_msgBuffers (mem_domain (w_mem (sv_world s))) @ [p]"
proof -
  obtain s p bytes act where s: "server_reachable wit_fabric wit_endpoint table_ops s" "fb_cq (lc_fabric (sv_connection s)) = []"
      "completions (sv_connection s) = []" "fb_ops (lc_fabric (sv_connection s)) = [FiSend 5 p bytes (Some act)]"
      "pa_body act = LibfabricPostActionNop LF_WAIT_LOOP_KEEP_WAITING" "pa_domainBuffer act \<noteq> NULL"
    using wit_joined by blast
  let ?s = "s\<lparr>sv_connection := complete 0 (sv_connection s)\<rparr>"
  have reach: "server_reachable wit_fabric wit_endpoint table_ops ?s"
    by (rule reach_step [OF s(1) step_complete]) (use s(4) in simp)
  have c: "completions (sv_connection ?s) = CqDone (Some act) # []" "fb_cq (lc_fabric (sv_connection ?s)) = map CqEntry [CqDone (Some act)]"
    "fb_ops (lc_fabric (sv_connection ?s)) = []"
    using s(2-4) by (simp_all add: complete_def completions_def)
  obtain X where "conn_ok server_context X (sv_connection ?s)"
    using reachable_ok [OF reach table_ok] by (auto simp: server_ok_def state_ok_def kept_def)
  then have pend: "lc_pendingAction (sv_connection ?s) = 1" using c by (simp add: conn_ok_def net_ok_def pending_count_def server_context_def)
  show ?thesis using send_completion_handled [OF reach table_ok c(1,2) s(5,6)] pend s(6) by fastforce
qed

text \<open>C35: a client whose connection message waits at the head of the completions gets in: the next
  turn of the polling loop stores its address under the next endpoint number, posts the message
  that tells the client this number, and posts the receive buffer again.\<close>

theorem client_joins:
  fixes so :: "'s storage_ops" and content :: "'s storage_content"
  assumes reach: "server_reachable fi eo so s" and so: "storage_ok so content"
    and recv: "completions (sv_connection s) = CqRecv i # rest" "fb_cq (lc_fabric (sv_connection s)) = map CqEntry es" "\<not> lc_disableReceive (sv_connection s)"
    and msg: "lc_recvBuffers (sv_connection s) ! i = MessageHeader_wire h @ addr @ r" "MessageHeader_ok h"
      "mh_msgType h = msg_code IOC_LF_MSG_CONNECT_INIT" "length addr = IOC_LF_MAX_ADDR_LEN"
    and env: "eo_av_insert eo addr = (1, fa)" "buffer_available fi (sv_world s)" "set (fb_codes (lc_fabric (sv_connection s))) \<subseteq> {- FI_EAGAIN}"
    and ep: "lc_nextEndpointId (sv_connection s) < 2 ^ 31 - 1"
  shows "\<exists>s' buf act. server_round fi eo so s = Inr s' \<and> completions (sv_connection s') = rest \<and>
    lc_nextEndpointId (sv_connection s') = Suc (lc_nextEndpointId (sv_connection s)) \<and>
    lc_remoteLiAddr (sv_connection s') = sm_set (int (lc_nextEndpointId (sv_connection s))) fa (lc_remoteLiAddr (sv_connection s)) \<and>
    fb_ops (lc_fabric (sv_connection s')) = fb_ops (lc_fabric (sv_connection s)) @
      [FiSend fa buf (MessageHeader_wire (fillProtocolHeader (msg_code IOC_LF_MSG_ASSIGN_ID) (sv_connection s)) @
        FirstHandshake_wire \<lparr>fh_protocolVersion = IOC_LF_PROTOCOL_VERSION, fh_assignLfClientId = lc_nextEndpointId (sv_connection s)\<rparr>) (Some act)] \<and>
    fb_recv (lc_fabric (sv_connection s')) = fb_recv (lc_fabric (sv_connection s)) @ [i]"
  using connect_round [OF reachable_ok [OF reach so] recv msg env ep] by blast

theorem client_joins_witness:
  "\<exists>(s :: table server) s' buf bytes act. server_round wit_fabric wit_endpoint table_ops s = Inr s' \<and>
     fb_ops (lc_fabric (sv_connection s')) = [FiSend 5 buf bytes (Some act)] \<and> lc_nextEndpointId (sv_connection s') = 1 \<and>
     sm_find (lc_remoteLiAddr (sv_connection s')) 0 = Some 5"
proof -
  obtain s r where s: "server_reachable wit_fabric wit_endpoint table_ops s" "lc_cqEntries (sv_connection s) = []"
      "fb_cq (lc_fabric (sv_connection s)) = [CqEntry (CqRecv 3)]" "fb_codes (lc_fabric (sv_connection s)) = []"
      "fb_ops (lc_fabric (sv_connection s)) = []" "lc_recvBuffers (sv_connection s) ! 3 = wit_hello @ r"
      "\<not> lc_disableReceive (sv_connection s)" "lc_nextEndpointId (sv_connection s) = 0" "buffer_available wit_fabric (sv_world s)"
    using wit_started by blast
  have comp: "completions (sv_connection s) = [CqRecv 3]" "fb_cq (lc_fabric (sv_connection s)) = map CqEntry [CqRecv 3]"
    using s(2,3) by (simp_all add: completions_def)
  have buf: "lc_recvBuffers (sv_connection s) ! 3 = MessageHeader_wire wit_header @ replicate 32 7 @ r" using s(6) by (simp add: wit_hello_def)
  have env: "eo_av_insert wit_endpoint (replicate 32 7) = (1, 5)" "length (replicate 32 (7 :: byte)) = IOC_LF_MAX_ADDR_LEN"
    by (simp_all add: wit_endpoint_def IOC_LF_MAX_ADDR_LEN_def)
  have small: "set (fb_codes (lc_fabric (sv_connection s))) \<subseteq> {- FI_EAGAIN}" "lc_nextEndpointId (sv_connection s) < 2 ^ 31 - 1"
    using s(4,8) by simp_all
  show ?thesis using client_joins [OF s(1) table_ok comp s(7) buf wit_header_ok env(2,1) s(9) small] s(5,8) by fastforce
qed

text \<open>C12: handling the completion of an operation of an RDMA transfer succeeds in every state that
  satisfies the invariant of the server.  Unless it is the
  last one, the counter of the transfer is decremented and nothing is sent; with the last one
  exactly one message is posted, the success answer to the client, and the counter is freed.\<close>

theorem transfer_answered_once:
  fixes s :: "'s server"
  assumes inv: "server_ok s"
    and cq: "completions (sv_connection s) = CqDone (Some act) # rest" "fb_cq (lc_fabric (sv_connection s)) = map CqEntry es"
    and f: "pa_body act = LibfabricPostActionFunction f" "f = RdmaPushed k n client \<or> f = RdmaFetched k n client"
    and env: "buffer_available fi (sv_world s)" "set (fb_codes (lc_fabric (sv_connection s))) \<subseteq> {- FI_EAGAIN}"
      "sm_find (lc_remoteLiAddr (sv_connection s)) (int_of_size client) = Some fa"
  shows "\<exists>s'. server_round fi eo so s = Inr s' \<and>
    (if transfer_count [] (sv_connection s) k = 1
     then ap_ops (sv_app s') k = None \<and> (\<exists>buf act'. fb_ops (lc_fabric (sv_connection s')) = fb_ops (lc_fabric (sv_connection s)) @
            [FiSend fa buf (MessageHeader_wire (fillProtocolHeader (msg_code IOC_LF_MSG_OBJ_READ_WRITE_ACK) (sv_connection s)) @
               Response_wire (status_response 0)) (Some act')])
     else ap_ops (sv_app s') k = Some (int (transfer_count [] (sv_connection s) k) - 1) \<and>
       fb_ops (lc_fabric (sv_connection s')) = fb_ops (lc_fabric (sv_connection s)))"
proof -
  let ?c = "sv_connection s" and ?a = "sv_app s" and ?w = "sv_world s" and ?t = IOC_LF_MSG_OBJ_READ_WRITE_ACK
  have st: "state_ok [] [] server_context 0 server_alignement ?a ?c ?w" using inv by (simp add: server_ok_def)
  obtain c1 where p: "pollForCompletion True ?c = (Some (CqDone (Some act)), c1)" using next_completion [OF cq] by blast
  note P = pollForCompletion_effect [OF p]
  have set: "same_settings ?c c1" "fb_ops (lc_fabric c1) = fb_ops (lc_fabric ?c)" "lc_pendingAction c1 = lc_pendingAction ?c"
    using P(1) by (auto simp: same_posted_def)
  note sel = same_settings_sel [OF set(1)]
  have k: "transfer_of (Some act) = Some k" using f by (auto simp: transfer_of_def)
  have pop: "transfers_ok [k] ?a c1" "bufferless (Some act)"
    using pop_contexts(1) [OF p, of ?a] st k by (auto simp: state_ok_def)
  have "k \<in> set (List.map_filter transfer_of (contexts ?c))" using k cq(1) by (force simp: contexts_def List.map_filter_def)
  then have pos: "0 < transfer_count [] ?c k" by (metis append_Nil count_list_0_iff gr0I transfer_count_def)
  have "(case ap_ops ?a k of None \<Rightarrow> 0 | Some m \<Rightarrow> m) = int (transfer_count [] ?c k)" using st by (simp add: state_ok_def transfers_ok_def)
  then have ops: "ap_ops ?a k = Some (int (transfer_count [] ?c k))" using pos by (cases "ap_ops ?a k") auto
  obtain account where run: "\<And>a c w. run_fun fi f a c (w :: 's world) = transfer_done fi account k client a c w"
    using f(2) by (auto simp: run_fun_def)
  obtain X where X: "container_ok X 0 ?w (ap_container ?a)" "conn_ok server_context X ?c" using st by (auto simp: state_ok_def kept_def)
  obtain F where F: "conn_ok (server_context\<lparr>nc_held := Suc (nc_held server_context), nc_foreign := F\<rparr>) X c1" using pop_done [OF X(2) p] by blast
  have pend: "0 < lc_pendingAction c1" using X(2) cq(1) set(3) by (simp add: conn_ok_def net_ok_def pending_count_def)
  have round: "\<exists>w3. server_round fi eo so s = Inr (s\<lparr>sv_app := a2, sv_connection := c2\<lparr>lc_pendingAction := lc_pendingAction c2 - 1\<rparr>, sv_world := w3\<rparr>)"
    if "transfer_done fi account k client ?a c1 ?w = Inr (res, a2, c2, w2)" "lc_pendingAction c1 \<le> lc_pendingAction c2" for res a2 c2 w2
    using that pend f(1) freeBuffer_returns [OF pop(2), of c2 w2]
    by (auto simp: server_round_def poll_round_def p runPostAction_def run decr_pending_def)
  show ?thesis
  proof (cases "transfer_count [] ?c k = 1")
    case False
    then have "transfer_done fi account k client ?a c1 ?w =
        Inr (LF_WAIT_LOOP_KEEP_WAITING, ?a\<lparr>ap_ops := (ap_ops ?a)(k \<mapsto> int (transfer_count [] ?c k) - 1)\<rparr>, c1, ?w)"
      using ops by (simp add: transfer_done_def)
    from round [OF this] show ?thesis using False set(2) by auto
  next
    case True
    have sz: "fr_msgBufferSize X \<le> lc_recvBuffersSize c1"
      using F st sel(3) by (simp add: conn_ok_def net_ok_def server_context_def state_ok_def receives_ok_def server_receiveSize_def
          IOC_POST_RECEIVE_READ_def sizeof_LibfabricMessageHeader_def IOC_STRUCT_MAX_def IOC_EAGER_MAX_READ_def)
    obtain c2 w2 buf act' where send: "sendResponse fi ?t client 0 False c1 ?w = Inr (c2, w2)"
        and post: "posted (FiSend fa buf (MessageHeader_wire (fillProtocolHeader (msg_code ?t) c1) @ Response_wire (status_response 0)) (Some act')) c1 c2"
      using response_sent [OF X(1) F, of 0 fi client fa ?t] env sel(4) P(2) sz by (fastforce simp: int32_ok_def)
    have "transfer_done fi account k client ?a c1 ?w =
        Inr (LF_WAIT_LOOP_KEEP_WAITING, ?a\<lparr>ap_stats := account (ap_stats ?a), ap_ops := (ap_ops ?a)(k := None)\<rparr>, c2, w2)"
      using ops True send by (simp add: transfer_done_def)
    from round [OF this] show ?thesis using True set(2) post same_settings_header [OF set(1)] by (auto simp: posted_def)
  qed
qed

definition wit_fetched :: "server_fun post_action" where
  "wit_fetched = PostAction_init (LibfabricPostActionFunction (RdmaFetched 7 100 3))"

text \<open>A state in which the only operation of transfer 7 is complete.\<close>

definition wit_transfer :: "table server \<Rightarrow> table server" where
  "wit_transfer s = s\<lparr>sv_app := (sv_app s)\<lparr>ap_ops := [7 \<mapsto> 1], ap_nextOps := 8\<rparr>,
     sv_connection := (sv_connection s)\<lparr>lc_remoteLiAddr := [(3, 5)], lc_pendingAction := 1,
       lc_fabric := (lc_fabric (sv_connection s))\<lparr>fb_cq := [CqEntry (CqDone (Some wit_fetched))]\<rparr>\<rparr>\<rparr>"

lemma wit_transfer_ok:
  assumes ok: "server_ok s" and c: "lc_cqEntries (sv_connection s) = []" "fb_ops (lc_fabric (sv_connection s)) = []"
  shows "server_ok (wit_transfer s)" "completions (sv_connection (wit_transfer s)) = CqDone (Some wit_fetched) # []"
    "transfer_count [] (sv_connection (wit_transfer s)) 7 = 1"
proof -
  let ?c = "sv_connection (wit_transfer s)"
  show comp: "completions ?c = CqDone (Some wit_fetched) # []" using c by (simp add: wit_transfer_def completions_def)
  have ops: "fb_ops (lc_fabric ?c) = []" using c(2) by (simp add: wit_transfer_def)
  have ctx: "contexts ?c = [Some wit_fetched]" by (simp add: contexts_def ops comp)
  have tr: "transfer_of (Some wit_fetched) = Some 7" "bufferless (Some wit_fetched)" "pa_domainBuffer wit_fetched = NULL"
    by (simp_all add: wit_fetched_def transfer_of_def bufferless_def PostAction_init_def)
  show "transfer_count [] ?c 7 = 1" by (simp add: transfer_count_def ctx tr(1) List.map_filter_def)
  have st: "state_ok [] [] server_context 0 server_alignement (sv_app s) (sv_connection s) (sv_world s)" using ok by (simp add: server_ok_def)
  obtain X where X: "container_ok X 0 (sv_world s) (ap_container (sv_app s))" "conn_ok server_context X (sv_connection s)"
    using st by (auto simp: state_ok_def kept_def)
  have nil: "inflight ?c = []" "pending_count ?c = 1" by (simp_all add: inflight_def pending_count_def ops comp tr(3))
  have "conn_ok server_context X ?c"
    using X(2) unfolding conn_ok_def net_ok_def nil ops
    by (auto simp: wit_transfer_def server_context_def msg_buffers_ok_def foreign_ok_def)
  then have "kept server_context 0 (sv_app (wit_transfer s)) ?c (sv_world (wit_transfer s))" using X(1) by (auto simp: kept_def wit_transfer_def)
  moreover have "transfers_ok [] (sv_app (wit_transfer s)) ?c"
    unfolding transfers_ok_def transfer_count_def ctx by (simp add: tr wit_transfer_def List.map_filter_def)
  moreover have "received ?c = []" by (simp add: received_def comp List.map_filter_def)
  then have "receives_ok [] server_alignement ?c" using st unfolding state_ok_def receives_ok_def by (simp add: wit_transfer_def)
  ultimately show "server_ok (wit_transfer s)" using st by (simp add: server_ok_def state_ok_def wit_transfer_def)
qed

theorem transfer_answered_once_witness:
  "\<exists>(s :: table server) s' buf bytes act. server_round wit_fabric wit_endpoint table_ops s = Inr s' \<and> ap_ops (sv_app s) 7 = Some 1 \<and>
     ap_ops (sv_app s') 7 = None \<and> fb_ops (lc_fabric (sv_connection s')) = [FiSend 5 buf bytes (Some act)]"
proof -
  obtain s where s: "server_reachable wit_fabric wit_endpoint table_ops s" "lc_cqEntries (sv_connection s) = []"
      "fb_codes (lc_fabric (sv_connection s)) = []" "fb_ops (lc_fabric (sv_connection s)) = []" "buffer_available wit_fabric (sv_world s)"
    using wit_started by blast
  note W = wit_transfer_ok [OF reachable_ok [OF s(1) table_ok] s(2,4)]
  have env: "buffer_available wit_fabric (sv_world (wit_transfer s))" "set (fb_codes (lc_fabric (sv_connection (wit_transfer s)))) \<subseteq> {- FI_EAGAIN}"
    "sm_find (lc_remoteLiAddr (sv_connection (wit_transfer s))) (int_of_size 3) = Some 5"
    "fb_cq (lc_fabric (sv_connection (wit_transfer s))) = map CqEntry [CqDone (Some wit_fetched)]"
    "fb_ops (lc_fabric (sv_connection (wit_transfer s))) = []" "ap_ops (sv_app (wit_transfer s)) 7 = Some 1"
    using s(3-5) by (simp_all add: wit_transfer_def int_of_size_def)
  have body: "pa_body wit_fetched = LibfabricPostActionFunction (RdmaFetched 7 100 3)" by (simp add: wit_fetched_def PostAction_init_def)
  show ?thesis using transfer_answered_once [OF W(1,2) env(4) body disjI2 [OF refl] env(1-3)] W(3) env(5,6) by fastforce
qed

end
