(* ===== verification/Client.thy ===== *)
theory Client
  imports Libfabric_Connection
begin

text \<open>
  The requests of a client (src/client/Actions.cpp): each one sends a message to the server and
  polls until the response has arrived.  The polls are bounded by \<open>fuel\<close>; \<open>None\<close> is a request that is
  still waiting after them.  The memory of the client is a world of its own, of which the requests
  use the heap and the domain.
\<close>

section \<open>Data\<close>

text \<open>A client registers no hook and posts no lambda function of its own.\<close>

type_synonym client_connection = "(unit, unit) connection"

definition no_hook :: "(unit \<times> LibfabricClientRequest, unit, unit, unit, 's) callback" where
  "no_hook h a c w = Inr (LF_WAIT_LOOP_KEEP_WAITING, a, c, w)"

definition no_fun :: "(unit, unit, unit, unit, 's) callback" where
  "no_fun f a c w = Inr (LF_WAIT_LOOP_KEEP_WAITING, a, c, w)"

definition no_response :: LibfabricResponse where
  "no_response = \<lparr>rs_msgDataSize = 0, rs_status = 0, rs_msgHasData = False, rs_optionalData = None, rs_optionalDataFragments = None\<rparr>"

type_synonym 's request_result = "(int option \<times> client_connection \<times> 's world) result"

section \<open>Waiting for a response\<close>

definition poll_response ::
  "nat \<Rightarrow> fabric_ops \<Rightarrow> LibfabricMessageType \<Rightarrow> client_connection \<Rightarrow> 's world \<Rightarrow>
   ((LibfabricClientRequest \<times> LibfabricResponse) option \<times> client_connection \<times> 's world) result" where
  "poll_response fuel fi expected c w =
     bindE (pollMessage fuel fi no_fun expected () c w) (\<lambda>(res, _, c, w). case res of
       None \<Rightarrow> Inr (None, c, w)
     | Some None \<Rightarrow> Inl (AssumeFailed ''Fail to get message from pollMessage !'')
     | Some (Some serverResponse) \<Rightarrow>
         bindE (apply_struct Response_applySerializerDef ''response'' no_response (rq_deserializer serverResponse)) (\<lambda>(response, _).
         Inr (Some (serverResponse, response), c, w)))"

definition response_status ::
  "(LibfabricClientRequest \<times> LibfabricResponse) option \<times> client_connection \<times> 's world \<Rightarrow> 's request_result" where
  "response_status r = (case r of
     (None, c, w) \<Rightarrow> Inr (None, c, w)
   | (Some (serverResponse, response), c, w) \<Rightarrow>
       bindE (terminate serverResponse c) (\<lambda>c. Inr (Some (rs_status response), c, w)))"

section \<open>Requests\<close>

definition obj_read ::
  "nat \<Rightarrow> fabric_ops \<Rightarrow> LibfabricObjectId \<Rightarrow> ptr \<Rightarrow> size_t \<Rightarrow> size_t \<Rightarrow> client_connection \<Rightarrow> 's world \<Rightarrow> 's request_result" where
  "obj_read fuel fi objectId buffer n offset c w =
     (let objReadWrite = \<lparr>rw_objectId = objectId, rw_iov = \<lparr>iov_addr = 0, iov_key = 0\<rparr>, rw_offset = offset, rw_size = n,
            rw_msgHasData = False, rw_optionalData = None\<rparr> in
      bindE (if n > IOC_EAGER_MAX_READ then
               bindE (registerSegment fi buffer n True True False (mem_domain (w_mem w))) (\<lambda>(iov, d).
               Inr (objReadWrite\<lparr>rw_iov := iov\<rparr>, w\<lparr>w_mem := (w_mem w)\<lparr>mem_domain := d\<rparr>\<rparr>))
             else Inr (objReadWrite, w)) (\<lambda>(objReadWrite, w).
      bindE (sendMessageNoPollWakeup fi (msg_code IOC_LF_MSG_OBJ_READ) IOC_LF_SERVER_ID ObjReadWriteInfos_applySerializerDef objReadWrite c w) (\<lambda>(c, w).
      bindE (poll_response fuel fi IOC_LF_MSG_OBJ_READ_WRITE_ACK c w) (\<lambda>(res, c, w). case res of
        None \<Rightarrow> Inr (None, c, w)
      | Some (serverResponse, response) \<Rightarrow>
          bindE (if rs_msgHasData response then
                   bindE (assumeE (rs_msgDataSize response = n) ''Invalid message size recieved'') (\<lambda>_.
                   bindE (data_read (rs_msgDataSize response) (rs_optionalData response)) (\<lambda>bytes.
                   bindE (write_mem buffer bytes (mem_heap (w_mem w))) (\<lambda>h. Inr (w_set_heap h w))))
                 else Inr w) (\<lambda>w.
          bindE (terminate serverResponse c) (\<lambda>c.
          bindE (if n > IOC_EAGER_MAX_READ then
                   bindE (unregisterSegment buffer n (mem_domain (w_mem w))) (\<lambda>d. Inr (w\<lparr>w_mem := (w_mem w)\<lparr>mem_domain := d\<rparr>\<rparr>))
                 else Inr w) (\<lambda>w.
          Inr (Some (rs_status response), c, w))))))))"

text \<open>The data of an eager write is read from the buffer when the message is packed.\<close>

definition obj_write ::
  "nat \<Rightarrow> fabric_ops \<Rightarrow> LibfabricObjectId \<Rightarrow> ptr \<Rightarrow> size_t \<Rightarrow> size_t \<Rightarrow> client_connection \<Rightarrow> 's world \<Rightarrow> 's request_result" where
  "obj_write fuel fi objectId buffer n offset c w =
     (let objReadWrite = \<lparr>rw_objectId = objectId, rw_iov = \<lparr>iov_addr = 0, iov_key = 0\<rparr>, rw_offset = offset, rw_size = n,
            rw_msgHasData = False, rw_optionalData = None\<rparr> in
      bindE (if n > IOC_EAGER_MAX_WRITE then
               bindE (registerSegment fi buffer n True False False (mem_domain (w_mem w))) (\<lambda>(iov, d).
               Inr (objReadWrite\<lparr>rw_iov := iov\<rparr>, w\<lparr>w_mem := (w_mem w)\<lparr>mem_domain := d\<rparr>\<rparr>))
             else Inr (objReadWrite, w)) (\<lambda>(objReadWrite, w).
      bindE (if n \<le> IOC_EAGER_MAX_WRITE then
               bindE (if buffer = NULL then Inr None else bindE (read_mem buffer n (mem_heap (w_mem w))) (\<lambda>bytes. Inr (Some bytes))) (\<lambda>p.
               Inr (objReadWrite\<lparr>rw_msgHasData := True, rw_optionalData := p\<rparr>))
             else Inr objReadWrite) (\<lambda>objReadWrite.
      bindE (sendMessageNoPollWakeup fi (msg_code IOC_LF_MSG_OBJ_WRITE) IOC_LF_SERVER_ID ObjReadWriteInfos_applySerializerDef objReadWrite c w) (\<lambda>(c, w).
      bindE (poll_response fuel fi IOC_LF_MSG_OBJ_READ_WRITE_ACK c w) (\<lambda>(res, c, w). case res of
        None \<Rightarrow> Inr (None, c, w)
      | Some (serverResponse, response) \<Rightarrow>
          bindE (terminate serverResponse c) (\<lambda>c.
          bindE (if n > IOC_EAGER_MAX_WRITE then
                   bindE (unregisterSegment buffer n (mem_domain (w_mem w))) (\<lambda>d. Inr (w\<lparr>w_mem := (w_mem w)\<lparr>mem_domain := d\<rparr>\<rparr>))
                 else Inr w) (\<lambda>w.
          Inr (Some (rs_status response), c, w))))))))"

definition obj_flush ::
  "nat \<Rightarrow> fabric_ops \<Rightarrow> LibfabricObjectId \<Rightarrow> size_t \<Rightarrow> size_t \<Rightarrow> client_connection \<Rightarrow> 's world \<Rightarrow> 's request_result" where
  "obj_flush fuel fi objectId offset n c w =
     bindE (sendMessageNoPollWakeup fi (msg_code IOC_LF_MSG_OBJ_FLUSH) IOC_LF_SERVER_ID ObjFlushInfos_applySerializerDef
              \<lparr>fl_objectId = objectId, fl_offset = offset, fl_size = n\<rparr> c w) (\<lambda>(c, w).
     bindE (poll_response fuel fi IOC_LF_MSG_OBJ_FLUSH_ACK c w) response_status)"

definition obj_range_register ::
  "nat \<Rightarrow> fabric_ops \<Rightarrow> LibfabricObjectId \<Rightarrow> size_t \<Rightarrow> size_t \<Rightarrow> bool \<Rightarrow> client_connection \<Rightarrow> 's world \<Rightarrow> 's request_result" where
  "obj_range_register fuel fi objectId offset n write c w =
     bindE (sendMessageNoPollWakeup fi (msg_code IOC_LF_MSG_OBJ_RANGE_REGISTER) IOC_LF_SERVER_ID RegisterRange_applySerializerDef
              \<lparr>rr_objectId = objectId, rr_offset = offset, rr_size = n, rr_write = write\<rparr> c w) (\<lambda>(c, w).
     bindE (poll_response fuel fi IOC_LF_MSG_OBJ_RANGE_REGISTER_ACK c w) response_status)"

definition obj_range_unregister ::
  "nat \<Rightarrow> fabric_ops \<Rightarrow> int \<Rightarrow> LibfabricObjectId \<Rightarrow> size_t \<Rightarrow> size_t \<Rightarrow> bool \<Rightarrow> client_connection \<Rightarrow> 's world \<Rightarrow> 's request_result" where
  "obj_range_unregister fuel fi ident objectId offset n write c w =
     bindE (sendMessageNoPollWakeup fi (msg_code IOC_LF_MSG_OBJ_RANGE_UNREGISTER) IOC_LF_SERVER_ID UnregisterRange_applySerializerDef
              \<lparr>ur_objectId = objectId, ur_offset = offset, ur_size = n, ur_id = ident, ur_write = write\<rparr> c w) (\<lambda>(c, w).
     bindE (poll_response fuel fi IOC_LF_MSG_OBJ_RANGE_UNREGISTER_ACK c w) response_status)"

definition obj_create ::
  "nat \<Rightarrow> fabric_ops \<Rightarrow> LibfabricObjectId \<Rightarrow> client_connection \<Rightarrow> 's world \<Rightarrow> 's request_result" where
  "obj_create fuel fi objectId c w =
     bindE (sendMessageNoPollWakeup fi (msg_code IOC_LF_MSG_OBJ_CREATE) IOC_LF_SERVER_ID ObjCreateInfos_applySerializerDef
              \<lparr>cr_objectId = objectId\<rparr> c w) (\<lambda>(c, w).
     bindE (poll_response fuel fi IOC_LF_MSG_OBJ_CREATE_ACK c w) response_status)"

definition obj_cow ::
  "nat \<Rightarrow> fabric_ops \<Rightarrow> LibfabricObjectId \<Rightarrow> LibfabricObjectId \<Rightarrow> bool \<Rightarrow> size_t \<Rightarrow> size_t \<Rightarrow> client_connection \<Rightarrow> 's world \<Rightarrow>
   's request_result" where
  "obj_cow fuel fi sourceObjectId destObjectId allowExist offset n c w =
     bindE (sendMessageNoPollWakeup fi (msg_code IOC_LF_MSG_OBJ_COW) IOC_LF_SERVER_ID ObjectCow_applySerializerDef
              \<lparr>oc_sourceObjectId = sourceObjectId, oc_destObjectId = destObjectId, oc_allowExist = allowExist,
               oc_rangeOffset = offset, oc_rangeSize = n\<rparr> c w) (\<lambda>(c, w).
     bindE (poll_response fuel fi IOC_LF_MSG_OBJ_COW_ACK c w) response_status)"

section \<open>Ping\<close>

text \<open>The loop of \<open>ping_pong\<close>; the flag says whether all its responses came.\<close>

fun ping_rounds ::
  "nat \<Rightarrow> nat \<Rightarrow> fabric_ops \<Rightarrow> LibfabricPing \<Rightarrow> client_connection \<Rightarrow> 's world \<Rightarrow> (bool \<times> client_connection \<times> 's world) result" where
  "ping_rounds 0 fuel fi ping c w = Inr (True, c, w)"
| "ping_rounds (Suc cnt) fuel fi ping c w =
     bindE (sendMessageNoPollWakeup fi (msg_code IOC_LF_MSG_PING) IOC_LF_SERVER_ID Ping_applySerializerDef ping c w) (\<lambda>(c, w).
     bindE (pollMessage fuel fi no_fun IOC_LF_MSG_PONG () c w) (\<lambda>(res, _, c, w). case res of
       None \<Rightarrow> Inr (False, c, w)
     | Some None \<Rightarrow> Inl (AssumeFailed ''Fail to get message from pollMessage !'')
     | Some (Some serverResponse) \<Rightarrow> bindE (terminate serverResponse c) (\<lambda>c. ping_rounds cnt fuel fi ping c w)))"

text \<open>\<open>new char[n]\<close> and \<open>memset\<close>.\<close>

definition filled_buffer :: "size_t \<Rightarrow> byte \<Rightarrow> 's world \<Rightarrow> (ptr \<times> 's world) result" where
  "filled_buffer n b w =
     (let (buf, h) = malloc n (mem_heap (w_mem w)) in
      bindE (assumeE (buf \<noteq> NULL) ''std::bad_alloc'') (\<lambda>_.
      bindE (write_mem buf (replicate n b) h) (\<lambda>h. Inr (buf, w_set_heap h w))))"

definition ping_pong ::
  "nat \<Rightarrow> fabric_ops \<Rightarrow> int \<Rightarrow> size_t \<Rightarrow> size_t \<Rightarrow> client_connection \<Rightarrow> 's world \<Rightarrow> (bool \<times> client_connection \<times> 's world) result" where
  "ping_pong fuel fi cnt eagerSize rdmaSize c w =
     bindE (if rdmaSize > 0 then
              bindE (filled_buffer rdmaSize 42 w) (\<lambda>(buf, w).
              bindE (registerSegment fi buf rdmaSize True True False (mem_domain (w_mem w))) (\<lambda>(iov, d).
              Inr (buf, iov, w\<lparr>w_mem := (w_mem w)\<lparr>mem_domain := d\<rparr>\<rparr>)))
            else Inr (NULL, \<lparr>iov_addr = 0, iov_key = 0\<rparr>, w)) (\<lambda>(rdmaBuffer, rdmaIov, w).
     bindE (if eagerSize > 0 then filled_buffer eagerSize 43 w else Inr (NULL, w)) (\<lambda>(eagerBuffer, w).
     bindE (if eagerSize > 0 then bindE (read_mem eagerBuffer eagerSize (mem_heap (w_mem w))) (\<lambda>bytes. Inr (Some bytes)) else Inr None) (\<lambda>eagerData.
     bindE (ping_rounds (nat cnt) fuel fi
              \<lparr>lp_rdmaSize = rdmaSize, lp_eagerSize = eagerSize, lp_rdmaIov = rdmaIov, lp_eagerData = eagerData\<rparr> c w) (\<lambda>(finished, c, w).
     if \<not> finished then Inr (False, c, w)
     else
       bindE (if rdmaBuffer \<noteq> NULL then
                bindE (unregisterSegment rdmaBuffer rdmaSize (mem_domain (w_mem w))) (\<lambda>d.
                bindE (free_block rdmaBuffer (mem_heap (w_mem w))) (\<lambda>h. Inr (w\<lparr>w_mem := \<lparr>mem_heap = h, mem_domain = d\<rparr>\<rparr>)))
              else Inr w) (\<lambda>w.
       bindE (if eagerBuffer \<noteq> NULL then bindE (free_block eagerBuffer (mem_heap (w_mem w))) (\<lambda>h. Inr (w_set_heap h w)) else Inr w) (\<lambda>w.
       Inr (True, c, w)))))))"

end
