(* ===== verification/Client_Props.thy ===== *)
theory Client_Props
  imports Client Connection_Props
begin

text \<open>
  What the requests of a client do: each one posts exactly one message, with the fields of the request, and
  returns the status of the response that arrives, after any number of completions of earlier
  messages and of empty polls.
\<close>

section \<open>Polling\<close>

text \<open>The completions of messages that were sent.\<close>

definition sent :: "unit post_action \<Rightarrow> bool" where
  "sent act \<longleftrightarrow> pa_body act = LibfabricPostActionNop LF_WAIT_LOOP_KEEP_WAITING \<and> pa_bufferId act = IOC_LF_NO_BUFFER"

abbreviation polls :: "('h, 'f) connection \<Rightarrow> nat" where
  "polls c \<equiv> length (lc_cqEntries c) + length (fb_cq (lc_fabric c))"

text \<open>The buffers of the completed messages are back in the pool, nothing else of the memory changed.\<close>

definition pool_grows :: "'s world \<Rightarrow> 's world \<Rightarrow> bool" where
  "pool_grows w w' \<longleftrightarrow> (\<exists>bs. w' = w_set_domain ((mem_domain (w_mem w))\<lparr>ld_msgBuffers := ld_msgBuffers (mem_domain (w_mem w)) @ bs\<rparr>) w)"

lemma pool_grows_refl [simp]: "pool_grows w w"
  unfolding pool_grows_def by (intro exI [of _ "[]"]) (simp add: w_set_domain_def)

lemma pool_grows_trans: "pool_grows w w1 \<Longrightarrow> pool_grows w1 w2 \<Longrightarrow> pool_grows w w2"
  unfolding pool_grows_def by (auto simp: w_set_domain_def)

lemma pool_grows_same:
  assumes "pool_grows w w'"
  shows "mem_heap (w_mem w') = mem_heap (w_mem w)" "ld_segments (mem_domain (w_mem w')) = ld_segments (mem_domain (w_mem w))"
  using assms unfolding pool_grows_def w_set_domain_def by (elim exE; simp)+

lemma sent_freed: "sent act \<Longrightarrow> \<exists>w'. freeBuffer act c w = Inr (c, w') \<and> pool_grows w w'"
proof (cases "pa_domainBuffer act = NULL")
  case True
  then show ?thesis using pool_grows_refl [of w] by (simp add: freeBuffer_def)
qed (auto simp: sent_def freeBuffer_def retMsgBuffer_def pool_grows_def w_set_domain_def)

lemma poll_once:
  assumes "polls c \<noteq> 0"
  shows "\<exists>r c'. pollForCompletion True c = (r, c') \<and> Suc (polls c') = polls c"
  using assms by (cases "lc_cqEntries c"; cases "fb_cq (lc_fabric c)") (auto simp: pollForCompletion_def)

lemma completions_polls: "completions c \<noteq> [] \<Longrightarrow> polls c \<noteq> 0"
  by (auto simp: completions_def queued_def List.map_filter_def)

text \<open>Posting an operation may move completions to the cache; it adds no poll.\<close>

lemma cache_polls: "polls (pollAllCqInCache c) \<le> polls c"
proof (induction c rule: pollAllCqInCache.induct)
  case (1 c)
  obtain r c' where p: "pollForCompletion False c = (r, c')" by force
  have le: "length (lc_cqEntries c') = length (lc_cqEntries c)" "length (fb_cq (lc_fabric c')) \<le> length (fb_cq (lc_fabric c))"
      "r \<noteq> None \<Longrightarrow> Suc (length (fb_cq (lc_fabric c'))) = length (fb_cq (lc_fabric c))"
    using p by (auto simp: pollForCompletion_def split: list.splits)
  show ?case
  proof (cases r)
    case None
    then show ?thesis using p le by (simp del: pollAllCqInCache.simps add: pollAllCqInCache.simps [of c])
  next
    case (Some e)
    have "polls (pollAllCqInCache (c'\<lparr>lc_cqEntries := lc_cqEntries c' @ [e]\<rparr>)) \<le> polls (c'\<lparr>lc_cqEntries := lc_cqEntries c' @ [e]\<rparr>)"
      by (rule 1) (use p Some in auto)
    then show ?thesis using p le Some by (simp del: pollAllCqInCache.simps add: pollAllCqInCache.simps [of c])
  qed
qed

lemma retry_polls: "polls (snd (post_retry codes c)) \<le> polls c"
proof (induction codes c rule: post_retry.induct)
  case (2 e codes c)
  then show ?case using cache_polls [of c] by (auto simp del: pollAllCqInCache.simps)
qed simp

lemma send_polls:
  fixes w :: "'s world"
  assumes "sendMessage fi t dst A d body c w = Inr (c', w')"
  shows "polls c' \<le> polls c"
proof -
  obtain buf n act and w1 :: "'s world" where "sendRawMessage buf n dst (Some act) c w1 = Inr c'"
    using assms unfolding sendMessage_def Let_def by (auto elim!: bindE_InrE split: prod.splits)
  then obtain op where "post_operation ''fi_send'' op c = Inr c'"
    by (auto simp: sendRawMessage_def elim!: bindE_InrE split: option.splits)
  then show ?thesis using retry_polls [of "fb_codes (lc_fabric c)" c] by (auto simp: post_operation_def elim!: bindE_InrE split: prod.splits)
qed

text \<open>The polls up to the message that is received: nothing is posted, and the message is handled in the connection \<open>c'\<close>.\<close>

lemma pollMessage_receives:
  fixes w :: "'s world"
  assumes "completions c = map (\<lambda>act. CqDone (Some act)) acts @ CqRecv j # rest" "\<forall>act \<in> set acts. sent act"
    and "polls c \<le> fuel" "int (length acts) \<le> lc_pendingAction c"
  shows "\<exists>c' w'. pollMessage fuel fi no_fun t () c w =
      bindE (onRecvMessage fi j c' w') (\<lambda>(res, c, w). case res of
         None \<Rightarrow> Inr (Some None, (), c, w)
       | Some rq \<Rightarrow> bindE (assumeE (mh_msgType (rq_header rq) = msg_code t) ''Got an invalide message type'') (\<lambda>_. Inr (Some (Some rq), (), c, w))) \<and>
    same_settings c c' \<and> completions c' = rest \<and> fb_codes (lc_fabric c') = fb_codes (lc_fabric c) \<and>
    fb_ops (lc_fabric c') = fb_ops (lc_fabric c) \<and> fb_recv (lc_fabric c') = fb_recv (lc_fabric c) \<and> pool_grows w w'"
  using assms
proof (induction fuel arbitrary: c acts w)
  case 0
  then show ?case using completions_polls [of c] by auto
next
  case (Suc fuel)
  obtain r c1 where p: "pollForCompletion True c = (r, c1)" "Suc (polls c1) = polls c"
    using poll_once [of c] completions_polls [of c] Suc.prems(1) by auto
  note P = pollForCompletion_effect [OF p(1)]
  have keep: "same_settings c c1" "lc_pendingAction c1 = lc_pendingAction c" "fb_ops (lc_fabric c1) = fb_ops (lc_fabric c)"
      "fb_recv (lc_fabric c1) = fb_recv (lc_fabric c)" using P(1) by (auto simp: same_posted_def)
  show ?case
  proof (cases r)
    case None
    then show ?thesis using Suc.IH [of c1 acts w] Suc.prems P(2,3) p keep same_settings_trans [of c c1] by auto
  next
    case (Some e)
    show ?thesis
    proof (cases acts)
      case Nil
      then have "e = CqRecv j" "completions c1 = rest" using Some P(3) Suc.prems(1) by auto
      then show ?thesis using Some p(1) P(2) keep
        by (intro exI [of _ c1] exI [of _ w]) (simp add: bindE_def split: sum.split option.split prod.split)
    next
      case (Cons act acts')
      then have e: "e = CqDone (Some act)" "completions c1 = map (\<lambda>act. CqDone (Some act)) acts' @ CqRecv j # rest" "sent act"
        using Some P(3) Suc.prems(1,2) by auto
      let ?c = "c1\<lparr>lc_pendingAction := lc_pendingAction c1 - 1\<rparr>"
      obtain w1 where w1: "freeBuffer act ?c w = Inr (?c, w1)" "pool_grows w w1" using sent_freed [OF e(3)] by blast
      have run: "pollMessage (Suc fuel) fi no_fun t () c w = pollMessage fuel fi no_fun t () ?c w1"
        using p(1) Some e w1(1) Suc.prems(4) Cons keep(2) by (simp add: runPostAction_def sent_def decr_pending_def)
      have "same_settings c ?c" using keep(1) by (cases c; cases c1) (simp add: same_settings_def)
      moreover have "completions ?c = completions c1" by (simp add: completions_def)
      ultimately show ?thesis
        using Suc.IH [of ?c acts' w1] run e(2) Suc.prems Cons p(2) keep P(2) w1(2) same_settings_trans [of c ?c] pool_grows_trans [of w w1] by auto
    qed
  qed
qed

section \<open>A request and its response\<close>

text \<open>The state of a client between two requests, next to its memory: \<open>X\<close> and \<open>pd\<close> describe the memory of the others.\<close>

definition client_ok :: "net_context \<Rightarrow> frame \<Rightarrow> nat \<Rightarrow> (nat \<Rightarrow> nat) \<Rightarrow> client_connection \<Rightarrow> 's world \<Rightarrow> bool" where
  "client_ok pd X mb R c w \<longleftrightarrow> world_ok mb R X w \<and> conn_ok pd X c \<and> fr_msgBufferSize X \<le> lc_recvBuffersSize c \<and>
     \<not> lc_checkClientAuth c \<and> lc_recvBuffersSize c < W64 \<and> (\<forall>b \<in> set (lc_recvBuffers c). length b = lc_recvBuffersSize c) \<and>
     length (lc_recvBuffers c) = lc_recvBuffersCount c"

text \<open>
  The server can be reached, a message buffer can be had, and what the network will deliver: the completions
  of earlier messages, then the message \<open>bytes\<close> in receive buffer \<open>j\<close>.
\<close>

definition delivers :: "fabric_ops \<Rightarrow> nat \<Rightarrow> nat \<Rightarrow> byte list \<Rightarrow> client_connection \<Rightarrow> 's world \<Rightarrow> bool" where
  "delivers fi srv j bytes c w \<longleftrightarrow> sm_find (lc_remoteLiAddr c) IOC_LF_SERVER_ID = Some srv \<and> buffer_available fi w \<and>
     set (fb_codes (lc_fabric c)) \<subseteq> {- FI_EAGAIN} \<and> j < lc_recvBuffersCount c \<and> (\<exists>r. lc_recvBuffers c ! j = bytes @ r) \<and>
     (\<exists>acts rest. completions c = map (\<lambda>act. CqDone (Some act)) acts @ CqRecv j # rest \<and> (\<forall>act \<in> set acts. sent act))"

lemma pending_sent:
  assumes "net_ok pd X c" "completions c = map (\<lambda>act. CqDone (Some act)) acts @ rest"
  shows "int (length acts) \<le> lc_pendingAction c"
proof -
  have "filter is_done (map (\<lambda>act. CqDone (Some act)) acts) = map (\<lambda>act. CqDone (Some act)) acts" by (induction acts) auto
  then show ?thesis using assms by (simp add: net_ok_def pending_count_def)
qed

context wire_struct
begin

text \<open>
  A request of type \<open>t\<close> with the data \<open>v\<close> is posted, and the response that the network delivers is found; its data is
  left in the deserializer.
\<close>

lemma request_sent:
  fixes w :: "'s world"
  assumes cl: "client_ok pd X mb R c w" and net: "delivers fi srv j (MessageHeader_wire h @ body) c w"
    and v: "ok v" "32 + length (enc v) \<le> fr_msgBufferSize X"
    and h: "MessageHeader_ok h" "mh_msgType h = msg_code ack" "ack \<noteq> IOC_LF_MSG_BAD_AUTH" "ack \<noteq> IOC_LF_MSG_FATAL_ERROR"
    and fuel: "polls c \<le> fuel"
  shows "\<exists>c1 w1 c2 w2 buf act d. sendMessageNoPollWakeup fi (msg_code t) IOC_LF_SERVER_ID applyDef v c w = Inr (c1, w1) \<and>
    pollMessage fuel fi no_fun ack () c1 w1 =
      Inr (Some (Some \<lparr>rq_lfClientId = mh_lfClientId h, rq_msgBufferId = j, rq_header = h, rq_deserializer = d\<rparr>), (), c2, w2) \<and>
    holds_message d body \<and> posted (FiSend srv buf (MessageHeader_wire (fillProtocolHeader (msg_code t) c) @ enc v) (Some act)) c c1 \<and>
    same_settings c c2 \<and> fb_codes (lc_fabric c2) = [] \<and> fb_ops (lc_fabric c2) = fb_ops (lc_fabric c1) \<and>
    fb_recv (lc_fabric c2) = fb_recv (lc_fabric c) \<and> pool_grows w1 w2 \<and>
    (\<forall>k xs. nc_foreign pd k = Some xs \<longrightarrow> w_blocks w2 k = Some xs)"
proof -
  let ?t = "msg_code t" and ?body = "LibfabricPostActionNop LF_WAIT_LOOP_KEEP_WAITING :: unit action_body"
  have W: "world_ok mb R X w" "net_ok pd X c" "fr_msgBufferSize X < W64" "fr_msgBufferSize X \<le> lc_recvBuffersSize c" "\<not> lc_checkClientAuth c"
      and hd: "MessageHeader_ok (fillProtocolHeader ?t c)"
    using cl msg_code_small [of t] by (auto simp: client_ok_def conn_ok_def MessageHeader_ok_def fillProtocolHeader_def)
  obtain acts rest r where N: "sm_find (lc_remoteLiAddr c) IOC_LF_SERVER_ID = Some srv" "buffer_available fi w" "set (fb_codes (lc_fabric c)) \<subseteq> {- FI_EAGAIN}"
      "j < lc_recvBuffersCount c" "lc_recvBuffers c ! j = MessageHeader_wire h @ body @ r" "\<forall>act \<in> set acts. sent act"
      "completions c = map (\<lambda>act. CqDone (Some act)) acts @ CqRecv j # rest"
    using net by (auto simp: delivers_def)
  obtain c1 w1 where send: "sendMessage fi ?t IOC_LF_SERVER_ID applyDef v ?body c w = Inr (c1, w1)"
    using sendMessage_available [OF W(1,2) N(2,1) W(4) N(3) v(1) hd v(2) W(3)] by blast
  have d: "ld_msgBufferSize (mem_domain (w_mem w)) = fr_msgBufferSize X" using world_okD(6) [OF W(1)] by (simp add: frame_ok_def)
  obtain Z a' buf bytes act where E: "posted (FiSend a' buf bytes (Some act)) c c1" "sm_find (lc_remoteLiAddr c) IOC_LF_SERVER_ID = Some a'"
      "world_ok mb R Z w1" "net_ok pd Z c1"
    by (rule sendMessage_effect [OF W(1,2) send]) (rule that)
  have "\<exists>a buf act. posted (FiSend a buf (MessageHeader_wire (fillProtocolHeader ?t c) @ enc v) (Some act)) c c1"
    by (rule sendMessage_wire [OF send v(1) hd]) (use v(2) W(3) d in simp_all)
  then have post: "posted (FiSend srv buf (MessageHeader_wire (fillProtocolHeader ?t c) @ enc v) (Some act)) c c1"
    using E N(1) by (auto simp: posted_def)
  then have P: "same_settings c c1" "completions c1 = completions c" "fb_recv (lc_fabric c1) = fb_recv (lc_fabric c)"
      "lc_pendingAction c1 = lc_pendingAction c + 1" by (auto simp: posted_def)
  have "completions c1 = map (\<lambda>act. CqDone (Some act)) acts @ CqRecv j # rest" "polls c1 \<le> fuel" "int (length acts) \<le> lc_pendingAction c1"
    using P(2,4) N(7) send_polls [OF send] fuel pending_sent [OF W(2) N(7)] by auto
  then obtain c2 w2 where R: "pollMessage fuel fi no_fun ack () c1 w1 =
      bindE (onRecvMessage fi j c2 w2) (\<lambda>(res, c, w). case res of
         None \<Rightarrow> Inr (Some None, (), c, w)
       | Some rq \<Rightarrow> bindE (assumeE (mh_msgType (rq_header rq) = msg_code ack) ''Got an invalide message type'') (\<lambda>_. Inr (Some (Some rq), (), c, w)))"
      "same_settings c1 c2" "fb_codes (lc_fabric c2) = fb_codes (lc_fabric c1)" "fb_ops (lc_fabric c2) = fb_ops (lc_fabric c1)"
      "fb_recv (lc_fabric c2) = fb_recv (lc_fabric c1)" "pool_grows w1 w2"
    using pollMessage_receives [OF _ N(6)] by blast
  have S: "same_settings c c2" using same_settings_trans [OF P(1) R(2)] .
  note sel = same_settings_sel [OF S]
  have b: "length (lc_recvBuffers c2 ! j) = lc_recvBuffersSize c2" "lc_recvBuffersSize c2 < W64" "\<not> lc_checkClientAuth c2"
    using cl N(4) sel by (auto simp: client_ok_def)
  obtain d' where d': "receive_header j c2 = Inr (h, d')" "holds_message d' body"
    using received_message [of c2 j h body r] N(4,5) h(1) b sel by auto
  have ne: "msg_code ack \<noteq> msg_code IOC_LF_MSG_BAD_AUTH" "msg_code ack \<noteq> msg_code IOC_LF_MSG_FATAL_ERROR" using h(3,4) by (cases ack; simp)+
  have "onRecvMessage fi j c2 w2 = Inr (Some \<lparr>rq_lfClientId = mh_lfClientId h, rq_msgBufferId = j, rq_header = h, rq_deserializer = d'\<rparr>, c2, w2)"
    using d'(1) h(2) ne b(3) by (simp add: onRecvMessage_def checkAuth_def del: msg_code.simps)
  then have "pollMessage fuel fi no_fun ack () c1 w1 =
      Inr (Some (Some \<lparr>rq_lfClientId = mh_lfClientId h, rq_msgBufferId = j, rq_header = h, rq_deserializer = d'\<rparr>), (), c2, w2)"
    using R(1) h(2) by simp
  moreover have "fb_codes (lc_fabric c1) = []" by (rule sendMessage_codes [OF send N(3)])
  moreover have "w_blocks w2 k = Some xs" if "nc_foreign pd k = Some xs" for k xs
  proof -
    have "fr_data Z k = Some xs" using E(4) that unfolding net_ok_def foreign_ok_def map_le_def by (metis domI)
    then show ?thesis using frame_data [OF world_okD(6) [OF E(3)]] pool_grows_same(1) [OF R(6)] by simp
  qed
  ultimately show ?thesis using send d'(2) post S R(3-6) P(3) unfolding sendMessageNoPollWakeup_def
    by (intro exI [of _ c1] exI [of _ w1] exI [of _ c2] exI [of _ w2] exI [of _ buf] exI [of _ act] exI [of _ d']) simp
qed

end

text \<open>The response in a deserializer, and the receive buffer that is posted again.\<close>

lemma response_read:
  assumes "holds_message d (Response_wire resp)" "Response_ok resp"
  obtains resp' d' where "apply_struct Response_applySerializerDef ''response'' no_response d = Inr (resp', d')" "Response_same resp resp'"
proof -
  obtain r where "unpacking d" "ser_rest d = Response_wire resp @ r" "ser_cursor d + length (Response_wire resp) \<le> ser_size d"
    using assms(1) by (auto simp: holds_message_def)
  then show thesis using response.unpack_struct [OF assms(2) TrueI, of d r "''response''" no_response] that by blast
qed

text \<open>What a request leaves behind on the connection: one message that was posted, and the receive buffer posted again.\<close>

definition exchanged :: "nat \<Rightarrow> byte list \<Rightarrow> nat \<Rightarrow> client_connection \<Rightarrow> client_connection \<Rightarrow> bool" where
  "exchanged srv bytes j c c' \<longleftrightarrow> same_settings c c' \<and> fb_recv (lc_fabric c') = fb_recv (lc_fabric c) @ [j] \<and>
     (\<exists>buf act. fb_ops (lc_fabric c') = fb_ops (lc_fabric c) @ [FiSend srv buf bytes (Some act)])"

lemma exchangedI:
  assumes "posted (FiSend srv buf bytes (Some act)) c c1" "same_settings c c2" "fb_ops (lc_fabric c2) = fb_ops (lc_fabric c1)"
    "fb_recv (lc_fabric c2) = fb_recv (lc_fabric c)" "repostReceive j c2 = Inr c3"
  shows "exchanged srv bytes j c c3"
  using assms repostReceive_effect [OF assms(5)] same_settings_trans [of c c2 c3] by (auto simp: exchanged_def posted_def)

context wire_struct
begin

lemma status_request:
  fixes w :: "'s world"
  assumes cl: "client_ok pd X mb R c w" and net: "delivers fi srv j (MessageHeader_wire h @ Response_wire resp) c w"
    and v: "ok v" "32 + length (enc v) \<le> fr_msgBufferSize X"
    and h: "MessageHeader_ok h" "mh_msgType h = msg_code ack" "ack \<noteq> IOC_LF_MSG_BAD_AUTH" "ack \<noteq> IOC_LF_MSG_FATAL_ERROR"
    and resp: "Response_ok resp" and fuel: "polls c \<le> fuel"
  shows "\<exists>c' w'. bindE (sendMessageNoPollWakeup fi (msg_code t) IOC_LF_SERVER_ID applyDef v c w) (\<lambda>(c, w).
      bindE (poll_response fuel fi ack c w) response_status) = Inr (Some (rs_status resp), c', w') \<and>
    exchanged srv (MessageHeader_wire (fillProtocolHeader (msg_code t) c) @ enc v) j c c'"
proof -
  obtain c1 w1 c2 w2 buf act d where R: "sendMessageNoPollWakeup fi (msg_code t) IOC_LF_SERVER_ID applyDef v c w = Inr (c1, w1)"
      "pollMessage fuel fi no_fun ack () c1 w1 = Inr (Some (Some \<lparr>rq_lfClientId = mh_lfClientId h, rq_msgBufferId = j, rq_header = h, rq_deserializer = d\<rparr>), (), c2, w2)"
      "holds_message d (Response_wire resp)" "posted (FiSend srv buf (MessageHeader_wire (fillProtocolHeader (msg_code t) c) @ enc v) (Some act)) c c1"
      "same_settings c c2" "fb_codes (lc_fabric c2) = []" "fb_ops (lc_fabric c2) = fb_ops (lc_fabric c1)" "fb_recv (lc_fabric c2) = fb_recv (lc_fabric c)"
    using request_sent [OF cl net v h fuel, of t] by blast
  obtain resp' d' where U: "apply_struct Response_applySerializerDef ''response'' no_response d = Inr (resp', d')" "Response_same resp resp'"
    by (rule response_read [OF R(3) resp]) (rule that)
  have "j < lc_recvBuffersCount c2" using net same_settings_sel(2) [OF R(5)] by (simp add: delivers_def)
  then obtain c3 where c3: "repostReceive j c2 = Inr c3" using repostReceive_returns [OF R(6)] by blast
  have "bindE (poll_response fuel fi ack c1 w1) response_status = Inr (Some (rs_status resp), c3, w2)"
    using R(2) U c3 by (simp add: poll_response_def response_status_def terminate_def Response_same_def)
  then show ?thesis using R(1) exchangedI [OF R(4,5,7,8) c3] by simp
qed

end

section \<open>Reads and writes that travel in the messages\<close>

definition write_request :: "LibfabricObjectId \<Rightarrow> size_t \<Rightarrow> byte list \<Rightarrow> LibfabricObjReadWriteInfos" where
  "write_request oid off data = \<lparr>rw_objectId = oid, rw_iov = \<lparr>iov_addr = 0, iov_key = 0\<rparr>, rw_offset = off, rw_size = length data,
     rw_msgHasData = True, rw_optionalData = Some data\<rparr>"

definition read_request :: "LibfabricObjectId \<Rightarrow> size_t \<Rightarrow> size_t \<Rightarrow> LibfabricObjReadWriteInfos" where
  "read_request oid off n = \<lparr>rw_objectId = oid, rw_iov = \<lparr>iov_addr = 0, iov_key = 0\<rparr>, rw_offset = off, rw_size = n,
     rw_msgHasData = False, rw_optionalData = None\<rparr>"

lemma write_request_ok:
  assumes "ObjectId_ok oid" "off < W64" "length data < W64"
  shows "ReadWrite_ok (write_request oid off data)" "length (ReadWrite_wire (write_request oid off data)) = 49 + length data"
  using assms by (simp_all add: write_request_def ReadWrite_ok_def Iov_ok_def data_ok_def ReadWrite_wire_def ObjectId_wire_def Iov_wire_def data_of_def)

lemma read_request_ok:
  assumes "ObjectId_ok oid" "off < W64" "n < W64"
  shows "ReadWrite_ok (read_request oid off n)" "length (ReadWrite_wire (read_request oid off n)) = 49"
  using assms by (simp_all add: read_request_def ReadWrite_ok_def Iov_ok_def ReadWrite_wire_def ObjectId_wire_def Iov_wire_def)

lemma obj_write_sent:
  fixes w :: "'s world"
  assumes cl: "client_ok pd X mb R c w" and net: "delivers fi srv j (MessageHeader_wire h @ Response_wire resp) c w"
    and h: "MessageHeader_ok h" "mh_msgType h = msg_code IOC_LF_MSG_OBJ_READ_WRITE_ACK" and resp: "Response_ok resp" and fuel: "polls c \<le> fuel"
    and data: "read_mem buffer n (mem_heap (w_mem w)) = Inr data" "n \<le> IOC_EAGER_MAX_WRITE"
    and req: "ObjectId_ok oid" "off < W64" "81 + n \<le> fr_msgBufferSize X"
  shows "\<exists>c' w'. obj_write fuel fi oid buffer n off c w = Inr (Some (rs_status resp), c', w') \<and>
    exchanged srv (MessageHeader_wire (fillProtocolHeader (msg_code IOC_LF_MSG_OBJ_WRITE) c) @ ReadWrite_wire (write_request oid off data)) j c c'"
proof -
  let ?rw = "write_request oid off data"
  have n: "length data = n" "buffer \<noteq> NULL" using data(1) by (auto elim!: read_mem_Inr)
  have "n < W64" using data(2) by (simp add: IOC_EAGER_MAX_WRITE_def W64_def)
  note ok = write_request_ok [of oid off data, unfolded n(1), OF req(1,2) this]
  have "32 + length (ReadWrite_wire ?rw) \<le> fr_msgBufferSize X" using ok(2) req(3) by simp
  from rw.status_request [OF cl net ok(1) this h _ _ resp fuel, of IOC_LF_MSG_OBJ_WRITE]
  obtain c' w' where R: "bindE (sendMessageNoPollWakeup fi (msg_code IOC_LF_MSG_OBJ_WRITE) IOC_LF_SERVER_ID ObjReadWriteInfos_applySerializerDef ?rw c w)
      (\<lambda>(c, w). bindE (poll_response fuel fi IOC_LF_MSG_OBJ_READ_WRITE_ACK c w) response_status) = Inr (Some (rs_status resp), c', w')"
      "exchanged srv (MessageHeader_wire (fillProtocolHeader (msg_code IOC_LF_MSG_OBJ_WRITE) c) @ ReadWrite_wire ?rw) j c c'"
    by auto
  have "obj_write fuel fi oid buffer n off c w =
      bindE (sendMessageNoPollWakeup fi (msg_code IOC_LF_MSG_OBJ_WRITE) IOC_LF_SERVER_ID ObjReadWriteInfos_applySerializerDef ?rw c w)
      (\<lambda>(c, w). bindE (poll_response fuel fi IOC_LF_MSG_OBJ_READ_WRITE_ACK c w) response_status)"
    using data n by (simp add: obj_write_def write_request_def response_status_def [abs_def] bindE_def
        split: sum.split option.split prod.split del: msg_code.simps read_mem.simps)
  then show ?thesis using R by metis
qed

lemma obj_read_sent:
  fixes w :: "'s world"
  assumes cl: "client_ok pd X mb R c w" and net: "delivers fi srv j (MessageHeader_wire h @ Response_wire resp) c w"
    and h: "MessageHeader_ok h" "mh_msgType h = msg_code IOC_LF_MSG_OBJ_READ_WRITE_ACK" and fuel: "polls c \<le> fuel"
    and resp: "Response_ok resp" "rs_msgHasData resp" "rs_msgDataSize resp = n" "n \<le> IOC_EAGER_MAX_READ"
    and buf: "nc_foreign pd k = Some xs" "i + n \<le> length xs"
    and req: "ObjectId_ok oid" "off < W64" "81 \<le> fr_msgBufferSize X"
  shows "\<exists>c' w'. obj_read fuel fi oid (Ptr k i) n off c w = Inr (Some (rs_status resp), c', w') \<and>
    exchanged srv (MessageHeader_wire (fillProtocolHeader (msg_code IOC_LF_MSG_OBJ_READ) c) @ ReadWrite_wire (read_request oid off n)) j c c' \<and>
    w_blocks w' k = Some (patch i (response_data resp) xs)"
proof -
  let ?rw = "read_request oid off n"
  have "n < W64" using resp(4) by (simp add: IOC_EAGER_MAX_READ_def W64_def)
  note ok = read_request_ok [OF req(1,2) this]
  have len: "32 + length (ReadWrite_wire ?rw) \<le> fr_msgBufferSize X" using ok(2) req(3) by simp
  obtain c1 w1 c2 w2 buf act d where R: "sendMessageNoPollWakeup fi (msg_code IOC_LF_MSG_OBJ_READ) IOC_LF_SERVER_ID ObjReadWriteInfos_applySerializerDef ?rw c w = Inr (c1, w1)"
      "pollMessage fuel fi no_fun IOC_LF_MSG_OBJ_READ_WRITE_ACK () c1 w1 =
         Inr (Some (Some \<lparr>rq_lfClientId = mh_lfClientId h, rq_msgBufferId = j, rq_header = h, rq_deserializer = d\<rparr>), (), c2, w2)"
      "holds_message d (Response_wire resp)" "posted (FiSend srv buf (MessageHeader_wire (fillProtocolHeader (msg_code IOC_LF_MSG_OBJ_READ) c) @ ReadWrite_wire ?rw) (Some act)) c c1"
      "same_settings c c2" "fb_codes (lc_fabric c2) = []" "fb_ops (lc_fabric c2) = fb_ops (lc_fabric c1)" "fb_recv (lc_fabric c2) = fb_recv (lc_fabric c)"
      "w_blocks w2 k = Some xs"
    using rw.request_sent [OF cl net ok(1) len h _ _ fuel, of IOC_LF_MSG_OBJ_READ] buf(1) by auto
  obtain resp' d' where U: "apply_struct Response_applySerializerDef ''response'' no_response d = Inr (resp', d')" "Response_same resp resp'"
    by (rule response_read [OF R(3) resp(1)]) (rule that)
  have "j < lc_recvBuffersCount c2" using net same_settings_sel(2) [OF R(5)] by (simp add: delivers_def)
  then obtain c3 where c3: "repostReceive j c2 = Inr c3" using repostReceive_returns [OF R(6)] by blast
  have rd: "data_read n (rs_optionalData resp') = Inr (response_data resp)" "length (response_data resp) = n"
    using U(2) resp by (auto simp: Response_same_def data_read_def data_ok_def data_of_def Response_ok_def)
  let ?h = "(mem_heap (w_mem w2))\<lparr>hp_blocks := (w_blocks w2)(k \<mapsto> patch i (response_data resp) xs)\<rparr>"
  have wr: "write_mem (Ptr k i) (response_data resp) (mem_heap (w_mem w2)) = Inr ?h" using R(9) rd(2) buf(2) by simp
  have "obj_read fuel fi oid (Ptr k i) n off c w = Inr (Some (rs_status resp), c3, w_set_heap ?h w2)"
    using R(1,2) U c3 rd(1) wr resp(2-4) by (simp add: obj_read_def read_request_def poll_response_def terminate_def Response_same_def del: msg_code.simps write_mem.simps)
  then show ?thesis using exchangedI [OF R(4,5,7,8) c3] by (simp add: w_set_heap_def)
qed

section \<open>Joining a server\<close>

lemma poll_receives:
  fixes w :: "'s world"
  assumes "completions c = map (\<lambda>act. CqDone (Some act)) acts @ CqRecv j # rest" "\<forall>act \<in> set acts. sent act" "\<not> lc_disableReceive c"
    and "polls c \<le> fuel" "int (length acts) \<le> lc_pendingAction c"
  shows "\<exists>c' w' fuel'. poll fuel fi eo no_hook no_fun True () c w =
      bindE (onRecv fi eo no_hook j () c' w') (\<lambda>(res, a, c, w).
        if res \<noteq> LF_WAIT_LOOP_KEEP_WAITING then Inr (True, a, c, w) else poll fuel' fi eo no_hook no_fun True a c w) \<and>
    same_settings c c' \<and> completions c' = rest \<and> fb_codes (lc_fabric c') = fb_codes (lc_fabric c) \<and>
    fb_ops (lc_fabric c') = fb_ops (lc_fabric c) \<and> fb_recv (lc_fabric c') = fb_recv (lc_fabric c) \<and> pool_grows w w'"
  using assms
proof (induction fuel arbitrary: c acts w)
  case 0
  then show ?case using completions_polls [of c] by auto
next
  case (Suc fuel)
  obtain r c1 where p: "pollForCompletion True c = (r, c1)" "Suc (polls c1) = polls c"
    using poll_once [of c] completions_polls [of c] Suc.prems(1) by auto
  note P = pollForCompletion_effect [OF p(1)]
  have keep: "same_settings c c1" "lc_pendingAction c1 = lc_pendingAction c" "fb_ops (lc_fabric c1) = fb_ops (lc_fabric c)"
      "fb_recv (lc_fabric c1) = fb_recv (lc_fabric c)" using P(1) by (auto simp: same_posted_def)
  have on: "\<not> lc_disableReceive c1" using same_settings_sel(12) [OF keep(1)] Suc.prems(3) by simp
  show ?case
  proof (cases r)
    case None
    then show ?thesis using Suc.IH [of c1 acts w] Suc.prems P(2,3) p keep on same_settings_trans [of c c1] by (auto simp: poll_round_def)
  next
    case (Some e)
    show ?thesis
    proof (cases acts)
      case Nil
      then have "e = CqRecv j" "completions c1 = rest" using Some P(3) Suc.prems(1) by auto
      then show ?thesis using Some p(1) P(2) keep on
        by (intro exI [of _ c1] exI [of _ w] exI [of _ fuel]) (simp add: poll_round_def bindE_def split: sum.split prod.split)
    next
      case (Cons act acts')
      then have e: "e = CqDone (Some act)" "completions c1 = map (\<lambda>act. CqDone (Some act)) acts' @ CqRecv j # rest" "sent act"
        using Some P(3) Suc.prems(1,2) by auto
      let ?c = "c1\<lparr>lc_pendingAction := lc_pendingAction c1 - 1\<rparr>"
      obtain w1 where w1: "freeBuffer act c1 w = Inr (c1, w1)" "pool_grows w w1" using sent_freed [OF e(3)] by blast
      have run: "poll (Suc fuel) fi eo no_hook no_fun True () c w = poll fuel fi eo no_hook no_fun True () ?c w1"
        using p(1) Some e w1(1) Suc.prems(5) Cons keep(2) by (simp add: poll_round_def runPostAction_def sent_def decr_pending_def)
      have "same_settings c ?c" using keep(1) by (cases c; cases c1) (simp add: same_settings_def)
      moreover have "completions ?c = completions c1" by (simp add: completions_def)
      ultimately show ?thesis
        using Suc.IH [of ?c acts' w1] run e(2) Suc.prems Cons p(2) keep on P(2) w1(2) same_settings_trans [of c ?c] pool_grows_trans [of w w1] by auto
    qed
  qed
qed

text \<open>
  The connection of a new client: what \<open>joinServer\<close> sends is its own address, and the answer that the network
  delivers gives it the identifier of the handshake.
\<close>

definition joining :: "endpoint_ops \<Rightarrow> client_connection \<Rightarrow> client_connection" where
  "joining eo c = registerHook (msg_code IOC_LF_MSG_ASSIGN_ID) HookAssignId
     (c\<lparr>lc_remoteLiAddr := sm_set IOC_LF_SERVER_ID (snd (eo_av_insert eo (eo_dest_addr eo))) (lc_remoteLiAddr c)\<rparr>)"

definition own_address :: "endpoint_ops \<Rightarrow> byte list" where
  "own_address eo = snd (eo_getname eo) @ replicate (IOC_LF_MAX_ADDR_LEN - length (snd (eo_getname eo))) 0"

lemma client_ok_joining: "client_ok pd X mb R c w \<Longrightarrow> client_ok pd X mb R (joining eo c) w"
  by (simp add: client_ok_def joining_def registerHook_def conn_ok_def net_ok_def inflight_def pending_count_def completions_def)

lemma joinServer_joins:
  fixes w :: "'s world"
  assumes cl: "client_ok pd X mb R c w" and net: "delivers fi srv j (MessageHeader_wire h @ FirstHandshake_wire hs) (joining eo c) w"
    and eo: "fst (eo_av_insert eo (eo_dest_addr eo)) = 1" "fst (eo_getname eo) = 0" "length (snd (eo_getname eo)) \<le> IOC_LF_MAX_ADDR_LEN"
    and h: "MessageHeader_ok h" "mh_msgType h = msg_code IOC_LF_MSG_ASSIGN_ID"
    and hs: "FirstHandshake_ok hs" "fh_protocolVersion hs = IOC_LF_PROTOCOL_VERSION"
    and sz: "32 + IOC_LF_MAX_ADDR_LEN \<le> fr_msgBufferSize X" and on: "\<not> lc_disableReceive c" and fuel: "polls c \<le> fuel"
  shows "\<exists>c' w' buf act. joinServer fuel fi eo no_hook no_fun () c w = Inr (True, (), c', w') \<and> lc_clientId c' = fh_assignLfClientId hs \<and>
    fb_ops (lc_fabric c') = fb_ops (lc_fabric c) @ [FiSend srv buf (MessageHeader_wire (fillProtocolHeader (msg_code IOC_LF_MSG_CONNECT_INIT) c) @ own_address eo) (Some act)] \<and>
    fb_recv (lc_fabric c') = fb_recv (lc_fabric c) @ [j]"
proof -
  let ?c = "joining eo c" and ?t = "msg_code IOC_LF_MSG_CONNECT_INIT" and ?v = "\<lparr>fc_addr = own_address eo\<rparr>"
  let ?body = "LibfabricPostActionNop LF_WAIT_LOOP_KEEP_WAITING :: unit action_body"
  have cl': "client_ok pd X mb R ?c w" by (rule client_ok_joining [OF cl])
  have W: "world_ok mb R X w" "net_ok pd X ?c" "fr_msgBufferSize X < W64" "fr_msgBufferSize X \<le> lc_recvBuffersSize ?c" "\<not> lc_checkClientAuth ?c"
      and hd: "MessageHeader_ok (fillProtocolHeader ?t ?c)"
    using cl' msg_code_small [of IOC_LF_MSG_CONNECT_INIT] by (auto simp: client_ok_def conn_ok_def MessageHeader_ok_def fillProtocolHeader_def simp del: msg_code.simps)
  obtain acts rest r where N: "sm_find (lc_remoteLiAddr ?c) IOC_LF_SERVER_ID = Some srv" "buffer_available fi w" "set (fb_codes (lc_fabric ?c)) \<subseteq> {- FI_EAGAIN}"
      "j < lc_recvBuffersCount ?c" "lc_recvBuffers ?c ! j = MessageHeader_wire h @ FirstHandshake_wire hs @ r" "\<forall>act \<in> set acts. sent act"
      "completions ?c = map (\<lambda>act. CqDone (Some act)) acts @ CqRecv j # rest"
    using net by (auto simp: delivers_def)
  have v: "addr_ok ?v" "length (fc_addr ?v) = IOC_LF_MAX_ADDR_LEN" using eo(3) by (simp_all add: addr_ok_def own_address_def)
  have len: "32 + length (fc_addr ?v) \<le> fr_msgBufferSize X" using v(2) sz by simp
  obtain c1 w1 where send: "sendMessage fi ?t IOC_LF_SERVER_ID FirstClientMessage_applySerializerDef ?v ?body ?c w = Inr (c1, w1)"
    using first_msg.sendMessage_available [OF W(1,2) N(2,1) W(4) N(3) v(1) hd len W(3)] by blast
  have d: "ld_msgBufferSize (mem_domain (w_mem w)) = fr_msgBufferSize X" using world_okD(6) [OF W(1)] by (simp add: frame_ok_def)
  obtain a' buf bytes act where E: "posted (FiSend a' buf bytes (Some act)) ?c c1" "sm_find (lc_remoteLiAddr ?c) IOC_LF_SERVER_ID = Some a'"
    by (rule sendMessage_effect [OF W(1,2) send]) (rule that)
  have "\<exists>a buf act. posted (FiSend a buf (MessageHeader_wire (fillProtocolHeader ?t ?c) @ fc_addr ?v) (Some act)) ?c c1"
    by (rule first_msg.sendMessage_wire [OF send v(1) hd]) (use len W(3) d in simp_all)
  then have "posted (FiSend srv buf (MessageHeader_wire (fillProtocolHeader ?t ?c) @ own_address eo) (Some act)) ?c c1"
    using E N(1) by (auto simp: posted_def)
  then have P: "same_settings ?c c1" "completions c1 = completions ?c" "fb_recv (lc_fabric c1) = fb_recv (lc_fabric ?c)"
      "lc_pendingAction c1 = lc_pendingAction ?c + 1"
      "fb_ops (lc_fabric c1) = fb_ops (lc_fabric ?c) @ [FiSend srv buf (MessageHeader_wire (fillProtocolHeader ?t ?c) @ own_address eo) (Some act)]"
    by (auto simp: posted_def)
  have same: "polls ?c = polls c" "fb_ops (lc_fabric ?c) = fb_ops (lc_fabric c)" "fb_recv (lc_fabric ?c) = fb_recv (lc_fabric c)"
      "fillProtocolHeader ?t ?c = fillProtocolHeader ?t c" "\<not> lc_disableReceive ?c"
    using on by (simp_all add: joining_def registerHook_def fillProtocolHeader_def)
  have dis: "\<not> lc_disableReceive c1" using same_settings_sel(12) [OF P(1)] same(5) by simp
  have "completions c1 = map (\<lambda>act. CqDone (Some act)) acts @ CqRecv j # rest" "polls c1 \<le> fuel" "int (length acts) \<le> lc_pendingAction c1"
    using P(2,4) N(7) send_polls [OF send] same(1) fuel pending_sent [OF W(2) N(7)] by auto
  then obtain c2 w2 fuel' where R: "poll fuel fi eo no_hook no_fun True () c1 w1 =
      bindE (onRecv fi eo no_hook j () c2 w2) (\<lambda>(res, a, c, w).
        if res \<noteq> LF_WAIT_LOOP_KEEP_WAITING then Inr (True, a, c, w) else poll fuel' fi eo no_hook no_fun True a c w)"
      "same_settings c1 c2" "fb_codes (lc_fabric c2) = fb_codes (lc_fabric c1)" "fb_ops (lc_fabric c2) = fb_ops (lc_fabric c1)"
      "fb_recv (lc_fabric c2) = fb_recv (lc_fabric c1)"
    using poll_receives [OF _ N(6) dis] by blast
  have S: "same_settings ?c c2" using same_settings_trans [OF P(1) R(2)] .
  note sel = same_settings_sel [OF S]
  have b: "length (lc_recvBuffers c2 ! j) = lc_recvBuffersSize c2" "lc_recvBuffersSize c2 < W64" "\<not> lc_checkClientAuth c2"
    using cl' N(4) sel by (auto simp: client_ok_def)
  obtain d' where d': "receive_header j c2 = Inr (h, d')" "holds_message d' (FirstHandshake_wire hs)"
    using received_message [of c2 j h "FirstHandshake_wire hs" r] N(4,5) h(1) b sel by auto
  obtain d'' where U: "apply_struct FirstHandshake_applySerializerDef ''firstHandshakeResponse'' \<lparr>fh_protocolVersion = 0, fh_assignLfClientId = 0\<rparr> d' = Inr (hs, d'')"
    using handshake.unpack_struct [OF hs(1) TrueI] d'(2) by (fastforce simp: holds_message_def)
  have hook: "sm_find (lc_hooks c2) (msg_code IOC_LF_MSG_ASSIGN_ID) = Some HookAssignId" using sel(5) by (simp add: joining_def registerHook_def)
  have "fb_codes (lc_fabric c2) = []" using sendMessage_codes [OF send N(3)] R(3) by simp
  then obtain c3 where c3: "repostReceive j (c2\<lparr>lc_clientId := fh_assignLfClientId hs\<rparr>) = Inr c3"
    using repostReceive_returns [of "c2\<lparr>lc_clientId := fh_assignLfClientId hs\<rparr>" j] N(4) sel(2) by auto
  note E3 = repostReceive_effect [OF c3]
  let ?rq = "\<lparr>rq_lfClientId = mh_lfClientId h, rq_msgBufferId = j, rq_header = h, rq_deserializer = d'\<rparr>"
  have assign: "onAssignId ?rq c2 = Inr (LF_WAIT_LOOP_UNBLOCK, c3)" using U c3 hs(2) by (simp add: onAssignId_def terminate_def)
  have "onRecv fi eo no_hook j () c2 w2 = Inr (LF_WAIT_LOOP_UNBLOCK, (), c3, w2)"
    using d'(1) h(2) b(3) hook assign by (simp add: onRecv_def checkAuth_def onMessage_def)
  then have run: "poll fuel fi eo no_hook no_fun True () c1 w1 = Inr (True, (), c3, w2)" using R(1) by simp
  have "joinServer fuel fi eo no_hook no_fun () c w = Inr (True, (), c3, w2)"
    using eo send run by (cases "eo_getname eo"; cases "eo_av_insert eo (eo_dest_addr eo)")
      (simp add: joinServer_def joining_def sendMessageNoPollWakeup_def own_address_def del: msg_code.simps)
  moreover have "lc_clientId c3 = fh_assignLfClientId hs" using same_settings_sel(6) [OF E3(2)] by simp
  ultimately show ?thesis using E3(4,5) R(4,5) P(3,5) same by (intro exI [of _ c3] exI [of _ w2] exI [of _ buf] exI [of _ act]) simp
qed

end
