(* ===== verification/Client_Server.thy ===== *)
theory Client_Server
  imports Client_Props Server_Progress
begin

text \<open>
  A client and the server together: the message that a request posts is the one that the server receives, and
  the message that the server posts is the one that the client receives.
\<close>

section \<open>The server receives a request\<close>

definition authentic :: "LibfabricMessageHeader \<Rightarrow> server_connection \<Rightarrow> bool" where
  "authentic h c \<longleftrightarrow> (lc_checkClientAuth c \<longrightarrow> checkIdentification (mh_tcpClientId h) (mh_tcpClientKey h) (lc_clientRegistry c))"

text \<open>
  The message \<open>bytes\<close> is the next one that the server handles, in receive buffer \<open>i\<close>, and the server can answer to the client
  at address \<open>fa\<close>.
\<close>

definition serves :: "LibfabricMessageHeader \<Rightarrow> byte list \<Rightarrow> nat \<Rightarrow> nat \<Rightarrow> 's server \<Rightarrow> bool" where
  "serves h body i fa s \<longleftrightarrow> (\<exists>rest es r. completions (sv_connection s) = CqRecv i # rest \<and> fb_cq (lc_fabric (sv_connection s)) = map CqEntry es \<and>
       lc_recvBuffers (sv_connection s) ! i = MessageHeader_wire h @ body @ r) \<and> \<not> lc_disableReceive (sv_connection s) \<and>
     authentic h (sv_connection s) \<and> ld_msgBuffers (mem_domain (w_mem (sv_world s))) \<noteq> [] \<and>
     sm_find (lc_remoteLiAddr (sv_connection s)) (int_of_size (mh_lfClientId h)) = Some fa \<and> set (fb_codes (lc_fabric (sv_connection s))) \<subseteq> {- FI_EAGAIN}"

lemma request_round:
  assumes inv: "server_ok s" and srv: "serves h body i fa s" and h: "MessageHeader_ok h" "mh_msgType h = msg_code (request_type q)"
  obtains c d X where "same_settings (sv_connection s) c" "fb_ops (lc_fabric c) = fb_ops (lc_fabric (sv_connection s))"
    "fb_recv (lc_fabric c) = fb_recv (lc_fabric (sv_connection s))" "holds_message d body"
    "container_ok X 0 (sv_world s) (ap_container (sv_app s))" "conn_ok server_context X c" "i < lc_recvBuffersCount c"
    "endpoint_ready X (int_of_size (mh_lfClientId h)) c" "fr_msgBufferSize X = IOC_POST_RECEIVE_READ"
    "ct_objectSegmentsAlignement (ap_container (sv_app s)) = server_alignement"
    "server_round fi eo so s = bindE (run_hook fi so (request_hook q, \<lparr>rq_lfClientId = mh_lfClientId h, rq_msgBufferId = i, rq_header = h, rq_deserializer = d\<rparr>)
       (sv_app s) c (sv_world s)) (\<lambda>(_, a, c, w). Inr (s\<lparr>sv_app := a, sv_connection := c, sv_world := w\<rparr>))"
proof -
  let ?c = "sv_connection s" and ?a = "sv_app s" and ?w = "sv_world s"
  obtain rest es r where S: "completions ?c = CqRecv i # rest" "fb_cq (lc_fabric ?c) = map CqEntry es" "lc_recvBuffers ?c ! i = MessageHeader_wire h @ body @ r"
      "\<not> lc_disableReceive ?c" "authentic h ?c" "ld_msgBuffers (mem_domain (w_mem ?w)) \<noteq> []"
      "sm_find (lc_remoteLiAddr ?c) (int_of_size (mh_lfClientId h)) = Some fa" "set (fb_codes (lc_fabric ?c)) \<subseteq> {- FI_EAGAIN}"
    using srv unfolding serves_def by blast
  have st: "state_ok [] [] server_context 0 server_alignement ?a ?c ?w" using inv by (simp add: server_ok_def)
  obtain c1 where p: "pollForCompletion True ?c = (Some (CqRecv i), c1)" using next_completion [OF S(1,2)] by blast
  note P = pollForCompletion_effect [OF p]
  note R = receive_state [OF st p refl]
  have set: "same_settings ?c c1" "fb_ops (lc_fabric c1) = fb_ops (lc_fabric ?c)" "fb_recv (lc_fabric c1) = fb_recv (lc_fabric ?c)"
    using P(1) by (auto simp: same_posted_def)
  note sel = same_settings_sel [OF set(1)]
  have b: "i < lc_recvBuffersCount c1" "length (lc_recvBuffers c1 ! i) = lc_recvBuffersSize c1" "lc_recvBuffersSize c1 = server_receiveSize"
      and hooks: "lc_hooks c1 = server_table" and al: "ct_objectSegmentsAlignement (ap_container ?a) = server_alignement"
    using R(1) by (auto simp: state_ok_def receives_ok_def)
  have "lc_recvBuffersSize c1 < W64" using b(3) by (simp add: server_receiveSize_def W64_def)
  then obtain d where d: "receive_header i c1 = Inr (h, d)" "holds_message d body"
    using received_message [of c1 i h body r] S(3) h(1) b sel(1) by auto
  obtain X where X: "container_ok X 0 ?w (ap_container ?a)" "conn_ok server_context X c1" using R(1) by (auto simp: state_ok_def kept_def)
  have fr: "fr_msgBuffers X = ld_msgBuffers (mem_domain (w_mem ?w))" using world_okD(6) [OF container_okD(3) [OF X(1)]] by (simp add: frame_ok_def)
  have sz: "fr_msgBufferSize X = IOC_POST_RECEIVE_READ" using X(2) by (simp add: conn_ok_def net_ok_def server_context_def)
  have rdy: "endpoint_ready X (int_of_size (mh_lfClientId h)) c1"
    using S(6-8) fr sz sel(4) P(2) b(3) by (simp add: endpoint_ready_def server_receiveSize_def IOC_POST_RECEIVE_READ_def
        sizeof_LibfabricMessageHeader_def IOC_STRUCT_MAX_def IOC_EAGER_MAX_READ_def)
  let ?rq = "\<lparr>rq_lfClientId = mh_lfClientId h, rq_msgBufferId = i, rq_header = h, rq_deserializer = d\<rparr>"
  have au: "checkAuth fi h (mh_lfClientId h) i c1 ?w = Inr (True, c1, ?w)" using S(5) sel(9,10) by (simp add: authentic_def checkAuth_def)
  have ne: "msg_code (request_type q) \<notin> {msg_code IOC_LF_MSG_CONNECT_INIT, msg_code IOC_LF_MSG_BAD_AUTH, msg_code IOC_LF_MSG_FATAL_ERROR}"
    by (cases q) simp_all
  have "onRecv fi eo (run_hook fi so) i ?a c1 ?w = run_hook fi so (request_hook q, ?rq) ?a c1 ?w"
    using d(1) h(2) ne au hooks server_table_find(1) [of q]
    by (simp add: onRecv_def onMessage_def del: msg_code.simps request_type.simps)
  then have "server_round fi eo so s = bindE (run_hook fi so (request_hook q, ?rq) ?a c1 ?w)
      (\<lambda>(_, a, c, w). Inr (s\<lparr>sv_app := a, sv_connection := c, sv_world := w\<rparr>))"
    using S(4) sel(12) by (simp add: server_round_def poll_round_def p bindE_def split: sum.split prod.split)
  then show thesis using that set d(2) X b(1) rdy sz al by blast
qed

lemma ack_header_ok: "conn_ok pd X c \<Longrightarrow> MessageHeader_ok (fillProtocolHeader (msg_code t) c)"
  using msg_code_small [of t] by (simp add: conn_ok_def MessageHeader_ok_def fillProtocolHeader_def del: msg_code.simps)

lemma hook_answer_posted:
  assumes "hook_answer t resp rq c c'" "sm_find (lc_remoteLiAddr c) (int_of_size (rq_lfClientId rq)) = Some fa"
  shows "\<exists>buf act. fb_ops (lc_fabric c') = fb_ops (lc_fabric c) @
      [FiSend fa buf (MessageHeader_wire (fillProtocolHeader (msg_code t) c) @ Response_wire resp) (Some act)] \<and>
    fb_recv (lc_fabric c') = fb_recv (lc_fabric c) @ [rq_msgBufferId rq]"
proof -
  obtain c1 a buf act where A: "sm_find (lc_remoteLiAddr c) (int_of_size (rq_lfClientId rq)) = Some a"
      "posted (FiSend a buf (MessageHeader_wire (fillProtocolHeader (msg_code t) c) @ Response_wire resp) (Some act)) c c1"
      "repostReceive (rq_msgBufferId rq) c1 = Inr c'"
    using assms(1) unfolding hook_answer_def answered_def by blast
  then show ?thesis using repostReceive_effect [OF A(3)] assms(2) by (auto simp: posted_def)
qed

section \<open>Writing and reading\<close>

text \<open>The answer of the server as it travels to the client.\<close>

definition ack_message :: "LibfabricMessageType \<Rightarrow> LibfabricResponse \<Rightarrow> 's server \<Rightarrow> byte list" where
  "ack_message t resp s = MessageHeader_wire (fillProtocolHeader (msg_code t) (sv_connection s)) @ Response_wire resp"

text \<open>The receive buffer is posted again and exactly one message is posted.\<close>

definition replied :: "nat \<Rightarrow> nat \<Rightarrow> byte list \<Rightarrow> 's server \<Rightarrow> 's server \<Rightarrow> bool" where
  "replied fa i bytes s s' \<longleftrightarrow> fb_recv (lc_fabric (sv_connection s')) = fb_recv (lc_fabric (sv_connection s)) @ [i] \<and>
     (\<exists>buf act. fb_ops (lc_fabric (sv_connection s')) = fb_ops (lc_fabric (sv_connection s)) @ [FiSend fa buf bytes (Some act)])"

lemma write_round:
  fixes content :: "'s storage_content" and s :: "'s server"
  assumes inv: "server_ok s" "storage_ok so content" and srv: "serves h (ReadWrite_wire req) i fa s"
    and h: "MessageHeader_ok h" "mh_msgType h = msg_code IOC_LF_MSG_OBJ_WRITE"
    and req: "ReadWrite_ok req" "rw_msgHasData req" "0 < rw_size req" "rw_offset req + rw_size req + server_alignement < W64"
    and buf: "getBuffers fi so (rw_offset req) (rw_size req) ACCESS_WRITE True True (the_object (oid_of (rw_objectId req)) (ap_container (sv_app s))) (sv_world s) =
      Inr (st, segs, ob1, w1)"
  shows "\<exists>s' ob'. server_round fi eo so s = Inr s' \<and> replied fa i (ack_message IOC_LF_MSG_OBJ_READ_WRITE_ACK (status_response 0) s) s s' \<and>
    sm_find (ct_objects (ap_container (sv_app s'))) (oid_of (rw_objectId req)) = Some (Some ob') \<and>
    (\<forall>x. rw_offset req \<le> x \<longrightarrow> x < rw_offset req + rw_size req \<longrightarrow>
       object_byte content (sv_world s') ob' x = data_of (rw_size req) (rw_optionalData req) ! (x - rw_offset req))"
proof -
  let ?c = "sv_connection s" and ?t = IOC_LF_MSG_OBJ_READ_WRITE_ACK
  obtain c1 d X where R: "same_settings ?c c1" "fb_ops (lc_fabric c1) = fb_ops (lc_fabric ?c)" "fb_recv (lc_fabric c1) = fb_recv (lc_fabric ?c)"
      "holds_message d (ReadWrite_wire req)" "container_ok X 0 (sv_world s) (ap_container (sv_app s))" "conn_ok server_context X c1"
      "i < lc_recvBuffersCount c1" "endpoint_ready X (int_of_size (mh_lfClientId h)) c1"
      "ct_objectSegmentsAlignement (ap_container (sv_app s)) = server_alignement"
      "server_round fi eo so s = bindE (run_hook fi so (HookObjectWrite, \<lparr>rq_lfClientId = mh_lfClientId h, rq_msgBufferId = i, rq_header = h, rq_deserializer = d\<rparr>)
       (sv_app s) c1 (sv_world s)) (\<lambda>(_, a, c, w). Inr (s\<lparr>sv_app := a, sv_connection := c, sv_world := w\<rparr>))"
    by (rule request_round [OF inv(1) srv h(1), of "WriteRequest req"]) (use h(2) that in auto)
  let ?rq = "\<lparr>rq_lfClientId = mh_lfClientId h, rq_msgBufferId = i, rq_header = h, rq_deserializer = d\<rparr>"
  have lim: "rw_offset req + rw_size req + ct_objectSegmentsAlignement (ap_container (sv_app s)) < W64" using req(4) R(9) by simp
  have msg: "holds_message (rq_deserializer ?rq) (ReadWrite_wire req)" and rdy: "endpoint_ready X (int_of_size (rq_lfClientId ?rq)) c1" "rq_msgBufferId ?rq < lc_recvBuffersCount c1"
    using R(4,7,8) by simp_all
  obtain a' c' w' where run: "HookObjectWrite_onMessage fi so ?rq (sv_app s) c1 (sv_world s) = Inr (LF_WAIT_LOOP_KEEP_WAITING, a', c', w')"
    using HookObjectWrite_returns [OF R(5,6) inv(2) msg req(1-3) lim buf rdy] by blast
  obtain ob' where E: "hook_answer ?t (status_response 0) ?rq c1 c'" "sm_find (ct_objects (ap_container a')) (oid_of (rw_objectId req)) = Some (Some ob')"
      "\<And>x. rw_offset req \<le> x \<Longrightarrow> x < rw_offset req + rw_size req \<Longrightarrow>
       object_byte content w' ob' x = data_of (rw_size req) (rw_optionalData req) ! (x - rw_offset req)"
    by (rule HookObjectWrite_effect [OF R(5,6) inv(2) msg req(1-3) lim run]) (rule that)
  have "sm_find (lc_remoteLiAddr c1) (int_of_size (rq_lfClientId ?rq)) = Some fa"
    using srv same_settings_sel(4) [OF R(1)] by (simp add: serves_def)
  note A = hook_answer_posted [OF E(1) this]
  have "server_round fi eo so s = Inr (s\<lparr>sv_app := a', sv_connection := c', sv_world := w'\<rparr>)" using R(10) run by (simp add: run_hook_def)
  then show ?thesis using A E(2,3) R(2,3) same_settings_header [OF R(1)]
    by (intro exI [of _ "s\<lparr>sv_app := a', sv_connection := c', sv_world := w'\<rparr>"] exI [of _ ob']) (simp add: replied_def ack_message_def)
qed

lemma read_round:
  fixes content :: "'s storage_content" and s :: "'s server"
  assumes inv: "server_ok s" "storage_ok so content" and srv: "serves h (ReadWrite_wire req) i fa s"
    and h: "MessageHeader_ok h" "mh_msgType h = msg_code IOC_LF_MSG_OBJ_READ"
    and req: "ReadWrite_ok req" "0 < rw_size req" "rw_size req \<le> IOC_EAGER_MAX_READ" "rw_offset req + rw_size req + server_alignement < W64"
    and ob: "ob = the_object (oid_of (rw_objectId req)) (ap_container (sv_app s))"
      "\<forall>x. rw_offset req \<le> x \<and> x < rw_offset req + rw_size req \<longrightarrow> view_byte (sv_world s) (obj_segmentMap ob) x \<noteq> None \<or> obj_storageBackend ob"
    and buf: "getBuffers fi so (rw_offset req) (rw_size req) ACCESS_READ True False ob (sv_world s) = Inr (True, [d], ob1, w1)"
  shows "\<exists>s'. server_round fi eo so s = Inr s' \<and> replied fa i (ack_message IOC_LF_MSG_OBJ_READ_WRITE_ACK
      (data_response 0 (map (object_byte content (sv_world s) ob) [rw_offset req..<rw_offset req + rw_size req])) s) s s'"
proof -
  let ?c = "sv_connection s" and ?t = IOC_LF_MSG_OBJ_READ_WRITE_ACK
  obtain c1 ds X where R: "same_settings ?c c1" "fb_ops (lc_fabric c1) = fb_ops (lc_fabric ?c)" "fb_recv (lc_fabric c1) = fb_recv (lc_fabric ?c)"
      "holds_message ds (ReadWrite_wire req)" "container_ok X 0 (sv_world s) (ap_container (sv_app s))" "conn_ok server_context X c1"
      "i < lc_recvBuffersCount c1" "endpoint_ready X (int_of_size (mh_lfClientId h)) c1"
      "ct_objectSegmentsAlignement (ap_container (sv_app s)) = server_alignement" "fr_msgBufferSize X = IOC_POST_RECEIVE_READ"
      "server_round fi eo so s = bindE (run_hook fi so (HookObjectRead, \<lparr>rq_lfClientId = mh_lfClientId h, rq_msgBufferId = i, rq_header = h, rq_deserializer = ds\<rparr>)
       (sv_app s) c1 (sv_world s)) (\<lambda>(_, a, c, w). Inr (s\<lparr>sv_app := a, sv_connection := c, sv_world := w\<rparr>))"
    by (rule request_round [OF inv(1) srv h(1), of "ReadRequest req"]) (use h(2) that in auto)
  let ?rq = "\<lparr>rq_lfClientId = mh_lfClientId h, rq_msgBufferId = i, rq_header = h, rq_deserializer = ds\<rparr>"
  have lim: "rw_offset req + rw_size req + ct_objectSegmentsAlignement (ap_container (sv_app s)) < W64" using req(4) R(9) by simp
  have msg: "holds_message (rq_deserializer ?rq) (ReadWrite_wire req)" and rdy: "endpoint_ready X (int_of_size (rq_lfClientId ?rq)) c1" "rq_msgBufferId ?rq < lc_recvBuffersCount c1"
    using R(4,7,8) by simp_all
  have sz: "45 + rw_size req \<le> fr_msgBufferSize X"
    using req(3) R(10) by (simp add: IOC_POST_RECEIVE_READ_def sizeof_LibfabricMessageHeader_def IOC_STRUCT_MAX_def)
  obtain a' c' w' where E: "HookObjectRead_onMessage fi so ?rq (sv_app s) c1 (sv_world s) = Inr (LF_WAIT_LOOP_KEEP_WAITING, a', c', w')"
      "hook_answer ?t (data_response 0 (map (object_byte content (sv_world s) ob) [rw_offset req..<rw_offset req + rw_size req])) ?rq c1 c'"
    using eager_read_effect [OF R(5,6) inv(2) msg req(1-3) sz lim ob buf rdy] by blast
  have "sm_find (lc_remoteLiAddr c1) (int_of_size (rq_lfClientId ?rq)) = Some fa"
    using srv same_settings_sel(4) [OF R(1)] by (simp add: serves_def)
  note A = hook_answer_posted [OF E(2) this]
  have "server_round fi eo so s = Inr (s\<lparr>sv_app := a', sv_connection := c', sv_world := w'\<rparr>)" using R(11) E(1) by (simp add: run_hook_def)
  then show ?thesis using A R(2,3) same_settings_header [OF R(1)]
    by (intro exI [of _ "s\<lparr>sv_app := a', sv_connection := c', sv_world := w'\<rparr>"]) (simp add: replied_def ack_message_def)
qed

lemma server_ack_ok: "server_ok s \<Longrightarrow> MessageHeader_ok (fillProtocolHeader (msg_code t) (sv_connection s))"
  using ack_header_ok by (auto simp: server_ok_def state_ok_def kept_def simp del: msg_code.simps)

lemma client_header_ok: "client_ok pd X mb R c w \<Longrightarrow> MessageHeader_ok (fillProtocolHeader (msg_code t) c)"
  using ack_header_ok by (auto simp: client_ok_def simp del: msg_code.simps)

text \<open>C2: a write of a client reaches the object: with the message that \<open>obj_write\<close> posts in a receive buffer of the server, one
  round of the server stores the bytes of the buffer of the client at the offset of the object and posts one answer; with that
  answer in a receive buffer of the client, \<open>obj_write\<close> returns 0.  The comments of Actions.cpp and ioc-client.h document the size
  of the write as the value returned; the code returns the status of the response, which is 0.\<close>

theorem write_reaches_object:
  fixes content :: "'s storage_content" and s :: "'s server" and v :: "'c world"
  assumes inv: "server_ok s" "storage_ok so content" and cl: "client_ok pd X mb R c v" "IOC_POST_RECEIVE_WRITE \<le> fr_msgBufferSize X" "polls c \<le> fuel"
    and data: "read_mem buffer n (mem_heap (w_mem v)) = Inr data" "0 < n" "n \<le> IOC_EAGER_MAX_WRITE"
    and req: "ObjectId_ok oid" "off + n + server_alignement < W64"
    and up: "serves (fillProtocolHeader (msg_code IOC_LF_MSG_OBJ_WRITE) c) (ReadWrite_wire (write_request oid off data)) i fa s"
    and down: "delivers fc srv j (ack_message IOC_LF_MSG_OBJ_READ_WRITE_ACK (status_response 0) s) c v"
    and buf: "getBuffers fi so off n ACCESS_WRITE True True (the_object (oid_of oid) (ap_container (sv_app s))) (sv_world s) = Inr (st, segs, ob1, w1)"
  shows "\<exists>c' v' s' ob'. obj_write fuel fc oid buffer n off c v = Inr (Some 0, c', v') \<and>
    exchanged srv (MessageHeader_wire (fillProtocolHeader (msg_code IOC_LF_MSG_OBJ_WRITE) c) @ ReadWrite_wire (write_request oid off data)) j c c' \<and>
    server_round fi eo so s = Inr s' \<and> replied fa i (ack_message IOC_LF_MSG_OBJ_READ_WRITE_ACK (status_response 0) s) s s' \<and>
    sm_find (ct_objects (ap_container (sv_app s'))) (oid_of oid) = Some (Some ob') \<and>
    map (object_byte content (sv_world s') ob') [off..<off + n] = data"
proof -
  let ?req = "write_request oid off data" and ?h = "fillProtocolHeader (msg_code IOC_LF_MSG_OBJ_WRITE) c"
  have len: "length data = n" using data(1) by (auto elim!: read_mem_Inr)
  have rq: "rw_offset ?req = off" "rw_size ?req = n" "rw_objectId ?req = oid" "rw_msgHasData ?req" "data_of n (rw_optionalData ?req) = data"
    using len by (simp_all add: write_request_def data_of_def)
  have ok: "ReadWrite_ok ?req" using write_request_ok(1) [OF req(1)] len req(2) by simp
  obtain s' ob' where S: "server_round fi eo so s = Inr s'" "replied fa i (ack_message IOC_LF_MSG_OBJ_READ_WRITE_ACK (status_response 0) s) s s'"
      "sm_find (ct_objects (ap_container (sv_app s'))) (oid_of oid) = Some (Some ob')"
      "\<forall>x. off \<le> x \<longrightarrow> x < off + n \<longrightarrow> object_byte content (sv_world s') ob' x = data ! (x - off)"
    using write_round [OF inv up client_header_ok [OF cl(1)] _ ok rq(4), unfolded rq(1-3,5), OF _ data(2) req(2) buf, of eo]
    by (auto simp: fillProtocolHeader_def simp del: msg_code.simps)
  have bytes: "map (object_byte content (sv_world s') ob') [off..<off + n] = data"
    using S(4) len by (intro nth_equalityI) auto
  have "81 + n \<le> fr_msgBufferSize X" "off < W64"
    using cl(2) data(3) req(2) by (simp_all add: IOC_POST_RECEIVE_WRITE_def sizeof_LibfabricMessageHeader_def IOC_STRUCT_MAX_def)
  then obtain c' v' where "obj_write fuel fc oid buffer n off c v = Inr (Some 0, c', v')"
      "exchanged srv (MessageHeader_wire ?h @ ReadWrite_wire ?req) j c c'"
    using obj_write_sent [OF cl(1) down [unfolded ack_message_def] server_ack_ok [OF inv(1)] _ status_response_ok(1) cl(3) data(1,3) req(1), of off]
    by (auto simp: status_response_def fillProtocolHeader_def int32_ok_def simp del: msg_code.simps)
  then show ?thesis using S(1-3) bytes by blast
qed

text \<open>C3: a read of a client returns the bytes of the object: with the message that \<open>obj_read\<close> posts in a receive buffer of the server, one
  round of the server posts one answer, for a range in one segment; with that answer in a receive buffer of the client, \<open>obj_read\<close> returns 0 and
  the buffer of the client holds the bytes of the object, next to what it held before outside the range.\<close>

theorem read_returns_object:
  fixes content :: "'s storage_content" and s :: "'s server" and v :: "'c world"
  assumes inv: "server_ok s" "storage_ok so content" and cl: "client_ok pd X mb R c v" "IOC_POST_RECEIVE_WRITE \<le> fr_msgBufferSize X" "polls c \<le> fuel"
    and room: "nc_foreign pd k = Some xs" "p + n \<le> length xs" "0 < n" "n \<le> IOC_EAGER_MAX_READ"
    and req: "ObjectId_ok oid" "off + n + server_alignement < W64"
    and ob: "ob = the_object (oid_of oid) (ap_container (sv_app s))" "data = map (object_byte content (sv_world s) ob) [off..<off + n]"
      "\<forall>x. off \<le> x \<and> x < off + n \<longrightarrow> view_byte (sv_world s) (obj_segmentMap ob) x \<noteq> None \<or> obj_storageBackend ob"
    and up: "serves (fillProtocolHeader (msg_code IOC_LF_MSG_OBJ_READ) c) (ReadWrite_wire (read_request oid off n)) i fa s"
    and down: "delivers fc srv j (ack_message IOC_LF_MSG_OBJ_READ_WRITE_ACK (data_response 0 data) s) c v"
    and buf: "getBuffers fi so off n ACCESS_READ True False ob (sv_world s) = Inr (True, [d], ob1, w1)"
  shows "\<exists>c' v' s'. obj_read fuel fc oid (Ptr k p) n off c v = Inr (Some 0, c', v') \<and>
    exchanged srv (MessageHeader_wire (fillProtocolHeader (msg_code IOC_LF_MSG_OBJ_READ) c) @ ReadWrite_wire (read_request oid off n)) j c c' \<and>
    server_round fi eo so s = Inr s' \<and> replied fa i (ack_message IOC_LF_MSG_OBJ_READ_WRITE_ACK (data_response 0 data) s) s s' \<and>
    w_blocks v' k = Some (patch p data xs)"
proof -
  let ?req = "read_request oid off n" and ?h = "fillProtocolHeader (msg_code IOC_LF_MSG_OBJ_READ) c"
  have rq: "rw_offset ?req = off" "rw_size ?req = n" "rw_objectId ?req = oid" by (simp_all add: read_request_def)
  have ok: "ReadWrite_ok ?req" using read_request_ok(1) [OF req(1)] req(2) by simp
  have h: "mh_msgType ?h = msg_code IOC_LF_MSG_OBJ_READ" by (simp add: fillProtocolHeader_def del: msg_code.simps)
  obtain s' where S: "server_round fi eo so s = Inr s'" "replied fa i (ack_message IOC_LF_MSG_OBJ_READ_WRITE_ACK (data_response 0 data) s) s s'"
    using read_round [OF inv up client_header_ok [OF cl(1)] h ok, unfolded rq, OF room(3,4) req(2) ob(1,3) buf, of eo] unfolding ob(2) by blast
  have "length data = n" using ob(2) by simp
  then have resp: "Response_ok (data_response 0 data)" "rs_msgHasData (data_response 0 data)" "rs_msgDataSize (data_response 0 data) = n"
      "rs_status (data_response 0 data) = 0" "response_data (data_response 0 data) = data"
    using req(2) by (simp_all add: data_response_def Response_ok_def response_data_def data_of_def data_ok_def int32_ok_def)
  have "81 \<le> fr_msgBufferSize X" "off < W64"
    using cl(2) req(2) by (simp_all add: IOC_POST_RECEIVE_WRITE_def sizeof_LibfabricMessageHeader_def IOC_STRUCT_MAX_def IOC_EAGER_MAX_WRITE_def)
  then obtain c' v' where "obj_read fuel fc oid (Ptr k p) n off c v = Inr (Some 0, c', v')"
      "exchanged srv (MessageHeader_wire ?h @ ReadWrite_wire ?req) j c c'" "w_blocks v' k = Some (patch p data xs)"
    using obj_read_sent [OF cl(1) down [unfolded ack_message_def] server_ack_ok [OF inv(1)] _ cl(3) resp(1-3) room(4) room(1,2) req(1), of off] resp(4,5)
    by (auto simp: fillProtocolHeader_def simp del: msg_code.simps)
  then show ?thesis using S by blast
qed

section \<open>A client and a server\<close>

text \<open>A server with one message buffer in the pool, a storage and the client 3 at address 5, to which a message was delivered.\<close>

definition wit_server_world :: "table world" where
  "wit_server_world = wit_world\<lparr>w_backends := [0 \<mapsto> MemoryBackendMalloc True], w_mem := \<lparr>mem_heap = \<lparr>hp_blocks = [1 \<mapsto> replicate IOC_POST_RECEIVE_READ 0], hp_next = 2, hp_junk = (\<lambda>_ _. 0),
       hp_fail = (\<lambda>_. False)\<rparr>,
     mem_domain = (LibfabricDomain_init False)\<lparr>ld_msgBufferSize := IOC_POST_RECEIVE_READ, ld_msgBuffers := [Ptr 1 0]\<rparr>\<rparr>\<rparr>"

definition wit_server_connection :: server_connection where
  "wit_server_connection = (LibfabricConnection_init False)\<lparr>lc_recvBuffers := replicate 128 (replicate server_receiveSize 0), lc_recvBuffersCount := 128,
     lc_recvBuffersSize := server_receiveSize, lc_hooks := server_table, lc_remoteLiAddr := [(3, 5)],
     lc_fabric := \<lparr>fb_codes = [], fb_cq = [], fb_ops = [], fb_recv = [3]\<rparr>\<rparr>"

definition wit_server :: "byte list \<Rightarrow> table server" where
  "wit_server bytes = \<lparr>sv_app = \<lparr>ap_container = Container_init True 0 server_alignement, ap_stats = ServerStats_init, ap_ping = HookPingPong_init,
       ap_consistencyCheck = True, ap_ops = (\<lambda>_. None), ap_nextOps = 0\<rparr>,
     sv_connection = deliver 3 bytes wit_server_connection, sv_world = wit_server_world, sv_memoryBackend = 0, sv_cntConnections = 0,
     sv_pollRunning = True, sv_statsRunning = False, sv_tcpServer = True, sv_beforeAbort = False\<rparr>"

lemma wit_server_ok:
  assumes "client_message server_alignement (bytes @ drop (length bytes) (replicate server_receiveSize 0))" "length bytes \<le> server_receiveSize"
  shows "server_ok (wit_server bytes)"
proof -
  let ?X = "\<lparr>fr_temp = {}, fr_data = [1 \<mapsto> replicate IOC_POST_RECEIVE_READ 0], fr_msgBuffers = [Ptr 1 0], fr_msgBufferSize = IOC_POST_RECEIVE_READ\<rparr>"
  let ?a = "sv_app (wit_server bytes)" and ?c = wit_server_connection
  have c: "lc_fabric ?c = \<lparr>fb_codes = [], fb_cq = [], fb_ops = [], fb_recv = [3]\<rparr>" "lc_cqEntries ?c = []" "lc_pendingAction ?c = 0" "lc_hooks ?c = server_table"
      "lc_recvBuffers ?c = replicate 128 (replicate server_receiveSize 0)" "lc_recvBuffersCount ?c = 128" "lc_recvBuffersSize ?c = server_receiveSize"
      "lc_clientId ?c = W64 - 1" "lc_tcpClientId ?c = 0" "lc_tcpClientKey ?c = 0"
    by (simp_all add: wit_server_connection_def LibfabricConnection_init_def)
  have comp: "completions ?c = []" using c by (simp add: completions_def)
  have "world_ok 0 (ct_refs []) ?X wit_server_world"
    by (auto simp: world_ok_def wit_server_world_def wit_world_def owned_blocks_def backends.in_use_def heap_ok_def frame_ok_def fr_blocks_def LibfabricDomain_init_def)
  then have "container_ok ?X 0 wit_server_world (ap_container ?a)" by (simp add: wit_server_def container_ok_def Container_init_def)
  moreover have "conn_ok server_context ?X ?c"
    using c post_receive_read
    by (simp add: conn_ok_def net_ok_def msg_buffers_ok_def foreign_ok_def server_context_def inflight_def pending_count_def comp W64_def)
  ultimately have "kept server_context 0 ?a ?c wit_server_world" by (auto simp: kept_def)
  moreover have "receives_ok [] server_alignement ?c" using c by (auto simp: receives_ok_def received_def comp List.map_filter_def)
  moreover have "transfers_ok [] ?a ?c"
    using c by (auto simp: transfers_ok_def transfer_count_def contexts_def comp List.map_filter_def wit_server_def)
  ultimately have "state_ok [] [] server_context 0 server_alignement ?a ?c wit_server_world"
    using c(4) by (simp add: state_ok_def wit_server_def Container_init_def)
  then have "state_ok [] [] server_context 0 server_alignement ?a (deliver 3 bytes ?c) wit_server_world"
    by (rule deliver_state) (use assms c in simp_all)
  then show ?thesis by (simp add: server_ok_def wit_server_def)
qed

lemma wit_serves:
  assumes "mh_lfClientId h = 3" "32 + length body \<le> server_receiveSize"
  shows "serves h body 3 5 (wit_server (MessageHeader_wire h @ body))"
proof -
  let ?c = "sv_connection (wit_server (MessageHeader_wire h @ body))"
  have "completions ?c = [CqRecv 3]" "fb_cq (lc_fabric ?c) = map CqEntry [CqRecv 3]"
      "lc_recvBuffers ?c ! 3 = MessageHeader_wire h @ body @ drop (32 + length body) (replicate server_receiveSize 0)"
    by (simp_all add: wit_server_def deliver_def wit_server_connection_def LibfabricConnection_init_def completions_def header_length)
  then show ?thesis using assms(1) unfolding serves_def
    by (intro conjI exI [of _ "[]"] exI [of _ "[CqRecv 3]"] exI [of _ "drop (32 + length body) (replicate server_receiveSize 0)"])
      (simp_all add: wit_server_def deliver_def wit_server_connection_def LibfabricConnection_init_def authentic_def wit_server_world_def int_of_size_def W64_def)
qed

text \<open>A client with a buffer of its own at block 2, to which the answer of the server was delivered.\<close>

abbreviation wit_bytes :: "byte list" where "wit_bytes \<equiv> [7, 8, 9, 10]"

definition wit_client_world :: "byte list \<Rightarrow> table world" where
  "wit_client_world xs = wit_world\<lparr>w_mem := \<lparr>mem_heap = \<lparr>hp_blocks = [1 \<mapsto> replicate IOC_POST_RECEIVE_WRITE 0, 2 \<mapsto> xs], hp_next = 3,
       hp_junk = (\<lambda>_ _. 0), hp_fail = (\<lambda>_. False)\<rparr>,
     mem_domain = (LibfabricDomain_init False)\<lparr>ld_msgBufferSize := IOC_POST_RECEIVE_WRITE, ld_msgBuffers := [Ptr 1 0]\<rparr>\<rparr>\<rparr>"

definition wit_client :: "byte list \<Rightarrow> client_connection" where
  "wit_client bytes = (LibfabricConnection_init True)\<lparr>lc_recvBuffers := [replicate IOC_POST_RECEIVE_WRITE 0, bytes @ replicate (IOC_POST_RECEIVE_WRITE - length bytes) 0],
     lc_recvBuffersCount := 2, lc_recvBuffersSize := IOC_POST_RECEIVE_WRITE, lc_remoteLiAddr := [(0, 4)], lc_clientId := 3,
     lc_fabric := \<lparr>fb_codes = [], fb_cq = [CqAgain, CqEntry (CqRecv 1)], fb_ops = [], fb_recv = [0]\<rparr>\<rparr>"

definition wit_client_context :: "byte list \<Rightarrow> net_context" where
  "wit_client_context xs = \<lparr>nc_held = 0, nc_foreign = [2 \<mapsto> xs], nc_size = IOC_POST_RECEIVE_WRITE\<rparr>"

definition wit_client_frame :: "byte list \<Rightarrow> frame" where
  "wit_client_frame xs = \<lparr>fr_temp = {}, fr_data = [1 \<mapsto> replicate IOC_POST_RECEIVE_WRITE 0, 2 \<mapsto> xs], fr_msgBuffers = [Ptr 1 0],
     fr_msgBufferSize = IOC_POST_RECEIVE_WRITE\<rparr>"

lemma wit_client_ok:
  assumes "length bytes \<le> IOC_POST_RECEIVE_WRITE"
  shows "client_ok (wit_client_context xs) (wit_client_frame xs) 0 (\<lambda>_. 0) (wit_client bytes) (wit_client_world xs)" "delivers wit_fabric 4 1 bytes (wit_client bytes) (wit_client_world xs)"
    "fillProtocolHeader t (wit_client bytes) = \<lparr>mh_msgType = t, mh_lfClientId = 3, mh_tcpClientId = 0, mh_tcpClientKey = 0\<rparr>"
    "polls (wit_client bytes) = 2"
proof -
  have W: "IOC_POST_RECEIVE_WRITE < W64" "45 \<le> IOC_POST_RECEIVE_WRITE"
    by (simp_all add: IOC_POST_RECEIVE_WRITE_def sizeof_LibfabricMessageHeader_def IOC_STRUCT_MAX_def IOC_EAGER_MAX_WRITE_def W64_def)
  have "world_ok 0 (\<lambda>_. 0) (wit_client_frame xs) (wit_client_world xs)"
    by (auto simp: world_ok_def wit_client_world_def wit_world_def owned_blocks_def backends.in_use_def heap_ok_def wit_client_frame_def
        frame_ok_def fr_blocks_def LibfabricDomain_init_def split: if_splits)
  moreover have "completions (wit_client bytes) = [CqRecv 1]" by (simp add: completions_def wit_client_def LibfabricConnection_init_def)
  ultimately show "client_ok (wit_client_context xs) (wit_client_frame xs) 0 (\<lambda>_. 0) (wit_client bytes) (wit_client_world xs)"
    using assms W by (simp add: client_ok_def conn_ok_def net_ok_def foreign_ok_def wit_client_context_def msg_buffers_ok_def inflight_def pending_count_def
        wit_client_frame_def wit_client_def LibfabricConnection_init_def)
  show "delivers wit_fabric 4 1 bytes (wit_client bytes) (wit_client_world xs)"
    unfolding delivers_def by (intro conjI exI [of _ "[]"] exI [of _ "replicate (IOC_POST_RECEIVE_WRITE - length bytes) 0"])
      (simp_all add: wit_client_def wit_client_world_def LibfabricConnection_init_def IOC_LF_SERVER_ID_def buffer_available_def getMsgBuffer_def completions_def)
qed (simp_all add: fillProtocolHeader_def wit_client_def LibfabricConnection_init_def)

lemma wit_ack: "ack_message t resp (wit_server bytes) = MessageHeader_wire \<lparr>mh_msgType = msg_code t, mh_lfClientId = W64 - 1, mh_tcpClientId = 0, mh_tcpClientKey = 0\<rparr> @ Response_wire resp"
  by (simp add: ack_message_def wit_server_def deliver_def wit_server_connection_def LibfabricConnection_init_def fillProtocolHeader_def)

lemma wit_server_buffers:
  "\<exists>segs ob1 w1. getBuffers wit_fabric table_ops 100 3 ACCESS_WRITE True True (Object_init True 0 (ObjectId 0 7) server_alignement) wit_server_world =
     Inr (True, segs, ob1, w1)"
  "\<exists>d ob1 w1. getBuffers wit_fabric table_ops 5 2 ACCESS_READ True False (Object_init True 0 (ObjectId 0 7) server_alignement) wit_server_world =
     Inr (True, [d], ob1, w1)"
  by (simp_all add: getBuffers_def align_range_def sm_lower_bound_def loadGap_def isFullyOverlapped_def loadSegment_def
      w_allocate_def malloc_allocate_def register_if_def malloc_def sys_alloc_def Object_pread_def
      table_ops_def w_set_heap_def segmentMap_at_def ObjectSegment_make_def make_shared_def ObjectSegment_null_def
      shared_drop_def getSegmentDescr_def seg_memory_def size_t_of_def ssize_t_of_def Let_def W64_def add64_def sub64_def
      wit_server_world_def wit_world_def Object_init_def server_alignement_def registerSegment_def getMR_def LibfabricDomain_init_def wit_fabric_def del: upt.simps upt_rec_numeral)

lemma wit_object_new: "the_object (oid_of \<lparr>loi_low = 7, loi_high = 0\<rparr>) (ap_container (sv_app (wit_server bytes))) = Object_init True 0 (ObjectId 0 7) server_alignement"
    "sv_world (wit_server bytes) = wit_server_world"
  by (simp_all add: wit_server_def Container_init_def the_object_def oid_of_def)

lemma wit_small:
  "32 + 100 \<le> server_receiveSize" "100 \<le> IOC_POST_RECEIVE_WRITE" "3 \<le> IOC_EAGER_MAX_WRITE" "2 \<le> IOC_EAGER_MAX_READ"
  "200 + server_alignement < W64" "ObjectId_ok \<lparr>loi_low = 7, loi_high = 0\<rparr>"
  by (simp_all add: server_receiveSize_def IOC_POST_RECEIVE_WRITE_def sizeof_LibfabricMessageHeader_def IOC_STRUCT_MAX_def IOC_EAGER_MAX_WRITE_def
      IOC_EAGER_MAX_READ_def server_alignement_def W64_def ObjectId_ok_def int64_ok_def)

lemma wit_request_served:
  assumes h: "h = \<lparr>mh_msgType = msg_code (request_type q), mh_lfClientId = 3, mh_tcpClientId = 0, mh_tcpClientKey = 0\<rparr>"
    and q: "request_ok server_alignement q" "length (request_wire q) \<le> 100"
  shows "server_ok (wit_server (MessageHeader_wire h @ request_wire q))" "serves h (request_wire q) 3 5 (wit_server (MessageHeader_wire h @ request_wire q))"
proof -
  have len: "32 + length (request_wire q) \<le> server_receiveSize" using q(2) wit_small(1) by simp
  show "serves h (request_wire q) 3 5 (wit_server (MessageHeader_wire h @ request_wire q))" by (rule wit_serves) (use h len in simp_all)
  have "MessageHeader_ok h" using msg_code_small [of "request_type q"] by (simp add: h MessageHeader_ok_def W64_def del: msg_code.simps request_type.simps)
  then have "client_message server_alignement (MessageHeader_wire h @ request_wire q @ drop n (replicate server_receiveSize 0))" for n
    unfolding client_message_def using q(1) h by (intro exI [of _ h] exI [of _ "request_wire q"] exI [of _ "drop n (replicate server_receiveSize 0)"]) auto
  then have "client_message server_alignement ((MessageHeader_wire h @ request_wire q) @ drop (length (MessageHeader_wire h @ request_wire q)) (replicate server_receiveSize 0))"
    by (simp only: append_assoc)
  then show "server_ok (wit_server (MessageHeader_wire h @ request_wire q))" by (rule wit_server_ok) (use len in \<open>simp add: header_length\<close>)
qed

theorem write_reaches_object_witness:
  "\<exists>c c' v' s s' ob'. obj_write 2 wit_fabric \<lparr>loi_low = 7, loi_high = 0\<rparr> (Ptr 2 0) 3 100 c (wit_client_world wit_bytes) = Inr (Some 0, c', v') \<and>
     server_round wit_fabric wit_endpoint table_ops s = Inr s' \<and> sm_find (ct_objects (ap_container (sv_app s'))) (ObjectId 0 7) = Some (Some ob') \<and>
     map (object_byte (\<lambda>t. t) (sv_world s') ob') [100..<103] = [7, 8, 9]"
proof -
  let ?oid = "\<lparr>loi_low = 7, loi_high = 0\<rparr>"
  let ?req = "write_request ?oid 100 [7, 8, 9]" and ?h = "\<lparr>mh_msgType = msg_code IOC_LF_MSG_OBJ_WRITE, mh_lfClientId = 3, mh_tcpClientId = 0, mh_tcpClientKey = 0\<rparr>"
  let ?s = "wit_server (MessageHeader_wire ?h @ ReadWrite_wire ?req)"
  let ?ack = "ack_message IOC_LF_MSG_OBJ_READ_WRITE_ACK (status_response 0) ?s"
  have ack: "length ?ack \<le> IOC_POST_RECEIVE_WRITE" using status_response_ok(2) [of 0] wit_small(2) by (simp add: wit_ack header_length)
  note C = wit_client_ok [OF ack]
  have q: "ReadWrite_ok ?req" "length (ReadWrite_wire ?req) \<le> 100" using write_request_ok [OF wit_small(6), of 100 "[7, 8, 9]"] by (simp_all add: W64_def)
  have "request_ok server_alignement (WriteRequest ?req)" using q(1) wit_small(5) by (simp add: write_request_def)
  note S = wit_request_served [of ?h "WriteRequest ?req", OF _ this]
  have rd: "read_mem (Ptr 2 0) 3 (mem_heap (w_mem (wit_client_world wit_bytes))) = Inr [7, 8, 9]" by (simp add: wit_client_world_def slice_def)
  have size: "IOC_POST_RECEIVE_WRITE \<le> fr_msgBufferSize (wit_client_frame wit_bytes)" "polls (wit_client ?ack) \<le> 2" "(100 :: nat) + 3 + server_alignement < W64"
    using C(4) wit_small(5) by (simp_all add: wit_client_frame_def)
  have up: "serves (fillProtocolHeader (msg_code IOC_LF_MSG_OBJ_WRITE) (wit_client ?ack)) (ReadWrite_wire ?req) 3 5 ?s" unfolding C(3) using S(2) q(2) by simp
  have s: "server_ok ?s" using S(1) q(2) by simp
  obtain segs ob1 w1 where buf: "getBuffers wit_fabric table_ops 100 3 ACCESS_WRITE True True (the_object (oid_of ?oid) (ap_container (sv_app ?s))) (sv_world ?s) =
      Inr (True, segs, ob1, w1)"
    using wit_server_buffers(1) unfolding wit_object_new by blast
  have k: "oid_of ?oid = ObjectId 0 7" by (simp add: oid_of_def)
  show ?thesis
    using write_reaches_object [OF s table_ok C(1) size(1,2) rd _ wit_small(3,6) size(3) up C(2) buf, of wit_endpoint] unfolding k by fastforce
qed

theorem read_returns_object_witness:
  "\<exists>c c' v' s s'. obj_read 2 wit_fabric \<lparr>loi_low = 7, loi_high = 0\<rparr> (Ptr 2 1) 2 5 c (wit_client_world wit_bytes) = Inr (Some 0, c', v') \<and>
     server_round wit_fabric wit_endpoint table_ops s = Inr s' \<and> w_blocks v' 2 = Some [7, 5, 6, 10]"
proof -
  let ?oid = "\<lparr>loi_low = 7, loi_high = 0\<rparr>" and ?ob = "Object_init True 0 (ObjectId 0 7) server_alignement"
  let ?req = "read_request ?oid 5 2" and ?h = "\<lparr>mh_msgType = msg_code IOC_LF_MSG_OBJ_READ, mh_lfClientId = 3, mh_tcpClientId = 0, mh_tcpClientKey = 0\<rparr>"
  let ?s = "wit_server (MessageHeader_wire ?h @ ReadWrite_wire ?req)"
  let ?ack = "ack_message IOC_LF_MSG_OBJ_READ_WRITE_ACK (data_response 0 [5, 6]) ?s"
  have "length ?ack \<le> IOC_POST_RECEIVE_WRITE"
    using wit_small(2) by (simp add: wit_ack header_length data_response_def Response_wire_def response_data_def data_of_def)
  note C = wit_client_ok [OF this]
  have q: "ReadWrite_ok ?req" "length (ReadWrite_wire ?req) \<le> 100" using read_request_ok [OF wit_small(6), of 5 2] by (simp_all add: W64_def)
  have "request_ok server_alignement (ReadRequest ?req)" using q(1) wit_small(5) by (simp add: read_request_def)
  note S = wit_request_served [of ?h "ReadRequest ?req", OF _ this]
  have size: "IOC_POST_RECEIVE_WRITE \<le> fr_msgBufferSize (wit_client_frame wit_bytes)" "polls (wit_client ?ack) \<le> 2" "(5 :: nat) + 2 + server_alignement < W64"
    "nc_foreign (wit_client_context wit_bytes) 2 = Some [7, 8, 9, 10]" "1 + 2 \<le> length [7, 8, 9, 10 :: byte]"
    using C(4) wit_small(5) by (simp_all add: wit_client_frame_def wit_client_context_def)
  have up: "serves (fillProtocolHeader (msg_code IOC_LF_MSG_OBJ_READ) (wit_client ?ack)) (ReadWrite_wire ?req) 3 5 ?s" unfolding C(3) using S(2) q(2) by simp
  have s: "server_ok ?s" using S(1) q(2) by simp
  have ob: "?ob = the_object (oid_of ?oid) (ap_container (sv_app ?s))" "[5, 6] = map (object_byte (\<lambda>t. t) (sv_world ?s) ?ob) [5..<5 + 2]"
    "\<forall>x. 5 \<le> x \<and> x < 5 + 2 \<longrightarrow> view_byte (sv_world ?s) (obj_segmentMap ?ob) x \<noteq> None \<or> obj_storageBackend ?ob"
    by (simp_all add: wit_object_new object_byte_def view_byte_def Object_init_def sm_lower_bound_def wit_server_world_def wit_world_def upt_rec)
  obtain d ob1 w1 where buf: "getBuffers wit_fabric table_ops 5 2 ACCESS_READ True False ?ob (sv_world ?s) = Inr (True, [d], ob1, w1)"
    using wit_server_buffers(2) unfolding wit_object_new(2) by blast
  show ?thesis
    using read_returns_object [OF s table_ok C(1) size(1,2,4,5) _ wit_small(4,6) size(3) ob up C(2) buf, of wit_endpoint] by (fastforce simp: patch_def)
qed

end
