(* ===== verification/Rdma_Transfer.thy ===== *)
theory Rdma_Transfer
  imports Handler_Frame
begin

text \<open>
  Transfers above the eager size (\<open>objRdmaPushToClient\<close> of src/server/hooks/HookObjectRead.cpp, \<open>objRdmaFetchFromClient\<close> of
  HookObjectWrite.cpp, \<open>Object::buildIovec\<close>): the operations that a handler posts move exactly the bytes of the requested
  range between the object and the memory of the client, in whatever order the device executes them.
\<close>

section \<open>The vectors of a transfer\<close>

text \<open>The part of a segment that lies in the range \<open>[off, off + n)\<close>.\<close>

definition vector_of :: "nat \<Rightarrow> nat \<Rightarrow> ObjectSegmentDescr \<Rightarrow> iovec" where
  "vector_of off n d = \<lparr>iov_base = ptr_add (osd_ptr d) (max off (osd_offset d) - osd_offset d),
     iov_len = min (osd_offset d + osd_size d) (off + n) - max off (osd_offset d)\<rparr>"

lemma int_of_size_small: "n < 2 ^ 31 \<Longrightarrow> int_of_size n = int n"
  by (simp add: int_of_size_def Let_def)

lemma size_plus_int_small:
  "n + m < W64 \<Longrightarrow> size_plus_int n (int m) = n + m" "m \<le> n \<Longrightarrow> n < W64 \<Longrightarrow> size_plus_int n (- int m) = n - m"
proof -
  show "n + m < W64 \<Longrightarrow> size_plus_int n (int m) = n + m" by (simp add: size_plus_int_def W64_def nat_add_distrib)
  assume "m \<le> n" "n < W64"
  then have "(int n + - int m) mod 2 ^ 64 = int (n - m)" by (simp add: W64_def of_nat_diff)
  then show "size_plus_int n (- int m) = n - m" unfolding size_plus_int_def by simp
qed

lemma iovec_clip_eq:
  assumes "osd_ptr d = Ptr k 0" "osd_offset d + osd_size d < W64" "osd_size d < 2 ^ 31"
    and "osd_offset d < off + n" "off < osd_offset d + osd_size d" "off + n < W64"
  shows "\<exists>d'. iovec_clip off n d = Inr d' \<and> \<lparr>iov_base = osd_ptr d', iov_len = osd_size d'\<rparr> = vector_of off n d"
proof -
  let ?top = "osd_offset d + osd_size d"
  define d1 where "d1 = (if osd_offset d < off then d\<lparr>osd_ptr := Ptr k (off - osd_offset d), osd_offset := off, osd_size := ?top - off\<rparr> else d)"
  have first: "(if osd_offset d < off then
      let delta = int_of_size (off - osd_offset d) in
      bindE (ptr_plus_int (osd_ptr d) delta) (\<lambda>p.
        Inr (d\<lparr>osd_ptr := p, osd_offset := size_plus_int (osd_offset d) delta, osd_size := size_plus_int (osd_size d) (- delta)\<rparr>))
      else Inr d) = Inr d1"
  proof (cases "osd_offset d < off")
    case True
    then obtain e where e: "off = osd_offset d + e" using less_imp_add_positive by blast
    have "e < 2 ^ 31" "e \<le> osd_size d" "osd_size d < W64" "osd_offset d + e < W64" using e assms(2,3,5) by simp_all
    then show ?thesis using assms(1) True by (simp add: d1_def e int_of_size_small size_plus_int_small Let_def)
  qed (simp add: d1_def)
  have d1: "osd_offset d1 = max off (osd_offset d)" "osd_offset d1 + osd_size d1 = ?top" "osd_size d1 \<le> osd_size d"
      "osd_ptr d1 = ptr_add (osd_ptr d) (max off (osd_offset d) - osd_offset d)"
    using assms(1,5) by (auto simp: d1_def)
  then have sum: "add64 (osd_offset d1) (osd_size d1) = ?top" "add64 off n = off + n" using assms(2,6) by simp_all
  have le: "?top - (off + n) \<le> osd_size d1" "osd_size d1 < W64" using assms(2,4,5) d1 by linarith+
  have "?top - (off + n) < 2 ^ 31" using assms(3,4) by linarith
  note delta = int_of_size_small [OF this] size_plus_int_small(2) [OF le]
  have "iovec_clip off n d = Inr (if off + n < ?top then d1\<lparr>osd_size := osd_size d1 - (?top - (off + n))\<rparr> else d1)"
    unfolding iovec_clip_def first unfolding bindE_Inr sum Let_def delta by simp
  moreover have "\<lparr>iov_base = osd_ptr d2, iov_len = osd_size d2\<rparr> = vector_of off n d"
    if "d2 = (if off + n < ?top then d1\<lparr>osd_size := osd_size d1 - (?top - (off + n))\<rparr> else d1)" for d2
    using d1 assms(4,5) that by (auto simp: vector_of_def)
  ultimately show ?thesis by blast
qed

lemma buildIovec_eq:
  assumes "off + n < W64" "\<And>d. d \<in> set segs \<Longrightarrow> (\<exists>k. osd_ptr d = Ptr k 0) \<and> osd_offset d + osd_size d < W64 \<and> osd_size d < 2 ^ 31 \<and>
    osd_offset d < off + n \<and> off < osd_offset d + osd_size d"
  shows "\<exists>segs'. buildIovec segs off n = Inr (segs', map (vector_of off n) segs)"
  using assms(2)
proof (induction segs)
  case (Cons d ds)
  have d: "(\<exists>k. osd_ptr d = Ptr k 0) \<and> osd_offset d + osd_size d < W64 \<and> osd_size d < 2 ^ 31 \<and>
      osd_offset d < off + n \<and> off < osd_offset d + osd_size d"
    by (rule Cons.prems) simp
  then obtain d' where "iovec_clip off n d = Inr d'" "\<lparr>iov_base = osd_ptr d', iov_len = osd_size d'\<rparr> = vector_of off n d"
    using iovec_clip_eq assms(1) by metis
  moreover obtain segs' where "buildIovec ds off n = Inr (segs', map (vector_of off n) ds)"
    using Cons.IH Cons.prems by auto
  ultimately show ?case by simp
qed simp

text \<open>The vectors are the consecutive parts of \<open>[lo, hi)\<close>, each with the property \<open>P\<close> at its start.\<close>

fun tiles :: "(nat \<Rightarrow> iovec \<Rightarrow> bool) \<Rightarrow> nat \<Rightarrow> nat \<Rightarrow> iovec list \<Rightarrow> bool" where
  "tiles P lo hi [] \<longleftrightarrow> lo = hi"
| "tiles P lo hi (v # vs) \<longleftrightarrow> P lo v \<and> tiles P (lo + iov_len v) hi vs"

definition iov_total :: "iovec list \<Rightarrow> nat" where
  "iov_total vs = sum_list (map iov_len vs)"

lemma iov_total_simps [simp]: "iov_total [] = 0" "iov_total (v # vs) = iov_len v + iov_total vs"
  by (simp_all add: iov_total_def)

lemma tiles_total: "tiles P lo hi vs \<Longrightarrow> hi = lo + iov_total vs"
  by (induction vs arbitrary: lo) fastforce+

lemma tiles_split:
  assumes "tiles P lo hi vs"
  shows "tiles P lo (lo + iov_total (take k vs)) (take k vs)" "tiles P (lo + iov_total (take k vs)) hi (drop k vs)"
  using assms by (induction vs arbitrary: lo k) (auto simp: take_Cons drop_Cons add.assoc [symmetric] split: nat.split)

lemma chain_meets: "chain lo e segs \<Longrightarrow> d \<in> set segs \<Longrightarrow>
    osd_offset d < e \<and> lo < osd_offset d + osd_size d \<and> lo < e \<and> 0 < osd_size d"
  by (induction segs arbitrary: lo) fastforce+

lemma chain_tiles:
  assumes "chain lo (off + n) segs" "off \<le> lo" "lo \<le> off + n" "lo = off \<or> (\<forall>d \<in> set segs. lo \<le> osd_offset d)"
    and "\<And>d. d \<in> set segs \<Longrightarrow> P (max off (osd_offset d)) (vector_of off n d)"
  shows "tiles P lo (off + n) (map (vector_of off n) segs)"
  using assms
proof (induction segs arbitrary: lo)
  case (Cons d ds)
  let ?top = "osd_offset d + osd_size d"
  have c: "osd_offset d \<le> lo" "lo < ?top" "lo < off + n" "chain ?top (off + n) ds" "\<forall>d' \<in> set ds. ?top \<le> osd_offset d'"
    using Cons.prems(1) by auto
  have lo: "max off (osd_offset d) = lo" using c(1) Cons.prems(2,4) by auto
  have len: "lo + iov_len (vector_of off n d) = min ?top (off + n)" using c(2,3) by (simp add: vector_of_def lo)
  have "tiles P (min ?top (off + n)) (off + n) (map (vector_of off n) ds)"
  proof (cases "?top \<le> off + n")
    case True
    then have "tiles P ?top (off + n) (map (vector_of off n) ds)"
      using Cons.IH [OF c(4)] c Cons.prems(2,5) by auto
    then show ?thesis using True by (simp add: min_def)
  next
    case False
    then have "ds = []" using c(4) by (cases ds) auto
    then show ?thesis using False by simp
  qed
  then show ?case using Cons.prems(5) [of d] lo len by simp
qed simp

section \<open>The groups of a transfer\<close>

text \<open>A partition of the range: each part is a start and the vectors from there on.\<close>

definition parts_cover :: "(nat \<Rightarrow> iovec \<Rightarrow> bool) \<Rightarrow> nat \<Rightarrow> nat \<Rightarrow> (nat \<times> iovec list) list \<Rightarrow> bool" where
  "parts_cover P lo hi parts \<longleftrightarrow>
     (\<forall>(l, vs) \<in> set parts. lo \<le> l \<and> l + iov_total vs \<le> hi \<and> tiles P l (l + iov_total vs) vs) \<and>
     (\<forall>x. lo \<le> x \<longrightarrow> x < hi \<longrightarrow> (\<exists>(l, vs) \<in> set parts. l \<le> x \<and> x < l + iov_total vs))"

lemma parts_cover_Cons:
  assumes "tiles P lo mid vs" "parts_cover P mid hi parts" "mid \<le> hi"
  shows "parts_cover P lo hi ((lo, vs) # parts)"
proof -
  have mid: "mid = lo + iov_total vs" by (rule tiles_total [OF assms(1)])
  have "\<exists>(l, vs) \<in> set ((lo, vs) # parts). l \<le> x \<and> x < l + iov_total vs" if "lo \<le> x" "x < hi" for x
  proof (cases "x < mid")
    case False
    then have "\<exists>(l, vs) \<in> set parts. l \<le> x \<and> x < l + iov_total vs" using assms(2) that(2) by (simp add: parts_cover_def)
    then show ?thesis by auto
  qed (use that mid in auto)
  moreover have "\<forall>(l, us) \<in> set ((lo, vs) # parts). lo \<le> l \<and> l + iov_total us \<le> hi \<and> tiles P l (l + iov_total us) us"
    using assms mid by (fastforce simp: parts_cover_def)
  ultimately show ?thesis unfolding parts_cover_def by blast
qed

lemma foldl_iov: "o1 + iov_total vs < W64 \<Longrightarrow> foldl (\<lambda>off v. add64 off (iov_len v)) o1 vs = o1 + iov_total vs"
  by (induction vs arbitrary: o1) auto

text \<open>
  The loop over the groups posts one operation for each group, at the remote address that belongs to its start, when
  a single one can be posted in every state \<open>Q\<close>.
\<close>

lemma rdma_groups_posts:
  assumes "tiles P lo hi iov" "off \<le> lo" "addr + (hi - off) < W64" "Q c"
    and "\<And>vs at c. set vs \<subseteq> set iov \<Longrightarrow> vs \<noteq> [] \<Longrightarrow> Q c \<Longrightarrow>
      \<exists>c'. post vs at c = Inr c' \<and> fb_ops (lc_fabric c') = fb_ops (lc_fabric c) @ [mk vs at] \<and> Q c'"
  shows "\<exists>c' parts. rdma_groups post addr (lo - off) iov c = Inr c' \<and> Q c' \<and> parts_cover P lo hi parts \<and>
    fb_ops (lc_fabric c') = fb_ops (lc_fabric c) @ map (\<lambda>(l, vs). mk vs (addr + (l - off))) parts"
  using assms
proof (induction "length iov" arbitrary: iov lo c rule: less_induct)
  case less
  show ?case
  proof (cases "iov = []")
    case True
    then have "rdma_groups post addr (lo - off) iov c = Inr c" "parts_cover P lo hi []"
      using less.prems(1) by (simp_all add: rdma_groups.simps parts_cover_def)
    then show ?thesis using less.prems(4) by (intro exI [of _ c] exI [of _ "[]"]) simp
  next
    case False
    let ?g = "take IOC_LF_MAX_RDMA_SEGS iov" and ?r = "drop IOC_LF_MAX_RDMA_SEGS iov"
    let ?mid = "lo + iov_total ?g"
    note T = tiles_split [OF less.prems(1), of IOC_LF_MAX_RDMA_SEGS]
    have hi: "?mid \<le> hi" using tiles_total [OF T(2)] by simp
    have ne: "?g \<noteq> []" "length ?r < length iov" using False by (simp_all add: IOC_LF_MAX_RDMA_SEGS_def)
    obtain c1 where c1: "post ?g (addr + (lo - off)) c = Inr c1" "fb_ops (lc_fabric c1) = fb_ops (lc_fabric c) @ [mk ?g (addr + (lo - off))]" "Q c1"
      using less.prems(5) [OF set_take_subset ne(1) less.prems(4), of "addr + (lo - off)"] by blast
    have "lo - off + iov_total ?g = ?mid - off" using less.prems(2) by simp
    moreover have "?mid - off < W64" "addr + (lo - off) < W64" using hi less.prems(2,3) by linarith+
    ultimately have eq: "foldl (\<lambda>off v. add64 off (iov_len v)) (lo - off) ?g = ?mid - off" "add64 addr (lo - off) = addr + (lo - off)"
      by (simp_all add: foldl_iov)
    have mid: "off \<le> ?mid" using less.prems(2) by simp
    have step: "\<exists>c'. post vs at c = Inr c' \<and> fb_ops (lc_fabric c') = fb_ops (lc_fabric c) @ [mk vs at] \<and> Q c'"
      if "set vs \<subseteq> set ?r" "vs \<noteq> []" "Q c" for vs at c
      by (rule less.prems(5) [OF order_trans [OF that(1) set_drop_subset] that(2,3)])
    obtain c' parts where IH: "rdma_groups post addr (?mid - off) ?r c1 = Inr c'" "Q c'" "parts_cover P ?mid hi parts"
        "fb_ops (lc_fabric c') = fb_ops (lc_fabric c1) @ map (\<lambda>(l, vs). mk vs (addr + (l - off))) parts"
      using less.hyps [OF ne(2) T(2) mid less.prems(3) c1(3) step] by blast
    have "rdma_groups post addr (lo - off) iov c = Inr c'"
      using False by (subst rdma_groups.simps) (simp add: Let_def eq c1(1) IH(1))
    then show ?thesis using parts_cover_Cons [OF T(1) IH(3) hi] IH(2,4) c1(2)
      by (intro exI [of _ c'] exI [of _ "(lo, ?g) # parts"]) simp
  qed
qed

section \<open>The device\<close>

text \<open>
  The memory of the peers, by key and address.  The device writes the bytes of the vectors to consecutive addresses of the
  peer for an \<open>fi_writev\<close>, and fills the vectors with the bytes at consecutive addresses of the peer for an \<open>fi_readv\<close>.
\<close>

type_synonym remote = "nat \<Rightarrow> nat \<Rightarrow> byte"

fun vector_bytes :: "iovec list \<Rightarrow> heap \<Rightarrow> byte list result" where
  "vector_bytes [] h = Inr []"
| "vector_bytes (v # vs) h = bindE (read_mem (iov_base v) (iov_len v) h) (\<lambda>xs. bindE (vector_bytes vs h) (\<lambda>ys. Inr (xs @ ys)))"

definition store_bytes :: "nat \<Rightarrow> byte list \<Rightarrow> (nat \<Rightarrow> byte) \<Rightarrow> nat \<Rightarrow> byte" where
  "store_bytes at xs m x = (if at \<le> x \<and> x < at + length xs then xs ! (x - at) else m x)"

fun push_op :: "heap \<Rightarrow> 'f fi_op \<Rightarrow> remote \<Rightarrow> remote result" where
  "push_op h (FiWrite a iov addr key ctx) m = bindE (vector_bytes iov h) (\<lambda>xs. Inr (m(key := store_bytes addr xs (m key))))"
| "push_op h op m = Inr m"

fun push_all :: "heap \<Rightarrow> 'f fi_op list \<Rightarrow> remote \<Rightarrow> remote result" where
  "push_all h [] m = Inr m"
| "push_all h (op # ops) m = bindE (push_op h op m) (push_all h ops)"

fun fill_vectors :: "(nat \<Rightarrow> byte) \<Rightarrow> nat \<Rightarrow> iovec list \<Rightarrow> 's world \<Rightarrow> 's world result" where
  "fill_vectors src at [] w = Inr w"
| "fill_vectors src at (v # vs) w = bindE (write_mem (iov_base v) (map src [at..<at + iov_len v]) (mem_heap (w_mem w)))
     (\<lambda>h. fill_vectors src (at + iov_len v) vs (w_set_heap h w))"

fun fetch_op :: "remote \<Rightarrow> 'f fi_op \<Rightarrow> 's world \<Rightarrow> 's world result" where
  "fetch_op m (FiRead a iov addr key ctx) w = fill_vectors (m key) addr iov w"
| "fetch_op m op w = Inr w"

fun fetch_all :: "remote \<Rightarrow> 'f fi_op list \<Rightarrow> 's world \<Rightarrow> 's world result" where
  "fetch_all m [] w = Inr w"
| "fetch_all m (op # ops) w = bindE (fetch_op m op w) (fetch_all m ops)"

text \<open>Vectors that hold the bytes \<open>f\<close> of the range.\<close>

definition holds :: "heap \<Rightarrow> (nat \<Rightarrow> byte) \<Rightarrow> nat \<Rightarrow> iovec \<Rightarrow> bool" where
  "holds h f lo v \<longleftrightarrow> read_mem (iov_base v) (iov_len v) h = Inr (map f [lo..<lo + iov_len v])"

lemma vector_bytes_tiles: "tiles (holds h f) lo hi vs \<Longrightarrow> vector_bytes vs h = Inr (map f [lo..<hi])"
proof (induction vs arbitrary: lo)
  case (Cons v vs)
  have hi: "hi = lo + (iov_len v + iov_total vs)" using tiles_total [OF Cons.prems] by simp
  have "[lo..<hi] = [lo..<lo + iov_len v] @ [lo + iov_len v..<hi]" unfolding hi by (simp only: add.assoc [symmetric] upt_add_eq_append [OF le_add1])
  moreover have "vector_bytes vs h = Inr (map f [lo + iov_len v..<hi])" using Cons.IH Cons.prems by simp
  ultimately show ?case using Cons.prems by (simp add: holds_def)
qed simp

text \<open>Pushes of parts of the range, each to its place, leave its bytes there and change nothing else.\<close>

definition moves :: "(iovec list \<Rightarrow> nat \<Rightarrow> 'f fi_op) \<Rightarrow> (nat \<Rightarrow> iovec \<Rightarrow> bool) \<Rightarrow> nat \<Rightarrow> nat \<Rightarrow> nat \<Rightarrow> 'f fi_op \<Rightarrow> nat \<Rightarrow> nat \<Rightarrow> bool" where
  "moves mk P addr off hi op l r \<longleftrightarrow> (\<exists>vs. op = mk vs (addr + (l - off)) \<and> off \<le> l \<and> r \<le> hi \<and> tiles P l r vs)"

lemma push_all_parts:
  assumes "\<forall>op \<in> set ops. \<exists>l r. moves (\<lambda>vs at. FiWrite a vs at key ctx) (holds h f) addr off hi op l r"
  shows "\<exists>m'. push_all h ops m = Inr m' \<and> (\<forall>k x. \<not> (k = key \<and> addr \<le> x \<and> x < addr + (hi - off)) \<longrightarrow> m' k x = m k x) \<and>
    (\<forall>x. off \<le> x \<and> (m key (addr + (x - off)) = f x \<or>
       (\<exists>op \<in> set ops. \<exists>l r. moves (\<lambda>vs at. FiWrite a vs at key ctx) (holds h f) addr off hi op l r \<and> l \<le> x \<and> x < r)) \<longrightarrow>
       m' key (addr + (x - off)) = f x)"
  using assms
proof (induction ops arbitrary: m)
  case (Cons op ops)
  let ?mv = "moves (\<lambda>vs at. FiWrite a vs at key ctx) (holds h f) addr off hi"
  obtain l r where lr: "?mv op l r" using Cons.prems by auto
  then obtain vs where op: "op = FiWrite a vs (addr + (l - off)) key ctx" "off \<le> l" "r \<le> hi" "tiles (holds h f) l r vs"
    by (auto simp: moves_def)
  have r: "r = l + iov_total vs" by (rule tiles_total [OF op(4)])
  let ?m1 = "m(key := store_bytes (addr + (l - off)) (map f [l..<r]) (m key))"
  have p: "push_op h op m = Inr ?m1" using vector_bytes_tiles [OF op(4)] op(1) by simp
  obtain m' where m': "push_all h ops ?m1 = Inr m'" "\<forall>k x. \<not> (k = key \<and> addr \<le> x \<and> x < addr + (hi - off)) \<longrightarrow> m' k x = ?m1 k x"
      "\<forall>x. off \<le> x \<and> (?m1 key (addr + (x - off)) = f x \<or> (\<exists>op \<in> set ops. \<exists>l r. ?mv op l r \<and> l \<le> x \<and> x < r)) \<longrightarrow> m' key (addr + (x - off)) = f x"
    using Cons.IH [of ?m1] Cons.prems unfolding list.set by blast
  have out: "?m1 k x = m k x" if "\<not> (k = key \<and> addr \<le> x \<and> x < addr + (hi - off))" for k x
    using that op(2,3) by (auto simp: store_bytes_def)
  have in1: "?m1 key (addr + (x - off)) = (if l \<le> x \<and> x < r then f x else m key (addr + (x - off)))" if "off \<le> x" for x
    using that op(2) by (auto simp: store_bytes_def)
  have same: "l' = l \<and> r' = r" if mv: "?mv op l' r'" for l' r'
    using mv op(1,2) r tiles_total by (fastforce simp: moves_def)
  have "m' key (addr + (x - off)) = f x" if x: "off \<le> x" "m key (addr + (x - off)) = f x \<or>
      (\<exists>op' \<in> set (op # ops). \<exists>l r. ?mv op' l r \<and> l \<le> x \<and> x < r)" for x
  proof -
    have "?m1 key (addr + (x - off)) = f x \<or> (\<exists>op \<in> set ops. \<exists>l r. ?mv op l r \<and> l \<le> x \<and> x < r)"
      using in1 [OF x(1)] x(2) same by auto
    then show ?thesis using m'(3) x(1) by blast
  qed
  moreover have "push_all h (op # ops) m = Inr m'" using p m'(1) by simp
  moreover have "\<forall>k x. \<not> (k = key \<and> addr \<le> x \<and> x < addr + (hi - off)) \<longrightarrow> m' k x = m k x" using m'(2) out by simp
  ultimately show ?case by blast
qed auto

text \<open>Vectors in segments that only the object references.\<close>

definition inside :: "(nat \<Rightarrow> nat) \<Rightarrow> object \<Rightarrow> 's world \<Rightarrow> nat \<Rightarrow> iovec \<Rightarrow> bool" where
  "inside E ob w lo v \<longleftrightarrow> (\<exists>d j. private_descr E ob w d \<and> iov_base v = ptr_add (osd_ptr d) j \<and> lo = osd_offset d + j \<and> j + iov_len v \<le> osd_size d)"

lemma inside_kept: "entry_of w' = entry_of w \<Longrightarrow> inside E ob w' = inside E ob w"
  using private_descr_kept [of w' w] unfolding inside_def by presburger

text \<open>What filling vectors does to the object.\<close>

definition filled :: "frame \<Rightarrow> nat \<Rightarrow> (nat \<Rightarrow> nat) \<Rightarrow> object \<Rightarrow> (nat \<Rightarrow> byte) \<Rightarrow> (nat \<Rightarrow> bool) \<Rightarrow> 's world \<Rightarrow> 's world \<Rightarrow> bool" where
  "filled X mb E ob f S w w' \<longleftrightarrow> object_step X mb E ob w ob w' \<and> w_storage w' = w_storage w \<and> entry_of w' = entry_of w \<and>
     (\<forall>x. view_byte w' (obj_segmentMap ob) x = (if S x then Some (f x) else view_byte w (obj_segmentMap ob) x))"

lemma filled_none: "object_inv X mb E ob w \<Longrightarrow> filled X mb E ob f (\<lambda>x. False) w w"
  by (simp add: filled_def object_step_refl)

lemma filled_trans: "filled X mb E ob f S w w1 \<Longrightarrow> filled X mb E ob f T w1 w2 \<Longrightarrow> filled X mb E ob f (\<lambda>x. S x \<or> T x) w w2"
  unfolding filled_def using object_step_trans by fastforce

lemma filled_inv: "filled X mb E ob f S w w' \<Longrightarrow> object_inv X mb E ob w'"
  by (simp add: filled_def object_step_def)

lemma fill_vectors_tiles:
  fixes w :: "'s world"
  assumes "object_inv X mb E ob w" "tiles (inside E ob w) lo hi vs" "\<And>x. lo \<le> x \<Longrightarrow> f x = src (at + (x - lo))"
  shows "\<exists>w'. fill_vectors src at vs w = Inr w' \<and> filled X mb E ob f (\<lambda>x. lo \<le> x \<and> x < hi) w w'"
  using assms
proof (induction vs arbitrary: lo at w)
  case Nil
  then show ?case using filled_none [of X mb E ob w] by (auto simp: filled_def)
next
  case (Cons v vs)
  obtain d j where d: "private_descr E ob w d" "iov_base v = ptr_add (osd_ptr d) j" "lo = osd_offset d + j" "j + iov_len v \<le> osd_size d"
    using Cons.prems(2) by (auto simp: inside_def)
  have rest: "tiles (inside E ob w) (lo + iov_len v) hi vs" using Cons.prems(2) by simp
  obtain k xs where k: "osd_ptr d = Ptr k 0" "w_blocks w k = Some xs" "length xs = osd_size d"
    by (rule private_block [OF Cons.prems(1) d(1)]) (rule that)
  let ?ys = "map src [at..<at + iov_len v]"
  obtain h where wr: "write_mem (ptr_add (osd_ptr d) j) ?ys (mem_heap (w_mem w)) = Inr h" using k d(4) by simp
  note W = private_write [OF Cons.prems(1) d(1) wr]
  let ?w = "w_set_heap h w"
  have first: "filled X mb E ob f (\<lambda>x. lo \<le> x \<and> x < lo + iov_len v) w ?w"
    unfolding filled_def using W Cons.prems(3) d(3) by (auto simp: add.commute add.left_commute)
  have "f x = src (at + iov_len v + (x - (lo + iov_len v)))" if "lo + iov_len v \<le> x" for x
    using Cons.prems(3) [of x] that by (simp add: algebra_simps)
  then obtain w' where w': "fill_vectors src (at + iov_len v) vs ?w = Inr w'" "filled X mb E ob f (\<lambda>x. lo + iov_len v \<le> x \<and> x < hi) ?w w'"
    using Cons.IH [OF filled_inv [OF first], of "lo + iov_len v" "at + iov_len v"] rest inside_kept [OF W(3)] by auto
  have "(lo \<le> x \<and> x < lo + iov_len v \<or> lo + iov_len v \<le> x \<and> x < hi) \<longleftrightarrow> lo \<le> x \<and> x < hi" for x
    using tiles_total [OF rest] by auto
  then show ?case using filled_trans [OF first w'(2)] w'(1) wr d(2) by simp
qed

lemma fetch_all_parts:
  fixes w :: "'s world"
  assumes "object_inv X mb E ob w" "\<forall>op \<in> set ops. \<exists>l r. moves (\<lambda>vs at. FiRead a vs at key ctx) (inside E ob w) addr off hi op l r"
  shows "\<exists>w' S. fetch_all m ops w = Inr w' \<and> filled X mb E ob (\<lambda>x. m key (addr + (x - off))) S w w' \<and> (\<forall>x. S x \<longrightarrow> off \<le> x \<and> x < hi) \<and>
    (\<forall>op \<in> set ops. \<forall>l r x. moves (\<lambda>vs at. FiRead a vs at key ctx) (inside E ob w) addr off hi op l r \<longrightarrow> l \<le> x \<longrightarrow> x < r \<longrightarrow> S x)"
  using assms
proof (induction ops arbitrary: w)
  case Nil
  then show ?case using filled_none by fastforce
next
  case (Cons op ops)
  let ?mv = "\<lambda>w. moves (\<lambda>vs at. FiRead a vs at key ctx) (inside E ob w) addr off hi" and ?f = "\<lambda>x. m key (addr + (x - off))"
  obtain l r where lr: "?mv w op l r" using Cons.prems(2) by auto
  then obtain vs where op: "op = FiRead a vs (addr + (l - off)) key ctx" "off \<le> l" "r \<le> hi" "tiles (inside E ob w) l r vs"
    by (auto simp: moves_def)
  have r: "r = l + iov_total vs" by (rule tiles_total [OF op(4)])
  obtain w1 where w1: "fill_vectors (m key) (addr + (l - off)) vs w = Inr w1" "filled X mb E ob ?f (\<lambda>x. l \<le> x \<and> x < r) w w1"
    using fill_vectors_tiles [OF Cons.prems(1) op(4), of ?f "m key" "addr + (l - off)"] op(2) by auto
  have same: "?mv w1 = ?mv w" using w1(2) inside_kept [of w1 w] unfolding filled_def by metis
  obtain w' S where w': "fetch_all m ops w1 = Inr w'" "filled X mb E ob ?f S w1 w'" "\<forall>x. S x \<longrightarrow> off \<le> x \<and> x < hi"
      "\<forall>op \<in> set ops. \<forall>l r x. ?mv w op l r \<longrightarrow> l \<le> x \<longrightarrow> x < r \<longrightarrow> S x"
    using Cons.IH [OF filled_inv [OF w1(2)]] Cons.prems(2) unfolding same by auto
  have "l' = l \<and> r' = r" if mv: "?mv w op l' r'" for l' r'
    using mv op(1,2) r tiles_total by (fastforce simp: moves_def)
  then have "\<forall>op' \<in> set (op # ops). \<forall>l' r' x. ?mv w op' l' r' \<longrightarrow> l' \<le> x \<longrightarrow> x < r' \<longrightarrow> l \<le> x \<and> x < r \<or> S x"
    using w'(4) by auto
  moreover have "fetch_all m (op # ops) w = Inr w'" using w1(1) w'(1) op(1) by simp
  ultimately show ?case using filled_trans [OF w1(2) w'(2)] w'(3) op(2,3) by (intro exI [of _ w'] exI [of _ "\<lambda>x. l \<le> x \<and> x < r \<or> S x"]) auto
qed

section \<open>A transfer of segments\<close>

text \<open>The memory of a segment is registered for RDMA.\<close>

definition registered :: "LibfabricDomain \<Rightarrow> ObjectSegmentDescr \<Rightarrow> bool" where
  "registered dm d \<longleftrightarrow> domain_ok dm \<and> (\<exists>r \<in> regions dm. mr_ptr r = osd_ptr d \<and> mr_size r = osd_size d)"

lemma registered_vector:
  assumes "registered dm d" "osd_ptr d = Ptr k 0" "j < osd_size d" "0 < n"
  shows "\<exists>mr. getFidMR (ptr_add (osd_ptr d) j) n dm = Inr (Some mr)"
proof -
  obtain r where r: "r \<in> regions dm" "mr_ptr r = osd_ptr d" "mr_size r = osd_size d" using assms(1) by (auto simp: registered_def)
  then have "region_covers r (ptr_add (osd_ptr d) j)" using assms(2,3) by (simp add: region_covers_def)
  then have "getMR (ptr_add (osd_ptr d) j) n dm = Inr (Some r)"
    using getMR_Some_iff [of dm "ptr_add (osd_ptr d) j" n r] assms r(1) by (simp add: registered_def)
  then show ?thesis using assms(2,4) by (simp add: getFidMR_def)
qed

lemma iov_regions_ok: "(\<And>v. v \<in> set vs \<Longrightarrow> \<exists>mr. getFidMR (iov_base v) (iov_len v) dm = Inr (Some mr)) \<Longrightarrow> iov_regions vs dm = Inr ()"
proof (induction vs)
  case (Cons v vs)
  obtain mr where "getFidMR (iov_base v) (iov_len v) dm = Inr (Some mr)" using Cons.prems [of v] by auto
  then show ?case using Cons by simp
qed simp

text \<open>Segments that can be transferred: registered memory below 2 GB, the size of an \<open>int\<close>.\<close>

definition transferable :: "'s world \<Rightarrow> ObjectSegmentDescr \<Rightarrow> bool" where
  "transferable w d \<longleftrightarrow> (\<exists>k. osd_ptr d = Ptr k 0) \<and> osd_offset d + osd_size d < W64 \<and> osd_size d < 2 ^ 31 \<and> registered (mem_domain (w_mem w)) d"

text \<open>
  A transfer posts vectors by \<open>post\<close>, which adds the operation \<open>op\<close>.  The last argument of \<open>post\<close> is the function that runs on the
  completion.
\<close>

locale segment_transfer =
  fixes transfer :: "nat \<Rightarrow> LibfabricObjReadWriteInfos \<Rightarrow> ObjectSegmentDescr list \<Rightarrow> app \<Rightarrow> server_connection \<Rightarrow> 's world \<Rightarrow> (app \<times> server_connection) result"
    and post :: "int \<Rightarrow> iovec list \<Rightarrow> nat \<Rightarrow> nat \<Rightarrow> server_fun \<Rightarrow> server_connection \<Rightarrow> 's world \<Rightarrow> server_connection result"
    and callback :: "nat \<Rightarrow> size_t \<Rightarrow> nat \<Rightarrow> server_fun"
    and oper :: "nat \<Rightarrow> iovec list \<Rightarrow> nat \<Rightarrow> nat \<Rightarrow> server_fun post_action option \<Rightarrow> server_fun fi_op"
  assumes transfer_eq: "transfer client rw segs a c w = bindE (buildIovec segs (rw_offset rw) (rw_size rw)) (\<lambda>(_, iov).
      let (ops, a) = new_ops (count_groups (length segs)) a in
      bindE (rdma_groups (\<lambda>vs addr c. post (int_of_size client) vs addr (iov_key (rw_iov rw)) (callback ops (rw_size rw) client) c w)
        (iov_addr (rw_iov rw)) 0 iov c) (\<lambda>c. Inr (a, c)))"
    and post_law: "vs \<noteq> [] \<Longrightarrow> iov_regions vs (mem_domain (w_mem w)) = Inr () \<Longrightarrow> sm_find (lc_remoteLiAddr c) dst = Some fa \<Longrightarrow>
      set (fb_codes (lc_fabric c)) \<subseteq> {- FI_EAGAIN} \<Longrightarrow> \<exists>c'. post dst vs at key f c w = Inr c' \<and> fb_codes (lc_fabric c') = [] \<and>
        posted (oper fa vs at key (Some (PostAction_init (LibfabricPostActionFunction f)))) c c'"
begin

lemma transfer_posts:
  assumes ch: "chain off (off + n) segs" "off + n < W64" "0 < n" and segs: "\<And>d. d \<in> set segs \<Longrightarrow> transferable w d"
    and P: "\<And>d. d \<in> set segs \<Longrightarrow> P (max off (osd_offset d)) (vector_of off n d)"
    and rw: "rw_offset rw = off" "rw_size rw = n" "iov_addr (rw_iov rw) + n < W64"
    and peer: "sm_find (lc_remoteLiAddr c) (int_of_size client) = Some fa" "set (fb_codes (lc_fabric c)) \<subseteq> {- FI_EAGAIN}"
  shows "\<exists>c' parts. transfer client rw segs a c w = Inr (snd (new_ops (count_groups (length segs)) a), c') \<and> same_settings c c' \<and>
    fb_codes (lc_fabric c') = [] \<and> fb_recv (lc_fabric c') = fb_recv (lc_fabric c) \<and> parts_cover P off (off + n) parts \<and>
    fb_ops (lc_fabric c') = fb_ops (lc_fabric c) @ map (\<lambda>(l, vs). oper fa vs (iov_addr (rw_iov rw) + (l - off)) (iov_key (rw_iov rw))
      (Some (PostAction_init (LibfabricPostActionFunction (callback (ap_nextOps a) n client))))) parts"
proof -
  let ?iov = "map (vector_of off n) segs" and ?f = "callback (ap_nextOps a) n client" and ?key = "iov_key (rw_iov rw)"
  let ?Q = "\<lambda>c'. same_settings c c' \<and> (c' = c \<or> fb_codes (lc_fabric c') = []) \<and> fb_recv (lc_fabric c') = fb_recv (lc_fabric c)"
  note meets = chain_meets [OF ch(1)]
  obtain segs' where iov: "buildIovec segs off n = Inr (segs', ?iov)"
    using buildIovec_eq [OF ch(2), of segs] segs meets unfolding transferable_def by blast
  have regs: "\<exists>mr. getFidMR (iov_base v) (iov_len v) (mem_domain (w_mem w)) = Inr (Some mr)" if v: "v \<in> set ?iov" for v
  proof -
    obtain d where d: "d \<in> set segs" "v = vector_of off n d" using v by auto
    obtain k where k: "osd_ptr d = Ptr k 0" "registered (mem_domain (w_mem w)) d" using segs [OF d(1)] by (auto simp: transferable_def)
    have "max off (osd_offset d) - osd_offset d < osd_size d" "0 < iov_len v" using meets [OF d(1)] by (auto simp: d(2) vector_of_def)
    then show ?thesis using registered_vector [OF k(2,1)] by (simp add: d(2) vector_of_def)
  qed
  have one: "\<exists>c'. post (int_of_size client) vs at ?key ?f c1 w = Inr c' \<and> fb_ops (lc_fabric c') = fb_ops (lc_fabric c1) @
      [oper fa vs at ?key (Some (PostAction_init (LibfabricPostActionFunction ?f)))] \<and> ?Q c'"
    if vs: "set vs \<subseteq> set ?iov" "vs \<noteq> []" and Q: "?Q c1" for vs at c1
  proof -
    have "iov_regions vs (mem_domain (w_mem w)) = Inr ()" by (rule iov_regions_ok) (use regs vs(1) in blast)
    moreover have "sm_find (lc_remoteLiAddr c1) (int_of_size client) = Some fa" using Q peer(1) same_settings_sel(4) [of c c1] by simp
    moreover have "set (fb_codes (lc_fabric c1)) \<subseteq> {- FI_EAGAIN}" using Q peer(2) by auto
    ultimately obtain c' where "post (int_of_size client) vs at ?key ?f c1 w = Inr c'" "fb_codes (lc_fabric c') = []"
        "posted (oper fa vs at ?key (Some (PostAction_init (LibfabricPostActionFunction ?f)))) c1 c'"
      using post_law [OF vs(2), of w c1 "int_of_size client" fa] by blast
    then show ?thesis using Q same_settings_trans [of c c1 c'] by (auto simp: posted_def)
  qed
  have t: "tiles P off (off + n) ?iov" by (rule chain_tiles [OF ch(1)]) (use P in simp_all)
  obtain c' parts where G: "rdma_groups (\<lambda>vs at c. post (int_of_size client) vs at ?key ?f c w) (iov_addr (rw_iov rw)) (off - off) ?iov c = Inr c'"
      "?Q c'" "parts_cover P off (off + n) parts" "fb_ops (lc_fabric c') = fb_ops (lc_fabric c) @
        map (\<lambda>(l, vs). oper fa vs (iov_addr (rw_iov rw) + (l - off)) ?key (Some (PostAction_init (LibfabricPostActionFunction ?f)))) parts"
    using rdma_groups_posts [OF t order_refl, of "iov_addr (rw_iov rw)" ?Q c "\<lambda>vs at c. post (int_of_size client) vs at ?key ?f c w"
        "\<lambda>vs at. oper fa vs at ?key (Some (PostAction_init (LibfabricPostActionFunction ?f)))"] one rw(3) by auto
  have "parts \<noteq> []" using G(3) ch(3) by (auto simp: parts_cover_def)
  then have "c' \<noteq> c" using G(4) by auto
  then show ?thesis using G unfolding transfer_eq rw(1,2) iov by (intro exI [of _ c'] exI [of _ parts]) (simp add: new_ops_def)
qed

end

interpretation push: segment_transfer objRdmaPushToClient rdmaWritev RdmaPushed FiWrite
proof
  fix vs :: "iovec list" and w :: "'s world" and c :: server_connection and dst fa at key f
  assume "vs \<noteq> []" "iov_regions vs (mem_domain (w_mem w)) = Inr ()" "sm_find (lc_remoteLiAddr c) dst = Some fa"
    and codes: "set (fb_codes (lc_fabric c)) \<subseteq> {- FI_EAGAIN}"
  moreover obtain c' where "post_operation ''fi_writev'' (FiWrite fa vs at key (Some (PostAction_init (LibfabricPostActionFunction f)))) c = Inr c'"
    using post_operation_returns codes by blast
  ultimately show "\<exists>c'. rdmaWritev dst vs at key f c w = Inr c' \<and> fb_codes (lc_fabric c') = [] \<and>
      posted (FiWrite fa vs at key (Some (PostAction_init (LibfabricPostActionFunction f)))) c c'"
    using post_operation_effect post_operation_codes by (fastforce simp: rdmaWritev_def rdma_post_def)
qed (simp add: objRdmaPushToClient_def)

interpretation fetch: segment_transfer objRdmaFetchFromClient rdmaReadv RdmaFetched FiRead
proof
  fix vs :: "iovec list" and w :: "'s world" and c :: server_connection and dst fa at key f
  assume "vs \<noteq> []" "iov_regions vs (mem_domain (w_mem w)) = Inr ()" "sm_find (lc_remoteLiAddr c) dst = Some fa"
    and codes: "set (fb_codes (lc_fabric c)) \<subseteq> {- FI_EAGAIN}"
  moreover obtain c' where "post_operation ''fi_readv'' (FiRead fa vs at key (Some (PostAction_init (LibfabricPostActionFunction f)))) c = Inr c'"
    using post_operation_returns codes by blast
  ultimately show "\<exists>c'. rdmaReadv dst vs at key f c w = Inr c' \<and> fb_codes (lc_fabric c') = [] \<and>
      posted (FiRead fa vs at key (Some (PostAction_init (LibfabricPostActionFunction f)))) c c'"
    using post_operation_effect post_operation_codes by (fastforce simp: rdmaReadv_def rdma_post_def)
qed (simp add: objRdmaFetchFromClient_def)

section \<open>Reads\<close>

definition rdma_ready :: "'s world \<Rightarrow> ObjectSegmentDescr \<Rightarrow> bool" where
  "rdma_ready w d \<longleftrightarrow> osd_size d < 2 ^ 31 \<and> registered (mem_domain (w_mem w)) d"

lemma descr_vector:
  fixes content :: "'s storage_content"
  assumes inv: "object_inv X mb E ob w" and d: "d \<in> descr_set w (in_range base bn (set (obj_segmentMap ob)))"
    and meet: "osd_offset d < off + n" "off < osd_offset d + osd_size d" "0 < n" "0 < osd_size d"
  shows "rdma_ready w d \<Longrightarrow> transferable w d"
    "holds (mem_heap (w_mem w)) (object_byte content w ob) (max off (osd_offset d)) (vector_of off n d)"
proof -
  obtain k xs where k: "osd_ptr d = Ptr k 0" "w_blocks w k = Some xs" "length xs = osd_size d" "osd_offset d + osd_size d < W64"
      "\<And>x. osd_offset d \<le> x \<Longrightarrow> x < osd_offset d + osd_size d \<Longrightarrow> view_byte w (obj_segmentMap ob) x = Some (xs ! (x - osd_offset d))"
    by (rule descr_bytes [OF inv d]) (rule that)
  show "rdma_ready w d \<Longrightarrow> transferable w d" using k(1,4) by (simp add: rdma_ready_def transferable_def)
  let ?lo = "max off (osd_offset d)" and ?len = "iov_len (vector_of off n d)"
  have len: "?lo + ?len \<le> osd_offset d + osd_size d" using meet by (auto simp: vector_of_def)
  have "map (object_byte content w ob) [?lo..<?lo + ?len] = slice (?lo - osd_offset d) ?len xs"
  proof (rule nth_equalityI)
    fix i
    assume "i < length (map (object_byte content w ob) [?lo..<?lo + ?len])"
    then have i: "i < ?len" by simp
    have "view_byte w (obj_segmentMap ob) (?lo + i) = Some (xs ! (?lo + i - osd_offset d))" by (rule k(5)) (use i len in auto)
    then show "map (object_byte content w ob) [?lo..<?lo + ?len] ! i = slice (?lo - osd_offset d) ?len xs ! i"
      using i len k(3) by (simp add: slice_def object_byte_def)
  qed (use len k(3) in \<open>simp add: slice_def\<close>)
  moreover have "read_mem (iov_base (vector_of off n d)) ?len (mem_heap (w_mem w)) = Inr (slice (?lo - osd_offset d) ?len xs)"
    using k(1-3) len by (simp add: vector_of_def)
  ultimately show "holds (mem_heap (w_mem w)) (object_byte content w ob) ?lo (vector_of off n d)" by (simp add: holds_def)
qed

text \<open>The operations of a partition of the range.\<close>

lemma parts_move:
  assumes "parts_cover P off hi parts"
  shows "\<forall>op \<in> set (map (\<lambda>(l, vs). mk vs (addr + (l - off))) parts). \<exists>l r. moves mk P addr off hi op l r"
    "off \<le> x \<Longrightarrow> x < hi \<Longrightarrow> \<exists>op \<in> set (map (\<lambda>(l, vs). mk vs (addr + (l - off))) parts). \<exists>l r. moves mk P addr off hi op l r \<and> l \<le> x \<and> x < r"
proof -
  have mv: "moves mk P addr off hi (mk vs (addr + (l - off))) l (l + iov_total vs)" if "(l, vs) \<in> set parts" for l vs
    using assms that by (auto simp: parts_cover_def moves_def)
  then show "\<forall>op \<in> set (map (\<lambda>(l, vs). mk vs (addr + (l - off))) parts). \<exists>l r. moves mk P addr off hi op l r" by fastforce
  assume "off \<le> x" "x < hi"
  then obtain l vs where "(l, vs) \<in> set parts" "l \<le> x" "x < l + iov_total vs" using assms by (auto simp: parts_cover_def)
  then show "\<exists>op \<in> set (map (\<lambda>(l, vs). mk vs (addr + (l - off))) parts). \<exists>l r. moves mk P addr off hi op l r \<and> l \<le> x \<and> x < r"
    using mv by fastforce
qed

lemma pushed_range:
  assumes "parts_cover (holds h f) off (off + n) parts" "set ops = set (map (\<lambda>(l, vs). FiWrite a vs (addr + (l - off)) key ctx) parts)"
  shows "\<exists>m'. push_all h ops m = Inr m' \<and> (\<forall>i < n. m' key (addr + i) = f (off + i)) \<and>
    (\<forall>k x. \<not> (k = key \<and> addr \<le> x \<and> x < addr + n) \<longrightarrow> m' k x = m k x)"
proof -
  let ?mk = "\<lambda>vs at. FiWrite a vs at key ctx"
  note M = parts_move [OF assms(1), where mk = ?mk and addr = addr, folded assms(2)]
  obtain m' where m': "push_all h ops m = Inr m'" "\<forall>k x. \<not> (k = key \<and> addr \<le> x \<and> x < addr + (off + n - off)) \<longrightarrow> m' k x = m k x"
      "\<forall>x. off \<le> x \<and> (m key (addr + (x - off)) = f x \<or> (\<exists>op \<in> set ops. \<exists>l r. moves ?mk (holds h f) addr off (off + n) op l r \<and> l \<le> x \<and> x < r)) \<longrightarrow>
         m' key (addr + (x - off)) = f x"
    using push_all_parts [OF M(1), of m] by blast
  have "m' key (addr + i) = f (off + i)" if "i < n" for i
  proof -
    have x: "off \<le> off + i" "off + i < off + n" using that by simp_all
    from m'(3) M(2) [OF x] x(1) have "m' key (addr + (off + i - off)) = f (off + i)" by blast
    then show ?thesis by simp
  qed
  then show ?thesis using m'(1,2) by auto
qed

lemma fetched_range:
  fixes w :: "'s world"
  assumes "object_inv X mb E ob w" "parts_cover (inside E ob w) off (off + n) parts"
    and "set ops = set (map (\<lambda>(l, vs). FiRead a vs (addr + (l - off)) key ctx) parts)"
  obtains w' where "fetch_all m ops w = Inr w'" "filled X mb E ob (\<lambda>x. m key (addr + (x - off))) (\<lambda>x. off \<le> x \<and> x < off + n) w w'"
proof -
  let ?mk = "\<lambda>vs at. FiRead a vs at key ctx"
  note M = parts_move [OF assms(2), where mk = ?mk and addr = addr, folded assms(3)]
  obtain w' S where w': "fetch_all m ops w = Inr w'" "filled X mb E ob (\<lambda>x. m key (addr + (x - off))) S w w'"
      "\<forall>x. S x \<longrightarrow> off \<le> x \<and> x < off + n"
      "\<forall>op \<in> set ops. \<forall>l r x. moves ?mk (inside E ob w) addr off (off + n) op l r \<longrightarrow> l \<le> x \<longrightarrow> x < r \<longrightarrow> S x"
    using fetch_all_parts [OF assms(1) M(1), of m] by blast
  have "S = (\<lambda>x. off \<le> x \<and> x < off + n)" using w'(3,4) M(2) by blast
  then show thesis using that w'(1,2) by simp
qed

text \<open>The answer to a transfer: the operations are posted and the receive buffer is free again; nothing is sent yet.\<close>

definition started :: "LibfabricClientRequest \<Rightarrow> server_fun fi_op list \<Rightarrow> server_connection \<Rightarrow> server_connection \<Rightarrow> bool" where
  "started rq ops c c' \<longleftrightarrow> fb_ops (lc_fabric c') = fb_ops (lc_fabric c) @ ops \<and> fb_recv (lc_fabric c') = fb_recv (lc_fabric c) @ [rq_msgBufferId rq]"

lemma transfer_terminate:
  assumes "conn_ok pd X c1" "fb_codes (lc_fabric c1) = []" "same_settings c c1" "fb_recv (lc_fabric c1) = fb_recv (lc_fabric c)"
    "fb_ops (lc_fabric c1) = fb_ops (lc_fabric c) @ ops" "rq_msgBufferId rq < lc_recvBuffersCount c"
  obtains c' where "terminate rq c1 = Inr c'" "conn_ok pd X c'" "started rq ops c c'"
proof -
  obtain c' where c': "repostReceive (rq_msgBufferId rq) c1 = Inr c'"
    using repostReceive_returns [OF assms(2)] assms(6) same_settings_sel(2) [OF assms(3)] by auto
  show thesis
    using that [of c'] c' conn_ok_repost [OF assms(1) c'] repostReceive_effect(4,5) [OF c'] assms(4,5) by (simp add: terminate_def started_def)
qed

lemma rdma_read_effect:
  fixes content :: "'s storage_content" and w :: "'s world"
  assumes ok: "container_ok X mb w (ap_container a)" and conn: "conn_ok pd X c" and so: "storage_ok so content"
    and msg: "holds_message (rq_deserializer rq) (ReadWrite_wire req)" "ReadWrite_ok req"
    and n: "IOC_EAGER_MAX_READ < rw_size req" "iov_addr (rw_iov req) + rw_size req < W64"
    and lim: "rw_offset req + rw_size req + ct_objectSegmentsAlignement (ap_container a) < W64"
    and ob: "ob = the_object (oid_of (rw_objectId req)) (ap_container a)"
      "\<forall>x. rw_offset req \<le> x \<and> x < rw_offset req + rw_size req \<longrightarrow> view_byte w (obj_segmentMap ob) x \<noteq> None \<or> obj_storageBackend ob"
    and buf: "getBuffers fi so (rw_offset req) (rw_size req) ACCESS_READ True False ob w = Inr (True, segs, ob1, w1)"
      "\<forall>d \<in> set segs. rdma_ready w1 d"
    and peer: "sm_find (lc_remoteLiAddr c) (int_of_size (rq_lfClientId rq)) = Some fa" "set (fb_codes (lc_fabric c)) \<subseteq> {- FI_EAGAIN}"
      "rq_msgBufferId rq < lc_recvBuffersCount c"
  obtains a' c' ops where "HookObjectRead_onMessage fi so rq a c w = Inr (LF_WAIT_LOOP_KEEP_WAITING, a', c', w1)"
    "container_ok X mb w1 (ap_container a')" "conn_ok pd X c'" "started rq ops c c'"
    "sm_find (ct_objects (ap_container a')) (oid_of (rw_objectId req)) = Some (Some ob1)"
    "others_kept content (oid_of (rw_objectId req)) (ap_container a) w (ap_container a') w1"
    "\<And>ops' m. set ops' = set ops \<Longrightarrow> \<exists>m'. push_all (mem_heap (w_mem w1)) ops' m = Inr m' \<and>
       (\<forall>i < rw_size req. m' (iov_key (rw_iov req)) (iov_addr (rw_iov req) + i) = object_byte content w ob (rw_offset req + i)) \<and>
       (\<forall>k x. \<not> (k = iov_key (rw_iov req) \<and> iov_addr (rw_iov req) \<le> x \<and> x < iov_addr (rw_iov req) + rw_size req) \<longrightarrow> m' k x = m k x)"
proof -
  let ?k = "oid_of (rw_objectId req)" and ?n = "rw_size req" and ?off = "rw_offset req" and ?addr = "iov_addr (rw_iov req)" and ?key = "iov_key (rw_iov req)"
  have n0: "0 < ?n" using n(1) by simp
  obtain rw s where rw: "apply_struct ObjReadWriteInfos_applySerializerDef ''objReadWrite'' no_rw (rq_deserializer rq) = Inr (rw, s)"
      "rw_objectId rw = rw_objectId req" "rw_offset rw = ?off" "rw_size rw = ?n" "rw_iov rw = rw_iov req"
    by (rule read_unpacked [OF msg]) (rule that)
  obtain ct1 where P: "getObject ?k (ap_container a) = Inr (ob, ct1)" "container_ok X mb w1 (put_object ?k ob1 ct1)"
    "others_kept content ?k (ap_container a) w (put_object ?k ob1 ct1) w1" "chain ?off (?off + ?n) segs"
    "\<And>x. view_byte w (obj_segmentMap ob) x \<noteq> None \<or> obj_storageBackend ob \<Longrightarrow> object_byte content w1 ob1 x = object_byte content w ob x"
    "\<And>d. d \<in> set segs \<Longrightarrow> \<exists>base n. d \<in> descr_set w1 (in_range base n (set (obj_segmentMap ob1)))"
    "object_inv X mb (others ?k (put_object ?k ob1 ct1)) ob1 w1"
    by (rule read_prepared [OF ok so n0 lim buf(1) [unfolded ob(1)]]) (use ob(1) in \<open>auto intro: that\<close>)
  have vec: "rdma_ready w1 d \<Longrightarrow> transferable w1 d" "holds (mem_heap (w_mem w1)) (object_byte content w1 ob1) (max ?off (osd_offset d)) (vector_of ?off ?n d)"
    if "d \<in> set segs" for d
    using P(6) [OF that] descr_vector [OF P(7), of d] chain_meets [OF P(4) that] n0 by blast+
  have lim': "?off + ?n < W64" "iov_addr (rw_iov rw) + ?n < W64" using lim n(2) rw(5) by simp_all
  let ?a = "a\<lparr>ap_container := put_object ?k ob1 ct1\<rparr>" and ?P = "holds (mem_heap (w_mem w1)) (object_byte content w1 ob1)"
  let ?mk = "\<lambda>vs at. FiWrite fa vs at ?key (Some (PostAction_init (LibfabricPostActionFunction (RdmaPushed (ap_nextOps ?a) ?n (rq_lfClientId rq)))))"
  obtain c1 parts where T: "objRdmaPushToClient (rq_lfClientId rq) rw segs ?a c w1 = Inr (snd (new_ops (count_groups (length segs)) ?a), c1)"
      "same_settings c c1" "fb_codes (lc_fabric c1) = []" "fb_recv (lc_fabric c1) = fb_recv (lc_fabric c)" "parts_cover ?P ?off (?off + ?n) parts"
      "fb_ops (lc_fabric c1) = fb_ops (lc_fabric c) @ map (\<lambda>(l, vs). ?mk vs (?addr + (l - ?off))) parts"
    using push.transfer_posts [OF P(4) lim'(1) n0, of w1 ?P rw c "rq_lfClientId rq" fa ?a] vec buf(2) lim'(2) rw(3,4,5) peer(1,2) by auto
  obtain c' where c': "terminate rq c1 = Inr c'" "conn_ok pd X c'" "started rq (map (\<lambda>(l, vs). ?mk vs (?addr + (l - ?off))) parts) c c'"
    by (rule transfer_terminate [OF push_keeps(1) [OF conn T(1)] T(3,2,4,6) peer(3)]) (rule that)
  let ?a' = "snd (new_ops (count_groups (length segs)) ?a)"
  have ct: "ap_container ?a' = put_object ?k ob1 ct1" by (simp add: new_ops_def)
  have run: "HookObjectRead_onMessage fi so rq a c w = Inr (LF_WAIT_LOOP_KEEP_WAITING, ?a', c', w1)"
    using n(1) by (simp add: HookObjectRead_onMessage_def rw(1,2,3,4) P(1) buf(1) T(1) c'(1) Let_def)
  have byte: "object_byte content w1 ob1 (?off + i) = object_byte content w ob (?off + i)" if "i < ?n" for i using P(5) ob(2) that by simp
  show thesis
  proof (rule that [OF run _ c'(2,3)])
    show "container_ok X mb w1 (ap_container ?a')" "sm_find (ct_objects (ap_container ?a')) ?k = Some (Some ob1)"
        "others_kept content ?k (ap_container a) w (ap_container ?a') w1"
      using P(2,3) put_object_find unfolding ct by simp_all
    show "\<exists>m'. push_all (mem_heap (w_mem w1)) ops' m = Inr m' \<and>
       (\<forall>i < ?n. m' ?key (?addr + i) = object_byte content w ob (?off + i)) \<and>
       (\<forall>k x. \<not> (k = ?key \<and> ?addr \<le> x \<and> x < ?addr + ?n) \<longrightarrow> m' k x = m k x)"
      if "set ops' = set (map (\<lambda>(l, vs). ?mk vs (?addr + (l - ?off))) parts)" for ops' :: "server_fun fi_op list" and m
      using pushed_range [OF T(5) that, of m] byte by auto
  qed
qed

section \<open>Writes\<close>

lemma private_dirty:
  "ob' = ob\<lparr>obj_segmentMap := set_dirty f (obj_segmentMap ob)\<rparr> \<Longrightarrow> private_descr E ob w d \<Longrightarrow> private_descr E ob' w d"
  unfolding private_descr_def
proof (elim exE conjE)
  fix k seg i
  assume a: "ob' = ob\<lparr>obj_segmentMap := set_dirty f (obj_segmentMap ob)\<rparr>" "(k, seg) \<in> set (obj_segmentMap ob)" "os_memory seg = Some i"
    "map_refs (obj_segmentMap ob) i + E i = 1" "getSegmentDescr seg w = Inr d"
  let ?s = "seg\<lparr>os_dirty := f k seg\<rparr>"
  have "(k, ?s) \<in> set (obj_segmentMap ob')" "getSegmentDescr ?s w = Inr d"
    using a by (auto simp: set_dirty_def getSegmentDescr_def seg_memory_def)
  then show "\<exists>k seg i. (k, seg) \<in> set (obj_segmentMap ob') \<and> os_memory seg = Some i \<and> map_refs (obj_segmentMap ob') i + E i = 1 \<and>
      getSegmentDescr seg w = Inr d"
    using a by (intro exI [of _ k] exI [of _ ?s] exI [of _ i]) (simp add: set_dirty_frame)
qed

lemma private_vector:
  assumes inv: "object_inv X mb E ob w" and d: "private_descr E ob w d"
    and meet: "osd_offset d < off + n" "off < osd_offset d + osd_size d" "0 < n" "0 < osd_size d"
  shows "rdma_ready w d \<Longrightarrow> transferable w d" "inside E ob w (max off (osd_offset d)) (vector_of off n d)"
proof -
  obtain k xs where k: "osd_ptr d = Ptr k 0" "w_blocks w k = Some xs" "length xs = osd_size d" "osd_offset d + osd_size d < W64"
    by (rule private_block [OF inv d]) (rule that)
  show "rdma_ready w d \<Longrightarrow> transferable w d" using k(1,4) by (simp add: rdma_ready_def transferable_def)
  show "inside E ob w (max off (osd_offset d)) (vector_of off n d)"
    unfolding inside_def using d meet
    by (intro exI [of _ d] exI [of _ "max off (osd_offset d) - osd_offset d"]) (auto simp: vector_of_def)
qed

lemma rdma_write_effect:
  fixes content :: "'s storage_content" and w :: "'s world"
  assumes ok: "container_ok X mb w (ap_container a)" and conn: "conn_ok pd X c" and so: "storage_ok so content"
    and msg: "holds_message (rq_deserializer rq) (ReadWrite_wire req)" "ReadWrite_ok req" "\<not> rw_msgHasData req"
    and n: "0 < rw_size req" "iov_addr (rw_iov req) + rw_size req < W64"
    and lim: "rw_offset req + rw_size req + ct_objectSegmentsAlignement (ap_container a) < W64"
    and ob: "ob = the_object (oid_of (rw_objectId req)) (ap_container a)"
    and buf: "getBuffers fi so (rw_offset req) (rw_size req) ACCESS_WRITE True True ob w = Inr (st, segs, ob1, w1)"
      "\<forall>d \<in> set segs. rdma_ready w1 d"
    and peer: "sm_find (lc_remoteLiAddr c) (int_of_size (rq_lfClientId rq)) = Some fa" "set (fb_codes (lc_fabric c)) \<subseteq> {- FI_EAGAIN}"
      "rq_msgBufferId rq < lc_recvBuffersCount c"
  obtains a' c' ob' ops where "HookObjectWrite_onMessage fi so rq a c w = Inr (LF_WAIT_LOOP_KEEP_WAITING, a', c', w1)"
    "container_ok X mb w1 (ap_container a')" "conn_ok pd X c'" "started rq ops c c'"
    "sm_find (ct_objects (ap_container a')) (oid_of (rw_objectId req)) = Some (Some ob')"
    "\<And>ops' m. set ops' = set ops \<Longrightarrow> \<exists>w2. fetch_all m ops' w1 = Inr w2 \<and> container_ok X mb w2 (ap_container a') \<and>
       others_kept content (oid_of (rw_objectId req)) (ap_container a) w (ap_container a') w2 \<and>
       (\<forall>i < rw_size req. object_byte content w2 ob' (rw_offset req + i) = m (iov_key (rw_iov req)) (iov_addr (rw_iov req) + i)) \<and>
       (\<forall>x. \<not> (rw_offset req \<le> x \<and> x < rw_offset req + rw_size req) \<longrightarrow>
          view_byte w (obj_segmentMap ob) x \<noteq> None \<or> reads_succeed so \<and> obj_storageBackend ob \<longrightarrow>
          object_byte content w2 ob' x = object_byte content w ob x)"
    "ops \<noteq> []" "\<forall>op \<in> set ops. transfer_of (op_context op) = Some (ap_nextOps a)" "obj_segmentMap ob' \<noteq> []"
proof -
  let ?k = "oid_of (rw_objectId req)" and ?n = "rw_size req" and ?off = "rw_offset req" and ?addr = "iov_addr (rw_iov req)" and ?key = "iov_key (rw_iov req)"
  obtain r where msg': "unpacking (rq_deserializer rq)" "ser_rest (rq_deserializer rq) = ReadWrite_wire req @ r"
      "ser_cursor (rq_deserializer rq) + length (ReadWrite_wire req) \<le> ser_size (rq_deserializer rq)"
    using msg(1) by (auto simp: holds_message_def)
  obtain rw s where rw: "apply_struct ObjReadWriteInfos_applySerializerDef ''objReadWrite'' no_rw (rq_deserializer rq) = Inr (rw, s)"
      "rw_objectId rw = rw_objectId req" "rw_offset rw = ?off" "rw_size rw = ?n" "rw_iov rw = rw_iov req" "\<not> rw_msgHasData rw"
    using rw.unpack_struct [OF msg(2) TrueI msg', of "''objReadWrite''" no_rw] msg(3) unfolding ReadWrite_same_def by blast
  obtain ob0 ct1 where g: "getObject ?k (ap_container a) = Inr (ob0, ct1)" by (rule getObject_ok [OF ok])
  note G = getObject_the [OF ok g]
  have ob0: "ob0 = ob" using G(4) ob by simp
  note F = container_focus [OF G(1,2), unfolded ob0]
  have mem: "obj_memoryBackend ob = mb" "grid_ok ob" "?off + ?n + obj_alignement ob < W64"
    using F(2) lim G(5) by (simp_all add: member_ok_def ob0)
  note W = write_object [OF F(1) mem(1) so mem(2,3) n(1) buf(1)]
  note S = container_object_step [OF G(1,2) W(2) [folded ob0] W(3)]
  let ?E = "others ?k ct1"
  have inv1: "object_inv X mb ?E ob1 w1" using W(2) by (simp add: object_step_def)
  have lim': "?off + ?n < W64" "iov_addr (rw_iov rw) + ?n < W64" using lim n(2) rw(5) by simp_all
  obtain f where dirty: "markDirty ?off ?n ob1 w1 = Inr (ob1\<lparr>obj_segmentMap := set_dirty f (obj_segmentMap ob1)\<rparr>)"
    using markDirty_eq [of mb _ X w1 ob1 ?off ?n] inv1 lim'(1) by (auto simp: object_inv_def)
  define ob2 where "ob2 = ob1\<lparr>obj_segmentMap := set_dirty f (obj_segmentMap ob1)\<rparr>"
  note D = markDirty_step [OF inv1 dirty lim'(1), folded ob2_def]
  have inv2: "object_inv X mb ?E ob2 w1" using D(1) by (simp add: object_step_def)
  have vec: "rdma_ready w1 d \<Longrightarrow> transferable w1 d" "inside ?E ob2 w1 (max ?off (osd_offset d)) (vector_of ?off ?n d)" if "d \<in> set segs" for d
    using private_vector [OF inv2 private_dirty [OF ob2_def W(5) [OF that]]] chain_meets [OF W(4) that] n(1) by blast+
  let ?P = "inside ?E ob2 w1"
  let ?mk = "\<lambda>vs at. FiRead fa vs at ?key (Some (PostAction_init (LibfabricPostActionFunction (RdmaFetched (ap_nextOps a) ?n (rq_lfClientId rq)))))"
  obtain c1 parts where T: "objRdmaFetchFromClient (rq_lfClientId rq) rw segs a c w1 = Inr (snd (new_ops (count_groups (length segs)) a), c1)"
      "same_settings c c1" "fb_codes (lc_fabric c1) = []" "fb_recv (lc_fabric c1) = fb_recv (lc_fabric c)" "parts_cover ?P ?off (?off + ?n) parts"
      "fb_ops (lc_fabric c1) = fb_ops (lc_fabric c) @ map (\<lambda>(l, vs). ?mk vs (?addr + (l - ?off))) parts"
    using fetch.transfer_posts [OF W(4) lim'(1) n(1), of w1 ?P rw c "rq_lfClientId rq" fa a] vec buf(2) lim'(2) rw(3,4,5) peer(1,2) by auto
  obtain c' where c': "terminate rq c1 = Inr c'" "conn_ok pd X c'" "started rq (map (\<lambda>(l, vs). ?mk vs (?addr + (l - ?off))) parts) c c'"
    by (rule transfer_terminate [OF fetch_keeps(1) [OF conn T(1)] T(3,2,4,6) peer(3)]) (rule that)
  let ?a' = "(snd (new_ops (count_groups (length segs)) a))\<lparr>ap_container := put_object ?k ob2 ct1\<rparr>"
  have run: "HookObjectWrite_onMessage fi so rq a c w = Inr (LF_WAIT_LOOP_KEEP_WAITING, ?a', c', w1)"
    using W(1) by (simp add: HookObjectWrite_onMessage_def rw g ob0 buf(1) T(1) c'(1) dirty ob2_def Let_def)
  have ct2: "container_ok X mb w1 (put_object ?k ob2 ct1)"
    using container_object_step(1) [OF G(1,2) object_step_trans [OF W(2) D(1), folded ob0] W(3)] .
  have parts: "parts \<noteq> []" using T(5) n(1) by (auto simp: parts_cover_def)
  have "segs \<noteq> []" using W(4) n(1) by (cases segs) auto
  then obtain d where "d \<in> set segs" by (meson hd_in_set)
  then have map: "obj_segmentMap ob2 \<noteq> []" using private_dirty [OF ob2_def W(5)] by (auto simp: private_descr_def)
  show thesis
  proof (rule that [OF run _ c'(2,3)])
    show "map (\<lambda>(l, vs). ?mk vs (?addr + (l - ?off))) parts \<noteq> []" "obj_segmentMap ob2 \<noteq> []" using parts map by simp_all
    show "\<forall>op \<in> set (map (\<lambda>(l, vs). ?mk vs (?addr + (l - ?off))) parts). transfer_of (op_context op) = Some (ap_nextOps a)"
      by (auto simp: transfer_of_def PostAction_init_def)
    show "container_ok X mb w1 (ap_container ?a')" "sm_find (ct_objects (ap_container ?a')) ?k = Some (Some ob2)"
      using ct2 put_object_find by simp_all
    fix ops' :: "server_fun fi_op list" and m
    assume s: "set ops' = set (map (\<lambda>(l, vs). ?mk vs (?addr + (l - ?off))) parts)"
    obtain w2 where w2: "fetch_all m ops' w1 = Inr w2" "filled X mb ?E ob2 (\<lambda>x. m ?key (?addr + (x - ?off))) (\<lambda>x. ?off \<le> x \<and> x < ?off + ?n) w1 w2"
      by (rule fetched_range [OF inv2 T(5) s]) (rule that)
    have st2: "object_step X mb ?E ob w ob2 w2" "content (w_storage w2) = content (w_storage w)"
      using object_step_trans [OF object_step_trans [OF W(2) D(1)], of ob2 w2] w2(2) W(3) by (simp_all add: filled_def)
    note C = container_object_step [OF G(1,2) st2 [folded ob0]]
    have byte: "object_byte content w2 ob2 x = (if ?off \<le> x \<and> x < ?off + ?n then m ?key (?addr + (x - ?off)) else object_byte content w1 ob1 x)" for x
      using object_byte_written [of content w2 w1 ob2 _ "\<lambda>x. m ?key (?addr + (x - ?off))" x] w2(2) D(2) by (simp add: filled_def)
    have "others_kept content ?k (ap_container a) w (put_object ?k ob2 ct1) w2"
      using C(2) G(3) unfolding others_kept_def by metis
    moreover have "object_byte content w1 ob1 x = object_byte content w ob x"
      if "\<not> (?off \<le> x \<and> x < ?off + ?n)" "view_byte w (obj_segmentMap ob) x \<noteq> None \<or> reads_succeed so \<and> obj_storageBackend ob" for x
      using that(2) W(7) [OF that(1)] W(6) [of x] by (auto simp: object_byte_def)
    ultimately show "\<exists>w2. fetch_all m ops' w1 = Inr w2 \<and> container_ok X mb w2 (ap_container ?a') \<and>
       others_kept content ?k (ap_container a) w (ap_container ?a') w2 \<and>
       (\<forall>i < ?n. object_byte content w2 ob2 (?off + i) = m ?key (?addr + i)) \<and>
       (\<forall>x. \<not> (?off \<le> x \<and> x < ?off + ?n) \<longrightarrow> view_byte w (obj_segmentMap ob) x \<noteq> None \<or> reads_succeed so \<and> obj_storageBackend ob \<longrightarrow>
          object_byte content w2 ob2 x = object_byte content w ob x)"
      using w2(1) C(1) byte by (intro exI [of _ w2]) auto
  qed
qed

end
