(* ===== verification/Client_Rdma.thy ===== *)
theory Client_Rdma
  imports Client_Server Rdma_Transfer
begin

text \<open>
  Requests of a client above the eager size: the buffer of the caller is registered, the request carries its address and
  key, the server moves the data by RDMA, and the buffer is un-registered when the answer is there.
\<close>

section \<open>The client\<close>

definition rdma_request :: "LibfabricObjectId \<Rightarrow> size_t \<Rightarrow> size_t \<Rightarrow> Iov \<Rightarrow> LibfabricObjReadWriteInfos" where
  "rdma_request oid off n iov = \<lparr>rw_objectId = oid, rw_iov = iov, rw_offset = off, rw_size = n, rw_msgHasData = False, rw_optionalData = None\<rparr>"

lemma rdma_request_ok:
  assumes "ObjectId_ok oid" "off < W64" "n < W64" "Iov_ok iov"
  shows "ReadWrite_ok (rdma_request oid off n iov)" "length (ReadWrite_wire (rdma_request oid off n iov)) = 49"
  using assms by (simp_all add: rdma_request_def ReadWrite_ok_def Iov_ok_def ReadWrite_wire_def ObjectId_wire_def Iov_wire_def)

lemma register_keeps_pool: "registerSegment fi p n rd wr pm d = Inr (iov, d') \<Longrightarrow> ld_msgBuffers d' = ld_msgBuffers d \<and> ld_msgBufferSize d' = ld_msgBufferSize d"
  by (auto simp: registerSegment_def Let_def elim!: bindE_InrE)

text \<open>A client whose pool has a message buffer stays one when memory is registered.\<close>

lemma client_registered:
  assumes "client_ok pd X mb R c w" "delivers fi srv j bytes c w" "ld_msgBuffers (mem_domain (w_mem w)) \<noteq> []"
    and "registerSegment fi p n rd wr pm (mem_domain (w_mem w)) = Inr (iov, dm)"
  shows "client_ok pd X mb R c (w_set_domain dm w)" "delivers fi srv j bytes c (w_set_domain dm w)"
proof -
  note P = register_keeps_pool [OF assms(4)]
  have ok: "world_ok mb R X w" using assms(1) by (simp add: client_ok_def)
  then have "X\<lparr>fr_msgBuffers := ld_msgBuffers dm\<rparr> = X" using P by (simp add: world_ok_def frame_ok_def)
  then have "world_ok mb R X (w_set_domain dm w)" using world_set_domain(1) [OF ok, of dm] P by simp
  then show "client_ok pd X mb R c (w_set_domain dm w)" using assms(1) by (simp add: client_ok_def)
  have "buffer_available fi (w_set_domain dm w)" using assms(3) P by (simp add: buffer_available_def getMsgBuffer_def w_set_domain_def)
  then show "delivers fi srv j bytes c (w_set_domain dm w)" using assms(2) by (simp add: delivers_def)
qed

lemma sendMessage_segments:
  assumes "sendMessage fi t dst A d body c w = Inr (c', w')" "ld_msgBuffers (mem_domain (w_mem w)) \<noteq> []"
  shows "ld_segments (mem_domain (w_mem w')) = ld_segments (mem_domain (w_mem w))"
  using assms unfolding sendMessage_def Let_def by (auto simp: getMsgBuffer_def elim!: bindE_InrE split: prod.splits)

text \<open>
  The exchange of a request by RDMA: the request is posted with the address and the key of the buffer, the answer is found, and the
  buffer can be un-registered.
\<close>

lemma rdma_exchange:
  fixes w :: "'s world"
  assumes cl: "client_ok pd X mb R c w" and net: "delivers fi srv j (MessageHeader_wire h @ Response_wire resp) c w"
    and h: "MessageHeader_ok h" "mh_msgType h = msg_code IOC_LF_MSG_OBJ_READ_WRITE_ACK" and resp: "Response_ok resp" and fuel: "polls c \<le> fuel"
    and reg: "domain_ok (mem_domain (w_mem w))" "region_fresh buffer n (mem_domain (w_mem w))" "ld_msgBuffers (mem_domain (w_mem w)) \<noteq> []"
      "registerSegment fi buffer n rd wr False (mem_domain (w_mem w)) = Inr (iov, dm)" "Iov_ok iov"
    and req: "ObjectId_ok oid" "off < W64" "n < W64" "81 \<le> fr_msgBufferSize X"
  obtains c1 w1 rq resp' c2 w2 c3 d' where
    "sendMessageNoPollWakeup fi (msg_code t) IOC_LF_SERVER_ID ObjReadWriteInfos_applySerializerDef (rdma_request oid off n iov) c (w_set_domain dm w) = Inr (c1, w1)"
    "poll_response fuel fi IOC_LF_MSG_OBJ_READ_WRITE_ACK c1 w1 = Inr (Some (rq, resp'), c2, w2)" "Response_same resp resp'" "terminate rq c2 = Inr c3"
    "unregisterSegment buffer n (mem_domain (w_mem w2)) = Inr d'"
    "exchanged srv (MessageHeader_wire (fillProtocolHeader (msg_code t) c) @ ReadWrite_wire (rdma_request oid off n iov)) j c c3"
    "\<forall>k xs. nc_foreign pd k = Some xs \<longrightarrow> w_blocks w2 k = Some xs"
proof -
  let ?rw = "rdma_request oid off n iov" and ?w = "w_set_domain dm w"
  note C = client_registered [OF cl net reg(3,4)] and ok = rdma_request_ok [OF req(1-3) reg(5)]
  have len: "32 + length (ReadWrite_wire ?rw) \<le> fr_msgBufferSize X" using ok(2) req(4) by simp
  obtain c1 w1 c2 w2 buf act d where R: "sendMessageNoPollWakeup fi (msg_code t) IOC_LF_SERVER_ID ObjReadWriteInfos_applySerializerDef ?rw c ?w = Inr (c1, w1)"
      "pollMessage fuel fi no_fun IOC_LF_MSG_OBJ_READ_WRITE_ACK () c1 w1 =
         Inr (Some (Some \<lparr>rq_lfClientId = mh_lfClientId h, rq_msgBufferId = j, rq_header = h, rq_deserializer = d\<rparr>), (), c2, w2)"
      "holds_message d (Response_wire resp)" "posted (FiSend srv buf (MessageHeader_wire (fillProtocolHeader (msg_code t) c) @ ReadWrite_wire ?rw) (Some act)) c c1"
      "same_settings c c2" "fb_codes (lc_fabric c2) = []" "fb_ops (lc_fabric c2) = fb_ops (lc_fabric c1)" "fb_recv (lc_fabric c2) = fb_recv (lc_fabric c)"
      "pool_grows w1 w2" "\<forall>k xs. nc_foreign pd k = Some xs \<longrightarrow> w_blocks w2 k = Some xs"
    using rw.request_sent [OF C ok(1) len h _ _ fuel, of t] by auto
  obtain resp' d' where U: "apply_struct Response_applySerializerDef ''response'' no_response d = Inr (resp', d')" "Response_same resp resp'"
    by (rule response_read [OF R(3) resp]) (rule that)
  have "j < lc_recvBuffersCount c2" using net same_settings_sel(2) [OF R(5)] by (simp add: delivers_def)
  then obtain c3 where c3: "repostReceive j c2 = Inr c3" using repostReceive_returns [OF R(6)] by blast
  have "ld_segments (mem_domain (w_mem w1)) = ld_segments dm"
    using sendMessage_segments [OF R(1) [unfolded sendMessageNoPollWakeup_def]] reg(3) register_keeps_pool [OF reg(4)] by (simp add: w_set_domain_def)
  then have segs: "ld_segments (mem_domain (w_mem w2)) = ld_segments dm" using pool_grows_same(2) [OF R(9)] by simp
  then have dom: "domain_ok (mem_domain (w_mem w2))" using registerSegment_domain_ok [OF reg(1,4,2)] by (simp add: domain_ok_def)
  note r = registerSegment_Inr [OF reg(4)]
  obtain b i where b: "buffer = Ptr b i" using r(1) by (cases buffer) auto
  have "(ptr_add buffer (n - 1), \<lparr>mr_ptr = buffer, mr_size = n, mr_mr = ld_cnt (mem_domain (w_mem w))\<rparr>) \<in> set (ld_segments (mem_domain (w_mem w2)))"
    using registerSegment_regions [OF reg(1,4,2)] segs by simp
  from unregisterSegment_covering [OF dom this] have un: "\<exists>d'. unregisterSegment buffer n (mem_domain (w_mem w2)) = Inr d'"
    using b r(2) by (auto simp: region_covers_def)
  have "poll_response fuel fi IOC_LF_MSG_OBJ_READ_WRITE_ACK c1 w1 =
      Inr (Some (\<lparr>rq_lfClientId = mh_lfClientId h, rq_msgBufferId = j, rq_header = h, rq_deserializer = d\<rparr>, resp'), c2, w2)"
    using R(2) U(1) by (simp add: poll_response_def)
  moreover have "terminate \<lparr>rq_lfClientId = mh_lfClientId h, rq_msgBufferId = j, rq_header = h, rq_deserializer = d\<rparr> c2 = Inr c3"
    using c3 by (simp add: terminate_def)
  ultimately show thesis using that R(1,10) U(2) un exchangedI [OF R(4,5,7,8) c3] by blast
qed

lemma obj_write_rdma:
  fixes w :: "'s world"
  assumes cl: "client_ok pd X mb R c w" and net: "delivers fi srv j (MessageHeader_wire h @ Response_wire resp) c w"
    and h: "MessageHeader_ok h" "mh_msgType h = msg_code IOC_LF_MSG_OBJ_READ_WRITE_ACK" and resp: "Response_ok resp" and fuel: "polls c \<le> fuel"
    and reg: "domain_ok (mem_domain (w_mem w))" "region_fresh buffer n (mem_domain (w_mem w))" "ld_msgBuffers (mem_domain (w_mem w)) \<noteq> []"
      "registerSegment fi buffer n True False False (mem_domain (w_mem w)) = Inr (iov, dm)" "Iov_ok iov"
    and req: "ObjectId_ok oid" "off < W64" "n < W64" "81 \<le> fr_msgBufferSize X" "IOC_EAGER_MAX_WRITE < n"
  shows "\<exists>c' w'. obj_write fuel fi oid buffer n off c w = Inr (Some (rs_status resp), c', w') \<and>
    exchanged srv (MessageHeader_wire (fillProtocolHeader (msg_code IOC_LF_MSG_OBJ_WRITE) c) @ ReadWrite_wire (rdma_request oid off n iov)) j c c'"
proof -
  obtain c1 w1 rq resp' c2 w2 c3 d' where E:
    "sendMessageNoPollWakeup fi (msg_code IOC_LF_MSG_OBJ_WRITE) IOC_LF_SERVER_ID ObjReadWriteInfos_applySerializerDef (rdma_request oid off n iov) c (w_set_domain dm w) = Inr (c1, w1)"
    "poll_response fuel fi IOC_LF_MSG_OBJ_READ_WRITE_ACK c1 w1 = Inr (Some (rq, resp'), c2, w2)" "Response_same resp resp'" "terminate rq c2 = Inr c3"
    "unregisterSegment buffer n (mem_domain (w_mem w2)) = Inr d'"
    "exchanged srv (MessageHeader_wire (fillProtocolHeader (msg_code IOC_LF_MSG_OBJ_WRITE) c) @ ReadWrite_wire (rdma_request oid off n iov)) j c c3"
    by (rule rdma_exchange [OF cl net h resp fuel reg req(1-4)]) (rule that)
  have "rs_status resp' = rs_status resp" using E(3) by (simp add: Response_same_def)
  then have "\<exists>w'. obj_write fuel fi oid buffer n off c w = Inr (Some (rs_status resp), c3, w')"
    using req(5) reg(4) E(1,2,4,5) by (simp add: obj_write_def rdma_request_def w_set_domain_def Let_def del: msg_code.simps)
  then show ?thesis using E(6) by blast
qed

lemma obj_read_rdma:
  fixes w :: "'s world"
  assumes cl: "client_ok pd X mb R c w" and net: "delivers fi srv j (MessageHeader_wire h @ Response_wire resp) c w"
    and h: "MessageHeader_ok h" "mh_msgType h = msg_code IOC_LF_MSG_OBJ_READ_WRITE_ACK" and resp: "Response_ok resp" and fuel: "polls c \<le> fuel"
    and reg: "domain_ok (mem_domain (w_mem w))" "region_fresh buffer n (mem_domain (w_mem w))" "ld_msgBuffers (mem_domain (w_mem w)) \<noteq> []"
      "registerSegment fi buffer n True True False (mem_domain (w_mem w)) = Inr (iov, dm)" "Iov_ok iov"
    and req: "ObjectId_ok oid" "off < W64" "n < W64" "81 \<le> fr_msgBufferSize X" "IOC_EAGER_MAX_READ < n" "\<not> rs_msgHasData resp"
  shows "\<exists>c' w'. obj_read fuel fi oid buffer n off c w = Inr (Some (rs_status resp), c', w') \<and>
    exchanged srv (MessageHeader_wire (fillProtocolHeader (msg_code IOC_LF_MSG_OBJ_READ) c) @ ReadWrite_wire (rdma_request oid off n iov)) j c c' \<and>
    (\<forall>k xs. nc_foreign pd k = Some xs \<longrightarrow> w_blocks w' k = Some xs)"
proof -
  obtain c1 w1 rq resp' c2 w2 c3 d' where E:
    "sendMessageNoPollWakeup fi (msg_code IOC_LF_MSG_OBJ_READ) IOC_LF_SERVER_ID ObjReadWriteInfos_applySerializerDef (rdma_request oid off n iov) c (w_set_domain dm w) = Inr (c1, w1)"
    "poll_response fuel fi IOC_LF_MSG_OBJ_READ_WRITE_ACK c1 w1 = Inr (Some (rq, resp'), c2, w2)" "Response_same resp resp'" "terminate rq c2 = Inr c3"
    "unregisterSegment buffer n (mem_domain (w_mem w2)) = Inr d'"
    "exchanged srv (MessageHeader_wire (fillProtocolHeader (msg_code IOC_LF_MSG_OBJ_READ) c) @ ReadWrite_wire (rdma_request oid off n iov)) j c c3"
    "\<forall>k xs. nc_foreign pd k = Some xs \<longrightarrow> w_blocks w2 k = Some xs"
    by (rule rdma_exchange [OF cl net h resp fuel reg req(1-4)]) (rule that)
  have "rs_status resp' = rs_status resp" "\<not> rs_msgHasData resp'" using E(3) req(6) by (simp_all add: Response_same_def)
  then have "obj_read fuel fi oid buffer n off c w = Inr (Some (rs_status resp), c3, w_set_domain d' w2)"
    using req(5) reg(4) E(1,2,4,5) by (simp add: obj_read_def rdma_request_def w_set_domain_def Let_def del: msg_code.simps)
  then show ?thesis using E(6,7) by (auto simp: w_set_domain_def)
qed

section \<open>The server\<close>

text \<open>The operations of a transfer are posted, and the receive buffer of the request is free again.\<close>

definition transferring :: "nat \<Rightarrow> server_fun fi_op list \<Rightarrow> 's server \<Rightarrow> 's server \<Rightarrow> bool" where
  "transferring i ops s s' \<longleftrightarrow> fb_recv (lc_fabric (sv_connection s')) = fb_recv (lc_fabric (sv_connection s)) @ [i] \<and>
     fb_ops (lc_fabric (sv_connection s')) = fb_ops (lc_fabric (sv_connection s)) @ ops"

lemma rdma_write_round:
  fixes content :: "'s storage_content" and s :: "'s server"
  assumes inv: "server_ok s" "storage_ok so content" and srv: "serves h (ReadWrite_wire req) i fa s"
    and h: "MessageHeader_ok h" "mh_msgType h = msg_code IOC_LF_MSG_OBJ_WRITE"
    and req: "ReadWrite_ok req" "\<not> rw_msgHasData req" "0 < rw_size req" "rw_offset req + rw_size req + server_alignement < W64"
      "iov_addr (rw_iov req) + rw_size req < W64"
    and buf: "getBuffers fi so (rw_offset req) (rw_size req) ACCESS_WRITE True True (the_object (oid_of (rw_objectId req)) (ap_container (sv_app s))) (sv_world s) =
      Inr (st, segs, ob1, w1)" "\<forall>d \<in> set segs. rdma_ready w1 d"
  obtains s' ob' ops where "server_round fi eo so s = Inr s'" "transferring i ops s s'"
    "sm_find (ct_objects (ap_container (sv_app s'))) (oid_of (rw_objectId req)) = Some (Some ob')"
    "\<And>ops' m. set ops' = set ops \<Longrightarrow> \<exists>w2. fetch_all m ops' (sv_world s') = Inr w2 \<and>
       others_kept content (oid_of (rw_objectId req)) (ap_container (sv_app s)) (sv_world s) (ap_container (sv_app s')) w2 \<and>
       (\<forall>x < rw_size req. object_byte content w2 ob' (rw_offset req + x) = m (iov_key (rw_iov req)) (iov_addr (rw_iov req) + x))"
    "ops \<noteq> []" "\<forall>op \<in> set ops. transfer_of (op_context op) = Some (ap_nextOps (sv_app s))" "obj_segmentMap ob' \<noteq> []"
proof -
  let ?c = "sv_connection s"
  obtain c1 d X where R: "same_settings ?c c1" "fb_ops (lc_fabric c1) = fb_ops (lc_fabric ?c)" "fb_recv (lc_fabric c1) = fb_recv (lc_fabric ?c)"
      "holds_message d (ReadWrite_wire req)" "container_ok X 0 (sv_world s) (ap_container (sv_app s))" "conn_ok server_context X c1"
      "i < lc_recvBuffersCount c1" "endpoint_ready X (int_of_size (mh_lfClientId h)) c1"
      "ct_objectSegmentsAlignement (ap_container (sv_app s)) = server_alignement"
      "server_round fi eo so s = bindE (run_hook fi so (HookObjectWrite, \<lparr>rq_lfClientId = mh_lfClientId h, rq_msgBufferId = i, rq_header = h, rq_deserializer = d\<rparr>)
       (sv_app s) c1 (sv_world s)) (\<lambda>(_, a, c, w). Inr (s\<lparr>sv_app := a, sv_connection := c, sv_world := w\<rparr>))"
    by (rule request_round [OF inv(1) srv h(1), of "WriteRequest req"]) (use h(2) that in auto)
  let ?rq = "\<lparr>rq_lfClientId = mh_lfClientId h, rq_msgBufferId = i, rq_header = h, rq_deserializer = d\<rparr>"
  have lim: "rw_offset req + rw_size req + ct_objectSegmentsAlignement (ap_container (sv_app s)) < W64" using req(4) R(9) by simp
  have rq: "holds_message (rq_deserializer ?rq) (ReadWrite_wire req)" "rq_msgBufferId ?rq < lc_recvBuffersCount c1"
      "sm_find (lc_remoteLiAddr c1) (int_of_size (rq_lfClientId ?rq)) = Some fa" "set (fb_codes (lc_fabric c1)) \<subseteq> {- FI_EAGAIN}"
    using R(4,7,8) srv same_settings_sel(4) [OF R(1)] by (simp_all add: serves_def endpoint_ready_def)
  obtain a' c' ob' ops where E: "HookObjectWrite_onMessage fi so ?rq (sv_app s) c1 (sv_world s) = Inr (LF_WAIT_LOOP_KEEP_WAITING, a', c', w1)"
      "started ?rq ops c1 c'" "sm_find (ct_objects (ap_container a')) (oid_of (rw_objectId req)) = Some (Some ob')"
      "\<And>ops' m. set ops' = set ops \<Longrightarrow> \<exists>w2. fetch_all m ops' w1 = Inr w2 \<and>
         others_kept content (oid_of (rw_objectId req)) (ap_container (sv_app s)) (sv_world s) (ap_container a') w2 \<and>
         (\<forall>x < rw_size req. object_byte content w2 ob' (rw_offset req + x) = m (iov_key (rw_iov req)) (iov_addr (rw_iov req) + x))"
      "ops \<noteq> []" "\<forall>op \<in> set ops. transfer_of (op_context op) = Some (ap_nextOps (sv_app s))" "obj_segmentMap ob' \<noteq> []"
    by (rule rdma_write_effect [OF R(5,6) inv(2) rq(1) req(1-3,5) lim refl buf rq(3,4,2)]) (rule that; blast)
  have "server_round fi eo so s = Inr (s\<lparr>sv_app := a', sv_connection := c', sv_world := w1\<rparr>)" using R(10) E(1) by (simp add: run_hook_def)
  then show thesis using that [of "s\<lparr>sv_app := a', sv_connection := c', sv_world := w1\<rparr>" ops ob'] E(2-7) R(2,3) by (simp add: transferring_def started_def)
qed

lemma rdma_read_round:
  fixes content :: "'s storage_content" and s :: "'s server"
  assumes inv: "server_ok s" "storage_ok so content" and srv: "serves h (ReadWrite_wire req) i fa s"
    and h: "MessageHeader_ok h" "mh_msgType h = msg_code IOC_LF_MSG_OBJ_READ"
    and req: "ReadWrite_ok req" "IOC_EAGER_MAX_READ < rw_size req" "rw_offset req + rw_size req + server_alignement < W64"
      "iov_addr (rw_iov req) + rw_size req < W64"
    and ob: "ob = the_object (oid_of (rw_objectId req)) (ap_container (sv_app s))"
      "\<forall>x. rw_offset req \<le> x \<and> x < rw_offset req + rw_size req \<longrightarrow> view_byte (sv_world s) (obj_segmentMap ob) x \<noteq> None \<or> obj_storageBackend ob"
    and buf: "getBuffers fi so (rw_offset req) (rw_size req) ACCESS_READ True False ob (sv_world s) = Inr (True, segs, ob1, w1)" "\<forall>d \<in> set segs. rdma_ready w1 d"
  obtains s' ops where "server_round fi eo so s = Inr s'" "transferring i ops s s'"
    "\<And>ops' m. set ops' = set ops \<Longrightarrow> \<exists>m'. push_all (mem_heap (w_mem (sv_world s'))) ops' m = Inr m' \<and>
       (\<forall>x < rw_size req. m' (iov_key (rw_iov req)) (iov_addr (rw_iov req) + x) = object_byte content (sv_world s) ob (rw_offset req + x)) \<and>
       (\<forall>k x. \<not> (k = iov_key (rw_iov req) \<and> iov_addr (rw_iov req) \<le> x \<and> x < iov_addr (rw_iov req) + rw_size req) \<longrightarrow> m' k x = m k x)"
proof -
  let ?c = "sv_connection s"
  obtain c1 d X where R: "same_settings ?c c1" "fb_ops (lc_fabric c1) = fb_ops (lc_fabric ?c)" "fb_recv (lc_fabric c1) = fb_recv (lc_fabric ?c)"
      "holds_message d (ReadWrite_wire req)" "container_ok X 0 (sv_world s) (ap_container (sv_app s))" "conn_ok server_context X c1"
      "i < lc_recvBuffersCount c1" "endpoint_ready X (int_of_size (mh_lfClientId h)) c1"
      "ct_objectSegmentsAlignement (ap_container (sv_app s)) = server_alignement"
      "server_round fi eo so s = bindE (run_hook fi so (HookObjectRead, \<lparr>rq_lfClientId = mh_lfClientId h, rq_msgBufferId = i, rq_header = h, rq_deserializer = d\<rparr>)
       (sv_app s) c1 (sv_world s)) (\<lambda>(_, a, c, w). Inr (s\<lparr>sv_app := a, sv_connection := c, sv_world := w\<rparr>))"
    by (rule request_round [OF inv(1) srv h(1), of "ReadRequest req"]) (use h(2) that in auto)
  let ?rq = "\<lparr>rq_lfClientId = mh_lfClientId h, rq_msgBufferId = i, rq_header = h, rq_deserializer = d\<rparr>"
  have lim: "rw_offset req + rw_size req + ct_objectSegmentsAlignement (ap_container (sv_app s)) < W64" using req(3) R(9) by simp
  have rq: "holds_message (rq_deserializer ?rq) (ReadWrite_wire req)" "rq_msgBufferId ?rq < lc_recvBuffersCount c1"
      "sm_find (lc_remoteLiAddr c1) (int_of_size (rq_lfClientId ?rq)) = Some fa" "set (fb_codes (lc_fabric c1)) \<subseteq> {- FI_EAGAIN}"
    using R(4,7,8) srv same_settings_sel(4) [OF R(1)] by (simp_all add: serves_def endpoint_ready_def)
  obtain a' c' ops where E: "HookObjectRead_onMessage fi so ?rq (sv_app s) c1 (sv_world s) = Inr (LF_WAIT_LOOP_KEEP_WAITING, a', c', w1)" "started ?rq ops c1 c'"
      "\<And>ops' m. set ops' = set ops \<Longrightarrow> \<exists>m'. push_all (mem_heap (w_mem w1)) ops' m = Inr m' \<and>
       (\<forall>x < rw_size req. m' (iov_key (rw_iov req)) (iov_addr (rw_iov req) + x) = object_byte content (sv_world s) ob (rw_offset req + x)) \<and>
       (\<forall>k x. \<not> (k = iov_key (rw_iov req) \<and> iov_addr (rw_iov req) \<le> x \<and> x < iov_addr (rw_iov req) + rw_size req) \<longrightarrow> m' k x = m k x)"
    by (rule rdma_read_effect [OF R(5,6) inv(2) rq(1) req(1,2,4) lim ob buf rq(3,4,2)]) (rule that; blast)
  have "server_round fi eo so s = Inr (s\<lparr>sv_app := a', sv_connection := c', sv_world := w1\<rparr>)" using R(10) E(1) by (simp add: run_hook_def)
  then show thesis using that [of "s\<lparr>sv_app := a', sv_connection := c', sv_world := w1\<rparr>" ops] E(2,3) R(2,3) by (simp add: transferring_def started_def)
qed

section \<open>Properties\<close>

text \<open>The memory of a peer holds \<open>data\<close> at the address and under the key of \<open>iov\<close>.\<close>

definition remote_holds :: "remote \<Rightarrow> Iov \<Rightarrow> byte list \<Rightarrow> bool" where
  "remote_holds m iov data \<longleftrightarrow> (\<forall>x < length data. m (iov_key iov) (iov_addr iov + x) = data ! x)"

text \<open>C4: a write above the eager size reaches the object: with the message that \<open>obj_write\<close> posts in a receive buffer of the
  server, one round of the server posts RDMA reads; when the device has executed them, in whatever order, on the registered buffer of
  the client, the object has the bytes of the buffer at the offset and no other object has changed; with the answer in a
  receive buffer of the client, \<open>obj_write\<close> returns 0, not the size of the write that the comments of Actions.cpp and ioc-client.h
  document.\<close>

theorem rdma_write_reaches_object:
  fixes content :: "'s storage_content" and s :: "'s server" and v :: "'c world"
  assumes inv: "server_ok s" "storage_ok so content" and cl: "client_ok pd X mb R c v" "IOC_POST_RECEIVE_WRITE \<le> fr_msgBufferSize X" "polls c \<le> fuel"
    and data: "read_mem buffer n (mem_heap (w_mem v)) = Inr data" "IOC_EAGER_MAX_WRITE < n"
    and reg: "domain_ok (mem_domain (w_mem v))" "region_fresh buffer n (mem_domain (w_mem v))" "ld_msgBuffers (mem_domain (w_mem v)) \<noteq> []"
      "registerSegment fc buffer n True False False (mem_domain (w_mem v)) = Inr (iov, dm)" "Iov_ok iov" "iov_addr iov + n < W64"
    and req: "ObjectId_ok oid" "off + n + server_alignement < W64"
    and up: "serves (fillProtocolHeader (msg_code IOC_LF_MSG_OBJ_WRITE) c) (ReadWrite_wire (rdma_request oid off n iov)) i fa s"
    and down: "delivers fc srv j (ack_message IOC_LF_MSG_OBJ_READ_WRITE_ACK (status_response 0) s) c v"
    and buf: "getBuffers fi so off n ACCESS_WRITE True True (the_object (oid_of oid) (ap_container (sv_app s))) (sv_world s) = Inr (st, segs, ob1, w1)"
      "\<forall>d \<in> set segs. rdma_ready w1 d"
  shows "\<exists>c' v' s' ob' ops. obj_write fuel fc oid buffer n off c v = Inr (Some 0, c', v') \<and>
    exchanged srv (MessageHeader_wire (fillProtocolHeader (msg_code IOC_LF_MSG_OBJ_WRITE) c) @ ReadWrite_wire (rdma_request oid off n iov)) j c c' \<and>
    server_round fi eo so s = Inr s' \<and> transferring i ops s s' \<and>
    sm_find (ct_objects (ap_container (sv_app s'))) (oid_of oid) = Some (Some ob') \<and>
    (\<forall>ops' m. set ops' = set ops \<and> remote_holds m iov data \<longrightarrow> (\<exists>w2. fetch_all m ops' (sv_world s') = Inr w2 \<and>
       others_kept content (oid_of oid) (ap_container (sv_app s)) (sv_world s) (ap_container (sv_app s')) w2 \<and>
       map (object_byte content w2 ob') [off..<off + n] = data))"
proof -
  let ?req = "rdma_request oid off n iov"
  have len: "length data = n" using data(1) by (auto elim!: read_mem_Inr)
  have rq: "rw_offset ?req = off" "rw_size ?req = n" "rw_objectId ?req = oid" "\<not> rw_msgHasData ?req" "rw_iov ?req = iov" by (simp_all add: rdma_request_def)
  have lim: "off < W64" "n < W64" "0 < n" "81 \<le> fr_msgBufferSize X"
    using req(2) data(2) cl(2) by (simp_all add: IOC_POST_RECEIVE_WRITE_def sizeof_LibfabricMessageHeader_def IOC_STRUCT_MAX_def IOC_EAGER_MAX_WRITE_def)
  have h: "mh_msgType (fillProtocolHeader (msg_code t) c0) = msg_code t" for t and c0 :: "('h, 'f) connection"
    by (simp add: fillProtocolHeader_def del: msg_code.simps)
  obtain s' ob' ops where S: "server_round fi eo so s = Inr s'" "transferring i ops s s'"
      "sm_find (ct_objects (ap_container (sv_app s'))) (oid_of oid) = Some (Some ob')"
      "\<And>ops' m. set ops' = set ops \<Longrightarrow> \<exists>w2. fetch_all m ops' (sv_world s') = Inr w2 \<and>
         others_kept content (oid_of oid) (ap_container (sv_app s)) (sv_world s) (ap_container (sv_app s')) w2 \<and>
         (\<forall>x < n. object_byte content w2 ob' (off + x) = m (iov_key iov) (iov_addr iov + x))"
    by (rule rdma_write_round [OF inv up client_header_ok [OF cl(1)] h rdma_request_ok(1) [OF req(1) lim(1,2) reg(5)] rq(4),
          unfolded rq(1-3,5), OF lim(3) req(2) reg(6) buf, of eo]) (rule that)
  have "\<exists>w2. fetch_all m ops' (sv_world s') = Inr w2 \<and> others_kept content (oid_of oid) (ap_container (sv_app s)) (sv_world s) (ap_container (sv_app s')) w2 \<and>
      map (object_byte content w2 ob') [off..<off + n] = data" if m: "set ops' = set ops \<and> remote_holds m iov data" for ops' m
  proof -
    obtain w2 where w2: "fetch_all m ops' (sv_world s') = Inr w2" "others_kept content (oid_of oid) (ap_container (sv_app s)) (sv_world s) (ap_container (sv_app s')) w2"
        "\<forall>x < n. object_byte content w2 ob' (off + x) = m (iov_key iov) (iov_addr iov + x)" using S(4) m by blast
    then have "map (object_byte content w2 ob') [off..<off + n] = data" using m len by (intro nth_equalityI) (simp_all add: remote_holds_def)
    then show ?thesis using w2(1,2) by blast
  qed
  moreover obtain c' v' where "obj_write fuel fc oid buffer n off c v = Inr (Some 0, c', v')"
      "exchanged srv (MessageHeader_wire (fillProtocolHeader (msg_code IOC_LF_MSG_OBJ_WRITE) c) @ ReadWrite_wire ?req) j c c'"
    using obj_write_rdma [OF cl(1) down [unfolded ack_message_def] server_ack_ok [OF inv(1)] h status_response_ok(1) cl(3) reg(1-5) req(1) lim(1,2,4) data(2)]
    by (auto simp: status_response_def int32_ok_def simp del: msg_code.simps)
  ultimately show ?thesis using S(1-3) by blast
qed

text \<open>C5: a read above the eager size returns the bytes of the object: with the message that \<open>obj_read\<close> posts in a receive
  buffer of the server, one round of the server posts RDMA writes; when the device has executed them, in whatever order, the
  registered buffer of the client holds the bytes of the object, and no other byte of the memory of a client has changed; with the
  answer in a receive buffer of the client, \<open>obj_read\<close> returns 0 and does not touch the memory of the caller itself.\<close>

theorem rdma_read_returns_object:
  fixes content :: "'s storage_content" and s :: "'s server" and v :: "'c world"
  assumes inv: "server_ok s" "storage_ok so content" and cl: "client_ok pd X mb R c v" "IOC_POST_RECEIVE_WRITE \<le> fr_msgBufferSize X" "polls c \<le> fuel"
    and size: "IOC_EAGER_MAX_READ < n"
    and reg: "domain_ok (mem_domain (w_mem v))" "region_fresh buffer n (mem_domain (w_mem v))" "ld_msgBuffers (mem_domain (w_mem v)) \<noteq> []"
      "registerSegment fc buffer n True True False (mem_domain (w_mem v)) = Inr (iov, dm)" "Iov_ok iov" "iov_addr iov + n < W64"
    and req: "ObjectId_ok oid" "off + n + server_alignement < W64"
    and ob: "ob = the_object (oid_of oid) (ap_container (sv_app s))" "data = map (object_byte content (sv_world s) ob) [off..<off + n]"
      "\<forall>x. off \<le> x \<and> x < off + n \<longrightarrow> view_byte (sv_world s) (obj_segmentMap ob) x \<noteq> None \<or> obj_storageBackend ob"
    and up: "serves (fillProtocolHeader (msg_code IOC_LF_MSG_OBJ_READ) c) (ReadWrite_wire (rdma_request oid off n iov)) i fa s"
    and down: "delivers fc srv j (ack_message IOC_LF_MSG_OBJ_READ_WRITE_ACK (status_response 0) s) c v"
    and buf: "getBuffers fi so off n ACCESS_READ True False ob (sv_world s) = Inr (True, segs, ob1, w1)" "\<forall>d \<in> set segs. rdma_ready w1 d"
  shows "\<exists>c' v' s' ops. obj_read fuel fc oid buffer n off c v = Inr (Some 0, c', v') \<and>
    (\<forall>k xs. nc_foreign pd k = Some xs \<longrightarrow> w_blocks v' k = Some xs) \<and>
    exchanged srv (MessageHeader_wire (fillProtocolHeader (msg_code IOC_LF_MSG_OBJ_READ) c) @ ReadWrite_wire (rdma_request oid off n iov)) j c c' \<and>
    server_round fi eo so s = Inr s' \<and> transferring i ops s s' \<and>
    (\<forall>ops' m. set ops' = set ops \<longrightarrow> (\<exists>m'. push_all (mem_heap (w_mem (sv_world s'))) ops' m = Inr m' \<and> remote_holds m' iov data \<and>
       (\<forall>k x. \<not> (k = iov_key iov \<and> iov_addr iov \<le> x \<and> x < iov_addr iov + n) \<longrightarrow> m' k x = m k x)))"
proof -
  let ?req = "rdma_request oid off n iov"
  have rq: "rw_offset ?req = off" "rw_size ?req = n" "rw_objectId ?req = oid" "rw_iov ?req = iov" by (simp_all add: rdma_request_def)
  have lim: "off < W64" "n < W64" "81 \<le> fr_msgBufferSize X"
    using req(2) cl(2) by (simp_all add: IOC_POST_RECEIVE_WRITE_def sizeof_LibfabricMessageHeader_def IOC_STRUCT_MAX_def IOC_EAGER_MAX_WRITE_def)
  have h: "mh_msgType (fillProtocolHeader (msg_code t) c0) = msg_code t" for t and c0 :: "('h, 'f) connection"
    by (simp add: fillProtocolHeader_def del: msg_code.simps)
  obtain s' ops where S: "server_round fi eo so s = Inr s'" "transferring i ops s s'"
      "\<And>ops' m. set ops' = set ops \<Longrightarrow> \<exists>m'. push_all (mem_heap (w_mem (sv_world s'))) ops' m = Inr m' \<and>
         (\<forall>x < n. m' (iov_key iov) (iov_addr iov + x) = object_byte content (sv_world s) ob (off + x)) \<and>
         (\<forall>k x. \<not> (k = iov_key iov \<and> iov_addr iov \<le> x \<and> x < iov_addr iov + n) \<longrightarrow> m' k x = m k x)"
    by (rule rdma_read_round [OF inv up client_header_ok [OF cl(1)] h rdma_request_ok(1) [OF req(1) lim(1,2) reg(5)],
          unfolded rq, OF size req(2) reg(6) ob(1,3) buf, of eo]) (rule that)
  have "\<exists>m'. push_all (mem_heap (w_mem (sv_world s'))) ops' m = Inr m' \<and> remote_holds m' iov data \<and>
       (\<forall>k x. \<not> (k = iov_key iov \<and> iov_addr iov \<le> x \<and> x < iov_addr iov + n) \<longrightarrow> m' k x = m k x)" if "set ops' = set ops" for ops' m
    using S(3) [OF that, of m] unfolding remote_holds_def ob(2) by auto
  moreover have resp: "\<not> rs_msgHasData (status_response 0)" by (simp add: status_response_def)
  obtain c' v' where "obj_read fuel fc oid buffer n off c v = Inr (Some 0, c', v')" "\<forall>k xs. nc_foreign pd k = Some xs \<longrightarrow> w_blocks v' k = Some xs"
      "exchanged srv (MessageHeader_wire (fillProtocolHeader (msg_code IOC_LF_MSG_OBJ_READ) c) @ ReadWrite_wire ?req) j c c'"
    using obj_read_rdma [OF cl(1) down [unfolded ack_message_def] server_ack_ok [OF inv(1)] h status_response_ok(1) cl(3) reg(1-5) req(1) lim size resp]
    by (auto simp: status_response_def int32_ok_def simp del: msg_code.simps)
  ultimately show ?thesis using S(1,2) by blast
qed

section \<open>A client and a server\<close>

lemmas rdma_eval = getBuffers_def align_range_def sm_lower_bound_def loadGap_def isFullyOverlapped_def loadSegment_def w_allocate_def malloc_allocate_def
  register_if_def malloc_def sys_alloc_def Object_pread_def table_ops_def w_set_heap_def segmentMap_at_def ObjectSegment_make_def make_shared_def
  ObjectSegment_null_def shared_drop_def getSegmentDescr_def seg_memory_def size_t_of_def ssize_t_of_def Let_def W64_def add64_def sub64_def
  wit_server_world_def wit_world_def Object_init_def server_alignement_def registerSegment_def getMR_def LibfabricDomain_init_def wit_fabric_def
  rdma_ready_def registered_def domain_ok_def regions_def region_ok_def sm_ok_def

lemma wit_rdma_buffers:
  "\<exists>segs ob1 w1. getBuffers wit_fabric table_ops 100 32769 ACCESS_WRITE True True (Object_init True 0 (ObjectId 0 7) server_alignement) wit_server_world =
     Inr (True, segs, ob1, w1) \<and> (\<forall>d \<in> set segs. rdma_ready w1 d)"
  "\<exists>segs ob1 w1. getBuffers wit_fabric table_ops 5 32769 ACCESS_READ True False (Object_init True 0 (ObjectId 0 7) server_alignement) wit_server_world =
     Inr (True, segs, ob1, w1) \<and> (\<forall>d \<in> set segs. rdma_ready w1 d)"
  by (simp_all add: rdma_eval del: upt.simps upt_rec_numeral)

definition wit_data :: "byte list" where
  "wit_data = map of_nat [0..<32769]"

lemma wit_registered:
  "registerSegment wit_fabric (Ptr 2 0) 32769 True wr False (mem_domain (w_mem (wit_client_world wit_data))) =
     Inr (\<lparr>iov_addr = 4096, iov_key = 0\<rparr>, (mem_domain (w_mem (wit_client_world wit_data)))
       \<lparr>ld_segments := [(Ptr 2 32768, \<lparr>mr_ptr = Ptr 2 0, mr_size = 32769, mr_mr = 0\<rparr>)], ld_cnt := 1\<rparr>)"
  by (simp add: registerSegment_def getMR_def wit_client_world_def LibfabricDomain_init_def wit_fabric_def sm_lower_bound_def Let_def)

lemma wit_client_domain:
  "domain_ok (mem_domain (w_mem (wit_client_world xs)))" "region_fresh (Ptr 2 0) n (mem_domain (w_mem (wit_client_world xs)))"
  "ld_msgBuffers (mem_domain (w_mem (wit_client_world xs))) \<noteq> []" "Iov_ok \<lparr>iov_addr = 4096, iov_key = 0\<rparr>"
  "iov_addr \<lparr>iov_addr = 4096, iov_key = 0\<rparr> + 32769 < W64"
  by (simp_all add: wit_client_world_def LibfabricDomain_init_def domain_ok_def region_fresh_def Iov_ok_def W64_def)

text \<open>The requests of the client in the server, and its answer.\<close>

abbreviation wit_rdma_request :: "size_t \<Rightarrow> LibfabricObjReadWriteInfos" where
  "wit_rdma_request off \<equiv> rdma_request \<lparr>loi_low = 7, loi_high = 0\<rparr> off 32769 \<lparr>iov_addr = 4096, iov_key = 0\<rparr>"

lemma wit_rdma_served:
  assumes h: "h = \<lparr>mh_msgType = msg_code (request_type q), mh_lfClientId = 3, mh_tcpClientId = 0, mh_tcpClientKey = 0\<rparr>"
    and q: "q = ReadRequest (wit_rdma_request off) \<or> q = WriteRequest (wit_rdma_request off)" "off \<le> 100"
    and s: "s = wit_server (MessageHeader_wire h @ ReadWrite_wire (wit_rdma_request off))"
  shows "server_ok s" "serves h (ReadWrite_wire (wit_rdma_request off)) 3 5 s"
    "length (ack_message IOC_LF_MSG_OBJ_READ_WRITE_ACK (status_response 0) s) \<le> IOC_POST_RECEIVE_WRITE"
    "the_object (oid_of \<lparr>loi_low = 7, loi_high = 0\<rparr>) (ap_container (sv_app s)) = Object_init True 0 (ObjectId 0 7) server_alignement"
    "sv_world s = wit_server_world" "off + 32769 + server_alignement < W64"
proof -
  show lim: "off + 32769 + server_alignement < W64" using q(2) by (simp add: server_alignement_def W64_def)
  have ok: "ReadWrite_ok (wit_rdma_request off)" "length (ReadWrite_wire (wit_rdma_request off)) = 49"
    using rdma_request_ok [OF wit_small(6), of off 32769 "\<lparr>iov_addr = 4096, iov_key = 0\<rparr>"] q(2) by (simp_all add: W64_def Iov_ok_def)
  have "request_ok server_alignement q" "request_wire q = ReadWrite_wire (wit_rdma_request off)" using q(1) ok(1) lim by (auto simp: rdma_request_def)
  then show "server_ok s" "serves h (ReadWrite_wire (wit_rdma_request off)) 3 5 s" using wit_request_served [OF h, of] ok(2) by (simp_all add: s)
  show "length (ack_message IOC_LF_MSG_OBJ_READ_WRITE_ACK (status_response 0) s) \<le> IOC_POST_RECEIVE_WRITE"
    using status_response_ok(2) [of 0] wit_small(2) by (simp add: s wit_ack header_length)
qed (simp_all add: s wit_object_new)

theorem rdma_write_reaches_object_witness:
  "\<exists>c c' v' s s' ob' ops w2. obj_write 2 wit_fabric \<lparr>loi_low = 7, loi_high = 0\<rparr> (Ptr 2 0) 32769 100 c (wit_client_world wit_data) = Inr (Some 0, c', v') \<and>
     server_round wit_fabric wit_endpoint table_ops s = Inr s' \<and> transferring 3 ops s s' \<and>
     fetch_all (\<lambda>k x. of_nat (x - 4096)) (rev ops) (sv_world s') = Inr w2 \<and>
     sm_find (ct_objects (ap_container (sv_app s'))) (ObjectId 0 7) = Some (Some ob') \<and>
     map (object_byte (\<lambda>t. t) w2 ob') [100..<32869] = wit_data"
proof -
  let ?oid = "\<lparr>loi_low = 7, loi_high = 0\<rparr>" and ?h = "\<lparr>mh_msgType = msg_code IOC_LF_MSG_OBJ_WRITE, mh_lfClientId = 3, mh_tcpClientId = 0, mh_tcpClientKey = 0\<rparr>"
  define s where "s = wit_server (MessageHeader_wire ?h @ ReadWrite_wire (wit_rdma_request 100))"
  let ?ack = "ack_message IOC_LF_MSG_OBJ_READ_WRITE_ACK (status_response 0) s"
  have q: "?h = \<lparr>mh_msgType = msg_code (request_type (WriteRequest (wit_rdma_request 100))), mh_lfClientId = 3, mh_tcpClientId = 0, mh_tcpClientKey = 0\<rparr>" "(100 :: nat) \<le> 100"
    by simp_all
  note S = wit_rdma_served [OF q(1) _ q(2) s_def, OF disjI2 [OF refl]]
  note C = wit_client_ok [OF S(3)]
  have rd: "read_mem (Ptr 2 0) 32769 (mem_heap (w_mem (wit_client_world wit_data))) = Inr wit_data"
    by (simp add: wit_client_world_def wit_data_def slice_def del: upt_rec_numeral)
  have size: "IOC_POST_RECEIVE_WRITE \<le> fr_msgBufferSize (wit_client_frame wit_data)" "polls (wit_client ?ack) \<le> 2" "IOC_EAGER_MAX_WRITE < 32769"
    using C(4) by (simp_all add: wit_client_frame_def IOC_EAGER_MAX_WRITE_def)
  have up: "serves (fillProtocolHeader (msg_code IOC_LF_MSG_OBJ_WRITE) (wit_client ?ack)) (ReadWrite_wire (wit_rdma_request 100)) 3 5 s" unfolding C(3) using S(2) by simp
  obtain segs ob1 w1 where buf: "getBuffers wit_fabric table_ops 100 32769 ACCESS_WRITE True True (the_object (oid_of ?oid) (ap_container (sv_app s))) (sv_world s) =
      Inr (True, segs, ob1, w1)" "\<forall>d \<in> set segs. rdma_ready w1 d"
    using wit_rdma_buffers(1) unfolding S(4,5) by blast
  have k: "oid_of ?oid = ObjectId 0 7" by (simp add: oid_of_def)
  have m: "remote_holds (\<lambda>k x. of_nat (x - 4096)) \<lparr>iov_addr = 4096, iov_key = 0\<rparr> wit_data" by (simp add: remote_holds_def wit_data_def del: upt_rec_numeral)
  from rdma_write_reaches_object [OF S(1) table_ok C(1) size(1,2) rd size(3) wit_client_domain(1-3) wit_registered wit_client_domain(4,5) wit_small(6) S(6) up C(2) buf, of wit_endpoint]
  obtain c' v' s' ob' ops where R: "obj_write 2 wit_fabric ?oid (Ptr 2 0) 32769 100 (wit_client ?ack) (wit_client_world wit_data) = Inr (Some 0, c', v')"
      "server_round wit_fabric wit_endpoint table_ops s = Inr s'" "transferring 3 ops s s'" "sm_find (ct_objects (ap_container (sv_app s'))) (ObjectId 0 7) = Some (Some ob')"
      "\<forall>ops' m. set ops' = set ops \<and> remote_holds m \<lparr>iov_addr = 4096, iov_key = 0\<rparr> wit_data \<longrightarrow> (\<exists>w2. fetch_all m ops' (sv_world s') = Inr w2 \<and>
         others_kept (\<lambda>t. t) (ObjectId 0 7) (ap_container (sv_app s)) (sv_world s) (ap_container (sv_app s')) w2 \<and>
         map (object_byte (\<lambda>t. t) w2 ob') [100..<100 + 32769] = wit_data)"
    unfolding k by (elim exE conjE) (rule that)
  from R(5) [rule_format, OF conjI [OF set_rev m]]
  have "\<exists>w2. fetch_all (\<lambda>k x. of_nat (x - 4096)) (rev ops) (sv_world s') = Inr w2 \<and> map (object_byte (\<lambda>t. t) w2 ob') [100..<100 + 32769] = wit_data"
    by blast
  moreover have "(100 + 32769 :: nat) = 32869" by simp
  ultimately show ?thesis using R(1-4) by metis
qed

theorem rdma_read_returns_object_witness:
  "\<exists>c c' v' s s' ops m'. obj_read 2 wit_fabric \<lparr>loi_low = 7, loi_high = 0\<rparr> (Ptr 2 0) 32769 5 c (wit_client_world wit_data) = Inr (Some 0, c', v') \<and>
     server_round wit_fabric wit_endpoint table_ops s = Inr s' \<and> transferring 3 ops s s' \<and>
     push_all (mem_heap (w_mem (sv_world s'))) (rev ops) (\<lambda>k x. 0) = Inr m' \<and> m' 0 4096 = 5 \<and> m' 0 4097 = 6 \<and> m' 0 4095 = 0"
proof -
  let ?oid = "\<lparr>loi_low = 7, loi_high = 0\<rparr>" and ?h = "\<lparr>mh_msgType = msg_code IOC_LF_MSG_OBJ_READ, mh_lfClientId = 3, mh_tcpClientId = 0, mh_tcpClientKey = 0\<rparr>"
  let ?ob = "Object_init True 0 (ObjectId 0 7) server_alignement" and ?iov = "\<lparr>iov_addr = 4096, iov_key = 0\<rparr>"
  define s where "s = wit_server (MessageHeader_wire ?h @ ReadWrite_wire (wit_rdma_request 5))"
  let ?ack = "ack_message IOC_LF_MSG_OBJ_READ_WRITE_ACK (status_response 0) s"
  have q: "?h = \<lparr>mh_msgType = msg_code (request_type (ReadRequest (wit_rdma_request 5))), mh_lfClientId = 3, mh_tcpClientId = 0, mh_tcpClientKey = 0\<rparr>" "(5 :: nat) \<le> 100"
    by simp_all
  note S = wit_rdma_served [OF q(1) _ q(2) s_def, OF disjI1 [OF refl]]
  note C = wit_client_ok [OF S(3)]
  have size: "IOC_POST_RECEIVE_WRITE \<le> fr_msgBufferSize (wit_client_frame wit_data)" "polls (wit_client ?ack) \<le> 2" "IOC_EAGER_MAX_READ < 32769"
    using C(4) by (simp_all add: wit_client_frame_def IOC_EAGER_MAX_READ_def)
  have up: "serves (fillProtocolHeader (msg_code IOC_LF_MSG_OBJ_READ) (wit_client ?ack)) (ReadWrite_wire (wit_rdma_request 5)) 3 5 s" unfolding C(3) using S(2) by simp
  define data where "data = map (object_byte (\<lambda>t. t) (sv_world s) ?ob) [5..<5 + 32769]"
  have byte: "object_byte (\<lambda>t. t) (sv_world s) ?ob x = of_nat x" for x
    by (simp add: S(5) object_byte_def view_byte_def Object_init_def sm_lower_bound_def wit_server_world_def wit_world_def)
  have st: "\<forall>x. 5 \<le> x \<and> x < 5 + 32769 \<longrightarrow> view_byte (sv_world s) (obj_segmentMap ?ob) x \<noteq> None \<or> obj_storageBackend ?ob" by (simp add: Object_init_def)
  obtain segs ob1 w1 where buf: "getBuffers wit_fabric table_ops 5 32769 ACCESS_READ True False ?ob (sv_world s) = Inr (True, segs, ob1, w1)" "\<forall>d \<in> set segs. rdma_ready w1 d"
    using wit_rdma_buffers(2) unfolding S(5) by blast
  from rdma_read_returns_object [OF S(1) table_ok C(1) size wit_client_domain(1-3) wit_registered wit_client_domain(4,5) wit_small(6) S(6) S(4) [symmetric] data_def st up C(2) buf, of wit_endpoint]
  obtain c' v' s' ops where R: "obj_read 2 wit_fabric ?oid (Ptr 2 0) 32769 5 (wit_client ?ack) (wit_client_world wit_data) = Inr (Some 0, c', v')"
      "server_round wit_fabric wit_endpoint table_ops s = Inr s'" "transferring 3 ops s s'"
      "\<forall>ops' m. set ops' = set ops \<longrightarrow> (\<exists>m'. push_all (mem_heap (w_mem (sv_world s'))) ops' m = Inr m' \<and> remote_holds m' ?iov data \<and>
         (\<forall>k x. \<not> (k = iov_key ?iov \<and> iov_addr ?iov \<le> x \<and> x < iov_addr ?iov + 32769) \<longrightarrow> m' k x = m k x))"
    by (elim exE conjE) (rule that)
  obtain m' where m': "push_all (mem_heap (w_mem (sv_world s'))) (rev ops) (\<lambda>k x. 0) = Inr m'" "remote_holds m' ?iov data"
      "\<forall>k x. \<not> (k = iov_key ?iov \<and> iov_addr ?iov \<le> x \<and> x < iov_addr ?iov + 32769) \<longrightarrow> m' k x = 0"
    using R(4) [rule_format, of "rev ops" "\<lambda>k x. 0"] by auto
  have "length data = 32769" "data ! 0 = 5" "data ! 1 = 6" using byte by (simp_all add: data_def del: upt_rec_numeral)
  then have "m' 0 4096 = 5" "m' 0 4097 = 6"
    using m'(2) [unfolded remote_holds_def, rule_format, of 0] m'(2) [unfolded remote_holds_def, rule_format, of 1] by simp_all
  moreover have "m' 0 4095 = 0" using m'(3) by simp
  ultimately show ?thesis using R(1-3) m'(1) by metis
qed

end
