(* ===== verification/Server_States.thy ===== *)
theory Server_States
  imports Server_Properties Client_Rdma
begin

text \<open>
  What the running server keeps of its objects and of its transfers, in every state that it reaches, and a run
  in which there are both: a client connects, its first message is answered, it asks for a write above the eager size, and the
  server has posted the RDMA operations of the transfer.
\<close>

section \<open>A server with a transfer in progress\<close>

text \<open>The world after the handshake: one message buffer, the block 1, is registered and back in the pool as \<open>q\<close>.\<close>

definition wit_running_world :: "ptr \<Rightarrow> byte list \<Rightarrow> table world" where
  "wit_running_world q xs = wit_world\<lparr>w_backends := [0 \<mapsto> MemoryBackendCache (MemoryBackendMalloc True) [] []],
     w_mem := \<lparr>mem_heap = \<lparr>hp_blocks = [1 \<mapsto> xs], hp_next = 2, hp_junk = (\<lambda>_ _. 0), hp_fail = (\<lambda>_. False)\<rparr>,
       mem_domain = (LibfabricDomain_init False)\<lparr>ld_msgBufferSize := IOC_POST_RECEIVE_READ, ld_msgBuffers := [q],
         ld_segments := [(Ptr 1 (IOC_POST_RECEIVE_READ - 1), \<lparr>mr_ptr = Ptr 1 0, mr_size = IOC_POST_RECEIVE_READ, mr_mr = 0\<rparr>)], ld_cnt := 1\<rparr>\<rparr>\<rparr>"

lemma wit_written_world:
  assumes "message_written wit_fabric (wit_world\<lparr>w_mem := wit_mem\<lparr>mem_domain := (LibfabricDomain_init False)\<lparr>ld_msgBufferSize := IOC_POST_RECEIVE_READ\<rparr>\<rparr>,
       w_backends := [0 \<mapsto> MemoryBackendCache (MemoryBackendMalloc True) [] []]\<rparr>) w"
  shows "\<exists>xs. w_set_domain ((mem_domain (w_mem w))\<lparr>ld_msgBuffers := ld_msgBuffers (mem_domain (w_mem w)) @ [q]\<rparr>) w = wit_running_world q xs"
proof -
  let ?n = IOC_POST_RECEIVE_READ
  have n: "0 < ?n" using post_receive_read(2) by simp
  from assms obtain bytes h' where
    "write_mem (Ptr 1 0) bytes \<lparr>hp_blocks = [1 \<mapsto> map (\<lambda>_. 0) [0..<?n]], hp_next = 2, hp_junk = (\<lambda>_ _. 0), hp_fail = (\<lambda>_. False)\<rparr> = Inr h'"
    "w = wit_world\<lparr>w_backends := [0 \<mapsto> MemoryBackendCache (MemoryBackendMalloc True) [] []],
       w_mem := \<lparr>mem_heap = h', mem_domain = (LibfabricDomain_init False)\<lparr>ld_msgBufferSize := ?n, ld_msgBuffers := [],
         ld_segments := [(Ptr 1 (?n - 1), \<lparr>mr_ptr = Ptr 1 0, mr_size = ?n, mr_mr = 0\<rparr>)], ld_cnt := 1\<rparr>\<rparr>\<rparr>"
    using n by (auto simp: message_written_def getMsgBuffer_def wit_world_def wit_mem_def malloc_def sys_alloc_def registerSegment_def getMR_def
        sm_lower_bound_def wit_fabric_def LibfabricDomain_init_def Let_def numeral_2_eq_2 simp del: upt.simps upt_rec_numeral write_mem.simps)
  then show ?thesis
    by (auto simp: wit_running_world_def w_set_domain_def wit_world_def LibfabricDomain_init_def simp del: upt.simps upt_rec_numeral split: if_splits)
qed

text \<open>Its segment for a write of 32769 bytes from offset 100 on can be transferred.\<close>

lemma wit_running_buffers:
  "\<exists>segs ob1 w1. getBuffers wit_fabric table_ops 100 32769 ACCESS_WRITE True True (Object_init True 0 (ObjectId 0 7) server_alignement) (wit_running_world q xs) =
     Inr (True, segs, ob1, w1) \<and> (\<forall>d \<in> set segs. rdma_ready w1 d)"
  using post_receive_read(2)
  by (simp add: wit_running_world_def freeList_of_def rdma_eval del: upt.simps upt_rec_numeral)

lemma wit_idle:
  "\<exists>s q xs. server_reachable wit_fabric wit_endpoint table_ops s \<and> completions (sv_connection s) = [] \<and> fb_cq (lc_fabric (sv_connection s)) = [] \<and>
     fb_codes (lc_fabric (sv_connection s)) = [] \<and> fb_ops (lc_fabric (sv_connection s)) = [] \<and> 4 \<in> set (fb_recv (lc_fabric (sv_connection s))) \<and>
     \<not> lc_disableReceive (sv_connection s) \<and> \<not> lc_checkClientAuth (sv_connection s) \<and> lc_remoteLiAddr (sv_connection s) = [(0, 5)] \<and>
     ap_container (sv_app s) = Container_init True 0 server_alignement \<and> sv_world s = wit_running_world q xs"
proof -
  let ?w0 = "wit_world\<lparr>w_mem := wit_mem\<lparr>mem_domain := (LibfabricDomain_init False)\<lparr>ld_msgBufferSize := IOC_POST_RECEIVE_READ\<rparr>\<rparr>,
       w_backends := [0 \<mapsto> MemoryBackendCache (MemoryBackendMalloc True) [] []]\<rparr>"
  obtain s buf bytes act where s: "server_reachable wit_fabric wit_endpoint table_ops s" "fb_cq (lc_fabric (sv_connection s)) = []"
      "completions (sv_connection s) = []" "fb_ops (lc_fabric (sv_connection s)) = [FiSend 5 buf bytes (Some act)]"
      "pa_body act = LibfabricPostActionNop LF_WAIT_LOOP_KEEP_WAITING" "pa_domainBuffer act \<noteq> NULL"
      "fb_codes (lc_fabric (sv_connection s)) = []" "\<not> lc_disableReceive (sv_connection s)" "\<not> lc_checkClientAuth (sv_connection s)"
      "lc_remoteLiAddr (sv_connection s) = [(0, 5)]" "4 \<in> set (fb_recv (lc_fabric (sv_connection s)))"
      "ap_container (sv_app s) = Container_init False 0 server_alignement" "message_written wit_fabric ?w0 (sv_world s)"
    using wit_joined by blast
  let ?s1 = "s\<lparr>sv_connection := complete 0 (sv_connection s)\<rparr>"
  have r1: "server_reachable wit_fabric wit_endpoint table_ops ?s1" by (rule reach_step [OF s(1) step_complete]) (use s(4) in simp)
  have c1: "completions (sv_connection ?s1) = CqDone (Some act) # []" "fb_cq (lc_fabric (sv_connection ?s1)) = map CqEntry [CqDone (Some act)]"
      "fb_ops (lc_fabric (sv_connection ?s1)) = []" "lc_cqEntries (sv_connection ?s1) = []"
    using s(2-4) by (simp_all add: complete_def completions_def)
  obtain c2 where R: "server_round wit_fabric wit_endpoint table_ops ?s1 = Inr (?s1\<lparr>sv_connection := c2\<lparr>lc_pendingAction := lc_pendingAction (sv_connection ?s1) - 1\<rparr>,
        sv_world := w_set_domain ((mem_domain (w_mem (sv_world ?s1)))\<lparr>ld_msgBuffers := ld_msgBuffers (mem_domain (w_mem (sv_world ?s1))) @ [pa_domainBuffer act]\<rparr>)
          (sv_world ?s1)\<rparr>)" (is "_ = Inr ?s2")
      "same_posted (sv_connection ?s1) c2" "completions c2 = []" "fb_codes (lc_fabric c2) = fb_codes (lc_fabric (sv_connection ?s1))"
      "lc_cqEntries (sv_connection ?s1) = [] \<longrightarrow> fb_cq (lc_fabric c2) = tl (fb_cq (lc_fabric (sv_connection ?s1)))"
    by (rule done_round [OF reachable_ok [OF r1 table_ok] c1(1,2) s(5,6), of wit_fabric wit_endpoint table_ops])
  have r2: "server_reachable wit_fabric wit_endpoint table_ops ?s2" by (rule reach_step [OF r1 step_round [OF R(1)]])
  obtain xs where w: "sv_world ?s2 = wit_running_world (pa_domainBuffer act) xs" using wit_written_world [OF s(13), of "pa_domainBuffer act"] by auto
  let ?s3 = "?s2\<lparr>sv_app := (sv_app ?s2)\<lparr>ap_container := Container_init True 0 server_alignement\<rparr>\<rparr>"
  have "Server_setStorageBackend True ?s2 = Inr ?s3" using s(12) by (simp add: Server_setStorageBackend_def Container_setStorageBackend_def Container_init_def)
  then have "server_reachable wit_fabric wit_endpoint table_ops ?s3" by (rule reach_step [OF r2 step_storage])
  moreover have S: "same_settings (sv_connection ?s1) c2" "fb_ops (lc_fabric c2) = []" "fb_recv (lc_fabric c2) = fb_recv (lc_fabric (sv_connection s))"
    using R(2) c1(3) by (simp_all add: same_posted_def complete_def Let_def)
  moreover have "fb_cq (lc_fabric c2) = []" "fb_codes (lc_fabric c2) = []" using R(4,5) c1(2,4) s(7) by (simp_all add: complete_def Let_def)
  ultimately show ?thesis using R(3) s(8-11) w same_settings_sel(4,10,12) [OF S(1)]
    by (intro exI [of _ ?s3] exI [of _ "pa_domainBuffer act"] exI [of _ xs]) (simp add: complete_def completions_def Let_def)
qed

text \<open>The request arrives in receive buffer 4, and one round later the operations of its transfer are posted.\<close>

lemma wit_transferring:
  "\<exists>s op k ob. server_reachable wit_fabric wit_endpoint table_ops s \<and> op \<in> set (fb_ops (lc_fabric (sv_connection s))) \<and> transfer_of (op_context op) = Some k \<and>
     (ObjectId 0 7, Some ob) \<in> set (ct_objects (ap_container (sv_app s))) \<and> obj_segmentMap ob \<noteq> []"
proof -
  let ?h = "\<lparr>mh_msgType = msg_code IOC_LF_MSG_OBJ_WRITE, mh_lfClientId = 0, mh_tcpClientId = 0, mh_tcpClientKey = 0\<rparr>" and ?req = "wit_rdma_request 100"
  let ?msg = "MessageHeader_wire ?h @ ReadWrite_wire ?req"
  obtain s q xs where s: "server_reachable wit_fabric wit_endpoint table_ops s" "completions (sv_connection s) = []" "fb_cq (lc_fabric (sv_connection s)) = []"
      "fb_codes (lc_fabric (sv_connection s)) = []" "fb_ops (lc_fabric (sv_connection s)) = []" "4 \<in> set (fb_recv (lc_fabric (sv_connection s)))"
      "\<not> lc_disableReceive (sv_connection s)" "\<not> lc_checkClientAuth (sv_connection s)" "lc_remoteLiAddr (sv_connection s) = [(0, 5)]"
      "ap_container (sv_app s) = Container_init True 0 server_alignement" "sv_world s = wit_running_world q xs"
    using wit_idle by blast
  let ?c = "sv_connection s" and ?s1 = "s\<lparr>sv_connection := deliver 4 ?msg (sv_connection s)\<rparr>"
  have rcv: "4 < length (lc_recvBuffers ?c)" "lc_recvBuffersSize ?c = server_receiveSize"
    using reachable_ok [OF s(1) table_ok] s(6) by (auto simp: server_ok_def state_ok_def receives_ok_def)
  have lim: "100 + 32769 + server_alignement < W64" by (simp add: server_alignement_def W64_def)
  have rq: "ReadWrite_ok ?req" "length (ReadWrite_wire ?req) = 49"
    using rdma_request_ok [OF wit_small(6), of 100 32769 "\<lparr>iov_addr = 4096, iov_key = 0\<rparr>"] by (simp_all add: W64_def Iov_ok_def)
  have hd: "MessageHeader_ok ?h" using msg_code_small [of IOC_LF_MSG_OBJ_WRITE] by (simp add: MessageHeader_ok_def W64_def del: msg_code.simps)
  have "request_ok server_alignement (WriteRequest ?req)" using rq(1) lim by (simp add: rdma_request_def)
  then have "client_message server_alignement (?msg @ r)" for r
    unfolding client_message_def using hd
    by (intro exI [of _ ?h] exI [of _ "ReadWrite_wire ?req"] exI [of _ r]) (auto intro!: exI [of _ "WriteRequest ?req"] simp del: msg_code.simps)
  moreover have "length ?msg \<le> lc_recvBuffersSize ?c" using rq(2) rcv(2) wit_small(1) by (simp add: header_length)
  ultimately have "server_step wit_fabric wit_endpoint table_ops s ?s1" using s(6) by (intro step_message) simp_all
  then have r1: "server_reachable wit_fabric wit_endpoint table_ops ?s1" by (rule reach_step [OF s(1)])
  have srv: "serves ?h (ReadWrite_wire ?req) 4 5 ?s1"
    unfolding serves_def
    by (intro conjI exI [of _ "[]"] exI [of _ "[CqRecv 4]"] exI [of _ "drop (length ?msg) (lc_recvBuffers ?c ! 4)"])
      (use s(2-4,7-9,11) rcv(1) in \<open>simp_all add: deliver_def completions_def authentic_def int_of_size_def wit_running_world_def del: msg_code.simps\<close>)
  have ob: "the_object (oid_of (rw_objectId ?req)) (ap_container (sv_app ?s1)) = Object_init True 0 (ObjectId 0 7) server_alignement"
    using s(10) by (simp add: Container_init_def the_object_def oid_of_def rdma_request_def)
  have w: "sv_world ?s1 = wit_running_world q xs" using s(11) by simp
  obtain segs ob1 w1 where buf: "getBuffers wit_fabric table_ops 100 32769 ACCESS_WRITE True True (Object_init True 0 (ObjectId 0 7) server_alignement) (sv_world ?s1) =
      Inr (True, segs, ob1, w1)" "\<forall>d \<in> set segs. rdma_ready w1 d"
    using wit_running_buffers [of q xs] unfolding w by blast
  have rqs: "rw_offset ?req = 100" "rw_size ?req = 32769" "\<not> rw_msgHasData ?req" "0 < rw_size ?req" "iov_addr (rw_iov ?req) + rw_size ?req < W64"
    "oid_of (rw_objectId ?req) = ObjectId 0 7"
    by (simp_all add: rdma_request_def W64_def oid_of_def)
  have ty: "mh_msgType ?h = msg_code IOC_LF_MSG_OBJ_WRITE" by (simp del: msg_code.simps)
  have lim': "rw_offset ?req + rw_size ?req + server_alignement < W64" using lim rqs(1,2) by simp
  have buf': "getBuffers wit_fabric table_ops (rw_offset ?req) (rw_size ?req) ACCESS_WRITE True True
      (the_object (oid_of (rw_objectId ?req)) (ap_container (sv_app ?s1))) (sv_world ?s1) = Inr (True, segs, ob1, w1)"
    unfolding ob rqs(1,2) by (rule buf(1))
  obtain s' ob' ops where S: "server_round wit_fabric wit_endpoint table_ops ?s1 = Inr s'" "transferring 4 ops ?s1 s'"
      "sm_find (ct_objects (ap_container (sv_app s'))) (ObjectId 0 7) = Some (Some ob')" "ops \<noteq> []"
      "\<forall>op \<in> set ops. transfer_of (op_context op) = Some (ap_nextOps (sv_app ?s1))" "obj_segmentMap ob' \<noteq> []"
    by (rule rdma_write_round [OF reachable_ok [OF r1 table_ok] table_ok srv hd ty rq(1) rqs(3,4) lim' rqs(5) buf' buf(2), where eo = wit_endpoint, unfolded rqs(6)])
      (rule that; assumption)
  obtain op where "op \<in> set ops" using S(4) by (meson hd_in_set)
  then show ?thesis using reach_step [OF r1 step_round [OF S(1)]] S(2,3,5,6) map_of_SomeD [of "ct_objects (ap_container (sv_app s'))"]
    unfolding transferring_def by (metis UnCI set_append)
qed

section \<open>What holds in every reachable state\<close>

text \<open>C1: the cached segments of an object never overlap, each has its memory alive, and the
  reference count of a memory is the number of segments, over all objects, that share it.  It holds in every state between
  two steps of \<open>server_step\<close>: the steps of the TCP thread (the end of a client) and of the main thread fall between the turns
  of the polling loop.  The code does not enforce that, as the map of the objects has no lock; what a client that ends during a
  full copy meets there is \<open>disconnect_during_full_cow\<close> of theory \<open>Container\<close>.\<close>

theorem objects_consistent:
  fixes so :: "'s storage_ops" and content :: "'s storage_content"
  assumes "server_reachable fi eo so s" "storage_ok so content"
  shows "(\<forall>k p. (k, p) \<in> set (ct_objects (ap_container (sv_app s))) \<longrightarrow> (\<exists>ob. p = Some ob \<and> obj_objectId ob = k \<and>
       (\<forall>q seg. (q, seg) \<in> set (obj_segmentMap ob) \<longrightarrow>
          (\<exists>xs. seg_bytes (sv_world s) seg = Some xs \<and> xs \<noteq> [] \<and> Suc q = os_offset seg + length xs)) \<and>
       (\<forall>q seg q' seg'. (q, seg) \<in> set (obj_segmentMap ob) \<longrightarrow> (q', seg') \<in> set (obj_segmentMap ob) \<longrightarrow> q < q' \<longrightarrow> q < os_offset seg'))) \<and>
     (\<forall>i osm n. w_shared (sv_world s) i = Some (osm, n) \<longrightarrow> 0 < n \<and> n = ct_refs (ct_objects (ap_container (sv_app s))) i)"
proof -
  obtain X where X: "container_ok X 0 (sv_world s) (ap_container (sv_app s))"
    using reachable_ok [OF assms] by (auto simp: server_ok_def state_ok_def kept_def)
  note C = container_okD [OF X]
  have "\<exists>ob. p = Some ob \<and> obj_objectId ob = k \<and>
       (\<forall>q seg. (q, seg) \<in> set (obj_segmentMap ob) \<longrightarrow>
          (\<exists>xs. seg_bytes (sv_world s) seg = Some xs \<and> xs \<noteq> [] \<and> Suc q = os_offset seg + length xs)) \<and>
       (\<forall>q seg q' seg'. (q, seg) \<in> set (obj_segmentMap ob) \<longrightarrow> (q', seg') \<in> set (obj_segmentMap ob) \<longrightarrow> q < q' \<longrightarrow> q < os_offset seg')"
    if kp: "(k, p) \<in> set (ct_objects (ap_container (sv_app s)))" for k p
  proof -
    obtain ob where ob: "p = Some ob" "obj_objectId ob = k" "map_ok (sv_world s) (obj_segmentMap ob)" using C(4) [OF kp] by (auto simp: member_ok_def)
    have "\<exists>xs. seg_bytes (sv_world s) seg = Some xs \<and> xs \<noteq> [] \<and> Suc q = os_offset seg + length xs" if "(q, seg) \<in> set (obj_segmentMap ob)" for q seg
      using ob(3) that by (fastforce simp: map_ok_def seg_ok_def)
    moreover have "\<forall>q seg q' seg'. (q, seg) \<in> set (obj_segmentMap ob) \<longrightarrow> (q', seg') \<in> set (obj_segmentMap ob) \<longrightarrow> q < q' \<longrightarrow> q < os_offset seg'"
      using ob(3) unfolding map_ok_def by blast
    ultimately show ?thesis using ob(1,2) by blast
  qed
  then show ?thesis using world_okD(3) [OF C(3)] by blast
qed

theorem objects_consistent_witness:
  "\<exists>(s :: table server) ob q seg xs i osm n. server_reachable wit_fabric wit_endpoint table_ops s \<and>
     (ObjectId 0 7, Some ob) \<in> set (ct_objects (ap_container (sv_app s))) \<and> (q, seg) \<in> set (obj_segmentMap ob) \<and>
     seg_bytes (sv_world s) seg = Some xs \<and> xs \<noteq> [] \<and> os_memory seg = Some i \<and> w_shared (sv_world s) i = Some (osm, n) \<and>
     0 < n \<and> n = ct_refs (ct_objects (ap_container (sv_app s))) i"
proof -
  obtain s ob where s: "server_reachable wit_fabric wit_endpoint table_ops s" "(ObjectId 0 7, Some ob) \<in> set (ct_objects (ap_container (sv_app s)))"
      "obj_segmentMap ob \<noteq> []"
    using wit_transferring by blast
  obtain q seg where seg: "(q, seg) \<in> set (obj_segmentMap ob)" using s(3) by (metis hd_in_set prod.exhaust)
  note C = objects_consistent [OF s(1) table_ok]
  obtain xs where xs: "seg_bytes (sv_world s) seg = Some xs" "xs \<noteq> []" using C s(2) seg by blast
  then obtain i osm n where i: "os_memory seg = Some i" "w_shared (sv_world s) i = Some (osm, n)"
    by (auto simp: seg_bytes_def shared_bytes_def split: option.splits)
  show ?thesis using C s(1,2) seg xs i by blast
qed

text \<open>C11: the counter of an RDMA transfer is the number of its operations that are posted or
  completed but not handled, so that a completion always finds its counter alive.\<close>

theorem transfer_counters_exact:
  fixes so :: "'s storage_ops" and content :: "'s storage_content"
  assumes "server_reachable fi eo so s" "storage_ok so content"
  shows "(ap_ops (sv_app s) k = Some n \<longrightarrow> n = int (transfer_count [] (sv_connection s) k)) \<and>
    (ctx \<in> set (contexts (sv_connection s)) \<longrightarrow> transfer_of ctx = Some k \<longrightarrow> (\<exists>n > 0. ap_ops (sv_app s) k = Some n))"
proof -
  let ?c = "sv_connection s"
  have t: "(case ap_ops (sv_app s) k of None \<Rightarrow> 0 | Some n \<Rightarrow> n) = int (transfer_count [] ?c k)"
    using reachable_ok [OF assms] by (simp add: server_ok_def state_ok_def transfers_ok_def)
  have "0 < transfer_count [] ?c k" if "ctx \<in> set (contexts ?c)" "transfer_of ctx = Some k"
  proof -
    have "k \<in> set (List.map_filter transfer_of (contexts ?c))" using that by (force simp: List.map_filter_def)
    then show ?thesis by (metis append_Nil count_list_0_iff gr0I transfer_count_def)
  qed
  then show ?thesis using t by (cases "ap_ops (sv_app s) k") auto
qed

theorem transfer_counters_exact_witness:
  "\<exists>(s :: table server) op k n. server_reachable wit_fabric wit_endpoint table_ops s \<and> op \<in> set (fb_ops (lc_fabric (sv_connection s))) \<and>
     transfer_of (op_context op) = Some k \<and> ap_ops (sv_app s) k = Some n \<and> 0 < n \<and> n = int (transfer_count [] (sv_connection s) k)"
proof -
  obtain s op k where s: "server_reachable wit_fabric wit_endpoint table_ops s" "op \<in> set (fb_ops (lc_fabric (sv_connection s)))"
      "transfer_of (op_context op) = Some k"
    using wit_transferring by blast
  have "op_context op \<in> set (contexts (sv_connection s))" using s(2) by (simp add: contexts_def)
  then show ?thesis using transfer_counters_exact [OF s(1) table_ok, of k] s by blast
qed

end
