(* ===== verification/Client_Pool.thy ===== *)
theory Client_Pool
  imports Client Tcp
begin

text \<open>
  The client library (src/client/ioc-client.cpp): a pool of at most 8 connections that the threads of
  the application take for one request each.  The semaphore and the mutex are modelled by the steps
  that they make atomic; a call that cannot go on is \<open>None\<close>.
\<close>

section \<open>The network\<close>

text \<open>
  What the network does for a connection during a call: messages that are delivered into posted
  receive buffers, the completions to come and the results of the calls to come.
\<close>

record arrival =
  ar_messages :: "(nat \<times> byte list) list"
  ar_cq :: "unit cq_read list"
  ar_codes :: "int list"

definition arrive :: "arrival \<Rightarrow> client_connection \<Rightarrow> client_connection" where
  "arrive ar c = c\<lparr>lc_recvBuffers := foldl (\<lambda>bs (i, m). bs[i := m @ drop (length m) (bs ! i)]) (lc_recvBuffers c) (ar_messages ar),
     lc_fabric := (lc_fabric c)\<lparr>fb_recv := filter (\<lambda>i. i \<notin> fst ` set (ar_messages ar)) (fb_recv (lc_fabric c)),
       fb_cq := fb_cq (lc_fabric c) @ ar_cq ar, fb_codes := ar_codes ar\<rparr>\<rparr>"

section \<open>The pool\<close>

definition IOC_CLIENT_MAX_CONN :: nat where "IOC_CLIENT_MAX_CONN = 8"

record ioc_client =
  ic_clientConnInfo :: TcpConnInfo
  ic_connections_semaphore :: nat
  ic_connections :: "client_connection list"
  ic_passive_wait :: bool

text \<open>
  The domain of the client is that of the world; the connection to the server is open when the
  handshake returns.  \<open>sk\<close> is the TCP connection.
\<close>

definition ioc_client_init :: "socket \<Rightarrow> 's world \<Rightarrow> (ioc_client \<times> 's world) result" where
  "ioc_client_init sk w =
     bindE (getConnectionInfos sk) (\<lambda>(infos, _, _).
     bindE (setMsgBufferSize IOC_POST_RECEIVE_WRITE (mem_domain (w_mem w))) (\<lambda>d.
     Inr (\<lparr>ic_clientConnInfo = infos, ic_connections_semaphore = IOC_CLIENT_MAX_CONN, ic_connections = [], ic_passive_wait = True\<rparr>,
          w\<lparr>w_mem := (w_mem w)\<lparr>mem_domain := d\<rparr>\<rparr>)))"

definition ioc_client_set_passive_wait :: "bool \<Rightarrow> ioc_client \<Rightarrow> ioc_client" where
  "ioc_client_set_passive_wait v client = client\<lparr>ic_passive_wait := v\<rparr>"

section \<open>Taking and giving back a connection\<close>

definition sem_wait :: "ioc_client \<Rightarrow> ioc_client option" where
  "sem_wait client = (if ic_connections_semaphore client = 0 then None
     else Some (client\<lparr>ic_connections_semaphore := ic_connections_semaphore client - 1\<rparr>))"

definition sem_post :: "ioc_client \<Rightarrow> ioc_client" where
  "sem_post client = client\<lparr>ic_connections_semaphore := Suc (ic_connections_semaphore client)\<rparr>"

definition setUsed :: "nat \<Rightarrow> bool \<Rightarrow> ioc_client \<Rightarrow> ioc_client" where
  "setUsed i v client = client\<lparr>ic_connections := (ic_connections client)[i := (ic_connections client ! i)\<lparr>lc_used := v\<rparr>]\<rparr>"

fun first_unused :: "nat \<Rightarrow> client_connection list \<Rightarrow> nat option" where
  "first_unused i [] = None"
| "first_unused i (c # cs) = (if \<not> lc_used c then Some i else first_unused (Suc i) cs)"

definition client_recvSize :: size_t where
  "client_recvSize = (if IOC_POST_RECEIVE_READ < 4096 then 4096 else IOC_POST_RECEIVE_READ)"

text \<open>The part of \<open>ioc_client_get_connection\<close> under the mutex.\<close>

definition take_connection ::
  "nat \<Rightarrow> fabric_ops \<Rightarrow> endpoint_ops \<Rightarrow> (nat \<Rightarrow> byte) \<Rightarrow> arrival \<Rightarrow> ioc_client \<Rightarrow> 's world \<Rightarrow> (nat option \<times> ioc_client \<times> 's world) result" where
  "take_connection fuel fi eo junk ar client w = (case first_unused 0 (ic_connections client) of
     Some i \<Rightarrow> Inr (Some i, setUsed i True client, w)
   | None \<Rightarrow>
       bindE (postReceives junk client_recvSize 2
                (setTcpClientInfos (ci_clientId (ic_clientConnInfo client)) (ci_key (ic_clientConnInfo client))
                   (LibfabricConnection_init (ic_passive_wait client)))) (\<lambda>c.
       bindE (joinServer fuel fi eo no_hook no_fun () (arrive ar c) w) (\<lambda>(returned, _, c, w).
       if returned
       then Inr (Some (length (ic_connections client)), client\<lparr>ic_connections := ic_connections client @ [c\<lparr>lc_used := True\<rparr>]\<rparr>, w)
       else Inr (None, client, w))))"

definition ioc_client_get_connection ::
  "nat \<Rightarrow> fabric_ops \<Rightarrow> endpoint_ops \<Rightarrow> (nat \<Rightarrow> byte) \<Rightarrow> arrival \<Rightarrow> ioc_client \<Rightarrow> 's world \<Rightarrow> (nat option \<times> ioc_client \<times> 's world) result" where
  "ioc_client_get_connection fuel fi eo junk ar client w = (case sem_wait client of
     None \<Rightarrow> Inr (None, client, w)
   | Some client \<Rightarrow> take_connection fuel fi eo junk ar client w)"

definition ioc_client_ret_connection :: "nat \<Rightarrow> ioc_client \<Rightarrow> ioc_client" where
  "ioc_client_ret_connection i client = sem_post (setUsed i False client)"

section \<open>The interface\<close>

text \<open>
  A request on a connection of the pool.  The requests of the interface differ in the action only.
\<close>

definition with_connection ::
  "nat \<Rightarrow> fabric_ops \<Rightarrow> endpoint_ops \<Rightarrow> (nat \<Rightarrow> byte) \<Rightarrow> arrival \<Rightarrow> (client_connection \<Rightarrow> 's world \<Rightarrow> ('r option \<times> client_connection \<times> 's world) result) \<Rightarrow>
   ioc_client \<Rightarrow> 's world \<Rightarrow> ('r option \<times> ioc_client \<times> 's world) result" where
  "with_connection fuel fi eo junk ar action client w =
     bindE (ioc_client_get_connection fuel fi eo junk ar client w) (\<lambda>(conn, client, w). case conn of
       None \<Rightarrow> Inr (None, client, w)
     | Some i \<Rightarrow>
         bindE (action (arrive ar (ic_connections client ! i)) w) (\<lambda>(ret, c, w).
         let client = client\<lparr>ic_connections := (ic_connections client)[i := c]\<rparr> in
         case ret of
           None \<Rightarrow> Inr (None, client, w)
         | Some r \<Rightarrow> Inr (Some r, ioc_client_ret_connection i client, w)))"

definition ioc_client_obj_read where
  "ioc_client_obj_read fuel fi eo junk ar client high low buffer n offset w =
     with_connection fuel fi eo junk ar (obj_read fuel fi \<lparr>loi_low = low, loi_high = high\<rparr> buffer n offset) client w"

definition ioc_client_obj_write where
  "ioc_client_obj_write fuel fi eo junk ar client high low buffer n offset w =
     with_connection fuel fi eo junk ar (obj_write fuel fi \<lparr>loi_low = low, loi_high = high\<rparr> buffer n offset) client w"

definition ioc_client_obj_flush where
  "ioc_client_obj_flush fuel fi eo junk ar client high low offset n w =
     with_connection fuel fi eo junk ar (obj_flush fuel fi \<lparr>loi_low = low, loi_high = high\<rparr> offset n) client w"

definition ioc_client_obj_create where
  "ioc_client_obj_create fuel fi eo junk ar client high low w =
     with_connection fuel fi eo junk ar (obj_create fuel fi \<lparr>loi_low = low, loi_high = high\<rparr>) client w"

definition ioc_client_obj_range_register where
  "ioc_client_obj_range_register fuel fi eo junk ar client high low offset n write w =
     with_connection fuel fi eo junk ar (obj_range_register fuel fi \<lparr>loi_low = low, loi_high = high\<rparr> offset n write) client w"

definition ioc_client_obj_range_unregister where
  "ioc_client_obj_range_unregister fuel fi eo junk ar client ident high low offset n write w =
     with_connection fuel fi eo junk ar (obj_range_unregister fuel fi ident \<lparr>loi_low = low, loi_high = high\<rparr> offset n write) client w"

definition ioc_client_obj_cow where
  "ioc_client_obj_cow fuel fi eo junk ar client orig_high orig_low dest_high dest_low allow_exist offset n w =
     with_connection fuel fi eo junk ar (obj_cow fuel fi \<lparr>loi_low = orig_low, loi_high = orig_high\<rparr>
       \<lparr>loi_low = dest_low, loi_high = dest_high\<rparr> allow_exist offset n) client w"

definition ioc_client_ping_pong where
  "ioc_client_ping_pong fuel fi eo junk ar client cnt eagerSize rdmaSize w =
     with_connection fuel fi eo junk ar (\<lambda>c w. bindE (ping_pong fuel fi cnt eagerSize rdmaSize c w)
       (\<lambda>(finished, c, w). Inr (if finished then Some () else None, c, w))) client w"

text \<open>
  The end of a client: all connections are taken from the semaphore, then destroyed, the domain after them, and the
  struct is deleted before the call of \<open>sem_destroy\<close> on its field.
\<close>

fun destroy_connections ::
  "client_connection list \<Rightarrow> nat \<Rightarrow> fabric_ops \<Rightarrow> endpoint_ops \<Rightarrow> 's world \<Rightarrow> (bool \<times> 's world) result" where
  "destroy_connections [] fuel fi eo w = Inr (True, w)"
| "destroy_connections (c # cs) fuel fi eo w =
     bindE (LibfabricConnection_destroy fuel fi eo no_hook no_fun () c w) (\<lambda>(finished, _, _, w).
     if finished then destroy_connections cs fuel fi eo w else Inr (False, w))"

definition ioc_client_fini :: "nat \<Rightarrow> fabric_ops \<Rightarrow> endpoint_ops \<Rightarrow> ioc_client \<Rightarrow> 's world \<Rightarrow> 's world option result" where
  "ioc_client_fini fuel fi eo client w =
     (if ic_connections_semaphore client < IOC_CLIENT_MAX_CONN then Inr None
      else bindE (destroy_connections (ic_connections client) fuel fi eo w) (\<lambda>(finished, w).
           if finished
           then bindE (LibfabricDomain_destroy (mem_domain (w_mem w)) (mem_heap (w_mem w))) (\<lambda>_. Inl UseAfterFree)
           else Inr None))"

section \<open>Threads\<close>

text \<open>
  The threads that are inside a call: past the semaphore, with a connection, or about to give the
  semaphore back.  A thread changes its own connection only, and never its flag \<open>used\<close>.
\<close>

datatype phase = Entered | Holding nat | Leaving

record pool =
  pl_client :: ioc_client
  pl_threads :: "phase list"

inductive pool_step :: "fabric_ops \<Rightarrow> endpoint_ops \<Rightarrow> (nat \<Rightarrow> byte) \<Rightarrow> pool \<Rightarrow> pool \<Rightarrow> bool" for fi eo junk where
  pool_enter: "sem_wait (pl_client p) = Some client \<Longrightarrow>
    pool_step fi eo junk p \<lparr>pl_client = client, pl_threads = pl_threads p @ [Entered]\<rparr>"
| pool_take: "t < length (pl_threads p) \<Longrightarrow> pl_threads p ! t = Entered \<Longrightarrow>
    take_connection fuel fi eo junk ar (pl_client p) (w :: unit world) = Inr (Some i, client, w') \<Longrightarrow>
    pool_step fi eo junk p \<lparr>pl_client = client, pl_threads = (pl_threads p)[t := Holding i]\<rparr>"
| pool_work: "t < length (pl_threads p) \<Longrightarrow> pl_threads p ! t = Holding i \<Longrightarrow> lc_used c = lc_used (ic_connections (pl_client p) ! i) \<Longrightarrow>
    pool_step fi eo junk p (p\<lparr>pl_client := (pl_client p)\<lparr>ic_connections := (ic_connections (pl_client p))[i := c]\<rparr>\<rparr>)"
| pool_release: "t < length (pl_threads p) \<Longrightarrow> pl_threads p ! t = Holding i \<Longrightarrow>
    pool_step fi eo junk p \<lparr>pl_client = setUsed i False (pl_client p), pl_threads = (pl_threads p)[t := Leaving]\<rparr>"
| pool_leave: "t < length (pl_threads p) \<Longrightarrow> pl_threads p ! t = Leaving \<Longrightarrow>
    pool_step fi eo junk p \<lparr>pl_client = sem_post (pl_client p), pl_threads = take t (pl_threads p) @ drop (Suc t) (pl_threads p)\<rparr>"
| pool_wait: "pool_step fi eo junk p (p\<lparr>pl_client := ioc_client_set_passive_wait v (pl_client p)\<rparr>)"

inductive pool_reachable :: "fabric_ops \<Rightarrow> endpoint_ops \<Rightarrow> (nat \<Rightarrow> byte) \<Rightarrow> pool \<Rightarrow> bool" for fi eo junk where
  pool_init: "ioc_client_init sk (w :: unit world) = Inr (client, w') \<Longrightarrow> pool_reachable fi eo junk \<lparr>pl_client = client, pl_threads = []\<rparr>"
| pool_next: "pool_reachable fi eo junk p \<Longrightarrow> pool_step fi eo junk p p' \<Longrightarrow> pool_reachable fi eo junk p'"

section \<open>The invariant of the pool\<close>

definition holds :: "phase list \<Rightarrow> nat list" where
  "holds ps = List.map_filter (\<lambda>ph. case ph of Holding i \<Rightarrow> Some i | Entered \<Rightarrow> None | Leaving \<Rightarrow> None) ps"

lemma holds_simps [simp]:
  "holds [] = []" "holds (Holding i # ps) = i # holds ps" "holds (Entered # ps) = holds ps" "holds (Leaving # ps) = holds ps"
  "holds (ps @ qs) = holds ps @ holds qs"
  by (simp_all add: holds_def List.map_filter_def)

lemma length_holds: "length (holds ps) \<le> length ps"
  by (simp add: holds_def List.map_filter_def)

lemma holds_member: "i \<in> set (holds ps) \<longleftrightarrow> Holding i \<in> set ps"
proof (induction ps)
  case (Cons ph ps)
  then show ?case by (cases ph) auto
qed simp

definition pool_ok :: "pool \<Rightarrow> bool" where
  "pool_ok p \<longleftrightarrow> ic_connections_semaphore (pl_client p) + length (pl_threads p) = IOC_CLIENT_MAX_CONN \<and>
     distinct (holds (pl_threads p)) \<and> set (holds (pl_threads p)) = {i. i < length (ic_connections (pl_client p)) \<and> lc_used (ic_connections (pl_client p) ! i)} \<and>
     length (ic_connections (pl_client p)) \<le> IOC_CLIENT_MAX_CONN"

lemma first_unused_Some:
  "first_unused k cs = Some i \<Longrightarrow> k \<le> i \<and> i - k < length cs \<and> \<not> lc_used (cs ! (i - k))"
proof (induction cs arbitrary: k)
  case (Cons c cs)
  show ?case
  proof (cases "lc_used c")
    case True
    then have "Suc k \<le> i \<and> i - Suc k < length cs \<and> \<not> lc_used (cs ! (i - Suc k))" using Cons.IH [of "Suc k"] Cons.prems by simp
    moreover from this have "i - k = Suc (i - Suc k)" by linarith
    ultimately show ?thesis by simp
  qed (use Cons.prems in simp)
qed simp

lemma first_unused_None: "first_unused k cs = None \<Longrightarrow> i < length cs \<Longrightarrow> lc_used (cs ! i)"
  by (induction cs arbitrary: k i) (auto simp: nth_Cons' split: if_splits)

lemma used_update:
  assumes "i < length cs"
  shows "{j. j < length (cs[i := c]) \<and> lc_used (cs[i := c] ! j)} =
    (if lc_used c then insert i {j. j < length cs \<and> lc_used (cs ! j)} else {j. j < length cs \<and> lc_used (cs ! j)} - {i})"
  using assms by (auto simp: nth_list_update)

text \<open>The thread that makes a step, between the others.\<close>

lemma thread_split:
  assumes "t < length ps" "ps ! t = x"
  obtains as bs where "ps = as @ x # bs" "\<And>y. ps[t := y] = as @ y # bs" "take t ps @ drop (Suc t) ps = as @ bs"
  by (rule that [of "take t ps" "drop (Suc t) ps"]) (use assms in \<open>auto simp: upd_conv_take_nth_drop intro: id_take_nth_drop\<close>)

lemma take_ok:
  assumes ok: "pool_ok p" and t: "pl_threads p = as @ Entered # bs" and r: "take_connection fuel fi eo junk ar (pl_client p) w = Inr (Some i, client, w')"
  shows "pool_ok \<lparr>pl_client = client, pl_threads = as @ Holding i # bs\<rparr>"
proof -
  let ?cs = "ic_connections (pl_client p)" and ?h = "holds (as @ bs)"
  have inv: "ic_connections_semaphore (pl_client p) + length (as @ Entered # bs) = IOC_CLIENT_MAX_CONN" "distinct ?h"
      "set ?h = {j. j < length ?cs \<and> lc_used (?cs ! j)}" "length ?cs \<le> IOC_CLIENT_MAX_CONN"
    using ok t by (auto simp: pool_ok_def)
  show ?thesis
  proof (cases "first_unused 0 ?cs")
    case (Some j)
    then have j: "i = j" "client = setUsed i True (pl_client p)" "i < length ?cs" "\<not> lc_used (?cs ! i)"
      using r first_unused_Some [OF Some] by (auto simp: take_connection_def)
    have "i \<notin> set ?h" unfolding inv(3) using j(4) by simp
    moreover have "set (holds (as @ Holding i # bs)) = insert i (set ?h)" by auto
    ultimately show ?thesis using inv j(2,3) used_update [OF j(3), of "(?cs ! i)\<lparr>lc_used := True\<rparr>"]
      by (simp add: pool_ok_def setUsed_def)
  next
    case None
    then obtain c :: client_connection where c: "i = length ?cs" "client = (pl_client p)\<lparr>ic_connections := ?cs @ [c\<lparr>lc_used := True\<rparr>]\<rparr>"
      using r by (auto simp: take_connection_def elim!: bindE_InrE split: if_splits)
    have all: "set ?h = {..<length ?cs}" unfolding inv(3) using first_unused_None [OF None] by auto
    then have "length ?cs = length ?h" using distinct_card [OF inv(2)] by simp
    also have "\<dots> < IOC_CLIENT_MAX_CONN" using length_holds [of "as @ bs"] inv(1) by simp
    finally have "length ?cs < IOC_CLIENT_MAX_CONN" .
    moreover have "{j. j < length (ic_connections client) \<and> lc_used (ic_connections client ! j)} = insert i (set ?h)"
      using c first_unused_None [OF None] unfolding inv(3) by (auto simp: nth_append)
    moreover have "i \<notin> set ?h" unfolding all using c(1) by simp
    ultimately show ?thesis using inv c by (auto simp: pool_ok_def)
  qed
qed

lemma pool_step_ok: "pool_step fi eo junk p p' \<Longrightarrow> pool_ok p \<Longrightarrow> pool_ok p'"
proof (induction rule: pool_step.induct)
  case (pool_enter p client)
  have "0 < ic_connections_semaphore (pl_client p)" "client = (pl_client p)\<lparr>ic_connections_semaphore := ic_connections_semaphore (pl_client p) - 1\<rparr>"
    using pool_enter.hyps by (simp_all add: sem_wait_def split: if_splits)
  then show ?case using pool_enter.prems by (simp add: pool_ok_def)
next
  case (pool_take t p fuel ar w i client w')
  show ?case by (rule thread_split [OF pool_take.hyps(1,2)]) (use take_ok [OF pool_take.prems _ pool_take.hyps(3)] in simp)
next
  case (pool_work t p i c)
  have "i \<in> set (holds (pl_threads p))" by (rule thread_split [OF pool_work.hyps(1,2)]) simp
  then have "i < length (ic_connections (pl_client p))" "lc_used (ic_connections (pl_client p) ! i)"
    using pool_work.prems by (auto simp: pool_ok_def)
  then show ?case using pool_work used_update [of i "ic_connections (pl_client p)" c] by (auto simp: pool_ok_def insert_absorb)
next
  case (pool_release t p i)
  let ?cs = "ic_connections (pl_client p)"
  obtain as bs where t: "pl_threads p = as @ Holding i # bs" "(pl_threads p)[t := Leaving] = as @ Leaving # bs"
    by (rule thread_split [OF pool_release.hyps]) (rule that)
  then have "i \<in> set (holds (pl_threads p))" by simp
  then have i: "i < length ?cs" using pool_release.prems by (auto simp: pool_ok_def)
  let ?used = "{j. j < length ?cs \<and> lc_used (?cs ! j)}" and ?h = "set (holds as) \<union> set (holds bs)"
  have "insert i ?h = ?used" "i \<notin> ?h" using pool_release.prems t(1) by (simp_all add: pool_ok_def)
  then have "?h = ?used - {i}" by blast
  then show ?case using pool_release.prems t used_update [OF i, of "(?cs ! i)\<lparr>lc_used := False\<rparr>"]
    by (simp add: pool_ok_def setUsed_def)
next
  case (pool_leave t p)
  obtain as bs where "pl_threads p = as @ Leaving # bs" "take t (pl_threads p) @ drop (Suc t) (pl_threads p) = as @ bs"
    by (rule thread_split [OF pool_leave.hyps]) (rule that)
  then show ?case using pool_leave.prems by (simp add: pool_ok_def sem_post_def)
next
  case (pool_wait p v)
  then show ?case by (simp add: pool_ok_def ioc_client_set_passive_wait_def)
qed

lemma pool_reachable_ok: "pool_reachable fi eo junk p \<Longrightarrow> pool_ok p"
proof (induction rule: pool_reachable.induct)
  case (pool_init sk w client w')
  then have "ic_connections client = []" "ic_connections_semaphore client = IOC_CLIENT_MAX_CONN"
    by (auto simp: ioc_client_init_def elim!: bindE_InrE)
  then show ?case by (simp add: pool_ok_def)
qed (rule pool_step_ok)

end
