(* ===== verification/Client_Session.thy ===== *)
theory Client_Session
  imports Client_Server Client_Pool
begin

text \<open>
  The session of a client with the server: it joins, gets its identifier, and registers the ranges of the objects that it
  maps.  The messages travel as in theory \<open>Client_Server\<close>.
\<close>

section \<open>Joining\<close>

text \<open>C21: a client joins: with the message that \<open>joinServer\<close> posts in a receive buffer of the server, one round of the server stores
  the address of the client under the next endpoint number and posts the message with this number; with that message in a receive
  buffer of the client, \<open>joinServer\<close> returns and the client has the number under which the server can reach it.\<close>

theorem client_connected:
  fixes s :: "'s server" and v :: "'c world"
  assumes inv: "server_ok s" and cl: "client_ok pd X mb R c v" "32 + IOC_LF_MAX_ADDR_LEN \<le> fr_msgBufferSize X" "\<not> lc_disableReceive c" "polls c \<le> fuel"
    and eoc: "fst (eo_av_insert eoc (eo_dest_addr eoc)) = 1" "fst (eo_getname eoc) = 0" "length (snd (eo_getname eoc)) \<le> IOC_LF_MAX_ADDR_LEN"
    and up: "completions (sv_connection s) = CqRecv i # rest" "fb_cq (lc_fabric (sv_connection s)) = map CqEntry es" "\<not> lc_disableReceive (sv_connection s)"
      "lc_recvBuffers (sv_connection s) ! i = MessageHeader_wire (fillProtocolHeader (msg_code IOC_LF_MSG_CONNECT_INIT) c) @ own_address eoc @ r"
    and srv: "eo_av_insert eos (own_address eoc) = (1, fa)" "buffer_available fi (sv_world s)" "set (fb_codes (lc_fabric (sv_connection s))) \<subseteq> {- FI_EAGAIN}"
      "lc_nextEndpointId (sv_connection s) < 2 ^ 31 - 1"
    and down: "hs = \<lparr>fh_protocolVersion = IOC_LF_PROTOCOL_VERSION, fh_assignLfClientId = lc_nextEndpointId (sv_connection s)\<rparr>"
      "delivers fc a j (MessageHeader_wire (fillProtocolHeader (msg_code IOC_LF_MSG_ASSIGN_ID) (sv_connection s)) @ FirstHandshake_wire hs) (joining eoc c) v"
  shows "\<exists>c' v' s' buf act buf' act'. joinServer fuel fc eoc no_hook no_fun () c v = Inr (True, (), c', v') \<and>
    lc_clientId c' = lc_nextEndpointId (sv_connection s) \<and> server_round fi eos so s = Inr s' \<and>
    sm_find (lc_remoteLiAddr (sv_connection s')) (int (lc_clientId c')) = Some fa \<and>
    fb_ops (lc_fabric c') = fb_ops (lc_fabric c) @
      [FiSend a buf (MessageHeader_wire (fillProtocolHeader (msg_code IOC_LF_MSG_CONNECT_INIT) c) @ own_address eoc) (Some act)] \<and>
    fb_ops (lc_fabric (sv_connection s')) = fb_ops (lc_fabric (sv_connection s)) @
      [FiSend fa buf' (MessageHeader_wire (fillProtocolHeader (msg_code IOC_LF_MSG_ASSIGN_ID) (sv_connection s)) @ FirstHandshake_wire hs) (Some act')]"
proof -
  let ?n = "lc_nextEndpointId (sv_connection s)"
  have own: "length (own_address eoc) = IOC_LF_MAX_ADDR_LEN" using eoc(3) by (simp add: own_address_def)
  have h: "mh_msgType (fillProtocolHeader (msg_code t) e) = msg_code t" for t and e :: "('h, 'f) connection" by (simp add: fillProtocolHeader_def del: msg_code.simps)
  obtain s' buf' act' where S: "server_round fi eos so s = Inr s'" "lc_remoteLiAddr (sv_connection s') = sm_set (int ?n) fa (lc_remoteLiAddr (sv_connection s))"
      "fb_ops (lc_fabric (sv_connection s')) = fb_ops (lc_fabric (sv_connection s)) @
        [FiSend fa buf' (MessageHeader_wire (fillProtocolHeader (msg_code IOC_LF_MSG_ASSIGN_ID) (sv_connection s)) @ FirstHandshake_wire hs) (Some act')]"
    using connect_round [OF inv up client_header_ok [OF cl(1)] _ own srv, of so] down(1) by (auto simp: fillProtocolHeader_def simp del: msg_code.simps)
  have hs: "FirstHandshake_ok hs" "fh_protocolVersion hs = IOC_LF_PROTOCOL_VERSION"
    using srv(4) by (simp_all add: down(1) FirstHandshake_ok_def IOC_LF_PROTOCOL_VERSION_def int32_ok_def W64_def)
  have "mh_msgType (fillProtocolHeader (msg_code IOC_LF_MSG_ASSIGN_ID) (sv_connection s)) = msg_code IOC_LF_MSG_ASSIGN_ID" by (simp add: fillProtocolHeader_def)
  from joinServer_joins [OF cl(1) down(2) eoc server_ack_ok [OF inv] this hs cl(2-4)]
  obtain c' v' buf act where "joinServer fuel fc eoc no_hook no_fun () c v = Inr (True, (), c', v')" "lc_clientId c' = fh_assignLfClientId hs"
      "fb_ops (lc_fabric c') = fb_ops (lc_fabric c) @ [FiSend a buf (MessageHeader_wire (fillProtocolHeader (msg_code IOC_LF_MSG_CONNECT_INIT) c) @ own_address eoc) (Some act)]"
    by blast
  moreover have "fh_assignLfClientId hs = ?n" by (simp add: down(1))
  ultimately show ?thesis using S
    by (intro exI [of _ c'] exI [of _ v'] exI [of _ s'] exI [of _ buf] exI [of _ act] exI [of _ buf'] exI [of _ act']) simp
qed

text \<open>The client of theory \<open>Client_Server\<close> joins its server.\<close>

lemma wit_joining:
  assumes "length bytes \<le> IOC_POST_RECEIVE_WRITE"
  shows "delivers wit_fabric 5 1 bytes (joining wit_endpoint (wit_client bytes)) (wit_client_world wit_bytes)"
  unfolding delivers_def by (intro conjI exI [of _ "[]"] exI [of _ "replicate (IOC_POST_RECEIVE_WRITE - length bytes) 0"])
    (simp_all add: wit_client_def wit_client_world_def LibfabricConnection_init_def IOC_LF_SERVER_ID_def buffer_available_def getMsgBuffer_def completions_def
      joining_def registerHook_def wit_endpoint_def)

lemma wit_connect_served:
  fixes h addr defines "s \<equiv> wit_server (MessageHeader_wire h @ addr)"
  assumes h: "MessageHeader_ok h" "mh_msgType h = msg_code IOC_LF_MSG_CONNECT_INIT" and len: "32 + length addr \<le> server_receiveSize"
  shows "server_ok s" "completions (sv_connection s) = [CqRecv 3]" "fb_cq (lc_fabric (sv_connection s)) = map CqEntry [CqRecv 3]"
    "\<not> lc_disableReceive (sv_connection s)" "lc_recvBuffers (sv_connection s) ! 3 = MessageHeader_wire h @ addr @ drop (32 + length addr) (replicate server_receiveSize 0)"
    "buffer_available wit_fabric (sv_world s)" "set (fb_codes (lc_fabric (sv_connection s))) \<subseteq> {- FI_EAGAIN}" "lc_nextEndpointId (sv_connection s) = 0"
proof -
  have "client_message server_alignement (MessageHeader_wire h @ addr @ r)" for r unfolding client_message_def using h by blast
  then have "client_message server_alignement ((MessageHeader_wire h @ addr) @ drop (length (MessageHeader_wire h @ addr)) (replicate server_receiveSize 0))"
    by (simp only: append_assoc)
  then show "server_ok s" unfolding s_def by (rule wit_server_ok) (use len in \<open>simp add: header_length\<close>)
qed (simp_all add: s_def wit_server_def deliver_def wit_server_connection_def LibfabricConnection_init_def completions_def header_length
    wit_server_world_def wit_world_def buffer_available_def getMsgBuffer_def)

theorem client_connected_witness:
  "\<exists>c c' v' s s'. joinServer 2 wit_fabric wit_endpoint no_hook no_fun () c (wit_client_world wit_bytes) = Inr (True, (), c', v') \<and> lc_clientId c' = 0 \<and>
     server_round wit_fabric wit_endpoint table_ops s = Inr s' \<and> sm_find (lc_remoteLiAddr (sv_connection s')) 0 = Some 5"
proof -
  let ?h = "\<lparr>mh_msgType = msg_code IOC_LF_MSG_CONNECT_INIT, mh_lfClientId = 3, mh_tcpClientId = 0, mh_tcpClientKey = 0\<rparr>"
  let ?s = "wit_server (MessageHeader_wire ?h @ own_address wit_endpoint)" and ?hs = "\<lparr>fh_protocolVersion = IOC_LF_PROTOCOL_VERSION, fh_assignLfClientId = 0\<rparr>"
  let ?m = "MessageHeader_wire (fillProtocolHeader (msg_code IOC_LF_MSG_ASSIGN_ID) (sv_connection ?s)) @ FirstHandshake_wire ?hs"
  have own: "length (own_address wit_endpoint) = IOC_LF_MAX_ADDR_LEN" by (simp add: own_address_def wit_endpoint_def)
  have h: "MessageHeader_ok ?h" using msg_code_small [of IOC_LF_MSG_CONNECT_INIT] by (simp add: MessageHeader_ok_def W64_def del: msg_code.simps)
  have "32 + length (own_address wit_endpoint) \<le> server_receiveSize" using wit_small(1) unfolding own by (simp add: IOC_LF_MAX_ADDR_LEN_def)
  note S = wit_connect_served [OF h _ this]
  have m: "length ?m \<le> IOC_POST_RECEIVE_WRITE" using wit_small(2) by (simp add: header_length FirstHandshake_wire_def)
  note C = wit_client_ok [OF m]
  have up: "lc_recvBuffers (sv_connection ?s) ! 3 = MessageHeader_wire (fillProtocolHeader (msg_code IOC_LF_MSG_CONNECT_INIT) (wit_client ?m)) @ own_address wit_endpoint @
      drop (32 + length (own_address wit_endpoint)) (replicate server_receiveSize 0)"
    unfolding C(3) using S(5) by simp
  have size: "32 + IOC_LF_MAX_ADDR_LEN \<le> fr_msgBufferSize (wit_client_frame wit_bytes)" "\<not> lc_disableReceive (wit_client ?m)" "polls (wit_client ?m) \<le> 2"
      "lc_nextEndpointId (sv_connection ?s) < 2 ^ 31 - 1" "?hs = \<lparr>fh_protocolVersion = IOC_LF_PROTOCOL_VERSION, fh_assignLfClientId = lc_nextEndpointId (sv_connection ?s)\<rparr>"
    using wit_small(2) C(4) S(8) by (simp_all add: wit_client_frame_def IOC_LF_MAX_ADDR_LEN_def wit_client_def LibfabricConnection_init_def)
  have e: "fst (eo_av_insert wit_endpoint (eo_dest_addr wit_endpoint)) = 1" "fst (eo_getname wit_endpoint) = 0" "length (snd (eo_getname wit_endpoint)) \<le> IOC_LF_MAX_ADDR_LEN"
      "eo_av_insert wit_endpoint (own_address wit_endpoint) = (1, 5)"
    by (simp_all add: wit_endpoint_def)
  have S': "server_ok ?s" "completions (sv_connection ?s) = [CqRecv 3]" "fb_cq (lc_fabric (sv_connection ?s)) = map CqEntry [CqRecv 3]" "\<not> lc_disableReceive (sv_connection ?s)"
      "buffer_available wit_fabric (sv_world ?s)" "set (fb_codes (lc_fabric (sv_connection ?s))) \<subseteq> {- FI_EAGAIN}"
    using S(1-4,6,7) by simp_all
  show ?thesis using client_connected [OF S'(1) C(1) size(1-3) e(1-3) S'(2-4) up e(4) S'(5,6) size(4,5) wit_joining [OF m], of table_ops] S(8) by fastforce
qed

section \<open>Registering a range\<close>

lemma register_round:
  fixes s :: "'s server"
  assumes inv: "server_ok s" and srv: "serves h (RegisterRange_wire rr) i fa s" and h: "MessageHeader_ok h" "mh_msgType h = msg_code IOC_LF_MSG_OBJ_RANGE_REGISTER"
    and rr: "RegisterRange_ok rr" and check: "ap_consistencyCheck (sv_app s)"
    and t: "registerRange (mh_tcpClientId h) (rr_offset rr) (rr_size rr) (range_mode (rr_write rr))
      (obj_consistencyTracker (the_object (oid_of (rr_objectId rr)) (ap_container (sv_app s)))) = (st, t')" "int32_ok st"
  shows "\<exists>s' ob'. server_round fi eo so s = Inr s' \<and> replied fa i (ack_message IOC_LF_MSG_OBJ_RANGE_REGISTER_ACK (status_response st) s) s s' \<and>
    sm_find (ct_objects (ap_container (sv_app s'))) (oid_of (rr_objectId rr)) = Some (Some ob') \<and> obj_consistencyTracker ob' = t'"
proof -
  let ?c = "sv_connection s" and ?a = "sv_app s" and ?w = "sv_world s" and ?k = "oid_of (rr_objectId rr)" and ?t = IOC_LF_MSG_OBJ_RANGE_REGISTER_ACK
  obtain c1 d X where R: "same_settings ?c c1" "fb_ops (lc_fabric c1) = fb_ops (lc_fabric ?c)" "fb_recv (lc_fabric c1) = fb_recv (lc_fabric ?c)"
      "holds_message d (RegisterRange_wire rr)" "container_ok X 0 ?w (ap_container ?a)" "conn_ok server_context X c1"
      "i < lc_recvBuffersCount c1" "endpoint_ready X (int_of_size (mh_lfClientId h)) c1"
      "server_round fi eo so s = bindE (run_hook fi so (HookRangeRegister, \<lparr>rq_lfClientId = mh_lfClientId h, rq_msgBufferId = i, rq_header = h, rq_deserializer = d\<rparr>)
       ?a c1 ?w) (\<lambda>(_, a, c, w). Inr (s\<lparr>sv_app := a, sv_connection := c, sv_world := w\<rparr>))"
    by (rule request_round [OF inv srv h(1), of "RegisterRequest rr"]) (use h(2) that in auto)
  let ?rq = "\<lparr>rq_lfClientId = mh_lfClientId h, rq_msgBufferId = i, rq_header = h, rq_deserializer = d\<rparr>"
  obtain d' where U: "apply_struct RegisterRange_applySerializerDef ''registerRange'' \<lparr>rr_objectId = no_oid, rr_offset = 0, rr_size = 0, rr_write = False\<rparr> d = Inr (rr, d')"
    using range_reg.unpack_struct [OF rr TrueI] R(4) by (fastforce simp: holds_message_def)
  obtain ob ct1 where g: "getObject ?k (ap_container ?a) = Inr (ob, ct1)" by (rule getObject_ok [OF R(5)])
  have ob: "ob = the_object ?k (ap_container ?a)" by (rule getObject_the(4) [OF R(5) g])
  let ?a' = "?a\<lparr>ap_container := put_object ?k (ob\<lparr>obj_consistencyTracker := t'\<rparr>) ct1\<rparr>"
  obtain c2 w2 c3 where S: "sendResponse fi ?t (mh_lfClientId h) st False c1 ?w = Inr (c2, w2)" "repostReceive i c2 = Inr c3"
    by (rule status_reply_returns [OF R(5,6) t(2) R(8,7)]) (rule that)
  obtain Z where "answered ?t (status_response st) (mh_lfClientId h) c1 c2" by (rule sendResponse_effect [OF R(5,6) t(2) S(1)]) (rule that)
  then have ans: "hook_answer ?t (status_response st) ?rq c1 c3" using S(2) by (auto simp: hook_answer_def)
  have "HookRangeRegister_onMessage fi ?rq ?a c1 ?w = Inr (LF_WAIT_LOOP_KEEP_WAITING, ?a', c3, w2)"
    using U g check t(1) ob S by (simp add: HookRangeRegister_onMessage_def reply_def terminate_def Let_def)
  then have run: "server_round fi eo so s = Inr (s\<lparr>sv_app := ?a', sv_connection := c3, sv_world := w2\<rparr>)" using R(9) by (simp add: run_hook_def)
  have "sm_find (lc_remoteLiAddr c1) (int_of_size (rq_lfClientId ?rq)) = Some fa" using srv same_settings_sel(4) [OF R(1)] by (simp add: serves_def)
  note A = hook_answer_posted [OF ans this]
  show ?thesis using run A R(2,3) same_settings_header [OF R(1)] put_object_find [of ?k "ob\<lparr>obj_consistencyTracker := t'\<rparr>" ct1]
    by (intro exI [of _ "s\<lparr>sv_app := ?a', sv_connection := c3, sv_world := w2\<rparr>"] exI [of _ "ob\<lparr>obj_consistencyTracker := t'\<rparr>"]) (simp add: replied_def ack_message_def)
qed

text \<open>C7: a client that registers a range gets what the tracker of the object decides: with the message that
  \<open>obj_range_register\<close> posts in a receive buffer of the server, one round of the server registers the range for the TCP identifier of the
  client; with the answer in a receive buffer of the client, the call returns -1 when the range collides with one that is registered, and
  otherwise the identifier under which the range is now in the tracker.\<close>

theorem range_registered:
  fixes s :: "'s server" and v :: "'c world"
  assumes inv: "server_ok s" "ap_consistencyCheck (sv_app s)" and cl: "client_ok pd X mb R c v" "IOC_POST_RECEIVE_WRITE \<le> fr_msgBufferSize X" "polls c \<le> fuel"
    and rr: "rr = \<lparr>rr_objectId = oid, rr_offset = off, rr_size = n, rr_write = wr\<rparr>" "RegisterRange_ok rr"
    and t: "t = obj_consistencyTracker (the_object (oid_of oid) (ap_container (sv_app s)))" "0 < ct_nextId t" "ct_nextId t < 2 ^ 31"
      "registerRange (lc_tcpClientId c) off n (range_mode wr) t = (st, t')"
    and up: "serves (fillProtocolHeader (msg_code IOC_LF_MSG_OBJ_RANGE_REGISTER) c) (RegisterRange_wire rr) i fa s"
    and down: "delivers fc srv j (ack_message IOC_LF_MSG_OBJ_RANGE_REGISTER_ACK (status_response st) s) c v"
  shows "\<exists>c' v' s' ob'. obj_range_register fuel fc oid off n wr c v = Inr (Some st, c', v') \<and>
    exchanged srv (MessageHeader_wire (fillProtocolHeader (msg_code IOC_LF_MSG_OBJ_RANGE_REGISTER) c) @ RegisterRange_wire rr) j c c' \<and>
    server_round fi eo so s = Inr s' \<and> replied fa i (ack_message IOC_LF_MSG_OBJ_RANGE_REGISTER_ACK (status_response st) s) s s' \<and>
    sm_find (ct_objects (ap_container (sv_app s'))) (oid_of oid) = Some (Some ob') \<and>
    (if hasCollision t off n (range_mode wr) then st = - 1 \<and> obj_consistencyTracker ob' = t
     else st = ct_nextId t \<and> ct_ranges (obj_consistencyTracker ob') = ct_ranges t @
       [\<lparr>cr_tcpClientId = lc_tcpClientId c, cr_id = st, cr_offset = off, cr_size = n, cr_accessMode = range_mode wr\<rparr>])"
proof -
  let ?h = "fillProtocolHeader (msg_code IOC_LF_MSG_OBJ_RANGE_REGISTER) c"
  have st: "int32_ok st" using t(2-4) by (auto simp: registerRange_def int32_ok_def split: if_splits)
  have h: "mh_msgType ?h = msg_code IOC_LF_MSG_OBJ_RANGE_REGISTER" "mh_tcpClientId ?h = lc_tcpClientId c"
    by (simp_all add: fillProtocolHeader_def del: msg_code.simps)
  have reg: "registerRange (mh_tcpClientId ?h) (rr_offset rr) (rr_size rr) (range_mode (rr_write rr))
      (obj_consistencyTracker (the_object (oid_of (rr_objectId rr)) (ap_container (sv_app s)))) = (st, t')"
    using t(1,4) rr(1) h(2) by simp
  obtain s' ob' where S: "server_round fi eo so s = Inr s'" "replied fa i (ack_message IOC_LF_MSG_OBJ_RANGE_REGISTER_ACK (status_response st) s) s s'"
      "sm_find (ct_objects (ap_container (sv_app s'))) (oid_of oid) = Some (Some ob')" "obj_consistencyTracker ob' = t'"
    using register_round [OF inv(1) up client_header_ok [OF cl(1)] h(1) rr(2) inv(2) reg st, of fi eo so] rr(1) by auto
  have ack: "mh_msgType (fillProtocolHeader (msg_code IOC_LF_MSG_OBJ_RANGE_REGISTER_ACK) (sv_connection s)) = msg_code IOC_LF_MSG_OBJ_RANGE_REGISTER_ACK"
    by (simp add: fillProtocolHeader_def)
  have "32 + length (RegisterRange_wire rr) \<le> fr_msgBufferSize X"
    using cl(2) by (simp add: RegisterRange_wire_def ObjectId_wire_def IOC_POST_RECEIVE_WRITE_def sizeof_LibfabricMessageHeader_def IOC_STRUCT_MAX_def IOC_EAGER_MAX_WRITE_def)
  from range_reg.status_request [OF cl(1) down [unfolded ack_message_def] rr(2) this server_ack_ok [OF inv(1)] ack _ _ status_response_ok(1) [OF st] cl(3), of IOC_LF_MSG_OBJ_RANGE_REGISTER]
  obtain c' v' where C: "obj_range_register fuel fc oid off n wr c v = Inr (Some st, c', v')" "exchanged srv (MessageHeader_wire ?h @ RegisterRange_wire rr) j c c'"
    by (auto simp: obj_range_register_def rr(1) status_response_def simp del: msg_code.simps)
  have "if hasCollision t off n (range_mode wr) then st = - 1 \<and> t' = t
     else st = ct_nextId t \<and> ct_ranges t' = ct_ranges t @ [\<lparr>cr_tcpClientId = lc_tcpClientId c, cr_id = st, cr_offset = off, cr_size = n, cr_accessMode = range_mode wr\<rparr>]"
    using t(4) by (auto simp: registerRange_def Let_def split: if_splits)
  then show ?thesis using C S by blast
qed

theorem range_registered_witness:
  "\<exists>c c' v' s s' ob'. obj_range_register 2 wit_fabric \<lparr>loi_low = 7, loi_high = 0\<rparr> 100 10 True c (wit_client_world wit_bytes) = Inr (Some 1, c', v') \<and>
     server_round wit_fabric wit_endpoint table_ops s = Inr s' \<and> sm_find (ct_objects (ap_container (sv_app s'))) (ObjectId 0 7) = Some (Some ob') \<and>
     map cr_id (ct_ranges (obj_consistencyTracker ob')) = [1]"
proof -
  let ?oid = "\<lparr>loi_low = 7, loi_high = 0\<rparr>"
  let ?rr = "\<lparr>rr_objectId = ?oid, rr_offset = 100, rr_size = 10, rr_write = True\<rparr>"
  let ?h = "\<lparr>mh_msgType = msg_code IOC_LF_MSG_OBJ_RANGE_REGISTER, mh_lfClientId = 3, mh_tcpClientId = 0, mh_tcpClientKey = 0\<rparr>"
  let ?s = "wit_server (MessageHeader_wire ?h @ RegisterRange_wire ?rr)"
  let ?ack = "ack_message IOC_LF_MSG_OBJ_RANGE_REGISTER_ACK (status_response 1) ?s"
  have ack: "length ?ack \<le> IOC_POST_RECEIVE_WRITE" using status_response_ok(2) [of 1] wit_small(2) by (simp add: wit_ack header_length)
  note C = wit_client_ok [OF ack]
  have q: "RegisterRange_ok ?rr" "length (RegisterRange_wire ?rr) \<le> 100"
    using wit_small(6) by (simp_all add: RegisterRange_ok_def RegisterRange_wire_def ObjectId_wire_def W64_def)
  have "request_ok server_alignement (RegisterRequest ?rr)" using q(1) by simp
  note S = wit_request_served [of ?h "RegisterRequest ?rr", OF _ this]
  have size: "IOC_POST_RECEIVE_WRITE \<le> fr_msgBufferSize (wit_client_frame wit_bytes)" "polls (wit_client ?ack) \<le> 2" "ap_consistencyCheck (sv_app ?s)" "lc_tcpClientId (wit_client ?ack) = 0"
    using C(4) by (simp_all add: wit_client_frame_def wit_server_def wit_client_def LibfabricConnection_init_def)
  have up: "serves (fillProtocolHeader (msg_code IOC_LF_MSG_OBJ_RANGE_REGISTER) (wit_client ?ack)) (RegisterRange_wire ?rr) 3 5 ?s" unfolding C(3) using S(2) q(2) by simp
  have s: "server_ok ?s" using S(1) q(2) by simp
  let ?t = "obj_consistencyTracker (the_object (oid_of ?oid) (ap_container (sv_app ?s)))"
  have t: "?t = ConsistencyTracker_init" by (simp add: wit_object_new Object_init_def)
  have st: "0 < ct_nextId ?t" "ct_nextId ?t < 2 ^ 31" "\<not> hasCollision ?t 100 10 (range_mode True)" "ct_ranges ?t = []"
    unfolding t by (simp_all add: ConsistencyTracker_init_def hasCollision_def)
  obtain t' where reg: "registerRange (lc_tcpClientId (wit_client ?ack)) 100 10 (range_mode True) ?t = (1, t')"
    unfolding size(4) t by (simp add: registerRange_def ConsistencyTracker_init_def hasCollision_def)
  have k: "oid_of ?oid = ObjectId 0 7" by (simp add: oid_of_def)
  show ?thesis using range_registered [OF s size(3) C(1) size(1,2) refl q(1) refl st(1,2) reg up C(2), of wit_fabric wit_endpoint table_ops] st(3,4) unfolding k by fastforce
qed

section \<open>Threads that share the pool\<close>

text \<open>C20: two threads of the application never hold the same connection, a connection that is held is marked as
  used and no other is, and however the calls interleave there are never more than 8 connections.\<close>

theorem connections_exclusive:
  assumes "pool_reachable fi eo junk p" "t < length (pl_threads p)" "u < length (pl_threads p)" "pl_threads p ! t = Holding i"
  shows "(pl_threads p ! u = Holding i \<longrightarrow> u = t) \<and> i < length (ic_connections (pl_client p)) \<and> lc_used (ic_connections (pl_client p) ! i) \<and>
    (j < length (ic_connections (pl_client p)) \<longrightarrow> lc_used (ic_connections (pl_client p) ! j) \<longrightarrow> Holding j \<in> set (pl_threads p)) \<and>
    length (ic_connections (pl_client p)) \<le> IOC_CLIENT_MAX_CONN \<and> length (pl_threads p) \<le> IOC_CLIENT_MAX_CONN"
proof -
  let ?ps = "pl_threads p"
  have inv: "distinct (holds ?ps)" "set (holds ?ps) = {i. i < length (ic_connections (pl_client p)) \<and> lc_used (ic_connections (pl_client p) ! i)}"
      "length (ic_connections (pl_client p)) \<le> IOC_CLIENT_MAX_CONN" "length ?ps \<le> IOC_CLIENT_MAX_CONN"
    using pool_reachable_ok [OF assms(1)] by (auto simp: pool_ok_def)
  have "u = t" if "?ps ! u = Holding i"
  proof (rule ccontr)
    assume "u \<noteq> t"
    obtain as bs where s: "?ps = as @ Holding i # bs" "\<And>y. ?ps[t := y] = as @ y # bs" by (rule thread_split [OF assms(2,4)]) (rule that)
    have "?ps[t := Leaving] ! u = Holding i" using that \<open>u \<noteq> t\<close> by simp
    then have "Holding i \<in> set (as @ Leaving # bs)" using s(2) assms(3) by (metis length_list_update nth_mem)
    then show False using inv(1) s(1) by (auto simp: holds_member)
  qed
  moreover have "Holding i \<in> set ?ps" using assms(2,4) by (metis nth_mem)
  ultimately show ?thesis using holds_member [of i ?ps] holds_member [of j ?ps] inv(2-4) by auto
qed

text \<open>A thread of an application whose client got the identifier 0 and the key 9, and that joined the server.\<close>

definition wit_pool_world :: "unit world" where
  "wit_pool_world = \<lparr>w_mem = w_mem (wit_client_world wit_bytes), w_backends = [0 \<mapsto> MemoryBackendMalloc False], w_shared = (\<lambda>_. None), w_next = 0, w_storage = ()\<rparr>"

definition wit_arrival :: "byte list \<Rightarrow> arrival" where
  "wit_arrival bytes = \<lparr>ar_messages = [(1, bytes)], ar_cq = [CqEntry (CqRecv 1)], ar_codes = []\<rparr>"

definition wit_pool_client :: ioc_client where
  "wit_pool_client = \<lparr>ic_clientConnInfo = \<lparr>ci_clientId = 0, ci_key = 9, ci_protocolVersion = IOC_LF_PROTOCOL_VERSION, ci_keepConnection = True\<rparr>,
     ic_connections_semaphore = 8, ic_connections = [], ic_passive_wait = True\<rparr>"

lemma wit_pool_init: "\<exists>sk (w :: unit world) w'. ioc_client_init sk w = Inr (wit_pool_client, w')"
proof -
  let ?sk = "\<lparr>sk_bytes = int_bytes 2 IOC_LF_PROTOCOL_VERSION @ le_bytes 8 0 @ le_bytes 8 9 @ [1], sk_results = []\<rparr>"
  have "int_value (int_bytes 2 IOC_LF_PROTOCOL_VERSION) = IOC_LF_PROTOCOL_VERSION" by (simp add: IOC_LF_PROTOCOL_VERSION_def)
  moreover have "le_value (le_bytes 8 0) = 0" "le_value (le_bytes 8 9) = 9" by simp_all
  ultimately have "\<exists>sk'. getConnectionInfos ?sk = Inr (ic_clientConnInfo wit_pool_client, True, sk')"
    by (simp add: getConnectionInfos_def Let_def wit_pool_client_def)
  then obtain sk' where "getConnectionInfos ?sk = Inr (ic_clientConnInfo wit_pool_client, True, sk')" by blast
  then have "\<exists>w'. ioc_client_init ?sk (wit_pool_world\<lparr>w_mem := wit_mem\<rparr>) = Inr (wit_pool_client, w')"
    by (simp add: ioc_client_init_def setMsgBufferSize_def wit_mem_def LibfabricDomain_init_def wit_pool_client_def IOC_CLIENT_MAX_CONN_def)
  then show ?thesis by blast
qed

lemma wit_pool_take:
  assumes cl: "ic_clientConnInfo client = ic_clientConnInfo wit_pool_client" "ic_connections client = []" "ic_passive_wait client"
  shows "\<exists>c w' bytes. take_connection 2 wit_fabric wit_endpoint (\<lambda>_. 0) (wit_arrival bytes) client wit_pool_world =
    Inr (Some 0, client\<lparr>ic_connections := [c\<lparr>lc_used := True\<rparr>]\<rparr>, w')"
proof -
  let ?h = "\<lparr>mh_msgType = msg_code IOC_LF_MSG_ASSIGN_ID, mh_lfClientId = 0, mh_tcpClientId = 0, mh_tcpClientKey = 0\<rparr>"
  let ?hs = "\<lparr>fh_protocolVersion = IOC_LF_PROTOCOL_VERSION, fh_assignLfClientId = 0\<rparr>" and ?X = "(wit_client_frame wit_bytes)"
  obtain m where m: "m = MessageHeader_wire ?h @ FirstHandshake_wire ?hs" by simp
  let ?fresh = "map (\<lambda>_. 0) [0..<client_recvSize] :: byte list"
  let ?c = "setTcpClientInfos 0 9 (LibfabricConnection_init True) :: client_connection"
  obtain c where post: "postReceives (\<lambda>_. 0) client_recvSize 2 ?c = Inr c" and c: "c = ?c\<lparr>lc_recvBuffersCount := 2, lc_recvBuffersSize := client_recvSize,
      lc_recvBuffers := [?fresh, ?fresh], lc_fabric := \<lparr>fb_codes = [], fb_cq = [], fb_ops = [], fb_recv = [0, 1]\<rparr>\<rparr>"
    by (simp add: postReceives_def repostReceive_def setTcpClientInfos_def LibfabricConnection_init_def upt_rec [of 0 2] upt_rec [of 1 2] numeral_2_eq_2 Let_def)
  let ?a = "arrive (wit_arrival m) c"
  have "length m = 44" by (simp add: m header_length FirstHandshake_wire_def)
  then have len: "length m \<le> client_recvSize" "IOC_POST_RECEIVE_WRITE \<le> client_recvSize" "client_recvSize < W64" "45 \<le> IOC_POST_RECEIVE_WRITE" "IOC_POST_RECEIVE_WRITE < W64"
    by (simp_all add: client_recvSize_def IOC_POST_RECEIVE_READ_def IOC_POST_RECEIVE_WRITE_def sizeof_LibfabricMessageHeader_def IOC_STRUCT_MAX_def
        IOC_EAGER_MAX_READ_def IOC_EAGER_MAX_WRITE_def W64_def)
  have a: "?a = c\<lparr>lc_recvBuffers := [?fresh, m @ drop (length m) ?fresh], lc_fabric := \<lparr>fb_codes = [], fb_cq = [CqEntry (CqRecv 1)], fb_ops = [], fb_recv = [0]\<rparr>\<rparr>"
    by (simp add: arrive_def wit_arrival_def c)
  have comp: "completions ?a = [CqRecv 1]" unfolding a by (simp add: c completions_def setTcpClientInfos_def LibfabricConnection_init_def)
  have w: "world_ok 0 (\<lambda>_. 0) ?X wit_pool_world"
    by (auto simp: world_ok_def wit_pool_world_def wit_client_world_def wit_world_def owned_blocks_def backends.in_use_def heap_ok_def wit_client_frame_def
        frame_ok_def fr_blocks_def LibfabricDomain_init_def split: if_splits)
  have ok: "client_ok (wit_client_context wit_bytes) ?X 0 (\<lambda>_. 0) ?a wit_pool_world"
    unfolding client_ok_def using len w comp unfolding a
    by (simp add: c conn_ok_def net_ok_def foreign_ok_def wit_client_context_def msg_buffers_ok_def inflight_def pending_count_def
        wit_client_frame_def setTcpClientInfos_def LibfabricConnection_init_def)
  have dl: "delivers wit_fabric 5 1 m (joining wit_endpoint ?a) wit_pool_world"
    unfolding delivers_def a by (intro conjI exI [of _ "[]"] exI [of _ "drop (length m) ?fresh"])
      (simp_all add: c wit_pool_world_def wit_client_world_def setTcpClientInfos_def LibfabricConnection_init_def IOC_LF_SERVER_ID_def buffer_available_def
        getMsgBuffer_def completions_def joining_def registerHook_def wit_endpoint_def)
  have dl': "delivers wit_fabric 5 1 (MessageHeader_wire ?h @ FirstHandshake_wire ?hs) (joining wit_endpoint ?a) wit_pool_world"
    using dl unfolding m .
  have hd: "MessageHeader_ok ?h" "FirstHandshake_ok ?hs"
    using msg_code_small [of IOC_LF_MSG_ASSIGN_ID]
    by (simp_all add: MessageHeader_ok_def FirstHandshake_ok_def IOC_LF_PROTOCOL_VERSION_def int32_ok_def W64_def del: msg_code.simps)
  have e: "fst (eo_av_insert wit_endpoint (eo_dest_addr wit_endpoint)) = 1" "fst (eo_getname wit_endpoint) = 0" "length (snd (eo_getname wit_endpoint)) \<le> IOC_LF_MAX_ADDR_LEN"
    by (simp_all add: wit_endpoint_def)
  have size: "32 + IOC_LF_MAX_ADDR_LEN \<le> fr_msgBufferSize ?X" "\<not> lc_disableReceive ?a" "polls ?a \<le> 2"
    unfolding a using wit_small(2) by (simp_all add: wit_client_frame_def IOC_LF_MAX_ADDR_LEN_def c setTcpClientInfos_def LibfabricConnection_init_def)
  obtain c' w' where "joinServer 2 wit_fabric wit_endpoint no_hook no_fun () ?a wit_pool_world = Inr (True, (), c', w')"
    using joinServer_joins [OF ok dl' e hd(1) _ hd(2) _ size] by auto
  then have "take_connection 2 wit_fabric wit_endpoint (\<lambda>_. 0) (wit_arrival m) client wit_pool_world = Inr (Some 0, client\<lparr>ic_connections := [c'\<lparr>lc_used := True\<rparr>]\<rparr>, w')"
    using cl post by (simp add: take_connection_def wit_pool_client_def)
  then show ?thesis by blast
qed

theorem connections_exclusive_witness:
  "\<exists>p. pool_reachable wit_fabric wit_endpoint (\<lambda>_. 0) p \<and> pl_threads p = [Holding 0, Entered] \<and> lc_used (ic_connections (pl_client p) ! 0) \<and>
     length (ic_connections (pl_client p)) \<le> IOC_CLIENT_MAX_CONN"
proof -
  let ?reach = "pool_reachable wit_fabric wit_endpoint (\<lambda>_. 0)" and ?enter = "\<lambda>n. wit_pool_client\<lparr>ic_connections_semaphore := n\<rparr>"
  obtain sk and w w' :: "unit world" where "ioc_client_init sk w = Inr (wit_pool_client, w')" using wit_pool_init by blast
  then have "?reach \<lparr>pl_client = wit_pool_client, pl_threads = []\<rparr>" by (rule pool_init)
  from pool_next [OF this pool_enter, of "?enter 7"] have "?reach \<lparr>pl_client = ?enter 7, pl_threads = [Entered]\<rparr>" by (simp add: sem_wait_def wit_pool_client_def)
  from pool_next [OF this pool_enter, of "?enter 6"] have two: "?reach \<lparr>pl_client = ?enter 6, pl_threads = [Entered, Entered]\<rparr>"
    by (simp add: sem_wait_def wit_pool_client_def)
  obtain c w'' bytes where t: "take_connection 2 wit_fabric wit_endpoint (\<lambda>_. 0) (wit_arrival bytes) (?enter 6) wit_pool_world =
      Inr (Some 0, (?enter 6)\<lparr>ic_connections := [c\<lparr>lc_used := True\<rparr>]\<rparr>, w'')"
    using wit_pool_take [of "?enter 6"] by (auto simp: wit_pool_client_def)
  let ?p = "\<lparr>pl_client = (?enter 6)\<lparr>ic_connections := [c\<lparr>lc_used := True\<rparr>]\<rparr>, pl_threads = [Holding 0, Entered]\<rparr>"
  have r: "?reach ?p" using pool_next [OF two pool_take [of 0]] t by simp
  show ?thesis using connections_exclusive [OF r, of 0 1 0] r by (intro exI [of _ ?p]) simp
qed

end
