(* ===== verification/Server_Lifecycle.thy ===== *)
theory Server_Lifecycle
  imports Server_Inv
begin

text \<open>
  The life of the server outside its polling loop: \<open>startStatsThread\<close>, \<open>stop\<close> and the destructor of
  src/server/core/Server.cpp, and the program that puts the parts together (src/server/main.cpp).
  \<open>stop\<close> runs in another thread than \<open>poll\<close>; the flag \<open>pollRunning\<close> that they share is a volatile
  variable and its accesses are the atomic steps of the second half.
\<close>

section \<open>Operations\<close>

definition startStatsThread :: "'s server \<Rightarrow> 's server" where
  "startStatsThread s = s\<lparr>sv_statsRunning := True\<rparr>"

text \<open>
  \<open>stop\<close> when no thread is in \<open>poll\<close>: with the flag set it waits for a thread that does not exist, \<open>None\<close>.
  The thread of the statistics and the TCP thread are joined and the TCP server is deleted.
\<close>

definition Server_stop :: "'s server \<Rightarrow> 's server option" where
  "Server_stop s = (if sv_pollRunning s then None else Some (s\<lparr>sv_statsRunning := False, sv_tcpServer := False\<rparr>))"

text \<open>
  The destructor: container, memory backend, connection and domain in this order.  \<open>None\<close> is a call that does
  not return within \<open>fuel\<close> turns of the wait for the pending actions.
\<close>

definition Server_destroy :: "nat \<Rightarrow> fabric_ops \<Rightarrow> endpoint_ops \<Rightarrow> 's storage_ops \<Rightarrow> 's server \<Rightarrow> 's world option result" where
  "Server_destroy fuel fi eo so s = (case Server_stop s of
     None \<Rightarrow> Inr None
   | Some s \<Rightarrow>
       bindE (Container_destroy (ap_container (sv_app s)) (sv_world s)) (\<lambda>w.
       case w_backends w (sv_memoryBackend s) of
         None \<Rightarrow> Inl UseAfterFree
       | Some b \<Rightarrow>
           bindE (backend_destroy b (w_mem w)) (\<lambda>m.
           let w = w\<lparr>w_mem := m, w_backends := (w_backends w)(sv_memoryBackend s := None)\<rparr> in
           bindE (LibfabricConnection_destroy fuel fi eo (run_hook fi so) (run_fun fi) (sv_app s) (sv_connection s) w) (\<lambda>(finished, _, _, w).
           if finished then
             bindE (LibfabricDomain_destroy (mem_domain (w_mem w)) (mem_heap (w_mem w))) (\<lambda>(d, h).
             Inr (Some (w\<lparr>w_mem := \<lparr>mem_heap = h, mem_domain = d\<rparr>\<rparr>)))
           else Inr None))))"

text \<open>
  The program: \<open>calls\<close> are the calls that \<open>argp\<close> makes for the command line, \<open>None\<close> is the exit with a usage message.
  \<open>mero\<close> says whether the program is built with Mero, whose initialisation succeeded.  The loop of \<open>poll\<close> ends
  after \<open>turns\<close> turns by a call of \<open>stop\<close> from another thread, which leaves the flag cleared.
\<close>

definition server_main ::
  "nat \<Rightarrow> nat \<Rightarrow> fabric_ops \<Rightarrow> endpoint_ops \<Rightarrow> 's storage_ops \<Rightarrow> (nat \<Rightarrow> byte) \<Rightarrow> argp_call list \<Rightarrow> bool \<Rightarrow> 's world \<Rightarrow> 's world option result" where
  "server_main turns fuel fi eo so junk calls mero w = (case parseArgs calls Config_init of
     None \<Rightarrow> Inr None
   | Some cfg \<Rightarrow>
       let cfg = cfg\<lparr>cf_broadcastErrorToClients := True\<rparr> in
       bindE (Server_init cfg junk w) (\<lambda>s.
       bindE (Server_setStorageBackend mero s) (\<lambda>s.
       bindE (if cf_nvdimmMountPath cfg \<noteq> [] then setNvdimm 1 (cf_nvdimmMountPath cfg) s else Inr s) (\<lambda>s.
       let s = startStatsThread (setOnClientConnect s) in
       bindE (Server_poll turns fi eo so s) (\<lambda>s.
       let s = s\<lparr>sv_pollRunning := False\<rparr> in
       bindE (if mero then Server_setStorageBackend False s else Inr s) (\<lambda>s.
       Server_destroy fuel fi eo so s))))))"

section \<open>What the destructors give back\<close>

lemma destroy_objects:
  assumes "world_ok mb (ct_refs its) X w" "\<forall>(k, p) \<in> set its. \<exists>ob. p = Some ob \<and> map_ok w (obj_segmentMap ob)" "Container_destroy_loop its w = Inr w'"
  shows "world_ok mb (\<lambda>_. 0) X w' \<and> w_storage w' = w_storage w"
  using assms
proof (induction its arbitrary: w)
  case (Cons e its)
  obtain k ob where e: "e = (k, Some ob)" "map_ok w (obj_segmentMap ob)" using Cons.prems(2) by fastforce
  obtain w1 where w1: "Object_destroy ob w = Inr w1" "Container_destroy_loop its w1 = Inr w'"
    using Cons.prems(3) e(1) by (auto simp: delete_object_def elim!: bindE_InrE)
  have "world_ok mb (\<lambda>i. map_refs (obj_segmentMap ob) i + ct_refs its i) X w" using Cons.prems(1) e(1) by (simp add: ob_refs_def)
  from Object_destroy_effect [OF this e(2) w1(1)]
  have D: "world_ok mb (ct_refs its) X w1" "data_kept {i. 0 < ct_refs its i} w w1" "w_storage w1 = w_storage w" by blast+
  have "\<exists>ob. p = Some ob \<and> map_ok w1 (obj_segmentMap ob)" if m: "(k, p) \<in> set its" for k p
  proof -
    obtain o1 where o1: "p = Some o1" "map_ok w (obj_segmentMap o1)" using Cons.prems(2) m by fastforce
    have "{i. 0 < map_refs (obj_segmentMap o1) i} \<subseteq> {i. 0 < ct_refs its i}" using ct_refs_pos m o1(1) by blast
    then have "map_view w1 (obj_segmentMap o1) = map_view w (obj_segmentMap o1)" using kept_view [OF data_kept_mono [OF D(2)]] by blast
    then show ?thesis using map_ok_view o1 by blast
  qed
  then show ?case using Cons.IH [OF D(1) _ w1(2)] D(3) by auto
next
  case Nil
  have "ct_refs [] = (\<lambda>_. 0)" by (rule ext) simp
  then show ?case using Nil by simp
qed

lemma no_references: "world_ok mb (\<lambda>_. 0) X w \<Longrightarrow> w_shared w i = None"
  by (cases "w_shared w i") (fastforce simp: world_ok_def)+

text \<open>The destructor of the container leaves no segment memory behind, and the storage alone.\<close>

lemma container_released:
  assumes ok: "container_ok X mb w ct" and run: "Container_destroy ct w = Inr w'"
  shows "world_ok mb (\<lambda>_. 0) X w' \<and> (\<forall>i. w_shared w' i = None) \<and> w_storage w' = w_storage w"
proof -
  have "\<forall>(k, p) \<in> set (ct_objects ct). \<exists>ob. p = Some ob \<and> map_ok w (obj_segmentMap ob)"
    using container_okD(4) [OF ok] by (fastforce simp: member_ok_def)
  then show ?thesis using destroy_objects [OF container_okD(3) [OF ok] _ run [unfolded Container_destroy_def]] no_references by blast
qed

text \<open>The buffers of the pool that are live and registered by themselves are un-registered and freed, all other blocks stay.\<close>

lemma pool_released:
  assumes "domain_ok d" "distinct ps" "\<forall>p \<in> set ps. \<exists>k m. p = Ptr k 0 \<and> hp_blocks h k \<noteq> None \<and>
      (ptr_add p (n - 1), \<lparr>mr_ptr = p, mr_size = n, mr_mr = m\<rparr>) \<in> set (ld_segments d)"
  shows "\<exists>d' h'. release_buffers ps n d h = Inr (d', h') \<and> domain_ok d' \<and>
    hp_blocks h' = (\<lambda>k. if Ptr k 0 \<in> set ps then None else hp_blocks h k)"
  using assms
proof (induction ps arbitrary: d h)
  case (Cons p ps)
  obtain k m where p: "p = Ptr k 0" "hp_blocks h k \<noteq> None" "(ptr_add p (n - 1), \<lparr>mr_ptr = p, mr_size = n, mr_mr = m\<rparr>) \<in> set (ld_segments d)"
    using Cons.prems(3) by auto
  have "region_ok (ptr_add p (n - 1)) \<lparr>mr_ptr = p, mr_size = n, mr_mr = m\<rparr>" using Cons.prems(1) p(3) unfolding domain_ok_def by blast
  then have "0 < n" by (simp add: region_ok_def)
  then have "region_covers \<lparr>mr_ptr = p, mr_size = n, mr_mr = m\<rparr> p" by (simp add: region_covers_def p(1))
  then have u: "unregisterSegment p n d = Inr (d\<lparr>ld_segments := sm_erase (ptr_add p (n - 1)) (ld_segments d)\<rparr>)" (is "_ = Inr ?d")
    by (rule unregisterSegment_covering [OF Cons.prems(1) p(3)])
  let ?h = "h\<lparr>hp_blocks := (hp_blocks h)(k := None)\<rparr>"
  have f: "free_block p h = Inr ?h" using p(1,2) by simp
  have "\<forall>q \<in> set ps. \<exists>k m. q = Ptr k 0 \<and> hp_blocks ?h k \<noteq> None \<and>
      (ptr_add q (n - 1), \<lparr>mr_ptr = q, mr_size = n, mr_mr = m\<rparr>) \<in> set (ld_segments ?d)"
    using Cons.prems(2,3) p(1) by fastforce
  from Cons.IH [OF unregisterSegment_domain_ok [OF Cons.prems(1) u] _ this]
  obtain d' h' where R: "release_buffers ps n ?d ?h = Inr (d', h')" "domain_ok d'" "hp_blocks h' = (\<lambda>k. if Ptr k 0 \<in> set ps then None else hp_blocks ?h k)"
    using Cons.prems(2) by auto
  have "hp_blocks h' = (\<lambda>j. if Ptr j 0 \<in> set (p # ps) then None else hp_blocks h j)" unfolding R(3) using p(1) by (auto simp: fun_eq_iff)
  then show ?case using u f R(1,2) by simp
qed simp

section \<open>Stopping the polling thread\<close>

text \<open>
  One thread in \<open>poll\<close> and one in \<open>stop\<close>.  Every access to the volatile flag that they share is a step of its own:
  \<open>Testing\<close> is before the test of the loop, \<open>InRound\<close> between a test that succeeded and the end of \<open>connection->poll\<close>, so that \<open>stop\<close>
  can clear the flag after the test and during the round; \<open>LeftLoop\<close> is before the last assignment of \<open>poll\<close>.  \<open>connection->poll\<close>
  does not touch the flag and \<open>stop\<close> touches nothing else of what it uses, so the round as one step has the effect of
  any interleaving with \<open>stop\<close> (\<open>round_core\<close>).  The messages that arrive meanwhile and the TCP thread are not steps here.
\<close>

datatype poll_phase = PollCalled | Testing | InRound | LeftLoop | PollReturned

inductive poll_step :: "fabric_ops \<Rightarrow> endpoint_ops \<Rightarrow> 's storage_ops \<Rightarrow> 's server \<times> poll_phase \<Rightarrow> 's server \<times> poll_phase \<Rightarrow> bool" for fi eo so where
  poll_enter: "poll_step fi eo so (s, PollCalled) (s\<lparr>sv_pollRunning := True\<rparr>, Testing)"
| poll_test: "sv_pollRunning s \<Longrightarrow> poll_step fi eo so (s, Testing) (s, InRound)"
| poll_turn: "server_round fi eo so s = Inr s' \<Longrightarrow> poll_step fi eo so (s, InRound) (s', Testing)"
| poll_exit: "\<not> sv_pollRunning s \<Longrightarrow> poll_step fi eo so (s, Testing) (s, LeftLoop)"
| poll_return: "poll_step fi eo so (s, LeftLoop) (s\<lparr>sv_pollRunning := True\<rparr>, PollReturned)"

text \<open>
  \<open>Asked\<close> is after the test of \<open>stop\<close>, \<open>Waiting\<close> in its empty loop, \<open>Woken\<close> behind that loop; \<open>StopStats\<close> and \<open>StopTcp\<close> are before
  the parts that end the thread of the statistics and the TCP thread, each of which joins the thread.
\<close>

datatype stop_phase = StopCalled | Asked | Waiting | Woken | StopStats | StopTcp | StopReturned

inductive stop_call :: "'s server \<times> stop_phase \<Rightarrow> 's server \<times> stop_phase \<Rightarrow> bool" where
  stop_test: "stop_call (s, StopCalled) (s, if sv_pollRunning s then Asked else StopStats)"
| stop_clear: "stop_call (s, Asked) (s\<lparr>sv_pollRunning := False\<rparr>, Waiting)"
| stop_wake: "sv_pollRunning s \<Longrightarrow> stop_call (s, Waiting) (s, Woken)"
| stop_clear_again: "stop_call (s, Woken) (s\<lparr>sv_pollRunning := False\<rparr>, StopStats)"
| stop_stats: "stop_call (s, StopStats) (s\<lparr>sv_statsRunning := False\<rparr>, StopTcp)"
| stop_tcp: "stop_call (s, StopTcp) (s\<lparr>sv_tcpServer := False\<rparr>, StopReturned)"

type_synonym 's stop_state = "'s server \<times> poll_phase \<times> stop_phase"

inductive stop_step :: "fabric_ops \<Rightarrow> endpoint_ops \<Rightarrow> 's storage_ops \<Rightarrow> 's stop_state \<Rightarrow> 's stop_state \<Rightarrow> bool" for fi eo so where
  poll_moves: "poll_step fi eo so (s, p) (s', p') \<Longrightarrow> stop_step fi eo so (s, p, q) (s', p', q)"
| stop_moves: "stop_call (s, q) (s', q') \<Longrightarrow> stop_step fi eo so (s, p, q) (s', p, q')"

abbreviation stop_run :: "fabric_ops \<Rightarrow> endpoint_ops \<Rightarrow> 's storage_ops \<Rightarrow> 's stop_state \<Rightarrow> 's stop_state \<Rightarrow> bool" where
  "stop_run fi eo so \<equiv> (stop_step fi eo so)\<^sup>*\<^sup>*"

lemma stop_run_step [trans]: "stop_run fi eo so st st' \<Longrightarrow> stop_step fi eo so st' st'' \<Longrightarrow> stop_run fi eo so st st''"
  by (rule rtranclp.rtrancl_into_rtrancl)


lemmas stop_intros = poll_moves [OF poll_enter] poll_moves [OF poll_test] poll_moves [OF poll_turn] poll_moves [OF poll_exit]
  poll_moves [OF poll_return] stop_moves [OF stop_test] stop_moves [OF stop_clear] stop_moves [OF stop_wake] stop_moves [OF stop_clear_again]
  stop_moves [OF stop_stats] stop_moves [OF stop_tcp]

text \<open>The server without the variables that \<open>stop\<close> and \<open>poll\<close> write, and what a round does to it.\<close>

definition core :: "'s server \<Rightarrow> 's server" where
  "core s = s\<lparr>sv_pollRunning := False, sv_statsRunning := False, sv_tcpServer := False\<rparr>"

lemma core_update [simp]:
  "core (s\<lparr>sv_pollRunning := b\<rparr>) = core s" "core (s\<lparr>sv_statsRunning := b\<rparr>) = core s" "core (s\<lparr>sv_tcpServer := b\<rparr>) = core s"
  by (simp_all add: core_def)















text \<open>
  A call of \<open>stop\<close> that comes before \<open>poll\<close> has set the flag is lost: it returns at once, and the polling loop then
  runs without an end in sight.
\<close>

lemma early_stop_lost:
  assumes "Server_init cfg junk w = Inr s"
  shows "stop_run fi eo so (s, PollCalled, StopCalled) (s\<lparr>sv_statsRunning := False, sv_tcpServer := False, sv_pollRunning := True\<rparr>, Testing, StopReturned)"
proof -
  let ?s = "s\<lparr>sv_statsRunning := False\<rparr>"
  have "\<not> sv_pollRunning s" using assms by (auto simp: Server_init_def Let_def elim!: bindE_InrE)
  then have "stop_run fi eo so (s, PollCalled, StopCalled) (s, PollCalled, StopStats)"
    using r_into_rtranclp [of "stop_step fi eo so", OF stop_intros(6) [of fi eo so s PollCalled]] by simp
  also have "stop_step fi eo so (s, PollCalled, StopStats) (?s, PollCalled, StopTcp)" by (rule stop_intros)
  also have "stop_step fi eo so (?s, PollCalled, StopTcp) (?s\<lparr>sv_tcpServer := False\<rparr>, PollCalled, StopReturned)" by (rule stop_intros)
  also have "stop_step fi eo so (?s\<lparr>sv_tcpServer := False\<rparr>, PollCalled, StopReturned) (?s\<lparr>sv_tcpServer := False, sv_pollRunning := True\<rparr>, Testing, StopReturned)"
    by (rule stop_intros)
  finally show ?thesis by simp
qed


end
